(* ===== verification/Broker_Prelude.thy ===== *)
theory Broker_Prelude
  imports Main "HOL-Library.AList" "HOL-Library.Word"
begin

text \<open>
  What the theories of this library share: the named collections of facts, hash tables, and
  text.

  A Rust \<open>HashMap\<close> is an association list with distinct keys. The code looks a
  table up, inserts, removes, retains by a predicate, counts its entries and asks whether some
  entry satisfies a predicate; none of these depends on the order the table is iterated in, so the
  order of the list carries no meaning.

  A Rust \<open>String\<close> or \<open>&str\<close> is a \<open>string\<close> holding its UTF-8 bytes, one byte per
  \<open>char\<close>, so \<open>length\<close> is the byte length that \<open>str::len\<close> returns.
\<close>

named_theorems broker_inv \<open>introduction rules for well-formedness predicates\<close>
named_theorems broker_frame \<open>what an operation leaves unchanged\<close>

section \<open>Hash tables\<close>

type_synonym ('k, 'v) hash = "('k \<times> 'v) list"

abbreviation hget :: "('k, 'v) hash \<Rightarrow> 'k \<Rightarrow> 'v option" where
  "hget h k \<equiv> map_of h k"

abbreviation hput :: "'k \<Rightarrow> 'v \<Rightarrow> ('k, 'v) hash \<Rightarrow> ('k, 'v) hash" where
  "hput \<equiv> AList.update"

abbreviation hdel :: "'k \<Rightarrow> ('k, 'v) hash \<Rightarrow> ('k, 'v) hash" where
  "hdel \<equiv> AList.delete"

definition hretain :: "('k \<Rightarrow> 'v \<Rightarrow> bool) \<Rightarrow> ('k, 'v) hash \<Rightarrow> ('k, 'v) hash" where
  "hretain P h = filter (\<lambda>(k, v). P k v) h"

definition hwf :: "('k, 'v) hash \<Rightarrow> bool" where
  "hwf h \<longleftrightarrow> distinct (map fst h)"

lemma hwf_Nil [simp, broker_inv]: "hwf []"
  by (simp add: hwf_def)

lemma hwf_hput [simp, broker_inv]: "hwf h \<Longrightarrow> hwf (hput k v h)"
  by (simp add: hwf_def distinct_update)

lemma hwf_hdel [simp, broker_inv]: "hwf h \<Longrightarrow> hwf (hdel k h)"
  by (simp add: hwf_def distinct_delete)

lemma hwf_hretain [simp, broker_inv]: "hwf h \<Longrightarrow> hwf (hretain P h)"
  by (auto simp: hwf_def hretain_def distinct_map inj_on_def)

lemma hget_hput: "hget (hput k v h) k' = (if k' = k then Some v else hget h k')"
  by (simp add: update_conv')

lemma hget_hdel: "hget (hdel k h) k' = (if k' = k then None else hget h k')"
  by (simp add: delete_conv')

lemma hget_hretain:
  "hwf h \<Longrightarrow> hget (hretain P h) k =
     (case hget h k of Some v \<Rightarrow> if P k v then Some v else None | None \<Rightarrow> None)"
  by (induction h)
    (auto simp: hretain_def hwf_def split: option.splits dest: map_of_SomeD intro: rev_image_eqI)

lemma length_hput:
  "length (hput k v h) = (if hget h k = None then Suc (length h) else length h)"
  by (induction h) auto

lemma length_hdel_le: "length (hdel k h) \<le> length h"
  by (rule length_delete_le)

lemma length_hretain_le: "length (hretain P h) \<le> length h"
  by (simp add: hretain_def)

lemma hget_in_set: "hget h k = Some v \<Longrightarrow> (k, v) \<in> set h"
  by (rule map_of_SomeD)

lemma in_set_hget: "hwf h \<Longrightarrow> (k, v) \<in> set h \<Longrightarrow> hget h k = Some v"
  by (simp add: hwf_def)

lemma set_hput_subset: "set (hput k v h) \<subseteq> insert (k, v) (set h)"
  by (induction h) auto

lemma set_hput_cases: "x \<in> set (hput k v h) \<Longrightarrow> x = (k, v) \<or> x \<in> set h"
  using set_hput_subset by fastforce

lemma set_hdel: "set (hdel k h) = {x \<in> set h. fst x \<noteq> k}"
  by (auto simp: AList.delete_eq)

lemma set_hretain: "set (hretain P h) = {x \<in> set h. P (fst x) (snd x)}"
  by (auto simp: hretain_def)

lemma hput_same: "hget h k = Some v \<Longrightarrow> hput k v h = h"
  by (rule update_triv)

lemma hdel_absent: "hget h k = None \<Longrightarrow> hdel k h = h"
  by (simp add: map_of_eq_None_iff)

lemma hdel_hput_absent: "hget h k = None \<Longrightarrow> hdel k (hput k v h) = h"
  by (simp add: delete_update_same hdel_absent)

lemma hretain_hretain: "hretain P (hretain Q h) = hretain (\<lambda>k v. P k v \<and> Q k v) h"
  by (auto simp: hretain_def intro: filter_cong)

lemma hretain_id: "(\<And>k v. (k, v) \<in> set h \<Longrightarrow> P k v) \<Longrightarrow> hretain P h = h"
  by (auto simp: hretain_def intro!: filter_True)

lemma list_all_hput: "list_all P h \<Longrightarrow> P (k, v) \<Longrightarrow> list_all P (hput k v h)"
  using set_hput_subset [of k v h] by (auto simp: list_all_iff)

lemma list_all_hdel: "list_all P h \<Longrightarrow> list_all P (hdel k h)"
  by (auto simp: list_all_iff set_hdel)

lemma list_all_hretain: "list_all P h \<Longrightarrow> list_all P (hretain Q h)"
  by (auto simp: list_all_iff set_hretain)

lemmas list_all_hash = list_all_hput list_all_hdel list_all_hretain

section \<open>Text\<close>

text \<open>\<open>str::starts_with\<close> and \<open>str::contains\<close> with a string pattern.\<close>

fun starts_with :: "string \<Rightarrow> string \<Rightarrow> bool" where
  "starts_with [] s = True"
| "starts_with (p # ps) [] = False"
| "starts_with (p # ps) (c # s) = (p = c \<and> starts_with ps s)"

fun str_contains :: "string \<Rightarrow> string \<Rightarrow> bool" where
  "str_contains pat [] = (pat = [])"
| "str_contains pat (c # s) = (starts_with pat (c # s) \<or> str_contains pat s)"

lemma starts_with_append: "starts_with p (p @ s)"
  by (induction p) auto

lemma starts_with_iff: "starts_with p s \<longleftrightarrow> (\<exists>t. s = p @ t)"
  by (induction p s rule: starts_with.induct) auto

lemma str_contains_append: "str_contains pat (xs @ pat @ ys)"
proof (induction xs)
  case Nil
  have "starts_with pat (pat @ ys)" by (rule starts_with_append)
  then show ?case by (cases "pat @ ys") auto
next
  case (Cons x xs)
  then show ?case by simp
qed

text \<open>Decimal digits of an integer, as \<open>Display\<close> writes them.\<close>

definition digit :: "nat \<Rightarrow> char" where
  "digit d = (char_of (48 + d) :: char)"

fun dec :: "nat \<Rightarrow> string" where
  "dec n = (if n < 10 then [digit n] else dec (n div 10) @ [digit (n mod 10)])"

declare dec.simps [simp del]

definition dec_int :: "int \<Rightarrow> string" where
  "dec_int i = (if i < 0 then ''-'' @ dec (nat (- i)) else dec (nat i))"

text \<open>A bool, as \<open>Display\<close> writes it.\<close>

definition show_bool :: "bool \<Rightarrow> string" where
  "show_bool b = (if b then ''true'' else ''false'')"

text \<open>Lower-case hexadecimal digits of a code point, as \<open>char::escape_unicode\<close> writes them.\<close>

definition hex_digit :: "nat \<Rightarrow> char" where
  "hex_digit d = (char_of (if d < 10 then 48 + d else 87 + d) :: char)"

fun hex :: "nat \<Rightarrow> string" where
  "hex n = (if n < 16 then [hex_digit n] else hex (n div 16) @ [hex_digit (n mod 16)])"

declare hex.simps [simp del]

text \<open>Two characters of the source's messages that are not ASCII: an em dash and an arrow.\<close>

definition em_dash :: string where
  "em_dash = [CHR 0xE2, CHR 0x80, CHR 0x94]"

definition right_arrow :: string where
  "right_arrow = [CHR 0xE2, CHR 0x86, CHR 0x92]"

text \<open>ASCII classes of \<open>char\<close>.\<close>

definition byte :: "char \<Rightarrow> nat" where
  "byte c = of_char c"

definition is_lower :: "char \<Rightarrow> bool" where
  "is_lower c \<longleftrightarrow> 97 \<le> byte c \<and> byte c \<le> 122"

definition is_alnum :: "char \<Rightarrow> bool" where
  "is_alnum c \<longleftrightarrow> 48 \<le> byte c \<and> byte c \<le> 57 \<or> 65 \<le> byte c \<and> byte c \<le> 90 \<or> is_lower c"

text \<open>
  A byte that cannot end or forge a line of a text log: not an ASCII control byte. A byte of a
  character beyond ASCII is 128 or more.
\<close>

definition log_safe_char :: "char \<Rightarrow> bool" where
  "log_safe_char c \<longleftrightarrow> 32 \<le> byte c \<and> byte c \<noteq> 127"

definition log_safe :: "string \<Rightarrow> bool" where
  "log_safe s \<longleftrightarrow> list_all log_safe_char s"

lemma log_safe_simps [simp]:
  "log_safe []"
  "log_safe (c # s) \<longleftrightarrow> log_safe_char c \<and> log_safe s"
  "log_safe (s @ t) \<longleftrightarrow> log_safe s \<and> log_safe t"
  by (auto simp: log_safe_def)

lemma log_safe_concat: "(\<And>s. s \<in> set ss \<Longrightarrow> log_safe s) \<Longrightarrow> log_safe (concat ss)"
  by (induction ss) auto

lemma is_alnum_safe: "is_alnum c \<Longrightarrow> log_safe_char c"
  by (auto simp: is_alnum_def is_lower_def log_safe_char_def)

lemma log_safe_char_digit [simp]: "d < 10 \<Longrightarrow> log_safe_char (digit d)"
  by (simp add: log_safe_char_def digit_def byte_def)

lemma log_safe_dec [simp]: "log_safe (dec n)"
  by (induction n rule: dec.induct) (simp add: dec.simps)

lemma log_safe_dec_int [simp]: "log_safe (dec_int i)"
  by (simp add: dec_int_def log_safe_char_def byte_def)

lemma log_safe_hex [simp]: "log_safe (hex n)"
proof (induction n rule: hex.induct)
  case (1 n)
  have "log_safe_char (hex_digit d)" if "d < 16" for d
    using that by (simp add: log_safe_char_def hex_digit_def byte_def)
  then show ?case using 1 by (simp add: hex.simps [of n])
qed

lemma log_safe_show_bool [simp]: "log_safe (show_bool b)"
  by (simp add: show_bool_def log_safe_char_def byte_def)

lemma log_safe_em_dash [simp]: "log_safe em_dash"
  by (simp add: em_dash_def log_safe_char_def byte_def)

lemma log_safe_right_arrow [simp]: "log_safe right_arrow"
  by (simp add: right_arrow_def log_safe_char_def byte_def)

section \<open>The \<open>Debug\<close> form of a string\<close>

text \<open>
  \<open>format!("{s:?}")\<close> writes a string between double quotes, with \<open>\0\<close>, \<open>\t\<close>, \<open>\n\<close>, \<open>\r\<close>, the
  backslash and the double quote escaped, and every other character the Unicode tables of the
  standard library call unprintable (or a grapheme extender) as \<open>\u{hex}\<close>. Those tables are the
  argument \<open>verbatim\<close>: true of a code point beyond ASCII that is written as it is.
\<close>

definition utf8_width :: "char \<Rightarrow> nat" where
  "utf8_width c = (if byte c < 0xC0 then 1 else if byte c < 0xE0 then 2
     else if byte c < 0xF0 then 3 else 4)"

function utf8_chars :: "string \<Rightarrow> string list" where
  "utf8_chars [] = []"
| "utf8_chars (c # s) =
     (c # take (utf8_width c - 1) s) # utf8_chars (drop (utf8_width c - 1) s)"
  by pat_completeness auto
termination
  by (relation "measure length") auto

definition code_point :: "string \<Rightarrow> nat" where
  "code_point bs = (case bs of
     [] \<Rightarrow> 0
   | b # cont \<Rightarrow>
       foldl (\<lambda>acc c. acc * 64 + byte c mod 64)
         (if byte b < 0x80 then byte b else if byte b < 0xE0 then byte b mod 32
          else if byte b < 0xF0 then byte b mod 16 else byte b mod 8) cont)"

definition backslash :: char where
  "backslash = CHR 0x5C"

definition unicode_escape :: "nat \<Rightarrow> string" where
  "unicode_escape n = backslash # ''u{'' @ hex n @ ''}''"

definition debug_char :: "(nat \<Rightarrow> bool) \<Rightarrow> string \<Rightarrow> string" where
  "debug_char verbatim bs =
     (let n = code_point bs in
      if n = 0 then [backslash, CHR ''0'']
      else if n = 9 then [backslash, CHR ''t'']
      else if n = 10 then [backslash, CHR ''n'']
      else if n = 13 then [backslash, CHR ''r'']
      else if n = 34 then [backslash, CHR 0x22]
      else if n = 92 then [backslash, backslash]
      else if n < 128 then (if 32 \<le> n \<and> n \<noteq> 127 then [char_of n] else unicode_escape n)
      else if verbatim n then bs else unicode_escape n)"

definition debug_str :: "(nat \<Rightarrow> bool) \<Rightarrow> string \<Rightarrow> string" where
  "debug_str verbatim s =
     CHR 0x22 # concat (map (debug_char verbatim) (utf8_chars s)) @ [CHR 0x22]"

text \<open>\<open>{:?}\<close> of a list of strings.\<close>

fun debug_list_items :: "(nat \<Rightarrow> bool) \<Rightarrow> string list \<Rightarrow> string" where
  "debug_list_items v [] = []"
| "debug_list_items v [s] = debug_str v s"
| "debug_list_items v (s # t # ss) = debug_str v s @ '', '' @ debug_list_items v (t # ss)"

definition debug_strs :: "(nat \<Rightarrow> bool) \<Rightarrow> string list \<Rightarrow> string" where
  "debug_strs v ss = ''['' @ debug_list_items v ss @ '']''"

text \<open>
  A character of a valid UTF-8 string has continuation bytes between 128 and 191 and only those.
  For such strings the \<open>Debug\<close> form carries no control byte.
\<close>

fun utf8_ok :: "string \<Rightarrow> bool" where
  "utf8_ok bs = (case bs of [] \<Rightarrow> False | b # cont \<Rightarrow>
     length cont = utf8_width b - 1 \<and> (cont = [] \<longrightarrow> byte b < 0x80) \<and>
     list_all (\<lambda>c. 0x80 \<le> byte c \<and> byte c < 0xC0) cont)"

definition utf8 :: "string \<Rightarrow> bool" where
  "utf8 s \<longleftrightarrow> list_all utf8_ok (utf8_chars s)"

lemma log_safe_unicode_escape [simp]: "log_safe (unicode_escape n)"
  by (simp add: unicode_escape_def backslash_def log_safe_char_def byte_def)

lemma utf8_width_ascii [simp]: "byte c < 0x80 \<Longrightarrow> utf8_width c = 1"
  by (simp add: utf8_width_def)

lemma ascii_utf8_chars: "(\<And>c. c \<in> set s \<Longrightarrow> byte c < 128) \<Longrightarrow> utf8_chars s = map (\<lambda>c. [c]) s"
  by (induction s rule: utf8_chars.induct) auto

lemma ascii_utf8: "(\<And>c. c \<in> set s \<Longrightarrow> byte c < 128) \<Longrightarrow> utf8 s"
  by (auto simp: utf8_def ascii_utf8_chars list_all_iff)

lemma utf8_ok_safe_bytes: "utf8_ok bs \<Longrightarrow> tl bs \<noteq> [] \<Longrightarrow> log_safe bs"
  by (cases bs)
    (auto simp: utf8_width_def log_safe_def log_safe_char_def list_all_iff split: if_splits)

lemma code_point_ascii: "byte b < 0x80 \<Longrightarrow> code_point [b] = byte b"
  by (simp add: code_point_def)

lemma log_safe_debug_char: "utf8_ok bs \<Longrightarrow> log_safe (debug_char v bs)"
proof -
  assume ok: "utf8_ok bs"
  then obtain b cont where bs: "bs = b # cont" by (cases bs) auto
  have "log_safe bs" if "128 \<le> code_point bs"
  proof (cases "cont = []")
    case True
    with ok bs have "byte b < 0x80" by simp
    with True bs that show ?thesis by (simp add: code_point_ascii)
  next
    case False
    with ok bs show ?thesis by (intro utf8_ok_safe_bytes) auto
  qed
  moreover have "log_safe_char (char_of n)" if "32 \<le> n" "n < 128" "n \<noteq> 127" for n :: nat
    using that by (simp add: log_safe_char_def byte_def)
  ultimately show ?thesis
    by (simp add: debug_char_def Let_def backslash_def log_safe_char_def byte_def)
qed

lemma log_safe_debug_str: "utf8 s \<Longrightarrow> log_safe (debug_str v s)"
  by (auto simp: debug_str_def utf8_def list_all_iff log_safe_char_def byte_def
      intro!: log_safe_concat log_safe_debug_char)

lemma log_safe_debug_list_items:
  "(\<And>s. s \<in> set ss \<Longrightarrow> utf8 s) \<Longrightarrow> log_safe (debug_list_items v ss)"
  by (induction v ss rule: debug_list_items.induct)
    (auto simp: log_safe_debug_str log_safe_char_def byte_def)

lemma log_safe_debug_strs: "(\<And>s. s \<in> set ss \<Longrightarrow> utf8 s) \<Longrightarrow> log_safe (debug_strs v ss)"
  by (simp add: debug_strs_def log_safe_debug_list_items log_safe_char_def byte_def)

end
