(* ===== verification/Broker_Json.thy ===== *)
theory Broker_Json
  imports Broker_Prelude
begin

text \<open>
  JSON as the broker meets it through \<open>serde_json\<close>, which is not part of the repository: its
  reader and its writer are fields of the record \<open>ext\<close>, arguments of every definition
  that uses them.

  A text is read by streaming visitors, so what a text \<^emph>\<open>is\<close> is a tree of tokens in the order of
  the text, with repeated object members kept. Three constructors stand for what a visitor may trip
  over, because the broker's visitors differ exactly there:
  \<^item> \<open>JUnreadable\<close>: a value that skipping (\<open>IgnoredAny\<close>) passes over and every other visitor
    refuses (a lone surrogate escape, a number out of the range of \<open>f64\<close>, nesting past the
    recursion limit);
  \<^item> \<open>JBadObj ms\<close>: an object whose member after \<open>ms\<close> has a key with that defect;
  \<^item> \<open>JBroken\<close>: the point where the text stops being JSON. Every visitor fails there, and the
    tree holds nothing of its object or array behind it.
  A number is \<open>JInt\<close> when \<open>serde_json\<close> reads it as \<open>i64\<close> or \<open>u64\<close>, and
  \<open>JFloat\<close> otherwise.
\<close>

datatype json =
    JNull
  | JBool bool
  | JInt int
  | JFloat string
  | JStr string
  | JArr "json list"
  | JObj "(string \<times> json) list"
  | JUnreadable
  | JBadObj "(string \<times> json) list"
  | JBroken

text \<open>
  What the broker takes from outside its sources: the token tree of a text with whether nothing
  but white space follows it, the text of a value, and the Unicode tables \<open>Debug\<close> escaping
  consults.
\<close>

record ext =
  json_read :: "string \<Rightarrow> json \<times> bool"
  json_write :: "json \<Rightarrow> string"
  uni_verbatim :: "nat \<Rightarrow> bool"

section \<open>Skipping a value, and reading it into a \<open>Value\<close>\<close>

text \<open>\<open>IgnoredAny\<close> passes over a value unless the text breaks off inside it.\<close>

fun skippable :: "json \<Rightarrow> bool"
  and skippable_items :: "json list \<Rightarrow> bool"
  and skippable_members :: "(string \<times> json) list \<Rightarrow> bool" where
  "skippable JBroken = False"
| "skippable (JArr xs) = skippable_items xs"
| "skippable (JObj ms) = skippable_members ms"
| "skippable (JBadObj ms) = skippable_members ms"
| "skippable _ = True"
| "skippable_items [] = True"
| "skippable_items (x # xs) = (skippable x \<and> skippable_items xs)"
| "skippable_members [] = True"
| "skippable_members ((k, v) # ms) = (skippable v \<and> skippable_members ms)"

text \<open>
  Reading a tree into a \<open>serde_json::Value\<close>: a repeated member keeps its last value, and
  every key of the result occurs once.
\<close>

fun value_of :: "json \<Rightarrow> json option"
  and values_of :: "json list \<Rightarrow> json list option"
  and members_of :: "(string, json) hash \<Rightarrow> (string \<times> json) list \<Rightarrow> (string, json) hash option" where
  "value_of JUnreadable = None"
| "value_of (JBadObj ms) = None"
| "value_of JBroken = None"
| "value_of (JArr xs) = map_option JArr (values_of xs)"
| "value_of (JObj ms) = map_option JObj (members_of [] ms)"
| "value_of v = Some v"
| "values_of [] = Some []"
| "values_of (x # xs) =
     (case value_of x of None \<Rightarrow> None | Some w \<Rightarrow> map_option (\<lambda>ws. w # ws) (values_of xs))"
| "members_of obj [] = Some obj"
| "members_of obj ((k, v) # ms) =
     (case value_of v of None \<Rightarrow> None | Some w \<Rightarrow> members_of (hput k w obj) ms)"

text \<open>\<open>serde_json::from_str::<Value>\<close>.\<close>

definition from_str :: "ext \<Rightarrow> string \<Rightarrow> json option" where
  "from_str L s = (case json_read L s of (tree, at_end) \<Rightarrow>
     (case value_of tree of None \<Rightarrow> None | Some v \<Rightarrow> if at_end then Some v else None))"

text \<open>
  The trees that are values: nothing a visitor trips over, and no object with a repeated member
  at any nesting.
\<close>

fun wf_json :: "json \<Rightarrow> bool"
  and wf_items :: "json list \<Rightarrow> bool"
  and wf_members :: "(string \<times> json) list \<Rightarrow> bool" where
  "wf_json JUnreadable = False"
| "wf_json (JBadObj ms) = False"
| "wf_json JBroken = False"
| "wf_json (JArr xs) = wf_items xs"
| "wf_json (JObj ms) = (distinct (map fst ms) \<and> wf_members ms)"
| "wf_json _ = True"
| "wf_items [] = True"
| "wf_items (x # xs) = (wf_json x \<and> wf_items xs)"
| "wf_members [] = True"
| "wf_members ((k, v) # ms) = (wf_json v \<and> wf_members ms)"

lemma wf_members_iff: "wf_members ms \<longleftrightarrow> (\<forall>v \<in> snd ` set ms. wf_json v)"
  by (induction ms) auto

lemma wf_items_iff: "wf_items xs \<longleftrightarrow> (\<forall>v \<in> set xs. wf_json v)"
  by (induction xs) auto

lemma wf_members_hput: "wf_members obj \<Longrightarrow> wf_json w \<Longrightarrow> wf_members (hput k w obj)"
  using set_hput_subset [of k w obj] by (auto simp: wf_members_iff)

lemma wf_skippable:
  "wf_json v \<Longrightarrow> skippable v"
  "wf_items xs \<Longrightarrow> skippable_items xs"
  "wf_members ms \<Longrightarrow> skippable_members ms"
  by (induction v and xs and ms rule: skippable_skippable_items_skippable_members.induct) auto

lemma value_of_wf:
  "value_of t = Some v \<Longrightarrow> wf_json v"
  "values_of ts = Some vs \<Longrightarrow> wf_items vs"
  "members_of obj ms = Some obj' \<Longrightarrow> distinct (map fst obj) \<Longrightarrow> wf_members obj \<Longrightarrow>
     distinct (map fst obj') \<and> wf_members obj'"
  by (induction t and ts and obj ms arbitrary: v and vs and obj'
      rule: value_of_values_of_members_of.induct)
    (auto split: option.splits simp: distinct_update wf_members_hput)

lemma hput_new: "k \<notin> fst ` set obj \<Longrightarrow> hput k v obj = obj @ [(k, v)]"
  by (induction obj) auto

lemma value_of_id:
  "wf_json t \<Longrightarrow> value_of t = Some t"
  "wf_items ts \<Longrightarrow> values_of ts = Some ts"
  "distinct (map fst (obj @ ms)) \<Longrightarrow> wf_members ms \<Longrightarrow> members_of obj ms = Some (obj @ ms)"
  by (induction t and ts and obj ms rule: value_of_values_of_members_of.induct)
    (auto simp: hput_new)

lemma from_str_wf: "from_str L s = Some v \<Longrightarrow> wf_json v"
  by (auto simp: from_str_def split: prod.splits option.splits if_splits dest: value_of_wf)

section \<open>Looking at a value\<close>

definition as_str :: "json \<Rightarrow> string option" where
  "as_str v = (case v of JStr s \<Rightarrow> Some s | _ \<Rightarrow> None)"

definition as_array :: "json \<Rightarrow> json list option" where
  "as_array v = (case v of JArr xs \<Rightarrow> Some xs | _ \<Rightarrow> None)"

definition as_object :: "json \<Rightarrow> (string, json) hash option" where
  "as_object v = (case v of JObj ms \<Rightarrow> Some ms | _ \<Rightarrow> None)"

definition as_i64 :: "json \<Rightarrow> int option" where
  "as_i64 v = (case v of JInt n \<Rightarrow> if - (2 ^ 63) \<le> n \<and> n < 2 ^ 63 then Some n else None | _ \<Rightarrow> None)"

definition as_u64 :: "json \<Rightarrow> int option" where
  "as_u64 v = (case v of JInt n \<Rightarrow> if 0 \<le> n \<and> n < 2 ^ 64 then Some n else None | _ \<Rightarrow> None)"

definition is_string :: "json \<Rightarrow> bool" where
  "is_string v = (case v of JStr s \<Rightarrow> True | _ \<Rightarrow> False)"

definition is_boolean :: "json \<Rightarrow> bool" where
  "is_boolean v = (case v of JBool b \<Rightarrow> True | _ \<Rightarrow> False)"

text \<open>\<open>Value::get\<close> with a key, and \<open>Value::pointer\<close> with the tokens of its path. The paths
  the broker asks for hold no array index, so an array on the way answers nothing.\<close>

definition jget :: "string \<Rightarrow> json \<Rightarrow> json option" where
  "jget k v = (case v of JObj ms \<Rightarrow> hget ms k | _ \<Rightarrow> None)"

fun jpointer :: "string list \<Rightarrow> json \<Rightarrow> json option" where
  "jpointer [] v = Some v"
| "jpointer (k # ks) v = (case jget k v of None \<Rightarrow> None | Some w \<Rightarrow> jpointer ks w)"

definition str_at :: "string list \<Rightarrow> json \<Rightarrow> string option" where
  "str_at path v = Option.bind (jpointer path v) as_str"

definition keys_of :: "(string, json) hash \<Rightarrow> string list" where
  "keys_of ms = map fst ms"

lemma as_str_simps [simp]:
  "as_str (JStr s) = Some s" "as_str JNull = None" "as_str (JBool b) = None"
  "as_str (JInt n) = None" "as_str (JArr xs) = None" "as_str (JObj ms) = None"
  by (simp_all add: as_str_def)

lemma as_str_Some_iff: "as_str v = Some s \<longleftrightarrow> v = JStr s"
  by (cases v) (auto simp: as_str_def)

lemma as_object_Some_iff: "as_object v = Some ms \<longleftrightarrow> v = JObj ms"
  by (cases v) (auto simp: as_object_def)

lemma as_array_Some_iff: "as_array v = Some xs \<longleftrightarrow> v = JArr xs"
  by (cases v) (auto simp: as_array_def)

lemma jget_JObj [simp]: "jget k (JObj ms) = hget ms k"
  by (simp add: jget_def)

lemma jget_Some: "jget k v = Some w \<Longrightarrow> \<exists>ms. v = JObj ms \<and> hget ms k = Some w"
  by (cases v) (auto simp: jget_def)

lemma wf_json_jget: "wf_json v \<Longrightarrow> jget k v = Some w \<Longrightarrow> wf_json w"
  by (fastforce dest!: jget_Some map_of_SomeD simp: wf_members_iff)

end
