(* ===== verification/Broker_Message.thy ===== *)
theory Broker_Message
  imports Broker_Json
begin

text \<open>
  \<open>codex-broker/src/message.rs\<close>: what a whole WebSocket message is. A message is
  classified by its shape before any method is looked at (\<open>classify_shape\<close>), with a parse that
  refuses a repeated member at any nesting (\<open>no_dup\<close>); and a server frame has its top-level
  header read without its body ever becoming a value (\<open>scan_frame_header\<close>). The lemmas say what
  the strict parse accepts, that it agrees with the lenient one wherever it accepts, that the
  header scan agrees with it, and that a usable id survives being written and read.
\<close>

section \<open>Payloads, ids, shapes\<close>

datatype ws_payload = PText string | PBinary

datatype request_id = RStr string | RInt int

fun id_to_value :: "request_id \<Rightarrow> json" where
  "id_to_value (RStr s) = JStr s"
| "id_to_value (RInt n) = JInt n"

definition id_from_value :: "json \<Rightarrow> request_id option" where
  "id_from_value v =
     (case as_str v of Some s \<Rightarrow> Some (RStr s)
      | None \<Rightarrow> (case as_i64 v of Some n \<Rightarrow> Some (RInt n)
        | None \<Rightarrow> (case as_u64 v of Some n \<Rightarrow> if n < 2 ^ 63 then Some (RInt n) else None
          | None \<Rightarrow> None)))"

datatype shape =
    SRequest string "request_id option" json
  | SNotification string json
  | SResponse request_id json
  | SArray
  | SBinary
  | SMalformed string

section \<open>The parser that refuses repeated members\<close>

datatype parse_error = Duplicate | Invalid

fun no_dup :: "json \<Rightarrow> parse_error + json"
  and no_dup_items :: "json list \<Rightarrow> parse_error + json list"
  and no_dup_members ::
    "(string, json) hash \<Rightarrow> (string \<times> json) list \<Rightarrow> parse_error + (string, json) hash" where
  "no_dup JUnreadable = Inl Invalid"
| "no_dup JBroken = Inl Invalid"
| "no_dup (JBadObj ms) =
     (case no_dup_members [] ms of Inl e \<Rightarrow> Inl e | Inr obj \<Rightarrow> Inl Invalid)"
| "no_dup (JArr xs) = (case no_dup_items xs of Inl e \<Rightarrow> Inl e | Inr ys \<Rightarrow> Inr (JArr ys))"
| "no_dup (JObj ms) = (case no_dup_members [] ms of Inl e \<Rightarrow> Inl e | Inr obj \<Rightarrow> Inr (JObj obj))"
| "no_dup v = Inr v"
| "no_dup_items [] = Inr []"
| "no_dup_items (x # xs) =
     (case no_dup x of Inl e \<Rightarrow> Inl e
      | Inr y \<Rightarrow> (case no_dup_items xs of Inl e \<Rightarrow> Inl e | Inr ys \<Rightarrow> Inr (y # ys)))"
| "no_dup_members obj [] = Inr obj"
| "no_dup_members obj ((k, v) # ms) =
     (case no_dup v of Inl e \<Rightarrow> Inl e
      | Inr w \<Rightarrow> if hget obj k \<noteq> None then Inl Duplicate else no_dup_members (hput k w obj) ms)"

definition parse_no_dup :: "ext \<Rightarrow> string \<Rightarrow> parse_error + json" where
  "parse_no_dup L s = (case json_read L s of (tree, at_end) \<Rightarrow>
     (case no_dup tree of Inl e \<Rightarrow> Inl e | Inr v \<Rightarrow> if at_end then Inr v else Inl Invalid))"

definition parse_no_dup_value :: "ext \<Rightarrow> string \<Rightarrow> json option" where
  "parse_no_dup_value L s = (case parse_no_dup L s of Inl e \<Rightarrow> None | Inr v \<Rightarrow> Some v)"

section \<open>The shape of a client message\<close>

definition classify_object :: "(string, json) hash \<Rightarrow> shape" where
  "classify_object m =
     (let obj = JObj m;
          has_id = (hget m ''id'' \<noteq> None);
          has_result = (hget m ''result'' \<noteq> None);
          has_error = (hget m ''error'' \<noteq> None)
      in case Option.bind (hget m ''method'') as_str of
        None \<Rightarrow>
          if hget m ''method'' \<noteq> None then SMalformed ''non-string method''
          else if \<not> has_id then SMalformed ''method-less frame without id''
          else (case Option.bind (hget m ''id'') id_from_value of
              None \<Rightarrow> SMalformed ''response id is not string|int''
            | Some i \<Rightarrow>
                if has_result = has_error
                then SMalformed ''method-less frame is neither result nor error''
                else SResponse i obj)
      | Some method \<Rightarrow>
          if has_result \<or> has_error
          then SMalformed ''method-bearing object also carries result/error''
          else if \<not> has_id then SNotification method obj
          else SRequest method (Option.bind (hget m ''id'') id_from_value) obj)"

definition classify_shape :: "ext \<Rightarrow> ws_payload \<Rightarrow> shape" where
  "classify_shape L payload = (case payload of
     PBinary \<Rightarrow> SBinary
   | PText t \<Rightarrow>
       (case parse_no_dup L t of
          Inl Duplicate \<Rightarrow> SMalformed ''duplicate JSON member''
        | Inl Invalid \<Rightarrow> SMalformed ''unparseable JSON''
        | Inr (JArr xs) \<Rightarrow> SArray
        | Inr (JObj m) \<Rightarrow> classify_object m
        | Inr v \<Rightarrow> SMalformed ''JSON scalar is not a JSON-RPC message''))"

section \<open>The header scan of a server frame\<close>

datatype response_kind = RkResult | RkError | NotAResponse

definition is_response :: "response_kind \<Rightarrow> bool" where
  "is_response k \<longleftrightarrow> k \<noteq> NotAResponse"

record frame_header =
  fh_id :: "request_id option"
  has_method :: bool
  response :: response_kind

datatype error_shape = ErrAbsent | ErrWellFormed | ErrMalformed

datatype json_kind = KInteger | KStr | KOther

text \<open>\<open>JsonKindVisitor\<close>: the type of a value, the value itself thrown away.\<close>

definition kind_of :: "json \<Rightarrow> json_kind option" where
  "kind_of v = (case v of
     JInt n \<Rightarrow> Some KInteger
   | JStr s \<Rightarrow> Some KStr
   | JArr xs \<Rightarrow> if skippable_items xs then Some KOther else None
   | JObj ms \<Rightarrow> if skippable_members ms then Some KOther else None
   | JBadObj ms \<Rightarrow> if skippable_members ms then Some KOther else None
   | JUnreadable \<Rightarrow> None
   | JBroken \<Rightarrow> None
   | _ \<Rightarrow> Some KOther)"

text \<open>\<open>ErrorProbeVisitor\<close>: is the \<open>error\<close> member a JSON-RPC error object?\<close>

fun probe_members ::
  "json_kind option \<Rightarrow> json_kind option \<Rightarrow> bool \<Rightarrow> (string \<times> json) list \<Rightarrow> error_shape option" where
  "probe_members c m ambiguous [] =
     Some (if \<not> ambiguous \<and> c = Some KInteger \<and> m = Some KStr then ErrWellFormed else ErrMalformed)"
| "probe_members c m ambiguous ((k, v) # ms) =
     (if k = ''code'' then
        (case kind_of v of None \<Rightarrow> None
         | Some kind \<Rightarrow> probe_members (Some kind) m (ambiguous \<or> c \<noteq> None) ms)
      else if k = ''message'' then
        (case kind_of v of None \<Rightarrow> None
         | Some kind \<Rightarrow> probe_members c (Some kind) (ambiguous \<or> m \<noteq> None) ms)
      else if skippable v then probe_members c m ambiguous ms else None)"

definition error_probe :: "json \<Rightarrow> error_shape option" where
  "error_probe v = (case v of
     JObj ms \<Rightarrow> probe_members None None False ms
   | JArr xs \<Rightarrow> if skippable_items xs then Some ErrMalformed else None
   | JUnreadable \<Rightarrow> None
   | JBadObj ms \<Rightarrow> None
   | JBroken \<Rightarrow> None
   | _ \<Rightarrow> Some ErrMalformed)"

text \<open>\<open>HeaderVisitor::visit_map\<close>, its local variables as arguments.\<close>

definition response_of :: "bool \<Rightarrow> error_shape \<Rightarrow> response_kind" where
  "response_of has_result err = (case (has_result, err) of
     (True, ErrAbsent) \<Rightarrow> RkResult
   | (False, ErrWellFormed) \<Rightarrow> RkError
   | _ \<Rightarrow> NotAResponse)"

fun scan_members ::
  "string set \<Rightarrow> request_id option \<Rightarrow> bool \<Rightarrow> bool \<Rightarrow> error_shape \<Rightarrow> (string \<times> json) list \<Rightarrow>
     frame_header option" where
  "scan_members seen i hm hr err [] =
     Some \<lparr>fh_id = i, has_method = hm, response = response_of hr err\<rparr>"
| "scan_members seen i hm hr err ((k, v) # ms) =
     (if k \<in> seen then None
      else let seen' = insert k seen in
      if k = ''id'' then
        (case value_of v of None \<Rightarrow> None
         | Some w \<Rightarrow> scan_members seen' (id_from_value w) hm hr err ms)
      else if k = ''method'' then
        (if skippable v then scan_members seen' i True hr err ms else None)
      else if k = ''result'' then
        (if skippable v then scan_members seen' i hm True err ms else None)
      else if k = ''error'' then
        (case error_probe v of None \<Rightarrow> None
         | Some e \<Rightarrow> scan_members seen' i hm hr e ms)
      else if skippable v then scan_members seen' i hm hr err ms else None)"

definition scan_frame_header :: "ext \<Rightarrow> string \<Rightarrow> frame_header option" where
  "scan_frame_header L s = (case json_read L s of (tree, at_end) \<Rightarrow>
     (case tree of
        JObj ms \<Rightarrow>
          (case scan_members {} None False False ErrAbsent ms of
             None \<Rightarrow> None
           | Some h \<Rightarrow> if at_end then Some h else None)
      | _ \<Rightarrow> None))"

section \<open>Ids\<close>

lemma id_from_value_str [simp]: "id_from_value (JStr s) = Some (RStr s)"
  by (simp add: id_from_value_def)

lemma id_from_value_not [simp]:
  "id_from_value JNull = None" "id_from_value (JBool b) = None" "id_from_value (JFloat f) = None"
  "id_from_value (JArr xs) = None" "id_from_value (JObj ms) = None"
  by (simp_all add: id_from_value_def as_str_def as_i64_def as_u64_def)

lemma id_from_value_int:
  "id_from_value (JInt n) = (if - (2 ^ 63) \<le> n \<and> n < 2 ^ 63 then Some (RInt n) else None)"
  by (auto simp: id_from_value_def as_str_def as_i64_def as_u64_def)

definition id_in_range :: "request_id \<Rightarrow> bool" where
  "id_in_range i = (case i of RStr s \<Rightarrow> True | RInt n \<Rightarrow> - (2 ^ 63) \<le> n \<and> n < 2 ^ 63)"

lemma id_from_value_to_value: "id_in_range i \<Longrightarrow> id_from_value (id_to_value i) = Some i"
  by (cases i) (auto simp: id_in_range_def id_from_value_int)

lemma id_from_value_Some: "id_from_value v = Some i \<Longrightarrow> v = id_to_value i \<and> id_in_range i"
  by (cases v) (auto simp: id_from_value_int id_in_range_def id_from_value_def as_str_def as_i64_def
      as_u64_def split: if_splits)

section \<open>What the strict parse accepts\<close>

lemma no_dup_accepts:
  "wf_json t \<Longrightarrow> no_dup t = Inr t"
  "wf_items ts \<Longrightarrow> no_dup_items ts = Inr ts"
  "distinct (map fst (obj @ ms)) \<Longrightarrow> wf_members ms \<Longrightarrow> no_dup_members obj ms = Inr (obj @ ms)"
  by (induction t and ts and obj ms rule: no_dup_no_dup_items_no_dup_members.induct)
    (auto simp: hput_new map_of_eq_None_iff)

lemma no_dup_only:
  "no_dup t = Inr v \<Longrightarrow> wf_json t \<and> v = t"
  "no_dup_items ts = Inr vs \<Longrightarrow> wf_items ts \<and> vs = ts"
  "no_dup_members obj ms = Inr obj' \<Longrightarrow> distinct (map fst obj) \<Longrightarrow>
     wf_members ms \<and> distinct (map fst (obj @ ms)) \<and> obj' = obj @ ms"
  by (induction t and ts and obj ms arbitrary: v and vs and obj'
    rule: no_dup_no_dup_items_no_dup_members.induct)
    (fastforce split: sum.splits if_splits simp: hput_new map_of_eq_None_iff)+

lemma no_dup_iff: "no_dup t = Inr v \<longleftrightarrow> wf_json t \<and> v = t"
  using no_dup_accepts(1) no_dup_only(1) by blast

lemma parse_no_dup_value_iff:
  "parse_no_dup_value L s = Some v \<longleftrightarrow> json_read L s = (v, True) \<and> wf_json v"
  by (cases "json_read L s")
    (auto simp: parse_no_dup_value_def parse_no_dup_def no_dup_accepts(1) split: sum.splits if_splits
      dest!: no_dup_only(1))

lemma parse_no_dup_Inr: "parse_no_dup L s = Inr v \<longleftrightarrow> parse_no_dup_value L s = Some v"
  by (auto simp: parse_no_dup_value_def split: sum.splits)

lemma parse_no_dup_from_str: "parse_no_dup_value L s = Some v \<Longrightarrow> from_str L s = Some v"
  by (simp add: parse_no_dup_value_iff from_str_def value_of_id)

section \<open>The header scan agrees with the strict parse\<close>

text \<open>
  What the header scan says of a frame, told from the parsed value: the broker reads the header
  of a frame it does not parse and the value of one it does, and a frame the strict parse accepts
  is read the same way by both.
\<close>

definition error_shape_of :: "json \<Rightarrow> error_shape" where
  "error_shape_of v = (case v of
     JObj e \<Rightarrow>
       (case (hget e ''code'', hget e ''message'') of
          (Some (JInt n), Some (JStr t)) \<Rightarrow> ErrWellFormed
        | _ \<Rightarrow> ErrMalformed)
   | _ \<Rightarrow> ErrMalformed)"

definition error_of :: "(string, json) hash \<Rightarrow> error_shape" where
  "error_of m = (case hget m ''error'' of None \<Rightarrow> ErrAbsent | Some v \<Rightarrow> error_shape_of v)"

definition header_of :: "(string, json) hash \<Rightarrow> frame_header" where
  "header_of m =
     \<lparr>fh_id = Option.bind (hget m ''id'') id_from_value,
      has_method = (hget m ''method'' \<noteq> None),
      response = response_of (hget m ''result'' \<noteq> None) (error_of m)\<rparr>"

lemma kind_of_wf: "wf_json v \<Longrightarrow> kind_of v =
   Some (case v of JInt n \<Rightarrow> KInteger | JStr s \<Rightarrow> KStr | _ \<Rightarrow> KOther)"
  by (cases v) (auto simp: kind_of_def wf_skippable)

lemma probe_members_wf:
  assumes "wf_members ms" "distinct (map fst ms)"
    and "c \<noteq> None \<longrightarrow> ''code'' \<notin> fst ` set ms" "m \<noteq> None \<longrightarrow> ''message'' \<notin> fst ` set ms"
  shows "probe_members c m False ms =
     Some (if (case hget ms ''code'' of None \<Rightarrow> c | Some v \<Rightarrow> kind_of v) = Some KInteger \<and>
              (case hget ms ''message'' of None \<Rightarrow> m | Some v \<Rightarrow> kind_of v) = Some KStr
           then ErrWellFormed else ErrMalformed)"
  using assms
proof (induction c m False ms rule: probe_members.induct)
  case (1 c m)
  then show ?case by simp
next
  case (2 c m k v ms)
  have wf: "wf_json v" using 2 by simp
  then obtain kd where kd: "kind_of v = Some kd" using kind_of_wf by blast
  have absent: "hget ms k = None" using 2 by (simp add: map_of_eq_None_iff)
  consider "k = ''code''" | "k = ''message''" | "k \<noteq> ''code''" "k \<noteq> ''message''" by blast
  then show ?case
  proof cases
    case 1
    with 2 kd absent show ?thesis by (auto split: option.splits)
  next
    case 2
    with \<open>wf_members ((k, v) # ms)\<close> show ?thesis
      using "2.hyps" "2.prems" kd absent by (auto split: option.splits)
  next
    case 3
    with "2.hyps" "2.prems" wf show ?thesis by (auto simp: wf_skippable split: option.splits)
  qed
qed

lemma kind_of_int: "kind_of v = Some KInteger \<longleftrightarrow> (\<exists>n. v = JInt n)"
  by (cases v) (auto simp: kind_of_def)

lemma kind_of_str: "kind_of v = Some KStr \<longleftrightarrow> (\<exists>s. v = JStr s)"
  by (cases v) (auto simp: kind_of_def)

lemma error_shape_of_JObj:
  "error_shape_of (JObj e) =
     (if (\<exists>n. hget e ''code'' = Some (JInt n)) \<and> (\<exists>t. hget e ''message'' = Some (JStr t))
      then ErrWellFormed else ErrMalformed)"
  unfolding error_shape_of_def by (simp split: option.split json.split)

lemma error_probe_wf: "wf_json v \<Longrightarrow> error_probe v = Some (error_shape_of v)"
proof (cases v)
  case (JObj e)
  assume "wf_json v"
  with JObj have "error_probe v =
     Some (if (case hget e ''code'' of None \<Rightarrow> None | Some v \<Rightarrow> kind_of v) = Some KInteger \<and>
              (case hget e ''message'' of None \<Rightarrow> None | Some v \<Rightarrow> kind_of v) = Some KStr
           then ErrWellFormed else ErrMalformed)"
    by (simp add: error_probe_def probe_members_wf)
  with JObj show ?thesis
    by (cases "hget e ''code''"; cases "hget e ''message''")
      (simp_all add: error_shape_of_JObj kind_of_int kind_of_str)
qed (auto simp: error_probe_def error_shape_of_def wf_skippable)

lemma scan_members_wf:
  assumes "wf_members ms" "distinct (map fst ms)" "seen \<inter> fst ` set ms = {}"
  shows "scan_members seen i hm hr err ms =
     Some \<lparr>fh_id = (case hget ms ''id'' of None \<Rightarrow> i | Some v \<Rightarrow> id_from_value v),
           has_method = (hm \<or> hget ms ''method'' \<noteq> None),
           response = response_of (hr \<or> hget ms ''result'' \<noteq> None)
             (case hget ms ''error'' of None \<Rightarrow> err | Some v \<Rightarrow> error_shape_of v)\<rparr>"
  using assms
proof (induction seen i hm hr err ms rule: scan_members.induct)
  case (1 seen i hm hr err)
  then show ?case by simp
next
  case (2 seen i hm hr err k v ms)
  have wf: "wf_json v" and absent: "hget ms k = None" and fresh: "k \<notin> seen"
    and rest: "wf_members ms" "distinct (map fst ms)" "insert k seen \<inter> fst ` set ms = {}"
    using 2 by (auto simp: map_of_eq_None_iff)
  note facts = wf absent fresh rest wf_skippable(1) [OF wf] value_of_id(1) [OF wf]
    error_probe_wf [OF wf]
  consider "k = ''id''" | "k = ''method''" | "k = ''result''" | "k = ''error''"
    | "k \<notin> {''id'', ''method'', ''result'', ''error''}" by blast
  then show ?case
    by cases (use "2.IH" facts in \<open>auto simp: Let_def split: option.splits\<close>)
qed

lemma scan_frame_header_wf:
  "json_read L s = (JObj m, True) \<Longrightarrow> wf_json (JObj m) \<Longrightarrow>
     scan_frame_header L s = Some (header_of m)"
  by (simp add: scan_frame_header_def scan_members_wf header_of_def error_of_def
      split: option.splits)

section \<open>Properties\<close>

text \<open>C9. The strict parse closes the parser differential: it accepts a text exactly when the text is
  JSON with nothing behind it and no object of it, at any nesting, repeats a member; it returns
  that tree unchanged; and a reader that keeps the last of repeated members reads the same value.\<close>
theorem strict_parse_exact:
  "parse_no_dup_value L s = Some v \<longleftrightarrow>
     json_read L s = (v, True) \<and> wf_json v \<and> from_str L s = Some v"
  using parse_no_dup_from_str by (auto simp: parse_no_dup_value_iff)

text \<open>The header scan and the strict parse never disagree about a frame both read: on an
  object without repeated members the scan succeeds and reports its id, whether it carries a
  method, and which kind of response it is, as the parsed members have them.\<close>
theorem scan_agrees_with_parse:
  assumes "parse_no_dup_value L s = Some (JObj m)"
  shows "scan_frame_header L s =
     Some \<lparr>fh_id = Option.bind (hget m ''id'') id_from_value,
           has_method = (hget m ''method'' \<noteq> None),
           response = response_of (hget m ''result'' \<noteq> None) (error_of m)\<rparr>"
  using assms by (simp add: parse_no_dup_value_iff scan_frame_header_wf header_of_def)

lemma scan_agrees_with_parse_witness:
  defines "m \<equiv> [(''id'', JInt 7), (''error'', JObj [(''code'', JInt (- 32600)), (''message'', JStr ''no'')])]"
  defines "L \<equiv> \<lparr>json_read = (\<lambda>s. (JObj m, True)), json_write = (\<lambda>v. []), uni_verbatim = (\<lambda>n. True)\<rparr>"
  shows "scan_frame_header L ''x'' =
    Some \<lparr>fh_id = Some (RInt 7), has_method = False, response = RkError\<rparr>"
proof -
  have "parse_no_dup_value L ''x'' = Some (JObj m)"
    by (simp add: L_def m_def parse_no_dup_value_iff)
  from scan_agrees_with_parse [OF this] show ?thesis
    by (simp add: m_def id_from_value_int error_of_def error_shape_of_def response_of_def)
qed

text \<open>A client message is a request, a notification or an answer only if its text is an object
  without repeated members of exactly that shape: a request or notification has a string
  \<open>method\<close> and neither \<open>result\<close> nor \<open>error\<close>; an answer has no \<open>method\<close>, a usable id, and
  exactly one of \<open>result\<close> and \<open>error\<close>. So no message is two of them, and an answer cannot be
  passed off as a request.\<close>
theorem shapes_are_exclusive:
  "case classify_shape L (PText s) of
     SRequest method i obj \<Rightarrow>
       parse_no_dup_value L s = Some obj \<and> jget ''method'' obj = Some (JStr method) \<and>
       jget ''result'' obj = None \<and> jget ''error'' obj = None \<and>
       (\<exists>v. jget ''id'' obj = Some v \<and> i = id_from_value v)
   | SNotification method obj \<Rightarrow>
       parse_no_dup_value L s = Some obj \<and> jget ''method'' obj = Some (JStr method) \<and>
       jget ''result'' obj = None \<and> jget ''error'' obj = None \<and> jget ''id'' obj = None
   | SResponse i obj \<Rightarrow>
       parse_no_dup_value L s = Some obj \<and> jget ''method'' obj = None \<and>
       Option.bind (jget ''id'' obj) id_from_value = Some i \<and>
       (jget ''result'' obj = None) = (jget ''error'' obj \<noteq> None)
   | SArray \<Rightarrow> \<exists>xs. parse_no_dup_value L s = Some (JArr xs)
   | SBinary \<Rightarrow> False
   | SMalformed why \<Rightarrow> True"
proof (cases "parse_no_dup L s")
  case (Inl e)
  then show ?thesis by (cases e) (auto simp: classify_shape_def)
next
  case (Inr v)
  then have "parse_no_dup_value L s = Some v" by (simp add: parse_no_dup_Inr)
  with Inr show ?thesis
    by (cases v)
      (auto simp: classify_shape_def classify_object_def Let_def bind_eq_Some_conv as_str_Some_iff
        split: option.splits)
qed

end
