(* ===== verification/Broker_Allowlist.thy ===== *)
theory Broker_Allowlist
  imports Broker_Prelude
begin

text \<open>
  \<open>codex-broker/src/allowlist.rs\<close>: which methods a phone may send, and under what condition.
  The table is a total function on \<open>(kind, method)\<close>; what it does not name is refused.
\<close>

datatype role = Tui | Ccd

datatype json_rpc_kind = KRequest | KNotification

datatype refuse_reason =
    CodeExecBypass
  | OwnershipAdjacent
  | RoleNotPermitted
  | NotAllowlisted
  | MalformedReason

datatype disposition =
    DForward
  | NullOwnedIdleTurn
  | Refuse refuse_reason
  | ResumeSessionThread
  | ReadSessionThread
  | SteerRunningTurn
  | InterruptActiveTurn

definition BYPASS_METHODS :: "string list" where
  "BYPASS_METHODS = [''command/exec'', ''thread/shellCommand'', ''process/spawn'', ''fs/writeFile'']"

definition disposition_of :: "json_rpc_kind \<Rightarrow> string \<Rightarrow> disposition" where
  "disposition_of kind method =
     (if kind = KNotification then
        (if method = ''initialized'' then DForward else Refuse NotAllowlisted)
      else if method \<in> set BYPASS_METHODS then Refuse CodeExecBypass
      else if method = ''thread/settings/update'' then Refuse OwnershipAdjacent
      else if method = ''thread/resume'' then ResumeSessionThread
      else if method = ''thread/start'' \<or> method = ''thread/fork'' then Refuse RoleNotPermitted
      else if method = ''turn/start'' then NullOwnedIdleTurn
      else if method = ''turn/steer'' then SteerRunningTurn
      else if method = ''turn/interrupt'' then InterruptActiveTurn
      else if method = ''initialize'' then DForward
      else if method = ''thread/read'' \<or> method = ''thread/turns/list'' \<or> method = ''thread/items/list''
        then ReadSessionThread
      else if method = ''thread/loaded/list'' then DForward
      else Refuse NotAllowlisted)"

text \<open>The derived \<open>Debug\<close> form of a reason and of a disposition, as the notes of the refusal
  matrix print them.\<close>

definition debug_reason :: "refuse_reason \<Rightarrow> string" where
  "debug_reason r = (case r of
     CodeExecBypass \<Rightarrow> ''CodeExecBypass''
   | OwnershipAdjacent \<Rightarrow> ''OwnershipAdjacent''
   | RoleNotPermitted \<Rightarrow> ''RoleNotPermitted''
   | NotAllowlisted \<Rightarrow> ''NotAllowlisted''
   | MalformedReason \<Rightarrow> ''Malformed'')"

definition debug_disposition :: "disposition \<Rightarrow> string" where
  "debug_disposition d = (case d of
     DForward \<Rightarrow> ''Forward''
   | NullOwnedIdleTurn \<Rightarrow> ''NullOwnedIdleTurn''
   | Refuse r \<Rightarrow> ''Refuse('' @ debug_reason r @ '')''
   | ResumeSessionThread \<Rightarrow> ''ResumeSessionThread''
   | ReadSessionThread \<Rightarrow> ''ReadSessionThread''
   | SteerRunningTurn \<Rightarrow> ''SteerRunningTurn''
   | InterruptActiveTurn \<Rightarrow> ''InterruptActiveTurn'')"

definition debug_role :: "role \<Rightarrow> string" where
  "debug_role r = (case r of Tui \<Rightarrow> ''Tui'' | Ccd \<Rightarrow> ''Ccd'')"

lemma log_safe_debug_role [simp]: "log_safe (debug_role r)"
  by (cases r) (simp_all add: debug_role_def log_safe_char_def byte_def)

lemma log_safe_debug_reason [simp]: "log_safe (debug_reason r)"
  by (cases r) (simp_all add: debug_reason_def log_safe_char_def byte_def)

lemma log_safe_debug_disposition [simp]: "log_safe (debug_disposition d)"
  by (cases d) (simp_all add: debug_disposition_def log_safe_char_def byte_def)

text \<open>The methods each disposition other than a refusal is given to.\<close>

lemma disposition_request_cases:
  "disposition_of KRequest m = DForward \<longleftrightarrow> m \<in> {''initialize'', ''thread/loaded/list''}"
  "disposition_of KRequest m = NullOwnedIdleTurn \<longleftrightarrow> m = ''turn/start''"
  "disposition_of KRequest m = ResumeSessionThread \<longleftrightarrow> m = ''thread/resume''"
  "disposition_of KRequest m = ReadSessionThread \<longleftrightarrow>
     m \<in> {''thread/read'', ''thread/turns/list'', ''thread/items/list''}"
  "disposition_of KRequest m = SteerRunningTurn \<longleftrightarrow> m = ''turn/steer''"
  "disposition_of KRequest m = InterruptActiveTurn \<longleftrightarrow> m = ''turn/interrupt''"
  by (auto simp: disposition_of_def BYPASS_METHODS_def)

text \<open>Refuse by default: a request is let past the table only if its method is one of nine, a
  notification only if it is \<open>initialized\<close>; the four code-execution methods are always refused as
  such; and only the keyboard may create, fork or configure a thread.\<close>
theorem allowlist_refuses_by_default:
  "((\<nexists>r. disposition_of KRequest m = Refuse r) \<longleftrightarrow>
     m \<in> {''initialize'', ''thread/loaded/list'', ''thread/read'', ''thread/turns/list'',
          ''thread/items/list'', ''thread/resume'', ''turn/start'', ''turn/steer'', ''turn/interrupt''}) \<and>
   ((\<nexists>r. disposition_of KNotification m = Refuse r) \<longleftrightarrow> m = ''initialized'') \<and>
   (disposition_of KRequest m = Refuse CodeExecBypass \<longleftrightarrow> m \<in> set BYPASS_METHODS) \<and>
   (disposition_of KRequest m = Refuse RoleNotPermitted \<longleftrightarrow> m \<in> {''thread/start'', ''thread/fork''}) \<and>
   (disposition_of KRequest m = Refuse OwnershipAdjacent \<longleftrightarrow> m = ''thread/settings/update'')"
  by (intro conjI) (auto simp: disposition_of_def BYPASS_METHODS_def)

end
