(* ===== verification/Broker_Redact.thy ===== *)
theory Broker_Redact
  imports Broker_Message
begin

text \<open>
  \<open>codex-broker/src/redact.rs\<close>: the form in which client-chosen text may reach
  \<open>broker.log\<close>. A value is shown as its type and size; a method, a thread id and a request id
  are echoed only when they match a grammar without control bytes. The lemmas say that every
  rendering is free of control bytes, that the grammars are what the code's comments say, and that
  a rendering is bounded.
\<close>

definition MAX_REQUEST_ID_BYTES :: nat where
  "MAX_REQUEST_ID_BYTES = 128"

definition MAX_LOGGED_METHOD_BYTES :: nat where
  "MAX_LOGGED_METHOD_BYTES = 64"

definition value_shape :: "json option \<Rightarrow> string" where
  "value_shape v = (case v of
     None \<Rightarrow> ''absent''
   | Some JNull \<Rightarrow> ''null''
   | Some (JBool b) \<Rightarrow> ''bool''
   | Some (JInt n) \<Rightarrow> ''number''
   | Some (JFloat f) \<Rightarrow> ''number''
   | Some (JStr s) \<Rightarrow> ''string(len='' @ dec (length s) @ '')''
   | Some (JArr a) \<Rightarrow> ''array(len='' @ dec (length a) @ '')''
   | Some (JObj m) \<Rightarrow> ''object(keys='' @ dec (length m) @ '')''
   | Some _ \<Rightarrow> '''')"

definition is_census_grammar_method :: "string \<Rightarrow> bool" where
  "is_census_grammar_method m \<longleftrightarrow>
     m \<noteq> [] \<and> length m \<le> MAX_LOGGED_METHOD_BYTES \<and>
     (case m of [] \<Rightarrow> False | c # _ \<Rightarrow> is_lower c) \<and>
     list_all (\<lambda>c. is_alnum c \<or> c = CHR ''/'' \<or> c = CHR ''_'') m"

definition redact_method :: "string \<Rightarrow> string" where
  "redact_method m =
     (if is_census_grammar_method m then m
      else ''<non-conforming method, '' @ dec (length m) @ '' bytes>'')"

text \<open>\<open>str::split\<close> with a character: the parts between its occurrences.\<close>

fun split_on :: "char \<Rightarrow> string \<Rightarrow> string list" where
  "split_on d [] = [[]]"
| "split_on d (c # s) =
     (if c = d then [] # split_on d s
      else (case split_on d s of [] \<Rightarrow> [[c]] | p # ps \<Rightarrow> (c # p) # ps))"

definition is_hex_lower :: "char \<Rightarrow> bool" where
  "is_hex_lower c \<longleftrightarrow> 48 \<le> byte c \<and> byte c \<le> 57 \<or> 97 \<le> byte c \<and> byte c \<le> 102"

text \<open>The loop over the five group lengths; the last equation is \<open>parts.next().is_none()\<close>.\<close>

fun groups_match :: "nat list \<Rightarrow> string list \<Rightarrow> bool" where
  "groups_match [] parts = (parts = [])"
| "groups_match (w # ws) [] = False"
| "groups_match (w # ws) (p # ps) =
     (if length p \<noteq> w \<or> \<not> list_all is_hex_lower p then False else groups_match ws ps)"

definition is_wire_thread_id :: "string \<Rightarrow> bool" where
  "is_wire_thread_id s =
     (if length s \<noteq> 36 then False else groups_match [8, 4, 4, 4, 12] (split_on CHR ''-'' s))"

definition redact_thread_id :: "string \<Rightarrow> string" where
  "redact_thread_id i =
     (if is_wire_thread_id i then i
      else ''<non-conforming id, '' @ dec (length i) @ '' bytes>'')"

definition is_plain_id :: "string \<Rightarrow> bool" where
  "is_plain_id s \<longleftrightarrow>
     s \<noteq> [] \<and> length s \<le> MAX_REQUEST_ID_BYTES \<and>
     list_all (\<lambda>c. is_alnum c \<or> c \<in> set ''-_.:'') s"

definition redact_request_id :: "ext \<Rightarrow> request_id \<Rightarrow> string" where
  "redact_request_id L i = (case i of
     RInt n \<Rightarrow> dec_int n
   | RStr s \<Rightarrow>
       if is_plain_id s then debug_str (uni_verbatim L) s
       else ''<non-conforming request id, '' @ dec (length s) @ '' bytes>'')"

text \<open>The derived \<open>Debug\<close> form of a request id, which the capability registry logs.\<close>

definition debug_id :: "ext \<Rightarrow> request_id \<Rightarrow> string" where
  "debug_id L i = (case i of
     RInt n \<Rightarrow> ''Int('' @ dec_int n @ '')''
   | RStr s \<Rightarrow> ''Str('' @ debug_str (uni_verbatim L) s @ '')'')"

section \<open>Every rendering is safe to log\<close>

lemma log_safe_value_shape [simp]: "log_safe (value_shape v)"
  by (simp add: value_shape_def log_safe_char_def byte_def split: option.split json.split)

lemma log_safe_punctuation: "c \<in> set ''/_-.:'' \<Longrightarrow> log_safe_char c \<and> byte c < 128"
  by (auto simp: log_safe_char_def byte_def)

lemma census_method_safe: "is_census_grammar_method m \<Longrightarrow> log_safe m"
  using log_safe_punctuation
  by (fastforce simp: is_census_grammar_method_def log_safe_def list_all_iff is_alnum_safe)

lemma log_safe_redact_method [simp]: "log_safe (redact_method m)"
  by (simp add: redact_method_def census_method_safe log_safe_char_def byte_def)

lemma is_hex_lower_safe: "is_hex_lower c \<Longrightarrow> log_safe_char c"
  by (auto simp: is_hex_lower_def log_safe_char_def)

lemma groups_match_safe: "groups_match ws ps \<Longrightarrow> p \<in> set ps \<Longrightarrow> log_safe p"
  by (induction ws ps rule: groups_match.induct)
    (auto split: if_splits simp: log_safe_def list_all_iff is_hex_lower_safe)

lemma split_on_chars: "c \<in> set s \<Longrightarrow> c = d \<or> (\<exists>p \<in> set (split_on d s). c \<in> set p)"
  by (induction s) (auto split: list.splits)

lemma wire_thread_id_safe: "is_wire_thread_id s \<Longrightarrow> log_safe s"
proof -
  assume "is_wire_thread_id s"
  then have g: "groups_match [8, 4, 4, 4, 12] (split_on CHR ''-'' s)"
    by (simp add: is_wire_thread_id_def split: if_splits)
  have "log_safe_char c" if "c \<in> set s" for c
    using split_on_chars [OF that, of "CHR ''-''"] groups_match_safe [OF g]
    by (auto simp: log_safe_def list_all_iff) (simp add: log_safe_char_def byte_def)
  then show ?thesis by (simp add: log_safe_def list_all_iff)
qed

lemma log_safe_redact_thread_id [simp]: "log_safe (redact_thread_id i)"
  by (simp add: redact_thread_id_def wire_thread_id_safe log_safe_char_def byte_def)

lemma is_plain_id_bytes: "is_plain_id s \<Longrightarrow> c \<in> set s \<Longrightarrow> byte c < 128 \<and> log_safe_char c"
  using log_safe_punctuation
  by (fastforce simp: is_plain_id_def list_all_iff is_alnum_def is_lower_def is_alnum_safe
      log_safe_char_def)

lemma log_safe_redact_request_id [simp]: "log_safe (redact_request_id L i)"
proof (cases i)
  case (RStr s)
  have "log_safe (debug_str (uni_verbatim L) s)" if "is_plain_id s"
    using is_plain_id_bytes [OF that] by (intro log_safe_debug_str ascii_utf8) blast
  then show ?thesis
    using RStr by (simp add: redact_request_id_def log_safe_char_def byte_def)
next
  case (RInt n)
  then show ?thesis by (simp add: redact_request_id_def)
qed

section \<open>The thread-id grammar\<close>

fun join_with :: "char \<Rightarrow> string list \<Rightarrow> string" where
  "join_with d [] = []"
| "join_with d [p] = p"
| "join_with d (p # q # ps) = p @ d # join_with d (q # ps)"

lemma split_on_not_Nil [simp]: "split_on d s \<noteq> []"
  by (induction s) (auto split: list.splits)

lemma join_split_on: "join_with d (split_on d s) = s"
proof (induction s)
  case (Cons c s)
  obtain p ps where "split_on d s = p # ps" by (cases "split_on d s") auto
  with Cons show ?case by (cases ps) auto
qed simp

lemma split_on_append: "d \<notin> set p \<Longrightarrow> split_on d (p @ d # s) = p # split_on d s"
  by (induction p) auto

lemma split_on_whole: "d \<notin> set p \<Longrightarrow> split_on d p = [p]"
  by (induction p) auto

lemma groups_match_iff:
  "groups_match ws ps \<longleftrightarrow> list_all2 (\<lambda>w p. length p = w \<and> list_all is_hex_lower p) ws ps"
  by (induction ws ps rule: groups_match.induct) auto

lemma dash_not_hex: "list_all is_hex_lower p \<Longrightarrow> CHR ''-'' \<notin> set p"
  by (auto simp: list_all_iff is_hex_lower_def byte_def)

text \<open>A thread id is echoed into the log exactly when it is a lower-case UUID: five runs of
  8, 4, 4, 4 and 12 lower-case hexadecimal digits with dashes between them. Anything else is shown
  as its length.\<close>
theorem thread_id_echoed_iff_uuid:
  "is_wire_thread_id s \<longleftrightarrow>
     (\<exists>a b c d e. s = a @ ''-'' @ b @ ''-'' @ c @ ''-'' @ d @ ''-'' @ e \<and>
        map length [a, b, c, d, e] = [8, 4, 4, 4, 12] \<and>
        list_all is_hex_lower (a @ b @ c @ d @ e))"
  (is "_ \<longleftrightarrow> ?uuid")
proof
  assume "is_wire_thread_id s"
  then have "groups_match [8, 4, 4, 4, 12] (split_on CHR ''-'' s)"
    by (simp add: is_wire_thread_id_def split: if_splits)
  then obtain a b c d e where ps: "split_on CHR ''-'' s = [a, b, c, d, e]"
    and len: "length a = 8" "length b = 4" "length c = 4" "length d = 4" "length e = 12"
    and hex: "list_all is_hex_lower a" "list_all is_hex_lower b" "list_all is_hex_lower c"
      "list_all is_hex_lower d" "list_all is_hex_lower e"
    unfolding groups_match_iff list_all2_Cons1 list_all2_Nil by blast
  from join_split_on [of "CHR ''-''" s] ps
  have s: "s = a @ ''-'' @ b @ ''-'' @ c @ ''-'' @ d @ ''-'' @ e" by simp
  show ?uuid
    by (intro exI conjI, rule s) (simp_all add: len hex)
next
  assume ?uuid
  then obtain a b c d e where s: "s = join_with CHR ''-'' [a, b, c, d, e]"
    and len: "map length [a, b, c, d, e] = [8, 4, 4, 4, 12]"
    and hex: "list_all is_hex_lower (a @ b @ c @ d @ e)" by auto
  then have "split_on CHR ''-'' s = [a, b, c, d, e]"
    by (simp add: split_on_append split_on_whole dash_not_hex)
  moreover have "length s = 36" using s len by simp
  ultimately show "is_wire_thread_id s"
    using len hex by (simp add: is_wire_thread_id_def)
qed

lemma redact_method_text:
  "redact_method m = m \<and> length m \<le> 64 \<or>
     redact_method m = ''<non-conforming method, '' @ dec (length m) @ '' bytes>''"
  by (simp add: redact_method_def is_census_grammar_method_def MAX_LOGGED_METHOD_BYTES_def)

lemma redact_thread_id_text:
  "redact_thread_id t = t \<and> length t = 36 \<or>
     redact_thread_id t = ''<non-conforming id, '' @ dec (length t) @ '' bytes>''"
  by (simp add: redact_thread_id_def is_wire_thread_id_def)

lemma redact_request_id_text:
  "redact_request_id L (RStr s) = debug_str (uni_verbatim L) s \<and> length s \<le> 128 \<or>
     redact_request_id L (RStr s) = ''<non-conforming request id, '' @ dec (length s) @ '' bytes>''"
  by (simp add: redact_request_id_def is_plain_id_def MAX_REQUEST_ID_BYTES_def)

text \<open>Nothing a client chose can forge a line of the log through a rendering: a method, a
  thread id, a request id and a value each come out free of ASCII control bytes, whatever bytes
  went in; and each is either the client's text itself, within its bound of 64, 36 or 128 bytes,
  or a fixed sentence that tells only a number about it.\<close>
theorem renderings_cannot_forge_a_line:
  "log_safe (redact_method m) \<and> log_safe (redact_thread_id t) \<and>
   log_safe (redact_request_id L i) \<and> log_safe (value_shape v) \<and>
   (redact_method m = m \<and> length m \<le> 64 \<or>
     redact_method m = ''<non-conforming method, '' @ dec (length m) @ '' bytes>'') \<and>
   (redact_thread_id t = t \<and> length t = 36 \<or>
     redact_thread_id t = ''<non-conforming id, '' @ dec (length t) @ '' bytes>'') \<and>
   (redact_request_id L (RStr s) = debug_str (uni_verbatim L) s \<and> length s \<le> 128 \<or>
     redact_request_id L (RStr s) = ''<non-conforming request id, '' @ dec (length s) @ '' bytes>'')"
  by (intro conjI redact_method_text redact_thread_id_text redact_request_id_text) simp_all

end
