(* ===== verification/Broker_Session.thy ===== *)
theory Broker_Session
  imports Broker_Redact
begin

text \<open>
  \<open>codex-broker/src/session.rs\<close>: the state the phone is judged against, learned by
  watching the keyboard. \<open>binding\<close> is everything behind the session's one mutex: the head (the
  thread the keyboard is on), the threads it has left, the turns that run, and the phone's ledger
  of outstanding request ids. Each method of \<open>SessionThreads\<close> is a function on it, one critical
  section per call; \<open>observe_server_frame\<close>, which takes the lock twice on two exclusive paths, is
  one too.
\<close>

section \<open>Constants and state\<close>

definition MOVE_METHODS :: "string list" where
  "MOVE_METHODS = [''thread/start'', ''thread/resume'', ''thread/fork'']"

definition TURN_METHOD :: string where
  "TURN_METHOD = ''turn/start''"

definition UNSUBSCRIBE_METHOD :: string where
  "UNSUBSCRIBE_METHOD = ''thread/unsubscribe''"

definition MAX_TRACKED_CONNECTIONS :: nat where "MAX_TRACKED_CONNECTIONS = 1024"
definition MAX_OUTSTANDING_REQUESTS :: nat where "MAX_OUTSTANDING_REQUESTS = 256"
definition MAX_CLEARED_TURNS :: nat where "MAX_CLEARED_TURNS = 64"
definition MAX_ACTIVE_TURNS :: nat where "MAX_ACTIVE_TURNS = 8"
definition MAX_RUNNING_THREADS :: nat where "MAX_RUNNING_THREADS = 64"
definition MAX_THREAD_ID_BYTES :: nat where "MAX_THREAD_ID_BYTES = 64"
definition MAX_RETIRED_THREADS :: nat where "MAX_RETIRED_THREADS = 64"

text \<open>\<open>ConnId\<close> wraps a \<open>u64\<close>.\<close>

type_synonym conn_id = "64 word"

definition id_within_cap :: "request_id \<Rightarrow> bool" where
  "id_within_cap i = (case i of RStr s \<Rightarrow> length s \<le> MAX_REQUEST_ID_BYTES | RInt n \<Rightarrow> True)"

datatype id_admission = Admitted | ReusedInFlight | Oversized | AtCapacity

record id_ledger_counts =
  reused_in_flight :: "64 word"
  oversized :: "64 word"
  at_capacity :: "64 word"

record settled =
  thread :: string
  left :: bool

datatype head =
    Unbound
  | On settled
  | Moving conn_id request_id "settled option"

datatype move_outcome = Landed string | MoveRefused | MoveUnknown

datatype turn_state = Unanswered | Answered "string option"

record turn_entry =
  te_thread :: string
  te_state :: turn_state

record terminal_epochs =
  seen :: "(string \<times> string) set"
  order :: "(string \<times> string) list"

record turn_activity =
  admitted :: "(conn_id \<times> request_id, turn_entry) hash"
  running :: "(string, string) hash"
  cleared :: terminal_epochs

datatype turn_admission =
    TurnAdmitted
  | NotTheHead string
  | WrongWorkspace string
  | Ledger id_admission
  | TurnMoving
  | TooManyActiveTurns
  | ThreadAlreadyBusy

record binding =
  head :: head
  ever_bound :: bool
  retired :: "string list"
  turns :: turn_activity
  conns :: "(conn_id, (request_id, string) hash) hash"
  counts :: id_ledger_counts

definition new_binding :: binding where
  "new_binding =
     \<lparr>head = Unbound, ever_bound = False, retired = [],
      turns = \<lparr>admitted = [], running = [], cleared = \<lparr>seen = {}, order = []\<rparr>\<rparr>,
      conns = [], counts = \<lparr>reused_in_flight = 0, oversized = 0, at_capacity = 0\<rparr>\<rparr>"

section \<open>Terminals already seen\<close>

definition epoch_contains :: "terminal_epochs \<Rightarrow> string \<Rightarrow> string \<Rightarrow> bool" where
  "epoch_contains e th tu \<longleftrightarrow> (th, tu) \<in> seen e"

definition epoch_admit :: "terminal_epochs \<Rightarrow> string \<Rightarrow> string \<Rightarrow> terminal_epochs \<times> bool" where
  "epoch_admit e th tu =
     (let key = (th, tu) in
      if key \<in> seen e then (e, False)
      else
        let e1 = (if MAX_CLEARED_TURNS \<le> length (order e) then
                    (case order e of
                       [] \<Rightarrow> e
                     | evicted # rest \<Rightarrow> e\<lparr>seen := seen e - {evicted}, order := rest\<rparr>)
                  else e)
        in (e1\<lparr>seen := insert key (seen e1), order := order e1 @ [key]\<rparr>, True))"

section \<open>Which turns run\<close>

definition busy_on :: "turn_activity \<Rightarrow> string \<Rightarrow> bool" where
  "busy_on a th \<longleftrightarrow>
     hget (running a) th \<noteq> None \<or> list_ex (\<lambda>(k, e). te_thread e = th) (admitted a)"

definition is_active :: "turn_activity \<Rightarrow> string \<Rightarrow> string \<Rightarrow> bool" where
  "is_active a th tu \<longleftrightarrow>
     hget (running a) th = Some tu \<or>
     list_ex (\<lambda>(k, e). te_thread e = th \<and> te_state e = Answered (Some tu)) (admitted a)"

definition started :: "turn_activity \<Rightarrow> string \<Rightarrow> string \<Rightarrow> string option \<Rightarrow> turn_activity" where
  "started a th tu hd_thread =
     (if epoch_contains (cleared a) th tu then a
      else
        let r = (if MAX_RUNNING_THREADS \<le> length (running a) \<and> hget (running a) th = None
                 then hretain (\<lambda>t _. Some t = hd_thread) (running a)
                 else running a)
        in a\<lparr>running := hput th tu r\<rparr>)"

definition turn_len :: "turn_activity \<Rightarrow> nat" where
  "turn_len a = length (admitted a)"

definition turn_holds :: "turn_activity \<Rightarrow> conn_id \<Rightarrow> request_id \<Rightarrow> bool" where
  "turn_holds a c i \<longleftrightarrow> hget (admitted a) (c, i) \<noteq> None"

definition awaits_answer :: "turn_activity \<Rightarrow> conn_id \<Rightarrow> request_id \<Rightarrow> bool" where
  "awaits_answer a c i =
     (case hget (admitted a) (c, i) of None \<Rightarrow> False | Some e \<Rightarrow> te_state e = Unanswered)"

definition turn_admit :: "turn_activity \<Rightarrow> conn_id \<Rightarrow> request_id \<Rightarrow> string \<Rightarrow> turn_activity" where
  "turn_admit a c i th =
     a\<lparr>admitted := hput (c, i) \<lparr>te_thread = th, te_state = Unanswered\<rparr> (admitted a)\<rparr>"

definition turn_answered :: "turn_activity \<Rightarrow> conn_id \<Rightarrow> request_id \<Rightarrow> string option \<Rightarrow> turn_activity" where
  "turn_answered a c i tu =
     (case hget (admitted a) (c, i) of
        None \<Rightarrow> a
      | Some e \<Rightarrow>
          if (case tu of None \<Rightarrow> False | Some t \<Rightarrow> epoch_contains (cleared a) (te_thread e) t)
          then a\<lparr>admitted := hdel (c, i) (admitted a)\<rparr>
          else a\<lparr>admitted := hput (c, i) (e\<lparr>te_state := Answered tu\<rparr>) (admitted a)\<rparr>)"

definition turn_release :: "turn_activity \<Rightarrow> conn_id \<Rightarrow> request_id \<Rightarrow> turn_activity" where
  "turn_release a c i = a\<lparr>admitted := hdel (c, i) (admitted a)\<rparr>"

definition turn_terminal :: "turn_activity \<Rightarrow> string \<Rightarrow> string option \<Rightarrow> turn_activity" where
  "turn_terminal a th turn =
     (case turn of
        None \<Rightarrow> a
      | Some tu \<Rightarrow>
          (case epoch_admit (cleared a) th tu of (e, fresh) \<Rightarrow>
             if \<not> fresh then a
             else
               a\<lparr>cleared := e,
                 running := (if hget (running a) th = Some tu then hdel th (running a) else running a),
                 admitted := hretain (\<lambda>_ t. te_thread t \<noteq> th \<or> te_state t = Unanswered) (admitted a)\<rparr>))"

definition turn_close_connection :: "turn_activity \<Rightarrow> conn_id \<Rightarrow> turn_activity" where
  "turn_close_connection a c =
     a\<lparr>admitted := hretain (\<lambda>k e. fst k \<noteq> c \<or> te_state e \<noteq> Unanswered) (admitted a)\<rparr>"

section \<open>The head\<close>

fun head_of :: "head \<Rightarrow> string option" where
  "head_of (On s) = Some (thread s)"
| "head_of (Moving c i (Some s)) = Some (thread s)"
| "head_of _ = None"

definition retire :: "binding \<Rightarrow> string \<Rightarrow> binding" where
  "retire g th =
     (if MAX_RETIRED_THREADS \<le> length (retired g) \<or> th \<in> set (retired g) then g
      else g\<lparr>retired := retired g @ [th]\<rparr>)"

definition retire_opt :: "binding \<Rightarrow> settled option \<Rightarrow> binding" where
  "retire_opt g origin = (case origin of None \<Rightarrow> g | Some s \<Rightarrow> retire g (thread s))"

definition head_from :: "settled option \<Rightarrow> head" where
  "head_from origin = (case origin of None \<Rightarrow> Unbound | Some s \<Rightarrow> On s)"

definition readable :: "string option \<Rightarrow> string option" where
  "readable s = (case s of None \<Rightarrow> None
     | Some t \<Rightarrow> if t \<noteq> [] \<and> length t \<le> MAX_THREAD_ID_BYTES then Some t else None)"

definition bound_thread :: "binding \<Rightarrow> string option" where
  "bound_thread g = (case head g of On s \<Rightarrow> if left s then None else Some (thread s) | _ \<Rightarrow> None)"

definition thread_ever_bound :: "binding \<Rightarrow> bool" where
  "thread_ever_bound g = ever_bound g"

definition is_session_thread :: "binding \<Rightarrow> string \<Rightarrow> bool" where
  "is_session_thread g th \<longleftrightarrow> head_of (head g) = Some th \<or> th \<in> set (retired g)"

definition is_active_turn :: "binding \<Rightarrow> string \<Rightarrow> string \<Rightarrow> bool" where
  "is_active_turn g th tu = is_active (turns g) th tu"

section \<open>Watching the keyboard's requests\<close>

definition leave :: "string \<Rightarrow> head \<Rightarrow> head" where
  "leave th h = (case h of
     On s \<Rightarrow> On (if thread s = th then s\<lparr>left := True\<rparr> else s)
   | Moving c i (Some s) \<Rightarrow> Moving c i (Some (if thread s = th then s\<lparr>left := True\<rparr> else s))
   | _ \<Rightarrow> h)"

definition begin_move :: "binding \<Rightarrow> conn_id \<Rightarrow> request_id \<Rightarrow> binding" where
  "begin_move g c i = (case head g of
     On s \<Rightarrow> g\<lparr>head := Moving c i (Some s)\<rparr>
   | Moving c' i' origin \<Rightarrow> (retire_opt g origin)\<lparr>head := Moving c i None\<rparr>
   | Unbound \<Rightarrow> g\<lparr>head := Moving c i None\<rparr>)"

definition observe_tui_request :: "binding \<Rightarrow> conn_id \<Rightarrow> shape \<Rightarrow> binding \<times> bool" where
  "observe_tui_request g c sh = (case sh of
     SRequest method (Some i) obj \<Rightarrow>
       if method \<in> set MOVE_METHODS then
         if jpointer [''params'', ''ephemeral''] obj = Some (JBool True) then (g, False)
         else (begin_move g c i, True)
       else (case readable (str_at [''params'', ''threadId''] obj) of
           None \<Rightarrow> (g, False)
         | Some th \<Rightarrow>
             if method = TURN_METHOD then (g\<lparr>turns := turn_admit (turns g) c i th\<rparr>, False)
             else if method = UNSUBSCRIBE_METHOD then (g\<lparr>head := leave th (head g)\<rparr>, False)
             else (g, False))
   | _ \<Rightarrow> (g, False))"

definition rollback_move :: "binding \<Rightarrow> conn_id \<Rightarrow> request_id \<Rightarrow> binding" where
  "rollback_move g c i = (case head g of
     Moving c' i' origin \<Rightarrow> if c' = c \<and> i' = i then g\<lparr>head := head_from origin\<rparr> else g
   | _ \<Rightarrow> g)"

definition close_connection :: "binding \<Rightarrow> conn_id \<Rightarrow> binding" where
  "close_connection g c =
     (let g1 = (case head g of
            Moving c' i origin \<Rightarrow> if c' = c then (retire_opt g origin)\<lparr>head := Unbound\<rparr> else g
          | _ \<Rightarrow> g)
      in g1\<lparr>turns := turn_close_connection (turns g1) c, conns := hdel c (conns g1)\<rparr>)"

section \<open>Watching the server's frames\<close>

definition move_outcome_of :: "ext \<Rightarrow> response_kind \<Rightarrow> string \<Rightarrow> move_outcome option" where
  "move_outcome_of L kind text = (case kind of
     RkError \<Rightarrow> Some MoveRefused
   | NotAResponse \<Rightarrow> Some MoveUnknown
   | RkResult \<Rightarrow>
       (case parse_no_dup_value L text of
          None \<Rightarrow> None
        | Some v \<Rightarrow>
            (case readable (str_at [''result'', ''thread'', ''id''] v) of
               None \<Rightarrow> Some MoveUnknown
             | Some t \<Rightarrow> Some (Landed t))))"

definition settle_move :: "binding \<Rightarrow> settled option \<Rightarrow> move_outcome \<Rightarrow> binding" where
  "settle_move g origin outcome = (case outcome of
     Landed th \<Rightarrow>
       (case origin of
          None \<Rightarrow> g
        | Some f \<Rightarrow> if thread f \<noteq> th then retire g (thread f) else g)
       \<lparr>ever_bound := True, head := On \<lparr>thread = th, left = False\<rparr>\<rparr>
   | MoveRefused \<Rightarrow> g\<lparr>head := head_from origin\<rparr>
   | MoveUnknown \<Rightarrow> (retire_opt g origin)\<lparr>head := Unbound\<rparr>)"

definition release_id :: "binding \<Rightarrow> conn_id \<Rightarrow> request_id \<Rightarrow> binding" where
  "release_id g c i = (case hget (conns g) c of
     None \<Rightarrow> g
   | Some outstanding \<Rightarrow> g\<lparr>conns := hput c (hdel i outstanding) (conns g)\<rparr>)"

definition answer_turn :: "ext \<Rightarrow> binding \<Rightarrow> conn_id \<Rightarrow> request_id \<Rightarrow> response_kind \<Rightarrow> string \<Rightarrow> binding" where
  "answer_turn L g c i kind text =
     (if awaits_answer (turns g) c i then
        (if kind = RkError then g\<lparr>turns := turn_release (turns g) c i\<rparr>
         else
           let turn = Option.bind (parse_no_dup_value L text)
                 (\<lambda>v. readable (str_at [''result'', ''turn'', ''id''] v))
           in g\<lparr>turns := turn_answered (turns g) c i turn\<rparr>)
      else g)"

definition COMPLETED_MARK :: string where
  "COMPLETED_MARK = CHR 0x22 # ''turn/completed'' @ [CHR 0x22]"

definition STARTED_MARK :: string where
  "STARTED_MARK = CHR 0x22 # ''turn/started'' @ [CHR 0x22]"

definition observe_turn_lifecycle :: "ext \<Rightarrow> binding \<Rightarrow> string \<Rightarrow> binding" where
  "observe_turn_lifecycle L g text =
     (if \<not> str_contains COMPLETED_MARK text \<and> \<not> str_contains STARTED_MARK text then g
      else (case from_str L text of
          None \<Rightarrow> g
        | Some v \<Rightarrow>
            let method = Option.bind (jget ''method'' v) as_str in
            if method \<noteq> Some ''turn/started'' \<and> method \<noteq> Some ''turn/completed'' then g
            else (case readable (str_at [''params'', ''threadId''] v) of
                None \<Rightarrow> g
              | Some th \<Rightarrow>
                  let turn = readable (str_at [''params'', ''turn'', ''id''] v) in
                  if method = Some ''turn/completed''
                  then g\<lparr>turns := turn_terminal (turns g) th turn\<rparr>
                  else (case turn of
                      None \<Rightarrow> g
                    | Some tu \<Rightarrow> g\<lparr>turns := started (turns g) th tu (head_of (head g))\<rparr>))))"

definition observe_response ::
  "ext \<Rightarrow> binding \<Rightarrow> conn_id \<Rightarrow> request_id \<Rightarrow> response_kind \<Rightarrow> string \<Rightarrow> binding" where
  "observe_response L g c i kind text =
     (if \<not> is_response kind then g else release_id (answer_turn L g c i kind text) c i)"

definition observe_server_frame :: "ext \<Rightarrow> binding \<Rightarrow> conn_id \<Rightarrow> string \<Rightarrow> binding" where
  "observe_server_frame L g c text = (case scan_frame_header L text of
     None \<Rightarrow> g
   | Some h \<Rightarrow>
       if has_method h then observe_turn_lifecycle L g text
       else (case fh_id h of
           None \<Rightarrow> g
         | Some i \<Rightarrow>
             (case head g of
                Moving c' i' origin \<Rightarrow>
                  if c' = c \<and> i' = i then
                    (case move_outcome_of L (response h) text of
                       None \<Rightarrow> g
                     | Some outcome \<Rightarrow> settle_move g origin outcome)
                  else observe_response L g c i (response h) text
              | _ \<Rightarrow> observe_response L g c i (response h) text)))"

section \<open>Admitting the phone's requests\<close>

definition admit_id :: "binding \<Rightarrow> conn_id \<Rightarrow> request_id \<Rightarrow> string \<Rightarrow> binding \<times> id_admission" where
  "admit_id g c i method =
     (if \<not> id_within_cap i then
        (g\<lparr>counts := (counts g)\<lparr>oversized := oversized (counts g) + 1\<rparr>\<rparr>, Oversized)
      else if hget (conns g) c = None \<and> MAX_TRACKED_CONNECTIONS \<le> length (conns g) then
        (g\<lparr>counts := (counts g)\<lparr>at_capacity := at_capacity (counts g) + 1\<rparr>\<rparr>, AtCapacity)
      else
        let outstanding = (case hget (conns g) c of None \<Rightarrow> [] | Some out \<Rightarrow> out);
            g1 = g\<lparr>conns := hput c outstanding (conns g)\<rparr>
        in if hget outstanding i \<noteq> None then
             (g1\<lparr>counts := (counts g)\<lparr>reused_in_flight := reused_in_flight (counts g) + 1\<rparr>\<rparr>,
              ReusedInFlight)
           else if MAX_OUTSTANDING_REQUESTS \<le> length outstanding then
             (g1\<lparr>counts := (counts g)\<lparr>at_capacity := at_capacity (counts g) + 1\<rparr>\<rparr>, AtCapacity)
           else (g1\<lparr>conns := hput c (hput i method outstanding) (conns g1)\<rparr>, Admitted))"

definition try_admit_request :: "binding \<Rightarrow> conn_id \<Rightarrow> request_id \<Rightarrow> string \<Rightarrow> binding \<times> id_admission" where
  "try_admit_request g c i method = admit_id g c i method"

definition no_head_detail :: "string \<Rightarrow> string" where
  "no_head_detail th =
     ''turn/start names thread '' @ redact_thread_id th @ '' but the keyboard is on no thread''"

definition other_head_detail :: "string \<Rightarrow> string \<Rightarrow> string" where
  "other_head_detail th hd_thread =
     ''turn/start names thread '' @ redact_thread_id th @ '' but the keyboard is on ''
       @ redact_thread_id hd_thread"

definition workspace_detail :: "json option \<Rightarrow> json option \<Rightarrow> string" where
  "workspace_detail cwd roots =
     ''turn/start: a phone's turn names no workspace '' @ em_dash
       @ '' params.cwd must be null and params.runtimeWorkspaceRoots absent (cwd: ''
       @ value_shape cwd @ ''; roots: '' @ value_shape roots @ '')''"

definition admit_turn_on ::
  "binding \<Rightarrow> conn_id \<Rightarrow> request_id \<Rightarrow> string \<Rightarrow> string \<Rightarrow> json option \<Rightarrow> json option \<Rightarrow>
     binding \<times> turn_admission" where
  "admit_turn_on g c i hd_thread th cwd roots =
     (if hd_thread \<noteq> th then (g, NotTheHead (other_head_detail th hd_thread))
      else if cwd \<noteq> Some JNull \<or> roots \<noteq> None then (g, WrongWorkspace (workspace_detail cwd roots))
      else if turn_holds (turns g) c i then
        (g\<lparr>counts := (counts g)\<lparr>reused_in_flight := reused_in_flight (counts g) + 1\<rparr>\<rparr>,
         Ledger ReusedInFlight)
      else if busy_on (turns g) hd_thread then (g, ThreadAlreadyBusy)
      else if MAX_ACTIVE_TURNS \<le> turn_len (turns g) then (g, TooManyActiveTurns)
      else (case admit_id g c i TURN_METHOD of
          (g1, Admitted) \<Rightarrow> (g1\<lparr>turns := turn_admit (turns g1) c i th\<rparr>, TurnAdmitted)
        | (g1, other) \<Rightarrow> (g1, Ledger other)))"

definition try_admit_idle_turn ::
  "binding \<Rightarrow> conn_id \<Rightarrow> request_id \<Rightarrow> string \<Rightarrow> json option \<Rightarrow> json option \<Rightarrow>
     binding \<times> turn_admission" where
  "try_admit_idle_turn g c i th cwd roots = (case head g of
     On s \<Rightarrow> if left s then (g, TurnMoving) else admit_turn_on g c i (thread s) th cwd roots
   | Moving c' i' origin \<Rightarrow> (g, TurnMoving)
   | Unbound \<Rightarrow> (g, NotTheHead (no_head_detail th)))"

end
