(* ===== verification/Broker_Session_Inv.thy ===== *)
theory Broker_Session_Inv
  imports Broker_Session
begin

text \<open>
  What the session keeps true. \<open>wf_binding\<close> is the bound on everything the session stores for a
  phone and the agreement between its fields; every method keeps it. \<open>session_step\<close> is one call
  of a method, and \<open>session_reach\<close> the states any interleaving of calls from any connections can
  reach.
\<close>

section \<open>Well-formedness\<close>

definition id_ok :: "string \<Rightarrow> bool" where
  "id_ok t \<longleftrightarrow> t \<noteq> [] \<and> length t \<le> MAX_THREAD_ID_BYTES"

definition wf_head :: "head \<Rightarrow> bool" where
  "wf_head h \<longleftrightarrow> (case head_of h of None \<Rightarrow> True | Some t \<Rightarrow> id_ok t)"

definition wf_epochs :: "terminal_epochs \<Rightarrow> bool" where
  "wf_epochs e \<longleftrightarrow> seen e = set (order e) \<and> distinct (order e) \<and>
     length (order e) \<le> MAX_CLEARED_TURNS \<and>
     list_all (\<lambda>(th, tu). id_ok th \<and> id_ok tu) (order e)"

definition wf_turns :: "turn_activity \<Rightarrow> bool" where
  "wf_turns a \<longleftrightarrow> hwf (admitted a) \<and> list_all (\<lambda>(k, e). id_ok (te_thread e)) (admitted a) \<and>
     hwf (running a) \<and> length (running a) \<le> MAX_RUNNING_THREADS \<and>
     list_all (\<lambda>(th, tu). id_ok th \<and> id_ok tu) (running a) \<and> wf_epochs (cleared a)"

definition wf_ledger :: "(request_id, string) hash \<Rightarrow> bool" where
  "wf_ledger out \<longleftrightarrow> hwf out \<and> length out \<le> MAX_OUTSTANDING_REQUESTS \<and>
     list_all (\<lambda>(i, m). id_within_cap i) out"

definition wf_conns :: "(conn_id, (request_id, string) hash) hash \<Rightarrow> bool" where
  "wf_conns cs \<longleftrightarrow> hwf cs \<and> length cs \<le> MAX_TRACKED_CONNECTIONS \<and>
     list_all (\<lambda>(c, out). wf_ledger out) cs"

definition wf_retired :: "string list \<Rightarrow> bool" where
  "wf_retired r \<longleftrightarrow> distinct r \<and> length r \<le> MAX_RETIRED_THREADS \<and> list_all id_ok r"

definition wf_binding :: "binding \<Rightarrow> bool" where
  "wf_binding g \<longleftrightarrow> wf_head (head g) \<and> wf_retired (retired g) \<and> wf_turns (turns g) \<and>
     wf_conns (conns g)"

lemmas cap_defs = MAX_THREAD_ID_BYTES_def MAX_CLEARED_TURNS_def MAX_RUNNING_THREADS_def
  MAX_OUTSTANDING_REQUESTS_def MAX_TRACKED_CONNECTIONS_def MAX_RETIRED_THREADS_def
  MAX_ACTIVE_TURNS_def MAX_REQUEST_ID_BYTES_def

lemma readable_Some: "readable s = Some t \<longleftrightarrow> s = Some t \<and> id_ok t"
  by (auto simp: readable_def id_ok_def split: option.splits)

lemma readable_ok [broker_inv]: "readable s = Some t \<Longrightarrow> id_ok t"
  by (simp add: readable_Some)

subsection \<open>Turns\<close>

lemma wf_epochs_admit [broker_inv]:
  assumes "wf_epochs e" "id_ok th" "id_ok tu"
  shows "wf_epochs (fst (epoch_admit e th tu))"
proof (cases "order e")
  case Nil
  with assms show ?thesis
    by (auto simp: epoch_admit_def wf_epochs_def Let_def MAX_CLEARED_TURNS_def)
next
  case (Cons x xs)
  with assms show ?thesis
    by (auto simp: epoch_admit_def wf_epochs_def Let_def)
qed

lemma epoch_admit_fresh: "snd (epoch_admit e th tu) \<longleftrightarrow> \<not> epoch_contains e th tu"
  by (simp add: epoch_admit_def epoch_contains_def Let_def)

lemma epoch_admit_seen: "epoch_contains e th tu \<Longrightarrow> epoch_admit e th tu = (e, False)"
  by (simp add: epoch_admit_def epoch_contains_def)

lemma epoch_admit_contains: "epoch_contains (fst (epoch_admit e th tu)) th tu"
  by (simp add: epoch_admit_def epoch_contains_def Let_def)

lemma wf_turns_admit [broker_inv]: "wf_turns a \<Longrightarrow> id_ok th \<Longrightarrow> wf_turns (turn_admit a c i th)"
  by (simp add: wf_turns_def turn_admit_def list_all_hash)

lemma wf_turns_release [broker_inv]: "wf_turns a \<Longrightarrow> wf_turns (turn_release a c i)"
  by (simp add: wf_turns_def turn_release_def list_all_hash)

lemma wf_turns_answered [broker_inv]: "wf_turns a \<Longrightarrow> wf_turns (turn_answered a c i tu)"
proof -
  assume wf: "wf_turns a"
  have "id_ok (te_thread e)" if "hget (admitted a) (c, i) = Some e" for e
    using wf hget_in_set [OF that] by (auto simp: wf_turns_def list_all_iff)
  with wf show ?thesis
    by (auto simp: wf_turns_def turn_answered_def list_all_hash split: option.split)
qed

lemma wf_epochs_admit_eq:
  "epoch_admit e th tu = (e', b) \<Longrightarrow> wf_epochs e \<Longrightarrow> id_ok th \<Longrightarrow> id_ok tu \<Longrightarrow> wf_epochs e'"
  using wf_epochs_admit [of e th tu] by simp

lemma wf_turns_terminal [broker_inv]:
  "wf_turns a \<Longrightarrow> id_ok th \<Longrightarrow> (\<And>t. tu = Some t \<Longrightarrow> id_ok t) \<Longrightarrow> wf_turns (turn_terminal a th tu)"
  using length_hdel_le [of th "running a"]
  by (auto simp: wf_turns_def turn_terminal_def list_all_hash
      split: option.split prod.split intro: order_trans wf_epochs_admit_eq)

lemma wf_turns_close [broker_inv]: "wf_turns a \<Longrightarrow> wf_turns (turn_close_connection a c)"
  by (simp add: wf_turns_def turn_close_connection_def list_all_hash)

lemma length_retain_one: "hwf h \<Longrightarrow> length (hretain (\<lambda>t _. Some t = x) h) \<le> 1"
proof -
  assume "hwf h"
  then have "hwf (hretain (\<lambda>t _. Some t = x) h)" by simp
  then have d: "distinct (map fst (hretain (\<lambda>t _. Some t = x) h))" by (simp add: hwf_def)
  have "set (map fst (hretain (\<lambda>t _. Some t = x) h)) \<subseteq> set_option x"
    by (auto simp: hretain_def)
  then have "card (set (map fst (hretain (\<lambda>t _. Some t = x) h))) \<le> 1"
    using card_mono [of "set_option x"] by (cases x) fastforce+
  with distinct_card [OF d] show ?thesis by simp
qed

lemma wf_turns_started [broker_inv]:
  assumes "wf_turns a" "id_ok th" "id_ok tu"
  shows "wf_turns (started a th tu h)"
  using assms length_retain_one [of "running a" h]
  by (auto simp: wf_turns_def started_def Let_def list_all_hash length_hput MAX_RUNNING_THREADS_def)

subsection \<open>The whole binding\<close>

lemma wf_retire [broker_inv]: "wf_binding g \<Longrightarrow> id_ok th \<Longrightarrow> wf_binding (retire g th)"
  by (auto simp: wf_binding_def wf_retired_def retire_def)

lemma retire_frame [simp, broker_frame]:
  "head (retire g th) = head g" "turns (retire g th) = turns g" "conns (retire g th) = conns g"
  "counts (retire g th) = counts g" "ever_bound (retire g th) = ever_bound g"
  by (simp_all add: retire_def)

lemma retire_opt_frame [simp, broker_frame]:
  "head (retire_opt g o') = head g" "turns (retire_opt g o') = turns g"
  "conns (retire_opt g o') = conns g" "counts (retire_opt g o') = counts g"
  "ever_bound (retire_opt g o') = ever_bound g"
  by (simp_all add: retire_opt_def split: option.split)

lemma wf_retire_opt [broker_inv]:
  "wf_binding g \<Longrightarrow> (\<And>s. o' = Some s \<Longrightarrow> id_ok (thread s)) \<Longrightarrow> wf_binding (retire_opt g o')"
  by (auto simp: retire_opt_def wf_retire split: option.split)

lemma wf_set_head: "wf_binding g \<Longrightarrow> wf_head h \<Longrightarrow> wf_binding (g\<lparr>head := h\<rparr>)"
  by (simp add: wf_binding_def)

lemma wf_set_turns: "wf_binding g \<Longrightarrow> wf_turns t \<Longrightarrow> wf_binding (g\<lparr>turns := t\<rparr>)"
  by (simp add: wf_binding_def)

lemma wf_set_conns: "wf_binding g \<Longrightarrow> wf_conns t \<Longrightarrow> wf_binding (g\<lparr>conns := t\<rparr>)"
  by (simp add: wf_binding_def)

lemma wf_set_other:
  "wf_binding g \<Longrightarrow> wf_binding (g\<lparr>counts := x\<rparr>)" "wf_binding g \<Longrightarrow> wf_binding (g\<lparr>ever_bound := b\<rparr>)"
  by (simp_all add: wf_binding_def)

lemmas wf_sets = wf_set_head wf_set_turns wf_set_conns wf_set_other

lemma wf_head_simps [simp]:
  "wf_head Unbound" "wf_head (On s) \<longleftrightarrow> id_ok (thread s)"
  "wf_head (Moving c i None)" "wf_head (Moving c i (Some s)) \<longleftrightarrow> id_ok (thread s)"
  by (simp_all add: wf_head_def)

lemma wf_head_Moving: "wf_head (Moving c i origin) \<longleftrightarrow> (\<forall>s. origin = Some s \<longrightarrow> id_ok (thread s))"
  by (cases origin) auto

lemma wf_head_from: "wf_head (Moving c i origin) \<Longrightarrow> wf_head (head_from origin)"
  by (cases origin) (auto simp: head_from_def)

lemma wf_binding_head: "wf_binding g \<Longrightarrow> head g = h \<Longrightarrow> wf_head h"
  by (auto simp: wf_binding_def)

lemma wf_leave: "wf_head h \<Longrightarrow> wf_head (leave th h)"
  by (auto simp: leave_def split: head.split option.split)

lemma wf_binding_turns: "wf_binding g \<Longrightarrow> wf_turns (turns g)"
  by (simp add: wf_binding_def)

lemma wf_begin_move [broker_inv]: "wf_binding g \<Longrightarrow> wf_binding (begin_move g c i)"
  by (auto simp: begin_move_def wf_head_Moving split: head.split
      intro!: wf_sets wf_retire_opt dest: wf_binding_head)

lemma wf_observe_tui_request [broker_inv]:
  "wf_binding g \<Longrightarrow> wf_binding (fst (observe_tui_request g c sh))"
  by (auto simp: observe_tui_request_def readable_Some split: shape.split option.split
      intro!: wf_begin_move wf_sets wf_turns_admit wf_leave dest: wf_binding_turns wf_binding_head)

lemma wf_rollback_move [broker_inv]: "wf_binding g \<Longrightarrow> wf_binding (rollback_move g c i)"
  by (auto simp: rollback_move_def split: head.split intro!: wf_sets wf_head_from
      dest: wf_binding_head)

lemma wf_conns_hdel: "wf_conns cs \<Longrightarrow> wf_conns (hdel c cs)"
  using length_hdel_le [of c cs] by (auto simp: wf_conns_def list_all_hash)

lemma wf_conns_hput: "wf_conns cs \<Longrightarrow> wf_ledger out \<Longrightarrow>
   hget cs c \<noteq> None \<or> length cs < MAX_TRACKED_CONNECTIONS \<Longrightarrow> wf_conns (hput c out cs)"
  by (auto simp: wf_conns_def list_all_hash length_hput)

lemma wf_conns_get: "wf_conns cs \<Longrightarrow> hget cs c = Some out \<Longrightarrow> wf_ledger out"
  by (auto simp: wf_conns_def list_all_iff dest: hget_in_set)

lemma wf_binding_conns: "wf_binding g \<Longrightarrow> wf_conns (conns g)"
  by (simp add: wf_binding_def)

lemma wf_close_connection [broker_inv]: "wf_binding g \<Longrightarrow> wf_binding (close_connection g c)"
  by (auto simp: close_connection_def Let_def wf_head_Moving split: head.split
      intro!: wf_sets wf_turns_close wf_conns_hdel wf_retire_opt
      dest: wf_binding_turns wf_binding_conns wf_binding_head)

lemma wf_settle_move [broker_inv]:
  assumes "wf_binding g" "wf_head (Moving c i origin)" "\<And>t. outcome = Landed t \<Longrightarrow> id_ok t"
  shows "wf_binding (settle_move g origin outcome)"
  using assms
  by (auto simp: settle_move_def wf_head_Moving head_from_def split: move_outcome.split option.split
      intro!: wf_sets wf_retire wf_retire_opt)

lemma move_outcome_ok: "move_outcome_of L kind text = Some (Landed t) \<Longrightarrow> id_ok t"
  by (auto simp: move_outcome_of_def readable_Some split: response_kind.splits option.splits)

lemma wf_release_id [broker_inv]: "wf_binding g \<Longrightarrow> wf_binding (release_id g c i)"
proof -
  assume wf: "wf_binding g"
  have "wf_ledger (hdel i out)" if "hget (conns g) c = Some out" for out
    using wf_conns_get [OF wf_binding_conns [OF wf] that] length_hdel_le [of i out]
    by (auto simp: wf_ledger_def list_all_hash)
  with wf show ?thesis
    by (auto simp: release_id_def split: option.split intro!: wf_sets wf_conns_hput
        dest: wf_binding_conns)
qed

lemma wf_answer_turn [broker_inv]: "wf_binding g \<Longrightarrow> wf_binding (answer_turn L g c i kind text)"
  by (auto simp: answer_turn_def Let_def intro!: wf_sets wf_turns_release wf_turns_answered
      dest: wf_binding_turns)

lemma wf_observe_response [broker_inv]:
  "wf_binding g \<Longrightarrow> wf_binding (observe_response L g c i kind text)"
  by (simp add: observe_response_def wf_release_id wf_answer_turn)

lemma wf_observe_turn_lifecycle [broker_inv]:
  "wf_binding g \<Longrightarrow> wf_binding (observe_turn_lifecycle L g text)"
  by (auto simp: observe_turn_lifecycle_def Let_def readable_Some split: option.split
      intro!: wf_sets wf_turns_terminal wf_turns_started dest: wf_binding_turns)

lemma wf_observe_server_frame [broker_inv]:
  "wf_binding g \<Longrightarrow> wf_binding (observe_server_frame L g c text)"
  by (auto simp: observe_server_frame_def split: option.split head.split
      intro!: wf_observe_response wf_observe_turn_lifecycle wf_settle_move
      intro: move_outcome_ok dest: wf_binding_head)

lemma wf_admit_id [broker_inv]: "wf_binding g \<Longrightarrow> wf_binding (fst (admit_id g c i m))"
proof -
  assume wf: "wf_binding g"
  have "wf_ledger out" if "hget (conns g) c = Some out" for out
    using wf_conns_get [OF wf_binding_conns [OF wf] that] .
  moreover have "wf_ledger []" by (simp add: wf_ledger_def)
  moreover have "wf_ledger (hput i m out)"
    if "wf_ledger out" "length out < MAX_OUTSTANDING_REQUESTS" "id_within_cap i" for out
    using that by (auto simp: wf_ledger_def list_all_hash length_hput)
  moreover have "wf_ledger [(i, m)]" if "id_within_cap i"
    using that by (simp add: wf_ledger_def hwf_def MAX_OUTSTANDING_REQUESTS_def)
  ultimately show ?thesis
    using wf by (auto simp: admit_id_def Let_def not_le split: option.split
        intro!: wf_sets wf_conns_hput dest: wf_binding_conns)
qed

lemma wf_try_admit_idle_turn [broker_inv]:
  "wf_binding g \<Longrightarrow> wf_binding (fst (try_admit_idle_turn g c i th cwd roots))"
  using wf_admit_id [of g c i TURN_METHOD]
  by (auto simp: try_admit_idle_turn_def admit_turn_on_def split: head.split prod.split
      id_admission.split intro!: wf_sets wf_turns_admit dest: wf_binding_turns wf_binding_head)

end
