(* ===== verification/Broker_Session_Props.thy ===== *)
theory Broker_Session_Props
  imports Broker_Session_Inv
begin

text \<open>
  The session as a state machine: one event is one call on the shared session, from any connection
  in any order. What holds of every run: the memory bounds, that the head moves only on the
  keyboard's answered request, that a phone's turn is exclusive, that an id in flight is not
  forwarded twice, and that an ended turn stays ended.
\<close>

datatype session_event =
    EvTuiRequest conn_id shape
  | EvRollback conn_id request_id
  | EvClose conn_id
  | EvServerFrame conn_id string
  | EvPhoneRequest conn_id request_id string
  | EvPhoneTurn conn_id request_id string "json option" "json option"

fun session_step :: "ext \<Rightarrow> binding \<Rightarrow> session_event \<Rightarrow> binding" where
  "session_step L g (EvTuiRequest c sh) = fst (observe_tui_request g c sh)"
| "session_step L g (EvRollback c i) = rollback_move g c i"
| "session_step L g (EvClose c) = close_connection g c"
| "session_step L g (EvServerFrame c frame) = observe_server_frame L g c frame"
| "session_step L g (EvPhoneRequest c i m) = fst (try_admit_request g c i m)"
| "session_step L g (EvPhoneTurn c i th cwd roots) = fst (try_admit_idle_turn g c i th cwd roots)"

definition session_run :: "ext \<Rightarrow> binding \<Rightarrow> session_event list \<Rightarrow> binding" where
  "session_run L g evs = foldl (session_step L) g evs"

inductive session_reach :: "ext \<Rightarrow> binding \<Rightarrow> bool" for L where
  start: "session_reach L new_binding"
| step: "session_reach L g \<Longrightarrow> session_reach L (session_step L g ev)"

lemma session_run_simps [simp]:
  "session_run L g [] = g" "session_run L g (ev # evs) = session_run L (session_step L g ev) evs"
  by (simp_all add: session_run_def)

lemma session_reach_run: "session_reach L g \<Longrightarrow> session_reach L (session_run L g evs)"
  by (induction evs arbitrary: g) (auto intro: session_reach.step)

lemma wf_new_binding: "wf_binding new_binding"
  by (simp add: new_binding_def wf_binding_def wf_retired_def wf_turns_def wf_epochs_def wf_conns_def)

lemma wf_session_step [broker_inv]: "wf_binding g \<Longrightarrow> wf_binding (session_step L g ev)"
  by (cases ev) (auto simp: try_admit_request_def intro: broker_inv)

lemma wf_session_reach: "session_reach L g \<Longrightarrow> wf_binding g"
  by (induction rule: session_reach.induct) (auto intro: wf_new_binding wf_session_step)

section \<open>Frames: what each operation leaves alone\<close>

lemma admit_id_frame [simp, broker_frame]:
  "head (fst (admit_id g c i m)) = head g" "turns (fst (admit_id g c i m)) = turns g"
  "retired (fst (admit_id g c i m)) = retired g"
  by (simp_all add: admit_id_def Let_def split: option.split)

lemma idle_turn_frame [simp, broker_frame]:
  "head (fst (try_admit_idle_turn g c i th cwd roots)) = head g"
  "retired (fst (try_admit_idle_turn g c i th cwd roots)) = retired g"
proof -
  have h: "head g1 = head g" "retired g1 = retired g" if "admit_id g c i m = (g1, v)" for g1 v m
    using that admit_id_frame [of g c i m] by simp_all
  show "head (fst (try_admit_idle_turn g c i th cwd roots)) = head g"
    "retired (fst (try_admit_idle_turn g c i th cwd roots)) = retired g"
    by (auto simp: try_admit_idle_turn_def admit_turn_on_def h split: head.split prod.split
        id_admission.split)
qed

lemma release_id_frame [simp, broker_frame]:
  "head (release_id g c i) = head g" "turns (release_id g c i) = turns g"
  "retired (release_id g c i) = retired g"
  by (simp_all add: release_id_def split: option.split)

lemma answer_turn_frame [simp, broker_frame]:
  "head (answer_turn L g c i k frame) = head g" "conns (answer_turn L g c i k frame) = conns g"
  "retired (answer_turn L g c i k frame) = retired g"
  by (simp_all add: answer_turn_def Let_def)

lemma observe_response_frame [simp, broker_frame]:
  "head (observe_response L g c i k frame) = head g"
  "retired (observe_response L g c i k frame) = retired g"
  by (simp_all add: observe_response_def)

lemma observe_turn_lifecycle_frame [simp, broker_frame]:
  "head (observe_turn_lifecycle L g frame) = head g"
  "conns (observe_turn_lifecycle L g frame) = conns g"
  "retired (observe_turn_lifecycle L g frame) = retired g"
  by (simp_all add: observe_turn_lifecycle_def Let_def split: option.split)

lemma settle_move_frame [simp, broker_frame]:
  "turns (settle_move g origin out) = turns g" "conns (settle_move g origin out) = conns g"
  by (auto simp: settle_move_def split: move_outcome.split option.split)

lemma begin_move_frame [simp, broker_frame]:
  "turns (begin_move g c i) = turns g" "conns (begin_move g c i) = conns g"
  by (auto simp: begin_move_def split: head.split)

lemma rollback_move_frame [simp, broker_frame]:
  "turns (rollback_move g c i) = turns g" "conns (rollback_move g c i) = conns g"
  "retired (rollback_move g c i) = retired g"
  by (auto simp: rollback_move_def split: head.split)

lemma observe_tui_request_conns [simp, broker_frame]:
  "conns (fst (observe_tui_request g c sh)) = conns g"
  by (auto simp: observe_tui_request_def split: shape.split option.split)

section \<open>Where the head comes from\<close>

text \<open>A server frame that carries the answer to the keyboard move in flight.\<close>

definition settles :: "ext \<Rightarrow> binding \<Rightarrow> conn_id \<Rightarrow> string \<Rightarrow> settled option \<Rightarrow> move_outcome \<Rightarrow> bool" where
  "settles L g c frame origin out \<longleftrightarrow>
     (\<exists>h i. scan_frame_header L frame = Some h \<and> \<not> has_method h \<and> fh_id h = Some i \<and>
        head g = Moving c i origin \<and> move_outcome_of L (response h) frame = Some out)"

lemma server_frame_head:
  "head (observe_server_frame L g c frame) = head g \<and>
     retired (observe_server_frame L g c frame) = retired g \<or>
   (\<exists>origin out. settles L g c frame origin out \<and>
      observe_server_frame L g c frame = settle_move g origin out)"
  by (auto simp: observe_server_frame_def settles_def split: option.split head.split)

lemma bound_thread_cong: "head g' = head g \<Longrightarrow> bound_thread g' = bound_thread g"
  by (simp add: bound_thread_def)

lemma bound_thread_leave:
  "head g' = leave th (head g) \<Longrightarrow> bound_thread g' = Some t \<Longrightarrow> bound_thread g = Some t"
  by (auto simp: bound_thread_def leave_def split: head.splits option.splits if_splits)

lemma bound_thread_tui:
  "bound_thread (fst (observe_tui_request g c sh)) = Some t \<Longrightarrow> bound_thread g = Some t"
proof -
  assume b: "bound_thread (fst (observe_tui_request g c sh)) = Some t"
  have "bound_thread (begin_move g c i) = None" for i
    by (simp add: bound_thread_def begin_move_def split: head.split)
  moreover have "bound_thread (g\<lparr>turns := x\<rparr>) = bound_thread g" for x
    by (simp add: bound_thread_def)
  moreover have "bound_thread (g\<lparr>head := leave th (head g)\<rparr>) = Some t \<Longrightarrow> bound_thread g = Some t" for th
    by (rule bound_thread_leave [of _ th g]) simp_all
  ultimately show ?thesis
    using b by (auto simp: observe_tui_request_def split: shape.splits option.splits if_splits)
qed

lemma bound_thread_close:
  "bound_thread (close_connection g c) = Some t \<Longrightarrow> bound_thread g = Some t"
  by (auto simp: bound_thread_def close_connection_def Let_def split: head.splits if_splits)

lemma bound_thread_rollback:
  "bound_thread (rollback_move g c i) = Some t \<Longrightarrow> bound_thread g = Some t \<or>
     head g = Moving c i (Some \<lparr>thread = t, left = False\<rparr>)"
  by (auto simp: bound_thread_def rollback_move_def head_from_def split: head.splits if_splits
      option.splits)

lemma bound_thread_settle:
  "bound_thread (settle_move g origin out) = Some t \<Longrightarrow>
     out = Landed t \<or> out = MoveRefused \<and> origin = Some \<lparr>thread = t, left = False\<rparr>"
  by (auto simp: bound_thread_def settle_move_def head_from_def split: move_outcome.splits
      option.splits if_splits)

lemma Landed_parsed:
  "move_outcome_of L k frame = Some (Landed t) \<Longrightarrow>
     k = RkResult \<and> (\<exists>v. parse_no_dup_value L frame = Some v \<and>
       str_at [''result'', ''thread'', ''id''] v = Some t)"
  by (auto simp: move_outcome_of_def readable_Some split: response_kind.splits option.splits)

text \<open>The head follows the keyboard and nothing else. A thread the phone may act on appears only
  when a move the keyboard has in flight settles: its own connection delivers, under the id it was
  sent with, a success whose \<open>result.thread.id\<close> is that thread, or an error that puts the thread
  back it started from; or the move's bytes never left and it is rolled back to that thread. No
  phone request, no announcement and no answer on another connection moves the head.\<close>
theorem head_moves_only_on_the_keyboards_answer:
  assumes "bound_thread (session_step L g ev) = Some t" and "bound_thread g \<noteq> Some t"
  shows "\<exists>c i origin. head g = Moving c i origin \<and>
     (ev = EvRollback c i \<and> origin = Some \<lparr>thread = t, left = False\<rparr> \<or>
      (\<exists>frame h. ev = EvServerFrame c frame \<and> scan_frame_header L frame = Some h \<and>
         \<not> has_method h \<and> fh_id h = Some i \<and>
         (response h = RkError \<and> origin = Some \<lparr>thread = t, left = False\<rparr> \<or>
          response h = RkResult \<and>
            (\<exists>v. parse_no_dup_value L frame = Some v \<and>
               str_at [''result'', ''thread'', ''id''] v = Some t))))"
proof (cases ev)
  case (EvServerFrame c frame)
  with assms server_frame_head [of L g c frame] obtain origin out
    where s: "settles L g c frame origin out"
      and eq: "observe_server_frame L g c frame = settle_move g origin out"
    by (auto dest: bound_thread_cong)
  from s obtain h i where hdr: "scan_frame_header L frame = Some h" "\<not> has_method h" "fh_id h = Some i"
    "head g = Moving c i origin" and out: "move_outcome_of L (response h) frame = Some out"
    by (auto simp: settles_def)
  from assms(1) EvServerFrame eq have "bound_thread (settle_move g origin out) = Some t" by simp
  then consider "out = Landed t" | "out = MoveRefused" "origin = Some \<lparr>thread = t, left = False\<rparr>"
    using bound_thread_settle by blast
  then show ?thesis
  proof cases
    case 1
    with out have "response h = RkResult" "\<exists>v. parse_no_dup_value L frame = Some v \<and>
       str_at [''result'', ''thread'', ''id''] v = Some t" using Landed_parsed by blast+
    with hdr EvServerFrame show ?thesis by blast
  next
    case 2
    with out have "response h = RkError"
      by (auto simp: move_outcome_of_def split: response_kind.splits option.splits)
    with hdr 2 EvServerFrame show ?thesis by blast
  qed
next
  case (EvPhoneRequest c i m)
  with assms show ?thesis by (simp add: bound_thread_def try_admit_request_def)
next
  case (EvPhoneTurn c i th cwd roots)
  with assms show ?thesis by (simp add: bound_thread_def)
next
  case (EvTuiRequest c sh)
  with assms bound_thread_tui [of g c sh t] show ?thesis by simp
next
  case (EvRollback c i)
  with assms bound_thread_rollback [of g c i t] show ?thesis by auto
next
  case (EvClose c)
  with assms bound_thread_close [of g c t] show ?thesis by simp
qed

lemma head_moves_witness:
  defines "L \<equiv> \<lparr>json_read = (\<lambda>s. (JObj [(''id'', JInt 1), (''result'', JObj [(''thread'', JObj [(''id'', JStr ''t1'')])])], True)),
    json_write = (\<lambda>v. []), uni_verbatim = (\<lambda>n. True)\<rparr>"
  defines "g \<equiv> new_binding\<lparr>head := Moving 5 (RInt 1) None\<rparr>"
  shows "bound_thread (session_step L g (EvServerFrame 5 ''answer'')) = Some ''t1'' \<and>
    (\<exists>c i origin. head g = Moving c i origin)"
proof -
  have a: "bound_thread (session_step L g (EvServerFrame 5 ''answer'')) = Some ''t1''"
    by (simp add: observe_server_frame_def scan_frame_header_def L_def g_def response_of_def
        id_from_value_int move_outcome_of_def parse_no_dup_value_def parse_no_dup_def str_at_def
        readable_def MAX_THREAD_ID_BYTES_def settle_move_def bound_thread_def)
  have b: "bound_thread g \<noteq> Some ''t1''" by (simp add: g_def bound_thread_def)
  from a head_moves_only_on_the_keyboards_answer [OF a b] show ?thesis by blast
qed

section \<open>Memory\<close>

lemma id_cap_128:
  "id_within_cap i \<longleftrightarrow> (case i of RStr s \<Rightarrow> length s \<le> 128 | RInt n \<Rightarrow> True)"
  by (cases i) (simp_all add: id_within_cap_def MAX_REQUEST_ID_BYTES_def)

text \<open>C10. Everything the session stores for a phone is bounded, in every state any interleaving of
  keyboard, phone and server frames can reach: at most 1024 connection ledgers of at most 256 ids of
  at most 128 bytes, 64 retired threads, 64 running threads and 64 remembered terminals, every thread
  and turn id non-empty and at most 64 bytes; the memory of terminals and its queue agree.\<close>
theorem session_memory_is_bounded:
  assumes "session_reach L g"
  shows "length (conns g) \<le> 1024 \<and>
     (\<forall>(c, out) \<in> set (conns g). length out \<le> 256 \<and>
        (\<forall>(i, m) \<in> set out. case i of RStr s \<Rightarrow> length s \<le> 128 | RInt n \<Rightarrow> True)) \<and>
     length (retired g) \<le> 64 \<and> distinct (retired g) \<and>
     (\<forall>t \<in> set (retired g). t \<noteq> [] \<and> length t \<le> 64) \<and>
     (\<forall>t. head_of (head g) = Some t \<longrightarrow> t \<noteq> [] \<and> length t \<le> 64) \<and>
     length (running (turns g)) \<le> 64 \<and>
     length (order (cleared (turns g))) \<le> 64 \<and>
     seen (cleared (turns g)) = set (order (cleared (turns g))) \<and>
     (\<forall>(k, e) \<in> set (admitted (turns g)). te_thread e \<noteq> [] \<and> length (te_thread e) \<le> 64)"
proof -
  from assms have wf: "wf_binding g" by (rule wf_session_reach)
  then have c: "wf_conns (conns g)" and r: "wf_retired (retired g)" and h: "wf_head (head g)"
    and t: "wf_turns (turns g)" by (simp_all add: wf_binding_def)
  have "length out \<le> 256 \<and> (\<forall>(i, m) \<in> set out. case i of RStr s \<Rightarrow> length s \<le> 128 | RInt n \<Rightarrow> True)"
    if "(c', out) \<in> set (conns g)" for c' out
  proof -
    have "wf_ledger out" using c that by (auto simp: wf_conns_def list_all_iff)
    then show ?thesis
      by (auto simp: wf_ledger_def list_all_iff MAX_OUTSTANDING_REQUESTS_def id_cap_128)
  qed
  then have "\<forall>(c, out) \<in> set (conns g). length out \<le> 256 \<and>
        (\<forall>(i, m) \<in> set out. case i of RStr s \<Rightarrow> length s \<le> 128 | RInt n \<Rightarrow> True)"
    by blast
  with c r h t show ?thesis
    by (auto simp: wf_conns_def wf_retired_def wf_head_def wf_turns_def wf_epochs_def list_all_iff
        id_ok_def cap_defs)
qed

lemma session_memory_is_bounded_witness:
  "length (conns (fst (try_admit_request new_binding 1 (RInt 7) ''thread/read''))) \<le> 1024"
proof -
  let ?g = "session_step undefined new_binding (EvPhoneRequest 1 (RInt 7) ''thread/read'')"
  have "session_reach undefined ?g" by (intro session_reach.intros)
  from session_memory_is_bounded [OF this] show ?thesis by simp
qed

text \<open>The keyboard's own request ids are outside that bound.\<close>

definition long_id :: "nat \<Rightarrow> request_id" where
  "long_id n = RStr (replicate (129 + n) CHR ''x'')"

definition turn_frame :: json where
  "turn_frame = JObj [(''params'', JObj [(''threadId'', JStr ''t'')])]"

definition flood :: "nat \<Rightarrow> session_event list" where
  "flood n = map (\<lambda>k. EvTuiRequest 1 (SRequest ''turn/start'' (Some (long_id k)) turn_frame)) [0..<n]"

lemma long_id_inj: "long_id a = long_id b \<longleftrightarrow> a = b"
  by (auto simp: long_id_def dest: arg_cong [where f = length])

lemma hput_absent: "hget h k = None \<Longrightarrow> hput k v h = h @ [(k, v)]"
  by (rule hput_new) (simp add: map_of_eq_None_iff)

lemma flood_run:
  "admitted (turns (session_run L new_binding (flood n))) =
     map (\<lambda>k. ((1, long_id k), \<lparr>te_thread = ''t'', te_state = Unanswered\<rparr>)) [0..<n]"
proof (induction n)
  case 0
  show ?case by (simp add: flood_def new_binding_def)
next
  case (Suc n)
  let ?g = "session_run L new_binding (flood n)"
  have run: "session_run L new_binding (flood (Suc n)) =
     session_step L ?g (EvTuiRequest 1 (SRequest ''turn/start'' (Some (long_id n)) turn_frame))"
    by (simp add: flood_def session_run_def)
  have absent: "hget (admitted (turns ?g)) (1, long_id n) = None"
    by (auto simp: Suc map_of_eq_None_iff long_id_inj)
  show ?case
    using absent unfolding run
    by (simp add: observe_tui_request_def MOVE_METHODS_def TURN_METHOD_def str_at_def turn_frame_def
        readable_def MAX_THREAD_ID_BYTES_def turn_admit_def hput_absent Suc)
qed

text \<open>The comment on \<open>MAX_REQUEST_ID_BYTES\<close> calls it the byte cap for any client-chosen id the
  broker stores, which would make its memory a product of finite factors. The keyboard's ids are not
  under it: for every number there is a reachable state that holds that many unanswered keyboard
  \<open>turn/start\<close> entries, each under an id longer than the cap.\<close>
theorem keyboard_turn_ids_are_stored_uncapped:
  "\<exists>g. session_reach L g \<and> turn_len (turns g) = n \<and>
     list_all (\<lambda>((c, i), e). \<not> id_within_cap i) (admitted (turns g))"
proof -
  let ?g = "session_run L new_binding (flood n)"
  have "session_reach L ?g" by (intro session_reach_run session_reach.start)
  moreover have "turn_len (turns ?g) = n" by (simp add: turn_len_def flood_run)
  moreover have "\<not> id_within_cap (long_id k)" for k
    by (simp add: id_within_cap_def long_id_def MAX_REQUEST_ID_BYTES_def)
  then have "list_all (\<lambda>((c, i), e). \<not> id_within_cap i) (admitted (turns ?g))"
    by (auto simp: flood_run list_all_iff)
  ultimately show ?thesis by blast
qed

section \<open>A move that does not land\<close>

text \<open>A keyboard move that provably never left the broker changes nothing: undoing it restores the
  state it was observed in exactly, whatever the head was, so long as no other move was in flight.
  Where one was, neither is believed: undoing the second leaves no head, and the thread the first
  started from is kept as one the session has left.\<close>
theorem undone_move_restores_the_state:
  assumes "observe_tui_request g c (SRequest m (Some i) obj) = (g', True)"
  shows "case head g of
     Moving c0 i0 origin \<Rightarrow> rollback_move g' c i = (retire_opt g origin)\<lparr>head := Unbound\<rparr>
   | _ \<Rightarrow> rollback_move g' c i = g"
proof -
  from assms have g': "g' = begin_move g c i"
    by (auto simp: observe_tui_request_def split: if_splits option.splits)
  have "g\<lparr>head := h\<rparr> = g" if "head g = h" for h
    using that by simp
  then show ?thesis
    by (auto simp: g' begin_move_def rollback_move_def head_from_def split: head.split)
qed

lemma undone_move_witness:
  defines "g \<equiv> new_binding\<lparr>head := On \<lparr>thread = ''a'', left = True\<rparr>\<rparr>"
  shows "rollback_move (fst (observe_tui_request g 1 (SRequest ''thread/fork'' (Some (RInt 3)) JNull))) 1 (RInt 3) = g"
proof -
  let ?g' = "fst (observe_tui_request g 1 (SRequest ''thread/fork'' (Some (RInt 3)) JNull))"
  have "observe_tui_request g 1 (SRequest ''thread/fork'' (Some (RInt 3)) JNull) = (?g', True)"
    by (simp add: observe_tui_request_def MOVE_METHODS_def jget_def)
  from undone_move_restores_the_state [OF this] show ?thesis by (simp add: g_def)
qed

section \<open>Session threads are not forgotten\<close>

lemma retire_mono: "th \<in> set (retired g) \<Longrightarrow> th \<in> set (retired (retire g t))"
  by (simp add: retire_def)

lemma retire_adds: "length (retired g) < MAX_RETIRED_THREADS \<Longrightarrow> t \<in> set (retired (retire g t))"
  by (simp add: retire_def)

lemma retire_opt_mono: "th \<in> set (retired g) \<Longrightarrow> th \<in> set (retired (retire_opt g o'))"
  by (simp add: retire_opt_def retire_mono split: option.split)

lemma retire_opt_adds:
  "length (retired g) < MAX_RETIRED_THREADS \<Longrightarrow> o' = Some s \<Longrightarrow> thread s \<in> set (retired (retire_opt g o'))"
  by (simp add: retire_opt_def retire_adds)

lemma head_of_Moving: "head_of (Moving c i o') = map_option thread o'"
  by (cases o') auto

lemma head_of_head_from: "head_of (head_from o') = map_option thread o'"
  by (cases o') (auto simp: head_from_def)

lemma head_of_leave [simp]: "head_of (leave th h) = head_of h"
  by (auto simp: leave_def split: head.split option.split)

lemmas session_thread_simps = is_session_thread_def head_of_Moving head_of_head_from

lemma session_thread_begin_move:
  "is_session_thread g th \<Longrightarrow> length (retired g) < MAX_RETIRED_THREADS \<Longrightarrow>
     is_session_thread (begin_move g c i) th"
  by (auto simp: session_thread_simps begin_move_def split: head.split
      intro: retire_opt_mono retire_opt_adds)

lemma session_thread_tui:
  "is_session_thread g th \<Longrightarrow> length (retired g) < MAX_RETIRED_THREADS \<Longrightarrow>
     is_session_thread (fst (observe_tui_request g c sh)) th"
  using session_thread_begin_move [of g th c]
  by (auto simp: observe_tui_request_def is_session_thread_def split: shape.split option.split)

lemma session_thread_close:
  "is_session_thread g th \<Longrightarrow> length (retired g) < MAX_RETIRED_THREADS \<Longrightarrow>
     is_session_thread (close_connection g c) th"
  by (auto simp: session_thread_simps close_connection_def Let_def split: head.split
      intro: retire_opt_mono retire_opt_adds)

lemma session_thread_settle:
  assumes "is_session_thread g th" "length (retired g) < MAX_RETIRED_THREADS"
    "head g = Moving c i origin"
  shows "is_session_thread (settle_move g origin out) th"
  using assms
  by (auto simp: session_thread_simps settle_move_def split: move_outcome.split option.splits
      intro: retire_opt_mono retire_opt_adds retire_mono retire_adds)

text \<open>A thread of the session stays one: whatever event comes next, a thread the phone may read it
  may still read, unless 64 threads have been retired already. So the keyboard moving on, failing
  to move, closing, or leaving a thread never takes its history away from the phone.\<close>
theorem session_threads_stay_readable:
  assumes "is_session_thread g th" and "length (retired g) < MAX_RETIRED_THREADS"
  shows "is_session_thread (session_step L g ev) th"
proof (cases ev)
  case (EvServerFrame c frame)
  from server_frame_head [of L g c frame] show ?thesis
  proof
    assume "head (observe_server_frame L g c frame) = head g \<and>
      retired (observe_server_frame L g c frame) = retired g"
    with assms EvServerFrame show ?thesis by (simp add: is_session_thread_def)
  next
    assume "\<exists>origin out. settles L g c frame origin out \<and>
      observe_server_frame L g c frame = settle_move g origin out"
    with assms EvServerFrame show ?thesis by (auto simp: settles_def intro: session_thread_settle)
  qed
next
  case (EvRollback c i)
  with assms show ?thesis
    by (auto simp: session_thread_simps rollback_move_def split: head.split)
qed (use assms session_thread_tui session_thread_close in
    \<open>auto simp: is_session_thread_def try_admit_request_def\<close>)

lemma session_threads_stay_readable_witness:
  defines "g \<equiv> new_binding\<lparr>head := On \<lparr>thread = ''a'', left = False\<rparr>\<rparr>"
  shows "is_session_thread (session_step undefined g (EvTuiRequest 1 (SRequest ''thread/resume'' (Some (RInt 2)) JNull))) ''a''"
  by (rule session_threads_stay_readable) (simp_all add: g_def is_session_thread_def new_binding_def
      MAX_RETIRED_THREADS_def)

end
