(* ===== verification/Broker_Session_Turns.thy ===== *)
theory Broker_Session_Turns
  imports Broker_Session_Props
begin

text \<open>
  What a run of the session keeps about one request in flight and one ended turn. \<open>quiet\<close> names the
  events that speak for a request: the answer on its own connection, that connection closing, and a
  keyboard request on it (a phone connection has none). \<open>lifecycle_of\<close> is what a server frame says
  about a turn.
\<close>

section \<open>Requests in flight\<close>

definition answers :: "ext \<Rightarrow> conn_id \<Rightarrow> request_id \<Rightarrow> session_event \<Rightarrow> bool" where
  "answers L c i ev = (case ev of
     EvServerFrame c' frame \<Rightarrow>
       c' = c \<and> (case scan_frame_header L frame of None \<Rightarrow> False
         | Some h \<Rightarrow> \<not> has_method h \<and> fh_id h = Some i \<and> is_response (response h))
   | _ \<Rightarrow> False)"

definition quiet :: "ext \<Rightarrow> conn_id \<Rightarrow> request_id \<Rightarrow> session_event \<Rightarrow> bool" where
  "quiet L c i ev \<longleftrightarrow> \<not> answers L c i ev \<and> ev \<noteq> EvClose c \<and> (\<forall>sh. ev \<noteq> EvTuiRequest c sh)"

definition turn_in_flight :: "binding \<Rightarrow> conn_id \<Rightarrow> request_id \<Rightarrow> string \<Rightarrow> bool" where
  "turn_in_flight g c i th \<longleftrightarrow>
     hget (admitted (turns g)) (c, i) = Some \<lparr>te_thread = th, te_state = Unanswered\<rparr>"

definition outstanding :: "binding \<Rightarrow> conn_id \<Rightarrow> request_id \<Rightarrow> bool" where
  "outstanding g c i \<longleftrightarrow> (\<exists>out. hget (conns g) c = Some out \<and> hget out i \<noteq> None)"

lemma turn_in_flight_cong: "turns g' = turns g \<Longrightarrow> turn_in_flight g' c i th = turn_in_flight g c i th"
  by (simp add: turn_in_flight_def)

lemma outstanding_cong: "conns g' = conns g \<Longrightarrow> outstanding g' c i = outstanding g c i"
  by (simp add: outstanding_def)

lemma in_flight_busy: "turn_in_flight g c i th \<Longrightarrow> busy_on (turns g) th"
  by (auto simp: turn_in_flight_def busy_on_def list_ex_iff dest!: hget_in_set intro: rev_bexI)

lemma in_flight_holds: "turn_in_flight g c i th \<Longrightarrow> turn_holds (turns g) c i"
  by (simp add: turn_in_flight_def turn_holds_def)

subsection \<open>A turn in flight stays in flight\<close>

lemma in_flight_turn_terminal:
  "wf_turns a \<Longrightarrow> hget (admitted a) k = Some e \<Longrightarrow> te_state e = Unanswered \<Longrightarrow>
     hget (admitted (turn_terminal a th tu)) k = Some e"
  by (auto simp: turn_terminal_def wf_turns_def hget_hretain split: option.split prod.split)

lemma admitted_started [simp]: "admitted (started a th tu h) = admitted a"
  by (simp add: started_def Let_def)

lemma in_flight_lifecycle:
  "wf_binding g \<Longrightarrow> turn_in_flight g c i th \<Longrightarrow> turn_in_flight (observe_turn_lifecycle L g frame) c i th"
  by (auto simp: turn_in_flight_def observe_turn_lifecycle_def Let_def in_flight_turn_terminal
      wf_binding_turns split: option.split)

lemma in_flight_answer:
  "turn_in_flight g c i th \<Longrightarrow> (c', i') \<noteq> (c, i) \<Longrightarrow>
     turn_in_flight (answer_turn L g c' i' k frame) c i th"
  by (auto simp: turn_in_flight_def answer_turn_def Let_def turn_release_def turn_answered_def
      hget_hdel hget_hput split: option.split)

lemma in_flight_server_frame:
  assumes "wf_binding g" "turn_in_flight g c i th" "\<not> answers L c i (EvServerFrame c' frame)"
  shows "turn_in_flight (observe_server_frame L g c' frame) c i th"
proof -
  have resp: "turn_in_flight (observe_response L g c' i' (response h) frame) c i th"
    if "scan_frame_header L frame = Some h" "\<not> has_method h" "fh_id h = Some i'" for h i'
  proof (cases "(c', i') = (c, i)")
    case True
    with that assms(3) have "\<not> is_response (response h)" by (auto simp: answers_def)
    with assms(2) show ?thesis by (simp add: observe_response_def)
  next
    case False
    with assms(2) show ?thesis
      by (simp add: observe_response_def turn_in_flight_def in_flight_answer [unfolded turn_in_flight_def])
  qed
  with assms(1,2) show ?thesis
    by (auto simp: observe_server_frame_def in_flight_lifecycle split: option.split head.split
        intro: turn_in_flight_cong [THEN iffD2])
qed

lemma in_flight_tui:
  "turn_in_flight g c i th \<Longrightarrow> c' \<noteq> c \<Longrightarrow> turn_in_flight (fst (observe_tui_request g c' sh)) c i th"
  by (auto simp: turn_in_flight_def observe_tui_request_def turn_admit_def hget_hput
      split: shape.split option.split)

lemma in_flight_close:
  "wf_binding g \<Longrightarrow> turn_in_flight g c i th \<Longrightarrow> c' \<noteq> c \<Longrightarrow>
     turn_in_flight (close_connection g c') c i th"
  by (auto simp: turn_in_flight_def close_connection_def Let_def turn_close_connection_def
      wf_binding_def wf_turns_def hget_hretain split: head.split)

lemma admitted_idle_turn:
  "try_admit_idle_turn g c i th cwd roots = (g1, TurnAdmitted) \<Longrightarrow>
     \<exists>s g0. head g = On s \<and> \<not> left s \<and> thread s = th \<and> cwd = Some JNull \<and> roots = None \<and>
       \<not> turn_holds (turns g) c i \<and> \<not> busy_on (turns g) th \<and> turn_len (turns g) < MAX_ACTIVE_TURNS \<and>
       admit_id g c i TURN_METHOD = (g0, Admitted) \<and> g1 = g0\<lparr>turns := turn_admit (turns g) c i th\<rparr>"
proof -
  assume a: "try_admit_idle_turn g c i th cwd roots = (g1, TurnAdmitted)"
  then obtain s where s: "head g = On s" "\<not> left s"
    by (auto simp: try_admit_idle_turn_def split: head.splits if_splits)
  obtain g0 v where adm: "admit_id g c i TURN_METHOD = (g0, v)" by (cases "admit_id g c i TURN_METHOD")
  from adm admit_id_frame(2) [of g c i TURN_METHOD] have "turns g0 = turns g" by simp
  with a s adm show ?thesis
    by (auto simp: try_admit_idle_turn_def admit_turn_on_def not_le split: if_splits
        id_admission.splits)
qed

lemma refused_idle_turn_turns:
  "try_admit_idle_turn g c i th cwd roots = (g1, v) \<Longrightarrow> v \<noteq> TurnAdmitted \<Longrightarrow> turns g1 = turns g"
proof -
  assume a: "try_admit_idle_turn g c i th cwd roots = (g1, v)" and v: "v \<noteq> TurnAdmitted"
  obtain g0 w where adm: "admit_id g c i TURN_METHOD = (g0, w)" by (cases "admit_id g c i TURN_METHOD")
  from adm admit_id_frame(2) [of g c i TURN_METHOD] have "turns g0 = turns g" by simp
  with a v adm show ?thesis
    by (auto simp: try_admit_idle_turn_def admit_turn_on_def split: head.splits if_splits
        id_admission.splits)
qed

lemma in_flight_idle_turn:
  assumes "turn_in_flight g c i th"
  shows "turn_in_flight (fst (try_admit_idle_turn g c' i' th' cwd roots)) c i th"
proof -
  obtain g1 v where a: "try_admit_idle_turn g c' i' th' cwd roots = (g1, v)" by fastforce
  show ?thesis
  proof (cases "v = TurnAdmitted")
    case True
    from admitted_idle_turn [OF a [unfolded True]] obtain g0
      where free: "\<not> turn_holds (turns g) c' i'" and g1: "g1 = g0\<lparr>turns := turn_admit (turns g) c' i' th'\<rparr>"
      by blast
    from free in_flight_holds [OF assms] have "(c', i') \<noteq> (c, i)" by auto
    with a g1 assms show ?thesis by (auto simp: turn_in_flight_def turn_admit_def hget_hput)
  next
    case False
    with a assms refused_idle_turn_turns [OF a] show ?thesis by (simp add: turn_in_flight_def)
  qed
qed

lemma in_flight_step:
  assumes "wf_binding g" "turn_in_flight g c i th" "quiet L c i ev"
  shows "turn_in_flight (session_step L g ev) c i th"
proof (cases ev)
  case (EvTuiRequest c' sh)
  with assms in_flight_tui show ?thesis by (auto simp: quiet_def)
next
  case (EvClose c')
  with assms in_flight_close show ?thesis by (auto simp: quiet_def)
next
  case (EvServerFrame c' frame)
  with assms in_flight_server_frame show ?thesis by (auto simp: quiet_def)
next
  case (EvPhoneTurn c' i' th' cwd roots)
  with assms in_flight_idle_turn show ?thesis by simp
qed (use assms in \<open>simp_all add: turn_in_flight_def try_admit_request_def\<close>)

lemma in_flight_run:
  "wf_binding g \<Longrightarrow> turn_in_flight g c i th \<Longrightarrow> (\<And>ev. ev \<in> set evs \<Longrightarrow> quiet L c i ev) \<Longrightarrow>
     turn_in_flight (session_run L g evs) c i th"
  by (induction evs arbitrary: g) (auto intro: in_flight_step wf_session_step)

text \<open>C8. A phone's turn is exclusive. It is admitted only on the thread the keyboard is on, idle, with
  no workspace of its own and fewer than eight turns recorded; and from then on, through any run of
  keyboard, phone and server events that does not answer it or close its connection, the thread stays
  busy and no further phone turn is admitted on it, from any connection.\<close>
theorem phone_turn_is_exclusive:
  assumes "session_reach L g"
    and "try_admit_idle_turn g c i th cwd roots = (g1, TurnAdmitted)"
    and "\<forall>ev \<in> set evs. quiet L c i ev"
  shows "bound_thread g = Some th \<and> \<not> busy_on (turns g) th \<and> turn_len (turns g) < 8 \<and>
     cwd = Some JNull \<and> roots = None \<and> busy_on (turns (session_run L g1 evs)) th \<and>
     snd (try_admit_idle_turn (session_run L g1 evs) c2 i2 th cwd2 roots2) \<noteq> TurnAdmitted"
proof -
  from admitted_idle_turn [OF assms(2)] obtain s g0
    where s: "head g = On s" "\<not> left s" "thread s = th" and ws: "cwd = Some JNull" "roots = None"
      and idle: "\<not> busy_on (turns g) th" "turn_len (turns g) < MAX_ACTIVE_TURNS"
      and g1: "g1 = g0\<lparr>turns := turn_admit (turns g) c i th\<rparr>" by blast
  have "session_reach L g1"
    using session_reach.step [OF assms(1), of "EvPhoneTurn c i th cwd roots"] assms(2) by simp
  then have wf: "wf_binding g1" by (rule wf_session_reach)
  have "turn_in_flight g1 c i th"
    by (simp add: g1 turn_in_flight_def turn_admit_def hget_hput)
  with wf assms(3) have fl: "turn_in_flight (session_run L g1 evs) c i th"
    by (intro in_flight_run) auto
  then have busy: "busy_on (turns (session_run L g1 evs)) th" by (rule in_flight_busy)
  then have "snd (try_admit_idle_turn (session_run L g1 evs) c2 i2 th cwd2 roots2) \<noteq> TurnAdmitted"
    using admitted_idle_turn by (metis prod.collapse)
  with s ws idle busy show ?thesis by (simp add: bound_thread_def MAX_ACTIVE_TURNS_def)
qed

subsection \<open>An outstanding id stays outstanding\<close>

lemma outstanding_release:
  "outstanding g c i \<Longrightarrow> (c', i') \<noteq> (c, i) \<Longrightarrow> outstanding (release_id g c' i') c i"
  by (auto simp: outstanding_def release_id_def hget_hput hget_hdel split: option.split)

lemma outstanding_admit_id:
  "outstanding g c i \<Longrightarrow> outstanding (fst (admit_id g c' i' m)) c i"
  by (auto simp: outstanding_def admit_id_def Let_def hget_hput split: option.split)

lemma outstanding_server_frame:
  assumes "outstanding g c i" "\<not> answers L c i (EvServerFrame c' frame)"
  shows "outstanding (observe_server_frame L g c' frame) c i"
proof -
  have resp: "outstanding (observe_response L g c' i' (response h) frame) c i"
    if "scan_frame_header L frame = Some h" "\<not> has_method h" "fh_id h = Some i'" for h i'
  proof (cases "(c', i') = (c, i)")
    case True
    with that assms(2) have "\<not> is_response (response h)" by (auto simp: answers_def)
    with assms(1) show ?thesis by (simp add: observe_response_def)
  next
    case False
    have "outstanding (answer_turn L g c' i' (response h) frame) c i"
      using assms(1) by (simp add: outstanding_def)
    with False show ?thesis by (simp add: observe_response_def outstanding_release assms(1))
  qed
  with assms(1) show ?thesis
    by (auto simp: observe_server_frame_def split: option.split head.split
        intro: outstanding_cong [THEN iffD2])
qed

lemma outstanding_idle_turn:
  "outstanding g c i \<Longrightarrow> outstanding (fst (try_admit_idle_turn g c' i' th cwd roots)) c i"
proof -
  assume o: "outstanding g c i"
  obtain g0 v where adm: "admit_id g c' i' TURN_METHOD = (g0, v)" by fastforce
  from outstanding_admit_id [OF o, of c' i' TURN_METHOD] adm have "outstanding g0 c i" by simp
  with o adm show ?thesis
    by (auto simp: try_admit_idle_turn_def admit_turn_on_def outstanding_def
        split: head.split id_admission.split)
qed

lemma outstanding_step:
  assumes "outstanding g c i" "quiet L c i ev"
  shows "outstanding (session_step L g ev) c i"
proof (cases ev)
  case (EvClose c')
  have "conns (close_connection g c') = hdel c' (conns g)"
    by (auto simp: close_connection_def Let_def split: head.split)
  with assms EvClose show ?thesis by (auto simp: quiet_def outstanding_def hget_hdel)
next
  case (EvServerFrame c' frame)
  with assms outstanding_server_frame show ?thesis by (auto simp: quiet_def)
next
  case (EvTuiRequest c' sh)
  with assms show ?thesis by (simp add: outstanding_def)
next
  case (EvRollback c' i')
  with assms show ?thesis by (simp add: outstanding_def)
next
  case (EvPhoneRequest c' i' m)
  with assms show ?thesis by (simp add: try_admit_request_def outstanding_admit_id)
next
  case (EvPhoneTurn c' i' th cwd roots)
  with assms show ?thesis by (simp add: outstanding_idle_turn)
qed

lemma outstanding_run:
  "outstanding g c i \<Longrightarrow> (\<And>ev. ev \<in> set evs \<Longrightarrow> quiet L c i ev) \<Longrightarrow>
     outstanding (session_run L g evs) c i"
  by (induction evs arbitrary: g) (auto intro: outstanding_step)

lemma admitted_outstanding:
  "admit_id g c i m = (g1, Admitted) \<Longrightarrow> id_within_cap i \<and> outstanding g1 c i \<and> \<not> outstanding g c i"
  by (auto simp: admit_id_def outstanding_def Let_def hget_hput split: if_splits option.splits)

lemma outstanding_reused:
  "outstanding g c i \<Longrightarrow> id_within_cap i \<Longrightarrow> snd (admit_id g c i m) = ReusedInFlight"
  by (auto simp: admit_id_def outstanding_def Let_def)

text \<open>An id in flight is never forwarded twice. Once a phone request is admitted under an id, every
  further request under that id on that connection is refused as reused, and no turn is admitted
  under it, until a frame on that connection proves to be its answer or the connection closes.\<close>
theorem id_in_flight_is_not_admitted_again:
  assumes "try_admit_request g c i m = (g1, Admitted)" and "\<forall>ev \<in> set evs. quiet L c i ev"
  shows "snd (try_admit_request (session_run L g1 evs) c i m2) = ReusedInFlight \<and>
     snd (try_admit_idle_turn (session_run L g1 evs) c i th cwd roots) \<noteq> TurnAdmitted"
proof -
  from assms(1) have adm: "id_within_cap i" "outstanding g1 c i"
    using admitted_outstanding by (auto simp: try_admit_request_def)
  with assms(2) have o: "outstanding (session_run L g1 evs) c i" by (intro outstanding_run) auto
  have no_turn: False if "try_admit_idle_turn (session_run L g1 evs) c i th cwd roots = (g2, TurnAdmitted)" for g2
    using admitted_idle_turn [OF that] admitted_outstanding o by blast
  from o adm(1) have "snd (try_admit_request (session_run L g1 evs) c i m2) = ReusedInFlight"
    by (simp add: try_admit_request_def outstanding_reused)
  moreover have "snd (try_admit_idle_turn (session_run L g1 evs) c i th cwd roots) \<noteq> TurnAdmitted"
    using no_turn by (metis prod.collapse)
  ultimately show ?thesis ..
qed

text \<open>And it is freed by its answer: when a frame on the phone's connection proves to be the answer
  to an id, and no keyboard move waits under that id, the id is outstanding no longer and the next
  request under it is not refused as reused.\<close>
theorem answer_frees_the_id:
  assumes "answers L c i (EvServerFrame c frame)" and "\<forall>o'. head g \<noteq> Moving c i o'"
  shows "\<not> outstanding (session_step L g (EvServerFrame c frame)) c i \<and>
     snd (try_admit_request (session_step L g (EvServerFrame c frame)) c i m) \<noteq> ReusedInFlight"
proof -
  from assms obtain h where h: "scan_frame_header L frame = Some h" "\<not> has_method h" "fh_id h = Some i"
    "is_response (response h)" by (auto simp: answers_def split: option.splits)
  have "observe_server_frame L g c frame = observe_response L g c i (response h) frame"
    using h assms(2) by (auto simp: observe_server_frame_def split: head.split)
  then have free: "\<not> outstanding (observe_server_frame L g c frame) c i"
    using h(4) by (auto simp: observe_response_def release_id_def outstanding_def hget_hput hget_hdel
        split: option.splits)
  moreover have "snd (admit_id g' c i m) \<noteq> ReusedInFlight" if "\<not> outstanding g' c i" for g'
    using that by (auto simp: admit_id_def outstanding_def Let_def split: option.splits)
  ultimately show ?thesis by (simp add: try_admit_request_def)
qed

section \<open>A turn that has ended\<close>

text \<open>What a server frame says has ended: the thread and the turn of a \<open>turn/completed\<close> the lifecycle
  observer acts on.\<close>

definition terminal_of :: "ext \<Rightarrow> string \<Rightarrow> (string \<times> string) option" where
  "terminal_of L frame =
     (if \<not> str_contains COMPLETED_MARK frame \<and> \<not> str_contains STARTED_MARK frame then None
      else Option.bind (from_str L frame) (\<lambda>v.
        if Option.bind (jget ''method'' v) as_str = Some ''turn/completed'' then
          Option.bind (readable (str_at [''params'', ''threadId''] v)) (\<lambda>th.
            map_option (Pair th) (readable (str_at [''params'', ''turn'', ''id''] v)))
        else None))"

definition ends_turn :: "ext \<Rightarrow> session_event \<Rightarrow> bool" where
  "ends_turn L ev = (case ev of
     EvServerFrame c frame \<Rightarrow>
       (case scan_frame_header L frame of None \<Rightarrow> False | Some h \<Rightarrow> has_method h) \<and>
       terminal_of L frame \<noteq> None
   | _ \<Rightarrow> False)"

text \<open>Every way one event changes which turns run.\<close>

inductive turn_step :: "bool \<Rightarrow> turn_activity \<Rightarrow> turn_activity \<Rightarrow> bool" where
  same: "turn_step False a a"
| admit: "turn_step False a (turn_admit a c i th)"
| answered: "turn_step False a (turn_answered a c i tu)"
| release: "turn_step False a (turn_release a c i)"
| close: "turn_step False a (turn_close_connection a c)"
| start: "turn_step False a (started a th tu h)"
| terminal: "turn_step True a (turn_terminal a th (Some tu))"

inductive_simps turn_step_True: "turn_step True a a'"

lemma lifecycle_turn_step:
  "turn_step (terminal_of L frame \<noteq> None) (turns g) (turns (observe_turn_lifecycle L g frame))"
  by (auto simp: observe_turn_lifecycle_def terminal_of_def Let_def turn_terminal_def [of _ _ None]
      split: option.split intro: turn_step.intros)

lemma response_turn_step: "turn_step False (turns g) (turns (observe_response L g c i k frame))"
  by (auto simp: observe_response_def answer_turn_def Let_def intro: turn_step.intros)

lemma idle_turn_turn_step:
  "turn_step False (turns g) (turns (fst (try_admit_idle_turn g c i th cwd roots)))"
proof -
  obtain g1 v where a: "try_admit_idle_turn g c i th cwd roots = (g1, v)" by fastforce
  show ?thesis
  proof (cases "v = TurnAdmitted")
    case True
    from admitted_idle_turn [OF a [unfolded True]] a show ?thesis by (auto intro: turn_step.admit)
  next
    case False
    from refused_idle_turn_turns [OF a False] a show ?thesis by (simp add: turn_step.same)
  qed
qed

lemma session_turn_step: "turn_step (ends_turn L ev) (turns g) (turns (session_step L g ev))"
proof (cases ev)
  case (EvTuiRequest c sh)
  then show ?thesis
    by (auto simp: ends_turn_def observe_tui_request_def split: shape.split option.split
        intro: turn_step.intros)
next
  case (EvClose c)
  then show ?thesis
    by (auto simp: ends_turn_def close_connection_def Let_def split: head.split intro: turn_step.intros)
next
  case (EvServerFrame c frame)
  then show ?thesis
    using lifecycle_turn_step [of L frame g] response_turn_step [of g L c _ _ frame]
    by (auto simp: ends_turn_def observe_server_frame_def split: option.split head.split
        intro: turn_step.same)
next
  case (EvPhoneTurn c i th cwd roots)
  then show ?thesis by (simp add: ends_turn_def idle_turn_turn_step)
qed (auto simp: ends_turn_def try_admit_request_def intro: turn_step.same)

text \<open>No remembered terminal names an active turn.\<close>

definition ended_inactive :: "turn_activity \<Rightarrow> bool" where
  "ended_inactive a \<longleftrightarrow>
     (\<forall>th tu. (th, tu) \<in> seen (cleared a) \<longrightarrow> hget (running a) th \<noteq> Some tu) \<and>
     (\<forall>k e tu. (k, e) \<in> set (admitted a) \<longrightarrow> te_state e = Answered (Some tu) \<longrightarrow>
        (te_thread e, tu) \<notin> seen (cleared a))"

lemma is_active_iff:
  "is_active a th tu \<longleftrightarrow> hget (running a) th = Some tu \<or>
     (\<exists>k e. (k, e) \<in> set (admitted a) \<and> te_thread e = th \<and> te_state e = Answered (Some tu))"
  by (auto simp: is_active_def list_ex_iff)

lemma ended_inactiveI:
  assumes "\<And>th tu. (th, tu) \<in> seen (cleared a) \<Longrightarrow> hget (running a) th \<noteq> Some tu"
    and "\<And>k e tu. (k, e) \<in> set (admitted a) \<Longrightarrow> te_state e = Answered (Some tu) \<Longrightarrow>
       (te_thread e, tu) \<notin> seen (cleared a)"
  shows "ended_inactive a"
  using assms by (simp add: ended_inactive_def)

lemma ended_inactiveD:
  assumes "ended_inactive a"
  shows "(th, tu) \<in> seen (cleared a) \<Longrightarrow> hget (running a) th \<noteq> Some tu"
    and "(k, e) \<in> set (admitted a) \<Longrightarrow> te_state e = Answered (Some tu) \<Longrightarrow>
       (te_thread e, tu) \<notin> seen (cleared a)"
  using assms unfolding ended_inactive_def by blast+

lemma ended_not_active:
  "ended_inactive a \<Longrightarrow> (th, tu) \<in> seen (cleared a) \<Longrightarrow> \<not> is_active a th tu"
  using ended_inactiveD(2) [of a] ended_inactiveD(1) [of a] by (auto simp: is_active_iff)

lemma seen_epoch_admit:
  "seen (fst (epoch_admit e th tu)) \<subseteq> insert (th, tu) (seen e)"
  by (auto simp: epoch_admit_def Let_def split: list.splits if_splits)

lemma ended_inactive_answered:
  assumes "ended_inactive a"
  shows "ended_inactive (turn_answered a c i tu)"
proof (cases "hget (admitted a) (c, i)")
  case None
  with assms show ?thesis by (simp add: turn_answered_def)
next
  case (Some e)
  let ?known = "\<exists>t. tu = Some t \<and> epoch_contains (cleared a) (te_thread e) t"
  have eq: "turn_answered a c i tu = a\<lparr>admitted := if ?known then hdel (c, i) (admitted a)
      else hput (c, i) (e\<lparr>te_state := Answered tu\<rparr>) (admitted a)\<rparr>"
    by (cases tu) (simp_all add: turn_answered_def Some)
  show ?thesis
    by (rule ended_inactiveI)
      (use assms in \<open>auto simp: eq epoch_contains_def set_hdel dest!: set_hput_cases
        dest: ended_inactiveD split: if_splits\<close>)
qed

lemma ended_inactive_started:
  "ended_inactive a \<Longrightarrow> wf_turns a \<Longrightarrow> ended_inactive (started a th tu h)"
  by (rule ended_inactiveI)
    (auto simp: started_def Let_def epoch_contains_def wf_turns_def hget_hput hget_hretain
      dest: ended_inactiveD split: option.splits if_splits)

lemma ended_inactive_terminal:
  assumes "ended_inactive a"
  shows "ended_inactive (turn_terminal a th (Some tu))"
proof (cases "epoch_contains (cleared a) th tu")
  case True
  with assms show ?thesis by (simp add: turn_terminal_def epoch_admit_seen)
next
  case False
  obtain e where e: "epoch_admit (cleared a) th tu = (e, True)"
    using False epoch_admit_fresh [of "cleared a" th tu] by (cases "epoch_admit (cleared a) th tu") simp
  have sub: "seen e \<subseteq> insert (th, tu) (seen (cleared a))"
    using seen_epoch_admit [of "cleared a" th tu] e by simp
  show ?thesis
    by (rule ended_inactiveI)
      (use assms e sub in \<open>auto simp: turn_terminal_def hget_hdel set_hretain dest: ended_inactiveD
        split: if_splits\<close>)
qed

lemma ended_inactive_step:
  assumes "turn_step e a a'" "ended_inactive a" "wf_turns a"
  shows "ended_inactive a'"
  using assms(1)
proof (cases rule: turn_step.cases)
  case (admit c i th)
  with assms(2) show ?thesis
    by (auto simp: turn_admit_def dest!: set_hput_cases dest: ended_inactiveD intro!: ended_inactiveI)
next
  case (release c i)
  with assms(2) show ?thesis
    by (auto simp: turn_release_def set_hdel dest: ended_inactiveD intro!: ended_inactiveI)
next
  case (close c)
  with assms(2) show ?thesis
    by (auto simp: turn_close_connection_def set_hretain dest: ended_inactiveD intro!: ended_inactiveI)
qed (use assms(2,3) ended_inactive_answered ended_inactive_started ended_inactive_terminal in auto)

lemma ended_inactive_reach: "session_reach L g \<Longrightarrow> ended_inactive (turns g)"
proof (induction rule: session_reach.induct)
  case start
  show ?case by (simp add: ended_inactive_def new_binding_def)
next
  case (step g ev)
  with session_turn_step ended_inactive_step wf_session_reach wf_binding_turns show ?case by blast
qed

text \<open>How many terminals have been recorded after a given one.\<close>

definition remembered :: "turn_activity \<Rightarrow> string \<times> string \<Rightarrow> nat \<Rightarrow> bool" where
  "remembered a key k \<longleftrightarrow> (\<exists>xs ys. order (cleared a) = xs @ key # ys \<and> length ys \<le> k)"

lemma remembered_seen: "wf_turns a \<Longrightarrow> remembered a (th, tu) k \<Longrightarrow> (th, tu) \<in> seen (cleared a)"
proof -
  assume wf: "wf_turns a" and "remembered a (th, tu) k"
  then obtain xs ys where "order (cleared a) = xs @ (th, tu) # ys" unfolding remembered_def by blast
  then have "(th, tu) \<in> set (order (cleared a))" by simp
  with wf show ?thesis by (simp add: wf_turns_def wf_epochs_def)
qed

lemma order_epoch_admit:
  "order (fst (epoch_admit e th tu)) =
     (if (th, tu) \<in> seen e then order e
      else if MAX_CLEARED_TURNS \<le> length (order e) then tl (order e) @ [(th, tu)]
      else order e @ [(th, tu)])"
proof (cases "order e")
  case Nil
  have "\<not> MAX_CLEARED_TURNS \<le> 0" by (simp add: MAX_CLEARED_TURNS_def)
  with Nil show ?thesis by (simp add: epoch_admit_def Let_def)
next
  case (Cons x xs)
  then show ?thesis by (simp add: epoch_admit_def Let_def)
qed

lemma remembered_admit:
  assumes "order e = xs @ key # ys" "length (order e) \<le> 64" "length ys < 63"
  shows "\<exists>xs' ys'. order (fst (epoch_admit e th tu)) = xs' @ key # ys' \<and> length ys' \<le> Suc (length ys)"
proof -
  consider (keep) "order (fst (epoch_admit e th tu)) = xs @ key # ys"
    | (append) "order (fst (epoch_admit e th tu)) = xs @ key # (ys @ [(th, tu)])"
    | (evict) "order (fst (epoch_admit e th tu)) = tl (order e) @ [(th, tu)]" "64 \<le> length (order e)"
    using order_epoch_admit [of e th tu] assms(1) by (auto simp: MAX_CLEARED_TURNS_def split: if_splits)
  then show ?thesis
  proof cases
    case keep
    then show ?thesis by (intro exI [of _ xs] exI [of _ ys]) simp
  next
    case append
    then show ?thesis by (intro exI [of _ xs] exI [of _ "ys @ [(th, tu)]"]) simp
  next
    case evict
    with assms obtain x xs' where "xs = x # xs'" by (cases xs) auto
    with evict assms(1) show ?thesis
      by (intro exI [of _ xs'] exI [of _ "ys @ [(th, tu)]"]) simp
  qed
qed

lemma remembered_step:
  assumes "turn_step e a a'" "wf_turns a" "remembered a key k" "k + of_bool e \<le> 63"
  shows "remembered a' key (k + of_bool e)"
  using assms(1)
proof (cases rule: turn_step.cases)
  case (terminal th tu)
  from assms(3) obtain xs ys where o: "order (cleared a) = xs @ key # ys" "length ys \<le> k"
    by (auto simp: remembered_def)
  have "length (order (cleared a)) \<le> 64"
    using assms(2) by (simp add: wf_turns_def wf_epochs_def MAX_CLEARED_TURNS_def)
  from remembered_admit [OF o(1) this, of th tu] o(2) assms(4) terminal
  have "\<exists>xs' ys'. order (fst (epoch_admit (cleared a) th tu)) = xs' @ key # ys' \<and> length ys' \<le> Suc k"
    by fastforce
  moreover have "order (cleared a') = order (fst (epoch_admit (cleared a) th tu)) \<or>
      order (cleared a') = order (cleared a)"
    using terminal by (auto simp: turn_terminal_def split: prod.split)
  moreover have "\<exists>xs' ys'. order (cleared a) = xs' @ key # ys' \<and> length ys' \<le> Suc k"
    using o by (intro exI [of _ xs] exI [of _ ys]) simp
  ultimately show ?thesis using terminal by (simp add: remembered_def) metis
qed (use assms(3) in \<open>auto simp: remembered_def turn_admit_def turn_answered_def turn_release_def
      turn_close_connection_def started_def Let_def split: option.split\<close>)

lemma ended_turn_run:
  "wf_binding g \<Longrightarrow> remembered (turns g) key k \<Longrightarrow> k + length (filter (ends_turn L) evs) \<le> 63 \<Longrightarrow>
     remembered (turns (session_run L g evs)) key (k + length (filter (ends_turn L) evs))"
proof (induction evs arbitrary: g k)
  case (Cons ev evs)
  have "remembered (turns (session_step L g ev)) key (k + of_bool (ends_turn L ev))"
    using Cons.prems by (intro remembered_step [OF session_turn_step]) (auto simp: wf_binding_turns)
  from Cons.IH [OF wf_session_step this] Cons.prems show ?case by (cases "ends_turn L ev") simp_all
qed simp

lemma recorded_terminal:
  assumes "wf_binding g" "terminal_of L frame = Some key"
    "scan_frame_header L frame = Some h" "has_method h" "key \<notin> seen (cleared (turns g))"
  shows "remembered (turns (session_step L g (EvServerFrame c frame))) key 0"
proof -
  obtain th tu where key: "key = (th, tu)" by fastforce
  have "turns (session_step L g (EvServerFrame c frame)) = turn_terminal (turns g) th (Some tu)"
    using assms key
    by (auto simp: observe_server_frame_def observe_turn_lifecycle_def terminal_of_def Let_def
        split: if_splits option.split bind_splits)
  moreover have "snd (epoch_admit (cleared (turns g)) th tu)"
    using assms(5) key by (simp add: epoch_contains_def epoch_admit_fresh)
  ultimately have "order (cleared (turns (session_step L g (EvServerFrame c frame)))) =
      order (fst (epoch_admit (cleared (turns g)) th tu))"
    by (simp add: turn_terminal_def case_prod_beta)
  with assms(5) key show ?thesis by (simp add: remembered_def order_epoch_admit)
qed

text \<open>An ended turn stays ended. Once the server has said for the first time that a turn completed,
  the phone may neither steer nor interrupt it: whatever is replayed, lags or is answered late, on
  any connection, the turn is not active again until 64 other turns have completed after it.\<close>
theorem ended_turn_stays_ended:
  assumes "session_reach L g" and "terminal_of L frame = Some (th, tu)"
    and "scan_frame_header L frame = Some h" and "has_method h"
    and "(th, tu) \<notin> seen (cleared (turns g))"
    and "length (filter (ends_turn L) evs) < 64"
  shows "\<not> is_active_turn (session_run L (session_step L g (EvServerFrame c frame)) evs) th tu"
proof -
  let ?g1 = "session_step L g (EvServerFrame c frame)"
  let ?g2 = "session_run L ?g1 evs"
  have r1: "session_reach L ?g1" by (intro session_reach.step assms(1))
  then have r2: "session_reach L ?g2" by (rule session_reach_run)
  have "remembered (turns ?g1) (th, tu) 0"
    by (rule recorded_terminal [OF wf_session_reach [OF assms(1)] assms(2-5)])
  from ended_turn_run [OF wf_session_reach [OF r1] this, of L evs] assms(6)
  have "remembered (turns ?g2) (th, tu) (length (filter (ends_turn L) evs))" by simp
  then have "(th, tu) \<in> seen (cleared (turns ?g2))"
    by (rule remembered_seen [OF wf_binding_turns [OF wf_session_reach [OF r2]]])
  with ended_inactive_reach [OF r2] show ?thesis
    unfolding is_active_turn_def by (rule ended_not_active)
qed

section \<open>The properties at concrete runs\<close>

text \<open>A reader that knows five frames: the answer to the keyboard's \<open>thread/start\<close> and to a phone's
  request, the start and the end of a turn, and an answer nobody asked for.\<close>

definition turn_frames :: ext where
  "turn_frames =
     \<lparr>json_read = (\<lambda>s.
        (if s = ''landed'' then
           JObj [(''id'', JInt 1), (''result'', JObj [(''thread'', JObj [(''id'', JStr ''t1'')])])]
         else if s = ''answer'' then JObj [(''id'', JInt 7), (''result'', JNull)]
         else if s = COMPLETED_MARK then
           JObj [(''method'', JStr ''turn/completed''),
             (''params'', JObj [(''threadId'', JStr ''t1''), (''turn'', JObj [(''id'', JStr ''u1'')])])]
         else if s = STARTED_MARK then
           JObj [(''method'', JStr ''turn/started''),
             (''params'', JObj [(''threadId'', JStr ''t1''), (''turn'', JObj [(''id'', JStr ''u1'')])])]
         else JObj [(''id'', JInt 9), (''result'', JNull)], True)),
      json_write = (\<lambda>v. []), uni_verbatim = (\<lambda>n. True)\<rparr>"

lemma marks [simp]:
  "str_contains STARTED_MARK STARTED_MARK" "str_contains COMPLETED_MARK COMPLETED_MARK"
  "STARTED_MARK \<noteq> COMPLETED_MARK" "COMPLETED_MARK \<noteq> STARTED_MARK" "STARTED_MARK \<noteq> ''answer''" "COMPLETED_MARK \<noteq> ''answer''"
  "STARTED_MARK \<noteq> ''landed''" "COMPLETED_MARK \<noteq> ''landed''"
  by (simp_all add: STARTED_MARK_def COMPLETED_MARK_def)

lemmas eval_frames = turn_frames_def from_str_def scan_frame_header_def str_at_def readable_def
  MAX_THREAD_ID_BYTES_def response_of_def id_from_value_int is_response_def

lemma ended_turn_stays_ended_witness:
  "is_active_turn (session_step turn_frames new_binding (EvServerFrame 3 STARTED_MARK)) ''t1'' ''u1'' \<and>
   \<not> is_active_turn (session_run turn_frames (session_step turn_frames
       (session_step turn_frames new_binding (EvServerFrame 3 STARTED_MARK)) (EvServerFrame 1 COMPLETED_MARK))
     [EvServerFrame 2 STARTED_MARK, EvServerFrame 3 COMPLETED_MARK]) ''t1'' ''u1''"
proof -
  let ?g = "session_step turn_frames new_binding (EvServerFrame 3 STARTED_MARK)"
  have g: "turns ?g = \<lparr>admitted = [], running = [(''t1'', ''u1'')], cleared = \<lparr>seen = {}, order = []\<rparr>\<rparr>"
    by (simp add: eval_frames observe_server_frame_def observe_turn_lifecycle_def started_def Let_def
        new_binding_def epoch_contains_def MAX_RUNNING_THREADS_def)
  then have act: "is_active_turn ?g ''t1'' ''u1''" by (simp add: is_active_turn_def is_active_def)
  have t: "terminal_of turn_frames COMPLETED_MARK = Some (''t1'', ''u1'')"
    by (simp add: eval_frames terminal_of_def)
  obtain h where h: "scan_frame_header turn_frames COMPLETED_MARK = Some h" "has_method h"
    by (simp add: eval_frames)
  have n: "(''t1'', ''u1'') \<notin> seen (cleared (turns ?g))" unfolding g by simp
  have r: "session_reach turn_frames ?g" by (intro session_reach.intros)
  have "length (filter (ends_turn turn_frames) [EvServerFrame 2 STARTED_MARK, EvServerFrame 3 COMPLETED_MARK]) < 64"
    by simp
  from act ended_turn_stays_ended [OF r t h n this] show ?thesis by blast
qed

text \<open>The keyboard starts \<open>t1\<close> on connection 5.\<close>

definition bound_to_t1 :: binding where
  "bound_to_t1 = session_run turn_frames new_binding
     [EvTuiRequest 5 (SRequest ''thread/start'' (Some (RInt 1)) JNull), EvServerFrame 5 ''landed'']"

lemma bound_to_t1_reach: "session_reach turn_frames bound_to_t1"
  unfolding bound_to_t1_def by (intro session_reach_run session_reach.start)

lemma bound_to_t1_eq:
  "bound_to_t1 = new_binding\<lparr>head := On \<lparr>thread = ''t1'', left = False\<rparr>, ever_bound := True\<rparr>"
  by (simp add: bound_to_t1_def eval_frames observe_tui_request_def MOVE_METHODS_def jget_def
      begin_move_def new_binding_def observe_server_frame_def move_outcome_of_def
      parse_no_dup_value_def parse_no_dup_def settle_move_def)

lemma phone_turn_is_exclusive_witness:
  "busy_on (turns (session_run turn_frames
     (fst (try_admit_idle_turn bound_to_t1 2 (RInt 7) ''t1'' (Some JNull) None))
     [EvServerFrame 3 ''answer'', EvServerFrame 2 COMPLETED_MARK])) ''t1''"
proof -
  let ?adm = "try_admit_idle_turn bound_to_t1 2 (RInt 7) ''t1'' (Some JNull) None"
  have a: "?adm = (fst ?adm, TurnAdmitted)"
    by (simp add: bound_to_t1_eq new_binding_def try_admit_idle_turn_def admit_turn_on_def turn_holds_def
        busy_on_def turn_len_def MAX_ACTIVE_TURNS_def admit_id_def id_within_cap_def
        MAX_TRACKED_CONNECTIONS_def MAX_OUTSTANDING_REQUESTS_def)
  have q: "\<forall>ev \<in> set [EvServerFrame 3 ''answer'', EvServerFrame 2 COMPLETED_MARK].
      quiet turn_frames 2 (RInt 7) ev"
    by (simp add: quiet_def answers_def eval_frames)
  from phone_turn_is_exclusive [OF bound_to_t1_reach a q] show ?thesis by blast
qed

lemma id_in_flight_witness:
  "snd (try_admit_request (session_run turn_frames
     (fst (try_admit_request new_binding 2 (RInt 7) ''thread/read''))
     [EvServerFrame 3 ''answer'', EvServerFrame 2 ''other'']) 2 (RInt 7) ''thread/resume'') = ReusedInFlight"
proof -
  let ?adm = "try_admit_request new_binding 2 (RInt 7) ''thread/read''"
  have a: "?adm = (fst ?adm, Admitted)"
    by (simp add: new_binding_def try_admit_request_def admit_id_def id_within_cap_def
        MAX_TRACKED_CONNECTIONS_def MAX_OUTSTANDING_REQUESTS_def)
  have "''other'' \<noteq> COMPLETED_MARK" "''other'' \<noteq> STARTED_MARK"
    by (simp_all add: COMPLETED_MARK_def STARTED_MARK_def)
  then have q: "\<forall>ev \<in> set [EvServerFrame 3 ''answer'', EvServerFrame 2 ''other''].
      quiet turn_frames 2 (RInt 7) ev"
    by (simp add: quiet_def answers_def eval_frames)
  from id_in_flight_is_not_admitted_again [OF a q] show ?thesis by blast
qed

lemma answer_frees_the_id_witness:
  "outstanding (fst (try_admit_request new_binding 2 (RInt 7) ''thread/read'')) 2 (RInt 7) \<and>
   \<not> outstanding (session_step turn_frames
       (fst (try_admit_request new_binding 2 (RInt 7) ''thread/read'')) (EvServerFrame 2 ''answer'')) 2 (RInt 7)"
proof -
  let ?g = "fst (try_admit_request new_binding 2 (RInt 7) ''thread/read'')"
  have a: "answers turn_frames 2 (RInt 7) (EvServerFrame 2 ''answer'')"
    by (simp add: answers_def eval_frames)
  have h: "\<forall>o'. head ?g \<noteq> Moving 2 (RInt 7) o'" by (simp add: try_admit_request_def new_binding_def)
  have "outstanding ?g 2 (RInt 7)"
    by (simp add: outstanding_def new_binding_def try_admit_request_def admit_id_def id_within_cap_def
        MAX_TRACKED_CONNECTIONS_def MAX_OUTSTANDING_REQUESTS_def)
  with answer_frees_the_id [OF a h] show ?thesis by blast
qed

end
