(* ===== verification/Broker_Capability.thy ===== *)
theory Broker_Capability
  imports Broker_Session Broker_Allowlist
begin

text \<open>
  \<open>codex-broker/src/response_capability.rs\<close>: who may answer an approval. \<open>arbiter\<close> is
  the table of one-use slots all connections share; \<open>leg\<close> is one connection's view of the
  server requests it was sent. The log sink is the list of lines a leg has written to it. The
  methods of \<open>LegCapabilities\<close> that reach the arbiter take it as an argument and give it back.
\<close>

section \<open>The arbiter\<close>

definition COMMAND_EXEC_APPROVAL :: string where
  "COMMAND_EXEC_APPROVAL = ''item/commandExecution/requestApproval''"

definition FILE_CHANGE_APPROVAL :: string where
  "FILE_CHANGE_APPROVAL = ''item/fileChange/requestApproval''"

definition GENERATION_UNSTAMPED :: "64 word" where "GENERATION_UNSTAMPED = 0"
definition MAX_TRACKED_IDS :: nat where "MAX_TRACKED_IDS = 4096"
definition MAX_WINNERS :: nat where "MAX_WINNERS = 64 * 1024"
definition AMBIGUITY_LOG_BUDGET :: "32 word" where "AMBIGUITY_LOG_BUDGET = 64"

text \<open>The registry has a bound of its own on a stored thread id, four times the session's.\<close>

definition MAX_APPROVAL_THREAD_BYTES :: nat where "MAX_APPROVAL_THREAD_BYTES = 256"

definition CODECONNECT_NAMESPACE :: string where
  "CODECONNECT_NAMESPACE = ''codeconnect/''"

datatype s2c_disposition = Deliver | Withhold | CloseLeg string

record upstream_request_key =
  key_thread :: string
  key_request :: request_id
  key_generation :: "64 word"

datatype consume = Won | Lost

datatype slot_state = Reserved role | Confirmed role

type_synonym arbiter = "(upstream_request_key, slot_state) hash"

definition arb_consume :: "arbiter \<Rightarrow> upstream_request_key \<Rightarrow> role \<Rightarrow> arbiter \<times> consume" where
  "arb_consume a key r =
     (if hget a key \<noteq> None \<or> MAX_WINNERS \<le> length a then (a, Lost)
      else (hput key (Reserved r) a, Won))"

definition arb_confirm :: "arbiter \<Rightarrow> upstream_request_key \<Rightarrow> role \<Rightarrow> arbiter" where
  "arb_confirm a key r =
     (case hget a key of
        Some (Reserved r') \<Rightarrow> if r' = r then hput key (Confirmed r) a else a
      | _ \<Rightarrow> a)"

definition arb_release :: "arbiter \<Rightarrow> upstream_request_key \<Rightarrow> role \<Rightarrow> arbiter" where
  "arb_release a key r = (if hget a key = Some (Reserved r) then hdel key a else a)"

definition arb_winner :: "arbiter \<Rightarrow> upstream_request_key \<Rightarrow> role option" where
  "arb_winner a key = (case hget a key of Some (Confirmed r) \<Rightarrow> Some r | _ \<Rightarrow> None)"

section \<open>A leg's view\<close>

record leg_entry =
  le_thread :: string
  le_generation :: "64 word"

datatype id_state = Bound leg_entry | Tombstoned

datatype occupancy = Bind string | Tombstone

record leg =
  view :: "(request_id, id_state) hash"
  leg_log :: "string list"
  log_budget :: "32 word"
  poisoned :: bool

definition new_leg :: leg where
  "new_leg = \<lparr>view = [], leg_log = [], log_budget = AMBIGUITY_LOG_BUDGET, poisoned = False\<rparr>"

definition log_line :: "leg \<Rightarrow> string \<Rightarrow> leg" where
  "log_line l s = l\<lparr>leg_log := leg_log l @ [s]\<rparr>"

definition classify_occupancy :: "json \<Rightarrow> string \<Rightarrow> occupancy" where
  "classify_occupancy v method =
     (let thread = (case Option.bind (Option.bind (jget ''params'' v) (jget ''threadId'')) as_str of
            None \<Rightarrow> None
          | Some t \<Rightarrow> if length t \<le> MAX_APPROVAL_THREAD_BYTES then Some t else None);
          hybrid = (jget ''result'' v \<noteq> None \<or> jget ''error'' v \<noteq> None)
      in case thread of
        Some t \<Rightarrow>
          if \<not> hybrid \<and> (method = COMMAND_EXEC_APPROVAL \<or> method = FILE_CHANGE_APPROVAL)
          then Bind t else Tombstone
      | None \<Rightarrow> Tombstone)"

definition log_ambiguous :: "ext \<Rightarrow> leg \<Rightarrow> string \<Rightarrow> request_id \<Rightarrow> string \<Rightarrow> leg" where
  "log_ambiguous L l reason i method =
     (if log_budget l = 0 then l
      else
        let budget = log_budget l - 1;
            suffix = (if budget = 0 then '' (further ambiguity logs suppressed)'' else [])
        in log_line (l\<lparr>log_budget := budget\<rparr>)
             (''capability '' @ reason @ '': id='' @ debug_id L i @ '' method=''
                @ debug_str (uni_verbatim L) method @ suffix))"

definition poison :: "ext \<Rightarrow> leg \<Rightarrow> string \<Rightarrow> leg" where
  "poison L l reason =
     (if poisoned l then l
      else log_line (l\<lparr>poisoned := True\<rparr>)
        (''capability leg poisoned (fail closed): '' @ debug_str (uni_verbatim L) reason))"

definition register :: "ext \<Rightarrow> leg \<Rightarrow> request_id \<Rightarrow> occupancy \<Rightarrow> string \<Rightarrow> leg" where
  "register L l i occ method =
     (if hget (view l) i \<noteq> None then
        log_ambiguous L (l\<lparr>view := hput i Tombstoned (view l)\<rparr>)
          ''tombstoned (ambiguous bare id)'' i method
      else if MAX_TRACKED_IDS \<le> length (view l) then
        log_ambiguous L l ''skipped (per-leg id cap reached)'' i method
      else (case occ of
          Bind t \<Rightarrow>
            l\<lparr>view := hput i (Bound \<lparr>le_thread = t, le_generation = GENERATION_UNSTAMPED\<rparr>) (view l)\<rparr>
        | Tombstone \<Rightarrow>
            log_ambiguous L (l\<lparr>view := hput i Tombstoned (view l)\<rparr>)
              ''tombstoned (id-bearing non-answerable frame)'' i method))"

text \<open>On the phone's leg an approval binds only if its thread is the head.\<close>

definition gate_occupancy :: "role \<Rightarrow> string option \<Rightarrow> occupancy \<Rightarrow> occupancy" where
  "gate_occupancy r bound occ = (case occ of
     Bind t \<Rightarrow> if r = Tui \<or> bound = Some t then Bind t else Tombstone
   | Tombstone \<Rightarrow> Tombstone)"

definition leg_observe_frame :: "ext \<Rightarrow> leg \<Rightarrow> role \<Rightarrow> binding \<Rightarrow> string \<Rightarrow> leg \<times> s2c_disposition" where
  "leg_observe_frame L l r g frame =
     (let keyboard = (r = Tui) in
      if poisoned l then
        (l, if keyboard then Deliver else CloseLeg ''the capability leg is poisoned'')
      else (case parse_no_dup_value L frame of
          None \<Rightarrow>
            (poison L l ''NoDup-rejected s2c frame (unparseable / duplicate member)'',
             if keyboard then Deliver
             else CloseLeg ''an unparseable or duplicate-member s2c frame could not be classified'')
        | Some v \<Rightarrow>
            let method = Option.bind (jget ''method'' v) as_str in
            if \<not> keyboard \<and>
               (case method of None \<Rightarrow> False | Some m \<Rightarrow> starts_with CODECONNECT_NAMESPACE m)
            then
              (poison L l ''s2c frame in the broker's reserved `codeconnect/` namespace'',
               CloseLeg ''an s2c frame claimed the broker's reserved `codeconnect/` namespace'')
            else (case (Option.bind (jget ''id'' v) id_from_value, method) of
                (Some i, Some m) \<Rightarrow>
                  let l1 = register L l i
                        (gate_occupancy r (bound_thread g) (classify_occupancy v m)) m in
                  if keyboard then (l1, Deliver)
                  else (case hget (view l1) i of
                      Some (Bound e) \<Rightarrow> (l1, Deliver)
                    | _ \<Rightarrow>
                        (log_line l1
                           (''capability withheld from the phone (the keyboard answers it): id=''
                              @ debug_id L i @ '' method='' @ debug_str (uni_verbatim L) m),
                         Withhold))
              | _ \<Rightarrow> (l, Deliver))))"

section \<open>Answering\<close>

definition leg_bound_thread :: "leg \<Rightarrow> request_id \<Rightarrow> string option" where
  "leg_bound_thread l i =
     (if poisoned l then None
      else (case hget (view l) i of Some (Bound e) \<Rightarrow> Some (le_thread e) | _ \<Rightarrow> None))"

definition slot_key :: "leg \<Rightarrow> request_id \<Rightarrow> upstream_request_key option" where
  "slot_key l i =
     (if poisoned l then None
      else (case hget (view l) i of
          Some (Bound e) \<Rightarrow>
            Some \<lparr>key_thread = le_thread e, key_request = i, key_generation = le_generation e\<rparr>
        | _ \<Rightarrow> None))"

definition recorded_winner :: "arbiter \<Rightarrow> leg \<Rightarrow> request_id \<Rightarrow> role option" where
  "recorded_winner a l i =
     (if poisoned l then None
      else (case hget (view l) i of
          Some (Bound e) \<Rightarrow>
            arb_winner a
              \<lparr>key_thread = le_thread e, key_request = i, key_generation = le_generation e\<rparr>
        | _ \<Rightarrow> None))"

definition confirm_write :: "ext \<Rightarrow> arbiter \<Rightarrow> leg \<Rightarrow> role \<Rightarrow> request_id \<Rightarrow> arbiter \<times> leg" where
  "confirm_write L a l r i = (case slot_key l i of
     None \<Rightarrow> (a, l)
   | Some key \<Rightarrow>
       (arb_confirm a key r,
        log_line l (''capability confirmed: winner='' @ debug_role r @ '' id='' @ debug_id L i
          @ '' thread='' @ debug_str (uni_verbatim L) (key_thread key))))"

definition release_write :: "ext \<Rightarrow> arbiter \<Rightarrow> leg \<Rightarrow> role \<Rightarrow> request_id \<Rightarrow> arbiter \<times> leg" where
  "release_write L a l r i = (case slot_key l i of
     None \<Rightarrow> (a, l)
   | Some key \<Rightarrow>
       (arb_release a key r,
        log_line l (''capability released: role='' @ debug_role r @ '' id='' @ debug_id L i
          @ '' thread='' @ debug_str (uni_verbatim L) (key_thread key) @ '' (write refused)'')))"

definition take_slot ::
  "ext \<Rightarrow> arbiter \<Rightarrow> leg \<Rightarrow> role \<Rightarrow> request_id \<Rightarrow> string option \<Rightarrow> (arbiter \<times> leg) \<times> bool option" where
  "take_slot L a l r i hd_thread = (case slot_key l i of
     None \<Rightarrow> ((a, l), None)
   | Some key \<Rightarrow>
       if (case hd_thread of None \<Rightarrow> False | Some h \<Rightarrow> h \<noteq> key_thread key) then ((a, l), Some False)
       else (case arb_consume a key r of
           (a1, Won) \<Rightarrow>
             ((a1, log_line l (''capability won: winner='' @ debug_role r @ '' thread=''
                 @ debug_str (uni_verbatim L) (key_thread key) @ '' id='' @ debug_id L i
                 @ '' gen='' @ dec (unat (key_generation key)))),
              Some True)
         | (a1, Lost) \<Rightarrow> ((a1, l), Some False)))"

definition arbitrate_tui ::
  "ext \<Rightarrow> arbiter \<Rightarrow> leg \<Rightarrow> request_id \<Rightarrow> (arbiter \<times> leg) \<times> bool" where
  "arbitrate_tui L a l i = (case take_slot L a l Tui i None of
     (s, w) \<Rightarrow> (s, case w of None \<Rightarrow> True | Some b \<Rightarrow> b))"

definition authorize ::
  "ext \<Rightarrow> arbiter \<Rightarrow> leg \<Rightarrow> request_id \<Rightarrow> string option \<Rightarrow> (arbiter \<times> leg) \<times> bool" where
  "authorize L a l i hd_thread =
     (if hd_thread = None then ((a, l), False)
      else (case take_slot L a l Ccd i hd_thread of (s, w) \<Rightarrow> (s, w = Some True)))"

text \<open>\<open>NoCapabilities\<close>: the registry that authorizes nothing.\<close>

definition no_capabilities_authorize :: "request_id \<Rightarrow> string option \<Rightarrow> bool" where
  "no_capabilities_authorize i hd_thread = False"

end
