(* ===== verification/Broker_Arbiter.thy ===== *)
theory Broker_Arbiter
  imports Broker_Capability
begin

text \<open>
  The contract of the shared arbiter. \<open>slot_arbiter\<close> is what a leg relies on: a slot is free,
  held or settled, and each call moves it the way \<open>SlotState\<close>'s documentation says. The lemmas
  of the locale hold of any run of calls by any legs; the interpretation \<open>arb\<close> discharges the laws
  for the code's table.
\<close>

section \<open>The contract\<close>

datatype 'r slot_status = Free | Held 'r | Settled 'r

datatype ('k, 'r) slot_event = SConsume 'k 'r | SConfirm 'k 'r | SRelease 'k 'r

fun slot_step ::
  "('a \<Rightarrow> 'k \<Rightarrow> 'r \<Rightarrow> 'a \<times> consume) \<Rightarrow> ('a \<Rightarrow> 'k \<Rightarrow> 'r \<Rightarrow> 'a) \<Rightarrow> ('a \<Rightarrow> 'k \<Rightarrow> 'r \<Rightarrow> 'a) \<Rightarrow>
     'a \<Rightarrow> ('k, 'r) slot_event \<Rightarrow> 'a" where
  "slot_step con cnf rel a (SConsume k r) = fst (con a k r)"
| "slot_step con cnf rel a (SConfirm k r) = cnf a k r"
| "slot_step con cnf rel a (SRelease k r) = rel a k r"

locale slot_arbiter =
  fixes consume :: "'a \<Rightarrow> 'k \<Rightarrow> 'r \<Rightarrow> 'a \<times> consume"
    and confirm :: "'a \<Rightarrow> 'k \<Rightarrow> 'r \<Rightarrow> 'a"
    and release :: "'a \<Rightarrow> 'k \<Rightarrow> 'r \<Rightarrow> 'a"
    and winner :: "'a \<Rightarrow> 'k \<Rightarrow> 'r option"
    and status :: "'a \<Rightarrow> 'k \<Rightarrow> 'r slot_status"
  assumes consume_won: "consume a k r = (a', Won) \<Longrightarrow> status a k = Free \<and>
       status a' k' = (if k' = k then Held r else status a k')"
    and consume_lost: "consume a k r = (a', Lost) \<Longrightarrow> a' = a"
    and confirm_status: "status (confirm a k r) k' =
       (if k' = k \<and> status a k = Held r then Settled r else status a k')"
    and release_status: "status (release a k r) k' =
       (if k' = k \<and> status a k = Held r then Free else status a k')"
    and winner_status: "winner a k = Some r \<longleftrightarrow> status a k = Settled r"
begin

lemma taken_loses: "status a k \<noteq> Free \<Longrightarrow> consume a k r = (a, Lost)"
  using consume_won [of a k r] consume_lost [of a k r]
  by (cases "consume a k r"; cases "snd (consume a k r)") auto

lemma settled_step:
  "status a k = Settled r \<Longrightarrow> status (slot_step consume confirm release a ev) k = Settled r"
proof (cases ev)
  case (SConsume k' r')
  assume s: "status a k = Settled r"
  obtain a' c where c: "consume a k' r' = (a', c)" by fastforce
  with s consume_won [of a k' r' a' k] consume_lost [of a k' r' a'] SConsume
  show ?thesis by (cases c) auto
qed (auto simp: confirm_status release_status)

lemma held_step:
  "status a k = Held r \<Longrightarrow> ev \<noteq> SRelease k r \<Longrightarrow>
     status (slot_step consume confirm release a ev) k \<in> {Held r, Settled r}"
proof (cases ev)
  case (SConsume k' r')
  assume s: "status a k = Held r"
  obtain a' c where c: "consume a k' r' = (a', c)" by fastforce
  with s consume_won [of a k' r' a' k] consume_lost [of a k' r' a'] SConsume
  show ?thesis by (cases c) auto
qed (auto simp: confirm_status release_status)

lemma settled_run:
  "status a k = Settled r \<Longrightarrow> status (foldl (slot_step consume confirm release) a evs) k = Settled r"
  by (induction evs arbitrary: a) (auto simp: settled_step)

lemma taken_run:
  "status a k \<in> {Held r, Settled r} \<Longrightarrow> SRelease k r \<notin> set evs \<Longrightarrow>
     status (foldl (slot_step consume confirm release) a evs) k \<in> {Held r, Settled r}"
proof (induction evs arbitrary: a)
  case (Cons ev evs)
  then have "status (slot_step consume confirm release a ev) k \<in> {Held r, Settled r}"
    using held_step [of a k r ev] settled_step [of a k r ev] by auto
  with Cons show ?case by simp
qed simp

lemma taken_winner: "status a k \<in> {Held r, Settled r} \<Longrightarrow> winner a k \<in> {None, Some r}"
proof (cases "winner a k")
  case (Some r')
  assume "status a k \<in> {Held r, Settled r}"
  moreover from Some have "status a k = Settled r'" by (simp only: winner_status)
  ultimately show ?thesis using Some by simp
qed simp

lemma one_winner:
  assumes "consume a k r = (a', Won)" "SRelease k r \<notin> set evs"
  shows "consume (foldl (slot_step consume confirm release) a' evs) k r' =
       (foldl (slot_step consume confirm release) a' evs, Lost)"
    and "winner (foldl (slot_step consume confirm release) a' evs) k \<in> {None, Some r}"
proof -
  let ?a = "foldl (slot_step consume confirm release) a' evs"
  from consume_won [OF assms(1), of k] taken_run [of a' k r evs] assms(2)
  have t: "status ?a k \<in> {Held r, Settled r}" by simp
  then show "consume ?a k r' = (?a, Lost)" by (intro taken_loses) auto
  from t show "winner ?a k \<in> {None, Some r}" by (rule taken_winner)
qed

lemma winner_permanent:
  "winner a k = Some r \<Longrightarrow> winner (foldl (slot_step consume confirm release) a evs) k = Some r"
  using settled_run by (simp add: winner_status)

lemma release_reopens:
  "consume a k r = (a', Won) \<Longrightarrow> status (release a' k r) k' = status a k'"
  using consume_won [of a k r a' k'] consume_won [of a k r a' k] by (auto simp: release_status)

end

section \<open>The code's table\<close>

definition arb_status :: "arbiter \<Rightarrow> upstream_request_key \<Rightarrow> role slot_status" where
  "arb_status a k = (case hget a k of
     None \<Rightarrow> Free | Some (Reserved r) \<Rightarrow> Held r | Some (Confirmed r) \<Rightarrow> Settled r)"

interpretation arb: slot_arbiter arb_consume arb_confirm arb_release arb_winner arb_status
proof (unfold_locales, goal_cases)
  case (1 a k r a' k')
  then show ?case by (auto simp: arb_consume_def arb_status_def hget_hput split: if_splits)
next
  case (2 a k r a')
  then show ?case by (auto simp: arb_consume_def split: if_splits)
next
  case (3 a k r k')
  show ?case by (auto simp: arb_confirm_def arb_status_def hget_hput split: option.split slot_state.split)
next
  case (4 a k r k')
  show ?case by (auto simp: arb_release_def arb_status_def hget_hdel split: option.split slot_state.split)
next
  case (5 a k r)
  show ?case by (auto simp: arb_winner_def arb_status_def split: option.split slot_state.split)
qed

abbreviation arb_step :: "arbiter \<Rightarrow> (upstream_request_key, role) slot_event \<Rightarrow> arbiter" where
  "arb_step \<equiv> slot_step arb_consume arb_confirm arb_release"

lemma arb_consume_Won:
  "arb_consume a k r = (a', Won) \<longleftrightarrow>
     hget a k = None \<and> length a < MAX_WINNERS \<and> a' = hput k (Reserved r) a"
  by (auto simp: arb_consume_def)

lemma arb_status_Free: "arb_status a k = Free \<longleftrightarrow> hget a k = None"
  by (simp add: arb_status_def split: option.split slot_state.split)

lemma arb_release_consume:
  "arb_consume a k r = (a', Won) \<Longrightarrow> arb_release a' k r = a"
  by (auto simp: arb_consume_Won arb_release_def hget_hput hdel_hput_absent)

lemma length_arb_step: "length a \<le> MAX_WINNERS \<Longrightarrow> length (arb_step a ev) \<le> MAX_WINNERS"
  by (cases ev)
    (auto simp: arb_consume_def arb_confirm_def arb_release_def length_hput
      split: option.split slot_state.split intro: order_trans [OF length_hdel_le])

lemma length_arb_run: "length a \<le> MAX_WINNERS \<Longrightarrow> length (foldl arb_step a evs) \<le> MAX_WINNERS"
  by (induction evs arbitrary: a) (simp_all add: length_arb_step)

end
