(* ===== verification/Broker_Leg.thy ===== *)
theory Broker_Leg
  imports Broker_Arbiter
begin

text \<open>
  What a leg's view proves about a bare id. \<open>occupies\<close> is the id a server frame occupies;
  \<open>leg_run\<close> feeds a leg the frames of its connection, each with the session as it was then. An
  id that authorizes was seen exactly once, on a leg that could read every frame; what the phone is
  not shown it cannot answer.
\<close>

section \<open>Runs of a leg\<close>

definition occupies :: "ext \<Rightarrow> string \<Rightarrow> request_id option" where
  "occupies L frame = Option.bind (parse_no_dup_value L frame) (\<lambda>v.
     if Option.bind (jget ''method'' v) as_str = None then None
     else Option.bind (jget ''id'' v) id_from_value)"

definition leg_run :: "ext \<Rightarrow> role \<Rightarrow> leg \<Rightarrow> (binding \<times> string) list \<Rightarrow> leg" where
  "leg_run L r l evs = foldl (\<lambda>l (g, f). fst (leg_observe_frame L l r g f)) l evs"

lemma leg_run_simps [simp]:
  "leg_run L r l [] = l"
  "leg_run L r l ((g, f) # evs) = leg_run L r (fst (leg_observe_frame L l r g f)) evs"
  "leg_run L r l (evs @ [(g, f)]) = fst (leg_observe_frame L (leg_run L r l evs) r g f)"
  by (simp_all add: leg_run_def)

lemma log_line_simps [simp]:
  "view (log_line l s) = view l" "poisoned (log_line l s) = poisoned l"
  "leg_log (log_line l s) = leg_log l @ [s]" "log_budget (log_line l s) = log_budget l"
  by (simp_all add: log_line_def)

lemma log_ambiguous_simps [simp]:
  "view (log_ambiguous L l s i m) = view l" "poisoned (log_ambiguous L l s i m) = poisoned l"
  by (simp_all add: log_ambiguous_def Let_def)

lemma poison_simps [simp]: "view (poison L l s) = view l" "poisoned (poison L l s)"
  by (simp_all add: poison_def)

definition id_state_of :: "occupancy \<Rightarrow> id_state" where
  "id_state_of occ = (case occ of
     Bind t \<Rightarrow> Bound \<lparr>le_thread = t, le_generation = GENERATION_UNSTAMPED\<rparr>
   | Tombstone \<Rightarrow> Tombstoned)"

definition view_put :: "(request_id, id_state) hash \<Rightarrow> request_id \<Rightarrow> occupancy \<Rightarrow> (request_id, id_state) hash" where
  "view_put w i occ =
     (if hget w i \<noteq> None then hput i Tombstoned w
      else if MAX_TRACKED_IDS \<le> length w then w
      else hput i (id_state_of occ) w)"

definition frame_occupancy :: "ext \<Rightarrow> role \<Rightarrow> binding \<Rightarrow> string \<Rightarrow> occupancy" where
  "frame_occupancy L r g f = (case parse_no_dup_value L f of
     None \<Rightarrow> Tombstone
   | Some v \<Rightarrow>
       (case Option.bind (jget ''method'' v) as_str of
          None \<Rightarrow> Tombstone
        | Some m \<Rightarrow> gate_occupancy r (bound_thread g) (classify_occupancy v m)))"

lemma register_view: "view (register L l i occ m) = view_put (view l) i occ"
  by (simp add: register_def id_state_of_def view_put_def split: occupancy.split)

lemma register_poisoned [simp]: "poisoned (register L l i occ m) = poisoned l"
  by (simp add: register_def split: occupancy.split)

text \<open>What one frame does to a view, where the leg is still readable after it.\<close>

lemma observe_readable:
  assumes "\<not> poisoned (fst (leg_observe_frame L l r g f))"
  shows "\<not> poisoned l" "parse_no_dup_value L f \<noteq> None"
    "view (fst (leg_observe_frame L l r g f)) = (case occupies L f of
       None \<Rightarrow> view l | Some i \<Rightarrow> view_put (view l) i (frame_occupancy L r g f))"
proof -
  show np: "\<not> poisoned l" using assms by (auto simp: leg_observe_frame_def Let_def)
  then obtain v where v: "parse_no_dup_value L f = Some v"
    using assms by (cases "parse_no_dup_value L f") (auto simp: leg_observe_frame_def Let_def)
  then show "parse_no_dup_value L f \<noteq> None" by simp
  show "view (fst (leg_observe_frame L l r g f)) = (case occupies L f of
       None \<Rightarrow> view l | Some i \<Rightarrow> view_put (view l) i (frame_occupancy L r g f))"
  proof (cases "Option.bind (jget ''method'' v) as_str")
    case None
    with np v show ?thesis
      by (simp add: leg_observe_frame_def Let_def occupies_def split: option.split)
  next
    case (Some m)
    with assms np v have ns: "\<not> (r \<noteq> Tui \<and> starts_with CODECONNECT_NAMESPACE m)"
      by (auto simp: leg_observe_frame_def Let_def)
    show ?thesis
    proof (cases "Option.bind (jget ''id'' v) id_from_value")
      case None
      with Some np v ns show ?thesis
        by (simp add: leg_observe_frame_def Let_def occupies_def)
    next
      case (Some i)
      let ?l = "register L l i (gate_occupancy r (bound_thread g) (classify_occupancy v m)) m"
      have "view (fst (leg_observe_frame L l r g f)) = view ?l"
        using np v ns Some \<open>Option.bind (jget ''method'' v) as_str = Some m\<close>
        by (cases "r = Tui"; cases "hget (view ?l) i"; cases "the (hget (view ?l) i)")
          (auto simp: leg_observe_frame_def Let_def)
      with v Some \<open>Option.bind (jget ''method'' v) as_str = Some m\<close> show ?thesis
        by (simp add: occupies_def register_view frame_occupancy_def)
    qed
  qed
qed

lemma observe_poisoned: "poisoned l \<Longrightarrow> fst (leg_observe_frame L l r g f) = l"
  by (simp add: leg_observe_frame_def Let_def)

section \<open>An id that is dead stays dead\<close>

definition dead_id :: "leg \<Rightarrow> request_id \<Rightarrow> bool" where
  "dead_id l i \<longleftrightarrow> poisoned l \<or> hget (view l) i = Some Tombstoned"

lemma dead_observe: "dead_id l i \<Longrightarrow> dead_id (fst (leg_observe_frame L l r g f)) i"
  using observe_readable [of L l r g f]
  by (cases "poisoned (fst (leg_observe_frame L l r g f))")
    (auto simp: dead_id_def view_put_def hget_hput split: option.splits)

lemma dead_run: "dead_id l i \<Longrightarrow> dead_id (leg_run L r l evs) i"
  by (induction evs arbitrary: l) (auto simp: dead_observe)

lemma dead_slot: "dead_id l i \<Longrightarrow> slot_key l i = None \<and> leg_bound_thread l i = None"
  by (auto simp: dead_id_def slot_key_def leg_bound_thread_def)

lemma slot_key_bound: "map_option key_thread (slot_key l i) = leg_bound_thread l i"
  by (simp add: slot_key_def leg_bound_thread_def split: option.split id_state.split)

lemma slot_key_request: "slot_key l i = Some k \<Longrightarrow> key_request k = i"
  by (auto simp: slot_key_def split: if_splits option.splits id_state.splits)

lemma second_sighting_dead:
  assumes "hget (view l) i \<noteq> None" "occupies L f = Some i"
  shows "dead_id (fst (leg_observe_frame L l r g f)) i"
  using assms observe_readable(3) [of L l r g f]
  by (cases "poisoned (fst (leg_observe_frame L l r g f))")
    (auto simp: dead_id_def view_put_def hget_hput)

text \<open>A bare id seen twice answers nothing, for ever. Once a leg has recorded an id and a second
  server request comes under it, whatever either of them was, then through any later frames no
  answer under that id is authorized for the phone, on any head, and none changes the arbiter.\<close>
theorem reused_id_is_never_authorized:
  assumes "hget (view l) i \<noteq> None" and "occupies L frame = Some i"
  shows "authorize L a (leg_run L r (fst (leg_observe_frame L l r g frame)) evs) i hd_thread =
     ((a, leg_run L r (fst (leg_observe_frame L l r g frame)) evs), False)"
  using dead_slot [OF dead_run [OF second_sighting_dead [OF assms]]]
  by (simp add: authorize_def take_slot_def)

section \<open>An id that answers was seen once\<close>

lemma length_view_put:
  "length w \<le> length (view_put w i occ)" "length w \<le> MAX_TRACKED_IDS \<Longrightarrow> length (view_put w i occ) \<le> MAX_TRACKED_IDS"
  by (auto simp: view_put_def length_hput)

lemma view_put_Bound:
  "hget (view_put w i occ) j = Some (Bound e) \<Longrightarrow>
     hget w j = Some (Bound e) \<and> j \<noteq> i \<or>
     j = i \<and> hget w i = None \<and> length w < MAX_TRACKED_IDS \<and>
       occ = Bind (le_thread e) \<and> le_generation e = GENERATION_UNSTAMPED"
  by (auto simp: view_put_def id_state_of_def hget_hput split: if_splits occupancy.splits)

lemma view_put_tracks: "hget (view_put w i occ) i = None \<Longrightarrow> MAX_TRACKED_IDS \<le> length (view_put w i occ)"
  by (auto simp: view_put_def hget_hput split: if_splits)

lemma view_put_keeps: "hget w j \<noteq> None \<Longrightarrow> hget (view_put w i occ) j \<noteq> None"
  by (auto simp: view_put_def hget_hput)

text \<open>Every id a frame of the run occupied is in the view, unless the view was full.\<close>

lemma run_tracks:
  "\<not> poisoned (leg_run L r new_leg evs) \<Longrightarrow> (g, f) \<in> set evs \<Longrightarrow> occupies L f = Some i \<Longrightarrow>
     hget (view (leg_run L r new_leg evs)) i \<noteq> None \<or>
     MAX_TRACKED_IDS \<le> length (view (leg_run L r new_leg evs))"
proof (induction evs rule: rev_induct)
  case (snoc ev evs)
  obtain g' f' where ev: "ev = (g', f')" by fastforce
  let ?l = "leg_run L r new_leg evs"
  note o = observe_readable [of L ?l r g' f', OF snoc.prems(1) [unfolded ev leg_run_simps]]
  show ?case
  proof (cases "(g, f) \<in> set evs")
    case True
    from snoc.IH [OF o(1) True snoc.prems(3)] show ?thesis
    proof
      assume "hget (view ?l) i \<noteq> None"
      then have "hget (view (leg_run L r new_leg (evs @ [ev]))) i \<noteq> None"
        unfolding ev leg_run_simps o(3) by (cases "occupies L f'") (simp_all add: view_put_keeps)
      then show ?thesis ..
    next
      assume "MAX_TRACKED_IDS \<le> length (view ?l)"
      then have "MAX_TRACKED_IDS \<le> length (view (leg_run L r new_leg (evs @ [ev])))"
        unfolding ev leg_run_simps o(3)
        by (cases "occupies L f'") (auto intro: order_trans length_view_put(1))
      then show ?thesis ..
    qed
  next
    case False
    with snoc.prems(2) ev have "f' = f" by auto
    then show ?thesis
      unfolding ev leg_run_simps o(3)
      using snoc.prems(3) view_put_tracks [of "view ?l" i] by fastforce
  qed
qed simp

lemma bound_seen_once:
  "\<not> poisoned (leg_run L r new_leg evs) \<Longrightarrow>
   hget (view (leg_run L r new_leg evs)) i = Some (Bound e) \<Longrightarrow>
     \<exists>pre g f post. evs = pre @ (g, f) # post \<and> occupies L f = Some i \<and>
       frame_occupancy L r g f = Bind (le_thread e) \<and>
       (\<forall>(g', f') \<in> set pre \<union> set post. occupies L f' \<noteq> Some i)"
proof (induction evs rule: rev_induct)
  case Nil
  then show ?case by (simp add: new_leg_def)
next
  case (snoc ev evs)
  obtain g' f' where ev: "ev = (g', f')" by fastforce
  let ?l = "leg_run L r new_leg evs"
  note o = observe_readable [of L ?l r g' f', OF snoc.prems(1) [unfolded ev leg_run_simps]]
  have b: "hget (case occupies L f' of None \<Rightarrow> view ?l
       | Some i \<Rightarrow> view_put (view ?l) i (frame_occupancy L r g' f')) i = Some (Bound e)"
    using snoc.prems(2) unfolding ev leg_run_simps o(3) .
  show ?case
  proof (cases "occupies L f' = Some i")
    case False
    with b have "hget (view ?l) i = Some (Bound e)"
      by (auto split: option.splits dest!: view_put_Bound)
    from snoc.IH [OF o(1) this] obtain pre g f post where
      "evs = pre @ (g, f) # post" "occupies L f = Some i" "frame_occupancy L r g f = Bind (le_thread e)"
      "\<forall>(g', f') \<in> set pre \<union> set post. occupies L f' \<noteq> Some i" by blast
    with False ev show ?thesis
      by (intro exI [of _ pre] exI [of _ g] exI [of _ f] exI [of _ "post @ [ev]"]) auto
  next
    case True
    with b have n: "hget (view ?l) i = None" "length (view ?l) < MAX_TRACKED_IDS"
      "frame_occupancy L r g' f' = Bind (le_thread e)" by (auto dest!: view_put_Bound)
    then have "occupies L f \<noteq> Some i" if "(g, f) \<in> set evs" for g f
      using run_tracks [OF o(1) that] by auto
    with n True ev show ?thesis
      by (intro exI [of _ evs] exI [of _ g'] exI [of _ f'] exI [of _ "[]"]) auto
  qed
qed

lemma run_read_all:
  "\<not> poisoned (leg_run L r new_leg evs) \<Longrightarrow> (g, f) \<in> set evs \<Longrightarrow> parse_no_dup_value L f \<noteq> None"
proof (induction evs rule: rev_induct)
  case (snoc ev evs)
  obtain g' f' where ev: "ev = (g', f')" by fastforce
  note o = observe_readable [of L "leg_run L r new_leg evs" r g' f', OF snoc.prems(1) [unfolded ev leg_run_simps]]
  from snoc ev o show ?case by auto
qed simp

lemma frame_occupancy_Bind:
  "frame_occupancy L r g f = Bind t \<Longrightarrow> (r = Tui \<or> bound_thread g = Some t) \<and>
     (\<exists>v. parse_no_dup_value L f = Some v \<and> jpointer [''params'', ''threadId''] v = Some (JStr t) \<and>
        length t \<le> 256 \<and> jget ''result'' v = None \<and> jget ''error'' v = None \<and>
        (jget ''method'' v = Some (JStr COMMAND_EXEC_APPROVAL) \<or>
         jget ''method'' v = Some (JStr FILE_CHANGE_APPROVAL)))"
  by (auto simp: frame_occupancy_def gate_occupancy_def classify_occupancy_def Let_def
      MAX_APPROVAL_THREAD_BYTES_def as_str_Some_iff bind_eq_Some_conv
      split: option.splits occupancy.splits if_splits)

text \<open>What an answer answers is beyond doubt. If a leg authorizes the phone's answer under an id,
  then of all the frames the leg was ever sent exactly one carried a request under that id; it was a
  command or file-change approval, with no result or error beside it, on the very thread that is now
  the head and that was the head when the phone was shown it; and every frame of the leg could be
  read.\<close>
theorem authorized_answer_names_one_request:
  assumes "snd (authorize L a (leg_run L Ccd new_leg evs) i hd_thread)"
  shows "\<exists>t pre g f v post. hd_thread = Some t \<and> evs = pre @ (g, f) # post \<and>
     parse_no_dup_value L f = Some v \<and> occupies L f = Some i \<and>
     jpointer [''params'', ''threadId''] v = Some (JStr t) \<and>
     jget ''result'' v = None \<and> jget ''error'' v = None \<and>
     (jget ''method'' v = Some (JStr ''item/commandExecution/requestApproval'') \<or>
      jget ''method'' v = Some (JStr ''item/fileChange/requestApproval'')) \<and>
     bound_thread g = Some t \<and>
     (\<forall>(g', f') \<in> set pre \<union> set post. occupies L f' \<noteq> Some i) \<and>
     (\<forall>(g', f') \<in> set evs. parse_no_dup_value L f' \<noteq> None)"
proof -
  let ?l = "leg_run L Ccd new_leg evs"
  from assms obtain t k where hd_thread: "hd_thread = Some t" and k: "slot_key ?l i = Some k" "key_thread k = t"
    by (auto simp: authorize_def take_slot_def split: if_splits option.splits)
  from k obtain e where np: "\<not> poisoned ?l" and e: "hget (view ?l) i = Some (Bound e)" "le_thread e = t"
    by (auto simp: slot_key_def split: if_splits option.splits id_state.splits)
  from bound_seen_once [OF np e(1)] e(2) obtain pre g f post where d: "evs = pre @ (g, f) # post"
    "occupies L f = Some i" "frame_occupancy L Ccd g f = Bind t"
    "\<forall>(g', f') \<in> set pre \<union> set post. occupies L f' \<noteq> Some i" by blast
  from frame_occupancy_Bind [OF d(3)] obtain v where v: "bound_thread g = Some t"
    "parse_no_dup_value L f = Some v" "jpointer [''params'', ''threadId''] v = Some (JStr t)"
    "jget ''result'' v = None" "jget ''error'' v = None"
    "jget ''method'' v = Some (JStr COMMAND_EXEC_APPROVAL) \<or>
         jget ''method'' v = Some (JStr FILE_CHANGE_APPROVAL)" by blast
  have "\<forall>(g', f') \<in> set evs. parse_no_dup_value L f' \<noteq> None"
    using run_read_all [OF np] by blast
  with hd_thread d v show ?thesis
    unfolding COMMAND_EXEC_APPROVAL_def FILE_CHANGE_APPROVAL_def by blast
qed

end
