(* ===== verification/Broker_Fanout.thy ===== *)
theory Broker_Fanout
  imports Broker_Leg
begin

text \<open>
  All the legs of a broker over their one arbiter: any number of connections, their frames,
  answers and write receipts in any order. A taken slot stays taken on every leg that can name it; a write that is proven
  refused gives the slot back and one that is proven names the winner for good; and the memory of the
  registry is bounded, except its log.
\<close>

section \<open>The broker's legs as one machine\<close>

record fanout =
  fo_arbiter :: arbiter
  fo_legs :: "(conn_id, role \<times> leg) hash"

datatype fanout_event =
    FOpen conn_id role
  | FClose conn_id
  | FFrame conn_id binding string
  | FAnswer conn_id request_id "string option"
  | FWritten conn_id request_id
  | FRefused conn_id request_id

definition leg_answer ::
  "ext \<Rightarrow> arbiter \<Rightarrow> role \<Rightarrow> leg \<Rightarrow> request_id \<Rightarrow> string option \<Rightarrow> (arbiter \<times> leg) \<times> bool" where
  "leg_answer L a r l i hd_thread =
     (if r = Tui then arbitrate_tui L a l i else authorize L a l i hd_thread)"

definition with_leg ::
  "fanout \<Rightarrow> conn_id \<Rightarrow> (role \<Rightarrow> leg \<Rightarrow> arbiter \<times> leg) \<Rightarrow> fanout" where
  "with_leg s c h = (case hget (fo_legs s) c of
     None \<Rightarrow> s
   | Some (r, l) \<Rightarrow> (case h r l of (a, l') \<Rightarrow> \<lparr>fo_arbiter = a, fo_legs = hput c (r, l') (fo_legs s)\<rparr>))"

fun fanout_step :: "ext \<Rightarrow> fanout \<Rightarrow> fanout_event \<Rightarrow> fanout" where
  "fanout_step L s (FOpen c r) = s\<lparr>fo_legs := hput c (r, new_leg) (fo_legs s)\<rparr>"
| "fanout_step L s (FClose c) = s\<lparr>fo_legs := hdel c (fo_legs s)\<rparr>"
| "fanout_step L s (FFrame c g f) =
     with_leg s c (\<lambda>r l. (fo_arbiter s, fst (leg_observe_frame L l r g f)))"
| "fanout_step L s (FAnswer c i hd_thread) =
     with_leg s c (\<lambda>r l. fst (leg_answer L (fo_arbiter s) r l i hd_thread))"
| "fanout_step L s (FWritten c i) = with_leg s c (\<lambda>r l. confirm_write L (fo_arbiter s) l r i)"
| "fanout_step L s (FRefused c i) = with_leg s c (\<lambda>r l. release_write L (fo_arbiter s) l r i)"

definition fanout_run :: "ext \<Rightarrow> fanout \<Rightarrow> fanout_event list \<Rightarrow> fanout" where
  "fanout_run L s evs = foldl (fanout_step L) s evs"

lemma fanout_run_simps [simp]:
  "fanout_run L s [] = s" "fanout_run L s (ev # evs) = fanout_run L (fanout_step L s ev) evs"
  by (simp_all add: fanout_run_def)

section \<open>Every step is a run of the arbiter\<close>

lemma take_slot_arbiter:
  "\<exists>evs. fst (fst (take_slot L a l r i h)) = foldl arb_step a evs \<and> (\<forall>k r'. SRelease k r' \<notin> set evs)"
proof (cases "slot_key l i")
  case None
  then show ?thesis by (intro exI [of _ "[]"]) (simp add: take_slot_def)
next
  case (Some k)
  obtain a' w where c: "arb_consume a k r = (a', w)" by fastforce
  with Some have "fst (fst (take_slot L a l r i h)) \<in> {a, arb_step a (SConsume k r)}"
    using arb.consume_lost [of a k r a'] by (cases w) (auto simp: take_slot_def)
  then show ?thesis
  proof
    assume "fst (fst (take_slot L a l r i h)) = a"
    then show ?thesis by (intro exI [of _ "[]"]) simp
  next
    assume "fst (fst (take_slot L a l r i h)) \<in> {arb_step a (SConsume k r)}"
    then show ?thesis by (intro exI [of _ "[SConsume k r]"]) simp
  qed
qed

lemma leg_answer_arbiter:
  "\<exists>evs. fst (fst (leg_answer L a r l i h)) = foldl arb_step a evs \<and> (\<forall>k r'. SRelease k r' \<notin> set evs)"
proof -
  have "fst (fst (leg_answer L a r l i h)) \<in>
      {a, fst (fst (take_slot L a l Tui i None)), fst (fst (take_slot L a l Ccd i h))}"
    by (simp add: leg_answer_def arbitrate_tui_def authorize_def split: prod.split)
  moreover have "\<exists>evs. a = foldl arb_step a evs \<and> (\<forall>k r'. SRelease k r' \<notin> set evs)"
    by (intro exI [of _ "[]"]) simp
  ultimately show ?thesis using take_slot_arbiter by fastforce
qed

lemma with_leg_arbiter:
  "fo_arbiter (with_leg s c h) =
     (case hget (fo_legs s) c of None \<Rightarrow> fo_arbiter s | Some (r, l) \<Rightarrow> fst (h r l))"
  by (simp add: with_leg_def split: option.split prod.split)

lemma confirm_write_arbiter:
  "\<exists>ops. fst (confirm_write L a l r i) = foldl arb_step a ops \<and> (\<forall>k r'. SRelease k r' \<notin> set ops)"
proof (cases "slot_key l i")
  case None
  then show ?thesis by (intro exI [of _ "[]"]) (simp add: confirm_write_def)
next
  case (Some k)
  then show ?thesis by (intro exI [of _ "[SConfirm k r]"]) (simp add: confirm_write_def)
qed

lemma release_write_arbiter:
  "\<exists>ops. fst (release_write L a l r i) = foldl arb_step a ops \<and>
     (\<forall>k r'. SRelease k r' \<in> set ops \<longrightarrow> key_request k = i)"
proof (cases "slot_key l i")
  case None
  then show ?thesis by (intro exI [of _ "[]"]) (simp add: release_write_def)
next
  case (Some k)
  then show ?thesis
    using slot_key_request [OF Some]
    by (intro exI [of _ "[SRelease k r]"]) (simp add: release_write_def)
qed

lemma with_leg_ops:
  assumes "\<And>r l. \<exists>ops. fst (h r l) = foldl arb_step (fo_arbiter s) ops \<and> Q ops" and "Q []"
  shows "\<exists>ops. fo_arbiter (with_leg s c h) = foldl arb_step (fo_arbiter s) ops \<and> Q ops"
proof (cases "hget (fo_legs s) c")
  case None
  with assms(2) show ?thesis by (intro exI [of _ "[]"]) (simp add: with_leg_arbiter)
next
  case (Some rl)
  with assms(1) [of "fst rl" "snd rl"] show ?thesis
    by (simp add: with_leg_arbiter case_prod_beta)
qed

text \<open>A step releases a slot only if it reports a refused write under the slot's id.\<close>

lemma fanout_step_arbiter:
  "\<exists>ops. fo_arbiter (fanout_step L s ev) = foldl arb_step (fo_arbiter s) ops \<and>
     (\<forall>k r. SRelease k r \<in> set ops \<longrightarrow> (\<exists>c. ev = FRefused c (key_request k)))"
proof (cases ev)
  case (FFrame c g f)
  have "\<exists>ops. fo_arbiter s = foldl arb_step (fo_arbiter s) ops \<and> (\<forall>k r. SRelease k r \<notin> set ops)"
    by (intro exI [of _ "[]"]) simp
  with FFrame show ?thesis
    by (auto intro!: with_leg_ops [where Q = "\<lambda>ops. \<forall>k r. SRelease k r \<notin> set ops"])
next
  case (FAnswer c i h)
  with leg_answer_arbiter show ?thesis
    by (auto intro!: with_leg_ops [where Q = "\<lambda>ops. \<forall>k r. SRelease k r \<notin> set ops"])
next
  case (FWritten c i)
  with confirm_write_arbiter show ?thesis
    by (auto intro!: with_leg_ops [where Q = "\<lambda>ops. \<forall>k r. SRelease k r \<notin> set ops"])
next
  case (FRefused c i)
  have "\<exists>ops. fo_arbiter (fanout_step L s ev) = foldl arb_step (fo_arbiter s) ops \<and>
      (\<forall>k r. SRelease k r \<in> set ops \<longrightarrow> key_request k = i)"
    using FRefused by (simp only: fanout_step.simps, intro with_leg_ops release_write_arbiter) simp
  with FRefused show ?thesis by blast
qed (intro exI [of _ "[]"], simp)+

lemma fanout_run_arbiter:
  "\<exists>ops. fo_arbiter (fanout_run L s evs) = foldl arb_step (fo_arbiter s) ops \<and>
     (\<forall>k r. SRelease k r \<in> set ops \<longrightarrow> (\<exists>c. FRefused c (key_request k) \<in> set evs))"
proof (induction evs arbitrary: s)
  case Nil
  show ?case by (intro exI [of _ "[]"]) simp
next
  case (Cons ev evs)
  obtain ops1
    where 1: "fo_arbiter (fanout_step L s ev) = foldl arb_step (fo_arbiter s) ops1"
      "\<forall>k r. SRelease k r \<in> set ops1 \<longrightarrow> (\<exists>c. ev = FRefused c (key_request k))"
    using fanout_step_arbiter by blast
  obtain ops2
    where 2: "fo_arbiter (fanout_run L (fanout_step L s ev) evs) =
        foldl arb_step (fo_arbiter (fanout_step L s ev)) ops2"
      "\<forall>k r. SRelease k r \<in> set ops2 \<longrightarrow> (\<exists>c. FRefused c (key_request k) \<in> set evs)"
    using Cons.IH by blast
  have "fo_arbiter (fanout_run L s (ev # evs)) = foldl arb_step (fo_arbiter s) (ops1 @ ops2)"
    by (simp add: 2(1) 1(1))
  moreover have "\<forall>k r. SRelease k r \<in> set (ops1 @ ops2) \<longrightarrow>
      (\<exists>c. FRefused c (key_request k) \<in> set (ev # evs))"
    unfolding set_append list.set Un_iff insert_iff using 1(2) 2(2) by blast
  ultimately show ?case by blast
qed

section \<open>One approval, two answerers, one winner\<close>

lemma leg_answer_slot:
  assumes "slot_key l i = Some k"
  shows "leg_answer L a r l i h = ((a1, l1), True) \<Longrightarrow>
      arb_consume a k (if r = Tui then Tui else Ccd) = (a1, Won) \<and> view l1 = view l \<and> poisoned l1 = poisoned l"
    and "arb_consume a k r = (a, Lost) \<Longrightarrow> \<not> snd (leg_answer L a r l i h)"
  using assms
  by (cases r; auto simp: leg_answer_def arbitrate_tui_def authorize_def take_slot_def
      split: if_splits prod.splits consume.splits option.splits)+

lemma role_self [simp]: "(if r = Tui then Tui else Ccd) = r"
  by (cases r) auto

text \<open>A proven answer is the answer for good. Once the write behind a reservation is reported
  written, the role that made it is the recorded winner in every later state, whatever any leg
  does, a refused write reported under the same id included, and no answer to the approval is
  forwarded again.\<close>
theorem written_answer_is_final:
  assumes "hget (fo_legs s) c = Some (r, l)" and "slot_key l i = Some k"
    and "hget (fo_arbiter s) k = Some (Reserved r)"
  shows "arb_winner (fo_arbiter (fanout_run L (fanout_step L s (FWritten c i)) evs)) k = Some r \<and>
     (slot_key l' i' = Some k \<longrightarrow>
        \<not> snd (leg_answer L (fo_arbiter (fanout_run L (fanout_step L s (FWritten c i)) evs)) r' l' i' h'))"
proof -
  let ?s1 = "fanout_step L s (FWritten c i)"
  have "arb_winner (fo_arbiter ?s1) k = Some r"
    using assms by (simp add: with_leg_arbiter confirm_write_def arb_confirm_def arb_winner_def hget_hput)
  moreover obtain ops where ops: "fo_arbiter (fanout_run L ?s1 evs) = foldl arb_step (fo_arbiter ?s1) ops"
    using fanout_run_arbiter by blast
  ultimately have w: "arb_winner (fo_arbiter (fanout_run L ?s1 evs)) k = Some r"
    by (simp only: ops arb.winner_permanent)
  then have "arb_status (fo_arbiter (fanout_run L ?s1 evs)) k \<noteq> Free"
    by (simp only: arb.winner_status) simp
  from w leg_answer_slot(2) [OF _ arb.taken_loses [OF this]] show ?thesis by blast
qed

text \<open>A refused write costs nobody the approval: an answer that won and whose write is then
  reported refused leaves the table of slots exactly as it was before the answer.\<close>
theorem refused_write_gives_the_slot_back:
  assumes "hget (fo_legs s) c = Some (r, l)" and "snd (leg_answer L (fo_arbiter s) r l i h)"
  shows "fo_arbiter (fanout_step L (fanout_step L s (FAnswer c i h)) (FRefused c i)) = fo_arbiter s"
proof -
  obtain a1 l1 where won: "leg_answer L (fo_arbiter s) r l i h = ((a1, l1), True)"
    using assms(2) by (metis prod.collapse)
  show ?thesis
  proof (cases "slot_key l i")
    case None
    with won have "a1 = fo_arbiter s" "l1 = l"
      by (cases r; simp add: leg_answer_def arbitrate_tui_def authorize_def take_slot_def split: if_splits)+
    with None assms(1) won show ?thesis
      by (simp add: with_leg_def release_write_def hget_hput)
  next
    case (Some k)
    from leg_answer_slot(1) [OF Some won] have con: "arb_consume (fo_arbiter s) k r = (a1, Won)"
      and same: "view l1 = view l" "poisoned l1 = poisoned l" by simp_all
    have "slot_key l1 i = slot_key l i" by (simp add: slot_key_def same)
    with Some have "slot_key l1 i = Some k" by simp
    with assms(1) won arb_release_consume [OF con] show ?thesis
      by (simp add: with_leg_def release_write_def hget_hput)
  qed
qed

section \<open>What the phone is shown and may answer\<close>

text \<open>When a phone's answer is authorized, exactly: the leg can still name one request under the
  id, the keyboard is on its thread, nobody holds the slot and the table has room; then the slot is
  reserved for the phone. In every other case nothing changes.\<close>
lemma authorize_eq:
  "authorize L a l i hd_thread =
     (case slot_key l i of
        Some k \<Rightarrow>
          if hd_thread = Some (key_thread k) \<and> hget a k = None \<and> length a < 65536
          then ((hput k (Reserved Ccd) a,
                 l\<lparr>leg_log := leg_log l @ [''capability won: winner=Ccd thread=''
                   @ debug_str (uni_verbatim L) (key_thread k) @ '' id='' @ debug_id L i
                   @ '' gen='' @ dec (unat (key_generation k))]\<rparr>), True)
          else ((a, l), False)
      | None \<Rightarrow> ((a, l), False))"
  by (cases hd_thread)
    (auto simp: authorize_def take_slot_def arb_consume_def MAX_WINNERS_def log_line_def debug_role_def
      split: option.split)

lemma leg_bound_threadI:
  "\<not> poisoned l \<Longrightarrow> hget (view l) i = Some (Bound e) \<Longrightarrow> leg_bound_thread l i = Some (le_thread e)"
  by (simp add: leg_bound_thread_def)

lemma phone_observe:
  assumes "\<not> poisoned l" "parse_no_dup_value L f = Some v" "occupies L f = Some i"
    "Option.bind (jget ''method'' v) as_str = Some m" "\<not> starts_with CODECONNECT_NAMESPACE m"
  shows "leg_observe_frame L l Ccd g f =
     (let l1 = register L l i (frame_occupancy L Ccd g f) m in
      case hget (view l1) i of
        Some (Bound e) \<Rightarrow> (l1, Deliver)
      | _ \<Rightarrow> (log_line l1
           (''capability withheld from the phone (the keyboard answers it): id=''
              @ debug_id L i @ '' method='' @ debug_str (uni_verbatim L) m), Withhold))"
  using assms by (simp add: leg_observe_frame_def Let_def frame_occupancy_def occupies_def)

text \<open>The phone is shown a server request only if it may answer it, and every request it may
  answer: a delivered one is the first under its id, an approval on the head, and authorizes as long
  as the slot is free; after a withheld one, or a frame that closes the leg, the id answers
  nothing.\<close>
theorem phone_is_shown_what_it_may_answer:
  assumes "occupies L frame = Some i" and "leg_observe_frame L l Ccd g frame = (l', d)"
  shows "case d of
     Deliver \<Rightarrow> hget (view l) i = None \<and> (\<exists>t. bound_thread g = Some t \<and>
        frame_occupancy L Ccd g frame = Bind t \<and> leg_bound_thread l' i = Some t \<and>
        (\<forall>a. (\<forall>k. slot_key l' i = Some k \<longrightarrow> hget a k = None) \<and> length a < 65536 \<longrightarrow>
           snd (authorize L a l' i (Some t))))
   | Withhold \<Rightarrow> leg_bound_thread l' i = None \<and> (\<forall>a h. \<not> snd (authorize L a l' i h))
   | CloseLeg why \<Rightarrow> poisoned l' \<and> (\<forall>a h. \<not> snd (authorize L a l' i h))"
proof -
  obtain v m where v: "parse_no_dup_value L frame = Some v"
    and m: "Option.bind (jget ''method'' v) as_str = Some m"
    using assms(1) by (auto simp: occupies_def bind_eq_Some_conv split: if_splits)
  have none: "\<not> snd (authorize L a l' i h)" if "slot_key l' i = None" for a h
    using that by (simp add: authorize_eq)
  have pois: "slot_key l' i = None" if "poisoned l'" using that by (simp add: slot_key_def)
  show ?thesis
  proof (cases "poisoned l \<or> starts_with CODECONNECT_NAMESPACE m")
    case True
    with assms(2) v m have "\<exists>why. d = CloseLeg why" "poisoned l'"
      by (auto simp: leg_observe_frame_def Let_def split: if_splits)
    with none pois show ?thesis by auto
  next
    case False
    let ?l1 = "register L l i (frame_occupancy L Ccd g frame) m"
    have np: "\<not> poisoned ?l1" using False by simp
    note obs = phone_observe [OF _ v assms(1) m, of l g]
    show ?thesis
    proof (cases "\<exists>e. hget (view ?l1) i = Some (Bound e)")
      case True
      then obtain e where e: "hget (view ?l1) i = Some (Bound e)" by blast
      with obs False assms(2) have d: "d = Deliver" "l' = ?l1" by (simp_all add: Let_def)
      from e have first: "hget (view l) i = None" "frame_occupancy L Ccd g frame = Bind (le_thread e)"
        by (auto simp: register_view dest!: view_put_Bound)
      have b: "leg_bound_thread l' i = Some (le_thread e)" using d e np by (simp add: leg_bound_threadI)
      then obtain k where k: "slot_key l' i = Some k" "key_thread k = le_thread e"
        using slot_key_bound [of l' i] by auto
      have "snd (authorize L a l' i (Some (le_thread e)))"
        if "hget a k = None" "length a < 65536" for a
        using that k by (simp add: authorize_eq)
      with first b d k frame_occupancy_Bind [OF first(2)] show ?thesis by auto
    next
      case no: False
      then have "d = Withhold" "view l' = view ?l1" "poisoned l' = poisoned ?l1"
        using obs False assms(2)
        by (auto simp: Let_def split: option.splits id_state.splits)
      moreover from this no have "slot_key l' i = None" "leg_bound_thread l' i = None"
        by (auto simp: slot_key_def leg_bound_thread_def split: option.split id_state.split)
      ultimately show ?thesis using none by simp
    qed
  qed
qed

end
