(* ===== verification/Broker_Fanout_Bounds.thy ===== *)
theory Broker_Fanout_Bounds
  imports Broker_Fanout
begin

text \<open>
  What holds in every state the legs reach: an approval is answered once, but for the keyboard's answers on a leg that can
  name no request under the id; and what the registry stores and logs: the table of slots and every leg's view are bounded in every
  reachable state; the lines a phone's leg logs are not. The properties of \<open>Broker_Leg\<close> and
  \<open>Broker_Fanout\<close> are applied here to concrete runs.
\<close>

section \<open>Stored state\<close>

inductive fanout_reach :: "ext \<Rightarrow> fanout \<Rightarrow> bool" for L where
  start: "fanout_reach L \<lparr>fo_arbiter = [], fo_legs = []\<rparr>"
| step: "fanout_reach L s \<Longrightarrow> fanout_reach L (fanout_step L s ev)"

definition wf_leg :: "leg \<Rightarrow> bool" where
  "wf_leg l \<longleftrightarrow> length (view l) \<le> MAX_TRACKED_IDS \<and>
     list_all (\<lambda>(i, st). case st of Bound e \<Rightarrow> length (le_thread e) \<le> MAX_APPROVAL_THREAD_BYTES
       | Tombstoned \<Rightarrow> True) (view l)"

definition wf_fanout :: "fanout \<Rightarrow> bool" where
  "wf_fanout s \<longleftrightarrow> length (fo_arbiter s) \<le> MAX_WINNERS \<and> list_all (\<lambda>(c, r, l). wf_leg l) (fo_legs s)"

lemma wf_leg_cong: "view l' = view l \<Longrightarrow> wf_leg l' = wf_leg l"
  by (simp add: wf_leg_def)

lemma classify_occupancy_length:
  "classify_occupancy v m = Bind t \<Longrightarrow> length t \<le> MAX_APPROVAL_THREAD_BYTES"
  by (auto simp: classify_occupancy_def Let_def split: option.splits if_splits)

lemma gate_occupancy_Bind: "gate_occupancy r b occ = Bind t \<Longrightarrow> occ = Bind t"
  by (auto simp: gate_occupancy_def split: occupancy.splits if_splits)

lemma wf_leg_register [broker_inv]:
  assumes "wf_leg l" "\<And>t. occ = Bind t \<Longrightarrow> length t \<le> MAX_APPROVAL_THREAD_BYTES"
  shows "wf_leg (register L l i occ m)"
proof -
  have "length (view_put (view l) i occ) \<le> MAX_TRACKED_IDS"
    using assms(1) length_view_put(2) by (simp add: wf_leg_def)
  moreover have "list_all (\<lambda>(i, st). case st of Bound e \<Rightarrow> length (le_thread e) \<le> MAX_APPROVAL_THREAD_BYTES
       | Tombstoned \<Rightarrow> True) (view_put (view l) i occ)"
    using assms by (auto simp: wf_leg_def view_put_def id_state_of_def list_all_hput split: occupancy.split)
  ultimately show ?thesis by (simp add: wf_leg_def register_view)
qed

lemma wf_leg_frame [broker_inv]: "wf_leg l \<Longrightarrow> wf_leg (fst (leg_observe_frame L l r g f))"
proof -
  assume wf: "wf_leg l"
  have reg: "wf_leg (register L l i (gate_occupancy r' (bound_thread g) (classify_occupancy v m)) m)" for r' i v m
    using wf by (intro wf_leg_register) (auto dest!: gate_occupancy_Bind classify_occupancy_length)
  have "wf_leg (poison L l w)" "wf_leg (log_line l' w) = wf_leg l'" for w l'
    using wf by (simp_all add: wf_leg_cong [of "poison L l w" l] wf_leg_cong [of "log_line l' w" l'])
  with wf reg show ?thesis
    by (simp add: leg_observe_frame_def Let_def split: option.split id_state.split)
qed

lemma take_slot_view: "view (snd (fst (take_slot L a l r i h))) = view l"
  by (simp add: take_slot_def split: option.split prod.split consume.split)

lemma leg_answer_view: "view (snd (fst (leg_answer L a r l i h))) = view l"
  using take_slot_view [of L a l] by (simp add: leg_answer_def arbitrate_tui_def authorize_def case_prod_beta)

lemma confirm_write_view: "view (snd (confirm_write L a l r i)) = view l"
  by (simp add: confirm_write_def split: option.split)

lemma release_write_view: "view (snd (release_write L a l r i)) = view l"
  by (simp add: release_write_def split: option.split)

lemma wf_with_leg:
  assumes "wf_fanout s" "\<And>r l. wf_leg l \<Longrightarrow> wf_leg (snd (h r l))"
    "\<And>r l. length (fst (h r l)) \<le> MAX_WINNERS"
  shows "wf_fanout (with_leg s c h)"
proof (cases "hget (fo_legs s) c")
  case None
  with assms(1) show ?thesis by (simp add: with_leg_def)
next
  case (Some rl)
  then have "wf_leg (snd rl)"
    using assms(1) hget_in_set [OF Some] by (auto simp: wf_fanout_def list_all_iff)
  with Some assms(2) [of "snd rl" "fst rl"] assms(1) assms(3) [of "fst rl" "snd rl"] show ?thesis
    by (simp add: with_leg_def case_prod_beta wf_fanout_def list_all_hput)
qed

lemma length_ops:
  "length a \<le> MAX_WINNERS \<Longrightarrow> \<exists>ops. b = foldl arb_step a ops \<and> Q ops \<Longrightarrow> length b \<le> MAX_WINNERS"
  using length_arb_run by blast

lemma wf_fanout_step [broker_inv]: "wf_fanout s \<Longrightarrow> wf_fanout (fanout_step L s ev)"
proof (cases ev)
  case (FOpen c r)
  assume "wf_fanout s"
  with FOpen show ?thesis by (simp add: wf_fanout_def list_all_hput wf_leg_def new_leg_def)
next
  case (FClose c)
  assume "wf_fanout s"
  with FClose show ?thesis by (simp add: wf_fanout_def list_all_hdel)
next
  case (FFrame c g f)
  assume wf: "wf_fanout s"
  then have "length (fo_arbiter s) \<le> MAX_WINNERS" by (simp add: wf_fanout_def)
  with FFrame wf show ?thesis by (auto intro!: wf_with_leg wf_leg_frame)
next
  case (FAnswer c i h)
  assume wf: "wf_fanout s"
  then have "length (fst (fst (leg_answer L (fo_arbiter s) r l i h))) \<le> MAX_WINNERS" for r l
    by (intro length_ops [OF _ leg_answer_arbiter]) (simp add: wf_fanout_def)
  with FAnswer wf show ?thesis
    by (auto intro!: wf_with_leg simp: wf_leg_cong [OF leg_answer_view])
next
  case (FWritten c i)
  assume wf: "wf_fanout s"
  then have "length (fst (confirm_write L (fo_arbiter s) l r i)) \<le> MAX_WINNERS" for r l
    by (intro length_ops [OF _ confirm_write_arbiter]) (simp add: wf_fanout_def)
  with FWritten wf show ?thesis
    by (auto intro!: wf_with_leg simp: wf_leg_cong [OF confirm_write_view])
next
  case (FRefused c i)
  assume wf: "wf_fanout s"
  then have "length (fst (release_write L (fo_arbiter s) l r i)) \<le> MAX_WINNERS" for r l
    by (intro length_ops [OF _ release_write_arbiter]) (simp add: wf_fanout_def)
  with FRefused wf show ?thesis
    by (auto intro!: wf_with_leg simp: wf_leg_cong [OF release_write_view])
qed

text \<open>The capability registry's memory is bounded: in every state any interleaving reaches, the
  shared table has at most 65536 slots, and each open leg tracks at most 4096 ids and stores no
  thread id over 256 bytes.\<close>
theorem registry_memory_is_bounded:
  assumes "fanout_reach L s"
  shows "length (fo_arbiter s) \<le> 65536 \<and>
     (\<forall>(c, r, l) \<in> set (fo_legs s). length (view l) \<le> 4096 \<and>
        (\<forall>(i, st) \<in> set (view l). case st of Bound e \<Rightarrow> length (le_thread e) \<le> 256 | Tombstoned \<Rightarrow> True))"
proof -
  from assms have "wf_fanout s"
    by (induction rule: fanout_reach.induct) (simp_all add: wf_fanout_step, simp add: wf_fanout_def)
  then show ?thesis
    by (auto simp: wf_fanout_def wf_leg_def list_all_iff MAX_WINNERS_def MAX_TRACKED_IDS_def
        MAX_APPROVAL_THREAD_BYTES_def)
qed

section \<open>One approval, one answer\<close>

text \<open>The generation of an entry is never anything but unstamped, so a leg that names a request under
  an id on a thread names the slot every other leg names it by.\<close>

definition unstamped :: "leg \<Rightarrow> bool" where
  "unstamped l \<longleftrightarrow> (\<forall>i e. hget (view l) i = Some (Bound e) \<longrightarrow> le_generation e = GENERATION_UNSTAMPED)"

lemma unstamped_cong: "view l' = view l \<Longrightarrow> unstamped l \<Longrightarrow> unstamped l'"
  by (simp add: unstamped_def)

lemma unstamped_put: "unstamped l \<Longrightarrow> view l' = view_put (view l) i occ \<Longrightarrow> unstamped l'"
  by (auto simp: unstamped_def dest!: view_put_Bound)

lemma unstamped_frame: "unstamped l \<Longrightarrow> unstamped (fst (leg_observe_frame L l r g f))"
proof -
  assume u: "unstamped l"
  have reg: "unstamped (register L l i occ m)" for i occ m
    by (rule unstamped_put [OF u register_view])
  have "unstamped (poison L l w)" for w by (rule unstamped_cong [OF _ u]) simp
  moreover have "unstamped (log_line (register L l i occ m) w)" for i occ m w
    by (rule unstamped_cong [OF _ reg]) simp
  ultimately show ?thesis
    using u reg by (simp add: leg_observe_frame_def Let_def split: option.split id_state.split)
qed

lemma unstamped_with_leg:
  assumes "list_all (\<lambda>(c, r, l). unstamped l) (fo_legs s)" "\<And>r l. unstamped l \<Longrightarrow> unstamped (snd (h r l))"
  shows "list_all (\<lambda>(c, r, l). unstamped l) (fo_legs (with_leg s c h))"
proof (cases "hget (fo_legs s) c")
  case (Some rl)
  then have "unstamped (snd rl)"
    using assms(1) hget_in_set [OF Some] by (auto simp: list_all_iff)
  with Some assms(1) assms(2) [of "snd rl" "fst rl"] show ?thesis
    by (simp add: with_leg_def case_prod_beta list_all_hput)
qed (simp add: with_leg_def assms(1))

lemma unstamped_new: "unstamped new_leg"
  by (simp add: unstamped_def new_leg_def)

lemma unstamped_step:
  "list_all (\<lambda>(c, r, l). unstamped l) (fo_legs s) \<Longrightarrow>
     list_all (\<lambda>(c, r, l). unstamped l) (fo_legs (fanout_step L s ev))"
  by (cases ev)
    (auto simp: list_all_hput list_all_hdel unstamped_new
      intro!: unstamped_with_leg unstamped_frame
      intro: unstamped_cong [OF leg_answer_view] unstamped_cong [OF confirm_write_view]
        unstamped_cong [OF release_write_view])

lemma fanout_unstamped:
  assumes "fanout_reach L s" "hget (fo_legs s) c = Some (r, l)"
  shows "unstamped l"
proof -
  from assms(1) have "list_all (\<lambda>(c, r, l). unstamped l) (fo_legs s)"
    by (induction rule: fanout_reach.induct) (simp_all add: unstamped_step)
  with hget_in_set [OF assms(2)] show ?thesis by (auto simp: list_all_iff)
qed

lemma unstamped_slot:
  assumes "unstamped l" "leg_bound_thread l i = Some t"
  shows "slot_key l i = Some \<lparr>key_thread = t, key_request = i, key_generation = GENERATION_UNSTAMPED\<rparr>"
  using assms
  by (auto simp: unstamped_def leg_bound_thread_def slot_key_def
      split: if_splits option.splits id_state.splits)

lemma fanout_reach_run: "fanout_reach L s \<Longrightarrow> fanout_reach L (fanout_run L s evs)"
  by (induction evs arbitrary: s) (simp_all add: fanout_reach.step)

lemma recorded_winner_slot: "slot_key l i = Some k \<Longrightarrow> recorded_winner a l i = arb_winner a k"
  by (auto simp: recorded_winner_def slot_key_def split: option.splits id_state.splits if_splits)

lemma answer_without_slot:
  "snd (leg_answer L a r l i h) \<Longrightarrow> leg_bound_thread l i = None \<Longrightarrow> r = Tui"
  using slot_key_bound [of l i] by (cases r) (auto simp: leg_answer_def authorize_eq)

text \<open>An answer that took a slot keeps it from every later one, but for a refused write.\<close>

lemma slot_stays_taken:
  assumes "hget (fo_legs s) c = Some (r, l)" "slot_key l i = Some k"
    "snd (leg_answer L (fo_arbiter s) r l i h)" "\<forall>c'. FRefused c' i \<notin> set evs"
    "s' = fanout_run L (fanout_step L s (FAnswer c i h)) evs"
  shows "(\<forall>r'. arb_consume (fo_arbiter s') k r' = (fo_arbiter s', Lost)) \<and>
     arb_winner (fo_arbiter s') k \<in> {None, Some r}"
proof -
  let ?s1 = "fanout_step L s (FAnswer c i h)"
  obtain a1 l1 where won: "leg_answer L (fo_arbiter s) r l i h = ((a1, l1), True)"
    using assms(3) by (metis prod.collapse)
  with assms(1) have a1: "fo_arbiter ?s1 = a1" by (simp add: with_leg_arbiter)
  have con: "arb_consume (fo_arbiter s) k r = (a1, Won)"
    using leg_answer_slot(1) [OF assms(2) won] by simp
  obtain ops where ops: "fo_arbiter s' = foldl arb_step a1 ops"
    "\<forall>k r. SRelease k r \<in> set ops \<longrightarrow> (\<exists>c. FRefused c (key_request k) \<in> set evs)"
    using fanout_run_arbiter [of L ?s1 evs] a1 unfolding assms(5) by metis
  have "SRelease k r \<notin> set ops" using ops(2) slot_key_request [OF assms(2)] assms(4) by blast
  from arb.one_winner [OF con this, folded ops(1)] show ?thesis by blast
qed

text \<open>C4. One approval, one answer. When in any state the legs of a broker reach an answer under an id
  takes the slot of the approval its leg names, the keyboard's or a phone's, then through any
  interleaving of connections, frames, answers and receipts on all legs in which no write under
  that id is reported refused: an answer under the id that is forwarded by a leg that can still name a
  request under it answers a request of another thread; a leg that can name none forwards the
  keyboard's answer only, never a phone's (a poisoned leg, or one on which the id is ambiguous or
  was never seen: the keyboard is passed through there, and this second answer to the approval is the
  one exception); and where a leg names the approval, no one but the role that won it is ever named
  as having answered.\<close>
theorem one_answer_per_approval:
  assumes "fanout_reach L s" and "hget (fo_legs s) c = Some (r, l)" and "slot_key l i = Some k"
    and "snd (leg_answer L (fo_arbiter s) r l i h)"
    and "\<forall>c'. FRefused c' i \<notin> set evs"
    and "s' = fanout_run L (fanout_step L s (FAnswer c i h)) evs"
    and "hget (fo_legs s') c' = Some (r', l')"
  shows "(snd (leg_answer L (fo_arbiter s') r' l' i h') \<longrightarrow>
       (case leg_bound_thread l' i of Some t \<Rightarrow> t \<noteq> key_thread k | None \<Rightarrow> r' = Tui)) \<and>
     (leg_bound_thread l' i = Some (key_thread k) \<longrightarrow>
       recorded_winner (fo_arbiter s') l' i \<in> {None, Some r})"
proof -
  note taken = slot_stays_taken [OF assms(2-6)]
  have "fanout_reach L s'" unfolding assms(6) by (intro fanout_reach_run fanout_reach.step assms(1))
  then have u': "unstamped l'" using assms(7) by (rule fanout_unstamped)
  have k: "k = \<lparr>key_thread = key_thread k, key_request = i, key_generation = GENERATION_UNSTAMPED\<rparr>"
    using unstamped_slot [OF fanout_unstamped [OF assms(1,2)], of i "key_thread k"]
      slot_key_bound [of l i] assms(3) by simp
  show ?thesis
  proof (cases "leg_bound_thread l' i = Some (key_thread k)")
    case True
    then have "slot_key l' i = Some k" using unstamped_slot [OF u'] k by simp
    with taken show ?thesis
      using leg_answer_slot(2) [of l' i k "fo_arbiter s'" r' L h'] recorded_winner_slot True by auto
  next
    case False
    then show ?thesis
      using answer_without_slot [of L "fo_arbiter s'" r' l' i h'] by (auto split: option.split)
  qed
qed

section \<open>Logged lines\<close>

lemma withheld_again:
  assumes "\<not> poisoned l" "hget (view l) i \<noteq> None" "parse_no_dup_value L f = Some v" "occupies L f = Some i"
    "\<forall>m. Option.bind (jget ''method'' v) as_str = Some m \<longrightarrow> \<not> starts_with CODECONNECT_NAMESPACE m"
  shows "\<not> poisoned (fst (leg_observe_frame L l Ccd g f)) \<and>
     hget (view (fst (leg_observe_frame L l Ccd g f))) i \<noteq> None \<and>
     length (leg_log l) < length (leg_log (fst (leg_observe_frame L l Ccd g f)))"
proof -
  obtain m where m: "Option.bind (jget ''method'' v) as_str = Some m"
    using assms(3,4) by (auto simp: occupies_def split: if_splits)
  have grow: "length (leg_log (log_ambiguous L l' s j n)) \<ge> length (leg_log l')" for l' s j n
    by (simp add: log_ambiguous_def Let_def)
  let ?l1 = "register L l i (frame_occupancy L Ccd g f) m"
  have "view ?l1 = hput i Tombstoned (view l)" using assms(2) by (simp add: register_view view_put_def)
  moreover have "length (leg_log l) \<le> length (leg_log ?l1)"
    using assms(2) grow [of "l\<lparr>view := hput i Tombstoned (view l)\<rparr>"] by (simp add: register_def)
  ultimately show ?thesis
    using assms m by (simp add: phone_observe hget_hput)
qed

text \<open>The log of a phone's leg grows without bound. The header says that ambiguity lines are
  rate-limited, so that a flood of colliding ids cannot log without bound; the line that says a
  request was withheld from the phone is not under that budget: a server request repeated under
  one id logs a line every time.\<close>
theorem colliding_ids_log_without_bound:
  assumes "occupies L frame = Some i" and "parse_no_dup_value L frame = Some v"
    and "\<forall>m. Option.bind (jget ''method'' v) as_str = Some m \<longrightarrow> \<not> starts_with CODECONNECT_NAMESPACE m"
  shows "n \<le> length (leg_log (leg_run L Ccd new_leg (replicate (Suc n) (g, frame))))"
proof -
  have first: "\<not> poisoned (fst (leg_observe_frame L new_leg Ccd g frame)) \<and>
      hget (view (fst (leg_observe_frame L new_leg Ccd g frame))) i \<noteq> None"
  proof -
    obtain m where m: "Option.bind (jget ''method'' v) as_str = Some m"
      using assms(1,2) by (auto simp: occupies_def split: if_splits)
    have "hget (view (register L new_leg i occ m)) i \<noteq> None" for occ
      by (simp add: register_view view_put_def new_leg_def MAX_TRACKED_IDS_def hget_hput)
    with assms m show ?thesis
      by (auto simp: phone_observe Let_def new_leg_def split: option.split id_state.split)
  qed
  have "\<not> poisoned l \<Longrightarrow> hget (view l) i \<noteq> None \<Longrightarrow>
      n + length (leg_log l) \<le> length (leg_log (leg_run L Ccd l (replicate n (g, frame))))" for l
  proof (induction n arbitrary: l)
    case (Suc n)
    from withheld_again [OF Suc.prems assms(2,1,3), of g]
    show ?case using Suc.IH [of "fst (leg_observe_frame L l Ccd g frame)"] by fastforce
  qed simp
  from this [of "fst (leg_observe_frame L new_leg Ccd g frame)"] first show ?thesis by simp
qed

section \<open>The properties at concrete runs\<close>

text \<open>Every frame is one command approval on \<open>t1\<close>, under id 0; the keyboard is on \<open>t1\<close>. A keyboard's
  leg and a phone's are each sent it once.\<close>

definition approval :: json where
  "approval = JObj [(''method'', JStr COMMAND_EXEC_APPROVAL), (''id'', JInt 0),
     (''params'', JObj [(''threadId'', JStr ''t1'')])]"

definition approval_frames :: ext where
  "approval_frames = \<lparr>json_read = (\<lambda>s. (approval, True)), json_write = (\<lambda>v. []), uni_verbatim = (\<lambda>n. True)\<rparr>"

definition on_t1 :: binding where
  "on_t1 = new_binding\<lparr>head := On \<lparr>thread = ''t1'', left = False\<rparr>\<rparr>"

definition approval_leg :: leg where
  "approval_leg = new_leg\<lparr>view := [(RInt 0, Bound \<lparr>le_thread = ''t1'', le_generation = GENERATION_UNSTAMPED\<rparr>)]\<rparr>"

definition approval_key :: upstream_request_key where
  "approval_key = \<lparr>key_thread = ''t1'', key_request = RInt 0, key_generation = GENERATION_UNSTAMPED\<rparr>"

definition two_legs :: fanout where
  "two_legs = \<lparr>fo_arbiter = [], fo_legs = [(1, Tui, approval_leg), (2, Ccd, approval_leg)]\<rparr>"

lemma approval_parses: "parse_no_dup_value approval_frames s = Some approval"
  by (simp add: parse_no_dup_value_iff approval_frames_def approval_def)

lemma approval_occupies: "occupies approval_frames s = Some (RInt 0)"
  by (simp add: occupies_def approval_parses) (simp add: approval_def id_from_value_int)

lemma approval_method: "Option.bind (jget ''method'' approval) as_str = Some COMMAND_EXEC_APPROVAL"
  by (simp add: approval_def)

lemma approval_not_ours: "\<not> starts_with CODECONNECT_NAMESPACE COMMAND_EXEC_APPROVAL"
  by (simp add: CODECONNECT_NAMESPACE_def COMMAND_EXEC_APPROVAL_def)

lemma approval_occupancy: "frame_occupancy approval_frames r on_t1 s = Bind ''t1''"
  by (simp add: frame_occupancy_def approval_parses approval_method)
    (simp add: approval_def classify_occupancy_def Let_def MAX_APPROVAL_THREAD_BYTES_def
      gate_occupancy_def on_t1_def bound_thread_def)

lemma approval_observed: "leg_observe_frame approval_frames new_leg Ccd on_t1 s = (approval_leg, Deliver)"
  by (subst phone_observe [OF _ approval_parses approval_occupies approval_method approval_not_ours])
    (simp_all add: new_leg_def register_def approval_occupancy MAX_TRACKED_IDS_def approval_leg_def Let_def)

lemma approval_slot: "slot_key approval_leg (RInt 0) = Some approval_key"
  by (simp add: approval_leg_def slot_key_def approval_key_def new_leg_def)

lemma approval_wins: "snd (leg_answer approval_frames [] r approval_leg (RInt 0) (Some ''t1''))"
  by (cases r)
    (simp_all add: leg_answer_def arbitrate_tui_def authorize_def take_slot_def approval_slot
      arb_consume_def MAX_WINNERS_def approval_key_def)

lemma phone_is_shown_witness:
  "leg_bound_thread (fst (leg_observe_frame approval_frames new_leg Ccd on_t1 ''frame'')) (RInt 0) = Some ''t1''"
  using phone_is_shown_what_it_may_answer [OF approval_occupies approval_observed, of "''frame''"]
  by (auto simp: approval_observed approval_occupancy)

lemma reused_id_witness:
  "snd (authorize approval_frames [] approval_leg (RInt 0) (Some ''t1'')) \<and>
   \<not> snd (authorize approval_frames []
     (leg_run approval_frames Ccd (fst (leg_observe_frame approval_frames approval_leg Ccd on_t1 ''again'')) [])
     (RInt 0) (Some ''t1''))"
proof -
  have "hget (view approval_leg) (RInt 0) \<noteq> None" by (simp add: approval_leg_def)
  from reused_id_is_never_authorized
    [OF this approval_occupies, of "[]" Ccd on_t1 "''again''" "[]" "Some ''t1''"]
  have "\<not> snd (authorize approval_frames []
     (leg_run approval_frames Ccd (fst (leg_observe_frame approval_frames approval_leg Ccd on_t1 ''again'')) [])
     (RInt 0) (Some ''t1''))" by (simp only: snd_conv not_False_eq_True)
  with approval_wins [of Ccd] show ?thesis by (simp add: leg_answer_def)
qed

lemma authorized_answer_witness:
  "\<exists>pre g f post. [(on_t1, ''frame'')] = pre @ (g, f) # post \<and> bound_thread g = Some ''t1''"
proof -
  have "snd (authorize approval_frames [] (leg_run approval_frames Ccd new_leg [(on_t1, ''frame'')])
      (RInt 0) (Some ''t1''))"
    using approval_wins [of Ccd] by (simp add: approval_observed leg_answer_def)
  from authorized_answer_names_one_request [OF this] show ?thesis by blast
qed

lemma two_legs_reached: "fanout_reach approval_frames two_legs"
proof -
  have tui: "leg_observe_frame approval_frames new_leg Tui on_t1 s = (approval_leg, Deliver)" for s
  proof -
    have "gate_occupancy Tui (bound_thread on_t1) (classify_occupancy approval COMMAND_EXEC_APPROVAL) = Bind ''t1''"
      using approval_occupancy [of Tui s]
      by (simp add: frame_occupancy_def approval_parses approval_method)
    moreover have "Option.bind (jget ''id'' approval) id_from_value = Some (RInt 0)"
      using approval_occupies [of s] by (simp add: occupies_def approval_parses approval_method)
    ultimately show ?thesis
      by (simp add: leg_observe_frame_def Let_def approval_parses approval_method new_leg_def register_def
          MAX_TRACKED_IDS_def approval_leg_def)
  qed
  have "fanout_run approval_frames \<lparr>fo_arbiter = [], fo_legs = []\<rparr>
      [FOpen 1 Tui, FOpen 2 Ccd, FFrame 1 on_t1 ''frame'', FFrame 2 on_t1 ''frame''] = two_legs"
    by (simp add: with_leg_def tui approval_observed two_legs_def)
  then show ?thesis using fanout_reach_run [OF fanout_reach.start] by metis
qed

lemma one_answer_witness:
  "fanout_reach approval_frames two_legs \<and>
   \<not> snd (leg_answer approval_frames
     (fo_arbiter (fanout_run approval_frames (fanout_step approval_frames two_legs (FAnswer 2 (RInt 0) (Some ''t1'')))
        [FWritten 2 (RInt 0)])) Tui approval_leg (RInt 0) None)"
proof -
  have "hget (fo_legs two_legs) 2 = Some (Ccd, approval_leg)" by (simp add: two_legs_def)
  moreover have "snd (leg_answer approval_frames (fo_arbiter two_legs) Ccd approval_leg (RInt 0) (Some ''t1''))"
    by (simp add: two_legs_def approval_wins)
  moreover have "\<forall>c'. FRefused c' (RInt 0) \<notin> set [FWritten 2 (RInt 0)]" by simp
  moreover have keep: "hget (fo_legs (with_leg s 2 h)) 1 = hget (fo_legs s) 1" for s h
    by (simp add: with_leg_def hget_hput split: option.split prod.split)
  have "hget (fo_legs (fanout_run approval_frames
      (fanout_step approval_frames two_legs (FAnswer 2 (RInt 0) (Some ''t1''))) [FWritten 2 (RInt 0)])) 1 =
      Some (Tui, approval_leg)"
    by (simp add: keep) (simp add: two_legs_def)
  moreover have "leg_bound_thread approval_leg (RInt 0) = Some (key_thread approval_key)"
    using slot_key_bound [of approval_leg "RInt 0"] by (simp add: approval_slot)
  ultimately show ?thesis
    using one_answer_per_approval [OF two_legs_reached _ approval_slot _ _ refl] two_legs_reached by fastforce
qed

lemma written_answer_witness:
  defines "s \<equiv> two_legs\<lparr>fo_arbiter := [(approval_key, Reserved Ccd)]\<rparr>"
  shows "arb_winner (fo_arbiter (fanout_run approval_frames (fanout_step approval_frames s (FWritten 2 (RInt 0)))
     [FRefused 2 (RInt 0)])) approval_key = Some Ccd"
proof -
  have "hget (fo_legs s) 2 = Some (Ccd, approval_leg)" "hget (fo_arbiter s) approval_key = Some (Reserved Ccd)"
    by (simp_all add: s_def two_legs_def)
  from written_answer_is_final [OF this(1) approval_slot this(2)] show ?thesis by blast
qed

lemma refused_write_witness:
  "fo_arbiter (fanout_step approval_frames (fanout_step approval_frames two_legs
     (FAnswer 1 (RInt 0) (Some ''t1''))) (FRefused 1 (RInt 0))) = []"
proof -
  have "hget (fo_legs two_legs) 1 = Some (Tui, approval_leg)" by (simp add: two_legs_def)
  moreover have "snd (leg_answer approval_frames (fo_arbiter two_legs) Tui approval_leg (RInt 0) (Some ''t1''))"
    by (simp add: two_legs_def approval_wins)
  ultimately show ?thesis
    using refused_write_gives_the_slot_back by (fastforce simp: two_legs_def)
qed

lemma registry_memory_witness:
  "length (fo_arbiter (fanout_step approval_frames \<lparr>fo_arbiter = [], fo_legs = []\<rparr> (FOpen 1 Tui))) \<le> 65536"
proof -
  have "fanout_reach approval_frames (fanout_step approval_frames \<lparr>fo_arbiter = [], fo_legs = []\<rparr> (FOpen 1 Tui))"
    by (intro fanout_reach.intros)
  from registry_memory_is_bounded [OF this] show ?thesis by blast
qed

lemma colliding_ids_witness:
  "70 \<le> length (leg_log (leg_run approval_frames Ccd new_leg (replicate (Suc 70) (on_t1, ''frame''))))"
proof -
  have "\<forall>m. Option.bind (jget ''method'' approval) as_str = Some m \<longrightarrow> \<not> starts_with CODECONNECT_NAMESPACE m"
    using approval_not_ours by (simp add: approval_method)
  from colliding_ids_log_without_bound [OF approval_occupies approval_parses this] show ?thesis .
qed

end
