(* ===== verification/Broker_Refusal.thy ===== *)
theory Broker_Refusal
  imports Broker_Capability "HOL-Library.List_Lexorder" "HOL-Library.Char_ord"
begin

text \<open>
  \<open>codex-broker/src/refusal.rs\<close>: the fate of one phone message. \<open>classify\<close> and \<open>decide\<close> are
  the entry points; they read the session and the capability registry through the two traits of
  \<open>Env\<close>, which are the records \<open>thread_binding\<close> and \<open>capability_registry\<close> here, each an
  operation table over a state of its own. A \<open>Result<(), String>\<close> is \<open>string + unit\<close>. Key names are
  sorted in byte order, as \<open>sort_unstable\<close> on \<open>&str\<close> sorts them.
\<close>

section \<open>The environment\<close>

record 't thread_binding =
  tb_bound_thread :: "'t \<Rightarrow> string option"
  tb_try_admit_request :: "'t \<Rightarrow> conn_id \<Rightarrow> request_id \<Rightarrow> string \<Rightarrow> 't \<times> id_admission"
  tb_try_admit_idle_turn ::
    "'t \<Rightarrow> conn_id \<Rightarrow> request_id \<Rightarrow> string \<Rightarrow> json option \<Rightarrow> json option \<Rightarrow> 't \<times> turn_admission"
  tb_is_active_turn :: "'t \<Rightarrow> string \<Rightarrow> string \<Rightarrow> bool"
  tb_is_session_thread :: "'t \<Rightarrow> string \<Rightarrow> bool"

record 'c capability_registry =
  cr_authorize :: "'c \<Rightarrow> request_id \<Rightarrow> string option \<Rightarrow> 'c \<times> bool"

text \<open>\<open>impl ThreadBinding for SessionThreads\<close> and \<open>for NoThreads\<close>, which overrides three
  methods and takes the trait's defaults for the rest.\<close>

definition session_threads :: "binding thread_binding" where
  "session_threads =
     \<lparr>tb_bound_thread = bound_thread, tb_try_admit_request = try_admit_request,
      tb_try_admit_idle_turn = try_admit_idle_turn, tb_is_active_turn = is_active_turn,
      tb_is_session_thread = is_session_thread\<rparr>"

definition no_threads :: "unit thread_binding" where
  "no_threads =
     \<lparr>tb_bound_thread = (\<lambda>t. None),
      tb_try_admit_request = (\<lambda>t c i m. (t, Admitted)),
      tb_try_admit_idle_turn =
        (\<lambda>t c i th cwd roots. (t, NotTheHead ''this binding authorizes no turns'')),
      tb_is_active_turn = (\<lambda>t th tu. False),
      tb_is_session_thread = (\<lambda>t th. False)\<rparr>"

text \<open>\<open>impl ResponseCapabilityRegistry for LegCapabilities\<close> and \<open>for NoCapabilities\<close>.\<close>

definition leg_capabilities :: "ext \<Rightarrow> (arbiter \<times> leg) capability_registry" where
  "leg_capabilities L = \<lparr>cr_authorize = (\<lambda>(a, l). authorize L a l)\<rparr>"

definition no_capabilities :: "unit capability_registry" where
  "no_capabilities = \<lparr>cr_authorize = (\<lambda>u i hd_thread. (u, no_capabilities_authorize i hd_thread))\<rparr>"

section \<open>Actions and refusals\<close>

definition E_POLICY_REFUSED :: int where "E_POLICY_REFUSED = - 32001"

datatype relay_action =
    Forward string
  | SyntheticError string string
  | DropLogKeepOpen string
  | DropCloseLeg string

definition refuse_request :: "ext \<Rightarrow> request_id option \<Rightarrow> int \<Rightarrow> string \<Rightarrow> string \<Rightarrow> relay_action" where
  "refuse_request L i code message note = (case i of
     Some i' \<Rightarrow>
       SyntheticError
         (json_write L (JObj [(''error'', JObj [(''code'', JInt code), (''message'', JStr message)]),
            (''id'', id_to_value i')])) note
   | None \<Rightarrow> DropLogKeepOpen (note @ '' (no usable id; zero bytes)''))"

definition refuse_message :: "refuse_reason \<Rightarrow> int \<times> string" where
  "refuse_message reason = (case reason of
     CodeExecBypass \<Rightarrow> (E_POLICY_REFUSED, ''method refused: code-execution is not permitted'')
   | OwnershipAdjacent \<Rightarrow> (E_POLICY_REFUSED, ''method refused: it would change session ownership'')
   | NotAllowlisted \<Rightarrow> (E_POLICY_REFUSED, ''method refused: not permitted for this connection'')
   | RoleNotPermitted \<Rightarrow>
       (E_POLICY_REFUSED, ''method refused: not permitted for this endpoint role'')
   | MalformedReason \<Rightarrow> (E_POLICY_REFUSED, ''message refused''))"

definition classify_notification :: "string \<Rightarrow> relay_action" where
  "classify_notification method = (case disposition_of KNotification method of
     DForward \<Rightarrow> Forward ''notification allowlisted''
   | other \<Rightarrow>
       DropLogKeepOpen (''notification '' @ redact_method method @ '' refused (''
         @ debug_disposition other @ '')''))"

text \<open>An \<open>Admitted\<close> verdict is never rendered: the source panics on it.\<close>

definition ledger_refusal :: "string \<Rightarrow> id_admission \<Rightarrow> relay_action" where
  "ledger_refusal method verdict =
     (let why = (case verdict of
          Admitted \<Rightarrow> []
        | ReusedInFlight \<Rightarrow>
            ''request id is already outstanding on this connection (reused in flight)''
        | Oversized \<Rightarrow> ''request id exceeds the stored-id byte cap and is never stored''
        | AtCapacity \<Rightarrow> ''this connection's outstanding-request ledger is full'')
      in DropLogKeepOpen (redact_method method @ '': '' @ why
        @ ''; zero bytes, leg kept open, counted for the failure-containment seam''))"

section \<open>Parameters\<close>

definition THREAD_ID_ONLY_PARAMS :: "string list" where
  "THREAD_ID_ONLY_PARAMS = [''threadId'']"

definition PHONE_TURN_PARAMS :: "string list" where
  "PHONE_TURN_PARAMS =
     [''additionalContext'', ''approvalPolicy'', ''approvalsReviewer'', ''clientUserMessageId'',
      ''collaborationMode'', ''cwd'', ''environments'', ''input'', ''multiAgentMode'',
      ''outputSchema'', ''permissions'', ''responsesapiClientMetadata'', ''sandboxPolicy'',
      ''threadId'']"

definition PHONE_TURN_NULL_PARAMS :: "string list" where
  "PHONE_TURN_NULL_PARAMS =
     [''additionalContext'', ''approvalPolicy'', ''approvalsReviewer'', ''clientUserMessageId'',
      ''collaborationMode'', ''cwd'', ''environments'', ''multiAgentMode'', ''outputSchema'',
      ''permissions'', ''responsesapiClientMetadata'', ''sandboxPolicy'']"

definition STEER_PARAMS :: "string list" where
  "STEER_PARAMS =
     [''additionalContext'', ''clientUserMessageId'', ''expectedTurnId'', ''input'',
      ''responsesapiClientMetadata'', ''threadId'']"

definition STEER_NULL_PARAMS :: "string list" where
  "STEER_NULL_PARAMS = [''additionalContext'', ''clientUserMessageId'', ''responsesapiClientMetadata'']"

definition INTERRUPT_PARAMS :: "string list" where
  "INTERRUPT_PARAMS = [''threadId'', ''turnId'']"

definition CURSOR_MEMBERS :: "string list" where
  "CURSOR_MEMBERS = [''includeAnchor'', ''requestedThreadId'', ''rolloutOrdinal'', ''scope'']"

definition TEXT_ITEM_KEYS :: "string list" where
  "TEXT_ITEM_KEYS = [''text'', ''text_elements'', ''type'']"

definition MAX_PHONE_TEXT_BYTES :: nat where "MAX_PHONE_TEXT_BYTES = 8 * 1024"

text \<open>The detail of a wrong key set: counts, never a name. \<open>writer\<close> is the phrase in which the
  call sites differ.\<close>

definition keys_detail :: "string list \<Rightarrow> string list \<Rightarrow> string \<Rightarrow> string" where
  "keys_detail keys expected writer =
     ''params carries '' @ dec (length keys) @ '' keys: ''
       @ dec (length (filter (\<lambda>k. k \<notin> set expected) keys)) @ '' unexpected, and ''
       @ dec (length (filter (\<lambda>n. n \<notin> set keys) expected)) @ '' of the ''
       @ dec (length expected) @ '' '' @ writer
       @ '' absent. Key names are client-chosen and are not logged''"

definition not_object_detail :: "json \<Rightarrow> string" where
  "not_object_detail params =
     ''params is a '' @ value_shape (Some params) @ ''; the measured value is an object''"

definition check_thread_id_only_shape :: "json \<Rightarrow> string + unit" where
  "check_thread_id_only_shape params = (case as_object params of
     None \<Rightarrow> Inl (not_object_detail params)
   | Some obj \<Rightarrow>
       let keys = sort (keys_of obj) in
       if keys \<noteq> THREAD_ID_ONLY_PARAMS then
         Inl (keys_detail keys THREAD_ID_ONLY_PARAMS ''the measured frame carries'')
       else if \<not> (case hget obj ''threadId'' of None \<Rightarrow> False | Some v \<Rightarrow> is_string v) then
         Inl ''params.threadId is not a string''
       else Inr ())"

definition not_session_detail :: "string \<Rightarrow> string" where
  "not_session_detail i =
     ''thread '' @ redact_thread_id i @ '' was not observed as a session thread''"

definition check_resume_binding :: "'t thread_binding \<Rightarrow> 't \<Rightarrow> json \<Rightarrow> string + unit" where
  "check_resume_binding T t params = (case Option.bind (jget ''threadId'' params) as_str of
     None \<Rightarrow> Inl ''resume without a string threadId''
   | Some i \<Rightarrow> if tb_is_session_thread T t i then Inr () else Inl (not_session_detail i))"

section \<open>Thread-scoped reads\<close>

datatype read_param = ThreadId | Cursor | NullableString | NullableUint32 | Enum "string list"

definition read_captured_params :: "string \<Rightarrow> (string \<times> read_param) list" where
  "read_captured_params method =
     (if method = ''thread/read'' then [(''threadId'', ThreadId)]
      else if method = ''thread/turns/list'' then
        [(''cursor'', Cursor),
         (''itemsView'', Enum [''notLoaded'', ''summary'', ''full'']),
         (''limit'', NullableUint32),
         (''sortDirection'', Enum [''asc'', ''desc'']),
         (''threadId'', ThreadId)]
      else if method = ''thread/items/list'' then
        [(''cursor'', Cursor),
         (''limit'', NullableUint32),
         (''sortDirection'', Enum [''asc'', ''desc'']),
         (''threadId'', ThreadId),
         (''turnId'', NullableString)]
      else [])"

definition is_uint32 :: "json \<Rightarrow> bool" where
  "is_uint32 v = (case as_u64 v of None \<Rightarrow> False | Some n \<Rightarrow> n \<le> 2 ^ 32 - 1)"

definition check_cursor_thread :: "ext \<Rightarrow> 't thread_binding \<Rightarrow> 't \<Rightarrow> string \<Rightarrow> string + unit" where
  "check_cursor_thread L T t cursor = (case from_str L cursor of
     Some (JObj decoded) \<Rightarrow>
       let members = sort (keys_of decoded) in
       if members \<noteq> CURSOR_MEMBERS then
         Inl (''the cursor's member set is '' @ debug_strs (uni_verbatim L) members
           @ ''; every measured cursor carries exactly '' @ debug_strs (uni_verbatim L) CURSOR_MEMBERS)
       else
         let requested = hget decoded ''requestedThreadId'';
             wrong = Inl (''the cursor's requestedThreadId is a '' @ value_shape requested
               @ '', not a session thread's id'');
             selector = (case requested of
               Some (JStr named) \<Rightarrow>
                 if tb_is_session_thread T t named then Inr ()
                 else Inl (''the cursor names thread '' @ redact_thread_id named
                   @ '', which was not observed as a session thread'')
             | _ \<Rightarrow> wrong)
         in (case selector of
             Inl e \<Rightarrow> Inl e
           | Inr u \<Rightarrow>
               if \<not> (case hget decoded ''rolloutOrdinal'' of None \<Rightarrow> False | Some v \<Rightarrow> is_uint32 v)
               then Inl ''the cursor's rolloutOrdinal is not a uint32''
               else if \<not> (case hget decoded ''includeAnchor'' of None \<Rightarrow> False | Some v \<Rightarrow> is_boolean v)
               then Inl ''the cursor's includeAnchor is not a boolean''
               else
                 let scope = hget decoded ''scope'';
                     refused = Inl (''the cursor's scope is a '' @ value_shape scope
                       @ ''; every measured scope is an object carrying exactly a string `kind`'')
                 in (case scope of
                     Some (JObj sc) \<Rightarrow>
                       if length sc = 1 \<and> (case hget sc ''kind'' of None \<Rightarrow> False | Some v \<Rightarrow> is_string v)
                       then Inr () else refused
                   | _ \<Rightarrow> refused))
   | _ \<Rightarrow>
       Inl ''params.cursor is not the measured encoding (a JSON object serialized into a string), so the thread it names cannot be read'')"

definition param_detail :: "string \<Rightarrow> json \<Rightarrow> string \<Rightarrow> string" where
  "param_detail key v rule = ''params.'' @ key @ '' is a '' @ value_shape (Some v) @ ''; '' @ rule"

definition check_read_param ::
  "ext \<Rightarrow> 't thread_binding \<Rightarrow> 't \<Rightarrow> string \<Rightarrow> read_param \<Rightarrow> json \<Rightarrow> string + unit" where
  "check_read_param L T t key rule v = (case rule of
     ThreadId \<Rightarrow>
       (case as_str v of
          Some i \<Rightarrow> if tb_is_session_thread T t i then Inr () else Inl (not_session_detail i)
        | None \<Rightarrow> Inl (param_detail key v ''it must be a string''))
   | Cursor \<Rightarrow>
       (case v of
          JNull \<Rightarrow> Inr ()
        | JStr cursor \<Rightarrow> check_cursor_thread L T t cursor
        | _ \<Rightarrow> Inl (param_detail key v ''the measured cursor is a string''))
   | NullableString \<Rightarrow>
       (case v of
          JNull \<Rightarrow> Inr ()
        | JStr s \<Rightarrow> Inr ()
        | _ \<Rightarrow> Inl (param_detail key v ''the measured value is a string or null''))
   | NullableUint32 \<Rightarrow>
       (case v of
          JNull \<Rightarrow> Inr ()
        | _ \<Rightarrow>
            if is_uint32 v then Inr ()
            else Inl (param_detail key v ''the measured value is a uint32 or null''))
   | Enum members \<Rightarrow>
       let refused = Inl (param_detail key v
             (''the measured values are '' @ debug_strs (uni_verbatim L) members @ '' or null'')) in
       (case v of
          JNull \<Rightarrow> Inr ()
        | JStr s \<Rightarrow> if s \<in> set members then Inr () else refused
        | _ \<Rightarrow> refused))"

fun check_captured ::
  "ext \<Rightarrow> 't thread_binding \<Rightarrow> 't \<Rightarrow> (string, json) hash \<Rightarrow> (string \<times> read_param) list \<Rightarrow> string + unit" where
  "check_captured L T t obj [] = Inr ()"
| "check_captured L T t obj ((key, rule) # rest) =
     (case hget obj key of
        None \<Rightarrow> check_captured L T t obj rest
      | Some v \<Rightarrow>
          (case check_read_param L T t key rule v of
             Inl e \<Rightarrow> Inl e
           | Inr u \<Rightarrow> check_captured L T t obj rest))"

definition check_read_binding ::
  "ext \<Rightarrow> 't thread_binding \<Rightarrow> 't \<Rightarrow> string \<Rightarrow> json \<Rightarrow> string + unit" where
  "check_read_binding L T t method params = (case as_object params of
     None \<Rightarrow>
       Inl (''params is a '' @ value_shape (Some params)
         @ ''; the measured value is an object, and positional params name a thread in a form this binding cannot read'')
   | Some obj \<Rightarrow>
       let captured = read_captured_params method;
           unknown = length (filter (\<lambda>k. k \<notin> set (map fst captured)) (keys_of obj))
       in if unknown > 0 then
            Inl (''params carries '' @ dec unknown @ '' key(s) of '' @ dec (length obj)
              @ '' outside the measured set for this read; the captured frames carry exactly ''
              @ debug_strs (uni_verbatim L) (map fst captured))
          else if hget obj ''threadId'' = None then Inl ''a thread-scoped read without a threadId''
          else check_captured L T t obj captured)"

section \<open>The phone's turn, steer and interrupt\<close>

definition check_phone_text_item :: "json \<Rightarrow> string + unit" where
  "check_phone_text_item item = (case as_object item of
     None \<Rightarrow> Inl (''a '' @ value_shape (Some item) @ '' is not the measured text item'')
   | Some obj \<Rightarrow>
       let keys = sort (keys_of obj) in
       if keys \<noteq> TEXT_ITEM_KEYS then
         Inl (''it carries '' @ dec (length keys)
           @ '' keys; the measured text item carries exactly three. The input union also admits local file paths (localImage, localAudio, skill, mention) and remote URLs (image, audio), which the app-server opens itself and no sandbox policy fences; a phone composes with text, and with nothing beside it. Key names are client-chosen and are not logged'')
       else if Option.bind (hget obj ''type'') as_str \<noteq> Some ''text'' then Inl ''its type is not text''
       else if (case Option.bind (hget obj ''text_elements'') as_array of None \<Rightarrow> True | Some a \<Rightarrow> a \<noteq> []) then
         Inl (''its text_elements is '' @ value_shape (hget obj ''text_elements'')
           @ ''; every measured value is the empty array, and this leg's producer writes one'')
       else (case Option.bind (hget obj ''text'') as_str of
           None \<Rightarrow> Inl (''its text is a '' @ value_shape (hget obj ''text''))
         | Some t \<Rightarrow>
             if length t > MAX_PHONE_TEXT_BYTES then
               Inl (''its text is '' @ dec (length t)
                 @ '' bytes; the ceiling this leg's own daemon advertises is '' @ dec MAX_PHONE_TEXT_BYTES
                 @ ''. The value is client-chosen and is not logged'')
             else Inr ()))"

definition check_phone_input :: "json \<Rightarrow> string + unit" where
  "check_phone_input params = (case jget ''input'' params of
     None \<Rightarrow> Inl ''params.input is absent; a compose with no input composes nothing''
   | Some items \<Rightarrow>
       (case as_array items of
          None \<Rightarrow>
            Inl (''params.input is a '' @ value_shape (Some items) @ ''; the measured value is an array'')
        | Some xs \<Rightarrow>
            if length xs \<noteq> 1 then
              Inl (''params.input carries '' @ dec (length xs)
                @ '' items; this leg's producer writes exactly one, because a compose is one message'')
            else (case check_phone_text_item (xs ! 0) of
                Inl why \<Rightarrow> Inl (''params.input[0]: '' @ why)
              | Inr u \<Rightarrow> Inr ())))"

text \<open>The loop over the parameters a frame must leave null; \<open>detail\<close> is the sentence each call
  site writes about the first that is not.\<close>

fun check_nulls :: "(string \<Rightarrow> json option \<Rightarrow> string) \<Rightarrow> (string, json) hash \<Rightarrow> string list \<Rightarrow> string + unit" where
  "check_nulls detail obj [] = Inr ()"
| "check_nulls detail obj (key # rest) =
     (if hget obj key = Some JNull then check_nulls detail obj rest
      else Inl (detail key (hget obj key)))"

definition check_phone_turn_projection :: "json \<Rightarrow> string + unit" where
  "check_phone_turn_projection params = (case as_object params of
     None \<Rightarrow> Inl (not_object_detail params)
   | Some obj \<Rightarrow>
       let keys = sort (keys_of obj) in
       if keys \<noteq> PHONE_TURN_PARAMS then
         Inl (keys_detail keys PHONE_TURN_PARAMS ''this leg's own producer writes'')
       else (case check_nulls (\<lambda>key other. ''params.'' @ key
                @ '': this leg's producer writes JSON null; a '' @ value_shape other
                @ '' is a shape it does not author'') obj PHONE_TURN_NULL_PARAMS of
           Inl e \<Rightarrow> Inl e
         | Inr u \<Rightarrow> check_phone_input params))"

datatype steer_refusal = ShapeRefused string | BindingRefused string

definition not_active_thread_detail :: "string \<Rightarrow> string" where
  "not_active_thread_detail th =
     ''thread '' @ redact_thread_id th @ '' is not this session's one active thread '' @ em_dash
       @ '' a thread this session has left is readable, never actuable''"

definition check_steer_binding ::
  "'t thread_binding \<Rightarrow> 't \<Rightarrow> json \<Rightarrow> steer_refusal + unit" where
  "check_steer_binding T t params = (case as_object params of
     None \<Rightarrow> Inl (ShapeRefused (not_object_detail params))
   | Some obj \<Rightarrow>
       let keys = sort (keys_of obj) in
       if keys \<noteq> STEER_PARAMS then
         Inl (ShapeRefused (keys_detail keys STEER_PARAMS ''the measured frame carries''))
       else (case check_nulls (\<lambda>key other. ''params.'' @ key @ '': captured boundary '' @ em_dash
                @ '' every measured steer sent this key as JSON null; a '' @ value_shape other
                @ '' was never captured and cannot be proven'') obj STEER_NULL_PARAMS of
           Inl e \<Rightarrow> Inl (ShapeRefused e)
         | Inr u \<Rightarrow>
             (case (Option.bind (hget obj ''threadId'') as_str, Option.bind (hget obj ''expectedTurnId'') as_str) of
                (Some th, Some expected) \<Rightarrow>
                  if tb_bound_thread T t \<noteq> Some th then
                    Inl (BindingRefused (not_active_thread_detail th))
                  else if \<not> tb_is_active_turn T t th expected then
                    Inl (BindingRefused (''turn '' @ redact_thread_id expected
                      @ '' is not a running turn of thread '' @ redact_thread_id th @ '' '' @ em_dash
                      @ '' a phone may only steer the turn this session is currently running, and the app-server's own refusal for this frame would have named the turn that is''))
                  else (case check_phone_input params of
                      Inl e \<Rightarrow> Inl (BindingRefused e)
                    | Inr u \<Rightarrow> Inr ())
              | _ \<Rightarrow>
                  Inl (ShapeRefused ''params.threadId or params.expectedTurnId is not a string''))))"

definition check_interrupt_binding ::
  "'t thread_binding \<Rightarrow> 't \<Rightarrow> json \<Rightarrow> string + unit" where
  "check_interrupt_binding T t params = (case as_object params of
     None \<Rightarrow> Inl (not_object_detail params)
   | Some obj \<Rightarrow>
       let keys = sort (keys_of obj) in
       if keys \<noteq> INTERRUPT_PARAMS then
         Inl (keys_detail keys INTERRUPT_PARAMS ''the measured frame carries'')
       else (case (Option.bind (hget obj ''threadId'') as_str, Option.bind (hget obj ''turnId'') as_str) of
           (Some th, Some turn) \<Rightarrow>
             if tb_bound_thread T t \<noteq> Some th then Inl (not_active_thread_detail th)
             else if \<not> tb_is_active_turn T t th turn then
               Inl (''turn '' @ redact_thread_id turn @ '' is not a running turn of thread ''
                 @ redact_thread_id th @ '' '' @ em_dash
                 @ '' only the turn this session is currently running can be interrupted'')
             else Inr ()
         | _ \<Rightarrow> Inl ''params.threadId or params.turnId is not a string''))"

section \<open>Requests, responses, the decision\<close>

definition classify_turn_start ::
  "ext \<Rightarrow> 't thread_binding \<Rightarrow> conn_id \<Rightarrow> 't \<Rightarrow> string \<Rightarrow> request_id option \<Rightarrow> json \<Rightarrow> 't \<times> relay_action" where
  "classify_turn_start L T c t method i params = (case check_phone_turn_projection params of
     Inl detail \<Rightarrow>
       (t, refuse_request L i E_POLICY_REFUSED
         ''turn refused: it is not the shape this session accepts from a phone''
         (redact_method method @ '': '' @ detail))
   | Inr u \<Rightarrow>
       (case i of
          None \<Rightarrow>
            (t, refuse_request L i E_POLICY_REFUSED
              ''turn refused: it does not name this session's bound thread''
              ''turn/start without a usable request id'')
        | Some turn_id \<Rightarrow>
            (case Option.bind (jget ''threadId'' params) as_str of
               None \<Rightarrow>
                 (t, refuse_request L (Some turn_id) E_POLICY_REFUSED
                   ''turn refused: it does not name this session's bound thread''
                   ''turn/start without a string threadId'')
             | Some named \<Rightarrow>
                 let refused = refuse_request L (Some turn_id) E_POLICY_REFUSED in
                 (case tb_try_admit_idle_turn T t c turn_id named (jget ''cwd'' params)
                         (jget ''runtimeWorkspaceRoots'' params) of
                    (t1, TurnAdmitted) \<Rightarrow>
                      (t1, Forward ''turn/start: the phone's null-ownership turn, head-checked on an idle thread'')
                  | (t1, NotTheHead detail) \<Rightarrow>
                      (t1, refused ''turn refused: it does not name this session's bound thread'' detail)
                  | (t1, WrongWorkspace detail) \<Rightarrow>
                      (t1, refused ''turn refused: it does not run in the workspace bound at its thread's creation'' detail)
                  | (t1, TurnMoving) \<Rightarrow>
                      (t1, refused ''turn refused: a thread switch is in progress on this session''
                        (redact_method method @ '': the keyboard is moving to another thread or has left this one, so no thread may be named until its move settles''))
                  | (t1, ThreadAlreadyBusy) \<Rightarrow>
                      (t1, refused ''turn refused: this session is already running a turn''
                        (redact_method method @ '': a turn is running on this thread, and a start sent now would be accepted by the app-server as an implicit steer into it with no expectedTurnId to guard staleness; turn/steer is the method for this case''))
                  | (t1, TooManyActiveTurns) \<Rightarrow>
                      (t1, refused ''turn refused: too many turns are already in flight''
                        (redact_method method @ '': this session already holds '' @ dec MAX_ACTIVE_TURNS
                          @ '' admitted turns whose terminals have not been observed''))
                  | (t1, Ledger verdict) \<Rightarrow> (t1, ledger_refusal method verdict)))))"

definition classify_request_disposition ::
  "ext \<Rightarrow> 't thread_binding \<Rightarrow> conn_id \<Rightarrow> 't \<Rightarrow> string \<Rightarrow> request_id option \<Rightarrow> json \<Rightarrow> 't \<times> relay_action" where
  "classify_request_disposition L T c t method i params =
     (if i = None then
        (t, DropLogKeepOpen (redact_method method
          @ '': request has no usable id (schema-invalid); zero bytes''))
      else (case disposition_of KRequest method of
          DForward \<Rightarrow> (t, Forward ''request allowlisted'')
        | NullOwnedIdleTurn \<Rightarrow> classify_turn_start L T c t method i params
        | SteerRunningTurn \<Rightarrow>
            (t, case check_steer_binding T t params of
                Inl (ShapeRefused detail) \<Rightarrow>
                  refuse_request L i E_POLICY_REFUSED
                    ''steer refused: it is not the shape this session accepts''
                    (redact_method method @ '': '' @ detail)
              | Inl (BindingRefused detail) \<Rightarrow>
                  refuse_request L i E_POLICY_REFUSED
                    ''steer refused: it does not name the turn this session is running''
                    (redact_method method @ '': '' @ detail)
              | Inr u \<Rightarrow> Forward ''turn/steer: names this session's running turn, text only'')
        | Refuse reason \<Rightarrow>
            (t, case refuse_message reason of (code, msg) \<Rightarrow>
                refuse_request L i code msg
                  (redact_method method @ '': refused ('' @ debug_reason reason @ '')''))
        | ReadSessionThread \<Rightarrow>
            (t, case check_read_binding L T t method params of
                Inl detail \<Rightarrow>
                  refuse_request L i E_POLICY_REFUSED
                    ''read refused: it does not name a thread of this session''
                    (redact_method method @ '': '' @ detail)
              | Inr u \<Rightarrow> Forward ''thread-scoped read on a session thread'')
        | ResumeSessionThread \<Rightarrow>
            (t, case check_thread_id_only_shape params of
                Inl detail \<Rightarrow>
                  refuse_request L i E_POLICY_REFUSED
                    ''resume refused: it is not the shape this session accepts from a phone''
                    (redact_method method @ '': '' @ detail)
              | Inr u \<Rightarrow>
                  (case check_resume_binding T t params of
                     Inl detail \<Rightarrow>
                       refuse_request L i E_POLICY_REFUSED
                         ''resume refused: target thread is not bound to this session'' detail
                   | Inr u \<Rightarrow> Forward ''thread/resume: names a thread of this session and nothing else''))
        | InterruptActiveTurn \<Rightarrow>
            (t, case check_interrupt_binding T t params of
                Inl detail \<Rightarrow>
                  refuse_request L i E_POLICY_REFUSED
                    ''interrupt refused: it does not name a running turn of this session''
                    (redact_method method @ '': '' @ detail)
              | Inr u \<Rightarrow> Forward ''turn/interrupt: names this session's running turn'')))"

definition is_forward :: "relay_action \<Rightarrow> bool" where
  "is_forward a = (case a of Forward note \<Rightarrow> True | _ \<Rightarrow> False)"

text \<open>A \<open>Forward\<close> with no id cannot come here: the source calls \<open>expect\<close> on the id, and
  \<open>classify_request_disposition\<close> refuses a request without one first.\<close>

definition classify_request ::
  "ext \<Rightarrow> 't thread_binding \<Rightarrow> conn_id \<Rightarrow> 't \<Rightarrow> string \<Rightarrow> request_id option \<Rightarrow> json \<Rightarrow> 't \<times> relay_action" where
  "classify_request L T c t method i params =
     (case classify_request_disposition L T c t method i params of
        (t1, action) \<Rightarrow>
          if \<not> is_forward action then (t1, action)
          else (case i of
              None \<Rightarrow> (t1, action)
            | Some i' \<Rightarrow>
                if method = TURN_METHOD then (t1, action)
                else (case tb_try_admit_request T t1 c i' method of
                    (t2, Admitted) \<Rightarrow> (t2, action)
                  | (t2, verdict) \<Rightarrow> (t2, ledger_refusal method verdict))))"

definition classify_response ::
  "ext \<Rightarrow> 't thread_binding \<Rightarrow> 'c capability_registry \<Rightarrow> 't \<Rightarrow> 'c \<Rightarrow> request_id \<Rightarrow> 'c \<times> relay_action" where
  "classify_response L T C t cs i = (case cr_authorize C cs i (tb_bound_thread T t) of
     (cs1, True) \<Rightarrow> (cs1, Forward ''response consumed an authorized capability'')
   | (cs1, False) \<Rightarrow>
       (cs1, DropLogKeepOpen (''method-less response id='' @ redact_request_id L i
         @ '' has no live capability'')))"

definition decide ::
  "ext \<Rightarrow> 't thread_binding \<Rightarrow> 'c capability_registry \<Rightarrow> conn_id \<Rightarrow> 't \<times> 'c \<Rightarrow> shape \<Rightarrow> ('t \<times> 'c) \<times> relay_action" where
  "decide L T C c st sh = (case st of (t, cs) \<Rightarrow>
     (case sh of
        SBinary \<Rightarrow> ((t, cs), DropCloseLeg (''binary frame has no client'' @ right_arrow @ ''server form''))
      | SArray \<Rightarrow> ((t, cs), DropCloseLeg ''JSON array (batch) has no schema-legal error form'')
      | SMalformed reason \<Rightarrow> ((t, cs), DropCloseLeg (''malformed frame: '' @ reason))
      | SNotification method obj \<Rightarrow> ((t, cs), classify_notification method)
      | SRequest method i obj \<Rightarrow>
          (case classify_request L T c t method i
                  (case jget ''params'' obj of None \<Rightarrow> JObj [] | Some p \<Rightarrow> p) of
             (t1, action) \<Rightarrow> ((t1, cs), action))
      | SResponse i obj \<Rightarrow>
          (case classify_response L T C t cs i of (cs1, action) \<Rightarrow> ((t, cs1), action))))"

definition classify ::
  "ext \<Rightarrow> 't thread_binding \<Rightarrow> 'c capability_registry \<Rightarrow> conn_id \<Rightarrow> 't \<times> 'c \<Rightarrow> ws_payload \<Rightarrow>
     ('t \<times> 'c) \<times> relay_action" where
  "classify L T C c st payload = decide L T C c st (classify_shape L payload)"

end
