(* ===== verification/Broker_Policy.thy ===== *)
theory Broker_Policy
  imports Broker_Refusal Broker_Session_Turns
begin

text \<open>
  The policy of the phone's leg, stated without its order of checks and its sentences:
  \<open>may_request\<close> is which requests a phone may make, rule by rule. Each parameter check of the code
  accepts exactly the frames its rule describes, and \<open>classify\<close> forwards a request exactly when a
  rule allows it and the session admits it.
\<close>

section \<open>Key sets\<close>

lemma sort_keys_iff:
  assumes "distinct (map fst ms)" "sorted cs" "distinct cs"
  shows "sort (keys_of ms) = cs \<longleftrightarrow> fst ` set ms = set cs"
proof
  assume "sort (keys_of ms) = cs"
  then have "set (sort (keys_of ms)) = set cs" by simp
  then show "fst ` set ms = set cs" by (simp add: keys_of_def)
next
  assume "fst ` set ms = set cs"
  with assms show "sort (keys_of ms) = cs"
    by (intro sorted_distinct_set_unique) (simp_all add: keys_of_def)
qed

lemmas param_lists = THREAD_ID_ONLY_PARAMS_def PHONE_TURN_PARAMS_def STEER_PARAMS_def
  INTERRUPT_PARAMS_def CURSOR_MEMBERS_def TEXT_ITEM_KEYS_def

lemma param_lists_sorted:
  "sorted THREAD_ID_ONLY_PARAMS" "sorted PHONE_TURN_PARAMS" "sorted STEER_PARAMS"
  "sorted INTERRUPT_PARAMS" "sorted CURSOR_MEMBERS" "sorted TEXT_ITEM_KEYS"
  unfolding param_lists by code_simp+

lemma param_lists_distinct:
  "distinct THREAD_ID_ONLY_PARAMS" "distinct PHONE_TURN_PARAMS" "distinct STEER_PARAMS"
  "distinct INTERRUPT_PARAMS" "distinct CURSOR_MEMBERS" "distinct TEXT_ITEM_KEYS"
  unfolding param_lists by simp_all

lemmas key_set_iff =
  sort_keys_iff [OF _ param_lists_sorted(1) param_lists_distinct(1)]
  sort_keys_iff [OF _ param_lists_sorted(2) param_lists_distinct(2)]
  sort_keys_iff [OF _ param_lists_sorted(3) param_lists_distinct(3)]
  sort_keys_iff [OF _ param_lists_sorted(4) param_lists_distinct(4)]
  sort_keys_iff [OF _ param_lists_sorted(5) param_lists_distinct(5)]
  sort_keys_iff [OF _ param_lists_sorted(6) param_lists_distinct(6)]

section \<open>The rules\<close>

definition text_item :: "json \<Rightarrow> bool" where
  "text_item v \<longleftrightarrow> (\<exists>it s. v = JObj it \<and> fst ` set it = {''text'', ''text_elements'', ''type''} \<and>
     hget it ''type'' = Some (JStr ''text'') \<and> hget it ''text_elements'' = Some (JArr []) \<and>
     hget it ''text'' = Some (JStr s) \<and> length s \<le> 8192)"

definition one_text_item :: "json \<Rightarrow> bool" where
  "one_text_item p \<longleftrightarrow> (\<exists>v. jget ''input'' p = Some (JArr [v]) \<and> text_item v)"

definition cursor_ok :: "ext \<Rightarrow> (string \<Rightarrow> bool) \<Rightarrow> string \<Rightarrow> bool" where
  "cursor_ok L session_thread s \<longleftrightarrow> (\<exists>ms th n b sc kind. from_str L s = Some (JObj ms) \<and>
     fst ` set ms = {''includeAnchor'', ''requestedThreadId'', ''rolloutOrdinal'', ''scope''} \<and>
     hget ms ''requestedThreadId'' = Some (JStr th) \<and> session_thread th \<and>
     hget ms ''rolloutOrdinal'' = Some (JInt n) \<and> 0 \<le> n \<and> n < 2 ^ 32 \<and>
     hget ms ''includeAnchor'' = Some (JBool b) \<and>
     hget ms ''scope'' = Some (JObj sc) \<and> length sc = 1 \<and> hget sc ''kind'' = Some (JStr kind))"

definition read_value_ok :: "ext \<Rightarrow> (string \<Rightarrow> bool) \<Rightarrow> read_param \<Rightarrow> json \<Rightarrow> bool" where
  "read_value_ok L session_thread rule v = (case rule of
     ThreadId \<Rightarrow> (\<exists>th. v = JStr th \<and> session_thread th)
   | Cursor \<Rightarrow> v = JNull \<or> (\<exists>s. v = JStr s \<and> cursor_ok L session_thread s)
   | NullableString \<Rightarrow> v = JNull \<or> (\<exists>s. v = JStr s)
   | NullableUint32 \<Rightarrow> v = JNull \<or> (\<exists>n. v = JInt n \<and> 0 \<le> n \<and> n < 2 ^ 32)
   | Enum members \<Rightarrow> v = JNull \<or> (\<exists>s. v = JStr s \<and> s \<in> set members))"

definition read_ok :: "ext \<Rightarrow> (string \<Rightarrow> bool) \<Rightarrow> string \<Rightarrow> json \<Rightarrow> bool" where
  "read_ok L session_thread m p \<longleftrightarrow> (\<exists>ms. p = JObj ms \<and> hget ms ''threadId'' \<noteq> None \<and>
     (\<forall>(k, v) \<in> set ms. \<exists>rule. (k, rule) \<in> set (read_captured_params m) \<and>
        read_value_ok L session_thread rule v))"

definition turn_params :: "json \<Rightarrow> bool" where
  "turn_params p \<longleftrightarrow> (\<exists>ms. p = JObj ms \<and> fst ` set ms = set PHONE_TURN_PARAMS \<and>
     (\<forall>k \<in> set PHONE_TURN_NULL_PARAMS. hget ms k = Some JNull)) \<and> one_text_item p"

definition steer_params :: "json \<Rightarrow> string \<Rightarrow> string \<Rightarrow> bool" where
  "steer_params p th tu \<longleftrightarrow> (\<exists>ms. p = JObj ms \<and> fst ` set ms = set STEER_PARAMS \<and>
     (\<forall>k \<in> set STEER_NULL_PARAMS. hget ms k = Some JNull) \<and>
     hget ms ''threadId'' = Some (JStr th) \<and> hget ms ''expectedTurnId'' = Some (JStr tu)) \<and>
     one_text_item p"

definition interrupt_params :: "json \<Rightarrow> string \<Rightarrow> string \<Rightarrow> bool" where
  "interrupt_params p th tu \<longleftrightarrow> (\<exists>ms. p = JObj ms \<and> fst ` set ms = {''threadId'', ''turnId''} \<and>
     hget ms ''threadId'' = Some (JStr th) \<and> hget ms ''turnId'' = Some (JStr tu))"

inductive may_request :: "ext \<Rightarrow> 't thread_binding \<Rightarrow> 't \<Rightarrow> string \<Rightarrow> json \<Rightarrow> bool" for L T t where
  attach: "m \<in> {''initialize'', ''thread/loaded/list''} \<Longrightarrow> may_request L T t m p"
| read: "m \<in> {''thread/read'', ''thread/turns/list'', ''thread/items/list''} \<Longrightarrow>
     read_ok L (tb_is_session_thread T t) m p \<Longrightarrow> may_request L T t m p"
| resume: "p = JObj [(''threadId'', JStr th)] \<Longrightarrow> tb_is_session_thread T t th \<Longrightarrow>
     may_request L T t ''thread/resume'' p"
| turn: "turn_params p \<Longrightarrow> jget ''threadId'' p = Some (JStr th) \<Longrightarrow> may_request L T t ''turn/start'' p"
| steer: "steer_params p th tu \<Longrightarrow> tb_bound_thread T t = Some th \<Longrightarrow> tb_is_active_turn T t th tu \<Longrightarrow>
     may_request L T t ''turn/steer'' p"
| interrupt: "interrupt_params p th tu \<Longrightarrow> tb_bound_thread T t = Some th \<Longrightarrow>
     tb_is_active_turn T t th tu \<Longrightarrow> may_request L T t ''turn/interrupt'' p"

inductive_simps may_attach: "may_request L T t ''initialize'' p"
inductive_simps may_list: "may_request L T t ''thread/loaded/list'' p"
inductive_simps may_read: "may_request L T t ''thread/read'' p"
inductive_simps may_turns: "may_request L T t ''thread/turns/list'' p"
inductive_simps may_items: "may_request L T t ''thread/items/list'' p"
inductive_simps may_resume: "may_request L T t ''thread/resume'' p"
inductive_simps may_turn: "may_request L T t ''turn/start'' p"
inductive_simps may_steer: "may_request L T t ''turn/steer'' p"
inductive_simps may_interrupt: "may_request L T t ''turn/interrupt'' p"

section \<open>Each check is its rule\<close>

lemma check_nulls_iff: "check_nulls d obj ks = Inr () \<longleftrightarrow> (\<forall>k \<in> set ks. hget obj k = Some JNull)"
  by (induction ks) auto

lemma bind_str: "Option.bind x as_str = Some s \<longleftrightarrow> x = Some (JStr s)"
  by (cases x) (simp_all add: as_str_Some_iff)

lemma bind_empty:
  "(case Option.bind x as_array of None \<Rightarrow> True | Some a \<Rightarrow> a \<noteq> []) \<longleftrightarrow> x \<noteq> Some (JArr [])"
proof (cases x)
  case (Some v)
  then show ?thesis by (cases v) (simp_all add: as_array_def)
qed simp

lemma text_item_iff: "wf_json v \<Longrightarrow> check_phone_text_item v = Inr () \<longleftrightarrow> text_item v"
proof (cases "as_object v")
  case None
  then have "v \<noteq> JObj it" for it using as_object_Some_iff [of v] by auto
  with None show ?thesis by (simp add: check_phone_text_item_def text_item_def)
next
  case (Some it)
  then have v: "v = JObj it" by (simp add: as_object_Some_iff)
  assume "wf_json v"
  then have "sort (keys_of it) = TEXT_ITEM_KEYS \<longleftrightarrow> fst ` set it = {''text'', ''text_elements'', ''type''}"
    by (simp add: v key_set_iff(6)) (simp add: TEXT_ITEM_KEYS_def)
  moreover have "text_item v \<longleftrightarrow> fst ` set it = {''text'', ''text_elements'', ''type''} \<and>
     hget it ''type'' = Some (JStr ''text'') \<and> hget it ''text_elements'' = Some (JArr []) \<and>
     (case Option.bind (hget it ''text'') as_str of None \<Rightarrow> False | Some s \<Rightarrow> length s \<le> 8192)"
    by (cases "Option.bind (hget it ''text'') as_str")
      (auto simp: text_item_def v bind_str [symmetric])
  ultimately show ?thesis
    by (cases "Option.bind (hget it ''text'') as_str")
      (simp_all add: check_phone_text_item_def Some Let_def bind_str bind_empty MAX_PHONE_TEXT_BYTES_def)
qed

lemma as_simps [simp]: "as_object (JObj ms) = Some ms" "as_array (JArr xs) = Some xs"
  by (simp_all add: as_object_def as_array_def)

lemma as_object_None: "as_object v = None \<Longrightarrow> v \<noteq> JObj ms"
  using as_object_Some_iff [of v ms] by auto

lemma as_array_None: "as_array v = None \<Longrightarrow> v \<noteq> JArr xs"
  using as_array_Some_iff [of v xs] by auto

lemma wf_json_JArr: "wf_json (JArr xs) \<Longrightarrow> v \<in> set xs \<Longrightarrow> wf_json v"
  by (simp add: wf_items_iff)

lemma Inl_case: "(case r of Inl e \<Rightarrow> Inl (f e) | Inr u \<Rightarrow> Inr ()) = Inr () \<longleftrightarrow> r = Inr ()"
  by (cases r) auto

lemma phone_input_iff:
  assumes "wf_json p"
  shows "check_phone_input p = Inr () \<longleftrightarrow> one_text_item p"
proof (cases "jget ''input'' p")
  case None
  then show ?thesis by (simp add: check_phone_input_def one_text_item_def)
next
  case (Some items)
  show ?thesis
  proof (cases "as_array items")
    case None
    with Some show ?thesis
      by (simp add: check_phone_input_def one_text_item_def as_array_None)
  next
    case arr: (Some xs)
    then have items: "items = JArr xs" by (simp add: as_array_Some_iff)
    show ?thesis
    proof (cases "length xs = 1")
      case True
      then obtain v where xs: "xs = [v]" by (auto simp: length_Suc_conv)
      then have "wf_json v" using wf_json_jget [OF assms Some] items by simp
      from text_item_iff [OF this] show ?thesis
        by (simp add: check_phone_input_def one_text_item_def Some arr items xs Inl_case)
    next
      case False
      then have "xs \<noteq> [v]" for v by auto
      with False show ?thesis
        by (simp add: check_phone_input_def one_text_item_def Some arr items)
    qed
  qed
qed

lemma resume_iff:
  assumes "wf_json p"
  shows "check_thread_id_only_shape p = Inr () \<and> check_resume_binding T t p = Inr () \<longleftrightarrow>
     (\<exists>th. p = JObj [(''threadId'', JStr th)] \<and> tb_is_session_thread T t th)"
proof (cases "as_object p")
  case None
  then show ?thesis by (simp add: check_thread_id_only_shape_def as_object_None)
next
  case (Some ms)
  then have p: "p = JObj ms" by (simp add: as_object_Some_iff)
  with assms have d: "distinct (map fst ms)" by simp
  have one: "fst ` set ms = {''threadId''} \<and> hget ms ''threadId'' = Some v \<longleftrightarrow> ms = [(''threadId'', v)]" for v
  proof
    assume a: "fst ` set ms = {''threadId''} \<and> hget ms ''threadId'' = Some v"
    then have "length ms = 1" using distinct_card [OF d] by simp
    then obtain kv where "ms = [kv]" by (auto simp: length_Suc_conv)
    with a show "ms = [(''threadId'', v)]" by (cases kv) auto
  qed simp
  have str: "(case hget ms ''threadId'' of None \<Rightarrow> False | Some v \<Rightarrow> is_string v) \<longleftrightarrow>
      (\<exists>th. hget ms ''threadId'' = Some (JStr th))"
    by (cases "hget ms ''threadId''") (auto simp: is_string_def split: json.split)
  have keys: "sort (keys_of ms) = THREAD_ID_ONLY_PARAMS \<longleftrightarrow> fst ` set ms = {''threadId''}"
    using d by (simp add: key_set_iff(1)) (simp add: THREAD_ID_ONLY_PARAMS_def)
  have "check_thread_id_only_shape p = Inr () \<longleftrightarrow>
      (\<exists>th. fst ` set ms = {''threadId''} \<and> hget ms ''threadId'' = Some (JStr th))"
    by (simp add: check_thread_id_only_shape_def Some keys str)
  then have "check_thread_id_only_shape p = Inr () \<longleftrightarrow> (\<exists>th. ms = [(''threadId'', JStr th)])"
    by (simp only: one)
  moreover have "check_resume_binding T t (JObj [(''threadId'', JStr th)]) = Inr () \<longleftrightarrow>
      tb_is_session_thread T t th" for th
    by (simp add: check_resume_binding_def)
  ultimately show ?thesis by (auto simp: p)
qed

lemma turn_iff:
  assumes "wf_json p"
  shows "check_phone_turn_projection p = Inr () \<longleftrightarrow> turn_params p"
proof (cases "as_object p")
  case None
  then show ?thesis by (simp add: check_phone_turn_projection_def turn_params_def as_object_None)
next
  case (Some ms)
  then have p: "p = JObj ms" by (simp add: as_object_Some_iff)
  with assms have d: "distinct (map fst ms)" by simp
  have bind: "(case r of Inl e \<Rightarrow> Inl e | Inr u \<Rightarrow> check_phone_input p) = Inr () \<longleftrightarrow>
      r = Inr () \<and> check_phone_input p = Inr ()" for r :: "string + unit"
    by (cases r) auto
  show ?thesis
    using key_set_iff(2) [OF d] phone_input_iff [OF assms]
    by (simp add: check_phone_turn_projection_def turn_params_def Some bind check_nulls_iff) (simp add: p)
qed

lemma steer_iff:
  assumes "wf_json p"
  shows "check_steer_binding T t p = Inr () \<longleftrightarrow>
     (\<exists>th tu. steer_params p th tu \<and> tb_bound_thread T t = Some th \<and> tb_is_active_turn T t th tu)"
proof (cases "as_object p")
  case None
  then show ?thesis by (simp add: check_steer_binding_def steer_params_def as_object_None)
next
  case (Some ms)
  then have p: "p = JObj ms" by (simp add: as_object_Some_iff)
  with assms have d: "distinct (map fst ms)" by simp
  have nulls: "(case r of Inl e \<Rightarrow> Inl (ShapeRefused e) | Inr u \<Rightarrow> k) = Inr () \<longleftrightarrow>
      r = Inr () \<and> k = Inr ()" for r :: "string + unit" and k
    by (cases r) auto
  show ?thesis
    using key_set_iff(3) [OF d] phone_input_iff [OF assms]
    by (cases "Option.bind (hget ms ''threadId'') as_str";
        cases "Option.bind (hget ms ''expectedTurnId'') as_str")
      (auto simp: check_steer_binding_def steer_params_def Some nulls check_nulls_iff p Inl_case
        bind_str [symmetric])
qed

lemma interrupt_iff:
  assumes "wf_json p"
  shows "check_interrupt_binding T t p = Inr () \<longleftrightarrow>
     (\<exists>th tu. interrupt_params p th tu \<and> tb_bound_thread T t = Some th \<and> tb_is_active_turn T t th tu)"
proof (cases "as_object p")
  case None
  then show ?thesis by (simp add: check_interrupt_binding_def interrupt_params_def as_object_None)
next
  case (Some ms)
  then have p: "p = JObj ms" by (simp add: as_object_Some_iff)
  with assms have d: "distinct (map fst ms)" by simp
  have keys: "sort (keys_of ms) = INTERRUPT_PARAMS \<longleftrightarrow> fst ` set ms = {''threadId'', ''turnId''}"
    using d by (simp add: key_set_iff(4)) (simp add: INTERRUPT_PARAMS_def)
  show ?thesis
    by (cases "Option.bind (hget ms ''threadId'') as_str"; cases "Option.bind (hget ms ''turnId'') as_str")
      (auto simp: check_interrupt_binding_def interrupt_params_def Some keys p bind_str [symmetric])
qed

subsection \<open>Reads\<close>

lemma is_uint32_iff: "is_uint32 v \<longleftrightarrow> (\<exists>n. v = JInt n \<and> 0 \<le> n \<and> n < 2 ^ 32)"
  by (cases v) (auto simp: is_uint32_def as_u64_def)

lemma cursor_iff:
  "check_cursor_thread L T t s = Inr () \<longleftrightarrow> cursor_ok L (tb_is_session_thread T t) s"
proof (cases "\<exists>ms. from_str L s = Some (JObj ms)")
  case False
  then show ?thesis
    by (auto simp: check_cursor_thread_def cursor_ok_def split: option.split json.split)
next
  case True
  then obtain ms where ms: "from_str L s = Some (JObj ms)" by blast
  then have d: "distinct (map fst ms)" using from_str_wf [OF ms] by simp
  have keys: "sort (keys_of ms) = CURSOR_MEMBERS \<longleftrightarrow>
      fst ` set ms = {''includeAnchor'', ''requestedThreadId'', ''rolloutOrdinal'', ''scope''}"
    using d by (simp add: key_set_iff(5)) (simp add: CURSOR_MEMBERS_def)
  define sel where "sel = (\<exists>th. hget ms ''requestedThreadId'' = Some (JStr th) \<and> tb_is_session_thread T t th)"
  define ord where "ord = (\<exists>n. hget ms ''rolloutOrdinal'' = Some (JInt n) \<and> 0 \<le> n \<and> n < 2 ^ 32)"
  define anc where "anc = (\<exists>b. hget ms ''includeAnchor'' = Some (JBool b))"
  define sco where "sco = (\<exists>sc k. hget ms ''scope'' = Some (JObj sc) \<and> length sc = 1 \<and>
     hget sc ''kind'' = Some (JStr k))"
  have rule: "cursor_ok L (tb_is_session_thread T t) s \<longleftrightarrow>
      fst ` set ms = {''includeAnchor'', ''requestedThreadId'', ''rolloutOrdinal'', ''scope''} \<and>
      sel \<and> ord \<and> anc \<and> sco"
    by (auto simp: cursor_ok_def ms sel_def ord_def anc_def sco_def)
  have sel: "(case hget ms ''requestedThreadId'' of
       Some (JStr named) \<Rightarrow> if tb_is_session_thread T t named then Inr () else Inl (f named)
     | _ \<Rightarrow> r) = Inr () \<longleftrightarrow> sel" if "r \<noteq> Inr ()" for f :: "string \<Rightarrow> string" and r
    using that by (cases "hget ms ''requestedThreadId''") (auto simp: sel_def split: json.split)
  have ord: "(case hget ms ''rolloutOrdinal'' of None \<Rightarrow> False | Some v \<Rightarrow> is_uint32 v) \<longleftrightarrow> ord"
    by (cases "hget ms ''rolloutOrdinal''") (auto simp: ord_def is_uint32_iff)
  have anc: "(case hget ms ''includeAnchor'' of None \<Rightarrow> False | Some v \<Rightarrow> is_boolean v) \<longleftrightarrow> anc"
    by (cases "hget ms ''includeAnchor''") (auto simp: anc_def is_boolean_def split: json.split)
  have kind: "(case hget sc ''kind'' of None \<Rightarrow> False | Some v \<Rightarrow> is_string v) \<longleftrightarrow>
      (\<exists>k. hget sc ''kind'' = Some (JStr k))" for sc
    by (cases "hget sc ''kind''") (auto simp: is_string_def split: json.split)
  have sco: "(case hget ms ''scope'' of
       Some (JObj sc) \<Rightarrow> if length sc = 1 \<and> (case hget sc ''kind'' of None \<Rightarrow> False | Some v \<Rightarrow> is_string v)
         then Inr () else r
     | _ \<Rightarrow> r) = Inr () \<longleftrightarrow> sco" if "r \<noteq> Inr ()" for r :: "string + unit"
    using that by (cases "hget ms ''scope''") (auto simp: sco_def kind split: json.split)
  have bind: "(case r of Inl e \<Rightarrow> Inl e | Inr u \<Rightarrow> k) = Inr () \<longleftrightarrow> r = Inr () \<and> k = Inr ()"
    for r :: "string + unit" and k
    by (cases r) auto
  show ?thesis
    unfolding rule check_cursor_thread_def ms
    by (simp only: option.case json.case Let_def keys bind sel [OF Inl_not_Inr] ord anc if_True if_False
        sco [OF Inl_not_Inr] split: if_split) simp
qed

lemma read_param_iff:
  "check_read_param L T t key rule v = Inr () \<longleftrightarrow> read_value_ok L (tb_is_session_thread T t) rule v"
proof (cases rule)
  case ThreadId
  then show ?thesis
    by (cases v) (simp_all add: check_read_param_def read_value_ok_def as_str_def)
next
  case Cursor
  then show ?thesis
    by (cases v) (simp_all add: check_read_param_def read_value_ok_def cursor_iff)
next
  case NullableString
  then show ?thesis
    by (cases v) (simp_all add: check_read_param_def read_value_ok_def)
next
  case NullableUint32
  then show ?thesis
    by (cases v) (simp_all add: check_read_param_def read_value_ok_def is_uint32_iff)
next
  case (Enum members)
  then show ?thesis
    by (cases v) (simp_all add: check_read_param_def read_value_ok_def Let_def)
qed

lemma check_captured_iff:
  "check_captured L T t obj captured = Inr () \<longleftrightarrow>
     (\<forall>(key, rule) \<in> set captured. \<forall>v. hget obj key = Some v \<longrightarrow>
        read_value_ok L (tb_is_session_thread T t) rule v)"
proof (induction captured)
  case (Cons kr captured)
  obtain key rule where kr: "kr = (key, rule)" by fastforce
  show ?case
  proof (cases "hget obj key")
    case None
    with Cons kr show ?thesis by simp
  next
    case (Some v)
    have "check_captured L T t obj (kr # captured) = Inr () \<longleftrightarrow>
        check_read_param L T t key rule v = Inr () \<and> check_captured L T t obj captured = Inr ()"
      by (cases "check_read_param L T t key rule v") (simp_all add: kr Some)
    with Cons kr Some show ?thesis by (simp add: read_param_iff)
  qed
qed simp

lemma read_captured_distinct: "distinct (map fst (read_captured_params m))"
  by (simp add: read_captured_params_def)

lemma read_iff:
  assumes "wf_json p"
  shows "check_read_binding L T t m p = Inr () \<longleftrightarrow> read_ok L (tb_is_session_thread T t) m p"
proof (cases "as_object p")
  case None
  then show ?thesis by (simp add: check_read_binding_def read_ok_def as_object_None)
next
  case (Some ms)
  then have p: "p = JObj ms" by (simp add: as_object_Some_iff)
  with assms have d: "distinct (map fst ms)" by simp
  let ?c = "read_captured_params m"
  let ?ok = "read_value_ok L (tb_is_session_thread T t)"
  have unknown: "\<not> 0 < length (filter (\<lambda>k. k \<notin> set (map fst ?c)) (keys_of ms)) \<longleftrightarrow>
      fst ` set ms \<subseteq> fst ` set ?c"
    by (auto simp: filter_empty_conv keys_of_def)
  have get: "hget ms k = Some v \<longleftrightarrow> (k, v) \<in> set ms" for k v
    using d by (auto dest: map_of_SomeD)
  have rules: "fst ` set ms \<subseteq> fst ` set ?c \<and>
      (\<forall>(key, rule) \<in> set ?c. \<forall>v. hget ms key = Some v \<longrightarrow> ?ok rule v) \<longleftrightarrow>
      (\<forall>(k, v) \<in> set ms. \<exists>rule. (k, rule) \<in> set ?c \<and> ?ok rule v)"
    (is "?l \<longleftrightarrow> ?r")
  proof
    assume l: ?l
    have "\<exists>rule. (k, rule) \<in> set ?c \<and> ?ok rule v" if kv: "(k, v) \<in> set ms" for k v
    proof -
      from l kv have "k \<in> fst ` set ?c" by force
      then obtain rule where r: "(k, rule) \<in> set ?c" by auto
      from l r kv have "?ok rule v" unfolding get by blast
      with r show ?thesis by blast
    qed
    then show ?r by blast
  next
    assume r: ?r
    have sub: "fst ` set ms \<subseteq> fst ` set ?c" using r by force
    have "?ok rule v" if kr: "(k, rule) \<in> set ?c" and kv: "hget ms k = Some v" for k rule v
    proof -
      from kv have "(k, v) \<in> set ms" by (simp only: get)
      with r obtain rule' where r': "(k, rule') \<in> set ?c" "?ok rule' v" by blast
      then have "rule' = rule"
        using kr read_captured_distinct [of m] by (metis map_of_eq_Some_iff option.inject)
      with r' show ?thesis by simp
    qed
    with sub show ?l by blast
  qed
  have "check_read_binding L T t m p = Inr () \<longleftrightarrow>
      fst ` set ms \<subseteq> fst ` set ?c \<and> hget ms ''threadId'' \<noteq> None \<and> check_captured L T t ms ?c = Inr ()"
    using unknown by (simp add: check_read_binding_def Some Let_def)
  then show ?thesis
    using rules by (simp only: check_captured_iff) (auto simp: read_ok_def p)
qed

section \<open>The whole decision\<close>

definition request_params :: "json \<Rightarrow> json" where
  "request_params obj = (case jget ''params'' obj of None \<Rightarrow> JObj [] | Some p \<Rightarrow> p)"

text \<open>What the session has to say about a request a rule allows.\<close>

definition session_admits :: "'t thread_binding \<Rightarrow> conn_id \<Rightarrow> 't \<Rightarrow> string \<Rightarrow> request_id \<Rightarrow> json \<Rightarrow> bool" where
  "session_admits T c t m i p =
     (if m = ''turn/start'' then
        (case Option.bind (jget ''threadId'' p) as_str of
           None \<Rightarrow> False
         | Some th \<Rightarrow> snd (tb_try_admit_idle_turn T t c i th (jget ''cwd'' p) (jget ''runtimeWorkspaceRoots'' p))
             = TurnAdmitted)
      else snd (tb_try_admit_request T t c i m) = Admitted)"

lemma is_forward_simps [simp]:
  "is_forward (Forward n)" "\<not> is_forward (SyntheticError fr n)" "\<not> is_forward (DropLogKeepOpen n)"
  "\<not> is_forward (DropCloseLeg n)" "\<not> is_forward (refuse_request L i code msg n)"
  "\<not> is_forward (ledger_refusal m v)"
  by (simp_all add: is_forward_def refuse_request_def ledger_refusal_def Let_def split: option.split)

lemma turn_start_forward:
  assumes "wf_json p"
  shows "is_forward (snd (classify_turn_start L T c t m (Some i) p)) \<longleftrightarrow>
     turn_params p \<and> session_admits T c t ''turn/start'' i p"
proof (cases "check_phone_turn_projection p")
  case (Inl e)
  then have "\<not> turn_params p" using turn_iff [OF assms] by simp
  with Inl show ?thesis by (simp add: classify_turn_start_def)
next
  case (Inr u)
  then have tp: "turn_params p" using turn_iff [OF assms] by simp
  show ?thesis
  proof (cases "Option.bind (jget ''threadId'' p) as_str")
    case None
    with Inr show ?thesis by (simp add: classify_turn_start_def session_admits_def)
  next
    case (Some th)
    obtain t1 v where v: "tb_try_admit_idle_turn T t c i th (jget ''cwd'' p) (jget ''runtimeWorkspaceRoots'' p) = (t1, v)"
      by fastforce
    show ?thesis
      by (cases v) (simp_all add: classify_turn_start_def Inr Some v session_admits_def tp)
  qed
qed

lemma turn_start_state:
  "fst (classify_turn_start L T c t m (Some i) p) =
     (if check_phone_turn_projection p = Inr () then
        (case Option.bind (jget ''threadId'' p) as_str of
           None \<Rightarrow> t
         | Some th \<Rightarrow> fst (tb_try_admit_idle_turn T t c i th (jget ''cwd'' p) (jget ''runtimeWorkspaceRoots'' p)))
      else t)"
  by (auto simp: classify_turn_start_def Let_def split: sum.split option.split prod.split turn_admission.split)

lemma disposition_state:
  "m \<noteq> ''turn/start'' \<Longrightarrow> fst (classify_request_disposition L T c t m i p) = t"
  by (simp add: classify_request_disposition_def disposition_request_cases(2) split: disposition.split)

lemma disposition_forward:
  assumes "wf_json p" "m \<noteq> ''turn/start''"
  shows "is_forward (snd (classify_request_disposition L T c t m (Some i) p)) \<longleftrightarrow> may_request L T t m p"
proof (cases "disposition_of KRequest m")
  case DForward
  then have "m \<in> {''initialize'', ''thread/loaded/list''}" by (simp only: disposition_request_cases)
  with DForward show ?thesis
    by (auto simp: classify_request_disposition_def intro: may_request.attach)
next
  case NullOwnedIdleTurn
  with assms(2) show ?thesis by (simp only: disposition_request_cases)
next
  case (Refuse r)
  have "\<not> may_request L T t m p"
  proof
    assume "may_request L T t m p"
    then have "m \<in> {''initialize'', ''thread/loaded/list'', ''thread/read'', ''thread/turns/list'',
        ''thread/items/list'', ''thread/resume'', ''turn/start'', ''turn/steer'', ''turn/interrupt''}"
      by (cases rule: may_request.cases) auto
    with Refuse show False by (auto simp: disposition_of_def BYPASS_METHODS_def)
  qed
  with Refuse show ?thesis by (simp add: classify_request_disposition_def split: prod.split)
next
  case ResumeSessionThread
  then have m: "m = ''thread/resume''" by (simp only: disposition_request_cases)
  have "is_forward (snd (classify_request_disposition L T c t m (Some i) p)) \<longleftrightarrow>
      check_thread_id_only_shape p = Inr () \<and> check_resume_binding T t p = Inr ()"
    using ResumeSessionThread
    by (cases "check_thread_id_only_shape p"; cases "check_resume_binding T t p")
      (simp_all add: classify_request_disposition_def)
  then show ?thesis by (simp add: resume_iff [OF assms(1)] m may_resume)
next
  case ReadSessionThread
  then have m: "m \<in> {''thread/read'', ''thread/turns/list'', ''thread/items/list''}"
    by (simp only: disposition_request_cases)
  have "is_forward (snd (classify_request_disposition L T c t m (Some i) p)) \<longleftrightarrow>
      check_read_binding L T t m p = Inr ()"
    using ReadSessionThread
    by (cases "check_read_binding L T t m p") (simp_all add: classify_request_disposition_def)
  with m show ?thesis
    by (auto simp: read_iff [OF assms(1)] may_read may_turns may_items)
next
  case SteerRunningTurn
  then have m: "m = ''turn/steer''" by (simp only: disposition_request_cases)
  have "is_forward (snd (classify_request_disposition L T c t m (Some i) p)) \<longleftrightarrow>
      check_steer_binding T t p = Inr ()"
    using SteerRunningTurn
    by (cases "check_steer_binding T t p")
      (simp_all add: classify_request_disposition_def split: steer_refusal.split)
  then show ?thesis by (simp add: steer_iff [OF assms(1)] m may_steer)
next
  case InterruptActiveTurn
  then have m: "m = ''turn/interrupt''" by (simp only: disposition_request_cases)
  have "is_forward (snd (classify_request_disposition L T c t m (Some i) p)) \<longleftrightarrow>
      check_interrupt_binding T t p = Inr ()"
    using InterruptActiveTurn
    by (cases "check_interrupt_binding T t p") (simp_all add: classify_request_disposition_def)
  then show ?thesis by (simp add: interrupt_iff [OF assms(1)] m may_interrupt)
qed

lemma turn_disposition: "disposition_of KRequest ''turn/start'' = NullOwnedIdleTurn"
  by (simp only: disposition_request_cases)

lemma request_forward_iff:
  assumes "wf_json p"
  shows "is_forward (snd (classify_request L T c t m (Some i) p)) \<longleftrightarrow>
     may_request L T t m p \<and> session_admits T c t m i p"
proof (cases "m = ''turn/start''")
  case True
  have d: "classify_request_disposition L T c t ''turn/start'' (Some i) p =
      classify_turn_start L T c t ''turn/start'' (Some i) p"
    by (simp add: classify_request_disposition_def turn_disposition)
  have "is_forward (snd (classify_request L T c t m (Some i) p)) \<longleftrightarrow>
      is_forward (snd (classify_turn_start L T c t m (Some i) p))"
    by (cases "classify_turn_start L T c t m (Some i) p") (simp add: classify_request_def True d TURN_METHOD_def)
  moreover have "turn_params p \<and> session_admits T c t ''turn/start'' i p \<longleftrightarrow>
      may_request L T t ''turn/start'' p \<and> session_admits T c t ''turn/start'' i p"
    by (auto simp: may_turn session_admits_def bind_str split: option.splits)
  ultimately show ?thesis unfolding True turn_start_forward [OF assms] by blast
next
  case False
  obtain a where d: "classify_request_disposition L T c t m (Some i) p = (t, a)"
    using disposition_state [OF False] by (metis prod.collapse)
  obtain t2 v where v: "tb_try_admit_request T t c i m = (t2, v)" by fastforce
  have "is_forward a \<longleftrightarrow> may_request L T t m p"
    using disposition_forward [OF assms False, of L T c t i] d by simp
  with v d False show ?thesis
    by (cases v) (simp_all add: classify_request_def session_admits_def TURN_METHOD_def)
qed

end
