(* ===== verification/Broker_Policy_Props.thy ===== *)
theory Broker_Policy_Props
  imports Broker_Policy Broker_Fanout
begin

text \<open>
  What the phone's leg lets through, of whole messages. The locale \<open>phone_env\<close> is what the
  classifier relies on of the session and of the capability registry; its lemmas are interpreted for
  the broker's own (\<open>broker\<close>) and for the fail-closed pair the source keeps for its tests
  (\<open>unbound\<close>).
\<close>

section \<open>Shapes\<close>

lemma classify_object_request:
  "classify_object ms = SRequest m i obj \<Longrightarrow> obj = JObj ms"
  by (auto simp: classify_object_def Let_def split: option.splits if_splits)

lemma classify_shape_wf:
  assumes "classify_shape L payload = SRequest m i obj"
  shows "wf_json obj" "wf_json (request_params obj)"
proof -
  from assms obtain s ms where s: "payload = PText s" "parse_no_dup L s = Inr (JObj ms)"
    and o: "classify_object ms = SRequest m i obj"
    by (auto simp: classify_shape_def split: ws_payload.splits sum.splits parse_error.splits json.splits)
  have "wf_json (JObj ms)"
    using s(2) by (simp add: parse_no_dup_Inr parse_no_dup_value_iff)
  with classify_object_request [OF o] show "wf_json obj" by simp
  then show "wf_json (request_params obj)"
    by (auto simp: request_params_def dest: wf_json_jget split: option.split)
qed

lemma decide_request:
  "decide L T C c (t, cs) (SRequest m i obj) =
     ((fst (classify_request L T c t m i (request_params obj)), cs),
      snd (classify_request L T c t m i (request_params obj)))"
  by (simp add: decide_def request_params_def case_prod_beta)

lemma decide_response:
  "decide L T C c (t, cs) (SResponse i obj) =
     ((t, fst (classify_response L T C t cs i)), snd (classify_response L T C t cs i))"
  by (simp add: decide_def case_prod_beta)

lemma decide_other:
  "sh \<in> {SBinary, SArray} \<union> range SMalformed \<union> {SNotification m obj | m obj. True} \<Longrightarrow>
     fst (decide L T C c (t, cs) sh) = (t, cs)"
  by (auto simp: decide_def)

lemma no_id_not_forwarded: "\<not> is_forward (snd (classify_request L T c t m None p))"
  by (simp add: classify_request_def classify_request_disposition_def)

lemma notification_forward: "is_forward (classify_notification m) \<longleftrightarrow> m = ''initialized''"
  by (simp add: classify_notification_def disposition_of_def)

lemma response_forward:
  "is_forward (snd (classify_response L T C t cs i)) \<longleftrightarrow> snd (cr_authorize C cs i (tb_bound_thread T t))"
  by (simp add: classify_response_def split: prod.split bool.split)

lemma request_policy:
  assumes "classify_shape L payload = SRequest m i obj"
  shows "is_forward (snd (classify L T C c (t, cs) payload)) \<longleftrightarrow>
     (\<exists>i'. i = Some i' \<and> may_request L T t m (request_params obj) \<and>
       session_admits T c t m i' (request_params obj))"
  using assms request_forward_iff [OF classify_shape_wf(2) [OF assms]]
  by (cases i) (simp_all add: classify_def decide_request no_id_not_forwarded)

text \<open>C1. The phone's policy, exactly. A message's bytes go upstream if and only if it is the
  \<open>initialized\<close> notification, a request with a usable id that one of the rules allows and the
  session admits, or a response whose capability is consumed at this moment. A batch, a binary
  frame, an unreadable message, a request without a usable id and every other method never do.\<close>
theorem phone_policy_exact:
  "is_forward (snd (classify L T C c (t, cs) payload)) =
     (case classify_shape L payload of
        SNotification m obj \<Rightarrow> m = ''initialized''
      | SRequest m (Some i) obj \<Rightarrow>
          may_request L T t m (request_params obj) \<and> session_admits T c t m i (request_params obj)
      | SResponse i obj \<Rightarrow> snd (cr_authorize C cs i (tb_bound_thread T t))
      | _ \<Rightarrow> False)"
proof (cases "classify_shape L payload")
  case (SRequest m i obj)
  from request_policy [OF this] SRequest show ?thesis by (cases i) simp_all
next
  case (SNotification m obj)
  then show ?thesis by (simp add: classify_def decide_def notification_forward)
next
  case (SResponse i obj)
  then show ?thesis by (simp add: classify_def decide_response response_forward)
qed (simp_all add: classify_def decide_def)

lemma refuse_request_keeps: "refuse_request L i code msg n \<noteq> DropCloseLeg w"
  by (simp add: refuse_request_def split: option.split)

lemma ledger_refusal_keeps: "ledger_refusal m v \<noteq> DropCloseLeg w"
  by (simp add: ledger_refusal_def Let_def)

lemma turn_start_keeps: "snd (classify_turn_start L T c t m i p) \<noteq> DropCloseLeg w"
  by (simp add: classify_turn_start_def Let_def refuse_request_keeps ledger_refusal_keeps
      split: sum.split option.split prod.split turn_admission.split)

lemma disposition_keeps: "snd (classify_request_disposition L T c t m i p) \<noteq> DropCloseLeg w"
  by (simp add: classify_request_disposition_def turn_start_keeps refuse_request_keeps
      split: disposition.split sum.split prod.split steer_refusal.split)

text \<open>The action a request ends in: the disposition's, or the ledger's refusal.\<close>

lemma request_action:
  "snd (classify_request L T c t m i p) = snd (classify_request_disposition L T c t m i p) \<or>
     (\<exists>v. snd (classify_request L T c t m i p) = ledger_refusal m v)"
  by (auto simp: classify_request_def split: prod.split option.split id_admission.split)

lemma request_keeps: "snd (classify_request L T c t m i p) \<noteq> DropCloseLeg w"
  using request_action [of L T c t m i p] disposition_keeps ledger_refusal_keeps by metis

text \<open>The state a request leaves: the disposition's, and the id ledger's on top of it.\<close>

lemma request_state:
  "fst (classify_request L T c t m i p) = fst (classify_request_disposition L T c t m i p) \<or>
     (\<exists>i'. i = Some i' \<and> m \<noteq> ''turn/start'' \<and>
        fst (classify_request L T c t m i p) = fst (tb_try_admit_request T t c i' m))"
proof -
  obtain t1 a where d: "classify_request_disposition L T c t m i p = (t1, a)" by fastforce
  show ?thesis
  proof (cases "is_forward a \<and> i \<noteq> None \<and> m \<noteq> TURN_METHOD")
    case False
    with d have "fst (classify_request L T c t m i p) = t1"
      by (auto simp: classify_request_def split: option.split)
    with d show ?thesis by simp
  next
    case True
    then obtain i' where i: "i = Some i'" by blast
    from True have "m \<noteq> ''turn/start''" by (simp add: TURN_METHOD_def)
    moreover from disposition_state [OF this] d have "t1 = t" by (metis fst_conv)
    moreover obtain t2 v where "tb_try_admit_request T t c i' m = (t2, v)" by fastforce
    ultimately have "fst (classify_request L T c t m i p) = fst (tb_try_admit_request T t c i' m)"
      using True i d by (cases v) (simp_all add: classify_request_def)
    with i \<open>m \<noteq> ''turn/start''\<close> show ?thesis by blast
  qed
qed

text \<open>The leg is closed for exactly the shapes no honest client sends, a binary frame, a batch
  and a malformed message; a refused request, notification or answer keeps it open.\<close>
theorem only_hostile_shapes_close_the_leg:
  "(\<exists>note. snd (classify L T C c (t, cs) payload) = DropCloseLeg note) \<longleftrightarrow>
     (case classify_shape L payload of SBinary \<Rightarrow> True | SArray \<Rightarrow> True | SMalformed why \<Rightarrow> True | _ \<Rightarrow> False)"
proof (cases "classify_shape L payload")
  case (SRequest m i obj)
  then show ?thesis by (simp add: classify_def decide_request request_keeps)
next
  case (SNotification m obj)
  then show ?thesis
    by (simp add: classify_def decide_def classify_notification_def split: disposition.split)
next
  case (SResponse i obj)
  then show ?thesis
    by (simp add: classify_def decide_response classify_response_def split: prod.split bool.split)
qed (simp_all add: classify_def decide_def)

section \<open>The contract with the session and the registry\<close>

locale phone_env =
  fixes T :: "'t thread_binding" and C :: "'c capability_registry"
  assumes admitted_names_head:
      "snd (tb_try_admit_idle_turn T t c i th cwd roots) = TurnAdmitted \<Longrightarrow> tb_bound_thread T t = Some th"
    and head_readable: "tb_bound_thread T t = Some th \<Longrightarrow> tb_is_session_thread T t th"
    and turn_keeps_head:
      "tb_bound_thread T (fst (tb_try_admit_idle_turn T t c i th cwd roots)) = tb_bound_thread T t"
    and request_keeps_head: "tb_bound_thread T (fst (tb_try_admit_request T t c i m)) = tb_bound_thread T t"
    and authorized_on_head: "snd (cr_authorize C cs i h) \<Longrightarrow> h \<noteq> None"
    and refused_untouched: "\<not> snd (cr_authorize C cs i h) \<Longrightarrow> fst (cr_authorize C cs i h) = cs"
begin

lemma may_request_thread:
  assumes "may_request L T t m p" "session_admits T c t m i p" "m \<notin> {''initialize'', ''thread/loaded/list''}"
  shows "\<exists>th. jget ''threadId'' p = Some (JStr th) \<and> tb_is_session_thread T t th \<and>
     (m \<in> {''turn/start'', ''turn/steer'', ''turn/interrupt''} \<longrightarrow> tb_bound_thread T t = Some th)"
  using assms(1)
proof (cases rule: may_request.cases)
  case read
  from read(2) obtain ms v where ms: "p = JObj ms" "hget ms ''threadId'' = Some v"
    and ok: "\<forall>(k, v) \<in> set ms. \<exists>rule. (k, rule) \<in> set (read_captured_params m) \<and>
        read_value_ok L (tb_is_session_thread T t) rule v"
    by (auto simp: read_ok_def)
  from ok hget_in_set [OF ms(2)] obtain rule where
    r: "(''threadId'', rule) \<in> set (read_captured_params m)" "read_value_ok L (tb_is_session_thread T t) rule v"
    by blast
  then have "rule = ThreadId" by (auto simp: read_captured_params_def split: if_splits)
  with r ms read(1) show ?thesis by (auto simp: read_value_ok_def)
next
  case (turn th)
  with assms(2) have "snd (tb_try_admit_idle_turn T t c i th (jget ''cwd'' p) (jget ''runtimeWorkspaceRoots'' p))
      = TurnAdmitted"
    by (simp add: session_admits_def)
  from admitted_names_head [OF this] turn head_readable show ?thesis by auto
next
  case (steer th tu)
  with head_readable show ?thesis by (auto simp: steer_params_def)
next
  case (interrupt th tu)
  with head_readable show ?thesis by (auto simp: interrupt_params_def)
qed (use assms(3) in auto)

lemma turn_start_head:
  "tb_bound_thread T (fst (classify_turn_start L T c t m (Some i) p)) = tb_bound_thread T t"
  by (simp add: turn_start_state turn_keeps_head split: option.split)

lemma disposition_head:
  "tb_bound_thread T (fst (classify_request_disposition L T c t m i p)) = tb_bound_thread T t"
proof (cases "m = ''turn/start''")
  case True
  then show ?thesis
    by (cases i) (simp_all add: classify_request_disposition_def turn_disposition turn_start_head)
qed (simp add: disposition_state)

lemma classify_keeps_head:
  "tb_bound_thread T (fst (fst (classify L T C c (t, cs) payload))) = tb_bound_thread T t"
proof (cases "classify_shape L payload")
  case (SRequest m i obj)
  have "tb_bound_thread T (fst (classify_request L T c t m i (request_params obj))) = tb_bound_thread T t"
    using request_state [of L T c t m i "request_params obj"] disposition_head request_keeps_head by metis
  with SRequest show ?thesis by (simp add: classify_def decide_request)
qed (simp_all add: classify_def decide_def classify_response_def case_prod_beta)

lemma unforwarded_keeps_registry:
  "\<not> is_forward (snd (classify L T C c (t, cs) payload)) \<Longrightarrow>
     snd (fst (classify L T C c (t, cs) payload)) = cs"
proof (cases "classify_shape L payload")
  case (SResponse i obj)
  assume "\<not> is_forward (snd (classify L T C c (t, cs) payload))"
  with SResponse have "\<not> snd (cr_authorize C cs i (tb_bound_thread T t))"
    by (simp add: classify_def decide_response response_forward)
  from refused_untouched [OF this] SResponse show ?thesis
    by (cases "cr_authorize C cs i (tb_bound_thread T t)"; cases "snd (cr_authorize C cs i (tb_bound_thread T t))")
      (simp_all add: classify_def decide_response classify_response_def)
qed (simp_all add: classify_def decide_def case_prod_beta)

end

interpretation unbound: phone_env no_threads no_capabilities
  by unfold_locales
    (simp_all add: no_threads_def no_capabilities_def no_capabilities_authorize_def)

interpretation broker: phone_env session_threads "leg_capabilities L" for L
proof (unfold_locales, goal_cases)
  case (1 t c i th cwd roots)
  then obtain g1 where "try_admit_idle_turn t c i th cwd roots = (g1, TurnAdmitted)"
    by (metis prod.collapse session_threads_def thread_binding.select_convs(3))
  from admitted_idle_turn [OF this] show ?case
    by (auto simp: session_threads_def bound_thread_def)
next
  case (2 t th)
  then show ?case
    by (auto simp: session_threads_def bound_thread_def is_session_thread_def split: head.splits if_splits)
next
  case (3 t c i th cwd roots)
  show ?case by (simp add: session_threads_def bound_thread_def)
next
  case (4 t c i m)
  show ?case by (simp add: session_threads_def bound_thread_def try_admit_request_def)
next
  case (5 cs i h)
  then show ?case by (auto simp: leg_capabilities_def authorize_def case_prod_beta split: if_splits)
next
  case (6 cs i h)
  then show ?case
    by (cases cs) (auto simp: leg_capabilities_def authorize_eq split: option.splits if_splits)
qed

section \<open>The broker\<close>

text \<open>The phone's leg of a running broker: the session, the shared arbiter and the leg's view.\<close>

abbreviation phone_classify ::
  "ext \<Rightarrow> conn_id \<Rightarrow> binding \<times> arbiter \<times> leg \<Rightarrow> ws_payload \<Rightarrow>
     (binding \<times> arbiter \<times> leg) \<times> relay_action" where
  "phone_classify L c st payload \<equiv> classify L session_threads (leg_capabilities L) c st payload"

lemma session_threads_simps [simp]:
  "tb_bound_thread session_threads = bound_thread"
  "tb_is_session_thread session_threads = is_session_thread"
  "tb_is_active_turn session_threads = is_active_turn"
  "tb_try_admit_request session_threads = try_admit_request"
  "tb_try_admit_idle_turn session_threads = try_admit_idle_turn"
  by (simp_all add: session_threads_def)

lemma forwarded_request:
  assumes "is_forward (snd (classify L T C c (t, cs) payload))" "classify_shape L payload = SRequest m i obj"
  shows "\<exists>i'. i = Some i' \<and> may_request L T t m (request_params obj) \<and>
     session_admits T c t m i' (request_params obj)"
  using assms by (simp add: request_policy)

end
