(* ===== verification/Broker_Phone.thy ===== *)
theory Broker_Phone
  imports Broker_Policy_Props Broker_Fanout_Bounds
begin

text \<open>
  The phone's leg of a running broker, over the session of \<open>Broker_Session\<close> and the registry of
  \<open>Broker_Capability\<close>: what a forwarded request names, what a forwarded turn carries, that a refusal
  leaves no trace and is answered on its id, and what a refusal's note may say.
\<close>

section \<open>What goes upstream\<close>

text \<open>C2. A phone's request reaches only this session. Whatever request is forwarded, the two attach
  calls apart, names by \<open>threadId\<close> a thread of the session; a turn, a steer and an interrupt name
  the one the keyboard is on, and a steer and an interrupt a turn running there; and forwarding it
  does not move the head.\<close>
theorem forwarded_request_stays_in_the_session:
  assumes "is_forward (snd (phone_classify L c (g, al) payload))"
    and "classify_shape L payload = SRequest m i obj"
    and "m \<notin> {''initialize'', ''thread/loaded/list''}"
  shows "\<exists>th. jpointer [''threadId''] (request_params obj) = Some (JStr th) \<and> is_session_thread g th \<and>
     (m \<in> {''turn/start'', ''turn/steer'', ''turn/interrupt''} \<longrightarrow> bound_thread g = Some th) \<and>
     (m = ''turn/steer'' \<longrightarrow> (\<exists>tu. jget ''expectedTurnId'' (request_params obj) = Some (JStr tu) \<and>
        is_active_turn g th tu)) \<and>
     (m = ''turn/interrupt'' \<longrightarrow> (\<exists>tu. jget ''turnId'' (request_params obj) = Some (JStr tu) \<and>
        is_active_turn g th tu)) \<and>
     bound_thread (fst (fst (phone_classify L c (g, al) payload))) = bound_thread g"
proof -
  from forwarded_request [OF assms(1,2)] obtain i'
    where may: "may_request L session_threads g m (request_params obj)"
      and adm: "session_admits session_threads c g m i' (request_params obj)" by blast
  from broker.may_request_thread [OF may adm assms(3)] obtain th
    where th: "jget ''threadId'' (request_params obj) = Some (JStr th)" "is_session_thread g th"
      "m \<in> {''turn/start'', ''turn/steer'', ''turn/interrupt''} \<longrightarrow> bound_thread g = Some th" by auto
  have "tb_bound_thread session_threads (fst (fst (phone_classify L c (g, al) payload))) =
      tb_bound_thread session_threads g"
    by (rule broker.classify_keeps_head)
  then have head: "bound_thread (fst (fst (phone_classify L c (g, al) payload))) = bound_thread g" by simp
  have steer: "\<exists>tu. jget ''expectedTurnId'' (request_params obj) = Some (JStr tu) \<and> is_active_turn g th tu"
    if "m = ''turn/steer''"
  proof -
    from may that obtain th' tu where "steer_params (request_params obj) th' tu" "is_active_turn g th' tu"
      by (auto simp only: may_steer session_threads_simps)
    moreover from this obtain ms where "request_params obj = JObj ms" "hget ms ''threadId'' = Some (JStr th')"
      "hget ms ''expectedTurnId'' = Some (JStr tu)" unfolding steer_params_def by blast
    ultimately show ?thesis using th(1) by simp
  qed
  have intr: "\<exists>tu. jget ''turnId'' (request_params obj) = Some (JStr tu) \<and> is_active_turn g th tu"
    if "m = ''turn/interrupt''"
  proof -
    from may that obtain th' tu where "interrupt_params (request_params obj) th' tu" "is_active_turn g th' tu"
      by (auto simp only: may_interrupt session_threads_simps)
    moreover from this obtain ms where "request_params obj = JObj ms" "hget ms ''threadId'' = Some (JStr th')"
      "hget ms ''turnId'' = Some (JStr tu)" unfolding interrupt_params_def by blast
    ultimately show ?thesis using th(1) by simp
  qed
  from th head steer intr show ?thesis by (intro exI [of _ th]) simp
qed

lemma turn_admitted_state:
  "try_admit_idle_turn g c i th cwd roots = (g1, TurnAdmitted) \<Longrightarrow>
     turn_in_flight g1 c i th \<and> outstanding g1 c i \<and> \<not> busy_on (turns g) th \<and> bound_thread g = Some th"
proof -
  assume a: "try_admit_idle_turn g c i th cwd roots = (g1, TurnAdmitted)"
  from admitted_idle_turn [OF a] obtain s g0 where s: "head g = On s" "\<not> left s" "thread s = th"
    and idle: "\<not> busy_on (turns g) th" and adm: "admit_id g c i TURN_METHOD = (g0, Admitted)"
    and g1: "g1 = g0\<lparr>turns := turn_admit (turns g) c i th\<rparr>" by blast
  from admitted_outstanding [OF adm] g1 have "outstanding g1 c i" by (simp add: outstanding_def)
  with s idle g1 show ?thesis
    by (simp add: turn_in_flight_def turn_admit_def hget_hput bound_thread_def)
qed

text \<open>C3. A phone's turn is text and nothing else. A forwarded \<open>turn/start\<close> carries exactly the
  fourteen parameters of the phone's own producer: all null but the thread, which is the head and
  runs no turn, and one text item of at most 8192 bytes. From that moment its id is outstanding and
  its thread busy.\<close>
theorem forwarded_turn_carries_no_policy:
  assumes "is_forward (snd (phone_classify L c (g, al) payload))"
    and "classify_shape L payload = SRequest ''turn/start'' (Some i) obj"
  shows "\<exists>ms th. request_params obj = JObj ms \<and> fst ` set ms = set PHONE_TURN_PARAMS \<and>
     (\<forall>(k, v) \<in> set ms. k \<noteq> ''threadId'' \<and> k \<noteq> ''input'' \<longrightarrow> v = JNull) \<and>
     hget ms ''threadId'' = Some (JStr th) \<and> one_text_item (JObj ms) \<and>
     bound_thread g = Some th \<and> \<not> busy_on (turns g) th \<and>
     outstanding (fst (fst (phone_classify L c (g, al) payload))) c i \<and>
     busy_on (turns (fst (fst (phone_classify L c (g, al) payload)))) th"
proof -
  let ?p = "request_params obj"
  from forwarded_request [OF assms] have may: "may_request L session_threads g ''turn/start'' ?p"
    and adm: "session_admits session_threads c g ''turn/start'' i ?p" by simp_all
  then obtain th where tp: "turn_params ?p" and th: "jget ''threadId'' ?p = Some (JStr th)"
    by (auto simp: may_turn)
  then obtain ms where ms: "?p = JObj ms" "fst ` set ms = set PHONE_TURN_PARAMS"
    "\<forall>k \<in> set PHONE_TURN_NULL_PARAMS. hget ms k = Some JNull" "one_text_item ?p"
    by (auto simp: turn_params_def)
  have wf: "wf_json ?p" by (rule classify_shape_wf(2) [OF assms(2)])
  have null: "v = JNull" if "(k, v) \<in> set ms" "k \<noteq> ''threadId''" "k \<noteq> ''input''" for k v
  proof -
    from that ms(2) have "k \<in> set PHONE_TURN_PARAMS" by force
    then have "k \<in> set PHONE_TURN_NULL_PARAMS"
      unfolding PHONE_TURN_PARAMS_def PHONE_TURN_NULL_PARAMS_def using that(2,3) by simp
    with ms(3) have "hget ms k = Some JNull" by blast
    with that(1) wf ms(1) show ?thesis by simp
  qed
  obtain g1 where g1: "try_admit_idle_turn g c i th (jget ''cwd'' ?p) (jget ''runtimeWorkspaceRoots'' ?p) = (g1, TurnAdmitted)"
    using adm th
    by (cases "try_admit_idle_turn g c i th (jget ''cwd'' ?p) (jget ''runtimeWorkspaceRoots'' ?p)")
      (simp add: session_admits_def)
  have "check_phone_turn_projection ?p = Inr ()" using tp turn_iff [OF wf] by simp
  then have "fst (classify_request L session_threads c g ''turn/start'' (Some i) ?p) = g1"
    using request_state [of L session_threads c g "''turn/start''" "Some i" ?p] g1 th
    by (simp add: classify_request_disposition_def turn_disposition turn_start_state)
  then have "fst (fst (phone_classify L c (g, al) payload)) = g1"
    using assms(2) by (simp add: classify_def decide_request)
  with turn_admitted_state [OF g1] null ms th show ?thesis
    by (intro exI [of _ ms] exI [of _ th]) (auto simp: in_flight_busy)
qed

section \<open>What a refusal leaves behind\<close>

lemma refused_id:
  "admit_id g c i m = (g1, v) \<Longrightarrow> v \<noteq> Admitted \<Longrightarrow> outstanding g1 c' i' = outstanding g c' i'"
  by (auto simp: admit_id_def Let_def outstanding_def hget_hput split: if_splits option.splits)

lemma refused_idle_turn:
  "try_admit_idle_turn g c i th cwd roots = (g1, v) \<Longrightarrow> v \<noteq> TurnAdmitted \<Longrightarrow>
     outstanding g1 c' i' = outstanding g c' i'"
proof -
  assume a: "try_admit_idle_turn g c i th cwd roots = (g1, v)" and v: "v \<noteq> TurnAdmitted"
  obtain g0 w where adm: "admit_id g c i TURN_METHOD = (g0, w)" by fastforce
  from a v adm refused_id [OF adm] show ?thesis
    by (auto simp: try_admit_idle_turn_def admit_turn_on_def outstanding_def
        split: head.splits if_splits id_admission.splits)
qed

definition same_session :: "binding \<Rightarrow> binding \<Rightarrow> bool" where
  "same_session g' g \<longleftrightarrow> head g' = head g \<and> turns g' = turns g \<and> retired g' = retired g \<and>
     (\<forall>c i. outstanding g' c i = outstanding g c i)"

lemma same_session_refl [simp]: "same_session g g"
  by (simp add: same_session_def)

lemma refused_request_same:
  assumes "\<not> is_forward (snd (classify_request L session_threads c g m (Some i) p))" "wf_json p"
  shows "same_session (fst (classify_request L session_threads c g m (Some i) p)) g"
proof (cases "m = ''turn/start''")
  case True
  then have st: "fst (classify_request L session_threads c g m (Some i) p) =
      fst (classify_turn_start L session_threads c g m (Some i) p)"
    using request_state [of L session_threads c g m "Some i" p]
    by (simp add: classify_request_disposition_def turn_disposition)
  from assms True have no: "\<not> (turn_params p \<and> session_admits session_threads c g ''turn/start'' i p)"
    using request_forward_iff [OF assms(2), of L session_threads c g m i] may_turn [of L session_threads g p]
    by (auto simp: session_admits_def bind_str split: option.splits)
  show ?thesis
  proof (cases "turn_params p")
    case False
    with st turn_iff [OF assms(2)] show ?thesis by (simp add: turn_start_state)
  next
    case True
    show ?thesis
    proof (cases "Option.bind (jget ''threadId'' p) as_str")
      case None
      with st show ?thesis by (simp add: turn_start_state)
    next
      case (Some th)
      obtain g1 v where t: "try_admit_idle_turn g c i th (jget ''cwd'' p) (jget ''runtimeWorkspaceRoots'' p) = (g1, v)"
        by fastforce
      with True Some no have "v \<noteq> TurnAdmitted" by (simp add: session_admits_def)
      with t have "same_session g1 g"
        using refused_idle_turn [OF t] refused_idle_turn_turns [OF t]
          idle_turn_frame [of g c i th "jget ''cwd'' p" "jget ''runtimeWorkspaceRoots'' p"]
        by (simp add: same_session_def)
      with st t Some show ?thesis by (simp add: turn_start_state)
    qed
  qed
next
  case False
  obtain a where d: "classify_request_disposition L session_threads c g m (Some i) p = (g, a)"
    using disposition_state [OF False] by (metis prod.collapse)
  obtain g1 v where t: "admit_id g c i m = (g1, v)" by fastforce
  have "same_session g1 g" if "v \<noteq> Admitted"
    using refused_id [OF t that] admit_id_frame [of g c i m] t by (simp add: same_session_def)
  with assms(1) d t False show ?thesis
    by (cases v) (auto simp: classify_request_def TURN_METHOD_def try_admit_request_def split: if_splits)
qed

text \<open>A refusal leaves no trace. If a phone's message is not forwarded, the arbiter and the leg are
  untouched, and in the session the head, the turns, the readable threads and every outstanding id
  are what they were.\<close>
theorem refused_message_leaves_no_trace:
  assumes "\<not> is_forward (snd (phone_classify L c (g, al) payload))"
  shows "snd (fst (phone_classify L c (g, al) payload)) = al \<and>
     same_session (fst (fst (phone_classify L c (g, al) payload))) g"
proof (cases "classify_shape L payload")
  case (SRequest m i obj)
  have "same_session (fst (classify_request L session_threads c g m i (request_params obj))) g"
  proof (cases i)
    case None
    then show ?thesis by (simp add: classify_request_def classify_request_disposition_def)
  next
    case (Some i')
    with assms SRequest refused_request_same [OF _ classify_shape_wf(2) [OF SRequest]] show ?thesis
      by (simp add: classify_def decide_request)
  qed
  with SRequest broker.unforwarded_keeps_registry [OF assms] show ?thesis
    by (simp add: classify_def decide_request)
next
  case (SResponse i obj)
  with broker.unforwarded_keeps_registry [OF assms] show ?thesis
    by (simp add: classify_def decide_response)
qed (simp_all add: classify_def decide_def)

end
