(* ===== verification/Broker_Notes.thy ===== *)
theory Broker_Notes
  imports Broker_Phone
begin

text \<open>
  What a refusal says: the synthetic error frame the phone reads, and the note that goes to
  \<open>broker.log\<close>. \<open>safe_result\<close> says of a check that the detail it refuses with has no control byte;
  the notes of \<open>classify\<close> inherit it.
\<close>

section \<open>The error frame\<close>

definition refusal_object :: "request_id \<Rightarrow> string \<Rightarrow> json" where
  "refusal_object i message =
     JObj [(''error'', JObj [(''code'', JInt (- 32001)), (''message'', JStr message)]), (''id'', id_to_value i)]"









definition is_drop :: "relay_action \<Rightarrow> bool" where
  "is_drop a = (case a of DropLogKeepOpen note \<Rightarrow> True | _ \<Rightarrow> False)"

lemma is_drop_simps [simp]:
  "\<not> is_drop (Forward n)" "\<not> is_drop (SyntheticError f n)" "is_drop (DropLogKeepOpen n)"
  "\<not> is_drop (refuse_request L (Some i) code msg n)" "is_drop (ledger_refusal m v)"
  by (simp_all add: is_drop_def refuse_request_def ledger_refusal_def Let_def)






section \<open>The note\<close>

definition note_of :: "relay_action \<Rightarrow> string" where
  "note_of a = (case a of Forward n \<Rightarrow> n | SyntheticError frame n \<Rightarrow> n | DropLogKeepOpen n \<Rightarrow> n
     | DropCloseLeg n \<Rightarrow> n)"

lemma note_of_simps [simp]:
  "note_of (Forward n) = n" "note_of (SyntheticError fr n) = n" "note_of (DropLogKeepOpen n) = n"
  "note_of (DropCloseLeg n) = n"
  by (simp_all add: note_of_def)

definition safe_result :: "string + unit \<Rightarrow> bool" where
  "safe_result r = (case r of Inl e \<Rightarrow> log_safe e | Inr u \<Rightarrow> True)"

lemma safe_result_simps [simp]: "safe_result (Inl e) = log_safe e" "safe_result (Inr u)"
  by (simp_all add: safe_result_def)

lemma safe_result_Inl: "safe_result r \<Longrightarrow> r = Inl e \<Longrightarrow> log_safe e"
  by simp

lemmas printable = log_safe_char_def byte_def

lemma safe_refuse_request [simp]:
  "log_safe (note_of (refuse_request L i code msg n)) = log_safe n"
  by (simp add: refuse_request_def printable split: option.split)

lemma safe_ledger_refusal [simp]: "log_safe (note_of (ledger_refusal m v))"
  by (cases v) (simp_all add: ledger_refusal_def printable)

lemma safe_keys_detail [simp]: "log_safe (keys_detail ks ex w) = log_safe w"
  by (simp add: keys_detail_def printable)

lemma safe_not_object [simp]: "log_safe (not_object_detail p)"
  by (simp add: not_object_detail_def printable)

lemma safe_not_session [simp]: "log_safe (not_session_detail i)"
  by (simp add: not_session_detail_def printable)

lemma safe_not_active [simp]: "log_safe (not_active_thread_detail i)"
  by (simp add: not_active_thread_detail_def printable)

lemma safe_thread_id_only: "safe_result (check_thread_id_only_shape p)"
  by (simp add: check_thread_id_only_shape_def Let_def printable split: option.split)

lemma safe_resume: "safe_result (check_resume_binding T t p)"
  by (simp add: check_resume_binding_def printable split: option.split)

lemma safe_text_item: "safe_result (check_phone_text_item v)"
  by (simp add: check_phone_text_item_def Let_def printable split: option.split)

lemma safe_phone_input: "safe_result (check_phone_input p)"
proof -
  have "safe_result (case check_phone_text_item v of Inl why \<Rightarrow> Inl (''params.input[0]: '' @ why) | Inr u \<Rightarrow> Inr ())"
    for v
    using safe_text_item [of v] by (cases "check_phone_text_item v") (simp_all add: printable)
  then show ?thesis by (simp add: check_phone_input_def printable split: option.split)
qed

lemma safe_nulls:
  "(\<And>k o'. k \<in> set ks \<Longrightarrow> log_safe (d k o')) \<Longrightarrow> safe_result (check_nulls d obj ks)"
  by (induction ks) auto

lemma safe_interrupt: "safe_result (check_interrupt_binding T t p)"
  by (simp add: check_interrupt_binding_def Let_def printable split: option.split)

lemma safe_turn_projection: "safe_result (check_phone_turn_projection p)"
proof (cases "as_object p")
  case (Some obj)
  let ?d = "\<lambda>key other. ''params.'' @ key @ '': this leg's producer writes JSON null; a ''
     @ value_shape other @ '' is a shape it does not author''"
  have "log_safe (?d k o')" if "k \<in> set PHONE_TURN_NULL_PARAMS" for k o'
    using that by (auto simp: PHONE_TURN_NULL_PARAMS_def printable)
  then have "safe_result (check_nulls ?d obj PHONE_TURN_NULL_PARAMS)" by (rule safe_nulls)
  with Some show ?thesis
    by (cases "check_nulls ?d obj PHONE_TURN_NULL_PARAMS")
      (simp_all add: check_phone_turn_projection_def Let_def safe_phone_input printable)
qed (simp add: check_phone_turn_projection_def)

fun steer_detail :: "steer_refusal \<Rightarrow> string" where
  "steer_detail (ShapeRefused d) = d"
| "steer_detail (BindingRefused d) = d"

lemma safe_steer: "check_steer_binding T t p = Inl r \<Longrightarrow> log_safe (steer_detail r)"
proof (cases "as_object p")
  case None
  assume "check_steer_binding T t p = Inl r"
  with None show ?thesis by (auto simp: check_steer_binding_def)
next
  case (Some obj)
  assume s: "check_steer_binding T t p = Inl r"
  let ?d = "\<lambda>key other. ''params.'' @ key @ '': captured boundary '' @ em_dash
     @ '' every measured steer sent this key as JSON null; a '' @ value_shape other
     @ '' was never captured and cannot be proven''"
  have "log_safe (?d k o')" if "k \<in> set STEER_NULL_PARAMS" for k o'
    using that by (auto simp: STEER_NULL_PARAMS_def printable)
  then have n: "safe_result (check_nulls ?d obj STEER_NULL_PARAMS)" by (rule safe_nulls)
  have i: "safe_result (check_phone_input p)" by (rule safe_phone_input)
  have "case check_steer_binding T t p of Inl r \<Rightarrow> log_safe (steer_detail r) | Inr u \<Rightarrow> True"
    using n i
    by (cases "check_nulls ?d obj STEER_NULL_PARAMS"; cases "check_phone_input p";
        cases "Option.bind (hget obj ''threadId'') as_str"; cases "Option.bind (hget obj ''expectedTurnId'') as_str")
      (simp_all add: check_steer_binding_def Some Let_def printable)
  with s show ?thesis by simp
qed

text \<open>A reader whose strings are UTF-8, as every Rust \<open>String\<close> is.\<close>

definition reads_utf8 :: "ext \<Rightarrow> bool" where
  "reads_utf8 L \<longleftrightarrow> (\<forall>s ms. from_str L s = Some (JObj ms) \<longrightarrow> (\<forall>k \<in> fst ` set ms. utf8 k))"

lemma utf8_ascii_list: "(\<And>s c. s \<in> set ss \<Longrightarrow> c \<in> set s \<Longrightarrow> byte c < 128) \<Longrightarrow> log_safe (debug_strs v ss)"
  by (rule log_safe_debug_strs) (auto intro: ascii_utf8)

lemma safe_cursor_members: "log_safe (debug_strs v CURSOR_MEMBERS)"
  by (rule utf8_ascii_list) (auto simp: CURSOR_MEMBERS_def byte_def)

lemma safe_cursor: "reads_utf8 L \<Longrightarrow> safe_result (check_cursor_thread L T t s)"
proof (cases "\<exists>ms. from_str L s = Some (JObj ms)")
  case False
  then show ?thesis
    by (auto simp: check_cursor_thread_def printable split: option.split json.split)
next
  case True
  then obtain ms where ms: "from_str L s = Some (JObj ms)" by blast
  assume "reads_utf8 L"
  with ms have "log_safe (debug_strs v (sort (keys_of ms)))" for v
    unfolding reads_utf8_def by (intro log_safe_debug_strs) (auto simp: keys_of_def)
  note names = this
  have sel: "safe_result (case v of Some (JStr named) \<Rightarrow> if tb_is_session_thread T t named then Inr () else Inl (f named)
      | _ \<Rightarrow> Inl w)" if "\<And>n. log_safe (f n)" "log_safe w" for v f w
    using that by (simp split: option.split json.split)
  have bind: "safe_result (case r of Inl e \<Rightarrow> Inl e | Inr u \<Rightarrow> k)" if "safe_result r" "safe_result k"
    for r :: "string + unit" and k
    using that by (cases r) simp_all
  have scope: "safe_result (case v of Some (JObj sc) \<Rightarrow> if P sc then Inr () else Inl w | _ \<Rightarrow> Inl w)"
    if "log_safe w" for v P w
    using that by (simp split: option.split json.split)
  have cond: "safe_result (if b then r else r')" if "safe_result r" "safe_result r'" for b r r'
    using that by simp
  show ?thesis
    unfolding check_cursor_thread_def ms option.case json.case Let_def
    by (intro cond bind sel scope) (simp_all add: names safe_cursor_members printable)
qed

lemma safe_param_detail [simp]: "log_safe (param_detail k v rule) \<longleftrightarrow> log_safe k \<and> log_safe rule"
  by (simp add: param_detail_def printable)

lemma safe_read_param:
  assumes "reads_utf8 L" "log_safe key"
    "\<And>members. rule = Enum members \<Longrightarrow> log_safe (debug_strs (uni_verbatim L) members)"
  shows "safe_result (check_read_param L T t key rule v)"
proof (cases rule)
  case (Enum members)
  with assms(2) assms(3) [OF Enum] show ?thesis
    by (cases v) (simp_all add: check_read_param_def Let_def printable)
next
  case Cursor
  with assms(2) safe_cursor [OF assms(1)] show ?thesis
    by (cases v) (simp_all add: check_read_param_def printable)
next
  case ThreadId
  with assms(2) show ?thesis
    by (simp add: check_read_param_def printable split: option.split)
qed (use assms(2) in \<open>cases v; simp add: check_read_param_def printable\<close>)+

lemma captured_safe:
  assumes "(key, rule) \<in> set (read_captured_params m)"
  shows "log_safe key" "rule = Enum members \<Longrightarrow> log_safe (debug_strs v members)"
    "\<And>c. c \<in> set key \<Longrightarrow> byte c < 128"
proof -
  from assms have k: "key \<in> {''threadId'', ''cursor'', ''itemsView'', ''limit'', ''sortDirection'', ''turnId''}"
    and r: "rule = Enum members \<Longrightarrow> members \<in> {[''notLoaded'', ''summary'', ''full''], [''asc'', ''desc'']}"
    by (auto simp: read_captured_params_def split: if_splits)
  from k show "log_safe key" by (auto simp: printable)
  from k show "byte c < 128" if "c \<in> set key" for c using that by (auto simp: byte_def)
  show "log_safe (debug_strs v members)" if "rule = Enum members"
    using r [OF that] by (intro utf8_ascii_list) (auto simp: byte_def)
qed

lemma safe_captured:
  assumes "reads_utf8 L" "set captured \<subseteq> set (read_captured_params m)"
  shows "safe_result (check_captured L T t obj captured)"
  using assms(2)
proof (induction captured)
  case (Cons kr captured)
  obtain key rule where kr: "kr = (key, rule)" by fastforce
  with Cons.prems have mem: "(key, rule) \<in> set (read_captured_params m)" by simp
  have "safe_result (check_read_param L T t key rule v)" for v
    using captured_safe [OF mem] by (intro safe_read_param [OF assms(1)])
  then have "safe_result (case check_read_param L T t key rule v of Inl e \<Rightarrow> Inl e
      | Inr u \<Rightarrow> check_captured L T t obj captured)" for v
    using Cons by (cases "check_read_param L T t key rule v") (simp_all, metis safe_result_simps(1))
  with Cons kr show ?case by (simp split: option.split)
qed simp

lemma safe_read_binding: "reads_utf8 L \<Longrightarrow> safe_result (check_read_binding L T t m p)"
proof -
  assume u: "reads_utf8 L"
  have "log_safe (debug_strs v (map fst (read_captured_params m)))" for v
    by (rule utf8_ascii_list) (auto dest: captured_safe(3))
  with safe_captured [OF u subset_refl, of T t] show ?thesis
    by (simp add: check_read_binding_def Let_def printable split: option.split)
qed

lemma safe_idle_turn_detail:
  "snd (try_admit_idle_turn g c i th cwd roots) = NotTheHead d \<or>
   snd (try_admit_idle_turn g c i th cwd roots) = WrongWorkspace d \<Longrightarrow> log_safe d"
  by (auto simp: try_admit_idle_turn_def admit_turn_on_def no_head_detail_def other_head_detail_def
      workspace_detail_def printable split: head.splits if_splits prod.splits id_admission.splits)

lemma safe_turn_start:
  "log_safe (note_of (snd (classify_turn_start L session_threads c g m i p)))"
proof (cases "check_phone_turn_projection p")
  case (Inl e)
  with safe_result_Inl [OF safe_turn_projection Inl] show ?thesis
    by (simp add: classify_turn_start_def printable)
next
  case (Inr u)
  show ?thesis
  proof (cases "i = None \<or> Option.bind (jget ''threadId'' p) as_str = None")
    case True
    with Inr show ?thesis
      by (cases i) (auto simp: classify_turn_start_def printable split: option.split)
  next
    case False
    then obtain i' th where i: "i = Some i'" "Option.bind (jget ''threadId'' p) as_str = Some th" by auto
    obtain g1 v where t: "try_admit_idle_turn g c i' th (jget ''cwd'' p) (jget ''runtimeWorkspaceRoots'' p) = (g1, v)"
      by fastforce
    with safe_idle_turn_detail [of g c i' th "jget ''cwd'' p" "jget ''runtimeWorkspaceRoots'' p"] show ?thesis
      by (cases v) (simp_all add: classify_turn_start_def Inr i printable)
  qed
qed

lemma safe_disposition:
  assumes "reads_utf8 L"
  shows "log_safe (note_of (snd (classify_request_disposition L session_threads c g m i p)))"
proof (cases "disposition_of KRequest m")
  case ReadSessionThread
  with safe_result_Inl [OF safe_read_binding [OF assms, of session_threads g m p]] show ?thesis
    by (simp add: classify_request_disposition_def printable split: sum.split)
next
  case ResumeSessionThread
  with safe_result_Inl [OF safe_thread_id_only] safe_result_Inl [OF safe_resume [of session_threads g p]] show ?thesis
    by (simp add: classify_request_disposition_def printable split: sum.split)
next
  case SteerRunningTurn
  with safe_steer [of session_threads g p] show ?thesis
    by (simp add: classify_request_disposition_def printable split: sum.split steer_refusal.split)
      (metis steer_detail.simps)
next
  case InterruptActiveTurn
  with safe_result_Inl [OF safe_interrupt [of session_threads g p]] show ?thesis
    by (simp add: classify_request_disposition_def printable split: sum.split)
qed (simp_all add: classify_request_disposition_def printable safe_turn_start split: prod.split)

lemma safe_malformed: "classify_shape L payload = SMalformed why \<Longrightarrow> log_safe why"
  by (auto simp: classify_shape_def classify_object_def Let_def printable
      split: ws_payload.splits sum.splits parse_error.splits json.splits option.splits if_splits)

text \<open>No phone can forge a line of the broker's log. Whatever bytes it sends, the note the
  classifier writes about them holds no ASCII control byte, provided the strings the JSON reader
  returns are UTF-8.\<close>
theorem notes_cannot_forge_a_line:
  assumes "reads_utf8 L"
  shows "log_safe (note_of (snd (phone_classify L c (g, al) payload)))"
proof (cases "classify_shape L payload")
  case (SRequest m i obj)
  have "log_safe (note_of (snd (classify_request L session_threads c g m i (request_params obj))))"
    using request_action [of L session_threads c g m i "request_params obj"] safe_disposition [OF assms]
      safe_ledger_refusal by metis
  with SRequest show ?thesis by (simp add: classify_def decide_request)
next
  case (SMalformed why)
  with safe_malformed [OF SMalformed] show ?thesis by (simp add: classify_def decide_def printable)
next
  case (SNotification m obj)
  then show ?thesis
    by (simp add: classify_def decide_def classify_notification_def printable split: disposition.split)
next
  case (SResponse i obj)
  then show ?thesis
    by (simp add: classify_def decide_response classify_response_def printable split: prod.split bool.split)
qed (simp_all add: classify_def decide_def printable)

text \<open>One note does carry names a phone chose. The module's rule is that a note never carries a
  params key and that what it echoes is bounded; but a cursor whose members are not the measured
  ones is refused with every one of its member names written out, however many and however long.\<close>
theorem cursor_refusal_prints_client_names:
  assumes "classify_shape L payload = SRequest ''thread/turns/list'' (Some i) obj"
    and "request_params obj = JObj [(''cursor'', JStr s), (''threadId'', JStr th)]"
    and "from_str L s = Some (JObj ms)" and "sort (keys_of ms) \<noteq> CURSOR_MEMBERS"
  shows "note_of (snd (phone_classify L c (g, al) payload)) =
     ''thread/turns/list: the cursor's member set is '' @ debug_strs (uni_verbatim L) (sort (keys_of ms))
       @ ''; every measured cursor carries exactly '' @ debug_strs (uni_verbatim L) CURSOR_MEMBERS"
proof -
  have cur: "check_read_binding L session_threads g ''thread/turns/list'' (request_params obj) =
      Inl (''the cursor's member set is '' @ debug_strs (uni_verbatim L) (sort (keys_of ms))
       @ ''; every measured cursor carries exactly '' @ debug_strs (uni_verbatim L) CURSOR_MEMBERS)"
    using assms(3,4)
    by (simp add: assms(2) check_read_binding_def read_captured_params_def keys_of_def Let_def
        check_read_param_def check_cursor_thread_def)
  have m: "redact_method ''thread/turns/list'' = ''thread/turns/list''"
    by (simp add: redact_method_def is_census_grammar_method_def MAX_LOGGED_METHOD_BYTES_def
        is_lower_def is_alnum_def byte_def)
  have d: "disposition_of KRequest ''thread/turns/list'' = ReadSessionThread"
    by (simp add: disposition_of_def BYPASS_METHODS_def)
  show ?thesis
    by (simp add: classify_def assms(1) decide_request classify_request_def classify_request_disposition_def
        d cur m refuse_request_def)
qed

section \<open>The properties at concrete messages\<close>

definition always :: "json \<Rightarrow> ext" where
  "always v = \<lparr>json_read = (\<lambda>s. (v, True)), json_write = (\<lambda>v. []), uni_verbatim = (\<lambda>n. True)\<rparr>"

lemma read_shape:
  assumes "json_read L s = (JObj ms, True)" "wf_json (JObj ms)"
  shows "classify_shape L (PText s) = classify_object ms"
proof -
  have "parse_no_dup L s = Inr (JObj ms)"
    unfolding parse_no_dup_Inr parse_no_dup_value_iff using assms by blast
  then show ?thesis by (simp add: classify_shape_def)
qed

definition turn_item :: json where
  "turn_item = JObj [(''text'', JStr ''hi''), (''text_elements'', JArr []), (''type'', JStr ''text'')]"

definition turn_ms :: "(string \<times> json) list" where
  "turn_ms = [(''additionalContext'', JNull), (''approvalPolicy'', JNull), (''approvalsReviewer'', JNull),
     (''clientUserMessageId'', JNull), (''collaborationMode'', JNull), (''cwd'', JNull),
     (''environments'', JNull), (''input'', JArr [turn_item]), (''multiAgentMode'', JNull),
     (''outputSchema'', JNull), (''permissions'', JNull), (''responsesapiClientMetadata'', JNull),
     (''sandboxPolicy'', JNull), (''threadId'', JStr ''t1'')]"

definition turn_request :: "(string \<times> json) list" where
  "turn_request = [(''method'', JStr ''turn/start''), (''id'', JInt 7), (''params'', JObj turn_ms)]"

lemma turn_request_shape:
  "classify_shape (always (JObj turn_request)) (PText s) =
     SRequest ''turn/start'' (Some (RInt 7)) (JObj turn_request)"
proof -
  have "wf_json (JObj turn_request)"
    by (simp add: turn_request_def turn_ms_def turn_item_def)
  then have "classify_shape (always (JObj turn_request)) (PText s) = classify_object turn_request"
    by (intro read_shape) (simp_all add: always_def)
  then show ?thesis by (simp add: classify_object_def turn_request_def id_from_value_int)
qed

lemma turn_request_params: "request_params (JObj turn_request) = JObj turn_ms"
  by (simp add: request_params_def turn_request_def)

lemma turn_ms_ok: "turn_params (JObj turn_ms)"
proof -
  have "text_item turn_item" by (simp add: text_item_def turn_item_def)
  then have "one_text_item (JObj turn_ms)" by (simp add: one_text_item_def turn_ms_def)
  moreover have "fst ` set turn_ms = set PHONE_TURN_PARAMS" by (simp add: turn_ms_def PHONE_TURN_PARAMS_def)
  moreover have "\<forall>k \<in> set PHONE_TURN_NULL_PARAMS. hget turn_ms k = Some JNull"
    by (simp add: turn_ms_def PHONE_TURN_NULL_PARAMS_def)
  ultimately show ?thesis by (simp add: turn_params_def)
qed

lemma turn_request_forwarded:
  "is_forward (snd (phone_classify (always (JObj turn_request)) 2 (bound_to_t1, al) (PText s)))"
proof -
  have th: "jget ''threadId'' (JObj turn_ms) = Some (JStr ''t1'')" "jget ''cwd'' (JObj turn_ms) = Some JNull"
    "jget ''runtimeWorkspaceRoots'' (JObj turn_ms) = None"
    by (simp_all add: turn_ms_def)
  have "snd (try_admit_idle_turn bound_to_t1 2 (RInt 7) ''t1'' (Some JNull) None) = TurnAdmitted"
    by (simp add: bound_to_t1_eq new_binding_def try_admit_idle_turn_def admit_turn_on_def turn_holds_def
        busy_on_def turn_len_def MAX_ACTIVE_TURNS_def admit_id_def id_within_cap_def
        MAX_TRACKED_CONNECTIONS_def MAX_OUTSTANDING_REQUESTS_def)
  with th turn_ms_ok show ?thesis
    by (simp add: request_policy [OF turn_request_shape] turn_request_params may_turn session_admits_def)
qed

lemma forwarded_request_witness:
  "\<exists>th. jpointer [''threadId''] (JObj turn_ms) = Some (JStr th) \<and> bound_thread bound_to_t1 = Some th"
proof -
  have "''turn/start'' \<notin> {''initialize'', ''thread/loaded/list''}" by simp
  from forwarded_request_stays_in_the_session [OF turn_request_forwarded turn_request_shape this,
      unfolded turn_request_params]
  show ?thesis by blast
qed

lemma forwarded_turn_witness:
  "busy_on (turns (fst (fst (phone_classify (always (JObj turn_request)) 2 (bound_to_t1, [], new_leg)
     (PText ''frame''))))) ''t1''"
proof -
  from forwarded_turn_carries_no_policy [OF turn_request_forwarded turn_request_shape,
      unfolded turn_request_params, of "([], new_leg)" "''frame''"]
  obtain th where th: "hget turn_ms ''threadId'' = Some (JStr th)"
    and b: "busy_on (turns (fst (fst (phone_classify (always (JObj turn_request)) 2 (bound_to_t1, [], new_leg)
     (PText ''frame''))))) th"
    by (auto simp only: json.inject)
  from th have "th = ''t1''" by (simp add: turn_ms_def)
  with b show ?thesis by simp
qed

definition exec_request :: "(string \<times> json) list" where
  "exec_request = [(''method'', JStr ''command/exec''), (''id'', JInt 7)]"

text \<open>A reader and a writer that agree on the error objects: one is written as \<open>E\<close> and its message.\<close>

definition exec_frames :: ext where
  "exec_frames =
     \<lparr>json_read = (\<lambda>s. (case s of [] \<Rightarrow> (JObj exec_request, True)
        | c # message \<Rightarrow> (refusal_object (RInt 7) message, True))),
      json_write = (\<lambda>v. CHR ''E'' # (case jpointer [''error'', ''message''] v of Some (JStr m) \<Rightarrow> m | _ \<Rightarrow> [])),
      uni_verbatim = (\<lambda>n. True)\<rparr>"

lemma exec_request_shape:
  "classify_shape exec_frames (PText []) = SRequest ''command/exec'' (Some (RInt 7)) (JObj exec_request)"
proof -
  have "wf_json (JObj exec_request)" by (simp add: exec_request_def)
  then have "classify_shape exec_frames (PText []) = classify_object exec_request"
    by (intro read_shape) (simp_all add: exec_frames_def)
  then show ?thesis by (simp add: classify_object_def exec_request_def id_from_value_int)
qed

lemma exec_refused:
  "\<exists>frame note. snd (phone_classify exec_frames 2 (bound_to_t1, al) (PText [])) = SyntheticError frame note"
  by (simp add: classify_def exec_request_shape decide_request classify_request_def
      classify_request_disposition_def disposition_of_def BYPASS_METHODS_def refuse_message_def refuse_request_def)


lemma refused_message_witness:
  "same_session (fst (fst (phone_classify exec_frames 2 (bound_to_t1, [], new_leg) (PText [])))) bound_to_t1"
proof -
  have "\<not> is_forward (snd (phone_classify exec_frames 2 (bound_to_t1, [], new_leg) (PText [])))"
    using exec_refused [of "([], new_leg)"] by auto
  from refused_message_leaves_no_trace [OF this] show ?thesis by blast
qed

lemma notes_witness:
  "log_safe (note_of (snd (phone_classify (always (JObj exec_request)) 2 (bound_to_t1, [], new_leg) (PText ''x''))))"
proof -
  have "utf8 ''method''" "utf8 ''id''" by (rule ascii_utf8; auto simp: byte_def)+
  then have "reads_utf8 (always (JObj exec_request))"
    by (simp add: reads_utf8_def always_def from_str_def exec_request_def)
  then show ?thesis by (rule notes_cannot_forge_a_line)
qed

definition list_request :: "(string \<times> json) list" where
  "list_request = [(''method'', JStr ''thread/turns/list''), (''id'', JInt 7),
     (''params'', JObj [(''cursor'', JStr ''c''), (''threadId'', JStr ''t1'')])]"

definition cursor_frames :: ext where
  "cursor_frames = \<lparr>json_read = (\<lambda>s. (if s = ''c'' then JObj [(''my-password'', JNull)] else JObj list_request, True)),
     json_write = (\<lambda>v. []), uni_verbatim = (\<lambda>n. True)\<rparr>"

lemma cursor_refusal_witness:
  "note_of (snd (phone_classify cursor_frames 2 (bound_to_t1, [], new_leg) (PText ''frame''))) =
     ''thread/turns/list: the cursor's member set is '' @ debug_strs (\<lambda>n. True) [''my-password'']
       @ ''; every measured cursor carries exactly '' @ debug_strs (\<lambda>n. True) CURSOR_MEMBERS"
proof -
  have "wf_json (JObj list_request)" by (simp add: list_request_def)
  then have "classify_shape cursor_frames (PText ''frame'') = classify_object list_request"
    by (intro read_shape) (simp_all add: cursor_frames_def)
  then have sh: "classify_shape cursor_frames (PText ''frame'') =
      SRequest ''thread/turns/list'' (Some (RInt 7)) (JObj list_request)"
    by (simp add: classify_object_def list_request_def id_from_value_int)
  have p: "request_params (JObj list_request) = JObj [(''cursor'', JStr ''c''), (''threadId'', JStr ''t1'')]"
    by (simp add: request_params_def list_request_def)
  have c: "from_str cursor_frames ''c'' = Some (JObj [(''my-password'', JNull)])"
    by (simp add: from_str_def cursor_frames_def)
  have k: "sort (keys_of [(''my-password'', JNull)]) = [''my-password'']" by (simp add: keys_of_def)
  then have "sort (keys_of [(''my-password'', JNull)]) \<noteq> CURSOR_MEMBERS" by (simp add: CURSOR_MEMBERS_def)
  from cursor_refusal_prints_client_names [OF sh p c this, of 2 bound_to_t1 "([], new_leg)"] k
  show ?thesis by (simp add: cursor_frames_def)
qed

end
