(* ===== verification/Broker_Relay.thy ===== *)
theory Broker_Relay
  imports Broker_Refusal
begin

text \<open>
  The relay (\<open>relay.rs\<close>): what a connection does with each message, and what connections share.

  A connection is a task. It awaits at a few places, and whatever it awaits there is an argument
  of the step that ends the wait: whether the pump of the app-server took a message
  (\<open>handoff\<close>), what the receipt of the write said (\<open>receipt\<close>), whether the client's
  socket took a frame (\<open>sent\<close>). Between two such points other connections run, so
  \<open>handle_text\<close> is cut there: \<open>decide_text\<close>, \<open>after_handoff\<close>,
  \<open>settle_write\<close> and \<open>disposition_frame\<close> are its parts, and the phase of a connection
  is the place where it waits. Sockets and channels are lists of what went into them. The relay's own
  log lines and the frame recorder are left out; the notes of the classifier are part of its actions.
\<close>

section \<open>What the broker says itself\<close>

definition RESPONSE_DISPOSITION :: string where
  "RESPONSE_DISPOSITION = ''codeconnect/responseDisposition''"

definition HEAD_NOTICE :: string where
  "HEAD_NOTICE = ''codeconnect/head''"

definition PAUSED_MESSAGE :: string where
  "PAUSED_MESSAGE = ''codex is paused at the computer (Ctrl+Z); run fg there''"

definition CAUSE_WRITE_FAILED :: string where "CAUSE_WRITE_FAILED = ''write_failed''"
definition CAUSE_UNCONFIRMED :: string where "CAUSE_UNCONFIRMED = ''unconfirmed''"

definition MAX_ANNOUNCEMENTS :: nat where "MAX_ANNOUNCEMENTS = 2"

definition winner_role :: "role \<Rightarrow> string" where
  "winner_role r = (case r of Tui \<Rightarrow> ''tui'' | Ccd \<Rightarrow> ''ccd'')"

text \<open>A \<open>serde_json\<close> object is written in the order of its keys.\<close>

definition response_disposition ::
  "ext \<Rightarrow> string \<Rightarrow> request_id \<Rightarrow> bool \<Rightarrow> role option \<Rightarrow> string option \<Rightarrow> string" where
  "response_disposition L thread_id i delivered winner cause =
     json_write L (JObj
       [(''method'', JStr RESPONSE_DISPOSITION),
        (''params'', JObj
          ((case cause of None \<Rightarrow> [] | Some w \<Rightarrow> [(''cause'', JStr w)]) @
           [(''delivered'', JBool delivered), (''requestId'', id_to_value i),
            (''threadId'', JStr thread_id)] @
           (case winner of None \<Rightarrow> [] | Some r \<Rightarrow> [(''winner'', JStr (winner_role r))])))])"

definition head_notice :: "ext \<Rightarrow> string \<Rightarrow> string" where
  "head_notice L th =
     json_write L (JObj [(''method'', JStr HEAD_NOTICE), (''params'', JObj [(''threadId'', JStr th)])])"

definition paused_refusal :: "ext \<Rightarrow> request_id option \<Rightarrow> relay_action" where
  "paused_refusal L i =
     refuse_request L i E_POLICY_REFUSED PAUSED_MESSAGE ''codex is paused at this computer''"

section \<open>Who has been told the head\<close>

record announcement =
  an_thread :: string
  an_raw :: string

text \<open>\<open>wake\<close> is the stored permit of the subscriber's \<open>Notify\<close>.\<close>

record ccd_subscriber =
  wake :: bool
  told :: "string option"

record head_fanout =
  announced :: "announcement list"
  subscribers :: "(conn_id, ccd_subscriber) hash"

definition announced_thread_id :: "json \<Rightarrow> string option" where
  "announced_thread_id obj = (case jget ''params'' obj of
     None \<Rightarrow> None
   | Some params \<Rightarrow>
       let named = (\<lambda>v. case Option.bind v as_str of
              None \<Rightarrow> None | Some t \<Rightarrow> if t = [] then None else Some t);
           flat = named (jget ''threadId'' params);
           nested = named (Option.bind (jget ''thread'' params) (jget ''id''))
       in case (flat, nested) of
            (Some a, Some b) \<Rightarrow> if a \<noteq> b then None else Some a
          | (Some a, None) \<Rightarrow> Some a
          | (None, Some b) \<Rightarrow> Some b
          | (None, None) \<Rightarrow> None)"

definition announces :: "ext \<Rightarrow> string \<Rightarrow> string option" where
  "announces L frame = (case classify_shape L (PText frame) of
     SNotification method obj \<Rightarrow>
       if method \<noteq> ''thread/started'' \<or>
          jpointer [''params'', ''thread'', ''ephemeral''] obj = Some (JBool True)
       then None else announced_thread_id obj
   | _ \<Rightarrow> None)"

definition keep_announcement :: "announcement list \<Rightarrow> string \<Rightarrow> string \<Rightarrow> announcement list" where
  "keep_announcement as th frame =
     (if list_ex (\<lambda>a. an_thread a = th) as then as
      else
        let grown = as @ [\<lparr>an_thread = th, an_raw = frame\<rparr>]
        in drop (length grown - MAX_ANNOUNCEMENTS) grown)"

definition note_announcement :: "ext \<Rightarrow> head_fanout \<Rightarrow> conn_id \<Rightarrow> string \<Rightarrow> head_fanout" where
  "note_announcement L fo c frame = (case announces L frame of
     None \<Rightarrow> fo
   | Some th \<Rightarrow>
       \<lparr>announced = keep_announcement (announced fo) th frame,
        subscribers = (case hget (subscribers fo) c of
            None \<Rightarrow> subscribers fo
          | Some sub \<Rightarrow> hput c (sub\<lparr>told := Some th\<rparr>) (subscribers fo))\<rparr>)"

definition deliver_head :: "head_fanout \<Rightarrow> string option \<Rightarrow> head_fanout" where
  "deliver_head fo bound = (case bound of
     None \<Rightarrow> fo
   | Some hd_thread \<Rightarrow>
       fo\<lparr>subscribers := map (\<lambda>(c, sub).
            (c, if told sub \<noteq> Some hd_thread then sub\<lparr>wake := True\<rparr> else sub)) (subscribers fo)\<rparr>)"

record head_owed =
  ow_thread :: string
  ow_frame :: string
  ow_replayed :: bool

definition owed_head :: "ext \<Rightarrow> head_fanout \<Rightarrow> string option \<Rightarrow> conn_id \<Rightarrow> head_fanout \<times> head_owed option" where
  "owed_head L fo bound c = (case (bound, hget (subscribers fo) c) of
     (Some hd_thread, Some sub) \<Rightarrow>
       if told sub = Some hd_thread then (fo, None)
       else
         let raw = map_option an_raw (find (\<lambda>a. an_thread a = hd_thread) (announced fo))
         in (fo\<lparr>subscribers := hput c (sub\<lparr>told := Some hd_thread\<rparr>) (subscribers fo)\<rparr>,
             Some \<lparr>ow_thread = hd_thread,
                   ow_frame = (case raw of None \<Rightarrow> head_notice L hd_thread | Some bytes \<Rightarrow> bytes),
                   ow_replayed = (raw \<noteq> None)\<rparr>)
   | _ \<Rightarrow> (fo, None))"

section \<open>The state of the broker\<close>

datatype write_outcome = Delivered | WriteFailed | Unconfirmed | NotForwarded

text \<open>What \<open>handle_text\<close> keeps of a message across its awaits: the id of the answer it is, the
  keyboard move it began, whether it subscribes its leg to the head.\<close>

record pending =
  pd_responded :: "request_id option"
  pd_move :: "request_id option"
  pd_subscribing :: bool

datatype phase =
    Idle
  | Handing pending string
  | AwaitingReceipt pending
  | Reporting pending write_outcome bool

record relay_leg =
  rl_role :: role
  rl_caps :: leg
  rl_seen_initialize :: bool
  rl_head_wake :: bool
  rl_phase :: phase

record broker =
  bk_arbiter :: arbiter
  bk_threads :: binding
  bk_next_conn :: "64 word"
  bk_fanout :: head_fanout
  bk_paused :: bool

definition new_broker :: broker where
  "new_broker = \<lparr>bk_arbiter = [], bk_threads = new_binding, bk_next_conn = 1,
     bk_fanout = \<lparr>announced = [], subscribers = []\<rparr>, bk_paused = False\<rparr>"

definition new_relay_leg :: "role \<Rightarrow> relay_leg" where
  "new_relay_leg r = \<lparr>rl_role = r, rl_caps = new_leg, rl_seen_initialize = False,
     rl_head_wake = True, rl_phase = Idle\<rparr>"

section \<open>One text message of a client\<close>

definition decide_action ::
  "ext \<Rightarrow> conn_id \<Rightarrow> broker \<Rightarrow> relay_leg \<Rightarrow> shape \<Rightarrow> (broker \<times> relay_leg) \<times> relay_action \<times> request_id option" where
  "decide_action L c b l sh = (case rl_role l of
     Tui \<Rightarrow>
       (case sh of
          SResponse i obj \<Rightarrow>
            (case arbitrate_tui L (bk_arbiter b) (rl_caps l) i of
               ((a, caps), forwards) \<Rightarrow>
                 ((b\<lparr>bk_arbiter := a\<rparr>, l\<lparr>rl_caps := caps\<rparr>),
                  if forwards then Forward ''keyboard passthrough''
                  else DropLogKeepOpen (''keyboard answer id='' @ redact_request_id L i
                    @ '' to an approval already answered''),
                  None))
        | _ \<Rightarrow>
            (case observe_tui_request (bk_threads b) c sh of
               (g, moved) \<Rightarrow>
                 ((b\<lparr>bk_threads := g\<rparr>, l), Forward ''keyboard passthrough'',
                  if moved then (case sh of SRequest m i obj \<Rightarrow> i | _ \<Rightarrow> None) else None)))
   | Ccd \<Rightarrow>
       (case (bk_paused b, sh) of
          (True, SRequest m i obj) \<Rightarrow> ((b, l), paused_refusal L i, None)
        | _ \<Rightarrow>
            (case decide L session_threads (leg_capabilities L) c
                    (bk_threads b, (bk_arbiter b, rl_caps l)) sh of
               ((g, (a, caps)), action) \<Rightarrow>
                 ((b\<lparr>bk_threads := g, bk_arbiter := a\<rparr>, l\<lparr>rl_caps := caps\<rparr>), action, None))))"

text \<open>\<open>None\<close> for a second \<open>initialize\<close> on a phone leg: the leg closes.\<close>

definition initializes :: "relay_leg \<Rightarrow> shape \<Rightarrow> bool" where
  "initializes l sh \<longleftrightarrow> rl_role l = Ccd \<and>
     (case sh of SRequest m i obj \<Rightarrow> m = ''initialize'' | _ \<Rightarrow> False)"

definition decide_text ::
  "ext \<Rightarrow> conn_id \<Rightarrow> broker \<Rightarrow> relay_leg \<Rightarrow> string \<Rightarrow> (broker \<times> relay_leg) \<times> (relay_action \<times> pending) option" where
  "decide_text L c b l body =
     (let sh = classify_shape L (PText body)
      in if initializes l sh \<and> rl_seen_initialize l then ((b, l), None)
         else
           let l1 = (if initializes l sh then l\<lparr>rl_seen_initialize := True\<rparr> else l)
           in case decide_action L c b l1 sh of
                ((b1, l2), action, move) \<Rightarrow>
                  ((b1, l2),
                   Some (action,
                     \<lparr>pd_responded = (case sh of SResponse i obj \<Rightarrow> Some i | _ \<Rightarrow> None),
                      pd_move = move, pd_subscribing = initializes l sh\<rparr>)))"

datatype handoff = HandedOver | HandoffRefused | HandoffExpired

definition after_handoff ::
  "ext \<Rightarrow> conn_id \<Rightarrow> broker \<Rightarrow> relay_leg \<Rightarrow> pending \<Rightarrow> handoff \<Rightarrow> broker \<times> relay_leg" where
  "after_handoff L c b l p h = (case h of
     HandedOver \<Rightarrow>
       if pd_subscribing p \<and> rl_head_wake l then
         (let fo = bk_fanout b;
              fo1 = fo\<lparr>subscribers := hput c \<lparr>wake = False, told = None\<rparr> (subscribers fo)\<rparr>
          in (b\<lparr>bk_fanout := deliver_head fo1 (bound_thread (bk_threads b))\<rparr>, l\<lparr>rl_head_wake := False\<rparr>))
       else (b, l)
   | HandoffRefused \<Rightarrow>
       (let b1 = (case pd_move p of
              None \<Rightarrow> b
            | Some i \<Rightarrow>
                (let g = rollback_move (bk_threads b) c i
                 in b\<lparr>bk_threads := g, bk_fanout := deliver_head (bk_fanout b) (bound_thread g)\<rparr>))
        in case pd_responded p of
             None \<Rightarrow> (b1, l)
           | Some i \<Rightarrow>
               (case release_write L (bk_arbiter b1) (rl_caps l) (rl_role l) i of
                  (a, caps) \<Rightarrow> (b1\<lparr>bk_arbiter := a\<rparr>, l\<lparr>rl_caps := caps\<rparr>)))
   | HandoffExpired \<Rightarrow> (b, l))"

datatype receipt = Acked bool | ReceiptDropped | ReceiptExpired

definition settle_write ::
  "ext \<Rightarrow> broker \<Rightarrow> relay_leg \<Rightarrow> pending \<Rightarrow> receipt \<Rightarrow> (broker \<times> relay_leg) \<times> write_outcome \<times> bool" where
  "settle_write L b l p r =
     (let settled_by = (\<lambda>op. case pd_responded p of
            None \<Rightarrow> (b, l)
          | Some i \<Rightarrow> (case op (bk_arbiter b) (rl_caps l) (rl_role l) i of
                (a, caps) \<Rightarrow> (b\<lparr>bk_arbiter := a\<rparr>, l\<lparr>rl_caps := caps\<rparr>)))
      in case r of
           Acked wrote \<Rightarrow>
             if wrote then (settled_by (confirm_write L), Delivered, False)
             else (settled_by (release_write L), WriteFailed, False)
         | ReceiptDropped \<Rightarrow> ((b, l), Unconfirmed, False)
         | ReceiptExpired \<Rightarrow> ((b, l), Unconfirmed, True))"

text \<open>The frame a phone leg is told the fate of its answer by.\<close>

definition disposition_frame :: "ext \<Rightarrow> arbiter \<Rightarrow> relay_leg \<Rightarrow> pending \<Rightarrow> write_outcome \<Rightarrow> string option" where
  "disposition_frame L a l p outcome = (case pd_responded p of
     None \<Rightarrow> None
   | Some i \<Rightarrow>
       if rl_role l \<noteq> Ccd then None
       else (case leg_bound_thread (rl_caps l) i of
           None \<Rightarrow> None
         | Some th \<Rightarrow>
             (case (case outcome of
                  Delivered \<Rightarrow> (True, None, None)
                | WriteFailed \<Rightarrow> (False, None, Some CAUSE_WRITE_FAILED)
                | Unconfirmed \<Rightarrow> (False, None, Some CAUSE_UNCONFIRMED)
                | NotForwarded \<Rightarrow> (False, recorded_winner a (rl_caps l) i, None)) of
                (delivered, winner, cause) \<Rightarrow>
                  Some (response_disposition L th i delivered winner cause))))"

section \<open>A phone leg held while Codex is stopped\<close>

datatype held = HeldClosed | HeldRunning "ws_payload option"

text \<open>
  What one turn of \<open>wait_out_pause\<close> meets: whether Codex is stopped when the loop looks and when
  a frame is read, the frame, the end of the connection or the poll timer, and whether the client's
  socket takes the refusal.
\<close>

datatype held_input = HeldFrame ws_payload | HeldEnd | HeldTick

record held_turn =
  ht_paused :: bool
  ht_input :: held_input
  ht_still_paused :: bool
  ht_sent :: bool

fun wait_out_pause :: "ext \<Rightarrow> held_turn list \<Rightarrow> string list \<times> held option" where
  "wait_out_pause L [] = ([], None)"
| "wait_out_pause L (t # ts) =
     (if \<not> ht_paused t then ([], Some (HeldRunning None))
      else (case ht_input t of
          HeldEnd \<Rightarrow> ([], Some HeldClosed)
        | HeldTick \<Rightarrow> wait_out_pause L ts
        | HeldFrame frame \<Rightarrow>
            if \<not> ht_still_paused t then ([], Some (HeldRunning (Some frame)))
            else (case (case classify_shape L frame of
                 SRequest m i obj \<Rightarrow> paused_refusal L i | _ \<Rightarrow> DropLogKeepOpen []) of
                SyntheticError refusal note \<Rightarrow>
                  if ht_sent t then
                    (case wait_out_pause L ts of (out, r) \<Rightarrow> (refusal # out, r))
                  else ([], Some HeldClosed)
              | _ \<Rightarrow> wait_out_pause L ts)))"

section \<open>All the connections\<close>

record relay =
  rs_broker :: broker
  rs_legs :: "(conn_id, relay_leg) hash"
  rs_upstream :: "(conn_id \<times> ws_payload) list"
  rs_clients :: "(conn_id \<times> ws_payload) list"

definition new_relay :: relay where
  "new_relay = \<lparr>rs_broker = new_broker, rs_legs = [], rs_upstream = [], rs_clients = []\<rparr>"

definition with_broker :: "relay \<Rightarrow> broker \<Rightarrow> conn_id \<Rightarrow> relay_leg \<Rightarrow> relay" where
  "with_broker s b c l = s\<lparr>rs_broker := b, rs_legs := hput c l (rs_legs s)\<rparr>"

definition to_client :: "relay \<Rightarrow> conn_id \<Rightarrow> ws_payload \<Rightarrow> relay" where
  "to_client s c m = s\<lparr>rs_clients := rs_clients s @ [(c, m)]\<rparr>"

definition to_upstream :: "relay \<Rightarrow> conn_id \<Rightarrow> ws_payload \<Rightarrow> relay" where
  "to_upstream s c m = s\<lparr>rs_upstream := rs_upstream s @ [(c, m)]\<rparr>"

definition set_phase :: "relay \<Rightarrow> conn_id \<Rightarrow> relay_leg \<Rightarrow> phase \<Rightarrow> relay" where
  "set_phase s c l ph = s\<lparr>rs_legs := hput c (l\<lparr>rl_phase := ph\<rparr>) (rs_legs s)\<rparr>"

text \<open>The end of \<open>spawn_leg\<close>'s task.\<close>

definition close_leg :: "relay \<Rightarrow> conn_id \<Rightarrow> relay" where
  "close_leg s c = (let b = rs_broker s; fo = bk_fanout b in
     s\<lparr>rs_broker := b\<lparr>bk_threads := Broker_Session.close_connection (bk_threads b) c,
                      bk_fanout := fo\<lparr>subscribers := hdel c (subscribers fo)\<rparr>\<rparr>,
       rs_legs := hdel c (rs_legs s)\<rparr>)"

text \<open>A connection that has reached its app-server: the id is minted on the way.\<close>

definition open_leg :: "relay \<Rightarrow> role \<Rightarrow> relay" where
  "open_leg s r = (let b = rs_broker s in
     s\<lparr>rs_broker := b\<lparr>bk_next_conn := bk_next_conn b + 1\<rparr>,
       rs_legs := hput (bk_next_conn b) (new_relay_leg r) (rs_legs s)\<rparr>)"

text \<open>A frame of the app-server. The write to the client's socket that stands between noting an
  announcement and delivering the head is one step with both here: another connection that runs during
  that write meets the state after it. A leg is noted as told an announcement before the write,
  as in the source; a write that fails closes the leg.\<close>

definition server_frame :: "ext \<Rightarrow> relay \<Rightarrow> conn_id \<Rightarrow> relay_leg \<Rightarrow> ws_payload \<Rightarrow> bool \<Rightarrow> relay" where
  "server_frame L s c l m sent =
     (let deliver = (\<lambda>s1. if sent then
            (let b = rs_broker s1 in (to_client s1 c m)\<lparr>rs_broker :=
               b\<lparr>bk_fanout := deliver_head (bk_fanout b) (bound_thread (bk_threads b))\<rparr>\<rparr>)
            else close_leg s1 c)
      in case m of
           PBinary \<Rightarrow> deliver s
         | PText frame \<Rightarrow>
             let b = rs_broker s;
                 g = observe_server_frame L (bk_threads b) c frame
             in case leg_observe_frame L (rl_caps l) (rl_role l) g frame of
                  (caps, d) \<Rightarrow>
                    let b1 = b\<lparr>bk_threads := g\<rparr>;
                        l1 = l\<lparr>rl_caps := caps\<rparr>;
                        b2 = b1\<lparr>bk_fanout := note_announcement L (bk_fanout b) c frame\<rparr>
                    in case d of
                         CloseLeg why \<Rightarrow> close_leg (with_broker s b1 c l1) c
                       | Withhold \<Rightarrow> with_broker s b2 c l1
                       | Deliver \<Rightarrow> deliver (with_broker s b2 c l1))"

definition client_text :: "ext \<Rightarrow> relay \<Rightarrow> conn_id \<Rightarrow> relay_leg \<Rightarrow> string \<Rightarrow> bool \<Rightarrow> relay" where
  "client_text L s c l body sent = (case decide_text L c (rs_broker s) l body of
     ((b1, l1), None) \<Rightarrow> close_leg s c
   | ((b1, l1), Some (action, p)) \<Rightarrow>
       let s1 = with_broker s b1 c l1 in
       (case action of
          Forward note \<Rightarrow> set_phase s1 c l1 (Handing p body)
        | SyntheticError frame note \<Rightarrow>
            if sent then set_phase (to_client s1 c (PText frame)) c l1 (Reporting p NotForwarded False)
            else close_leg s1 c
        | DropLogKeepOpen note \<Rightarrow> set_phase s1 c l1 (Reporting p NotForwarded False)
        | DropCloseLeg note \<Rightarrow> close_leg s1 c))"

definition client_binary :: "relay \<Rightarrow> conn_id \<Rightarrow> relay_leg \<Rightarrow> handoff \<Rightarrow> relay" where
  "client_binary s c l h =
     (if rl_role l = Tui \<and> h = HandedOver then to_upstream s c PBinary else close_leg s c)"

definition handed :: "ext \<Rightarrow> relay \<Rightarrow> conn_id \<Rightarrow> relay_leg \<Rightarrow> pending \<Rightarrow> string \<Rightarrow> handoff \<Rightarrow> relay" where
  "handed L s c l p body h = (case after_handoff L c (rs_broker s) l p h of
     (b1, l1) \<Rightarrow>
       let s1 = with_broker s b1 c l1 in
       (case h of
          HandedOver \<Rightarrow>
            set_phase (to_upstream s1 c (PText body)) c l1
              (if pd_responded p \<noteq> None then AwaitingReceipt p else Reporting p NotForwarded False)
        | HandoffRefused \<Rightarrow> set_phase s1 c l1 (Reporting p WriteFailed True)
        | HandoffExpired \<Rightarrow> set_phase s1 c l1 (Reporting p Unconfirmed True)))"

definition receipted :: "ext \<Rightarrow> relay \<Rightarrow> conn_id \<Rightarrow> relay_leg \<Rightarrow> pending \<Rightarrow> receipt \<Rightarrow> relay" where
  "receipted L s c l p r = (case settle_write L (rs_broker s) l p r of
     ((b1, l1), outcome, closes) \<Rightarrow>
       set_phase (with_broker s b1 c l1) c l1 (Reporting p outcome closes))"

definition report :: "ext \<Rightarrow> relay \<Rightarrow> conn_id \<Rightarrow> relay_leg \<Rightarrow> pending \<Rightarrow> write_outcome \<Rightarrow> bool \<Rightarrow> bool \<Rightarrow> relay" where
  "report L s c l p outcome closes sent =
     (let finish = (\<lambda>s1. if closes then close_leg s1 c else set_phase s1 c l Idle)
      in case disposition_frame L (bk_arbiter (rs_broker s)) l p outcome of
           None \<Rightarrow> finish s
         | Some frame \<Rightarrow> if sent then finish (to_client s c (PText frame)) else close_leg s c)"

text \<open>The wake of a phone leg: it consumes the permit and sends the head it is owed. As in the
  source the head is recorded as told before the frame is sent; when the send fails the leg closes.\<close>

definition woken :: "ext \<Rightarrow> relay \<Rightarrow> conn_id \<Rightarrow> bool \<Rightarrow> relay" where
  "woken L s c sent = (let b = rs_broker s; fo = bk_fanout b in
     case hget (subscribers fo) c of
       None \<Rightarrow> s
     | Some sub \<Rightarrow>
         if \<not> wake sub then s
         else
           let fo0 = fo\<lparr>subscribers := hput c (sub\<lparr>wake := False\<rparr>) (subscribers fo)\<rparr>
           in (case owed_head L fo0 (bound_thread (bk_threads b)) c of
                 (fo1, owed) \<Rightarrow>
                   let s1 = s\<lparr>rs_broker := b\<lparr>bk_fanout := fo1\<rparr>\<rparr> in
                   (case owed of
                      None \<Rightarrow> s1
                    | Some ow \<Rightarrow>
                        if sent then to_client s1 c (PText (ow_frame ow)) else close_leg s1 c)))"

datatype relay_event =
    EvOpen role
  | EvPause bool
  | EvServer conn_id ws_payload bool
  | EvText conn_id string bool
  | EvBinary conn_id handoff
  | EvHandoff conn_id handoff
  | EvReceipt conn_id receipt
  | EvReport conn_id bool
  | EvWake conn_id bool
  | EvClose conn_id

text \<open>A step that the phase of the connection does not allow changes nothing.\<close>

definition on_leg :: "relay \<Rightarrow> conn_id \<Rightarrow> (relay_leg \<Rightarrow> relay) \<Rightarrow> relay" where
  "on_leg s c f = (case hget (rs_legs s) c of None \<Rightarrow> s | Some l \<Rightarrow> f l)"

definition when_idle :: "relay \<Rightarrow> (relay_leg \<Rightarrow> relay) \<Rightarrow> relay_leg \<Rightarrow> relay" where
  "when_idle s f l = (if rl_phase l = Idle then f l else s)"

fun relay_step :: "ext \<Rightarrow> relay \<Rightarrow> relay_event \<Rightarrow> relay" where
  "relay_step L s (EvOpen r) = open_leg s r"
| "relay_step L s (EvPause p) = s\<lparr>rs_broker := (rs_broker s)\<lparr>bk_paused := p\<rparr>\<rparr>"
| "relay_step L s (EvServer c m sent) = on_leg s c (when_idle s (\<lambda>l. server_frame L s c l m sent))"
| "relay_step L s (EvText c body sent) = on_leg s c (when_idle s (\<lambda>l. client_text L s c l body sent))"
| "relay_step L s (EvBinary c h) = on_leg s c (when_idle s (\<lambda>l. client_binary s c l h))"
| "relay_step L s (EvHandoff c h) = on_leg s c (\<lambda>l. case rl_phase l of
     Handing p body \<Rightarrow> handed L s c l p body h | _ \<Rightarrow> s)"
| "relay_step L s (EvReceipt c r) = on_leg s c (\<lambda>l. case rl_phase l of
     AwaitingReceipt p \<Rightarrow> receipted L s c l p r | _ \<Rightarrow> s)"
| "relay_step L s (EvReport c sent) = on_leg s c (\<lambda>l. case rl_phase l of
     Reporting p outcome closes \<Rightarrow> report L s c l p outcome closes sent | _ \<Rightarrow> s)"
| "relay_step L s (EvWake c sent) = on_leg s c (when_idle s (\<lambda>l. woken L s c sent))"
| "relay_step L s (EvClose c) = on_leg s c (when_idle s (\<lambda>l. close_leg s c))"

definition relay_run :: "ext \<Rightarrow> relay \<Rightarrow> relay_event list \<Rightarrow> relay" where
  "relay_run L s evs = foldl (relay_step L) s evs"

end
