(* ===== verification/Broker_Relay_Run.thy ===== *)
theory Broker_Relay_Run
  imports Broker_Relay Broker_Policy_Props
begin

text \<open>
  Runs of the relay: any number of connections, in any order of their messages, hand-offs, receipts,
  wakes and ends. The arbiter's promise is carried across the awaits of \<open>handle_text\<close>: the leg
  that took a slot keeps it until its write is settled, and no approval is ever written twice.
\<close>

lemma relay_run_simps [simp]:
  "relay_run L s [] = s" "relay_run L s (ev # evs) = relay_run L (relay_step L s ev) evs"
  by (simp_all add: relay_run_def)

section \<open>Whose answer is on its way\<close>

abbreviation arb_of :: "relay \<Rightarrow> arbiter" where
  "arb_of s \<equiv> bk_arbiter (rs_broker s)"

definition answer_key :: "pending \<Rightarrow> leg \<Rightarrow> upstream_request_key option" where
  "answer_key p caps = Option.bind (pd_responded p) (slot_key caps)"

definition held_key :: "relay_leg \<Rightarrow> upstream_request_key option" where
  "held_key l = (case rl_phase l of
     Handing p body \<Rightarrow> answer_key p (rl_caps l)
   | AwaitingReceipt p \<Rightarrow> answer_key p (rl_caps l)
   | _ \<Rightarrow> None)"

text \<open>The approval whose answer an event proves written.\<close>

definition acked_key :: "relay \<Rightarrow> relay_event \<Rightarrow> upstream_request_key option" where
  "acked_key s ev = (case ev of
     EvReceipt c (Acked wrote) \<Rightarrow>
       if wrote then
         (case hget (rs_legs s) c of
            Some l \<Rightarrow> (case rl_phase l of AwaitingReceipt p \<Rightarrow> answer_key p (rl_caps l) | _ \<Rightarrow> None)
          | None \<Rightarrow> None)
       else None
   | _ \<Rightarrow> None)"

fun written :: "ext \<Rightarrow> relay \<Rightarrow> relay_event list \<Rightarrow> upstream_request_key list" where
  "written L s [] = []"
| "written L s (ev # evs) =
     (case acked_key s ev of None \<Rightarrow> [] | Some k \<Rightarrow> [k]) @ written L (relay_step L s ev) evs"

section \<open>What the parts of \<open>handle_text\<close> do to the arbiter\<close>

lemma slot_key_log_line [simp]: "slot_key (log_line l t) i = slot_key l i"
  by (simp add: slot_key_def log_line_def)

lemma take_slot_cases:
  assumes "take_slot L a l r i h = ((a', l'), w)"
  shows "slot_key l' i = slot_key l i \<and>
     (case w of
        Some True \<Rightarrow> \<exists>k. slot_key l i = Some k \<and> hget a k = None \<and> a' = hput k (Reserved r) a
      | Some False \<Rightarrow> a' = a
      | None \<Rightarrow> slot_key l i = None \<and> a' = a)"
  using assms
  by (auto simp: take_slot_def arb_consume_def split: option.splits if_splits prod.splits consume.splits)

lemma decide_action_arbiter:
  assumes "decide_action L c b l sh = ((b1, l1), action, move)"
  shows "rl_role l1 = rl_role l \<and>
     (bk_arbiter b1 = bk_arbiter b \<and>
        (\<forall>note i obj. action = Forward note \<longrightarrow> sh = SResponse i obj \<longrightarrow> slot_key (rl_caps l1) i = None) \<or>
      (\<exists>note i obj k. action = Forward note \<and> sh = SResponse i obj \<and> slot_key (rl_caps l1) i = Some k \<and>
         hget (bk_arbiter b) k = None \<and> bk_arbiter b1 = hput k (Reserved (rl_role l)) (bk_arbiter b)))"
proof (cases "rl_role l")
  case Tui
  show ?thesis
  proof (cases sh)
    case (SResponse i obj)
    obtain a' caps w where t: "take_slot L (bk_arbiter b) (rl_caps l) Tui i None = ((a', caps), w)"
      by (metis prod.collapse)
    from take_slot_cases [OF t] Tui SResponse t assms show ?thesis
      by (cases w) (auto simp: decide_action_def arbitrate_tui_def split: if_splits bool.splits)
  qed (use Tui assms in \<open>auto simp: decide_action_def split: prod.splits\<close>)
next
  case Ccd
  show ?thesis
  proof (cases sh)
    case (SResponse i obj)
    show ?thesis
    proof (cases "bound_thread (bk_threads b)")
      case None
      with Ccd SResponse assms show ?thesis
        by (auto simp: decide_action_def decide_def classify_response_def leg_capabilities_def
            authorize_def session_threads_def split: prod.splits bool.splits)
    next
      case (Some h)
      obtain a' caps w where t: "take_slot L (bk_arbiter b) (rl_caps l) Ccd i (Some h) = ((a', caps), w)"
        by (metis prod.collapse)
      from take_slot_cases [OF t] Ccd Some SResponse t assms show ?thesis
        by (cases w)
          (auto simp: decide_action_def decide_def classify_response_def leg_capabilities_def
            authorize_def session_threads_def split: prod.splits bool.splits if_splits)
    qed
  qed (use Ccd assms in \<open>auto simp: decide_action_def decide_def split: prod.splits bool.splits\<close>)
qed

lemma decide_text_eq:
  assumes "\<not> (initializes l (classify_shape L (PText body)) \<and> rl_seen_initialize l)"
    and "decide_action L c b
       (if initializes l (classify_shape L (PText body)) then l\<lparr>rl_seen_initialize := True\<rparr> else l)
       (classify_shape L (PText body)) = ((b1, l1), action, move)"
  shows "decide_text L c b l body = ((b1, l1), Some (action,
     \<lparr>pd_responded = (case classify_shape L (PText body) of SResponse i obj \<Rightarrow> Some i | _ \<Rightarrow> None),
      pd_move = move, pd_subscribing = initializes l (classify_shape L (PText body))\<rparr>))"
  using assms by (simp only: decide_text_def Let_def split: if_split) simp

lemma decide_text_arbiter:
  assumes "decide_text L c b l body = ((b1, l1), r)"
  shows "rl_role l1 = rl_role l \<and>
     (bk_arbiter b1 = bk_arbiter b \<and>
        (\<forall>note p. r = Some (Forward note, p) \<longrightarrow> answer_key p (rl_caps l1) = None) \<or>
      (\<exists>note p k. r = Some (Forward note, p) \<and> answer_key p (rl_caps l1) = Some k \<and>
         hget (bk_arbiter b) k = None \<and> bk_arbiter b1 = hput k (Reserved (rl_role l)) (bk_arbiter b)))"
proof -
  let ?sh = "classify_shape L (PText body)"
  let ?l = "if initializes l ?sh then l\<lparr>rl_seen_initialize := True\<rparr> else l"
  obtain b' l' action move where d: "decide_action L c b ?l ?sh = ((b', l'), action, move)"
    by (metis prod.collapse)
  show ?thesis
  proof (cases "initializes l ?sh \<and> rl_seen_initialize l")
    case True
    with assms show ?thesis by (simp add: decide_text_def)
  next
    case False
    from assms decide_text_eq [OF this d] have r: "b1 = b'" "l1 = l'" "r = Some (action,
        \<lparr>pd_responded = (case ?sh of SResponse i obj \<Rightarrow> Some i | _ \<Rightarrow> None),
         pd_move = move, pd_subscribing = initializes l ?sh\<rparr>)"
      by simp_all
    have "rl_role ?l = rl_role l" by simp
    with decide_action_arbiter [OF d] show ?thesis
      unfolding r by (cases ?sh) (auto simp: answer_key_def)
  qed
qed

lemma after_handoff_effect:
  assumes "after_handoff L c b l p h = (b1, l1)"
  shows "rl_role l1 = rl_role l \<and> answer_key p (rl_caps l1) = answer_key p (rl_caps l) \<and>
     bk_arbiter b1 = (case (h, answer_key p (rl_caps l)) of
        (HandoffRefused, Some k) \<Rightarrow> arb_release (bk_arbiter b) k (rl_role l)
      | _ \<Rightarrow> bk_arbiter b)"
  using assms
  by (auto simp: after_handoff_def answer_key_def release_write_def Let_def
      split: handoff.splits option.splits if_splits prod.splits)

lemma settle_write_effect:
  assumes "settle_write L b l p r = ((b1, l1), outcome, closes)"
  shows "rl_role l1 = rl_role l \<and>
     bk_arbiter b1 = (case (r, answer_key p (rl_caps l)) of
        (Acked wrote, Some k) \<Rightarrow>
          if wrote then arb_confirm (bk_arbiter b) k (rl_role l)
          else arb_release (bk_arbiter b) k (rl_role l)
      | _ \<Rightarrow> bk_arbiter b)"
  using assms
  by (auto simp: settle_write_def answer_key_def release_write_def confirm_write_def Let_def
      split: receipt.splits option.splits if_splits prod.splits)

section \<open>A slot belongs to the answer on its way\<close>

text \<open>Every answer handed over or on its way holds the slot of its approval for its leg's role, no
  two answers are on their way for one approval, and an approval written once is settled.\<close>

definition held_ok ::
  "arbiter \<Rightarrow> (conn_id \<Rightarrow> relay_leg option) \<Rightarrow> upstream_request_key list \<Rightarrow> bool" where
  "held_ok a legs W \<longleftrightarrow>
     (\<forall>c l k. legs c = Some l \<longrightarrow> held_key l = Some k \<longrightarrow> hget a k = Some (Reserved (rl_role l))) \<and>
     (\<forall>c c' l l' k. legs c = Some l \<longrightarrow> legs c' = Some l' \<longrightarrow> held_key l = Some k \<longrightarrow> held_key l' = Some k \<longrightarrow>
        c = c') \<and>
     distinct W \<and> (\<forall>k \<in> set W. \<exists>r. hget a k = Some (Confirmed r))"

lemma held_okI:
  assumes "\<And>c l k. legs c = Some l \<Longrightarrow> held_key l = Some k \<Longrightarrow> hget a k = Some (Reserved (rl_role l))"
    and "\<And>c c' l l' k. legs c = Some l \<Longrightarrow> legs c' = Some l' \<Longrightarrow> held_key l = Some k \<Longrightarrow>
       held_key l' = Some k \<Longrightarrow> c = c'"
    and "distinct W" and "\<And>k. k \<in> set W \<Longrightarrow> \<exists>r. hget a k = Some (Confirmed r)"
  shows "held_ok a legs W"
  using assms unfolding held_ok_def by blast

lemma held_okD:
  assumes "held_ok a legs W" "legs c = Some l" "held_key l = Some k"
  shows "hget a k = Some (Reserved (rl_role l))" "k \<notin> set W"
    "legs c' = Some l' \<Longrightarrow> held_key l' = Some k \<Longrightarrow> c' = c"
  using assms by (auto simp: held_ok_def)

lemma held_okW:
  assumes "held_ok a legs W"
  shows "distinct W" "k \<in> set W \<Longrightarrow> \<exists>r. hget a k = Some (Confirmed r)"
  using assms by (auto simp: held_ok_def)

lemma held_ok_idle: "held_ok a legs W \<Longrightarrow> held_key l = None \<Longrightarrow> held_ok a (legs(c \<mapsto> l)) W"
  by (auto simp: held_ok_def)

lemma held_ok_del: "held_ok a legs W \<Longrightarrow> held_ok a (legs(c := None)) W"
  by (auto simp: held_ok_def)

lemma held_ok_keep:
  assumes "held_ok a legs W" "legs c = Some l" "held_key l' = held_key l" "rl_role l' = rl_role l"
  shows "held_ok a (legs(c \<mapsto> l')) W"
  using assms unfolding held_ok_def by (auto split: if_splits)

lemma held_ok_take:
  assumes ok: "held_ok a legs W" and k: "hget a k = None" "held_key l = Some k"
  shows "held_ok (hput k (Reserved (rl_role l)) a) (legs(c \<mapsto> l)) W"
proof -
  have other: "k' \<noteq> k" if "legs c' = Some l'" "held_key l' = Some k'" for c' l' k'
    using held_okD(1) [OF ok that] k(1) by auto
  show ?thesis
  proof (rule held_okI)
    fix c' l' k'
    assume "(legs(c \<mapsto> l)) c' = Some l'" "held_key l' = Some k'"
    with other k(2) held_okD(1) [OF ok] show "hget (hput k (Reserved (rl_role l)) a) k' = Some (Reserved (rl_role l'))"
      by (auto simp: hget_hput split: if_splits)
  next
    fix c1 c2 l1 l2 k'
    assume "(legs(c \<mapsto> l)) c1 = Some l1" "(legs(c \<mapsto> l)) c2 = Some l2"
      "held_key l1 = Some k'" "held_key l2 = Some k'"
    with other k(2) held_okD(3) [OF ok] show "c1 = c2" by (auto split: if_splits)
  next
    fix k'
    assume "k' \<in> set W"
    then obtain r where "hget a k' = Some (Confirmed r)" using held_okW(2) [OF ok] by blast
    with k(1) show "\<exists>r. hget (hput k (Reserved (rl_role l)) a) k' = Some (Confirmed r)"
      by (auto simp: hget_hput)
  qed (rule held_okW(1) [OF ok])
qed

text \<open>The answer that held a slot is settled: the slot goes to another state and nothing else
  changes.\<close>

lemma held_ok_settle:
  assumes ok: "held_ok a legs W" and l: "legs c = Some l" "held_key l = Some k" and l': "held_key l' = None"
    and a': "\<And>k'. k' \<noteq> k \<Longrightarrow> hget a' k' = hget a k'"
  shows "held_ok a' (legs(c \<mapsto> l')) W"
proof -
  have other: "c' \<noteq> c \<Longrightarrow> k' \<noteq> k" if "legs c' = Some m" "held_key m = Some k'" for c' m k'
    using held_okD(3) [OF ok l that(1)] that(2) by blast
  show ?thesis
  proof (rule held_okI)
    fix c' m k'
    assume "(legs(c \<mapsto> l')) c' = Some m" "held_key m = Some k'"
    with other l' a' held_okD(1) [OF ok] show "hget a' k' = Some (Reserved (rl_role m))"
      by (auto split: if_splits)
  next
    fix c1 c2 m1 m2 k'
    assume "(legs(c \<mapsto> l')) c1 = Some m1" "(legs(c \<mapsto> l')) c2 = Some m2"
      "held_key m1 = Some k'" "held_key m2 = Some k'"
    with l' held_okD(3) [OF ok] show "c1 = c2" by (auto split: if_splits)
  next
    fix k'
    assume k': "k' \<in> set W"
    with held_okD(2) [OF ok l] have "k' \<noteq> k" by blast
    with held_okW(2) [OF ok k'] a' show "\<exists>r. hget a' k' = Some (Confirmed r)" by simp
  qed (rule held_okW(1) [OF ok])
qed

lemma held_ok_written:
  assumes "held_ok a legs W" "k \<notin> set W" "hget a k = Some (Confirmed r)"
  shows "held_ok a legs (W @ [k])"
  using assms by (auto simp: held_ok_def)

lemma confirm_only: "k' \<noteq> k \<Longrightarrow> hget (arb_confirm a k r) k' = hget a k'"
  by (simp add: arb_confirm_def hget_hput split: option.split slot_state.split)

lemma release_only: "k' \<noteq> k \<Longrightarrow> hget (arb_release a k r) k' = hget a k'"
  by (simp add: arb_release_def hget_hdel)

lemma confirm_reserved: "hget a k = Some (Reserved r) \<Longrightarrow> hget (arb_confirm a k r) k = Some (Confirmed r)"
  by (simp add: arb_confirm_def hget_hput)

section \<open>Every step keeps it\<close>

abbreviation legs_of :: "relay \<Rightarrow> conn_id \<Rightarrow> relay_leg option" where
  "legs_of s \<equiv> map_of (rs_legs s)"

lemma relay_parts [simp]:
  "arb_of (to_client s c m) = arb_of s" "legs_of (to_client s c m) = legs_of s"
  "arb_of (to_upstream s c m) = arb_of s" "legs_of (to_upstream s c m) = legs_of s"
  "arb_of (set_phase s c l ph) = arb_of s"
  "legs_of (set_phase s c l ph) = (legs_of s)(c \<mapsto> l\<lparr>rl_phase := ph\<rparr>)"
  "arb_of (with_broker s b c l) = bk_arbiter b" "legs_of (with_broker s b c l) = (legs_of s)(c \<mapsto> l)"
  "arb_of (close_leg s c) = arb_of s" "legs_of (close_leg s c) = (legs_of s)(c := None)"
  by (simp_all add: to_client_def to_upstream_def set_phase_def with_broker_def close_leg_def Let_def
      update_conv' delete_conv')

lemma held_key_phases [simp]:
  "held_key (l\<lparr>rl_phase := Idle\<rparr>) = None" "held_key (l\<lparr>rl_phase := Reporting p out cl\<rparr>) = None"
  "held_key (l\<lparr>rl_phase := Handing p body\<rparr>) = answer_key p (rl_caps l)"
  "held_key (l\<lparr>rl_phase := AwaitingReceipt p\<rparr>) = answer_key p (rl_caps l)"
  by (simp_all add: held_key_def)

lemma held_key_Idle: "rl_phase l = Idle \<Longrightarrow> held_key (l\<lparr>rl_caps := caps\<rparr>) = None"
  by (simp add: held_key_def)

lemma server_frame_held:
  assumes "held_ok (arb_of s) (legs_of s) W" "rl_phase l = Idle"
  shows "held_ok (arb_of (server_frame L s c l m sent)) (legs_of (server_frame L s c l m sent)) W"
proof -
  have "arb_of (server_frame L s c l m sent) = arb_of s"
    by (simp add: server_frame_def Let_def split: ws_payload.split prod.split s2c_disposition.split)
  moreover have "\<exists>caps. legs_of (server_frame L s c l m sent) \<in>
      {legs_of s, (legs_of s)(c \<mapsto> l\<lparr>rl_caps := caps\<rparr>), (legs_of s)(c := None)}"
    by (auto simp: server_frame_def Let_def split: ws_payload.split prod.split s2c_disposition.split)
  ultimately show ?thesis
    using assms held_ok_idle [OF assms(1) held_key_Idle [OF assms(2)]] held_ok_del by force
qed

lemma client_text_held:
  assumes ok: "held_ok (arb_of s) (legs_of s) W"
  shows "held_ok (arb_of (client_text L s c l body sent)) (legs_of (client_text L s c l body sent)) W"
proof -
  obtain b1 l1 r where d: "decide_text L c (rs_broker s) l body = ((b1, l1), r)"
    by (metis prod.collapse)
  from decide_text_arbiter [OF d] show ?thesis
  proof (elim conjE disjE exE)
    assume same: "bk_arbiter b1 = arb_of s"
      and none: "\<forall>note p. r = Some (Forward note, p) \<longrightarrow> answer_key p (rl_caps l1) = None"
    show ?thesis
    proof (cases r)
      case None
      with d ok show ?thesis by (simp add: client_text_def held_ok_del)
    next
      case (Some ap)
      with d ok same none show ?thesis
        by (cases ap; cases "fst ap")
          (auto simp: client_text_def Let_def held_ok_del held_ok_idle)
    qed
  next
    fix msg p k
    assume "r = Some (Forward msg, p)" "rl_role l1 = rl_role l"
      "answer_key p (rl_caps l1) = Some k" "hget (arb_of s) k = None"
      "bk_arbiter b1 = hput k (Reserved (rl_role l)) (arb_of s)"
    with d ok held_ok_take [OF ok, of k "l1\<lparr>rl_phase := Handing p body\<rparr>" c]
    show ?thesis by (simp add: client_text_def Let_def)
  qed
qed

lemma handed_held:
  assumes ok: "held_ok (arb_of s) (legs_of s) W" and l: "legs_of s c = Some l" "rl_phase l = Handing p body"
  shows "held_ok (arb_of (handed L s c l p body h)) (legs_of (handed L s c l p body h)) W"
proof -
  obtain b1 l1 where d: "after_handoff L c (rs_broker s) l p h = (b1, l1)" by fastforce
  note e = after_handoff_effect [OF d]
  have k: "held_key l = answer_key p (rl_caps l)" using l by (simp add: held_key_def)
  show ?thesis
  proof (cases h)
    case HandedOver
    with e k have "held_ok (arb_of s) ((legs_of s)(c \<mapsto> l1\<lparr>rl_phase := AwaitingReceipt p\<rparr>)) W"
      by (intro held_ok_keep [OF ok l(1)]) simp_all
    with d e HandedOver ok show ?thesis by (simp add: handed_def Let_def held_ok_idle)
  next
    case HandoffRefused
    show ?thesis
    proof (cases "answer_key p (rl_caps l)")
      case None
      with d e HandoffRefused ok show ?thesis by (simp add: handed_def Let_def held_ok_idle)
    next
      case (Some kk)
      with d e HandoffRefused k show ?thesis
        using held_ok_settle [OF ok l(1) _ _ release_only,
            of kk "l1\<lparr>rl_phase := Reporting p WriteFailed True\<rparr>"]
        by (simp add: handed_def Let_def)
    qed
  next
    case HandoffExpired
    with d e ok show ?thesis by (simp add: handed_def Let_def held_ok_idle)
  qed
qed

lemma receipted_held:
  assumes ok: "held_ok (arb_of s) (legs_of s) W" and l: "legs_of s c = Some l" "rl_phase l = AwaitingReceipt p"
  shows "held_ok (arb_of (receipted L s c l p r)) (legs_of (receipted L s c l p r))
     (W @ (case acked_key s (EvReceipt c r) of None \<Rightarrow> [] | Some k \<Rightarrow> [k]))"
proof -
  obtain b1 l1 out cl where d: "settle_write L (rs_broker s) l p r = ((b1, l1), out, cl)"
    by (metis prod.collapse)
  note e = settle_write_effect [OF d]
  let ?l' = "l1\<lparr>rl_phase := Reporting p out cl\<rparr>"
  have hk: "held_key l = answer_key p (rl_caps l)" using l by (simp add: held_key_def)
  have eq: "arb_of (receipted L s c l p r) = bk_arbiter b1"
    "legs_of (receipted L s c l p r) = (legs_of s)(c \<mapsto> ?l')"
    using d by (simp_all add: receipted_def)
  show ?thesis
  proof (cases "answer_key p (rl_caps l)")
    case None
    with l have "acked_key s (EvReceipt c r) = None"
      by (simp add: acked_key_def split: receipt.split)
    with None e eq ok show ?thesis by (simp add: held_ok_idle split: receipt.splits)
  next
    case (Some k)
    note held = held_okD [OF ok l(1), of k, unfolded hk, OF Some]
    show ?thesis
    proof (cases "r = Acked True")
      case True
      with e Some have a: "bk_arbiter b1 = arb_confirm (arb_of s) k (rl_role l)" by simp
      then have "held_ok (bk_arbiter b1) ((legs_of s)(c \<mapsto> ?l')) W"
        using held_ok_settle [OF ok l(1) _ _ confirm_only, of k ?l'] hk Some by simp
      with a held(2) confirm_reserved [OF held(1)]
      have "held_ok (bk_arbiter b1) ((legs_of s)(c \<mapsto> ?l')) (W @ [k])"
        by (intro held_ok_written) simp_all
      with True l Some eq show ?thesis by (simp add: acked_key_def)
    next
      case False
      then have "acked_key s (EvReceipt c r) = None" by (auto simp: acked_key_def split: receipt.split)
      moreover from False e Some have "bk_arbiter b1 \<in> {arb_of s, arb_release (arb_of s) k (rl_role l)}"
        by (auto split: receipt.splits if_splits)
      then have "\<And>k'. k' \<noteq> k \<Longrightarrow> hget (bk_arbiter b1) k' = hget (arb_of s) k'"
        by (auto simp: release_only)
      then have "held_ok (bk_arbiter b1) ((legs_of s)(c \<mapsto> ?l')) W"
        using held_ok_settle [OF ok l(1), of k ?l'] hk Some by simp
      ultimately show ?thesis using eq by simp
    qed
  qed
qed

lemma report_held:
  assumes "held_ok (arb_of s) (legs_of s) W"
  shows "held_ok (arb_of (report L s c l p out cl sent)) (legs_of (report L s c l p out cl sent)) W"
  using assms by (auto simp: report_def Let_def held_ok_del held_ok_idle split: option.split)

lemma woken_held:
  assumes "held_ok (arb_of s) (legs_of s) W"
  shows "held_ok (arb_of (woken L s c sent)) (legs_of (woken L s c sent)) W"
  using assms by (auto simp: woken_def Let_def held_ok_del split: option.split prod.split)

lemma open_held:
  assumes "held_ok (arb_of s) (legs_of s) W"
  shows "held_ok (arb_of (open_leg s r)) (legs_of (open_leg s r)) W"
  using assms by (simp add: open_leg_def Let_def update_conv' held_ok_idle held_key_def new_relay_leg_def)

lemma relay_step_held:
  assumes ok: "held_ok (arb_of s) (legs_of s) W"
  shows "held_ok (arb_of (relay_step L s ev)) (legs_of (relay_step L s ev))
     (W @ (case acked_key s ev of None \<Rightarrow> [] | Some k \<Rightarrow> [k]))"
proof (cases ev)
  case (EvReceipt c r)
  show ?thesis
  proof (cases "\<exists>l p. legs_of s c = Some l \<and> rl_phase l = AwaitingReceipt p")
    case True
    with EvReceipt ok show ?thesis by (auto simp: on_leg_def intro!: receipted_held)
  next
    case False
    then have "acked_key s ev = None"
      using EvReceipt by (auto simp: acked_key_def split: receipt.split option.split phase.split)
    moreover from False have "relay_step L s ev = s"
      using EvReceipt by (auto simp: on_leg_def split: option.split phase.split)
    ultimately show ?thesis using ok by simp
  qed
next
  case (EvHandoff c h)
  with ok show ?thesis
    by (auto simp: on_leg_def acked_key_def split: option.split phase.split intro!: handed_held)
next
  case (EvServer c m sent)
  with ok show ?thesis
    by (auto simp: on_leg_def when_idle_def acked_key_def split: option.split intro!: server_frame_held)
next
  case (EvText c body sent)
  with ok show ?thesis
    by (auto simp: on_leg_def when_idle_def acked_key_def split: option.split intro!: client_text_held)
next
  case (EvBinary c h)
  with ok show ?thesis
    by (auto simp: on_leg_def when_idle_def acked_key_def client_binary_def held_ok_del split: option.split)
next
  case (EvReport c sent)
  with ok show ?thesis
    by (auto simp: on_leg_def acked_key_def split: option.split phase.split intro!: report_held)
next
  case (EvWake c sent)
  with ok show ?thesis
    by (auto simp: on_leg_def when_idle_def acked_key_def split: option.split intro!: woken_held)
next
  case (EvClose c)
  with ok show ?thesis
    by (auto simp: on_leg_def when_idle_def acked_key_def held_ok_del split: option.split)
qed (use ok in \<open>simp_all add: acked_key_def open_held\<close>)

lemma relay_run_held:
  assumes "held_ok (arb_of s) (legs_of s) W"
  shows "held_ok (arb_of (relay_run L s evs)) (legs_of (relay_run L s evs)) (W @ written L s evs)"
  using assms
proof (induction evs arbitrary: s W)
  case (Cons ev evs)
  from Cons.IH [OF relay_step_held [OF Cons.prems, of L ev]] show ?case by simp
qed simp

lemma new_relay_held: "held_ok (arb_of new_relay) (legs_of new_relay) []"
  by (simp add: held_ok_def new_relay_def new_broker_def)

end
