(* ===== verification/Broker_Relay_Report.thy ===== *)
theory Broker_Relay_Report
  imports Broker_Relay_Run
begin

text \<open>
  What a phone is told about its answer: what the events of the run did to it, and who answered
  instead only when somebody has.
\<close>

section \<open>A confirmed winner stays\<close>

lemma confirmed_stays:
  assumes "hget a k = Some (Confirmed r)"
  shows "hget (arb_confirm a k' r') k = Some (Confirmed r)" "hget (arb_release a k' r') k = Some (Confirmed r)"
    "hget a k' = None \<Longrightarrow> hget (hput k' v a) k = Some (Confirmed r)"
  using assms by (auto simp: arb_confirm_def arb_release_def hget_hput hget_hdel split: option.split slot_state.split)

lemma confirmed_step:
  assumes c: "hget (arb_of s) k = Some (Confirmed r)"
  shows "hget (arb_of (relay_step L s ev)) k = Some (Confirmed r)"
proof (cases ev)
  case (EvText i body sent)
  have "hget (bk_arbiter b1) k = Some (Confirmed r)"
    if "decide_text L i (rs_broker s) l body = ((b1, l1), d)" for l b1 l1 d
    using decide_text_arbiter [OF that] c confirmed_stays(3) [OF c] by auto
  with EvText c show ?thesis
    by (auto simp: on_leg_def when_idle_def client_text_def Let_def
        split: option.split relay_action.split prod.split)
next
  case (EvHandoff i h)
  have "hget (bk_arbiter b1) k = Some (Confirmed r)"
    if "after_handoff L i (rs_broker s) l p h = (b1, l1)" for l p b1 l1
    using after_handoff_effect [OF that] c confirmed_stays(2) [OF c] by (auto split: handoff.splits option.splits)
  with EvHandoff c show ?thesis
    by (auto simp: on_leg_def handed_def Let_def split: option.split phase.split prod.split handoff.split)
next
  case (EvReceipt i rc)
  have "hget (bk_arbiter b1) k = Some (Confirmed r)"
    if "settle_write L (rs_broker s) l p rc = ((b1, l1), out, cl)" for l p b1 l1 out cl
    using settle_write_effect [OF that] c confirmed_stays(1,2) [OF c]
    by (auto split: receipt.splits option.splits if_splits)
  with EvReceipt c show ?thesis
    by (auto simp: on_leg_def receipted_def split: option.split phase.split prod.split)
qed (use c in \<open>auto simp: on_leg_def when_idle_def server_frame_def client_binary_def report_def woken_def
      open_leg_def Let_def
      split: option.split phase.split prod.split ws_payload.split s2c_disposition.split\<close>)

section \<open>A leg that reports a written answer\<close>

definition reports_ok :: "arbiter \<Rightarrow> (conn_id \<Rightarrow> relay_leg option) \<Rightarrow> upstream_request_key list \<Rightarrow> bool" where
  "reports_ok a legs W \<longleftrightarrow> (\<forall>c l p cl k. legs c = Some l \<longrightarrow> rl_phase l = Reporting p Delivered cl \<longrightarrow>
     answer_key p (rl_caps l) = Some k \<longrightarrow> k \<in> set W \<and> hget a k = Some (Confirmed (rl_role l)))"

lemma reports_ok_mono:
  assumes "reports_ok a legs W" "set W \<subseteq> set W'"
    "\<And>k r. hget a k = Some (Confirmed r) \<Longrightarrow> hget a' k = Some (Confirmed r)"
  shows "reports_ok a' legs W'"
  using assms unfolding reports_ok_def by blast

lemma reports_ok_upd:
  "reports_ok a legs W \<Longrightarrow> (\<And>p cl. rl_phase l \<noteq> Reporting p Delivered cl) \<Longrightarrow> reports_ok a (legs(c \<mapsto> l)) W"
  by (auto simp: reports_ok_def)

lemma reports_ok_del: "reports_ok a legs W \<Longrightarrow> reports_ok a (legs(c := None)) W"
  by (auto simp: reports_ok_def)

text \<open>The legs after a step: as before, one gone, or one in a phase that reports nothing written,
  unless the step is a receipt.\<close>

definition silent_change :: "(conn_id \<Rightarrow> relay_leg option) \<Rightarrow> (conn_id \<Rightarrow> relay_leg option) \<Rightarrow> bool" where
  "silent_change m m' \<longleftrightarrow> m' = m \<or> (\<exists>c. m' = m(c := None)) \<or>
     (\<exists>c l. m' = m(c \<mapsto> l) \<and> (\<forall>p cl. rl_phase l \<noteq> Reporting p Delivered cl))"

lemma silent_changeI [simp, intro]:
  "silent_change m m" "silent_change m (m(c := None))"
  "(\<And>p cl. rl_phase l \<noteq> Reporting p Delivered cl) \<Longrightarrow> silent_change m (m(c \<mapsto> l))"
  unfolding silent_change_def by blast+

lemma settle_silent:
  "settle_write L b l p rc = ((b1, l1), out, cl) \<Longrightarrow> rc \<noteq> Acked True \<Longrightarrow> out \<noteq> Delivered"
  by (auto simp: settle_write_def Let_def split: receipt.splits if_splits)

lemma legs_after_step:
  assumes "\<forall>c. ev \<noteq> EvReceipt c (Acked True)"
  shows "silent_change (legs_of s) (legs_of (relay_step L s ev))"
proof (cases ev)
  case (EvReceipt c rc)
  with assms have "rc \<noteq> Acked True" by simp
  with EvReceipt settle_silent show ?thesis
    by (auto simp: on_leg_def receipted_def split: option.split phase.split prod.split)
next
  case (EvServer c m sent)
  then show ?thesis
    by (auto simp: on_leg_def when_idle_def server_frame_def Let_def
        split: option.split ws_payload.split prod.split s2c_disposition.split)
next
  case (EvText c body sent)
  have "silent_change (legs_of s) (legs_of (client_text L s c l body sent))" for l
  proof -
    obtain b1 l1 r where "decide_text L c (rs_broker s) l body = ((b1, l1), r)"
      by (metis prod.collapse)
    then show ?thesis
      by (cases r) (auto simp: client_text_def Let_def split: relay_action.split)
  qed
  with EvText show ?thesis by (simp add: on_leg_def when_idle_def split: option.split)
next
  case (EvHandoff c h)
  then show ?thesis
    by (auto simp: on_leg_def handed_def Let_def split: option.split phase.split prod.split handoff.split)
next
  case (EvReport c sent)
  then show ?thesis
    by (auto simp: on_leg_def report_def Let_def split: option.split phase.split)
next
  case (EvWake c sent)
  then show ?thesis
    by (auto simp: on_leg_def when_idle_def woken_def Let_def split: option.split prod.split)
next
  case (EvOpen r)
  then show ?thesis
    by (auto simp: open_leg_def Let_def update_conv' new_relay_leg_def)
qed (auto simp: on_leg_def when_idle_def client_binary_def split: option.split)

lemma reports_step:
  assumes held: "held_ok (arb_of s) (legs_of s) W" and ok: "reports_ok (arb_of s) (legs_of s) W"
  shows "reports_ok (arb_of (relay_step L s ev)) (legs_of (relay_step L s ev))
     (W @ (case acked_key s ev of None \<Rightarrow> [] | Some k \<Rightarrow> [k]))"
    (is "reports_ok ?a' ?legs' ?W'")
proof -
  have ok': "reports_ok ?a' (legs_of s) ?W'"
    by (rule reports_ok_mono [OF ok]) (auto intro: confirmed_step)
  show ?thesis
  proof (cases "\<exists>c. ev = EvReceipt c (Acked True)")
    case False
    with legs_after_step [of ev s L] have "silent_change (legs_of s) ?legs'" by blast
    then show ?thesis
      unfolding silent_change_def
      by (elim disjE exE conjE)
        (use ok' in \<open>simp_all add: reports_ok_del reports_ok_upd del: fun_upd_apply\<close>)
  next
    case True
    then obtain c where ev: "ev = EvReceipt c (Acked True)" by blast
    show ?thesis
    proof (cases "\<exists>l p. legs_of s c = Some l \<and> rl_phase l = AwaitingReceipt p")
      case False
      then have "relay_step L s ev = s"
        using ev by (auto simp: on_leg_def split: option.split phase.split)
      with ok' show ?thesis by simp
    next
      case True
      then obtain l p where l: "legs_of s c = Some l" "rl_phase l = AwaitingReceipt p" by blast
      obtain b1 l1 out cl where d: "settle_write L (rs_broker s) l p (Acked True) = ((b1, l1), out, cl)"
        by (metis prod.collapse)
      have legs': "?legs' = (legs_of s)(c \<mapsto> l1\<lparr>rl_phase := Reporting p out cl\<rparr>)"
        and a': "?a' = bk_arbiter b1"
        using ev l d by (simp_all add: on_leg_def receipted_def)
      have k: "answer_key p (rl_caps l1) = answer_key p (rl_caps l)"
        using d by (auto simp: settle_write_def Let_def answer_key_def confirm_write_def
            split: option.splits)
      show ?thesis
      proof (cases "answer_key p (rl_caps l)")
        case None
        with ok' k legs' show ?thesis by (auto simp: reports_ok_def)
      next
        case (Some kk)
        then have "held_key l = Some kk" using l by (simp add: held_key_def)
        from held_okD(1) [OF held l(1) this] settle_write_effect [OF d] Some
        have "hget ?a' kk = Some (Confirmed (rl_role l1))"
          by (simp add: a' confirm_reserved)
        moreover have "kk \<in> set ?W'" using ev l Some by (simp add: acked_key_def)
        ultimately show ?thesis using ok' k Some unfolding legs' by (auto simp: reports_ok_def)
      qed
    qed
  qed
qed

lemma reports_run:
  assumes "held_ok (arb_of s) (legs_of s) W" "reports_ok (arb_of s) (legs_of s) W"
  shows "reports_ok (arb_of (relay_run L s evs)) (legs_of (relay_run L s evs)) (W @ written L s evs)"
  using assms
proof (induction evs arbitrary: s W)
  case (Cons ev evs)
  from Cons.IH [OF relay_step_held reports_step] Cons.prems show ?case by simp
qed simp

lemma reports_new:
  "reports_ok (arb_of (relay_run L new_relay evs)) (legs_of (relay_run L new_relay evs)) (written L new_relay evs)"
  using reports_run [OF new_relay_held, of L evs] by (simp add: reports_ok_def new_relay_def)

section \<open>What happened to a leg's answer\<close>

text \<open>The fate of the message a connection handles, read off the events alone: nothing was handed to
  the pump of the app-server, the pump took it or not, or its receipt came. An event the connection
  does not wait for is none.\<close>

datatype fate = Unsent | Pumped handoff | Receipted receipt

definition fate_step :: "relay \<Rightarrow> (conn_id \<Rightarrow> fate) \<Rightarrow> relay_event \<Rightarrow> conn_id \<Rightarrow> fate" where
  "fate_step s F ev = (case ev of
     EvText c body sent \<Rightarrow>
       (if map_option rl_phase (hget (rs_legs s) c) = Some Idle then F(c := Unsent) else F)
   | EvHandoff c h \<Rightarrow>
       (case map_option rl_phase (hget (rs_legs s) c) of
          Some (Handing p body) \<Rightarrow> F(c := Pumped h) | _ \<Rightarrow> F)
   | EvReceipt c r \<Rightarrow>
       (case map_option rl_phase (hget (rs_legs s) c) of
          Some (AwaitingReceipt p) \<Rightarrow> F(c := Receipted r) | _ \<Rightarrow> F)
   | _ \<Rightarrow> F)"

fun fates :: "ext \<Rightarrow> relay \<Rightarrow> (conn_id \<Rightarrow> fate) \<Rightarrow> relay_event list \<Rightarrow> conn_id \<Rightarrow> fate" where
  "fates L s F [] = F"
| "fates L s F (ev # evs) = fates L (relay_step L s ev) (fate_step s F ev) evs"

fun outcome_of :: "fate \<Rightarrow> write_outcome option" where
  "outcome_of Unsent = Some NotForwarded"
| "outcome_of (Pumped HandedOver) = None"
| "outcome_of (Pumped HandoffRefused) = Some WriteFailed"
| "outcome_of (Pumped HandoffExpired) = Some Unconfirmed"
| "outcome_of (Receipted (Acked wrote)) = Some (if wrote then Delivered else WriteFailed)"
| "outcome_of (Receipted ReceiptDropped) = Some Unconfirmed"
| "outcome_of (Receipted ReceiptExpired) = Some Unconfirmed"

definition fates_ok :: "(conn_id \<Rightarrow> relay_leg option) \<Rightarrow> (conn_id \<Rightarrow> fate) \<Rightarrow> bool" where
  "fates_ok legs F \<longleftrightarrow> (\<forall>c l p out cl. legs c = Some l \<longrightarrow> rl_phase l = Reporting p out cl \<longrightarrow>
     pd_responded p \<noteq> None \<longrightarrow> outcome_of (F c) = Some out)"

lemma fates_ok_upd:
  assumes "fates_ok legs F"
    "\<And>p out cl. rl_phase l = Reporting p out cl \<Longrightarrow> pd_responded p \<noteq> None \<Longrightarrow> outcome_of f = Some out"
  shows "fates_ok (legs(c \<mapsto> l)) (F(c := f))"
  using assms by (auto simp: fates_ok_def)

lemma fates_ok_quiet:
  assumes "fates_ok legs F" "\<And>p out cl. rl_phase l \<noteq> Reporting p out cl"
  shows "fates_ok (legs(c \<mapsto> l)) F"
  using assms by (auto simp: fates_ok_def)

lemma fates_ok_del: "fates_ok legs F \<Longrightarrow> fates_ok (legs(c := None)) F"
  "fates_ok legs F \<Longrightarrow> fates_ok (legs(c := None)) (F(c := f))"
  by (auto simp: fates_ok_def)

text \<open>Only reading a client's text, a hand-off and a receipt lead to a report.\<close>

definition quiet_change :: "(conn_id \<Rightarrow> relay_leg option) \<Rightarrow> (conn_id \<Rightarrow> relay_leg option) \<Rightarrow> bool" where
  "quiet_change m m' \<longleftrightarrow> m' = m \<or> (\<exists>c. m' = m(c := None)) \<or>
     (\<exists>c l. m' = m(c \<mapsto> l) \<and> (\<forall>p out cl. rl_phase l \<noteq> Reporting p out cl))"

lemma quiet_changeI [simp, intro]:
  "quiet_change m m" "quiet_change m (m(c := None))"
  "(\<And>p out cl. rl_phase l \<noteq> Reporting p out cl) \<Longrightarrow> quiet_change m (m(c \<mapsto> l))"
  unfolding quiet_change_def by blast+

lemma fates_ok_change: "fates_ok m F \<Longrightarrow> quiet_change m m' \<Longrightarrow> fates_ok m' F"
  by (auto simp: quiet_change_def fates_ok_quiet fates_ok_del simp del: fun_upd_apply)

lemma server_frame_quiet:
  assumes "rl_phase l = Idle"
  shows "quiet_change (legs_of s) (legs_of (server_frame L s c l m sent))"
  using assms
  by (auto simp: server_frame_def Let_def split: ws_payload.split prod.split s2c_disposition.split)

lemma client_text_fates:
  assumes "fates_ok (legs_of s) F"
  shows "fates_ok (legs_of (client_text L s c l body sent)) (F(c := Unsent))"
proof -
  obtain b1 l1 r where "decide_text L c (rs_broker s) l body = ((b1, l1), r)" by (metis prod.collapse)
  with assms show ?thesis
    by (cases r)
      (auto simp: client_text_def Let_def fates_ok_del simp del: fun_upd_apply
        split: relay_action.split intro!: fates_ok_upd)
qed

lemma handed_fates:
  assumes "fates_ok (legs_of s) F"
  shows "fates_ok (legs_of (handed L s c l p body h)) (F(c := Pumped h))"
  using assms
  by (auto simp: handed_def Let_def simp del: fun_upd_apply split: prod.split handoff.split
      intro!: fates_ok_upd)

lemma receipted_fates:
  assumes "fates_ok (legs_of s) F"
  shows "fates_ok (legs_of (receipted L s c l p r)) (F(c := Receipted r))"
proof -
  obtain b1 l1 out cl where d: "settle_write L (rs_broker s) l p r = ((b1, l1), out, cl)"
    by (metis prod.collapse)
  then have "outcome_of (Receipted r) = Some out"
    by (auto simp: settle_write_def Let_def split: receipt.splits if_splits)
  with assms have "fates_ok ((legs_of s)(c \<mapsto> l1\<lparr>rl_phase := Reporting p out cl\<rparr>)) (F(c := Receipted r))"
    by (intro fates_ok_upd) simp_all
  with d show ?thesis by (simp add: receipted_def del: fun_upd_apply)
qed

lemma fates_step:
  assumes ok: "fates_ok (legs_of s) F"
  shows "fates_ok (legs_of (relay_step L s ev)) (fate_step s F ev)"
proof (cases ev)
  case (EvText c body sent)
  with ok show ?thesis
    by (auto simp: fate_step_def on_leg_def when_idle_def client_text_fates split: option.split)
next
  case (EvHandoff c h)
  with ok show ?thesis
    by (auto simp: fate_step_def on_leg_def handed_fates split: option.split phase.split)
next
  case (EvReceipt c r)
  with ok show ?thesis
    by (auto simp: fate_step_def on_leg_def receipted_fates split: option.split phase.split)
next
  case (EvServer c m sent)
  with ok show ?thesis
    by (auto simp: fate_step_def on_leg_def when_idle_def split: option.split
        intro: fates_ok_change server_frame_quiet)
next
  case (EvOpen r)
  with ok show ?thesis
    by (simp add: fate_step_def open_leg_def Let_def update_conv' new_relay_leg_def fates_ok_quiet
        del: fun_upd_apply)
qed (use ok in \<open>auto simp: fate_step_def on_leg_def when_idle_def client_binary_def report_def woken_def
      Let_def fates_ok_quiet fates_ok_del simp del: fun_upd_apply
      split: option.split phase.split prod.split\<close>)

lemma fates_run:
  "fates_ok (legs_of s) F \<Longrightarrow> fates_ok (legs_of (relay_run L s evs)) (fates L s F evs)"
  by (induction evs arbitrary: s F) (simp_all add: fates_step)

lemma reported_outcome:
  assumes "map_of (rs_legs (relay_run L new_relay evs)) c = Some l" "rl_phase l = Reporting p out cl"
    "pd_responded p \<noteq> None"
  shows "outcome_of (fates L new_relay (\<lambda>c. Unsent) evs c) = Some out"
proof -
  have "fates_ok (legs_of new_relay) (\<lambda>c. Unsent)" by (simp add: fates_ok_def new_relay_def)
  from fates_run [OF this, of L evs] assms show ?thesis unfolding fates_ok_def by blast
qed

text \<open>What a phone is told of an answer of that fate: delivered, the winner and the cause.\<close>

fun told_of_fate :: "fate \<Rightarrow> role option \<Rightarrow> bool \<times> role option \<times> string option" where
  "told_of_fate Unsent winner = (False, winner, None)"
| "told_of_fate (Pumped HandoffRefused) winner = (False, None, Some ''write_failed'')"
| "told_of_fate (Receipted (Acked wrote)) winner =
     (wrote, None, if wrote then None else Some ''write_failed'')"
| "told_of_fate _ winner = (False, None, Some ''unconfirmed'')"

lemma disposition_of_fate:
  assumes "outcome_of f = Some out" "disposition_frame L a l p out = Some frame"
    "pd_responded p = Some i" "rl_role l = Ccd" "leg_bound_thread (rl_caps l) i = Some th"
    "told_of_fate f (recorded_winner a (rl_caps l) i) = (d, w, ca)"
  shows "d = (out = Delivered) \<and> frame = response_disposition L th i d w ca"
proof -
  from assms(1,6) have o: "(case out of
        Delivered \<Rightarrow> (True, None, None)
      | WriteFailed \<Rightarrow> (False, None, Some CAUSE_WRITE_FAILED)
      | Unconfirmed \<Rightarrow> (False, None, Some CAUSE_UNCONFIRMED)
      | NotForwarded \<Rightarrow> (False, recorded_winner a (rl_caps l) i, None)) = (d, w, ca)"
    by (cases f rule: outcome_of.cases)
      (auto simp: CAUSE_WRITE_FAILED_def CAUSE_UNCONFIRMED_def split: if_splits)
  moreover from this have "d = (out = Delivered)" by (cases out) auto
  ultimately show ?thesis using assms(2-5) by (simp add: disposition_frame_def)
qed

text \<open>C6. What a phone is told about its answer is true. When a phone leg of a running broker reports
  an answer, the frame its client is sent names the request it answers and the thread the phone was
  shown it on, and says what in fact happened to the answer, as the events of the run have it:
  delivered exactly when the write was acknowledged, and then the phone is the confirmed winner;
  the cause \<open>write_failed\<close> exactly when the pump refused the answer or the write was reported
  failed; \<open>unconfirmed\<close> exactly when the hand-off timed out, the receipt was dropped, or
  none came in time; and a winner only when the answer was never handed over, and then the role whose
  answer to that approval is confirmed at that moment.\<close>
theorem a_disposition_is_true:
  assumes "s = relay_run L new_relay evs" and "map_of (rs_legs s) c = Some l"
    and "rl_phase l = Reporting p outcome cl"
    and "disposition_frame L (arb_of s) l p outcome = Some frame"
  shows "\<exists>i k delivered winner cause. pd_responded p = Some i \<and> rl_role l = Ccd \<and>
     slot_key (rl_caps l) i = Some k \<and>
     rs_clients (relay_step L s (EvReport c True)) = rs_clients s @ [(c, PText frame)] \<and>
     frame = response_disposition L (key_thread k) i delivered winner cause \<and>
     (delivered, winner, cause) =
       told_of_fate (fates L new_relay (\<lambda>c. Unsent) evs c) (arb_winner (arb_of s) k) \<and>
     fates L new_relay (\<lambda>c. Unsent) evs c \<noteq> Pumped HandedOver \<and>
     (delivered \<longrightarrow> k \<in> set (written L new_relay evs) \<and> arb_winner (arb_of s) k = Some Ccd)"
proof -
  from assms(4) obtain i th where i: "pd_responded p = Some i" and r: "rl_role l = Ccd"
    and th: "leg_bound_thread (rl_caps l) i = Some th"
    by (auto simp: disposition_frame_def split: option.splits if_splits)
  from th obtain e where e: "\<not> poisoned (rl_caps l)" "hget (view (rl_caps l)) i = Some (Bound e)" "le_thread e = th"
    by (auto simp: leg_bound_thread_def split: if_splits option.splits id_state.splits)
  define k where "k = \<lparr>key_thread = th, key_request = i, key_generation = le_generation e\<rparr>"
  have sk: "slot_key (rl_caps l) i = Some k" using e by (simp add: slot_key_def k_def)
  have rw: "recorded_winner a (rl_caps l) i = arb_winner a k" for a
    using e by (simp add: recorded_winner_def k_def)
  have won: "outcome = Delivered \<longrightarrow> k \<in> set (written L new_relay evs) \<and> arb_winner (arb_of s) k = Some Ccd"
    using reports_new [of L evs] assms(1-3) sk i r
    by (auto simp: reports_ok_def answer_key_def arb_winner_def)
  have out: "outcome_of (fates L new_relay (\<lambda>c. Unsent) evs c) = Some outcome" (is "outcome_of ?f = _")
    using reported_outcome assms(1-3) i by simp
  have sent: "rs_clients (relay_step L s (EvReport c True)) = rs_clients s @ [(c, PText frame)]"
    using assms(2-4) by (simp add: on_leg_def report_def Let_def to_client_def close_leg_def set_phase_def)
  obtain d w ca where told: "told_of_fate ?f (arb_winner (arb_of s) k) = (d, w, ca)" by (metis prod.collapse)
  with disposition_of_fate [OF out assms(4) i r th] rw
  have "d = (outcome = Delivered)" "frame = response_disposition L th i d w ca" by simp_all
  moreover have "?f \<noteq> Pumped HandedOver" using out by auto
  moreover have "th = key_thread k" by (simp add: k_def)
  ultimately have "pd_responded p = Some i \<and> rl_role l = Ccd \<and> slot_key (rl_caps l) i = Some k \<and>
     rs_clients (relay_step L s (EvReport c True)) = rs_clients s @ [(c, PText frame)] \<and>
     frame = response_disposition L (key_thread k) i d w ca \<and>
     (d, w, ca) = told_of_fate ?f (arb_winner (arb_of s) k) \<and> ?f \<noteq> Pumped HandedOver \<and>
     (d \<longrightarrow> k \<in> set (written L new_relay evs) \<and> arb_winner (arb_of s) k = Some Ccd)"
    using i r sk sent told won by simp
  then show ?thesis by (intro exI)
qed

end
