(* ===== verification/Broker_Relay_Props.thy ===== *)
theory Broker_Relay_Props
  imports Broker_Relay_Report Broker_Notes
begin

text \<open>
  What the relay promises: an approval is written once in any run of the broker, unless the keyboard answers on a leg that
  can name none under the id, the app-server
  hears from a phone only what the classifier forwards and from the keyboard everything but an answer
  that came too late, and every phone leg is told the head, and nothing but the head.
\<close>

section \<open>One written answer\<close>

text \<open>The answer an event proves written: whose leg sent it, under which id, and the slot of the
  approval the leg can name there, if it can name one.\<close>

definition acked_answer :: "relay \<Rightarrow> relay_event \<Rightarrow> (role \<times> request_id \<times> upstream_request_key option) option" where
  "acked_answer s ev = (case ev of
     EvReceipt c (Acked wrote) \<Rightarrow>
       if wrote then
         (case hget (rs_legs s) c of
            Some l \<Rightarrow> (case rl_phase l of
                AwaitingReceipt p \<Rightarrow>
                  map_option (\<lambda>i. (rl_role l, i, slot_key (rl_caps l) i)) (pd_responded p)
              | _ \<Rightarrow> None)
          | None \<Rightarrow> None)
       else None
   | _ \<Rightarrow> None)"

fun answers_written ::
  "ext \<Rightarrow> relay \<Rightarrow> relay_event list \<Rightarrow> (role \<times> request_id \<times> upstream_request_key option) list" where
  "answers_written L s [] = []"
| "answers_written L s (ev # evs) =
     (case acked_answer s ev of None \<Rightarrow> [] | Some w \<Rightarrow> [w]) @ answers_written L (relay_step L s ev) evs"

lemma acked_key_answer: "acked_key s ev = Option.bind (acked_answer s ev) (\<lambda>(r, i, k). k)"
  by (auto simp: acked_key_def acked_answer_def answer_key_def bind_map_option comp_def
      split: relay_event.split receipt.split option.split phase.split)

lemma written_answers: "written L s evs = List.map_filter (\<lambda>(r, i, k). k) (answers_written L s evs)"
  by (induction evs arbitrary: s)
    (simp_all add: acked_key_answer map_filter_def split: option.split)

text \<open>An answer of a phone's that is on its way is one to an approval its leg names.\<close>

definition named_leg :: "relay_leg \<Rightarrow> bool" where
  "named_leg l \<longleftrightarrow> rl_role l = Tui \<or> (case rl_phase l of
     Handing p body \<Rightarrow> pd_responded p = None \<or> answer_key p (rl_caps l) \<noteq> None
   | AwaitingReceipt p \<Rightarrow> pd_responded p = None \<or> answer_key p (rl_caps l) \<noteq> None
   | _ \<Rightarrow> True)"

definition named_legs :: "(conn_id \<Rightarrow> relay_leg option) \<Rightarrow> bool" where
  "named_legs legs \<longleftrightarrow> (\<forall>c l. legs c = Some l \<longrightarrow> named_leg l)"

lemma named_legsD: "named_legs legs \<Longrightarrow> legs c = Some l \<Longrightarrow> named_leg l"
  by (auto simp: named_legs_def)

lemma named_legs_upd: "named_legs legs \<Longrightarrow> named_leg l \<Longrightarrow> named_legs (legs(c \<mapsto> l))"
  by (simp add: named_legs_def)

lemma named_legs_del: "named_legs legs \<Longrightarrow> named_legs (legs(c := None))"
  by (simp add: named_legs_def)

lemma named_leg_phases [simp]:
  "named_leg (l\<lparr>rl_phase := Idle\<rparr>)" "named_leg (l\<lparr>rl_phase := Reporting p out cl\<rparr>)"
  "rl_phase l = Idle \<Longrightarrow> named_leg l"
  by (simp_all add: named_leg_def)

lemma phone_answer_named:
  assumes "decide_action L c b l (SResponse i obj) = ((b1, l1), Forward n, move)" "rl_role l = Ccd"
  shows "slot_key (rl_caps l1) i \<noteq> None"
proof -
  have kept: "slot_key (snd (fst (authorize L a caps i h))) i = slot_key caps i" for a caps h
    by (auto simp: authorize_eq slot_key_def split: option.split id_state.split)
  have named: "snd (authorize L a caps i h) \<Longrightarrow> slot_key caps i \<noteq> None" for a caps h
    by (auto simp: authorize_eq split: option.splits)
  from assms show ?thesis
    by (auto simp: decide_action_def decide_response classify_response_def leg_capabilities_def
        session_threads_def case_prod_beta kept dest!: named split: bool.splits if_splits)
qed

lemma decide_text_named:
  assumes "decide_text L c b l body = ((b1, l1), Some (Forward n, p))"
  shows "named_leg (l1\<lparr>rl_phase := Handing p body\<rparr>)"
proof (cases "rl_role l")
  case Tui
  with decide_text_arbiter [OF assms] show ?thesis by (simp add: named_leg_def)
next
  case Ccd
  let ?sh = "classify_shape L (PText body)"
  let ?l = "if initializes l ?sh then l\<lparr>rl_seen_initialize := True\<rparr> else l"
  obtain b' l' action move where d: "decide_action L c b ?l ?sh = ((b', l'), action, move)"
    by (metis prod.collapse)
  have "\<not> (initializes l ?sh \<and> rl_seen_initialize l)"
    using assms by (auto simp: decide_text_def Let_def)
  from assms decide_text_eq [OF this d] have eqs: "l1 = l'" "action = Forward n"
      "pd_responded p = (case ?sh of SResponse i obj \<Rightarrow> Some i | _ \<Rightarrow> None)" by auto
  have "pd_responded p = None \<or> answer_key p (rl_caps l1) \<noteq> None"
  proof (cases ?sh)
    case (SResponse i obj)
    with phone_answer_named [of L c b ?l i obj b' l' n move] d eqs Ccd
    show ?thesis by (simp add: answer_key_def)
  qed (simp_all add: eqs(3))
  then show ?thesis by (simp add: named_leg_def answer_key_def)
qed

lemma named_step:
  assumes ok: "named_legs (legs_of s)"
  shows "named_legs (legs_of (relay_step L s ev))"
proof (cases ev)
  case (EvText c body sent)
  have "named_legs (legs_of (client_text L s c l body sent))" for l
  proof -
    obtain b1 l1 r where "decide_text L c (rs_broker s) l body = ((b1, l1), r)" by (metis prod.collapse)
    with ok decide_text_named [of L c "rs_broker s" l body b1 l1] show ?thesis
      by (cases r)
        (auto simp: client_text_def Let_def named_legs_del simp del: fun_upd_apply
          split: relay_action.split intro!: named_legs_upd)
  qed
  with EvText ok show ?thesis by (simp add: on_leg_def when_idle_def split: option.split)
next
  case (EvHandoff c h)
  have "named_leg (l1\<lparr>rl_phase := AwaitingReceipt p\<rparr>)"
    if "after_handoff L c (rs_broker s) l p h = (b1, l1)" "rl_phase l = Handing p body" "legs_of s c = Some l"
    for l p body b1 l1
    using after_handoff_effect [OF that(1)] that(2) named_legsD [OF ok that(3)] by (auto simp: named_leg_def)
  with EvHandoff ok show ?thesis
    by (auto simp: on_leg_def handed_def Let_def simp del: fun_upd_apply intro!: named_legs_upd
        split: option.split phase.split prod.split handoff.split)
next
  case (EvServer c m sent)
  with ok show ?thesis
    by (auto simp: on_leg_def when_idle_def server_frame_def Let_def named_legs_del simp del: fun_upd_apply
        intro!: named_legs_upd named_leg_phases(3)
        split: option.split ws_payload.split prod.split s2c_disposition.split)
next
  case (EvOpen r)
  with ok show ?thesis
    by (simp add: open_leg_def Let_def update_conv' new_relay_leg_def named_legs_upd del: fun_upd_apply)
qed (use ok in \<open>auto simp: on_leg_def when_idle_def client_binary_def receipted_def report_def woken_def
      Let_def named_legs_del simp del: fun_upd_apply intro!: named_legs_upd
      split: option.split phase.split prod.split\<close>)

text \<open>What an answer written proves: the slot it names is confirmed for its sender; only the keyboard's
  has none.\<close>

definition answer_settled :: "arbiter \<Rightarrow> role \<times> request_id \<times> upstream_request_key option \<Rightarrow> bool" where
  "answer_settled a w = (case w of
     (r, i, Some k) \<Rightarrow> key_request k = i \<and> arb_winner a k = Some r
   | (r, i, None) \<Rightarrow> r = Tui)"

lemma answer_settled_step: "answer_settled (arb_of s) w \<Longrightarrow> answer_settled (arb_of (relay_step L s ev)) w"
  using confirmed_step [of s _ _ L ev]
  by (fastforce simp: answer_settled_def arb_winner_def split: prod.splits option.splits slot_state.splits)

lemma acked_settled:
  assumes held: "held_ok (arb_of s) (legs_of s) W" and named: "named_legs (legs_of s)"
    and w: "acked_answer s ev = Some w"
  shows "answer_settled (arb_of (relay_step L s ev)) w"
proof -
  from w obtain c l p i where ev: "ev = EvReceipt c (Acked True)" and l: "legs_of s c = Some l"
    and p: "rl_phase l = AwaitingReceipt p" "pd_responded p = Some i"
    and w': "w = (rl_role l, i, slot_key (rl_caps l) i)"
    by (auto simp: acked_answer_def split: relay_event.splits receipt.splits if_splits option.splits phase.splits)
  show ?thesis
  proof (cases "slot_key (rl_caps l) i")
    case None
    with named_legsD [OF named l] p have "rl_role l = Tui" by (simp add: named_leg_def answer_key_def)
    with None w' show ?thesis by (simp add: answer_settled_def)
  next
    case (Some k)
    then have key: "answer_key p (rl_caps l) = Some k" using p by (simp add: answer_key_def)
    obtain b1 l1 out cl where d: "settle_write L (rs_broker s) l p (Acked True) = ((b1, l1), out, cl)"
      by (metis prod.collapse)
    have "held_key l = Some k" using p key by (simp add: held_key_def)
    from held_okD(1) [OF held l this] settle_write_effect [OF d] key
    have "hget (bk_arbiter b1) k = Some (Confirmed (rl_role l))" by (simp add: confirm_reserved)
    with ev l p d w' Some slot_key_request [OF Some] show ?thesis
      by (simp add: on_leg_def receipted_def answer_settled_def arb_winner_def)
  qed
qed

lemma answers_settled:
  assumes "held_ok (arb_of s) (legs_of s) W" "named_legs (legs_of s)" "list_all (answer_settled (arb_of s)) ws"
  shows "list_all (answer_settled (arb_of (relay_run L s evs))) (ws @ answers_written L s evs)"
  using assms
proof (induction evs arbitrary: s W ws)
  case (Cons ev evs)
  have "list_all (answer_settled (arb_of (relay_step L s ev)))
      (ws @ (case acked_answer s ev of None \<Rightarrow> [] | Some w \<Rightarrow> [w]))"
    using Cons.prems(3) answer_settled_step acked_settled [OF Cons.prems(1,2)]
    by (auto simp: list_all_iff split: option.split)
  from Cons.IH [OF relay_step_held [OF Cons.prems(1)] named_step [OF Cons.prems(2)] this]
  show ?case by (simp del: append_assoc add: append_assoc [symmetric])
qed simp

text \<open>C5. An approval is written once. In any run of the broker, whatever its connections send,
  in whatever order its hand-offs, receipts, refusals, timeouts and closures come, take every answer
  the app-server's socket was acknowledged to have taken, with the slot of the approval its leg could
  name under the id: no slot occurs twice, the role that sent it is the winner recorded for it ever
  after, and an answer whose leg could name no approval is the keyboard's. So no approval has
  two written answers, except that a keyboard leg which cannot say what an id means (it is poisoned, or
  the id is ambiguous or unknown to it) is passed through, and nothing counts what it writes.\<close>
theorem an_approval_is_written_once:
  "distinct (List.map_filter (\<lambda>(r, i, k). k) (answers_written L new_relay evs)) \<and>
     list_all (\<lambda>(r, i, k). case k of
         Some k \<Rightarrow> key_request k = i \<and> arb_winner (arb_of (relay_run L new_relay evs)) k = Some r
       | None \<Rightarrow> r = Tui) (answers_written L new_relay evs)"
proof -
  have "named_legs (legs_of new_relay)" by (simp add: named_legs_def new_relay_def)
  from answers_settled [OF new_relay_held this, of "[]" L evs]
  have "list_all (answer_settled (arb_of (relay_run L new_relay evs))) (answers_written L new_relay evs)" by simp
  moreover have "distinct (List.map_filter (\<lambda>(r, i, k). k) (answers_written L new_relay evs))"
    using held_okW(1) [OF relay_run_held [OF new_relay_held, of L evs]] by (simp add: written_answers)
  ultimately show ?thesis by (auto simp: list_all_iff answer_settled_def split: option.splits)
qed

section \<open>What the app-server is sent\<close>

lemma upstream_parts [simp]:
  "rs_upstream (to_client s c m) = rs_upstream s"
  "rs_upstream (to_upstream s c m) = rs_upstream s @ [(c, m)]"
  "rs_upstream (set_phase s c l ph) = rs_upstream s"
  "rs_upstream (with_broker s b c l) = rs_upstream s"
  "rs_upstream (close_leg s c) = rs_upstream s"
  by (simp_all add: to_client_def to_upstream_def set_phase_def with_broker_def close_leg_def Let_def)

text \<open>A message goes up from the keyboard's leg, or is one the phone's policy forwards there and
  then, while Codex is not stopped if it is a request.\<close>

definition forwards :: "ext \<Rightarrow> relay \<Rightarrow> conn_id \<Rightarrow> string \<Rightarrow> bool" where
  "forwards L s c body = (case hget (rs_legs s) c of
     None \<Rightarrow> False
   | Some l \<Rightarrow> rl_role l = Tui \<or>
       is_forward (snd (phone_classify L c
         (bk_threads (rs_broker s), (bk_arbiter (rs_broker s), rl_caps l)) (PText body))) \<and>
       \<not> (bk_paused (rs_broker s) \<and>
           (case classify_shape L (PText body) of SRequest m i obj \<Rightarrow> True | _ \<Rightarrow> False)))"

lemma paused_refusal_forward [simp]: "\<not> is_forward (paused_refusal L i)"
  by (simp add: paused_refusal_def refuse_request_def split: option.split)

lemma decide_action_forward:
  assumes "decide_action L c b l sh = ((b1, l1), Forward n, move)" and "rl_role l = Ccd"
  shows "is_forward (snd (decide L session_threads (leg_capabilities L) c
       (bk_threads b, (bk_arbiter b, rl_caps l)) sh)) \<and>
     \<not> (bk_paused b \<and> (case sh of SRequest m i obj \<Rightarrow> True | _ \<Rightarrow> False))"
proof (cases "bk_paused b \<and> (case sh of SRequest m i obj \<Rightarrow> True | _ \<Rightarrow> False)")
  case True
  with assms have "\<exists>i. paused_refusal L i = Forward n"
    by (auto simp: decide_action_def split: shape.splits)
  then show ?thesis using paused_refusal_forward by (metis is_forward_simps(1))
next
  case False
  obtain g a caps act where d: "decide L session_threads (leg_capabilities L) c
      (bk_threads b, (bk_arbiter b, rl_caps l)) sh = ((g, (a, caps)), act)"
    by (metis prod.collapse)
  with assms False have "act = Forward n"
    by (cases "bk_paused b"; cases sh) (simp_all add: decide_action_def)
  with d False show ?thesis by simp
qed

lemma decide_text_forward:
  assumes "decide_text L c (rs_broker s) l body = ((b1, l1), Some (Forward n, p))"
    and "hget (rs_legs s) c = Some l"
  shows "forwards L s c body"
proof -
  let ?sh = "classify_shape L (PText body)"
  let ?l = "if initializes l ?sh then l\<lparr>rl_seen_initialize := True\<rparr> else l"
  obtain b' l' action move where d: "decide_action L c (rs_broker s) ?l ?sh = ((b', l'), action, move)"
    by (metis prod.collapse)
  have "\<not> (initializes l ?sh \<and> rl_seen_initialize l)"
    using assms(1) by (auto simp: decide_text_def Let_def)
  from decide_text_eq [OF this d] assms(1) have "action = Forward n" by simp
  with decide_action_forward [of L c "rs_broker s" ?l ?sh b' l' n move] d assms(2) show ?thesis
    by (cases "rl_role l") (auto simp: forwards_def classify_def split: if_splits)
qed

section \<open>Where a message that went up came from\<close>

text \<open>\<open>sent_up L s evs c m\<close>: in the run of \<open>evs\<close> from \<open>s\<close> the client of \<open>c\<close> sent
  \<open>m\<close>, and at that moment it was forwarded.\<close>

fun sent_up :: "ext \<Rightarrow> relay \<Rightarrow> relay_event list \<Rightarrow> conn_id \<Rightarrow> ws_payload \<Rightarrow> bool" where
  "sent_up L s [] c m = False"
| "sent_up L s (ev # evs) c m =
     ((case ev of
         EvText c' body sent \<Rightarrow> c' = c \<and> m = PText body \<and> forwards L s c body
       | EvBinary c' h \<Rightarrow> c' = c \<and> m = PBinary \<and>
           (case hget (rs_legs s) c of None \<Rightarrow> False | Some l \<Rightarrow> rl_role l = Tui)
       | _ \<Rightarrow> False) \<or>
      sent_up L (relay_step L s ev) evs c m)"

definition on_its_way :: "relay \<Rightarrow> conn_id \<Rightarrow> ws_payload \<Rightarrow> bool" where
  "on_its_way s c m = (case hget (rs_legs s) c of
     None \<Rightarrow> False
   | Some l \<Rightarrow> (case rl_phase l of Handing p body \<Rightarrow> m = PText body | _ \<Rightarrow> False))"

lemma sent_up_append:
  "sent_up L s (evs @ evs') c m \<longleftrightarrow> sent_up L s evs c m \<or> sent_up L (relay_run L s evs) evs' c m"
  by (induction evs arbitrary: s) auto

lemma on_its_way_simps [simp]:
  "on_its_way (to_client s c' m') c m = on_its_way s c m"
  "on_its_way (to_upstream s c' m') c m = on_its_way s c m"
  "on_its_way (set_phase s c' l ph) c m \<longleftrightarrow>
     (if c = c' then (case ph of Handing p body \<Rightarrow> m = PText body | _ \<Rightarrow> False) else on_its_way s c m)"
  "on_its_way (close_leg s c') c m \<longleftrightarrow> c \<noteq> c' \<and> on_its_way s c m"
  by (auto simp: on_its_way_def)

lemma on_its_way_with:
  "on_its_way (with_broker s b c' l) c m \<longleftrightarrow>
     (if c = c' then (case rl_phase l of Handing p body \<Rightarrow> m = PText body | _ \<Rightarrow> False) else on_its_way s c m)"
  by (simp add: on_its_way_def)

lemma on_its_way_broker [simp]: "on_its_way (s\<lparr>rs_broker := b\<rparr>) c m = on_its_way s c m"
  by (simp add: on_its_way_def)

definition heading_up :: "relay \<Rightarrow> conn_id \<Rightarrow> ws_payload \<Rightarrow> bool" where
  "heading_up s c m \<longleftrightarrow> (c, m) \<in> set (rs_upstream s) \<or> on_its_way s c m"

lemma server_frame_up:
  assumes "heading_up (server_frame L s c' l m' sent) c m" "rl_phase l = Idle"
  shows "heading_up s c m"
  using assms
  by (auto simp: heading_up_def server_frame_def Let_def on_its_way_with
      split: ws_payload.splits prod.splits s2c_disposition.splits if_splits)

lemma phase_after_decide:
  assumes "decide_text L c b l body = ((b1, l1), r)"
  shows "rl_phase l1 = rl_phase l"
proof -
  let ?sh = "classify_shape L (PText body)"
  let ?l = "if initializes l ?sh then l\<lparr>rl_seen_initialize := True\<rparr> else l"
  obtain b' l' action move where d: "decide_action L c b ?l ?sh = ((b', l'), action, move)"
    by (metis prod.collapse)
  then have "\<exists>caps. l' = ?l\<lparr>rl_caps := caps\<rparr> \<or> l' = ?l"
    by (auto simp: decide_action_def split: role.splits shape.splits bool.splits prod.splits)
  then have "rl_phase l' = rl_phase l" by auto
  with assms d decide_text_eq [OF _ d] show ?thesis
    by (cases "initializes l ?sh \<and> rl_seen_initialize l") (auto simp: decide_text_def)
qed

lemma client_text_up:
  assumes "heading_up (client_text L s c' l body sent) c m" "hget (rs_legs s) c' = Some l" "rl_phase l = Idle"
  shows "heading_up s c m \<or> sent_up L s [EvText c' body sent] c m"
proof -
  obtain b1 l1 r where d: "decide_text L c' (rs_broker s) l body = ((b1, l1), r)"
    by (metis prod.collapse)
  show ?thesis
  proof (cases r)
    case None
    with d assms(1) show ?thesis by (auto simp: client_text_def heading_up_def)
  next
    case (Some ap)
    then obtain action p where r: "r = Some (action, p)" by (cases ap) simp
    show ?thesis
    proof (cases action)
      case (Forward n)
      with d r assms(1) decide_text_forward [OF _ assms(2), of L body b1 l1 n p] show ?thesis
        by (auto simp: client_text_def heading_up_def Let_def on_its_way_with split: if_splits)
    qed (use d r assms(1) in \<open>auto simp: client_text_def heading_up_def Let_def on_its_way_with split: if_splits\<close>)
  qed
qed

lemma handed_up:
  assumes "heading_up (handed L s c' l p body h) c m" "hget (rs_legs s) c' = Some l"
    "rl_phase l = Handing p body"
  shows "heading_up s c m"
proof -
  have "on_its_way s c' (PText body)" using assms(2,3) by (simp add: on_its_way_def)
  with assms(1) show ?thesis
    by (auto simp: handed_def heading_up_def Let_def on_its_way_with
        split: prod.splits handoff.splits if_splits)
qed

lemma relay_step_up:
  assumes "heading_up (relay_step L s ev) c m"
  shows "heading_up s c m \<or> sent_up L s [ev] c m"
proof (cases ev)
  case (EvServer c' m' sent)
  with assms show ?thesis
    by (auto simp: on_leg_def when_idle_def split: option.splits if_splits dest: server_frame_up)
next
  case (EvText c' body sent)
  with assms client_text_up [of L s c' _ body sent c m] show ?thesis
    by (fastforce simp: on_leg_def when_idle_def simp del: sent_up.simps split: option.splits if_splits)
next
  case (EvBinary c' h)
  with assms show ?thesis
    by (auto simp: on_leg_def when_idle_def client_binary_def heading_up_def split: option.splits if_splits)
next
  case (EvHandoff c' h)
  with assms show ?thesis
    by (auto simp: on_leg_def split: option.splits phase.splits dest: handed_up)
next
  case (EvReceipt c' r)
  with assms show ?thesis
    by (auto simp: on_leg_def receipted_def heading_up_def on_its_way_with
        split: option.splits phase.splits prod.splits if_splits)
next
  case (EvReport c' sent)
  with assms show ?thesis
    by (auto simp: on_leg_def report_def heading_up_def Let_def
        split: option.splits phase.splits if_splits)
next
  case (EvWake c' sent)
  with assms show ?thesis
    by (auto simp: on_leg_def when_idle_def woken_def heading_up_def Let_def
        split: option.splits prod.splits if_splits)
next
  case (EvClose c')
  with assms show ?thesis
    by (auto simp: on_leg_def when_idle_def heading_up_def split: option.splits if_splits)
next
  case (EvOpen r)
  with assms show ?thesis
    by (auto simp: open_leg_def Let_def heading_up_def on_its_way_def new_relay_leg_def hget_hput
        split: option.splits if_splits)
next
  case (EvPause x)
  with assms show ?thesis by (simp add: heading_up_def)
qed

lemma relay_run_up:
  "heading_up (relay_run L s evs) c m \<Longrightarrow> heading_up s c m \<or> sent_up L s evs c m"
proof (induction evs arbitrary: s)
  case (Cons ev evs)
  from Cons.IH [of "relay_step L s ev"] Cons.prems
  have "heading_up (relay_step L s ev) c m \<or> sent_up L (relay_step L s ev) evs c m" by simp
  with relay_step_up [of L s ev c m] show ?case by auto
qed simp

text \<open>The app-server is sent nothing the policy did not forward. In any run of the broker, every
  message that went up on a connection was sent by that connection's client, and at the moment it was
  read either the connection was the keyboard's, or it was a text message the phone's classifier
  forwards, and not a request read while Codex was stopped.\<close>
theorem only_forwarded_messages_go_up:
  assumes "(c, m) \<in> set (rs_upstream (relay_run L new_relay evs))"
  shows "sent_up L new_relay evs c m"
proof -
  from assms have "heading_up (relay_run L new_relay evs) c m" by (simp add: heading_up_def)
  moreover have "\<not> heading_up new_relay c m"
    by (simp add: heading_up_def on_its_way_def new_relay_def)
  ultimately show ?thesis using relay_run_up by blast
qed

lemma only_forwarded_messages_witness:
  "sent_up (always JNull) new_relay [EvOpen Tui, EvBinary 1 HandedOver] 1 PBinary"
  by (rule only_forwarded_messages_go_up)
    (simp add: new_relay_def new_broker_def open_leg_def Let_def new_relay_leg_def on_leg_def
      when_idle_def client_binary_def to_upstream_def)

section \<open>The keyboard\<close>

lemma arbitrate_tui_exact:
  "snd (arbitrate_tui L a l i) \<longleftrightarrow>
     (case slot_key l i of None \<Rightarrow> True | Some k \<Rightarrow> hget a k = None \<and> length a < MAX_WINNERS)"
  by (auto simp: arbitrate_tui_def take_slot_def arb_consume_def split: option.split)

text \<open>The keyboard's leg is a passthrough. Whatever text its client sends goes up unchanged when
  the app-server takes it, except an answer to an approval somebody has already answered (or one the
  full table cannot hold), which is kept back.\<close>
theorem keyboard_passes_through:
  assumes "hget (rs_legs s) c = Some l" and "rl_role l = Tui" and "rl_phase l = Idle"
  shows "rs_upstream (relay_run L s [EvText c body sent, EvHandoff c HandedOver]) = rs_upstream s @
     (if (case classify_shape L (PText body) of
            SResponse i obj \<Rightarrow> (case slot_key (rl_caps l) i of
                None \<Rightarrow> False
              | Some k \<Rightarrow> hget (bk_arbiter (rs_broker s)) k \<noteq> None \<or>
                  65536 \<le> length (bk_arbiter (rs_broker s)))
          | _ \<Rightarrow> False)
      then [] else [(c, PText body)])"
proof -
  let ?sh = "classify_shape L (PText body)"
  have ni: "\<not> initializes l ?sh" using assms(2) by (simp add: initializes_def)
  obtain b1 l1 action move where d: "decide_action L c (rs_broker s) l ?sh = ((b1, l1), action, move)"
    by (metis prod.collapse)
  have t: "decide_text L c (rs_broker s) l body = ((b1, l1), Some (action,
      \<lparr>pd_responded = (case ?sh of SResponse i obj \<Rightarrow> Some i | _ \<Rightarrow> None), pd_move = move,
       pd_subscribing = False\<rparr>))"
    using decide_text_eq [of l L body c "rs_broker s" b1 l1 action move] d ni by simp
  have act: "if (case ?sh of SResponse i obj \<Rightarrow> \<not> snd (arbitrate_tui L (bk_arbiter (rs_broker s)) (rl_caps l) i)
        | _ \<Rightarrow> False) then \<exists>n. action = DropLogKeepOpen n else \<exists>n. action = Forward n"
    using d assms(2) by (auto simp: decide_action_def split: shape.splits prod.splits if_splits)
  have "rl_phase l1 = Idle" using phase_after_decide [OF t] assms(3) by simp
  with t act assms show ?thesis
    by (auto simp: on_leg_def when_idle_def client_text_def Let_def handed_def MAX_WINNERS_def
        arbitrate_tui_exact update_conv' with_broker_def set_phase_def to_upstream_def
        split: shape.splits option.splits prod.splits if_splits)
qed

lemma keyboard_passes_through_witness:
  "rs_upstream (relay_run (always JNull) (open_leg new_relay Tui) [EvText 1 ''hello'' True, EvHandoff 1 HandedOver]) =
     [(1, PText ''hello'')]"
proof -
  have "classify_shape (always JNull) (PText ''hello'') = SMalformed ''JSON scalar is not a JSON-RPC message''"
    by (simp add: classify_shape_def parse_no_dup_def always_def)
  moreover have "hget (rs_legs (open_leg new_relay Tui)) 1 = Some (new_relay_leg Tui)"
    by (simp add: open_leg_def new_relay_def new_broker_def Let_def)
  moreover have "rs_upstream (open_leg new_relay Tui) = []"
    by (simp add: open_leg_def new_relay_def Let_def)
  ultimately show ?thesis
    using keyboard_passes_through [of "open_leg new_relay Tui" 1 "new_relay_leg Tui" "always JNull" "''hello''" True]
    by (simp add: new_relay_leg_def del: relay_run_simps)
qed

end
