(* ===== verification/Broker_Relay_Head.thy ===== *)
theory Broker_Relay_Head
  imports Broker_Relay_Run Broker_Notes
begin

text \<open>
  The head fan-out: who is told which thread the keyboard is on, with whose bytes, and that
  everybody is.
\<close>

abbreviation fan_of :: "relay \<Rightarrow> head_fanout" where
  "fan_of s \<equiv> bk_fanout (rs_broker s)"

abbreviation bound_of :: "relay \<Rightarrow> string option" where
  "bound_of s \<equiv> bound_thread (bk_threads (rs_broker s))"

abbreviation subs_of :: "relay \<Rightarrow> conn_id \<Rightarrow> ccd_subscriber option" where
  "subs_of s \<equiv> map_of (subscribers (fan_of s))"

section \<open>The announcements kept\<close>

definition announced_ok :: "ext \<Rightarrow> announcement list \<Rightarrow> bool" where
  "announced_ok L as \<longleftrightarrow> length as \<le> 2 \<and> distinct (map an_thread as) \<and>
     list_all (\<lambda>a. announces L (an_raw a) = Some (an_thread a)) as"

lemma keep_announcement_ok:
  assumes "announced_ok L as" "announces L frame = Some th"
  shows "announced_ok L (keep_announcement as th frame)"
proof (cases "list_ex (\<lambda>a. an_thread a = th) as")
  case True
  with assms show ?thesis by (simp add: keep_announcement_def)
next
  case False
  then have "th \<notin> an_thread ` set (drop n as)" for n
    by (auto simp: list_ex_iff dest: in_set_dropD)
  moreover have "distinct (map an_thread (drop n as))" for n
    using assms(1) by (metis announced_ok_def distinct_drop drop_map)
  moreover have "list_all (\<lambda>a. announces L (an_raw a) = Some (an_thread a)) (drop n as)" for n
    using assms(1) by (auto simp: announced_ok_def list_all_iff dest: in_set_dropD)
  ultimately show ?thesis
    using False assms(2)
    by (simp add: keep_announcement_def announced_ok_def MAX_ANNOUNCEMENTS_def Let_def; linarith)
qed

lemma announced_deliver [simp]: "announced (deliver_head fo b) = announced fo"
  by (simp add: deliver_head_def split: option.split)

lemma announced_owed: "announced (fst (owed_head L fo b c)) = announced fo"
  by (simp add: owed_head_def Let_def split: option.split)

lemma announced_note:
  "announced_ok L (announced fo) \<Longrightarrow> announced_ok L (announced (note_announcement L fo c frame))"
  by (simp add: note_announcement_def keep_announcement_ok split: option.split)

lemma fan_parts [simp]:
  "rs_broker (to_client s c m) = rs_broker s" "rs_broker (to_upstream s c m) = rs_broker s"
  "rs_broker (set_phase s c l ph) = rs_broker s" "rs_broker (with_broker s b c l) = b"
  "announced (fan_of (close_leg s c)) = announced (fan_of s)"
  by (simp_all add: to_client_def to_upstream_def set_phase_def with_broker_def close_leg_def Let_def)

lemma decide_text_fan:
  assumes "decide_text L c b l body = ((b1, l1), r)"
  shows "bk_fanout b1 = bk_fanout b"
proof -
  let ?sh = "classify_shape L (PText body)"
  let ?l = "if initializes l ?sh then l\<lparr>rl_seen_initialize := True\<rparr> else l"
  obtain b' l' action move where d: "decide_action L c b ?l ?sh = ((b', l'), action, move)"
    by (metis prod.collapse)
  then have "bk_fanout b' = bk_fanout b"
    by (auto simp: decide_action_def split: role.splits shape.splits bool.splits prod.splits)
  with assms d decide_text_eq [OF _ d] show ?thesis
    by (cases "initializes l ?sh \<and> rl_seen_initialize l") (auto simp: decide_text_def)
qed

lemma settle_write_fan: "settle_write L b l p r = ((b1, l1), out, cl) \<Longrightarrow> bk_fanout b1 = bk_fanout b"
  by (auto simp: settle_write_def Let_def split: receipt.splits option.splits prod.splits if_splits)

lemma announced_handoff:
  "after_handoff L c b l p h = (b1, l1) \<Longrightarrow> announced (bk_fanout b1) = announced (bk_fanout b)"
  by (auto simp: after_handoff_def Let_def split: handoff.splits option.splits prod.splits if_splits)

lemma announced_step:
  assumes ok: "announced_ok L (announced (fan_of s))"
  shows "announced_ok L (announced (fan_of (relay_step L s ev)))"
proof (cases ev)
  case (EvServer c m sent)
  with ok announced_note [OF ok, of c] show ?thesis
    by (auto simp: on_leg_def when_idle_def server_frame_def Let_def
        split: option.split ws_payload.split prod.split s2c_disposition.split)
next
  case (EvText c body sent)
  with ok show ?thesis
    by (auto simp: on_leg_def when_idle_def client_text_def Let_def dest!: decide_text_fan
        split: option.split prod.split relay_action.split)
next
  case (EvHandoff c h)
  with ok show ?thesis
    by (auto simp: on_leg_def handed_def Let_def dest!: announced_handoff
        split: option.split prod.split phase.split handoff.split)
next
  case (EvReceipt c r)
  with ok show ?thesis
    by (auto simp: on_leg_def receipted_def dest!: settle_write_fan
        split: option.split prod.split phase.split)
next
  case (EvWake c sent)
  have "announced (fan_of (woken L s c sent)) = announced (fan_of s)"
    using announced_owed [of L "(fan_of s)\<lparr>subscribers := hput c (sub\<lparr>wake := False\<rparr>) (subscribers (fan_of s))\<rparr>"
        "bound_of s" c for sub]
    by (auto simp: woken_def Let_def split: option.split prod.split) (metis fst_conv head_fanout.simps(1,3,5))+
  with EvWake ok show ?thesis by (simp add: on_leg_def when_idle_def split: option.split)
qed (use ok in \<open>auto simp: on_leg_def when_idle_def client_binary_def report_def open_leg_def Let_def
      split: option.split phase.split\<close>)

lemma announced_run:
  "announced_ok L (announced (fan_of s)) \<Longrightarrow> announced_ok L (announced (fan_of (relay_run L s evs)))"
  by (induction evs arbitrary: s) (simp_all add: announced_step)

lemma announced_new: "announced_ok L (announced (fan_of (relay_run L new_relay evs)))"
  by (rule announced_run) (simp add: new_relay_def new_broker_def announced_ok_def)

section \<open>What one phone leg is told\<close>

lemma owed_head_sound:
  assumes ok: "announced_ok L (announced fo)" and o: "owed_head L fo bound c = (fo', Some ow)"
  shows "bound = Some (ow_thread ow) \<and>
     (\<exists>sub. hget (subscribers fo) c = Some sub \<and> told sub \<noteq> bound \<and>
        hget (subscribers fo') c = Some (sub\<lparr>told := bound\<rparr>)) \<and>
     (if ow_replayed ow then announces L (ow_frame ow) = bound else ow_frame ow = head_notice L (ow_thread ow))"
proof -
  obtain t sub where b: "bound = Some t" and sub: "hget (subscribers fo) c = Some sub" and n: "told sub \<noteq> Some t"
    using o by (auto simp: owed_head_def split: option.splits if_splits)
  show ?thesis
  proof (cases "find (\<lambda>a. an_thread a = t) (announced fo)")
    case None
    with o b sub n show ?thesis by (auto simp: owed_head_def hget_hput)
  next
    case (Some a)
    then have "a \<in> set (announced fo)" "an_thread a = t" by (auto simp: find_Some_iff)
    with ok have "announces L (an_raw a) = Some t" by (auto simp: announced_ok_def list_all_iff)
    with Some o b sub n show ?thesis by (auto simp: owed_head_def hget_hput)
  qed
qed

text \<open>A phone leg is told the head and nothing but the head. When a leg of a running broker is
  woken, either its client is sent nothing, or exactly one frame: the app-server's own announcement of
  the thread the keyboard is on at that moment, as the broker forwarded it, or the broker's notice of
  it; the leg had last been told another thread, and it is recorded as told this one.\<close>
theorem a_wake_tells_the_head:
  "let s = relay_run L new_relay evs; s' = relay_step L s (EvWake c True) in
     rs_clients s' = rs_clients s \<or>
     (\<exists>t frame. bound_of s = Some t \<and> rs_clients s' = rs_clients s @ [(c, PText frame)] \<and>
        (announces L frame = Some t \<or> frame = head_notice L t) \<and>
        map_option told (subs_of s c) \<noteq> Some (Some t) \<and> map_option told (subs_of s' c) = Some (Some t))"
proof -
  define s where "s = relay_run L new_relay evs"
  have ok: "announced_ok L (announced (fan_of s))" unfolding s_def by (rule announced_new)
  have "rs_clients (woken L s c True) = rs_clients s \<or>
     (\<exists>t frame. bound_of s = Some t \<and> rs_clients (woken L s c True) = rs_clients s @ [(c, PText frame)] \<and>
        (announces L frame = Some t \<or> frame = head_notice L t) \<and>
        map_option told (subs_of s c) \<noteq> Some (Some t) \<and>
        map_option told (subs_of (woken L s c True) c) = Some (Some t))"
  proof (cases "subs_of s c")
    case (Some sub)
    let ?fo = "(fan_of s)\<lparr>subscribers := hput c (sub\<lparr>wake := False\<rparr>) (subscribers (fan_of s))\<rparr>"
    obtain fo' owed where o: "owed_head L ?fo (bound_of s) c = (fo', owed)" by fastforce
    show ?thesis
    proof (cases "wake sub \<and> owed \<noteq> None")
      case True
      then obtain ow where ow: "owed = Some ow" by blast
      have "announced_ok L (announced ?fo)" using ok by simp
      from owed_head_sound [OF this o [unfolded ow]] Some o ow True show ?thesis
        by (auto simp: woken_def Let_def to_client_def hget_hput split: if_splits)
    qed (use Some o in \<open>auto simp: woken_def Let_def\<close>)
  qed (simp add: woken_def)
  then show ?thesis
    unfolding s_def [symmetric] Let_def by (auto simp: on_leg_def when_idle_def split: option.split)
qed

section \<open>Every phone leg is told\<close>

text \<open>The head stands, and every subscribed leg is idle and has been told it or has been woken.\<close>

definition telling :: "relay \<Rightarrow> string \<Rightarrow> bool" where
  "telling s t \<longleftrightarrow> bound_of s = Some t \<and>
     (\<forall>c sub. subs_of s c = Some sub \<longrightarrow>
        (told sub = Some t \<or> wake sub) \<and> (\<exists>l. map_of (rs_legs s) c = Some l \<and> rl_phase l = Idle))"

definition has_told :: "relay \<Rightarrow> string \<Rightarrow> conn_id \<Rightarrow> bool" where
  "has_told s t c \<longleftrightarrow> (\<forall>sub. subs_of s c = Some sub \<longrightarrow> told sub = Some t)"

lemma deliver_head_subs:
  "map_of (subscribers (deliver_head fo (Some t))) c =
     map_option (\<lambda>sub. if told sub \<noteq> Some t then sub\<lparr>wake := True\<rparr> else sub) (map_of (subscribers fo) c)"
proof -
  have "map_of (map (\<lambda>(c, sub). (c, f sub)) xs) c = map_option f (map_of xs c)"
    for f :: "ccd_subscriber \<Rightarrow> ccd_subscriber" and xs :: "(conn_id \<times> ccd_subscriber) list"
    by (induction xs) auto
  then show ?thesis by (simp add: deliver_head_def)
qed

lemma deliver_head_woken:
  assumes "map_of (subscribers (deliver_head fo (Some t))) c = Some sub"
  shows "told sub = Some t \<or> wake sub"
proof -
  from assms obtain z where "sub = (if told z \<noteq> Some t then z\<lparr>wake := True\<rparr> else z)"
    by (auto simp: deliver_head_subs)
  then show ?thesis by simp
qed

lemma wake_step:
  assumes t: "telling s t" and s'_def: "s' = relay_step L s (EvWake c True)"
  shows "telling s' t" "has_told s t c' \<Longrightarrow> has_told s' t c'" "has_told s' t c"
proof -
  have "telling s' t \<and> (\<forall>c'. has_told s t c' \<longrightarrow> has_told s' t c') \<and> has_told s' t c"
  proof (cases "subs_of s c")
    case None
    have "s' = s"
      using None by (auto simp: s'_def on_leg_def when_idle_def woken_def split: option.split)
    with None t show ?thesis by (simp add: has_told_def)
  next
    case (Some sub)
    with t obtain l where l: "map_of (rs_legs s) c = Some l" "rl_phase l = Idle"
      by (auto simp: telling_def)
    then have s': "s' = woken L s c True" by (simp add: s'_def on_leg_def when_idle_def)
    from t have b: "bound_of s = Some t" by (simp add: telling_def)
    show ?thesis
    proof (cases "wake sub")
      case False
      with Some s' have "s' = s" by (simp add: woken_def)
      with False Some t show ?thesis by (auto simp: has_told_def telling_def)
    next
      case True
      let ?fo = "(fan_of s)\<lparr>subscribers := hput c (sub\<lparr>wake := False\<rparr>) (subscribers (fan_of s))\<rparr>"
      obtain fo' owed where o: "owed_head L ?fo (bound_of s) c = (fo', owed)" by fastforce
      then have fo': "map_of (subscribers fo') = (subs_of s)(c \<mapsto> \<lparr>wake = False, told = Some t\<rparr>)"
        using b by (cases sub) (auto simp: owed_head_def Let_def update_conv' split: if_splits)
      have s'': "subs_of s' = (subs_of s)(c \<mapsto> \<lparr>wake = False, told = Some t\<rparr>)"
        "bound_of s' = Some t" "rs_legs s' = rs_legs s"
        using Some True o fo' b s'
        by (auto simp: woken_def Let_def to_client_def split: option.splits)
      with t l show ?thesis by (auto simp: telling_def has_told_def split: if_splits)
    qed
  qed
  then show "telling s' t" "has_told s t c' \<Longrightarrow> has_told s' t c'" "has_told s' t c" by blast+
qed

lemma wakes_tell:
  assumes "telling s t"
  shows "has_told s t c' \<or> c' \<in> set cs \<Longrightarrow>
     has_told (relay_run L s (map (\<lambda>c. EvWake c True) cs)) t c'"
  using assms
proof (induction cs arbitrary: s)
  case (Cons c cs)
  have "has_told (relay_step L s (EvWake c True)) t c' \<or> c' \<in> set cs"
    using Cons.prems wake_step(2,3) [OF Cons.prems(2) refl, where L = L and c = c] by auto
  with Cons.IH [OF _ wake_step(1) [OF Cons.prems(2) refl, where L = L and c = c]] show ?case by simp
qed simp

lemma no_wake_tells_back: "subs_of s c = None \<Longrightarrow> has_told s t c"
  by (simp add: has_told_def)

section \<open>Told means sent\<close>

text \<open>The frames \<open>xs\<close> that went to the clients' sockets tell \<open>c\<close> that the keyboard is on \<open>t\<close>.\<close>

definition tells :: "ext \<Rightarrow> (conn_id \<times> ws_payload) list \<Rightarrow> conn_id \<Rightarrow> string \<Rightarrow> bool" where
  "tells L xs c t \<longleftrightarrow>
     (\<exists>frame. (c, PText frame) \<in> set xs \<and> (announces L frame = Some t \<or> frame = head_notice L t))"

text \<open>From \<open>s\<close> to \<open>s'\<close> sockets only grew, and who is recorded as told a head that was not before has
  been sent it.\<close>

definition told_by_frames :: "ext \<Rightarrow> relay \<Rightarrow> relay \<Rightarrow> bool" where
  "told_by_frames L s s' \<longleftrightarrow> (\<exists>new. rs_clients s' = rs_clients s @ new \<and>
     (\<forall>c sub' t. subs_of s' c = Some sub' \<longrightarrow> told sub' = Some t \<longrightarrow>
        (\<exists>sub. subs_of s c = Some sub \<and> told sub = Some t) \<or> tells L new c t))"

lemma told_by_framesI:
  assumes "rs_clients s' = rs_clients s @ new"
    "\<And>c sub' t. subs_of s' c = Some sub' \<Longrightarrow> told sub' = Some t \<Longrightarrow>
       (\<exists>sub. subs_of s c = Some sub \<and> told sub = Some t) \<or> tells L new c t"
  shows "told_by_frames L s s'"
  using assms unfolding told_by_frames_def by blast

lemma told_quiet:
  assumes "\<exists>new. rs_clients s' = rs_clients s @ new"
    "\<And>c sub' t. subs_of s' c = Some sub' \<Longrightarrow> told sub' = Some t \<Longrightarrow> \<exists>sub. subs_of s c = Some sub \<and> told sub = Some t"
  shows "told_by_frames L s s'"
  using assms unfolding told_by_frames_def by fastforce

lemma told_trans:
  assumes "told_by_frames L s s'" "told_by_frames L s' s''"
  shows "told_by_frames L s s''"
proof -
  obtain new where n: "rs_clients s' = rs_clients s @ new" "\<forall>c sub' t. subs_of s' c = Some sub' \<longrightarrow> told sub' = Some t \<longrightarrow>
        (\<exists>sub. subs_of s c = Some sub \<and> told sub = Some t) \<or> tells L new c t"
    using assms(1) unfolding told_by_frames_def by blast
  obtain new' where n': "rs_clients s'' = rs_clients s' @ new'" "\<forall>c sub' t. subs_of s'' c = Some sub' \<longrightarrow> told sub' = Some t \<longrightarrow>
        (\<exists>sub. subs_of s' c = Some sub \<and> told sub = Some t) \<or> tells L new' c t"
    using assms(2) unfolding told_by_frames_def by blast
  have app: "tells L (new @ new') c t \<longleftrightarrow> tells L new c t \<or> tells L new' c t" for c t
    by (auto simp: tells_def)
  show ?thesis
    by (rule told_by_framesI [of _ _ "new @ new'"]) (use n n' app in \<open>simp, blast\<close>)
qed

lemma deliver_head_told:
  "map_of (subscribers (deliver_head fo bound)) c = Some sub' \<Longrightarrow>
     \<exists>sub. map_of (subscribers fo) c = Some sub \<and> told sub = told sub'"
proof (cases bound)
  case None
  then show "map_of (subscribers (deliver_head fo bound)) c = Some sub' \<Longrightarrow> ?thesis"
    by (simp add: deliver_head_def)
next
  case (Some t)
  then show "map_of (subscribers (deliver_head fo bound)) c = Some sub' \<Longrightarrow> ?thesis"
    by (auto simp: deliver_head_subs)
qed

lemma deliver_told:
  assumes "map_of (subscribers (deliver_head fo bound)) c = Some sub'" "told sub' = Some t"
  shows "\<exists>sub. map_of (subscribers fo) c = Some sub \<and> told sub = Some t"
  using deliver_head_told [OF assms(1)] assms(2) by auto

lemma close_leg_subs: "subs_of (close_leg s c) c' = Some sub \<Longrightarrow> subs_of s c' = Some sub"
  by (auto simp: close_leg_def Let_def hget_hdel split: if_splits)

lemma clients_parts [simp]:
  "rs_clients (to_client s c m) = rs_clients s @ [(c, m)]" "rs_clients (to_upstream s c m) = rs_clients s"
  "rs_clients (set_phase s c l ph) = rs_clients s" "rs_clients (with_broker s b c l) = rs_clients s"
  "rs_clients (close_leg s c) = rs_clients s"
  by (simp_all add: to_client_def to_upstream_def set_phase_def with_broker_def close_leg_def Let_def)

text \<open>An announcement has no id, so it is never withheld: it is delivered, or the leg is closed.\<close>

lemma announcement_not_withheld:
  assumes "announces L frame = Some t"
  shows "snd (leg_observe_frame L l r g frame) \<noteq> Withhold"
proof -
  from assms obtain m obj where sh: "classify_shape L (PText frame) = SNotification m obj"
    by (auto simp: announces_def split: shape.splits)
  then obtain ms where p: "parse_no_dup L frame = Inr (JObj ms)" and n: "hget ms ''id'' = None"
    by (auto simp: classify_shape_def classify_object_def Let_def
        split: sum.splits parse_error.splits json.splits option.splits if_splits)
  from p have "parse_no_dup_value L frame = Some (JObj ms)" by (simp add: parse_no_dup_Inr)
  with n show ?thesis
    by (auto simp: leg_observe_frame_def Let_def split: option.splits)
qed

lemma note_announcement_told:
  assumes "map_of (subscribers (note_announcement L fo c frame)) c' = Some sub'" "told sub' = Some t"
  shows "(\<exists>sub. map_of (subscribers fo) c' = Some sub \<and> told sub = Some t) \<or>
     c' = c \<and> announces L frame = Some t"
  using assms
  by (auto simp: note_announcement_def hget_hput split: option.splits if_splits)

lemma server_frame_told: "told_by_frames L s (server_frame L s c l m sent)"
proof (cases m)
  case PBinary
  then show ?thesis
    by (auto simp: server_frame_def Let_def intro!: told_quiet dest: close_leg_subs deliver_told)
next
  case (PText frame)
  let ?g = "observe_server_frame L (bk_threads (rs_broker s)) c frame"
  let ?fo = "note_announcement L (fan_of s) c frame"
  obtain caps d where d: "leg_observe_frame L (rl_caps l) (rl_role l) ?g frame = (caps, d)" by fastforce
  have ann: "d = Withhold \<Longrightarrow> announces L frame = None"
    using announcement_not_withheld [of L frame _ "rl_caps l" "rl_role l" ?g] d by (cases "announces L frame") auto
  show ?thesis
  proof (cases d)
    case Deliver
    show ?thesis
    proof (cases sent)
      case True
      have "(\<exists>sub. subs_of s c' = Some sub \<and> told sub = Some t) \<or> tells L [(c, m)] c' t"
        if "map_of (subscribers (deliver_head ?fo (bound_thread ?g))) c' = Some sub'" "told sub' = Some t" for c' sub' t
        using deliver_head_told [OF that(1)] note_announcement_told [of L "fan_of s" c frame c'] that(2) PText
        unfolding tells_def by fastforce
      then show ?thesis
        by (intro told_by_framesI [of _ _ "[(c, m)]"])
          (use PText Deliver d True in \<open>simp_all add: server_frame_def Let_def\<close>)
    next
      case False
      have "\<exists>sub. subs_of s c' = Some sub \<and> told sub = Some t"
        if "subs_of (close_leg (with_broker s b c l') c) c' = Some sub'" "told sub' = Some t" "bk_fanout b = ?fo" for c' sub' t b l'
      proof -
        have "c' \<noteq> c" using that(1) by (auto simp: close_leg_def Let_def hget_hdel)
        with close_leg_subs [OF that(1)] note_announcement_told [of L "fan_of s" c frame c'] that(2,3)
        show ?thesis by auto
      qed
      then show ?thesis
        by (intro told_quiet) (use PText Deliver d False in \<open>auto simp: server_frame_def Let_def\<close>)
    qed
  next
    case Withhold
    with ann have "?fo = fan_of s" by (simp add: note_announcement_def)
    with Withhold PText d show ?thesis by (intro told_quiet) (auto simp: server_frame_def Let_def)
  next
    case (CloseLeg why)
    with PText d show ?thesis
      by (intro told_quiet) (auto simp: server_frame_def Let_def dest!: close_leg_subs)
  qed
qed

lemma handoff_told:
  assumes "after_handoff L c b l p h = (b1, l1)" "map_of (subscribers (bk_fanout b1)) c' = Some sub'" "told sub' = Some t"
  shows "\<exists>sub. map_of (subscribers (bk_fanout b)) c' = Some sub \<and> told sub = Some t"
  using assms
  by (auto simp: after_handoff_def Let_def hget_hput split: handoff.splits option.splits prod.splits if_splits
      dest!: deliver_head_told)

lemma woken_told:
  assumes ok: "announced_ok L (announced (fan_of s))"
  shows "told_by_frames L s (woken L s c sent)"
proof (cases "\<exists>sub. subs_of s c = Some sub \<and> wake sub")
  case False
  then have "woken L s c sent = s" by (auto simp: woken_def Let_def split: option.split)
  then show ?thesis by (auto intro: told_quiet)
next
  case True
  then obtain sub where sub: "subs_of s c = Some sub" "wake sub" by blast
  let ?fo = "(fan_of s)\<lparr>subscribers := hput c (sub\<lparr>wake := False\<rparr>) (subscribers (fan_of s))\<rparr>"
  obtain fo' owed where o': "owed_head L ?fo (bound_of s) c = (fo', owed)" by fastforce
  show ?thesis
  proof (cases owed)
    case None
    with o' have "fo' = ?fo" by (auto simp: owed_head_def Let_def split: option.splits if_splits)
    with None o' sub show ?thesis
      by (intro told_quiet) (auto simp: woken_def Let_def hget_hput split: if_splits)
  next
    case (Some ow)
    have "announced_ok L (announced ?fo)" using ok by simp
    note sound = owed_head_sound [OF this o' [unfolded Some]]
    have fo': "subscribers fo' = hput c ((sub\<lparr>wake := False\<rparr>)\<lparr>told := bound_of s\<rparr>) (subscribers ?fo)"
      using o' Some sub sound by (auto simp: owed_head_def Let_def hget_hput split: option.splits if_splits)
    show ?thesis
    proof (cases sent)
      case True
      have "tells L [(c, PText (ow_frame ow))] c t" if "bound_of s = Some t" for t
        using sound that by (auto simp: tells_def split: if_splits)
      with True sub Some o' fo' show ?thesis
        by (intro told_by_framesI [of _ _ "[(c, PText (ow_frame ow))]"])
          (auto simp: woken_def Let_def hget_hput split: if_splits)
    next
      case False
      with sub Some o' fo' show ?thesis
        by (intro told_quiet) (auto simp: woken_def Let_def close_leg_def hget_hput hget_hdel split: if_splits)
    qed
  qed
qed

lemma step_told:
  assumes ok: "announced_ok L (announced (fan_of s))"
  shows "told_by_frames L s (relay_step L s ev)"
proof (cases ev)
  case (EvServer c m sent)
  then show ?thesis
    using server_frame_told by (auto simp: on_leg_def when_idle_def told_quiet split: option.split)
next
  case (EvText c body sent)
  then show ?thesis
    by (auto simp: on_leg_def when_idle_def client_text_def Let_def dest!: decide_text_fan close_leg_subs
        intro!: told_quiet split: option.split prod.split relay_action.split)
next
  case (EvHandoff c h)
  have "told_by_frames L s (handed L s c l p body h)" for l p body
    using handoff_told [of L c "rs_broker s" l p h]
    by (intro told_quiet) (auto simp: handed_def Let_def split: prod.splits handoff.splits)
  with EvHandoff show ?thesis by (auto simp: on_leg_def told_quiet split: option.split phase.split)
next
  case (EvReceipt c r)
  then show ?thesis
    by (auto simp: on_leg_def receipted_def dest!: settle_write_fan intro!: told_quiet
        split: option.split prod.split phase.split)
next
  case (EvWake c sent)
  then show ?thesis
    using woken_told [OF ok] by (auto simp: on_leg_def when_idle_def told_quiet split: option.split)
qed (auto simp: on_leg_def when_idle_def client_binary_def report_def open_leg_def Let_def
      intro!: told_quiet dest!: close_leg_subs split: option.split phase.split)

lemma run_told:
  "announced_ok L (announced (fan_of s)) \<Longrightarrow> told_by_frames L s (relay_run L s evs)"
proof (induction evs arbitrary: s)
  case Nil
  then show ?case by (auto intro: told_quiet)
next
  case (Cons ev evs)
  from told_trans [OF step_told [OF Cons.prems] Cons.IH [OF announced_step [OF Cons.prems]]]
  show ?case by simp
qed

lemma told_was_sent:
  assumes "subs_of (relay_run L new_relay evs) c = Some sub" "told sub = Some t"
  shows "tells L (rs_clients (relay_run L new_relay evs)) c t"
proof -
  have "announced_ok L (announced (fan_of new_relay))" by (simp add: new_relay_def new_broker_def announced_ok_def)
  from run_told [OF this, of evs] assms show ?thesis
    by (auto simp: told_by_frames_def new_relay_def new_broker_def)
qed

text \<open>C7. The head reaches every phone leg. In a running broker, once a server frame has been
  delivered on any leg and a head stands, it is enough that every subscribed phone leg then runs once,
  in any order: every one of them has been sent, on its own socket, the app-server's announcement of
  the head or the broker's notice of it, is recorded as told it, and was sent it in these very turns
  if it was not recorded as told it before.\<close>
theorem the_head_reaches_every_phone_leg:
  assumes "s = relay_run L new_relay evs"
    and "map_of (rs_legs s) c = Some l" and "rl_phase l = Idle"
    and "s1 = relay_step L s (EvServer c m True)" and "rs_clients s1 = rs_clients s @ [(c, m)]"
    and "bound_of s1 = Some t"
    and "\<forall>c'. subs_of s1 c' \<noteq> None \<longrightarrow>
       c' \<in> set cs \<and> (\<exists>l'. map_of (rs_legs s1) c' = Some l' \<and> rl_phase l' = Idle)"
    and "s2 = relay_run L s1 (map (\<lambda>c'. EvWake c' True) cs)"
    and "subs_of s2 c' = Some sub"
  shows "told sub = Some t \<and>
     (\<exists>frame. (c', PText frame) \<in> set (rs_clients s2) \<and>
        (announces L frame = Some t \<or> frame = head_notice L t)) \<and>
     (map_option told (subs_of s1 c') = Some (Some t) \<or>
      (\<exists>frame. (c', PText frame) \<in> set (drop (length (rs_clients s1)) (rs_clients s2)) \<and>
        (announces L frame = Some t \<or> frame = head_notice L t)))"
proof -
  have s1: "s1 = server_frame L s c l m True"
    using assms(2-4) by (simp add: on_leg_def when_idle_def)
  have "\<exists>fo. subscribers (fan_of s1) = subscribers (deliver_head fo (bound_of s1))"
    using assms(5) unfolding s1
    by (auto simp: server_frame_def Let_def split: ws_payload.splits prod.splits s2c_disposition.splits)
  then obtain fo where fo: "subscribers (fan_of s1) = subscribers (deliver_head fo (Some t))"
    using assms(6) by auto
  have "telling s1 t"
    unfolding telling_def using assms(6,7) deliver_head_woken [of fo t, folded fo] by blast
  moreover have "has_told s1 t c' \<or> c' \<in> set cs"
    using assms(7) no_wake_tells_back by blast
  ultimately have "has_told s2 t c'" unfolding assms(8) by (intro wakes_tell)
  with assms(9) have t: "told sub = Some t" by (simp add: has_told_def)
  have s2: "s2 = relay_run L new_relay (evs @ [EvServer c m True] @ map (\<lambda>c'. EvWake c' True) cs)"
    by (simp add: assms(1,4,8) relay_run_def)
  have "announced_ok L (announced (fan_of s1))"
    unfolding assms(1,4) by (intro announced_step announced_new)
  from run_told [OF this, of "map (\<lambda>c'. EvWake c' True) cs", folded assms(8)] assms(9) t
  have "map_option told (subs_of s1 c') = Some (Some t) \<or>
      tells L (drop (length (rs_clients s1)) (rs_clients s2)) c' t"
    by (fastforce simp: told_by_frames_def)
  with t told_was_sent [OF assms(9) [unfolded s2] t] show ?thesis
    unfolding s2 [symmetric] tells_def by blast
qed

end
