(* ===== verification/Broker_Relay_Example.thy ===== *)
theory Broker_Relay_Example
  imports Broker_Relay_Props Broker_Relay_Head
begin

text \<open>
  One session of the broker, step by step: the keyboard opens a thread, the app-server asks the
  phone for an approval, the phone answers, and the write is acknowledged.
\<close>

definition example_frames :: ext where
  "example_frames =
     \<lparr>json_read = (\<lambda>s.
        (if s = ''start'' then
           JObj [(''id'', JInt 1), (''method'', JStr ''thread/start''), (''params'', JObj [])]
         else if s = ''landed'' then
           JObj [(''id'', JInt 1), (''result'', JObj [(''thread'', JObj [(''id'', JStr ''t1'')])])]
         else if s = ''ask'' then approval
         else if s = ''init'' then JObj [(''id'', JInt 5), (''method'', JStr ''initialize'')]
         else JObj [(''id'', JInt 0), (''result'', JStr ''accept'')], True)),
      json_write = (\<lambda>v. []), uni_verbatim = (\<lambda>n. True)\<rparr>"

definition keyboard_move :: pending where
  "keyboard_move = \<lparr>pd_responded = None, pd_move = Some (RInt 1), pd_subscribing = False\<rparr>"

definition phone_answer :: pending where
  "phone_answer = \<lparr>pd_responded = Some (RInt 0), pd_move = None, pd_subscribing = False\<rparr>"

lemma example_shapes:
  "classify_shape example_frames (PText ''start'') = SRequest ''thread/start'' (Some (RInt 1))
     (JObj [(''id'', JInt 1), (''method'', JStr ''thread/start''), (''params'', JObj [])])"
  "classify_shape example_frames (PText ''yes'') = SResponse (RInt 0)
     (JObj [(''id'', JInt 0), (''result'', JStr ''accept'')])"
  "classify_shape example_frames (PText ''landed'') = SResponse (RInt 1)
     (JObj [(''id'', JInt 1), (''result'', JObj [(''thread'', JObj [(''id'', JStr ''t1'')])])])"
  "classify_shape example_frames (PText ''ask'') =
     SRequest COMMAND_EXEC_APPROVAL (Some (RInt 0)) approval"
  "classify_shape example_frames (PText ''init'') =
     SRequest ''initialize'' (Some (RInt 5)) (JObj [(''id'', JInt 5), (''method'', JStr ''initialize'')])"
  by (subst read_shape, simp add: example_frames_def approval_def, simp,
      simp add: classify_object_def Let_def id_from_value_int approval_def COMMAND_EXEC_APPROVAL_def)+

text \<open>The session after the keyboard's move.\<close>

definition moving :: binding where
  "moving = new_binding\<lparr>head := Moving 1 (RInt 1) None\<rparr>"

definition settled_on_t1 :: binding where
  "settled_on_t1 = new_binding\<lparr>head := On \<lparr>thread = ''t1'', left = False\<rparr>, ever_bound := True\<rparr>"

definition example_state :: "binding \<Rightarrow> arbiter \<Rightarrow> phase \<Rightarrow> leg \<Rightarrow> phase \<Rightarrow>
    (conn_id \<times> ws_payload) list \<Rightarrow> (conn_id \<times> ws_payload) list \<Rightarrow> relay" where
  "example_state g a ph1 caps ph2 up down =
     \<lparr>rs_broker = \<lparr>bk_arbiter = a, bk_threads = g, bk_next_conn = 3,
        bk_fanout = \<lparr>announced = [], subscribers = []\<rparr>, bk_paused = False\<rparr>,
      rs_legs = [(1, (new_relay_leg Tui)\<lparr>rl_phase := ph1\<rparr>),
        (2, (new_relay_leg Ccd)\<lparr>rl_caps := caps, rl_phase := ph2\<rparr>)],
      rs_upstream = up, rs_clients = down\<rparr>"

lemmas relay_defs = on_leg_def when_idle_def with_broker_def set_phase_def to_client_def to_upstream_def
  new_relay_leg_def

lemma relay_run_append: "relay_run L s (es @ fs) = relay_run L (relay_run L s es) fs"
  by (simp add: relay_run_def)

lemma relay_run_single: "relay_run L s [ev] = relay_step L s ev"
  by simp

lemma example_opened:
  "relay_run L new_relay [EvOpen Tui, EvOpen Ccd] = example_state new_binding [] Idle new_leg Idle [] []"
  by (simp add: new_relay_def new_broker_def open_leg_def Let_def new_relay_leg_def example_state_def)

lemma example_start:
  "relay_step example_frames (example_state new_binding [] Idle new_leg Idle [] []) (EvText 1 ''start'' True) =
     example_state moving [] (Handing keyboard_move ''start'') new_leg Idle [] []"
  by (simp add: example_state_def relay_defs client_text_def decide_text_def example_shapes Let_def
      initializes_def decide_action_def observe_tui_request_def MOVE_METHODS_def jget_def begin_move_def
      new_binding_def moving_def keyboard_move_def)

lemma example_start_up:
  "relay_run L (example_state moving [] (Handing keyboard_move ''start'') new_leg Idle [] [])
     [EvHandoff 1 HandedOver, EvReport 1 True] =
     example_state moving [] Idle new_leg Idle [(1, PText ''start'')] []"
  by (simp add: example_state_def relay_defs handed_def after_handoff_def keyboard_move_def report_def
      disposition_frame_def Let_def)

text \<open>The app-server accepts the move, and asks the phone.\<close>

lemma example_parses:
  "parse_no_dup_value example_frames ''landed'' =
     Some (JObj [(''id'', JInt 1), (''result'', JObj [(''thread'', JObj [(''id'', JStr ''t1'')])])])"
  "parse_no_dup_value example_frames ''ask'' = Some approval"
  by (simp_all add: parse_no_dup_value_iff example_frames_def approval_def)

lemma example_scans:
  "scan_frame_header example_frames ''landed'' = Some \<lparr>fh_id = Some (RInt 1), has_method = False, response = RkResult\<rparr>"
  "scan_frame_header example_frames ''ask'' = Some \<lparr>fh_id = Some (RInt 0), has_method = True, response = NotAResponse\<rparr>"
  by (simp_all add: scan_frame_header_def example_frames_def approval_def id_from_value_int response_of_def)

lemma example_landed_frame:
  "observe_server_frame example_frames moving 1 ''landed'' = settled_on_t1"
  by (simp add: observe_server_frame_def example_scans moving_def move_outcome_of_def example_parses
      str_at_def readable_def MAX_THREAD_ID_BYTES_def settle_move_def settled_on_t1_def)

lemma bound_settled: "bound_thread settled_on_t1 = Some ''t1''"
  by (simp add: bound_thread_def settled_on_t1_def)

lemma example_landed:
  "relay_step example_frames (example_state moving [] Idle new_leg Idle [(1, PText ''start'')] [])
     (EvServer 1 (PText ''landed'') True) =
   example_state settled_on_t1 [] Idle new_leg Idle [(1, PText ''start'')] [(1, PText ''landed'')]"
  by (simp add: example_state_def relay_defs server_frame_def example_landed_frame Let_def
      leg_observe_frame_def new_leg_def example_parses id_from_value_int note_announcement_def announces_def
      example_shapes deliver_head_def bound_settled)

lemma example_ask_frame:
  "observe_server_frame example_frames settled_on_t1 2 ''ask'' = settled_on_t1"
  "leg_observe_frame example_frames new_leg Ccd settled_on_t1 ''ask'' = (approval_leg, Deliver)"
proof -
  show "observe_server_frame example_frames settled_on_t1 2 ''ask'' = settled_on_t1"
    by (simp add: observe_server_frame_def example_scans observe_turn_lifecycle_def COMPLETED_MARK_def
        STARTED_MARK_def)
  have "occupies example_frames ''ask'' = Some (RInt 0)"
    by (simp add: occupies_def example_parses) (simp add: approval_def id_from_value_int)
  moreover have "frame_occupancy example_frames Ccd settled_on_t1 ''ask'' = Bind ''t1''"
    by (simp add: frame_occupancy_def example_parses approval_method)
      (simp add: approval_def classify_occupancy_def Let_def MAX_APPROVAL_THREAD_BYTES_def
        gate_occupancy_def settled_on_t1_def bound_thread_def)
  ultimately show "leg_observe_frame example_frames new_leg Ccd settled_on_t1 ''ask'' = (approval_leg, Deliver)"
    by (subst phone_observe [OF _ example_parses(2) _ approval_method approval_not_ours])
      (simp_all add: new_leg_def register_def MAX_TRACKED_IDS_def approval_leg_def Let_def)
qed

lemma example_asked:
  "relay_step example_frames (example_state settled_on_t1 [] Idle new_leg Idle up down)
     (EvServer 2 (PText ''ask'') True) =
   example_state settled_on_t1 [] Idle approval_leg Idle up (down @ [(2, PText ''ask'')])"
  by (simp add: example_state_def relay_defs server_frame_def example_ask_frame Let_def
      note_announcement_def announces_def example_shapes deliver_head_def bound_settled)

text \<open>The phone answers.\<close>

definition answered_leg :: leg where
  "answered_leg = snd (fst (authorize example_frames [] approval_leg (RInt 0) (Some ''t1'')))"

definition told_leg :: leg where
  "told_leg = snd (confirm_write example_frames [(approval_key, Reserved Ccd)] answered_leg Ccd (RInt 0))"

lemma answered_view [simp]: "view answered_leg = view approval_leg" "poisoned answered_leg = poisoned approval_leg"
  by (simp_all add: answered_leg_def authorize_eq approval_slot)

lemma example_authorized:
  "authorize example_frames [] approval_leg (RInt 0) (Some ''t1'') =
     (([(approval_key, Reserved Ccd)], answered_leg), True)"
proof -
  have "fst (fst (authorize example_frames [] approval_leg (RInt 0) (Some ''t1''))) = [(approval_key, Reserved Ccd)]"
    by (simp add: authorize_eq approval_slot) (simp add: approval_key_def)
  moreover have "snd (authorize example_frames [] approval_leg (RInt 0) (Some ''t1''))"
    by (simp add: authorize_eq approval_slot) (simp add: approval_key_def)
  ultimately show ?thesis
    unfolding answered_leg_def by (metis prod.collapse)
qed

lemma answered_slot: "slot_key answered_leg (RInt 0) = Some approval_key"
  using approval_slot unfolding slot_key_def by (simp only: answered_view)

lemma example_confirmed:
  "confirm_write example_frames [(approval_key, Reserved Ccd)] answered_leg Ccd (RInt 0) =
     ([(approval_key, Confirmed Ccd)], told_leg)"
  by (simp add: told_leg_def confirm_write_def answered_slot arb_confirm_def)

lemma told_view: "view told_leg = view approval_leg" "poisoned told_leg = poisoned approval_leg"
  by (simp_all add: told_leg_def confirm_write_def answered_slot log_line_def)

lemma example_answered:
  "relay_step example_frames (example_state settled_on_t1 [] Idle approval_leg Idle up down)
     (EvText 2 ''yes'' True) =
   example_state settled_on_t1 [(approval_key, Reserved Ccd)] Idle answered_leg (Handing phone_answer ''yes'') up down"
  by (simp add: example_state_def relay_defs client_text_def decide_text_def example_shapes Let_def
      initializes_def decide_action_def decide_response classify_response_def leg_capabilities_def
      session_threads_def example_authorized bound_thread_def settled_on_t1_def phone_answer_def)

lemma example_answer_up:
  "relay_run example_frames
     (example_state settled_on_t1 [(approval_key, Reserved Ccd)] Idle answered_leg (Handing phone_answer ''yes'') up down)
     [EvHandoff 2 HandedOver, EvReceipt 2 (Acked True)] =
   example_state settled_on_t1 [(approval_key, Confirmed Ccd)] Idle told_leg
     (Reporting phone_answer Delivered False) (up @ [(2, PText ''yes'')]) down"
  by (simp add: example_state_def relay_defs handed_def after_handoff_def receipted_def settle_write_def
      phone_answer_def Let_def example_confirmed)

definition example_run :: "relay_event list" where
  "example_run =
     [EvOpen Tui, EvOpen Ccd] @ [EvText 1 ''start'' True] @ [EvHandoff 1 HandedOver, EvReport 1 True] @
     [EvServer 1 (PText ''landed'') True] @ [EvServer 2 (PText ''ask'') True] @ [EvText 2 ''yes'' True] @
     [EvHandoff 2 HandedOver, EvReceipt 2 (Acked True)]"

lemma example_reporting:
  "relay_run example_frames new_relay example_run =
     example_state settled_on_t1 [(approval_key, Confirmed Ccd)] Idle told_leg
       (Reporting phone_answer Delivered False)
       [(1, PText ''start''), (2, PText ''yes'')] [(1, PText ''landed''), (2, PText ''ask'')]"
  unfolding example_run_def relay_run_append example_opened
  by (simp only: relay_run_single example_start example_start_up example_landed example_asked
      example_answered example_answer_up append.simps)

text \<open>The run up to the phone's answer, and the rest: the hand-off and the receipt.\<close>

definition example_before :: "relay_event list" where
  "example_before =
     [EvOpen Tui, EvOpen Ccd] @ [EvText 1 ''start'' True] @ [EvHandoff 1 HandedOver, EvReport 1 True] @
     [EvServer 1 (PText ''landed'') True] @ [EvServer 2 (PText ''ask'') True] @ [EvText 2 ''yes'' True]"

definition example_answering :: relay where
  "example_answering = example_state settled_on_t1 [(approval_key, Reserved Ccd)] Idle answered_leg
     (Handing phone_answer ''yes'') [(1, PText ''start'')] [(1, PText ''landed''), (2, PText ''ask'')]"

lemma example_split: "example_run = example_before @ [EvHandoff 2 HandedOver, EvReceipt 2 (Acked True)]"
  by (simp add: example_run_def example_before_def)

lemma example_before_run: "relay_run example_frames new_relay example_before = example_answering"
  unfolding example_before_def example_answering_def relay_run_append example_opened
  by (simp only: relay_run_single example_start example_start_up example_landed example_asked
      example_answered append.simps)

lemma example_legs:
  "hget (rs_legs example_answering) 2 =
     Some ((new_relay_leg Ccd)\<lparr>rl_caps := answered_leg, rl_phase := Handing phone_answer ''yes''\<rparr>)"
  "hget (rs_legs (relay_step example_frames example_answering (EvHandoff 2 HandedOver))) 2 =
     Some ((new_relay_leg Ccd)\<lparr>rl_caps := answered_leg, rl_phase := AwaitingReceipt phone_answer\<rparr>)"
  by (simp_all add: example_answering_def example_state_def relay_defs handed_def after_handoff_def
      phone_answer_def Let_def)

lemma fates_append: "fates L s F (es @ fs) = fates L (relay_run L s es) (fates L s F es) fs"
  by (induction es arbitrary: s F) simp_all

lemma answers_written_append:
  "answers_written L s (es @ fs) = answers_written L s es @ answers_written L (relay_run L s es) fs"
  by (induction es arbitrary: s) simp_all

lemma example_fate: "fates example_frames new_relay F example_run 2 = Receipted (Acked True)"
  unfolding example_split fates_append example_before_run fates.simps fate_step_def
  by (simp only: relay_event.case example_legs option.map option.case) simp

text \<open>One answer was written, the phone's, and it is the winner.\<close>

lemma an_approval_is_written_once_witness:
  "(Ccd, RInt 0, Some approval_key) \<in> set (answers_written example_frames new_relay example_run) \<and>
   arb_winner (arb_of (relay_run example_frames new_relay example_run)) approval_key = Some Ccd"
proof -
  have "acked_answer (relay_step example_frames example_answering (EvHandoff 2 HandedOver)) (EvReceipt 2 (Acked True)) =
      Some (Ccd, RInt 0, Some approval_key)"
    unfolding acked_answer_def
    by (simp only: relay_event.case receipt.case example_legs option.case if_True)
      (simp add: new_relay_leg_def phone_answer_def answered_slot)
  then have "(Ccd, RInt 0, Some approval_key) \<in> set (answers_written example_frames new_relay example_run)"
    unfolding example_split answers_written_append example_before_run answers_written.simps
    by (simp only: set_append option.case list.set) blast
  with an_approval_is_written_once [of example_frames example_run] show ?thesis
    by (fastforce simp: list_all_iff)
qed

lemma a_disposition_is_true_witness:
  "\<exists>frame. rs_clients (relay_step example_frames (relay_run example_frames new_relay example_run) (EvReport 2 True)) =
     rs_clients (relay_run example_frames new_relay example_run) @ [(2, PText frame)] \<and>
     frame = response_disposition example_frames ''t1'' (RInt 0) True None None \<and>
   approval_key \<in> set (written example_frames new_relay example_run) \<and>
   arb_winner (arb_of (relay_run example_frames new_relay example_run)) approval_key = Some Ccd"
proof -
  let ?l = "(new_relay_leg Ccd)\<lparr>rl_caps := told_leg, rl_phase := Reporting phone_answer Delivered False\<rparr>"
  have leg: "map_of (rs_legs (relay_run example_frames new_relay example_run)) 2 = Some ?l"
    by (simp add: example_reporting example_state_def)
  have bound: "leg_bound_thread told_leg (RInt 0) = Some ''t1''"
    by (simp add: leg_bound_thread_def told_view) (simp add: approval_leg_def new_leg_def)
  have key: "slot_key told_leg (RInt 0) = Some approval_key"
    using approval_slot unfolding slot_key_def by (simp only: told_view)
  obtain frame where
    frame: "disposition_frame example_frames (arb_of (relay_run example_frames new_relay example_run)) ?l phone_answer Delivered
       = Some frame"
    by (simp add: disposition_frame_def phone_answer_def bound new_relay_leg_def)
  have phase: "rl_phase ?l = Reporting phone_answer Delivered False" by simp
  have th: "key_thread approval_key = ''t1''" by (simp add: approval_key_def)
  from a_disposition_is_true [OF refl leg phase frame]
  obtain i k delivered winner cause where c: "pd_responded phone_answer = Some i" "slot_key told_leg i = Some k"
    "rs_clients (relay_step example_frames (relay_run example_frames new_relay example_run) (EvReport 2 True)) =
       rs_clients (relay_run example_frames new_relay example_run) @ [(2, PText frame)]"
    "frame = response_disposition example_frames (key_thread k) i delivered winner cause"
    "(delivered, winner, cause) = told_of_fate (fates example_frames new_relay (\<lambda>c. Unsent) example_run 2)
       (arb_winner (arb_of (relay_run example_frames new_relay example_run)) k)"
    "delivered \<longrightarrow> k \<in> set (written example_frames new_relay example_run) \<and>
       arb_winner (arb_of (relay_run example_frames new_relay example_run)) k = Some Ccd"
    by (auto simp: new_relay_leg_def)
  then have "i = RInt 0" by (simp add: phone_answer_def)
  with c key have "k = approval_key" by simp
  moreover from c(5) have "delivered" "winner = None" "cause = None" by (simp_all add: example_fate)
  ultimately show ?thesis using c(3,4,6) th \<open>i = RInt 0\<close> by metis
qed

section \<open>A phone that comes later\<close>

text \<open>The keyboard is on \<open>t1\<close>; the phone initializes, and its leg is subscribed and woken.\<close>

definition greeted :: binding where
  "greeted = settled_on_t1\<lparr>conns := [(2, [(RInt 5, ''initialize'')])]\<rparr>"

definition late_state :: "ccd_subscriber option \<Rightarrow> phase \<Rightarrow>
    (conn_id \<times> ws_payload) list \<Rightarrow> (conn_id \<times> ws_payload) list \<Rightarrow> relay" where
  "late_state sub ph2 up down =
     \<lparr>rs_broker = \<lparr>bk_arbiter = [], bk_threads = greeted, bk_next_conn = 3,
        bk_fanout = \<lparr>announced = [], subscribers = (case sub of None \<Rightarrow> [] | Some z \<Rightarrow> [(2, z)])\<rparr>, bk_paused = False\<rparr>,
      rs_legs = [(1, new_relay_leg Tui),
        (2, (new_relay_leg Ccd)\<lparr>rl_seen_initialize := True, rl_head_wake := (sub = None), rl_phase := ph2\<rparr>)],
      rs_upstream = up, rs_clients = down\<rparr>"

definition greeting :: pending where
  "greeting = \<lparr>pd_responded = None, pd_move = None, pd_subscribing = True\<rparr>"

lemma bound_greeted: "bound_thread greeted = Some ''t1''"
  by (simp add: greeted_def settled_on_t1_def bound_thread_def)

lemma example_init:
  "relay_step example_frames (example_state settled_on_t1 [] Idle new_leg Idle up down) (EvText 2 ''init'' True) =
     late_state None (Handing greeting ''init'') up down"
proof -
  have "try_admit_request settled_on_t1 2 (RInt 5) ''initialize'' = (greeted, Admitted)"
    by (simp add: try_admit_request_def admit_id_def id_within_cap_def settled_on_t1_def new_binding_def
        MAX_TRACKED_CONNECTIONS_def MAX_OUTSTANDING_REQUESTS_def greeted_def)
  then show ?thesis
    by (simp add: example_state_def relay_defs client_text_def decide_text_def example_shapes Let_def
        initializes_def decide_action_def decide_def classify_request_def classify_request_disposition_def
        disposition_request_cases [THEN iffD2] disposition_of_def BYPASS_METHODS_def session_threads_def
        TURN_METHOD_def late_state_def greeting_def)
qed

lemma example_subscribed:
  "relay_run example_frames (late_state None (Handing greeting ''init'') up down)
     [EvHandoff 2 HandedOver, EvReport 2 True] =
     late_state (Some \<lparr>wake = True, told = None\<rparr>) Idle (up @ [(2, PText ''init'')]) down"
  by (simp add: late_state_def relay_defs handed_def after_handoff_def greeting_def report_def
      disposition_frame_def deliver_head_def bound_greeted Let_def)

definition late_run :: "relay_event list" where
  "late_run =
     [EvOpen Tui, EvOpen Ccd] @ [EvText 1 ''start'' True] @ [EvHandoff 1 HandedOver, EvReport 1 True] @
     [EvServer 1 (PText ''landed'') True] @ [EvText 2 ''init'' True] @ [EvHandoff 2 HandedOver, EvReport 2 True]"

lemma late_reached:
  "relay_run example_frames new_relay late_run =
     late_state (Some \<lparr>wake = True, told = None\<rparr>) Idle [(1, PText ''start''), (2, PText ''init'')] [(1, PText ''landed'')]"
  unfolding late_run_def relay_run_append example_opened
  by (simp only: relay_run_single example_start example_start_up example_landed example_init
      example_subscribed append.simps)

lemma late_delivered:
  "relay_step example_frames (late_state (Some \<lparr>wake = True, told = None\<rparr>) Idle up down) (EvServer 1 PBinary True) =
     late_state (Some \<lparr>wake = True, told = None\<rparr>) Idle up (down @ [(1, PBinary)])"
  by (simp add: late_state_def relay_defs server_frame_def deliver_head_def bound_greeted Let_def)

lemma late_told:
  "relay_step example_frames (late_state (Some \<lparr>wake = True, told = None\<rparr>) Idle up down) (EvWake 2 True) =
     late_state (Some \<lparr>wake = False, told = Some ''t1''\<rparr>) Idle up
       (down @ [(2, PText (head_notice example_frames ''t1''))])"
  by (simp add: late_state_def relay_defs woken_def owed_head_def bound_greeted Let_def)

lemma the_head_reaches_every_phone_leg_witness:
  "\<exists>frame. (2, PText frame) \<in> set (drop 2 (rs_clients (relay_run example_frames
       (relay_step example_frames (relay_run example_frames new_relay late_run) (EvServer 1 PBinary True)) [EvWake 2 True]))) \<and>
     (announces example_frames frame = Some ''t1'' \<or> frame = head_notice example_frames ''t1'')"
proof -
  let ?s = "relay_run example_frames new_relay late_run"
  let ?s1 = "relay_step example_frames ?s (EvServer 1 PBinary True)"
  let ?s2 = "relay_run example_frames ?s1 (map (\<lambda>c. EvWake c True) [2])"
  have s1: "?s1 = late_state (Some \<lparr>wake = True, told = None\<rparr>) Idle [(1, PText ''start''), (2, PText ''init'')]
      [(1, PText ''landed''), (1, PBinary)]"
    by (simp only: late_reached late_delivered append.simps)
  have s2: "?s2 = late_state (Some \<lparr>wake = False, told = Some ''t1''\<rparr>) Idle [(1, PText ''start''), (2, PText ''init'')]
      ([(1, PText ''landed''), (1, PBinary)] @ [(2, PText (head_notice example_frames ''t1''))])"
    by (simp only: list.map relay_run_simps s1 late_told)
  have 1: "map_of (rs_legs ?s) 1 = Some (new_relay_leg Tui)" "rl_phase (new_relay_leg Tui) = Idle"
    by (simp_all only: late_reached) (simp_all add: late_state_def new_relay_leg_def)
  have 2: "rs_clients ?s1 = rs_clients ?s @ [(1, PBinary)]" "bound_of ?s1 = Some ''t1''"
    by (simp_all only: s1) (simp_all only: late_reached, simp_all add: late_state_def bound_greeted)
  have 3: "\<forall>c'. subs_of ?s1 c' \<noteq> None \<longrightarrow>
       c' \<in> set [2] \<and> (\<exists>l'. map_of (rs_legs ?s1) c' = Some l' \<and> rl_phase l' = Idle)"
    by (simp only: s1) (simp add: late_state_def)
  have 4: "subs_of ?s2 2 = Some \<lparr>wake = False, told = Some ''t1''\<rparr>"
    by (simp only: s2) (simp add: late_state_def)
  note sent = the_head_reaches_every_phone_leg [OF refl 1 refl 2 3 refl 4]
  have "map_option told (subs_of ?s1 2) \<noteq> Some (Some ''t1'')" "length (rs_clients ?s1) = 2"
    by (simp_all only: s1) (simp_all add: late_state_def)
  with sent show ?thesis by (simp only: list.map) blast
qed

end
