(* ===== verification/Protocol_Risk.thy ===== *)
theory Protocol_Risk
  imports Broker_Json "HOL-Library.List_Lexorder" "HOL-Library.Char_ord"
begin

text \<open>
  The risk class of an approval card (\<open>protocol/src/risk.rs\<close>): the text of a tool call that is
  scanned (\<open>scan_text\<close>), its split into shell words (\<open>tokenize\<close>), the nine patterns over the
  words, and the class (\<open>risk_classify\<close>).

  A tool input is a \<open>serde_json::Value\<close>, whose objects are B-tree maps: they are walked in the
  order of their keys, whatever the order of the members in the text.
\<close>

section \<open>The tables\<close>

definition READ_ONLY_TOOLS :: "string list" where
  "READ_ONLY_TOOLS = [''read'', ''grep'', ''glob'', ''webfetch'', ''websearch'', ''notebookread'',
     ''todoread'', ''listmcpresources'', ''readmcpresource'']"

definition BULK_CONTENT_KEYS :: "string list" where
  "BULK_CONTENT_KEYS = [''content'', ''contents'', ''new_string'', ''old_string'', ''file_text'',
     ''text'', ''body'', ''prompt'', ''patch'', ''diff'']"

definition BENIGN_DEV_NODES :: "string list" where
  "BENIGN_DEV_NODES = [''null'', ''zero'', ''random'', ''urandom'', ''stdout'', ''stderr'', ''stdin'',
     ''tty'', ''ptmx'', ''console'']"

definition INTERPRETERS :: "string list" where
  "INTERPRETERS = [''sh'', ''bash'', ''zsh'', ''dash'', ''ksh'', ''fish'', ''python'', ''python2'',
     ''python3'', ''perl'', ''ruby'', ''node'', ''osascript'', ''eval'', ''source'', ''.'']"

definition DOWNLOADERS :: "string list" where
  "DOWNLOADERS = [''curl'', ''wget'', ''fetch'', ''httpie'', ''http'', ''aria2c'']"

definition SEPARATORS :: "string list" where
  "SEPARATORS = [''|'', ''||'', ''&&'', '';'', ''&'', [CHR 0x0A], ''('', '')'', [CHR 0x60]]"

definition PROTECTED_BRANCHES :: "string list" where
  "PROTECTED_BRANCHES = [''main'', ''master'', ''trunk'', ''develop'', ''development'', ''release'',
     ''prod'', ''production'', ''staging'']"

definition MAX_SCAN_BYTES :: nat where "MAX_SCAN_BYTES = 16 * 1024"

definition SCAN_BOUND_EXCEEDED :: string where
  "SCAN_BOUND_EXCEEDED = ''command exceeds the scan bound''"

definition MAX_SCAN_DEPTH :: nat where "MAX_SCAN_DEPTH = 4"

datatype risk_class = Low | Medium | High

definition risk_as_str :: "risk_class \<Rightarrow> string" where
  "risk_as_str r = (case r of Low \<Rightarrow> ''low'' | Medium \<Rightarrow> ''medium'' | High \<Rightarrow> ''high'')"

record risk_assessment =
  ra_class :: risk_class
  matched_pattern :: "string option"

definition risk_high :: "string \<Rightarrow> risk_assessment" where
  "risk_high p = \<lparr>ra_class = High, matched_pattern = Some p\<rparr>"

definition risk_plain :: "risk_class \<Rightarrow> risk_assessment" where
  "risk_plain c = \<lparr>ra_class = c, matched_pattern = None\<rparr>"

section \<open>Words\<close>

text \<open>\<open>to_ascii_lowercase\<close>.\<close>

definition lower_char :: "char \<Rightarrow> char" where
  "lower_char c = (if 65 \<le> byte c \<and> byte c \<le> 90 then char_of (byte c + 32) else c)"

definition ascii_lower :: "string \<Rightarrow> string" where
  "ascii_lower s = map lower_char s"

text \<open>\<open>char::is_whitespace\<close>: the Unicode property \<open>White_Space\<close>.\<close>

definition is_whitespace :: "string \<Rightarrow> bool" where
  "is_whitespace ch = (let n = code_point ch in
     9 \<le> n \<and> n \<le> 13 \<or> n = 0x20 \<or> n = 0x85 \<or> n = 0xA0 \<or> n = 0x1680 \<or>
     0x2000 \<le> n \<and> n \<le> 0x200A \<or> n = 0x2028 \<or> n = 0x2029 \<or> n = 0x202F \<or> n = 0x205F \<or> n = 0x3000)"

record token =
  tk_raw :: string
  tk_command :: string

text \<open>The command is the word's basename: what follows its last slash.\<close>

definition basename :: "string \<Rightarrow> string" where
  "basename s = rev (takeWhile (\<lambda>c. c \<noteq> CHR ''/'') (rev s))"

definition new_token :: "string \<Rightarrow> token" where
  "new_token s = \<lparr>tk_raw = s, tk_command = basename s\<rparr>"

definition is_separator :: "token \<Rightarrow> bool" where
  "is_separator t \<longleftrightarrow> tk_raw t \<in> set SEPARATORS"

definition is_redirect :: "token \<Rightarrow> bool" where
  "is_redirect t \<longleftrightarrow> tk_raw t \<in> set [''>'', ''>>'', ''1>'', ''2>'', ''&>'', ''>|'']"

definition is_short_flag :: "token \<Rightarrow> bool" where
  "is_short_flag t \<longleftrightarrow> 1 < length (tk_raw t) \<and> starts_with ''-'' (tk_raw t) \<and> \<not> starts_with ''--'' (tk_raw t)"

definition is_quote :: "string \<Rightarrow> bool" where
  "is_quote ch \<longleftrightarrow> ch \<in> set [[CHR 0x27], [CHR 0x22], [backslash]]"

definition is_operator :: "string \<Rightarrow> bool" where
  "is_operator ch \<longleftrightarrow> ch \<in> set [''|'', ''&'', ''>'', ''<'', '';'', ''('', '')'', [CHR 0x60]]"

definition flush_word :: "string \<Rightarrow> token list" where
  "flush_word current = (if current = [] then [] else [new_token current])"

text \<open>The loop of \<open>tokenize\<close> over the characters, with the word being read.\<close>

fun tokens_from :: "string list \<Rightarrow> string \<Rightarrow> token list" where
  "tokens_from [] current = flush_word current"
| "tokens_from (ch # cs) current =
     (if is_quote ch then tokens_from cs current
      else if is_whitespace ch then flush_word current @ tokens_from cs []
      else if is_operator ch then
        (case cs of
           c2 # rest \<Rightarrow>
             if c2 = ch then flush_word current @ new_token (ch @ ch) # tokens_from rest []
             else flush_word current @ new_token ch # tokens_from cs []
         | [] \<Rightarrow> flush_word current @ [new_token ch])
      else tokens_from cs (current @ ch))"

definition tokenize :: "string \<Rightarrow> token list" where
  "tokenize s = tokens_from (utf8_chars (ascii_lower s)) []"

section \<open>The patterns\<close>

definition segment_of :: "token list \<Rightarrow> token list" where
  "segment_of ts = takeWhile (\<lambda>t. \<not> is_separator t) ts"

fun rm_recursive_force :: "token list \<Rightarrow> string option" where
  "rm_recursive_force [] = None"
| "rm_recursive_force (t # ts) =
     (if tk_command t \<noteq> ''rm'' then rm_recursive_force ts
      else
        let (recursive, force) = foldl (\<lambda>(recursive, force) later.
              if tk_raw later = ''--recursive'' then (True, force)
              else if tk_raw later = ''--force'' then (recursive, True)
              else if is_short_flag later then
                (recursive \<or> CHR ''r'' \<in> set (tk_raw later), force \<or> CHR ''f'' \<in> set (tk_raw later))
              else (recursive, force)) (False, False) (segment_of ts)
        in if recursive \<and> force then Some ''rm -rf'' else rm_recursive_force ts)"

fun device_write :: "token list \<Rightarrow> string option" where
  "device_write [] = None"
| "device_write (t # ts) =
     (let judge = (\<lambda>target.
            if \<not> starts_with ''/dev/'' target then device_write ts
            else
              let node = drop 5 target in
              if node = [] \<or> node \<in> set BENIGN_DEV_NODES \<or> starts_with ''fd/'' node then device_write ts
              else Some (''write to device '' @ target))
      in if starts_with ''of='' (tk_raw t) then judge (drop 3 (tk_raw t))
         else if is_redirect t then
           (case find (\<lambda>n. \<not> is_redirect n) ts of
              None \<Rightarrow> None
            | Some n \<Rightarrow> judge (tk_raw n))
         else device_write ts)"

fun mkfs_like :: "token list \<Rightarrow> string option" where
  "mkfs_like [] = None"
| "mkfs_like (t # ts) =
     (if starts_with ''mkfs'' (tk_command t) \<or> tk_command t = ''newfs'' then Some ''mkfs''
      else if tk_command t = ''diskutil'' \<and>
              list_ex (\<lambda>n. starts_with ''erase'' (tk_raw n) \<or> tk_raw n = ''partitiondisk'') (segment_of ts)
      then Some ''diskutil erase''
      else mkfs_like ts)"

definition trim_plus :: "string \<Rightarrow> string" where
  "trim_plus s = dropWhile (\<lambda>c. c = CHR ''+'') s"

definition forces :: "token \<Rightarrow> bool" where
  "forces t \<longleftrightarrow> tk_raw t = ''--force'' \<or> starts_with ''--force-with-lease'' (tk_raw t) \<or>
     starts_with ''--force-if-includes'' (tk_raw t) \<or>
     (is_short_flag t \<and> CHR ''f'' \<in> set (tk_raw t)) \<or> starts_with ''+'' (tk_raw t)"

definition forced_git_push :: "token list \<Rightarrow> string option" where
  "forced_git_push ts =
     (if \<not> list_ex (\<lambda>t. tk_command t = ''git'') ts then None
      else (case dropWhile (\<lambda>t. tk_raw t \<noteq> ''push'') ts of
          [] \<Rightarrow> None
        | push # rest \<Rightarrow>
            let segment = segment_of rest in
            if \<not> list_ex forces segment then None
            else Some (case find (\<lambda>t. trim_plus (tk_raw t) \<in> set PROTECTED_BRANCHES) segment of
                Some t \<Rightarrow> ''git push --force '' @ trim_plus (tk_raw t)
              | None \<Rightarrow> ''git push --force'')))"

text \<open>The loop of \<open>pipe_to_shell\<close> over the words from the downloader on.\<close>

definition interprets :: "token \<Rightarrow> bool" where
  "interprets t \<longleftrightarrow> tk_command t \<in> set INTERPRETERS"

definition is_pipe :: "token \<Rightarrow> bool" where
  "is_pipe t \<longleftrightarrow> tk_raw t = ''|'' \<or> tk_raw t = ''|&''"

definition pipes_into :: "token list \<Rightarrow> bool" where
  "pipes_into ts = (case ts of
     [] \<Rightarrow> False
   | next # rest \<Rightarrow>
       if tk_command next = ''sudo'' then (case rest of [] \<Rightarrow> False | n # _ \<Rightarrow> interprets n)
       else interprets next)"

fun piped_to_interpreter :: "token list \<Rightarrow> bool" where
  "piped_to_interpreter [] = False"
| "piped_to_interpreter (t # ts) = (is_pipe t \<and> pipes_into ts \<or> piped_to_interpreter ts)"

definition downloads :: "token \<Rightarrow> bool" where
  "downloads t \<longleftrightarrow> tk_command t \<in> set DOWNLOADERS"

text \<open>\<open>interpreter_before && substitution\<close>.\<close>

definition substitutes :: "token list \<Rightarrow> bool" where
  "substitutes before \<longleftrightarrow> list_ex interprets before \<and>
     list_ex (\<lambda>t. is_redirect t \<or> tk_raw t = ''('' \<or> tk_raw t = [CHR 0x60]) (take 3 (rev before))"

definition pipe_to_shell :: "token list \<Rightarrow> string option" where
  "pipe_to_shell ts =
     (let before = takeWhile (\<lambda>t. \<not> downloads t) ts;
          onward = dropWhile (\<lambda>t. \<not> downloads t) ts
      in if onward = [] then None
         else if piped_to_interpreter onward then Some ''pipe to shell''
         else if substitutes before then Some ''pipe to shell''
         else None)"

definition upper_char :: "char \<Rightarrow> char" where
  "upper_char c = (if is_lower c then char_of (byte c - 32) else c)"

fun destructive_sql :: "token list \<Rightarrow> string option" where
  "destructive_sql [] = None"
| "destructive_sql (t # ts) =
     (let next = (case ts of [] \<Rightarrow> [] | n # _ \<Rightarrow> tk_raw n) in
      if tk_raw t = ''drop'' \<and> next \<in> set [''table'', ''database'', ''schema'']
      then Some (''DROP '' @ map upper_char next)
      else if tk_raw t = ''truncate'' \<and> next = ''table'' then Some ''TRUNCATE TABLE''
      else destructive_sql ts)"

fun recursive_world_writable :: "token list \<Rightarrow> string option" where
  "recursive_world_writable [] = None"
| "recursive_world_writable (t # ts) =
     (if tk_command t = ''chmod'' \<and>
         list_ex (\<lambda>n. tk_raw n = ''--recursive'' \<or> (is_short_flag n \<and> CHR ''r'' \<in> set (tk_raw n)))
           (segment_of ts) \<and>
         list_ex (\<lambda>n. tk_raw n \<in> set [''777'', ''0777'', ''a+rwx'', ''ugo+rwx'']) (segment_of ts)
      then Some ''chmod -R 777''
      else recursive_world_writable ts)"

definition privilege_escalation :: "token list \<Rightarrow> string option" where
  "privilege_escalation ts =
     (if list_ex (\<lambda>t. tk_command t = ''sudo'' \<or> tk_command t = ''doas'') ts then Some ''sudo'' else None)"

text \<open>The flag says whether the next word is in command position.\<close>

fun power_from :: "bool \<Rightarrow> token list \<Rightarrow> string option" where
  "power_from first [] = None"
| "power_from first (t # ts) =
     (if first \<and> tk_command t \<in> set [''shutdown'', ''reboot'', ''halt'', ''poweroff'']
      then Some (tk_command t)
      else power_from (is_separator t) ts)"

definition power_control :: "token list \<Rightarrow> string option" where
  "power_control ts = power_from True ts"

definition or_else :: "'a option \<Rightarrow> 'a option \<Rightarrow> 'a option" where
  "or_else a b = (case a of None \<Rightarrow> b | Some x \<Rightarrow> Some x)"

definition first_pattern :: "token list \<Rightarrow> string option" where
  "first_pattern ts =
     or_else (rm_recursive_force ts) (or_else (device_write ts) (or_else (mkfs_like ts)
       (or_else (forced_git_push ts) (or_else (pipe_to_shell ts) (or_else (destructive_sql ts)
       (or_else (recursive_world_writable ts) (or_else (privilege_escalation ts)
       (power_control ts))))))))"

definition destructive_pattern :: "string \<Rightarrow> string option" where
  "destructive_pattern s =
     (if s = [] then None
      else let ts = tokenize s in if ts = [] then None else first_pattern ts)"

section \<open>The text that is scanned, and the class\<close>

text \<open>The byte offsets at which the characters begin.\<close>

fun char_starts :: "nat \<Rightarrow> string list \<Rightarrow> nat list" where
  "char_starts i [] = []"
| "char_starts i (ch # cs) = i # char_starts (i + length ch) cs"

definition truncate_chars :: "string \<Rightarrow> nat \<Rightarrow> string" where
  "truncate_chars s m =
     (if length s \<le> m then s
      else
        let starts = takeWhile (\<lambda>i. i \<le> m) (char_starts 0 (utf8_chars s));
            stop = (if starts = [] then 0 else last starts)
        in take stop s)"

fun collect_strings :: "json \<Rightarrow> nat \<Rightarrow> string \<Rightarrow> string"
  and collect_items :: "json list \<Rightarrow> nat \<Rightarrow> string \<Rightarrow> string"
  and collect_members :: "(string \<times> json) list \<Rightarrow> nat \<Rightarrow> (string \<times> (string \<Rightarrow> string)) list" where
  "collect_strings v depth out =
     (if MAX_SCAN_DEPTH < depth \<or> MAX_SCAN_BYTES \<le> length out then out
      else (case v of
          JStr s \<Rightarrow> out @ s @ [CHR 0x0A]
        | JArr items \<Rightarrow> collect_items items (depth + 1) out
        | JObj ms \<Rightarrow> foldl (\<lambda>o1 (k, collect). collect o1) out
            (sort_key fst (collect_members ms (depth + 1)))
        | _ \<Rightarrow> out))"
| "collect_items [] depth out = out"
| "collect_items (v # vs) depth out = collect_items vs depth (collect_strings v depth out)"
| "collect_members [] depth = []"
| "collect_members ((k, v) # ms) depth =
     (k, \<lambda>out. if ascii_lower k \<in> set BULK_CONTENT_KEYS then out else collect_strings v depth out)
       # collect_members ms depth"

definition command_of :: "json \<Rightarrow> string option" where
  "command_of input = Option.bind (jget ''command'' input) as_str"

definition command_exceeds_scan_bound :: "json \<Rightarrow> bool" where
  "command_exceeds_scan_bound input \<longleftrightarrow>
     (case command_of input of None \<Rightarrow> False | Some c \<Rightarrow> MAX_SCAN_BYTES < length c)"

definition scan_text :: "string \<Rightarrow> json \<Rightarrow> string" where
  "scan_text tool input = (case command_of input of
     Some c \<Rightarrow> truncate_chars c MAX_SCAN_BYTES
   | None \<Rightarrow>
       if ascii_lower tool \<in> set READ_ONLY_TOOLS then [] else collect_strings input 0 [])"

definition risk_classify :: "string \<Rightarrow> json \<Rightarrow> risk_assessment" where
  "risk_classify tool input = (case destructive_pattern (scan_text tool input) of
     Some p \<Rightarrow> risk_high p
   | None \<Rightarrow>
       if command_exceeds_scan_bound input then risk_high SCAN_BOUND_EXCEEDED
       else if ascii_lower tool \<in> set READ_ONLY_TOOLS then risk_plain Low
       else risk_plain Medium)"

end
