(* ===== verification/Protocol_Risk_Props.thy ===== *)
theory Protocol_Risk_Props
  imports Protocol_Risk
begin

text \<open>
  What the risk class is worth. What the tokenizer can produce; that quoting, lower or upper case and
  appended commands cannot hide a pattern; that what goes before can hide only a forced push or a
  download; that bulk content has no say; and where the tables name words the tokenizer never makes.
\<close>

section \<open>The tokenizer\<close>

lemma utf8_chars_append:
  "utf8 a \<Longrightarrow> utf8_chars (a @ b) = utf8_chars a @ utf8_chars b"
proof (induction a rule: utf8_chars.induct)
  case (2 c s)
  then have "length (take (utf8_width c - 1) s) = utf8_width c - 1"
    and "utf8 (drop (utf8_width c - 1) s)"
    by (auto simp: utf8_def)
  moreover from this(1) have "utf8_width c - 1 \<le> length s" by simp
  ultimately show ?case using 2 by simp
qed simp

lemma byte_lower: "byte (lower_char c) = (if 65 \<le> byte c \<and> byte c \<le> 90 then byte c + 32 else byte c)"
  by (simp add: lower_char_def byte_def)

lemma utf8_width_lower [simp]: "utf8_width (lower_char c) = utf8_width c"
  by (simp add: utf8_width_def byte_lower)

lemma utf8_chars_lower: "utf8_chars (ascii_lower s) = map (map lower_char) (utf8_chars s)"
  by (induction s rule: utf8_chars.induct) (auto simp: ascii_lower_def take_map drop_map)

lemma utf8_ok_lower: "utf8_ok (map lower_char bs) \<longleftrightarrow> utf8_ok bs"
proof (cases bs)
  case (Cons b cont)
  have "(0x80 \<le> byte (lower_char c) \<and> byte (lower_char c) < 0xC0) \<longleftrightarrow> (0x80 \<le> byte c \<and> byte c < 0xC0)"
    and "byte (lower_char c) < 0x80 \<longleftrightarrow> byte c < 0x80" for c
    by (auto simp: byte_lower)
  with Cons show ?thesis by (simp add: list_all_iff)
qed simp

lemma utf8_lower [simp]: "utf8 (ascii_lower s) \<longleftrightarrow> utf8 s"
  by (simp add: utf8_def utf8_chars_lower list_all_iff utf8_ok_lower del: utf8_ok.simps)

lemma ascii_lower_append [simp]: "ascii_lower (a @ b) = ascii_lower a @ ascii_lower b"
  by (simp add: ascii_lower_def)

lemma is_quote_facts [simp]: "is_quote ch \<Longrightarrow> \<not> is_whitespace ch" "is_quote ch \<Longrightarrow> \<not> is_operator ch"
  by (auto simp: is_quote_def is_whitespace_def is_operator_def code_point_def byte_def backslash_def)

lemma is_space_facts [simp]: "is_whitespace ch \<Longrightarrow> \<not> is_operator ch" "is_whitespace '' ''" "\<not> is_quote '' ''"
  by (auto simp: is_whitespace_def is_operator_def is_quote_def code_point_def byte_def backslash_def)

text \<open>White space splits the words wherever it stands.\<close>

lemma tokens_from_space:
  "is_whitespace w \<Longrightarrow> tokens_from (xs @ w # ys) cur = tokens_from xs cur @ tokens_from ys []"
proof (induction xs cur rule: tokens_from.induct)
  case (1 cur)
  then show ?case by (auto dest: is_quote_facts(1))
next
  case (2 ch cs cur)
  show ?case
  proof (cases "\<not> is_quote ch \<and> \<not> is_whitespace ch \<and> is_operator ch")
    case False
    with 2 show ?thesis by auto
  next
    case True
    note op = this
    show ?thesis
    proof (cases cs)
      case Nil
      with op 2(6) show ?thesis by (auto simp: flush_word_def dest: is_quote_facts(1) is_space_facts(1))
    next
      case (Cons c2 rest)
      with 2 op show ?thesis by auto
    qed
  qed
qed

lemma tokenize_space:
  assumes "utf8 a"
  shows "tokenize (a @ '' '' @ b) = tokenize a @ tokenize b"
proof -
  have "utf8_chars (ascii_lower ('' '' @ b)) = '' '' # utf8_chars (ascii_lower b)"
    by (simp add: ascii_lower_def lower_char_def byte_def utf8_width_def)
  with assms show ?thesis
    by (simp add: tokenize_def utf8_chars_append tokens_from_space del: ascii_lower_append)
      (simp add: utf8_chars_append tokens_from_space)
qed

definition semicolon :: token where
  "semicolon = new_token '';''"

lemma tokenize_semicolon: "utf8 a \<Longrightarrow> tokenize (a @ '' ; '' @ b) = tokenize a @ semicolon # tokenize b"
proof -
  assume a: "utf8 a"
  have s: "utf8 '';''" by (rule ascii_utf8) (simp add: byte_def)
  have one: "tokenize '';'' = [semicolon]"
    by (simp add: tokenize_def ascii_lower_def lower_char_def byte_def is_quote_def is_whitespace_def
        is_operator_def code_point_def backslash_def flush_word_def semicolon_def utf8_width_def)
  have "a @ '' ; '' @ b = a @ '' '' @ ('';'' @ '' '' @ b)" by simp
  then show ?thesis by (simp only: tokenize_space [OF a] tokenize_space [OF s] one) simp
qed

section \<open>What the tokenizer makes\<close>

text \<open>A word is an operator, a doubled operator, or characters none of which is white space, a quote
  or an operator; it is never empty.\<close>

definition plain_char :: "string \<Rightarrow> bool" where
  "plain_char ch \<longleftrightarrow> \<not> is_quote ch \<and> \<not> is_whitespace ch \<and> \<not> is_operator ch"

definition one_char :: "string \<Rightarrow> bool" where
  "one_char ch \<longleftrightarrow> ch \<noteq> [] \<and> length ch \<le> utf8_width (hd ch)"

definition wf_word :: "string \<Rightarrow> bool" where
  "wf_word s \<longleftrightarrow> (\<exists>op. is_operator op \<and> (s = op \<or> s = op @ op)) \<or>
     (\<exists>cs. cs \<noteq> [] \<and> list_all plain_char cs \<and> s = concat cs \<and> list_all one_char cs)"

lemma wf_flush:
  "list_all plain_char cs \<Longrightarrow> list_all one_char cs \<Longrightarrow> t \<in> set (flush_word (concat cs)) \<Longrightarrow> wf_word (tk_raw t)"
  unfolding wf_word_def
  by (rule disjI2, rule exI [of _ cs]) (auto simp: flush_word_def new_token_def one_char_def split: if_splits)

lemma tokens_from_wf:
  "list_all one_char xs \<Longrightarrow> list_all plain_char cs \<Longrightarrow> list_all one_char cs \<Longrightarrow>
     t \<in> set (tokens_from xs (concat cs)) \<Longrightarrow> wf_word (tk_raw t)"
proof (induction xs arbitrary: cs rule: length_induct)
  case (1 xs)
  have op: "wf_word (tk_raw (new_token ch))" "wf_word (tk_raw (new_token (ch @ ch)))" if "is_operator ch" for ch
    using that by (auto simp: wf_word_def new_token_def)
  show ?case
  proof (cases xs)
    case Nil
    with 1 show ?thesis by (auto intro: wf_flush)
  next
    case (Cons ch rest)
    have IH: "wf_word (tk_raw t)" if "length ys \<le> length rest" "list_all one_char ys"
      "list_all plain_char ds" "list_all one_char ds" "t \<in> set (tokens_from ys (concat ds))" for ys ds
      using 1(1) [rule_format, of ys ds] that Cons by simp
    consider "is_quote ch" | "\<not> is_quote ch" "is_whitespace ch" | "\<not> is_quote ch" "is_operator ch" "\<not> is_whitespace ch"
      | "plain_char ch" by (auto simp: plain_char_def)
    then show ?thesis
    proof cases
      case 1
      with \<open>t \<in> _\<close> Cons "1.prems" show ?thesis by (intro IH [of rest cs]) auto
    next
      case 2
      with \<open>t \<in> _\<close> Cons "1.prems" show ?thesis
        using IH [of rest "[]"] wf_flush [OF "1.prems"(2,3)] by auto
    next
      case 3
      with \<open>t \<in> _\<close> Cons "1.prems" show ?thesis
        using IH [of rest "[]"] IH [of "tl rest" "[]"] wf_flush [OF "1.prems"(2,3)] op [OF 3(2)]
        by (cases rest) (auto split: if_splits)
    next
      case 4
      then have n: "\<not> is_quote ch" "\<not> is_whitespace ch" "\<not> is_operator ch" by (simp_all add: plain_char_def)
      with 4 \<open>t \<in> _\<close> Cons "1.prems" show ?thesis
        by (intro IH [of rest "cs @ [ch]"]) auto
    qed
  qed
qed

lemma tokenize_wf: "t \<in> set (tokenize s) \<Longrightarrow> wf_word (tk_raw t)"
proof -
  have ne: "list_all one_char (utf8_chars s)" for s
    by (induction s rule: utf8_chars.induct) (auto simp: one_char_def utf8_width_def)
  show "t \<in> set (tokenize s) \<Longrightarrow> wf_word (tk_raw t)"
    using tokens_from_wf [OF ne, of "[]" t "ascii_lower s"] by (simp add: tokenize_def)
qed

lemma concat_one: "list_all one_char cs \<Longrightarrow> concat cs = [c] \<Longrightarrow> cs = [[c]]"
  by (cases cs) (auto simp: one_char_def append_eq_Cons_conv list_all_iff concat_eq_Nil_conv)

section \<open>Quotes\<close>

lemma tokens_from_quote:
  "is_quote q \<Longrightarrow> (xs \<noteq> [] \<Longrightarrow> ys \<noteq> [] \<Longrightarrow> last xs = hd ys \<Longrightarrow> \<not> is_operator (hd ys)) \<Longrightarrow>
     tokens_from (xs @ q # ys) cur = tokens_from (xs @ ys) cur"
proof (induction xs cur rule: tokens_from.induct)
  case (2 ch cs cur)
  show ?case
  proof (cases "\<not> is_quote ch \<and> \<not> is_whitespace ch \<and> is_operator ch")
    case False
    with 2 show ?thesis by (cases "cs = []") auto
  next
    case True
    note op = this
    with 2(6) have q: "q \<noteq> ch" by auto
    show ?thesis
    proof (cases cs)
      case Nil
      with op 2(6,7) q show ?thesis by (cases ys) (auto simp: flush_word_def)
    next
      case (Cons c2 rest)
      with 2 op show ?thesis by (cases "rest = []") auto
    qed
  qed
qed simp

section \<open>Commands before and after\<close>

lemma or_else_None [simp]: "or_else a b = None \<longleftrightarrow> a = None \<and> b = None"
  by (simp add: or_else_def split: option.split)

text \<open>The patterns a command in front cannot hide, and all of them.\<close>

definition local_patterns :: "(token list \<Rightarrow> string option) list" where
  "local_patterns = [rm_recursive_force, device_write, mkfs_like, destructive_sql,
     recursive_world_writable, privilege_escalation, power_control]"

lemma no_words:
  "rm_recursive_force [] = None" "device_write [] = None" "mkfs_like [] = None" "forced_git_push [] = None"
  "pipe_to_shell [] = None" "destructive_sql [] = None" "recursive_world_writable [] = None"
  "privilege_escalation [] = None" "power_control [] = None"
  by (simp_all add: forced_git_push_def pipe_to_shell_def privilege_escalation_def power_control_def)

lemma tokenize_Nil [simp]: "tokenize [] = []"
  by (simp add: tokenize_def ascii_lower_def flush_word_def)

lemma first_pattern_None:
  "first_pattern ts = None \<longleftrightarrow> list_all (\<lambda>p. p ts = None) (forced_git_push # pipe_to_shell # local_patterns)"
  by (simp only: first_pattern_def or_else_None local_patterns_def list.pred_inject simp_thms) blast

lemma destructive_None:
  "destructive_pattern s = None \<longleftrightarrow>
     list_all (\<lambda>p. p (tokenize s) = None) (forced_git_push # pipe_to_shell # local_patterns)"
proof -
  have "first_pattern [] = None"
    by (simp only: first_pattern_None local_patterns_def list.pred_inject no_words simp_thms)
  then have "destructive_pattern s = first_pattern (tokenize s)"
    by (simp add: destructive_pattern_def Let_def)
  then show ?thesis by (simp only: first_pattern_None)
qed

lemma not_list_all_None: "\<not> list_all (\<lambda>p. f p = None) ps \<longleftrightarrow> list_ex (\<lambda>p. f p \<noteq> None) ps"
  by (induction ps) simp_all

lemma destructive_iff:
  "destructive_pattern s \<noteq> None \<longleftrightarrow>
     list_ex (\<lambda>p. p (tokenize s) \<noteq> None) (forced_git_push # pipe_to_shell # local_patterns)"
  by (simp only: destructive_None not_list_all_None)

lemma segment_of_append: "\<exists>ws. segment_of (ts @ us) = segment_of ts @ ws"
  by (induction ts) (auto simp: segment_of_def)

text \<open>The two flags of \<open>rm\<close>, one by one.\<close>

definition rm_recurses :: "token \<Rightarrow> bool" where
  "rm_recurses t \<longleftrightarrow> tk_raw t = ''--recursive'' \<or>
     (tk_raw t \<noteq> ''--force'' \<and> is_short_flag t \<and> CHR ''r'' \<in> set (tk_raw t))"

definition rm_forces :: "token \<Rightarrow> bool" where
  "rm_forces t \<longleftrightarrow> tk_raw t = ''--force'' \<or>
     (tk_raw t \<noteq> ''--recursive'' \<and> is_short_flag t \<and> CHR ''f'' \<in> set (tk_raw t))"

lemma rm_flags:
  "foldl (\<lambda>(recursive, force) later.
      if tk_raw later = ''--recursive'' then (True, force)
      else if tk_raw later = ''--force'' then (recursive, True)
      else if is_short_flag later then
        (recursive \<or> CHR ''r'' \<in> set (tk_raw later), force \<or> CHR ''f'' \<in> set (tk_raw later))
      else (recursive, force)) (r, f) ts = (r \<or> list_ex rm_recurses ts, f \<or> list_ex rm_forces ts)"
  by (induction ts arbitrary: r f) (auto simp: rm_recurses_def rm_forces_def)

lemma rm_step:
  "rm_recursive_force (t # ts) =
     (if tk_command t = ''rm'' \<and> list_ex rm_recurses (segment_of ts) \<and> list_ex rm_forces (segment_of ts)
      then Some ''rm -rf'' else rm_recursive_force ts)"
  by (simp add: rm_flags)

declare rm_recursive_force.simps(2) [simp del]

lemma rm_suffix: "rm_recursive_force ts \<noteq> None \<Longrightarrow> rm_recursive_force (ts @ us) \<noteq> None"
proof (induction ts)
  case (Cons t ts)
  obtain ws where "segment_of (ts @ us) = segment_of ts @ ws" using segment_of_append by blast
  with Cons show ?case by (auto simp: rm_step split: if_splits)
qed simp

lemma find_append: "find P xs = Some x \<Longrightarrow> find P (xs @ ys) = Some x"
  by (induction xs) (auto split: if_splits)

text \<open>What a word writes to, if it writes anywhere; and the targets that matter.\<close>

definition written_target :: "token \<Rightarrow> token list \<Rightarrow> string option option" where
  "written_target t ts =
     (if starts_with ''of='' (tk_raw t) then Some (Some (drop 3 (tk_raw t)))
      else if is_redirect t then Some (map_option tk_raw (find (\<lambda>n. \<not> is_redirect n) ts))
      else None)"

definition is_device :: "string \<Rightarrow> bool" where
  "is_device target \<longleftrightarrow> starts_with ''/dev/'' target \<and> drop 5 target \<noteq> [] \<and>
     drop 5 target \<notin> set BENIGN_DEV_NODES \<and> \<not> starts_with ''fd/'' (drop 5 target)"

lemma device_step:
  "device_write (t # ts) = (case written_target t ts of
     None \<Rightarrow> device_write ts
   | Some None \<Rightarrow> None
   | Some (Some target) \<Rightarrow>
       if is_device target then Some (''write to device '' @ target) else device_write ts)"
  by (auto simp: written_target_def is_device_def Let_def split: option.split)

declare device_write.simps(2) [simp del]

lemma written_target_append:
  "written_target t ts \<noteq> Some None \<Longrightarrow> written_target t (ts @ us) = written_target t ts"
  unfolding written_target_def by (auto simp: find_append)

lemma device_suffix: "device_write ts \<noteq> None \<Longrightarrow> device_write (ts @ us) \<noteq> None"
proof (induction ts)
  case (Cons t ts)
  then have "written_target t ts \<noteq> Some None" by (auto simp: device_step)
  from written_target_append [OF this, of us] Cons show ?case
    by (cases "written_target t ts") (auto simp: device_step split: option.splits if_splits)
qed simp

lemma mkfs_suffix: "mkfs_like ts \<noteq> None \<Longrightarrow> mkfs_like (ts @ us) \<noteq> None"
proof (induction ts)
  case (Cons t ts)
  obtain ws where "segment_of (ts @ us) = segment_of ts @ ws" using segment_of_append by blast
  with Cons show ?case by (auto split: if_splits)
qed simp

lemma push_suffix: "forced_git_push ts \<noteq> None \<Longrightarrow> forced_git_push (ts @ us) \<noteq> None"
proof -
  assume found: "forced_git_push ts \<noteq> None"
  then obtain push rest where d: "dropWhile (\<lambda>t. tk_raw t \<noteq> ''push'') ts = push # rest"
    by (auto simp: forced_git_push_def split: list.splits if_splits)
  then have "dropWhile (\<lambda>t. tk_raw t \<noteq> ''push'') (ts @ us) = push # rest @ us"
    by (metis append_Cons dropWhile_append dropWhile_eq_Nil_conv list.distinct(1))
  moreover obtain ws where "segment_of (rest @ us) = segment_of rest @ ws" using segment_of_append by blast
  ultimately show ?thesis
    using found d by (auto simp: forced_git_push_def Let_def split: if_splits)
qed

lemma pipes_into_append: "pipes_into ts \<Longrightarrow> pipes_into (ts @ us)"
  by (cases ts; cases "tl ts") (simp_all add: pipes_into_def split: if_splits)

lemma piped_suffix: "piped_to_interpreter ts \<Longrightarrow> piped_to_interpreter (ts @ us)"
  by (induction ts) (auto intro: pipes_into_append)

lemma pipe_iff:
  "pipe_to_shell ts \<noteq> None \<longleftrightarrow>
     dropWhile (\<lambda>t. \<not> downloads t) ts \<noteq> [] \<and>
     (piped_to_interpreter (dropWhile (\<lambda>t. \<not> downloads t) ts) \<or>
      substitutes (takeWhile (\<lambda>t. \<not> downloads t) ts))"
  unfolding pipe_to_shell_def Let_def by (simp del: dropWhile_eq_Nil_conv)

lemma pipe_suffix:
  assumes found: "pipe_to_shell ts \<noteq> None"
  shows "pipe_to_shell (ts @ us) \<noteq> None"
proof -
  from found have d: "dropWhile (\<lambda>t. \<not> downloads t) ts \<noteq> []" unfolding pipe_iff by (rule conjunct1)
  then obtain t where t: "t \<in> set ts" "downloads t" by auto
  then have "takeWhile (\<lambda>t. \<not> downloads t) (ts @ us) = takeWhile (\<lambda>t. \<not> downloads t) ts"
    "dropWhile (\<lambda>t. \<not> downloads t) (ts @ us) = dropWhile (\<lambda>t. \<not> downloads t) ts @ us"
    by (auto simp: takeWhile_append1 dropWhile_append1)
  with found piped_suffix [of "dropWhile (\<lambda>t. \<not> downloads t) ts" us] show ?thesis
    by (simp only: pipe_iff) blast
qed

lemma sql_suffix: "destructive_sql ts \<noteq> None \<Longrightarrow> destructive_sql (ts @ us) \<noteq> None"
proof (induction ts)
  case (Cons t ts)
  then show ?case by (cases ts) (auto simp: Let_def split: if_splits)
qed simp

lemma chmod_suffix: "recursive_world_writable ts \<noteq> None \<Longrightarrow> recursive_world_writable (ts @ us) \<noteq> None"
proof (induction ts)
  case (Cons t ts)
  obtain ws where "segment_of (ts @ us) = segment_of ts @ ws" using segment_of_append by blast
  with Cons show ?case by (auto split: if_splits)
qed simp

lemma power_suffix: "power_from b ts \<noteq> None \<Longrightarrow> power_from b (ts @ us) \<noteq> None"
  by (induction b ts rule: power_from.induct) (auto split: if_splits)

lemmas pattern_suffix = rm_suffix device_suffix mkfs_suffix push_suffix pipe_suffix sql_suffix chmod_suffix

lemma privilege_suffix: "privilege_escalation ts \<noteq> None \<Longrightarrow> privilege_escalation (ts @ us) \<noteq> None"
  by (simp add: privilege_escalation_def split: if_splits)

lemma power_control_suffix: "power_control ts \<noteq> None \<Longrightarrow> power_control (ts @ us) \<noteq> None"
  unfolding power_control_def by (rule power_suffix)

lemma patterns_suffix:
  "p \<in> set (forced_git_push # pipe_to_shell # local_patterns) \<Longrightarrow> p ts \<noteq> None \<Longrightarrow> p (ts @ us) \<noteq> None"
  unfolding local_patterns_def list.set insert_iff empty_iff
  by (elim disjE FalseE; hypsubst; rule pattern_suffix privilege_suffix power_control_suffix; assumption)


text \<open>In front of a semicolon anything may stand.\<close>

lemma semicolon_facts [simp]:
  "is_separator semicolon" "\<not> is_redirect semicolon" "tk_raw semicolon = '';''" "tk_command semicolon = '';''"
  by (simp_all add: semicolon_def new_token_def is_separator_def is_redirect_def SEPARATORS_def basename_def)

lemma rm_prefix: "rm_recursive_force us \<noteq> None \<Longrightarrow> rm_recursive_force (ts @ semicolon # us) \<noteq> None"
  by (induction ts) (auto simp: rm_step)

lemma semicolon_target: "written_target t (ts @ semicolon # us) \<noteq> Some None"
  by (auto simp: written_target_def find_None_iff)

lemma semicolon_writes [simp]: "written_target semicolon us = None"
  by (simp add: written_target_def)

lemma device_prefix: "device_write us \<noteq> None \<Longrightarrow> device_write (ts @ semicolon # us) \<noteq> None"
proof (induction ts)
  case (Cons t ts)
  with semicolon_target [of t ts us] show ?case
    by (cases "written_target t (ts @ semicolon # us)") (auto simp: device_step split: option.splits)
qed (simp add: device_step)

lemma mkfs_prefix: "mkfs_like us \<noteq> None \<Longrightarrow> mkfs_like (ts @ semicolon # us) \<noteq> None"
  by (induction ts) auto

lemma sql_prefix: "destructive_sql us \<noteq> None \<Longrightarrow> destructive_sql (ts @ semicolon # us) \<noteq> None"
  by (induction ts) (auto simp: Let_def)

lemma chmod_prefix: "recursive_world_writable us \<noteq> None \<Longrightarrow> recursive_world_writable (ts @ semicolon # us) \<noteq> None"
  by (induction ts) auto

lemma privilege_prefix: "privilege_escalation us \<noteq> None \<Longrightarrow> privilege_escalation (ts @ semicolon # us) \<noteq> None"
  by (simp add: privilege_escalation_def split: if_splits)

lemma power_prefix: "power_from True us \<noteq> None \<Longrightarrow> power_from b (ts @ semicolon # us) \<noteq> None"
  by (induction ts arbitrary: b) auto

lemma power_control_prefix: "power_control us \<noteq> None \<Longrightarrow> power_control (ts @ semicolon # us) \<noteq> None"
  unfolding power_control_def by (rule power_prefix)

lemma patterns_prefix:
  "p \<in> set local_patterns \<Longrightarrow> p us \<noteq> None \<Longrightarrow> p (ts @ semicolon # us) \<noteq> None"
  unfolding local_patterns_def list.set insert_iff empty_iff
  by (elim disjE FalseE; hypsubst;
      rule rm_prefix device_prefix mkfs_prefix sql_prefix chmod_prefix privilege_prefix power_control_prefix;
      assumption)

section \<open>Properties\<close>

lemma risk_of_command:
  assumes "command_of input = Some c"
  shows "ra_class (risk_classify tool input) = High \<longleftrightarrow>
     MAX_SCAN_BYTES < length c \<or> destructive_pattern c \<noteq> None"
  using assms
  by (auto simp: risk_classify_def scan_text_def truncate_chars_def command_exceeds_scan_bound_def
      risk_high_def risk_plain_def split: option.split)

text \<open>The class of a shell command short enough to be read whole.\<close>

definition bash_class :: "string \<Rightarrow> risk_class" where
  "bash_class c = ra_class (risk_classify ''Bash'' (JObj [(''command'', JStr c)]))"

lemma bash_classI:
  "destructive_pattern c \<noteq> None \<Longrightarrow> bash_class c = High"
  "destructive_pattern c = None \<Longrightarrow> length c \<le> MAX_SCAN_BYTES \<Longrightarrow> bash_class c = Medium"
  by (auto simp: bash_class_def risk_classify_def scan_text_def truncate_chars_def command_exceeds_scan_bound_def
      command_of_def jget_def as_str_def risk_high_def risk_plain_def ascii_lower_def lower_char_def
      byte_def READ_ONLY_TOOLS_def split: option.split)

text \<open>C12. Nothing appended to a destructive command hides it: a command text that begins with a command in
  which some pattern is found is high, whatever is appended after a semicolon and however long it is.
  And nothing put in front hides it, unless the pattern is one of two: every pattern but the forced
  push and the download that is run is found behind any other command.\<close>
theorem neighbours_hide_no_pattern:
  assumes "utf8 a" and "command_of input = Some (a @ '' ; '' @ b)"
    and "destructive_pattern a \<noteq> None \<or> list_ex (\<lambda>p. p (tokenize b) \<noteq> None) local_patterns"
  shows "ra_class (risk_classify tool input) = High"
proof -
  have "list_ex (\<lambda>p. p (tokenize a @ semicolon # tokenize b) \<noteq> None) (forced_git_push # pipe_to_shell # local_patterns)"
    using assms(3)
  proof
    assume "destructive_pattern a \<noteq> None"
    then obtain p where "p \<in> set (forced_git_push # pipe_to_shell # local_patterns)" "p (tokenize a) \<noteq> None"
      unfolding destructive_iff list_ex_iff by blast
    with patterns_suffix show ?thesis unfolding list_ex_iff by blast
  next
    assume "list_ex (\<lambda>p. p (tokenize b) \<noteq> None) local_patterns"
    then obtain p where "p \<in> set local_patterns" "p (tokenize b) \<noteq> None"
      unfolding list_ex_iff by blast
    with patterns_prefix show ?thesis unfolding list_ex_iff list.set by blast
  qed
  then have "destructive_pattern (a @ '' ; '' @ b) \<noteq> None"
    by (simp only: destructive_iff tokenize_semicolon [OF assms(1)])
  with risk_of_command [OF assms(2)] show ?thesis by blast
qed


section \<open>Concrete commands\<close>

lemma tokenize_ascii:
  "list_all (\<lambda>c. byte c < 128) s \<Longrightarrow> tokenize s = tokens_from (map (\<lambda>c. [lower_char c]) s) []"
  by (simp add: tokenize_def utf8_chars_lower ascii_utf8_chars list_all_iff comp_def)

lemmas char_defs = byte_def lower_char_def is_quote_def is_operator_def is_whitespace_def code_point_def
  backslash_def flush_word_def

lemmas pattern_defs = local_patterns_def forced_git_push_def pipe_to_shell_def privilege_escalation_def
  power_control_def new_token_def basename_def segment_of_def is_separator_def SEPARATORS_def forces_def
  is_short_flag_def PROTECTED_BRANCHES_def trim_plus_def interprets_def downloads_def DOWNLOADERS_def
  INTERPRETERS_def substitutes_def is_redirect_def is_pipe_def pipes_into_def rm_step device_step
  written_target_def is_device_def BENIGN_DEV_NODES_def

text \<open>The words of a few commands.\<close>

lemma command_words:
  "tokenize ''sudo ls'' = map new_token [''sudo'', ''ls'']"
  "tokenize ''git push --force'' = map new_token [''git'', ''push'', ''--force'']"
  "tokenize ''git stash push ; git push --force'' =
     map new_token [''git'', ''stash'', ''push'', '';'', ''git'', ''push'', ''--force'']"
  "tokenize ''bash <(curl x)'' = map new_token [''bash'', ''<'', ''('', ''curl'', ''x'', '')'']"
  "tokenize ''curl -o y ; bash <(curl x)'' =
     map new_token [''curl'', ''-o'', ''y'', '';'', ''bash'', ''<'', ''('', ''curl'', ''x'', '')'']"
  "tokenize ''make ; reboot'' = map new_token [''make'', '';'', ''reboot'']"
  "tokenize (''make'' @ [CHR 0x0A] @ ''reboot'') = map new_token [''make'', ''reboot'']"
  "tokenize ''curl x | sh'' = map new_token [''curl'', ''x'', ''|'', ''sh'']"
  "tokenize ''curl x |& sh'' = map new_token [''curl'', ''x'', ''|'', ''&'', ''sh'']"
  "tokenize ''cat x > /dev/disk2'' = map new_token [''cat'', ''x'', ''>'', ''/dev/disk2'']"
  "tokenize ''cat x >| /dev/disk2'' = map new_token [''cat'', ''x'', ''>'', ''|'', ''/dev/disk2'']"
  by (subst tokenize_ascii; simp add: char_defs)+

lemma bash_class_words:
  "length c \<le> MAX_SCAN_BYTES \<Longrightarrow> tokenize c = ts \<Longrightarrow>
     bash_class c = (if list_ex (\<lambda>p. p ts \<noteq> None) (forced_git_push # pipe_to_shell # local_patterns)
       then High else Medium)"
  using destructive_iff [of c] by (auto simp: bash_classI)

lemma neighbours_hide_no_pattern_witness:
  "ra_class (risk_classify ''Bash'' (JObj [(''command'', JStr (''ls'' @ '' ; '' @ ''sudo ls''))])) = High"
proof -
  have "utf8 ''ls''" by (rule ascii_utf8) (auto simp: byte_def)
  moreover have "list_ex (\<lambda>p. p (tokenize ''sudo ls'') \<noteq> None) local_patterns"
    by (simp add: local_patterns_def command_words privilege_escalation_def new_token_def basename_def)
  moreover have "command_of (JObj [(''command'', JStr (''ls'' @ '' ; '' @ ''sudo ls''))]) =
      Some (''ls'' @ '' ; '' @ ''sudo ls'')"
    by (simp add: command_of_def jget_def as_str_def)
  ultimately show ?thesis
    by (intro neighbours_hide_no_pattern [of "''ls''" _ "''sudo ls''"] disjI2)
qed

text \<open>What stands before can hide a forced push and a download that is run: only the words after the
  first \<open>push\<close> of the whole text are looked at, and only the first downloader, so a harmless push or
  download in front of a forced or executed one makes the card medium.\<close>
theorem first_push_decides:
  "bash_class ''git push --force'' = High \<and>
   bash_class ''git stash push ; git push --force'' = Medium \<and>
   bash_class ''bash <(curl x)'' = High \<and>
   bash_class ''curl -o y ; bash <(curl x)'' = Medium"
  by (simp add: bash_class_words [OF _ command_words(2)] bash_class_words [OF _ command_words(3)]
      bash_class_words [OF _ command_words(4)] bash_class_words [OF _ command_words(5)] MAX_SCAN_BYTES_def pattern_defs)

text \<open>The words a command is judged by. Every word is an operator, a doubled operator, or a run of
  characters with no white space, quote or operator in it. So a line feed never ends a command, and
  neither \<open>|&\<close> nor the two-character redirects other than \<open>>>\<close> are ever seen.\<close>
theorem words_are_plain_or_operators:
  "list_all (\<lambda>t. wf_word (tk_raw t) \<and>
     tk_raw t \<notin> set [[CHR 0x0A], ''|&'', ''1>'', ''2>'', ''&>'', ''>|'']) (tokenize s)"
proof -
  have "tk_raw t \<notin> set [[CHR 0x0A], ''|&'', ''1>'', ''2>'', ''&>'', ''>|'']" if "wf_word (tk_raw t)" for t
  proof
    assume bad: "tk_raw t \<in> set [[CHR 0x0A], ''|&'', ''1>'', ''2>'', ''&>'', ''>|'']"
    then have "\<not> (\<exists>op. is_operator op \<and> (tk_raw t = op \<or> tk_raw t = op @ op))"
      by (auto simp: is_operator_def)
    with that obtain cs where cs: "list_all plain_char cs" "list_all one_char cs" "tk_raw t = concat cs"
      by (auto simp: wf_word_def)
    from bad cs(3) have "concat cs \<in> {[CHR 0x0A]} \<union> {[a, b] | a b. byte a < 128 \<and> byte b < 128 \<and> (is_operator [a] \<or> is_operator [b])}"
      by (auto simp: byte_def is_operator_def)
    then show False
    proof
      assume "concat cs \<in> {[CHR 0x0A]}"
      with concat_one [OF cs(2)] cs(1) show False
        by (auto simp: plain_char_def is_whitespace_def code_point_def byte_def)
    next
      assume "concat cs \<in> {[a, b] | a b. byte a < 128 \<and> byte b < 128 \<and> (is_operator [a] \<or> is_operator [b])}"
      then obtain a b where ab: "concat cs = [a, b]" "byte a < 128" "is_operator [a] \<or> is_operator [b]" by blast
      with cs(2) have "cs = [[a], [b]]"
        by (cases cs) (auto simp: one_char_def append_eq_Cons_conv dest: concat_one)
      with cs(1) ab(3) show False by (auto simp: plain_char_def)
    qed
  qed
  with tokenize_wf show ?thesis by (auto simp: list_all_iff)
qed

text \<open>A command on a line of its own is not in command position, and a clobbering redirect or a pipe of
  both streams is not followed: each of these is high in its plain spelling and medium in the other.\<close>
theorem line_feed_ends_no_command:
  "bash_class ''make ; reboot'' = High \<and>
   bash_class (''make'' @ [CHR 0x0A] @ ''reboot'') = Medium \<and>
   bash_class ''curl x | sh'' = High \<and>
   bash_class ''curl x |& sh'' = Medium \<and>
   bash_class ''cat x > /dev/disk2'' = High \<and>
   bash_class ''cat x >| /dev/disk2'' = Medium"
  by (simp add: bash_class_words [OF _ command_words(6)] bash_class_words [OF _ command_words(7), unfolded append.simps]
      bash_class_words [OF _ command_words(8)] bash_class_words [OF _ command_words(9)]
      bash_class_words [OF _ command_words(10)] bash_class_words [OF _ command_words(11)]
      MAX_SCAN_BYTES_def pattern_defs)

text \<open>Bulk content has no say: the value of a member whose name is one of the bulk keys, in any
  capitals, never changes the assessment.\<close>
theorem bulk_content_has_no_say:
  assumes "ascii_lower k \<in> set BULK_CONTENT_KEYS"
  shows "risk_classify tool (JObj (xs @ (k, v) # ys)) = risk_classify tool (JObj (xs @ (k, w) # ys))"
proof -
  have append: "collect_members (xs @ zs) d = collect_members xs d @ collect_members zs d" for zs d
    by (induction xs) auto
  have "''command'' \<noteq> k"
    using assms by (auto simp: BULK_CONTENT_KEYS_def ascii_lower_def lower_char_def byte_def)
  then have "jget ''command'' (JObj (xs @ (k, v) # ys)) = jget ''command'' (JObj (xs @ (k, w) # ys))"
    by (auto simp: jget_def map_add_def split: option.split)
  then have c: "command_of (JObj (xs @ (k, v) # ys)) = command_of (JObj (xs @ (k, w) # ys))"
    by (simp add: command_of_def)
  have "collect_strings (JObj (xs @ (k, v) # ys)) 0 [] = collect_strings (JObj (xs @ (k, w) # ys)) 0 []"
    using assms by (simp add: append)
  with c show ?thesis
    by (cases "command_of (JObj (xs @ (k, w) # ys))")
      (simp_all add: risk_classify_def scan_text_def command_exceeds_scan_bound_def del: collect_strings.simps)
qed

lemma bulk_content_has_no_say_witness:
  "risk_classify ''Edit'' (JObj ([] @ (''diff'', JStr ''rm -rf x'') # [])) =
     risk_classify ''Edit'' (JObj ([] @ (''diff'', JNull) # []))"
  by (rule bulk_content_has_no_say) (simp add: ascii_lower_def lower_char_def byte_def BULK_CONTENT_KEYS_def)

text \<open>Quoting cannot hide a match: a quote or a backslash put anywhere in a text, or taken from it,
  leaves what is found in it as it was, except between two halves of a doubled operator.\<close>
theorem quoting_hides_no_match:
  assumes "utf8 a" and "is_quote [q]"
    and "a = [] \<or> b = [] \<or> last a \<noteq> hd b \<or> \<not> is_operator [hd b]"
  shows "destructive_pattern (a @ q # b) = destructive_pattern (a @ b)"
proof -
  let ?c = "\<lambda>s. utf8_chars (ascii_lower s)"
  have q: "byte q < 128" "\<not> (65 \<le> byte q \<and> byte q \<le> 90)"
    using assms(2) by (auto simp: is_quote_def byte_def backslash_def)
  then have qb: "?c (q # b) = [q] # ?c b"
    by (auto simp: ascii_lower_def lower_char_def)
  have joined: "concat (utf8_chars s) = s" for s
    by (induction s rule: utf8_chars.induct) auto
  have ne: "list_all (\<lambda>c. c \<noteq> []) (utf8_chars s)" for s
    by (induction s rule: utf8_chars.induct) auto
  have op: "\<not> (97 \<le> byte y \<and> byte y \<le> 122)" if "is_operator [y]" for y
    using that by (auto simp: is_operator_def byte_def)
  have low: "x = y" if "lower_char x = y" "is_operator [y]" for x y
    using op [OF that(2)] that(1) byte_lower [of x] by (auto simp: lower_char_def split: if_splits)
  have "\<not> is_operator (hd (?c b))"
    if e: "?c a \<noteq> []" "?c b \<noteq> []" "last (?c a) = hd (?c b)"
  proof
    assume op: "is_operator (hd (?c b))"
    then obtain y where y: "hd (?c b) = [y]" "is_operator [y]" by (auto simp: is_operator_def)
    obtain zs where "?c a = zs @ [[y]]" using e y by (metis append_butlast_last_id)
    then have "last (ascii_lower a) = y" using joined [of "ascii_lower a"] by (metis concat.simps concat_append append_Nil2 last_snoc)
    moreover have "hd (ascii_lower b) = y"
      using e y joined [of "ascii_lower b"] by (metis append_Cons concat.simps(2) hd_Cons_tl list.sel(1))
    moreover have "a \<noteq> []" "b \<noteq> []" using e by (auto simp: ascii_lower_def)
    ultimately have "lower_char (last a) = y" "lower_char (hd b) = y"
      by (simp_all add: ascii_lower_def last_map hd_map)
    from this [THEN low] y(2) have "last a = y" "hd b = y" by simp_all
    with assms(3) \<open>a \<noteq> []\<close> \<open>b \<noteq> []\<close> y(2) show False by simp
  qed
  then have "tokens_from (?c a @ [q] # ?c b) [] = tokens_from (?c a @ ?c b) []"
    using tokens_from_quote [OF assms(2)] by blast
  moreover have "?c (a @ q # b) = ?c a @ [q] # ?c b" "?c (a @ b) = ?c a @ ?c b"
    by (simp_all only: ascii_lower_append utf8_chars_append utf8_lower assms(1) qb)
  ultimately have "tokenize (a @ q # b) = tokenize (a @ b)" by (simp only: tokenize_def)
  moreover have "destructive_pattern s = (if tokenize s = [] then None else first_pattern (tokenize s))" for s
    by (auto simp: destructive_pattern_def Let_def)
  ultimately show ?thesis by simp
qed

lemma quoting_hides_no_match_witness:
  "destructive_pattern (''sh -c '' @ CHR 0x22 # ''sudo ls'') = destructive_pattern (''sh -c '' @ ''sudo ls'')"
  by (rule quoting_hides_no_match) (auto intro!: ascii_utf8 simp: byte_def is_quote_def is_operator_def)

end
