(* ===== verification/Protocol_Uid.thy ===== *)
theory Protocol_Uid
  imports Broker_Prelude
begin

unbundle bit_operations_syntax

text \<open>
  Session uids (\<open>protocol/src/uid.rs\<close>): 48 bits of milliseconds and 80 bits of entropy, written as
  26 Crockford Base32 symbols, minted in order within a process.

  \<open>u128\<close> is \<open>128 word\<close>. An \<open>i64\<close> of milliseconds is an \<open>int\<close>: \<open>clamp_ms\<close> keeps it between 0 and
  \<open>MAX_MS\<close>, and the one addition is made below that ceiling. The clock and the kernel's entropy are
  arguments: the second is \<open>None\<close> when reading it fails, and is only asked where the code draws.
\<close>

definition ALPHABET :: string where
  "ALPHABET = ''0123456789ABCDEFGHJKMNPQRSTVWXYZ''"

definition UID_LEN :: nat where "UID_LEN = 26"

definition MAX_TAIL :: "128 word" where "MAX_TAIL = push_bit 80 1 - 1"

definition MAX_MS :: int where "MAX_MS = 2 ^ 48 - 1"

datatype uid_error = EntropyFailed | SpaceExhausted

section \<open>Minting\<close>

definition clamp_ms :: "int \<Rightarrow> int" where
  "clamp_ms ms = (if ms < 0 then 0 else if MAX_MS < ms then MAX_MS else ms)"

definition draw :: "int \<Rightarrow> 128 word option \<Rightarrow> uid_error + int \<times> 128 word" where
  "draw ms fresh = (case fresh of None \<Rightarrow> Inl EntropyFailed | Some tail \<Rightarrow> Inr (ms, tail))"

definition mint_step ::
  "(int \<times> 128 word) option \<Rightarrow> int \<Rightarrow> 128 word option \<Rightarrow> uid_error + int \<times> 128 word" where
  "mint_step previous now fresh = (case previous of
     None \<Rightarrow> draw now fresh
   | Some (previous_ms, previous_tail) \<Rightarrow>
       if previous_ms < now then draw now fresh
       else if previous_tail < MAX_TAIL then Inr (previous_ms, previous_tail + 1)
       else if MAX_MS \<le> previous_ms then Inl SpaceExhausted
       else draw (previous_ms + 1) fresh)"

text \<open>\<open>random_tail\<close>: ten bytes, the first the highest.\<close>

definition tail_of_bytes :: "8 word list \<Rightarrow> 128 word" where
  "tail_of_bytes bytes = foldl (\<lambda>tail b. push_bit 8 tail OR ucast b) 0 bytes"

definition random_tail :: "8 word list option \<Rightarrow> 128 word option" where
  "random_tail entropy = map_option tail_of_bytes entropy"

section \<open>Text\<close>

definition uid_encode :: "128 word \<Rightarrow> string" where
  "uid_encode bits = map (\<lambda>position.
     ALPHABET ! unat (drop_bit (position * 5) bits AND 0x1F)) (rev [0..<UID_LEN])"

definition upper_ascii :: "char \<Rightarrow> char" where
  "upper_ascii c = (if is_lower c then char_of (byte c - 32) else c)"

fun position_of :: "char \<Rightarrow> string \<Rightarrow> nat option" where
  "position_of c [] = None"
| "position_of c (x # xs) = (if x = c then Some 0 else map_option Suc (position_of c xs))"

definition symbol_value :: "char \<Rightarrow> nat option" where
  "symbol_value c = position_of (upper_ascii c) ALPHABET"

text \<open>\<open>checked_mul\<close> and \<open>checked_add\<close> of a \<open>u128\<close>.\<close>

definition checked_mul :: "128 word \<Rightarrow> nat \<Rightarrow> 128 word option" where
  "checked_mul a n = (if unat a * n < 2 ^ 128 then Some (a * of_nat n) else None)"

definition checked_add :: "128 word \<Rightarrow> nat \<Rightarrow> 128 word option" where
  "checked_add a n = (if unat a + n < 2 ^ 128 then Some (a + of_nat n) else None)"

fun decode_symbols :: "128 word \<Rightarrow> string \<Rightarrow> 128 word option" where
  "decode_symbols bits [] = Some bits"
| "decode_symbols bits (c # cs) =
     Option.bind (checked_mul bits 32) (\<lambda>b.
       Option.bind (symbol_value c) (\<lambda>v.
         Option.bind (checked_add b v) (\<lambda>b1. decode_symbols b1 cs)))"

definition uid_decode :: "string \<Rightarrow> 128 word option" where
  "uid_decode value = (if length value \<noteq> UID_LEN then None else decode_symbols 0 value)"

definition uid_well_formed :: "string \<Rightarrow> bool" where
  "uid_well_formed value \<longleftrightarrow> length value = UID_LEN \<and>
     list_all (\<lambda>c. symbol_value c \<noteq> None) value \<and>
     (case symbol_value (hd value) of None \<Rightarrow> False | Some v \<Rightarrow> v < 8)"

definition timestamp_ms :: "string \<Rightarrow> int option" where
  "timestamp_ms value = map_option (\<lambda>bits. sint (ucast (drop_bit 80 bits) :: 64 word)) (uid_decode value)"

section \<open>A uid for an instant, and the next uid\<close>

definition compose :: "int \<Rightarrow> 8 word list \<Rightarrow> 128 word" where
  "compose unix_ms entropy =
     foldl (\<lambda>bits (index, b). bits OR push_bit (72 - index * 8) (ucast b))
       (push_bit 80 (word_of_int (clamp_ms unix_ms))) (enumerate 0 entropy)"

definition uid_at :: "int \<Rightarrow> 8 word list option \<Rightarrow> uid_error + string" where
  "uid_at unix_ms entropy = (case entropy of
     None \<Rightarrow> Inl EntropyFailed | Some bytes \<Rightarrow> Inr (uid_encode (compose unix_ms bytes)))"

text \<open>\<open>new\<close>: the last mint of the process is its state, and a refusal leaves it as it was.\<close>

definition uid_new ::
  "(int \<times> 128 word) option \<Rightarrow> int \<Rightarrow> 8 word list option \<Rightarrow>
     (int \<times> 128 word) option \<times> (uid_error + string)" where
  "uid_new minted clock entropy = (case mint_step minted (clamp_ms clock) (random_tail entropy) of
     Inl e \<Rightarrow> (minted, Inl e)
   | Inr (ms, tail) \<Rightarrow> (Some (ms, tail), Inr (uid_encode (push_bit 80 (word_of_int ms) OR tail))))"

end
