(* ===== verification/Protocol_Uid_Props.thy ===== *)
theory Protocol_Uid_Props
  imports Protocol_Uid "HOL-Library.List_Lexorder" "HOL-Library.Char_ord"
begin

text \<open>
  A uid is read back as it was written, and only well-formed text is read; uids sort as text the way
  their bits do; and the uids one process mints are strictly increasing whatever its clock does.
\<close>

section \<open>Base 32\<close>

definition digits32 :: "nat \<Rightarrow> nat \<Rightarrow> nat list" where
  "digits32 k n = map (\<lambda>p. n div 32 ^ p mod 32) (rev [0..<k])"

definition number32 :: "nat \<Rightarrow> nat list \<Rightarrow> nat" where
  "number32 a ds = foldl (\<lambda>a d. a * 32 + d) a ds"

lemma digits32_simps [simp]:
  "digits32 0 n = []" "digits32 (Suc k) n = n div 32 ^ k mod 32 # digits32 k n"
  by (simp_all add: digits32_def)

lemma length_digits32 [simp]: "length (digits32 k n) = k"
  by (simp add: digits32_def)

lemma digits32_less: "d \<in> set (digits32 k n) \<Longrightarrow> d < 32"
  by (auto simp: digits32_def)

lemma number32_simps [simp]: "number32 a [] = a" "number32 a (d # ds) = number32 (a * 32 + d) ds"
  by (simp_all add: number32_def)

lemma number32_split: "number32 a ds = a * 32 ^ length ds + number32 0 ds"
proof (induction ds arbitrary: a)
  case (Cons d ds)
  from Cons.IH [of "a * 32 + d"] Cons.IH [of d] show ?case by (simp add: algebra_simps)
qed simp

lemma number32_bound: "list_all (\<lambda>d. d < 32) ds \<Longrightarrow> number32 0 ds < 32 ^ length ds"
proof (induction ds)
  case (Cons d ds)
  then have "d * 32 ^ length ds + number32 0 ds < (d + 1) * 32 ^ length ds" by simp
  also have "\<dots> \<le> 32 * 32 ^ length ds" using Cons.prems by (intro mult_right_mono) auto
  finally show ?case using number32_split [of d ds] by simp
qed simp

lemma number32_digits32: "number32 a (digits32 k n) = a * 32 ^ k + n mod 32 ^ k"
proof (induction k arbitrary: a)
  case (Suc k)
  have "n mod 32 ^ Suc k = n div 32 ^ k mod 32 * 32 ^ k + n mod 32 ^ k"
    using mod_mult2_eq [of n "32 ^ k" 32] by (simp add: mult.commute)
  with Suc show ?case by (simp add: algebra_simps)
qed simp

lemma digits32_less_iff: "digits32 k n < digits32 k m \<longleftrightarrow> n mod 32 ^ k < m mod 32 ^ k"
proof (induction k)
  case (Suc k)
  have e: "x mod 32 ^ Suc k = x div 32 ^ k mod 32 * 32 ^ k + x mod 32 ^ k" for x :: nat
    using mod_mult2_eq [of x "32 ^ k" 32] by (simp add: mult.commute)
  have lt: "x mod 32 ^ k < 32 ^ k" for x :: nat by simp
  have "n mod 32 ^ Suc k < m mod 32 ^ Suc k \<longleftrightarrow>
      n div 32 ^ k mod 32 < m div 32 ^ k mod 32 \<or>
      n div 32 ^ k mod 32 = m div 32 ^ k mod 32 \<and> n mod 32 ^ k < m mod 32 ^ k"
  proof -
    have "a * q + r < b * q + s \<longleftrightarrow> a < b \<or> a = b \<and> r < s" if "r < q" "s < q" for a b q r s :: nat
    proof (cases a b rule: linorder_cases)
      case less
      then have "(a + 1) * q \<le> b * q" by (intro mult_right_mono) auto
      with that less show ?thesis by (simp add: algebra_simps)
    next
      case greater
      then have "(b + 1) * q \<le> a * q" by (intro mult_right_mono) auto
      with that greater show ?thesis by (simp add: algebra_simps)
    qed simp
    from this [OF lt lt] show ?thesis unfolding e .
  qed
  with Suc show ?case by simp
qed simp

section \<open>The alphabet\<close>

lemma ALPHABET_facts: "length ALPHABET = 32" "sorted_wrt (<) ALPHABET"
  "list_all (\<lambda>i. symbol_value (ALPHABET ! i) = Some i) [0..<32]"
  "list_all (\<lambda>i. upper_ascii (ALPHABET ! i) = ALPHABET ! i) [0..<32]"
  by code_simp+

lemma symbol_value_nth: "i < 32 \<Longrightarrow> symbol_value (ALPHABET ! i) = Some i"
  using ALPHABET_facts(3) by (simp add: list_all_iff)

lemma ALPHABET_less: "i < 32 \<Longrightarrow> j < 32 \<Longrightarrow> ALPHABET ! i < ALPHABET ! j \<longleftrightarrow> i < j"
  using sorted_wrt_nth_less [OF ALPHABET_facts(2)] ALPHABET_facts(1)
  by (metis linorder_neqE_nat order_less_asym order_less_irrefl)

lemma position_of_Some: "position_of c xs = Some i \<Longrightarrow> i < length xs \<and> xs ! i = c"
  by (induction xs arbitrary: i) (auto split: if_splits)

lemma symbol_value_Some: "symbol_value c = Some v \<Longrightarrow> v < 32 \<and> ALPHABET ! v = upper_ascii c"
  using position_of_Some [of "upper_ascii c" ALPHABET v] by (simp add: symbol_value_def ALPHABET_facts(1))

lemma map_ALPHABET_less:
  "length ds = length es \<Longrightarrow> list_all (\<lambda>d. d < 32) ds \<Longrightarrow> list_all (\<lambda>d. d < 32) es \<Longrightarrow>
     map ((!) ALPHABET) ds < map ((!) ALPHABET) es \<longleftrightarrow> ds < es"
proof (induction ds es rule: list_induct2)
  case (Cons d ds e es)
  then have "ALPHABET ! d = ALPHABET ! e \<longleftrightarrow> d = e"
    using ALPHABET_less [of d e] ALPHABET_less [of e d] by (cases d e rule: linorder_cases) auto
  with Cons show ?case by (simp add: ALPHABET_less)
qed simp

section \<open>Encoding and decoding\<close>

lemma uid_encode_digits: "uid_encode b = map ((!) ALPHABET) (digits32 26 (unat b))"
proof -
  have "unat (drop_bit (p * 5) b AND 0x1F) = unat b div 32 ^ p mod 32" for p
  proof -
    have low: "x AND 0x1F = take_bit 5 x" for x :: "128 word"
      by (simp add: take_bit_eq_mask mask_eq_decr_exp)
    have five: "unat (take_bit 5 x) = unat x mod 2 ^ 5" for x :: "128 word"
      by (subst unsigned_take_bit_eq) (rule take_bit_eq_mod)
    have "unat (drop_bit (p * 5) b) = unat b div 2 ^ (p * 5)"
      by (subst unat_drop_bit_eq) (rule drop_bit_eq_div)
    then have "unat (drop_bit (p * 5) b AND 0x1F) = unat b div 2 ^ (p * 5) mod 2 ^ 5"
      by (simp only: low five)
    moreover have "(2::nat) ^ (p * 5) = 32 ^ p"
      using power_mult [of "2::nat" 5 p] by (simp add: mult.commute)
    ultimately show ?thesis by simp
  qed
  then show ?thesis by (simp add: uid_encode_def digits32_def UID_LEN_def)
qed

lemma u128_less: "unat (b :: 128 word) < 2 ^ 128"
  by (rule order_less_le_trans [OF unsigned_less]) simp

lemma decode_symbols_number:
  "decode_symbols b cs =
     (if list_all (\<lambda>c. symbol_value c \<noteq> None) cs \<and>
         number32 (unat b) (map (\<lambda>c. the (symbol_value c)) cs) < 2 ^ 128
      then Some (of_nat (number32 (unat b) (map (\<lambda>c. the (symbol_value c)) cs))) else None)"
proof (induction cs arbitrary: b)
  case Nil
  then show ?case using u128_less [of b] by simp
next
  case (Cons c cs)
  let ?v = "the (symbol_value c)" and ?ds = "map (\<lambda>c. the (symbol_value c)) cs"
  have ge: "a \<le> number32 a ds" for a ds
    using number32_split [of a ds] by (simp add: trans_le_add1)
  have mul: "unat (b * 32) = unat b * 32" if "unat b * 32 < 2 ^ 128"
    using that by (simp add: unat_word_ariths)
  show ?case
  proof (cases "symbol_value c = None \<or> 2 ^ 128 \<le> unat b * 32 + ?v")
    case True
    with ge [of "unat b * 32 + ?v" ?ds] show ?thesis
      by (cases "symbol_value c") (auto simp: checked_mul_def checked_add_def mul)
  next
    case False
    then have m: "unat b * 32 < 2 ^ 128" by simp
    then have u: "unat (b * 32) = unat b * 32" by (rule mul)
    with False have "unat (b * 32 + of_nat ?v) = unat b * 32 + ?v"
      by (simp add: unat_word_ariths unat_of_nat)
    with False m u Cons.IH [of "b * 32 + of_nat ?v"] show ?thesis
      by (auto simp: checked_mul_def checked_add_def)
  qed
qed


lemma uid_decode_number:
  assumes "length s = 26"
  shows "uid_decode s = (if uid_well_formed s
      then Some (of_nat (number32 0 (map (\<lambda>c. the (symbol_value c)) s))) else None)"
proof (cases "list_all (\<lambda>c. symbol_value c \<noteq> None) s")
  case True
  obtain c cs where s: "s = c # cs" "length cs = 25" using assms by (cases s) auto
  let ?ds = "map (\<lambda>c. the (symbol_value c)) cs" and ?v = "the (symbol_value c)"
  have ds: "number32 0 ?ds < 32 ^ 25"
    using number32_bound [of ?ds] True s symbol_value_Some by (fastforce simp: list_all_iff)
  have "number32 0 (?v # ?ds) = ?v * 32 ^ 25 + number32 0 ?ds"
    using number32_split [of ?v ?ds] s(2) by simp
  then have "number32 0 (?v # ?ds) < 2 ^ 128 \<longleftrightarrow> ?v < 8"
    using ds by auto
  with True s assms show ?thesis
    by (auto simp: uid_decode_def UID_LEN_def decode_symbols_number uid_well_formed_def
        simp del: decode_symbols.simps number32_simps)
next
  case False
  with assms show ?thesis
    by (simp add: uid_decode_def UID_LEN_def decode_symbols_number uid_well_formed_def)
qed

lemma length_encode [simp]: "length (uid_encode b) = 26"
  by (simp add: uid_encode_def UID_LEN_def)

lemma encode_values: "map (\<lambda>c. the (symbol_value c)) (uid_encode b) = digits32 26 (unat b)"
  by (auto simp: uid_encode_digits symbol_value_nth digits32_less intro!: map_idI)

lemma encode_symbols: "list_all (\<lambda>c. symbol_value c \<noteq> None) (uid_encode b)"
  by (auto simp: uid_encode_digits list_all_iff symbol_value_nth digits32_less)

lemma encode_well_formed: "uid_well_formed (uid_encode b)"
proof -
  have d: "digits32 26 n = n div 32 ^ 25 mod 32 # digits32 25 n" for n
    using digits32_simps(2) [of 25 n] by simp
  have "unat b div 32 ^ 25 < 8"
    using u128_less [of b] by (simp add: div_less_iff_less_mult)
  then have "symbol_value (hd (uid_encode b)) = Some (unat b div 32 ^ 25)" "unat b div 32 ^ 25 < 8"
    by (simp_all add: uid_encode_digits d symbol_value_nth)
  then show ?thesis using encode_symbols by (simp add: uid_well_formed_def UID_LEN_def)
qed

lemma decode_encode: "uid_decode (uid_encode b) = Some b"
proof -
  have "unat b < 32 ^ 26" using u128_less [of b] by simp
  then have "number32 0 (digits32 26 (unat b)) = unat b" by (simp add: number32_digits32)
  then show ?thesis
    by (simp add: uid_decode_number encode_well_formed encode_values)
qed

lemma encode_less: "uid_encode a < uid_encode b \<longleftrightarrow> a < b"
proof -
  have "unat x mod 32 ^ 26 = unat x" for x :: "128 word" using u128_less [of x] by simp
  then show ?thesis
    by (simp add: uid_encode_digits map_ALPHABET_less digits32_less_iff digits32_less list_all_iff word_less_nat_alt)
qed


section \<open>What a uid is made of\<close>

lemma or_disjoint:
  "t < 2 ^ n \<Longrightarrow> push_bit n a OR t = push_bit n a + t" for a t :: "'a::len word"
proof -
  assume "t < 2 ^ n"
  then have "t AND mask n = t" by (rule less_mask_eq)
  then have low: "bit t k \<Longrightarrow> k < n" for k by (metis bit_and_iff bit_mask_iff)
  then have "push_bit n a + t = push_bit n a OR t"
    by (intro disjunctive_add) (auto simp: bit_push_bit_iff dest!: low)
  then show ?thesis by simp
qed

definition uid_bits :: "int \<Rightarrow> 128 word \<Rightarrow> 128 word" where
  "uid_bits ms tail = push_bit 80 (word_of_int ms) OR tail"

lemma MAX_TAIL_nat: "MAX_TAIL = of_nat (2 ^ 80 - 1)"
  by (simp add: MAX_TAIL_def)

lemma unat_MAX_TAIL: "unat MAX_TAIL = 2 ^ 80 - 1"
  by (simp add: MAX_TAIL_def)

lemma unat_of_nat128: "n < 2 ^ 128 \<Longrightarrow> unat (of_nat n :: 128 word) = n"
  by (simp add: unat_of_nat)

lemma unat_uid_bits:
  assumes "0 \<le> ms" "ms \<le> MAX_MS" "tail \<le> MAX_TAIL"
  shows "unat (uid_bits ms tail) = nat ms * 2 ^ 80 + unat tail"
proof -
  have t: "unat tail < 2 ^ 80" using assms(3) by (simp add: word_le_nat_alt unat_MAX_TAIL)
  then have "tail < 2 ^ 80" by (simp add: word_less_nat_alt)
  from or_disjoint [OF this] have "uid_bits ms tail = word_of_int ms * 2 ^ 80 + tail"
    by (simp only: uid_bits_def push_bit_eq_mult)
  also have "\<dots> = of_nat (nat ms * 2 ^ 80 + unat tail)"
    by (simp only: of_nat_add of_nat_mult of_nat_power of_nat_numeral of_nat_nat [OF assms(1)]) simp
  finally have e: "uid_bits ms tail = of_nat (nat ms * 2 ^ 80 + unat tail)" .
  have "nat ms < 2 ^ 48" using assms by (simp add: MAX_MS_def nat_less_iff)
  then have "nat ms * 2 ^ 80 + unat tail < 2 ^ 128" using t by simp
  then show ?thesis unfolding e by (rule unat_of_nat128)
qed

lemma unat_byte: "unat (b :: 8 word) < 256"
  by (rule order_less_le_trans [OF unsigned_less]) simp

lemma tail_of_bytes_bound:
  assumes "length bytes \<le> 10"
  shows "tail_of_bytes bytes \<le> MAX_TAIL"
proof -
  have "unat (foldl (\<lambda>tail b. push_bit 8 tail OR ucast b) t bs) < (unat t + 1) * 256 ^ length bs"
    if "(unat t + 1) * 256 ^ length bs \<le> 2 ^ 120" for t :: "128 word" and bs :: "8 word list"
    using that
  proof (induction bs arbitrary: t)
    case (Cons b bs)
    let ?t = "push_bit 8 t OR ucast b :: 128 word"
    have b: "unat (ucast b :: 128 word) = unat b" "unat b < 256"
      using unat_byte [of b] by (simp_all add: unsigned_ucast_eq take_bit_nat_eq_self)
    then have "(ucast b :: 128 word) < 2 ^ 8" by (simp add: word_less_nat_alt)
    then have e: "?t = of_nat (unat t * 256 + unat b)"
      by (simp only: or_disjoint) (simp add: push_bit_eq_mult)
    have "256 * 1 \<le> 256 * (256::nat) ^ length bs" by (rule mult_le_mono2) simp
    then have "(unat t + 1) * 256 \<le> (unat t + 1) * 256 ^ length (b # bs)"
      by (intro mult_le_mono2) simp
    from order_trans [OF this Cons.prems] have "unat t * 256 + unat b < 2 ^ 128" using b by simp
    then have u: "unat ?t = unat t * 256 + unat b" unfolding e by (rule unat_of_nat128)
    then have le: "unat ?t + 1 \<le> (unat t + 1) * 256" using b by simp
    then have "(unat ?t + 1) * 256 ^ length bs \<le> (unat t + 1) * 256 ^ length (b # bs)"
      using mult_le_mono1 [OF le, of "256 ^ length bs"] by (simp add: algebra_simps)
    with Cons.IH [of ?t] Cons.prems show ?case by simp
  qed simp
  from this [of 0 bytes] assms have "unat (tail_of_bytes bytes) < 256 ^ length bytes"
    using power_increasing [of "length bytes" 10 "256::nat"] by (simp add: tail_of_bytes_def)
  also have "\<dots> \<le> 256 ^ 10" using assms by (intro power_increasing) auto
  finally show ?thesis by (simp add: word_le_nat_alt unat_MAX_TAIL)
qed


lemma clamp_ms_bounds: "0 \<le> clamp_ms ms" "clamp_ms ms \<le> MAX_MS"
  by (simp_all add: clamp_ms_def MAX_MS_def)

section \<open>Minting in order\<close>

text \<open>What a process has minted is in range, and the next mint is later.\<close>

definition mint_ok :: "(int \<times> 128 word) option \<Rightarrow> bool" where
  "mint_ok m \<longleftrightarrow> (case m of None \<Rightarrow> True | Some (ms, tail) \<Rightarrow> 0 \<le> ms \<and> ms \<le> MAX_MS \<and> tail \<le> MAX_TAIL)"

definition last_bits :: "(int \<times> 128 word) option \<Rightarrow> int" where
  "last_bits m = (case m of None \<Rightarrow> - 1 | Some (ms, tail) \<Rightarrow> uint (uid_bits ms tail))"

definition entropy_ok :: "8 word list option \<Rightarrow> bool" where
  "entropy_ok e \<longleftrightarrow> (case e of None \<Rightarrow> True | Some bytes \<Rightarrow> length bytes = 10)"

lemma uint_uid_bits:
  assumes "0 \<le> ms" "ms \<le> MAX_MS" "tail \<le> MAX_TAIL"
  shows "uint (uid_bits ms tail) = ms * 2 ^ 80 + uint tail"
proof -
  have "uint (uid_bits ms tail) = int (nat ms * 2 ^ 80 + unat tail)"
    by (simp only: uint_nat unat_uid_bits [OF assms])
  also have "\<dots> = int (nat ms) * 2 ^ 80 + int (unat tail)" by simp
  also have "\<dots> = ms * 2 ^ 80 + uint tail" using assms(1) by (simp only: int_nat_eq if_True uint_nat)
  finally show ?thesis .
qed

lemma uint_tail: "tail \<le> MAX_TAIL \<Longrightarrow> 0 \<le> uint tail \<and> uint tail < 2 ^ 80"
proof -
  assume "tail \<le> MAX_TAIL"
  then have "unat tail \<le> 2 ^ 80 - 1" by (simp only: word_le_nat_alt unat_MAX_TAIL)
  then have "unat tail < 2 ^ 80" by simp
  then have "int (unat tail) < int (2 ^ 80)" by (simp only: of_nat_less_iff)
  then show ?thesis by (simp only: uint_nat [symmetric]) simp
qed

lemma pair_less:
  fixes m m' t t' K :: int
  assumes "0 \<le> t" "t < K" "0 \<le> t'" "t' < K"
  shows "m * K + t < m' * K + t' \<longleftrightarrow> m < m' \<or> m = m' \<and> t < t'"
proof (cases m m' rule: linorder_cases)
  case less
  then have "(m + 1) * K \<le> m' * K" using assms by (intro mult_right_mono) auto
  with less assms show ?thesis by (simp add: algebra_simps)
next
  case greater
  then have "(m' + 1) * K \<le> m * K" using assms by (intro mult_right_mono) auto
  with greater assms show ?thesis by (simp add: algebra_simps)
qed simp

lemma drawn: "draw ms (random_tail e) = Inr r \<Longrightarrow> entropy_ok e \<Longrightarrow> fst r = ms \<and> snd r \<le> MAX_TAIL"
  by (cases e) (auto simp: draw_def random_tail_def entropy_ok_def tail_of_bytes_bound)

lemma mint_step_later:
  assumes "mint_step m now (random_tail e) = Inr (ms, tail)"
    and "mint_ok m" and "entropy_ok e" and "0 \<le> now" and "now \<le> MAX_MS"
  shows "mint_ok (Some (ms, tail)) \<and> last_bits m < uint (uid_bits ms tail) \<and> now \<le> ms"
proof (cases m)
  case None
  with assms drawn [of now e "(ms, tail)"] have r: "ms = now" "tail \<le> MAX_TAIL"
    by (simp_all add: mint_step_def)
  have "0 \<le> now * 2 ^ 80" using assms(4) by simp
  with uint_tail [OF r(2)] have "- 1 < now * 2 ^ 80 + uint tail" by linarith
  with None r assms(4,5) show ?thesis by (simp only: mint_ok_def last_bits_def uint_uid_bits) simp
next
  case (Some p)
  obtain pms ptail where p: "m = Some (pms, ptail)" using Some by (cases p) auto
  from assms(2) p have ok: "0 \<le> pms" "pms \<le> MAX_MS" "ptail \<le> MAX_TAIL" by (simp_all add: mint_ok_def)
  have prev: "last_bits m = pms * 2 ^ 80 + uint ptail"
    using ok by (simp add: p last_bits_def uint_uid_bits)
  have later: ?thesis if "pms < ms" "0 \<le> ms" "ms \<le> MAX_MS" "tail \<le> MAX_TAIL" "now \<le> ms"
    using that uint_tail [OF ok(3)] uint_tail [OF that(4)] pair_less [of "uint ptail" "2 ^ 80" "uint tail" pms ms]
    by (simp only: mint_ok_def prev uint_uid_bits) simp
  consider "pms < now" | "now \<le> pms" "ptail < MAX_TAIL" | "now \<le> pms" "\<not> ptail < MAX_TAIL" "pms < MAX_MS"
    | "now \<le> pms" "\<not> ptail < MAX_TAIL" "\<not> pms < MAX_MS" by linarith
  then show ?thesis
  proof cases
    case 1
    with assms p drawn [of now e "(ms, tail)"] show ?thesis by (intro later) (auto simp: mint_step_def)
  next
    case 2
    with assms(1) p have r: "ms = pms" "tail = ptail + 1" by (simp_all add: mint_step_def)
    have "unat ptail < unat MAX_TAIL" using 2(2) by (simp add: word_less_nat_alt)
    then have u: "unat (ptail + 1) = unat ptail + 1"
      by (simp add: unat_word_ariths unat_MAX_TAIL)
    then have "tail \<le> MAX_TAIL"
      using \<open>unat ptail < unat MAX_TAIL\<close> by (simp add: r word_le_nat_alt)
    moreover have "uint tail = uint ptail + 1" by (simp only: uint_nat r(2) u of_nat_add of_nat_1)
    ultimately show ?thesis using r(1) ok 2(1) by (simp add: mint_ok_def prev uint_uid_bits)
  next
    case 3
    with assms p drawn [of "pms + 1" e "(ms, tail)"] ok show ?thesis
      by (intro later) (auto simp: mint_step_def)
  next
    case 4
    with assms(1) p show ?thesis by (simp add: mint_step_def)
  qed
qed

text \<open>The uids a process mints, its clock and its entropy being anything.\<close>

fun mint_all :: "(int \<times> 128 word) option \<Rightarrow> (int \<times> 8 word list option) list \<Rightarrow> string list" where
  "mint_all m [] = []"
| "mint_all m ((clock, e) # es) = (case uid_new m clock e of
     (m1, Inl err) \<Rightarrow> mint_all m1 es
   | (m1, Inr uid) \<Rightarrow> uid # mint_all m1 es)"

lemma uid_new_cases:
  assumes "uid_new m clock e = (m1, r)" and "mint_ok m" and "entropy_ok e"
  shows "mint_ok m1 \<and> (case r of
     Inl err \<Rightarrow> m1 = m
   | Inr uid \<Rightarrow> \<exists>b. uid = uid_encode b \<and> last_bits m < uint b \<and> last_bits m1 = uint b)"
proof (cases "mint_step m (clamp_ms clock) (random_tail e)")
  case (Inr q)
  obtain ms tail where q: "q = (ms, tail)" by (cases q)
  from mint_step_later [OF Inr [unfolded q] assms(2,3) clamp_ms_bounds] Inr q assms(1) show ?thesis
    by (auto simp: uid_new_def uid_bits_def last_bits_def)
qed (use assms in \<open>auto simp: uid_new_def\<close>)

lemma mint_all_sorted:
  assumes "mint_ok m" and "list_all (\<lambda>(clock, e). entropy_ok e) es"
  shows "sorted_wrt (<) (mint_all m es) \<and> list_all (\<lambda>u. \<exists>b. u = uid_encode b \<and> last_bits m < uint b) (mint_all m es)"
  using assms
proof (induction m es rule: mint_all.induct)
  case (2 m clock e es)
  obtain m1 r where n: "uid_new m clock e = (m1, r)" by (cases "uid_new m clock e")
  from 2(3,4) uid_new_cases [OF n] have c: "mint_ok m1 \<and> (case r of
     Inl err \<Rightarrow> m1 = m
   | Inr uid \<Rightarrow> \<exists>b. uid = uid_encode b \<and> last_bits m < uint b \<and> last_bits m1 = uint b)" by simp
  show ?case
  proof (cases r)
    case (Inl err)
    with 2(1) [OF n [symmetric] Inl] c 2(4) n show ?thesis by simp
  next
    case (Inr uid)
    with c obtain b where b: "uid = uid_encode b" "last_bits m < uint b" "last_bits m1 = uint b" by auto
    have IH: "sorted_wrt (<) (mint_all m1 es)"
      "list_all (\<lambda>u. \<exists>b. u = uid_encode b \<and> last_bits m1 < uint b) (mint_all m1 es)"
      using 2(2) [OF n [symmetric] Inr] c 2(4) by auto
    with b have "list_all (\<lambda>u. uid < u) (mint_all m1 es)"
      "list_all (\<lambda>u. \<exists>b. u = uid_encode b \<and> last_bits m < uint b) (mint_all m1 es)"
      by (fastforce simp: list_all_iff encode_less word_less_def)+
    with IH b n Inr show ?thesis by (auto simp: list_all_iff)
  qed
qed simp

section \<open>Properties\<close>

text \<open>A uid reads back as the bits it was written from, and of all texts exactly the well-formed ones
  are read: 26 symbols of the alphabet in either case, the first no higher than 7. Writing what was
  read gives the text in upper case.\<close>
theorem uid_round_trip:
  "uid_decode (uid_encode b) = Some b \<and> uid_well_formed (uid_encode b) \<and>
     (uid_decode s \<noteq> None \<longleftrightarrow> uid_well_formed s) \<and>
     (case uid_decode s of None \<Rightarrow> True | Some bits \<Rightarrow> uid_encode bits = map upper_ascii s)"
proof -
  have len: "uid_decode s = None \<and> \<not> uid_well_formed s" if "length s \<noteq> 26"
    using that by (simp add: uid_decode_def uid_well_formed_def UID_LEN_def)
  have reads: "uid_encode bits = map upper_ascii s" if "uid_decode s = Some bits" for bits
  proof -
    have l: "length s = 26" using that len by (cases "length s = 26") auto
    let ?ds = "map (\<lambda>c. the (symbol_value c)) s"
    from that l have wf: "uid_well_formed s" and bits: "bits = of_nat (number32 0 ?ds)"
      by (auto simp: uid_decode_number split: if_splits)
    have "decode_symbols 0 s = Some bits" using that l by (simp add: uid_decode_def UID_LEN_def)
    then have "number32 0 ?ds < 2 ^ 128"
      by (auto simp: decode_symbols_number split: if_splits)
    then have u: "unat bits = number32 0 ?ds" unfolding bits by (rule unat_of_nat128)
    have sym: "symbol_value c \<noteq> None" if "c \<in> set s" for c
      using wf that by (auto simp: uid_well_formed_def list_all_iff)
    then have small: "list_all (\<lambda>d. d < 32) ?ds" using symbol_value_Some by (fastforce simp: list_all_iff)
    have digits: "digits32 (length ds) (a * 32 ^ length ds + number32 0 ds) = ds"
      if "list_all (\<lambda>d. d < 32) ds" for ds a
      using that
    proof (induction ds arbitrary: a)
      case (Cons d ds)
      have lt: "number32 0 ds < 32 ^ length ds" using number32_bound Cons.prems by auto
      have e: "a * 32 ^ length (d # ds) + number32 0 (d # ds) =
          (a * 32 + d) * 32 ^ length ds + number32 0 ds"
        using number32_split [of d ds] by (simp add: algebra_simps)
      have "((a * 32 + d) * 32 ^ length ds + number32 0 ds) div 32 ^ length ds mod 32 = d"
        using lt Cons.prems by simp
      with Cons.IH [of "a * 32 + d"] Cons.prems show ?case unfolding e by simp
    qed simp
    have "digits32 26 (unat bits) = ?ds" using digits [OF small, of 0] l u by simp
    moreover have "map ((!) ALPHABET) ?ds = map upper_ascii s"
      using sym symbol_value_Some by fastforce
    ultimately show ?thesis by (simp add: uid_encode_digits)
  qed
  show ?thesis
    using decode_encode [of b] encode_well_formed [of b] reads len uid_decode_number [of s]
    by (cases "length s = 26") (auto split: option.split)
qed

text \<open>Uids sort as text the way they were made: by millisecond first, and for one instant by their
  tail; a uid tells the instant it was made for, clamped to the 48 bits it has.\<close>
theorem uids_sort_by_time:
  assumes "0 \<le> ms" "ms \<le> MAX_MS" "0 \<le> ms'" "ms' \<le> MAX_MS" "tail \<le> MAX_TAIL" "tail' \<le> MAX_TAIL"
  shows "(uid_encode (push_bit 80 (word_of_int ms) OR tail) <
          uid_encode (push_bit 80 (word_of_int ms') OR tail') \<longleftrightarrow> ms < ms' \<or> ms = ms' \<and> tail < tail') \<and>
     timestamp_ms (uid_encode (push_bit 80 (word_of_int ms) OR tail)) = Some ms"
proof -
  note u = uint_uid_bits [OF assms(1,2,5)] uint_uid_bits [OF assms(3,4,6)]
  note t = uint_tail [OF assms(5)] uint_tail [OF assms(6)]
  have "uid_encode (uid_bits ms tail) < uid_encode (uid_bits ms' tail') \<longleftrightarrow> ms < ms' \<or> ms = ms' \<and> tail < tail'"
    using pair_less [of "uint tail" "2 ^ 80" "uint tail'" ms ms'] t
    by (simp only: encode_less word_less_def u)
  moreover have "timestamp_ms (uid_encode (uid_bits ms tail)) = Some ms"
  proof -
    have "unat tail < 2 ^ 80" using assms(5) by (simp add: word_le_nat_alt unat_MAX_TAIL)
    then have "(nat ms * 2 ^ 80 + unat tail) div 2 ^ 80 = nat ms" by simp
    then have "unat (drop_bit 80 (uid_bits ms tail)) = nat ms"
      by (simp only: unat_drop_bit_eq drop_bit_nat_def unat_uid_bits [OF assms(1,2,5)])
    then have "uint (drop_bit 80 (uid_bits ms tail)) = ms" using assms(1) by (simp only: uint_nat int_nat_eq if_True)
    then have d: "drop_bit 80 (uid_bits ms tail) = word_of_int ms" by (metis word_of_int_uint)
    have "- (2 ^ 63) \<le> ms" "ms < 2 ^ 63" using assms(1,2) by (simp_all add: MAX_MS_def)
    then have "sint (word_of_int ms :: 64 word) = ms" by (simp add: int_word_sint)
    moreover have "take_bit 128 ms = ms" using assms(1,2) by (simp add: MAX_MS_def take_bit_int_eq_self)
    then have "ucast (word_of_int ms :: 128 word) = (word_of_int ms :: 64 word)" by (simp add: unsigned_of_int of_nat_nat [OF assms(1)])
    ultimately show ?thesis by (simp add: timestamp_ms_def decode_encode d)
  qed
  ultimately show ?thesis by (simp only: uid_bits_def)
qed

lemma uids_sort_by_time_witness:
  "uid_encode (push_bit 80 (word_of_int 5) OR 9) < uid_encode (push_bit 80 (word_of_int 6) OR 2)"
  using uids_sort_by_time [of 5 6 9 2] by (simp add: MAX_MS_def MAX_TAIL_def)

text \<open>The uids one process mints are strictly increasing, whatever its clock does between the mints
  and whatever bytes the kernel gives, failures included: a refused mint only leaves a gap.\<close>
theorem minted_uids_increase:
  assumes "list_all (\<lambda>(clock, e). case e of None \<Rightarrow> True | Some bytes \<Rightarrow> length bytes = 10) es"
  shows "sorted_wrt (<) (mint_all None es)"
  using mint_all_sorted [of None es] assms by (simp add: mint_ok_def entropy_ok_def)

lemma minted_uids_increase_witness:
  "sorted_wrt (<) (mint_all None [(7, Some (replicate 10 0)), (3, Some (replicate 10 255)), (9, None), (2, None)])"
  by (rule minted_uids_increase) simp

end
