(* ===== verification/Protocol_Time.thy ===== *)
theory Protocol_Time
  imports Broker_Prelude "HOL-Library.Signed_Division"
begin

text \<open>
  Timestamps (\<open>protocol/src/time.rs\<close>): the civil date of a day, the day of a civil date, and the
  RFC 3339 text of an instant, written and read.

  The \<open>i64\<close> and \<open>u32\<close> of the source are integers here. Every intermediate value of the calendar
  functions stays far inside \<open>i64\<close> for an instant in the range the lemmas speak of; the one place
  where the division of the source rounds towards zero is written with \<open>sdiv\<close>.
\<close>

section \<open>Days and civil dates\<close>

definition days_from_civil :: "int \<Rightarrow> int \<Rightarrow> int \<Rightarrow> int" where
  "days_from_civil y0 m d =
     (let y = (if m \<le> 2 then y0 - 1 else y0);
          era = y div 400;
          yoe = y - era * 400;
          doy = (153 * (if m > 2 then m - 3 else m + 9) + 2) div 5 + d - 1;
          doe = yoe * 365 + yoe div 4 - yoe div 100 + doy
      in era * 146097 + doe - 719468)"

definition civil_from_days :: "int \<Rightarrow> int \<times> int \<times> int" where
  "civil_from_days z0 =
     (let z = z0 + 719468;
          era = z div 146097;
          doe = z mod 146097;
          yoe = (doe - doe div 1460 + doe div 36524 - doe div 146096) div 365;
          y = yoe + era * 400;
          doy = doe - (365 * yoe + yoe div 4 - yoe div 100);
          mp = (5 * doy + 2) div 153;
          d = doy - (153 * mp + 2) div 5 + 1;
          m = (if mp < 10 then mp + 3 else mp - 9)
      in (if m \<le> 2 then y + 1 else y, m, d))"

definition unix_ms_from_civil :: "int \<Rightarrow> int \<Rightarrow> int \<Rightarrow> int \<Rightarrow> int \<Rightarrow> int \<Rightarrow> int" where
  "unix_ms_from_civil year month day hour minute second =
     (let days = days_from_civil year month day;
          seconds = days * 86400 + hour * 3600 + minute * 60 + second
      in seconds * 1000)"

section \<open>Writing\<close>

text \<open>\<open>{:0w}\<close> of an integer: the sign counts and comes first.\<close>

definition zero_pad :: "nat \<Rightarrow> string \<Rightarrow> string" where
  "zero_pad w s = replicate (w - length s) (CHR ''0'') @ s"

definition padded :: "nat \<Rightarrow> int \<Rightarrow> string" where
  "padded w n = (if n < 0 then CHR ''-'' # zero_pad (w - 1) (dec (nat (- n))) else zero_pad w (dec (nat n)))"

definition secs_millis :: "int \<Rightarrow> int \<times> int" where
  "secs_millis ms =
     (if 0 \<le> ms then (ms sdiv 1000, ms smod 1000)
      else let s = (ms - 999) sdiv 1000 in (s, ms - s * 1000))"

definition rfc3339_from_unix_ms :: "int \<Rightarrow> string" where
  "rfc3339_from_unix_ms ms =
     (let (secs, millis) = secs_millis ms;
          days = secs div 86400;
          tod = secs mod 86400;
          (y, m, d) = civil_from_days days
      in padded 4 y @ ''-'' @ padded 2 m @ ''-'' @ padded 2 d @ ''T''
         @ padded 2 (tod div 3600) @ '':'' @ padded 2 (tod mod 3600 div 60) @ '':''
         @ padded 2 (tod mod 60) @ ''.'' @ padded 3 millis @ ''Z'')"

section \<open>Reading\<close>

definition is_digit :: "char \<Rightarrow> bool" where
  "is_digit c \<longleftrightarrow> 48 \<le> byte c \<and> byte c \<le> 57"

definition digit_value :: "char \<Rightarrow> int" where
  "digit_value c = int (byte c) - 48"

text \<open>\<open>str::parse\<close> of a text too short to overflow: \<open>u32\<close> takes a leading plus, \<open>i64\<close> either sign.\<close>

definition parse_digits :: "string \<Rightarrow> int option" where
  "parse_digits s = (if s \<noteq> [] \<and> list_all is_digit s
     then Some (foldl (\<lambda>n c. n * 10 + digit_value c) 0 s) else None)"

definition parse_unsigned :: "string \<Rightarrow> int option" where
  "parse_unsigned s = (case s of
     [] \<Rightarrow> None
   | c # cs \<Rightarrow> if c = CHR ''+'' then parse_digits cs else parse_digits s)"

definition parse_signed :: "string \<Rightarrow> int option" where
  "parse_signed s = (case s of
     [] \<Rightarrow> None
   | c # cs \<Rightarrow>
       if c = CHR ''+'' then parse_digits cs
       else if c = CHR ''-'' then map_option uminus (parse_digits cs)
       else parse_digits s)"

definition slice :: "nat \<Rightarrow> nat \<Rightarrow> string \<Rightarrow> string" where
  "slice i j s = take (j - i) (drop i s)"

text \<open>The milliseconds: up to three digits behind the point, padded on the right.\<close>

definition read_millis :: "string \<Rightarrow> int option" where
  "read_millis s =
     (if s ! 19 = CHR ''.'' then
        (let fraction = take 3 (takeWhile is_digit (drop 20 s)) in
         if fraction = [] then None
         else parse_signed (fraction @ replicate (3 - length fraction) (CHR ''0'')))
      else Some 0)"

text \<open>
  A slice that would split a character holds a byte that is no digit and no sign, so \<open>str::get\<close>
  refusing it and the parse refusing it come to the same.
\<close>

definition unix_ms_from_rfc3339 :: "string \<Rightarrow> int option" where
  "unix_ms_from_rfc3339 s =
     (if length s < 20 \<or> s ! 4 \<noteq> CHR ''-'' \<or> s ! 7 \<noteq> CHR ''-'' then None
      else if \<not> (s ! 10 = CHR ''T'' \<or> s ! 10 = CHR ''t'' \<or> s ! 10 = CHR '' '') then None
      else if s ! 13 \<noteq> CHR '':'' \<or> s ! 16 \<noteq> CHR '':'' then None
      else if s ! 19 \<notin> {CHR ''Z'', CHR ''z'', CHR ''.''} then None
      else
        Option.bind (parse_signed (slice 0 4 s)) (\<lambda>year.
        Option.bind (parse_unsigned (slice 5 7 s)) (\<lambda>month.
        Option.bind (parse_unsigned (slice 8 10 s)) (\<lambda>day.
        Option.bind (parse_unsigned (slice 11 13 s)) (\<lambda>hour.
        Option.bind (parse_unsigned (slice 14 16 s)) (\<lambda>minute.
        Option.bind (parse_unsigned (slice 17 19 s)) (\<lambda>second.
          if \<not> (1 \<le> month \<and> month \<le> 12) \<or> \<not> (1 \<le> day \<and> day \<le> 31) then None
          else if hour > 23 \<or> minute > 59 \<or> second > 60 then None
          else Option.bind (read_millis s) (\<lambda>millis.
            Some (unix_ms_from_civil year month day hour minute second + millis)))))))))"

end
