(* ===== verification/Protocol_Time_Props.thy ===== *)
theory Protocol_Time_Props
  imports Protocol_Time
begin

text \<open>
  The civil date of a day is a date, and the day of that date is the day: the two routines are inverse,
  and they step through a reference calendar day by day.
\<close>

section \<open>The year of an era\<close>

text \<open>\<open>year_start Y\<close> is the first day of year \<open>Y\<close> of an era; \<open>spread\<close> is what the year is read off.\<close>

definition year_start :: "int \<Rightarrow> int" where
  "year_start Y = 365 * Y + Y div 4 - Y div 100"

definition spread :: "int \<Rightarrow> int" where
  "spread doe = doe - doe div 1460 + doe div 36524 - doe div 146096"

lemma spread_step: "0 \<le> x \<Longrightarrow> spread x \<le> spread (x + 1)"
proof -
  have "(x + 1) div 1460 \<le> x div 1460 + 1" by linarith
  moreover have "(x + 1) div 146096 - x div 146096 \<le> (x + 1) div 36524 - x div 36524"
  proof -
    have q: "z div 146096 = z div 36524 div 4" for z :: int
      using zdiv_zmult2_eq [of 4 z 36524] by simp
    have "(x + 1) div 36524 = x div 36524 \<or> (x + 1) div 36524 = x div 36524 + 1" by linarith
    moreover have "(a + 1) div 4 \<le> a div 4 + 1" for a :: int by linarith
    ultimately show ?thesis unfolding q by (elim disjE) (simp_all add: diff_le_eq)
  qed
  ultimately show ?thesis by (simp add: spread_def)
qed

lemma spread_mono: "0 \<le> x \<Longrightarrow> x \<le> y \<Longrightarrow> spread x \<le> spread y"
proof (induction "nat (y - x)" arbitrary: y)
  case (Suc n)
  then have "spread x \<le> spread (y - 1)" by (intro Suc(1)) auto
  also have "\<dots> \<le> spread y" using spread_step [of "y - 1"] Suc by simp
  finally show ?case .
qed simp

definition year_end :: "int \<Rightarrow> int" where
  "year_end Y = (if Y = 399 then 146097 else year_start (Y + 1))"

lemma spread_years:
  "list_all (\<lambda>Y. 365 * Y \<le> spread (year_start Y) \<and> spread (year_end Y - 1) < 365 * (Y + 1)) [0..399]"
  by code_simp

lemma div_between: "k * Y \<le> x \<Longrightarrow> x < k * (Y + 1) \<Longrightarrow> x div k = Y" for x :: int
  by (rule int_div_pos_eq [of _ _ _ "x - k * Y"]) (auto simp: algebra_simps)

lemma year_of_day:
  assumes "0 \<le> Y" "Y \<le> 399" "year_start Y \<le> doe" "doe < year_end Y"
  shows "spread doe div 365 = Y"
proof (rule div_between)
  have "0 \<le> year_start Y" using assms(1) unfolding year_start_def by linarith
  then have "spread (year_start Y) \<le> spread doe" "spread doe \<le> spread (year_end Y - 1)"
    using assms by (auto intro: spread_mono)
  moreover have "365 * Y \<le> spread (year_start Y)" "spread (year_end Y - 1) < 365 * (Y + 1)"
    using spread_years assms(1,2) by (simp_all add: list_all_iff)
  ultimately show "365 * Y \<le> spread doe" "spread doe < 365 * (Y + 1)" by linarith+
qed

section \<open>A reference calendar\<close>

definition leap :: "int \<Rightarrow> bool" where
  "leap y \<longleftrightarrow> y mod 4 = 0 \<and> (y mod 100 \<noteq> 0 \<or> y mod 400 = 0)"

definition month_days :: "int \<Rightarrow> int \<Rightarrow> int" where
  "month_days y m = (if m = 2 then (if leap y then 29 else 28) else if m \<in> {4, 6, 9, 11} then 30 else 31)"

definition is_date :: "int \<times> int \<times> int \<Rightarrow> bool" where
  "is_date t \<longleftrightarrow> (case t of (y, m, d) \<Rightarrow> 1 \<le> m \<and> m \<le> 12 \<and> 1 \<le> d \<and> d \<le> month_days y m)"

definition next_date :: "int \<times> int \<times> int \<Rightarrow> int \<times> int \<times> int" where
  "next_date t = (case t of (y, m, d) \<Rightarrow>
     if d < month_days y m then (y, m, d + 1)
     else if m < 12 then (y, m + 1, 1)
     else (y + 1, 1, 1))"

text \<open>The days before the first of March of a year.\<close>

definition march :: "int \<Rightarrow> int" where
  "march y = 365 * y + y div 4 - y div 100 + y div 400"

lemma march_era: "march y = y div 400 * 146097 + year_start (y mod 400)"
proof -
  have "y = 400 * (y div 400) + y mod 400" by simp
  then obtain e Y where y: "y = 400 * e + Y" "e = y div 400" "Y = y mod 400" by blast
  have "y div 4 = 100 * e + Y div 4" "y div 100 = 4 * e + Y div 100"
    unfolding y(1) by linarith+
  then show ?thesis unfolding march_def year_start_def y(2,3) [symmetric] using y(1) by simp
qed

lemma div_Suc_step:
  fixes y :: int
  assumes "1 < k"
  shows "(y + 1) div k = y div k + (if (y + 1) mod k = 0 then 1 else 0)"
    "(y + 1) mod k = (if y mod k = k - 1 then 0 else y mod k + 1)"
proof -
  have split: "y + 1 = k * (y div k) + (y mod k + 1)" by simp
  have range: "0 \<le> y mod k" "y mod k < k" using assms by simp_all
  have "(y + 1) div k = y div k + (if (y + 1) mod k = 0 then 1 else 0) \<and>
    (y + 1) mod k = (if y mod k = k - 1 then 0 else y mod k + 1)"
  proof (cases "y mod k = k - 1")
    case True
    with split have "y + 1 = k * (y div k + 1)" by (simp add: algebra_simps)
    then have "(y + 1) div k = y div k + 1" "(y + 1) mod k = 0" using assms by simp_all
    with True show ?thesis by simp
  next
    case False
    with range have "(y + 1) div k = y div k" "(y + 1) mod k = y mod k + 1"
      by (intro int_div_pos_eq [OF split] int_mod_pos_eq [OF split]; simp)+
    with False range show ?thesis by simp
  qed
  then show "(y + 1) div k = y div k + (if (y + 1) mod k = 0 then 1 else 0)"
    "(y + 1) mod k = (if y mod k = k - 1 then 0 else y mod k + 1)" by simp_all
qed

lemma leap_days:
  fixes a b c :: int
  assumes "a' = a + (if A then 1 else 0)" "b' = b + (if B then 1 else 0)" "c' = c + (if C then 1 else 0)"
    and "B \<Longrightarrow> A" "C \<Longrightarrow> B"
  shows "365 * (y + 1) + a' - b' + c' = 365 * y + a - b + c + (if A \<and> (\<not> B \<or> C) then 366 else 365)"
  using assms(4,5) unfolding assms(1,2,3) by (cases A; cases B; cases C) simp_all

lemma march_Suc: "march (y + 1) = march y + (if leap (y + 1) then 366 else 365)"
  unfolding march_def leap_def
proof (rule leap_days)
  show "(y + 1) mod 100 = 0 \<Longrightarrow> (y + 1) mod 4 = 0" "(y + 1) mod 400 = 0 \<Longrightarrow> (y + 1) mod 100 = 0"
    using mod_mod_cancel [of 4 100 "y + 1"] mod_mod_cancel [of 100 400 "y + 1"] by simp_all
qed (rule div_Suc_step; simp)+

lemma days_sum: "e + (y * 365 + a - b + (k + d - 1)) - c = e + (365 * y + a - b) + k + d - 1 - c" for e :: int
  by simp

lemma days_march:
  "days_from_civil y m d = march (if m \<le> 2 then y - 1 else y) +
     (153 * (if m > 2 then m - 3 else m + 9) + 2) div 5 + d - 1 - 719468"
  unfolding days_from_civil_def Let_def minus_div_mult_eq_mod march_era year_start_def by (rule days_sum)

lemma months: "1 \<le> m \<Longrightarrow> m \<le> 12 \<Longrightarrow>
    m = 1 \<or> m = 2 \<or> m = 3 \<or> m = 4 \<or> m = 5 \<or> m = 6 \<or> m = 7 \<or> m = 8 \<or> m = 9 \<or> m = 10 \<or> m = 11 \<or> m = (12::int)"
  by presburger

lemma month_step:
  assumes "1 \<le> m" "m < 12" "m \<noteq> 2"
  shows "days_from_civil y (m + 1) 1 = days_from_civil y m (month_days y m) + 1"
  using months [OF assms(1) less_imp_le [OF assms(2)]] assms(2,3)
  by (elim disjE) (simp_all add: days_march month_days_def)

lemma next_date_day:
  assumes "is_date (y, m, d)"
  shows "is_date (next_date (y, m, d)) \<and>
     (case next_date (y, m, d) of (y1, m1, d1) \<Rightarrow> days_from_civil y1 m1 d1 = days_from_civil y m d + 1)"
proof -
  have date: "1 \<le> m" "m \<le> 12" "1 \<le> d" "d \<le> month_days y m" using assms by (simp_all add: is_date_def)
  have pos: "1 \<le> month_days u v" for u v by (simp add: month_days_def)
  consider "d < month_days y m" | "d = month_days y m" "m = 2" | "d = month_days y m" "m = 12"
    | "d = month_days y m" "m < 12" "m \<noteq> 2"
    using date by linarith
  then show ?thesis
  proof cases
    case 1
    then show ?thesis using date by (simp add: is_date_def next_date_def days_march)
  next
    case 2
    have "march y = march (y - 1) + (if leap y then 366 else 365)" using march_Suc [of "y - 1"] by simp
    with 2 show ?thesis
      by (simp add: is_date_def next_date_def days_march month_days_def)
  next
    case 3
    then show ?thesis by (simp add: is_date_def next_date_def days_march month_days_def)
  next
    case 4
    then show ?thesis using month_step [OF date(1) 4(2,3)] date pos by (simp add: is_date_def next_date_def)
  qed
qed

lemma year_length: "march (y + 1) - march y = year_end (y mod 400) - year_start (y mod 400)"
  unfolding march_era [of y] march_era [of "y + 1"] div_Suc_step [of 400 y, simplified]
  by (simp add: year_end_def year_start_def)

lemma doy_bounds:
  assumes "is_date (y, m, d)"
  defines "mp \<equiv> if m > 2 then m - 3 else m + 9" and "u \<equiv> if m \<le> 2 then y - 1 else y"
  defines "doy \<equiv> (153 * mp + 2) div 5 + d - 1"
  shows "0 \<le> doy" "doy < march (u + 1) - march u" "(5 * doy + 2) div 153 = mp"
proof -
  have m: "1 \<le> m" "m \<le> 12" and d: "1 \<le> d" "d \<le> month_days y m" using assms(1) by (simp_all add: is_date_def)
  have this_year: "march y = march (y - 1) + (if leap y then 366 else 365)" using march_Suc [of "y - 1"] by simp
  have next_year: "march y + 365 \<le> march (y + 1)" using march_Suc [of y] by simp
  have "0 \<le> doy \<and> doy < march (u + 1) - march u \<and> 153 * mp \<le> 5 * doy + 2 \<and> 5 * doy + 2 < 153 * (mp + 1)"
    using months [OF m] d this_year next_year unfolding doy_def mp_def u_def
    by (elim disjE; hypsubst; cases "leap y"; simp add: month_days_def)
  then show "0 \<le> doy" "doy < march (u + 1) - march u" "(5 * doy + 2) div 153 = mp"
    by (auto intro!: div_between)
qed

lemma civil_of_days:
  assumes "is_date (y, m, d)"
  shows "civil_from_days (days_from_civil y m d) = (y, m, d)"
proof -
  let ?y = "if m \<le> 2 then y - 1 else y" and ?mp = "if m > 2 then m - 3 else m + 9"
  let ?Y = "?y mod 400" and ?era = "?y div 400" and ?doy = "(153 * ?mp + 2) div 5 + d - 1"
  have doy: "0 \<le> ?doy" "?doy < march (?y + 1) - march ?y" "(5 * ?doy + 2) div 153 = ?mp"
    using doy_bounds [OF assms] by simp_all
  have Y: "0 \<le> ?Y" "?Y \<le> 399" by simp_all
  let ?doe = "year_start ?Y + ?doy"
  have doe: "year_start ?Y \<le> ?doe" "?doe < year_end ?Y"
    using doy(1,2) year_length [of ?y] by auto
  have "0 \<le> year_start ?Y" using Y(1) unfolding year_start_def by linarith
  moreover have "year_end ?Y \<le> 146097" using Y unfolding year_end_def year_start_def by auto
  ultimately have range: "0 \<le> ?doe" "?doe < 146097" using doe by linarith+
  have z: "days_from_civil y m d + 719468 = ?era * 146097 + ?doe"
    by (simp only: days_march march_era)
  have era: "(days_from_civil y m d + 719468) div 146097 = ?era" "(days_from_civil y m d + 719468) mod 146097 = ?doe"
    unfolding z using range by simp_all
  have yoe: "(?doe - ?doe div 1460 + ?doe div 36524 - ?doe div 146096) div 365 = ?Y"
    using year_of_day [OF Y doe] by (simp only: spread_def)
  have back_y: "?Y + ?era * 400 = ?y" by simp
  have back_doy: "?doe - (365 * ?Y + ?Y div 4 - ?Y div 100) = ?doy" by (simp add: year_start_def)
  show ?thesis
    unfolding civil_from_days_def Let_def era yoe back_doy doy(3) back_y
    using assms by (auto simp: is_date_def)
qed

text \<open>Stepping from the first of March of the year an era starts with, every day is a date's.\<close>

lemma days_on: "is_date t \<Longrightarrow> (case t of (y, m, d) \<Rightarrow> days_from_civil y m d) = z \<Longrightarrow>
    \<exists>u. is_date u \<and> (case u of (y, m, d) \<Rightarrow> days_from_civil y m d) = z + int n"
proof (induction n)
  case (Suc n)
  then obtain y m d where "is_date (y, m, d)" "days_from_civil y m d = z + int n" by auto
  with next_date_day [of y m d] show ?case
    by (intro exI [of _ "next_date (y, m, d)"]) (auto split: prod.splits)
next
  case 0
  then show ?case by (intro exI [of _ t]) simp
qed

lemma date_of_day: "is_date (civil_from_days z) \<and> (case civil_from_days z of (y, m, d) \<Rightarrow> days_from_civil y m d) = z"
proof -
  let ?e = "(z + 719468) div 146097"
  have first: "is_date (400 * ?e, 3, 1)" "days_from_civil (400 * ?e) 3 1 = 146097 * ?e - 719468"
    by (simp_all add: is_date_def month_days_def days_march march_era year_start_def)
  have "146097 * ?e \<le> z + 719468" by simp
  then have "146097 * ?e - 719468 + int (nat (z - (146097 * ?e - 719468))) = z" by linarith
  with days_on [OF first(1), of "146097 * ?e - 719468" "nat (z - (146097 * ?e - 719468))"] first(2)
  obtain y m d where "is_date (y, m, d)" "days_from_civil y m d = z" by auto
  with civil_of_days [of y m d] show ?thesis by auto
qed

text \<open>The arithmetic behind every timestamp is the Gregorian calendar: day 0 is 1 January 1970, and
  the date of the next day is the next date, over month ends, leap days and the centuries, in either
  direction without end.\<close>
theorem civil_from_days_is_the_calendar:
  "civil_from_days 0 = (1970, 1, 1) \<and> civil_from_days (z + 1) = next_date (civil_from_days z)"
proof -
  obtain y m d where c: "civil_from_days z = (y, m, d)" by (cases "civil_from_days z") auto
  with date_of_day [of z] have "is_date (y, m, d)" "days_from_civil y m d = z" by auto
  moreover obtain y1 m1 d1 where n: "next_date (y, m, d) = (y1, m1, d1)" by (cases "next_date (y, m, d)") auto
  ultimately have "is_date (y1, m1, d1)" "days_from_civil y1 m1 d1 = z + 1" using next_date_day [of y m d] by auto
  then have "civil_from_days (z + 1) = next_date (civil_from_days z)" using civil_of_days [of y1 m1 d1] c n by simp
  moreover have "civil_from_days 0 = (1970, 1, 1)" by code_simp
  ultimately show ?thesis by blast
qed

end
