(* ===== verification/Protocol_Time_Text.thy ===== *)
theory Protocol_Time_Text
  imports Protocol_Time_Props
begin

text \<open>
  An instant of the years 0 to 9999 is written as 24 characters and read back exactly.
\<close>

section \<open>Padded numbers\<close>

definition digits2 :: "nat \<Rightarrow> string" where
  "digits2 n = [digit (n div 10), digit (n mod 10)]"

definition digits3 :: "nat \<Rightarrow> string" where
  "digits3 n = [digit (n div 100), digit (n div 10 mod 10), digit (n mod 10)]"

definition digits4 :: "nat \<Rightarrow> string" where
  "digits4 n = [digit (n div 1000), digit (n div 100 mod 10), digit (n div 10 mod 10), digit (n mod 10)]"

lemmas digits_defs = digits2_def digits3_def digits4_def

lemma dec_small: "n < 10 \<Longrightarrow> dec n = [digit n]"
  by (simp add: dec.simps)

lemma dec_step: "10 \<le> n \<Longrightarrow> dec n = dec (n div 10) @ [digit (n mod 10)]"
  by (simp add: dec.simps [of n])

text \<open>Padding to one more place is padding what stands before the last digit.\<close>

lemma zero_pad_dec_Suc: "0 < w \<Longrightarrow> zero_pad (Suc w) (dec n) = zero_pad w (dec (n div 10)) @ [digit (n mod 10)]"
proof (cases "n < 10")
  case True
  assume "0 < w"
  then obtain v where "w = Suc v" by (cases w) auto
  moreover have "digit 0 = CHR ''0''" by code_simp
  ultimately show ?thesis using True by (simp add: dec_small zero_pad_def replicate_append_same [symmetric])
next
  case False
  then show ?thesis by (simp add: dec_step zero_pad_def)
qed

lemma zero_pad_1: "n < 10 \<Longrightarrow> zero_pad (Suc 0) (dec n) = [digit n]"
  by (simp add: dec_small zero_pad_def)

lemma padded_nat: "0 \<le> n \<Longrightarrow> padded w n = zero_pad w (dec (nat n))"
  by (simp add: padded_def)

lemma zero_pad_dec:
  "zero_pad 4 (dec n) = zero_pad 3 (dec (n div 10)) @ [digit (n mod 10)]"
  "zero_pad 3 (dec n) = zero_pad 2 (dec (n div 10)) @ [digit (n mod 10)]"
  "zero_pad 2 (dec n) = zero_pad (Suc 0) (dec (n div 10)) @ [digit (n mod 10)]"
proof -
  show "zero_pad 4 (dec n) = zero_pad 3 (dec (n div 10)) @ [digit (n mod 10)]"
    using zero_pad_dec_Suc [of 3 n] by simp
  show "zero_pad 3 (dec n) = zero_pad 2 (dec (n div 10)) @ [digit (n mod 10)]"
    using zero_pad_dec_Suc [of 2 n] by simp
  show "zero_pad 2 (dec n) = zero_pad (Suc 0) (dec (n div 10)) @ [digit (n mod 10)]"
    using zero_pad_dec_Suc [of 1 n] by (simp add: numeral_2_eq_2)
qed

lemma div_div_ten: "n div 10 div 10 = n div 100" "n div 100 div 10 = n div 1000" for n :: nat
  by simp_all

lemma padded_2: "0 \<le> n \<Longrightarrow> n < 100 \<Longrightarrow> padded 2 n = digits2 (nat n)"
  by (subst padded_nat, assumption) (simp add: zero_pad_dec zero_pad_1 div_div_ten digits2_def)

lemma padded_3: "0 \<le> n \<Longrightarrow> n < 1000 \<Longrightarrow> padded 3 n = digits3 (nat n)"
  by (subst padded_nat, assumption) (simp add: zero_pad_dec zero_pad_1 div_div_ten digits3_def)

lemma padded_4: "0 \<le> n \<Longrightarrow> n < 10000 \<Longrightarrow> padded 4 n = digits4 (nat n)"
  by (subst padded_nat, assumption) (simp add: zero_pad_dec zero_pad_1 div_div_ten digits4_def)

lemma digit_byte: "k < 10 \<Longrightarrow> byte (digit k) = 48 + k"
  by (simp add: digit_def byte_def)

lemma is_digit_digit: "k < 10 \<Longrightarrow> is_digit (digit k)"
  by (simp add: is_digit_def digit_byte)

lemma digit_value_digit: "k < 10 \<Longrightarrow> digit_value (digit k) = int k"
  by (simp add: digit_value_def digit_byte)

lemma last_digit: "n div (10 * k) * 10 + n div k mod 10 = n div k" for n :: nat
  using div_mult_mod_eq [of "n div k" 10] by (simp add: div_mult2_eq mult.commute)

lemma parse_digits_list:
  "list_all (\<lambda>k. k < 10) ks \<Longrightarrow> ks \<noteq> [] \<Longrightarrow>
    parse_digits (map digit ks) = Some (int (foldl (\<lambda>n k. n * 10 + k) 0 ks))"
proof -
  have fold: "foldl (\<lambda>n c. n * 10 + digit_value c) (int m) (map digit ks) = int (foldl (\<lambda>n k. n * 10 + k) m ks)"
    if "list_all (\<lambda>k. k < 10) ks" for m ks
    using that
  proof (induction ks arbitrary: m)
    case (Cons k ks)
    then show ?case using Cons.IH [of "m * 10 + k"] by (simp add: digit_value_digit)
  qed simp
  assume "list_all (\<lambda>k. k < 10) ks" "ks \<noteq> []"
  then show ?thesis
    using fold [of ks 0] by (simp add: parse_digits_def list_all_iff is_digit_digit)
qed

lemma parse_digits_of:
  "n < 100 \<Longrightarrow> parse_digits (digits2 n) = Some (int n)"
  "n < 1000 \<Longrightarrow> parse_digits (digits3 n) = Some (int n)"
  "n < 10000 \<Longrightarrow> parse_digits (digits4 n) = Some (int n)"
proof -
  have steps: "n div 10 * 10 + n mod 10 = n" "n div 100 * 10 + n div 10 mod 10 = n div 10"
    "n div 1000 * 10 + n div 100 mod 10 = n div 100"
    using last_digit [of n 1] last_digit [of n 10] last_digit [of n 100] by simp_all
  show "parse_digits (digits2 n) = Some (int n)" if "n < 100"
    using that parse_digits_list [of "[n div 10, n mod 10]"] by (simp add: digits2_def steps)
  show "parse_digits (digits3 n) = Some (int n)" if "n < 1000"
    using that parse_digits_list [of "[n div 100, n div 10 mod 10, n mod 10]"] by (simp add: digits3_def steps)
  show "parse_digits (digits4 n) = Some (int n)" if "n < 10000"
    using that parse_digits_list [of "[n div 1000, n div 100 mod 10, n div 10 mod 10, n mod 10]"]
    by (simp add: digits4_def steps)
qed

section \<open>The text of an instant\<close>

lemma march_mono: "y \<le> y' \<Longrightarrow> march y \<le> march y'"
proof (induction "nat (y' - y)" arbitrary: y')
  case (Suc n)
  then have "march y \<le> march (y' - 1)" by (intro Suc(1)) auto
  also have "\<dots> \<le> march y'" using march_Suc [of "y' - 1"] by simp
  finally show ?case .
qed simp

lemma year_bounds:
  assumes "is_date (y, m, d)" "- 719528 \<le> days_from_civil y m d" "days_from_civil y m d < 2932897"
  shows "0 \<le> y" "y < 10000"
proof -
  have date: "1 \<le> m" "m \<le> 12" "1 \<le> d" "d \<le> month_days y m" using assms(1) by (simp_all add: is_date_def)
  have ends: "march (- 1) = - 366" "march 9999 = 3652059" "march 10000 = 3652425"
    by (simp_all add: march_def)
  have before: "days_from_civil y m d \<le> march y + 305 - 719468"
    using months [OF date(1,2)] date(4) march_mono [of "y - 1" y] march_Suc [of "y - 1"]
    by (elim disjE; hypsubst; cases "leap y"; simp add: days_march month_days_def)
  have after: "march (y - 1) + 306 - 719468 \<le> days_from_civil y m d"
    using months [OF date(1,2)] date(3) march_Suc [of "y - 1"]
    by (elim disjE; hypsubst; cases "leap y"; simp add: days_march)
  show "0 \<le> y"
  proof (rule ccontr)
    assume "\<not> 0 \<le> y"
    then have "march y \<le> march (- 1)" by (intro march_mono) simp
    with before assms(2) ends show False by simp
  qed
  show "y < 10000"
  proof (rule ccontr)
    assume "\<not> y < 10000"
    then have "march 9999 \<le> march (y - 1)" by (intro march_mono) simp
    with after assms(3) ends show False by simp
  qed
qed

lemma secs_millis_floor: "secs_millis ms = (ms div 1000, ms mod 1000)"
proof (cases "0 \<le> ms")
  case True
  then show ?thesis by (simp add: secs_millis_def signed_divide_int_def signed_modulo_int_def sgn_if)
next
  case False
  have "(ms - 999) sdiv 1000 = - ((999 - ms) div 1000)"
    using False by (simp add: signed_divide_int_def sgn_if)
  also have "\<dots> = ms div 1000"
    using div_mult_mod_eq [of "999 - ms" 1000] pos_mod_bound [of 1000 "999 - ms"] pos_mod_sign [of 1000 "999 - ms"]
    by (intro div_between [symmetric]; simp)
  finally show ?thesis using False by (simp add: secs_millis_def Let_def minus_div_mult_eq_mod)
qed

text \<open>Every field of the text of an instant of those years is in its range, so the text has 24 characters.\<close>

lemma instant_fields:
  assumes "- 62167219200000 \<le> ms" "ms < 253402300800000"
  obtains y m d where "civil_from_days (ms div 1000 div 86400) = (y, m, d)"
    "days_from_civil y m d = ms div 1000 div 86400" "0 \<le> y" "y < 10000" "1 \<le> m" "m \<le> 12" "1 \<le> d" "d \<le> 31"
proof -
  let ?z = "ms div 1000 div 86400"
  obtain y m d where c: "civil_from_days ?z = (y, m, d)" by (cases "civil_from_days ?z") auto
  with date_of_day [of ?z] have t: "is_date (y, m, d)" "days_from_civil y m d = ?z" by auto
  have "- 719528 \<le> ?z" "?z < 2932897" using assms by linarith+
  with year_bounds [OF t(1)] t(2) have "0 \<le> y" "y < 10000" by simp_all
  moreover have "1 \<le> m" "m \<le> 12" "1 \<le> d" "d \<le> 31"
    using t(1) by (auto simp: is_date_def month_days_def split: if_splits)
  ultimately show thesis using that c t(2) by blast
qed

lemma read_fields:
  "n < 100 \<Longrightarrow> parse_unsigned (digits2 n) = Some (int n)"
  "n < 1000 \<Longrightarrow> parse_signed (digits3 n) = Some (int n)"
  "n < 10000 \<Longrightarrow> parse_signed (digits4 n) = Some (int n)"
proof -
  have sign: "digit k \<noteq> CHR ''+''" "digit k \<noteq> CHR ''-''" if "k < 10" for k
    using digit_byte [OF that] by (auto simp: byte_def)
  show "n < 100 \<Longrightarrow> parse_unsigned (digits2 n) = Some (int n)"
    "n < 1000 \<Longrightarrow> parse_signed (digits3 n) = Some (int n)"
    "n < 10000 \<Longrightarrow> parse_signed (digits4 n) = Some (int n)"
    using parse_digits_of [of n] sign
    by (simp_all add: parse_unsigned_def parse_signed_def digits_defs less_mult_imp_div_less)
qed

definition stamp :: "nat \<Rightarrow> nat \<Rightarrow> nat \<Rightarrow> nat \<Rightarrow> nat \<Rightarrow> nat \<Rightarrow> nat \<Rightarrow> string" where
  "stamp y mo d h mi s f = digits4 y @ ''-'' @ digits2 mo @ ''-'' @ digits2 d @ ''T''
     @ digits2 h @ '':'' @ digits2 mi @ '':'' @ digits2 s @ ''.'' @ digits3 f @ ''Z''"

lemma stamp_slices:
  "slice 0 4 (stamp y mo d h mi s f) = digits4 y" "slice 5 7 (stamp y mo d h mi s f) = digits2 mo"
  "slice 8 10 (stamp y mo d h mi s f) = digits2 d" "slice 11 13 (stamp y mo d h mi s f) = digits2 h"
  "slice 14 16 (stamp y mo d h mi s f) = digits2 mi" "slice 17 19 (stamp y mo d h mi s f) = digits2 s"
  "length (stamp y mo d h mi s f) = 24" "drop 20 (stamp y mo d h mi s f) = digits3 f @ ''Z''"
  by (simp_all add: slice_def stamp_def digits_defs)

lemma stamp_marks:
  "stamp y mo d h mi s f ! 4 = CHR ''-''" "stamp y mo d h mi s f ! 7 = CHR ''-''"
  "stamp y mo d h mi s f ! 10 = CHR ''T''" "stamp y mo d h mi s f ! 13 = CHR '':''"
  "stamp y mo d h mi s f ! 16 = CHR '':''" "stamp y mo d h mi s f ! 19 = CHR ''.''"
  by (simp_all add: stamp_def digits_defs)

lemma stamp_millis: "f < 1000 \<Longrightarrow> read_millis (stamp y mo d h mi s f) = Some (int f)"
proof -
  assume "f < 1000"
  moreover from this have "takeWhile is_digit (digits3 f @ ''Z'') = digits3 f"
    by (simp add: digits3_def is_digit_digit less_mult_imp_div_less) (simp add: is_digit_def byte_def)
  moreover have "take 3 (digits3 f) = digits3 f" "digits3 f \<noteq> []" "3 - length (digits3 f) = 0"
    by (simp_all add: digits3_def)
  ultimately show ?thesis by (simp add: read_millis_def stamp_marks stamp_slices read_fields Let_def)
qed

lemma read_stamp:
  assumes "y < 10000" "1 \<le> mo" "mo \<le> 12" "1 \<le> d" "d \<le> 31" "h < 24" "mi < 60" "s < 60" "f < 1000"
  shows "unix_ms_from_rfc3339 (stamp y mo d h mi s f) =
     Some (unix_ms_from_civil (int y) (int mo) (int d) (int h) (int mi) (int s) + int f)"
  using assms
  by (simp add: unix_ms_from_rfc3339_def stamp_slices stamp_marks stamp_millis read_fields)

lemma read_stamp_int:
  assumes "0 \<le> y" "y < 10000" "1 \<le> mo" "mo \<le> 12" "1 \<le> d" "d \<le> 31"
    and "0 \<le> h" "h < 24" "0 \<le> mi" "mi < 60" "0 \<le> s" "s < 60" "0 \<le> f" "f < 1000"
  shows "unix_ms_from_rfc3339 (stamp (nat y) (nat mo) (nat d) (nat h) (nat mi) (nat s) (nat f)) =
     Some (unix_ms_from_civil y mo d h mi s + f)"
proof -
  have "nat y < 10000" "1 \<le> nat mo" "nat mo \<le> 12" "1 \<le> nat d" "nat d \<le> 31" "nat h < 24" "nat mi < 60"
    "nat s < 60" "nat f < 1000"
    using assms by (simp_all add: nat_less_iff le_nat_iff)
  from read_stamp [OF this] show ?thesis using assms by simp
qed

lemma time_of_day:
  assumes "0 \<le> t" "t < 86400"
  shows "0 \<le> t div 3600" "t div 3600 < 24" "0 \<le> t mod 3600 div 60" "t mod 3600 div 60 < 60"
    "0 \<le> t mod 60" "t mod 60 < (60::int)"
    "t div 3600 * 3600 + t mod 3600 div 60 * 60 + t mod 60 = t"
proof -
  show "0 \<le> t div 3600" "0 \<le> t mod 60" "t mod 60 < 60" "t div 3600 < 24" using assms by simp_all
  have r: "0 \<le> t mod 3600" "t mod 3600 < 3600" by simp_all
  then show "0 \<le> t mod 3600 div 60" "t mod 3600 div 60 < 60" by linarith+
  show "t div 3600 * 3600 + t mod 3600 div 60 * 60 + t mod 60 = t"
    using div_mult_mod_eq [of t 3600] div_mult_mod_eq [of "t mod 3600" 60] mod_mod_cancel [of 60 3600 t]
    by (simp only: add.assoc) simp
qed

lemma assemble:
  fixes n :: int
  shows "n * 86400 + t = e \<Longrightarrow> e * 1000 + f = ms \<Longrightarrow> a * 3600 + b * 60 + c = t \<Longrightarrow>
    (n * 86400 + a * 3600 + b * 60 + c) * 1000 + f = ms"
  by hypsubst (simp add: algebra_simps)

lemma written_stamp:
  assumes "civil_from_days (ms div 1000 div 86400) = (y, m, d)"
    and "0 \<le> y" "y < 10000" "1 \<le> m" "m \<le> 12" "1 \<le> d" "d \<le> 31"
  defines "t \<equiv> ms div 1000 mod 86400"
  shows "rfc3339_from_unix_ms ms = stamp (nat y) (nat m) (nat d) (nat (t div 3600)) (nat (t mod 3600 div 60))
     (nat (t mod 60)) (nat (ms mod 1000))"
proof -
  have t: "0 \<le> t" "t < 86400" by (simp_all add: t_def)
  have small: "0 \<le> m" "m < 100" "0 \<le> d" "d < 100" "t div 3600 < 100" "t mod 3600 div 60 < 100" "t mod 60 < 100"
    using assms(4-7) time_of_day(2,4,6) [OF t] by linarith+
  have f: "0 \<le> ms mod 1000" "ms mod 1000 < 1000" by simp_all
  show ?thesis
    unfolding rfc3339_from_unix_ms_def secs_millis_floor Let_def prod.case assms(1) t_def [symmetric] stamp_def
    by (simp only: padded_4 [OF assms(2,3)] padded_2 [OF small(1,2)] padded_2 [OF small(3,4)] padded_3 [OF f]
        padded_2 [OF time_of_day(1) [OF t] small(5)] padded_2 [OF time_of_day(3) [OF t] small(6)]
        padded_2 [OF time_of_day(5) [OF t] small(7)])
qed

text \<open>C13. A timestamp says when it was made, to the millisecond: whatever instant of the years 0 to 9999
  is written, its text is read back as that instant.\<close>
theorem instants_read_back:
  assumes "- 62167219200000 \<le> ms" "ms < 253402300800000"
  shows "unix_ms_from_rfc3339 (rfc3339_from_unix_ms ms) = Some ms"
proof -
  from instant_fields [OF assms] obtain y m d where
    c: "civil_from_days (ms div 1000 div 86400) = (y, m, d)" "days_from_civil y m d = ms div 1000 div 86400"
    and b: "0 \<le> y" "y < 10000" "1 \<le> m" "m \<le> 12" "1 \<le> d" "d \<le> 31" by metis
  obtain t where t_def: "t = ms div 1000 mod 86400" by simp
  then have t: "0 \<le> t" "t < 86400" by simp_all
  have "unix_ms_from_rfc3339 (rfc3339_from_unix_ms ms) =
      Some (unix_ms_from_civil y m d (t div 3600) (t mod 3600 div 60) (t mod 60) + ms mod 1000)"
    unfolding written_stamp [OF c(1) b] t_def [symmetric]
    by (rule read_stamp_int [OF b time_of_day(1-6) [OF t]]) simp_all
  moreover have "ms div 1000 div 86400 * 86400 + t = ms div 1000" "ms div 1000 * 1000 + ms mod 1000 = ms"
    unfolding t_def by simp_all
  ultimately show ?thesis
    unfolding unix_ms_from_civil_def Let_def c(2)
    by (simp only: assemble [OF _ _ time_of_day(7) [OF t]])
qed

lemma instants_read_back_witness:
  "unix_ms_from_rfc3339 (rfc3339_from_unix_ms (- 1)) = Some (- 1)"
  by (rule instants_read_back) simp_all

text \<open>The reader's comment says it accepts exactly the shape the writer emits. It also accepts an instant
  with an offset behind the fraction, which it ignores, and the 31st of a month that has no 31 days.\<close>
lemma offset_is_ignored:
  "unix_ms_from_rfc3339 ''2026-02-31 10:00:00.5+02:00'' = unix_ms_from_rfc3339 ''2026-03-03T10:00:00.500Z''"
  by code_simp

end
