(* ===== verification/Protocol_Bytes.thy ===== *)
theory Protocol_Bytes
  imports Broker_Prelude
begin

text \<open>
  Byte strings: integers in big-endian order (\<open>to_be_bytes\<close>, \<open>from_be_bytes\<close> of the standard library),
  the length prefix that the wire ids and the hashed material share, and the texts \<open>str::from_utf8\<close>
  accepts.
\<close>

section \<open>Numbers in bytes\<close>

definition be_digits :: "nat \<Rightarrow> nat \<Rightarrow> string" where
  "be_digits k n = map (\<lambda>p. char_of (n div 256 ^ p mod 256)) (rev [0..<k])"

definition be_number :: "nat \<Rightarrow> string \<Rightarrow> nat" where
  "be_number a s = foldl (\<lambda>a c. a * 256 + byte c) a s"

definition to_be :: "nat \<Rightarrow> 'a::len word \<Rightarrow> string" where
  "to_be k w = be_digits k (unat w)"

definition from_be :: "string \<Rightarrow> 'a::len word" where
  "from_be s = of_nat (be_number 0 s)"

lemma byte_less [simp]: "byte c < 256"
  using of_char_of [of "of_char c :: nat"] by (simp add: byte_def)

lemma byte_char_of [simp]: "byte (char_of n) = n mod 256"
  by (simp add: byte_def)

lemma char_of_byte [simp]: "char_of (byte c) = c"
  by (simp add: byte_def)

lemma be_digits_simps [simp]:
  "be_digits 0 n = []" "be_digits (Suc k) n = char_of (n div 256 ^ k mod 256) # be_digits k n"
  by (simp_all add: be_digits_def)

lemma be_number_simps [simp]: "be_number a [] = a" "be_number a (c # s) = be_number (a * 256 + byte c) s"
  by (simp_all add: be_number_def)

lemma length_be_digits [simp]: "length (be_digits k n) = k"
  by (simp add: be_digits_def)

lemma length_to_be [simp]: "length (to_be k w) = k"
  by (simp add: to_be_def)

lemma be_number_split: "be_number a s = a * 256 ^ length s + be_number 0 s"
proof (induction s arbitrary: a)
  case (Cons c s)
  from Cons.IH [of "a * 256 + byte c"] Cons.IH [of "byte c"] show ?case by (simp add: algebra_simps)
qed simp

lemma be_number_bound: "be_number 0 s < 256 ^ length s"
proof (induction s)
  case (Cons c s)
  then have "byte c * 256 ^ length s + be_number 0 s < (byte c + 1) * 256 ^ length s" by simp
  also have "\<dots> \<le> 256 * 256 ^ length s" using byte_less [of c] by (intro mult_right_mono) linarith+
  finally show ?case using be_number_split [of "byte c" s] by simp
qed simp

lemma be_number_digits: "be_number a (be_digits k n) = a * 256 ^ k + n mod 256 ^ k"
proof (induction k arbitrary: a)
  case (Suc k)
  have "n mod 256 ^ Suc k = n div 256 ^ k mod 256 * 256 ^ k + n mod 256 ^ k"
    using mod_mult2_eq [of n "256 ^ k" 256] by (simp add: mult.commute)
  with Suc show ?case by (simp add: algebra_simps)
qed simp

lemma be_digits_cong: "n mod 256 ^ k = m mod 256 ^ k \<Longrightarrow> be_digits k n = be_digits k m"
proof (induction k)
  case (Suc k)
  have "x mod 256 ^ Suc k = 256 ^ k * (x div 256 ^ k mod 256) + x mod 256 ^ k" for x :: nat
    using mod_mult2_eq [of x "256 ^ k" 256] by (simp add: mult.commute)
  then have split: "x mod 256 ^ k = x mod 256 ^ Suc k mod 256 ^ k"
    "x div 256 ^ k mod 256 = x mod 256 ^ Suc k div 256 ^ k" for x :: nat
    by simp_all
  from Suc split [of n] split [of m] show ?case by simp
qed simp

lemma be_digits_number: "be_digits (length s) (be_number 0 s) = s"
proof (induction s)
  case (Cons c s)
  have n: "be_number 0 (c # s) = byte c * 256 ^ length s + be_number 0 s"
    using be_number_split [of "byte c" s] by simp
  have "be_number 0 (c # s) div 256 ^ length s = byte c"
    unfolding n using be_number_bound [of s] by simp
  moreover have "be_digits (length s) (be_number 0 (c # s)) = be_digits (length s) (be_number 0 s)"
    by (rule be_digits_cong) (simp only: n mod_mult_self3)
  ultimately show ?case using Cons by simp
qed simp

lemma from_to_be: "256 ^ k = (2::nat) ^ LENGTH('a) \<Longrightarrow> from_be (to_be k w) = (w :: 'a::len word)"
proof -
  assume "256 ^ k = (2::nat) ^ LENGTH('a)"
  moreover have "unat w < 2 ^ LENGTH('a)" by (rule unsigned_less)
  ultimately show ?thesis by (simp add: from_be_def to_be_def be_number_digits)
qed

lemma to_from_be: "256 ^ length s = (2::nat) ^ LENGTH('a) \<Longrightarrow> to_be (length s) (from_be s :: 'a::len word) = s"
  using be_number_bound [of s] by (simp add: from_be_def to_be_def unat_of_nat be_digits_number)

lemma be_64 [simp]:
  "from_be (to_be 8 w) = (w :: 64 word)" "length s = 8 \<Longrightarrow> to_be 8 (from_be s :: 64 word) = s"
  using from_to_be [of 8 w] to_from_be [of s, where 'a = 64] by simp_all

lemma be_16 [simp]:
  "from_be (to_be 2 w) = (w :: 16 word)" "length s = 2 \<Longrightarrow> to_be 2 (from_be s :: 16 word) = s"
  using from_to_be [of 2 w] to_from_be [of s, where 'a = 16] by simp_all

section \<open>Texts\<close>

definition continuation :: "char \<Rightarrow> bool" where
  "continuation c \<longleftrightarrow> 0x80 \<le> byte c \<and> byte c \<le> 0xBF"

definition second_ok :: "char \<Rightarrow> char \<Rightarrow> bool" where
  "second_ok c d \<longleftrightarrow> continuation d \<and>
     (byte c = 0xE0 \<longrightarrow> 0xA0 \<le> byte d) \<and> (byte c = 0xED \<longrightarrow> byte d \<le> 0x9F) \<and>
     (byte c = 0xF0 \<longrightarrow> 0x90 \<le> byte d) \<and> (byte c = 0xF4 \<longrightarrow> byte d \<le> 0x8F)"

fun utf8_valid :: "string \<Rightarrow> bool" where
  "utf8_valid [] \<longleftrightarrow> True"
| "utf8_valid (c # s) \<longleftrightarrow>
     (if byte c < 0x80 then utf8_valid s
      else if 0xC2 \<le> byte c \<and> byte c \<le> 0xDF
        then (case s of d # t \<Rightarrow> continuation d \<and> utf8_valid t | _ \<Rightarrow> False)
      else if 0xE0 \<le> byte c \<and> byte c \<le> 0xEF
        then (case s of d # e # t \<Rightarrow> second_ok c d \<and> continuation e \<and> utf8_valid t | _ \<Rightarrow> False)
      else if 0xF0 \<le> byte c \<and> byte c \<le> 0xF4
        then (case s of d # e # f # t \<Rightarrow> second_ok c d \<and> continuation e \<and> continuation f \<and> utf8_valid t | _ \<Rightarrow> False)
      else False)"

lemma ascii_utf8_valid: "list_all (\<lambda>c. byte c < 128) s \<Longrightarrow> utf8_valid s"
  by (induction s) auto

end
