(* ===== verification/Protocol_Composite.thy ===== *)
theory Protocol_Composite
  imports Protocol_Bytes
begin

text \<open>
  The wire id of an approval (\<open>protocol/src/composite_id.rs\<close>): session, thread, request id and visit,
  length-prefixed, versioned and written in base64url. The base64 engine is a third-party crate and is
  the argument \<open>b64\<close>; \<open>base64_laws\<close> is what the code relies on of it.

  A \<open>Cursor\<close> is the bytes and a position. Positions stay far below \<open>usize::MAX\<close>, so the checked
  additions of the source never fail.
\<close>

definition MAX_SESSION_UID_LEN :: nat where "MAX_SESSION_UID_LEN = 64"
definition MAX_COMPOSITE_THREAD_LEN :: nat where "MAX_COMPOSITE_THREAD_LEN = 128"
definition MAX_TEXT_REQUEST_ID_LEN :: nat where "MAX_TEXT_REQUEST_ID_LEN = 128"

definition COMPOSITE_VERSION :: char where "COMPOSITE_VERSION = char_of (1 :: nat)"
definition KIND_NUMBER :: char where "KIND_NUMBER = char_of (0 :: nat)"
definition KIND_TEXT :: char where "KIND_TEXT = char_of (1 :: nat)"

definition MAX_MATERIAL_LEN :: nat where
  "MAX_MATERIAL_LEN = 1 + 1 + 2 + MAX_SESSION_UID_LEN + 2 + MAX_COMPOSITE_THREAD_LEN + 2 + MAX_TEXT_REQUEST_ID_LEN + 8"

datatype server_request_id = IdNumber "64 word" | IdText string

record composite_id =
  ci_session_uid :: string
  ci_thread_id :: string
  ci_server_request_id :: server_request_id
  ci_generation :: "64 word"

datatype composite_error = FieldTooLong string nat nat | BadBase64 | MalformedId

definition show_composite_error :: "composite_error \<Rightarrow> string" where
  "show_composite_error e = (case e of
     FieldTooLong field len limit \<Rightarrow>
       ''composite id field '' @ field @ '' is '' @ dec len @ '' bytes, over the '' @ dec limit @ '' bound''
   | BadBase64 \<Rightarrow> ''composite id is not valid base64url''
   | MalformedId \<Rightarrow> ''composite id is malformed'')"

record b64 =
  b64_encode :: "string \<Rightarrow> string"
  b64_decode :: "string \<Rightarrow> string option"

definition and_then :: "'e + 'a \<Rightarrow> ('a \<Rightarrow> 'e + 'b) \<Rightarrow> 'e + 'b" where
  "and_then r f = (case r of Inl e \<Rightarrow> Inl e | Inr x \<Rightarrow> f x)"

section \<open>Writing\<close>

definition check_len :: "string \<Rightarrow> nat \<Rightarrow> nat \<Rightarrow> composite_error + unit" where
  "check_len field len limit = (if limit < len then Inl (FieldTooLong field len limit) else Inr ())"

definition put_bytes :: "string \<Rightarrow> string" where
  "put_bytes bytes = to_be 2 (of_nat (length bytes) :: 16 word) @ bytes"

definition composite_encode :: "b64 \<Rightarrow> composite_id \<Rightarrow> composite_error + string" where
  "composite_encode B i =
     and_then (check_len ''session_uid'' (length (ci_session_uid i)) MAX_SESSION_UID_LEN) (\<lambda>_.
     and_then (check_len ''thread_id'' (length (ci_thread_id i)) MAX_COMPOSITE_THREAD_LEN) (\<lambda>_.
     let material = COMPOSITE_VERSION # put_bytes (ci_session_uid i) @ put_bytes (ci_thread_id i) in
     and_then
       (case ci_server_request_id i of
          IdNumber n \<Rightarrow> Inr (material @ KIND_NUMBER # to_be 8 n)
        | IdText s \<Rightarrow>
            and_then (check_len ''server_request_id'' (length s) MAX_TEXT_REQUEST_ID_LEN) (\<lambda>_.
            Inr (material @ KIND_TEXT # put_bytes s)))
       (\<lambda>material. Inr (b64_encode B (material @ to_be 8 (ci_generation i))))))"

section \<open>Reading\<close>

record id_cursor =
  cur_bytes :: string
  cur_pos :: nat

definition get_slice :: "string \<Rightarrow> nat \<Rightarrow> nat \<Rightarrow> string option" where
  "get_slice bytes start stop =
     (if start \<le> stop \<and> stop \<le> length bytes then Some (take (stop - start) (drop start bytes)) else None)"

definition get_byte :: "string \<Rightarrow> nat \<Rightarrow> char option" where
  "get_byte bytes pos = (if pos < length bytes then Some (bytes ! pos) else None)"

definition cur_u8 :: "id_cursor \<Rightarrow> composite_error + char \<times> id_cursor" where
  "cur_u8 c = (case get_byte (cur_bytes c) (cur_pos c) of
     None \<Rightarrow> Inl MalformedId
   | Some b \<Rightarrow> Inr (b, c\<lparr>cur_pos := cur_pos c + 1\<rparr>))"

definition cur_array8 :: "id_cursor \<Rightarrow> composite_error + string \<times> id_cursor" where
  "cur_array8 c = (case get_slice (cur_bytes c) (cur_pos c) (cur_pos c + 8) of
     None \<Rightarrow> Inl MalformedId
   | Some s \<Rightarrow> Inr (s, c\<lparr>cur_pos := cur_pos c + 8\<rparr>))"

definition cur_string :: "nat \<Rightarrow> id_cursor \<Rightarrow> composite_error + string \<times> id_cursor" where
  "cur_string limit c = (case get_byte (cur_bytes c) (cur_pos c) of
     None \<Rightarrow> Inl MalformedId
   | Some hi \<Rightarrow> (case get_byte (cur_bytes c) (cur_pos c + 1) of
       None \<Rightarrow> Inl MalformedId
     | Some lo \<Rightarrow>
         let len = unat (from_be [hi, lo] :: 16 word) in
         if limit < len then Inl MalformedId
         else let start = cur_pos c + 2; stop = start + len in
           (case get_slice (cur_bytes c) start stop of
              None \<Rightarrow> Inl MalformedId
            | Some s \<Rightarrow>
                if utf8_valid s then Inr (s, c\<lparr>cur_pos := stop\<rparr>) else Inl MalformedId)))"

definition cur_at_end :: "id_cursor \<Rightarrow> bool" where
  "cur_at_end c \<longleftrightarrow> cur_pos c = length (cur_bytes c)"

definition read_request_id :: "id_cursor \<Rightarrow> composite_error + server_request_id \<times> id_cursor" where
  "read_request_id c = and_then (cur_u8 c) (\<lambda>(kind, c).
     if kind = KIND_NUMBER then and_then (cur_array8 c) (\<lambda>(s, c). Inr (IdNumber (from_be s), c))
     else if kind = KIND_TEXT then and_then (cur_string MAX_TEXT_REQUEST_ID_LEN c) (\<lambda>(s, c). Inr (IdText s, c))
     else Inl MalformedId)"

definition read_material :: "string \<Rightarrow> composite_error + composite_id" where
  "read_material material =
     and_then (cur_u8 \<lparr>cur_bytes = material, cur_pos = 0\<rparr>) (\<lambda>(version, c).
     if version \<noteq> COMPOSITE_VERSION then Inl MalformedId
     else and_then (cur_string MAX_SESSION_UID_LEN c) (\<lambda>(uid, c).
       and_then (cur_string MAX_COMPOSITE_THREAD_LEN c) (\<lambda>(thread, c).
       and_then (read_request_id c) (\<lambda>(rid, c).
       and_then (cur_array8 c) (\<lambda>(gen, c).
         if \<not> cur_at_end c then Inl MalformedId
         else Inr \<lparr>ci_session_uid = uid, ci_thread_id = thread, ci_server_request_id = rid,
           ci_generation = from_be gen\<rparr>)))))"

definition composite_decode :: "b64 \<Rightarrow> string \<Rightarrow> composite_error + composite_id" where
  "composite_decode B wire =
     (let max_wire = length (b64_encode B (replicate MAX_MATERIAL_LEN (char_of (0 :: nat)))) in
      if max_wire < length wire then Inl MalformedId
      else (case b64_decode B wire of
          None \<Rightarrow> Inl BadBase64
        | Some material \<Rightarrow> read_material material))"

section \<open>What is relied on\<close>

text \<open>
  The URL-safe engine without padding: it reads what it writes, it refuses a text that is not the
  one it would write (padding, and trailing bits that are not zero), and more bytes never take less text.
\<close>

definition base64_laws :: "b64 \<Rightarrow> bool" where
  "base64_laws B \<longleftrightarrow>
     (\<forall>x. b64_decode B (b64_encode B x) = Some x) \<and>
     (\<forall>w x. b64_decode B w = Some x \<longrightarrow> b64_encode B x = w) \<and>
     (\<forall>x y. length x \<le> length y \<longrightarrow> length (b64_encode B x) \<le> length (b64_encode B y))"

text \<open>The texts of an id are \<open>String\<close>s, so they are UTF-8.\<close>

definition composite_valid :: "composite_id \<Rightarrow> bool" where
  "composite_valid i \<longleftrightarrow> utf8_valid (ci_session_uid i) \<and> utf8_valid (ci_thread_id i) \<and>
     (case ci_server_request_id i of IdNumber n \<Rightarrow> True | IdText s \<Rightarrow> utf8_valid s)"

end
