(* ===== verification/Protocol_Composite_Props.thy ===== *)
theory Protocol_Composite_Props
  imports Protocol_Composite
begin

text \<open>
  Reading undoes writing, and nothing else is read: each read of the cursor is characterised by what it
  takes off the front of the bytes that remain, and decoding is the exact inverse of encoding.
\<close>

section \<open>The cursor\<close>

definition cur_rest :: "id_cursor \<Rightarrow> string" where
  "cur_rest c = drop (cur_pos c) (cur_bytes c)"

definition cur_ok :: "id_cursor \<Rightarrow> bool" where
  "cur_ok c \<longleftrightarrow> cur_pos c \<le> length (cur_bytes c)"

text \<open>\<open>c'\<close> is \<open>c\<close> with the bytes \<open>s\<close> read.\<close>

definition took :: "string \<Rightarrow> id_cursor \<Rightarrow> id_cursor \<Rightarrow> bool" where
  "took s c c' \<longleftrightarrow> c' = c\<lparr>cur_pos := cur_pos c + length s\<rparr> \<and> cur_rest c = s @ cur_rest c' \<and> cur_ok c'"

lemma split_front: "r = s @ drop (length s) r \<longleftrightarrow> length s \<le> length r \<and> take (length s) r = s"
proof
  assume r: "r = s @ drop (length s) r"
  then have "take (length s) r = s" by (metis append_eq_conv_conj)
  moreover from r have "length s \<le> length r" by (metis length_append le_add1)
  ultimately show "length s \<le> length r \<and> take (length s) r = s" by simp
qed (metis append_take_drop_id)

lemma took_iff:
  assumes "cur_ok c"
  shows "took s c c' \<longleftrightarrow>
    c' = c\<lparr>cur_pos := cur_pos c + length s\<rparr> \<and> length s \<le> length (cur_rest c) \<and> take (length s) (cur_rest c) = s"
proof -
  have "cur_rest (c\<lparr>cur_pos := cur_pos c + length s\<rparr>) = drop (length s) (cur_rest c)"
    by (simp add: cur_rest_def add.commute)
  moreover have "cur_ok (c\<lparr>cur_pos := cur_pos c + length s\<rparr>) \<longleftrightarrow> length s \<le> length (cur_rest c)"
    using assms by (auto simp: cur_ok_def cur_rest_def)
  ultimately show ?thesis using split_front [of "cur_rest c" s] by (auto simp: took_def)
qed

lemma cur_u8_iff: "cur_ok c \<Longrightarrow> cur_u8 c = Inr (b, c') \<longleftrightarrow> took [b] c c'"
  by (auto simp: took_iff cur_u8_def get_byte_def cur_rest_def cur_ok_def take_Suc_conv_app_nth hd_drop_conv_nth)

lemma cur_array8_iff: "cur_ok c \<Longrightarrow> cur_array8 c = Inr (s, c') \<longleftrightarrow> length s = 8 \<and> took s c c'"
  by (auto simp: took_iff cur_array8_def get_slice_def cur_rest_def cur_ok_def)

lemma get_byte_rest: "get_byte (cur_bytes c) (cur_pos c + k) = (if k < length (cur_rest c) then Some (cur_rest c ! k) else None)"
  by (auto simp: get_byte_def cur_rest_def)

lemma get_slice_rest: "cur_ok c \<Longrightarrow> get_slice (cur_bytes c) (cur_pos c + k) (cur_pos c + k + n) =
    (if k + n \<le> length (cur_rest c) then Some (take n (drop k (cur_rest c))) else None)"
  by (auto simp: get_slice_def cur_rest_def cur_ok_def add.commute)

lemma length_put_bytes [simp]: "length (put_bytes s) = 2 + length s"
  by (simp add: put_bytes_def)

lemma put_bytes_pair:
  "put_bytes s = hi # lo # t \<longleftrightarrow> to_be 2 (of_nat (length s) :: 16 word) = [hi, lo] \<and> s = t"
proof -
  have "length (to_be 2 (of_nat (length s) :: 16 word)) = 2" by simp
  then obtain x y where "to_be 2 (of_nat (length s) :: 16 word) = [x, y]"
    by (metis (no_types) One_nat_def Suc_1 length_0_conv length_Suc_conv)
  then show ?thesis by (simp add: put_bytes_def)
qed

lemma prefix_16: "n < 65536 \<Longrightarrow> to_be 2 (of_nat n :: 16 word) = [hi, lo] \<longleftrightarrow> unat (from_be [hi, lo] :: 16 word) = n"
proof
  assume "n < 65536" "to_be 2 (of_nat n :: 16 word) = [hi, lo]"
  then show "unat (from_be [hi, lo] :: 16 word) = n"
    using be_16(1) [of "of_nat n"] by (simp add: unat_of_nat)
next
  assume "unat (from_be [hi, lo] :: 16 word) = n"
  then have "of_nat n = (from_be [hi, lo] :: 16 word)" by auto
  then show "to_be 2 (of_nat n :: 16 word) = [hi, lo]" using be_16(2) [of "[hi, lo]"] by simp
qed

lemma cur_string_iff:
  assumes "cur_ok c" "limit < 65536"
  shows "cur_string limit c = Inr (s, c') \<longleftrightarrow> length s \<le> limit \<and> utf8_valid s \<and> took (put_bytes s) c c'"
proof (cases "cur_rest c")
  case Nil
  then show ?thesis using assms(1) get_byte_rest [of c 0] by (simp add: cur_string_def took_iff)
next
  case (Cons hi t)
  show ?thesis
  proof (cases t)
    case Nil
    then show ?thesis using Cons assms(1) get_byte_rest [of c 0] get_byte_rest [of c 1]
      by (simp add: cur_string_def took_iff)
  next
    case (Cons lo r)
    with \<open>cur_rest c = hi # t\<close> have rest: "cur_rest c = hi # lo # r" by simp
    define n where "n = unat (from_be [hi, lo] :: 16 word)"
    have reads: "cur_string limit c = (if limit < n then Inl MalformedId
        else if n \<le> length r then
          if utf8_valid (take n r) then Inr (take n r, c\<lparr>cur_pos := cur_pos c + 2 + n\<rparr>) else Inl MalformedId
        else Inl MalformedId)"
      using get_byte_rest [of c 0] get_byte_rest [of c 1] get_slice_rest [OF assms(1), of 2 n]
      by (simp add: cur_string_def rest n_def Let_def)
    have front: "take (length (put_bytes s)) (cur_rest c) = put_bytes s \<longleftrightarrow> length s = n \<and> take n r = s"
      if "length s \<le> limit" "length s \<le> length r"
      using that assms(2) put_bytes_pair [of s hi lo "take (length s) r"] prefix_16 [of "length s" hi lo]
      by (auto simp: rest n_def)
    show ?thesis
      unfolding took_iff [OF assms(1)] reads using front by (auto simp: rest add.assoc)
  qed
qed

lemma and_then_Inr: "and_then r f = Inr y \<longleftrightarrow> (\<exists>x. r = Inr x \<and> f x = Inr y)"
  by (simp add: and_then_def split: sum.splits)

lemma took_ok: "took s c c' \<Longrightarrow> cur_ok c'"
  unfolding took_def by blast

lemma took_append: "took (s @ t) c c' \<longleftrightarrow> (\<exists>c1. took s c c1 \<and> took t c1 c')"
proof
  assume both: "took (s @ t) c c'"
  let ?c1 = "c\<lparr>cur_pos := cur_pos c + length s\<rparr>"
  from both have rest: "cur_rest c = s @ t @ cur_rest c'" and c': "c' = ?c1\<lparr>cur_pos := cur_pos ?c1 + length t\<rparr>"
    by (simp_all add: took_def)
  have "cur_rest ?c1 = drop (length s) (cur_rest c)" by (simp add: cur_rest_def add.commute)
  then have "cur_rest ?c1 = t @ cur_rest c'" unfolding rest by simp
  moreover have "cur_pos c' = cur_pos c + length s + length t" "cur_bytes c' = cur_bytes c"
    by (subst c', simp)+
  then have ok: "cur_ok ?c1" using both by (simp add: took_def cur_ok_def)
  moreover have "cur_ok c'" using both by (rule took_ok)
  ultimately have "took s c ?c1" "took t ?c1 c'" using ok rest c' by (simp_all add: took_def)
  then show "\<exists>c1. took s c c1 \<and> took t c1 c'" by blast
qed (auto simp: took_def add.assoc)

lemma took_Cons: "took (b # t) c c' \<longleftrightarrow> (\<exists>c1. took [b] c c1 \<and> took t c1 c')"
  using took_append [of "[b]" t] by simp

section \<open>An id and its bytes\<close>

definition request_id_bytes :: "server_request_id \<Rightarrow> string" where
  "request_id_bytes r = (case r of IdNumber n \<Rightarrow> KIND_NUMBER # to_be 8 n | IdText s \<Rightarrow> KIND_TEXT # put_bytes s)"

definition id_bytes :: "composite_id \<Rightarrow> string" where
  "id_bytes i = COMPOSITE_VERSION # put_bytes (ci_session_uid i) @ put_bytes (ci_thread_id i)
     @ request_id_bytes (ci_server_request_id i) @ to_be 8 (ci_generation i)"

definition request_id_short :: "server_request_id \<Rightarrow> bool" where
  "request_id_short r = (case r of IdNumber n \<Rightarrow> True | IdText s \<Rightarrow> length s \<le> MAX_TEXT_REQUEST_ID_LEN)"

definition id_short :: "composite_id \<Rightarrow> bool" where
  "id_short i \<longleftrightarrow> length (ci_session_uid i) \<le> MAX_SESSION_UID_LEN \<and>
     length (ci_thread_id i) \<le> MAX_COMPOSITE_THREAD_LEN \<and> request_id_short (ci_server_request_id i)"

lemmas caps = MAX_SESSION_UID_LEN_def MAX_COMPOSITE_THREAD_LEN_def MAX_TEXT_REQUEST_ID_LEN_def

lemma encode_iff: "composite_encode B i = Inr w \<longleftrightarrow> id_short i \<and> w = b64_encode B (id_bytes i)"
  by (auto simp: composite_encode_def and_then_def check_len_def id_short_def request_id_short_def id_bytes_def
      request_id_bytes_def Let_def split: server_request_id.splits)

lemma length_id_bytes: "id_short i \<Longrightarrow> length (id_bytes i) \<le> MAX_MATERIAL_LEN"
  by (auto simp: id_short_def request_id_short_def id_bytes_def request_id_bytes_def MAX_MATERIAL_LEN_def
      MAX_TEXT_REQUEST_ID_LEN_def split: server_request_id.splits)

lemma kinds [simp]: "KIND_NUMBER \<noteq> KIND_TEXT" "KIND_TEXT \<noteq> KIND_NUMBER"
  by (simp_all add: KIND_NUMBER_def KIND_TEXT_def)

lemma cur_u8_then:
  assumes "cur_ok c"
  shows "and_then (cur_u8 c) f = Inr y \<longleftrightarrow> (\<exists>b c1. took [b] c c1 \<and> f (b, c1) = Inr y)"
  using cur_u8_iff [OF assms] by (auto simp: and_then_Inr)

lemma cur_array8_then:
  assumes "cur_ok c"
  shows "and_then (cur_array8 c) f = Inr y \<longleftrightarrow> (\<exists>s c1. length s = 8 \<and> took s c c1 \<and> f (s, c1) = Inr y)"
  using cur_array8_iff [OF assms] by (auto simp: and_then_Inr)

lemma cur_string_then:
  assumes "cur_ok c" "limit < 65536"
  shows "and_then (cur_string limit c) f = Inr y \<longleftrightarrow>
     (\<exists>s c1. length s \<le> limit \<and> utf8_valid s \<and> took (put_bytes s) c c1 \<and> f (s, c1) = Inr y)"
  using cur_string_iff [OF assms] by (auto simp: and_then_Inr)

lemma caps_16: "MAX_SESSION_UID_LEN < 65536" "MAX_COMPOSITE_THREAD_LEN < 65536" "MAX_TEXT_REQUEST_ID_LEN < 65536"
  by (simp_all add: caps)

lemma read_request_id_cases:
  assumes "cur_ok c"
  shows "read_request_id c = Inr (r, c') \<longleftrightarrow>
     (\<exists>c1 s. took [KIND_NUMBER] c c1 \<and> length s = 8 \<and> took s c1 c' \<and> r = IdNumber (from_be s)) \<or>
     (\<exists>c1 s. took [KIND_TEXT] c c1 \<and> length s \<le> MAX_TEXT_REQUEST_ID_LEN \<and> utf8_valid s \<and>
        took (put_bytes s) c1 c' \<and> r = IdText s)"
proof -
  have after: "(if b = KIND_NUMBER then and_then (cur_array8 c1) (\<lambda>(s, c). Inr (IdNumber (from_be s), c))
      else if b = KIND_TEXT then and_then (cur_string MAX_TEXT_REQUEST_ID_LEN c1) (\<lambda>(s, c). Inr (IdText s, c))
      else Inl MalformedId) = Inr (r, c') \<longleftrightarrow>
     b = KIND_NUMBER \<and> (\<exists>s. length s = 8 \<and> took s c1 c' \<and> r = IdNumber (from_be s)) \<or>
     b = KIND_TEXT \<and> (\<exists>s. length s \<le> MAX_TEXT_REQUEST_ID_LEN \<and> utf8_valid s \<and> took (put_bytes s) c1 c' \<and> r = IdText s)"
    if "took [b] c c1" for b c1
    by (auto simp: cur_array8_then [OF took_ok [OF that]] cur_string_then [OF took_ok [OF that] caps_16(3)])
  show ?thesis
    unfolding read_request_id_def cur_u8_then [OF assms] prod.case using after by blast
qed

lemma read_request_id_iff:
  assumes "cur_ok c"
  shows "read_request_id c = Inr (r, c') \<longleftrightarrow>
     request_id_short r \<and> (case r of IdNumber n \<Rightarrow> True | IdText s \<Rightarrow> utf8_valid s) \<and> took (request_id_bytes r) c c'"
proof (cases r)
  case (IdNumber n)
  have "(\<exists>s. length s = 8 \<and> took s c1 c' \<and> n = from_be s) \<longleftrightarrow> took (to_be 8 n) c1 c'" for c1
    by (metis be_64 length_to_be)
  then show ?thesis
    unfolding read_request_id_cases [OF assms] IdNumber request_id_bytes_def server_request_id.case
      took_Cons [of _ "to_be 8 n"] by (auto simp: request_id_short_def)
next
  case (IdText s)
  then show ?thesis
    unfolding read_request_id_cases [OF assms] IdText request_id_bytes_def server_request_id.case
      took_Cons [of _ "put_bytes s"] by (auto simp: request_id_short_def)
qed

lemma request_id_then:
  assumes "cur_ok c"
  shows "and_then (read_request_id c) f = Inr y \<longleftrightarrow>
     (\<exists>r c1. request_id_short r \<and> (case r of IdNumber n \<Rightarrow> True | IdText s \<Rightarrow> utf8_valid s) \<and>
        took (request_id_bytes r) c c1 \<and> f (r, c1) = Inr y)"
  using read_request_id_iff [OF assms] by (auto simp: and_then_Inr)

lemma generation_bytes: "(\<exists>s. length s = 8 \<and> took s c c' \<and> g = from_be s) \<longleftrightarrow> took (to_be 8 g) c c'" for g :: "64 word"
  by (metis be_64 length_to_be)

lemma took_id_bytes: "took (id_bytes i) c c' \<longleftrightarrow> (\<exists>c1. took [COMPOSITE_VERSION] c c1 \<and>
    (\<exists>c2. took (put_bytes (ci_session_uid i)) c1 c2 \<and> (\<exists>c3. took (put_bytes (ci_thread_id i)) c2 c3 \<and>
    (\<exists>c4. took (request_id_bytes (ci_server_request_id i)) c3 c4 \<and>
    (\<exists>s. length s = 8 \<and> took s c4 c' \<and> ci_generation i = from_be s)))))"
  unfolding id_bytes_def took_Cons [of COMPOSITE_VERSION "_ @ _"] took_append generation_bytes ..

lemma read_material_iff: "read_material m = Inr i \<longleftrightarrow> id_short i \<and> composite_valid i \<and> m = id_bytes i"
proof -
  let ?c0 = "\<lparr>cur_bytes = m, cur_pos = 0\<rparr>"
  have ok: "cur_ok ?c0" by (simp add: cur_ok_def)
  have whole: "(\<exists>c'. took s ?c0 c' \<and> cur_at_end c') \<longleftrightarrow> m = s" for s
  proof
    assume "m = s"
    then have "took s ?c0 (?c0\<lparr>cur_pos := length s\<rparr>)" by (simp add: took_def cur_rest_def cur_ok_def)
    moreover have "cur_at_end (?c0\<lparr>cur_pos := length s\<rparr>)" using \<open>m = s\<close> by (simp add: cur_at_end_def)
    ultimately show "\<exists>c'. took s ?c0 c' \<and> cur_at_end c'" by blast
  next
    assume "\<exists>c'. took s ?c0 c' \<and> cur_at_end c'"
    then obtain c' where c': "took s ?c0 c'" "cur_at_end c'" by blast
    then have "cur_rest c' = []" "cur_rest ?c0 = s @ cur_rest c'"
      by (simp add: cur_rest_def cur_at_end_def) (use c'(1) in \<open>unfold took_def, blast\<close>)
    then show "m = s" by (simp add: cur_rest_def)
  qed
  have "read_material m = Inr i \<longleftrightarrow> id_short i \<and> composite_valid i \<and> (\<exists>c'. took (id_bytes i) ?c0 c' \<and> cur_at_end c')"
    unfolding read_material_def cur_u8_then [OF ok] prod.case
    apply (simp add: cur_string_then caps_16 request_id_then cur_array8_then took_ok cong: conj_cong)
    apply (cases i)
    apply (simp add: id_short_def composite_valid_def took_id_bytes)
    by (intro iffI; elim exE conjE; hypsubst?; blast)
  then show ?thesis unfolding whole .
qed

text \<open>C14. An approval's wire id names one approval and nothing else. Reading a wire text gives an id exactly
  when writing that id gives that text: so whatever is written is read back, no two approvals share a
  text, no approval has a second text, and a number never reads as the text that prints the same.\<close>
theorem wire_ids_are_exact:
  assumes "base64_laws B"
  shows "composite_decode B w = Inr i \<longleftrightarrow> composite_valid i \<and> composite_encode B i = Inr w"
proof
  assume "composite_decode B w = Inr i"
  then obtain m where "b64_decode B w = Some m" "read_material m = Inr i"
    by (auto simp: composite_decode_def Let_def split: if_splits option.splits)
  with assms show "composite_valid i \<and> composite_encode B i = Inr w"
    by (auto simp: read_material_iff encode_iff base64_laws_def)
next
  assume w: "composite_valid i \<and> composite_encode B i = Inr w"
  then have "id_short i" and wire: "w = b64_encode B (id_bytes i)" by (simp_all add: encode_iff)
  with length_id_bytes [of i] assms
  have "length w \<le> length (b64_encode B (replicate MAX_MATERIAL_LEN (char_of (0 :: nat))))"
    by (simp add: base64_laws_def)
  moreover have "b64_decode B w = Some (id_bytes i)" using assms wire by (simp add: base64_laws_def)
  moreover have "read_material (id_bytes i) = Inr i" using w by (simp add: read_material_iff encode_iff)
  ultimately show "composite_decode B w = Inr i" by (simp add: composite_decode_def)
qed

definition plain_b64 :: b64 where
  "plain_b64 = \<lparr>b64_encode = (\<lambda>s. s), b64_decode = Some\<rparr>"

lemma wire_ids_are_exact_witness:
  "composite_decode plain_b64 (id_bytes \<lparr>ci_session_uid = ''u'', ci_thread_id = ''t'', ci_server_request_id = IdText ''5'', ci_generation = 7\<rparr>) =
    Inr \<lparr>ci_session_uid = ''u'', ci_thread_id = ''t'', ci_server_request_id = IdText ''5'', ci_generation = 7\<rparr>"
proof -
  have "base64_laws plain_b64" by (simp add: base64_laws_def plain_b64_def)
  note exact = wire_ids_are_exact [OF this]
  show ?thesis
    unfolding exact by (simp add: encode_iff plain_b64_def composite_valid_def byte_def id_short_def request_id_short_def caps)
qed

end
