(* ===== verification/Protocol_Hash.thy ===== *)
theory Protocol_Hash
  imports Protocol_Bytes Broker_Json
begin

text \<open>
  Identities by hash (\<open>protocol/src/hash.rs\<close>): the material each kind of mutation is hashed over, the hex
  text of a digest, and the hash of a stream read in chunks together with a copy of its head.

  SHA-256 is a third-party crate: its state and the three calls the source makes are the argument \<open>sha\<close>.
  A reader is the list of what its \<open>read\<close> calls return in turn; the loop over a list that runs out has
  not returned yet, which is \<open>None\<close>. What asks the file system (\<open>refuse_unless_path_still_names\<close>,
  \<open>sha256_file\<close>) is left out.
\<close>

record 'h sha =
  sha_new :: 'h
  sha_update :: "'h \<Rightarrow> string \<Rightarrow> 'h"
  sha_finalize :: "'h \<Rightarrow> string"

definition sha256_bytes :: "'h sha \<Rightarrow> string \<Rightarrow> string" where
  "sha256_bytes S bytes = sha_finalize S (sha_update S (sha_new S) bytes)"

definition hex_of :: "string \<Rightarrow> string" where
  "hex_of digest = concat (map (\<lambda>b. [hex_digit (byte b div 16), hex_digit (byte b mod 16)]) digest)"

definition sha256_hex :: "'h sha \<Rightarrow> string \<Rightarrow> string" where
  "sha256_hex S bytes = hex_of (sha256_bytes S bytes)"

section \<open>Streams\<close>

datatype read_result = ReadBytes string | ReadInterrupted | ReadFailed string

definition fill_head :: "string \<Rightarrow> nat \<Rightarrow> string \<Rightarrow> string \<times> nat" where
  "fill_head head filled bytes =
     (if filled < length head
      then let n = min (length bytes) (length head - filled) in
        (take filled head @ take n bytes @ drop (filled + n) head, filled + n)
      else (head, filled))"

fun stream_loop :: "'h sha \<Rightarrow> 'h \<Rightarrow> string \<Rightarrow> nat \<Rightarrow> read_result list \<Rightarrow> ((string + string \<times> nat) \<times> string) option" where
  "stream_loop S hasher head filled [] = None"
| "stream_loop S hasher head filled (ReadBytes bytes # reads) =
     (if bytes = [] then Some (Inr (hex_of (sha_finalize S hasher), filled), head)
      else let (head, filled) = fill_head head filled bytes in
        stream_loop S (sha_update S hasher bytes) head filled reads)"
| "stream_loop S hasher head filled (ReadInterrupted # reads) = stream_loop S hasher head filled reads"
| "stream_loop S hasher head filled (ReadFailed e # reads) = Some (Inl e, head)"

definition sha256_stream_head :: "'h sha \<Rightarrow> read_result list \<Rightarrow> string \<Rightarrow> ((string + string \<times> nat) \<times> string) option" where
  "sha256_stream_head S reads head = stream_loop S (sha_new S) head 0 reads"

definition sha256_stream :: "'h sha \<Rightarrow> read_result list \<Rightarrow> (string + string) option" where
  "sha256_stream S reads = map_option (\<lambda>(r, head). case r of Inl e \<Rightarrow> Inl e | Inr (digest, n) \<Rightarrow> Inr digest)
     (sha256_stream_head S reads [])"

section \<open>Mutations\<close>

definition field_text :: "string \<Rightarrow> string" where
  "field_text field = CHR 0x0A # dec (length field) @ '':'' @ field"

definition tagged_material :: "string \<Rightarrow> string list \<Rightarrow> string" where
  "tagged_material tag parts = tag @ concat (map field_text parts)"

definition send_text_material :: "string \<Rightarrow> string \<Rightarrow> bool \<Rightarrow> string" where
  "send_text_material session_ref words submit =
     tagged_material ''codeconnect.send_text.v1'' [session_ref, if submit then ''submit'' else ''stage'', words]"

definition send_text_hash :: "'h sha \<Rightarrow> string \<Rightarrow> string \<Rightarrow> bool \<Rightarrow> string" where
  "send_text_hash S session_ref words submit = sha256_hex S (send_text_material session_ref words submit)"

definition answer_material :: "string \<Rightarrow> string \<Rightarrow> string \<Rightarrow> string \<Rightarrow> string \<Rightarrow> string" where
  "answer_material request_id payload_hash option_id thread_id wire =
     tagged_material ''codeconnect.answer.v1'' [request_id, payload_hash, option_id, thread_id, wire]"

definition answer_hash :: "ext \<Rightarrow> 'h sha \<Rightarrow> string \<Rightarrow> string \<Rightarrow> string \<Rightarrow> string \<Rightarrow> json \<Rightarrow> string" where
  "answer_hash L S request_id payload_hash option_id thread_id decision =
     sha256_hex S (answer_material request_id payload_hash option_id thread_id (json_write L decision))"

definition interrupt_material :: "string \<Rightarrow> string \<Rightarrow> string" where
  "interrupt_material session_ref turn_id = tagged_material ''codeconnect.interrupt.v1'' [session_ref, turn_id]"

definition interrupt_hash :: "'h sha \<Rightarrow> string \<Rightarrow> string \<Rightarrow> string" where
  "interrupt_hash S session_ref turn_id = sha256_hex S (interrupt_material session_ref turn_id)"

definition compose_material :: "string \<Rightarrow> string \<Rightarrow> string" where
  "compose_material session_ref words = tagged_material ''codeconnect.compose.v1'' [session_ref, words]"

definition compose_hash :: "'h sha \<Rightarrow> string \<Rightarrow> string \<Rightarrow> string" where
  "compose_hash S session_ref words = sha256_hex S (compose_material session_ref words)"

definition approval_payload_text :: "ext \<Rightarrow> string \<Rightarrow> json \<Rightarrow> string" where
  "approval_payload_text L tool_name tool_input = tool_name @ CHR 0x0A # json_write L tool_input"

definition approval_payload_hash :: "ext \<Rightarrow> 'h sha \<Rightarrow> string \<Rightarrow> json \<Rightarrow> string" where
  "approval_payload_hash L S tool_name tool_input = sha256_hex S (approval_payload_text L tool_name tool_input)"

end
