(* ===== verification/Protocol_Hash_Props.thy ===== *)
theory Protocol_Hash_Props
  imports Protocol_Hash
begin

text \<open>
  No two mutations share their material, equal hex texts are equal digests, and the digest of a stream
  covers every byte of it and belongs to the head that comes with it.
\<close>

section \<open>Digits\<close>

lemma dec_last: "last (dec n) = digit (n mod 10) \<and> dec n \<noteq> [] \<and> butlast (dec n) = (if n < 10 then [] else dec (n div 10))"
  by (cases "n < 10") (simp_all add: dec.simps [of n])

lemma digit_inj: "a < 10 \<Longrightarrow> b < 10 \<Longrightarrow> digit a = digit b \<Longrightarrow> a = b"
  using byte_char_of [of "48 + a"] byte_char_of [of "48 + b"] by (simp add: digit_def)

lemma dec_inj: "dec n = dec m \<Longrightarrow> n = m"
proof (induction n arbitrary: m rule: less_induct)
  case (less n)
  have d: "n mod 10 = m mod 10"
    using less.prems dec_last [of n] dec_last [of m] by (intro digit_inj) auto
  have b: "(if n < 10 then [] else dec (n div 10)) = (if m < 10 then [] else dec (m div 10))"
    using less.prems dec_last [of n] dec_last [of m] by metis
  have "n div 10 = m div 10"
  proof (cases "n < 10")
    case True
    then show ?thesis using b dec_last [of "m div 10"] by (auto split: if_splits)
  next
    case False
    with b dec_last [of "n div 10"] have "dec (n div 10) = dec (m div 10)" by (auto split: if_splits)
    with less.IH [of "n div 10"] False show ?thesis by simp
  qed
  with d show ?case by (metis div_mult_mod_eq)
qed

lemma dec_digits: "c \<in> set (dec n) \<Longrightarrow> 48 \<le> byte c \<and> byte c \<le> 57"
proof (induction n rule: dec.induct)
  case (1 n)
  have "n mod 10 \<le> 9" by simp
  with 1 show ?case by (subst (asm) (2) dec.simps) (auto simp: digit_def split: if_splits)
qed

lemma split_at_mark: "x \<notin> set s \<Longrightarrow> x \<notin> set t \<Longrightarrow> s @ x # r = t @ x # q \<Longrightarrow> s = t \<and> r = q"
proof (induction s arbitrary: t)
  case Nil
  then show ?case by (cases t) auto
next
  case (Cons c s)
  then show ?case by (cases t) auto
qed

section \<open>Material\<close>

lemma field_text_inj: "field_text f @ r = field_text g @ q \<Longrightarrow> f = g \<and> r = q"
proof -
  assume eq: "field_text f @ r = field_text g @ q"
  have "CHR '':'' \<notin> set (dec n)" for n using dec_digits [of "CHR '':''" n] by (auto simp: byte_def)
  then have "dec (length f) = dec (length g) \<and> f @ r = g @ q"
    using eq by (intro split_at_mark [of "CHR '':''"]) (simp_all add: field_text_def)
  then show ?thesis using dec_inj [of "length f" "length g"] by (auto simp: append_eq_append_conv)
qed

lemma fields_inj: "concat (map field_text fs) = concat (map field_text gs) \<Longrightarrow> fs = gs"
proof (induction fs arbitrary: gs)
  case Nil
  then show ?case by (cases gs) (simp_all add: field_text_def)
next
  case (Cons f fs)
  show ?case
  proof (cases gs)
    case Nil
    with Cons.prems show ?thesis by (simp add: field_text_def)
  next
    case (Cons g gs')
    with Cons.prems have "f = g \<and> concat (map field_text fs) = concat (map field_text gs')"
      by (intro field_text_inj) simp
    with Cons Cons.IH show ?thesis by simp
  qed
qed

lemma tagged_inj:
  assumes "CHR 0x0A \<notin> set s" "CHR 0x0A \<notin> set t" "tagged_material s (f # fs) = tagged_material t (g # gs)"
  shows "s = t \<and> f # fs = g # gs"
proof -
  from assms have "s = t \<and> dec (length f) @ '':'' @ f @ concat (map field_text fs) =
      dec (length g) @ '':'' @ g @ concat (map field_text gs)"
    by (intro split_at_mark [of "CHR 0x0A"]) (simp_all add: tagged_material_def field_text_def)
  then have "s = t" "concat (map field_text (f # fs)) = concat (map field_text (g # gs))"
    by (simp_all add: field_text_def)
  then show ?thesis using fields_inj by blast
qed

text \<open>Every kind of mutation and the material it is hashed over.\<close>

datatype mutation =
    SendText string string bool
  | Answer string string string string string
  | Interrupt string string
  | Compose string string

definition mutation_material :: "mutation \<Rightarrow> string" where
  "mutation_material m = (case m of
     SendText session words submit \<Rightarrow> send_text_material session words submit
   | Answer request payload opt thread wire \<Rightarrow> answer_material request payload opt thread wire
   | Interrupt session turn \<Rightarrow> interrupt_material session turn
   | Compose session words \<Rightarrow> compose_material session words)"

lemmas material_defs = send_text_material_def answer_material_def interrupt_material_def compose_material_def

definition mutation_tag :: "mutation \<Rightarrow> string" where
  "mutation_tag m = (case m of
     SendText session words submit \<Rightarrow> ''codeconnect.send_text.v1''
   | Answer request payload opt thread wire \<Rightarrow> ''codeconnect.answer.v1''
   | Interrupt session turn \<Rightarrow> ''codeconnect.interrupt.v1''
   | Compose session words \<Rightarrow> ''codeconnect.compose.v1'')"

definition mutation_parts :: "mutation \<Rightarrow> string list" where
  "mutation_parts m = (case m of
     SendText session words submit \<Rightarrow> [session, if submit then ''submit'' else ''stage'', words]
   | Answer request payload opt thread wire \<Rightarrow> [request, payload, opt, thread, wire]
   | Interrupt session turn \<Rightarrow> [session, turn]
   | Compose session words \<Rightarrow> [session, words])"

lemma material_parts: "mutation_material m = tagged_material (mutation_tag m) (mutation_parts m)"
  by (simp add: mutation_material_def material_defs mutation_tag_def mutation_parts_def split: mutation.splits)

lemma tag_line_free: "CHR 0x0A \<notin> set (mutation_tag m)"
  by (simp add: mutation_tag_def split: mutation.splits)

lemma parts_Cons: "mutation_parts m = hd (mutation_parts m) # tl (mutation_parts m)"
  by (simp add: mutation_parts_def split: mutation.splits)

lemma tag_and_parts:
  "mutation_tag m = mutation_tag m' \<Longrightarrow> mutation_parts m = mutation_parts m' \<Longrightarrow> m = m'"
  by (cases m; cases m') (simp_all add: mutation_tag_def mutation_parts_def split: if_splits)

lemma material_inj:
  assumes "mutation_material m = mutation_material m'"
  shows "m = m'"
proof -
  obtain f fs g gs where p: "mutation_parts m = f # fs" "mutation_parts m' = g # gs" using parts_Cons by metis
  have "mutation_tag m = mutation_tag m' \<and> f # fs = g # gs"
    using assms unfolding material_parts p by (rule tagged_inj [OF tag_line_free tag_line_free])
  then show ?thesis by (intro tag_and_parts) (simp_all add: p)
qed

lemma hex_digit_inj: "a < 16 \<Longrightarrow> b < 16 \<Longrightarrow> hex_digit a = hex_digit b \<Longrightarrow> a = b"
proof -
  assume "a < 16" "b < 16" "hex_digit a = hex_digit b"
  then have "(if a < 10 then 48 + a else 87 + a) = (if b < 10 then 48 + b else 87 + b)"
    using byte_char_of [of "if a < 10 then 48 + a else 87 + a"] byte_char_of [of "if b < 10 then 48 + b else 87 + b"]
    by (simp add: hex_digit_def split: if_splits)
  with \<open>a < 16\<close> \<open>b < 16\<close> show ?thesis by (simp split: if_splits)
qed

lemma hex_of_inj: "hex_of a = hex_of b \<Longrightarrow> a = b"
proof (induction a arbitrary: b)
  case Nil
  then show ?case by (cases b) (simp_all add: hex_of_def)
next
  case (Cons c a)
  then obtain d b' where b: "b = d # b'" by (cases b) (simp_all add: hex_of_def)
  with Cons.prems have "hex_digit (byte c div 16) = hex_digit (byte d div 16)"
    "hex_digit (byte c mod 16) = hex_digit (byte d mod 16)" "hex_of a = hex_of b'"
    by (simp_all add: hex_of_def)
  moreover have "byte c div 16 < 16" "byte d div 16 < 16"
    using byte_less [of c] byte_less [of d] by linarith+
  ultimately have "byte c div 16 = byte d div 16" "byte c mod 16 = byte d mod 16" "a = b'"
    using Cons.IH by (auto intro!: hex_digit_inj)
  then have "byte c = byte d" by (metis div_mult_mod_eq)
  then have "c = d" by (metis char_of_byte)
  with b \<open>a = b'\<close> show ?case by simp
qed

text \<open>C15. One identity, one mutation. The material of a phone's mutation names its kind and every one of
  its parts without ambiguity, across the four kinds; and the texts of two identities are equal exactly
  when their digests are. So a retry under one id is taken for a replay only if nothing of it changed,
  unless two different materials collide under SHA-256.\<close>
theorem one_identity_per_mutation:
  "(mutation_material m = mutation_material m' \<longleftrightarrow> m = m') \<and>
   (sha256_hex S (mutation_material m) = sha256_hex S (mutation_material m') \<longleftrightarrow>
      sha256_bytes S (mutation_material m) = sha256_bytes S (mutation_material m'))"
  by (auto simp: sha256_hex_def dest: hex_of_inj material_inj)

section \<open>Streams\<close>

definition sha_laws :: "'h sha \<Rightarrow> bool" where
  "sha_laws S \<longleftrightarrow> (\<forall>h a b. sha_update S (sha_update S h a) b = sha_update S h (a @ b)) \<and>
     (\<forall>h. sha_update S h [] = h)"

definition read_bytes :: "read_result list \<Rightarrow> string" where
  "read_bytes reads = concat (map (\<lambda>r. case r of ReadBytes s \<Rightarrow> s | _ \<Rightarrow> []) reads)"

text \<open>What a reader returns before its end: some bytes, or an interruption.\<close>

definition goes_on :: "read_result \<Rightarrow> bool" where
  "goes_on r \<longleftrightarrow> (case r of ReadBytes s \<Rightarrow> s \<noteq> [] | ReadInterrupted \<Rightarrow> True | ReadFailed e \<Rightarrow> False)"

lemma read_bytes_simps [simp]:
  "read_bytes [] = []" "read_bytes (ReadBytes s # rs) = s @ read_bytes rs"
  "read_bytes (ReadInterrupted # rs) = read_bytes rs"
  by (simp_all add: read_bytes_def)

text \<open>The head filled so far is a prefix of what was read, then what the caller had there.\<close>

definition head_after :: "string \<Rightarrow> string \<Rightarrow> string" where
  "head_after head s = take (length head) s @ drop (length s) head"

lemma fill_head_after:
  "fill_head (head_after head s) (min (length head) (length s)) bytes =
     (head_after head (s @ bytes), min (length head) (length (s @ bytes)))"
  by (auto simp: fill_head_def head_after_def Let_def min_def)

lemma stream_loop_reads:
  assumes "sha_laws S" "list_all goes_on reads"
  shows "stream_loop S (sha_update S h s) (head_after head s) (min (length head) (length s)) (reads @ rest) =
     stream_loop S (sha_update S h (s @ read_bytes reads)) (head_after head (s @ read_bytes reads))
       (min (length head) (length (s @ read_bytes reads))) rest"
  using assms(2)
proof (induction reads arbitrary: s)
  case (Cons r reads)
  show ?case
  proof (cases r)
    case (ReadBytes bytes)
    with Cons.prems have "bytes \<noteq> []" by (simp add: goes_on_def)
    with ReadBytes Cons.IH [of "s @ bytes"] Cons.prems assms(1) show ?thesis
      by (simp add: fill_head_after sha_laws_def del: length_append)
  next
    case ReadInterrupted
    with Cons show ?thesis by simp
  next
    case (ReadFailed e)
    with Cons.prems show ?thesis by (simp add: goes_on_def)
  qed
qed simp

text \<open>The digest and the head are of one read. However the reader cuts the stream up and however
  often it is interrupted, the loop ends when the stream does, with the digest of all its bytes, the
  number of head bytes filled and exactly those bytes in front of the buffer, the rest of the buffer
  untouched; and an error in the stream is returned, never a digest of what came before it.\<close>
theorem stream_digest_covers_the_stream:
  assumes "sha_laws S" "list_all goes_on reads"
  shows "sha256_stream_head S (reads @ ReadBytes [] # later) head =
      Some (Inr (sha256_hex S (read_bytes reads), min (length head) (length (read_bytes reads))),
        take (length head) (read_bytes reads) @ drop (length (read_bytes reads)) head) \<and>
    map_option fst (sha256_stream_head S (reads @ ReadFailed e # later) head) = Some (Inl e)"
proof -
  have start: "sha_update S (sha_new S) [] = sha_new S" "head_after head [] = head"
    using assms(1) by (simp_all add: sha_laws_def head_after_def)
  from stream_loop_reads [OF assms, of "sha_new S" "[]" head]
  have "stream_loop S (sha_new S) head 0 (reads @ rest) =
     stream_loop S (sha_update S (sha_new S) (read_bytes reads)) (head_after head (read_bytes reads))
       (min (length head) (length (read_bytes reads))) rest" for rest
    by (simp add: start)
  then show ?thesis
    by (simp add: sha256_stream_head_def sha256_hex_def sha256_bytes_def head_after_def)
qed

definition plain_sha :: "string sha" where
  "plain_sha = \<lparr>sha_new = [], sha_update = (@), sha_finalize = (\<lambda>s. s)\<rparr>"

lemma stream_digest_witness:
  "sha256_stream_head plain_sha [ReadBytes ''ab'', ReadInterrupted, ReadBytes ''cd'', ReadBytes []] ''xxxxxx'' =
     Some (Inr (hex_of ''abcd'', 4), ''abcdxx'')"
proof -
  have "sha_laws plain_sha" "list_all goes_on [ReadBytes ''ab'', ReadInterrupted, ReadBytes ''cd'']"
    by (simp_all add: sha_laws_def plain_sha_def goes_on_def)
  from stream_digest_covers_the_stream [OF this, of "[]" "''xxxxxx''"] show ?thesis
    by (simp add: sha256_hex_def sha256_bytes_def plain_sha_def)
qed

end
