(* ===== verification/Ccd_Push_Gate.thy ===== *)
theory Ccd_Push_Gate
  imports Broker_Prelude
begin

text \<open>
  What may ring a phone (\<open>ccd/src/push_gate.rs\<close>): the watermarks of what each device was shown, the
  latch on a run's quiet states, the approvals that already rang, and the epochs a scheduled push is
  checked against when its grace has passed.

  Every operation holds the locks of all it touches from its first read to its last write, so an
  operation is one step of the gate. Epochs are \<open>u64\<close> counters that grow by one; they are natural
  numbers here. A \<open>HashSet\<close> that is only inserted into and asked is a set.
\<close>

datatype ambient = Waiting | Done

datatype push_notice = DecisionNotice string | WaitingNotice

record ticket =
  session_epoch :: nat
  progress_epoch :: nat

record rung =
  rung_cards :: "string set"
  rung_prompts :: "string set"

definition new_rung :: rung where
  "new_rung = \<lparr>rung_cards = {}, rung_prompts = {}\<rparr>"

record push_gate =
  pg_delivered :: "(string, (string, nat) hash) hash"
  pg_ambient :: "(string, ambient) hash"
  pg_permission :: "(string, rung) hash"
  pg_epochs :: "(string, nat \<times> nat) hash"

definition new_push_gate :: push_gate where
  "new_push_gate = \<lparr>pg_delivered = [], pg_ambient = [], pg_permission = [], pg_epochs = []\<rparr>"

section \<open>Epochs\<close>

definition epochs_of :: "(string, nat \<times> nat) hash \<Rightarrow> string \<Rightarrow> nat \<times> nat" where
  "epochs_of epochs uid = (case hget epochs uid of None \<Rightarrow> (0, 0) | Some e \<Rightarrow> e)"

definition ticket_under_lock :: "(string, nat \<times> nat) hash \<Rightarrow> string \<Rightarrow> ticket" where
  "ticket_under_lock epochs uid =
     (let (s, p) = epochs_of epochs uid in \<lparr>session_epoch = s, progress_epoch = p\<rparr>)"

definition bump_progress :: "(string, nat \<times> nat) hash \<Rightarrow> string \<Rightarrow> (string, nat \<times> nat) hash" where
  "bump_progress epochs uid = (let (s, p) = epochs_of epochs uid in hput uid (s, p + 1) epochs)"

definition bump_session :: "(string, nat \<times> nat) hash \<Rightarrow> string \<Rightarrow> (string, nat \<times> nat) hash" where
  "bump_session epochs uid = (let (s, p) = epochs_of epochs uid in hput uid (s + 1, p) epochs)"

definition quiet_ticket :: "(string, nat \<times> nat) hash \<Rightarrow> string \<Rightarrow> (string, nat \<times> nat) hash \<times> ticket" where
  "quiet_ticket epochs uid =
     (let epochs = bump_progress epochs uid in (epochs, ticket_under_lock epochs uid))"

section \<open>Operations\<close>

definition note_delivered :: "push_gate \<Rightarrow> string \<Rightarrow> string \<Rightarrow> nat \<Rightarrow> push_gate" where
  "note_delivered g device uid seq =
     (let per_session = (case hget (pg_delivered g) device of None \<Rightarrow> [] | Some m \<Rightarrow> m);
          entry = (case hget per_session uid of None \<Rightarrow> 0 | Some s \<Rightarrow> s);
          entry = (if entry < seq then seq else entry)
      in g\<lparr>pg_delivered := hput device (hput uid entry per_session) (pg_delivered g)\<rparr>)"

definition admit_ambient :: "push_gate \<Rightarrow> string \<Rightarrow> ambient \<Rightarrow> push_gate \<times> ticket option" where
  "admit_ambient g uid cls =
     (if hget (pg_ambient g) uid = Some cls then (g, None)
      else let (epochs, ticket) = quiet_ticket (pg_epochs g) uid in
        (g\<lparr>pg_ambient := hput uid cls (pg_ambient g), pg_epochs := epochs\<rparr>, Some ticket))"

definition note_progress :: "push_gate \<Rightarrow> string \<Rightarrow> push_gate" where
  "note_progress g uid =
     g\<lparr>pg_epochs := bump_progress (pg_epochs g) uid, pg_ambient := hdel uid (pg_ambient g)\<rparr>"

definition exclusions_if_valid :: "push_gate \<Rightarrow> string \<Rightarrow> ticket \<Rightarrow> bool \<Rightarrow> nat \<Rightarrow> string list option" where
  "exclusions_if_valid g uid ticket heed_progress seq =
     (let now = ticket_under_lock (pg_epochs g) uid in
      if session_epoch now \<noteq> session_epoch ticket then None
      else if heed_progress \<and> progress_epoch now \<noteq> progress_epoch ticket then None
      else Some (map fst (filter (\<lambda>(device, sessions).
        (case hget sessions uid of None \<Rightarrow> False | Some s \<Rightarrow> seq \<le> s)) (pg_delivered g))))"

definition admit_turn_end :: "push_gate \<Rightarrow> string \<Rightarrow> push_gate \<times> ticket" where
  "admit_turn_end g uid =
     (let (epochs, ticket) = quiet_ticket (pg_epochs g) uid in
      (g\<lparr>pg_ambient := hput uid Done (pg_ambient g), pg_epochs := epochs\<rparr>, ticket))"

definition rung_of :: "push_gate \<Rightarrow> string \<Rightarrow> rung" where
  "rung_of g uid = (case hget (pg_permission g) uid of None \<Rightarrow> new_rung | Some r \<Rightarrow> r)"

definition admit_decision :: "push_gate \<Rightarrow> string \<Rightarrow> string \<Rightarrow> string option \<Rightarrow> push_gate \<times> ticket option" where
  "admit_decision g uid crd prompt_id =
     (let epochs = bump_progress (pg_epochs g) uid;
          rung = rung_of g uid;
          rung = (case prompt_id of None \<Rightarrow> rung
                  | Some p \<Rightarrow> rung\<lparr>rung_prompts := insert p (rung_prompts rung)\<rparr>);
          fresh = (crd \<notin> rung_cards rung);
          rung = rung\<lparr>rung_cards := insert crd (rung_cards rung)\<rparr>
      in (g\<lparr>pg_epochs := epochs, pg_ambient := hdel uid (pg_ambient g),
            pg_permission := hput uid rung (pg_permission g)\<rparr>,
          if fresh then Some (ticket_under_lock epochs uid) else None))"

definition admit_waiting :: "push_gate \<Rightarrow> string \<Rightarrow> push_gate \<times> (ticket \<times> push_notice) option" where
  "admit_waiting g uid =
     (if hget (pg_ambient g) uid = Some Waiting then (g, None)
      else let (epochs, ticket) = quiet_ticket (pg_epochs g) uid in
        (g\<lparr>pg_ambient := hput uid Waiting (pg_ambient g), pg_epochs := epochs\<rparr>, Some (ticket, WaitingNotice)))"

definition admit_notice ::
  "push_gate \<Rightarrow> string \<Rightarrow> string option \<Rightarrow> string list \<Rightarrow> push_gate \<times> (ticket \<times> push_notice) option" where
  "admit_notice g uid prompt_id cards = (case prompt_id of
     None \<Rightarrow> admit_waiting g uid
   | Some prompt \<Rightarrow>
       let rung = rung_of g uid; g = g\<lparr>pg_permission := hput uid rung (pg_permission g)\<rparr> in
       if cards \<noteq> [] then
         (case find (\<lambda>crd. crd \<notin> rung_cards rung) cards of
            None \<Rightarrow> (g, None)
          | Some crd \<Rightarrow>
              let rung = rung\<lparr>rung_cards := insert crd (rung_cards rung),
                    rung_prompts := insert prompt (rung_prompts rung)\<rparr>;
                  epochs = bump_progress (pg_epochs g) uid
              in (g\<lparr>pg_permission := hput uid rung (pg_permission g), pg_epochs := epochs,
                    pg_ambient := hdel uid (pg_ambient g)\<rparr>,
                  Some (ticket_under_lock epochs uid, DecisionNotice crd)))
       else if prompt \<in> rung_prompts rung then (g, None)
       else admit_waiting g uid)"

definition evict_session :: "push_gate \<Rightarrow> string \<Rightarrow> push_gate" where
  "evict_session g uid =
     g\<lparr>pg_epochs := bump_session (pg_epochs g) uid, pg_ambient := hdel uid (pg_ambient g),
       pg_permission := hdel uid (pg_permission g),
       pg_delivered := map (\<lambda>(device, sessions). (device, hdel uid sessions)) (pg_delivered g)\<rparr>"

definition evict_device :: "push_gate \<Rightarrow> string \<Rightarrow> push_gate" where
  "evict_device g device = g\<lparr>pg_delivered := hdel device (pg_delivered g)\<rparr>"

section \<open>Runs\<close>

datatype gate_event =
    Delivered string string nat
  | Quiet string ambient
  | Progress string
  | TurnEnd string
  | Decision string string "string option"
  | Notified string "string option" "string list"
  | SessionGone string
  | DeviceGone string

text \<open>What an operation lets ring: a quiet state or the decision on a card, with its ticket.\<close>

datatype ring = QuietRing ambient | CardRing string

definition gate_step :: "push_gate \<Rightarrow> gate_event \<Rightarrow> push_gate \<times> (ticket \<times> ring) option" where
  "gate_step g e = (case e of
     Delivered device uid seq \<Rightarrow> (note_delivered g device uid seq, None)
   | Quiet uid cls \<Rightarrow> (case admit_ambient g uid cls of (g, t) \<Rightarrow> (g, map_option (\<lambda>t. (t, QuietRing cls)) t))
   | Progress uid \<Rightarrow> (note_progress g uid, None)
   | TurnEnd uid \<Rightarrow> (case admit_turn_end g uid of (g, t) \<Rightarrow> (g, Some (t, QuietRing Done)))
   | Decision uid crd prompt \<Rightarrow>
       (case admit_decision g uid crd prompt of (g, t) \<Rightarrow> (g, map_option (\<lambda>t. (t, CardRing crd)) t))
   | Notified uid prompt cards \<Rightarrow>
       (case admit_notice g uid prompt cards of (g, r) \<Rightarrow>
          (g, map_option (\<lambda>(t, n). (t, case n of DecisionNotice crd \<Rightarrow> CardRing crd | WaitingNotice \<Rightarrow> QuietRing Waiting)) r))
   | SessionGone uid \<Rightarrow> (evict_session g uid, None)
   | DeviceGone device \<Rightarrow> (evict_device g device, None))"

fun gate_run :: "push_gate \<Rightarrow> gate_event list \<Rightarrow> push_gate" where
  "gate_run g [] = g"
| "gate_run g (e # es) = gate_run (fst (gate_step g e)) es"

text \<open>The events of a run, each with what it let ring.\<close>

fun gate_trace :: "push_gate \<Rightarrow> gate_event list \<Rightarrow> (gate_event \<times> (ticket \<times> ring) option) list" where
  "gate_trace g [] = []"
| "gate_trace g (e # es) = (let (g', a) = gate_step g e in (e, a) # gate_trace g' es)"

end
