(* ===== verification/Ccd_Push_Gate_Props.thy ===== *)
theory Ccd_Push_Gate_Props
  imports Ccd_Push_Gate
begin

text \<open>
  What the gate promises over every run of its operations: a ticket stands exactly until the run it was
  issued for moves, a card rings once, and a device is left out exactly when it was shown the event.
\<close>

section \<open>Epochs\<close>

lemma epochs_of_bump [simp]:
  "epochs_of (bump_progress m u) v = (if v = u then (fst (epochs_of m u), snd (epochs_of m u) + 1) else epochs_of m v)"
  "epochs_of (bump_session m u) v = (if v = u then (fst (epochs_of m u) + 1, snd (epochs_of m u)) else epochs_of m v)"
  by (auto simp: epochs_of_def bump_progress_def bump_session_def update_conv' split: prod.splits option.splits)

lemma epochs_of_Nil [simp]: "epochs_of [] u = (0, 0)"
  by (simp add: epochs_of_def)

lemma ticket_under_lock_eq:
  "ticket_under_lock m u = \<lparr>session_epoch = fst (epochs_of m u), progress_epoch = snd (epochs_of m u)\<rparr>"
  by (simp add: ticket_under_lock_def split: prod.splits)

lemma quiet_ticket_eq: "quiet_ticket m u = (bump_progress m u, ticket_under_lock (bump_progress m u) u)"
  by (simp add: quiet_ticket_def Let_def)

text \<open>The events that end a run, and those that move it: the answer says whether a quiet state was admitted.\<close>

definition ends_run :: "string \<Rightarrow> gate_event \<Rightarrow> bool" where
  "ends_run uid e \<longleftrightarrow> e = SessionGone uid"

definition moves_run :: "string \<Rightarrow> gate_event \<times> (ticket \<times> ring) option \<Rightarrow> bool" where
  "moves_run uid x \<longleftrightarrow> (case x of (e, a) \<Rightarrow> (case e of
     Quiet u cls \<Rightarrow> u = uid \<and> a \<noteq> None
   | Progress u \<Rightarrow> u = uid
   | TurnEnd u \<Rightarrow> u = uid
   | Decision u crd prompt \<Rightarrow> u = uid
   | Notified u prompt cards \<Rightarrow> u = uid \<and> a \<noteq> None
   | _ \<Rightarrow> False))"

lemmas gate_ops = note_delivered_def admit_ambient_def note_progress_def admit_turn_end_def admit_decision_def
  admit_waiting_def admit_notice_def evict_session_def evict_device_def quiet_ticket_eq Let_def

lemma gate_step_epochs:
  "gate_step g e = (g', a) \<Longrightarrow> epochs_of (pg_epochs g') uid =
     (fst (epochs_of (pg_epochs g) uid) + (if ends_run uid e then 1 else 0),
      snd (epochs_of (pg_epochs g) uid) + (if moves_run uid (e, a) then 1 else 0))"
  by (cases e)
    (auto simp: gate_step_def gate_ops ends_run_def moves_run_def split: if_splits option.splits)

lemma gate_run_epochs:
  "epochs_of (pg_epochs (gate_run g es)) uid =
     (fst (epochs_of (pg_epochs g) uid) + length (filter (\<lambda>x. ends_run uid (fst x)) (gate_trace g es)),
      snd (epochs_of (pg_epochs g) uid) + length (filter (moves_run uid) (gate_trace g es)))"
proof (induction es arbitrary: g)
  case (Cons e es)
  obtain g' a where step: "gate_step g e = (g', a)" by (cases "gate_step g e") auto
  then show ?case using Cons.IH [of g'] gate_step_epochs [OF step, of uid] by simp
qed simp

definition event_uid :: "gate_event \<Rightarrow> string option" where
  "event_uid e = (case e of
     Delivered d u s \<Rightarrow> Some u | Quiet u c \<Rightarrow> Some u | Progress u \<Rightarrow> Some u | TurnEnd u \<Rightarrow> Some u
   | Decision u c p \<Rightarrow> Some u | Notified u p cs \<Rightarrow> Some u | SessionGone u \<Rightarrow> Some u | DeviceGone d \<Rightarrow> None)"

text \<open>The ticket that comes with a ring is read off the epochs the operation leaves.\<close>

lemma gate_step_ticket:
  "gate_step g e = (g', Some (t, r)) \<Longrightarrow> event_uid e = Some uid \<Longrightarrow> t = ticket_under_lock (pg_epochs g') uid"
  by (cases e)
    (auto simp: gate_step_def event_uid_def gate_ops split: if_splits option.splits)

text \<open>A push that waits out its grace rings for the present or not at all. Whatever lets a push ring and
  whatever the gate does in the grace, the ticket still stands at dispatch if and only if the run has not
  been deleted and, where progress is heeded, nothing moved it: no progress, no turn end, no decision and
  no newer quiet state or notice that was let through.\<close>
theorem ticket_stands_until_the_run_moves:
  assumes "gate_step g e = (g', Some (t, r))" "event_uid e = Some uid"
  shows "exclusions_if_valid (gate_run g' es) uid t heed_progress seq \<noteq> None \<longleftrightarrow>
    \<not> list_ex (\<lambda>x. ends_run uid (fst x) \<or> heed_progress \<and> moves_run uid x) (gate_trace g' es)"
proof -
  have zero: "length (filter P xs) = 0 \<longleftrightarrow> \<not> list_ex P xs" for P and xs :: "(gate_event \<times> (ticket \<times> ring) option) list"
    by (auto simp: filter_empty_conv list_ex_iff)
  have both: "list_ex (\<lambda>x. ends_run uid (fst x) \<or> heed_progress \<and> moves_run uid x) xs \<longleftrightarrow>
      list_ex (\<lambda>x. ends_run uid (fst x)) xs \<or> heed_progress \<and> list_ex (moves_run uid) xs" for xs
    by (auto simp: list_ex_iff)
  show ?thesis
    unfolding exclusions_if_valid_def gate_step_ticket [OF assms] ticket_under_lock_eq gate_run_epochs both
    using zero by (simp add: Let_def)
qed

lemma ticket_stands_witness:
  "exclusions_if_valid (gate_run (fst (gate_step new_push_gate (Quiet ''r'' Waiting))) [Delivered ''p'' ''r'' 4, Quiet ''r'' Waiting])
     ''r'' \<lparr>session_epoch = 0, progress_epoch = 1\<rparr> True 5 \<noteq> None"
proof -
  have step: "gate_step new_push_gate (Quiet ''r'' Waiting) =
      (fst (gate_step new_push_gate (Quiet ''r'' Waiting)), Some (\<lparr>session_epoch = 0, progress_epoch = 1\<rparr>, QuietRing Waiting))"
    by (simp add: gate_step_def gate_ops new_push_gate_def ticket_under_lock_eq)
  show ?thesis
    by (rule iffD2 [OF ticket_stands_until_the_run_moves [OF step]])
      (simp_all add: gate_step_def gate_ops new_push_gate_def ends_run_def moves_run_def event_uid_def)
qed

section \<open>One ring for a card\<close>

definition rings_card :: "string \<Rightarrow> string \<Rightarrow> gate_event \<times> (ticket \<times> ring) option \<Rightarrow> bool" where
  "rings_card uid crd x \<longleftrightarrow> (case x of (e, a) \<Rightarrow> event_uid e = Some uid \<and> (\<exists>t. a = Some (t, CardRing crd)))"

lemma rung_of_simps [simp]:
  "rung_of (g\<lparr>pg_permission := hput u r m\<rparr>) v = (if v = u then r else rung_of (g\<lparr>pg_permission := m\<rparr>) v)"
  "rung_of (g\<lparr>pg_ambient := a\<rparr>) v = rung_of g v" "rung_of (g\<lparr>pg_epochs := x\<rparr>) v = rung_of g v"
  "rung_of (g\<lparr>pg_delivered := d\<rparr>) v = rung_of g v" "rung_of (g\<lparr>pg_permission := pg_permission g\<rparr>) v = rung_of g v"
  by (auto simp: rung_of_def update_conv')

lemma gate_step_rung:
  assumes "gate_step g e = (g', a)" "\<not> ends_run uid e"
  shows "rung_cards (rung_of g uid) \<subseteq> rung_cards (rung_of g' uid)"
    and "rings_card uid crd (e, a) \<longleftrightarrow> crd \<notin> rung_cards (rung_of g uid) \<and> crd \<in> rung_cards (rung_of g' uid)"
  using assms
  by (cases e; auto simp: gate_step_def gate_ops ends_run_def rings_card_def event_uid_def rung_of_def new_rung_def
      update_conv' delete_conv' find_Some_iff split: if_splits option.splits push_notice.splits)+

lemma card_rings:
  assumes "\<not> list_ex (ends_run uid) es"
  shows "length (filter (rings_card uid crd) (gate_trace g es)) =
     (if crd \<notin> rung_cards (rung_of g uid) \<and> crd \<in> rung_cards (rung_of (gate_run g es) uid) then 1 else 0) \<and>
     rung_cards (rung_of g uid) \<subseteq> rung_cards (rung_of (gate_run g es) uid)"
  using assms
proof (induction es arbitrary: g)
  case (Cons e es)
  obtain g' a where step: "gate_step g e = (g', a)" by (cases "gate_step g e") auto
  with Cons.IH [of g'] Cons.prems gate_step_rung [OF step, of uid] show ?case by auto
qed simp

definition decides_card :: "string \<Rightarrow> string \<Rightarrow> gate_event \<Rightarrow> bool" where
  "decides_card uid crd e \<longleftrightarrow> (case e of Decision u c p \<Rightarrow> u = uid \<and> c = crd | _ \<Rightarrow> False)"

lemma decided_card_rung:
  assumes "decides_card uid crd e"
  shows "crd \<in> rung_cards (rung_of (fst (gate_step g e)) uid)"
  using assms by (cases e) (auto simp: decides_card_def gate_step_def gate_ops split: option.splits if_splits)

lemma decided_run_rung:
  "\<not> list_ex (ends_run uid) es \<Longrightarrow> list_ex (decides_card uid crd) es \<Longrightarrow>
    crd \<in> rung_cards (rung_of (gate_run g es) uid)"
proof (induction es arbitrary: g)
  case (Cons e es)
  then show ?case
    using card_rings [of uid es crd "fst (gate_step g e)"] decided_card_rung [of uid crd e g] by auto
qed simp

text \<open>One decision, one ring. While a run lives, a card that has not rung yet rings at most once, however
  its decision and the notices about it interleave and repeat, and exactly once as soon as the decision
  itself arrives.\<close>
theorem a_card_rings_once:
  assumes "\<not> list_ex (ends_run uid) es" "crd \<notin> rung_cards (rung_of g uid)"
  shows "length (filter (rings_card uid crd) (gate_trace g es)) =
    (if crd \<in> rung_cards (rung_of (gate_run g es) uid) then 1 else 0) \<and>
    (list_ex (decides_card uid crd) es \<longrightarrow> length (filter (rings_card uid crd) (gate_trace g es)) = 1)"
  using card_rings [OF assms(1), of crd g] decided_run_rung [OF assms(1)] assms(2) by simp

lemma a_card_rings_once_witness:
  "length (filter (rings_card ''r'' ''c'') (gate_trace new_push_gate
     [Notified ''r'' (Some ''p'') [''c''], Decision ''r'' ''c'' (Some ''p''), Notified ''r'' (Some ''p'') [''c'']])) = 1"
proof -
  have "list_ex (decides_card ''r'' ''c'')
     [Notified ''r'' (Some ''p'') [''c''], Decision ''r'' ''c'' (Some ''p''), Notified ''r'' (Some ''p'') [''c'']]"
    by (simp add: decides_card_def)
  then show ?thesis
    by (intro a_card_rings_once [THEN conjunct2, rule_format])
      (simp_all add: ends_run_def rung_of_def new_push_gate_def new_rung_def)
qed

section \<open>Who is left out\<close>

definition shown :: "string \<Rightarrow> string \<Rightarrow> nat \<Rightarrow> gate_event list \<Rightarrow> bool" where
  "shown device uid seq es \<longleftrightarrow> (\<exists>before s after. es = before @ Delivered device uid s # after \<and> seq \<le> s \<and>
     SessionGone uid \<notin> set after \<and> DeviceGone device \<notin> set after)"

lemma shown_snoc: "shown device uid seq (es @ [e]) \<longleftrightarrow>
    (\<exists>s. e = Delivered device uid s \<and> seq \<le> s) \<or>
    shown device uid seq es \<and> e \<noteq> SessionGone uid \<and> e \<noteq> DeviceGone device"
proof
  assume "shown device uid seq (es @ [e])"
  then obtain before s after where split: "es @ [e] = before @ Delivered device uid s # after" "seq \<le> s"
    "SessionGone uid \<notin> set after" "DeviceGone device \<notin> set after"
    by (auto simp: shown_def)
  show "(\<exists>s. e = Delivered device uid s \<and> seq \<le> s) \<or>
    shown device uid seq es \<and> e \<noteq> SessionGone uid \<and> e \<noteq> DeviceGone device"
  proof (cases after rule: rev_cases)
    case Nil
    with split show ?thesis by simp
  next
    case (snoc rest f)
    with split have "es = before @ Delivered device uid s # rest" "f = e" by simp_all
    with snoc split show ?thesis by (auto simp: shown_def)
  qed
next
  assume "(\<exists>s. e = Delivered device uid s \<and> seq \<le> s) \<or>
    shown device uid seq es \<and> e \<noteq> SessionGone uid \<and> e \<noteq> DeviceGone device"
  then show "shown device uid seq (es @ [e])"
  proof (elim disjE conjE)
    assume "\<exists>s. e = Delivered device uid s \<and> seq \<le> s"
    then show ?thesis unfolding shown_def by (intro exI [of _ es]) auto
  next
    assume "shown device uid seq es" and e: "e \<noteq> SessionGone uid" "e \<noteq> DeviceGone device"
    then obtain before s after where "es = before @ Delivered device uid s # after" "seq \<le> s"
      "SessionGone uid \<notin> set after" "DeviceGone device \<notin> set after" by (auto simp: shown_def)
    with e show ?thesis unfolding shown_def
      by (intro exI [of _ before] exI [of _ s] exI [of _ "after @ [e]"]) auto
  qed
qed

definition watermark :: "push_gate \<Rightarrow> string \<Rightarrow> string \<Rightarrow> nat option" where
  "watermark g device uid = Option.bind (hget (pg_delivered g) device) (\<lambda>m. hget m uid)"

lemma gate_run_snoc: "gate_run g (es @ [e]) = fst (gate_step (gate_run g es) e)"
  by (induction es arbitrary: g) simp_all

lemma watermark_step:
  "watermark (fst (gate_step g e)) device uid = (case e of
     Delivered d u s \<Rightarrow>
       if d = device \<and> u = uid then Some (max s (case watermark g device uid of None \<Rightarrow> 0 | Some m \<Rightarrow> m))
       else watermark g device uid
   | SessionGone u \<Rightarrow> if u = uid then None else watermark g device uid
   | DeviceGone d \<Rightarrow> if d = device then None else watermark g device uid
   | _ \<Rightarrow> watermark g device uid)"
proof (cases e)
  case (SessionGone u)
  have "hget (map (\<lambda>(d, m). (d, hdel u m)) xs) device = map_option (hdel u) (hget xs device)" for xs :: "(string, (string, nat) hash) hash"
    by (induction xs) auto
  with SessionGone show ?thesis
    by (cases "hget (pg_delivered g) device") (simp_all add: gate_step_def watermark_def evict_session_def delete_conv')
qed (auto simp: gate_step_def watermark_def gate_ops update_conv' delete_conv' max_def bind_eq_None_conv
    split: option.splits if_splits)

lemma watermark_shown:
  "(\<exists>m. watermark (gate_run new_push_gate es) device uid = Some m \<and> seq \<le> m) \<longleftrightarrow> shown device uid seq es"
proof (induction es rule: rev_induct)
  case Nil
  then show ?case by (simp add: watermark_def new_push_gate_def shown_def)
next
  case (snoc e es)
  let ?g = "gate_run new_push_gate es"
  have none: "\<not> shown device uid seq es" if "watermark ?g device uid = None" using snoc that by simp
  show ?case
    unfolding gate_run_snoc watermark_step shown_snoc
    using snoc none by (cases e; cases "watermark ?g device uid"; auto simp: le_max_iff_disj)
qed

definition gate_keys :: "push_gate \<Rightarrow> bool" where
  "gate_keys g \<longleftrightarrow> hwf (pg_delivered g)"

lemma gate_keys_step: "gate_keys g \<Longrightarrow> gate_keys (fst (gate_step g e))"
  by (cases e)
    (auto simp: gate_keys_def gate_step_def gate_ops hwf_def comp_def case_prod_beta distinct_update distinct_delete
      split: option.splits if_splits)

lemma gate_keys_run: "gate_keys g \<Longrightarrow> gate_keys (gate_run g es)"
  by (induction es arbitrary: g) (simp_all add: gate_keys_step)

text \<open>A phone that was shown an event is not rung about it, and every other phone is. Whatever has
  happened, the devices a valid push leaves out are exactly those whose live socket was written that event
  or a later one of the run since the run or the device was last forgotten, each named once.\<close>
theorem exclusions_are_the_devices_that_saw:
  assumes "exclusions_if_valid (gate_run new_push_gate es) uid t heed_progress seq = Some devices"
  shows "(device \<in> set devices \<longleftrightarrow> shown device uid seq es) \<and> distinct devices"
proof -
  let ?g = "gate_run new_push_gate es"
  have keys: "hwf (pg_delivered ?g)"
    using gate_keys_run [of new_push_gate es] by (simp add: gate_keys_def new_push_gate_def)
  have devices: "devices = map fst (filter (\<lambda>(device, sessions).
      (case hget sessions uid of None \<Rightarrow> False | Some s \<Rightarrow> seq \<le> s)) (pg_delivered ?g))"
    using assms by (simp add: exclusions_if_valid_def Let_def split: if_splits)
  have "device \<in> set devices \<longleftrightarrow>
      (\<exists>m. (device, m) \<in> set (pg_delivered ?g) \<and> (\<exists>s. hget m uid = Some s \<and> seq \<le> s))"
    unfolding devices by (force split: option.splits)
  also have "\<dots> \<longleftrightarrow> (\<exists>m. watermark ?g device uid = Some m \<and> seq \<le> m)"
    using keys by (auto simp: watermark_def bind_eq_Some_conv hwf_def)
  also have "\<dots> \<longleftrightarrow> shown device uid seq es" by (rule watermark_shown)
  finally have "device \<in> set devices \<longleftrightarrow> shown device uid seq es" .
  moreover have "distinct devices"
    unfolding devices using keys by (simp add: hwf_def distinct_map_filter)
  ultimately show ?thesis by blast
qed

lemma exclusions_witness:
  "''p'' \<in> set (the (exclusions_if_valid (gate_run new_push_gate [Delivered ''p'' ''r'' 4, Delivered ''p'' ''r'' 2])
     ''r'' \<lparr>session_epoch = 0, progress_epoch = 0\<rparr> True 3))"
proof -
  have valid: "exclusions_if_valid (gate_run new_push_gate [Delivered ''p'' ''r'' 4, Delivered ''p'' ''r'' 2])
     ''r'' \<lparr>session_epoch = 0, progress_epoch = 0\<rparr> True 3 = Some [''p'']"
    by (simp add: gate_step_def note_delivered_def new_push_gate_def exclusions_if_valid_def ticket_under_lock_eq Let_def)
  have "shown ''p'' ''r'' 3 [Delivered ''p'' ''r'' 4, Delivered ''p'' ''r'' 2]"
    unfolding shown_def by (rule exI [of _ "[]"], rule exI [of _ 4]) simp
  with exclusions_are_the_devices_that_saw [OF valid, of "''p''"] show ?thesis unfolding valid by simp
qed

end
