(* ===== verification/Simulation.thy ===== *)
theory Simulation
  imports Main
begin

text \<open>
  Refinement of one machine by another: two machines that take the same inputs, a relation their states
  keep, and equal outputs at every step. A component that promises an abstract machine interprets the
  locale on its own definitions and gets equal outputs over every run.
\<close>

type_synonym ('s, 'i, 'o) machine = "'s \<Rightarrow> 'i \<Rightarrow> 's \<times> 'o"

fun outputs :: "('s, 'i, 'o) machine \<Rightarrow> 's \<Rightarrow> 'i list \<Rightarrow> 'o list" where
  "outputs step s [] = []"
| "outputs step s (i # is) = (let (s', o') = step s i in o' # outputs step s' is)"

fun final :: "('s, 'i, 'o) machine \<Rightarrow> 's \<Rightarrow> 'i list \<Rightarrow> 's" where
  "final step s [] = s"
| "final step s (i # is) = final step (fst (step s i)) is"

locale simulation =
  fixes concrete :: "('s, 'i, 'o) machine"
    and abstract :: "('a, 'i, 'o) machine"
    and related :: "'s \<Rightarrow> 'a \<Rightarrow> bool"
  assumes related_step: "related s a \<Longrightarrow> related (fst (concrete s i)) (fst (abstract a i))"
    and same_output: "related s a \<Longrightarrow> snd (concrete s i) = snd (abstract a i)"
begin

lemma outputs_eq: "related s a \<Longrightarrow> outputs concrete s is = outputs abstract a is"
proof (induction "is" arbitrary: s a)
  case (Cons i "is")
  from Cons.IH [OF related_step [OF Cons.prems, of i]] same_output [OF Cons.prems, of i]
  show ?case by (simp add: case_prod_beta Let_def)
qed simp

lemma final_related: "related s a \<Longrightarrow> related (final concrete s is) (final abstract a is)"
  by (induction "is" arbitrary: s a) (simp_all add: related_step)

end

end
