(* ===== verification/Ccd_Push_Queue.thy ===== *)
theory Ccd_Push_Queue
  imports Broker_Prelude
begin

text \<open>
  One device's pushes and the worker that submits them (\<open>ccd/src/push_queue.rs\<close>, and the classification
  of a transport's error in \<open>ccd/src/apns.rs\<close>).

  A \<open>oneshot::Sender\<close> is the number of its channel; what is sent down it is kept as a list of answers. The
  transport, the registry and Apple are the environment: what they answer is part of an event. Every
  lock, flag read and flag write of the source is a step of its own, so a push, the worker and whoever
  retires the device interleave as they can there. The log lines are left out.
\<close>

section \<open>Deliveries and their outcome\<close>

datatype apns_environment = Sandbox | Production

record push_target =
  pt_token :: string
  pt_environment :: apns_environment
  pt_device :: string
  pt_credential :: "string option"

record delivery =
  dl_target :: push_target
  dl_payload :: string
  dl_collapse :: string
  dl_respond :: "nat option"
  dl_recheck :: bool

datatype test_delivery =
    Accepted "string option" | Unconfigured | NoToken | CredentialInvalid | RateLimited nat | Failed string

text \<open>A transport's error: which typed markers its chain holds, and its text.\<close>

record send_error =
  err_no_registration :: bool
  err_credential_refused :: bool
  err_rate_limited :: "nat option"
  err_device_gone :: bool
  err_text :: string

definition from_error :: "send_error \<Rightarrow> test_delivery" where
  "from_error e =
     (if err_no_registration e then NoToken
      else if err_credential_refused e then CredentialInvalid
      else case err_rate_limited e of Some secs \<Rightarrow> RateLimited secs | None \<Rightarrow> Failed (err_text e))"

definition recipients :: "push_target list \<Rightarrow> string list \<Rightarrow> push_target list" where
  "recipients targets excluded = filter (\<lambda>t. pt_device t \<notin> set excluded) targets"

section \<open>The queue of one device\<close>

definition MAX_WAITING :: nat where "MAX_WAITING = 8"

definition BACKED_UP :: string where
  "BACKED_UP = ''the queue for this device is backed up; nothing was sent''"

record device_queue =
  dq_waiting :: "delivery list"
  dq_closed :: bool

type_synonym test_answer = "nat \<times> test_delivery"

definition new_device_queue :: device_queue where
  "new_device_queue = \<lparr>dq_waiting = [], dq_closed = False\<rparr>"

definition respond :: "delivery \<Rightarrow> test_delivery \<Rightarrow> test_answer list" where
  "respond d answer = (case dl_respond d of None \<Rightarrow> [] | Some channel \<Rightarrow> [(channel, answer)])"

definition is_doorbell :: "delivery \<Rightarrow> bool" where
  "is_doorbell d \<longleftrightarrow> dl_respond d = None"

text \<open>Remove the first element a predicate holds of, as \<open>position\<close> and \<open>remove\<close> do.\<close>

fun remove_first :: "('a \<Rightarrow> bool) \<Rightarrow> 'a list \<Rightarrow> 'a option \<times> 'a list" where
  "remove_first P [] = (None, [])"
| "remove_first P (x # xs) =
     (if P x then (Some x, xs) else let (y, ys) = remove_first P xs in (y, x # ys))"

definition coalesce :: "delivery \<Rightarrow> delivery list \<Rightarrow> delivery list" where
  "coalesce d waiting = (if is_doorbell d then snd (remove_first is_doorbell waiting) else waiting)"

definition make_room :: "delivery list \<Rightarrow> delivery list \<times> test_answer list" where
  "make_room waiting =
     (if MAX_WAITING \<le> length waiting then
        (case remove_first (\<lambda>d. \<not> is_doorbell d) waiting of
           (None, waiting) \<Rightarrow> (waiting, [])
         | (Some dropped, waiting) \<Rightarrow> (waiting, respond dropped (Failed BACKED_UP)))
      else (waiting, []))"

definition dq_push :: "device_queue \<Rightarrow> delivery \<Rightarrow> device_queue \<times> test_answer list" where
  "dq_push q d =
     (if dq_closed q then (q, respond d NoToken)
      else let (waiting, answers) = make_room (coalesce d (dq_waiting q)) in
        (q\<lparr>dq_waiting := waiting @ [d]\<rparr>, answers))"

definition dq_take :: "device_queue \<Rightarrow> delivery option \<times> device_queue" where
  "dq_take q = (case dq_waiting q of [] \<Rightarrow> (None, q) | d # ds \<Rightarrow> (Some d, q\<lparr>dq_waiting := ds\<rparr>))"

text \<open>\<open>close\<close> is two steps: the flag, and then the drain under the lock.\<close>

definition dq_close_flag :: "device_queue \<Rightarrow> device_queue" where
  "dq_close_flag q = q\<lparr>dq_closed := True\<rparr>"

definition dq_drain :: "device_queue \<Rightarrow> device_queue \<times> test_answer list" where
  "dq_drain q = (q\<lparr>dq_waiting := []\<rparr>, concat (map (\<lambda>d. respond d NoToken) (dq_waiting q)))"

section \<open>The queues of all devices\<close>

text \<open>
  An \<open>Arc<DeviceQueue>\<close> outlives its place in the table: a queue is an index into a store, and the
  table maps a device to one.
\<close>

record queue_table =
  qt_queues :: "(string, nat) hash"
  qt_store :: "device_queue list"

definition queue_for :: "queue_table \<Rightarrow> string \<Rightarrow> queue_table \<times> nat \<times> bool" where
  "queue_for t device =
     (case hget (qt_queues t) device of
        Some q \<Rightarrow> if \<not> dq_closed (qt_store t ! q) then (t, q, False)
          else (\<lparr>qt_queues = hput device (length (qt_store t)) (qt_queues t), qt_store = qt_store t @ [new_device_queue]\<rparr>,
                length (qt_store t), True)
      | None \<Rightarrow> (\<lparr>qt_queues = hput device (length (qt_store t)) (qt_queues t), qt_store = qt_store t @ [new_device_queue]\<rparr>,
                length (qt_store t), True))"

text \<open>\<open>retire\<close> takes the device out of the table and closes the queue it finds there.\<close>

definition retire_device :: "queue_table \<Rightarrow> string \<Rightarrow> queue_table \<times> nat option" where
  "retire_device t device = (t\<lparr>qt_queues := hdel device (qt_queues t)\<rparr>, hget (qt_queues t) device)"

section \<open>A queue and its worker\<close>

text \<open>
  \<open>serve_with\<close>, between one await or lock and the next: about to read the flag, about to take, asking
  the registry, attempting, about to close a queue whose device is gone, draining it, returned.
\<close>

datatype worker =
    AtTop | Taking | Asking delivery | InAttempt delivery | GoneFlag | GoneDrain | Returned

record push_worker =
  pw_queue :: device_queue
  pw_worker :: worker
  pw_draining :: nat
  pw_answers :: "test_answer list"
  pw_attempted :: "delivery list"
  pw_lost :: "delivery list"
  pw_dropped :: "delivery list"

text \<open>
  \<open>pw_draining\<close> counts the retirements between their flag and their drain; \<open>pw_lost\<close> is what a worker
  that panicked held, whose channel its drop closes; \<open>pw_dropped\<close> is what was found unregistered.
\<close>

datatype push_event =
    File delivery
  | RetireFlag
  | RetireDrain
  | ReadFlag
  | Take
  | Authorized bool
  | Attempted "send_error + string option"
  | CloseFlag
  | CloseDrain
  | Panic

definition new_push_worker :: push_worker where
  "new_push_worker = \<lparr>pw_queue = new_device_queue, pw_worker = AtTop, pw_draining = 0,
     pw_answers = [], pw_attempted = [], pw_lost = [], pw_dropped = []\<rparr>"

definition start_attempt :: "push_worker \<Rightarrow> delivery \<Rightarrow> push_worker" where
  "start_attempt w d = w\<lparr>pw_worker := InAttempt d, pw_attempted := pw_attempted w @ [d]\<rparr>"

definition worker_take :: "push_worker \<Rightarrow> push_worker" where
  "worker_take w = (case dq_take (pw_queue w) of
     (None, q) \<Rightarrow> w\<lparr>pw_worker := AtTop\<rparr>
   | (Some d, q) \<Rightarrow>
       if dl_recheck d then w\<lparr>pw_queue := q, pw_worker := Asking d\<rparr>
       else start_attempt (w\<lparr>pw_queue := q\<rparr>) d)"

definition is_gone :: "send_error + string option \<Rightarrow> bool" where
  "is_gone outcome = (case outcome of Inl e \<Rightarrow> err_device_gone e | Inr _ \<Rightarrow> False)"

definition outcome_answer :: "send_error + string option \<Rightarrow> test_delivery" where
  "outcome_answer outcome = (case outcome of Inl e \<Rightarrow> from_error e | Inr apns_id \<Rightarrow> Accepted apns_id)"

definition push_step :: "push_worker \<Rightarrow> push_event \<Rightarrow> push_worker" where
  "push_step w e = (case e of
     File d \<Rightarrow> (case dq_push (pw_queue w) d of (q, answers) \<Rightarrow>
       w\<lparr>pw_queue := q, pw_answers := pw_answers w @ answers\<rparr>)
   | RetireFlag \<Rightarrow> w\<lparr>pw_queue := dq_close_flag (pw_queue w), pw_draining := pw_draining w + 1\<rparr>
   | RetireDrain \<Rightarrow>
       if pw_draining w = 0 then w
       else (case dq_drain (pw_queue w) of (q, answers) \<Rightarrow>
         w\<lparr>pw_queue := q, pw_draining := pw_draining w - 1, pw_answers := pw_answers w @ answers\<rparr>)
   | ReadFlag \<Rightarrow> (case pw_worker w of
       AtTop \<Rightarrow> w\<lparr>pw_worker := (if dq_closed (pw_queue w) then Returned else Taking)\<rparr>
     | _ \<Rightarrow> w)
   | Take \<Rightarrow> (case pw_worker w of Taking \<Rightarrow> worker_take w | _ \<Rightarrow> w)
   | Authorized yes \<Rightarrow> (case pw_worker w of
       Asking d \<Rightarrow>
         if yes then start_attempt w d
         else w\<lparr>pw_worker := AtTop, pw_answers := pw_answers w @ respond d NoToken, pw_dropped := pw_dropped w @ [d]\<rparr>
     | _ \<Rightarrow> w)
   | Attempted outcome \<Rightarrow> (case pw_worker w of
       InAttempt d \<Rightarrow> w\<lparr>pw_worker := (if is_gone outcome then GoneFlag else AtTop),
         pw_answers := pw_answers w @ respond d (outcome_answer outcome)\<rparr>
     | _ \<Rightarrow> w)
   | CloseFlag \<Rightarrow> (case pw_worker w of
       GoneFlag \<Rightarrow> w\<lparr>pw_queue := dq_close_flag (pw_queue w), pw_worker := GoneDrain\<rparr>
     | _ \<Rightarrow> w)
   | CloseDrain \<Rightarrow> (case pw_worker w of
       GoneDrain \<Rightarrow> (case dq_drain (pw_queue w) of (q, answers) \<Rightarrow>
         w\<lparr>pw_queue := q, pw_worker := Returned, pw_answers := pw_answers w @ answers\<rparr>)
     | _ \<Rightarrow> w)
   | Panic \<Rightarrow> (case pw_worker w of
       Asking d \<Rightarrow> w\<lparr>pw_worker := AtTop, pw_lost := pw_lost w @ [d]\<rparr>
     | InAttempt d \<Rightarrow> w\<lparr>pw_worker := AtTop, pw_lost := pw_lost w @ [d]\<rparr>
     | _ \<Rightarrow> w))"

text \<open>\<open>keep_running\<close> starts another worker after a panic: the worker is back at the top.\<close>

fun push_run :: "push_worker \<Rightarrow> push_event list \<Rightarrow> push_worker" where
  "push_run w [] = w"
| "push_run w (e # es) = push_run (push_step w e) es"

definition filed :: "push_event list \<Rightarrow> delivery list" where
  "filed es = concat (map (\<lambda>e. case e of File d \<Rightarrow> [d] | _ \<Rightarrow> []) es)"

end
