(* ===== verification/Ccd_Push_Queue_Props.thy ===== *)
theory Ccd_Push_Queue_Props
  imports Ccd_Push_Queue "HOL-Library.Multiset" "HOL-Library.Sublist"
begin

text \<open>
  Over every interleaving of pushes, retirement and the worker: each test push is answered exactly once,
  attempts start in the order the pushes were filed, at most eight pushes and one doorbell wait, and the
  doorbell that waits is the newest.
\<close>

section \<open>Operations\<close>

definition channel :: "delivery \<Rightarrow> nat list" where
  "channel d = (case dl_respond d of None \<Rightarrow> [] | Some c \<Rightarrow> [c])"

definition channels :: "delivery list \<Rightarrow> nat list" where
  "channels ds = concat (map channel ds)"

lemma fst_respond [simp]: "map fst (respond d a) = channel d"
  by (simp add: channel_def respond_def split: option.splits)

lemma mset_respond [simp]: "image_mset fst (mset (respond d a)) = mset (channel d)"
  by (simp add: channel_def respond_def split: option.splits)

lemma channels_simps [simp]:
  "channels [] = []" "channels (d # ds) = channel d @ channels ds" "channels (ds @ es) = channels ds @ channels es"
  by (simp_all add: channels_def)

lemma channel_doorbell: "is_doorbell d \<Longrightarrow> channel d = []"
  by (simp add: channel_def is_doorbell_def)

lemma remove_first_None: "\<not> list_ex P xs \<Longrightarrow> remove_first P xs = (None, xs)"
  by (induction xs) auto

lemma remove_first_Some:
  "list_ex P xs \<Longrightarrow> \<exists>as x bs. xs = as @ x # bs \<and> P x \<and> \<not> list_ex P as \<and> remove_first P xs = (Some x, as @ bs)"
proof (induction xs)
  case (Cons y ys)
  show ?case
  proof (cases "P y")
    case True
    then show ?thesis by (intro exI [of _ "[]"]) simp
  next
    case False
    with Cons obtain as x bs where "ys = as @ x # bs" "P x" "\<not> list_ex P as" "remove_first P ys = (Some x, as @ bs)"
      by auto
    with False show ?thesis by (intro exI [of _ "y # as"]) simp
  qed
qed simp

lemma remove_first_subseq: "subseq (snd (remove_first P xs)) xs"
  by (induction xs) (auto split: prod.splits)

lemma coalesce_subseq: "subseq (coalesce d ws) ws"
  by (simp add: coalesce_def remove_first_subseq)

lemma make_room_subseq: "subseq (fst (make_room ws)) ws"
  using remove_first_subseq [of "\<lambda>d. \<not> is_doorbell d" ws]
  by (auto simp: make_room_def split: option.splits prod.splits)

lemma coalesce_channels: "mset (channels (coalesce d ws)) = mset (channels ws)"
proof (cases "is_doorbell d \<and> list_ex is_doorbell ws")
  case True
  with remove_first_Some [of is_doorbell ws] obtain as x bs where
    "ws = as @ x # bs" "is_doorbell x" "remove_first is_doorbell ws = (Some x, as @ bs)" by blast
  with True show ?thesis by (simp add: coalesce_def channel_doorbell)
qed (auto simp: coalesce_def remove_first_None)

lemma make_room_channels:
  "mset (channels (fst (make_room ws))) + mset (map fst (snd (make_room ws))) = mset (channels ws)"
proof (cases "MAX_WAITING \<le> length ws \<and> list_ex (\<lambda>d. \<not> is_doorbell d) ws")
  case True
  with remove_first_Some [of "\<lambda>d. \<not> is_doorbell d" ws] obtain as x bs where
    "ws = as @ x # bs" "remove_first (\<lambda>d. \<not> is_doorbell d) ws = (Some x, as @ bs)" by blast
  with True show ?thesis by (simp add: make_room_def)
qed (auto simp: make_room_def remove_first_None)

lemma dq_push_channels:
  "mset (channels (dq_waiting (fst (dq_push q d)))) + mset (map fst (snd (dq_push q d))) =
     mset (channels (dq_waiting q)) + mset (channel d)"
  using make_room_channels [of "coalesce d (dq_waiting q)"]
  by (auto simp: dq_push_def coalesce_channels split: prod.splits)

lemma dq_drain_channels: "image_mset fst (mset (snd (dq_drain q))) = mset (channels (dq_waiting q))"
proof -
  have "map fst (snd (dq_drain q)) = channels (dq_waiting q)"
    by (simp add: dq_drain_def channels_def map_concat comp_def)
  then show ?thesis by (metis mset_map)
qed

section \<open>Every test is answered once\<close>

definition in_hand :: "worker \<Rightarrow> delivery list" where
  "in_hand k = (case k of Asking d \<Rightarrow> [d] | InAttempt d \<Rightarrow> [d] | _ \<Rightarrow> [])"

definition accounted :: "push_worker \<Rightarrow> nat multiset" where
  "accounted w = mset (channels (dq_waiting (pw_queue w))) + mset (channels (in_hand (pw_worker w))) +
     mset (map fst (pw_answers w)) + mset (channels (pw_lost w))"

lemma filed_simps [simp]:
  "filed [] = []" "filed (e # es) = (case e of File d \<Rightarrow> [d] | _ \<Rightarrow> []) @ filed es" "filed (es @ es') = filed es @ filed es'"
  by (simp_all add: filed_def)

lemma accounted_take: "pw_worker w = Taking \<Longrightarrow> accounted (worker_take w) = accounted w"
  by (auto simp: worker_take_def dq_take_def start_attempt_def accounted_def in_hand_def
      split: list.splits)

lemma accounted_step: "accounted (push_step w e) = accounted w + mset (channels (filed [e]))"
proof (cases e)
  case (File d)
  with dq_push_channels [of "pw_queue w" d] show ?thesis
    by (auto simp: push_step_def accounted_def split: prod.splits)
next
  case Take
  then show ?thesis by (auto simp: push_step_def accounted_take split: worker.splits)
next
  case RetireDrain
  with dq_drain_channels [of "pw_queue w"] show ?thesis
    by (auto simp: push_step_def accounted_def dq_drain_def split: prod.splits)
next
  case CloseDrain
  with dq_drain_channels [of "pw_queue w"] show ?thesis
    by (auto simp: push_step_def accounted_def dq_drain_def in_hand_def split: prod.splits worker.splits)
qed (auto simp: push_step_def accounted_def dq_close_flag_def in_hand_def start_attempt_def split: worker.splits)

lemma accounted_run: "accounted (push_run w es) = accounted w + mset (channels (filed es))"
proof (induction es arbitrary: w)
  case (Cons e es)
  then show ?case using accounted_step [of w e] by (simp add: ac_simps)
qed simp

text \<open>A closed queue is empty but for the moment between its flag and its drain.\<close>

definition closing_ok :: "push_worker \<Rightarrow> bool" where
  "closing_ok w \<longleftrightarrow>
     (dq_closed (pw_queue w) \<and> pw_draining w = 0 \<and> pw_worker w \<noteq> GoneDrain \<longrightarrow> dq_waiting (pw_queue w) = []) \<and>
     (pw_worker w \<in> {GoneDrain, Returned} \<or> 0 < pw_draining w \<longrightarrow> dq_closed (pw_queue w))"

lemma closing_ok_step: "closing_ok w \<Longrightarrow> closing_ok (push_step w e)"
  by (cases e)
    (auto simp: closing_ok_def push_step_def dq_push_def dq_drain_def dq_close_flag_def worker_take_def dq_take_def
      start_attempt_def split: worker.splits prod.splits list.splits)

lemma closing_ok_run: "closing_ok w \<Longrightarrow> closing_ok (push_run w es)"
  by (induction es arbitrary: w) (simp_all add: closing_ok_step)

text \<open>Whoever asks for a test push is told once what became of it. Over every interleaving of pushes,
  retirement and the worker, the channels of all the tests filed are, each exactly once, those answered,
  those of tests still waiting or in the worker's hands, and those a panicking worker dropped; and once a
  closed queue has been drained nothing is left waiting in it, nor is anything filed later left there.\<close>
theorem every_test_is_answered_once:
  "mset (channels (filed es)) =
     mset (map fst (pw_answers (push_run new_push_worker es))) +
     mset (channels (dq_waiting (pw_queue (push_run new_push_worker es)))) +
     mset (channels (in_hand (pw_worker (push_run new_push_worker es)))) +
     mset (channels (pw_lost (push_run new_push_worker es))) \<and>
   (dq_closed (pw_queue (push_run new_push_worker es)) \<and> pw_draining (push_run new_push_worker es) = 0 \<and>
     pw_worker (push_run new_push_worker es) \<noteq> GoneDrain \<longrightarrow>
     dq_waiting (pw_queue (push_run new_push_worker es)) = [])"
proof -
  have "accounted new_push_worker = {#}" "closing_ok new_push_worker"
    by (simp_all add: accounted_def closing_ok_def new_push_worker_def new_device_queue_def in_hand_def)
  then show ?thesis
    using accounted_run [of new_push_worker es] closing_ok_run [of new_push_worker es]
    by (simp add: accounted_def closing_ok_def ac_simps)
qed

definition sample_target :: push_target where
  "sample_target = \<lparr>pt_token = ''aa'', pt_environment = Sandbox, pt_device = ''p'', pt_credential = None\<rparr>"

definition sample :: "nat option \<Rightarrow> delivery" where
  "sample c = \<lparr>dl_target = sample_target, dl_payload = ''x'', dl_collapse = ''c'', dl_respond = c, dl_recheck = False\<rparr>"

lemma every_test_is_answered_once_witness:
  "dq_waiting (pw_queue (push_run new_push_worker [File (sample (Some 1)), RetireFlag, File (sample (Some 2)), RetireDrain])) = []"
  by (rule every_test_is_answered_once [THEN conjunct2, rule_format])
    (simp add: push_step_def new_push_worker_def new_device_queue_def dq_push_def dq_close_flag_def dq_drain_def
      coalesce_def make_room_def is_doorbell_def sample_def MAX_WAITING_def)

section \<open>Order and bounds\<close>

definition not_attempted :: "worker \<Rightarrow> delivery list" where
  "not_attempted k = (case k of Asking d \<Rightarrow> [d] | _ \<Rightarrow> [])"

definition in_order :: "push_worker \<Rightarrow> delivery list" where
  "in_order w = pw_attempted w @ not_attempted (pw_worker w) @ dq_waiting (pw_queue w)"

lemma dq_push_subseq: "subseq (dq_waiting (fst (dq_push q d))) (dq_waiting q @ [d])"
  using subseq_order.trans [OF make_room_subseq [of "coalesce d (dq_waiting q)"] coalesce_subseq]
  by (auto simp: dq_push_def split: prod.splits intro: list_emb_append_mono)

lemma subseq_drop_one: "subseq (as @ bs) (as @ x # bs)"
  by (intro list_emb_append_mono) auto

lemma in_order_step: "subseq (in_order (push_step w e)) (in_order w @ filed [e])"
proof (cases e)
  case (File d)
  have "in_order (push_step w e) = (pw_attempted w @ not_attempted (pw_worker w)) @ dq_waiting (fst (dq_push (pw_queue w) d))"
    using File by (simp add: in_order_def push_step_def split: prod.splits)
  then show ?thesis
    using File list_emb_append_mono [OF _ dq_push_subseq [of "pw_queue w" d],
      of "pw_attempted w @ not_attempted (pw_worker w)" "pw_attempted w @ not_attempted (pw_worker w)"]
    by (simp add: in_order_def)
next
  case Take
  then show ?thesis
    by (auto simp: push_step_def in_order_def worker_take_def dq_take_def start_attempt_def not_attempted_def
        split: worker.splits list.splits)
qed (auto simp: push_step_def in_order_def not_attempted_def dq_drain_def dq_close_flag_def start_attempt_def
    subseq_drop_one split: worker.splits prod.splits)

lemma in_order_run: "subseq (in_order (push_run w es)) (in_order w @ filed es)"
proof (induction es arbitrary: w)
  case (Cons e es)
  have "subseq (in_order (push_run w (e # es))) (in_order (push_step w e) @ filed es)"
    using Cons.IH [of "push_step w e"] by simp
  also have "subseq \<dots> ((in_order w @ filed [e]) @ filed es)"
    by (intro list_emb_append_mono in_order_step) simp
  finally show ?case by simp
qed simp

abbreviation doorbells :: "delivery list \<Rightarrow> delivery list" where
  "doorbells ds \<equiv> filter is_doorbell ds"

lemma doorbells_test: "\<not> is_doorbell x \<Longrightarrow> doorbells (as @ x # bs) = doorbells (as @ bs)"
  by simp

lemma make_room_doorbells: "doorbells (fst (make_room ws)) = doorbells ws"
proof (cases "MAX_WAITING \<le> length ws \<and> list_ex (\<lambda>d. \<not> is_doorbell d) ws")
  case True
  with remove_first_Some [of "\<lambda>d. \<not> is_doorbell d" ws] obtain as x bs where
    "ws = as @ x # bs" "\<not> is_doorbell x" "remove_first (\<lambda>d. \<not> is_doorbell d) ws = (Some x, as @ bs)" by blast
  with True show ?thesis by (simp add: make_room_def)
qed (auto simp: make_room_def remove_first_None)

lemma make_room_length:
  assumes "length (doorbells ws) \<le> 1" "length ws \<le> MAX_WAITING"
  shows "length (fst (make_room ws)) < MAX_WAITING"
proof (cases "MAX_WAITING \<le> length ws")
  case True
  have "list_ex (\<lambda>d. \<not> is_doorbell d) ws"
  proof (rule ccontr)
    assume "\<not> list_ex (\<lambda>d. \<not> is_doorbell d) ws"
    then have "doorbells ws = ws" by (auto simp: list_ex_iff intro: filter_True)
    with assms(1) True show False by (simp add: MAX_WAITING_def)
  qed
  with remove_first_Some [of "\<lambda>d. \<not> is_doorbell d" ws] obtain as x bs where
    "ws = as @ x # bs" "remove_first (\<lambda>d. \<not> is_doorbell d) ws = (Some x, as @ bs)" by blast
  with True assms(2) show ?thesis by (simp add: make_room_def)
qed (simp add: make_room_def)

lemma coalesce_doorbells:
  assumes "length (doorbells ws) \<le> 1"
  shows "doorbells (coalesce d ws) = (if is_doorbell d then [] else doorbells ws)"
proof (cases "is_doorbell d \<and> list_ex is_doorbell ws")
  case True
  with remove_first_Some [of is_doorbell ws] obtain as x bs where
    "ws = as @ x # bs" "is_doorbell x" "remove_first is_doorbell ws = (Some x, as @ bs)" by blast
  with True assms show ?thesis by (simp add: coalesce_def)
next
  case False
  then show ?thesis by (auto simp: coalesce_def remove_first_None list_ex_iff filter_empty_conv)
qed

lemma coalesce_length: "length (coalesce d ws) \<le> length ws"
  using coalesce_subseq [of d ws] by (rule list_emb_length)

lemma dq_push_doorbells:
  assumes "length (doorbells (dq_waiting q)) \<le> 1" "length (dq_waiting q) \<le> MAX_WAITING"
  shows "length (dq_waiting (fst (dq_push q d))) \<le> MAX_WAITING"
    "doorbells (dq_waiting (fst (dq_push q d))) =
       (if dq_closed q then doorbells (dq_waiting q) else if is_doorbell d then [d] else doorbells (dq_waiting q))"
proof -
  have bells: "doorbells (coalesce d (dq_waiting q)) = (if is_doorbell d then [] else doorbells (dq_waiting q))"
    by (rule coalesce_doorbells [OF assms(1)])
  have "length (fst (make_room (coalesce d (dq_waiting q)))) < MAX_WAITING"
    using assms bells coalesce_length [of d "dq_waiting q"] by (intro make_room_length) auto
  then show "length (dq_waiting (fst (dq_push q d))) \<le> MAX_WAITING"
    using assms(2) by (auto simp: dq_push_def split: prod.splits)
  show "doorbells (dq_waiting (fst (dq_push q d))) =
       (if dq_closed q then doorbells (dq_waiting q) else if is_doorbell d then [d] else doorbells (dq_waiting q))"
    using bells make_room_doorbells [of "coalesce d (dq_waiting q)"]
    by (auto simp: dq_push_def split: prod.splits)
qed

text \<open>What has become of a delivery that is no longer waiting.\<close>

definition handled :: "push_worker \<Rightarrow> delivery list" where
  "handled w = not_attempted (pw_worker w) @ pw_attempted w @ pw_dropped w @ pw_lost w"

definition bells_ok :: "push_worker \<Rightarrow> delivery list \<Rightarrow> bool" where
  "bells_ok w f \<longleftrightarrow> length (dq_waiting (pw_queue w)) \<le> MAX_WAITING \<and>
     length (doorbells (dq_waiting (pw_queue w))) \<le> 1 \<and>
     (dq_closed (pw_queue w) \<or> doorbells f = [] \<and> doorbells (dq_waiting (pw_queue w)) = [] \<or>
      doorbells f \<noteq> [] \<and> (doorbells (dq_waiting (pw_queue w)) = [last (doorbells f)] \<or>
        doorbells (dq_waiting (pw_queue w)) = [] \<and> last (doorbells f) \<in> set (handled w)))"

lemma bells_ok_take: "bells_ok w f \<Longrightarrow> pw_worker w = Taking \<Longrightarrow> bells_ok (worker_take w) f"
  by (auto simp: bells_ok_def worker_take_def dq_take_def start_attempt_def handled_def not_attempted_def
      split: list.splits if_splits)

lemma bells_ok_step: "closing_ok w \<Longrightarrow> bells_ok w f \<Longrightarrow> bells_ok (push_step w e) (f @ filed [e])"
proof (cases e)
  case (File d)
  assume ok: "bells_ok w f"
  then have "length (doorbells (dq_waiting (pw_queue w))) \<le> 1" "length (dq_waiting (pw_queue w)) \<le> MAX_WAITING"
    by (simp_all add: bells_ok_def)
  note push = dq_push_doorbells [OF this, of d]
  have "dq_closed (fst (dq_push (pw_queue w) d)) = dq_closed (pw_queue w)"
    by (simp add: dq_push_def split: prod.splits)
  with ok push File show ?thesis
    by (auto simp: bells_ok_def push_step_def handled_def split: prod.splits if_splits)
next
  case Take
  assume "bells_ok w f"
  with Take show ?thesis by (auto simp: push_step_def bells_ok_take split: worker.splits)
qed (auto simp: closing_ok_def bells_ok_def push_step_def dq_close_flag_def dq_drain_def start_attempt_def handled_def not_attempted_def
    split: worker.splits prod.splits)

lemma bells_ok_run: "closing_ok w \<Longrightarrow> bells_ok w f \<Longrightarrow> bells_ok (push_run w es) (f @ filed es)"
proof (induction es arbitrary: w f)
  case (Cons e es)
  from Cons.IH [OF closing_ok_step [OF Cons.prems(1)] bells_ok_step [OF Cons.prems, of e]] show ?case by simp
qed simp

text \<open>Pushes leave in the order they were decided, and the newest doorbell is never the one that is lost.
  Over every interleaving, the attempts that were started, the one in hand and what waits are in the order
  they were filed; at most eight pushes and one doorbell wait; and while the queue is open the last
  doorbell filed is the one that waits, or it has been taken: no test and no older doorbell displaced it.\<close>
theorem pushes_leave_in_the_order_decided:
  "subseq (in_order (push_run new_push_worker es)) (filed es) \<and>
   length (dq_waiting (pw_queue (push_run new_push_worker es))) \<le> MAX_WAITING \<and>
   length (doorbells (dq_waiting (pw_queue (push_run new_push_worker es)))) \<le> 1 \<and>
   (dq_closed (pw_queue (push_run new_push_worker es)) \<or> doorbells (filed es) = [] \<or>
    last (doorbells (filed es)) \<in> set (dq_waiting (pw_queue (push_run new_push_worker es)) @
      handled (push_run new_push_worker es)))"
proof -
  let ?w = "push_run new_push_worker es"
  have ok: "bells_ok ?w (filed es)"
    using bells_ok_run [of new_push_worker "[]" es]
    by (simp add: bells_ok_def closing_ok_def new_push_worker_def new_device_queue_def)
  have "last (doorbells (filed es)) \<in> set (dq_waiting (pw_queue ?w))"
    if "doorbells (dq_waiting (pw_queue ?w)) = [last (doorbells (filed es))]"
  proof -
    have "last (doorbells (filed es)) \<in> set (doorbells (dq_waiting (pw_queue ?w)))" unfolding that by simp
    then show ?thesis by simp
  qed
  with ok have "dq_closed (pw_queue ?w) \<or> doorbells (filed es) = [] \<or>
    last (doorbells (filed es)) \<in> set (dq_waiting (pw_queue ?w) @ handled ?w)"
    by (auto simp: bells_ok_def)
  moreover have "subseq (in_order ?w) (filed es)"
    using in_order_run [of new_push_worker es]
    by (simp add: in_order_def new_push_worker_def new_device_queue_def not_attempted_def)
  ultimately show ?thesis using ok by (simp add: bells_ok_def)
qed

end
