(* ===== verification/Ccd_Push_Mailbox.thy ===== *)
theory Ccd_Push_Mailbox
  imports Ccd_Push_Queue_Props Simulation
begin

text \<open>
  What a device's queue is, said without a list to search: one place for the newest doorbell, a line of
  test pushes, and a clock that stamps what is filed. What leaves is what was stamped first. The
  queue of the source refines it.
\<close>

section \<open>The mailbox\<close>

record mailbox =
  mb_bell :: "(nat \<times> delivery) option"
  mb_tests :: "(nat \<times> delivery) list"
  mb_clock :: nat
  mb_shut :: bool

definition new_mailbox :: mailbox where
  "new_mailbox = \<lparr>mb_bell = None, mb_tests = [], mb_clock = 0, mb_shut = False\<rparr>"

datatype queue_op = PushOp delivery | TakeOp | ShutOp | DrainOp

type_synonym queue_output = "delivery option \<times> test_answer list"

definition queue_step :: "(device_queue, queue_op, queue_output) machine" where
  "queue_step q oper = (case oper of
     PushOp d \<Rightarrow> (case dq_push q d of (q, answers) \<Rightarrow> (q, None, answers))
   | TakeOp \<Rightarrow> (case dq_take q of (d, q) \<Rightarrow> (q, d, []))
   | ShutOp \<Rightarrow> (dq_close_flag q, None, [])
   | DrainOp \<Rightarrow> (case dq_drain q of (q, answers) \<Rightarrow> (q, None, answers)))"

definition drop_oldest :: "nat \<Rightarrow> mailbox \<Rightarrow> mailbox \<times> test_answer list" where
  "drop_oldest others m =
     (if MAX_WAITING \<le> length (mb_tests m) + others then
        (case mb_tests m of
           [] \<Rightarrow> (m, [])
         | (k, d) # ts \<Rightarrow> (m\<lparr>mb_tests := ts\<rparr>, respond d (Failed BACKED_UP)))
      else (m, []))"

definition box_push :: "mailbox \<Rightarrow> delivery \<Rightarrow> mailbox \<times> test_answer list" where
  "box_push m d =
     (if mb_shut m then (m, respond d NoToken)
      else if is_doorbell d then
        (case drop_oldest 0 m of (m, answers) \<Rightarrow>
           (m\<lparr>mb_bell := Some (mb_clock m, d), mb_clock := mb_clock m + 1\<rparr>, answers))
      else
        (case drop_oldest (if mb_bell m = None then 0 else 1) m of (m, answers) \<Rightarrow>
           (m\<lparr>mb_tests := mb_tests m @ [(mb_clock m, d)], mb_clock := mb_clock m + 1\<rparr>, answers)))"

definition box_take :: "mailbox \<Rightarrow> delivery option \<times> mailbox" where
  "box_take m = (case (mb_bell m, mb_tests m) of
     (None, []) \<Rightarrow> (None, m)
   | (Some (k, b), []) \<Rightarrow> (Some b, m\<lparr>mb_bell := None\<rparr>)
   | (None, (i, t) # ts) \<Rightarrow> (Some t, m\<lparr>mb_tests := ts\<rparr>)
   | (Some (k, b), (i, t) # ts) \<Rightarrow>
       if i < k then (Some t, m\<lparr>mb_tests := ts\<rparr>) else (Some b, m\<lparr>mb_bell := None\<rparr>))"

definition box_step :: "(mailbox, queue_op, queue_output) machine" where
  "box_step m oper = (case oper of
     PushOp d \<Rightarrow> (case box_push m d of (m, answers) \<Rightarrow> (m, None, answers))
   | TakeOp \<Rightarrow> (case box_take m of (d, m) \<Rightarrow> (m, d, []))
   | ShutOp \<Rightarrow> (m\<lparr>mb_shut := True\<rparr>, None, [])
   | DrainOp \<Rightarrow> (m\<lparr>mb_bell := None, mb_tests := []\<rparr>, None,
       concat (map (\<lambda>(k, d). respond d NoToken) (mb_tests m))))"

section \<open>The queue is a mailbox\<close>

text \<open>The line of a mailbox: the doorbell among the tests, where its stamp puts it.\<close>

fun place :: "(nat \<times> delivery) option \<Rightarrow> (nat \<times> delivery) list \<Rightarrow> delivery list" where
  "place None ts = map snd ts"
| "place (Some (k, b)) [] = [b]"
| "place (Some (k, b)) ((i, t) # ts) = (if i < k then t # place (Some (k, b)) ts else b # t # map snd ts)"

definition box_ok :: "mailbox \<Rightarrow> bool" where
  "box_ok m \<longleftrightarrow> sorted (map fst (mb_tests m)) \<and> list_all (\<lambda>(i, t). \<not> is_doorbell t \<and> i < mb_clock m) (mb_tests m) \<and>
     (case mb_bell m of None \<Rightarrow> True | Some (k, b) \<Rightarrow> is_doorbell b \<and> k < mb_clock m)"

definition box_rel :: "device_queue \<Rightarrow> mailbox \<Rightarrow> bool" where
  "box_rel q m \<longleftrightarrow> box_ok m \<and> dq_waiting q = place (mb_bell m) (mb_tests m) \<and> dq_closed q = mb_shut m"

lemma place_length: "length (place b ts) = length ts + (if b = None then 0 else 1)"
  by (induction b ts rule: place.induct) auto

lemma place_newest: "list_all (\<lambda>(i, t). i < k) ts \<Longrightarrow> place (Some (k, b)) ts = map snd ts @ [b]"
  by (induction ts) auto

lemma place_snoc: "k < i \<Longrightarrow> place (Some (k, b)) (ts @ [(i, t)]) = place (Some (k, b)) ts @ [t]"
  by (induction ts) auto

lemma place_no_bell:
  assumes "list_all (\<lambda>(i, t). \<not> is_doorbell t) ts" "case b of None \<Rightarrow> True | Some (k, d) \<Rightarrow> is_doorbell d"
  shows "snd (remove_first is_doorbell (place b ts)) = map snd ts"
  using assms
proof (induction b ts rule: place.induct)
  case (1 ts)
  then show ?case by (subst remove_first_None) (auto simp: list_ex_iff list_all_iff)
qed (auto split: prod.splits)

lemma place_oldest: "list_all (\<lambda>(i, t). \<not> i < k) ts \<Longrightarrow> place (Some (k, b)) ts = b # map snd ts"
  by (cases ts) auto

lemma place_no_test:
  assumes "sorted (map fst ts)" "list_all (\<lambda>(i, t). \<not> is_doorbell t) ts" "case b of None \<Rightarrow> True | Some (k, d) \<Rightarrow> is_doorbell d"
  shows "remove_first (\<lambda>d. \<not> is_doorbell d) (place b ts) =
    (case ts of [] \<Rightarrow> (None, place b []) | (i, t) # ts' \<Rightarrow> (Some t, place b ts'))"
  using assms
proof (cases ts)
  case (Cons x ts')
  obtain i t where x: "x = (i, t)" by (cases x)
  show ?thesis
  proof (cases b)
    case None
    with Cons x assms show ?thesis by simp
  next
    case (Some kd)
    obtain k d where kd: "kd = (k, d)" by (cases kd)
    have "place (Some (k, d)) ts' = d # map snd ts'" if "\<not> i < k"
      using that assms(1) Cons x by (intro place_oldest) (auto simp: list_all_iff)
    then show ?thesis using Cons x Some kd assms(2,3) by auto
  qed
qed (cases b; auto)

lemma box_okD:
  "box_ok m \<Longrightarrow> sorted (map fst (mb_tests m))"
  "box_ok m \<Longrightarrow> list_all (\<lambda>(i, t). \<not> is_doorbell t) (mb_tests m)"
  "box_ok m \<Longrightarrow> list_all (\<lambda>(i, t). i < mb_clock m) (mb_tests m)"
  "box_ok m \<Longrightarrow> (case mb_bell m of None \<Rightarrow> True | Some (k, b) \<Rightarrow> is_doorbell b)"
  by (auto simp: box_ok_def list_all_iff split: option.splits)

lemma make_room_place:
  assumes "sorted (map fst ts)" "list_all (\<lambda>(i, t). \<not> is_doorbell t) ts" "case b of None \<Rightarrow> True | Some (k, d) \<Rightarrow> is_doorbell d"
  shows "make_room (place b ts) =
    (if MAX_WAITING \<le> length ts + (if b = None then 0 else 1) then
       (case ts of [] \<Rightarrow> (place b [], []) | (i, t) # ts' \<Rightarrow> (place b ts', respond t (Failed BACKED_UP)))
     else (place b ts, []))"
  using place_no_test [OF assms] by (simp add: make_room_def place_length split: list.splits)

lemma drop_oldest_eq:
  "drop_oldest n m = (if MAX_WAITING \<le> length (mb_tests m) + n
     then (case mb_tests m of [] \<Rightarrow> (m, []) | (k, d) # ts \<Rightarrow> (m\<lparr>mb_tests := ts\<rparr>, respond d (Failed BACKED_UP)))
     else (m, []))"
  by (simp add: drop_oldest_def)

lemma drop_oldest_ok: "box_ok m \<Longrightarrow> box_ok (fst (drop_oldest n m))"
  by (cases "mb_bell m") (auto simp: drop_oldest_def box_ok_def split: list.splits)

lemma drop_oldest_frame [simp]:
  "mb_bell (fst (drop_oldest n m)) = mb_bell m" "mb_clock (fst (drop_oldest n m)) = mb_clock m"
  "mb_shut (fst (drop_oldest n m)) = mb_shut m"
  by (auto simp: drop_oldest_def split: list.splits)

lemma make_room_drop:
  assumes "box_ok m" "b = None \<or> b = mb_bell m" "n = (if b = None then 0 else 1)"
  shows "make_room (place b (mb_tests m)) = (place b (mb_tests (fst (drop_oldest n m))), snd (drop_oldest n m))"
proof -
  have "case b of None \<Rightarrow> True | Some (k, d) \<Rightarrow> is_doorbell d" using assms(2) box_okD(4) [OF assms(1)] by auto
  from make_room_place [OF box_okD(1) [OF assms(1)] box_okD(2) [OF assms(1)] this] show ?thesis
    using assms(3) by (auto simp: drop_oldest_def split: list.splits)
qed

lemma push_doorbell_rel:
  assumes "box_rel q m" "\<not> mb_shut m" "is_doorbell d"
  shows "box_rel (fst (dq_push q d)) (fst (box_push m d)) \<and> snd (dq_push q d) = snd (box_push m d)"
proof -
  have ok: "box_ok m" and waiting: "dq_waiting q = place (mb_bell m) (mb_tests m)" and shut: "\<not> dq_closed q"
    using assms(1,2) by (simp_all add: box_rel_def)
  obtain m' answers where drop: "drop_oldest 0 m = (m', answers)" by (cases "drop_oldest 0 m") auto
  have ok': "box_ok m'" using drop_oldest_ok [OF ok, of 0] drop by simp
  have frame: "mb_bell m' = mb_bell m" "mb_clock m' = mb_clock m" "mb_shut m' = mb_shut m"
    using drop_oldest_frame [of 0 m] drop by simp_all
  have "coalesce d (dq_waiting q) = place None (mb_tests m)"
    unfolding waiting using place_no_bell [OF box_okD(2,4) [OF ok]] assms(3) by (simp add: coalesce_def)
  with make_room_drop [OF ok, of None 0] drop
  have "make_room (coalesce d (dq_waiting q)) = (map snd (mb_tests m'), answers)" by simp
  then have push: "dq_push q d = (q\<lparr>dq_waiting := map snd (mb_tests m') @ [d]\<rparr>, answers)"
    using shut by (simp add: dq_push_def)
  have box: "box_push m d = (m'\<lparr>mb_bell := Some (mb_clock m', d), mb_clock := mb_clock m' + 1\<rparr>, answers)"
    using assms(2,3) drop by (simp add: box_push_def)
  have "box_ok (m'\<lparr>mb_bell := Some (mb_clock m', d), mb_clock := mb_clock m' + 1\<rparr>)"
    using ok' assms(3) by (auto simp: box_ok_def list_all_iff)
  then show ?thesis
    unfolding push box using place_newest [OF box_okD(3) [OF ok']] shut assms(2) frame by (simp add: box_rel_def)
qed

lemma push_test_rel:
  assumes "box_rel q m" "\<not> mb_shut m" "\<not> is_doorbell d"
  shows "box_rel (fst (dq_push q d)) (fst (box_push m d)) \<and> snd (dq_push q d) = snd (box_push m d)"
proof -
  have ok: "box_ok m" and waiting: "dq_waiting q = place (mb_bell m) (mb_tests m)" and shut: "\<not> dq_closed q"
    using assms(1,2) by (simp_all add: box_rel_def)
  let ?n = "if mb_bell m = None then 0 else 1"
  obtain m' answers where drop: "drop_oldest ?n m = (m', answers)" by (cases "drop_oldest ?n m") auto
  have ok': "box_ok m'" using drop_oldest_ok [OF ok, of ?n] drop by simp
  have frame: "mb_bell m' = mb_bell m" "mb_clock m' = mb_clock m" "mb_shut m' = mb_shut m"
    using drop_oldest_frame [of ?n m] drop by simp_all
  have "make_room (coalesce d (dq_waiting q)) = (place (mb_bell m) (mb_tests m'), answers)"
    using make_room_drop [OF ok, of "mb_bell m" ?n] drop assms(3) waiting by (simp add: coalesce_def)
  then have push: "dq_push q d = (q\<lparr>dq_waiting := place (mb_bell m) (mb_tests m') @ [d]\<rparr>, answers)"
    using shut by (simp add: dq_push_def)
  have box: "box_push m d = (m'\<lparr>mb_tests := mb_tests m' @ [(mb_clock m', d)], mb_clock := mb_clock m' + 1\<rparr>, answers)"
    using assms(2,3) drop by (simp add: box_push_def)
  have "box_ok (m'\<lparr>mb_tests := mb_tests m' @ [(mb_clock m', d)], mb_clock := mb_clock m' + 1\<rparr>)"
    using ok' assms(3) by (auto simp: box_ok_def list_all_iff sorted_append split: option.splits)
  moreover have "place (mb_bell m) (mb_tests m' @ [(mb_clock m', d)]) = place (mb_bell m) (mb_tests m') @ [d]"
    using ok' frame place_snoc by (cases "mb_bell m") (auto simp: box_ok_def)
  ultimately show ?thesis unfolding push box using shut assms(2) frame by (simp add: box_rel_def)
qed

lemma take_rel:
  assumes "box_rel q m"
  shows "box_rel (snd (dq_take q)) (snd (box_take m)) \<and> fst (dq_take q) = fst (box_take m)"
  using assms
  by (cases "mb_bell m"; cases "mb_tests m")
    (auto simp: box_rel_def box_ok_def dq_take_def box_take_def split: if_splits)

lemma drain_rel:
  assumes "box_rel q m"
  shows "concat (map (\<lambda>d. respond d NoToken) (dq_waiting q)) = concat (map (\<lambda>(k, d). respond d NoToken) (mb_tests m))"
proof -
  have bell: "is_doorbell b \<Longrightarrow> respond b NoToken = []" for b
    by (simp add: is_doorbell_def respond_def)
  have "concat (map (\<lambda>d. respond d NoToken) (place b ts)) = concat (map (\<lambda>(k, d). respond d NoToken) ts)"
    if "case b of None \<Rightarrow> True | Some (k, d) \<Rightarrow> is_doorbell d" for b ts
    using that by (induction b ts rule: place.induct) (auto simp: bell comp_def case_prod_unfold)
  then show ?thesis using assms box_okD(4) [of m] by (simp add: box_rel_def)
qed

interpretation box_sim: simulation queue_step box_step box_rel
proof
  fix q m oper
  assume rel: "box_rel q m"
  have push: "box_rel (fst (dq_push q d)) (fst (box_push m d)) \<and> snd (dq_push q d) = snd (box_push m d)" for d
  proof (cases "mb_shut m")
    case True
    with rel show ?thesis by (simp add: box_rel_def dq_push_def box_push_def)
  next
    case False
    with rel show ?thesis using push_doorbell_rel push_test_rel by blast
  qed
  have both: "box_rel (fst (queue_step q oper)) (fst (box_step m oper)) \<and> snd (queue_step q oper) = snd (box_step m oper)"
  proof (cases oper)
    case (PushOp d)
    with push [of d] show ?thesis by (simp add: queue_step_def box_step_def case_prod_beta)
  next
    case TakeOp
    with take_rel [OF rel] show ?thesis by (simp add: queue_step_def box_step_def case_prod_beta)
  next
    case ShutOp
    with rel show ?thesis
      by (cases "mb_bell m") (simp_all add: queue_step_def box_step_def box_rel_def box_ok_def dq_close_flag_def)
  next
    case DrainOp
    with rel drain_rel [OF rel] show ?thesis
      by (simp add: queue_step_def box_step_def box_rel_def box_ok_def dq_drain_def)
  qed
  then show "box_rel (fst (queue_step q oper)) (fst (box_step m oper))"
    "snd (queue_step q oper) = snd (box_step m oper)" by blast+
qed

text \<open>C16. A device's queue is a mailbox. Whatever is filed, taken and closed in whatever order, the queue of
  the source hands out the same deliveries and sends the same answers as a mailbox with one place for a
  doorbell, which the newest takes, and a line of tests, of which the oldest makes way when the eight places
  the two share are full; and what was filed first leaves first.\<close>
theorem the_queue_is_a_mailbox:
  "outputs queue_step new_device_queue opers = outputs box_step new_mailbox opers"
  by (rule box_sim.outputs_eq) (simp add: box_rel_def box_ok_def new_device_queue_def new_mailbox_def)

end
