(* ===== verification/Ccd_Approval.thy ===== *)
theory Ccd_Approval
  imports Protocol_Composite Protocol_Hash Protocol_Risk
begin

text \<open>
  From an app-server's approval request to the card on the phone, and from the phone's choice back to the
  decision on the wire (\<open>ccd/src/codex_approval.rs\<close>).

  A \<open>serde_json::Map\<close> is a B-tree: \<open>map_insert\<close> keeps its members in the order of their keys, which is the
  order it is written in. The JSON writer, the base64 engine and SHA-256 are arguments.
\<close>

section \<open>Text\<close>

definition ellipsis :: string where
  "ellipsis = [CHR 0xE2, CHR 0x80, CHR 0xA6]"

definition ends_with :: "string \<Rightarrow> string \<Rightarrow> bool" where
  "ends_with suffix s \<longleftrightarrow> length suffix \<le> length s \<and> drop (length s - length suffix) s = suffix"

text \<open>\<open>is_char_boundary\<close>, and the last boundary at or before an index.\<close>

definition char_boundary :: "string \<Rightarrow> nat \<Rightarrow> bool" where
  "char_boundary s n \<longleftrightarrow> n = 0 \<or> n = length s \<or> n < length s \<and> \<not> continuation (s ! n)"

fun boundary_before :: "string \<Rightarrow> nat \<Rightarrow> nat" where
  "boundary_before s 0 = 0"
| "boundary_before s (Suc n) = (if char_boundary s (Suc n) then Suc n else boundary_before s n)"

text \<open>\<open>trim().is_empty()\<close>, and \<open>char::is_control\<close>.\<close>

definition blank :: "string \<Rightarrow> bool" where
  "blank s \<longleftrightarrow> list_all is_whitespace (utf8_chars s)"

definition is_control :: "string \<Rightarrow> bool" where
  "is_control ch \<longleftrightarrow> code_point ch < 32 \<or> 127 \<le> code_point ch \<and> code_point ch \<le> 159"

fun map_insert :: "string \<Rightarrow> json \<Rightarrow> (string \<times> json) list \<Rightarrow> (string \<times> json) list" where
  "map_insert k v [] = [(k, v)]"
| "map_insert k v ((k', v') # ms) =
     (if k = k' then (k, v) # ms
      else if k < k' then (k, v) # (k', v') # ms
      else (k', v') # map_insert k v ms)"

section \<open>Methods and families\<close>

definition COMMAND_METHOD :: string where
  "COMMAND_METHOD = ''item/commandExecution/requestApproval''"

definition FILE_CHANGE_METHOD :: string where
  "FILE_CHANGE_METHOD = ''item/fileChange/requestApproval''"

definition REQUEST_APPROVAL_SUFFIX :: string where
  "REQUEST_APPROVAL_SUFFIX = ''/requestApproval''"

definition OBSERVE_ONLY_REASONS :: "(string \<times> string) list" where
  "OBSERVE_ONLY_REASONS = [(''item/permissions/requestApproval'',
     ''it asks for a permission profile rather than a decision about one action, so there is nothing a card '' @
     ''could offer and it must be answered at the computer'')]"

definition MAX_COMMAND_BYTES :: nat where "MAX_COMMAND_BYTES = 8 * 1024"
definition MAX_DIFF_BYTES :: nat where "MAX_DIFF_BYTES = 16 * 1024"
definition MAX_CHANGES :: nat where "MAX_CHANGES = 32"
definition MAX_TOTAL_DIFF_BYTES :: nat where "MAX_TOTAL_DIFF_BYTES = 128 * 1024"
definition MAX_REASON_BYTES :: nat where "MAX_REASON_BYTES = 4 * 1024"
definition LOCAL_ENVIRONMENT :: string where "LOCAL_ENVIRONMENT = ''local''"
definition AMENDMENT_DECISION :: string where "AMENDMENT_DECISION = ''acceptWithExecpolicyAmendment''"
definition AMENDMENT_ARGV :: string where "AMENDMENT_ARGV = ''execpolicy_amendment''"
definition MAX_LABEL_ARGV_BYTES :: nat where "MAX_LABEL_ARGV_BYTES = 512"

datatype family = CommandFamily | FileChangeFamily

definition of_method :: "string \<Rightarrow> family option" where
  "of_method m = (if m = COMMAND_METHOD then Some CommandFamily
     else if m = FILE_CHANGE_METHOD then Some FileChangeFamily else None)"

definition family_as_str :: "family \<Rightarrow> string" where
  "family_as_str f = (case f of CommandFamily \<Rightarrow> ''commandExecution'' | FileChangeFamily \<Rightarrow> ''fileChange'')"

definition of_item_type :: "string \<Rightarrow> family option" where
  "of_item_type t = (if t = ''commandExecution'' then Some CommandFamily
     else if t = ''fileChange'' then Some FileChangeFamily else None)"

definition family_tool_name :: "family \<Rightarrow> string" where
  "family_tool_name f = (case f of CommandFamily \<Rightarrow> ''command'' | FileChangeFamily \<Rightarrow> ''file change'')"

definition family_labels :: "family \<Rightarrow> (string \<times> string) list" where
  "family_labels f = (case f of
     CommandFamily \<Rightarrow>
       [(''accept'', ''Yes, proceed''),
        (''acceptWithExecpolicyAmendment'', ''Yes, and don'' @ [CHR 0x27] @ ''t ask again for this command''),
        (''cancel'', ''No, and tell Codex what to do differently'')]
   | FileChangeFamily \<Rightarrow>
       [(''accept'', ''Yes, proceed''),
        (''acceptForSession'', ''Yes, and don'' @ [CHR 0x27] @ ''t ask again for these files''),
        (''cancel'', ''No, and tell Codex what to do differently'')])"

definition is_observe_only :: "string \<Rightarrow> bool" where
  "is_observe_only m \<longleftrightarrow> ends_with REQUEST_APPROVAL_SUFFIX m \<and> of_method m = None"

definition observe_only_reason :: "string \<Rightarrow> string" where
  "observe_only_reason m = (case hget OBSERVE_ONLY_REASONS m of
     Some why \<Rightarrow> why
   | None \<Rightarrow> ''this build has no card for it '' @ em_dash @ '' it is an approval family that arrived after the two a '' @
       ''phone answers, so nothing here knows what to offer for it and it must be answered at the computer'')"

section \<open>The words of an amendment\<close>

datatype amendment_words = Naming string | GenericWords | Withhold

definition UNQUOTED_TOKEN_CHARS :: string where "UNQUOTED_TOKEN_CHARS = ''_@%+=:,./-''"
definition MEASURED_WRAPPER_FLAG :: string where "MEASURED_WRAPPER_FLAG = ''-lc''"
definition MEASURED_WRAPPER_SHELL :: string where "MEASURED_WRAPPER_SHELL = ''zsh''"
definition SHELL_NAMES :: "string list" where
  "SHELL_NAMES = [''sh'', ''bash'', ''zsh'', ''dash'', ''ksh'', ''fish'']"

datatype shell_wrapper = Measured string | Unmeasured | NoWrapper

definition wrapper :: "string list \<Rightarrow> shell_wrapper" where
  "wrapper argv = (case argv of
     [] \<Rightarrow> NoWrapper
   | first # _ \<Rightarrow>
       if basename first \<notin> set SHELL_NAMES then NoWrapper
       else (case argv of
           [shell, flag, script] \<Rightarrow>
             if flag = MEASURED_WRAPPER_FLAG \<and> basename shell = MEASURED_WRAPPER_SHELL then Measured script
             else Unmeasured
         | _ \<Rightarrow> Unmeasured))"

text \<open>Every byte of a character beyond ASCII is beyond ASCII, so the characters a shell leaves alone are
  judged by the byte.\<close>

definition shell_spelling :: "string \<Rightarrow> string option" where
  "shell_spelling tok =
     (if tok = [] then None
      else if list_all (\<lambda>c. is_alnum c \<or> c \<in> set UNQUOTED_TOKEN_CHARS) tok then Some tok
      else if CHR 0x27 \<in> set tok \<or> list_ex is_control (utf8_chars tok) then None
      else Some ([CHR 0x27] @ tok @ [CHR 0x27]))"

fun all_strings :: "json list \<Rightarrow> string list option" where
  "all_strings [] = Some []"
| "all_strings (v # vs) = (case as_str v of None \<Rightarrow> None
     | Some s \<Rightarrow> (case all_strings vs of None \<Rightarrow> None | Some ss \<Rightarrow> Some (s # ss)))"

text \<open>The spelled tokens, a space before each but the first that leaves something.\<close>

fun spell_tokens :: "string \<Rightarrow> string list \<Rightarrow> amendment_words" where
  "spell_tokens out [] = Naming out"
| "spell_tokens out (tok # toks) = (case shell_spelling tok of
     None \<Rightarrow> GenericWords
   | Some spelled \<Rightarrow> spell_tokens ((if out = [] then out else out @ '' '') @ spelled) toks)"

definition amendment_words :: "json option \<Rightarrow> amendment_words" where
  "amendment_words payload =
     (case Option.bind (Option.bind payload (jget AMENDMENT_ARGV)) as_array of
        None \<Rightarrow> GenericWords
      | Some toks \<Rightarrow> (case all_strings toks of
          None \<Rightarrow> GenericWords
        | Some argv \<Rightarrow>
            if argv = [] then GenericWords
            else if list_ex (\<lambda>tok. CHR 0x0D \<in> set tok \<or> CHR 0x0A \<in> set tok) argv then Withhold
            else (case wrapper argv of
                Measured script \<Rightarrow> if blank script then GenericWords else Naming script
              | Unmeasured \<Rightarrow> GenericWords
              | NoWrapper \<Rightarrow> spell_tokens [] argv)))"

definition elided :: "string \<Rightarrow> nat \<Rightarrow> string" where
  "elided s limit = (if length s \<le> limit then s else take (boundary_before s limit) s @ ellipsis)"

definition label_for :: "family \<Rightarrow> string \<Rightarrow> json option \<Rightarrow> string option" where
  "label_for f ident payload = (case hget (family_labels f) ident of
     None \<Rightarrow> None
   | Some general \<Rightarrow>
       if ident \<noteq> AMENDMENT_DECISION then Some general
       else (case amendment_words payload of
           Naming argv \<Rightarrow> Some (''Yes, and don'' @ [CHR 0x27] @ ''t ask again for commands that start with '' @
             [CHR 0x60] @ elided argv MAX_LABEL_ARGV_BYTES @ [CHR 0x60])
         | GenericWords \<Rightarrow> Some general
         | Withhold \<Rightarrow> None))"

section \<open>The decisions offered\<close>

record choice =
  ch_id :: string
  ch_label :: string
  ch_payload :: "json option"

definition choice_to_json :: "choice \<Rightarrow> json" where
  "choice_to_json c =
     (let out = map_insert ''label'' (JStr (ch_label c)) (map_insert ''id'' (JStr (ch_id c)) []) in
      JObj (case ch_payload c of None \<Rightarrow> out | Some payload \<Rightarrow> map_insert ''payload'' payload out))"

definition decision_of :: "json \<Rightarrow> (string \<times> json option) option" where
  "decision_of v = (case v of
     JStr ident \<Rightarrow> Some (ident, None)
   | JObj [(ident, body)] \<Rightarrow> Some (ident, Some body)
   | _ \<Rightarrow> None)"

definition wire_decision :: "json \<Rightarrow> string \<Rightarrow> json option" where
  "wire_decision options option_id = (case as_array options of
     None \<Rightarrow> None
   | Some offers \<Rightarrow> (case find (\<lambda>offer. Option.bind (jget ''id'' offer) as_str = Some option_id) offers of
       None \<Rightarrow> None
     | Some offered \<Rightarrow> Some (case jget ''payload'' offered of
           Some payload \<Rightarrow> if payload \<noteq> JNull then JObj [(option_id, payload)] else JStr option_id
         | None \<Rightarrow> JStr option_id)))"

definition choice_of :: "family \<Rightarrow> json \<Rightarrow> choice option" where
  "choice_of f v = (case decision_of v of
     None \<Rightarrow> None
   | Some (ident, payload) \<Rightarrow>
       map_option (\<lambda>label. \<lparr>ch_id = ident, ch_label = label, ch_payload = payload\<rparr>) (label_for f ident payload))"

definition choices :: "family \<Rightarrow> json \<Rightarrow> choice list" where
  "choices f params = (case f of
     FileChangeFamily \<Rightarrow> map (\<lambda>(ident, label). \<lparr>ch_id = ident, ch_label = label, ch_payload = None\<rparr>) (family_labels f)
   | CommandFamily \<Rightarrow> (case Option.bind (jget ''availableDecisions'' params) as_array of
       None \<Rightarrow> []
     | Some offered \<Rightarrow> List.map_filter (choice_of f) offered))"

section \<open>Reading a request\<close>

datatype approval_context =
    CommandContext string "string option" "string option" "json option"
  | FileChangeContext "json list" "string option" "string option"

record approval =
  ap_family :: family
  ap_thread_id :: string
  ap_turn_id :: string
  ap_item_id :: string
  ap_context :: approval_context
  ap_choices :: "choice list"

datatype approval_refusal = MalformedField string | NoContent | NoLabelledChoice | UnmeasuredEnvironment

definition show_approval_refusal :: "approval_refusal \<Rightarrow> string" where
  "show_approval_refusal r = (case r of
     MalformedField field \<Rightarrow> ''the required field '' @ field @ '' was missing''
   | NoContent \<Rightarrow> ''the request named no action: a command approval with no command, or a file change whose '' @
       ''item/started this connection never observed''
   | NoLabelledChoice \<Rightarrow> ''the wire offered no decision this build can name''
   | UnmeasuredEnvironment \<Rightarrow> ''the request does not name environmentId '' @ [CHR 0x22] @ LOCAL_ENVIRONMENT @ [CHR 0x22] @
       '', which is the only place this build has ever measured a command running and the only one it can '' @
       ''honestly describe on a card'')"

definition non_empty :: "json \<Rightarrow> string \<Rightarrow> approval_refusal + string" where
  "non_empty params key = (case Option.bind (jget key params) as_str of
     Some v \<Rightarrow> if v \<noteq> [] then Inr v else Inl (MalformedField key)
   | None \<Rightarrow> Inl (MalformedField key))"

definition optional :: "json \<Rightarrow> string \<Rightarrow> string option" where
  "optional params key = (case Option.bind (jget key params) as_str of
     Some v \<Rightarrow> if \<not> blank v then Some v else None
   | None \<Rightarrow> None)"

definition read_context :: "family \<Rightarrow> json \<Rightarrow> json option \<Rightarrow> approval_refusal + approval_context" where
  "read_context f params started = (case f of
     CommandFamily \<Rightarrow>
       if jget ''environmentId'' params \<noteq> Some (JStr LOCAL_ENVIRONMENT) then Inl UnmeasuredEnvironment
       else (case optional params ''command'' of
           None \<Rightarrow> Inl NoContent
         | Some command \<Rightarrow> Inr (CommandContext command (optional params ''cwd'') (optional params ''reason'')
             (case jget ''proposedExecpolicyAmendment'' params of
                Some v \<Rightarrow> if v \<noteq> JNull then Some v else None
              | None \<Rightarrow> None)))
   | FileChangeFamily \<Rightarrow>
       (let changes = (case Option.bind (Option.bind started (jget ''changes'')) as_array of None \<Rightarrow> [] | Some xs \<Rightarrow> xs) in
        if changes = [] then Inl NoContent
        else Inr (FileChangeContext changes (optional params ''reason'') (optional params ''grantRoot''))))"

definition approval_read :: "family \<Rightarrow> json \<Rightarrow> json option \<Rightarrow> approval_refusal + approval" where
  "approval_read f params started =
     and_then (non_empty params ''threadId'') (\<lambda>thread_id.
     and_then (non_empty params ''turnId'') (\<lambda>turn_id.
     and_then (non_empty params ''itemId'') (\<lambda>item_id.
     and_then (read_context f params started) (\<lambda>ctx.
       let cs = choices f params in
       if cs = [] then Inl NoLabelledChoice
       else Inr \<lparr>ap_family = f, ap_thread_id = thread_id, ap_turn_id = turn_id, ap_item_id = item_id,
         ap_context = ctx, ap_choices = cs\<rparr>))))"

section \<open>The card\<close>

definition approval_request_id :: "b64 \<Rightarrow> approval \<Rightarrow> string \<Rightarrow> 64 word \<Rightarrow> composite_error + string" where
  "approval_request_id B a session_uid generation = composite_encode B
     \<lparr>ci_session_uid = session_uid, ci_thread_id = ap_thread_id a, ci_server_request_id = IdText (ap_item_id a),
      ci_generation = generation\<rparr>"

definition bounded :: "'h sha \<Rightarrow> string \<Rightarrow> nat \<Rightarrow> string" where
  "bounded S s limit =
     (if length s \<le> limit then s
      else let stop = boundary_before s limit in
        take stop s @ ellipsis @ '' ('' @ dec (length s - stop) @ '' bytes elided; sha256 of the whole text ''
          @ sha256_hex S s @ '')'')"

definition bounded_change :: "'h sha \<Rightarrow> json \<Rightarrow> nat \<Rightarrow> json" where
  "bounded_change S change max_diff = (case change of
     JObj ms \<Rightarrow> (case Option.bind (hget ms ''diff'') as_str of
         Some diff \<Rightarrow> JObj (map_insert ''diff'' (JStr (bounded S diff max_diff)) ms)
       | None \<Rightarrow> JObj ms)
   | _ \<Rightarrow> change)"

definition insert_opt :: "string \<Rightarrow> json option \<Rightarrow> (string \<times> json) list \<Rightarrow> (string \<times> json) list" where
  "insert_opt k v ms = (case v of None \<Rightarrow> ms | Some v \<Rightarrow> map_insert k v ms)"

definition changes_omitted :: "ext \<Rightarrow> 'h sha \<Rightarrow> json list \<Rightarrow> json" where
  "changes_omitted L S omitted =
     JObj [(''count'', JInt (int (length omitted))), (''sha256'', JStr (sha256_hex S (json_write L (JArr omitted))))]"

definition tool_input :: "ext \<Rightarrow> 'h sha \<Rightarrow> approval \<Rightarrow> json" where
  "tool_input L S a =
     (let inp = (case ap_context a of
        CommandContext command cwd reason amendment \<Rightarrow>
          insert_opt ''proposed_amendment'' amendment
            (insert_opt ''reason'' (map_option (\<lambda>r. JStr (bounded S r MAX_REASON_BYTES)) reason)
              (insert_opt ''cwd'' (map_option JStr cwd)
                (map_insert ''command'' (JStr (bounded S command MAX_COMMAND_BYTES)) [])))
      | FileChangeContext changes reason grant_root \<Rightarrow>
          (let shown = min (length changes) MAX_CHANGES;
               per_diff = min (MAX_TOTAL_DIFF_BYTES div max shown 1) MAX_DIFF_BYTES;
               base = insert_opt ''path'' (case changes of [] \<Rightarrow> None | c # _ \<Rightarrow> jget ''path'' c) [];
               listed = map_insert ''changes'' (JArr (map (\<lambda>c. bounded_change S c per_diff) (take shown changes))) base;
               cut = (if shown < length changes
                 then map_insert ''changes_omitted'' (changes_omitted L S (drop shown changes)) listed else listed)
           in insert_opt ''grant_root'' (map_option JStr grant_root)
                (insert_opt ''reason'' (map_option (\<lambda>r. JStr (bounded S r MAX_REASON_BYTES)) reason) cut)))
      in JObj (map_insert ''options'' (JArr (map choice_to_json (ap_choices a))) inp))"

definition classified :: "approval \<Rightarrow> json" where
  "classified a = (case ap_context a of
     CommandContext command cwd reason amendment \<Rightarrow> JObj [(''command'', JStr command)]
   | FileChangeContext changes reason grant_root \<Rightarrow> JObj [(''changes'', JArr changes)])"

record approval_card =
  ac_request_id :: string
  ac_payload_hash :: string
  ac_tool_name :: string
  ac_tool_input :: json
  ac_display_text :: string
  ac_permission_suggestions :: "json option"
  ac_prompt_id :: "string option"
  ac_permission_mode :: "string option"
  ac_risk :: "risk_assessment option"
  ac_generation :: "64 word"
  ac_identity_bound :: bool

definition approval_card_of :: "ext \<Rightarrow> 'h sha \<Rightarrow> approval \<Rightarrow> string \<Rightarrow> 64 word \<Rightarrow> approval_card" where
  "approval_card_of L S a request_id generation =
     (let tool_name = family_tool_name (ap_family a); inp = tool_input L S a in
      \<lparr>ac_request_id = request_id,
       ac_payload_hash = approval_payload_hash L S tool_name inp,
       ac_tool_name = tool_name,
       ac_tool_input = inp,
       ac_display_text = approval_payload_text L tool_name inp,
       ac_permission_suggestions = None,
       ac_prompt_id = None,
       ac_permission_mode = None,
       ac_risk = Some (risk_classify tool_name (classified a)),
       ac_generation = generation,
       ac_identity_bound = False\<rparr>)"

end
