(* ===== verification/Ccd_Approval_Props.thy ===== *)
theory Ccd_Approval_Props
  imports Ccd_Approval Protocol_Composite_Props Protocol_Hash_Props
begin

text \<open>
  A phone can pick only what the app-server offered, a card is raised for exactly the requests that say
  what they ask, and a card commits to everything it describes, shown or cut.
\<close>

section \<open>Members\<close>

lemma map_of_map_insert: "map_of (map_insert k v ms) = (map_of ms)(k \<mapsto> v)"
  by (induction k v ms rule: map_insert.induct) (auto simp: fun_eq_iff)

lemma map_of_insert_opt:
  "map_of (insert_opt k v ms) = (case v of None \<Rightarrow> map_of ms | Some v \<Rightarrow> (map_of ms)(k \<mapsto> v))"
  by (simp add: insert_opt_def map_of_map_insert split: option.splits)

text \<open>The members of a choice on the card.\<close>

lemma choice_members:
  "jget ''id'' (choice_to_json c) = Some (JStr (ch_id c))"
  "jget ''label'' (choice_to_json c) = Some (JStr (ch_label c))"
  "jget ''payload'' (choice_to_json c) = ch_payload c"
  by (simp_all add: choice_to_json_def map_of_map_insert Let_def jget_def split: option.splits)

lemma choice_to_json_inj: "choice_to_json c = choice_to_json d \<Longrightarrow> c = d"
  using choice_members [of c] choice_members [of d] by (cases c; cases d) simp

lemma tool_input_options:
  "jget ''options'' (tool_input L S a) = Some (JArr (map choice_to_json (ap_choices a)))"
  by (simp add: tool_input_def map_of_map_insert Let_def jget_def)

section \<open>Reading\<close>

lemma choice_of_Some:
  "choice_of f v = Some c \<longleftrightarrow> (\<exists>payload label. decision_of v = Some (ch_id c, payload) \<and>
     label_for f (ch_id c) payload = Some label \<and> c = \<lparr>ch_id = ch_id c, ch_label = label, ch_payload = payload\<rparr>)"
  by (auto simp: choice_of_def split: option.splits)

lemma decision_of_Some:
  "decision_of v = Some (ident, None) \<longleftrightarrow> v = JStr ident"
  "decision_of v = Some (ident, Some body) \<longleftrightarrow> v = JObj [(ident, body)]"
  by (auto simp: decision_of_def split: json.splits list.splits)

lemma choices_command:
  "c \<in> set (choices CommandFamily params) \<Longrightarrow>
     \<exists>offered v. jget ''availableDecisions'' params = Some (JArr offered) \<and> v \<in> set offered \<and> choice_of CommandFamily v = Some c"
proof -
  assume c: "c \<in> set (choices CommandFamily params)"
  then obtain offered where o: "Option.bind (jget ''availableDecisions'' params) as_array = Some offered"
    by (cases "Option.bind (jget ''availableDecisions'' params) as_array") (auto simp: choices_def)
  then have "jget ''availableDecisions'' params = Some (JArr offered)"
    by (auto simp: bind_eq_Some_conv as_array_Some_iff)
  moreover have "c \<in> set (List.map_filter (choice_of CommandFamily) offered)"
    using c o by (simp add: choices_def)
  then obtain v where "v \<in> set offered" "choice_of CommandFamily v = Some c"
    by (force simp: map_filter_def)
  ultimately show ?thesis by blast
qed

lemma choices_file_change:
  "c \<in> set (choices FileChangeFamily params) \<Longrightarrow> ch_id c \<in> set (map fst (family_labels FileChangeFamily)) \<and> ch_payload c = None"
  by (force simp: choices_def)

lemma approval_read_Inr:
  "approval_read f params started = Inr a \<Longrightarrow> ap_choices a = choices f params \<and> ap_choices a \<noteq> [] \<and> ap_family a = f \<and>
     read_context f params started = Inr (ap_context a) \<and> non_empty params ''threadId'' = Inr (ap_thread_id a) \<and>
     non_empty params ''turnId'' = Inr (ap_turn_id a) \<and> non_empty params ''itemId'' = Inr (ap_item_id a)"
  by (auto simp: approval_read_def and_then_Inr Let_def split: if_splits)

text \<open>What the options on a card answer with: the first choice of that id.\<close>

lemma wire_decision_choices:
  "wire_decision (JArr (map choice_to_json cs)) ident = map_option (\<lambda>c. case ch_payload c of
     Some payload \<Rightarrow> if payload \<noteq> JNull then JObj [(ident, payload)] else JStr ident | None \<Rightarrow> JStr ident)
     (find (\<lambda>c. ch_id c = ident) cs)"
proof -
  have "find (\<lambda>offer. Option.bind (jget ''id'' offer) as_str = Some ident) (map choice_to_json cs) =
      map_option choice_to_json (find (\<lambda>c. ch_id c = ident) cs)"
    by (induction cs) (auto simp: choice_members)
  then show ?thesis
    by (auto simp: wire_decision_def as_array_def choice_members split: option.splits)
qed

text \<open>C17. A phone picks between the server's offers and composes none. The decision that the card's own
  options give for whatever id a phone sends is, for a command, one of the decisions the request itself
  offered, word for word; and for a file change one of the three names of its table. The one exception is
  an offer whose body is \<open>null\<close>, which is answered by its bare name.\<close>
theorem a_phone_picks_only_what_was_offered:
  assumes "approval_read f params started = Inr a"
    and "Option.bind (jget ''options'' (tool_input L S a)) (\<lambda>options. wire_decision options ident) = Some d"
  shows "case f of
      CommandFamily \<Rightarrow> (\<exists>offered. jget ''availableDecisions'' params = Some (JArr offered) \<and>
        (d \<in> set offered \<or> d = JStr ident \<and> JObj [(ident, JNull)] \<in> set offered))
    | FileChangeFamily \<Rightarrow> d = JStr ident \<and> ident \<in> set (map fst (family_labels FileChangeFamily))"
proof -
  from assms(2) obtain c where find: "find (\<lambda>c. ch_id c = ident) (ap_choices a) = Some c"
    and d: "d = (case ch_payload c of Some payload \<Rightarrow> if payload \<noteq> JNull then JObj [(ident, payload)] else JStr ident
        | None \<Rightarrow> JStr ident)"
    unfolding tool_input_options Option.bind.bind_lunit wire_decision_choices by blast
  have c: "c \<in> set (choices f params)" "ch_id c = ident"
    using find approval_read_Inr [OF assms(1)] by (auto simp: find_Some_iff)
  show ?thesis
  proof (cases f)
    case CommandFamily
    with c(1) choices_command obtain offered v where
      "jget ''availableDecisions'' params = Some (JArr offered)" "v \<in> set offered" "choice_of CommandFamily v = Some c"
      by blast
    moreover from this obtain payload label where "decision_of v = Some (ident, payload)"
      "c = \<lparr>ch_id = ident, ch_label = label, ch_payload = payload\<rparr>"
      using c(2) unfolding choice_of_Some by blast
    then have "decision_of v = Some (ident, ch_payload c)" by simp
    ultimately show ?thesis
      using d CommandFamily by (cases "ch_payload c") (auto simp: decision_of_Some)
  next
    case FileChangeFamily
    with c choices_file_change [of c params] d show ?thesis by auto
  qed
qed

definition no_writer :: ext where
  "no_writer = \<lparr>json_read = (\<lambda>_. (JNull, True)), json_write = (\<lambda>_. []), uni_verbatim = (\<lambda>_. True)\<rparr>"

definition one_offer :: json where
  "one_offer = JObj [(''threadId'', JStr ''t''), (''turnId'', JStr ''u''), (''itemId'', JStr ''i''),
     (''environmentId'', JStr ''local''), (''command'', JStr ''ls''), (''availableDecisions'', JArr [JStr ''accept'', JStr ''decline''])]"

definition one_choice :: approval where
  "one_choice = \<lparr>ap_family = CommandFamily, ap_thread_id = ''t'', ap_turn_id = ''u'', ap_item_id = ''i'',
     ap_context = CommandContext ''ls'' None None None,
     ap_choices = [\<lparr>ch_id = ''accept'', ch_label = ''Yes, proceed'', ch_payload = None\<rparr>]\<rparr>"

lemma one_offer_read: "approval_read CommandFamily one_offer None = Inr one_choice"
  by (simp add: approval_read_def non_empty_def and_then_def read_context_def optional_def choices_def one_offer_def
      one_choice_def jget_def as_str_def as_array_def LOCAL_ENVIRONMENT_def map_filter_def choice_of_def decision_of_def
      label_for_def family_labels_def AMENDMENT_DECISION_def blank_def is_whitespace_def code_point_def byte_def
      utf8_width_def)

lemma a_phone_picks_only_what_was_offered_witness:
  "\<exists>offered. jget ''availableDecisions'' one_offer = Some (JArr offered) \<and>
     (JStr ''accept'' \<in> set offered \<or> JStr ''accept'' = JStr ''accept'' \<and> JObj [(''accept'', JNull)] \<in> set offered)"
proof -
  have "Option.bind (jget ''options'' (tool_input no_writer plain_sha one_choice)) (\<lambda>options. wire_decision options ''accept'')
      = Some (JStr ''accept'')"
    unfolding tool_input_options Option.bind.bind_lunit wire_decision_choices by (simp add: one_choice_def)
  from a_phone_picks_only_what_was_offered [OF one_offer_read this] show ?thesis by simp
qed

section \<open>Cutting a text\<close>

lemma utf8_valid_lead: "utf8_valid s \<Longrightarrow> s \<noteq> [] \<Longrightarrow> \<not> continuation (hd s)"
  by (cases s) (auto simp: continuation_def split: if_splits list.splits)

lemma first_char:
  assumes "utf8_valid (c # s)"
  shows "\<exists>b t. c # s = b @ t \<and> 1 \<le> length b \<and> length b \<le> 4 \<and> utf8_valid t"
proof -
  have split: "c # s = take n (c # s) @ drop n (c # s)" for n by simp
  consider "utf8_valid (drop 1 (c # s))" | "utf8_valid (drop 2 (c # s))" | "utf8_valid (drop 3 (c # s))"
    | "utf8_valid (drop 4 (c # s))"
  proof (cases "byte c < 0x80")
    case False
    note wide = this
    show thesis
    proof (cases "0xC2 \<le> byte c \<and> byte c \<le> 0xDF")
      case True
      with wide assms that(2) show thesis by (cases s) simp_all
    next
      case False
      note wider = this
      show thesis
      proof (cases "0xE0 \<le> byte c \<and> byte c \<le> 0xEF")
        case True
        with wide wider assms that(3) show thesis by (simp split: list.splits)
      next
        case False
        with wide wider assms that(4) show thesis by (simp split: list.splits if_splits)
      qed
    qed
  qed (use assms that(1) in simp)
  moreover have "?thesis" if "utf8_valid (drop n (c # s))" "1 \<le> n" "n \<le> 4" for n
  proof -
    from assms have "drop n (c # s) = [] \<longrightarrow> utf8_valid []" by simp
    with that have "c # s = take n (c # s) @ drop n (c # s)" "1 \<le> length (take n (c # s))" "length (take n (c # s)) \<le> 4"
      by auto
    with that(1) show ?thesis by blast
  qed
  note near = this
  ultimately show ?thesis by cases (use near [of 1] near [of 2] near [of 3] near [of 4] in simp_all)
qed

lemma valid_suffix_near:
  "utf8_valid s \<Longrightarrow> n \<le> length s \<Longrightarrow> \<exists>k\<le>n. n < k + 4 \<and> utf8_valid (drop k s)"
proof (induction s arbitrary: n rule: length_induct)
  case (1 s)
  show ?case
  proof (cases "n < 4")
    case True
    with 1(2) show ?thesis by (intro exI [of _ 0]) simp
  next
    case False
    with 1(3) obtain c s' where "s = c # s'" by (cases s) auto
    with first_char [of c s'] 1(2) obtain b t where s: "s = b @ t" and b: "1 \<le> length b" "length b \<le> 4" and t: "utf8_valid t"
      by auto
    from 1(3) s have "n - length b \<le> length t" by simp
    moreover from s b have "length t < length s" by (simp add: Suc_le_eq)
    ultimately obtain k where k: "k \<le> n - length b" "n - length b < k + 4" "utf8_valid (drop k t)"
      using 1(1) t by blast
    then have "utf8_valid (drop (length b + k) s)" by (simp add: s)
    with k b False show ?thesis by (intro exI [of _ "length b + k"]) linarith
  qed
qed

lemma boundary_before_le: "boundary_before s n \<le> n"
  by (induction s n rule: boundary_before.induct) auto

lemma boundary_before_ge: "k \<le> n \<Longrightarrow> char_boundary s k \<Longrightarrow> k \<le> boundary_before s n"
  by (induction s n rule: boundary_before.induct) (auto simp: le_Suc_eq)

lemma suffix_boundary: "utf8_valid (drop k s) \<Longrightarrow> k \<le> length s \<Longrightarrow> char_boundary s k"
  using utf8_valid_lead [of "drop k s"] by (auto simp: char_boundary_def hd_drop_conv_nth)

lemma boundary_before_near:
  assumes "utf8_valid s" "n \<le> length s"
  shows "n < boundary_before s n + 4"
proof -
  obtain k where "k \<le> n" "n < k + 4" "utf8_valid (drop k s)" using valid_suffix_near [OF assms] by blast
  with boundary_before_ge [of k n s] suffix_boundary [of k s] assms(2) show ?thesis by simp
qed

lemma bounded_long:
  "limit < length s \<Longrightarrow> bounded S s limit = (take (boundary_before s limit) s @ ellipsis @ '' (''
     @ dec (length s - boundary_before s limit) @ '' bytes elided; sha256 of the whole text '') @ sha256_hex S s @ '')''"
  by (simp add: bounded_def Let_def)

lemma bounded_long_length: "utf8_valid s \<Longrightarrow> limit < length s \<Longrightarrow> limit < length (bounded S s limit)"
  using boundary_before_near [of s limit] by (simp add: bounded_long)

text \<open>What the phone is shown of a text stands for the text itself, or for one with its digest.\<close>

definition same_or_collides :: "'h sha \<Rightarrow> string \<Rightarrow> string \<Rightarrow> bool" where
  "same_or_collides S s t \<longleftrightarrow> s = t \<or> sha256_bytes S s = sha256_bytes S t"

definition digest_laws :: "'h sha \<Rightarrow> bool" where
  "digest_laws S \<longleftrightarrow> (\<forall>s. length (sha256_bytes S s) = 32)"

lemma length_hex_of [simp]: "length (hex_of s) = 2 * length s"
  by (induction s) (simp_all add: hex_of_def)

lemma bounded_commits:
  assumes "digest_laws S" "utf8_valid s" "utf8_valid t" "bounded S s limit = bounded S t limit"
  shows "same_or_collides S s t"
proof (cases "limit < length s \<and> limit < length t")
  case True
  have "length (sha256_hex S x) = 64" for x using assms(1) by (simp add: sha256_hex_def digest_laws_def)
  then have "sha256_hex S s = sha256_hex S t"
    using assms(4) True by (simp add: bounded_long append_eq_append_conv del: append_assoc)
  then show ?thesis by (auto simp: same_or_collides_def sha256_hex_def dest: hex_of_inj)
next
  case False
  have "limit < length x \<longleftrightarrow> limit < length (bounded S x limit)" if "utf8_valid x" for x
    using bounded_long_length [OF that, of limit S] by (auto simp: bounded_def)
  with assms False have "\<not> limit < length s" "\<not> limit < length t" by metis+
  with assms(4) show ?thesis by (simp add: bounded_def same_or_collides_def)
qed

section \<open>What a card commits to\<close>

lemma command_input:
  assumes "ap_context a = CommandContext command cwd reason amendment"
  shows "jget ''command'' (tool_input L S a) = Some (JStr (bounded S command MAX_COMMAND_BYTES))"
    "jget ''cwd'' (tool_input L S a) = map_option JStr cwd"
    "jget ''reason'' (tool_input L S a) = map_option (\<lambda>r. JStr (bounded S r MAX_REASON_BYTES)) reason"
    "jget ''proposed_amendment'' (tool_input L S a) = amendment"
  using assms
  by (simp_all add: tool_input_def Let_def jget_def map_of_map_insert map_of_insert_opt split: option.splits)

lemma map_JStr_inj: "map_option JStr x = map_option JStr y \<longleftrightarrow> x = y"
  by (cases x; cases y) auto

lemma map_choice_inj: "map choice_to_json cs = map choice_to_json ds \<Longrightarrow> cs = ds"
  by (rule map_injective) (auto intro: injI choice_to_json_inj)

text \<open>C18. A card commits to the whole of what it asks. Two command approvals that look the same on the
  phone offer the same choices, in the same directory and with the same amendment; and their commands and
  reasons are the same to the last byte, also where the card shows only the beginning, unless two
  different texts have one SHA-256 digest.\<close>
theorem a_card_commits_to_the_whole_command:
  assumes "digest_laws S"
    and "ap_context a = CommandContext command cwd reason amendment" "utf8_valid command" "pred_option utf8_valid reason"
    and "ap_context b = CommandContext command' cwd' reason' amendment'" "utf8_valid command'" "pred_option utf8_valid reason'"
    and "ac_tool_input (approval_card_of L S a r g) = ac_tool_input (approval_card_of L S b r' g')"
  shows "ap_choices a = ap_choices b \<and> cwd = cwd' \<and> amendment = amendment' \<and>
    same_or_collides S command command' \<and> rel_option (same_or_collides S) reason reason'"
proof -
  from assms(8) have same: "jget k (tool_input L S a) = jget k (tool_input L S b)" for k
    by (simp add: approval_card_of_def Let_def)
  have reasons: "map_option (\<lambda>r. JStr (bounded S r MAX_REASON_BYTES)) reason = map_option (\<lambda>r. JStr (bounded S r MAX_REASON_BYTES)) reason'"
    using same [of "''reason''"] by (simp only: command_input [OF assms(2)] command_input [OF assms(5)])
  have "rel_option (same_or_collides S) reason reason'"
    using reasons assms(4,7) bounded_commits [OF assms(1)] by (cases reason; cases reason') auto
  moreover have "same_or_collides S command command'"
    using same [of "''command''"]
    by (intro bounded_commits [OF assms(1,3,6)]) (simp only: command_input [OF assms(2)] command_input [OF assms(5)]
        option.inject json.inject)
  moreover have "cwd = cwd'" "amendment = amendment'"
    using same [of "''cwd''"] same [of "''proposed_amendment''"]
    by (simp_all only: command_input [OF assms(2)] command_input [OF assms(5)] map_JStr_inj)
  moreover have "ap_choices a = ap_choices b"
    using same [of "''options''"] by (intro map_choice_inj) (simp only: tool_input_options option.inject json.inject)
  ultimately show ?thesis by blast
qed

definition short_sha :: "string sha" where
  "short_sha = \<lparr>sha_new = [], sha_update = (@), sha_finalize = (\<lambda>s. take 32 (s @ replicate 32 CHR 0x00))\<rparr>"

lemma a_card_commits_witness:
  "ap_choices one_choice = ap_choices (one_choice\<lparr>ap_item_id := ''j''\<rparr>) \<and> None = (None :: string option) \<and>
    None = (None :: json option) \<and> same_or_collides short_sha ''ls'' ''ls'' \<and>
    rel_option (same_or_collides short_sha) None None"
proof -
  have "digest_laws short_sha" by (auto simp: digest_laws_def sha256_bytes_def short_sha_def min_def)
  moreover have "ac_tool_input (approval_card_of no_writer short_sha one_choice ''r'' 1) =
      ac_tool_input (approval_card_of no_writer short_sha (one_choice\<lparr>ap_item_id := ''j''\<rparr>) ''r'' 2)"
    by (simp add: approval_card_of_def Let_def tool_input_def)
  ultimately show ?thesis
    using a_card_commits_to_the_whole_command [of short_sha one_choice "''ls''" None None None
        "one_choice\<lparr>ap_item_id := ''j''\<rparr>" "''ls''" None None None no_writer "''r''" 1 "''r''" 2]
    by (simp add: one_choice_def ascii_utf8_valid byte_def)
qed

lemma non_empty_iff: "(\<exists>v. non_empty params key = Inr v) \<longleftrightarrow> (\<exists>v. jget key params = Some (JStr v) \<and> v \<noteq> [])"
  by (auto simp: non_empty_def as_str_def split: option.splits json.splits bind_splits)

lemma optional_iff: "optional params key = Some v \<longleftrightarrow> jget key params = Some (JStr v) \<and> \<not> blank v"
  by (auto simp: optional_def as_str_def split: option.splits json.splits bind_splits)

lemma read_context_iff:
  "(\<exists>ctx. read_context f params started = Inr ctx) \<longleftrightarrow> (case f of
     CommandFamily \<Rightarrow> jget ''environmentId'' params = Some (JStr LOCAL_ENVIRONMENT) \<and>
       (\<exists>command. jget ''command'' params = Some (JStr command) \<and> \<not> blank command)
   | FileChangeFamily \<Rightarrow> (\<exists>item c cs. started = Some item \<and> jget ''changes'' item = Some (JArr (c # cs))))"
proof (cases f)
  case CommandFamily
  then show ?thesis using optional_iff [of params "''command''"]
    by (cases "optional params ''command''") (auto simp: read_context_def)
next
  case FileChangeFamily
  then show ?thesis
    by (cases started; cases "jget ''changes'' (the started)")
      (auto simp: read_context_def Let_def as_array_def neq_Nil_conv split: json.splits)
qed

lemma choices_offered:
  "choices f params \<noteq> [] \<longleftrightarrow> (case f of
     CommandFamily \<Rightarrow> (\<exists>offered v ident payload. jget ''availableDecisions'' params = Some (JArr offered) \<and> v \<in> set offered \<and>
       decision_of v = Some (ident, payload) \<and> label_for CommandFamily ident payload \<noteq> None)
   | FileChangeFamily \<Rightarrow> True)"
proof (cases f)
  case CommandFamily
  have "List.map_filter (choice_of CommandFamily) offered \<noteq> [] \<longleftrightarrow> (\<exists>v ident payload. v \<in> set offered \<and>
      decision_of v = Some (ident, payload) \<and> label_for CommandFamily ident payload \<noteq> None)" for offered
    by (force simp: map_filter_def filter_empty_conv choice_of_def split: option.splits)
  with CommandFamily show ?thesis
    by (cases "jget ''availableDecisions'' params") (auto simp: choices_def as_array_def split: json.splits)
qed (simp add: choices_def family_labels_def)

lemma approval_read_Inr_iff:
  "(\<exists>a. approval_read f params started = Inr a) \<longleftrightarrow>
     (\<exists>v. non_empty params ''threadId'' = Inr v) \<and> (\<exists>v. non_empty params ''turnId'' = Inr v) \<and>
     (\<exists>v. non_empty params ''itemId'' = Inr v) \<and> (\<exists>ctx. read_context f params started = Inr ctx) \<and> choices f params \<noteq> []"
  by (auto simp: approval_read_def and_then_Inr Let_def)

text \<open>A card is raised for exactly the requests that say what they ask. A request is read when it
  names a thread, a turn and an item, and offers a choice this build has words for; a command must name
  itself and the local environment, a file change must have been announced with at least one change.
  What is read is what was said: ids and choices are the request's own.\<close>
theorem a_card_needs_the_whole_request:
  "(\<exists>a. approval_read f params started = Inr a) \<longleftrightarrow>
     list_all (\<lambda>key. \<exists>v. jget key params = Some (JStr v) \<and> v \<noteq> []) [''threadId'', ''turnId'', ''itemId''] \<and>
     (case f of
        CommandFamily \<Rightarrow> jget ''environmentId'' params = Some (JStr LOCAL_ENVIRONMENT) \<and>
          (\<exists>command. jget ''command'' params = Some (JStr command) \<and> \<not> blank command) \<and>
          (\<exists>offered v ident payload. jget ''availableDecisions'' params = Some (JArr offered) \<and> v \<in> set offered \<and>
            decision_of v = Some (ident, payload) \<and> label_for CommandFamily ident payload \<noteq> None)
      | FileChangeFamily \<Rightarrow> (\<exists>item c cs. started = Some item \<and> jget ''changes'' item = Some (JArr (c # cs))))"
  unfolding approval_read_Inr_iff non_empty_iff read_context_iff choices_offered
  by (cases f) (simp_all only: list.pred_inject family.case simp_thms conj_assoc)

end
