(* ===== verification/Claim_Ledger.thy ===== *)
theory Claim_Ledger
  imports Main
begin

text \<open>
  The law of a claim ledger, as the callers that write to a phone's agent rely on it: a key is claimed
  before anything is written under it, a claim is given back only while it is open, and what is
  closed stays closed under the material it was claimed with.

  \<open>row s k\<close> is the material a key is claimed with and whether the claim is closed; \<open>step\<close> is any call.
  \<open>grants x s k\<close> says that the call \<open>x\<close> at \<open>s\<close> handed the key to its caller, \<open>gives_back x s k\<close> that
  it took an open claim out of the ledger.
\<close>

text \<open>How often a call of some kind happens to a key in a run of calls.\<close>

primrec count_in :: "('x \<Rightarrow> 's \<Rightarrow> 's) \<Rightarrow> ('x \<Rightarrow> 's \<Rightarrow> 'k \<Rightarrow> bool) \<Rightarrow> 'x list \<Rightarrow> 's \<Rightarrow> 'k \<Rightarrow> nat" where
  "count_in step happens [] s k = 0"
| "count_in step happens (x # xs) s k = (if happens x s k then 1 else 0) + count_in step happens xs (step x s) k"

lemma count_in_append:
  "count_in step happens (xs @ ys) s k = count_in step happens xs s k + count_in step happens ys (fold step xs s) k"
  by (induction xs arbitrary: s) auto

locale claim_ledger =
  fixes row :: "'s \<Rightarrow> 'k \<Rightarrow> ('m \<times> bool) option"
    and step :: "'x \<Rightarrow> 's \<Rightarrow> 's"
    and grants :: "'x \<Rightarrow> 's \<Rightarrow> 'k \<Rightarrow> bool"
    and gives_back :: "'x \<Rightarrow> 's \<Rightarrow> 'k \<Rightarrow> bool"
    and sound :: "'s \<Rightarrow> bool"
  assumes step_sound: "sound s \<Longrightarrow> sound (step x s)"
    and granted: "sound s \<Longrightarrow> grants x s k \<Longrightarrow> row s k = None \<and> (\<exists>m. row (step x s) k = Some (m, False))"
    and given_back: "sound s \<Longrightarrow> gives_back x s k \<Longrightarrow> (\<exists>m. row s k = Some (m, False)) \<and> row (step x s) k = None"
    and kept: "sound s \<Longrightarrow> row s k = Some (m, closed) \<Longrightarrow> \<not> gives_back x s k \<Longrightarrow>
       row (step x s) k = Some (m, closed) \<or> row (step x s) k = Some (m, True)"
    and idle: "sound s \<Longrightarrow> row s k = None \<Longrightarrow> \<not> grants x s k \<Longrightarrow> row (step x s) k = None"
begin

definition claimed :: "'s \<Rightarrow> 'k \<Rightarrow> nat" where
  "claimed s k = (if row s k = None then 0 else 1)"

lemma run_sound: "sound s \<Longrightarrow> sound (fold step xs s)"
  by (induction xs arbitrary: s) (auto intro: step_sound)

lemma step_balance:
  "sound s \<Longrightarrow> (if grants x s k then 1 else 0) + claimed s k = (if gives_back x s k then 1 else 0) + claimed (step x s) k"
proof (cases "row s k")
  case None
  assume s: "sound s"
  with None have "\<not> gives_back x s k" using given_back [of s x k] by auto
  then show ?thesis using s None granted [of s x k] idle [of s k x] by (auto simp: claimed_def)
next
  case (Some entry)
  assume s: "sound s"
  obtain m closed where e: "entry = (m, closed)" by (cases entry)
  with Some s have "\<not> grants x s k" using granted [of s x k] by auto
  then show ?thesis
    using s Some e given_back [of s x k] kept [of s k m closed x] by (auto simp: claimed_def)
qed

lemma balance: "sound s \<Longrightarrow> count_in step grants xs s k + claimed s k = count_in step gives_back xs s k + claimed (fold step xs s) k"
proof (induction xs arbitrary: s)
  case (Cons x xs)
  from Cons.IH [OF step_sound [OF Cons.prems], of x] step_balance [OF Cons.prems, of x k] show ?case by simp
qed simp

lemma one_grant_per_return: "sound s \<Longrightarrow> count_in step grants xs s k \<le> Suc (count_in step gives_back xs s k)"
  using balance [of s xs k] by (simp add: claimed_def split: if_splits)

lemma closed_stays:
  "sound s \<Longrightarrow> row s k = Some (m, True) \<Longrightarrow> row (fold step xs s) k = Some (m, True) \<and> count_in step grants xs s k = 0"
proof (induction xs arbitrary: s)
  case (Cons x xs)
  then have "\<not> gives_back x s k" using given_back [of s x k] by auto
  then have "row (step x s) k = Some (m, True)" using Cons.prems kept [of s k m True x] by auto
  moreover have "\<not> grants x s k" using Cons.prems granted [of s x k] by auto
  ultimately show ?case using Cons.IH [OF step_sound [OF Cons.prems(1)]] by simp
qed simp

lemma material_stays:
  "sound s \<Longrightarrow> row s k = Some (m, c) \<Longrightarrow> count_in step gives_back xs s k = 0 \<Longrightarrow>
     count_in step grants xs s k = 0 \<and> (\<exists>c'. row (fold step xs s) k = Some (m, c'))"
proof (induction xs arbitrary: s c)
  case (Cons x xs)
  then have n: "\<not> gives_back x s k" "count_in step gives_back xs (step x s) k = 0" by (auto split: if_splits)
  with Cons.prems obtain c' where "row (step x s) k = Some (m, c')" using kept [of s k m c x] by auto
  moreover have "\<not> grants x s k" using Cons.prems granted [of s x k] by auto
  ultimately show ?case using Cons.IH [OF step_sound [OF Cons.prems(1)]] n by simp
qed simp

end

end
