(* ===== verification/Ccd_Ledger.thy ===== *)
theory Ccd_Ledger
  imports Broker_Prelude "HOL-Library.Word" "HOL-Library.List_Lexorder" "HOL-Library.Char_ord"
begin

text \<open>
  The two claim ledgers of the daemon (\<open>ccd/src/store.rs\<close>): \<open>mutation_ledger\<close>, which answers, interrupts
  and composes share, and \<open>text_mutations\<close>, which \<open>send_text\<close> has for itself.

  A table is the list of its rows, and a statement is what it does to them, with the number of rows it
  says it changed. Each call holds the writer or one immediate transaction throughout, so it is one step.
  Whether \<open>all_sessions\<close> has the run is an argument of the two statements that ask. A call that SQLite
  fails changes nothing and is left out.
\<close>

definition sql_update :: "('r \<Rightarrow> bool) \<Rightarrow> ('r \<Rightarrow> 'r) \<Rightarrow> 'r list \<Rightarrow> nat \<times> 'r list" where
  "sql_update p f table = (length (filter p table), map (\<lambda>r. if p r then f r else r) table)"

definition sql_delete :: "('r \<Rightarrow> bool) \<Rightarrow> 'r list \<Rightarrow> nat \<times> 'r list" where
  "sql_delete p table = (length (filter p table), filter (\<lambda>r. \<not> p r) table)"

section \<open>The generalized ledger\<close>

record claimed_material =
  cm_thread_id :: string
  cm_generation :: "64 word"
  cm_route :: string
  cm_target_turn_id :: "string option"
  cm_claimed_hash :: string

record ledger_row =
  lr_operation_kind :: string
  lr_session_uid :: string
  lr_client_request_id :: string
  lr_claimed_hash :: string
  lr_thread_id :: string
  lr_generation :: int
  lr_route :: string
  lr_target_turn_id :: "string option"
  lr_status :: string
  lr_outcome :: "string option"
  lr_started_at :: string
  lr_settled_at :: "string option"

definition lr_named :: "string \<Rightarrow> string \<Rightarrow> string \<Rightarrow> ledger_row \<Rightarrow> bool" where
  "lr_named kind uid rid r \<longleftrightarrow>
     lr_operation_kind r = kind \<and> lr_session_uid r = uid \<and> lr_client_request_id r = rid"

text \<open>A \<open>u64\<close> is stored \<open>as i64\<close> and read back \<open>as u64\<close>.\<close>

definition material_of :: "ledger_row \<Rightarrow> claimed_material" where
  "material_of r =
     \<lparr>cm_thread_id = lr_thread_id r, cm_generation = word_of_int (lr_generation r), cm_route = lr_route r,
      cm_target_turn_id = lr_target_turn_id r, cm_claimed_hash = lr_claimed_hash r\<rparr>"

datatype mutation_claim =
    MClaimed
  | MApplied string claimed_material
  | MIndeterminate string claimed_material
  | MConflict
  | MNoSession

definition or_default :: "string option \<Rightarrow> string" where
  "or_default v = (case v of None \<Rightarrow> [] | Some s \<Rightarrow> s)"

definition claim_mutation ::
  "bool \<Rightarrow> string \<Rightarrow> string \<Rightarrow> string \<Rightarrow> claimed_material \<Rightarrow> string \<Rightarrow> ledger_row list \<Rightarrow> mutation_claim \<times> ledger_row list" where
  "claim_mutation session_exists kind uid rid m now t = (case find (lr_named kind uid rid) t of
     None \<Rightarrow>
       if session_exists
       then (MClaimed, t @ [\<lparr>lr_operation_kind = kind, lr_session_uid = uid, lr_client_request_id = rid,
          lr_claimed_hash = cm_claimed_hash m, lr_thread_id = cm_thread_id m, lr_generation = sint (cm_generation m),
          lr_route = cm_route m, lr_target_turn_id = cm_target_turn_id m, lr_status = ''applying'', lr_outcome = None,
          lr_started_at = now, lr_settled_at = None\<rparr>])
       else (MNoSession, t)
   | Some r \<Rightarrow>
       if material_of r \<noteq> m then (MConflict, t)
       else if lr_status r = ''done'' then (MApplied (or_default (lr_outcome r)) (material_of r), t)
       else (MIndeterminate (lr_started_at r) (material_of r), t))"

definition applying_under :: "string \<Rightarrow> string \<Rightarrow> string \<Rightarrow> ledger_row \<Rightarrow> bool" where
  "applying_under kind uid rid r \<longleftrightarrow> lr_named kind uid rid r \<and> lr_status r = ''applying''"

definition settle_mutation :: "string \<Rightarrow> string \<Rightarrow> string \<Rightarrow> string \<Rightarrow> string \<Rightarrow> ledger_row list \<Rightarrow> bool \<times> ledger_row list" where
  "settle_mutation kind uid rid outcome settled_at t =
     (case sql_update (applying_under kind uid rid)
        (\<lambda>r. r\<lparr>lr_status := ''done'', lr_outcome := Some outcome, lr_settled_at := Some settled_at\<rparr>) t of
      (n, t) \<Rightarrow> (n = 1, t))"

definition release_mutation :: "string \<Rightarrow> string \<Rightarrow> string \<Rightarrow> ledger_row list \<Rightarrow> bool \<times> ledger_row list" where
  "release_mutation kind uid rid t = (case sql_delete (applying_under kind uid rid) t of (n, t) \<Rightarrow> (n = 1, t))"

definition settle_mutation_indeterminate ::
  "string \<Rightarrow> string \<Rightarrow> string \<Rightarrow> string \<Rightarrow> ledger_row list \<Rightarrow> bool \<times> ledger_row list" where
  "settle_mutation_indeterminate kind uid rid settled_at t =
     (case sql_update (applying_under kind uid rid)
        (\<lambda>r. r\<lparr>lr_status := ''indeterminate'', lr_settled_at := Some settled_at\<rparr>) t of
      (n, t) \<Rightarrow> (n = 1, t))"

datatype answer_status = AApplying | ASettled string | AIndeterminate

record mutation_state =
  ms_status :: answer_status
  ms_claimed :: claimed_material

definition mutation_status :: "string \<Rightarrow> string \<Rightarrow> string \<Rightarrow> ledger_row list \<Rightarrow> mutation_state option" where
  "mutation_status kind uid rid t = map_option (\<lambda>r.
     \<lparr>ms_status = (if lr_status r = ''done'' then ASettled (or_default (lr_outcome r))
        else if lr_status r = ''applying'' then AApplying else AIndeterminate),
      ms_claimed = material_of r\<rparr>) (find (lr_named kind uid rid) t)"

definition OPERATION_ANSWER :: string where "OPERATION_ANSWER = ''answer''"
definition OPERATION_INTERRUPT :: string where "OPERATION_INTERRUPT = ''interrupt''"
definition OPERATION_COMPOSE :: string where "OPERATION_COMPOSE = ''compose''"

definition OPERATION_KINDS :: "string list" where
  "OPERATION_KINDS = [OPERATION_ANSWER, OPERATION_INTERRUPT, OPERATION_COMPOSE]"

definition answer_status_of :: "string \<Rightarrow> string \<Rightarrow> ledger_row list \<Rightarrow> answer_status option" where
  "answer_status_of uid rid t = map_option ms_status (mutation_status OPERATION_ANSWER uid rid t)"

record claim_row =
  cr_session_uid :: string
  cr_client_request_id :: string
  cr_claimed :: claimed_material
  cr_started_at :: string

definition claim_row_of :: "ledger_row \<Rightarrow> claim_row" where
  "claim_row_of r = \<lparr>cr_session_uid = lr_session_uid r, cr_client_request_id = lr_client_request_id r,
     cr_claimed = material_of r, cr_started_at = lr_started_at r\<rparr>"

definition unsettled_claims :: "string \<Rightarrow> ledger_row list \<Rightarrow> claim_row list" where
  "unsettled_claims kind t = map claim_row_of
     (sort_key lr_started_at (filter (\<lambda>r. lr_operation_kind r = kind \<and> lr_status r = ''applying'') t))"

definition unsettled_claims_for :: "string \<Rightarrow> string \<Rightarrow> ledger_row list \<Rightarrow> claim_row list" where
  "unsettled_claims_for kind uid t = map claim_row_of
     (sort_key lr_started_at
       (filter (\<lambda>r. lr_operation_kind r = kind \<and> lr_session_uid r = uid \<and> lr_status r = ''applying'') t))"

datatype answer_terminal = TSettled string | TIndeterminate

text \<open>Inside the transaction that retires the card; an error rolls it back.\<close>

definition settle_answer_in_tx ::
  "string \<Rightarrow> string \<Rightarrow> answer_terminal \<Rightarrow> string \<Rightarrow> ledger_row list \<Rightarrow> string + ledger_row list" where
  "settle_answer_in_tx uid rid answer at t =
     (let (status, outcome) = (case answer of TSettled outcome \<Rightarrow> (''done'', Some outcome) | TIndeterminate \<Rightarrow> (''indeterminate'', None));
          (settled, t') = sql_update (applying_under OPERATION_ANSWER uid rid)
            (\<lambda>r. r\<lparr>lr_status := status, lr_outcome := outcome, lr_settled_at := Some at\<rparr>) t
      in if settled \<noteq> 1
         then Inl (''settling the answer claim for '' @ rid @ '' in '' @ uid @ '' matched '' @ dec settled @
           '' applying row(s), not one: the card must not be retired against a claim this commit did not settle'')
         else Inr t')"

text \<open>A call, as any task of the daemon may make it.\<close>

datatype ledger_call =
    ClaimCall bool string string string claimed_material string
  | SettleCall string string string string string
  | ReleaseCall string string string
  | AbandonCall string string string string
  | AnswerTerminalCall string string answer_terminal string

primrec ledger_step :: "ledger_call \<Rightarrow> ledger_row list \<Rightarrow> ledger_row list" where
  "ledger_step (ClaimCall exists kind uid rid m now) t = snd (claim_mutation exists kind uid rid m now t)"
| "ledger_step (SettleCall kind uid rid outcome at) t = snd (settle_mutation kind uid rid outcome at t)"
| "ledger_step (ReleaseCall kind uid rid) t = snd (release_mutation kind uid rid t)"
| "ledger_step (AbandonCall kind uid rid at) t = snd (settle_mutation_indeterminate kind uid rid at t)"
| "ledger_step (AnswerTerminalCall uid rid answer at) t = (case settle_answer_in_tx uid rid answer at t of Inl e \<Rightarrow> t | Inr t' \<Rightarrow> t')"

section \<open>What a settled compose records\<close>

definition COMPOSE_ROUTE_START :: string where "COMPOSE_ROUTE_START = ''turn_start''"
definition COMPOSE_ROUTE_STEER :: string where "COMPOSE_ROUTE_STEER = ''turn_steer''"

definition compose_outcome :: "string \<Rightarrow> string \<Rightarrow> string" where
  "compose_outcome route turn_id = route @ '' '' @ turn_id"

definition split_once :: "char \<Rightarrow> string \<Rightarrow> (string \<times> string) option" where
  "split_once c s = (if c \<in> set s then Some (takeWhile (\<lambda>d. d \<noteq> c) s, tl (dropWhile (\<lambda>d. d \<noteq> c) s)) else None)"

definition parse_compose_outcome :: "string \<Rightarrow> (string \<times> string) option" where
  "parse_compose_outcome outcome = (case split_once CHR '' '' outcome of
     None \<Rightarrow> None
   | Some (route, turn) \<Rightarrow>
       if turn = [] then None
       else if route \<noteq> COMPOSE_ROUTE_START \<and> route \<noteq> COMPOSE_ROUTE_STEER then None
       else Some (route, turn))"

section \<open>The ledger of typed texts\<close>

record text_row =
  tr_session_uid :: string
  tr_request_id :: string
  tr_payload_hash :: string
  tr_status :: string
  tr_matched :: "string option"
  tr_started_at :: string
  tr_settled_at :: "string option"

datatype text_claim =
    TxClaimed
  | TxApplied string string
  | TxIndeterminate string
  | TxConflict

definition tr_named :: "string \<Rightarrow> string \<Rightarrow> text_row \<Rightarrow> bool" where
  "tr_named uid rid r \<longleftrightarrow> tr_session_uid r = uid \<and> tr_request_id r = rid"

definition claim_text_mutation ::
  "bool \<Rightarrow> string \<Rightarrow> string \<Rightarrow> string \<Rightarrow> string \<Rightarrow> text_row list \<Rightarrow> text_claim \<times> text_row list" where
  "claim_text_mutation session_exists uid rid payload_hash now t = (case find (tr_named uid rid) t of
     None \<Rightarrow> (TxClaimed,
       if session_exists
       then t @ [\<lparr>tr_session_uid = uid, tr_request_id = rid, tr_payload_hash = payload_hash, tr_status = ''applying'',
         tr_matched = None, tr_started_at = now, tr_settled_at = None\<rparr>]
       else t)
   | Some r \<Rightarrow>
       (if tr_payload_hash r \<noteq> payload_hash then TxConflict
        else if tr_status r = ''sent''
          then TxApplied (or_default (tr_matched r)) (case tr_settled_at r of Some at \<Rightarrow> at | None \<Rightarrow> tr_started_at r)
        else TxIndeterminate (tr_started_at r), t))"

definition settle_text_mutation :: "string \<Rightarrow> string \<Rightarrow> string \<Rightarrow> string \<Rightarrow> text_row list \<Rightarrow> text_row list" where
  "settle_text_mutation uid rid matched settled_at t = snd (sql_update (tr_named uid rid)
     (\<lambda>r. r\<lparr>tr_status := ''sent'', tr_matched := Some matched, tr_settled_at := Some settled_at\<rparr>) t)"

definition release_text_mutation :: "string \<Rightarrow> string \<Rightarrow> text_row list \<Rightarrow> text_row list" where
  "release_text_mutation uid rid t = snd (sql_delete (\<lambda>r. tr_named uid rid r \<and> tr_status r = ''applying'') t)"

definition recover_text_mutations :: "string \<Rightarrow> text_row list \<Rightarrow> nat \<times> text_row list" where
  "recover_text_mutations at t = sql_update (\<lambda>r. tr_status r = ''applying'')
     (\<lambda>r. r\<lparr>tr_status := ''indeterminate'', tr_settled_at := Some at\<rparr>) t"

end
