(* ===== verification/Ccd_Ledger_Props.thy ===== *)
theory Ccd_Ledger_Props
  imports Claim_Ledger Ccd_Ledger
begin

text \<open>
  Both ledgers keep the law of a claim ledger: nothing is written twice under one claim.
\<close>

section \<open>Tables\<close>

definition lr_key :: "ledger_row \<Rightarrow> string \<times> string \<times> string" where
  "lr_key r = (lr_operation_kind r, lr_session_uid r, lr_client_request_id r)"

lemma lr_named_key: "lr_named kind uid rid r \<longleftrightarrow> lr_key r = (kind, uid, rid)"
  by (simp add: lr_named_def lr_key_def)

text \<open>A primary key: at most one row has it.\<close>

lemma find_key_Some: "distinct (map key t) \<Longrightarrow> find (\<lambda>r. key r = k) t = Some r \<longleftrightarrow> r \<in> set t \<and> key r = k"
  by (induction t) (auto simp: image_iff)

lemma find_key_None: "find (\<lambda>r. key r = k) t = None \<longleftrightarrow> k \<notin> key ` set t"
  by (induction t) auto

lemma find_key_map:
  "(\<And>r. key (f r) = key r) \<Longrightarrow> find (\<lambda>r. key r = k) (map f t) = map_option f (find (\<lambda>r. key r = k) t)"
  by (induction t) auto

lemma filter_key:
  "distinct (map key t) \<Longrightarrow> filter (\<lambda>r. key r = k \<and> p r) t =
     (case find (\<lambda>r. key r = k) t of None \<Rightarrow> [] | Some r \<Rightarrow> if p r then [r] else [])"
proof (induction t)
  case (Cons r t)
  have none: "key r = k \<Longrightarrow> filter (\<lambda>r. key r = k \<and> p r) t = []" using Cons.prems by (auto simp: filter_empty_conv image_iff)
  show ?case using Cons none by auto
qed simp

lemma find_key_filter_same:
  "distinct (map key t) \<Longrightarrow> find (\<lambda>r. key r = k) (filter (\<lambda>r. \<not> (key r = k \<and> p r)) t) =
     (case find (\<lambda>r. key r = k) t of None \<Rightarrow> None | Some r \<Rightarrow> if p r then None else Some r)"
proof (induction t)
  case (Cons r t)
  have none: "key r = k \<Longrightarrow> find (\<lambda>r. key r = k) (filter (\<lambda>r. \<not> (key r = k \<and> p r)) t) = None"
    using Cons.prems by (auto simp: find_None_iff image_iff)
  show ?case using Cons none by auto
qed simp

lemma find_key_filter_other:
  "k' \<noteq> k \<Longrightarrow> find (\<lambda>r. key r = k') (filter (\<lambda>r. \<not> (key r = k \<and> p r)) t) = find (\<lambda>r. key r = k') t"
  by (induction t) auto

lemma find_after_append: "find p (s @ t) = (case find p s of None \<Rightarrow> find p t | Some r \<Rightarrow> Some r)"
  by (induction s) auto

lemma distinct_map_filter_key: "distinct (map key t) \<Longrightarrow> distinct (map key (filter p t))"
  by (induction t) auto

lemma distinct_map_update: "(\<And>r. key (f r) = key r) \<Longrightarrow> distinct (map key (map f t)) = distinct (map key t)"
  by (simp add: comp_def)

section \<open>The generalized ledger\<close>

definition ledger_grants :: "ledger_call \<Rightarrow> ledger_row list \<Rightarrow> string \<times> string \<times> string \<Rightarrow> bool" where
  "ledger_grants c t k = (case c of
     ClaimCall exists kind uid rid m now \<Rightarrow> k = (kind, uid, rid) \<and> fst (claim_mutation exists kind uid rid m now t) = MClaimed
   | _ \<Rightarrow> False)"

definition ledger_gives_back :: "ledger_call \<Rightarrow> ledger_row list \<Rightarrow> string \<times> string \<times> string \<Rightarrow> bool" where
  "ledger_gives_back c t k = (case c of
     ReleaseCall kind uid rid \<Rightarrow> k = (kind, uid, rid) \<and> fst (release_mutation kind uid rid t) | _ \<Rightarrow> False)"

definition ledger_row_at :: "ledger_row list \<Rightarrow> string \<times> string \<times> string \<Rightarrow> ledger_row option" where
  "ledger_row_at t k = find (\<lambda>r. lr_key r = k) t"

definition ledger_entry :: "ledger_row list \<Rightarrow> string \<times> string \<times> string \<Rightarrow> (claimed_material \<times> bool) option" where
  "ledger_entry t k = map_option (\<lambda>r. (material_of r, lr_status r \<noteq> ''applying'')) (ledger_row_at t k)"

definition one_row_each :: "ledger_row list \<Rightarrow> bool" where
  "one_row_each t \<longleftrightarrow> distinct (map lr_key t)"

lemma find_named [simp]: "find (lr_named kind uid rid) t = ledger_row_at t (kind, uid, rid)"
  unfolding ledger_row_at_def lr_named_key [abs_def] ..

lemma applying_under_key: "applying_under kind uid rid = (\<lambda>r. lr_key r = (kind, uid, rid) \<and> lr_status r = ''applying'')"
  by (simp add: applying_under_def fun_eq_iff lr_named_key)

text \<open>The guarded update of one key, which the three closing statements are.\<close>

definition close_key :: "(ledger_row \<Rightarrow> ledger_row) \<Rightarrow> string \<times> string \<times> string \<Rightarrow> ledger_row list \<Rightarrow> nat \<times> ledger_row list" where
  "close_key f k = sql_update (\<lambda>r. lr_key r = k \<and> lr_status r = ''applying'') f"

lemma close_key_row:
  assumes "one_row_each t" "\<And>r. lr_key (f r) = lr_key r"
  shows "ledger_row_at (snd (close_key f k t)) k' = (case ledger_row_at t k' of None \<Rightarrow> None
      | Some r \<Rightarrow> Some (if k' = k \<and> lr_status r = ''applying'' then f r else r))"
    and "fst (close_key f k t) = (case ledger_row_at t k of Some r \<Rightarrow> if lr_status r = ''applying'' then 1 else 0 | None \<Rightarrow> 0)"
    and "one_row_each (snd (close_key f k t))"
proof -
  show "ledger_row_at (snd (close_key f k t)) k' = (case ledger_row_at t k' of None \<Rightarrow> None
      | Some r \<Rightarrow> Some (if k' = k \<and> lr_status r = ''applying'' then f r else r))"
    unfolding ledger_row_at_def close_key_def sql_update_def snd_conv
    by (subst find_key_map) (use assms in \<open>auto simp: find_Some_iff split: option.splits\<close>)
  show "fst (close_key f k t) = (case ledger_row_at t k of Some r \<Rightarrow> if lr_status r = ''applying'' then 1 else 0 | None \<Rightarrow> 0)"
    using filter_key [of lr_key t k "\<lambda>r. lr_status r = ''applying''"] assms(1)
    by (simp add: close_key_def sql_update_def ledger_row_at_def one_row_each_def split: option.splits)
  show "one_row_each (snd (close_key f k t))"
    using assms distinct_map_update [of lr_key "\<lambda>r. if lr_key r = k \<and> lr_status r = ''applying'' then f r else r" t]
    by (simp add: close_key_def sql_update_def one_row_each_def)
qed

lemma closing_calls:
  "settle_mutation kind uid rid outcome at t = (case close_key
     (\<lambda>r. r\<lparr>lr_status := ''done'', lr_outcome := Some outcome, lr_settled_at := Some at\<rparr>) (kind, uid, rid) t of (n, t) \<Rightarrow> (n = 1, t))"
  "settle_mutation_indeterminate kind uid rid at t = (case close_key
     (\<lambda>r. r\<lparr>lr_status := ''indeterminate'', lr_settled_at := Some at\<rparr>) (kind, uid, rid) t of (n, t) \<Rightarrow> (n = 1, t))"
  by (simp_all add: settle_mutation_def settle_mutation_indeterminate_def close_key_def applying_under_key)

lemma answer_terminal_call:
  "settle_answer_in_tx uid rid answer at t = (case close_key
     (\<lambda>r. r\<lparr>lr_status := (case answer of TSettled outcome \<Rightarrow> ''done'' | TIndeterminate \<Rightarrow> ''indeterminate''),
        lr_outcome := (case answer of TSettled outcome \<Rightarrow> Some outcome | TIndeterminate \<Rightarrow> None),
        lr_settled_at := Some at\<rparr>) (OPERATION_ANSWER, uid, rid) t of
     (n, t') \<Rightarrow> if n = 1 then Inr t' else Inl (''settling the answer claim for '' @ rid @ '' in '' @ uid @ '' matched '' @ dec n @
       '' applying row(s), not one: the card must not be retired against a claim this commit did not settle''))"
  by (simp add: settle_answer_in_tx_def close_key_def applying_under_key split: answer_terminal.split prod.split)

lemma lr_key_new [simp]:
  "lr_key \<lparr>lr_operation_kind = kind, lr_session_uid = uid, lr_client_request_id = rid, lr_claimed_hash = h,
     lr_thread_id = th, lr_generation = g, lr_route = ro, lr_target_turn_id = tt, lr_status = st, lr_outcome = out,
     lr_started_at = now, lr_settled_at = settled\<rparr> = (kind, uid, rid)"
  by (simp add: lr_key_def)

lemma claim_mutation_row:
  "ledger_row_at (snd (claim_mutation exists kind uid rid m now t)) k =
     (if k = (kind, uid, rid) \<and> fst (claim_mutation exists kind uid rid m now t) = MClaimed
      then Some \<lparr>lr_operation_kind = kind, lr_session_uid = uid, lr_client_request_id = rid,
          lr_claimed_hash = cm_claimed_hash m, lr_thread_id = cm_thread_id m, lr_generation = sint (cm_generation m),
          lr_route = cm_route m, lr_target_turn_id = cm_target_turn_id m, lr_status = ''applying'', lr_outcome = None,
          lr_started_at = now, lr_settled_at = None\<rparr>
      else ledger_row_at t k)"
  by (auto simp: claim_mutation_def ledger_row_at_def find_after_append split: option.splits if_splits)

lemma claim_mutation_one_row:
  "one_row_each t \<Longrightarrow> one_row_each (snd (claim_mutation exists kind uid rid m now t))"
  by (auto simp: claim_mutation_def one_row_each_def ledger_row_at_def find_key_None image_iff split: option.splits)

lemma claimed_was_free:
  "fst (claim_mutation exists kind uid rid m now t) = MClaimed \<Longrightarrow> ledger_row_at t (kind, uid, rid) = None"
  by (auto simp: claim_mutation_def split: option.splits if_splits)

lemma release_mutation_row:
  assumes "one_row_each t"
  shows "ledger_row_at (snd (release_mutation kind uid rid t)) k = (case ledger_row_at t k of None \<Rightarrow> None
      | Some r \<Rightarrow> if k = (kind, uid, rid) \<and> lr_status r = ''applying'' then None else Some r)"
    and "fst (release_mutation kind uid rid t) \<longleftrightarrow>
      (case ledger_row_at t (kind, uid, rid) of Some r \<Rightarrow> lr_status r = ''applying'' | None \<Rightarrow> False)"
    and "one_row_each (snd (release_mutation kind uid rid t))"
proof -
  let ?open = "\<lambda>r. lr_status r = ''applying''"
  have d: "distinct (map lr_key t)" using assms by (simp add: one_row_each_def)
  show "ledger_row_at (snd (release_mutation kind uid rid t)) k = (case ledger_row_at t k of None \<Rightarrow> None
      | Some r \<Rightarrow> if k = (kind, uid, rid) \<and> lr_status r = ''applying'' then None else Some r)"
    using find_key_filter_same [OF d, of k ?open] find_key_filter_other [of k "(kind, uid, rid)" lr_key ?open t]
    by (cases "k = (kind, uid, rid)")
      (simp_all only: release_mutation_def sql_delete_def applying_under_key ledger_row_at_def prod.case snd_conv simp_thms if_False
        option.case_eq_if if_cancel, auto)
  show "fst (release_mutation kind uid rid t) \<longleftrightarrow>
      (case ledger_row_at t (kind, uid, rid) of Some r \<Rightarrow> lr_status r = ''applying'' | None \<Rightarrow> False)"
    using filter_key [OF d, of "(kind, uid, rid)" ?open]
    by (simp add: release_mutation_def sql_delete_def applying_under_key ledger_row_at_def split: option.splits)
  show "one_row_each (snd (release_mutation kind uid rid t))"
    using d by (simp add: release_mutation_def sql_delete_def one_row_each_def distinct_map_filter_key)
qed

lemma material_of_claim [simp]:
  "material_of \<lparr>lr_operation_kind = kind, lr_session_uid = uid, lr_client_request_id = rid,
     lr_claimed_hash = cm_claimed_hash m, lr_thread_id = cm_thread_id m, lr_generation = sint (cm_generation m),
     lr_route = cm_route m, lr_target_turn_id = cm_target_turn_id m, lr_status = st, lr_outcome = out,
     lr_started_at = now, lr_settled_at = settled\<rparr> = m"
  by (simp add: material_of_def)

text \<open>What a closing call does to the entries, whatever it writes.\<close>

lemma close_key_entry:
  assumes "one_row_each t" "\<And>r. lr_key (f r) = lr_key r" "\<And>r. material_of (f r) = material_of r"
    "\<And>r. lr_status (f r) \<noteq> ''applying''" "ledger_entry t k = Some (m, closed)"
  shows "ledger_entry (snd (close_key f k' t)) k = Some (m, closed) \<or> ledger_entry (snd (close_key f k' t)) k = Some (m, True)"
  using assms(3-5) close_key_row(1) [OF assms(1,2), of k' k] by (auto simp: ledger_entry_def split: option.splits)

lemma close_key_none:
  "one_row_each t \<Longrightarrow> (\<And>r. lr_key (f r) = lr_key r) \<Longrightarrow> ledger_entry t k = None \<Longrightarrow> ledger_entry (snd (close_key f k' t)) k = None"
  using close_key_row(1) [of t f k' k] by (auto simp: ledger_entry_def split: option.splits)

definition closing :: "ledger_call \<Rightarrow> ((ledger_row \<Rightarrow> ledger_row) \<times> string \<times> string \<times> string) option" where
  "closing c = (case c of
     SettleCall kind uid rid outcome at \<Rightarrow>
       Some (\<lambda>r. r\<lparr>lr_status := ''done'', lr_outcome := Some outcome, lr_settled_at := Some at\<rparr>, kind, uid, rid)
   | AbandonCall kind uid rid at \<Rightarrow>
       Some (\<lambda>r. r\<lparr>lr_status := ''indeterminate'', lr_settled_at := Some at\<rparr>, kind, uid, rid)
   | AnswerTerminalCall uid rid answer at \<Rightarrow>
       Some (\<lambda>r. r\<lparr>lr_status := (case answer of TSettled outcome \<Rightarrow> ''done'' | TIndeterminate \<Rightarrow> ''indeterminate''),
          lr_outcome := (case answer of TSettled outcome \<Rightarrow> Some outcome | TIndeterminate \<Rightarrow> None),
          lr_settled_at := Some at\<rparr>, OPERATION_ANSWER, uid, rid)
   | _ \<Rightarrow> None)"

lemma closing_step:
  assumes "closing c = Some (f, k)"
  shows "ledger_step c t = snd (close_key f k t) \<or> ledger_step c t = t"
    and "lr_key (f r) = lr_key r" "material_of (f r) = material_of r" "lr_status (f r) \<noteq> ''applying''"
    and "\<not> ledger_grants c t k'" "\<not> ledger_gives_back c t k'"
  using assms
  by (auto simp: closing_def closing_calls answer_terminal_call lr_key_def material_of_def ledger_grants_def
      ledger_gives_back_def split: ledger_call.splits prod.splits answer_terminal.splits if_splits)

interpretation ml: claim_ledger ledger_entry ledger_step ledger_grants ledger_gives_back one_row_each
proof (unfold_locales, goal_cases)
  case (1 t c)
  show ?case
  proof (cases "closing c")
    case None
    with 1 show ?thesis
      by (cases c) (simp_all add: closing_def claim_mutation_one_row release_mutation_row(3))
  next
    case (Some fk)
    obtain f k' where fk: "fk = (f, k')" by (cases fk)
    note closing = closing_step [OF Some [unfolded fk]]
    from closing(1) [of t] close_key_row(3) [OF 1 closing(2), of k'] 1 show ?thesis by auto
  qed
next
  case (2 t c k)
  then show ?case
    by (cases c) (auto simp: ledger_grants_def ledger_entry_def claim_mutation_row dest: claimed_was_free)
next
  case (3 t c k)
  then show ?case
    by (cases c) (auto simp: ledger_gives_back_def ledger_entry_def release_mutation_row split: option.splits)
next
  case (4 t k m closed c)
  show ?case
  proof (cases "closing c")
    case None
    with 4 show ?thesis
      by (cases c) (auto simp: closing_def ledger_gives_back_def ledger_entry_def claim_mutation_row release_mutation_row
          split: option.splits dest: claimed_was_free)
  next
    case (Some fk)
    obtain f k' where fk: "fk = (f, k')" by (cases fk)
    note closing = closing_step [OF Some [unfolded fk]]
    from closing(1) [of t] close_key_entry [OF 4(1) closing(2,3,4) 4(2), of k'] 4(2) show ?thesis by auto
  qed
next
  case (5 t k c)
  show ?case
  proof (cases "closing c")
    case None
    with 5 show ?thesis
      by (cases c) (auto simp: closing_def ledger_grants_def ledger_entry_def claim_mutation_row release_mutation_row
          split: option.splits)
  next
    case (Some fk)
    obtain f k' where fk: "fk = (f, k')" by (cases fk)
    note closing = closing_step [OF Some [unfolded fk]]
    from closing(1) [of t] close_key_none [OF 5(1) closing(2) 5(2), of k'] 5(2) show ?thesis by auto
  qed
qed

text \<open>C19. Nothing is actuated twice under one id. Over any sequence of claims, settlements, releases and
  abandonments, by any callers in any order, a request id is handed out at most once more than it was
  given back by a release that won; and a caller that is not handed the id is told why: another material
  conflicts, and the same one replays its outcome or is unknown for ever.\<close>
theorem a_mutation_is_claimed_once:
  "count_in ledger_step ledger_grants calls [] k \<le> Suc (count_in ledger_step ledger_gives_back calls [] k) \<and>
   (case claim_mutation exists kind uid rid m now (fold ledger_step calls []) of
      (MClaimed, t) \<Rightarrow> ledger_entry (fold ledger_step calls []) (kind, uid, rid) = None \<and> exists \<and>
        ledger_entry t (kind, uid, rid) = Some (m, False)
    | (MApplied outcome m', t) \<Rightarrow> t = fold ledger_step calls [] \<and> m' = m \<and> ledger_entry t (kind, uid, rid) = Some (m, True)
    | (MIndeterminate started m', t) \<Rightarrow> t = fold ledger_step calls [] \<and> m' = m \<and> ledger_entry t (kind, uid, rid) \<noteq> None
    | (MConflict, t) \<Rightarrow> t = fold ledger_step calls [] \<and>
        (\<exists>m' closed. ledger_entry t (kind, uid, rid) = Some (m', closed) \<and> m' \<noteq> m)
    | (MNoSession, t) \<Rightarrow> t = fold ledger_step calls [] \<and> ledger_entry t (kind, uid, rid) = None \<and> \<not> exists)"
proof -
  have "one_row_each []" by (simp add: one_row_each_def)
  note ml.one_grant_per_return [OF this, of calls k]
  then show ?thesis
    by (simp add: claim_mutation_def ledger_entry_def ledger_row_at_def find_after_append split: option.splits)
qed

text \<open>The first terminal wins. Once a claim is settled, abandoned or retired with its card, no later
  call changes the material it was claimed with, opens it again, gives it back or hands its id out.\<close>
theorem the_first_terminal_wins:
  assumes "ledger_entry (fold ledger_step calls []) k = Some (m, True)"
  shows "ledger_entry (fold ledger_step (calls @ later) []) k = Some (m, True) \<and>
    count_in ledger_step ledger_grants (calls @ later) [] k = count_in ledger_step ledger_grants calls [] k \<and>
    count_in ledger_step ledger_gives_back (calls @ later) [] k = count_in ledger_step ledger_gives_back calls [] k"
proof -
  have "one_row_each []" by (simp add: one_row_each_def)
  then have sound: "one_row_each (fold ledger_step calls [])" by (rule ml.run_sound)
  note stays = ml.closed_stays [OF sound assms, of later]
  from ml.balance [OF sound, of later k] stays assms show ?thesis by (simp add: count_in_append ml.claimed_def)
qed

definition stop_material :: claimed_material where
  "stop_material = \<lparr>cm_thread_id = ''t'', cm_generation = 1, cm_route = ''stop'', cm_target_turn_id = Some ''u'', cm_claimed_hash = ''h''\<rparr>"

definition stop_calls :: "ledger_call list" where
  "stop_calls = [ClaimCall True ''interrupt'' ''s'' ''r'' stop_material ''now'', AbandonCall ''interrupt'' ''s'' ''r'' ''at'']"

lemma the_first_terminal_wins_witness:
  "ledger_entry (fold ledger_step (stop_calls @ [SettleCall ''interrupt'' ''s'' ''r'' ''aborted'' ''at'', ReleaseCall ''interrupt'' ''s'' ''r'']) [])
     (''interrupt'', ''s'', ''r'') = Some (stop_material, True)"
proof -
  have "ledger_entry (fold ledger_step stop_calls []) (''interrupt'', ''s'', ''r'') = Some (stop_material, True)"
    by (simp add: stop_calls_def claim_mutation_def ledger_row_at_def settle_mutation_indeterminate_def sql_update_def
        applying_under_key ledger_entry_def lr_key_def stop_material_def material_of_def)
  from the_first_terminal_wins [OF this] show ?thesis by blast
qed

section \<open>Rows that are closed\<close>

lemma closed_row_stays:
  assumes "one_row_each t" "ledger_row_at t k = Some r" "lr_status r \<noteq> ''applying''"
  shows "ledger_row_at (ledger_step c t) k = Some r"
proof (cases "closing c")
  case None
  with assms show ?thesis
    by (cases c) (auto simp: closing_def claim_mutation_row release_mutation_row dest: claimed_was_free)
next
  case (Some fk)
  obtain f k' where fk: "fk = (f, k')" by (cases fk)
  note closing = closing_step [OF Some [unfolded fk]]
  from closing(1) [of t] close_key_row(1) [OF assms(1) closing(2), of k' k] assms(2,3) show ?thesis by auto
qed

lemma settled_row:
  assumes "one_row_each t" "fst (settle_mutation kind uid rid outcome at t)"
  shows "\<exists>r. ledger_row_at (snd (settle_mutation kind uid rid outcome at t)) (kind, uid, rid) = Some r \<and>
     lr_status r = ''done'' \<and> lr_outcome r = Some outcome"
proof -
  let ?f = "\<lambda>r. r\<lparr>lr_status := ''done'', lr_outcome := Some outcome, lr_settled_at := Some at\<rparr>"
  let ?c = "close_key ?f (kind, uid, rid) t"
  have key: "lr_key (?f r) = lr_key r" for r by (simp add: lr_key_def)
  have eq: "settle_mutation kind uid rid outcome at t = (fst ?c = 1, snd ?c)"
    by (simp add: closing_calls(1) case_prod_unfold)
  from assms(2) have "fst ?c = 1" by (simp add: eq)
  with close_key_row(2) [OF assms(1) key, of "(kind, uid, rid)"] obtain r where
    r: "ledger_row_at t (kind, uid, rid) = Some r" "lr_status r = ''applying''"
    by (simp split: option.splits if_splits)
  from close_key_row(1) [OF assms(1) key, of "(kind, uid, rid)" "(kind, uid, rid)"] r
  have "ledger_row_at (snd ?c) (kind, uid, rid) = Some (?f r)" by simp
  then show ?thesis by (simp only: eq snd_conv) simp
qed

section \<open>What a settled compose records\<close>

lemma split_once_Some: "split_once c s = Some (a, b) \<longleftrightarrow> s = a @ c # b \<and> c \<notin> set a"
proof
  assume "split_once c s = Some (a, b)"
  then have c: "c \<in> set s" and a: "a = takeWhile (\<lambda>d. d \<noteq> c) s" and b: "b = tl (dropWhile (\<lambda>d. d \<noteq> c) s)"
    by (auto simp: split_once_def split: if_splits)
  from c have "dropWhile (\<lambda>d. d \<noteq> c) s \<noteq> []" "hd (dropWhile (\<lambda>d. d \<noteq> c) s) = c"
    using hd_dropWhile [of "\<lambda>d. d \<noteq> c" s] by (auto simp: dropWhile_eq_Nil_conv)
  then have "c # b = dropWhile (\<lambda>d. d \<noteq> c) s" unfolding b by (metis list.collapse)
  moreover have "s = takeWhile (\<lambda>d. d \<noteq> c) s @ dropWhile (\<lambda>d. d \<noteq> c) s" by simp
  moreover have "c \<notin> set a" unfolding a by (auto dest: set_takeWhileD)
  ultimately show "s = a @ c # b \<and> c \<notin> set a" unfolding a by simp
next
  assume "s = a @ c # b \<and> c \<notin> set a"
  moreover from this have "dropWhile (\<lambda>d. d \<noteq> c) a = []" by (auto simp: dropWhile_eq_Nil_conv)
  ultimately show "split_once c s = Some (a, b)"
    by (auto simp: split_once_def takeWhile_tail dropWhile_append)
qed

lemma parse_compose_outcome_iff:
  "parse_compose_outcome outcome = Some (route, turn) \<longleftrightarrow>
     outcome = compose_outcome route turn \<and> turn \<noteq> [] \<and> route \<in> {COMPOSE_ROUTE_START, COMPOSE_ROUTE_STEER}"
proof -
  have "CHR '' '' \<notin> set COMPOSE_ROUTE_START" "CHR '' '' \<notin> set COMPOSE_ROUTE_STEER"
    by (simp_all add: COMPOSE_ROUTE_START_def COMPOSE_ROUTE_STEER_def)
  then have "route \<in> {COMPOSE_ROUTE_START, COMPOSE_ROUTE_STEER} \<Longrightarrow> CHR '' '' \<notin> set route" by auto
  then show ?thesis
    using split_once_Some [of "CHR '' ''" outcome route turn]
    by (auto simp: parse_compose_outcome_def compose_outcome_def split: option.splits if_splits)
qed

text \<open>A settled compose is read back as it was written. An outcome names a route and a turn exactly
  when it is the text written for a compose of that route that named that turn, spaces in the turn
  included; every other stored word names no turn.\<close>
theorem compose_outcomes_read_back:
  "parse_compose_outcome outcome = Some (route, turn) \<longleftrightarrow>
     outcome = compose_outcome route turn \<and> turn \<noteq> [] \<and> route \<in> {COMPOSE_ROUTE_START, COMPOSE_ROUTE_STEER}"
  by (rule parse_compose_outcome_iff)

section \<open>The ledger of typed texts\<close>

datatype text_call =
    TextClaimCall bool string string string string
  | TextSettleCall string string string string
  | TextReleaseCall string string
  | TextRecoverCall string

primrec text_step :: "text_call \<Rightarrow> text_row list \<Rightarrow> text_row list" where
  "text_step (TextClaimCall exists uid rid h now) t = snd (claim_text_mutation exists uid rid h now t)"
| "text_step (TextSettleCall uid rid matched at) t = settle_text_mutation uid rid matched at t"
| "text_step (TextReleaseCall uid rid) t = release_text_mutation uid rid t"
| "text_step (TextRecoverCall at) t = snd (recover_text_mutations at t)"

text \<open>A claim of a run that exists, as \<open>send_text\<close> makes it.\<close>

definition text_grants :: "text_call \<Rightarrow> text_row list \<Rightarrow> string \<times> string \<Rightarrow> bool" where
  "text_grants c t k = (case c of
     TextClaimCall exists uid rid h now \<Rightarrow> k = (uid, rid) \<and> exists \<and> fst (claim_text_mutation exists uid rid h now t) = TxClaimed
   | _ \<Rightarrow> False)"

definition tr_key :: "text_row \<Rightarrow> string \<times> string" where
  "tr_key r = (tr_session_uid r, tr_request_id r)"

definition text_row_at :: "text_row list \<Rightarrow> string \<times> string \<Rightarrow> text_row option" where
  "text_row_at t k = find (\<lambda>r. tr_key r = k) t"

definition text_gives_back :: "text_call \<Rightarrow> text_row list \<Rightarrow> string \<times> string \<Rightarrow> bool" where
  "text_gives_back c t k = (case c of
     TextReleaseCall uid rid \<Rightarrow> k = (uid, rid) \<and> text_row_at t k \<noteq> None \<and> text_row_at (release_text_mutation uid rid t) k = None
   | _ \<Rightarrow> False)"

definition text_entry :: "text_row list \<Rightarrow> string \<times> string \<Rightarrow> (string \<times> bool) option" where
  "text_entry t k = map_option (\<lambda>r. (tr_payload_hash r, tr_status r \<noteq> ''applying'')) (text_row_at t k)"

definition one_text_each :: "text_row list \<Rightarrow> bool" where
  "one_text_each t \<longleftrightarrow> distinct (map tr_key t)"

lemma tr_named_key: "tr_named uid rid = (\<lambda>r. tr_key r = (uid, rid))"
  by (simp add: tr_named_def tr_key_def fun_eq_iff)

lemma tr_key_new [simp]:
  "tr_key \<lparr>tr_session_uid = uid, tr_request_id = rid, tr_payload_hash = h, tr_status = st, tr_matched = mt,
     tr_started_at = now, tr_settled_at = settled\<rparr> = (uid, rid)"
  by (simp add: tr_key_def)

lemma text_claim_row:
  "text_row_at (snd (claim_text_mutation exists uid rid h now t)) k =
     (if k = (uid, rid) \<and> text_row_at t k = None \<and> exists
      then Some \<lparr>tr_session_uid = uid, tr_request_id = rid, tr_payload_hash = h, tr_status = ''applying'',
         tr_matched = None, tr_started_at = now, tr_settled_at = None\<rparr>
      else text_row_at t k)"
  "fst (claim_text_mutation exists uid rid h now t) = TxClaimed \<longleftrightarrow> text_row_at t (uid, rid) = None"
  "one_text_each t \<Longrightarrow> one_text_each (snd (claim_text_mutation exists uid rid h now t))"
proof -
  show "text_row_at (snd (claim_text_mutation exists uid rid h now t)) k =
     (if k = (uid, rid) \<and> text_row_at t k = None \<and> exists
      then Some \<lparr>tr_session_uid = uid, tr_request_id = rid, tr_payload_hash = h, tr_status = ''applying'',
         tr_matched = None, tr_started_at = now, tr_settled_at = None\<rparr>
      else text_row_at t k)"
    by (cases "text_row_at t (uid, rid)")
      (simp_all add: claim_text_mutation_def tr_named_key text_row_at_def find_after_append eq_commute [of "(uid, rid)"] split: option.splits, auto)
  show "fst (claim_text_mutation exists uid rid h now t) = TxClaimed \<longleftrightarrow> text_row_at t (uid, rid) = None"
    by (simp add: claim_text_mutation_def tr_named_key text_row_at_def split: option.splits)
  show "one_text_each t \<Longrightarrow> one_text_each (snd (claim_text_mutation exists uid rid h now t))"
    using find_key_None [of tr_key "(uid, rid)" t]
    by (auto simp: claim_text_mutation_def tr_named_key one_text_each_def split: option.splits)
qed

lemma text_settle_row:
  "text_row_at (settle_text_mutation uid rid matched at t) k = map_option (\<lambda>r. if k = (uid, rid)
     then r\<lparr>tr_status := ''sent'', tr_matched := Some matched, tr_settled_at := Some at\<rparr> else r) (text_row_at t k)"
  "one_text_each t \<Longrightarrow> one_text_each (settle_text_mutation uid rid matched at t)"
proof -
  show "text_row_at (settle_text_mutation uid rid matched at t) k = map_option (\<lambda>r. if k = (uid, rid)
     then r\<lparr>tr_status := ''sent'', tr_matched := Some matched, tr_settled_at := Some at\<rparr> else r) (text_row_at t k)"
    unfolding settle_text_mutation_def sql_update_def text_row_at_def tr_named_key snd_conv
    by (subst find_key_map) (auto simp: tr_key_def find_Some_iff split: option.splits intro!: option.map_cong0)
  show "one_text_each t \<Longrightarrow> one_text_each (settle_text_mutation uid rid matched at t)"
    unfolding settle_text_mutation_def sql_update_def one_text_each_def snd_conv
    by (subst distinct_map_update) (simp_all add: tr_key_def)
qed

lemma text_release_row:
  assumes "one_text_each t"
  shows "text_row_at (release_text_mutation uid rid t) k = (case text_row_at t k of None \<Rightarrow> None
      | Some r \<Rightarrow> if k = (uid, rid) \<and> tr_status r = ''applying'' then None else Some r)"
    and "one_text_each (release_text_mutation uid rid t)"
proof -
  let ?open = "\<lambda>r. tr_status r = ''applying''"
  have d: "distinct (map tr_key t)" using assms by (simp add: one_text_each_def)
  show "text_row_at (release_text_mutation uid rid t) k = (case text_row_at t k of None \<Rightarrow> None
      | Some r \<Rightarrow> if k = (uid, rid) \<and> tr_status r = ''applying'' then None else Some r)"
    using find_key_filter_same [OF d, of k ?open] find_key_filter_other [of k "(uid, rid)" tr_key ?open t]
    by (cases "k = (uid, rid)")
      (simp_all only: release_text_mutation_def sql_delete_def tr_named_key text_row_at_def snd_conv simp_thms if_False
        option.case_eq_if if_cancel, auto)
  show "one_text_each (release_text_mutation uid rid t)"
    using d by (simp add: release_text_mutation_def sql_delete_def one_text_each_def distinct_map_filter_key)
qed

lemma text_recover_row:
  "text_row_at (snd (recover_text_mutations at t)) k = map_option (\<lambda>r. if tr_status r = ''applying''
     then r\<lparr>tr_status := ''indeterminate'', tr_settled_at := Some at\<rparr> else r) (text_row_at t k)"
  "one_text_each t \<Longrightarrow> one_text_each (snd (recover_text_mutations at t))"
proof -
  show "text_row_at (snd (recover_text_mutations at t)) k = map_option (\<lambda>r. if tr_status r = ''applying''
     then r\<lparr>tr_status := ''indeterminate'', tr_settled_at := Some at\<rparr> else r) (text_row_at t k)"
    unfolding recover_text_mutations_def sql_update_def text_row_at_def snd_conv
    by (subst find_key_map) (simp_all add: tr_key_def)
  show "one_text_each t \<Longrightarrow> one_text_each (snd (recover_text_mutations at t))"
    unfolding recover_text_mutations_def sql_update_def one_text_each_def snd_conv
    by (subst distinct_map_update) (simp_all add: tr_key_def)
qed

lemmas text_rows = text_claim_row text_settle_row text_release_row text_recover_row

interpretation tl: claim_ledger text_entry text_step text_grants text_gives_back one_text_each
proof (unfold_locales, goal_cases)
  case (1 t c)
  then show ?case by (cases c) (simp_all add: text_rows)
next
  case (2 t c k)
  then show ?case by (cases c) (auto simp: text_grants_def text_entry_def text_rows)
next
  case (3 t c k)
  then show ?case by (cases c) (auto simp: text_gives_back_def text_entry_def text_rows split: option.splits if_splits)
next
  case (4 t k m closed c)
  then obtain r where r: "text_row_at t k = Some r" and "m = tr_payload_hash r" "closed = (tr_status r \<noteq> ''applying'')"
    by (auto simp: text_entry_def)
  with 4 show ?case
    by (cases c) (simp_all add: text_gives_back_def text_entry_def text_rows r, (auto split: if_splits)?)
next
  case (5 t k c)
  then show ?case by (cases c) (auto simp: text_grants_def text_entry_def text_rows split: option.splits)
qed

text \<open>A text is typed once under one id, as long as its run exists: over any sequence of claims,
  settlements, releases and restarts the id is handed out at most once more than it was given back, and
  what is closed is never handed out again. For a run that is gone the claim is not recorded and is
  handed out every time.\<close>
theorem a_text_is_claimed_once:
  "count_in text_step text_grants calls [] k \<le> Suc (count_in text_step text_gives_back calls [] k) \<and>
   (case claim_text_mutation exists uid rid h now (fold text_step calls []) of
      (TxClaimed, t) \<Rightarrow> text_entry (fold text_step calls []) (uid, rid) = None \<and>
        text_entry t (uid, rid) = (if exists then Some (h, False) else None)
    | (TxConflict, t) \<Rightarrow> t = fold text_step calls [] \<and> (\<exists>h' closed. text_entry t (uid, rid) = Some (h', closed) \<and> h' \<noteq> h)
    | (TxApplied matched at, t) \<Rightarrow> t = fold text_step calls [] \<and> text_entry t (uid, rid) = Some (h, True)
    | (TxIndeterminate started, t) \<Rightarrow> t = fold text_step calls [] \<and> (\<exists>closed. text_entry t (uid, rid) = Some (h, closed)))"
proof -
  have "one_text_each []" by (simp add: one_text_each_def)
  note tl.one_grant_per_return [OF this, of calls k]
  then show ?thesis
    by (simp add: claim_text_mutation_def text_entry_def text_row_at_def tr_named_key find_after_append split: option.splits)
qed

end
