(* ===== verification/Ccd_Refusals.thy ===== *)
theory Ccd_Refusals
  imports Main
begin

text \<open>
  Every sentence the daemon sends a phone when an interrupt or a compose did not happen
  (\<open>ccd/src/codex_refusals.rs\<close>), word for word.
\<close>

definition unknown_session :: "string \<Rightarrow> string" where
  "unknown_session session_ref =
     ''unknown session '' @
     session_ref"

definition SESSION_LOOKUP_FAILED :: string where
  "SESSION_LOOKUP_FAILED =
     ''session lookup failed''"

definition interrupt_on_claude :: "string \<Rightarrow> string" where
  "interrupt_on_claude uid =
     uid @
     '' is a Claude session, which this daemon cannot stop from a phone; press Escape at the computer''"

definition interrupt_on_unsupported :: "string \<Rightarrow> string \<Rightarrow> string" where
  "interrupt_on_unsupported uid name =
     uid @
     '' is a '' @
     name @
     '' session, which this daemon does not know how to stop; nothing was sent''"

definition INTERRUPT_STALE_HASH :: string where
  "INTERRUPT_STALE_HASH =
     ''stale payload_hash: the turn you asked to stop is not the one this request names; nothing was sent''"

definition INTERRUPT_NAMES_NO_TURN :: string where
  "INTERRUPT_NAMES_NO_TURN =
     ''this request names no turn, so there is nothing to stop''"

definition INTERRUPT_ID_REUSED :: string where
  "INTERRUPT_ID_REUSED =
     ''this request id was used to stop a different turn, so nothing was sent; ask again under a new one''"

definition INTERRUPT_LEDGER_UNREADABLE :: string where
  "INTERRUPT_LEDGER_UNREADABLE =
     ''could not read this run'' @
     [CHR 0x27] @
     ''s interrupt ledger; nothing was sent''"

definition INTERRUPT_ALREADY_SENT_UNKNOWN :: string where
  "INTERRUPT_ALREADY_SENT_UNKNOWN =
     ''this interrupt was already sent and what became of it is not known; it will not be sent again. Check'' @
     '' the computer.''"

definition INTERRUPT_LINK_BOUND :: string where
  "INTERRUPT_LINK_BOUND =
     ''the computer is connected to the Codex session but is not yet watching its thread, so a stop cannot '' @
     ''be confirmed; nothing was sent''"

definition INTERRUPT_LINK_RECONNECTING :: string where
  "INTERRUPT_LINK_RECONNECTING =
     ''the computer has lost its control link to the Codex session and is reconnecting, so nothing was sent'' @
     ''; try again shortly, or stop the turn at the computer''"

definition INTERRUPT_LINK_NOT_REACHED :: string where
  "INTERRUPT_LINK_NOT_REACHED =
     ''the computer has not yet reached the Codex session, so nothing was sent; try again shortly, or stop '' @
     ''the turn at the computer''"

definition LINK_STILL_PICKING_UP_THREAD :: string where
  "LINK_STILL_PICKING_UP_THREAD =
     ''the computer is connected to the Codex session and is still picking up its thread, so nothing was se'' @
     ''nt; try again in a few seconds''"

definition INTERRUPT_NO_LINK :: string where
  "INTERRUPT_NO_LINK =
     ''there is no live link to this Codex session, so nothing was sent; stop the turn at the computer''"

definition compose_on_claude :: "string \<Rightarrow> string" where
  "compose_on_claude uid =
     uid @
     '' is a Claude session, and this message is the Codex compose; send text to a Claude session with send'' @
     ''_text instead''"

definition compose_on_unsupported :: "string \<Rightarrow> string \<Rightarrow> string" where
  "compose_on_unsupported uid name =
     uid @
     '' is a '' @
     name @
     '' session, which this daemon does not know how to speak to; nothing was sent''"

definition COMPOSE_EMPTY :: string where
  "COMPOSE_EMPTY =
     ''this message is empty, so there is nothing to say''"

definition compose_too_long :: "string \<Rightarrow> string \<Rightarrow> string" where
  "compose_too_long len ceiling =
     ''this message is '' @
     len @
     '' bytes; the ceiling is '' @
     ceiling"

definition COMPOSE_STALE_HASH :: string where
  "COMPOSE_STALE_HASH =
     ''stale payload_hash: the message you asked to send is not the one this request names; nothing was sen'' @
     ''t''"

definition COMPOSE_LINK_BOUND :: string where
  "COMPOSE_LINK_BOUND =
     ''the computer is connected to the Codex session but is not yet watching its thread, so a message cann'' @
     ''ot be confirmed; nothing was sent''"

definition COMPOSE_LINK_RECONNECTING :: string where
  "COMPOSE_LINK_RECONNECTING =
     ''the computer has lost its control link to the Codex session and is reconnecting, so nothing was sent'' @
     ''; try again shortly, or say it at the computer''"

definition COMPOSE_LINK_NOT_REACHED :: string where
  "COMPOSE_LINK_NOT_REACHED =
     ''the computer has not yet reached the Codex session, so nothing was sent; try again shortly, or say i'' @
     ''t at the computer''"

definition COMPOSE_NO_LINK :: string where
  "COMPOSE_NO_LINK =
     ''there is no live link to this Codex session, so nothing was sent; say it at the computer''"

definition INTERRUPT_LINK_NOT_RUNNING :: string where
  "INTERRUPT_LINK_NOT_RUNNING =
     ''the link to this Codex session is not running, so nothing was sent; stop the turn at the computer''"

definition INTERRUPT_LINK_STOPPED_MID_WRITE :: string where
  "INTERRUPT_LINK_STOPPED_MID_WRITE =
     ''the link stopped while this interrupt was being written, so whether it reached Codex is not known; i'' @
     ''t will not be sent again. Check the computer.''"

definition INTERRUPT_NO_CONNECTION :: string where
  "INTERRUPT_NO_CONNECTION =
     ''the link to this Codex session has no live connection, so nothing was sent; stop the turn at the com'' @
     ''puter''"

definition interrupt_settled_unknown :: "string \<Rightarrow> string" where
  "interrupt_settled_unknown cause =
     cause @
     '', so whether that turn was stopped is not known; it will not be sent again. Check the computer.''"

definition interrupt_settled_unrecorded :: "string \<Rightarrow> string" where
  "interrupt_settled_unrecorded cause =
     cause @
     '', and the computer could not record that either, so it cannot say what became of it. Check the compu'' @
     ''ter.''"

definition COMPOSE_LINK_WENT_AWAY :: string where
  "COMPOSE_LINK_WENT_AWAY =
     ''the computer'' @
     [CHR 0x27] @
     ''s link to the Codex session went away before that message was written, so nothing was said; try agai'' @
     ''n''"

definition COMPOSE_LINK_STOPPED_MID_WRITE :: string where
  "COMPOSE_LINK_STOPPED_MID_WRITE =
     ''the computer'' @
     [CHR 0x27] @
     ''s link to the Codex session stopped while that message was in flight, so whether it was said is not '' @
     ''known; it will not be sent again. Check the computer.''"

definition COMPOSE_NO_CONNECTION :: string where
  "COMPOSE_NO_CONNECTION =
     ''the link to this Codex session has no live connection, so nothing was said; say it at the computer''"

definition compose_settled_unknown :: "string \<Rightarrow> string" where
  "compose_settled_unknown cause =
     cause @
     '', so whether that message reached the model is not known; it will not be sent again. Check the compu'' @
     ''ter.''"

definition compose_settled_unrecorded :: "string \<Rightarrow> string" where
  "compose_settled_unrecorded cause =
     cause @
     '', and the computer could not record that either, so it cannot say what became of it. Check the compu'' @
     ''ter.''"

definition LINK_INTERRUPT_NAMES_NO_TURN :: string where
  "LINK_INTERRUPT_NAMES_NO_TURN =
     ''this request names no turn, so there is nothing to stop; nothing was sent''"

definition INTERRUPT_RECONNECTED_IN_FLIGHT :: string where
  "INTERRUPT_RECONNECTED_IN_FLIGHT =
     ''the computer'' @
     [CHR 0x27] @
     ''s link to the Codex session reconnected while that request was in flight, so nothing was sent; try a'' @
     ''gain''"

definition INTERRUPT_OTHER_THREAD :: string where
  "INTERRUPT_OTHER_THREAD =
     ''this Codex session is not on the thread that turn belongs to, so nothing was sent; stop it at the co'' @
     ''mputer''"

definition INTERRUPT_VISIT_MOVED_ON :: string where
  "INTERRUPT_VISIT_MOVED_ON =
     ''this Codex session has moved on since that turn was shown, so nothing was sent; open the run again''"

definition INTERRUPT_TURN_NOT_RUNNING :: string where
  "INTERRUPT_TURN_NOT_RUNNING =
     ''that turn is not the one this Codex session is running, so nothing was sent; it may have finished al'' @
     ''ready''"

definition INTERRUPT_THREAD_SWITCHING :: string where
  "INTERRUPT_THREAD_SWITCHING =
     ''this Codex session is moving to another thread, so nothing was sent; try again once it has settled''"

definition INTERRUPT_ALREADY_WAITING :: string where
  "INTERRUPT_ALREADY_WAITING =
     ''an interrupt for that turn is already waiting to take effect, so nothing was sent again''"

definition COMPOSE_RECONNECTED_IN_FLIGHT :: string where
  "COMPOSE_RECONNECTED_IN_FLIGHT =
     ''the computer'' @
     [CHR 0x27] @
     ''s link to the Codex session reconnected while that message was in flight, so nothing was said; try a'' @
     ''gain''"

definition COMPOSE_OTHER_THREAD :: string where
  "COMPOSE_OTHER_THREAD =
     ''this Codex session is not on the thread that message was addressed to, so nothing was said; say it a'' @
     ''t the computer''"

definition COMPOSE_VISIT_MOVED_ON :: string where
  "COMPOSE_VISIT_MOVED_ON =
     ''this Codex session has moved on since that message was composed, so nothing was said; open the run a'' @
     ''gain''"

definition COMPOSE_THREAD_SWITCHING :: string where
  "COMPOSE_THREAD_SWITCHING =
     ''this Codex session is moving to another thread, so nothing was said; try again once it has settled''"

definition COMPOSE_NO_TURN_TO_STEER :: string where
  "COMPOSE_NO_TURN_TO_STEER =
     ''this Codex thread has not run a turn yet, so there is nothing for that message to join; nothing was '' @
     ''said, and it can be sent again once the thread is running''"

definition COMPOSE_START_IN_FLIGHT :: string where
  "COMPOSE_START_IN_FLIGHT =
     ''the first turn on this Codex thread was just started from a phone and the computer has not caught up'' @
     '' with it yet, so nothing was said; try again shortly''"

definition INTERRUPT_ID_REUSED_ON_LINK :: string where
  "INTERRUPT_ID_REUSED_ON_LINK =
     ''this request id has already been used for a different stop on this run, so nothing was sent; ask aga'' @
     ''in under a new one''"

definition INTERRUPT_RUN_IS_GONE :: string where
  "INTERRUPT_RUN_IS_GONE =
     ''this run is gone, so its turn cannot be stopped''"

definition INTERRUPT_CLAIM_UNRECORDED :: string where
  "INTERRUPT_CLAIM_UNRECORDED =
     ''could not record that this interrupt is being sent; nothing was sent''"

definition COMPOSE_RUN_IS_GONE :: string where
  "COMPOSE_RUN_IS_GONE =
     ''this run is gone, so nothing can be said to it''"

definition COMPOSE_CLAIM_UNRECORDED :: string where
  "COMPOSE_CLAIM_UNRECORDED =
     ''the computer could not record that the message is being sent; nothing was sent. Check the computer.''"

definition COMPOSE_ALREADY_SENT_UNKNOWN :: string where
  "COMPOSE_ALREADY_SENT_UNKNOWN =
     ''this message was already sent and what became of it is not known; it will not be sent again. Check t'' @
     ''he computer.''"

definition COMPOSE_ID_REUSED :: string where
  "COMPOSE_ID_REUSED =
     ''this request id was used to say something else, so nothing was sent; ask again under a new one''"

definition INTERRUPT_WIRE_SUBJECT :: string where
  "INTERRUPT_WIRE_SUBJECT =
     ''that stop''"

definition COMPOSE_WIRE_SUBJECT :: string where
  "COMPOSE_WIRE_SUBJECT =
     ''that message''"

definition INTERRUPT_WIRE_REMEDY :: string where
  "INTERRUPT_WIRE_REMEDY =
     ''the turn can be stopped again from the phone''"

definition COMPOSE_WIRE_REMEDY :: string where
  "COMPOSE_WIRE_REMEDY =
     ''it can be sent again from the phone''"

definition INTERRUPT_PAUSED :: string where
  "INTERRUPT_PAUSED =
     ''Codex is paused at the computer (Ctrl+Z), so that stop was not sent; it continues after fg there, an'' @
     ''d the turn can be stopped then''"

definition COMPOSE_PAUSED :: string where
  "COMPOSE_PAUSED =
     ''Codex is paused at the computer (Ctrl+Z), so that message was not sent; it continues after fg there,'' @
     '' and the message can be sent again then''"

definition interrupt_turn_ended_itself :: "string \<Rightarrow> string" where
  "interrupt_turn_ended_itself status =
     ''that turn ended on its own ('' @
     status @
     '') while the request to stop it was in flight, so it was not stopped from here; it will not be sent a'' @
     ''gain''"

definition INTERRUPT_OUTCOME_UNRECORDED :: string where
  "INTERRUPT_OUTCOME_UNRECORDED =
     ''the computer could not record what became of that request to stop the turn, so it cannot say; it wil'' @
     ''l not be sent again. Check the computer.''"

definition INTERRUPT_SETTLED_ELSEWHERE :: string where
  "INTERRUPT_SETTLED_ELSEWHERE =
     ''this request to stop the turn was already settled elsewhere and what became of it is not known; it w'' @
     ''ill not be sent again. Check the computer.''"

definition INTERRUPT_SETTLED_ELSEWHERE_UNREADABLE :: string where
  "INTERRUPT_SETTLED_ELSEWHERE_UNREADABLE =
     ''this request to stop the turn was settled elsewhere and the computer cannot read what became of it; '' @
     ''it will not be sent again. Check the computer.''"

definition INTERRUPT_BOUNDARY_UNRECORDED :: string where
  "INTERRUPT_BOUNDARY_UNRECORDED =
     ''the computer could not record that the turn ended (turn boundary unrecorded), so it cannot say the t'' @
     ''urn was stopped from here; it will not be sent again. Check the computer.''"

definition INTERRUPT_BOUNDARY_UNREADABLE :: string where
  "INTERRUPT_BOUNDARY_UNREADABLE =
     ''the computer could not read whether the turn boundary was recorded, so it cannot say the turn was st'' @
     ''opped from here; it will not be sent again. Check the computer.''"

definition COMPOSE_ANSWER_UNREADABLE :: string where
  "COMPOSE_ANSWER_UNREADABLE =
     ''Codex answered this message with something the computer could not read, so it cannot say what became'' @
     '' of it; it will not be sent again. Check the computer.''"

definition COMPOSE_SETTLED_ELSEWHERE :: string where
  "COMPOSE_SETTLED_ELSEWHERE =
     ''this message was sent and what became of it is not known; it will not be sent again. Check the compu'' @
     ''ter.''"

definition COMPOSE_SETTLED_ELSEWHERE_UNREADABLE :: string where
  "COMPOSE_SETTLED_ELSEWHERE_UNREADABLE =
     ''this message was sent and the computer could not read what became of it; it will not be sent again. '' @
     ''Check the computer.''"

definition COMPOSE_OUTCOME_UNRECORDED :: string where
  "COMPOSE_OUTCOME_UNRECORDED =
     ''this message was sent and the computer could not record what became of it; it will not be sent again'' @
     ''. Check the computer.''"

definition REPLAY_INTERRUPT_ABORTED :: string where
  "REPLAY_INTERRUPT_ABORTED =
     ''that turn was already stopped from a phone; nothing was sent again''"

definition REPLAY_INTERRUPT_TURN_ENDED :: string where
  "REPLAY_INTERRUPT_TURN_ENDED =
     ''that turn had already ended on its own when this was sent before, so nothing was stopped; nothing wa'' @
     ''s sent again''"

definition REPLAY_INTERRUPT_REFUSED :: string where
  "REPLAY_INTERRUPT_REFUSED =
     ''an earlier request to stop that turn was refused, so nothing was sent again''"

definition replay_interrupt_unknown_word :: "string \<Rightarrow> string" where
  "replay_interrupt_unknown_word other =
     ''this interrupt is already settled ('' @
     other @
     ''); nothing was sent again''"

definition REPLAY_COMPOSE_REFUSED :: string where
  "REPLAY_COMPOSE_REFUSED =
     ''an earlier attempt to say this was refused, so nothing was sent again''"

definition REPLAY_COMPOSE_SETTLED :: string where
  "REPLAY_COMPOSE_SETTLED =
     ''this message is already settled and will not be sent again; check the computer''"

definition INTERRUPT_CONNECTION_ENDED :: string where
  "INTERRUPT_CONNECTION_ENDED =
     ''the link'' @
     [CHR 0x27] @
     ''s connection to Codex ended while this request to stop the turn was in flight''"

definition COMPOSE_CONNECTION_ENDED :: string where
  "COMPOSE_CONNECTION_ENDED =
     ''the link'' @
     [CHR 0x27] @
     ''s connection to Codex ended while this message was in flight''"

definition wire_refused :: "string \<Rightarrow> string \<Rightarrow> string \<Rightarrow> string" where
  "wire_refused code what remedy =
     what @
     '' was refused (code '' @
     code @
     '') and nothing was changed; '' @
     remedy"

end
