(* ===== verification/Ccd_Link.thy ===== *)
theory Ccd_Link
  imports Ccd_Approval Ccd_Ledger Ccd_Refusals
begin

text \<open>
  The daemon's connection to a session's broker (\<open>ccd/src/codex_link.rs\<close>), first part: what a frame is
  about, the visit it must belong to, where an ask is refused and where it goes, and the frames the link
  writes.
\<close>

text \<open>A \<open>json!\<close> object: its members in the order of their keys.\<close>

definition json_obj :: "(string \<times> json) list \<Rightarrow> json" where
  "json_obj ms = JObj (foldl (\<lambda>acc (k, v). map_insert k v acc) [] ms)"

definition nonempty_str :: "json option \<Rightarrow> string option" where
  "nonempty_str v = (case Option.bind v as_str of None \<Rightarrow> None | Some s \<Rightarrow> if s \<noteq> [] then Some s else None)"

section \<open>The registration\<close>

datatype agent_kind = Claude | Codex | UnsupportedAgent string

record register_session =
  rs_session_id :: string
  rs_agent :: agent_kind
  rs_codex_socket :: "string option"
  rs_codex_generation :: "64 word option"
  rs_codex_thread_id :: "string option"

record control_link =
  cl_socket :: string
  cl_generation :: "64 word"
  cl_thread_id :: "string option"

definition real_thread_id :: "string option \<Rightarrow> string option" where
  "real_thread_id claimed = (case claimed of Some i \<Rightarrow> if \<not> blank i then Some i else None | None \<Rightarrow> None)"

definition from_registration :: "register_session \<Rightarrow> string + control_link option" where
  "from_registration info =
     (if rs_agent info \<noteq> Codex then Inr None
      else (case rs_codex_socket info of
          Some path \<Rightarrow>
            if blank path then Inl (''refusing to register '' @ rs_session_id info @ '': a Codex registration carries no control-link '' @
              ''socket, so the session could never be observed'')
            else (case rs_codex_generation info of
                None \<Rightarrow> Inl (''refusing to register '' @ rs_session_id info @ '': a Codex registration carries no thread '' @
                  ''generation, so its frames could not be attributed to a visit'')
              | Some g \<Rightarrow>
                  if 2 ^ 63 \<le> unat g then Inl (''refusing to register '' @ rs_session_id info @ '': generation '' @ dec (unat g) @
                    '' is larger than the ledger can record ('' @ dec (2 ^ 63 - 1) @ ''), so it could only be stored as a '' @
                    ''different number than the one the frame claimed '' @ em_dash @ '' and no launcher in this fleet mints '' @
                    ''a generation above 1'')
                  else Inr (Some \<lparr>cl_socket = path, cl_generation = g, cl_thread_id = real_thread_id (rs_codex_thread_id info)\<rparr>))
        | None \<Rightarrow> Inl (''refusing to register '' @ rs_session_id info @ '': a Codex registration carries no control-link '' @
            ''socket, so the session could never be observed'')))"

section \<open>What a frame is about\<close>

definition HEAD_NOTICE :: string where "HEAD_NOTICE = ''codeconnect/head''"
definition LIVE_TURN_IN_PROGRESS :: string where "LIVE_TURN_IN_PROGRESS = ''inProgress''"
definition TURN_INTERRUPTED :: string where "TURN_INTERRUPTED = ''interrupted''"
definition NOT_READY_CODE :: int where "NOT_READY_CODE = -32600"
definition NOT_READY_PREFIX :: string where "NOT_READY_PREFIX = ''no rollout found for thread id ''"
definition BROKER_POLICY_REFUSED :: int where "BROKER_POLICY_REFUSED = -32001"
definition BROKER_PAUSED_MESSAGE :: string where
  "BROKER_PAUSED_MESSAGE = ''codex is paused at the computer (Ctrl+Z); run fg there''"
definition APP_SERVER_INVALID_REQUEST :: int where "APP_SERVER_INVALID_REQUEST = -32600"
definition APP_SERVER_INVALID_PARAMS :: int where "APP_SERVER_INVALID_PARAMS = -32602"

datatype frame_kind = NotificationFrame | ResponseFrame | MalformedFrame

definition frame_kind_of :: "json \<Rightarrow> frame_kind" where
  "frame_kind_of frame = (case jget ''method'' frame of
     None \<Rightarrow> ResponseFrame
   | Some (JStr m) \<Rightarrow> NotificationFrame
   | Some v \<Rightarrow> MalformedFrame)"

definition announces_a_session_thread :: "json \<Rightarrow> bool" where
  "announces_a_session_thread frame \<longleftrightarrow> (case Option.bind (jget ''method'' frame) as_str of
     None \<Rightarrow> False
   | Some m \<Rightarrow>
       if m = ''thread/started'' then jpointer [''params'', ''thread'', ''ephemeral''] frame \<noteq> Some (JBool True)
       else m = HEAD_NOTICE)"

datatype frame_thread = Unnamed | Named string | Conflicted

definition frame_thread_id :: "json \<Rightarrow> frame_thread" where
  "frame_thread_id frame = (case jget ''params'' frame of
     None \<Rightarrow> Unnamed
   | Some params \<Rightarrow>
       (let flat = nonempty_str (jget ''threadId'' params);
            nested = nonempty_str (Option.bind (jget ''thread'' params) (jget ''id''))
        in case flat of
             Some a \<Rightarrow> (case nested of Some b \<Rightarrow> if a \<noteq> b then Conflicted else Named a | None \<Rightarrow> Named a)
           | None \<Rightarrow> (case nested of Some b \<Rightarrow> Named b | None \<Rightarrow> Unnamed)))"

definition is_measured_not_ready :: "json \<Rightarrow> string \<Rightarrow> bool" where
  "is_measured_not_ready frame requested_thread \<longleftrightarrow>
     (if jget ''result'' frame \<noteq> None then False
      else (case jget ''error'' frame of
          None \<Rightarrow> False
        | Some err \<Rightarrow>
            if Option.bind (jget ''code'' err) as_i64 \<noteq> Some NOT_READY_CODE then False
            else Option.bind (jget ''message'' err) as_str = Some (NOT_READY_PREFIX @ requested_thread)))"

definition is_broker_policy_refusal :: "json \<Rightarrow> bool" where
  "is_broker_policy_refusal frame \<longleftrightarrow> jget ''result'' frame = None \<and>
     Option.bind (Option.bind (jget ''error'' frame) (jget ''code'')) as_i64 = Some BROKER_POLICY_REFUSED"

datatype wire_refusal = RefusedPaused | RefusedNotTaken | RefusedUnknown

definition wire_refusal_of :: "json \<Rightarrow> wire_refusal" where
  "wire_refusal_of frame = (case (jget ''error'' frame, jget ''result'' frame) of
     (Some (JObj err), None) \<Rightarrow>
       (case Option.bind (hget err ''code'') as_i64 of
          None \<Rightarrow> RefusedUnknown
        | Some code \<Rightarrow>
            if code = BROKER_POLICY_REFUSED \<and> Option.bind (hget err ''message'') as_str = Some BROKER_PAUSED_MESSAGE
            then RefusedPaused
            else if code \<in> {BROKER_POLICY_REFUSED, APP_SERVER_INVALID_REQUEST, APP_SERVER_INVALID_PARAMS} then RefusedNotTaken
            else RefusedUnknown)
   | _ \<Rightarrow> RefusedUnknown)"

definition int_text :: "int \<Rightarrow> string" where
  "int_text n = (if n < 0 then CHR ''-'' # dec (nat (- n)) else dec (nat n))"

definition wire_refusal_reason :: "json \<Rightarrow> string \<Rightarrow> string \<Rightarrow> string" where
  "wire_refusal_reason frame what remedy =
     wire_refused (case Option.bind (jpointer [''error'', ''code''] frame) as_i64 of Some code \<Rightarrow> int_text code | None \<Rightarrow> ''none'')
       what remedy"

section \<open>The visit\<close>

record ingress =
  in_generation :: "64 word"
  in_upstream_epoch :: "64 word"

record visit =
  vi_generation :: "64 word"
  vi_upstream_epoch :: "64 word"
  vi_thread_id :: "string option"

definition admits :: "visit \<Rightarrow> ingress \<Rightarrow> frame_thread \<Rightarrow> bool" where
  "admits v stamp named \<longleftrightarrow>
     (if in_upstream_epoch stamp \<noteq> vi_upstream_epoch v \<or> in_generation stamp \<noteq> vi_generation v then False
      else (case named of
          Conflicted \<Rightarrow> False
        | Named seen \<Rightarrow> (case vi_thread_id v of Some bound \<Rightarrow> bound = seen | None \<Rightarrow> False)
        | Unnamed \<Rightarrow> True))"

text \<open>What the link is, for a resolver.\<close>

datatype codex_addressee =
    NoLink
  | OfflineLink "string option"
  | UnboundLink "string option"
  | BoundLink string
  | BoundNotStartedLink string
  | StartInFlightLink string
  | SubscribedLink string

definition addressee_thread_id :: "codex_addressee \<Rightarrow> string option" where
  "addressee_thread_id a = (case a of
     BoundLink t \<Rightarrow> Some t | BoundNotStartedLink t \<Rightarrow> Some t | StartInFlightLink t \<Rightarrow> Some t | SubscribedLink t \<Rightarrow> Some t
   | OfflineLink t \<Rightarrow> t | UnboundLink adopted \<Rightarrow> adopted | NoLink \<Rightarrow> None)"

datatype codex_link = LinkSubscribed | LinkBound | LinkBoundNotStarted | LinkOffline | LinkNone

definition wire_link :: "codex_addressee \<Rightarrow> codex_link" where
  "wire_link a = (case a of
     SubscribedLink t \<Rightarrow> LinkSubscribed
   | BoundLink t \<Rightarrow> LinkBound
   | BoundNotStartedLink t \<Rightarrow> LinkBoundNotStarted
   | StartInFlightLink t \<Rightarrow> LinkBound
   | OfflineLink t \<Rightarrow> LinkOffline
   | UnboundLink t \<Rightarrow> LinkOffline
   | NoLink \<Rightarrow> LinkNone)"

definition addressee_of ::
  "string option \<Rightarrow> string option \<Rightarrow> string option \<Rightarrow> string option \<Rightarrow> string option \<Rightarrow> codex_addressee" where
  "addressee_of bound adopted carried not_ready start_in_flight = (case bound of
     Some b \<Rightarrow>
       if adopted = Some b then SubscribedLink b
       else if not_ready = Some b then BoundNotStartedLink b
       else if start_in_flight = Some b then StartInFlightLink b
       else BoundLink b
   | None \<Rightarrow> UnboundLink carried)"

section \<open>Refusals and routes\<close>

record running_turn =
  rt_thread_id :: string
  rt_generation :: "64 word"
  rt_turn_id :: string

definition is_named_by :: "running_turn \<Rightarrow> claimed_material \<Rightarrow> bool" where
  "is_named_by r m \<longleftrightarrow> cm_thread_id m = rt_thread_id r \<and> cm_generation m = rt_generation r \<and>
     cm_target_turn_id m = Some (rt_turn_id r)"

definition interrupt_refusal ::
  "visit \<Rightarrow> running_turn option \<Rightarrow> bool \<Rightarrow> claimed_material \<Rightarrow> 64 word \<Rightarrow> bool \<Rightarrow> string option" where
  "interrupt_refusal v running switch_pending m upstream_epoch already_waiting =
     (if or_default (cm_target_turn_id m) = [] then Some LINK_INTERRUPT_NAMES_NO_TURN
      else if vi_upstream_epoch v \<noteq> upstream_epoch then Some INTERRUPT_RECONNECTED_IN_FLIGHT
      else if vi_thread_id v \<noteq> Some (cm_thread_id m) then Some INTERRUPT_OTHER_THREAD
      else if vi_generation v \<noteq> cm_generation m then Some INTERRUPT_VISIT_MOVED_ON
      else if \<not> (case running of Some r \<Rightarrow> is_named_by r m | None \<Rightarrow> False) then Some INTERRUPT_TURN_NOT_RUNNING
      else if switch_pending then Some INTERRUPT_THREAD_SWITCHING
      else if already_waiting then Some INTERRUPT_ALREADY_WAITING
      else None)"

definition compose_route ::
  "visit \<Rightarrow> running_turn option \<Rightarrow> bool \<Rightarrow> codex_addressee \<Rightarrow> string \<Rightarrow> 64 word \<Rightarrow> 64 word \<Rightarrow> string + string" where
  "compose_route v running switch_pending addressee thread_id generation upstream_epoch =
     (if vi_upstream_epoch v \<noteq> upstream_epoch then Inl COMPOSE_RECONNECTED_IN_FLIGHT
      else if vi_thread_id v \<noteq> Some thread_id then Inl COMPOSE_OTHER_THREAD
      else if vi_generation v \<noteq> generation then Inl COMPOSE_VISIT_MOVED_ON
      else if switch_pending then Inl COMPOSE_THREAD_SWITCHING
      else if (case addressee of StartInFlightLink t \<Rightarrow> True | _ \<Rightarrow> False) then Inl COMPOSE_START_IN_FLIGHT
      else if (case addressee of BoundLink t \<Rightarrow> True | _ \<Rightarrow> False) then Inl COMPOSE_LINK_BOUND
      else
        let not_started = (case addressee of BoundNotStartedLink t \<Rightarrow> True | _ \<Rightarrow> False) in
        (case running of
           Some r \<Rightarrow>
             if rt_thread_id r = thread_id \<and> rt_generation r = generation
             then (if not_started then Inl COMPOSE_NO_TURN_TO_STEER else Inr COMPOSE_ROUTE_STEER)
             else Inr COMPOSE_ROUTE_START
         | None \<Rightarrow> Inr COMPOSE_ROUTE_START))"

definition compose_claim :: "string \<Rightarrow> string \<Rightarrow> 64 word \<Rightarrow> string option \<Rightarrow> string \<Rightarrow> claimed_material" where
  "compose_claim route thread_id generation composed_against claimed_hash =
     \<lparr>cm_thread_id = thread_id, cm_generation = generation, cm_route = route,
      cm_target_turn_id = composed_against, cm_claimed_hash = claimed_hash\<rparr>"

section \<open>The frames the link writes\<close>

text \<open>The longest text a phone may compose (\<open>protocol/src/ws.rs\<close>).\<close>

definition MAX_COMPOSE_BYTES :: nat where "MAX_COMPOSE_BYTES = 8 * 1024"

definition compose_input :: "string \<Rightarrow> json" where
  "compose_input words = JArr [json_obj [(''type'', JStr ''text''), (''text'', JStr words), (''text_elements'', JArr [])]]"

definition compose_frame :: "int \<Rightarrow> string \<Rightarrow> string \<Rightarrow> string option \<Rightarrow> string \<Rightarrow> json" where
  "compose_frame wire_id route thread_id composed_against words =
     (if route = COMPOSE_ROUTE_STEER
      then json_obj [(''id'', JInt wire_id), (''method'', JStr ''turn/steer''),
        (''params'', json_obj
          [(''threadId'', JStr thread_id),
           (''expectedTurnId'', case composed_against of Some t \<Rightarrow> JStr t | None \<Rightarrow> JNull),
           (''input'', compose_input words),
           (''clientUserMessageId'', JNull),
           (''responsesapiClientMetadata'', JNull),
           (''additionalContext'', JNull)])]
      else json_obj [(''id'', JInt wire_id), (''method'', JStr ''turn/start''),
        (''params'', json_obj
          [(''threadId'', JStr thread_id),
           (''input'', compose_input words),
           (''approvalPolicy'', JNull),
           (''approvalsReviewer'', JNull),
           (''cwd'', JNull),
           (''sandboxPolicy'', JNull),
           (''permissions'', JNull),
           (''environments'', JNull),
           (''multiAgentMode'', JNull),
           (''responsesapiClientMetadata'', JNull),
           (''additionalContext'', JNull),
           (''outputSchema'', JNull),
           (''collaborationMode'', JNull),
           (''clientUserMessageId'', JNull)])])"

definition interrupt_frame :: "int \<Rightarrow> string \<Rightarrow> string \<Rightarrow> json" where
  "interrupt_frame wire_id thread_id turn_id =
     json_obj [(''id'', JInt wire_id), (''method'', JStr ''turn/interrupt''),
       (''params'', json_obj [(''threadId'', JStr thread_id), (''turnId'', JStr turn_id)])]"

definition resume_frame :: "int \<Rightarrow> string \<Rightarrow> json" where
  "resume_frame wire_id thread_id =
     json_obj [(''id'', JInt wire_id), (''method'', JStr ''thread/resume''), (''params'', json_obj [(''threadId'', JStr thread_id)])]"

definition answer_frame :: "int \<Rightarrow> json \<Rightarrow> json" where
  "answer_frame wire_id decision =
     json_obj [(''id'', JInt wire_id), (''result'', json_obj [(''decision'', decision)])]"

end
