(* ===== verification/Ccd_Link_Broker.thy ===== *)
theory Ccd_Link_Broker
  imports Ccd_Link Broker_Policy_Props Broker_Relay
begin

text \<open>
  The daemon and the broker are two programs on one socket, and each holds its own copy of the shapes
  that pass between them. Here what \<open>ccd/src/codex_link.rs\<close> writes meets what
  \<open>codex-broker/src/refusal.rs\<close> lets a phone's leg send.
\<close>

section \<open>The members of a written object\<close>

lemma map_insert_keys: "fst ` set (map_insert k v ms) = insert k (fst ` set ms)"
  by (induction k v ms rule: map_insert.induct) auto

lemma map_insert_sorted:
  "sorted_wrt (<) (map fst ms) \<Longrightarrow> sorted_wrt (<) (map fst (map_insert k v ms))"
proof (induction k v ms rule: map_insert.induct)
  case (2 k v k' v' ms)
  have "\<forall>y \<in> set (map fst (map_insert k v ms)). k' < y" if "k' < k"
    using that 2 map_insert_keys [of k v ms] by simp
  with 2 show ?case by (cases "k = k'"; cases "k < k'") (auto simp: not_less_iff_gr_or_eq)
qed simp

lemma map_insert_get: "map_of (map_insert k v ms) = (map_of ms)(k \<mapsto> v)"
  by (induction k v ms rule: map_insert.induct) (auto simp: fun_eq_iff)

lemma json_obj_foldl:
  "sorted_wrt (<) (map fst acc) \<Longrightarrow>
   (let r = foldl (\<lambda>acc (k, v). map_insert k v acc) acc ms in
      sorted_wrt (<) (map fst r) \<and> fst ` set r = fst ` set acc \<union> fst ` set ms \<and> map_of r = map_of acc ++ map_of (rev ms))"
proof (induction ms arbitrary: acc)
  case (Cons m ms)
  obtain k v where m: "m = (k, v)" by (cases m)
  from Cons.IH [OF map_insert_sorted [OF Cons.prems, of k v]]
  show ?case by (auto simp: m Let_def map_insert_keys map_insert_get map_add_def fun_eq_iff split: option.splits)
qed simp

lemma json_obj_members:
  assumes "distinct (map fst ms)"
  obtains ms' where "json_obj ms = JObj ms'" "distinct (map fst ms')" "fst ` set ms' = fst ` set ms" "map_of ms' = map_of ms"
proof
  let ?r = "foldl (\<lambda>acc (k, v). map_insert k v acc) [] ms"
  show "json_obj ms = JObj ?r" by (simp add: json_obj_def)
  from json_obj_foldl [of "[]" ms] have r: "sorted_wrt (<) (map fst ?r)" "fst ` set ?r = fst ` set ms" "map_of ?r = map_of (rev ms)"
    by (simp_all add: Let_def)
  then show "distinct (map fst ?r)" by (simp add: strict_sorted_iff)
  show "fst ` set ?r = fst ` set ms" by (fact r(2))
  show "map_of ?r = map_of ms" using r(3) assms by (metis distinct_rev map_of_inject_set rev_map set_rev)
qed

lemma json_obj_get: "distinct (map fst ms) \<Longrightarrow> jget k (json_obj ms) = map_of ms k"
  by (rule json_obj_members [of ms]) simp_all

lemma json_obj_wf: "distinct (map fst ms) \<Longrightarrow> list_all (\<lambda>m. wf_json (snd m)) ms \<Longrightarrow> wf_json (json_obj ms)"
proof -
  assume d: "distinct (map fst ms)" and all: "list_all (\<lambda>m. wf_json (snd m)) ms"
  from json_obj_members [OF d] obtain ms' where m: "json_obj ms = JObj ms'" "distinct (map fst ms')" "map_of ms' = map_of ms" .
  have "wf_json v" if "(k, v) \<in> set ms'" for k v
  proof -
    from that m(2) have "map_of ms k = Some v" using m(3) by (metis map_of_is_SomeI)
    then have "(k, v) \<in> set ms" by (rule map_of_SomeD)
    with all show ?thesis by (auto simp: list_all_iff)
  qed
  with m show ?thesis by (auto simp: wf_members_iff)
qed

section \<open>The shape of a written request\<close>

definition written :: "ext \<Rightarrow> json \<Rightarrow> ws_payload" where
  "written L frame = PText (json_write L frame)"

lemma written_shape:
  assumes "json_read L (json_write L frame) = (frame, True)"
    and "frame = json_obj [(''id'', JInt wire_id), (''method'', JStr m), (''params'', p)]" "wf_json p"
    and "- (2 ^ 63) \<le> wire_id" "wire_id < 2 ^ 63"
  shows "classify_shape L (written L frame) = SRequest m (Some (RInt wire_id)) frame"
    and "request_params frame = p"
proof -
  let ?ms = "[(''id'', JInt wire_id), (''method'', JStr m), (''params'', p)]"
  have d: "distinct (map fst ?ms)" by simp
  have wf: "wf_json frame" unfolding assms(2) by (rule json_obj_wf [OF d]) (simp add: assms(3))
  from json_obj_members [OF d] obtain ms where ms: "frame = JObj ms" "map_of ms = map_of ?ms"
    using assms(2) by metis
  show "request_params frame = p"
    using json_obj_get [OF d, of "''params''"] by (simp add: request_params_def assms(2))
  have "parse_no_dup L (json_write L frame) = Inr frame"
    using assms(1) wf by (simp add: parse_no_dup_Inr parse_no_dup_value_iff)
  with assms(4,5) show "classify_shape L (written L frame) = SRequest m (Some (RInt wire_id)) frame"
    by (simp add: written_def classify_shape_def ms classify_object_def Let_def id_from_value_int)
qed

lemma compose_input_item:
  assumes "jget ''input'' p = Some (compose_input words)"
  shows "one_text_item p \<longleftrightarrow> length words \<le> 8192"
proof -
  let ?ms = "[(''type'', JStr ''text''), (''text'', JStr words), (''text_elements'', JArr [])]"
  have d: "distinct (map fst ?ms)" by simp
  from json_obj_members [OF d] obtain it where it: "json_obj ?ms = JObj it" "fst ` set it = fst ` set ?ms" "map_of it = map_of ?ms" .
  have keys: "fst ` set it = {''text'', ''text_elements'', ''type''}" unfolding it(2) by auto
  have "text_item (json_obj ?ms) \<longleftrightarrow> length words \<le> 8192"
    unfolding text_item_def it(1) by (simp add: keys it(3))
  with assms show ?thesis by (simp add: one_text_item_def compose_input_def)
qed

lemma compose_input_wf: "wf_json (compose_input words)"
proof -
  have "wf_json (json_obj [(''type'', JStr ''text''), (''text'', JStr words), (''text_elements'', JArr [])])"
    by (rule json_obj_wf) simp_all
  then show ?thesis by (simp add: compose_input_def)
qed

text \<open>The members of the three params objects.\<close>

definition start_members :: "string \<Rightarrow> string \<Rightarrow> (string \<times> json) list" where
  "start_members thread_id words =
     [(''threadId'', JStr thread_id), (''input'', compose_input words), (''approvalPolicy'', JNull),
      (''approvalsReviewer'', JNull), (''cwd'', JNull), (''sandboxPolicy'', JNull), (''permissions'', JNull),
      (''environments'', JNull), (''multiAgentMode'', JNull), (''responsesapiClientMetadata'', JNull),
      (''additionalContext'', JNull), (''outputSchema'', JNull), (''collaborationMode'', JNull),
      (''clientUserMessageId'', JNull)]"

definition steer_members :: "string \<Rightarrow> string option \<Rightarrow> string \<Rightarrow> (string \<times> json) list" where
  "steer_members thread_id composed_against words =
     [(''threadId'', JStr thread_id),
      (''expectedTurnId'', case composed_against of Some t \<Rightarrow> JStr t | None \<Rightarrow> JNull),
      (''input'', compose_input words),
      (''clientUserMessageId'', JNull),
      (''responsesapiClientMetadata'', JNull),
      (''additionalContext'', JNull)]"

lemma compose_frame_members:
  "compose_frame wire_id route thread_id composed_against words =
     (if route = COMPOSE_ROUTE_STEER
      then json_obj [(''id'', JInt wire_id), (''method'', JStr ''turn/steer''),
        (''params'', json_obj (steer_members thread_id composed_against words))]
      else json_obj [(''id'', JInt wire_id), (''method'', JStr ''turn/start''),
        (''params'', json_obj (start_members thread_id words))])"
  by (simp only: compose_frame_def steer_members_def start_members_def)

lemma distinct_members:
  "distinct (map fst (start_members thread_id words))"
  "distinct (map fst (steer_members thread_id composed_against words))"
  by (simp_all add: start_members_def steer_members_def)

lemma start_params:
  assumes "p = json_obj (start_members thread_id words)"
  shows "turn_params p \<longleftrightarrow> length words \<le> 8192"
    and "wf_json p" "jget ''threadId'' p = Some (JStr thread_id)" "jget ''cwd'' p = Some JNull"
    "jget ''runtimeWorkspaceRoots'' p = None"
proof -
  note d = distinct_members(1) [of thread_id words]
  note get = json_obj_get [OF d, folded assms]
  show "wf_json p" unfolding assms by (rule json_obj_wf [OF d]) (simp add: compose_input_wf start_members_def)
  show "jget ''threadId'' p = Some (JStr thread_id)" "jget ''cwd'' p = Some JNull" "jget ''runtimeWorkspaceRoots'' p = None"
    by (simp_all add: get start_members_def)
  from json_obj_members [OF d] obtain ms where ms: "p = JObj ms"
      "fst ` set ms = fst ` set (start_members thread_id words)" "map_of ms = map_of (start_members thread_id words)"
    unfolding assms by metis
  have "fst ` set ms = set PHONE_TURN_PARAMS" unfolding ms(2) PHONE_TURN_PARAMS_def start_members_def by auto
  moreover have "\<forall>k \<in> set PHONE_TURN_NULL_PARAMS. map_of ms k = Some JNull"
    by (simp add: ms(3) PHONE_TURN_NULL_PARAMS_def start_members_def)
  moreover have "one_text_item p \<longleftrightarrow> length words \<le> 8192" by (rule compose_input_item) (simp add: get start_members_def)
  ultimately show "turn_params p \<longleftrightarrow> length words \<le> 8192" unfolding turn_params_def using ms(1) by blast
qed

lemma steer_params_written:
  assumes "p = json_obj (steer_members thread_id composed_against words)"
  shows "steer_params p th tu \<longleftrightarrow> th = thread_id \<and> composed_against = Some tu \<and> length words \<le> 8192"
    and "wf_json p"
proof -
  note d = distinct_members(2) [of thread_id composed_against words]
  note get = json_obj_get [OF d, folded assms]
  show "wf_json p"
    unfolding assms by (rule json_obj_wf [OF d]) (simp add: compose_input_wf steer_members_def split: option.split)
  from json_obj_members [OF d] obtain ms where ms: "p = JObj ms"
      "fst ` set ms = fst ` set (steer_members thread_id composed_against words)"
      "map_of ms = map_of (steer_members thread_id composed_against words)"
    unfolding assms by metis
  have "fst ` set ms = set STEER_PARAMS" unfolding ms(2) STEER_PARAMS_def steer_members_def by auto
  moreover have "\<forall>k \<in> set STEER_NULL_PARAMS. map_of ms k = Some JNull"
    by (simp add: ms(3) STEER_NULL_PARAMS_def steer_members_def)
  moreover have "map_of ms ''threadId'' = Some (JStr th) \<longleftrightarrow> th = thread_id"
    "map_of ms ''expectedTurnId'' = Some (JStr tu) \<longleftrightarrow> composed_against = Some tu"
    by (auto simp: ms(3) steer_members_def split: option.split)
  moreover have "one_text_item p \<longleftrightarrow> length words \<le> 8192" by (rule compose_input_item) (simp add: get steer_members_def)
  ultimately show "steer_params p th tu \<longleftrightarrow> th = thread_id \<and> composed_against = Some tu \<and> length words \<le> 8192"
    unfolding steer_params_def using ms(1) by blast
qed

lemma interrupt_params_written:
  assumes "p = json_obj [(''threadId'', JStr thread_id), (''turnId'', JStr turn_id)]"
  shows "interrupt_params p th tu \<longleftrightarrow> th = thread_id \<and> tu = turn_id" and "wf_json p"
proof -
  let ?ms = "[(''threadId'', JStr thread_id), (''turnId'', JStr turn_id)]"
  have d: "distinct (map fst ?ms)" by simp
  show "wf_json p" unfolding assms by (rule json_obj_wf [OF d]) simp
  from json_obj_members [OF d] obtain ms where ms: "p = JObj ms" "fst ` set ms = fst ` set ?ms" "map_of ms = map_of ?ms"
    unfolding assms by metis
  then show "interrupt_params p th tu \<longleftrightarrow> th = thread_id \<and> tu = turn_id"
    by (auto simp: interrupt_params_def)
qed

section \<open>What the daemon writes, the broker admits\<close>

text \<open>What the broker's session still has to say of a compose or a stop that reached it.\<close>

definition route_admitted :: "binding \<Rightarrow> conn_id \<Rightarrow> int \<Rightarrow> string \<Rightarrow> string \<Rightarrow> string option \<Rightarrow> bool" where
  "route_admitted g c wire_id route thread_id composed_against =
     (if route = COMPOSE_ROUTE_STEER
      then bound_thread g = Some thread_id \<and> (case composed_against of Some tu \<Rightarrow> is_active_turn g thread_id tu | None \<Rightarrow> False) \<and>
        snd (try_admit_request g c (RInt wire_id) ''turn/steer'') = Admitted
      else snd (try_admit_idle_turn g c (RInt wire_id) thread_id (Some JNull) None) = TurnAdmitted)"

definition stop_admitted :: "binding \<Rightarrow> conn_id \<Rightarrow> int \<Rightarrow> string \<Rightarrow> string \<Rightarrow> bool" where
  "stop_admitted g c wire_id thread_id turn_id \<longleftrightarrow>
     bound_thread g = Some thread_id \<and> is_active_turn g thread_id turn_id \<and>
     snd (try_admit_request g c (RInt wire_id) ''turn/interrupt'') = Admitted"

lemma composed_frame_forwarded:
  assumes "frame = compose_frame wire_id route thread_id composed_against words"
    and "json_read L (json_write L frame) = (frame, True)"
    and "- (2 ^ 63) \<le> wire_id" "wire_id < 2 ^ 63"
  shows "is_forward (snd (classify L session_threads (leg_capabilities L) c (g, cs) (written L frame))) \<longleftrightarrow>
     length words \<le> MAX_COMPOSE_BYTES \<and> route_admitted g c wire_id route thread_id composed_against"
proof (cases "route = COMPOSE_ROUTE_STEER")
  case True
  note p = steer_params_written [OF refl, of thread_id composed_against words]
  from True assms(1) have f: "frame = json_obj [(''id'', JInt wire_id), (''method'', JStr ''turn/steer''),
      (''params'', json_obj (steer_members thread_id composed_against words))]" by (simp add: compose_frame_members)
  note w = written_shape [OF assms(2) f p(2) assms(3,4)]
  show ?thesis unfolding request_policy [OF w(1)] w(2)
    by (auto simp: True may_steer p(1) session_admits_def route_admitted_def MAX_COMPOSE_BYTES_def split: option.split)
next
  case False
  note p = start_params [OF refl, of thread_id words]
  from False assms(1) have f: "frame = json_obj [(''id'', JInt wire_id), (''method'', JStr ''turn/start''),
      (''params'', json_obj (start_members thread_id words))]" by (simp add: compose_frame_members)
  note w = written_shape [OF assms(2) f p(2) assms(3,4)]
  show ?thesis unfolding request_policy [OF w(1)] w(2)
    by (simp add: False may_turn p session_admits_def route_admitted_def MAX_COMPOSE_BYTES_def)
qed

lemma interrupt_frame_forwarded:
  assumes "frame = interrupt_frame wire_id thread_id turn_id"
    and "json_read L (json_write L frame) = (frame, True)"
    and "- (2 ^ 63) \<le> wire_id" "wire_id < 2 ^ 63"
  shows "is_forward (snd (classify L session_threads (leg_capabilities L) c (g, cs) (written L frame))) \<longleftrightarrow>
     stop_admitted g c wire_id thread_id turn_id"
proof -
  note p = interrupt_params_written [OF refl, of thread_id turn_id]
  note w = written_shape [OF assms(2) assms(1) [unfolded interrupt_frame_def] p(2) assms(3,4)]
  show ?thesis unfolding request_policy [OF w(1)] w(2)
    by (auto simp: may_interrupt p(1) session_admits_def stop_admitted_def)
qed

text \<open>The two ends agree on a message and on a stop. Whatever a person typed, the frame the daemon
  writes for it has a shape the broker lets a phone send: it is forwarded exactly when the text is within
  the daemon's own bound and the broker's session admits it, for a start as the idle head's next turn, for a
  steer as a request about the turn that is running; and a stop is forwarded exactly when it names the
  running turn of the head. No frame of the two is refused for its shape.\<close>
theorem composed_frames_pass_the_broker:
  assumes "list_all (\<lambda>frame. json_read L (json_write L frame) = (frame, True))
      [compose_frame wire_id route thread_id composed_against words, interrupt_frame wire_id thread_id turn_id]"
    and "- (2 ^ 63) \<le> wire_id" "wire_id < 2 ^ 63"
  shows "(is_forward (snd (classify L session_threads (leg_capabilities L) c (g, cs)
         (written L (compose_frame wire_id route thread_id composed_against words)))) \<longleftrightarrow>
       length words \<le> MAX_COMPOSE_BYTES \<and> route_admitted g c wire_id route thread_id composed_against) \<and>
     (is_forward (snd (classify L session_threads (leg_capabilities L) c (g, cs)
         (written L (interrupt_frame wire_id thread_id turn_id)))) \<longleftrightarrow>
       stop_admitted g c wire_id thread_id turn_id)"
  using assms composed_frame_forwarded [OF refl] interrupt_frame_forwarded [OF refl] by simp

text \<open>The steer and the stop of a turn that is running, each admitted.\<close>

definition running_head :: binding where
  "running_head = new_binding\<lparr>head := On \<lparr>thread = ''t'', left = False\<rparr>, ever_bound := True,
     turns := (turns new_binding)\<lparr>running := [(''t'', ''u'')]\<rparr>\<rparr>"

definition steer_example :: json where
  "steer_example = compose_frame 3 COMPOSE_ROUTE_STEER ''t'' (Some ''u'') ''go on''"

definition stop_example :: json where
  "stop_example = interrupt_frame 3 ''t'' ''u''"

definition two_frames :: ext where
  "two_frames = \<lparr>json_read = (\<lambda>s. (if s = ''stop'' then stop_example else steer_example, True)),
     json_write = (\<lambda>v. if v = stop_example then ''stop'' else ''steer''), uni_verbatim = (\<lambda>n. True)\<rparr>"

lemma two_frames_differ: "steer_example \<noteq> stop_example"
proof
  assume "steer_example = stop_example"
  then have "jget ''method'' steer_example = jget ''method'' stop_example" by simp
  then show False
    by (simp add: steer_example_def stop_example_def compose_frame_def interrupt_frame_def json_obj_get)
qed

lemma running_head_admits:
  "stop_admitted running_head 7 3 ''t'' ''u''" "route_admitted running_head 7 3 COMPOSE_ROUTE_STEER ''t'' (Some ''u'')"
  by (simp_all add: stop_admitted_def route_admitted_def running_head_def new_binding_def bound_thread_def is_active_turn_def
      is_active_def try_admit_request_def admit_id_def Let_def id_within_cap_def MAX_TRACKED_CONNECTIONS_def
      MAX_OUTSTANDING_REQUESTS_def)

lemma composed_frames_pass_witness:
  "is_forward (snd (classify two_frames session_threads (leg_capabilities two_frames) 7 (running_head, (bk_arbiter new_broker, new_leg))
      (written two_frames steer_example))) \<and>
   is_forward (snd (classify two_frames session_threads (leg_capabilities two_frames) 7 (running_head, (bk_arbiter new_broker, new_leg))
      (written two_frames stop_example)))"
proof -
  have "list_all (\<lambda>frame. json_read two_frames (json_write two_frames frame) = (frame, True))
      [compose_frame 3 COMPOSE_ROUTE_STEER ''t'' (Some ''u'') ''go on'', interrupt_frame 3 ''t'' ''u'']"
    using two_frames_differ by (simp add: two_frames_def steer_example_def stop_example_def)
  from composed_frames_pass_the_broker [OF this] running_head_admits
  show ?thesis by (simp add: steer_example_def stop_example_def MAX_COMPOSE_BYTES_def)
qed

end
