(* ===== verification/Ccd_Asks.thy ===== *)
theory Ccd_Asks
  imports Ccd_Link
begin

text \<open>
  What the link to a session's broker does with a phone's message and with its stop
  (\<open>ccd/src/codex_link.rs\<close>, \<open>Connection::compose_turn\<close>, \<open>Connection::interrupt_turn\<close> and what settles
  them), over the claim ledger.

  The ledger is shared with every other task of the daemon. A call of the link awaits the database
  several times, and what the other tasks do to the ledger between two of its statements, and which of its
  statements SQLite fails, are given with the call (\<open>ledger_world\<close>). Beside its state a link keeps the
  ledger calls made, the frames it handed to its socket and what it told whom.
\<close>

section \<open>What a settled claim is replayed as\<close>

definition ANSWER_DELIVERED :: string where "ANSWER_DELIVERED = ''delivered''"
definition ANSWER_LOST :: string where "ANSWER_LOST = ''lost''"
definition INTERRUPT_ROUTE :: string where "INTERRUPT_ROUTE = ''stop''"
definition INTERRUPT_ABORTED :: string where "INTERRUPT_ABORTED = ''aborted''"
definition INTERRUPT_TURN_ENDED :: string where "INTERRUPT_TURN_ENDED = ''turn_ended''"
definition INTERRUPT_REFUSED :: string where "INTERRUPT_REFUSED = ''refused''"
definition COMPOSE_REFUSED :: string where "COMPOSE_REFUSED = ''refused''"

definition replayed_answer_sentence :: "string \<Rightarrow> string" where
  "replayed_answer_sentence outcome =
     (if outcome = ANSWER_DELIVERED then ''this card was already answered from a phone; nothing was sent again''
      else if outcome = ANSWER_LOST then ''a phone answer to this card lost the race '' @ em_dash @
        '' something else answered it first '' @ em_dash @ '' so nothing was sent again''
      else ''this card'' @ [CHR 0x27] @ ''s answer is already settled ('' @ outcome @ ''); nothing was sent again'')"

definition replayed_interrupt_sentence :: "string \<Rightarrow> string" where
  "replayed_interrupt_sentence outcome =
     (if outcome = INTERRUPT_ABORTED then REPLAY_INTERRUPT_ABORTED
      else if outcome = INTERRUPT_TURN_ENDED then REPLAY_INTERRUPT_TURN_ENDED
      else if outcome = INTERRUPT_REFUSED then REPLAY_INTERRUPT_REFUSED
      else replay_interrupt_unknown_word outcome)"

definition replayed_compose_sentence :: "string \<Rightarrow> string" where
  "replayed_compose_sentence outcome =
     (if outcome = COMPOSE_REFUSED then REPLAY_COMPOSE_REFUSED else REPLAY_COMPOSE_SETTLED)"

datatype interrupt_report =
    Aborted string
  | DuplicateStop string
  | StopNotApplied string
  | StopUnknown string

datatype compose_report =
    Started string
  | Steered string
  | DuplicateCompose string bool
  | ComposeNotApplied string
  | ComposeUnknown string

definition replayed_interrupt_report :: "string \<Rightarrow> string \<Rightarrow> interrupt_report" where
  "replayed_interrupt_report outcome turn_id =
     (if outcome = INTERRUPT_ABORTED then DuplicateStop turn_id else StopNotApplied (replayed_interrupt_sentence outcome))"

definition replayed_compose_report :: "string \<Rightarrow> compose_report" where
  "replayed_compose_report outcome = (case parse_compose_outcome outcome of
     Some (route, turn_id) \<Rightarrow> DuplicateCompose turn_id (route = COMPOSE_ROUTE_START)
   | None \<Rightarrow> ComposeNotApplied (replayed_compose_sentence outcome))"

section \<open>The state\<close>

text \<open>A reply channel is the number of the caller that waits at its other end.\<close>

record compose_request =
  cq_client_request_id :: string
  cq_upstream_epoch :: "64 word"
  cq_thread_id :: string
  cq_generation :: "64 word"
  cq_text :: string
  cq_claimed_hash :: string
  cq_reply :: nat

record interrupt_request =
  iq_client_request_id :: string
  iq_upstream_epoch :: "64 word"
  iq_claimed :: claimed_material
  iq_reply :: nat

record pending_compose =
  pc_client_request_id :: string
  pc_claimed_hash :: string
  pc_thread_id :: string
  pc_route :: string
  pc_composed_against :: "string option"
  pc_replies :: "nat list"

record pending_interrupt =
  pi_client_request_id :: string
  pi_thread_id :: string
  pi_turn_id :: string
  pi_replies :: "nat list"

text \<open>Who made a ledger call, and for a link's release the answer that made it.\<close>

datatype ledger_author = OtherTask | LinkItself | LinkRefused json

record link_asks =
  la_uid :: string
  la_ledger :: "ledger_row list"
  la_calls :: "(ledger_author \<times> ledger_call) list"
  la_next_id :: int
  la_visit :: visit
  la_running_turn :: "running_turn option"
  la_switch_candidate :: "string option"
  la_adopted_thread :: "string option"
  la_carried_target :: "string option"
  la_not_ready_thread :: "string option"
  la_start_in_flight :: "string option"
  la_resume_due_now :: bool
  la_open_composes :: "(int, pending_compose) hash"
  la_open_interrupts :: "(int, pending_interrupt) hash"
  la_written :: "(string \<times> string \<times> json) list"
  la_told_composes :: "(string \<times> nat \<times> compose_report) list"
  la_told_interrupts :: "(string \<times> nat \<times> interrupt_report) list"

definition link_addressee :: "link_asks \<Rightarrow> codex_addressee" where
  "link_addressee s = addressee_of (vi_thread_id (la_visit s)) (la_adopted_thread s) (la_carried_target s)
     (la_not_ready_thread s) (la_start_in_flight s)"

section \<open>The ledger under a call\<close>

record ledger_world =
  lw_meanwhile :: "ledger_call list"
  lw_read :: bool
  lw_between :: "ledger_call list"
  lw_write :: bool
  lw_afterwards :: "ledger_call list"
  lw_reread :: bool
  lw_session :: bool
  lw_now :: string

definition ledger_do :: "ledger_author \<Rightarrow> ledger_call \<Rightarrow> link_asks \<Rightarrow> link_asks" where
  "ledger_do who call s = s\<lparr>la_ledger := ledger_step call (la_ledger s), la_calls := la_calls s @ [(who, call)]\<rparr>"

definition others :: "ledger_call list \<Rightarrow> link_asks \<Rightarrow> link_asks" where
  "others calls s = fold (ledger_do OtherTask) calls s"

definition link_status :: "bool \<Rightarrow> string \<Rightarrow> string \<Rightarrow> link_asks \<Rightarrow> mutation_state option" where
  "link_status readable kind rid s = (if readable then mutation_status kind (la_uid s) rid (la_ledger s) else None)"

datatype settlement = Recorded | Superseded | Unrecorded

text \<open>One closing statement of a pending claim: \<open>took\<close> is its result, \<open>who\<close> and \<open>call\<close> what it is.\<close>

definition close_claim :: "ledger_world \<Rightarrow> (ledger_row list \<Rightarrow> bool) \<Rightarrow> ledger_author \<Rightarrow> ledger_call \<Rightarrow> link_asks \<Rightarrow> settlement \<times> link_asks" where
  "close_claim w took who call s =
     (let s = others (lw_between w) s in
      if \<not> lw_write w then (Unrecorded, s)
      else (if took (la_ledger s) then Recorded else Superseded, ledger_do who call s))"

definition settle_claim :: "ledger_world \<Rightarrow> string \<Rightarrow> string \<Rightarrow> string \<Rightarrow> link_asks \<Rightarrow> settlement \<times> link_asks" where
  "settle_claim w kind rid outcome s =
     close_claim w (\<lambda>t. fst (settle_mutation kind (la_uid s) rid outcome (lw_now w) t)) LinkItself
       (SettleCall kind (la_uid s) rid outcome (lw_now w)) s"

definition release_claim :: "ledger_world \<Rightarrow> string \<Rightarrow> string \<Rightarrow> json \<Rightarrow> link_asks \<Rightarrow> settlement \<times> link_asks" where
  "release_claim w kind rid frame s =
     close_claim w (\<lambda>t. fst (release_mutation kind (la_uid s) rid t)) (LinkRefused frame) (ReleaseCall kind (la_uid s) rid) s"

definition abandon_claim :: "ledger_world \<Rightarrow> string \<Rightarrow> string \<Rightarrow> link_asks \<Rightarrow> settlement \<times> link_asks" where
  "abandon_claim w kind rid s =
     close_claim w (\<lambda>t. fst (settle_mutation_indeterminate kind (la_uid s) rid (lw_now w) t)) LinkItself
       (AbandonCall kind (la_uid s) rid (lw_now w)) s"

section \<open>Composes\<close>

definition tell_composes :: "string \<Rightarrow> nat list \<Rightarrow> compose_report \<Rightarrow> link_asks \<Rightarrow> link_asks" where
  "tell_composes rid replies report s =
     s\<lparr>la_told_composes := la_told_composes s @ map (\<lambda>r. (rid, r, report)) replies\<rparr>"

definition join_open_compose :: "compose_request \<Rightarrow> link_asks \<Rightarrow> link_asks option" where
  "join_open_compose ask s =
     (case find (\<lambda>(i, held). pc_client_request_id held = cq_client_request_id ask \<and> pc_claimed_hash held = cq_claimed_hash ask)
        (la_open_composes s) of
        Some (i, held) \<Rightarrow> Some (s\<lparr>la_open_composes :=
          hput i (held\<lparr>pc_replies := pc_replies held @ [cq_reply ask]\<rparr>) (la_open_composes s)\<rparr>)
      | None \<Rightarrow> None)"

definition recorded_compose_outcome :: "ledger_world \<Rightarrow> compose_request \<Rightarrow> link_asks \<Rightarrow> compose_report option" where
  "recorded_compose_outcome w ask s = (case link_status (lw_read w) OPERATION_COMPOSE (cq_client_request_id ask) s of
     None \<Rightarrow> None
   | Some state \<Rightarrow>
       if cm_claimed_hash (ms_claimed state) \<noteq> cq_claimed_hash ask then None
       else (case ms_status state of
          ASettled outcome \<Rightarrow> Some (replayed_compose_report outcome)
        | AIndeterminate \<Rightarrow> Some (ComposeUnknown COMPOSE_ALREADY_SENT_UNKNOWN)
        | AApplying \<Rightarrow> None))"

text \<open>The claim is held: mint the id, keep the entry, spend the proof, write.\<close>

definition write_compose :: "compose_request \<Rightarrow> string \<Rightarrow> string option \<Rightarrow> bool \<Rightarrow> link_asks \<Rightarrow> link_asks" where
  "write_compose ask route composed_against not_started s =
     (let wire_id = la_next_id s;
          frame = compose_frame wire_id route (cq_thread_id ask) composed_against (cq_text ask);
          s = s\<lparr>la_next_id := la_next_id s + 1,
            la_open_composes := hput wire_id
              \<lparr>pc_client_request_id = cq_client_request_id ask, pc_claimed_hash = cq_claimed_hash ask,
               pc_thread_id = cq_thread_id ask, pc_route = route, pc_composed_against = composed_against,
               pc_replies = [cq_reply ask]\<rparr> (la_open_composes s)\<rparr>;
          s = (if route = COMPOSE_ROUTE_START \<and> not_started
               then s\<lparr>la_not_ready_thread := None, la_start_in_flight := Some (cq_thread_id ask)\<rparr> else s)
      in s\<lparr>la_written := la_written s @ [(OPERATION_COMPOSE, cq_client_request_id ask, frame)]\<rparr>)"

definition compose_turn :: "ledger_world \<Rightarrow> compose_request \<Rightarrow> link_asks \<Rightarrow> link_asks" where
  "compose_turn w ask s = (case join_open_compose ask s of
     Some s' \<Rightarrow> s'
   | None \<Rightarrow>
       let rid = cq_client_request_id ask; tell = tell_composes rid [cq_reply ask]; s = others (lw_meanwhile w) s in
       (case recorded_compose_outcome w ask s of
          Some recorded \<Rightarrow> tell recorded s
        | None \<Rightarrow>
            let addressee = link_addressee s;
                not_started = (case addressee of BoundNotStartedLink t \<Rightarrow> True | _ \<Rightarrow> False) in
            (case compose_route (la_visit s) (la_running_turn s) (la_switch_candidate s \<noteq> None) addressee
                (cq_thread_id ask) (cq_generation ask) (cq_upstream_epoch ask) of
               Inl why \<Rightarrow> tell (ComposeNotApplied why) s
             | Inr route \<Rightarrow>
                 let composed_against = (if route = COMPOSE_ROUTE_STEER then map_option rt_turn_id (la_running_turn s) else None);
                     claimed = compose_claim route (cq_thread_id ask) (cq_generation ask) composed_against (cq_claimed_hash ask);
                     s = others (lw_between w) s in
                 if \<not> lw_write w then tell (ComposeNotApplied COMPOSE_CLAIM_UNRECORDED) s
                 else
                   let claim = fst (claim_mutation (lw_session w) OPERATION_COMPOSE (la_uid s) rid claimed (lw_now w) (la_ledger s));
                       s = ledger_do LinkItself (ClaimCall (lw_session w) OPERATION_COMPOSE (la_uid s) rid claimed (lw_now w)) s in
                   (case claim of
                      MClaimed \<Rightarrow> write_compose ask route composed_against not_started s
                    | MApplied outcome m \<Rightarrow> tell (replayed_compose_report outcome) s
                    | MIndeterminate at m \<Rightarrow> tell (ComposeUnknown COMPOSE_ALREADY_SENT_UNKNOWN) s
                    | MConflict \<Rightarrow> tell (ComposeNotApplied COMPOSE_ID_REUSED) s
                    | MNoSession \<Rightarrow> tell (ComposeNotApplied COMPOSE_RUN_IS_GONE) s))))"

definition report_settled_compose ::
  "ledger_world \<Rightarrow> pending_compose \<Rightarrow> settlement \<times> link_asks \<Rightarrow> compose_report \<Rightarrow> link_asks" where
  "report_settled_compose w held settled ordinary = (case settled of (settlement, s) \<Rightarrow>
     let s = (if settlement = Superseded then others (lw_afterwards w) s else s);
         report = (case settlement of
            Recorded \<Rightarrow> ordinary
          | Superseded \<Rightarrow> (case link_status (lw_reread w) OPERATION_COMPOSE (pc_client_request_id held) s of
                Some state \<Rightarrow> (case ms_status state of
                    ASettled outcome \<Rightarrow> replayed_compose_report outcome
                  | _ \<Rightarrow> ComposeUnknown COMPOSE_SETTLED_ELSEWHERE)
              | None \<Rightarrow> ComposeUnknown COMPOSE_SETTLED_ELSEWHERE_UNREADABLE)
          | Unrecorded \<Rightarrow> ComposeUnknown COMPOSE_OUTCOME_UNRECORDED)
     in tell_composes (pc_client_request_id held) (pc_replies held) report s)"

text \<open>The turn an answer names, at the pointer of its route.\<close>

definition answered_turn :: "pending_compose \<Rightarrow> json \<Rightarrow> string option" where
  "answered_turn held frame =
     (case (if pc_route held = COMPOSE_ROUTE_STEER
            then (case str_at [''result'', ''turnId''] frame of
                    Some t \<Rightarrow> if Some t = pc_composed_against held then Some t else None | None \<Rightarrow> None)
            else str_at [''result'', ''turn'', ''id''] frame) of
        Some t \<Rightarrow> if t \<noteq> [] then Some t else None
      | None \<Rightarrow> None)"

text \<open>Whether the frame was this connection's to consume, and the state behind it.\<close>

definition note_compose_response :: "ledger_world \<Rightarrow> json \<Rightarrow> link_asks \<Rightarrow> bool \<times> link_asks" where
  "note_compose_response w frame s = (case Option.bind (jget ''id'' frame) as_i64 of
     None \<Rightarrow> (False, s)
   | Some wire_id \<Rightarrow> (case hget (la_open_composes s) wire_id of
       None \<Rightarrow> (False, s)
     | Some held \<Rightarrow>
         let s = s\<lparr>la_open_composes := hdel wire_id (la_open_composes s)\<rparr>; rid = pc_client_request_id held in
         (True,
          if jget ''error'' frame \<noteq> None then
            (if wire_refusal_of frame = RefusedUnknown
             then report_settled_compose w held (abandon_claim w OPERATION_COMPOSE rid s)
                (ComposeUnknown COMPOSE_ALREADY_SENT_UNKNOWN)
             else
               let s = (if pc_route held = COMPOSE_ROUTE_START \<and> la_start_in_flight s = Some (pc_thread_id held)
                        then s\<lparr>la_start_in_flight := None, la_not_ready_thread := Some (pc_thread_id held)\<rparr> else s)
               in report_settled_compose w held (release_claim w OPERATION_COMPOSE rid frame s)
                 (ComposeNotApplied
                    (if wire_refusal_of frame = RefusedPaused then COMPOSE_PAUSED
                     else wire_refusal_reason frame COMPOSE_WIRE_SUBJECT COMPOSE_WIRE_REMEDY)))
          else (case answered_turn held frame of
              None \<Rightarrow> report_settled_compose w held (abandon_claim w OPERATION_COMPOSE rid s)
                (ComposeUnknown COMPOSE_ANSWER_UNREADABLE)
            | Some turn \<Rightarrow>
                let s = (if pc_route held = COMPOSE_ROUTE_START \<and> la_start_in_flight s = Some (pc_thread_id held)
                         then s\<lparr>la_resume_due_now := True\<rparr> else s)
                in report_settled_compose w held (settle_claim w OPERATION_COMPOSE rid (compose_outcome (pc_route held) turn) s)
                  (if pc_route held = COMPOSE_ROUTE_STEER then Steered turn else Started turn)))))"

section \<open>Interrupts\<close>

definition tell_interrupts :: "string \<Rightarrow> nat list \<Rightarrow> interrupt_report \<Rightarrow> link_asks \<Rightarrow> link_asks" where
  "tell_interrupts rid replies report s =
     s\<lparr>la_told_interrupts := la_told_interrupts s @ map (\<lambda>r. (rid, r, report)) replies\<rparr>"

definition join_open_interrupt :: "interrupt_request \<Rightarrow> link_asks \<Rightarrow> link_asks option" where
  "join_open_interrupt ask s =
     (case find (\<lambda>(i, held). pi_client_request_id held = iq_client_request_id ask \<and>
          pi_thread_id held = cm_thread_id (iq_claimed ask) \<and> Some (pi_turn_id held) = cm_target_turn_id (iq_claimed ask))
        (la_open_interrupts s) of
        Some (i, held) \<Rightarrow> Some (s\<lparr>la_open_interrupts :=
          hput i (held\<lparr>pi_replies := pi_replies held @ [iq_reply ask]\<rparr>) (la_open_interrupts s)\<rparr>)
      | None \<Rightarrow> None)"

definition recorded_interrupt_outcome :: "ledger_world \<Rightarrow> interrupt_request \<Rightarrow> link_asks \<Rightarrow> interrupt_report option" where
  "recorded_interrupt_outcome w ask s = (case link_status (lw_read w) OPERATION_INTERRUPT (iq_client_request_id ask) s of
     None \<Rightarrow> None
   | Some state \<Rightarrow>
       if ms_claimed state \<noteq> iq_claimed ask then None
       else (case ms_status state of
          ASettled outcome \<Rightarrow> Some (replayed_interrupt_report outcome (or_default (cm_target_turn_id (iq_claimed ask))))
        | AIndeterminate \<Rightarrow> Some (StopUnknown INTERRUPT_ALREADY_SENT_UNKNOWN)
        | AApplying \<Rightarrow> None))"

definition write_interrupt :: "interrupt_request \<Rightarrow> string \<Rightarrow> link_asks \<Rightarrow> link_asks" where
  "write_interrupt ask turn_id s =
     (let wire_id = la_next_id s; thread_id = cm_thread_id (iq_claimed ask) in
      s\<lparr>la_next_id := la_next_id s + 1,
        la_open_interrupts := hput wire_id
          \<lparr>pi_client_request_id = iq_client_request_id ask, pi_thread_id = thread_id, pi_turn_id = turn_id,
           pi_replies = [iq_reply ask]\<rparr> (la_open_interrupts s),
        la_written := la_written s @ [(OPERATION_INTERRUPT, iq_client_request_id ask, interrupt_frame wire_id thread_id turn_id)]\<rparr>)"

text \<open>\<open>interrupt_refusal\<close> refuses an ask that names no turn, so the turn is there when it is needed.\<close>

definition interrupt_turn :: "ledger_world \<Rightarrow> interrupt_request \<Rightarrow> link_asks \<Rightarrow> link_asks" where
  "interrupt_turn w ask s = (case join_open_interrupt ask s of
     Some s' \<Rightarrow> s'
   | None \<Rightarrow>
       let rid = iq_client_request_id ask; tell = tell_interrupts rid [iq_reply ask]; s = others (lw_meanwhile w) s in
       (case recorded_interrupt_outcome w ask s of
          Some recorded \<Rightarrow> tell recorded s
        | None \<Rightarrow>
            let already_waiting = (case cm_target_turn_id (iq_claimed ask) of
                  Some turn \<Rightarrow> list_ex (\<lambda>(i, held). pi_turn_id held = turn) (la_open_interrupts s) | None \<Rightarrow> False) in
            (case interrupt_refusal (la_visit s) (la_running_turn s) (la_switch_candidate s \<noteq> None) (iq_claimed ask)
                (iq_upstream_epoch ask) already_waiting of
               Some why \<Rightarrow> tell (StopNotApplied why) s
             | None \<Rightarrow>
                 let turn_id = or_default (cm_target_turn_id (iq_claimed ask)); s = others (lw_between w) s in
                 if \<not> lw_write w then tell (StopNotApplied INTERRUPT_CLAIM_UNRECORDED) s
                 else
                   let claim = fst (claim_mutation (lw_session w) OPERATION_INTERRUPT (la_uid s) rid (iq_claimed ask) (lw_now w) (la_ledger s));
                       s = ledger_do LinkItself (ClaimCall (lw_session w) OPERATION_INTERRUPT (la_uid s) rid (iq_claimed ask) (lw_now w)) s in
                   (case claim of
                      MClaimed \<Rightarrow> write_interrupt ask turn_id s
                    | MApplied outcome m \<Rightarrow> tell (replayed_interrupt_report outcome turn_id) s
                    | MIndeterminate at m \<Rightarrow> tell (StopUnknown INTERRUPT_ALREADY_SENT_UNKNOWN) s
                    | MConflict \<Rightarrow> tell (StopNotApplied INTERRUPT_ID_REUSED_ON_LINK) s
                    | MNoSession \<Rightarrow> tell (StopNotApplied INTERRUPT_RUN_IS_GONE) s))))"

definition report_settled_interrupt ::
  "ledger_world \<Rightarrow> pending_interrupt \<Rightarrow> settlement \<times> link_asks \<Rightarrow> interrupt_report \<Rightarrow> link_asks" where
  "report_settled_interrupt w held settled ordinary = (case settled of (settlement, s) \<Rightarrow>
     let s = (if settlement = Superseded then others (lw_afterwards w) s else s);
         report = (case settlement of
            Recorded \<Rightarrow> ordinary
          | Superseded \<Rightarrow> (case link_status (lw_reread w) OPERATION_INTERRUPT (pi_client_request_id held) s of
                Some state \<Rightarrow> (case ms_status state of
                    ASettled outcome \<Rightarrow> replayed_interrupt_report outcome (pi_turn_id held)
                  | _ \<Rightarrow> StopUnknown INTERRUPT_SETTLED_ELSEWHERE)
              | None \<Rightarrow> StopUnknown INTERRUPT_SETTLED_ELSEWHERE_UNREADABLE)
          | Unrecorded \<Rightarrow> StopUnknown INTERRUPT_OUTCOME_UNRECORDED)
     in tell_interrupts (pi_client_request_id held) (pi_replies held) report s)"

definition note_interrupt_response :: "ledger_world \<Rightarrow> json \<Rightarrow> link_asks \<Rightarrow> bool \<times> link_asks" where
  "note_interrupt_response w frame s = (case Option.bind (jget ''id'' frame) as_i64 of
     None \<Rightarrow> (False, s)
   | Some wire_id \<Rightarrow> (case hget (la_open_interrupts s) wire_id of
       None \<Rightarrow> (False, s)
     | Some held \<Rightarrow>
         if jget ''error'' frame = None then (True, s)
         else
           let s = s\<lparr>la_open_interrupts := hdel wire_id (la_open_interrupts s)\<rparr>; rid = pi_client_request_id held in
           (True, case wire_refusal_of frame of
              RefusedUnknown \<Rightarrow> report_settled_interrupt w held (abandon_claim w OPERATION_INTERRUPT rid s)
                (StopUnknown INTERRUPT_ALREADY_SENT_UNKNOWN)
            | RefusedPaused \<Rightarrow> report_settled_interrupt w held (release_claim w OPERATION_INTERRUPT rid frame s)
                (StopNotApplied INTERRUPT_PAUSED)
            | RefusedNotTaken \<Rightarrow> report_settled_interrupt w held (release_claim w OPERATION_INTERRUPT rid frame s)
                (StopNotApplied (wire_refusal_reason frame INTERRUPT_WIRE_SUBJECT INTERRUPT_WIRE_REMEDY)))))"

definition interrupts_for_turn :: "string \<Rightarrow> string \<Rightarrow> link_asks \<Rightarrow> (int, pending_interrupt) hash" where
  "interrupts_for_turn thread_id turn_id s =
     filter (\<lambda>(i, held). pi_thread_id held = thread_id \<and> pi_turn_id held = turn_id) (la_open_interrupts s)"

text \<open>Taken out of the map first, then settled one after the other; each has a world of its own.\<close>

definition settle_taken ::
  "(int \<Rightarrow> ledger_world) \<Rightarrow> (ledger_world \<Rightarrow> pending_interrupt \<Rightarrow> link_asks \<Rightarrow> link_asks) \<Rightarrow> string \<Rightarrow> string \<Rightarrow> link_asks \<Rightarrow> link_asks" where
  "settle_taken ws settle thread_id turn_id s =
     fold (\<lambda>(i, held). settle (ws i) held) (interrupts_for_turn thread_id turn_id s)
       (s\<lparr>la_open_interrupts := filter (\<lambda>(i, held). \<not> (pi_thread_id held = thread_id \<and> pi_turn_id held = turn_id)) (la_open_interrupts s)\<rparr>)"

definition settle_interrupts_for_turn :: "(int \<Rightarrow> ledger_world) \<Rightarrow> string \<Rightarrow> string \<Rightarrow> string \<Rightarrow> link_asks \<Rightarrow> link_asks" where
  "settle_interrupts_for_turn ws thread_id turn_id status = settle_taken ws (\<lambda>w held s.
     if status = TURN_INTERRUPTED
     then report_settled_interrupt w held (settle_claim w OPERATION_INTERRUPT (pi_client_request_id held) INTERRUPT_ABORTED s)
       (Aborted (pi_turn_id held))
     else report_settled_interrupt w held (settle_claim w OPERATION_INTERRUPT (pi_client_request_id held) INTERRUPT_TURN_ENDED s)
       (StopNotApplied (interrupt_turn_ended_itself status))) thread_id turn_id"

definition abandon_interrupts_for_turn :: "(int \<Rightarrow> ledger_world) \<Rightarrow> string \<Rightarrow> string \<Rightarrow> string \<Rightarrow> link_asks \<Rightarrow> link_asks" where
  "abandon_interrupts_for_turn ws thread_id turn_id why = settle_taken ws (\<lambda>w held s.
     report_settled_interrupt w held (abandon_claim w OPERATION_INTERRUPT (pi_client_request_id held) s) (StopUnknown why))
     thread_id turn_id"

text \<open>\<open>filed\<close>: whether the log holds the turn's boundary, or that this cannot be read.\<close>

definition settle_interrupts_against_the_boundary ::
  "(int \<Rightarrow> ledger_world) \<Rightarrow> bool option \<Rightarrow> string \<Rightarrow> string \<Rightarrow> string \<Rightarrow> link_asks \<Rightarrow> link_asks" where
  "settle_interrupts_against_the_boundary ws filed thread_id turn_id status s =
     (if interrupts_for_turn thread_id turn_id s = [] then s
      else (case filed of
         Some True \<Rightarrow> settle_interrupts_for_turn ws thread_id turn_id status s
       | Some False \<Rightarrow> abandon_interrupts_for_turn ws thread_id turn_id INTERRUPT_BOUNDARY_UNRECORDED s
       | None \<Rightarrow> abandon_interrupts_for_turn ws thread_id turn_id INTERRUPT_BOUNDARY_UNREADABLE s))"

text \<open>The terminal of a turn, without the cards it retires.\<close>

definition note_turn_terminal :: "(int \<Rightarrow> ledger_world) \<Rightarrow> bool option \<Rightarrow> json \<Rightarrow> link_asks \<Rightarrow> link_asks" where
  "note_turn_terminal ws filed params s =
     (case (str_at [''threadId''] params, str_at [''turn'', ''id''] params, str_at [''turn'', ''status''] params) of
        (Some thread_id, Some turn_id, Some status) \<Rightarrow>
          settle_interrupts_against_the_boundary ws filed thread_id turn_id status
            (s\<lparr>la_running_turn := (case la_running_turn s of
               Some r \<Rightarrow> if rt_thread_id r = thread_id \<and> rt_turn_id r = turn_id then None else Some r
             | None \<Rightarrow> None)\<rparr>)
      | _ \<Rightarrow> s)"

section \<open>The end of a connection\<close>

definition settle_open_interrupts :: "(int \<Rightarrow> ledger_world) \<Rightarrow> string \<Rightarrow> link_asks \<Rightarrow> link_asks" where
  "settle_open_interrupts ws cause s =
     fold (\<lambda>(i, held) s. case abandon_claim (ws i) OPERATION_INTERRUPT (pi_client_request_id held) s of
        (settlement, s) \<Rightarrow> tell_interrupts (pi_client_request_id held) (pi_replies held)
          (StopUnknown (if settlement = Unrecorded then interrupt_settled_unrecorded cause else interrupt_settled_unknown cause)) s)
       (la_open_interrupts s) (s\<lparr>la_open_interrupts := []\<rparr>)"

definition settle_open_composes :: "(int \<Rightarrow> ledger_world) \<Rightarrow> string \<Rightarrow> link_asks \<Rightarrow> link_asks" where
  "settle_open_composes ws cause s =
     fold (\<lambda>(i, held) s. case abandon_claim (ws i) OPERATION_COMPOSE (pc_client_request_id held) s of
        (settlement, s) \<Rightarrow> tell_composes (pc_client_request_id held) (pc_replies held)
          (ComposeUnknown (if settlement = Unrecorded then compose_settled_unrecorded cause else compose_settled_unknown cause)) s)
       (la_open_composes s) (s\<lparr>la_open_composes := []\<rparr>)"

section \<open>Everything that can happen to a link\<close>

text \<open>
  \<open>Reconnected\<close> is the end of a connection, which settles everything open, and the next one, which starts
  empty. \<open>LinkMoved\<close> is whatever the rest of the connection does to what the asks read: its visit, the turn it
  watches, its switch, its subscription, the proof that a thread is not started or its expiry, and the ids it
  gives to requests of its own. An ask that finds no connection is told so.
\<close>

record link_move =
  lm_visit :: visit
  lm_running_turn :: "running_turn option"
  lm_switch_candidate :: "string option"
  lm_adopted_thread :: "string option"
  lm_carried_target :: "string option"
  lm_not_ready_thread :: "string option"
  lm_start_in_flight :: "string option"
  lm_resume_due_now :: bool
  lm_ids :: nat

datatype asks_event =
    ComposeAsked ledger_world compose_request
  | ComposeAnswered ledger_world json
  | InterruptAsked ledger_world interrupt_request
  | InterruptAnswered ledger_world json
  | TurnEnded "int \<Rightarrow> ledger_world" "bool option" json
  | Reconnected "int \<Rightarrow> ledger_world" visit "string option" "string option"
  | ComposeUnserved compose_request
  | InterruptUnserved interrupt_request
  | LinkMoved link_move
  | OthersUse "ledger_call list"

definition reconnect :: "visit \<Rightarrow> string option \<Rightarrow> string option \<Rightarrow> link_asks \<Rightarrow> link_asks" where
  "reconnect v carried_adopted carried_candidate s =
     s\<lparr>la_next_id := 1, la_visit := v\<lparr>vi_thread_id := None\<rparr>, la_running_turn := None, la_switch_candidate := carried_candidate,
       la_adopted_thread := None, la_carried_target := carried_adopted, la_not_ready_thread := None,
       la_start_in_flight := None, la_resume_due_now := False\<rparr>"

primrec asks_step :: "asks_event \<Rightarrow> link_asks \<Rightarrow> link_asks" where
  "asks_step (ComposeAsked w ask) s = compose_turn w ask s"
| "asks_step (ComposeAnswered w frame) s = snd (note_compose_response w frame s)"
| "asks_step (InterruptAsked w ask) s = interrupt_turn w ask s"
| "asks_step (InterruptAnswered w frame) s = snd (note_interrupt_response w frame s)"
| "asks_step (TurnEnded ws filed params) s = note_turn_terminal ws filed params s"
| "asks_step (Reconnected ws v carried candidate) s = reconnect v carried candidate
     (settle_open_composes ws COMPOSE_CONNECTION_ENDED (settle_open_interrupts ws INTERRUPT_CONNECTION_ENDED s))"
| "asks_step (ComposeUnserved ask) s =
     tell_composes (cq_client_request_id ask) [cq_reply ask] (ComposeNotApplied COMPOSE_NO_CONNECTION) s"
| "asks_step (InterruptUnserved ask) s =
     tell_interrupts (iq_client_request_id ask) [iq_reply ask] (StopNotApplied INTERRUPT_NO_CONNECTION) s"
| "asks_step (LinkMoved m) s =
     s\<lparr>la_visit := lm_visit m, la_running_turn := lm_running_turn m, la_switch_candidate := lm_switch_candidate m,
       la_adopted_thread := lm_adopted_thread m, la_carried_target := lm_carried_target m,
       la_not_ready_thread := lm_not_ready_thread m, la_start_in_flight := lm_start_in_flight m,
       la_resume_due_now := lm_resume_due_now m, la_next_id := la_next_id s + int (lm_ids m)\<rparr>"
| "asks_step (OthersUse calls) s = others calls s"

definition new_link :: "string \<Rightarrow> visit \<Rightarrow> link_asks" where
  "new_link uid v =
     \<lparr>la_uid = uid, la_ledger = [], la_calls = [], la_next_id = 1, la_visit = v, la_running_turn = None,
      la_switch_candidate = None, la_adopted_thread = None, la_carried_target = None, la_not_ready_thread = None,
      la_start_in_flight = None, la_resume_due_now = False, la_open_composes = [], la_open_interrupts = [],
      la_written = [], la_told_composes = [], la_told_interrupts = []\<rparr>"

definition asks_run :: "string \<Rightarrow> visit \<Rightarrow> asks_event list \<Rightarrow> link_asks" where
  "asks_run uid v events = fold asks_step events (new_link uid v)"

end
