(* ===== verification/Ccd_Asks_Props.thy ===== *)
theory Ccd_Asks_Props
  imports Ccd_Ledger_Props Ccd_Asks "HOL-Library.Multiset"
begin

text \<open>
  What holds of a phone's messages and stops on the link, whatever the other tasks do to the ledger and
  whichever statements fail: the bytes are written once, a claim is given back only on proof, every caller
  is told once, and what a caller is told is what the ledger holds.
\<close>

section \<open>The ledger a link sees\<close>

definition calls_of :: "link_asks \<Rightarrow> ledger_call list" where
  "calls_of s = map snd (la_calls s)"

definition written_under :: "link_asks \<Rightarrow> string \<Rightarrow> string \<Rightarrow> nat" where
  "written_under s kind rid = length (filter (\<lambda>(k, r, frame). k = kind \<and> r = rid) (la_written s))"

text \<open>A release is a refusal's, and the refusal proves that Codex has not taken the request.\<close>

definition justified :: "ledger_author \<times> ledger_call \<Rightarrow> bool" where
  "justified entry = (case entry of
     (LinkRefused frame, ReleaseCall kind uid rid) \<Rightarrow> wire_refusal_of frame \<noteq> RefusedUnknown
   | (LinkRefused frame, call) \<Rightarrow> False
   | (LinkItself, ReleaseCall kind uid rid) \<Rightarrow> False
   | _ \<Rightarrow> True)"

definition ledger_kept :: "string \<Rightarrow> link_asks \<Rightarrow> bool" where
  "ledger_kept u s \<longleftrightarrow> la_uid s = u \<and> la_ledger s = fold ledger_step (calls_of s) [] \<and> list_all justified (la_calls s) \<and>
     (\<forall>kind rid. written_under s kind rid \<le> count_in ledger_step ledger_grants (calls_of s) [] (kind, u, rid))"

lemma calls_of_do [simp]: "calls_of (ledger_do who call s) = calls_of s @ [call]"
  by (simp add: calls_of_def ledger_do_def)

lemma ledger_do_fields [simp]:
  "la_uid (ledger_do who call s) = la_uid s" "la_written (ledger_do who call s) = la_written s"
  "la_ledger (ledger_do who call s) = ledger_step call (la_ledger s)"
  "la_calls (ledger_do who call s) = la_calls s @ [(who, call)]"
  by (simp_all add: ledger_do_def)

lemma written_under_do [simp]: "written_under (ledger_do who call s) = written_under s"
  by (simp add: written_under_def fun_eq_iff)

lemma kept_do: "ledger_kept u s \<Longrightarrow> justified (who, call) \<Longrightarrow> ledger_kept u (ledger_do who call s)"
  by (auto simp: ledger_kept_def count_in_append intro: le_SucI)

lemma others_induct: "P s \<Longrightarrow> (\<And>call s. P s \<Longrightarrow> P (ledger_do OtherTask call s)) \<Longrightarrow> P (others calls s)"
  unfolding others_def by (induction calls arbitrary: s) simp_all

lemma kept_others: "ledger_kept u s \<Longrightarrow> ledger_kept u (others calls s)"
  by (rule others_induct) (auto intro: kept_do simp: justified_def)

text \<open>What leaves the ledger, its history and the frames alone.\<close>

lemma kept_cong:
  "la_ledger s' = la_ledger s \<Longrightarrow> la_calls s' = la_calls s \<Longrightarrow> la_written s' = la_written s \<Longrightarrow> la_uid s' = la_uid s \<Longrightarrow>
     ledger_kept u s' \<longleftrightarrow> ledger_kept u s"
  by (simp add: ledger_kept_def calls_of_def written_under_def)

lemma kept_simps [simp]:
  "ledger_kept u (s\<lparr>la_open_composes := oc\<rparr>) = ledger_kept u s" "ledger_kept u (s\<lparr>la_open_interrupts := oi\<rparr>) = ledger_kept u s"
  "ledger_kept u (s\<lparr>la_running_turn := rt\<rparr>) = ledger_kept u s" "ledger_kept u (s\<lparr>la_resume_due_now := d\<rparr>) = ledger_kept u s"
  "ledger_kept u (s\<lparr>la_start_in_flight := f, la_not_ready_thread := n\<rparr>) = ledger_kept u s"
  "ledger_kept u (tell_composes rid rs r s) = ledger_kept u s" "ledger_kept u (tell_interrupts rid rs r' s) = ledger_kept u s"
  "ledger_kept u (reconnect v a c s) = ledger_kept u s"
  by (rule kept_cong; simp add: tell_composes_def tell_interrupts_def reconnect_def)+

lemma kept_close:
  "ledger_kept u s \<Longrightarrow> justified (who, call) \<Longrightarrow> ledger_kept u (snd (close_claim w took who call s))"
  by (simp add: close_claim_def Let_def kept_others kept_do)

lemma kept_settle: "ledger_kept u s \<Longrightarrow> ledger_kept u (snd (settle_claim w kind rid outcome s))"
  and kept_abandon: "ledger_kept u s \<Longrightarrow> ledger_kept u (snd (abandon_claim w kind rid s))"
  and kept_release: "ledger_kept u s \<Longrightarrow> wire_refusal_of frame \<noteq> RefusedUnknown \<Longrightarrow> ledger_kept u (snd (release_claim w kind rid frame s))"
  by (simp_all add: settle_claim_def abandon_claim_def release_claim_def kept_close justified_def)

lemma kept_report:
  "ledger_kept u (snd settled) \<Longrightarrow> ledger_kept u (report_settled_compose w held settled ordinary)"
  "ledger_kept u (snd settled) \<Longrightarrow> ledger_kept u (report_settled_interrupt w held' settled ordinary')"
  by (cases settled, simp add: report_settled_compose_def report_settled_interrupt_def Let_def kept_others)+

text \<open>A frame goes out right behind the claim that was granted for it.\<close>

lemma kept_granted:
  assumes "ledger_kept u s" "fst (claim_mutation exists kind (la_uid s) rid m now (la_ledger s)) = MClaimed"
    and "s' = ledger_do LinkItself (ClaimCall exists kind (la_uid s) rid m now) s"
    and "la_written s'' = la_written s' @ [(kind, rid, frame)]" "la_calls s'' = la_calls s'" "la_ledger s'' = la_ledger s'"
      "la_uid s'' = la_uid s'"
  shows "ledger_kept u s''"
proof -
  have "ledger_kept u s'" unfolding assms(3) by (rule kept_do [OF assms(1)]) (simp add: justified_def)
  then have k: "la_ledger s' = fold ledger_step (calls_of s') []" "list_all justified (la_calls s')"
    by (simp_all add: ledger_kept_def)
  have grants: "count_in ledger_step ledger_grants (calls_of s'') [] (kind', la_uid s'', rid') =
      count_in ledger_step ledger_grants (calls_of s) [] (kind', la_uid s, rid') + (if kind' = kind \<and> rid' = rid then 1 else 0)" for kind' rid'
    using assms(1,2) by (auto simp: assms(3,5,7) calls_of_def count_in_append ledger_grants_def ledger_kept_def)
  have "written_under s'' kind' rid' = written_under s kind' rid' + (if kind' = kind \<and> rid' = rid then 1 else 0)" for kind' rid'
    by (simp add: written_under_def assms(3,4))
  with assms(1) have "written_under s'' kind' rid' \<le> count_in ledger_step ledger_grants (calls_of s'') [] (kind', la_uid s'', rid')" for kind' rid'
    unfolding grants by (auto simp: ledger_kept_def)
  moreover have "la_uid s'' = u" using assms(1) by (simp add: ledger_kept_def assms(3,7))
  ultimately show ?thesis using k by (simp add: ledger_kept_def calls_of_def assms(5,6))
qed


lemma justified_claim: "justified (LinkItself, ClaimCall exists kind uid rid m now)"
  by (simp add: justified_def)

lemma kept_write_compose:
  assumes "ledger_kept u s" "fst (claim_mutation exists OPERATION_COMPOSE (la_uid s) (cq_client_request_id ask) m now (la_ledger s)) = MClaimed"
  shows "ledger_kept u (write_compose ask route against not_started
     (ledger_do LinkItself (ClaimCall exists OPERATION_COMPOSE (la_uid s) (cq_client_request_id ask) m now) s))"
  by (rule kept_granted [OF assms refl, where frame = "compose_frame (la_next_id s) route (cq_thread_id ask) against (cq_text ask)"])
    (simp_all add: write_compose_def Let_def ledger_do_def)

lemma kept_write_interrupt:
  assumes "ledger_kept u s" "fst (claim_mutation exists OPERATION_INTERRUPT (la_uid s) (iq_client_request_id ask) m now (la_ledger s)) = MClaimed"
  shows "ledger_kept u (write_interrupt ask turn_id
     (ledger_do LinkItself (ClaimCall exists OPERATION_INTERRUPT (la_uid s) (iq_client_request_id ask) m now) s))"
  by (rule kept_granted [OF assms refl]) (simp_all add: write_interrupt_def Let_def)

lemma kept_compose_turn: "ledger_kept u s \<Longrightarrow> ledger_kept u (compose_turn w ask s)"
  by (auto simp: compose_turn_def join_open_compose_def Let_def kept_others kept_do justified_claim kept_write_compose
      split: option.split sum.split mutation_claim.split)

lemma kept_interrupt_turn: "ledger_kept u s \<Longrightarrow> ledger_kept u (interrupt_turn w ask s)"
  by (auto simp: interrupt_turn_def join_open_interrupt_def Let_def kept_others kept_do justified_claim kept_write_interrupt
      split: option.split sum.split mutation_claim.split)

lemmas kept_settling = kept_report kept_settle kept_abandon kept_release

lemma kept_compose_response: "ledger_kept u s \<Longrightarrow> ledger_kept u (snd (note_compose_response w frame s))"
  by (simp add: note_compose_response_def Let_def kept_settling split: option.split)

lemma kept_interrupt_response: "ledger_kept u s \<Longrightarrow> ledger_kept u (snd (note_interrupt_response w frame s))"
  by (simp add: note_interrupt_response_def Let_def kept_settling split: option.split wire_refusal.split)

lemma fold_keeps: "P s \<Longrightarrow> (\<And>x s. P s \<Longrightarrow> P (f x s)) \<Longrightarrow> P (fold f xs s)"
  by (induction xs arbitrary: s) simp_all

lemma kept_terminal: "ledger_kept u s \<Longrightarrow> ledger_kept u (note_turn_terminal ws filed params s)"
  by (auto simp: note_turn_terminal_def settle_interrupts_against_the_boundary_def settle_interrupts_for_turn_def
      abandon_interrupts_for_turn_def settle_taken_def kept_settling intro!: fold_keeps [of "ledger_kept u"]
      split: option.split bool.split)

lemma kept_ended:
  "ledger_kept u s \<Longrightarrow> ledger_kept u (settle_open_interrupts ws cause s)"
  "ledger_kept u s \<Longrightarrow> ledger_kept u (settle_open_composes ws cause s)"
  by (auto simp: settle_open_interrupts_def settle_open_composes_def kept_abandon case_prod_beta intro!: fold_keeps [of "ledger_kept u"])

lemma kept_step: "ledger_kept u s \<Longrightarrow> ledger_kept u (asks_step e s)"
proof (cases e)
  case (LinkMoved m)
  assume "ledger_kept u s"
  with LinkMoved show ?thesis by (subst kept_cong [of _ s]) simp_all
qed (simp_all add: kept_compose_turn kept_interrupt_turn kept_compose_response kept_interrupt_response kept_terminal kept_ended kept_others)

lemma kept_run: "ledger_kept uid (asks_run uid v events)"
  unfolding asks_run_def
  by (rule fold_keeps) (simp_all add: kept_step, simp add: new_link_def ledger_kept_def calls_of_def written_under_def)

text \<open>C20. A message is said once and a turn is stopped once. Whatever callers ask, the wire answers, the
  other tasks do to the ledger and SQLite fails, the frames the link wrote under one id are at most one
  more than the claims of it that were given back; and the link gives a claim back only on an answer that
  proves Codex has not taken the request.\<close>
theorem asked_bytes_are_written_once:
  "written_under (asks_run uid v events) kind rid \<le>
     Suc (count_in ledger_step ledger_gives_back (calls_of (asks_run uid v events)) [] (kind, uid, rid)) \<and>
   list_all justified (la_calls (asks_run uid v events))"
proof -
  have "one_row_each []" by (simp add: one_row_each_def)
  from ml.one_grant_per_return [OF this, of "calls_of (asks_run uid v events)" "(kind, uid, rid)"]
    kept_run [of uid v events] show ?thesis unfolding ledger_kept_def by (meson order_trans)
qed

section \<open>Nobody is left waiting\<close>

text \<open>The callers behind the entries of a map.\<close>

definition behind :: "('v \<Rightarrow> nat list) \<Rightarrow> (int, 'v) hash \<Rightarrow> nat multiset" where
  "behind f h = (\<Sum>(i, v) \<leftarrow> h. mset (f v))"

lemma behind_simps [simp]: "behind f [] = {#}" "behind f ((i, v) # h) = mset (f v) + behind f h"
  by (simp_all add: behind_def)

lemma behind_new: "hget h k = None \<Longrightarrow> behind f (hput k v h) = behind f h + mset (f v)"
  by (induction h) (auto split: if_splits)

lemma behind_del: "hwf h \<Longrightarrow> hget h k = Some v \<Longrightarrow> behind f h = behind f (hdel k h) + mset (f v)"
proof (induction h)
  case (Cons kv h)
  obtain i u where kv: "kv = (i, u)" by (cases kv)
  have "hget h i = None" using Cons.prems(1) by (simp add: kv hwf_def map_of_eq_None_iff)
  with Cons show ?case by (auto simp: kv hwf_def map_of_eq_None_iff delete_idem split: if_splits)
qed simp

lemma behind_put: "hwf h \<Longrightarrow> hget h k = Some v \<Longrightarrow> mset (f v') = mset (f v) + M \<Longrightarrow> behind f (hput k v' h) = behind f h + M"
  by (induction h) (auto simp: hwf_def split: if_splits)

lemma keys_hput: "fst ` set (hput k v h) = insert k (fst ` set h)"
  by (induction h) auto

lemma keys_hdel: "fst ` set (hdel k h) = fst ` set h - {k}"
  by (metis delete_keys set_map set_removeAll)

lemma behind_split: "behind f h = behind f (filter P h) + behind f (filter (\<lambda>e. \<not> P e) h)"
  by (induction h) auto

definition callers :: "link_asks \<Rightarrow> (nat + nat) multiset" where
  "callers s = image_mset Inl (mset (map (fst \<circ> snd) (la_told_composes s)) + behind pc_replies (la_open_composes s)) +
     image_mset Inr (mset (map (fst \<circ> snd) (la_told_interrupts s)) + behind pi_replies (la_open_interrupts s))"

lemma callers_cong:
  "la_told_composes s' = la_told_composes s \<Longrightarrow> la_open_composes s' = la_open_composes s \<Longrightarrow>
   la_told_interrupts s' = la_told_interrupts s \<Longrightarrow> la_open_interrupts s' = la_open_interrupts s \<Longrightarrow> callers s' = callers s"
  by (simp add: callers_def)

lemma callers_tell [simp]:
  "callers (tell_composes rid rs r s) = callers s + image_mset Inl (mset rs)"
  "callers (tell_interrupts rid rs r' s) = callers s + image_mset Inr (mset rs)"
  by (simp_all add: callers_def tell_composes_def tell_interrupts_def comp_def)

text \<open>The wire ids in use are below the next one.\<close>

definition ids_used :: "link_asks \<Rightarrow> bool" where
  "ids_used s \<longleftrightarrow> hwf (la_open_composes s) \<and> hwf (la_open_interrupts s) \<and>
     fst ` set (la_open_composes s) \<subseteq> {..<la_next_id s} \<and> fst ` set (la_open_interrupts s) \<subseteq> {..<la_next_id s}"

text \<open>What the ledger calls do not touch.\<close>

definition same_asks :: "link_asks \<Rightarrow> link_asks \<Rightarrow> bool" where
  "same_asks s' s \<longleftrightarrow> s'\<lparr>la_ledger := [], la_calls := []\<rparr> = s\<lparr>la_ledger := [], la_calls := []\<rparr>"

lemma same_refl: "same_asks s s"
  by (simp add: same_asks_def)

lemma same_do: "same_asks s' s \<Longrightarrow> same_asks (ledger_do who call s') s"
  by (simp add: same_asks_def ledger_do_def)

lemma same_fields:
  assumes "same_asks s' s"
  shows "la_uid s' = la_uid s" "la_next_id s' = la_next_id s" "la_visit s' = la_visit s" "la_running_turn s' = la_running_turn s"
    "la_switch_candidate s' = la_switch_candidate s" "link_addressee s' = link_addressee s"
    "la_open_composes s' = la_open_composes s" "la_open_interrupts s' = la_open_interrupts s" "la_written s' = la_written s"
    "la_told_composes s' = la_told_composes s" "la_told_interrupts s' = la_told_interrupts s"
    "la_start_in_flight s' = la_start_in_flight s" "la_not_ready_thread s' = la_not_ready_thread s"
  using assms unfolding same_asks_def link_addressee_def by (cases s, cases s', simp)+

lemma same_others: "same_asks s' s \<Longrightarrow> same_asks (others calls s') s"
  by (rule others_induct) (auto intro: same_do)

lemma same_close: "same_asks (snd (close_claim w took who call s)) s"
  by (simp add: close_claim_def Let_def same_do same_others same_refl)

lemma same_closing:
  "same_asks (snd (settle_claim w kind rid outcome s)) s" "same_asks (snd (abandon_claim w kind rid s)) s"
  "same_asks (snd (release_claim w kind rid frame s)) s"
  by (simp_all add: settle_claim_def abandon_claim_def release_claim_def same_close)

lemma same_callers: "same_asks s' s \<Longrightarrow> callers s' = callers s \<and> ids_used s' = ids_used s"
  by (simp add: same_fields callers_def ids_used_def)

lemma report_callers:
  assumes "same_asks (snd settled) s"
  shows "callers (report_settled_compose w held settled ordinary) = callers s + image_mset Inl (mset (pc_replies held))"
    and "callers (report_settled_interrupt w held' settled ordinary') = callers s + image_mset Inr (mset (pi_replies held'))"
    and "ids_used (report_settled_compose w held settled ordinary) = ids_used s"
    and "ids_used (report_settled_interrupt w held' settled ordinary') = ids_used s"
proof -
  obtain settlement s' where p: "settled = (settlement, s')" by (cases settled)
  have tell: "ids_used (tell_composes rid rs r s) = ids_used s" "ids_used (tell_interrupts rid rs r' s) = ids_used s" for rid rs r r' s
    by (simp_all add: ids_used_def tell_composes_def tell_interrupts_def)
  have same: "same_asks (if settlement = Superseded then others (lw_afterwards w) s' else s') s"
    using assms by (simp add: p same_others)
  show "callers (report_settled_compose w held settled ordinary) = callers s + image_mset Inl (mset (pc_replies held))"
    "callers (report_settled_interrupt w held' settled ordinary') = callers s + image_mset Inr (mset (pi_replies held'))"
    "ids_used (report_settled_compose w held settled ordinary) = ids_used s"
    "ids_used (report_settled_interrupt w held' settled ordinary') = ids_used s"
    using same_callers [OF same]
    by (simp_all only: report_settled_compose_def report_settled_interrupt_def p prod.case Let_def callers_tell tell)
qed

lemma ids_used_none:
  "ids_used s \<Longrightarrow> hget (la_open_composes s) (la_next_id s) = None"
  "ids_used s \<Longrightarrow> hget (la_open_interrupts s) (la_next_id s) = None"
  by (auto simp: ids_used_def map_of_eq_None_iff)

lemma write_callers:
  assumes "ids_used s"
  shows "callers (write_compose ask route against not_started s) = callers s + {#Inl (cq_reply ask)#}"
    and "callers (write_interrupt ask' turn_id s) = callers s + {#Inr (iq_reply ask')#}"
    and "ids_used (write_compose ask route against not_started s)" "ids_used (write_interrupt ask' turn_id s)"
proof -
  have "{..<la_next_id s} \<subseteq> {..<la_next_id s + 1}" by auto
  then show "ids_used (write_compose ask route against not_started s)" "ids_used (write_interrupt ask' turn_id s)"
    using assms by (auto simp: write_compose_def write_interrupt_def Let_def ids_used_def keys_hput)
  show "callers (write_compose ask route against not_started s) = callers s + {#Inl (cq_reply ask)#}"
    "callers (write_interrupt ask' turn_id s) = callers s + {#Inr (iq_reply ask')#}"
    using ids_used_none [OF assms] by (simp_all add: write_compose_def write_interrupt_def Let_def callers_def behind_new)
qed

lemma join_callers:
  "ids_used s \<Longrightarrow> join_open_compose ask s = Some s' \<Longrightarrow> callers s' = callers s + {#Inl (cq_reply ask)#} \<and> ids_used s'"
  "ids_used s \<Longrightarrow> join_open_interrupt ask' s = Some s' \<Longrightarrow> callers s' = callers s + {#Inr (iq_reply ask')#} \<and> ids_used s'"
proof -
  show "callers s' = callers s + {#Inl (cq_reply ask)#} \<and> ids_used s'" if "ids_used s" "join_open_compose ask s = Some s'"
  proof -
    from that(2) obtain i held where f: "find (\<lambda>(i, held). pc_client_request_id held = cq_client_request_id ask \<and>
        pc_claimed_hash held = cq_claimed_hash ask) (la_open_composes s) = Some (i, held)"
      and s': "s' = s\<lparr>la_open_composes := hput i (held\<lparr>pc_replies := pc_replies held @ [cq_reply ask]\<rparr>) (la_open_composes s)\<rparr>"
      by (auto simp: join_open_compose_def split: option.splits)
    from f have m: "(i, held) \<in> set (la_open_composes s)" by (auto simp: find_Some_iff in_set_conv_nth)
    moreover have "hwf (la_open_composes s)" using that(1) by (simp add: ids_used_def)
    ultimately have "hget (la_open_composes s) i = Some held" by (simp add: hwf_def)
    moreover from m have "i \<in> fst ` set (la_open_composes s)" by force
    ultimately show ?thesis
      using that(1) by (simp add: s' callers_def ids_used_def behind_put keys_hput insert_absorb)
  qed
  show "callers s' = callers s + {#Inr (iq_reply ask')#} \<and> ids_used s'" if "ids_used s" "join_open_interrupt ask' s = Some s'"
  proof -
    from that(2) obtain i held where f: "find (\<lambda>(i, held). pi_client_request_id held = iq_client_request_id ask' \<and>
        pi_thread_id held = cm_thread_id (iq_claimed ask') \<and> Some (pi_turn_id held) = cm_target_turn_id (iq_claimed ask'))
        (la_open_interrupts s) = Some (i, held)"
      and s': "s' = s\<lparr>la_open_interrupts := hput i (held\<lparr>pi_replies := pi_replies held @ [iq_reply ask']\<rparr>) (la_open_interrupts s)\<rparr>"
      by (auto simp: join_open_interrupt_def split: option.splits)
    from f have m: "(i, held) \<in> set (la_open_interrupts s)" by (auto simp: find_Some_iff in_set_conv_nth)
    moreover have "hwf (la_open_interrupts s)" using that(1) by (simp add: ids_used_def)
    ultimately have "hget (la_open_interrupts s) i = Some held" by (simp add: hwf_def)
    moreover from m have "i \<in> fst ` set (la_open_interrupts s)" by force
    ultimately show ?thesis
      using that(1) by (simp add: s' callers_def ids_used_def behind_put keys_hput insert_absorb)
  qed
qed

definition asking :: "asks_event \<Rightarrow> (nat + nat) multiset" where
  "asking e = (case e of
     ComposeAsked w ask \<Rightarrow> {#Inl (cq_reply ask)#}
   | ComposeUnserved ask \<Rightarrow> {#Inl (cq_reply ask)#}
   | InterruptAsked w ask \<Rightarrow> {#Inr (iq_reply ask)#}
   | InterruptUnserved ask \<Rightarrow> {#Inr (iq_reply ask)#}
   | _ \<Rightarrow> {#})"

text \<open>The step accounts for the callers in \<open>m\<close>.\<close>

definition accounts :: "(nat + nat) multiset \<Rightarrow> link_asks \<Rightarrow> link_asks \<Rightarrow> bool" where
  "accounts m s s' \<longleftrightarrow> callers s' = callers s + m \<and> ids_used s'"

lemma ids_used_tell [simp]:
  "ids_used (tell_composes rid rs r s) = ids_used s" "ids_used (tell_interrupts rid rs r' s) = ids_used s"
  by (simp_all add: ids_used_def tell_composes_def tell_interrupts_def)

lemma accounts_same:
  assumes "same_asks s' s" "ids_used s"
  shows "accounts {#} s s'" "accounts {#Inl r#} s (tell_composes rid [r] rep s')" "accounts {#Inr r#} s (tell_interrupts rid [r] rep' s')"
    and "accounts {#Inl (cq_reply ask)#} s (write_compose ask route against not_started s')"
    and "accounts {#Inr (iq_reply ask')#} s (write_interrupt ask' turn_id s')"
proof -
  have i: "ids_used s'" using assms same_callers by blast
  show "accounts {#} s s'" "accounts {#Inl r#} s (tell_composes rid [r] rep s')" "accounts {#Inr r#} s (tell_interrupts rid [r] rep' s')"
    "accounts {#Inl (cq_reply ask)#} s (write_compose ask route against not_started s')"
    "accounts {#Inr (iq_reply ask')#} s (write_interrupt ask' turn_id s')"
    using same_callers [OF assms(1)] write_callers [OF i] i by (simp_all add: accounts_def)
qed

lemmas same_intros = same_refl same_do same_others

lemma compose_turn_accounts: "ids_used s \<Longrightarrow> accounts {#Inl (cq_reply ask)#} s (compose_turn w ask s)"
proof (cases "join_open_compose ask s")
  case (Some s')
  assume "ids_used s"
  from join_callers(1) [OF this Some] show ?thesis by (simp add: compose_turn_def Some accounts_def)
next
  case None
  assume i: "ids_used s"
  note acc = accounts_same [OF _ i]
  from None show ?thesis
    by (simp add: compose_turn_def Let_def split: option.split sum.split mutation_claim.split)
      (intro conjI impI allI acc same_intros)
qed

lemma interrupt_turn_accounts: "ids_used s \<Longrightarrow> accounts {#Inr (iq_reply ask)#} s (interrupt_turn w ask s)"
proof (cases "join_open_interrupt ask s")
  case (Some s')
  assume "ids_used s"
  from join_callers(2) [OF this Some] show ?thesis by (simp add: interrupt_turn_def Some accounts_def)
next
  case None
  assume i: "ids_used s"
  note acc = accounts_same [OF _ i]
  from None show ?thesis
    by (simp add: interrupt_turn_def Let_def split: option.split sum.split mutation_claim.split)
      (intro conjI impI allI acc same_intros)
qed

lemma open_del:
  "ids_used s \<Longrightarrow> hget (la_open_composes s) i = Some held \<Longrightarrow>
     callers s = callers (s\<lparr>la_open_composes := hdel i (la_open_composes s)\<rparr>) + image_mset Inl (mset (pc_replies held)) \<and>
     ids_used (s\<lparr>la_open_composes := hdel i (la_open_composes s)\<rparr>)"
  "ids_used s \<Longrightarrow> hget (la_open_interrupts s) i = Some held' \<Longrightarrow>
     callers s = callers (s\<lparr>la_open_interrupts := hdel i (la_open_interrupts s)\<rparr>) + image_mset Inr (mset (pi_replies held')) \<and>
     ids_used (s\<lparr>la_open_interrupts := hdel i (la_open_interrupts s)\<rparr>)"
  using behind_del [of "la_open_composes s" i held pc_replies] behind_del [of "la_open_interrupts s" i held' pi_replies]
  by (auto simp: ids_used_def callers_def keys_hdel)

text \<open>What only the proof of a thread and the resume that is due are about.\<close>

lemma proof_fields [simp]:
  "callers (s\<lparr>la_start_in_flight := f, la_not_ready_thread := n\<rparr>) = callers s"
  "ids_used (s\<lparr>la_start_in_flight := f, la_not_ready_thread := n\<rparr>) = ids_used s"
  "callers (s\<lparr>la_resume_due_now := d\<rparr>) = callers s" "ids_used (s\<lparr>la_resume_due_now := d\<rparr>) = ids_used s"
  "callers (s\<lparr>la_running_turn := rt\<rparr>) = callers s" "ids_used (s\<lparr>la_running_turn := rt\<rparr>) = ids_used s"
  by (simp_all add: callers_def ids_used_def)

lemma compose_response_accounts: "ids_used s \<Longrightarrow> accounts {#} s (snd (note_compose_response w frame s))"
proof (cases "\<exists>wire_id held. Option.bind (jget ''id'' frame) as_i64 = Some wire_id \<and> hget (la_open_composes s) wire_id = Some held")
  case True
  then obtain wire_id held where h: "Option.bind (jget ''id'' frame) as_i64 = Some wire_id" "hget (la_open_composes s) wire_id = Some held"
    by blast
  assume "ids_used s"
  note del = open_del(1) [OF this h(2)]
  show ?thesis
    by (simp add: note_compose_response_def h Let_def accounts_def report_callers [OF same_closing(1)]
        report_callers [OF same_closing(2)] report_callers [OF same_closing(3)] del split: option.split)
next
  case False
  assume "ids_used s"
  with False show ?thesis
    by (auto simp: note_compose_response_def accounts_def split: option.split)
qed

lemma interrupt_response_accounts: "ids_used s \<Longrightarrow> accounts {#} s (snd (note_interrupt_response w frame s))"
proof (cases "\<exists>wire_id held. Option.bind (jget ''id'' frame) as_i64 = Some wire_id \<and> hget (la_open_interrupts s) wire_id = Some held")
  case True
  then obtain wire_id held where h: "Option.bind (jget ''id'' frame) as_i64 = Some wire_id" "hget (la_open_interrupts s) wire_id = Some held"
    by blast
  assume i: "ids_used s"
  note del = open_del(2) [OF this h(2)]
  show ?thesis
    using i by (simp add: note_interrupt_response_def h Let_def accounts_def report_callers [OF same_closing(1)]
        report_callers [OF same_closing(2)] report_callers [OF same_closing(3)] del split: wire_refusal.split)
next
  case False
  assume "ids_used s"
  with False show ?thesis
    by (auto simp: note_interrupt_response_def accounts_def split: option.split)
qed

lemma fold_callers:
  assumes "ids_used s" "\<And>i v s. ids_used s \<Longrightarrow> callers (settle i v s) = callers s + image_mset side (mset (f v)) \<and> ids_used (settle i v s)"
  shows "callers (fold (\<lambda>(i, v). settle i v) h s) = callers s + image_mset side (behind f h) \<and> ids_used (fold (\<lambda>(i, v). settle i v) h s)"
  using assms(1)
proof (induction h arbitrary: s)
  case (Cons e h)
  obtain i v where e: "e = (i, v)" by (cases e)
  from assms(2) [OF Cons.prems, of i v] Cons.IH [of "settle i v s"] show ?case by (simp add: e ac_simps)
qed simp

lemma ids_used_filter:
  "ids_used s \<Longrightarrow> ids_used (s\<lparr>la_open_interrupts := filter P (la_open_interrupts s)\<rparr>)"
  "ids_used s \<Longrightarrow> ids_used (s\<lparr>la_open_interrupts := []\<rparr>)" "ids_used s \<Longrightarrow> ids_used (s\<lparr>la_open_composes := []\<rparr>)"
  by (auto simp: ids_used_def hwf_def distinct_map_filter)

lemma settle_taken_accounts:
  assumes "ids_used s" "\<And>w held s. ids_used s \<Longrightarrow>
      callers (settle w held s) = callers s + image_mset Inr (mset (pi_replies held)) \<and> ids_used (settle w held s)"
  shows "accounts {#} s (settle_taken ws settle thread_id turn_id s)"
proof -
  let ?P = "\<lambda>(i, held). pi_thread_id held = thread_id \<and> pi_turn_id held = turn_id"
  let ?s = "s\<lparr>la_open_interrupts := filter (\<lambda>e. \<not> ?P e) (la_open_interrupts s)\<rparr>"
  have "callers s = callers ?s + image_mset Inr (behind pi_replies (filter ?P (la_open_interrupts s)))"
    using behind_split [of pi_replies "la_open_interrupts s" ?P] by (simp add: callers_def)
  with fold_callers [of ?s "\<lambda>i. settle (ws i)" Inr pi_replies, OF ids_used_filter(1) [OF assms(1)] assms(2)]
  show ?thesis by (simp add: accounts_def settle_taken_def interrupts_for_turn_def case_prod_unfold)
qed

lemma terminal_accounts: "ids_used s \<Longrightarrow> accounts {#} s (note_turn_terminal ws filed params s)"
proof -
  assume i: "ids_used s"
  have cleared: "accounts {#} s s'" if "accounts {#} (s\<lparr>la_running_turn := rt\<rparr>) s'" for rt s'
    using that by (simp add: accounts_def)
  have settled: "accounts {#} s (settle_interrupts_for_turn ws th tu st s)" "accounts {#} s (abandon_interrupts_for_turn ws th tu why s)"
    if "ids_used s" for th tu st why s
    unfolding settle_interrupts_for_turn_def abandon_interrupts_for_turn_def
    by (rule settle_taken_accounts [OF that];
        simp add: report_callers [OF same_closing(1)] report_callers [OF same_closing(2)])+
  show ?thesis
    using i by (auto simp: note_turn_terminal_def settle_interrupts_against_the_boundary_def accounts_def [of _ s s]
        intro!: cleared settled split: option.split bool.split) (simp_all add: accounts_def)
qed

lemma ended_accounts:
  "ids_used s \<Longrightarrow> accounts {#} s (settle_open_interrupts ws cause s)"
  "ids_used s \<Longrightarrow> accounts {#} s (settle_open_composes ws cause s)"
proof -
  assume i: "ids_used s"
  have told: "callers (case abandon_claim w kind rid s of (settlement, s') \<Rightarrow> tell_interrupts rid' rs (r settlement) s') =
        callers s + image_mset Inr (mset rs) \<and> ids_used (case abandon_claim w kind rid s of (settlement, s') \<Rightarrow> tell_interrupts rid' rs (r settlement) s') = ids_used s"
    "callers (case abandon_claim w kind rid s of (settlement, s') \<Rightarrow> tell_composes rid' rs (q settlement) s') =
        callers s + image_mset Inl (mset rs) \<and> ids_used (case abandon_claim w kind rid s of (settlement, s') \<Rightarrow> tell_composes rid' rs (q settlement) s') = ids_used s"
    for w kind rid rid' rs r q s
    using same_callers [OF same_closing(2) [of w kind rid s]] by (simp_all add: case_prod_unfold)
  have c: "callers s = callers (s\<lparr>la_open_interrupts := []\<rparr>) + image_mset Inr (behind pi_replies (la_open_interrupts s))"
    "callers s = callers (s\<lparr>la_open_composes := []\<rparr>) + image_mset Inl (behind pc_replies (la_open_composes s))"
    by (simp_all add: callers_def)
  show "accounts {#} s (settle_open_interrupts ws cause s)"
    unfolding accounts_def settle_open_interrupts_def c(1)
    using fold_callers [OF ids_used_filter(2) [OF i], of _ Inr pi_replies "la_open_interrupts s", OF conjI, OF told(1) [THEN conjunct1]]
    by (simp add: told)
  show "accounts {#} s (settle_open_composes ws cause s)"
    unfolding accounts_def settle_open_composes_def c(2)
    using fold_callers [OF ids_used_filter(3) [OF i], of _ Inl pc_replies "la_open_composes s", OF conjI, OF told(2) [THEN conjunct1]]
    by (simp add: told)
qed

lemma ended_closed:
  "la_open_interrupts (settle_open_interrupts ws cause s) = []" "la_open_composes (settle_open_composes ws cause s) = []"
  "la_open_interrupts (settle_open_composes ws cause s) = la_open_interrupts s"
proof -
  have a: "la_open_interrupts (snd (abandon_claim w kind rid s)) = la_open_interrupts s"
    "la_open_composes (snd (abandon_claim w kind rid s)) = la_open_composes s" for w kind rid s
    by (simp_all add: same_fields [OF same_closing(2)])
  show "la_open_interrupts (settle_open_interrupts ws cause s) = []"
    unfolding settle_open_interrupts_def
    by (rule fold_keeps [of "\<lambda>s. la_open_interrupts s = []"]) (simp_all add: case_prod_unfold tell_interrupts_def a)
  show "la_open_composes (settle_open_composes ws cause s) = []"
    unfolding settle_open_composes_def
    by (rule fold_keeps [of "\<lambda>s. la_open_composes s = []"]) (simp_all add: case_prod_unfold tell_composes_def a)
  show "la_open_interrupts (settle_open_composes ws cause s) = la_open_interrupts s"
    unfolding settle_open_composes_def
    by (rule fold_keeps [of "\<lambda>s'. la_open_interrupts s' = la_open_interrupts s"]) (simp_all add: case_prod_unfold tell_composes_def a)
qed

lemma step_accounts: "ids_used s \<Longrightarrow> accounts (asking e) s (asks_step e s)"
proof (cases e)
  case (Reconnected ws v carried candidate)
  assume i: "ids_used s"
  let ?a = "settle_open_interrupts ws INTERRUPT_CONNECTION_ENDED s"
  let ?b = "settle_open_composes ws COMPOSE_CONNECTION_ENDED ?a"
  have a: "accounts {#} s ?a" by (rule ended_accounts(1) [OF i])
  then have "accounts {#} ?a ?b" by (intro ended_accounts(2)) (simp add: accounts_def)
  with a have "callers ?b = callers s" by (simp add: accounts_def)
  moreover have "la_open_interrupts ?b = []" "la_open_composes ?b = []" by (simp_all add: ended_closed)
  ultimately show ?thesis by (simp add: Reconnected asking_def accounts_def reconnect_def callers_def ids_used_def)
next
  case (LinkMoved m)
  assume "ids_used s"
  moreover have "{..<la_next_id s} \<subseteq> {..<la_next_id s + int (lm_ids m)}" by auto
  ultimately show ?thesis by (auto simp: LinkMoved asking_def accounts_def callers_def ids_used_def)
next
  case (OthersUse calls)
  assume "ids_used s"
  from accounts_same(1) [OF same_others [OF same_refl] this] show ?thesis by (simp add: OthersUse asking_def)
qed (simp_all add: asking_def compose_turn_accounts compose_response_accounts interrupt_turn_accounts
    interrupt_response_accounts terminal_accounts accounts_same(2,3) [OF same_refl])

definition asked_of :: "asks_event list \<Rightarrow> (nat + nat) multiset" where
  "asked_of events = (\<Sum>e\<leftarrow>events. asking e)"

lemma run_callers: "callers (asks_run uid v events) = asked_of events \<and> ids_used (asks_run uid v events)"
proof (induction events rule: rev_induct)
  case Nil
  show ?case by (simp add: asks_run_def new_link_def callers_def ids_used_def asked_of_def)
next
  case (snoc e events)
  then have "accounts (asking e) (asks_run uid v events) (asks_step e (asks_run uid v events))" by (intro step_accounts) simp
  with snoc show ?case by (simp add: asks_run_def asked_of_def accounts_def)
qed

lemma two_sides:
  fixes A A' :: "'a multiset" and B B' :: "'b multiset"
  assumes "image_mset Inl A + image_mset Inr B = image_mset Inl A' + image_mset Inr B'"
  shows "A = A' \<and> B = B'"
proof -
  have l: "filter_mset isl (image_mset Inl A) = image_mset Inl A" "filter_mset isl (image_mset Inr B) = {#}"
    and r: "filter_mset (\<lambda>e. \<not> isl e) (image_mset Inl A) = {#}" "filter_mset (\<lambda>e. \<not> isl e) (image_mset Inr B) = image_mset Inr B"
    for A :: "'a multiset" and B :: "'b multiset"
    by (induction A; induction B; simp)+
  from arg_cong [OF assms, of "\<lambda>M. image_mset projl (filter_mset isl M)"]
    arg_cong [OF assms, of "\<lambda>M. image_mset projr (filter_mset (\<lambda>e. \<not> isl e) M)"]
  show ?thesis by (simp add: l r multiset.map_comp comp_def)
qed

text \<open>The callers of each kind, in the events and behind the entries still open.\<close>

definition composers :: "asks_event list \<Rightarrow> nat list" where
  "composers events = concat (map (\<lambda>e. case e of
     ComposeAsked w ask \<Rightarrow> [cq_reply ask] | ComposeUnserved ask \<Rightarrow> [cq_reply ask] | _ \<Rightarrow> []) events)"

definition stoppers :: "asks_event list \<Rightarrow> nat list" where
  "stoppers events = concat (map (\<lambda>e. case e of
     InterruptAsked w ask \<Rightarrow> [iq_reply ask] | InterruptUnserved ask \<Rightarrow> [iq_reply ask] | _ \<Rightarrow> []) events)"

lemma asked_of_split: "asked_of events = image_mset Inl (mset (composers events)) + image_mset Inr (mset (stoppers events))"
  by (induction events) (auto simp: asked_of_def asking_def composers_def stoppers_def split: asks_event.split)

lemma asked_are_told_or_waiting:
  "mset (composers events) = mset (map (fst \<circ> snd) (la_told_composes (asks_run uid v events))) +
     behind pc_replies (la_open_composes (asks_run uid v events))"
  "mset (stoppers events) = mset (map (fst \<circ> snd) (la_told_interrupts (asks_run uid v events))) +
     behind pi_replies (la_open_interrupts (asks_run uid v events))"
  using two_sides [OF conjunct1 [OF run_callers [of uid v events], unfolded callers_def asked_of_split]] by simp_all

text \<open>C21. Every caller is told once. However asks, answers, terminals and failures follow each other,
  the callers that have been told and the callers that wait behind an entry still open are together exactly
  the callers that asked, each as often as it asked; and the end of a connection tells everyone who waits.\<close>
theorem every_caller_is_told_once:
  "mset (composers events) = mset (map (fst \<circ> snd) (la_told_composes (asks_run uid v events))) +
     behind pc_replies (la_open_composes (asks_run uid v events)) \<and>
   mset (stoppers events) = mset (map (fst \<circ> snd) (la_told_interrupts (asks_run uid v events))) +
     behind pi_replies (la_open_interrupts (asks_run uid v events)) \<and>
   mset (map (fst \<circ> snd) (la_told_composes (asks_run uid v (events @ [Reconnected ws v' carried candidate])))) = mset (composers events) \<and>
   mset (map (fst \<circ> snd) (la_told_interrupts (asks_run uid v (events @ [Reconnected ws v' carried candidate])))) = mset (stoppers events)"
proof -
  let ?e = "[Reconnected ws v' carried candidate]"
  have "la_open_composes (asks_run uid v (events @ ?e)) = []" "la_open_interrupts (asks_run uid v (events @ ?e)) = []"
    by (simp_all add: asks_run_def reconnect_def ended_closed)
  then show ?thesis
    using asked_are_told_or_waiting [of events uid v] asked_are_told_or_waiting [of "events @ ?e" uid v]
    by (simp add: composers_def stoppers_def)
qed

end
