(* ===== verification/Ccd_Asks_Record.thy ===== *)
theory Ccd_Asks_Record
  imports Ccd_Asks_Props
begin

text \<open>What a caller of the link is told of a message or a stop that took effect is what the ledger holds.\<close>

definition recorded :: "link_asks \<Rightarrow> string \<Rightarrow> string \<Rightarrow> string \<Rightarrow> bool" where
  "recorded s kind rid outcome \<longleftrightarrow> (\<exists>r. ledger_row_at (la_ledger s) (kind, la_uid s, rid) = Some r \<and>
     lr_status r = ''done'' \<and> lr_outcome r = Some outcome)"

definition compose_true :: "link_asks \<Rightarrow> string \<Rightarrow> compose_report \<Rightarrow> bool" where
  "compose_true s rid report = (case report of
     Started t \<Rightarrow> recorded s OPERATION_COMPOSE rid (compose_outcome COMPOSE_ROUTE_START t)
   | Steered t \<Rightarrow> recorded s OPERATION_COMPOSE rid (compose_outcome COMPOSE_ROUTE_STEER t)
   | DuplicateCompose t start \<Rightarrow> recorded s OPERATION_COMPOSE rid
       (compose_outcome (if start then COMPOSE_ROUTE_START else COMPOSE_ROUTE_STEER) t)
   | _ \<Rightarrow> True)"

definition stop_true :: "link_asks \<Rightarrow> string \<Rightarrow> interrupt_report \<Rightarrow> bool" where
  "stop_true s rid report = (case report of
     Aborted t \<Rightarrow> recorded s OPERATION_INTERRUPT rid INTERRUPT_ABORTED
   | DuplicateStop t \<Rightarrow> recorded s OPERATION_INTERRUPT rid INTERRUPT_ABORTED
   | _ \<Rightarrow> True)"

definition truthful :: "link_asks \<Rightarrow> bool" where
  "truthful s \<longleftrightarrow> one_row_each (la_ledger s) \<and>
     (\<forall>(rid, caller, report) \<in> set (la_told_composes s). compose_true s rid report) \<and>
     (\<forall>(rid, caller, report) \<in> set (la_told_interrupts s). stop_true s rid report) \<and>
     (\<forall>(i, held) \<in> set (la_open_composes s). pc_route held \<in> {COMPOSE_ROUTE_START, COMPOSE_ROUTE_STEER})"

lemma recorded_do: "one_row_each (la_ledger s) \<Longrightarrow> recorded s kind rid outcome \<Longrightarrow> recorded (ledger_do who call s) kind rid outcome"
proof -
  assume one: "one_row_each (la_ledger s)" and "recorded s kind rid outcome"
  then obtain r where r: "ledger_row_at (la_ledger s) (kind, la_uid s, rid) = Some r" "lr_status r = ''done''" "lr_outcome r = Some outcome"
    by (auto simp: recorded_def)
  from r(2) have "lr_status r \<noteq> ''applying''" by simp
  from closed_row_stays [OF one r(1) this, of call] r(2,3) show ?thesis by (simp add: recorded_def)
qed

lemma true_do:
  "one_row_each (la_ledger s) \<Longrightarrow> compose_true s rid c \<Longrightarrow> compose_true (ledger_do who call s) rid c"
  "one_row_each (la_ledger s) \<Longrightarrow> stop_true s rid i \<Longrightarrow> stop_true (ledger_do who call s) rid i"
  by (auto simp: compose_true_def stop_true_def intro: recorded_do split: compose_report.splits interrupt_report.splits)

lemma truthful_do: "truthful s \<Longrightarrow> truthful (ledger_do who call s)"
proof -
  assume t: "truthful s"
  then have one: "one_row_each (la_ledger s)" by (simp add: truthful_def)
  have f: "la_told_composes (ledger_do who call s) = la_told_composes s" "la_told_interrupts (ledger_do who call s) = la_told_interrupts s"
    "la_open_composes (ledger_do who call s) = la_open_composes s" by (simp_all add: ledger_do_def)
  show ?thesis
    using t one by (auto simp: truthful_def f ml.step_sound intro: true_do)
qed

lemma truthful_others: "truthful s \<Longrightarrow> truthful (others calls s)"
  by (rule others_induct) (auto intro: truthful_do)

lemma true_cong:
  "la_ledger s' = la_ledger s \<Longrightarrow> la_uid s' = la_uid s \<Longrightarrow> compose_true s' = compose_true s \<and> stop_true s' = stop_true s"
  by (simp add: compose_true_def stop_true_def recorded_def fun_eq_iff split: compose_report.split interrupt_report.split)

lemma truthful_tell:
  "truthful s \<Longrightarrow> compose_true s rid c \<Longrightarrow> truthful (tell_composes rid rs c s)"
  "truthful s \<Longrightarrow> stop_true s rid i \<Longrightarrow> truthful (tell_interrupts rid rs i s)"
proof -
  have "compose_true (tell_composes rid rs c s) = compose_true s" "stop_true (tell_composes rid rs c s) = stop_true s"
    "compose_true (tell_interrupts rid rs i s) = compose_true s" "stop_true (tell_interrupts rid rs i s) = stop_true s"
    using true_cong [of "tell_composes rid rs c s" s] true_cong [of "tell_interrupts rid rs i s" s]
    by (simp_all add: tell_composes_def tell_interrupts_def)
  note same = this
  have fields: "la_ledger (tell_composes rid rs c s) = la_ledger s" "la_ledger (tell_interrupts rid rs i s) = la_ledger s"
    "la_open_composes (tell_composes rid rs c s) = la_open_composes s" "la_open_composes (tell_interrupts rid rs i s) = la_open_composes s"
    "la_told_composes (tell_interrupts rid rs i s) = la_told_composes s" "la_told_interrupts (tell_composes rid rs c s) = la_told_interrupts s"
    "set (la_told_composes (tell_composes rid rs c s)) = set (la_told_composes s) \<union> (\<lambda>r. (rid, r, c)) ` set rs"
    "set (la_told_interrupts (tell_interrupts rid rs i s)) = set (la_told_interrupts s) \<union> (\<lambda>r. (rid, r, i)) ` set rs"
    by (simp_all add: tell_composes_def tell_interrupts_def)
  show "truthful s \<Longrightarrow> compose_true s rid c \<Longrightarrow> truthful (tell_composes rid rs c s)"
    "truthful s \<Longrightarrow> stop_true s rid i \<Longrightarrow> truthful (tell_interrupts rid rs i s)"
    by (simp_all add: truthful_def same fields ball_Un)
qed

section \<open>Replays\<close>

lemma status_settled:
  assumes "link_status b kind rid s = Some state" "ms_status state = ASettled outcome" "outcome \<noteq> []"
  shows "recorded s kind rid outcome"
  using assms by (auto simp: link_status_def mutation_status_def recorded_def or_default_def split: if_splits option.splits)

lemma replayed_compose_true:
  assumes "link_status b OPERATION_COMPOSE rid s = Some state" "ms_status state = ASettled outcome"
  shows "compose_true s rid (replayed_compose_report outcome)"
proof (cases "parse_compose_outcome outcome")
  case None
  then show ?thesis by (simp add: replayed_compose_report_def compose_true_def)
next
  case (Some rt)
  obtain route t where rt: "rt = (route, t)" by (cases rt)
  from parse_compose_outcome_iff [of outcome route t] Some rt
  have o: "outcome = compose_outcome route t" "route \<in> {COMPOSE_ROUTE_START, COMPOSE_ROUTE_STEER}" by simp_all
  then have "outcome \<noteq> []" by (simp add: compose_outcome_def)
  from status_settled [OF assms this] o(2) have "compose_true s rid (DuplicateCompose t (route = COMPOSE_ROUTE_START))"
    by (auto simp: compose_true_def o(1))
  then show ?thesis by (simp add: replayed_compose_report_def Some rt)
qed

lemma replayed_stop_true:
  assumes "link_status b OPERATION_INTERRUPT rid s = Some state" "ms_status state = ASettled outcome"
  shows "stop_true s rid (replayed_interrupt_report outcome turn_id)"
proof (cases "outcome = INTERRUPT_ABORTED")
  case True
  then have "outcome \<noteq> []" by (simp add: INTERRUPT_ABORTED_def)
  from status_settled [OF assms this] True show ?thesis by (simp add: replayed_interrupt_report_def stop_true_def)
qed (simp add: replayed_interrupt_report_def stop_true_def)

text \<open>A claim that finds its own row settled reports what the row holds.\<close>

lemma applied_recorded:
  assumes "fst (claim_mutation exists kind uid rid m now t) = MApplied outcome m'" "outcome \<noteq> []"
  shows "\<exists>r. ledger_row_at t (kind, uid, rid) = Some r \<and> lr_status r = ''done'' \<and> lr_outcome r = Some outcome"
  using assms by (auto simp: claim_mutation_def or_default_def split: option.splits if_splits)

lemma applied_true:
  assumes "fst (claim_mutation exists OPERATION_COMPOSE (la_uid s) rid m now (la_ledger s)) = MApplied outcome m'"
  shows "compose_true s rid (replayed_compose_report outcome)"
proof (cases "parse_compose_outcome outcome")
  case None
  then show ?thesis by (simp add: replayed_compose_report_def compose_true_def)
next
  case (Some rt)
  obtain route t where rt: "rt = (route, t)" by (cases rt)
  from parse_compose_outcome_iff [of outcome route t] Some rt
  have o: "outcome = compose_outcome route t" "route \<in> {COMPOSE_ROUTE_START, COMPOSE_ROUTE_STEER}" by simp_all
  then have "outcome \<noteq> []" by (simp add: compose_outcome_def)
  from applied_recorded [OF assms this] o(2) have "compose_true s rid (DuplicateCompose t (route = COMPOSE_ROUTE_START))"
    by (auto simp: compose_true_def o(1) recorded_def)
  then show ?thesis by (simp add: replayed_compose_report_def Some rt)
qed

lemma applied_stop_true:
  assumes "fst (claim_mutation exists OPERATION_INTERRUPT (la_uid s) rid m now (la_ledger s)) = MApplied outcome m'"
  shows "stop_true s rid (replayed_interrupt_report outcome turn_id)"
  using applied_recorded [OF assms]
  by (cases "outcome = INTERRUPT_ABORTED")
    (auto simp: replayed_interrupt_report_def stop_true_def recorded_def INTERRUPT_ABORTED_def)

section \<open>Every step\<close>

lemma unsaid [simp]:
  "compose_true s rid (ComposeNotApplied why)" "compose_true s rid (ComposeUnknown why)"
  "stop_true s rid (StopNotApplied why)" "stop_true s rid (StopUnknown why)"
  by (simp_all add: compose_true_def stop_true_def)

lemma truthful_one: "truthful s \<Longrightarrow> one_row_each (la_ledger s)"
  by (simp add: truthful_def)

lemma truthful_cong:
  "la_ledger s' = la_ledger s \<Longrightarrow> la_uid s' = la_uid s \<Longrightarrow> la_told_composes s' = la_told_composes s \<Longrightarrow>
   la_told_interrupts s' = la_told_interrupts s \<Longrightarrow> la_open_composes s' = la_open_composes s \<Longrightarrow> truthful s' = truthful s"
  using true_cong [of s' s] by (simp add: truthful_def)

lemma truthful_fields [simp]:
  "truthful (s\<lparr>la_open_interrupts := oi\<rparr>) = truthful s" "truthful (s\<lparr>la_running_turn := rt\<rparr>) = truthful s"
  "truthful (s\<lparr>la_start_in_flight := f, la_not_ready_thread := n\<rparr>) = truthful s"
  "truthful (s\<lparr>la_resume_due_now := d\<rparr>) = truthful s" "truthful (reconnect v a c s) = truthful s"
  by (rule truthful_cong; simp add: reconnect_def)+

lemma truthful_opens:
  "truthful s \<Longrightarrow> (\<forall>(i, held) \<in> set oc. pc_route held \<in> {COMPOSE_ROUTE_START, COMPOSE_ROUTE_STEER}) \<Longrightarrow>
     truthful (s\<lparr>la_open_composes := oc\<rparr>)"
  using true_cong [of "s\<lparr>la_open_composes := oc\<rparr>" s] by (simp add: truthful_def)

lemma truthful_close: "truthful s \<Longrightarrow> truthful (snd (close_claim w took who call s))"
  by (simp add: close_claim_def Let_def truthful_do truthful_others)

lemma others_uid [simp]: "la_uid (others calls s) = la_uid s"
  by (rule others_induct) simp_all

lemma settled_true:
  assumes "truthful s"
  shows "truthful (snd (settle_claim w kind rid outcome s))"
    and "fst (settle_claim w kind rid outcome s) = Recorded \<Longrightarrow> recorded (snd (settle_claim w kind rid outcome s)) kind rid outcome"
proof -
  show "truthful (snd (settle_claim w kind rid outcome s))" using assms by (simp add: settle_claim_def truthful_close)
  have "one_row_each (la_ledger (others (lw_between w) s))" using assms by (intro truthful_one truthful_others)
  from settled_row [OF this, of kind "la_uid s" rid outcome "lw_now w"]
  show "recorded (snd (settle_claim w kind rid outcome s)) kind rid outcome" if "fst (settle_claim w kind rid outcome s) = Recorded"
    using that by (auto simp: settle_claim_def close_claim_def Let_def recorded_def split: if_splits)
qed

lemma unsettled_true:
  "truthful s \<Longrightarrow> truthful (snd (abandon_claim w kind rid s))" "truthful s \<Longrightarrow> truthful (snd (release_claim w kind rid frame s))"
  by (simp_all add: abandon_claim_def release_claim_def truthful_close)

lemma report_compose_true:
  assumes "truthful (snd settled)" "fst settled = Recorded \<Longrightarrow> compose_true (snd settled) (pc_client_request_id held) ordinary"
  shows "truthful (report_settled_compose w held settled ordinary)"
proof (cases settled)
  case (Pair settlement s)
  show ?thesis
  proof (cases settlement)
    case Superseded
    let ?s = "others (lw_afterwards w) s"
    let ?status = "link_status (lw_reread w) OPERATION_COMPOSE (pc_client_request_id held) ?s"
    have "truthful ?s" using assms(1) Pair by (simp add: truthful_others)
    moreover have "compose_true ?s (pc_client_request_id held) (replayed_compose_report outcome)"
      if "?status = Some state" "ms_status state = ASettled outcome" for state outcome
      by (rule replayed_compose_true [OF that])
    ultimately show ?thesis
      by (simp add: report_settled_compose_def Pair Superseded Let_def truthful_tell split: option.split answer_status.split)
  qed (use assms Pair in \<open>simp_all add: report_settled_compose_def Let_def truthful_tell\<close>)
qed

lemma report_interrupt_true:
  assumes "truthful (snd settled)" "fst settled = Recorded \<Longrightarrow> stop_true (snd settled) (pi_client_request_id held) ordinary"
  shows "truthful (report_settled_interrupt w held settled ordinary)"
proof (cases settled)
  case (Pair settlement s)
  show ?thesis
  proof (cases settlement)
    case Superseded
    let ?s = "others (lw_afterwards w) s"
    let ?status = "link_status (lw_reread w) OPERATION_INTERRUPT (pi_client_request_id held) ?s"
    have "truthful ?s" using assms(1) Pair by (simp add: truthful_others)
    moreover have "stop_true ?s (pi_client_request_id held) (replayed_interrupt_report outcome (pi_turn_id held))"
      if "?status = Some state" "ms_status state = ASettled outcome" for state outcome
      by (rule replayed_stop_true [OF that])
    ultimately show ?thesis
      by (simp add: report_settled_interrupt_def Pair Superseded Let_def truthful_tell split: option.split answer_status.split)
  qed (use assms Pair in \<open>simp_all add: report_settled_interrupt_def Let_def truthful_tell\<close>)
qed

lemma route_named: "compose_route v running switching addressee th g epoch = Inr route \<Longrightarrow> route \<in> {COMPOSE_ROUTE_START, COMPOSE_ROUTE_STEER}"
  by (auto simp: compose_route_def Let_def split: if_splits option.splits)

lemma routes_hput:
  "truthful s \<Longrightarrow> pc_route held \<in> {COMPOSE_ROUTE_START, COMPOSE_ROUTE_STEER} \<Longrightarrow>
     truthful (s\<lparr>la_open_composes := hput i held (la_open_composes s)\<rparr>)"
  using set_hput_subset [of i held "la_open_composes s"] by (intro truthful_opens) (auto simp: truthful_def)

lemma write_compose_true:
  assumes "truthful s" "route \<in> {COMPOSE_ROUTE_START, COMPOSE_ROUTE_STEER}"
  shows "truthful (write_compose ask route against not_started s)"
proof -
  let ?held = "\<lparr>pc_client_request_id = cq_client_request_id ask, pc_claimed_hash = cq_claimed_hash ask,
               pc_thread_id = cq_thread_id ask, pc_route = route, pc_composed_against = against, pc_replies = [cq_reply ask]\<rparr>"
  have "truthful (s\<lparr>la_open_composes := hput (la_next_id s) ?held (la_open_composes s)\<rparr>)"
    by (rule routes_hput [OF assms(1)]) (use assms(2) in simp)
  moreover have "truthful (write_compose ask route against not_started s) =
      truthful (s\<lparr>la_open_composes := hput (la_next_id s) ?held (la_open_composes s)\<rparr>)"
    by (rule truthful_cong) (simp_all add: write_compose_def Let_def)
  ultimately show ?thesis by simp
qed

lemma write_interrupt_true: "truthful (write_interrupt ask turn_id s) = truthful s"
  by (rule truthful_cong) (simp_all add: write_interrupt_def Let_def)

lemma join_compose_true: "truthful s \<Longrightarrow> join_open_compose ask s = Some s' \<Longrightarrow> truthful s'"
proof -
  assume t: "truthful s" and j: "join_open_compose ask s = Some s'"
  then obtain i held where f: "find (\<lambda>(i, held). pc_client_request_id held = cq_client_request_id ask \<and>
        pc_claimed_hash held = cq_claimed_hash ask) (la_open_composes s) = Some (i, held)"
      and s': "s' = s\<lparr>la_open_composes := hput i (held\<lparr>pc_replies := pc_replies held @ [cq_reply ask]\<rparr>) (la_open_composes s)\<rparr>"
    by (auto simp: join_open_compose_def split: option.splits)
  from f have "(i, held) \<in> set (la_open_composes s)" by (auto simp: find_Some_iff in_set_conv_nth)
  with t have "pc_route held \<in> {COMPOSE_ROUTE_START, COMPOSE_ROUTE_STEER}" by (auto simp: truthful_def)
  then show ?thesis unfolding s' by (intro routes_hput [OF t]) simp
qed

lemma applied_behind_true:
  assumes "truthful s"
  shows "fst (claim_mutation exists OPERATION_COMPOSE (la_uid s) rid m now (la_ledger s)) = MApplied outcome m' \<Longrightarrow>
      compose_true (ledger_do who call s) rid (replayed_compose_report outcome)"
    and "fst (claim_mutation exists OPERATION_INTERRUPT (la_uid s) rid m now (la_ledger s)) = MApplied outcome m' \<Longrightarrow>
      stop_true (ledger_do who call s) rid (replayed_interrupt_report outcome turn_id)"
  using truthful_one [OF assms] by (auto intro: true_do applied_true applied_stop_true)

lemma recorded_outcome_true:
  "recorded_compose_outcome w ask s = Some report \<Longrightarrow> compose_true s (cq_client_request_id ask) report"
  "recorded_interrupt_outcome w ask' s = Some report' \<Longrightarrow> stop_true s (iq_client_request_id ask') report'"
  by (auto simp: recorded_compose_outcome_def recorded_interrupt_outcome_def split: option.splits if_splits answer_status.splits
      intro: replayed_compose_true replayed_stop_true)

lemma claimed_compose_true:
  assumes "truthful s" "route \<in> {COMPOSE_ROUTE_START, COMPOSE_ROUTE_STEER}"
  shows "truthful (case fst (claim_mutation exists OPERATION_COMPOSE (la_uid s) (cq_client_request_id ask) m now (la_ledger s)) of
      MClaimed \<Rightarrow> write_compose ask route against not_started (ledger_do who call s)
    | MApplied outcome m' \<Rightarrow> tell_composes (cq_client_request_id ask) rs (replayed_compose_report outcome) (ledger_do who call s)
    | MIndeterminate at m' \<Rightarrow> tell_composes (cq_client_request_id ask) rs (ComposeUnknown COMPOSE_ALREADY_SENT_UNKNOWN) (ledger_do who call s)
    | MConflict \<Rightarrow> tell_composes (cq_client_request_id ask) rs (ComposeNotApplied COMPOSE_ID_REUSED) (ledger_do who call s)
    | MNoSession \<Rightarrow> tell_composes (cq_client_request_id ask) rs (ComposeNotApplied COMPOSE_RUN_IS_GONE) (ledger_do who call s))"
  using assms by (auto split: mutation_claim.split intro!: write_compose_true truthful_tell(1) truthful_do dest: applied_behind_true(1) [OF assms(1)])

lemma compose_turn_true: "truthful s \<Longrightarrow> truthful (compose_turn w ask s)"
proof (cases "join_open_compose ask s")
  case (Some s')
  assume "truthful s"
  from join_compose_true [OF this Some] show ?thesis by (simp add: compose_turn_def Some)
next
  case None
  assume t: "truthful s"
  let ?s = "others (lw_meanwhile w) s"
  have o: "truthful ?s" "truthful (others cs ?s)" for cs using t by (simp_all add: truthful_others)
  note said = recorded_outcome_true(1) [of w ask ?s]
  show ?thesis
  proof (cases "compose_route (la_visit ?s) (la_running_turn ?s) (la_switch_candidate ?s \<noteq> None) (link_addressee ?s)
      (cq_thread_id ask) (cq_generation ask) (cq_upstream_epoch ask)")
    case (Inl why)
    with None show ?thesis by (simp add: compose_turn_def Let_def truthful_tell o said split: option.split)
  next
    case (Inr route)
    note claimed = claimed_compose_true [OF o(2) route_named [OF Inr], where ask = ask, unfolded others_uid]
    from None Inr show ?thesis
      by (simp only: compose_turn_def Let_def option.case sum.case others_uid split: option.split if_split)
        (simp add: truthful_tell o said claimed)
  qed
qed

lemma interrupt_turn_true: "truthful s \<Longrightarrow> truthful (interrupt_turn w ask s)"
proof (cases "join_open_interrupt ask s")
  case (Some s')
  assume "truthful s"
  with Some show ?thesis by (auto simp: interrupt_turn_def join_open_interrupt_def split: option.splits)
next
  case None
  assume t: "truthful s"
  have o: "truthful (others cs s)" "truthful (others cs (others cs' s))" for cs cs' using t by (simp_all add: truthful_others)
  note applied = applied_behind_true(2) [OF o(2), where exists = "lw_session w" and rid = "iq_client_request_id ask" and now = "lw_now w"
    and m = "iq_claimed ask"]
  show ?thesis unfolding interrupt_turn_def None Let_def
    by (simp add: truthful_tell truthful_do o write_interrupt_true applied recorded_outcome_true(2) [of w ask "others (lw_meanwhile w) s"]
        split: option.split sum.split mutation_claim.split)
qed

lemma settled_compose_report:
  assumes "truthful s" "pc_route held \<in> {COMPOSE_ROUTE_START, COMPOSE_ROUTE_STEER}"
  shows "truthful (report_settled_compose w held
      (settle_claim w OPERATION_COMPOSE (pc_client_request_id held) (compose_outcome (pc_route held) turn) s)
      (if pc_route held = COMPOSE_ROUTE_STEER then Steered turn else Started turn))"
proof (rule report_compose_true)
  let ?st = "settle_claim w OPERATION_COMPOSE (pc_client_request_id held) (compose_outcome (pc_route held) turn) s"
  show "truthful (snd ?st)" by (rule settled_true(1) [OF assms(1)])
  assume "fst ?st = Recorded"
  from settled_true(2) [OF assms(1) this] assms(2)
  show "compose_true (snd ?st) (pc_client_request_id held) (if pc_route held = COMPOSE_ROUTE_STEER then Steered turn else Started turn)"
    by (auto simp: compose_true_def)
qed

lemma unsettled_reports:
  assumes "truthful s"
  shows "truthful (report_settled_compose w held (abandon_claim w' kind rid s) (ComposeUnknown why))"
    and "truthful (report_settled_compose w held (release_claim w' kind rid frame s) (ComposeNotApplied why))"
    and "truthful (report_settled_interrupt w held' (abandon_claim w' kind rid s) (StopUnknown why))"
    and "truthful (report_settled_interrupt w held' (release_claim w' kind rid frame s) (StopNotApplied why))"
    and "truthful (report_settled_interrupt w held' (settle_claim w' kind rid outcome s) (StopNotApplied why))"
  by (simp_all add: report_compose_true report_interrupt_true unsettled_true settled_true assms)

lemma aborted_report:
  "truthful s \<Longrightarrow> truthful (report_settled_interrupt w held
     (settle_claim w OPERATION_INTERRUPT (pi_client_request_id held) INTERRUPT_ABORTED s) (Aborted t))"
  by (rule report_interrupt_true) (auto simp: settled_true stop_true_def)

lemma compose_response_true: "truthful s \<Longrightarrow> truthful (snd (note_compose_response w frame s))"
proof (cases "\<exists>wire_id held. Option.bind (jget ''id'' frame) as_i64 = Some wire_id \<and> hget (la_open_composes s) wire_id = Some held")
  case True
  then obtain wire_id held where h: "Option.bind (jget ''id'' frame) as_i64 = Some wire_id" "hget (la_open_composes s) wire_id = Some held"
    by blast
  assume t: "truthful s"
  have "(wire_id, held) \<in> set (la_open_composes s)" using h(2) by (rule map_of_SomeD)
  with t have route: "pc_route held \<in> {COMPOSE_ROUTE_START, COMPOSE_ROUTE_STEER}" by (auto simp: truthful_def)
  let ?s = "s\<lparr>la_open_composes := hdel wire_id (la_open_composes s)\<rparr>"
  have "truthful ?s" by (rule truthful_opens [OF t]) (use t in \<open>auto simp: truthful_def set_hdel\<close>)
  then have t': "truthful ?s" "truthful (?s\<lparr>la_resume_due_now := True\<rparr>)"
    "truthful (?s\<lparr>la_start_in_flight := f, la_not_ready_thread := n\<rparr>)" for f n by simp_all
  note reports = unsettled_reports(1) [OF t'(1)] unsettled_reports(2) [OF t'(1)] unsettled_reports(2) [OF t'(3)]
    settled_compose_report [OF t'(1) route] settled_compose_report [OF t'(2) route]
  show ?thesis
    unfolding note_compose_response_def h option.case Let_def snd_conv
    by (split if_split option.split, intro conjI impI allI reports)+
next
  case False
  assume "truthful s"
  with False show ?thesis by (auto simp: note_compose_response_def split: option.split)
qed

lemma interrupt_response_true: "truthful s \<Longrightarrow> truthful (snd (note_interrupt_response w frame s))"
  by (simp add: note_interrupt_response_def Let_def unsettled_reports split: option.split wire_refusal.split)

lemma terminal_true: "truthful s \<Longrightarrow> truthful (note_turn_terminal ws filed params s)"
  by (auto simp: note_turn_terminal_def settle_interrupts_against_the_boundary_def settle_interrupts_for_turn_def
      abandon_interrupts_for_turn_def settle_taken_def unsettled_reports aborted_report intro!: fold_keeps [of truthful]
      split: option.split bool.split)

lemma ended_true:
  "truthful s \<Longrightarrow> truthful (settle_open_interrupts ws cause s)" "truthful s \<Longrightarrow> truthful (settle_open_composes ws cause s)"
proof -
  assume t: "truthful s"
  show "truthful (settle_open_interrupts ws cause s)"
    unfolding settle_open_interrupts_def
    by (rule fold_keeps [of truthful]) (use t in \<open>auto simp: case_prod_unfold unsettled_true intro!: truthful_tell\<close>)
  show "truthful (settle_open_composes ws cause s)"
    unfolding settle_open_composes_def
    by (rule fold_keeps [of truthful]) (use t in \<open>auto simp: case_prod_unfold unsettled_true intro!: truthful_tell truthful_opens\<close>)
qed

lemma step_true: "truthful s \<Longrightarrow> truthful (asks_step e s)"
proof (cases e)
  case (LinkMoved m)
  assume "truthful s"
  with LinkMoved show ?thesis by (subst truthful_cong [of _ s]) simp_all
qed (simp_all add: compose_turn_true compose_response_true interrupt_turn_true interrupt_response_true terminal_true ended_true
    truthful_tell truthful_others)

lemma run_true: "truthful (asks_run uid v events)"
  unfolding asks_run_def
  by (rule fold_keeps) (simp_all add: step_true, simp add: new_link_def truthful_def one_row_each_def)

section \<open>One turn to an id\<close>

definition said_turn :: "compose_report \<Rightarrow> (string \<times> string) option" where
  "said_turn report = (case report of
     Started t \<Rightarrow> Some (COMPOSE_ROUTE_START, t)
   | Steered t \<Rightarrow> Some (COMPOSE_ROUTE_STEER, t)
   | DuplicateCompose t start \<Rightarrow> Some (if start then COMPOSE_ROUTE_START else COMPOSE_ROUTE_STEER, t)
   | _ \<Rightarrow> None)"

lemma compose_outcome_inj:
  assumes "compose_outcome route t = compose_outcome route' t'"
    and "route \<in> {COMPOSE_ROUTE_START, COMPOSE_ROUTE_STEER}" "route' \<in> {COMPOSE_ROUTE_START, COMPOSE_ROUTE_STEER}"
  shows "route = route' \<and> t = t'"
  using assms by (auto simp: compose_outcome_def COMPOSE_ROUTE_START_def COMPOSE_ROUTE_STEER_def)

lemma said_turn_recorded:
  assumes "compose_true s rid report" "said_turn report = Some (route, t)"
  shows "recorded s OPERATION_COMPOSE rid (compose_outcome route t) \<and> route \<in> {COMPOSE_ROUTE_START, COMPOSE_ROUTE_STEER}"
  using assms by (cases report) (auto simp: said_turn_def compose_true_def split: if_splits)

lemma recorded_unique: "recorded s kind rid a \<Longrightarrow> recorded s kind rid b \<Longrightarrow> a = b"
  by (auto simp: recorded_def)

definition turn_of :: "link_asks \<Rightarrow> string \<Rightarrow> string \<times> string" where
  "turn_of s rid = (SOME rt. recorded s OPERATION_COMPOSE rid (compose_outcome (fst rt) (snd rt)) \<and>
     fst rt \<in> {COMPOSE_ROUTE_START, COMPOSE_ROUTE_STEER})"

lemma turn_of_said:
  assumes "compose_true s rid report" "said_turn report = Some rt"
  shows "rt = turn_of s rid"
proof -
  obtain route t where rt: "rt = (route, t)" by (cases rt)
  note rec = said_turn_recorded [OF assms(1) assms(2) [unfolded rt]]
  from someI [of "\<lambda>rt. recorded s OPERATION_COMPOSE rid (compose_outcome (fst rt) (snd rt)) \<and>
      fst rt \<in> {COMPOSE_ROUTE_START, COMPOSE_ROUTE_STEER}" "(route, t)"] rec
  have "recorded s OPERATION_COMPOSE rid (compose_outcome (fst (turn_of s rid)) (snd (turn_of s rid)))"
    "fst (turn_of s rid) \<in> {COMPOSE_ROUTE_START, COMPOSE_ROUTE_STEER}"
    by (simp_all add: turn_of_def)
  with rec compose_outcome_inj recorded_unique show ?thesis unfolding rt by (metis prod.collapse)
qed

text \<open>C22. What a caller is told is what the record holds. Whoever was told that a message started or
  joined a turn, or that a stop stopped one, was told what the ledger holds under that id, and keeps
  holding; and one id has one turn: every caller under it, the first and each retry, was told the same
  route and the same turn. An outcome the ledger does not hold is never told as one.\<close>
theorem what_is_told_is_recorded:
  "list_all (\<lambda>(rid, caller, report). compose_true (asks_run uid v events) rid report) (la_told_composes (asks_run uid v events)) \<and>
   list_all (\<lambda>(rid, caller, report). stop_true (asks_run uid v events) rid report) (la_told_interrupts (asks_run uid v events)) \<and>
   (\<exists>turn. list_all (\<lambda>(rid, caller, report). case said_turn report of None \<Rightarrow> True | Some rt \<Rightarrow> rt = turn rid)
      (la_told_composes (asks_run uid v events)))"
proof -
  have t: "truthful (asks_run uid v events)" by (rule run_true)
  then have "list_all (\<lambda>(rid, caller, report). case said_turn report of None \<Rightarrow> True | Some rt \<Rightarrow> rt = turn_of (asks_run uid v events) rid)
      (la_told_composes (asks_run uid v events))"
    by (auto simp: truthful_def list_all_iff split: option.split intro: turn_of_said)
  with t show ?thesis by (auto simp: truthful_def list_all_iff)
qed

end
