(* ===== verification/Ccd_Attach.thy ===== *)
theory Ccd_Attach
  imports Ccd_Link
begin

text \<open>
  How the link to a session's broker stays on the session's thread (\<open>ccd/src/codex_link.rs\<close>,
  \<open>serve_connection\<close> and the \<open>Connection\<close> methods it calls): binding, resuming, the debts a resume is to pay,
  following a switch, falling back, and what is carried to the next connection.

  Time is a number of milliseconds and is given with each step. What the adapter reads out of a frame
  (\<open>codex_adapter.rs\<close>) and what the event log answers are given too.
\<close>

section \<open>State\<close>

definition RESUME_BUDGET :: int where "RESUME_BUDGET = 60000"
definition COMPOSE_BUDGET :: int where "COMPOSE_BUDGET = 15000"
definition ATTACH_BACKOFF_MIN :: int where "ATTACH_BACKOFF_MIN = 500"
definition ATTACH_BACKOFF_MAX :: int where "ATTACH_BACKOFF_MAX = 30000"
definition ADOPTION_RETRY_DELAY :: int where "ADOPTION_RETRY_DELAY = 250"
definition ADOPTION_RETRIES :: nat where "ADOPTION_RETRIES = 5"
definition OWED_RECOVERY_DEPTH :: nat where "OWED_RECOVERY_DEPTH = ADOPTION_RETRIES"

record carried =
  ca_adopted :: "string option"
  ca_pending_candidate :: "string option"
  ca_fallback :: "string option"
  ca_hint :: "string option"
  ca_owed_recovery :: "string list"

definition is_informative :: "carried \<Rightarrow> bool" where
  "is_informative c \<longleftrightarrow> ca_adopted c \<noteq> None \<or> ca_pending_candidate c \<noteq> None \<or> ca_fallback c \<noteq> None \<or> ca_owed_recovery c \<noteq> []"

definition first_target :: "carried \<Rightarrow> string option" where
  "first_target c = or_else (or_else (ca_pending_candidate c) (ca_adopted c)) (ca_hint c)"

definition owe_recovery :: "string \<Rightarrow> carried \<Rightarrow> carried" where
  "owe_recovery thread_id c =
     (if thread_id \<in> set (ca_owed_recovery c) then c
      else c\<lparr>ca_owed_recovery := (if OWED_RECOVERY_DEPTH \<le> length (ca_owed_recovery c) then tl (ca_owed_recovery c)
        else ca_owed_recovery c) @ [thread_id]\<rparr>)"

definition discharge_recovery :: "string \<Rightarrow> carried \<Rightarrow> carried" where
  "discharge_recovery thread_id c = c\<lparr>ca_owed_recovery := filter (\<lambda>owed. owed \<noteq> thread_id) (ca_owed_recovery c)\<rparr>"

datatype turn_debt = AwaitingTerminal | AwaitingLaterTurn | Owed | SettledDebt

datatype attach =
    AtUnbound
  | AtAwaiting (at_id: int) (at_deadline: int) (at_next_delay: int) (at_target: string) (at_superseded: bool)
  | AtBackoff int int
  | AtAttached
  | AtRecovering int int string
  | AtRefused

text \<open>\<open>cn_resumes\<close> keeps the resume requests the connection has sent, by their id.\<close>

record conn =
  cn_visit :: visit
  cn_next_id :: int
  cn_debts :: "(string \<times> string, turn_debt) hash"
  cn_unadopted_retries :: nat
  cn_not_ready_thread :: "string option"
  cn_start_in_flight :: "(string \<times> int) option"
  cn_resume_due_now :: bool
  cn_fallback_due :: bool
  cn_switch_candidate :: "string option"
  cn_carried_target :: "string option"
  cn_carried :: carried
  cn_adopted_thread :: "string option"
  cn_running_turn :: "running_turn option"
  cn_resume_target :: "string option"
  cn_owed_recovery :: "string list"
  cn_attach :: attach
  cn_resumes :: "(int \<times> string) list"

definition due_now :: "int \<Rightarrow> attach" where
  "due_now now = AtBackoff now ATTACH_BACKOFF_MIN"

definition conn_bound :: "conn \<Rightarrow> string option" where
  "conn_bound c = vi_thread_id (cn_visit c)"

definition start_in_flight_target :: "int \<Rightarrow> conn \<Rightarrow> string option" where
  "start_in_flight_target now c = (case cn_start_in_flight c of
     Some (thread_id, deadline) \<Rightarrow> if now < deadline then Some thread_id else None | None \<Rightarrow> None)"

definition expire_start_in_flight :: "int \<Rightarrow> conn \<Rightarrow> conn" where
  "expire_start_in_flight now c = (case cn_start_in_flight c of
     Some (thread_id, deadline) \<Rightarrow> if now < deadline then c else c\<lparr>cn_start_in_flight := None\<rparr> | None \<Rightarrow> c)"

definition subscribed_to :: "string \<Rightarrow> conn \<Rightarrow> bool" where
  "subscribed_to thread_id c \<longleftrightarrow> cn_adopted_thread c = Some thread_id \<and> conn_bound c = Some thread_id"

section \<open>Debts\<close>

definition owes_recovery_on :: "string \<Rightarrow> conn \<Rightarrow> bool" where
  "owes_recovery_on thread_id c \<longleftrightarrow> list_ex (\<lambda>((t, turn), debt). t = thread_id \<and> debt \<noteq> SettledDebt) (cn_debts c)"

definition follow_up_owed :: "conn \<Rightarrow> bool" where
  "follow_up_owed c \<longleftrightarrow> (case conn_bound c of None \<Rightarrow> False
     | Some thread_id \<Rightarrow> list_ex (\<lambda>((t, turn), debt). t = thread_id \<and> debt = Owed) (cn_debts c))"

definition on_debts :: "(string \<Rightarrow> string \<Rightarrow> turn_debt \<Rightarrow> turn_debt) \<Rightarrow> conn \<Rightarrow> conn" where
  "on_debts f c = c\<lparr>cn_debts := map (\<lambda>((t, turn), debt). ((t, turn), f t turn debt)) (cn_debts c)\<rparr>"

definition unsettle_debts :: "string \<Rightarrow> conn \<Rightarrow> conn" where
  "unsettle_debts target = on_debts (\<lambda>t turn debt. if t = target \<and> debt = SettledDebt then Owed else debt)"

definition launch_follow_up :: "string \<Rightarrow> conn \<Rightarrow> conn" where
  "launch_follow_up target = on_debts (\<lambda>t turn debt. if t = target \<and> debt = Owed then SettledDebt else debt)"

definition settle_debts_on :: "string \<Rightarrow> conn \<Rightarrow> conn" where
  "settle_debts_on thread_id = on_debts (\<lambda>t turn debt. if t = thread_id then SettledDebt else debt)"

text \<open>\<open>entry(k).or_insert(d)\<close>.\<close>

definition debt_entry :: "string \<times> string \<Rightarrow> turn_debt \<Rightarrow> conn \<Rightarrow> conn" where
  "debt_entry k d c = (case hget (cn_debts c) k of None \<Rightarrow> c\<lparr>cn_debts := hput k d (cn_debts c)\<rparr> | Some v \<Rightarrow> c)"

section \<open>The visit moves\<close>

definition move_visit_to :: "string \<Rightarrow> conn \<Rightarrow> conn" where
  "move_visit_to thread_id c =
     c\<lparr>cn_visit := (cn_visit c)\<lparr>vi_generation := vi_generation (cn_visit c) + 1, vi_thread_id := Some thread_id\<rparr>,
       cn_running_turn := None\<rparr>"

definition revert_visit_to :: "string \<Rightarrow> conn \<Rightarrow> conn" where
  "revert_visit_to previous c =
     (if conn_bound c = Some previous then c else (move_visit_to previous c)\<lparr>cn_switch_candidate := None\<rparr>)"

definition on_carried :: "(carried \<Rightarrow> carried) \<Rightarrow> conn \<Rightarrow> conn" where
  "on_carried f c = c\<lparr>cn_carried := f (cn_carried c)\<rparr>"

definition bind_or_follow :: "json \<Rightarrow> conn \<Rightarrow> conn" where
  "bind_or_follow frame c =
     (if \<not> announces_a_session_thread frame then c
      else (case frame_thread_id frame of
          Named i \<Rightarrow> (case conn_bound c of
              None \<Rightarrow> on_carried (\<lambda>k. k\<lparr>ca_pending_candidate := Some i\<rparr>) (c\<lparr>cn_visit := (cn_visit c)\<lparr>vi_thread_id := Some i\<rparr>\<rparr>)
            | Some bound \<Rightarrow> if bound = i then c else move_visit_to i c)
        | _ \<Rightarrow> c))"

definition apply_switch_candidate :: "conn \<Rightarrow> string option \<times> conn" where
  "apply_switch_candidate c = (case cn_switch_candidate c of
     None \<Rightarrow> (None, c)
   | Some candidate \<Rightarrow>
       let c = c\<lparr>cn_switch_candidate := None\<rparr> in
       (case or_else (conn_bound c) (cn_carried_target c) of
          None \<Rightarrow> (None, c)
        | Some retired \<Rightarrow>
            if retired = candidate then (None, c)
            else (Some retired, (move_visit_to candidate c)\<lparr>cn_unadopted_retries := 0, cn_fallback_due := False\<rparr>)))"

datatype switch = SwitchPassed | SwitchHeld | SwitchNovel

definition note_switch_candidate :: "json \<Rightarrow> conn \<Rightarrow> switch \<times> conn" where
  "note_switch_candidate frame c =
     (if \<not> announces_a_session_thread frame then (SwitchPassed, c)
      else (case frame_thread_id frame of
          Named i \<Rightarrow>
            if conn_bound c = None \<and> cn_carried_target c = None then (SwitchPassed, bind_or_follow frame c)
            else if or_else (conn_bound c) (cn_carried_target c) = Some i then
              (let c = (if conn_bound c = None then bind_or_follow frame c else c) in
               (SwitchPassed, if cn_switch_candidate c = None then c
                 else on_carried (\<lambda>k. k\<lparr>ca_pending_candidate := None\<rparr>) (c\<lparr>cn_switch_candidate := None\<rparr>)))
            else
              (if cn_switch_candidate c \<noteq> Some i then SwitchNovel else SwitchHeld,
               on_carried (\<lambda>k. k\<lparr>ca_pending_candidate := Some i,
                   ca_fallback := (if ca_fallback k = None then ca_adopted k else ca_fallback k)\<rparr>)
                 (c\<lparr>cn_switch_candidate := Some i\<rparr>))
        | _ \<Rightarrow> (SwitchPassed, c)))"

section \<open>Facts read from frames\<close>

text \<open>A fact of the adapter: a turn's end with its turn and status and whether the log kept it, or another.\<close>

datatype minted = MintedEnd "string option" "string option" bool | MintedOther

definition note_turn_start :: "json \<Rightarrow> conn \<Rightarrow> conn" where
  "note_turn_start frame c =
     (if str_at [''method''] frame \<noteq> Some ''turn/started'' then c
      else (case nonempty_str (Option.bind (jget ''params'' frame) (jget ''threadId'')) of
          None \<Rightarrow> c
        | Some i \<Rightarrow>
            if conn_bound c \<noteq> Some i then c
            else (case str_at [''params'', ''turn'', ''id''] frame of
                Some turn_id \<Rightarrow>
                  if turn_id \<noteq> [] \<and> str_at [''params'', ''turn'', ''status''] frame = Some LIVE_TURN_IN_PROGRESS
                  then c\<lparr>cn_running_turn := Some \<lparr>rt_thread_id = i, rt_generation = vi_generation (cn_visit c), rt_turn_id = turn_id\<rparr>\<rparr>
                  else c
              | None \<Rightarrow> c)))"

definition note_terminal :: "int \<Rightarrow> minted \<Rightarrow> conn \<Rightarrow> conn" where
  "note_terminal now pending c = (case (pending, conn_bound c) of
     (MintedEnd (Some turn) status filed, Some thread_id) \<Rightarrow>
       if status \<noteq> Some ''completed'' then
         (if hget (cn_debts c) (thread_id, turn) = Some AwaitingTerminal
          then c\<lparr>cn_debts := hput (thread_id, turn) AwaitingLaterTurn (cn_debts c)\<rparr> else c)
       else
         let c = (if start_in_flight_target now c = Some thread_id then c\<lparr>cn_start_in_flight := None\<rparr> else c) in
         (if hget (cn_debts c) (thread_id, turn) = Some AwaitingTerminal
          then c\<lparr>cn_debts := hput (thread_id, turn) Owed (cn_debts c)\<rparr> else c)
   | _ \<Rightarrow> c)"

definition note_later_turn :: "minted \<Rightarrow> conn \<Rightarrow> conn" where
  "note_later_turn pending c = (case (pending, conn_bound c) of
     (MintedEnd (Some turn) status True, Some thread_id) \<Rightarrow>
       if status \<noteq> Some ''completed'' then c
       else on_debts (\<lambda>t u debt. if t = thread_id \<and> debt = AwaitingLaterTurn then Owed else debt) c
   | _ \<Rightarrow> c)"

definition record_minted :: "int \<Rightarrow> minted list \<Rightarrow> conn \<Rightarrow> conn" where
  "record_minted now minted c = fold (\<lambda>m c. note_later_turn m (note_terminal now m c)) minted c"

text \<open>Of what a frame says of approvals and terminals, what concerns the running turn.\<close>

definition observe_approval :: "json \<Rightarrow> conn \<Rightarrow> conn" where
  "observe_approval frame c =
     (if str_at [''method''] frame \<noteq> Some ''turn/completed'' then c
      else (case jget ''params'' frame of None \<Rightarrow> c | Some params \<Rightarrow>
        (case (str_at [''threadId''] params, str_at [''turn'', ''id''] params, str_at [''turn'', ''status''] params) of
           (Some thread_id, Some turn_id, Some status) \<Rightarrow>
             (case cn_running_turn c of
                Some r \<Rightarrow> if rt_thread_id r = thread_id \<and> rt_turn_id r = turn_id then c\<lparr>cn_running_turn := None\<rparr> else c
              | None \<Rightarrow> c)
         | _ \<Rightarrow> c)))"

definition observe_notification :: "int \<Rightarrow> json \<Rightarrow> minted list \<Rightarrow> conn \<Rightarrow> conn" where
  "observe_notification now frame minted c = (case note_switch_candidate frame c of (switch, c) \<Rightarrow>
     if switch \<noteq> SwitchPassed then record_minted now minted (note_turn_start frame c)
     else if \<not> admits (cn_visit c) \<lparr>in_generation = vi_generation (cn_visit c), in_upstream_epoch = vi_upstream_epoch (cn_visit c)\<rparr>
         (frame_thread_id frame) then c
     else if str_at [''method''] frame = Some ''turn/completed''
       then observe_approval frame (record_minted now minted (note_turn_start frame c))
     else record_minted now minted (note_turn_start frame (observe_approval frame c)))"

section \<open>The answer to a resume\<close>

text \<open>
  What the adapter makes of an answer, and what the log and the database say while it is taken in:
  whether every described fact is filed, and for a running turn whether its terminal is (\<open>None\<close>: unreadable).
\<close>

record resume_seed =
  sd_running_turn_ids :: "string list"
  sd_unsettled_turn_id :: "string option"
  sd_placed :: bool
  sd_filed :: bool
  sd_terminal_filed :: "string \<Rightarrow> bool option"

definition seed_running_turn :: "resume_seed \<Rightarrow> string \<Rightarrow> conn \<Rightarrow> conn" where
  "seed_running_turn seed thread_id c = (case sd_running_turn_ids seed of
     [turn_id] \<Rightarrow>
       if sd_terminal_filed seed turn_id = Some False
       then c\<lparr>cn_running_turn := Some \<lparr>rt_thread_id = thread_id, rt_generation = vi_generation (cn_visit c), rt_turn_id = turn_id\<rparr>\<rparr>
       else c
   | _ \<Rightarrow> c)"

text \<open>\<open>False\<close> is an error, which ends the connection.\<close>

definition attach_from_seed :: "resume_seed \<Rightarrow> string \<Rightarrow> conn \<Rightarrow> bool \<times> conn" where
  "attach_from_seed seed thread_id c =
     (let c = c\<lparr>cn_visit := (cn_visit c)\<lparr>vi_thread_id := Some thread_id\<rparr>, cn_not_ready_thread := None, cn_start_in_flight := None\<rparr> in
      if \<not> sd_placed seed \<or> \<not> sd_filed seed then (False, c)
      else
        let c = c\<lparr>cn_unadopted_retries := 0, cn_fallback_due := False, cn_adopted_thread := Some thread_id\<rparr>;
            c = on_carried (\<lambda>k. k\<lparr>ca_adopted := Some thread_id, ca_pending_candidate := None, ca_fallback := None\<rparr>) c;
            c = fold (\<lambda>turn. debt_entry (thread_id, turn) AwaitingTerminal) (sd_running_turn_ids seed) c;
            c = (case sd_unsettled_turn_id seed of
                   None \<Rightarrow> c
                 | Some turn \<Rightarrow>
                     let c = debt_entry (thread_id, turn) AwaitingLaterTurn c in
                     if hget (cn_debts c) (thread_id, turn) = Some AwaitingTerminal
                     then c\<lparr>cn_debts := hput (thread_id, turn) AwaitingLaterTurn (cn_debts c)\<rparr> else c)
        in (True, seed_running_turn seed thread_id c))"

definition settle_resume ::
  "int \<Rightarrow> json \<Rightarrow> string \<Rightarrow> int \<Rightarrow> bool \<Rightarrow> resume_seed option \<Rightarrow> conn \<Rightarrow> attach option \<times> conn" where
  "settle_resume now frame requested next_delay has_fallback seed c =
     (let backed_off = AtBackoff (now + next_delay) (min (next_delay * 2) ATTACH_BACKOFF_MAX) in
      if is_measured_not_ready frame requested then
        (if start_in_flight_target now c = Some requested then (Some backed_off, c)
         else (Some backed_off, c\<lparr>cn_not_ready_thread := Some requested\<rparr>))
      else if is_broker_policy_refusal frame \<and> cn_unadopted_retries c < ADOPTION_RETRIES then
        (Some (AtBackoff (now + ADOPTION_RETRY_DELAY) next_delay), c\<lparr>cn_unadopted_retries := cn_unadopted_retries c + 1\<rparr>)
      else if is_broker_policy_refusal frame \<and> has_fallback then
        (Some (AtBackoff (now + ADOPTION_RETRY_DELAY) next_delay), c\<lparr>cn_unadopted_retries := 0, cn_fallback_due := True\<rparr>)
      else (case (if jget ''error'' frame = None \<and> jget ''result'' frame \<noteq> None then seed else None) of
          Some sd \<Rightarrow> (case attach_from_seed sd requested c of
              (True, c) \<Rightarrow> (Some AtAttached, c)
            | (False, c) \<Rightarrow> (None, c))
        | None \<Rightarrow>
            (Some (if start_in_flight_target now c = Some requested then backed_off else AtRefused), c)))"

definition recover_from :: "json \<Rightarrow> string \<Rightarrow> resume_seed option \<Rightarrow> conn \<Rightarrow> bool \<times> conn" where
  "recover_from frame thread_id seed c =
     (case (if jget ''error'' frame = None \<and> jget ''result'' frame \<noteq> None then seed else None) of
        None \<Rightarrow> (True, settle_debts_on thread_id c)
      | Some sd \<Rightarrow>
          if \<not> sd_placed sd then (False, settle_debts_on thread_id c)
          else
            let unsettled = sd_unsettled_turn_id sd;
                c = on_debts (\<lambda>t turn debt. if t = thread_id \<and> turn \<notin> set (sd_running_turn_ids sd)
                      then (if unsettled = Some turn then (if debt = Owed then Owed else AwaitingLaterTurn) else SettledDebt)
                      else debt) c;
                c = (case unsettled of None \<Rightarrow> c | Some turn \<Rightarrow> debt_entry (thread_id, turn) AwaitingLaterTurn c)
            in (sd_filed sd \<and> sd_running_turn_ids sd = [] \<and> unsettled = None, c))"

section \<open>The loop\<close>

text \<open>A held switch is applied whenever no resume is outstanding.\<close>

definition apply_held_candidate :: "int \<Rightarrow> conn \<Rightarrow> conn" where
  "apply_held_candidate now c =
     (if cn_switch_candidate c = None then c
      else (case apply_switch_candidate c of
          (None, c) \<Rightarrow> c
        | (Some retired, c) \<Rightarrow>
            let target = (case conn_bound c of Some b \<Rightarrow> b | None \<Rightarrow> []);
                c = on_carried (\<lambda>k. k\<lparr>ca_fallback := Some retired, ca_pending_candidate := Some target\<rparr>) c;
                c = (if owes_recovery_on retired c then on_carried (owe_recovery retired) c else c)
            in c\<lparr>cn_resume_target := Some target, cn_attach := due_now now\<rparr>))"

definition leaving_recovery :: "int \<Rightarrow> conn \<Rightarrow> conn" where
  "leaving_recovery now c =
     apply_held_candidate now (c\<lparr>cn_attach := (if follow_up_owed c then due_now now else AtAttached)\<rparr>)"

definition send_resume :: "string \<Rightarrow> conn \<Rightarrow> int \<times> conn" where
  "send_resume thread_id c =
     (cn_next_id c, c\<lparr>cn_next_id := cn_next_id c + 1, cn_resumes := cn_resumes c @ [(cn_next_id c, thread_id)]\<rparr>)"

definition ask_owed :: "int \<Rightarrow> conn \<Rightarrow> conn" where
  "ask_owed now c = (case (cn_attach c, cn_owed_recovery c) of
     (AtAttached, thread_id # rest) \<Rightarrow>
       (case send_resume thread_id (c\<lparr>cn_owed_recovery := rest\<rparr>) of
          (i, c) \<Rightarrow> c\<lparr>cn_attach := AtRecovering i (now + RESUME_BUDGET) thread_id\<rparr>)
   | _ \<Rightarrow> c)"

definition hurry_resume :: "int \<Rightarrow> conn \<Rightarrow> conn" where
  "hurry_resume now c =
     (let c' = c\<lparr>cn_resume_due_now := False\<rparr> in
      case (cn_resume_due_now c, cn_attach c) of (True, AtBackoff until next_delay) \<Rightarrow> c'\<lparr>cn_attach := due_now now\<rparr> | _ \<Rightarrow> c')"

definition take_fallback :: "conn \<Rightarrow> conn" where
  "take_fallback c =
     (if \<not> cn_fallback_due c then c
      else
        let c' = on_carried (\<lambda>k. k\<lparr>ca_fallback := None\<rparr>) (c\<lparr>cn_fallback_due := False\<rparr>) in
        (case ca_fallback (cn_carried c) of
           None \<Rightarrow> c'
         | Some previous \<Rightarrow>
             on_carried (\<lambda>k. k\<lparr>ca_pending_candidate := None, ca_owed_recovery := filter (\<lambda>owed. owed \<noteq> previous) (ca_owed_recovery k)\<rparr>)
               ((revert_visit_to previous c')\<lparr>cn_resume_target := Some previous\<rparr>)))"

definition ask_again :: "int \<Rightarrow> conn \<Rightarrow> conn" where
  "ask_again now c = (case cn_attach c of
     AtBackoff until next_delay \<Rightarrow>
       if now < until then c
       else
         let c = take_fallback c in
         (case cn_resume_target c of
            Some target \<Rightarrow> (case send_resume target c of
                (i, c) \<Rightarrow> (launch_follow_up target c)\<lparr>cn_attach := AtAwaiting i (now + RESUME_BUDGET) next_delay target False\<rparr>)
          | None \<Rightarrow> c\<lparr>cn_attach := AtUnbound\<rparr>)
   | _ \<Rightarrow> c)"

text \<open>The top of the loop, up to the wait. \<open>False\<close>: the connection ends.\<close>

definition loop_head :: "int \<Rightarrow> conn \<Rightarrow> bool \<times> conn" where
  "loop_head now c =
     (let c = ask_again now (hurry_resume now (ask_owed now c)) in
      case cn_attach c of
        AtAwaiting i deadline next_delay target superseded \<Rightarrow> if deadline \<le> now then (False, c) else (True, expire_start_in_flight now c)
      | AtRecovering i deadline thread_id \<Rightarrow>
          (True, expire_start_in_flight now
            (if deadline \<le> now then leaving_recovery now (on_carried (discharge_recovery thread_id) c) else c))
      | _ \<Rightarrow> (True, expire_start_in_flight now c))"

text \<open>Until when the loop waits for the attach, if it does not wait for the next frame alone.\<close>

definition attach_deadline :: "attach \<Rightarrow> int option" where
  "attach_deadline a = (case a of
     AtAwaiting i deadline next_delay target superseded \<Rightarrow> Some deadline
   | AtRecovering i deadline thread_id \<Rightarrow> Some deadline
   | AtBackoff until next_delay \<Rightarrow> Some until
   | _ \<Rightarrow> None)"

text \<open>A new binding re-targets the attach and supersedes a resume that asks about another thread.\<close>

definition follow_binding :: "int \<Rightarrow> conn \<Rightarrow> conn" where
  "follow_binding now c = (case conn_bound c of
     None \<Rightarrow> c
   | Some bound \<Rightarrow>
       let c = c\<lparr>cn_resume_target := Some bound\<rparr> in
       (case cn_attach c of
          AtUnbound \<Rightarrow> c\<lparr>cn_attach := due_now now\<rparr>
        | AtAwaiting i deadline next_delay target superseded \<Rightarrow>
            c\<lparr>cn_attach := AtAwaiting i deadline next_delay target (superseded \<or> target \<noteq> bound)\<rparr>
        | _ \<Rightarrow> c))"

definition is_our_response :: "json \<Rightarrow> conn \<Rightarrow> bool" where
  "is_our_response frame c \<longleftrightarrow> frame_kind_of frame = ResponseFrame \<and> (case cn_attach c of
     AtAwaiting i deadline next_delay target superseded \<Rightarrow> Option.bind (jget ''id'' frame) as_i64 = Some i
   | AtRecovering i deadline thread_id \<Rightarrow> Option.bind (jget ''id'' frame) as_i64 = Some i
   | _ \<Rightarrow> False)"

text \<open>The answer to a resume that is awaited.\<close>

definition answer_awaited :: "int \<Rightarrow> json \<Rightarrow> resume_seed option \<Rightarrow> int \<Rightarrow> string \<Rightarrow> bool \<Rightarrow> conn \<Rightarrow> bool \<times> conn" where
  "answer_awaited now frame seed next_delay target superseded c =
     (case (if superseded then (Some (due_now now), c)
            else (case settle_resume now frame target next_delay (ca_fallback (cn_carried c) \<noteq> None) seed c of
                (None, c') \<Rightarrow> (None, c')
              | (Some settled, c') \<Rightarrow>
                  let settled = (if subscribed_to target c \<and> settled = AtRefused then AtAttached else settled) in
                  (Some settled, if settled = AtAttached then c' else unsettle_debts target c'))) of
        (None, c) \<Rightarrow> (False, c)
      | (Some settled, c) \<Rightarrow>
          let c = c\<lparr>cn_attach := settled\<rparr> in
          (True, if cn_adopted_thread c = Some target then c\<lparr>cn_owed_recovery := ca_owed_recovery (cn_carried c)\<rparr> else c))"

definition after_frame :: "int \<Rightarrow> conn \<Rightarrow> bool \<times> conn" where
  "after_frame now c = (case cn_attach c of
     AtRefused \<Rightarrow> (False, c)
   | _ \<Rightarrow>
       let c = (case cn_attach c of
             AtAwaiting i deadline next_delay target superseded \<Rightarrow> c
           | AtRecovering i deadline thread_id \<Rightarrow> c
           | _ \<Rightarrow> apply_held_candidate now c)
       in (True, if follow_up_owed c \<and> cn_attach c = AtAttached then c\<lparr>cn_attach := due_now now\<rparr> else c))"

text \<open>One text frame. \<open>False\<close>: the connection ends.\<close>

definition on_frame :: "int \<Rightarrow> json \<Rightarrow> minted list \<Rightarrow> resume_seed option \<Rightarrow> conn \<Rightarrow> bool \<times> conn" where
  "on_frame now frame minted seed c =
     (if (case cn_attach c of AtAwaiting i deadline next_delay target superseded \<Rightarrow> deadline \<le> now | _ \<Rightarrow> False) then (False, c)
      else
        let ours = is_our_response frame c;
            c = (if \<not> ours \<and> frame_kind_of frame = NotificationFrame then observe_notification now frame minted c else c);
            c = follow_binding now c
        in case (ours, cn_attach c) of
             (True, AtRecovering i deadline thread_id) \<Rightarrow>
               (case recover_from frame thread_id seed c of
                  (settled, c) \<Rightarrow> (True, leaving_recovery now (if settled then on_carried (discharge_recovery thread_id) c else c)))
           | (True, AtAwaiting i deadline next_delay target superseded) \<Rightarrow>
               (case answer_awaited now frame seed next_delay target superseded c of
                  (False, c) \<Rightarrow> (False, c) | (True, c) \<Rightarrow> after_frame now c)
           | _ \<Rightarrow> after_frame now c)"

text \<open>A connection as it starts, before the handshake, and behind it.\<close>

definition new_conn :: "64 word \<Rightarrow> 64 word \<Rightarrow> carried \<Rightarrow> conn" where
  "new_conn generation epoch k =
     \<lparr>cn_visit = \<lparr>vi_generation = generation, vi_upstream_epoch = epoch, vi_thread_id = None\<rparr>,
      cn_next_id = 1, cn_debts = [], cn_unadopted_retries = 0, cn_not_ready_thread = None, cn_start_in_flight = None,
      cn_resume_due_now = False, cn_fallback_due = False, cn_switch_candidate = ca_pending_candidate k,
      cn_carried_target = ca_adopted k, cn_carried = k, cn_adopted_thread = None, cn_running_turn = None,
      cn_resume_target = first_target k, cn_owed_recovery = [], cn_attach = AtUnbound, cn_resumes = []\<rparr>"

definition handshaken :: "int \<Rightarrow> (int \<times> json \<times> minted list) list \<Rightarrow> conn \<Rightarrow> conn" where
  "handshaken now frames c =
     (let c = fold (\<lambda>(at, frame, minted) c. if frame_kind_of frame = NotificationFrame then observe_notification at frame minted c else c)
                frames (c\<lparr>cn_next_id := cn_next_id c + 1\<rparr>);
          c = (case conn_bound c of Some b \<Rightarrow> c\<lparr>cn_resume_target := Some b\<rparr> | None \<Rightarrow> c)
      in c\<lparr>cn_attach := (if cn_resume_target c \<noteq> None then due_now now else AtUnbound)\<rparr>)"

section \<open>The link\<close>

text \<open>
  What the phone's messages do to the connection besides (\<open>compose_turn\<close>, \<open>note_compose_response\<close>): a start
  written on the proof that the thread has none spends the proof, a refused start gives it back, an accepted
  one makes the resume due.
\<close>

definition spend_proof :: "int \<Rightarrow> string \<Rightarrow> conn \<Rightarrow> conn" where
  "spend_proof now start_thread c =
     (if cn_not_ready_thread c = Some start_thread
      then c\<lparr>cn_not_ready_thread := None, cn_start_in_flight := Some (start_thread, now + COMPOSE_BUDGET)\<rparr> else c)"

definition give_proof_back :: "int \<Rightarrow> string \<Rightarrow> conn \<Rightarrow> conn" where
  "give_proof_back now held_thread c =
     (if start_in_flight_target now c = Some held_thread
      then c\<lparr>cn_start_in_flight := None, cn_not_ready_thread := Some held_thread\<rparr> else c)"

definition start_accepted :: "int \<Rightarrow> string \<Rightarrow> conn \<Rightarrow> conn" where
  "start_accepted now held_thread c =
     (if start_in_flight_target now c = Some held_thread then c\<lparr>cn_resume_due_now := True\<rparr> else c)"

datatype link_event =
    PassesTheTop int
  | Reads int json "minted list" "resume_seed option"
  | Requests
  | StartsTurn int string
  | StartRefused int string
  | StartAccepted int string

fun link_step :: "link_event \<Rightarrow> conn \<Rightarrow> bool \<times> conn" where
  "link_step (PassesTheTop now) c = loop_head now c"
| "link_step (Reads now frame minted seed) c = on_frame now frame minted seed c"
| "link_step Requests c = (True, c\<lparr>cn_next_id := cn_next_id c + 1\<rparr>)"
| "link_step (StartsTurn now t) c = (True, spend_proof now t (c\<lparr>cn_next_id := cn_next_id c + 1\<rparr>))"
| "link_step (StartRefused now t) c = (True, give_proof_back now t c)"
| "link_step (StartAccepted now t) c = (True, start_accepted now t c)"

text \<open>The state after the steps, up to the one that ends the connection.\<close>

fun link_run :: "link_event list \<Rightarrow> conn \<Rightarrow> conn" where
  "link_run [] c = c"
| "link_run (ev # evs) c = (case link_step ev c of (True, c') \<Rightarrow> link_run evs c' | (False, c') \<Rightarrow> c')"

text \<open>
  The life of a link: connections one after the other, each on the next upstream epoch and with what the one
  before it carried. A connection's script is its handshake and its steps.
\<close>

type_synonym script = "int \<times> (int \<times> json \<times> minted list) list \<times> link_event list"

definition connection :: "64 word \<Rightarrow> 64 word \<Rightarrow> carried \<Rightarrow> script \<Rightarrow> conn" where
  "connection generation epoch k s = (case s of (now, shake, evs) \<Rightarrow>
     link_run evs (handshaken now shake (new_conn generation epoch k)))"

fun link_life :: "64 word \<Rightarrow> 64 word \<Rightarrow> carried \<Rightarrow> script list \<Rightarrow> carried" where
  "link_life generation epoch k [] = k"
| "link_life generation epoch k (s # ss) =
     link_life generation (epoch + 1) (cn_carried (connection generation (epoch + 1) k s)) ss"

definition first_carried :: "string option \<Rightarrow> carried" where
  "first_carried hint =
     \<lparr>ca_adopted = None, ca_pending_candidate = None, ca_fallback = None, ca_hint = hint, ca_owed_recovery = []\<rparr>"

end
