(* ===== verification/Ccd_Attach_Frame.thy ===== *)
theory Ccd_Attach_Frame
  imports Ccd_Attach
begin

text \<open>
  What the operations of a link's connection leave alone, and the invariant of its attach: a generation is one
  thread's, the running turn is the visit's, and an answer that is still wanted is to a question about the target.
\<close>

section \<open>What an operation leaves alone\<close>

text \<open>A connection less its debts, its running turn and what it knows of starts.\<close>

definition rest_of :: "conn \<Rightarrow> conn" where
  "rest_of c = c\<lparr>cn_debts := [], cn_running_turn := None, cn_start_in_flight := None, cn_not_ready_thread := None\<rparr>"

lemma rest_of_fields:
  assumes "rest_of c' = rest_of c"
  shows "cn_visit c' = cn_visit c" "cn_next_id c' = cn_next_id c" "cn_unadopted_retries c' = cn_unadopted_retries c"
    "cn_resume_due_now c' = cn_resume_due_now c" "cn_fallback_due c' = cn_fallback_due c"
    "cn_switch_candidate c' = cn_switch_candidate c" "cn_carried_target c' = cn_carried_target c"
    "cn_carried c' = cn_carried c" "cn_adopted_thread c' = cn_adopted_thread c" "cn_resume_target c' = cn_resume_target c"
    "cn_owed_recovery c' = cn_owed_recovery c" "cn_attach c' = cn_attach c" "cn_resumes c' = cn_resumes c"
    "conn_bound c' = conn_bound c"
  using assms by (cases c; cases c'; simp add: rest_of_def conn_bound_def)+

lemma rest_of_updates [simp]:
  "rest_of (c\<lparr>cn_debts := d\<rparr>) = rest_of c" "rest_of (c\<lparr>cn_running_turn := r\<rparr>) = rest_of c"
  "rest_of (c\<lparr>cn_start_in_flight := f\<rparr>) = rest_of c" "rest_of (c\<lparr>cn_not_ready_thread := n\<rparr>) = rest_of c"
  by (simp_all add: rest_of_def)

lemma rest_of_on_debts [simp]: "rest_of (on_debts f c) = rest_of c"
  by (simp add: on_debts_def)

lemma rest_of_debt_entry [simp]: "rest_of (debt_entry k d c) = rest_of c"
  by (simp add: debt_entry_def split: option.split)

lemma rest_of_debts [simp]:
  "rest_of (unsettle_debts t c) = rest_of c" "rest_of (launch_follow_up t c) = rest_of c"
  "rest_of (settle_debts_on t c) = rest_of c"
  by (simp_all add: unsettle_debts_def launch_follow_up_def settle_debts_on_def)

lemma rest_of_expire [simp]: "rest_of (expire_start_in_flight now c) = rest_of c"
  by (simp add: expire_start_in_flight_def split: option.split prod.split)

lemma rest_of_note_turn_start [simp]: "rest_of (note_turn_start frame c) = rest_of c"
  by (simp add: note_turn_start_def split: option.split)

lemma rest_of_note_terminal [simp]: "rest_of (note_terminal now m c) = rest_of c"
  by (auto simp: note_terminal_def Let_def split: minted.split option.split)

lemma rest_of_note_later_turn [simp]: "rest_of (note_later_turn m c) = rest_of c"
  by (auto simp: note_later_turn_def split: minted.split option.split bool.split)

lemma rest_of_record_minted [simp]: "rest_of (record_minted now ms c) = rest_of c"
  unfolding record_minted_def by (induction ms arbitrary: c) simp_all

lemma rest_of_observe_approval [simp]: "rest_of (observe_approval frame c) = rest_of c"
  by (auto simp: observe_approval_def Let_def split: option.split)

lemma rest_of_seed_running_turn [simp]: "rest_of (seed_running_turn seed t c) = rest_of c"
  by (simp add: seed_running_turn_def split: list.split)

lemma rest_of_fold_debt_entry [simp]: "rest_of (fold (\<lambda>turn. debt_entry (t, turn) d) turns c) = rest_of c"
  by (induction turns arbitrary: c) simp_all

lemmas on_debts_fields [simp] = rest_of_fields [OF rest_of_on_debts]
lemmas debt_entry_fields [simp] = rest_of_fields [OF rest_of_debt_entry]
lemmas unsettle_fields [simp] = rest_of_fields [OF rest_of_debts(1)]
lemmas launch_fields [simp] = rest_of_fields [OF rest_of_debts(2)]
lemmas settle_debts_fields [simp] = rest_of_fields [OF rest_of_debts(3)]
lemmas expire_fields [simp] = rest_of_fields [OF rest_of_expire]
lemmas turn_start_fields [simp] = rest_of_fields [OF rest_of_note_turn_start]
lemmas record_minted_fields [simp] = rest_of_fields [OF rest_of_record_minted]
lemmas approval_fields [simp] = rest_of_fields [OF rest_of_observe_approval]
lemmas seed_running_fields [simp] = rest_of_fields [OF rest_of_seed_running_turn]
lemmas fold_debt_entry_fields [simp] = rest_of_fields [OF rest_of_fold_debt_entry]

lemma running_turn_kept [simp]:
  "cn_running_turn (on_debts f c) = cn_running_turn c"
  "cn_running_turn (debt_entry k d c) = cn_running_turn c"
  "cn_running_turn (unsettle_debts t c) = cn_running_turn c"
  "cn_running_turn (launch_follow_up t c) = cn_running_turn c"
  "cn_running_turn (settle_debts_on t c) = cn_running_turn c"
  "cn_running_turn (expire_start_in_flight now c) = cn_running_turn c"
  by (simp_all add: on_debts_def debt_entry_def unsettle_debts_def launch_follow_up_def settle_debts_on_def
      expire_start_in_flight_def split: option.split prod.split)

lemma running_turn_note_terminal [simp]: "cn_running_turn (note_terminal now m c) = cn_running_turn c"
  by (auto simp: note_terminal_def Let_def split: minted.split option.split)

lemma running_turn_note_later_turn [simp]: "cn_running_turn (note_later_turn m c) = cn_running_turn c"
  by (auto simp: note_later_turn_def split: minted.split option.split bool.split)

lemma running_turn_record_minted [simp]: "cn_running_turn (record_minted now ms c) = cn_running_turn c"
  unfolding record_minted_def by (induction ms arbitrary: c) simp_all

lemma running_turn_fold_debt_entry [simp]:
  "cn_running_turn (fold (\<lambda>turn. debt_entry (t, turn) d) turns c) = cn_running_turn c"
  by (induction turns arbitrary: c) simp_all

lemma on_carried_fields [simp]:
  "cn_visit (on_carried f c) = cn_visit c" "cn_next_id (on_carried f c) = cn_next_id c"
  "cn_unadopted_retries (on_carried f c) = cn_unadopted_retries c" "cn_fallback_due (on_carried f c) = cn_fallback_due c"
  "cn_switch_candidate (on_carried f c) = cn_switch_candidate c" "cn_carried_target (on_carried f c) = cn_carried_target c"
  "cn_carried (on_carried f c) = f (cn_carried c)" "cn_adopted_thread (on_carried f c) = cn_adopted_thread c"
  "cn_resume_target (on_carried f c) = cn_resume_target c" "cn_owed_recovery (on_carried f c) = cn_owed_recovery c"
  "cn_attach (on_carried f c) = cn_attach c" "cn_resumes (on_carried f c) = cn_resumes c"
  "cn_running_turn (on_carried f c) = cn_running_turn c" "conn_bound (on_carried f c) = conn_bound c"
  "cn_debts (on_carried f c) = cn_debts c"
  by (simp_all add: on_carried_def conn_bound_def)

lemma conn_bound_updates [simp]:
  "conn_bound (c\<lparr>cn_attach := a\<rparr>) = conn_bound c" "conn_bound (c\<lparr>cn_resume_target := t\<rparr>) = conn_bound c"
  "conn_bound (c\<lparr>cn_fallback_due := d\<rparr>) = conn_bound c" "conn_bound (c\<lparr>cn_switch_candidate := s\<rparr>) = conn_bound c"
  "conn_bound (c\<lparr>cn_next_id := n\<rparr>) = conn_bound c" "conn_bound (c\<lparr>cn_resumes := rs\<rparr>) = conn_bound c"
  "conn_bound (c\<lparr>cn_owed_recovery := q\<rparr>) = conn_bound c" "conn_bound (c\<lparr>cn_unadopted_retries := u\<rparr>) = conn_bound c"
  "conn_bound (c\<lparr>cn_resume_due_now := b\<rparr>) = conn_bound c" "conn_bound (c\<lparr>cn_adopted_thread := x\<rparr>) = conn_bound c"
  "conn_bound (c\<lparr>cn_visit := v\<rparr>) = vi_thread_id v" "conn_bound (c\<lparr>cn_not_ready_thread := y\<rparr>) = conn_bound c"
  "conn_bound (c\<lparr>cn_start_in_flight := z\<rparr>) = conn_bound c" "conn_bound (c\<lparr>cn_running_turn := r\<rparr>) = conn_bound c"
  "conn_bound (c\<lparr>cn_debts := e\<rparr>) = conn_bound c"
  by (simp_all add: conn_bound_def)

section \<open>Whose thread a generation is\<close>

text \<open>A visit that is kept, or given the thread it had none of; and one that at most moved once.\<close>

definition visit_kept :: "visit \<Rightarrow> visit \<Rightarrow> bool" where
  "visit_kept v v' \<longleftrightarrow> vi_upstream_epoch v' = vi_upstream_epoch v \<and> vi_generation v' = vi_generation v
     \<and> (vi_thread_id v = None \<or> vi_thread_id v' = vi_thread_id v)"

definition visit_follows :: "visit \<Rightarrow> visit \<Rightarrow> bool" where
  "visit_follows v v' \<longleftrightarrow> visit_kept v v'
     \<or> vi_upstream_epoch v' = vi_upstream_epoch v \<and> vi_generation v' = vi_generation v + 1"

lemma visit_kept_refl [simp]: "visit_kept v v"
  by (simp add: visit_kept_def)

lemma visit_kept_trans [trans]: "visit_kept u v \<Longrightarrow> visit_kept v w \<Longrightarrow> visit_kept u w"
  by (auto simp: visit_kept_def)

lemma visit_kept_follows: "visit_kept u v \<Longrightarrow> visit_follows v w \<Longrightarrow> visit_follows u w"
  by (auto simp: visit_kept_def visit_follows_def)

lemma visit_follows_refl [simp]: "visit_follows v v"
  by (simp add: visit_follows_def)

text \<open>The running turn is one of the visit the connection is on.\<close>

definition running_ok :: "conn \<Rightarrow> bool" where
  "running_ok c \<longleftrightarrow> (case cn_running_turn c of None \<Rightarrow> True
     | Some r \<Rightarrow> rt_generation r = vi_generation (cn_visit c) \<and> conn_bound c = Some (rt_thread_id r))"

lemma running_ok_kept:
  assumes "running_ok c" "visit_kept (cn_visit c) (cn_visit c')" "cn_running_turn c' = cn_running_turn c"
  shows "running_ok c'"
  using assms by (auto simp: running_ok_def visit_kept_def conn_bound_def split: option.splits)

lemma running_ok_cong:
  "cn_visit c' = cn_visit c \<Longrightarrow> cn_running_turn c' = cn_running_turn c \<Longrightarrow> running_ok c' = running_ok c"
  by (simp add: running_ok_def conn_bound_def split: option.split)

lemma running_ok_none: "cn_running_turn c = None \<Longrightarrow> running_ok c"
  by (simp add: running_ok_def)

text \<open>What keeps the visit's thread and a sound running turn.\<close>

definition keeps :: "conn \<Rightarrow> conn \<Rightarrow> bool" where
  "keeps c c' \<longleftrightarrow> visit_kept (cn_visit c) (cn_visit c') \<and> (running_ok c \<longrightarrow> running_ok c')
     \<and> cn_attach c' = cn_attach c \<and> cn_resume_target c' = cn_resume_target c \<and> cn_resumes c' = cn_resumes c
     \<and> cn_next_id c' = cn_next_id c"

lemma keeps_refl [simp]: "keeps c c"
  by (simp add: keeps_def)

lemma keeps_trans: "keeps a b \<Longrightarrow> keeps b c \<Longrightarrow> keeps a c"
  unfolding keeps_def using visit_kept_trans by auto

lemma keeps_rest:
  assumes "rest_of c' = rest_of c" "cn_running_turn c' = cn_running_turn c"
  shows "keeps c c'"
  using running_ok_kept [of c c'] assms(2) by (simp add: keeps_def rest_of_fields [OF assms(1)])

lemma keeps_on_carried [simp]: "keeps c (on_carried f c)"
  by (auto simp: keeps_def intro: running_ok_kept)

lemma keeps_bind:
  assumes "conn_bound c = None"
  shows "keeps c (bind_or_follow frame c)"
  using assms by (auto simp: keeps_def bind_or_follow_def visit_kept_def running_ok_def conn_bound_def split: frame_thread.split option.split)

lemma keeps_note_turn_start: "keeps c (note_turn_start frame c)"
  unfolding keeps_def by (auto simp: running_ok_def note_turn_start_def split: option.splits)

lemma keeps_observe_approval: "keeps c (observe_approval frame c)"
  unfolding keeps_def by (auto simp: running_ok_def observe_approval_def Let_def split: option.splits)

lemma keeps_record_minted: "keeps c (record_minted now ms c)"
  by (rule keeps_rest) simp_all

lemma keeps_note_switch_candidate: "keeps c (snd (note_switch_candidate frame c))"
proof -
  have upd: "keeps d (d\<lparr>cn_switch_candidate := s\<rparr>)" for d s
    by (auto simp: keeps_def intro: running_ok_kept)
  have upd2: "keeps d (on_carried f (d\<lparr>cn_switch_candidate := s\<rparr>))" for d f s
    using keeps_trans [OF upd keeps_on_carried] by simp
  show ?thesis
    using keeps_bind [of c frame] upd2 keeps_trans [OF keeps_bind [of c frame] upd2]
    by (auto simp: note_switch_candidate_def Let_def split: frame_thread.split)
qed

lemma keeps_observe: "keeps c (observe_notification now frame ms c)"
proof -
  obtain sw d where d: "note_switch_candidate frame c = (sw, d)"
    by (cases "note_switch_candidate frame c")
  have k: "keeps c d"
    using keeps_note_switch_candidate [of c frame] d by simp
  note steps = keeps_note_turn_start keeps_observe_approval keeps_record_minted
  show ?thesis
    unfolding observe_notification_def d
    by (auto intro!: k keeps_trans [OF k] intro: steps keeps_trans [OF steps(1) steps(3)]
        keeps_trans [OF keeps_trans [OF steps(1) steps(3)] steps(2)]
        keeps_trans [OF keeps_trans [OF steps(2) steps(1)] steps(3)])
qed

text \<open>
  Between two steps a bound link asks about the thread it is bound to, and an answer that is still wanted is to a
  question about the target.
\<close>

fun asks_about :: "attach \<Rightarrow> string option \<Rightarrow> bool" where
  "asks_about (AtAwaiting i d n t superseded) target = (superseded \<or> target = Some t)"
| "asks_about _ target = True"

definition attach_inv :: "conn \<Rightarrow> bool" where
  "attach_inv c \<longleftrightarrow> (conn_bound c = None \<or> cn_resume_target c = conn_bound c)
     \<and> asks_about (cn_attach c) (cn_resume_target c)
     \<and> running_ok c"

lemma attach_inv_cong:
  assumes "cn_visit c' = cn_visit c" "cn_running_turn c' = cn_running_turn c" "cn_resume_target c' = cn_resume_target c"
    "cn_attach c' = cn_attach c"
  shows "attach_inv c' = attach_inv c"
  using assms running_ok_cong [of c' c] by (simp add: attach_inv_def conn_bound_def)

lemma attach_inv_attach:
  assumes "attach_inv c" "cn_visit c' = cn_visit c" "cn_running_turn c' = cn_running_turn c"
    "cn_resume_target c' = cn_resume_target c"
    "asks_about (cn_attach c') (cn_resume_target c)"
  shows "attach_inv c'"
  using assms running_ok_cong [of c' c] by (simp add: attach_inv_def conn_bound_def)

lemma due_now_asks [simp]: "asks_about (due_now now) target"
  by (simp add: due_now_def)

lemma moved_fields [simp]:
  "cn_visit (move_visit_to t c) = (cn_visit c)\<lparr>vi_generation := vi_generation (cn_visit c) + 1, vi_thread_id := Some t\<rparr>"
  "cn_running_turn (move_visit_to t c) = None" "cn_attach (move_visit_to t c) = cn_attach c"
  "cn_resume_target (move_visit_to t c) = cn_resume_target c" "conn_bound (move_visit_to t c) = Some t"
  "cn_carried (move_visit_to t c) = cn_carried c" "cn_resumes (move_visit_to t c) = cn_resumes c"
  "cn_next_id (move_visit_to t c) = cn_next_id c" "cn_unadopted_retries (move_visit_to t c) = cn_unadopted_retries c"
  "cn_owed_recovery (move_visit_to t c) = cn_owed_recovery c" "cn_debts (move_visit_to t c) = cn_debts c"
  "cn_switch_candidate (move_visit_to t c) = cn_switch_candidate c"
  "cn_adopted_thread (move_visit_to t c) = cn_adopted_thread c"
  by (simp_all add: move_visit_to_def conn_bound_def)

lemma visit_follows_moved [simp]: "visit_follows v (v\<lparr>vi_generation := vi_generation v + 1, vi_thread_id := x\<rparr>)"
  by (simp add: visit_follows_def)

text \<open>What \<open>apply_held_candidate\<close> is: nothing moved, or the visit is on the candidate and the link asks about it.\<close>

lemma apply_held_cases:
  obtains s where "apply_held_candidate now c = c\<lparr>cn_switch_candidate := s\<rparr>" "s = None \<or> s = cn_switch_candidate c"
  | retired candidate f where "cn_switch_candidate c = Some candidate" "retired \<noteq> candidate"
      "or_else (conn_bound c) (cn_carried_target c) = Some retired"
      "f = (\<lambda>k. (if owes_recovery_on retired c then owe_recovery retired else id)
        (k\<lparr>ca_fallback := Some retired, ca_pending_candidate := Some candidate\<rparr>))"
      "apply_held_candidate now c = (on_carried f
        ((move_visit_to candidate (c\<lparr>cn_switch_candidate := None\<rparr>))\<lparr>cn_unadopted_retries := 0, cn_fallback_due := False\<rparr>))
        \<lparr>cn_resume_target := Some candidate, cn_attach := due_now now\<rparr>"
proof (cases "cn_switch_candidate c")
  case None
  then have "apply_held_candidate now c = c\<lparr>cn_switch_candidate := None\<rparr>"
    by (cases c) (simp add: apply_held_candidate_def)
  with that(1) show ?thesis by blast
next
  case (Some candidate)
  show ?thesis
  proof (cases "or_else (conn_bound c) (cn_carried_target c)")
    case None
    with Some have "apply_held_candidate now c = c\<lparr>cn_switch_candidate := None\<rparr>"
      by (simp add: apply_held_candidate_def apply_switch_candidate_def)
    with that(1) show ?thesis by blast
  next
    case r: (Some retired)
    show ?thesis
    proof (cases "retired = candidate")
      case True
      with Some r have "apply_held_candidate now c = c\<lparr>cn_switch_candidate := None\<rparr>"
        by (simp add: apply_held_candidate_def apply_switch_candidate_def)
      with that(1) show ?thesis by blast
    next
      case False
      have owes: "owes_recovery_on retired c = owes_recovery_on retired c'" if "cn_debts c' = cn_debts c" for c'
        using that by (simp add: owes_recovery_on_def)
      show ?thesis
        by (rule that(2) [OF Some False r refl])
          (simp add: apply_held_candidate_def apply_switch_candidate_def Some r False Let_def on_carried_def
            owes_recovery_on_def)
    qed
  qed
qed

lemma attach_inv_updates [simp]:
  "attach_inv (c\<lparr>cn_switch_candidate := s\<rparr>) = attach_inv c" "attach_inv (c\<lparr>cn_next_id := n\<rparr>) = attach_inv c"
  "attach_inv (c\<lparr>cn_owed_recovery := q\<rparr>) = attach_inv c" "attach_inv (c\<lparr>cn_resume_due_now := b\<rparr>) = attach_inv c"
  "attach_inv (c\<lparr>cn_resumes := rs\<rparr>) = attach_inv c" "attach_inv (c\<lparr>cn_unadopted_retries := u\<rparr>) = attach_inv c"
  "attach_inv (c\<lparr>cn_fallback_due := d\<rparr>) = attach_inv c" "attach_inv (c\<lparr>cn_adopted_thread := x\<rparr>) = attach_inv c"
  "attach_inv (c\<lparr>cn_not_ready_thread := y\<rparr>) = attach_inv c" "attach_inv (c\<lparr>cn_start_in_flight := z\<rparr>) = attach_inv c"
  "attach_inv (on_carried f c) = attach_inv c" "attach_inv (on_debts g c) = attach_inv c"
  "attach_inv (unsettle_debts t c) = attach_inv c" "attach_inv (launch_follow_up t c) = attach_inv c"
  "attach_inv (settle_debts_on t c) = attach_inv c" "attach_inv (debt_entry k e c) = attach_inv c"
  "attach_inv (expire_start_in_flight now c) = attach_inv c"
  by (rule attach_inv_cong; simp)+

lemma attach_inv_set_attach: "attach_inv c \<Longrightarrow> asks_about a (cn_resume_target c) \<Longrightarrow> attach_inv (c\<lparr>cn_attach := a\<rparr>)"
  by (rule attach_inv_attach [of c]) simp_all

lemma apply_held_ok:
  assumes "attach_inv c"
  shows "attach_inv (apply_held_candidate now c)" "visit_follows (cn_visit c) (cn_visit (apply_held_candidate now c))"
  by (rule apply_held_cases [of now c], simp add: assms,
      simp add: attach_inv_def running_ok_none)
    (rule apply_held_cases [of now c], simp_all)

text \<open>Behind a frame's facts the target follows the binding.\<close>

definition redirect :: "int \<Rightarrow> string \<Rightarrow> attach \<Rightarrow> attach" where
  "redirect now bound a = (case a of AtUnbound \<Rightarrow> due_now now
     | AtAwaiting i d n t superseded \<Rightarrow> AtAwaiting i d n t (superseded \<or> t \<noteq> bound) | _ \<Rightarrow> a)"

lemma follow_binding_eq:
  "follow_binding now c = (case conn_bound c of None \<Rightarrow> c
     | Some bound \<Rightarrow> c\<lparr>cn_resume_target := Some bound, cn_attach := redirect now bound (cn_attach c)\<rparr>)"
  by (cases c) (simp add: follow_binding_def redirect_def Let_def split: option.split attach.split)

lemma redirect_asks [simp]: "asks_about (redirect now bound a) (Some bound)"
  by (simp add: redirect_def due_now_def split: attach.split)

lemma follow_binding_visit [simp]:
  "cn_visit (follow_binding now c) = cn_visit c" "cn_running_turn (follow_binding now c) = cn_running_turn c"
  by (simp_all add: follow_binding_eq split: option.split)

lemma follow_binding_ok:
  assumes "attach_inv c" "keeps c d"
  shows "attach_inv (follow_binding now d)"
proof (cases "conn_bound d")
  case None
  with assms show ?thesis
    by (auto simp: follow_binding_eq attach_inv_def keeps_def)
next
  case (Some bound)
  with assms running_ok_cong [of "follow_binding now d" d] show ?thesis
    by (simp add: attach_inv_def keeps_def follow_binding_eq)
qed

text \<open>An answer that is still wanted is to a question about the bound thread, so taking it in moves nothing.\<close>

lemma attach_from_seed_visit:
  assumes "attach_from_seed seed t c = (ok, c')"
  shows "cn_visit c' = (cn_visit c)\<lparr>vi_thread_id := Some t\<rparr>" "cn_attach c' = cn_attach c"
    "cn_resume_target c' = cn_resume_target c" "cn_resumes c' = cn_resumes c" "cn_next_id c' = cn_next_id c"
    "cn_owed_recovery c' = cn_owed_recovery c"
  using assms by (auto simp: attach_from_seed_def Let_def split: if_splits option.splits)

lemma attach_from_seed_ok:
  assumes "attach_from_seed seed t c = (ok, c')" "attach_inv c" "cn_resume_target c = Some t"
  shows "attach_inv c'" "visit_kept (cn_visit c) (cn_visit c')"
proof -
  note v = attach_from_seed_visit [OF assms(1)]
  have bound: "conn_bound c = None \<or> conn_bound c = Some t"
    using assms(2,3) by (auto simp: attach_inv_def)
  then show "visit_kept (cn_visit c) (cn_visit c')"
    by (auto simp: v visit_kept_def conn_bound_def)
  have "cn_running_turn c' = cn_running_turn c \<or>
      (\<exists>turn. cn_running_turn c' = Some \<lparr>rt_thread_id = t, rt_generation = vi_generation (cn_visit c), rt_turn_id = turn\<rparr>)"
    using assms(1) by (auto simp: attach_from_seed_def Let_def seed_running_turn_def split: if_splits option.splits list.splits)
  then have "running_ok c'"
    using assms(2) bound by (auto simp: running_ok_def attach_inv_def v conn_bound_def split: option.splits)
  then show "attach_inv c'"
    using assms(2,3) by (simp add: attach_inv_def v conn_bound_def)
qed

end
