(* ===== verification/Ccd_Attach_Props.thy ===== *)
theory Ccd_Attach_Props
  imports Ccd_Attach_Frame
begin

text \<open>
  What stays true of a link whatever it reads and whenever: whose thread a generation is, whose turn the running
  turn is, that resumes are never pipelined, what a link owes, and that its loop cannot spin.
\<close>

section \<open>Every step\<close>

fun at_rest :: "attach \<Rightarrow> bool" where
  "at_rest (AtAwaiting i d n t superseded) = False"
| "at_rest (AtRecovering i d t) = False"
| "at_rest a = True"

lemma at_rest_asks: "at_rest a \<Longrightarrow> asks_about a target"
  by (cases a) simp_all

lemma at_rest_due_now [simp]: "at_rest (due_now now)"
  by (simp add: due_now_def)

lemma settle_resume_cases:
  assumes "settle_resume now frame t n fb seed c = (a, c')"
  obtains d u x where "a = Some x" "at_rest x" "x \<noteq> AtAttached" "rest_of c' = rest_of (c\<lparr>cn_unadopted_retries := u, cn_fallback_due := d\<rparr>)"
      "cn_running_turn c' = cn_running_turn c"
  | ok sd where "attach_from_seed sd t c = (ok, c')" "a = (if ok then Some AtAttached else None)"
proof -
  let ?sif = "start_in_flight_target now c = Some t"
  let ?again = "AtBackoff (now + n) (min (n * 2) ATTACH_BACKOFF_MAX)"
  consider (wait) "is_measured_not_ready frame t"
    | (retry) "\<not> is_measured_not_ready frame t" "is_broker_policy_refusal frame \<and> cn_unadopted_retries c < ADOPTION_RETRIES"
    | (fall) "\<not> is_measured_not_ready frame t" "\<not> (is_broker_policy_refusal frame \<and> cn_unadopted_retries c < ADOPTION_RETRIES)"
        "is_broker_policy_refusal frame \<and> fb"
    | (read) "\<not> is_measured_not_ready frame t" "\<not> (is_broker_policy_refusal frame \<and> cn_unadopted_retries c < ADOPTION_RETRIES)"
        "\<not> (is_broker_policy_refusal frame \<and> fb)"
    by blast
  then show ?thesis
  proof cases
    case wait
    then have "a = Some ?again" "c' = (if ?sif then c else c\<lparr>cn_not_ready_thread := Some t\<rparr>)"
      using assms by (simp_all add: settle_resume_def Let_def split: if_splits)
    then show ?thesis
      by (intro that(1) [of ?again "cn_fallback_due c" "cn_unadopted_retries c"]) simp_all
  next
    case retry
    with assms have "a = Some (AtBackoff (now + ADOPTION_RETRY_DELAY) n)"
        "c' = c\<lparr>cn_unadopted_retries := cn_unadopted_retries c + 1\<rparr>"
      by (simp_all add: settle_resume_def Let_def)
    then show ?thesis
      by (intro that(1) [of "AtBackoff (now + ADOPTION_RETRY_DELAY) n" "cn_fallback_due c" "cn_unadopted_retries c + 1"]) simp_all
  next
    case fall
    then have "settle_resume now frame t n fb seed c
        = (Some (AtBackoff (now + ADOPTION_RETRY_DELAY) n), c\<lparr>cn_unadopted_retries := 0, cn_fallback_due := True\<rparr>)"
      by (simp only: settle_resume_def Let_def if_True if_False simp_thms)
    with assms show ?thesis
      by (intro that(1) [of "AtBackoff (now + ADOPTION_RETRY_DELAY) n" True 0]) auto
  next
    case read
    show ?thesis
    proof (cases "if jget ''error'' frame = None \<and> jget ''result'' frame \<noteq> None then seed else None")
      case None
      with read have "settle_resume now frame t n fb seed c = (Some (if ?sif then ?again else AtRefused), c)"
        by (simp only: settle_resume_def Let_def if_False option.case)
      with assms show ?thesis
        by (intro that(1) [of "if ?sif then ?again else AtRefused" "cn_fallback_due c" "cn_unadopted_retries c"]) auto
    next
      case (Some sd)
      with read have eq: "settle_resume now frame t n fb seed c
          = (case attach_from_seed sd t c of (True, c) \<Rightarrow> (Some AtAttached, c) | (False, c) \<Rightarrow> (None, c))"
        by (simp only: settle_resume_def Let_def if_False option.case)
      show ?thesis
        using assms unfolding eq by (intro that(2) [of sd "a \<noteq> None"]) (auto split: prod.splits bool.splits)
    qed
  qed
qed

lemma settle_resume_ok:
  assumes "settle_resume now frame t n fb seed c = (a, c')" "attach_inv c" "cn_resume_target c = Some t"
  shows "attach_inv c'" "visit_kept (cn_visit c) (cn_visit c')" "cn_resumes c' = cn_resumes c" "cn_next_id c' = cn_next_id c"
    "pred_option at_rest a"
proof -
  have "attach_inv c' \<and> visit_kept (cn_visit c) (cn_visit c') \<and> cn_resumes c' = cn_resumes c \<and> cn_next_id c' = cn_next_id c
      \<and> pred_option at_rest a"
    using assms(1)
  proof (cases rule: settle_resume_cases)
    case (1 d u x)
    note f = rest_of_fields [OF 1(4)]
    have "attach_inv c' = attach_inv c"
      by (rule attach_inv_cong) (simp_all add: f 1)
    with 1 assms(2) f show ?thesis by simp
  next
    case (2 ok sd)
    with attach_from_seed_ok [OF 2(1) assms(2,3)] attach_from_seed_visit [OF 2(1)] show ?thesis
      by simp
  qed
  then show "attach_inv c'" "visit_kept (cn_visit c) (cn_visit c')" "cn_resumes c' = cn_resumes c" "cn_next_id c' = cn_next_id c"
    "pred_option at_rest a"
    by simp_all
qed

lemma answer_awaited_ok:
  assumes "answer_awaited now frame seed n t superseded c = (ok, c')" "attach_inv c" "superseded \<or> cn_resume_target c = Some t"
  shows "attach_inv c'" "visit_kept (cn_visit c) (cn_visit c')" "cn_resumes c' = cn_resumes c" "cn_next_id c' = cn_next_id c"
    "ok \<Longrightarrow> at_rest (cn_attach c')"
proof -
  have "attach_inv c' \<and> visit_kept (cn_visit c) (cn_visit c') \<and> cn_resumes c' = cn_resumes c \<and> cn_next_id c' = cn_next_id c
      \<and> (ok \<longrightarrow> at_rest (cn_attach c'))"
  proof (cases superseded)
    case True
    with assms show ?thesis
      by (auto simp: answer_awaited_def Let_def attach_inv_set_attach)
  next
    case False
    obtain a d where d: "settle_resume now frame t n (ca_fallback (cn_carried c) \<noteq> None) seed c = (a, d)"
      by (cases "settle_resume now frame t n (ca_fallback (cn_carried c) \<noteq> None) seed c")
    note ok = settle_resume_ok [OF d assms(2)]
    show ?thesis
      using False assms(1,3) d ok
      by (cases a) (auto simp: answer_awaited_def Let_def at_rest_asks intro!: attach_inv_set_attach)
  qed
  then show "attach_inv c'" "visit_kept (cn_visit c) (cn_visit c')" "cn_resumes c' = cn_resumes c" "cn_next_id c' = cn_next_id c"
    "ok \<Longrightarrow> at_rest (cn_attach c')"
    by simp_all
qed

lemma recover_from_rest:
  assumes "recover_from frame t seed c = (ok, c')"
  shows "rest_of c' = rest_of c" "cn_running_turn c' = cn_running_turn c"
proof -
  have "rest_of c' = rest_of c \<and> cn_running_turn c' = cn_running_turn c"
    using assms unfolding recover_from_def Let_def
    by (auto split: option.splits if_splits)
  then show "rest_of c' = rest_of c" "cn_running_turn c' = cn_running_turn c" by simp_all
qed

text \<open>Where a step of the loop ends: the invariant holds, the visit moved at most once.\<close>

definition step_ok :: "conn \<Rightarrow> conn \<Rightarrow> bool" where
  "step_ok c c' \<longleftrightarrow> (attach_inv c \<longrightarrow> attach_inv c' \<and> visit_follows (cn_visit c) (cn_visit c'))"

lemma leaving_recovery_ok:
  assumes "attach_inv c"
  shows "attach_inv (leaving_recovery now c)" "visit_follows (cn_visit c) (cn_visit (leaving_recovery now c))"
  using apply_held_ok [OF attach_inv_set_attach [OF assms, of "if follow_up_owed c then due_now now else AtAttached"], of now]
  by (simp_all add: leaving_recovery_def)

lemma after_frame_eq:
  "after_frame now c = (if cn_attach c = AtRefused then (False, c)
     else let d = (if at_rest (cn_attach c) then apply_held_candidate now c else c)
       in (True, if follow_up_owed d \<and> cn_attach d = AtAttached then d\<lparr>cn_attach := due_now now\<rparr> else d))"
  by (cases "cn_attach c") (simp_all add: after_frame_def)

lemma after_frame_ok:
  assumes "after_frame now c = (ok, c')" "attach_inv c"
  shows "attach_inv c'" "visit_follows (cn_visit c) (cn_visit c')"
proof -
  have "attach_inv (snd (after_frame now c)) \<and> visit_follows (cn_visit c) (cn_visit (snd (after_frame now c)))"
    using apply_held_ok [OF assms(2)] assms(2)
    by (simp add: after_frame_eq Let_def attach_inv_set_attach del: attach_inv_updates)
  with assms(1) show "attach_inv c'" "visit_follows (cn_visit c) (cn_visit c')"
    by simp_all
qed

lemma keeps_attach_inv_follow:
  assumes "attach_inv c" "keeps c d" "d' = follow_binding now d"
  shows "attach_inv d'" "visit_kept (cn_visit c) (cn_visit d')" "cn_resumes d' = cn_resumes c" "cn_next_id d' = cn_next_id c"
    "at_rest (cn_attach d') = at_rest (cn_attach c)"
  using assms(2) follow_binding_ok [OF assms(1,2)] unfolding assms(3)
  by (simp_all add: keeps_def follow_binding_eq redirect_def due_now_def split: option.split attach.split)

lemma awaiting_behind_follow:
  assumes "cn_attach (follow_binding now d) = AtAwaiting i w n t superseded" "attach_inv (follow_binding now d)"
  shows "superseded \<or> cn_resume_target (follow_binding now d) = Some t"
  using assms by (simp add: attach_inv_def)

text \<open>A request that is out: the id of the resume whose answer the connection waits for.\<close>

fun outstanding :: "attach \<Rightarrow> int option" where
  "outstanding (AtAwaiting i d n t superseded) = Some i"
| "outstanding (AtRecovering i d t) = Some i"
| "outstanding a = None"

lemma at_rest_outstanding: "at_rest a \<longleftrightarrow> outstanding a = None"
  by (cases a) simp_all

text \<open>What a step may do to the resumes: send nothing, or one when none is out, which then is the one that is out.\<close>

definition resumes_ok :: "conn \<Rightarrow> conn \<Rightarrow> bool" where
  "resumes_ok c c' \<longleftrightarrow>
     cn_resumes c' = cn_resumes c \<and> outstanding (cn_attach c') \<in> {None, outstanding (cn_attach c)}
   \<or> outstanding (cn_attach c) = None \<and> (\<exists>t. cn_resumes c' = cn_resumes c @ [(cn_next_id c, t)]
       \<and> outstanding (cn_attach c') = Some (cn_next_id c)) \<and> cn_next_id c' = cn_next_id c + 1"

definition asks_nothing :: "conn \<Rightarrow> conn \<Rightarrow> bool" where
  "asks_nothing c c' \<longleftrightarrow> cn_resumes c' = cn_resumes c \<and> outstanding (cn_attach c') \<in> {None, outstanding (cn_attach c)}"

lemma asks_nothing_refl [simp]: "asks_nothing c c"
  by (simp add: asks_nothing_def)

lemma asks_nothing_trans: "asks_nothing a b \<Longrightarrow> asks_nothing b c \<Longrightarrow> asks_nothing a c"
  by (auto simp: asks_nothing_def)

lemma asks_nothing_ok: "asks_nothing c c' \<Longrightarrow> resumes_ok c c'"
  by (simp add: asks_nothing_def resumes_ok_def)

lemma asks_nothing_set_attach [simp]: "at_rest a \<Longrightarrow> asks_nothing c (c\<lparr>cn_attach := a\<rparr>)"
  by (simp add: asks_nothing_def at_rest_outstanding)

lemma asks_nothing_rest: "rest_of c' = rest_of c \<Longrightarrow> asks_nothing c c'"
  by (frule rest_of_fields(13), drule rest_of_fields(12)) (simp add: asks_nothing_def)

lemma asks_nothing_apply_held: "asks_nothing c (apply_held_candidate now c)"
  by (rule apply_held_cases [of now c]) (simp_all add: asks_nothing_def due_now_def)

lemma asks_nothing_leaving: "asks_nothing c (leaving_recovery now c)"
  unfolding leaving_recovery_def by (rule asks_nothing_trans [OF asks_nothing_set_attach asks_nothing_apply_held]) simp

lemma asks_nothing_after_frame: "after_frame now c = (ok, c') \<Longrightarrow> asks_nothing c c'"
  using asks_nothing_apply_held [of c now] by (auto simp: after_frame_eq Let_def asks_nothing_def due_now_def split: if_splits)

lemma asks_nothing_keeps_follow:
  assumes "keeps c d"
  shows "asks_nothing c (follow_binding now d)"
  using assms by (simp add: asks_nothing_def keeps_def follow_binding_eq redirect_def due_now_def split: option.split attach.split)

lemma settle_resume_none:
  assumes "settle_resume now frame t n fb seed c = (None, c')"
  shows "cn_attach c' = cn_attach c"
  using assms attach_from_seed_visit(2) by (cases rule: settle_resume_cases) (auto split: if_splits)

lemma answer_awaited_asks_nothing:
  assumes "answer_awaited now frame seed n t superseded c = (ok, c')" "attach_inv c" "superseded \<or> cn_resume_target c = Some t"
  shows "asks_nothing c c'"
proof (cases ok)
  case True
  with answer_awaited_ok [OF assms] show ?thesis
    by (simp add: asks_nothing_def at_rest_outstanding)
next
  case False
  obtain a d where d: "settle_resume now frame t n (ca_fallback (cn_carried c) \<noteq> None) seed c = (a, d)"
    by (cases "settle_resume now frame t n (ca_fallback (cn_carried c) \<noteq> None) seed c")
  have "a = None" "c' = d"
    using False assms(1) d by (auto simp: answer_awaited_def Let_def split: if_splits option.splits)
  with d settle_resume_none answer_awaited_ok(3) [OF assms] show ?thesis
    by (simp add: asks_nothing_def)
qed

text \<open>What reading a frame comes to; \<open>d\<close> is the connection behind the facts of the frame.\<close>

definition behind_facts :: "int \<Rightarrow> json \<Rightarrow> minted list \<Rightarrow> conn \<Rightarrow> conn" where
  "behind_facts now frame minted c = follow_binding now
     (if \<not> is_our_response frame c \<and> frame_kind_of frame = NotificationFrame then observe_notification now frame minted c else c)"

lemma on_frame_cases:
  obtains (expired) "on_frame now frame minted seed c = (False, c)"
  | (recovery) d i w t k e where "d = behind_facts now frame minted c" "is_our_response frame c" "cn_attach d = AtRecovering i w t"
      "recover_from frame t seed d = (k, e)"
      "on_frame now frame minted seed c = (True, leaving_recovery now (if k then on_carried (discharge_recovery t) e else e))"
  | (answer) d i w n t u k e where "d = behind_facts now frame minted c" "is_our_response frame c"
      "cn_attach d = AtAwaiting i w n t u" "answer_awaited now frame seed n t u d = (k, e)"
      "on_frame now frame minted seed c = (if k then after_frame now e else (False, e))"
  | (other) d where "d = behind_facts now frame minted c" "on_frame now frame minted seed c = after_frame now d"
proof -
  let ?ours = "is_our_response frame c"
  define d where "d = behind_facts now frame minted c"
  show ?thesis
  proof (cases "case cn_attach c of AtAwaiting i deadline next_delay target superseded \<Rightarrow> deadline \<le> now | _ \<Rightarrow> False")
    case True
    then show ?thesis by (intro expired) (simp add: on_frame_def)
  next
    case False
    then have eq: "on_frame now frame minted seed c = (case (?ours, cn_attach d) of
             (True, AtRecovering i deadline thread_id) \<Rightarrow>
               (case recover_from frame thread_id seed d of
                  (settled, c) \<Rightarrow> (True, leaving_recovery now (if settled then on_carried (discharge_recovery thread_id) c else c)))
           | (True, AtAwaiting i deadline next_delay target superseded) \<Rightarrow>
               (case answer_awaited now frame seed next_delay target superseded d of
                  (False, c) \<Rightarrow> (False, c) | (True, c) \<Rightarrow> after_frame now c)
           | _ \<Rightarrow> after_frame now d)"
      by (simp only: on_frame_def if_False Let_def d_def behind_facts_def)
    consider (rec) i w t where "?ours" "cn_attach d = AtRecovering i w t"
      | (ans) i w n t u where "?ours" "cn_attach d = AtAwaiting i w n t u"
      | (no) "on_frame now frame minted seed c = after_frame now d"
      by (cases "?ours"; cases "cn_attach d") (simp_all add: eq)
    then show ?thesis
    proof cases
      case rec
      obtain k e where "recover_from frame t seed d = (k, e)" by (cases "recover_from frame t seed d")
      with rec show ?thesis by (intro recovery [OF d_def]) (simp_all add: eq)
    next
      case ans
      obtain k e where "answer_awaited now frame seed n t u d = (k, e)" by (cases "answer_awaited now frame seed n t u d")
      with ans show ?thesis by (intro answer [OF d_def]) (auto simp: eq split: bool.split)
    next
      case no
      with other d_def show ?thesis by blast
    qed
  qed
qed

lemma behind_facts_ok:
  assumes "attach_inv c" "d = behind_facts now frame minted c"
  shows "attach_inv d" "visit_kept (cn_visit c) (cn_visit d)" "asks_nothing c d"
proof -
  define e where "e = (if \<not> is_our_response frame c \<and> frame_kind_of frame = NotificationFrame
    then observe_notification now frame minted c else c)"
  have e: "keeps c e" by (simp add: e_def keeps_observe)
  have d: "d = follow_binding now e" by (simp add: assms(2) behind_facts_def e_def)
  show "attach_inv d" "visit_kept (cn_visit c) (cn_visit d)" "asks_nothing c d"
    using keeps_attach_inv_follow [OF assms(1) e d] asks_nothing_keeps_follow [OF e] by (simp_all add: d)
qed

lemma on_frame_ok:
  assumes "on_frame now frame minted seed c = (ok, c')" "attach_inv c"
  shows "attach_inv c'" "visit_follows (cn_visit c) (cn_visit c')" "asks_nothing c c'"
proof -
  have "attach_inv c' \<and> visit_follows (cn_visit c) (cn_visit c') \<and> asks_nothing c c'"
  proof (cases rule: on_frame_cases [of now frame minted seed c])
    case expired
    with assms show ?thesis by simp
  next
    case (recovery d i w t k e)
    note d = behind_facts_ok [OF assms(2) recovery(1)]
    let ?g = "if k then on_carried (discharge_recovery t) e else e"
    note same = recover_from_rest [OF recovery(4)]
    have g: "attach_inv ?g" "cn_visit ?g = cn_visit d"
      using attach_inv_cong [of e d] rest_of_fields [OF same(1)] same(2) d(1) by simp_all
    have "asks_nothing e ?g" by (simp add: asks_nothing_def)
    then have "asks_nothing d (leaving_recovery now ?g)"
      by (rule asks_nothing_trans [OF asks_nothing_rest [OF same(1)] asks_nothing_trans [OF _ asks_nothing_leaving]])
    moreover have "c' = leaving_recovery now ?g"
      using assms(1) recovery(5) by simp
    ultimately show ?thesis
      using leaving_recovery_ok [OF g(1), of now] visit_kept_follows [OF d(2)] asks_nothing_trans [OF d(3)] unfolding g(2) by simp
  next
    case (answer d i w n t u k e)
    note d = behind_facts_ok [OF assms(2) answer(1)]
    have wanted: "u \<or> cn_resume_target d = Some t"
      using d(1) answer(3) by (simp add: attach_inv_def)
    note f = answer_awaited_ok [OF answer(4) d(1) wanted]
    note q = asks_nothing_trans [OF d(3) answer_awaited_asks_nothing [OF answer(4) d(1) wanted]]
    show ?thesis
    proof (cases k)
      case True
      with assms(1) answer(5) after_frame_ok [OF _ f(1)] visit_kept_follows [OF visit_kept_trans [OF d(2) f(2)]]
        asks_nothing_trans [OF q asks_nothing_after_frame] show ?thesis by simp
    next
      case False
      with assms(1) answer(5) f(1) visit_kept_trans [OF d(2) f(2)] q show ?thesis by (simp add: visit_follows_def)
    qed
  next
    case (other d)
    note d = behind_facts_ok [OF assms(2) other(1)]
    with assms(1) other(2) after_frame_ok [OF _ d(1)] visit_kept_follows [OF d(2)] asks_nothing_trans [OF d(3) asks_nothing_after_frame]
    show ?thesis by simp
  qed
  then show "attach_inv c'" "visit_follows (cn_visit c) (cn_visit c')" "asks_nothing c c'" by simp_all
qed

text \<open>The top of the loop asks at most once, and never beside a question that is out.\<close>

lemma ask_owed_cases:
  "ask_owed now c = c \<or> (\<exists>t rest. cn_attach c = AtAttached \<and> cn_owed_recovery c = t # rest \<and> ask_owed now c
     = c\<lparr>cn_owed_recovery := rest, cn_next_id := cn_next_id c + 1, cn_resumes := cn_resumes c @ [(cn_next_id c, t)],
         cn_attach := AtRecovering (cn_next_id c) (now + RESUME_BUDGET) t\<rparr>)"
  by (cases "cn_attach c"; cases "cn_owed_recovery c") (simp_all add: ask_owed_def send_resume_def)

lemma hurry_resume_cases:
  "hurry_resume now c = c\<lparr>cn_resume_due_now := False\<rparr>
   \<or> (\<exists>u n. cn_attach c = AtBackoff u n \<and> hurry_resume now c = c\<lparr>cn_resume_due_now := False, cn_attach := due_now now\<rparr>)"
  by (cases "cn_attach c"; cases "cn_resume_due_now c") (simp_all add: hurry_resume_def Let_def)

lemma take_fallback_ok:
  assumes "attach_inv c" "at_rest (cn_attach c)"
  shows "attach_inv (take_fallback c)" "visit_follows (cn_visit c) (cn_visit (take_fallback c))"
    "cn_resumes (take_fallback c) = cn_resumes c" "cn_next_id (take_fallback c) = cn_next_id c"
    "cn_attach (take_fallback c) = cn_attach c"
proof -
  have "attach_inv (take_fallback c) \<and> visit_follows (cn_visit c) (cn_visit (take_fallback c))
    \<and> cn_resumes (take_fallback c) = cn_resumes c \<and> cn_next_id (take_fallback c) = cn_next_id c
    \<and> cn_attach (take_fallback c) = cn_attach c"
  proof (cases "\<not> cn_fallback_due c \<or> ca_fallback (cn_carried c) = None")
    case True
    with assms(1) show ?thesis
      by (auto simp: take_fallback_def Let_def)
  next
    case False
    then obtain p where "cn_fallback_due c" "ca_fallback (cn_carried c) = Some p" by auto
    with assms show ?thesis
      by (auto simp: take_fallback_def Let_def revert_visit_to_def attach_inv_def running_ok_none at_rest_asks
          running_ok_cong [of "on_carried _ _" c] running_ok_cong [of "c\<lparr>cn_fallback_due := _\<rparr>" c])
  qed
  then show "attach_inv (take_fallback c)" "visit_follows (cn_visit c) (cn_visit (take_fallback c))"
    "cn_resumes (take_fallback c) = cn_resumes c" "cn_next_id (take_fallback c) = cn_next_id c"
    "cn_attach (take_fallback c) = cn_attach c" by simp_all
qed

lemma ask_again_cases:
  obtains (kept) "ask_again now c = c" "\<And>u n. cn_attach c = AtBackoff u n \<Longrightarrow> now < u"
  | (unbound) u n where "cn_attach c = AtBackoff u n" "u \<le> now" "cn_resume_target (take_fallback c) = None"
      "ask_again now c = (take_fallback c)\<lparr>cn_attach := AtUnbound\<rparr>"
  | (asks) u n d t where "cn_attach c = AtBackoff u n" "u \<le> now" "d = take_fallback c" "cn_resume_target d = Some t"
      "ask_again now c = (launch_follow_up t (d\<lparr>cn_next_id := cn_next_id d + 1, cn_resumes := cn_resumes d @ [(cn_next_id d, t)]\<rparr>))
        \<lparr>cn_attach := AtAwaiting (cn_next_id d) (now + RESUME_BUDGET) n t False\<rparr>"
proof (cases "\<exists>u n. cn_attach c = AtBackoff u n \<and> u \<le> now")
  case False
  then have "ask_again now c = c"
    by (cases "cn_attach c") (auto simp: ask_again_def)
  with False kept show ?thesis by (metis not_le)
next
  case True
  then obtain u n where u: "cn_attach c = AtBackoff u n" "u \<le> now" by blast
  show ?thesis
  proof (cases "cn_resume_target (take_fallback c)")
    case None
    with u show ?thesis by (intro unbound [of u n]) (simp_all add: ask_again_def)
  next
    case (Some t)
    with u show ?thesis by (intro asks [OF u refl Some]) (simp add: ask_again_def Let_def send_resume_def)
  qed
qed

lemma asking_ok:
  assumes "attach_inv c" "c' = ask_again now (hurry_resume now (ask_owed now c))"
  shows "attach_inv c'" "visit_follows (cn_visit c) (cn_visit c')" "resumes_ok c c'"
proof -
  define a where "a = ask_owed now c"
  define b where "b = hurry_resume now a"
  have a: "attach_inv a \<and> cn_visit a = cn_visit c \<and> (a = c \<or> \<not> at_rest (cn_attach a) \<and> resumes_ok c a)"
    using ask_owed_cases [of now c] assms(1)
    by (auto simp: a_def resumes_ok_def intro!: attach_inv_set_attach)
  have b: "attach_inv b \<and> cn_visit b = cn_visit a \<and> cn_resumes b = cn_resumes a \<and> cn_next_id b = cn_next_id a
      \<and> outstanding (cn_attach b) = outstanding (cn_attach a)"
    using hurry_resume_cases [of now a] a
    by (auto simp: b_def due_now_def intro!: attach_inv_set_attach)
  have c': "c' = ask_again now b"
    by (simp add: assms(2) a_def b_def)
  have "attach_inv c' \<and> visit_follows (cn_visit c) (cn_visit c') \<and> resumes_ok c c'"
  proof (cases rule: ask_again_cases [where now = now and c = b])
    case kept
    with a b show ?thesis by (auto simp: c' resumes_ok_def)
  next
    case (unbound u n)
    with a b take_fallback_ok [of b] show ?thesis
      by (auto simp: c' resumes_ok_def at_rest_outstanding intro!: attach_inv_set_attach)
  next
    case (asks u n d t)
    have "a = c" using a b asks(1) by (auto simp: at_rest_outstanding)
    with a b asks take_fallback_ok [of b] show ?thesis
      by (auto simp: c' resumes_ok_def at_rest_outstanding intro!: attach_inv_set_attach)
  qed
  then show "attach_inv c'" "visit_follows (cn_visit c) (cn_visit c')" "resumes_ok c c'" by simp_all
qed

lemma loop_head_eq:
  "loop_head now c = (let d = ask_again now (hurry_resume now (ask_owed now c)) in
     case cn_attach d of
       AtAwaiting i w n t superseded \<Rightarrow> if w \<le> now then (False, d) else (True, expire_start_in_flight now d)
     | AtRecovering i w t \<Rightarrow> (True, expire_start_in_flight now
           (if w \<le> now then leaving_recovery now (on_carried (discharge_recovery t) d) else d))
     | _ \<Rightarrow> (True, expire_start_in_flight now d))"
  by (simp add: loop_head_def)

lemma loop_head_cases:
  obtains (plain) d where "d = ask_again now (hurry_resume now (ask_owed now c))"
      "snd (loop_head now c) = d \<or> snd (loop_head now c) = expire_start_in_flight now d"
  | (gives_up) i w t d where "d = ask_again now (hurry_resume now (ask_owed now c))" "cn_attach d = AtRecovering i w t" "w \<le> now"
      "snd (loop_head now c) = expire_start_in_flight now (leaving_recovery now (on_carried (discharge_recovery t) d))"
proof -
  define d where "d = ask_again now (hurry_resume now (ask_owed now c))"
  note eq = loop_head_eq [of now c, folded d_def, unfolded Let_def]
  show ?thesis
  proof (cases "\<exists>i w t. cn_attach d = AtRecovering i w t \<and> w \<le> now")
    case True
    then obtain i w t where "cn_attach d = AtRecovering i w t" "w \<le> now" by blast
    then show ?thesis by (intro gives_up [OF d_def]) (simp_all add: eq)
  next
    case False
    have "snd (loop_head now c) = d \<or> snd (loop_head now c) = expire_start_in_flight now d"
      using False by (cases "cn_attach d") (simp_all add: eq)
    then show ?thesis by (rule plain [OF d_def])
  qed
qed

lemma ask_owed_deadline:
  assumes "cn_attach (ask_again now (hurry_resume now (ask_owed now c))) = AtRecovering i w t" "w \<le> now"
  shows "ask_again now (hurry_resume now (ask_owed now c)) = c\<lparr>cn_resume_due_now := False\<rparr>"
proof -
  have budget: "\<not> now + RESUME_BUDGET \<le> now" by (simp add: RESUME_BUDGET_def)
  obtain b where b: "b = hurry_resume now (ask_owed now c)" by simp
  have "ask_again now b = b"
    using assms(1) b by (cases rule: ask_again_cases [where now = now and c = b]) auto
  then have r: "cn_attach b = AtRecovering i w t" using assms(1) b by simp
  then have "b = (ask_owed now c)\<lparr>cn_resume_due_now := False\<rparr>"
    using hurry_resume_cases [of now "ask_owed now c"] b by (auto simp: due_now_def)
  with r ask_owed_cases [of now c] budget assms(2) have "b = c\<lparr>cn_resume_due_now := False\<rparr>"
    by auto
  with \<open>ask_again now b = b\<close> b show ?thesis by simp
qed

lemma loop_head_ok:
  assumes "loop_head now c = (ok, c')" "attach_inv c"
  shows "attach_inv c'" "visit_follows (cn_visit c) (cn_visit c')" "resumes_ok c c'"
proof -
  have "attach_inv c' \<and> visit_follows (cn_visit c) (cn_visit c') \<and> resumes_ok c c'"
  proof (cases rule: loop_head_cases [where now = now and c = c])
    case (plain d)
    with asking_ok [OF assms(2) plain(1)] assms(1) show ?thesis
      by (auto simp: resumes_ok_def)
  next
    case (gives_up i w t d)
    have d: "d = c\<lparr>cn_resume_due_now := False\<rparr>"
      using ask_owed_deadline gives_up(1-3) by simp
    let ?e = "on_carried (discharge_recovery t) d"
    have c': "c' = expire_start_in_flight now (leaving_recovery now ?e)"
      using gives_up(4) assms(1) by simp
    have "asks_nothing c ?e" "asks_nothing ?e (leaving_recovery now ?e)" "asks_nothing (leaving_recovery now ?e) c'"
      by (simp_all add: d asks_nothing_def [of c] asks_nothing_leaving asks_nothing_rest c')
    then have "resumes_ok c c'"
      by (intro asks_nothing_ok) (rule asks_nothing_trans, assumption, rule asks_nothing_trans)
    with leaving_recovery_ok [of ?e now] assms(2) show ?thesis
      by (simp add: c' d)
  qed
  then show "attach_inv c'" "visit_follows (cn_visit c) (cn_visit c')" "resumes_ok c c'" by simp_all
qed

section \<open>Whole connections\<close>

lemma link_step_ok:
  assumes "attach_inv c" "c' = snd (link_step ev c)"
  shows "attach_inv c'" "visit_follows (cn_visit c) (cn_visit c')" "resumes_ok c c'"
proof -
  have "attach_inv c' \<and> visit_follows (cn_visit c) (cn_visit c') \<and> resumes_ok c c'"
  proof (cases ev)
    case (PassesTheTop now)
    then obtain k where "loop_head now c = (k, c')"
      using assms(2) by (cases "loop_head now c") simp
    with loop_head_ok [OF _ assms(1)] show ?thesis by blast
  next
    case (Reads now frame ms seed)
    then obtain k where "on_frame now frame ms seed c = (k, c')"
      using assms(2) by (cases "on_frame now frame ms seed c") simp
    with on_frame_ok [OF _ assms(1)] asks_nothing_ok show ?thesis by blast
  qed (use assms in \<open>simp_all add: spend_proof_def give_proof_back_def start_accepted_def asks_nothing_ok asks_nothing_def\<close>)
  then show "attach_inv c'" "visit_follows (cn_visit c) (cn_visit c')" "resumes_ok c c'" by simp_all
qed

lemma link_run_inv: "attach_inv c \<Longrightarrow> attach_inv (link_run evs c)"
proof (induction evs arbitrary: c)
  case (Cons ev evs)
  with link_step_ok(1) [OF Cons.prems refl, of ev] show ?case
    by (cases "link_step ev c"; cases "fst (link_step ev c)") simp_all
qed simp

lemma keeps_fold_observe:
  "keeps c (fold (\<lambda>(at, frame, minted) c. if frame_kind_of frame = NotificationFrame
     then observe_notification at frame minted c else c) frames c)"
proof (induction frames arbitrary: c)
  case (Cons f frames)
  show ?case
    by (cases f) (auto intro: Cons.IH keeps_trans [OF keeps_observe Cons.IH])
qed simp

lemma handshaken_inv: "attach_inv (handshaken now frames (new_conn generation epoch k))"
proof -
  define c where "c = (new_conn generation epoch k)\<lparr>cn_next_id := cn_next_id (new_conn generation epoch k) + 1\<rparr>"
  define d where "d = fold (\<lambda>(at, frame, minted) c. if frame_kind_of frame = NotificationFrame
     then observe_notification at frame minted c else c) frames c"
  have "keeps c d" unfolding d_def by (rule keeps_fold_observe)
  moreover have "running_ok c" by (simp add: c_def new_conn_def running_ok_def)
  ultimately have "running_ok d" by (simp add: keeps_def)
  define e where "e = (case conn_bound d of Some b \<Rightarrow> d\<lparr>cn_resume_target := Some b\<rparr> | None \<Rightarrow> d)"
  have "handshaken now frames (new_conn generation epoch k)
      = e\<lparr>cn_attach := (if cn_resume_target e \<noteq> None then due_now now else AtUnbound)\<rparr>"
    by (simp only: handshaken_def Let_def c_def [symmetric] d_def [symmetric] e_def)
  moreover have "running_ok e"
    using \<open>running_ok d\<close> running_ok_cong [of e d] by (simp add: e_def split: option.split)
  moreover have "conn_bound e = None \<or> cn_resume_target e = conn_bound e"
    by (simp add: e_def split: option.split)
  ultimately show ?thesis
    using running_ok_cong [of "handshaken now frames (new_conn generation epoch k)" e] by (simp add: attach_inv_def)
qed

lemma connection_inv: "attach_inv (connection generation epoch k s)"
  unfolding connection_def by (cases s) (simp add: link_run_inv handshaken_inv)

text \<open>When a question stops being out: its answer is read, or its budget has passed at the top of the loop.\<close>

definition ends_question :: "link_event \<Rightarrow> conn \<Rightarrow> bool" where
  "ends_question ev c = (case ev of
     Reads now frame minted seed \<Rightarrow> is_our_response frame c
   | PassesTheTop now \<Rightarrow> (case cn_attach c of AtRecovering i deadline t \<Rightarrow> deadline \<le> now | _ \<Rightarrow> False)
   | _ \<Rightarrow> False)"

lemma after_frame_outstanding:
  "outstanding (cn_attach (snd (after_frame now c))) = outstanding (cn_attach c)"
proof (cases "outstanding (cn_attach c)")
  case None
  then have "outstanding (cn_attach (apply_held_candidate now c)) = None"
    using asks_nothing_apply_held [of c now] by (simp add: asks_nothing_def)
  with None show ?thesis by (simp add: after_frame_eq Let_def at_rest_outstanding due_now_def)
next
  case (Some i)
  then show ?thesis by (auto simp: after_frame_eq Let_def at_rest_outstanding)
qed

lemma on_frame_outstanding:
  assumes "\<not> is_our_response frame c"
  shows "outstanding (cn_attach (snd (on_frame now frame minted seed c))) = outstanding (cn_attach c)"
proof -
  define d where "d = behind_facts now frame minted c"
  have "keeps c (if frame_kind_of frame = NotificationFrame then observe_notification now frame minted c else c)"
    by (cases "frame_kind_of frame = NotificationFrame") (simp_all add: keeps_observe)
  then have "outstanding (cn_attach d) = outstanding (cn_attach c)"
    using assms
    by (cases "frame_kind_of frame = NotificationFrame")
      (simp_all add: d_def behind_facts_def keeps_def follow_binding_eq redirect_def due_now_def split: option.split attach.split)
  moreover have "snd (on_frame now frame minted seed c) \<in> {c, snd (after_frame now d)}"
    using assms by (cases rule: on_frame_cases [of now frame minted seed c]) (simp_all add: d_def)
  ultimately show ?thesis
    using after_frame_outstanding [of now d] by auto
qed

lemma loop_head_outstanding:
  assumes "outstanding (cn_attach c) = Some i"
  shows "outstanding (cn_attach (snd (loop_head now c))) = Some i \<or> ends_question (PassesTheTop now) c"
proof (cases rule: loop_head_cases [where now = now and c = c])
  case (plain d)
  have "ask_owed now c = c" using ask_owed_cases [of now c] assms by auto
  moreover have "cn_attach (hurry_resume now c) = cn_attach c"
    using hurry_resume_cases [of now c] assms by auto
  moreover have "cn_attach (ask_again now b) = cn_attach b" if "outstanding (cn_attach b) = Some i" for b
    using that by (cases rule: ask_again_cases [where now = now and c = b]) simp_all
  ultimately show ?thesis using plain assms by auto
next
  case (gives_up i w t d)
  with ask_owed_deadline [of now c i w t] have "cn_attach c = AtRecovering i w t" by simp
  with gives_up(3) show ?thesis by (simp add: ends_question_def)
qed

lemma question_ends:
  assumes "outstanding (cn_attach c) = Some i"
  shows "outstanding (cn_attach (snd (link_step ev c))) = Some i \<or> ends_question ev c"
  using assms loop_head_outstanding on_frame_outstanding
  by (cases ev) (auto simp: ends_question_def spend_proof_def give_proof_back_def start_accepted_def)

text \<open>C23. No resume is ever pipelined. Whatever a connection reads and whenever: a step sends a resume only when none is
  out, at most one, and that one is then out; and a resume that is out stays out until its own answer is read or,
  for a recovery, its budget has passed.
\<close>
theorem resumes_are_never_pipelined:
  "let c = connection generation epoch k s; c' = snd (link_step ev c) in
     cn_resumes c' = cn_resumes c
       \<and> (outstanding (cn_attach c') = outstanding (cn_attach c) \<or> outstanding (cn_attach c') = None \<and> ends_question ev c)
   \<or> outstanding (cn_attach c) = None
       \<and> (\<exists>t. cn_resumes c' = cn_resumes c @ [(cn_next_id c, t)] \<and> outstanding (cn_attach c') = Some (cn_next_id c))"
  using link_step_ok(3) [where ev = ev, OF connection_inv refl, of generation epoch k s] question_ends [of "connection generation epoch k s" _ ev]
  by (cases "outstanding (cn_attach (connection generation epoch k s))") (auto simp: resumes_ok_def Let_def)

text \<open>A generation is one thread's, and the running turn is the visit's. No step of a connection changes the
  upstream epoch; a step either keeps the generation and with it the thread the visit is on, if it is on one, or
  advances the generation by one; and the turn the link takes to be running is one of that thread and generation.
\<close>
theorem generation_is_one_threads:
  "let c = connection generation epoch k s; v = cn_visit c; v' = cn_visit (snd (link_step ev c)) in
     vi_upstream_epoch v' = vi_upstream_epoch v
     \<and> (vi_generation v' = vi_generation v \<and> (vi_thread_id v = None \<or> vi_thread_id v' = vi_thread_id v)
        \<or> vi_generation v' = vi_generation v + 1)
     \<and> (case cn_running_turn c of None \<Rightarrow> True
        | Some r \<Rightarrow> rt_generation r = vi_generation v \<and> vi_thread_id v = Some (rt_thread_id r))"
  using link_step_ok(2) [where ev = ev, OF connection_inv refl, of generation epoch k s] connection_inv [of generation epoch k s]
  by (auto simp: Let_def visit_follows_def visit_kept_def attach_inv_def running_ok_def conn_bound_def split: option.split)

lemma asked_deadline:
  assumes "d = ask_again now (hurry_resume now (ask_owed now c))" "at_rest (cn_attach c)"
    "attach_deadline (cn_attach d) = Some w"
  shows "now < w"
proof -
  have budget: "now < now + RESUME_BUDGET" by (simp add: RESUME_BUDGET_def)
  define a where "a = ask_owed now c"
  define b where "b = hurry_resume now a"
  have d: "d = ask_again now b" by (simp add: b_def a_def assms(1))
  have a: "at_rest (cn_attach a) \<or> attach_deadline (cn_attach a) = Some (now + RESUME_BUDGET)"
    using ask_owed_cases [of now c] assms(2) by (auto simp: a_def attach_deadline_def)
  have b: "cn_attach b = cn_attach a \<or> (\<exists>u n. cn_attach b = AtBackoff u n)"
    using hurry_resume_cases [of now a] by (auto simp: b_def due_now_def)
  show ?thesis
  proof (cases rule: ask_again_cases [where now = now and c = b])
    case kept
    then have w: "attach_deadline (cn_attach b) = Some w" using assms(3) d by simp
    show ?thesis
    proof (cases "\<exists>u n. cn_attach b = AtBackoff u n")
      case True
      with kept(2) w show ?thesis by (auto simp: attach_deadline_def)
    next
      case False
      with a b have "at_rest (cn_attach b) \<or> attach_deadline (cn_attach b) = Some (now + RESUME_BUDGET)" by auto
      with False w budget show ?thesis by (cases "cn_attach b") (simp_all add: attach_deadline_def)
    qed
  qed (use d assms(3) budget in \<open>simp_all add: attach_deadline_def\<close>)
qed

lemma at_rest_leaving: "at_rest (cn_attach (leaving_recovery now c))"
  using asks_nothing_apply_held [of "c\<lparr>cn_attach := (if follow_up_owed c then due_now now else AtAttached)\<rparr>" now]
  by (simp add: leaving_recovery_def asks_nothing_def at_rest_outstanding due_now_def split: if_splits)

lemma loop_head_rest:
  assumes "loop_head now c = (True, c')"
  shows "at_rest (cn_attach c') \<or> (\<exists>w. attach_deadline (cn_attach c') = Some w \<and> now < w)"
proof -
  define d where "d = ask_again now (hurry_resume now (ask_owed now c))"
  from assms show ?thesis
    unfolding loop_head_eq Let_def d_def [symmetric]
    by (cases "cn_attach d") (auto simp: at_rest_leaving attach_deadline_def split: if_splits)
qed

lemma loop_head_at_rest:
  assumes "loop_head now c = (True, c')" "at_rest (cn_attach c)" "attach_deadline (cn_attach c') = Some w"
  shows "now < w"
proof -
  define d where "d = ask_again now (hurry_resume now (ask_owed now c))"
  have d: "attach_deadline (cn_attach d) = Some v \<Longrightarrow> now < v" for v
    by (rule asked_deadline [OF d_def assms(2)])
  from assms(1) have "cn_attach c' = cn_attach d"
    unfolding loop_head_eq Let_def d_def [symmetric]
    using d by (cases "cn_attach d") (auto simp: attach_deadline_def split: if_splits)
  with assms(3) d show ?thesis by simp
qed

lemma loop_head_outstanding_at_rest:
  assumes "loop_head now c = (True, c')" "attach_deadline (cn_attach c') = Some w" "w \<le> now"
  shows "at_rest (cn_attach c')"
  using loop_head_rest [OF assms(1)] assms(2,3) by auto

text \<open>C24. The loop cannot spin. Whatever state the loop is in, when it passes its top twice at one time the wait it
  comes to then has an end that lies ahead, or is for the next message alone, or the connection has ended: a
  deadline that has passed is always consumed.
\<close>
theorem loop_consumes_elapsed_deadlines:
  "case loop_head now c of (False, c') \<Rightarrow> True | (True, c') \<Rightarrow>
    (case attach_deadline (cn_attach c') of None \<Rightarrow> True | Some w \<Rightarrow> now < w \<or>
      (case loop_head now c' of (False, c'') \<Rightarrow> True | (True, c'') \<Rightarrow>
        (case attach_deadline (cn_attach c'') of None \<Rightarrow> True | Some w \<Rightarrow> now < w)))"
proof (cases "loop_head now c")
  case (Pair k c')
  obtain l c'' where l: "loop_head now c' = (l, c'')" by (cases "loop_head now c'")
  have "now < v \<or> now < w" if "k" "l" "attach_deadline (cn_attach c') = Some v" "attach_deadline (cn_attach c'') = Some w" for v w
    using that loop_head_outstanding_at_rest [of now c c' v] loop_head_at_rest [of now c' c'' w] Pair l by fastforce
  with Pair l show ?thesis
    by (auto split: bool.split option.split)
qed

end
