(* ===== verification/Ccd_Attach_Owed.thy ===== *)
theory Ccd_Attach_Owed
  imports Ccd_Attach_Props
begin

text \<open>
  What a link owes a thread it left: how many recoveries it carries, how long it waits between its questions, and
  that an obligation is dropped only when it is met, given up, or pushed out by newer ones.
\<close>

section \<open>What is carried\<close>

abbreviation still_owed :: "conn \<Rightarrow> string list" where
  "still_owed c \<equiv> ca_owed_recovery (cn_carried c)"

text \<open>The obligations, this connection's queue of them and its count of refusals are as they were.\<close>

definition same_dues :: "conn \<Rightarrow> conn \<Rightarrow> bool" where
  "same_dues c c' \<longleftrightarrow> still_owed c' = still_owed c \<and> cn_owed_recovery c' = cn_owed_recovery c
     \<and> cn_unadopted_retries c' = cn_unadopted_retries c \<and> cn_fallback_due c' = cn_fallback_due c"

lemma same_dues_refl [simp]: "same_dues c c"
  by (simp add: same_dues_def)

lemma same_dues_trans: "same_dues a b \<Longrightarrow> same_dues b c \<Longrightarrow> same_dues a c"
  by (simp add: same_dues_def)

lemma same_dues_rest: "rest_of c' = rest_of c \<Longrightarrow> same_dues c c'"
  by (frule rest_of_fields(3), frule rest_of_fields(5), frule rest_of_fields(8), drule rest_of_fields(11))
    (simp add: same_dues_def)

lemma same_dues_note_switch: "same_dues c (snd (note_switch_candidate frame c))"
  by (auto simp: same_dues_def note_switch_candidate_def bind_or_follow_def Let_def move_visit_to_def
      split: frame_thread.split option.split)

lemma same_dues_observe: "same_dues c (observe_notification now frame ms c)"
proof -
  obtain sw d where d: "note_switch_candidate frame c = (sw, d)"
    by (cases "note_switch_candidate frame c")
  have k: "same_dues c d"
    using same_dues_note_switch [of c frame] d by simp
  show ?thesis
    unfolding observe_notification_def d by (rule same_dues_trans [OF k same_dues_rest]) simp
qed

lemma same_dues_follow: "same_dues c (follow_binding now c)"
  by (simp add: same_dues_def follow_binding_eq split: option.split)

lemma owed_attach_from_seed:
  assumes "attach_from_seed seed t c = (ok, c')"
  shows "still_owed c' = still_owed c" "cn_unadopted_retries c' \<le> cn_unadopted_retries c"
  using assms by (auto simp: attach_from_seed_def Let_def split: if_splits option.splits)

lemma owed_apply_held:
  "still_owed (apply_held_candidate now c) = still_owed c
   \<or> (\<exists>r. still_owed (apply_held_candidate now c) = ca_owed_recovery (owe_recovery r (cn_carried c)))"
  by (rule apply_held_cases [of now c]) (auto simp: owe_recovery_def)

lemma owed_take_fallback:
  "still_owed (take_fallback c) = still_owed c
   \<or> (\<exists>p. cn_fallback_due c \<and> ca_fallback (cn_carried c) = Some p \<and> still_owed (take_fallback c) = filter (\<lambda>x. x \<noteq> p) (still_owed c))"
  by (auto simp: take_fallback_def Let_def revert_visit_to_def split: option.split)

section \<open>Bounds\<close>

definition delay_ok :: "attach \<Rightarrow> bool" where
  "delay_ok a = (case a of AtBackoff u n \<Rightarrow> ATTACH_BACKOFF_MIN \<le> n \<and> n \<le> ATTACH_BACKOFF_MAX
     | AtAwaiting i d n t superseded \<Rightarrow> ATTACH_BACKOFF_MIN \<le> n \<and> n \<le> ATTACH_BACKOFF_MAX | _ \<Rightarrow> True)"

definition bounds_ok :: "conn \<Rightarrow> bool" where
  "bounds_ok c \<longleftrightarrow> length (still_owed c) \<le> OWED_RECOVERY_DEPTH \<and> distinct (still_owed c)
     \<and> length (cn_owed_recovery c) \<le> OWED_RECOVERY_DEPTH \<and> cn_unadopted_retries c \<le> ADOPTION_RETRIES
     \<and> delay_ok (cn_attach c)"

lemma owe_recovery_bounds:
  assumes "length (ca_owed_recovery k) \<le> OWED_RECOVERY_DEPTH" "distinct (ca_owed_recovery k)"
  shows "length (ca_owed_recovery (owe_recovery t k)) \<le> OWED_RECOVERY_DEPTH" "distinct (ca_owed_recovery (owe_recovery t k))"
  using assms
  by (cases "ca_owed_recovery k"; auto simp: owe_recovery_def OWED_RECOVERY_DEPTH_def ADOPTION_RETRIES_def)+

lemma owe_recovery_keeps:
  assumes "t \<in> set (ca_owed_recovery k)" "t \<notin> set (ca_owed_recovery (owe_recovery r k))"
  shows "OWED_RECOVERY_DEPTH \<le> length (ca_owed_recovery k) \<and> t = hd (ca_owed_recovery k)"
  using assms by (cases "ca_owed_recovery k") (auto simp: owe_recovery_def split: if_splits)

lemma delay_ok_due_now [simp]: "delay_ok (due_now now)"
  by (simp add: delay_ok_def due_now_def ATTACH_BACKOFF_MIN_def ATTACH_BACKOFF_MAX_def)

lemma delay_ok_redirect [simp]: "delay_ok (redirect now b a) = delay_ok a"
  by (cases a) (simp_all add: redirect_def delay_ok_def due_now_def ATTACH_BACKOFF_MIN_def ATTACH_BACKOFF_MAX_def)

lemma bounds_same_dues:
  assumes "bounds_ok c" "same_dues c c'" "delay_ok (cn_attach c')"
  shows "bounds_ok c'"
  using assms by (simp add: bounds_ok_def same_dues_def)

lemma bounds_apply_held:
  assumes "bounds_ok c"
  shows "bounds_ok (apply_held_candidate now c)"
proof -
  have "cn_owed_recovery (apply_held_candidate now c) = cn_owed_recovery c
      \<and> cn_unadopted_retries (apply_held_candidate now c) \<le> cn_unadopted_retries c
      \<and> (cn_attach (apply_held_candidate now c) = cn_attach c \<or> cn_attach (apply_held_candidate now c) = due_now now)"
    by (rule apply_held_cases [of now c]) simp_all
  with assms owed_apply_held [of now c] owe_recovery_bounds [of "cn_carried c"] show ?thesis
    by (auto simp: bounds_ok_def)
qed

lemma bounds_set_attach: "bounds_ok c \<Longrightarrow> delay_ok a \<Longrightarrow> bounds_ok (c\<lparr>cn_attach := a\<rparr>)"
  by (simp add: bounds_ok_def)

lemma bounds_filter: "bounds_ok c \<Longrightarrow> bounds_ok (on_carried (discharge_recovery t) c)"
  by (auto simp: bounds_ok_def discharge_recovery_def intro: order_trans [OF length_filter_le])

lemma bounds_leaving: "bounds_ok c \<Longrightarrow> bounds_ok (leaving_recovery now c)"
  unfolding leaving_recovery_def by (intro bounds_apply_held bounds_set_attach) (simp_all add: delay_ok_def [of AtAttached])

lemma bounds_after_frame: "bounds_ok c \<Longrightarrow> bounds_ok (snd (after_frame now c))"
  by (auto simp: after_frame_eq Let_def intro: bounds_set_attach bounds_apply_held)

lemma settle_resume_bounds:
  assumes "settle_resume now frame t n fb seed c = (a, c')" "bounds_ok c"
    "ATTACH_BACKOFF_MIN \<le> n" "n \<le> ATTACH_BACKOFF_MAX"
  shows "still_owed c' = still_owed c" "cn_owed_recovery c' = cn_owed_recovery c" "cn_unadopted_retries c' \<le> ADOPTION_RETRIES"
    "pred_option delay_ok a" "cn_attach c' = cn_attach c"
proof -
  have longer: "delay_ok (AtBackoff u (min (n * 2) ATTACH_BACKOFF_MAX))" "delay_ok (AtBackoff u n)" "delay_ok AtRefused"
    "delay_ok AtAttached" for u
    using assms(3,4) by (simp_all add: delay_ok_def ATTACH_BACKOFF_MIN_def ATTACH_BACKOFF_MAX_def)
  have seed: "attach_from_seed sd t c = (k, d) \<Longrightarrow> still_owed d = still_owed c \<and> cn_owed_recovery d = cn_owed_recovery c
      \<and> cn_unadopted_retries d \<le> ADOPTION_RETRIES \<and> cn_attach d = cn_attach c" for sd k d
    using owed_attach_from_seed [of sd t c k d] attach_from_seed_visit(2,6) [of sd t c k d] assms(2) by (auto simp: bounds_ok_def)
  have "still_owed c' = still_owed c \<and> cn_owed_recovery c' = cn_owed_recovery c \<and> cn_unadopted_retries c' \<le> ADOPTION_RETRIES
    \<and> pred_option delay_ok a \<and> cn_attach c' = cn_attach c"
    using assms(1,2) longer
    by (auto simp: settle_resume_def Let_def bounds_ok_def split: if_splits option.splits prod.splits bool.splits dest!: seed)
  then show "still_owed c' = still_owed c" "cn_owed_recovery c' = cn_owed_recovery c" "cn_unadopted_retries c' \<le> ADOPTION_RETRIES"
    "pred_option delay_ok a" "cn_attach c' = cn_attach c" by simp_all
qed

lemma answer_awaited_bounds:
  assumes "answer_awaited now frame seed n t u c = (k, c')" "bounds_ok c" "ATTACH_BACKOFF_MIN \<le> n" "n \<le> ATTACH_BACKOFF_MAX"
  shows "bounds_ok c'" "still_owed c' = still_owed c"
proof -
  obtain a d where d: "settle_resume now frame t n (ca_fallback (cn_carried c) \<noteq> None) seed c = (a, d)"
    by (cases "settle_resume now frame t n (ca_fallback (cn_carried c) \<noteq> None) seed c")
  note b = settle_resume_bounds [OF d assms(2-4)]
  have att: "delay_ok AtAttached" by (simp add: delay_ok_def)
  have "bounds_ok c' \<and> still_owed c' = still_owed c"
    using assms(1,2) b d att
    by (cases u; cases a) (auto simp: answer_awaited_def Let_def bounds_ok_def split: if_splits)
  then show "bounds_ok c'" "still_owed c' = still_owed c" by simp_all
qed

lemma bounds_behind_facts:
  "bounds_ok (behind_facts now frame minted c) = bounds_ok c" "still_owed (behind_facts now frame minted c) = still_owed c"
proof -
  define e where "e = (if \<not> is_our_response frame c \<and> frame_kind_of frame = NotificationFrame
    then observe_notification now frame minted c else c)"
  have e: "keeps c e" "same_dues c e"
    by (simp_all add: e_def keeps_observe same_dues_observe)
  have "same_dues c (follow_binding now e)"
    by (rule same_dues_trans [OF e(2) same_dues_follow])
  moreover have "delay_ok (cn_attach (follow_binding now e)) = delay_ok (cn_attach c)"
    using e(1) by (simp add: follow_binding_eq keeps_def split: option.split)
  ultimately show "bounds_ok (behind_facts now frame minted c) = bounds_ok c"
      "still_owed (behind_facts now frame minted c) = still_owed c"
    by (simp_all add: behind_facts_def e_def [symmetric] bounds_ok_def same_dues_def)
qed

lemma bounds_on_frame:
  assumes "bounds_ok c"
  shows "bounds_ok (snd (on_frame now frame minted seed c))"
proof (cases rule: on_frame_cases [of now frame minted seed c])
  case expired
  with assms show ?thesis by simp
next
  case (recovery d i w t k e)
  have "bounds_ok d" using recovery(1) bounds_behind_facts assms by simp
  with recover_from_rest(1) [OF recovery(4)] have "bounds_ok e"
    using bounds_same_dues [OF _ same_dues_rest] rest_of_fields(12) bounds_ok_def by metis
  with recovery(5) show ?thesis by (simp add: bounds_leaving bounds_filter)
next
  case (answer d i w n t u k e)
  have d: "bounds_ok d" using answer(1) bounds_behind_facts assms by simp
  then have "ATTACH_BACKOFF_MIN \<le> n" "n \<le> ATTACH_BACKOFF_MAX"
    using answer(3) by (simp_all add: bounds_ok_def delay_ok_def)
  from answer_awaited_bounds(1) [OF answer(4) d this] answer(5) show ?thesis
    by (simp add: bounds_after_frame)
next
  case (other d)
  then show ?thesis using bounds_behind_facts assms by (simp add: bounds_after_frame)
qed

lemma take_fallback_bounds:
  assumes "bounds_ok c"
  shows "bounds_ok (take_fallback c)"
proof -
  have "cn_owed_recovery (take_fallback c) = cn_owed_recovery c \<and> cn_unadopted_retries (take_fallback c) = cn_unadopted_retries c
      \<and> cn_attach (take_fallback c) = cn_attach c"
    by (simp add: take_fallback_def Let_def revert_visit_to_def split: option.split)
  with assms owed_take_fallback [of c] show ?thesis
    by (auto simp: bounds_ok_def intro: order_trans [OF length_filter_le])
qed

lemma bounds_asking:
  assumes "bounds_ok c"
  shows "bounds_ok (ask_again now (hurry_resume now (ask_owed now c)))"
proof -
  define a where "a = ask_owed now c"
  define b where "b = hurry_resume now a"
  have "bounds_ok a"
    using ask_owed_cases [of now c] assms by (auto simp: a_def bounds_ok_def delay_ok_def)
  then have b: "bounds_ok b"
    using hurry_resume_cases [of now a] by (auto simp: b_def bounds_ok_def)
  have "bounds_ok (ask_again now b)"
  proof (cases rule: ask_again_cases [where now = now and c = b])
    case (unbound u n)
    with take_fallback_bounds [OF b] show ?thesis by (simp add: bounds_ok_def delay_ok_def)
  next
    case (asks u n d t)
    with take_fallback_bounds [OF b] b show ?thesis by (simp add: bounds_ok_def delay_ok_def)
  qed (use b in simp)
  then show ?thesis by (simp add: a_def b_def)
qed

lemma bounds_expire: "bounds_ok (expire_start_in_flight now c) = bounds_ok c"
  by (simp add: bounds_ok_def)

lemma bounds_loop_head: "bounds_ok c \<Longrightarrow> bounds_ok (snd (loop_head now c))"
  using bounds_asking [of c now]
  by (cases rule: loop_head_cases [of now c]) (auto simp: bounds_expire bounds_leaving bounds_filter)

lemma bounds_updates [simp]:
  "bounds_ok (c\<lparr>cn_next_id := n\<rparr>) = bounds_ok c" "bounds_ok (c\<lparr>cn_not_ready_thread := y\<rparr>) = bounds_ok c"
  "bounds_ok (c\<lparr>cn_start_in_flight := z\<rparr>) = bounds_ok c" "bounds_ok (c\<lparr>cn_resume_due_now := b\<rparr>) = bounds_ok c"
  by (simp_all add: bounds_ok_def)

lemma bounds_link_step: "bounds_ok c \<Longrightarrow> bounds_ok (snd (link_step ev c))"
  by (cases ev) (simp_all add: bounds_loop_head bounds_on_frame spend_proof_def give_proof_back_def start_accepted_def)

lemma bounds_link_run: "bounds_ok c \<Longrightarrow> bounds_ok (link_run evs c)"
proof (induction evs arbitrary: c)
  case (Cons ev evs)
  with bounds_link_step [OF Cons.prems, of ev] show ?case
    by (cases "link_step ev c"; cases "fst (link_step ev c)") simp_all
qed simp

definition carried_ok :: "carried \<Rightarrow> bool" where
  "carried_ok k \<longleftrightarrow> length (ca_owed_recovery k) \<le> OWED_RECOVERY_DEPTH \<and> distinct (ca_owed_recovery k)"

lemma same_dues_handshake:
  "same_dues c (fold (\<lambda>(at, frame, minted) c. if frame_kind_of frame = NotificationFrame
     then observe_notification at frame minted c else c) frames c)"
proof (induction frames arbitrary: c)
  case (Cons f frames)
  show ?case
    by (cases f) (auto intro: Cons.IH same_dues_trans [OF same_dues_observe Cons.IH])
qed simp

lemma bounds_handshaken:
  assumes "carried_ok k"
  shows "bounds_ok (handshaken now frames (new_conn generation epoch k))"
proof -
  define c where "c = (new_conn generation epoch k)\<lparr>cn_next_id := cn_next_id (new_conn generation epoch k) + 1\<rparr>"
  define d where "d = fold (\<lambda>(at, frame, minted) c. if frame_kind_of frame = NotificationFrame
     then observe_notification at frame minted c else c) frames c"
  define e where "e = (case conn_bound d of Some b \<Rightarrow> d\<lparr>cn_resume_target := Some b\<rparr> | None \<Rightarrow> d)"
  have eq: "handshaken now frames (new_conn generation epoch k)
      = e\<lparr>cn_attach := (if cn_resume_target e \<noteq> None then due_now now else AtUnbound)\<rparr>"
    by (simp only: handshaken_def Let_def c_def [symmetric] d_def [symmetric] e_def)
  have "same_dues c d" unfolding d_def by (rule same_dues_handshake)
  then have "same_dues c e" by (simp add: same_dues_def e_def split: option.split)
  moreover have "still_owed c = ca_owed_recovery k" "cn_owed_recovery c = []" "cn_unadopted_retries c = 0"
    by (simp_all add: c_def new_conn_def)
  ultimately show ?thesis
    using assms by (simp add: eq bounds_ok_def same_dues_def carried_ok_def delay_ok_def [of AtUnbound])
qed

lemma bounds_connection: "carried_ok k \<Longrightarrow> bounds_ok (connection generation epoch k s)"
  unfolding connection_def by (cases s) (simp add: bounds_link_run bounds_handshaken)

lemma carried_ok_life: "carried_ok k \<Longrightarrow> carried_ok (link_life generation epoch k ss)"
proof (induction ss arbitrary: epoch k)
  case (Cons s ss)
  have "carried_ok (cn_carried (connection generation (epoch + 1) k s))"
    using bounds_connection [OF Cons.prems, of generation "epoch + 1" s] by (simp add: carried_ok_def bounds_ok_def)
  then show ?case by (simp add: Cons.IH)
qed simp

text \<open>What a link owes and how it waits is bounded, through all its connections and at every point of the next:
  it carries at most five recoveries, each thread once, and has at most five of its own to ask; it counts at most
  five refusals of a candidate; and the delay it next waits between two questions is between half a second and
  thirty seconds.
\<close>
theorem link_dues_are_bounded:
  "let c = connection generation epoch (link_life generation first_epoch (first_carried hint) ss) s in
     length (ca_owed_recovery (cn_carried c)) \<le> OWED_RECOVERY_DEPTH \<and> distinct (ca_owed_recovery (cn_carried c))
     \<and> length (cn_owed_recovery c) \<le> OWED_RECOVERY_DEPTH \<and> cn_unadopted_retries c \<le> ADOPTION_RETRIES
     \<and> (case cn_attach c of
          AtBackoff until next_delay \<Rightarrow> ATTACH_BACKOFF_MIN \<le> next_delay \<and> next_delay \<le> ATTACH_BACKOFF_MAX
        | AtAwaiting i deadline next_delay t superseded \<Rightarrow> ATTACH_BACKOFF_MIN \<le> next_delay \<and> next_delay \<le> ATTACH_BACKOFF_MAX
        | _ \<Rightarrow> True)"
  using bounds_connection [OF carried_ok_life, of "first_carried hint" generation epoch generation first_epoch ss s]
  by (simp add: Let_def bounds_ok_def delay_ok_def carried_ok_def first_carried_def)

section \<open>How an obligation ends\<close>

lemma apply_held_keeps:
  assumes "t \<in> set (still_owed c)" "t \<notin> set (still_owed (apply_held_candidate now c))"
  shows "OWED_RECOVERY_DEPTH \<le> length (still_owed c)" "t = hd (still_owed c)"
  using owed_apply_held [of now c] owe_recovery_keeps [of t "cn_carried c"] assms by auto

lemma leaving_keeps:
  assumes "t \<in> set (still_owed c)" "t \<notin> set (still_owed (leaving_recovery now c))"
  shows "OWED_RECOVERY_DEPTH \<le> length (still_owed c)" "t = hd (still_owed c)"
  using assms apply_held_keeps [of t "c\<lparr>cn_attach := _\<rparr>" now] unfolding leaving_recovery_def by auto

lemma discharging_keeps:
  assumes "t \<in> set (still_owed c)" "t \<notin> set (still_owed (leaving_recovery now (on_carried (discharge_recovery u) c)))"
    "length (still_owed c) \<le> OWED_RECOVERY_DEPTH" "t \<noteq> u"
  shows "length (still_owed c) = OWED_RECOVERY_DEPTH" "t = hd (still_owed c)"
proof -
  let ?d = "on_carried (discharge_recovery u) c"
  have "t \<in> set (still_owed ?d)" using assms(1,4) by (simp add: discharge_recovery_def)
  note full = leaving_keeps [OF this assms(2)]
  have "still_owed ?d = still_owed c"
  proof (rule ccontr)
    assume "still_owed ?d \<noteq> still_owed c"
    then have "length (still_owed ?d) < length (still_owed c)"
      by (simp add: discharge_recovery_def length_filter_less filter_id_conv)
    with full(1) assms(3) show False by simp
  qed
  with full assms(3) show "length (still_owed c) = OWED_RECOVERY_DEPTH" "t = hd (still_owed c)" by simp_all
qed

lemma after_frame_keeps:
  assumes "t \<in> set (still_owed c)" "t \<notin> set (still_owed (snd (after_frame now c)))"
  shows "OWED_RECOVERY_DEPTH \<le> length (still_owed c)" "t = hd (still_owed c)"
  using assms apply_held_keeps [of t c now] by (auto simp: after_frame_eq Let_def split: if_splits)

lemma asking_keeps:
  assumes "t \<in> set (still_owed c)" "d = ask_again now (hurry_resume now (ask_owed now c))" "t \<notin> set (still_owed d)"
  shows "at_rest (cn_attach c)" "cn_fallback_due c" "ca_fallback (cn_carried c) = Some t" "snd (last (cn_resumes d)) = t"
proof -
  define b where "b = hurry_resume now (ask_owed now c)"
  have b: "still_owed b = still_owed c" "cn_carried b = cn_carried c" "cn_fallback_due b = cn_fallback_due c"
    using ask_owed_cases [of now c] hurry_resume_cases [of now "ask_owed now c"] by (auto simp: b_def)
  have d: "d = ask_again now b" by (simp add: assms(2) b_def)
  have lost: "\<exists>u n. cn_attach b = AtBackoff u n" "t \<notin> set (still_owed (take_fallback b))"
      "snd (last (cn_resumes d)) = t \<or> cn_resume_target (take_fallback b) \<noteq> Some t"
    using assms(1,3) b(1) d by (cases rule: ask_again_cases [where now = now and c = b], simp_all)+
  have fall: "cn_fallback_due b \<and> ca_fallback (cn_carried b) = Some t"
    using owed_take_fallback [of b] lost(2) assms(1) b(1) by auto
  then have "cn_resume_target (take_fallback b) = Some t"
    by (simp add: take_fallback_def Let_def)
  moreover have "at_rest (cn_attach c)"
    using lost(1) ask_owed_cases [of now c] hurry_resume_cases [of now "ask_owed now c"] by (auto simp: b_def)
  ultimately show "at_rest (cn_attach c)" "cn_fallback_due c" "ca_fallback (cn_carried c) = Some t" "snd (last (cn_resumes d)) = t"
    using lost(3) fall b by simp_all
qed

text \<open>An answer that leaves nothing to ask for: unreadable, or filed whole with no turn still running.\<close>

definition tells_all :: "json \<Rightarrow> resume_seed option \<Rightarrow> bool" where
  "tells_all frame seed \<longleftrightarrow> (case (if jget ''error'' frame = None \<and> jget ''result'' frame \<noteq> None then seed else None) of
     None \<Rightarrow> True
   | Some sd \<Rightarrow> sd_placed sd \<and> sd_filed sd \<and> sd_running_turn_ids sd = [] \<and> sd_unsettled_turn_id sd = None)"

lemma recover_from_tells:
  "recover_from frame t seed c = (True, c') \<Longrightarrow> tells_all frame seed"
  by (auto simp: recover_from_def tells_all_def Let_def split: option.splits if_splits)

lemma behind_facts_recovering:
  assumes "cn_attach (behind_facts now frame minted c) = AtRecovering i w t"
  shows "cn_attach c = AtRecovering i w t"
proof -
  define e where "e = (if \<not> is_our_response frame c \<and> frame_kind_of frame = NotificationFrame
    then observe_notification now frame minted c else c)"
  have "cn_attach e = cn_attach c" using keeps_observe [of c now frame minted] by (simp add: e_def keeps_def)
  with assms show ?thesis
    by (auto simp: behind_facts_def e_def [symmetric] follow_binding_eq redirect_def due_now_def split: option.splits attach.splits)
qed

lemma on_frame_keeps:
  assumes "t \<in> set (still_owed c)" "t \<notin> set (still_owed (snd (on_frame now frame minted seed c)))"
    "length (still_owed c) \<le> OWED_RECOVERY_DEPTH" "bounds_ok c"
  shows "length (still_owed c) = OWED_RECOVERY_DEPTH \<and> t = hd (still_owed c)
    \<or> is_our_response frame c \<and> (\<exists>i w. cn_attach c = AtRecovering i w t) \<and> tells_all frame seed"
proof (cases rule: on_frame_cases [of now frame minted seed c])
  case expired
  with assms show ?thesis by simp
next
  case (recovery d i w u k e)
  have e: "still_owed e = still_owed c"
    using rest_of_fields(8) [OF recover_from_rest(1) [OF recovery(4)]] bounds_behind_facts(2) recovery(1) by simp
  note c = behind_facts_recovering [of now frame minted c i w u, folded recovery(1), OF recovery(3)]
  show ?thesis
  proof (cases "k \<and> t = u")
    case True
    with recover_from_tells [of frame u seed d e] recovery(2,4) c show ?thesis by auto
  next
    case False
    with discharging_keeps [of t e now u] leaving_keeps [of t e now] assms e recovery(5) show ?thesis
      by (cases k) auto
  qed
next
  case (answer d i w n t' u k e)
  have "bounds_ok d" using answer(1) bounds_behind_facts assms(4) by simp
  moreover from this have "ATTACH_BACKOFF_MIN \<le> n" "n \<le> ATTACH_BACKOFF_MAX"
    using answer(3) by (simp_all add: bounds_ok_def delay_ok_def)
  ultimately have "still_owed e = still_owed c"
    using answer_awaited_bounds(2) [OF answer(4)] bounds_behind_facts(2) answer(1) by simp
  with after_frame_keeps [of t e now] assms answer(5) show ?thesis by (cases k) auto
next
  case (other d)
  with after_frame_keeps [of t d now] bounds_behind_facts(2) assms show ?thesis by auto
qed

lemma loop_head_keeps:
  assumes "t \<in> set (still_owed c)" "t \<notin> set (still_owed (snd (loop_head now c)))"
    "length (still_owed c) \<le> OWED_RECOVERY_DEPTH"
  shows "length (still_owed c) = OWED_RECOVERY_DEPTH \<and> t = hd (still_owed c)
    \<or> (\<exists>i w. cn_attach c = AtRecovering i w t \<and> w \<le> now)
    \<or> at_rest (cn_attach c) \<and> cn_fallback_due c \<and> ca_fallback (cn_carried c) = Some t
        \<and> snd (last (cn_resumes (snd (loop_head now c)))) = t"
proof (cases rule: loop_head_cases [of now c])
  case (plain d)
  then have "still_owed (snd (loop_head now c)) = still_owed d" "cn_resumes (snd (loop_head now c)) = cn_resumes d" by auto
  with asking_keeps [OF assms(1) plain(1)] assms(2) show ?thesis by simp
next
  case (gives_up i w u d)
  have d: "d = c\<lparr>cn_resume_due_now := False\<rparr>"
    using ask_owed_deadline gives_up(1-3) by simp
  show ?thesis
  proof (cases "t = u")
    case True
    moreover have "cn_attach c = AtRecovering i w u" using gives_up(2) unfolding d by simp
    ultimately show ?thesis using gives_up(3) by blast
  next
    case False
    with discharging_keeps [of t d now u] assms gives_up(4) d show ?thesis by simp
  qed
qed

text \<open>C25. What a link owes a thread it left is not forgotten. A recovery it carries is dropped only when an answer to
  the question about that thread was read that leaves nothing to ask for, when that question's budget has passed,
  when the link falls back to that thread and asks about it, or when five are owed and it is the oldest.
\<close>
theorem owed_recovery_is_kept:
  assumes "bounds_ok c" "t \<in> set (ca_owed_recovery (cn_carried c))"
    "t \<notin> set (ca_owed_recovery (cn_carried (snd (link_step ev c))))"
  shows "length (ca_owed_recovery (cn_carried c)) = OWED_RECOVERY_DEPTH \<and> t = hd (ca_owed_recovery (cn_carried c))
    \<or> (case ev of
         PassesTheTop now \<Rightarrow> (case cn_attach c of AtRecovering i deadline u \<Rightarrow> u = t \<and> deadline \<le> now
           | _ \<Rightarrow> cn_fallback_due c \<and> ca_fallback (cn_carried c) = Some t \<and> snd (last (cn_resumes (snd (link_step ev c)))) = t)
       | Reads now frame minted seed \<Rightarrow> is_our_response frame c \<and> tells_all frame seed
           \<and> (case cn_attach c of AtRecovering i deadline u \<Rightarrow> u = t | _ \<Rightarrow> False)
       | _ \<Rightarrow> False)"
proof (cases ev)
  case (PassesTheTop now)
  with loop_head_keeps [of t c now] assms show ?thesis
    by (auto simp: bounds_ok_def split: attach.split)
next
  case (Reads now frame minted seed)
  with on_frame_keeps [of t c now frame minted seed] assms show ?thesis
    by (auto simp: bounds_ok_def split: attach.split)
qed (use assms in \<open>simp_all add: spend_proof_def give_proof_back_def start_accepted_def split: if_splits\<close>)

lemma owed_recovery_is_kept_witness:
  "let c = (new_conn 1 1 ((first_carried None)\<lparr>ca_owed_recovery := [''t1'']\<rparr>))\<lparr>cn_attach := AtRecovering 3 0 ''t1''\<rparr> in
     length (ca_owed_recovery (cn_carried c)) = OWED_RECOVERY_DEPTH \<and> ''t1'' = hd (ca_owed_recovery (cn_carried c))
     \<or> (case cn_attach c of AtRecovering i deadline u \<Rightarrow> u = ''t1'' \<and> deadline \<le> 5
           | _ \<Rightarrow> cn_fallback_due c \<and> ca_fallback (cn_carried c) = Some ''t1''
               \<and> snd (last (cn_resumes (snd (link_step (PassesTheTop 5) c)))) = ''t1'')"
  using owed_recovery_is_kept [of "(new_conn 1 1 ((first_carried None)\<lparr>ca_owed_recovery := [''t1'']\<rparr>))\<lparr>cn_attach := AtRecovering 3 0 ''t1''\<rparr>"
      "''t1''" "PassesTheTop 5"]
  by (simp add: Let_def bounds_ok_def delay_ok_def new_conn_def first_carried_def OWED_RECOVERY_DEPTH_def ADOPTION_RETRIES_def
      loop_head_def ask_owed_def hurry_resume_def ask_again_def leaving_recovery_def apply_held_candidate_def
      on_carried_def discharge_recovery_def expire_start_in_flight_def follow_up_owed_def conn_bound_def)

end
