(* ===== verification/Protocol_Event.thy ===== *)
theory Protocol_Event
  imports Broker_Json
begin

text \<open>
  The facts of the event log (\<open>protocol/src/event.rs\<close>): what they are of, where they come from, and how kinds and
  sources are spelled in storage. A fact's timestamp is left out.
\<close>

datatype event_source = HookSource | TranscriptSource | DaemonSource | CodexSource | PtySource | UnknownSource

definition source_str :: "event_source \<Rightarrow> string" where
  "source_str s = (case s of HookSource \<Rightarrow> ''hook'' | TranscriptSource \<Rightarrow> ''transcript'' | DaemonSource \<Rightarrow> ''daemon''
     | CodexSource \<Rightarrow> ''codex'' | PtySource \<Rightarrow> ''pty'' | UnknownSource \<Rightarrow> ''unknown'')"

definition trust :: "event_source \<Rightarrow> nat" where
  "trust s = (case s of HookSource \<Rightarrow> 3 | DaemonSource \<Rightarrow> 3 | CodexSource \<Rightarrow> 3 | TranscriptSource \<Rightarrow> 2 | PtySource \<Rightarrow> 1
     | UnknownSource \<Rightarrow> 0)"

datatype event_kind =
    SessionStart | SessionEnd | TurnComplete | ToolCall | ToolResult | ApprovalRequest | ApprovalResolved | Notification
  | UserMessage | AgentMessage | Reasoning | Usage | ErrorFact | Resync | LinkState
  | OtherFact string

definition kind_str :: "event_kind \<Rightarrow> string" where
  "kind_str k = (case k of
     SessionStart \<Rightarrow> ''session_start'' | SessionEnd \<Rightarrow> ''session_end'' | TurnComplete \<Rightarrow> ''turn_complete''
   | ToolCall \<Rightarrow> ''tool_call'' | ToolResult \<Rightarrow> ''tool_result'' | ApprovalRequest \<Rightarrow> ''approval_request''
   | ApprovalResolved \<Rightarrow> ''approval_resolved'' | Notification \<Rightarrow> ''notification'' | UserMessage \<Rightarrow> ''user_message''
   | AgentMessage \<Rightarrow> ''agent_message'' | Reasoning \<Rightarrow> ''reasoning'' | Usage \<Rightarrow> ''usage'' | ErrorFact \<Rightarrow> ''error''
   | Resync \<Rightarrow> ''resync'' | LinkState \<Rightarrow> ''link_state'' | OtherFact s \<Rightarrow> s)"

definition kind_of_str :: "string \<Rightarrow> event_kind" where
  "kind_of_str s = (case map_of [(''session_start'', SessionStart), (''session_end'', SessionEnd),
      (''turn_complete'', TurnComplete), (''tool_call'', ToolCall), (''tool_result'', ToolResult),
      (''approval_request'', ApprovalRequest), (''approval_resolved'', ApprovalResolved), (''notification'', Notification),
      (''user_message'', UserMessage), (''agent_message'', AgentMessage), (''reasoning'', Reasoning), (''usage'', Usage),
      (''error'', ErrorFact), (''resync'', Resync), (''link_state'', LinkState)] s of
     Some k \<Rightarrow> k | None \<Rightarrow> OtherFact s)"

text \<open>The name and the identity of a run.\<close>

record session_key =
  sk_uid :: string
  sk_name :: string

record pending_event =
  pe_session_uid :: string
  pe_session_id :: string
  pe_kind :: event_kind
  pe_payload :: json
  pe_source :: event_source
  pe_source_event_id :: "string option"
  pe_turn_id :: "string option"
  pe_item_id :: "string option"

definition pending_event_new :: "session_key \<Rightarrow> event_kind \<Rightarrow> json \<Rightarrow> event_source \<Rightarrow> pending_event" where
  "pending_event_new session kind payload source =
     \<lparr>pe_session_uid = sk_uid session, pe_session_id = sk_name session, pe_kind = kind, pe_payload = payload,
      pe_source = source, pe_source_event_id = None, pe_turn_id = None, pe_item_id = None\<rparr>"

definition with_source_event_id :: "string \<Rightarrow> pending_event \<Rightarrow> pending_event" where
  "with_source_event_id i e = e\<lparr>pe_source_event_id := Some i\<rparr>"

definition with_turn_id :: "string option \<Rightarrow> pending_event \<Rightarrow> pending_event" where
  "with_turn_id t e = e\<lparr>pe_turn_id := t\<rparr>"

definition with_item_id :: "string option \<Rightarrow> pending_event \<Rightarrow> pending_event" where
  "with_item_id i e = e\<lparr>pe_item_id := i\<rparr>"

text \<open>A fact as stored and as sent, with its number in the run's log.\<close>

record event =
  ev_seq :: nat
  ev_session_uid :: string
  ev_session_id :: string
  ev_kind :: event_kind
  ev_payload :: json
  ev_source :: event_source
  ev_source_event_id :: "string option"
  ev_turn_id :: "string option"
  ev_item_id :: "string option"

datatype lifecycle = Spawning | Live | Exited | UnknownLifecycle

lemma source_str_inj [simp]: "source_str s = source_str s' \<longleftrightarrow> s = s'"
  by (cases s; cases s') (simp_all add: source_str_def)

text \<open>A kind is read back as it was written, unless it is an unknown one that bears the name of a known one.\<close>

lemma kind_round_trip: "kind_of_str (kind_str k) = k \<or> (\<exists>s k'. k = OtherFact s \<and> s = kind_str k' \<and> k' \<noteq> k)"
proof (cases k)
  case (OtherFact s)
  show ?thesis
  proof (cases "kind_of_str s = OtherFact s")
    case True
    then show ?thesis by (simp add: OtherFact kind_str_def)
  next
    case False
    then have "kind_str (kind_of_str s) = s"
      by (auto simp: kind_of_str_def kind_str_def split: if_splits)
    with False OtherFact show ?thesis by metis
  qed
qed (simp_all add: kind_str_def kind_of_str_def)

end
