(* ===== verification/Ccd_Adapter.thy ===== *)
theory Ccd_Adapter
  imports Ccd_Attach Protocol_Time Protocol_Event
begin

text \<open>
  From a Codex app-server's frames to the daemon's facts (\<open>ccd/src/codex_adapter.rs\<close>): live notifications, and the
  answer to a \<open>thread/resume\<close>, read into the same facts.

  A fact's \<open>pe_source_event_id\<close> is the key the event log keeps the first fact of.
\<close>

section \<open>What is read of a value\<close>

definition require_str :: "json \<Rightarrow> string \<Rightarrow> string option" where
  "require_str v key = nonempty_str (jget key v)"

definition absent_or_nonempty_str :: "json \<Rightarrow> string \<Rightarrow> bool" where
  "absent_or_nonempty_str v key = (case jget key v of None \<Rightarrow> True | Some JNull \<Rightarrow> True
     | Some other \<Rightarrow> (case as_str other of None \<Rightarrow> False | Some s \<Rightarrow> s \<noteq> []))"

definition absent_or_equal :: "json \<Rightarrow> string \<Rightarrow> string \<Rightarrow> bool" where
  "absent_or_equal v key expected = (case jget key v of None \<Rightarrow> True | Some JNull \<Rightarrow> True
     | Some other \<Rightarrow> as_str other = Some expected)"

definition is_array :: "json \<Rightarrow> bool" where "is_array v = (case v of JArr xs \<Rightarrow> True | _ \<Rightarrow> False)"
definition is_object :: "json \<Rightarrow> bool" where "is_object v = (case v of JObj ms \<Rightarrow> True | _ \<Rightarrow> False)"
definition is_number :: "json \<Rightarrow> bool" where
  "is_number v = (case v of JInt n \<Rightarrow> True | JFloat f \<Rightarrow> True | _ \<Rightarrow> False)"

definition is_some_and :: "'a option \<Rightarrow> ('a \<Rightarrow> bool) \<Rightarrow> bool" where
  "is_some_and v P = (case v of None \<Rightarrow> False | Some x \<Rightarrow> P x)"

definition is_none_or :: "'a option \<Rightarrow> ('a \<Rightarrow> bool) \<Rightarrow> bool" where
  "is_none_or v P = (case v of None \<Rightarrow> True | Some x \<Rightarrow> P x)"

definition or_null :: "json option \<Rightarrow> json" where
  "or_null v = (case v of None \<Rightarrow> JNull | Some x \<Rightarrow> x)"

definition RESUME_TURN_COMPLETED :: string where "RESUME_TURN_COMPLETED = ''completed''"
definition RESUME_TURN_INTERRUPTED :: string where "RESUME_TURN_INTERRUPTED = ''interrupted''"
definition RESUME_TURN_FAILED :: string where "RESUME_TURN_FAILED = ''failed''"
definition RESUME_TURN_IN_PROGRESS :: string where "RESUME_TURN_IN_PROGRESS = ''inProgress''"
definition RESUME_ITEMS_VIEW_FULL :: string where "RESUME_ITEMS_VIEW_FULL = ''full''"

definition is_terminal_tool_status :: "string \<Rightarrow> bool" where
  "is_terminal_tool_status status \<longleftrightarrow> status \<in> {''completed'', ''failed'', ''declined''}"

definition seeded_item_shape_is_measured :: "json \<Rightarrow> string \<Rightarrow> bool" where
  "seeded_item_shape_is_measured item item_type =
     (let terminal = is_some_and (Option.bind (jget ''status'' item) as_str) is_terminal_tool_status in
      if item_type = ''agentMessage'' then is_some_and (jget ''text'' item) is_string
      else if item_type = ''userMessage'' then
        jget ''text'' item = None \<and>
        is_some_and (Option.bind (jget ''content'' item) as_array)
          (list_all (\<lambda>part. is_object part \<and> is_some_and (jget ''text'' part) is_string))
      else if item_type = ''reasoning'' then
        is_none_or (jget ''summary'' item) is_array \<and> is_none_or (jget ''content'' item) is_array
      else if item_type = ''commandExecution'' then
        is_some_and (jget ''command'' item) is_string \<and> is_some_and (jget ''cwd'' item) is_string \<and>
        is_some_and (jget ''commandActions'' item) is_array \<and> terminal
      else if item_type = ''fileChange'' then is_some_and (jget ''changes'' item) is_array \<and> terminal
      else False)"

definition seeded_tool_payload_is_readable :: "json \<Rightarrow> string \<Rightarrow> bool" where
  "seeded_tool_payload_is_readable item item_type =
     (if item_type = ''commandExecution'' then
        (let completed = Option.bind (jget ''status'' item) as_str = Some RESUME_TURN_COMPLETED;
             number = (\<lambda>key. case jget key item of None \<Rightarrow> \<not> completed
               | Some value \<Rightarrow> if is_number value then True else if value = JNull then \<not> completed else False)
         in number ''exitCode'' \<and> number ''durationMs'' \<and>
            (case jget ''aggregatedOutput'' item of None \<Rightarrow> True | Some JNull \<Rightarrow> True | Some value \<Rightarrow> is_string value))
      else if item_type = ''fileChange'' then
        is_some_and (Option.bind (jget ''changes'' item) as_array)
          (list_all (\<lambda>change. is_some_and (jget ''path'' change) is_string \<and> is_some_and (jget ''diff'' change) is_string \<and>
             is_some_and (jget ''kind'' change) is_object))
      else True)"

definition is_placeholder_item_id :: "string \<Rightarrow> bool" where
  "is_placeholder_item_id i = (starts_with ''item-'' i \<and> drop 5 i \<noteq> [] \<and> list_all is_digit (drop 5 i))"

section \<open>Payloads\<close>

definition tool_call_payload :: "json \<Rightarrow> json" where
  "tool_call_payload item =
     (if Option.bind (jget ''type'' item) as_str = Some ''fileChange'' then
        json_obj [(''tool'', JStr ''file_change''), (''changes'', or_null (jget ''changes'' item))]
      else json_obj [(''tool'', JStr ''command_execution''), (''command'', or_null (jget ''command'' item)),
        (''cwd'', or_null (jget ''cwd'' item)), (''command_actions'', or_null (jget ''commandActions'' item))])"

definition tool_result_payload :: "json \<Rightarrow> bool \<Rightarrow> json" where
  "tool_result_payload item interrupted =
     (let status = (if interrupted then ''interrupted''
        else case Option.bind (jget ''status'' item) as_str of None \<Rightarrow> ''completed'' | Some s \<Rightarrow> s) in
      if Option.bind (jget ''type'' item) as_str = Some ''fileChange'' then
        json_obj [(''tool'', JStr ''file_change''), (''status'', JStr status), (''interrupted'', JBool interrupted),
          (''changes'', or_null (jget ''changes'' item))]
      else json_obj [(''tool'', JStr ''command_execution''), (''status'', JStr status), (''interrupted'', JBool interrupted),
        (''command'', or_null (jget ''command'' item)), (''exit_code'', or_null (jget ''exitCode'' item)),
        (''aggregated_output'', or_null (jget ''aggregatedOutput'' item)), (''duration_ms'', or_null (jget ''durationMs'' item))])"

definition message_payload :: "json \<Rightarrow> bool \<Rightarrow> json" where
  "message_payload item interrupted =
     (let words = (case Option.bind (jget ''text'' item) as_str of
          Some t \<Rightarrow> t
        | None \<Rightarrow> (case Option.bind (jget ''content'' item) as_array of
            None \<Rightarrow> []
          | Some parts \<Rightarrow> concat (List.map_filter (\<lambda>p. Option.bind (jget ''text'' p) as_str) parts)))
      in json_obj [(''text'', JStr words), (''interrupted'', JBool interrupted)])"

definition reasoning_payload :: "json \<Rightarrow> bool \<Rightarrow> json" where
  "reasoning_payload item interrupted =
     json_obj [(''summary'', or_null (jget ''summary'' item)), (''content'', or_null (jget ''content'' item)),
       (''interrupted'', JBool interrupted)]"

section \<open>The adapter\<close>

record open_item =
  oi_thread_id :: string
  oi_item_id :: string
  oi_turn_id :: string
  oi_item_type :: string
  oi_started :: json
  oi_delta_text :: string

record codex_adapter =
  ad_session :: session_key
  ad_open :: "open_item list"
  ad_latest_usage :: "(string \<times> string, json) hash"

definition adapter_new :: "session_key \<Rightarrow> codex_adapter" where
  "adapter_new session = \<lparr>ad_session = session, ad_open = [], ad_latest_usage = []\<rparr>"

definition sid :: "string \<Rightarrow> string \<Rightarrow> string" where
  "sid thread_id suffix = thread_id @ '':'' @ suffix"

definition turn_terminal_source_event_id :: "string \<Rightarrow> string \<Rightarrow> string" where
  "turn_terminal_source_event_id thread_id turn_id = sid thread_id (''turn:'' @ turn_id)"

definition tool_call_source_event_id :: "string \<Rightarrow> string \<Rightarrow> string" where
  "tool_call_source_event_id thread_id item_id = sid thread_id (''pre:'' @ item_id)"

definition fact :: "session_key \<Rightarrow> event_kind \<Rightarrow> json \<Rightarrow> pending_event" where
  "fact session kind payload = pending_event_new session kind payload CodexSource"

definition synthesized_terminal :: "open_item \<Rightarrow> json" where
  "synthesized_terminal o' = (case (oi_item_type o' = ''agentMessage'', oi_started o') of
     (True, JObj ms) \<Rightarrow> JObj (hput ''text'' (JStr (oi_delta_text o')) ms) | _ \<Rightarrow> oi_started o')"

definition terminal_item_event ::
  "session_key \<Rightarrow> string \<Rightarrow> string option \<Rightarrow> string \<Rightarrow> string \<Rightarrow> json \<Rightarrow> bool \<Rightarrow> pending_event" where
  "terminal_item_event session tid turn item_id item_type item interrupted =
     (case (if item_type = ''userMessage'' then (UserMessage, ''item:'' @ item_id, message_payload item interrupted)
        else if item_type = ''agentMessage'' then (AgentMessage, ''item:'' @ item_id, message_payload item interrupted)
        else if item_type = ''reasoning'' then (Reasoning, ''item:'' @ item_id, reasoning_payload item interrupted)
        else if item_type \<in> {''commandExecution'', ''fileChange''}
        then (ToolResult, ''post:'' @ item_id, tool_result_payload item interrupted)
        else (OtherFact (''codex_'' @ item_type), ''item:'' @ item_id,
          (case (interrupted, item) of (True, JObj ms) \<Rightarrow> JObj (hput ''interrupted'' (JBool True) ms) | _ \<Rightarrow> item))) of
      (kind, suffix, payload) \<Rightarrow>
        with_item_id (Some item_id) (with_turn_id turn (with_source_event_id (sid tid suffix) (fact session kind payload))))"

definition turn_terminal_events ::
  "session_key \<Rightarrow> string \<Rightarrow> string \<Rightarrow> json \<Rightarrow> string \<Rightarrow> json option \<Rightarrow> pending_event list" where
  "turn_terminal_events session tid turn_id turn status usage =
     (case usage of None \<Rightarrow> []
      | Some u \<Rightarrow> [with_turn_id (Some turn_id) (with_source_event_id (sid tid (''usage:'' @ turn_id)) (fact session Usage u))])
     @ [with_turn_id (Some turn_id) (with_source_event_id (turn_terminal_source_event_id tid turn_id)
          (fact session TurnComplete (json_obj [(''status'', JStr status), (''error'', or_null (jget ''error'' turn)),
            (''started_at'', or_null (jget ''startedAt'' turn)), (''completed_at'', or_null (jget ''completedAt'' turn)),
            (''duration_ms'', or_null (jget ''durationMs'' turn))])))]
     @ (case jget ''error'' turn of
          Some err \<Rightarrow> if err = JNull then []
            else [with_turn_id (Some turn_id) (with_source_event_id (sid tid (''turn_error:'' @ turn_id)) (fact session ErrorFact err))]
        | None \<Rightarrow> [])"

definition thread_identity_event :: "session_key \<Rightarrow> json \<Rightarrow> pending_event option" where
  "thread_identity_event session thread =
     (case require_str thread ''id'' of
        None \<Rightarrow> None
      | Some tid \<Rightarrow>
          (case (require_str thread ''cwd'', require_str thread ''path'', require_str thread ''cliVersion'') of
             (Some cwd, Some path, Some cli_version) \<Rightarrow>
               Some (with_source_event_id (sid tid ''thread_started'')
                 (fact session SessionStart (json_obj [(''thread_id'', JStr tid), (''cwd'', JStr cwd),
                   (''rollout_path'', JStr path), (''cli_version'', JStr cli_version)])))
           | _ \<Rightarrow> None))"

section \<open>Live frames\<close>

definition on_thread_started :: "json \<Rightarrow> codex_adapter \<Rightarrow> pending_event list" where
  "on_thread_started params a = (case jget ''thread'' params of
     None \<Rightarrow> []
   | Some thread \<Rightarrow> (case thread_identity_event (ad_session a) thread of None \<Rightarrow> [] | Some e \<Rightarrow> [e]))"

text \<open>The identities an item's frame must carry: thread, turn, item and type.\<close>

definition item_identities :: "json \<Rightarrow> (json \<times> string \<times> string \<times> string \<times> string) option" where
  "item_identities params = (case jget ''item'' params of
     None \<Rightarrow> None
   | Some item \<Rightarrow>
       (case (require_str params ''threadId'', require_str params ''turnId'', require_str item ''id'', require_str item ''type'') of
          (Some tid, Some turn, Some item_id, Some item_type) \<Rightarrow> Some (item, tid, turn, item_id, item_type)
        | _ \<Rightarrow> None))"

definition on_item_started :: "json \<Rightarrow> codex_adapter \<Rightarrow> pending_event list \<times> codex_adapter" where
  "on_item_started params a = (case item_identities params of
     None \<Rightarrow> ([], a)
   | Some (item, tid, turn, item_id, item_type) \<Rightarrow>
       (if item_type \<in> {''commandExecution'', ''fileChange''}
        then [with_item_id (Some item_id) (with_turn_id (Some turn)
          (with_source_event_id (tool_call_source_event_id tid item_id) (fact (ad_session a) ToolCall (tool_call_payload item))))]
        else [],
        a\<lparr>ad_open := ad_open a @ [\<lparr>oi_thread_id = tid, oi_item_id = item_id, oi_turn_id = turn, oi_item_type = item_type,
          oi_started = item, oi_delta_text = (case Option.bind (jget ''text'' item) as_str of None \<Rightarrow> [] | Some t \<Rightarrow> t)\<rparr>]\<rparr>))"

definition names_item :: "string \<Rightarrow> string \<Rightarrow> string \<Rightarrow> open_item \<Rightarrow> bool" where
  "names_item tid turn item_id o' \<longleftrightarrow> oi_thread_id o' = tid \<and> oi_turn_id o' = turn \<and> oi_item_id o' = item_id"

text \<open>The first entry that matches is removed, or changed.\<close>

fun remove_first :: "('a \<Rightarrow> bool) \<Rightarrow> 'a list \<Rightarrow> 'a list" where
  "remove_first P [] = []"
| "remove_first P (x # xs) = (if P x then xs else x # remove_first P xs)"

fun update_first :: "('a \<Rightarrow> bool) \<Rightarrow> ('a \<Rightarrow> 'a) \<Rightarrow> 'a list \<Rightarrow> 'a list" where
  "update_first P f [] = []"
| "update_first P f (x # xs) = (if P x then f x # xs else x # update_first P f xs)"

definition close_open :: "string \<Rightarrow> string \<Rightarrow> string \<Rightarrow> codex_adapter \<Rightarrow> codex_adapter" where
  "close_open tid turn item_id a = a\<lparr>ad_open := remove_first (names_item tid turn item_id) (ad_open a)\<rparr>"

definition open_item_started :: "string \<Rightarrow> string \<Rightarrow> string \<Rightarrow> codex_adapter \<Rightarrow> json option" where
  "open_item_started tid turn item_id a = map_option oi_started (List.find (names_item tid turn item_id) (ad_open a))"

definition on_item_completed :: "json \<Rightarrow> codex_adapter \<Rightarrow> pending_event list \<times> codex_adapter" where
  "on_item_completed params a = (case item_identities params of
     None \<Rightarrow> ([], a)
   | Some (item, tid, turn, item_id, item_type) \<Rightarrow>
       if item_type \<in> {''commandExecution'', ''fileChange''} \<and> require_str item ''status'' = None then ([], a)
       else ([terminal_item_event (ad_session a) tid (Some turn) item_id item_type item False], close_open tid turn item_id a))"

definition on_agent_delta :: "json \<Rightarrow> codex_adapter \<Rightarrow> codex_adapter" where
  "on_agent_delta params a =
     (case (require_str params ''threadId'', require_str params ''turnId'', require_str params ''itemId'',
            Option.bind (jget ''delta'' params) as_str) of
        (Some tid, Some turn, Some item_id, Some delta) \<Rightarrow>
          a\<lparr>ad_open := update_first (names_item tid turn item_id) (\<lambda>o'. o'\<lparr>oi_delta_text := oi_delta_text o' @ delta\<rparr>) (ad_open a)\<rparr>
      | _ \<Rightarrow> a)"

definition on_token_usage :: "json \<Rightarrow> codex_adapter \<Rightarrow> codex_adapter" where
  "on_token_usage params a =
     (case (require_str params ''threadId'', require_str params ''turnId'', jget ''tokenUsage'' params) of
        (Some tid, Some turn, Some usage) \<Rightarrow> a\<lparr>ad_latest_usage := hput (tid, turn) usage (ad_latest_usage a)\<rparr>
      | _ \<Rightarrow> a)"

definition of_turn :: "string \<Rightarrow> string \<Rightarrow> open_item \<Rightarrow> bool" where
  "of_turn tid turn o' \<longleftrightarrow> oi_thread_id o' = tid \<and> oi_turn_id o' = turn"

definition drain_turn_items :: "string \<Rightarrow> string \<Rightarrow> codex_adapter \<Rightarrow> open_item list \<times> codex_adapter" where
  "drain_turn_items tid turn a =
     (filter (of_turn tid turn) (ad_open a), a\<lparr>ad_open := filter (\<lambda>o'. \<not> of_turn tid turn o') (ad_open a)\<rparr>)"

definition on_turn_completed :: "json \<Rightarrow> codex_adapter \<Rightarrow> pending_event list \<times> codex_adapter" where
  "on_turn_completed params a =
     (case (require_str params ''threadId'', jget ''turn'' params) of
        (Some tid, Some turn) \<Rightarrow>
          (case (require_str turn ''id'', require_str turn ''status'') of
             (Some turn_id, Some status) \<Rightarrow>
               (case drain_turn_items tid turn_id a of
                  (dangling, a) \<Rightarrow>
                    ((if status \<in> {''interrupted'', ''failed''}
                      then map (\<lambda>o'. terminal_item_event (ad_session a) tid (Some (oi_turn_id o')) (oi_item_id o')
                             (oi_item_type o') (synthesized_terminal o') True) dangling
                      else [])
                     @ turn_terminal_events (ad_session a) tid turn_id turn status (hget (ad_latest_usage a) (tid, turn_id)),
                     a\<lparr>ad_latest_usage := hdel (tid, turn_id) (ad_latest_usage a)\<rparr>))
           | _ \<Rightarrow> ([], a))
      | _ \<Rightarrow> ([], a))"

definition ingest :: "json \<Rightarrow> codex_adapter \<Rightarrow> pending_event list \<times> codex_adapter" where
  "ingest frame a = (case Option.bind (jget ''method'' frame) as_str of
     None \<Rightarrow> ([], a)
   | Some m \<Rightarrow>
       let params = or_null (jget ''params'' frame) in
       if m = ''thread/started'' then (on_thread_started params a, a)
       else if m = ''item/started'' then on_item_started params a
       else if m = ''item/completed'' then on_item_completed params a
       else if m = ''item/agentMessage/delta'' then ([], on_agent_delta params a)
       else if m = ''thread/tokenUsage/updated'' then ([], on_token_usage params a)
       else if m = ''turn/completed'' then on_turn_completed params a
       else ([], a))"

section \<open>The answer to a resume\<close>

record seed =
  se_thread_id :: string
  se_events :: "pending_event list"
  se_running_turns :: "string list"
  se_unsettled_turn :: "string option"
  se_discarded_usage :: "(string \<times> string) list"
  se_described_turns :: nat
  se_terminal_turns :: nat

text \<open>What the loop over the turns of an answer carries.\<close>

record planning =
  pl_events :: "pending_event list"
  pl_running_turns :: "string list"
  pl_unsettled_turn :: "string option"
  pl_discarded_usage :: "(string \<times> string) list"
  pl_terminal_turns :: nat
  pl_seen_turns :: "string list"
  pl_seen_items :: "string list"
  pl_previous_started_at :: int

definition terminal_is_measured :: "json \<Rightarrow> string \<Rightarrow> bool" where
  "terminal_is_measured turn status =
     (let integer = (\<lambda>key. Option.bind (jget key turn) as_i64 \<noteq> None);
          integer_or_null = (\<lambda>key. is_none_or (jget key turn) (\<lambda>v. v = JNull \<or> as_i64 v \<noteq> None));
          error = (if jget ''error'' turn = Some JNull then None else jget ''error'' turn)
      in if status = RESUME_TURN_COMPLETED then integer ''completedAt'' \<and> integer ''durationMs'' \<and> error = None
         else integer_or_null ''completedAt'' \<and> integer_or_null ''durationMs'' \<and> is_none_or error is_object)"

definition unread :: "json \<Rightarrow> string \<Rightarrow> string \<Rightarrow> bool" where
  "unread item item_id item_type \<longleftrightarrow>
     (if is_placeholder_item_id item_id then True
      else if \<not> seeded_item_shape_is_measured item item_type then True
      else \<not> seeded_tool_payload_is_readable item item_type)"

fun plan_items :: "session_key \<Rightarrow> string \<Rightarrow> string \<Rightarrow> string \<Rightarrow> json list \<Rightarrow> planning \<Rightarrow> planning option" where
  "plan_items session tid turn_id status [] p = Some p"
| "plan_items session tid turn_id status (item # items) p =
     (case (require_str item ''id'', require_str item ''type'') of
        (Some item_id, Some item_type) \<Rightarrow>
          if unread item item_id item_type then
            plan_items session tid turn_id status items
              (if status \<noteq> RESUME_TURN_COMPLETED \<and> is_placeholder_item_id item_id
               then p\<lparr>pl_unsettled_turn := Some turn_id\<rparr> else p)
          else if item_id \<in> set (pl_seen_items p) then None
          else plan_items session tid turn_id status items
              (p\<lparr>pl_seen_items := item_id # pl_seen_items p,
                 pl_events := pl_events p @ [terminal_item_event session tid (Some turn_id) item_id item_type item False]\<rparr>)
      | _ \<Rightarrow> None)"

definition plan_turn :: "codex_adapter \<Rightarrow> string \<Rightarrow> json \<Rightarrow> planning \<Rightarrow> planning option" where
  "plan_turn a tid turn p =
     (case (require_str turn ''id'', require_str turn ''status'') of
        (Some turn_id, Some status) \<Rightarrow>
          if turn_id \<in> set (pl_seen_turns p) then None
          else if require_str turn ''itemsView'' \<noteq> Some RESUME_ITEMS_VIEW_FULL then None
          else (case Option.bind (jget ''startedAt'' turn) as_i64 of
              None \<Rightarrow> None
            | Some started_at \<Rightarrow>
                if started_at < pl_previous_started_at p then None
                else (case Option.bind (jget ''items'' turn) as_array of
                    None \<Rightarrow> None
                  | Some items \<Rightarrow>
                      if list_ex (\<lambda>item. require_str item ''id'' = None \<or> require_str item ''type'' = None) items then None
                      else
                        let p = p\<lparr>pl_seen_turns := turn_id # pl_seen_turns p, pl_previous_started_at := started_at,
                                  pl_unsettled_turn := None\<rparr> in
                        if status = RESUME_TURN_IN_PROGRESS then Some (p\<lparr>pl_running_turns := pl_running_turns p @ [turn_id]\<rparr>)
                        else if status \<in> {RESUME_TURN_COMPLETED, RESUME_TURN_INTERRUPTED, RESUME_TURN_FAILED} then
                          (if \<not> terminal_is_measured turn status then None
                           else (case plan_items (ad_session a) tid turn_id status items
                                        (p\<lparr>pl_terminal_turns := pl_terminal_turns p + 1\<rparr>) of
                               None \<Rightarrow> None
                             | Some p \<Rightarrow> Some (p\<lparr>
                                 pl_discarded_usage := pl_discarded_usage p
                                   @ (if hget (ad_latest_usage a) (tid, turn_id) \<noteq> None then [(tid, turn_id)] else []),
                                 pl_events := pl_events p @ turn_terminal_events (ad_session a) tid turn_id turn status None\<rparr>)))
                        else None))
      | _ \<Rightarrow> None)"

fun plan_turns :: "codex_adapter \<Rightarrow> string \<Rightarrow> json list \<Rightarrow> planning \<Rightarrow> planning option" where
  "plan_turns a tid [] p = Some p"
| "plan_turns a tid (turn # turns) p = Option.bind (plan_turn a tid turn p) (plan_turns a tid turns)"

definition plan_resume_seed :: "json \<Rightarrow> string \<Rightarrow> codex_adapter \<Rightarrow> seed option" where
  "plan_resume_seed result requested_thread a =
     (case jget ''thread'' result of
        None \<Rightarrow> None
      | Some thread \<Rightarrow>
          if require_str thread ''id'' \<noteq> Some requested_thread then None
          else if \<not> absent_or_equal result ''threadId'' requested_thread then None
          else if \<not> absent_or_equal thread ''sessionId'' requested_thread then None
          else (case Option.bind (jget ''turns'' thread) as_array of
              None \<Rightarrow> None
            | Some turns \<Rightarrow>
                if turns = [] then None
                else if \<not> is_none_or (jget ''initialTurnsPage'' result) (\<lambda>v. v = JNull) then None
                else if \<not> (absent_or_nonempty_str result ''turnsBackwardsCursor'' \<and> absent_or_nonempty_str result ''itemsBackwardsCursor'')
                then None
                else (case thread_identity_event (ad_session a) thread of
                    None \<Rightarrow> None
                  | Some identity \<Rightarrow>
                      map_option (\<lambda>p. \<lparr>se_thread_id = requested_thread, se_events = pl_events p,
                          se_running_turns = pl_running_turns p, se_unsettled_turn = pl_unsettled_turn p,
                          se_discarded_usage = pl_discarded_usage p, se_described_turns = length turns,
                          se_terminal_turns = pl_terminal_turns p\<rparr>)
                        (plan_turns a requested_thread turns
                          \<lparr>pl_events = [identity], pl_running_turns = [], pl_unsettled_turn = None, pl_discarded_usage = [],
                           pl_terminal_turns = 0, pl_seen_turns = [], pl_seen_items = [], pl_previous_started_at = - (2 ^ 63)\<rparr>))))"

definition apply_resume_seed :: "seed \<Rightarrow> codex_adapter \<Rightarrow> codex_adapter" where
  "apply_resume_seed s a =
     a\<lparr>ad_open := filter (\<lambda>o'. oi_thread_id o' \<noteq> se_thread_id s \<or> oi_turn_id o' \<in> set (se_running_turns s)) (ad_open a),
       ad_latest_usage := fold hdel (se_discarded_usage s) (ad_latest_usage a)\<rparr>"

end
