(* ===== verification/Ccd_Adapter_Props.thy ===== *)
theory Ccd_Adapter_Props
  imports Ccd_Adapter
begin

text \<open>
  The facts a link recovers from an answer are the facts it would have recorded live, each under a key of its own;
  nothing is made of a turn that still runs; threads do not touch each other; and an aborted turn closes what it had
  open, once.
\<close>

section \<open>Keys\<close>

lemma sid_inj [simp]: "sid t s = sid t s' \<longleftrightarrow> s = s'"
  by (simp add: sid_def)

definition key_of :: "pending_event \<Rightarrow> string" where
  "key_of e = (case pe_source_event_id e of None \<Rightarrow> [] | Some k \<Rightarrow> k)"

lemma pending_event_fields [simp]:
  "pe_source_event_id (with_source_event_id i e) = Some i" "pe_turn_id (with_source_event_id i e) = pe_turn_id e"
  "pe_item_id (with_source_event_id i e) = pe_item_id e" "pe_kind (with_source_event_id i e) = pe_kind e"
  "pe_payload (with_source_event_id i e) = pe_payload e"
  "pe_source_event_id (with_turn_id u e) = pe_source_event_id e" "pe_turn_id (with_turn_id u e) = u"
  "pe_item_id (with_turn_id u e) = pe_item_id e" "pe_kind (with_turn_id u e) = pe_kind e"
  "pe_payload (with_turn_id u e) = pe_payload e"
  "pe_source_event_id (with_item_id j e) = pe_source_event_id e" "pe_turn_id (with_item_id j e) = pe_turn_id e"
  "pe_item_id (with_item_id j e) = j" "pe_kind (with_item_id j e) = pe_kind e" "pe_payload (with_item_id j e) = pe_payload e"
  "pe_source_event_id (fact s k p) = None" "pe_turn_id (fact s k p) = None" "pe_item_id (fact s k p) = None"
  "pe_kind (fact s k p) = k" "pe_payload (fact s k p) = p"
  by (simp_all add: with_source_event_id_def with_turn_id_def with_item_id_def fact_def pending_event_new_def)

definition item_suffix :: "string \<Rightarrow> string \<Rightarrow> string" where
  "item_suffix item_type item_id = (if item_type \<in> {''commandExecution'', ''fileChange''} then ''post:'' else ''item:'') @ item_id"

lemma terminal_item_event_fields [simp]:
  "pe_source_event_id (terminal_item_event s t u i ty v b) = Some (sid t (item_suffix ty i))"
  "pe_turn_id (terminal_item_event s t u i ty v b) = u" "pe_item_id (terminal_item_event s t u i ty v b) = Some i"
  by (simp_all add: terminal_item_event_def item_suffix_def)

lemma item_suffix_eq: "item_suffix ty i = item_suffix ty' i' \<Longrightarrow> i = i'"
  by (simp add: item_suffix_def split: if_splits)

section \<open>What an answer is read into\<close>

text \<open>What holds of the facts planned so far, when the turns \<open>U\<close> are done: keys, and whose facts they are.\<close>

definition own_keys :: "string \<Rightarrow> string set \<Rightarrow> string list \<Rightarrow> string set" where
  "own_keys t U items = {sid t ''thread_started''} \<union> (\<Union>i \<in> set items. {sid t (''item:'' @ i), sid t (''post:'' @ i)})
     \<union> (\<Union>u \<in> U. {sid t (''turn:'' @ u), sid t (''turn_error:'' @ u)})"

definition keys_ok :: "string \<Rightarrow> string set \<Rightarrow> string list \<Rightarrow> pending_event list \<Rightarrow> bool" where
  "keys_ok t U items es \<longleftrightarrow> distinct (map key_of es) \<and> key_of ` set es \<subseteq> own_keys t U items"

definition whose_ok :: "string set \<Rightarrow> pending_event list \<Rightarrow> bool" where
  "whose_ok U es \<longleftrightarrow> (\<forall>e \<in> set es. (\<forall>u. pe_turn_id e = Some u \<longrightarrow> u \<in> U) \<and>
     (\<forall>i. pe_item_id e = Some i \<longrightarrow> \<not> is_placeholder_item_id i))"

lemma whose_ok_mono: "whose_ok U es \<Longrightarrow> U \<subseteq> V \<Longrightarrow> whose_ok V es"
  by (auto simp: whose_ok_def)

lemma whose_ok_append [simp]: "whose_ok U (es @ fs) \<longleftrightarrow> whose_ok U es \<and> whose_ok U fs"
  by (auto simp: whose_ok_def)

lemma plan_items_other:
  assumes "plan_items s t u st items p = Some p'"
  shows "pl_running_turns p' = pl_running_turns p" "pl_seen_turns p' = pl_seen_turns p"
    "pl_discarded_usage p' = pl_discarded_usage p" "pl_terminal_turns p' = pl_terminal_turns p"
    "pl_previous_started_at p' = pl_previous_started_at p"
  using assms by (induction s t u st items p rule: plan_items.induct) (auto split: option.splits if_splits)

lemma own_keys_item: "sid t (item_suffix ty i) \<in> own_keys t U items \<longleftrightarrow> i \<in> set items"
  by (auto simp: own_keys_def item_suffix_def)

lemma own_keys_turn: "u \<notin> U \<Longrightarrow> sid t (''turn:'' @ u) \<notin> own_keys t U items \<and> sid t (''turn_error:'' @ u) \<notin> own_keys t U items"
  by (auto simp: own_keys_def)

lemma own_keys_Cons: "own_keys t U items \<subseteq> own_keys t U (i # items)" "own_keys t U items \<subseteq> own_keys t (insert u U) items"
  by (auto simp: own_keys_def)

lemma keys_ok_item:
  assumes "keys_ok t U items es" "i \<notin> set items"
  shows "keys_ok t U (i # items) (es @ [terminal_item_event s t u i ty v False])"
proof -
  have key: "key_of (terminal_item_event s t u i ty v False) = sid t (item_suffix ty i)"
    by (simp add: key_of_def)
  have "sid t (item_suffix ty i) \<notin> key_of ` set es"
    using assms own_keys_item [of t ty i U items] unfolding keys_ok_def by blast
  moreover have "sid t (item_suffix ty i) \<in> own_keys t U (i # items)"
    using own_keys_item [of t ty i U "i # items"] by simp
  moreover have "key_of ` set es \<subseteq> own_keys t U (i # items)"
    using assms(1) own_keys_Cons(1) [of t U items i] unfolding keys_ok_def by blast
  ultimately show ?thesis
    using assms(1) by (simp add: keys_ok_def key)
qed

text \<open>One item of a finished turn: skipped, or read and its fact appended.\<close>

lemma plan_items_Cons:
  assumes "plan_items s t u st (item # items) p = Some p'"
  obtains (skipped) i ty where "require_str item ''id'' = Some i" "require_str item ''type'' = Some ty" "unread item i ty"
      "plan_items s t u st items (if st \<noteq> RESUME_TURN_COMPLETED \<and> is_placeholder_item_id i
        then p\<lparr>pl_unsettled_turn := Some u\<rparr> else p) = Some p'"
  | (read) i ty where "require_str item ''id'' = Some i" "require_str item ''type'' = Some ty" "\<not> unread item i ty"
      "i \<notin> set (pl_seen_items p)"
      "plan_items s t u st items (p\<lparr>pl_seen_items := i # pl_seen_items p,
         pl_events := pl_events p @ [terminal_item_event s t (Some u) i ty item False]\<rparr>) = Some p'"
proof -
  from assms obtain i ty where i: "require_str item ''id'' = Some i" "require_str item ''type'' = Some ty"
    by (auto split: option.splits)
  show ?thesis
  proof (cases "unread item i ty")
    case True
    with assms i skipped show ?thesis by simp
  next
    case False
    with assms i read show ?thesis by (simp split: if_splits)
  qed
qed

lemma plan_items_keys:
  assumes "plan_items s t u st items p = Some p'" "keys_ok t U (pl_seen_items p) (pl_events p)" "whose_ok V (pl_events p)" "u \<in> V"
  shows "keys_ok t U (pl_seen_items p') (pl_events p') \<and> whose_ok V (pl_events p')"
  using assms(1-3)
proof (induction items arbitrary: p)
  case (Cons item items)
  from Cons.prems(1) show ?case
  proof (cases rule: plan_items_Cons)
    case (skipped i ty)
    show ?thesis
      by (rule Cons.IH [OF skipped(4)]) (use Cons.prems(2,3) in simp_all)
  next
    case (read i ty)
    have "\<not> is_placeholder_item_id i" using read(3) by (simp add: unread_def split: if_splits)
    then have "whose_ok V (pl_events p @ [terminal_item_event s t (Some u) i ty item False])"
      using Cons.prems(3) assms(4) by (simp add: whose_ok_def)
    moreover note keys_ok_item [OF Cons.prems(2) read(4), of s "Some u" ty item]
    ultimately show ?thesis
      by (intro Cons.IH [OF read(5)]) simp_all
  qed
qed simp

lemma terminal_events_keys:
  "map key_of (turn_terminal_events s t u turn st None) \<in> {[sid t (''turn:'' @ u)], [sid t (''turn:'' @ u), sid t (''turn_error:'' @ u)]}"
  by (simp add: turn_terminal_events_def key_of_def turn_terminal_source_event_id_def split: option.split)

lemma terminal_events_whose:
  "e \<in> set (turn_terminal_events s t u turn st usage) \<Longrightarrow> pe_turn_id e = Some u \<and> pe_item_id e = None"
  by (auto simp: turn_terminal_events_def split: option.splits if_splits)

lemma keys_ok_turn:
  assumes "keys_ok t U items es" "u \<notin> U"
  shows "keys_ok t (insert u U) items (es @ turn_terminal_events s t u turn st None)"
proof -
  let ?ks = "map key_of (turn_terminal_events s t u turn st None)"
  obtain A B where AB: "A = sid t (''turn:'' @ u)" "B = sid t (''turn_error:'' @ u)" "A \<noteq> B" by simp
  have ks: "?ks = [A] \<or> ?ks = [A, B]"
    using terminal_events_keys [of s t u turn st] by (simp add: AB)
  have sub: "set (map key_of es) \<subseteq> own_keys t U items" and dist: "distinct (map key_of es)"
    using assms(1) by (simp_all add: keys_ok_def)
  have out: "A \<notin> own_keys t U items" "B \<notin> own_keys t U items"
    using own_keys_turn [OF assms(2), of t items] by (simp_all add: AB)
  have inn: "A \<in> own_keys t (insert u U) items" "B \<in> own_keys t (insert u U) items"
    by (simp_all add: own_keys_def AB)
  obtain own ks' where lists: "own = map key_of es" "ks' = ?ks" by simp
  have "A \<notin> set own" "B \<notin> set own"
    using sub out unfolding lists by blast+
  with ks dist AB(3) have "distinct (own @ ks')"
    unfolding lists [symmetric] by auto
  moreover have "set (own @ ks') \<subseteq> own_keys t (insert u U) items"
    using ks inn sub own_keys_Cons(2) [of t U items u] unfolding lists [symmetric] by auto
  ultimately have "distinct (map key_of es @ ?ks)" "set (map key_of es @ ?ks) \<subseteq> own_keys t (insert u U) items"
    unfolding lists by simp_all
  then show ?thesis
    unfolding keys_ok_def set_map [symmetric] map_append by simp
qed

text \<open>What a plan keeps true of itself, turn after turn.\<close>

definition plan_ok :: "string \<Rightarrow> planning \<Rightarrow> bool" where
  "plan_ok t p \<longleftrightarrow> keys_ok t (set (pl_seen_turns p)) (pl_seen_items p) (pl_events p)
     \<and> whose_ok (set (pl_seen_turns p) - set (pl_running_turns p)) (pl_events p)
     \<and> set (pl_running_turns p) \<subseteq> set (pl_seen_turns p)"

lemma plan_turn_cases:
  assumes "plan_turn a t turn p = Some p'"
  obtains (runs) u at where "require_str turn ''id'' = Some u" "u \<notin> set (pl_seen_turns p)"
      "require_str turn ''status'' = Some RESUME_TURN_IN_PROGRESS"
      "p' = p\<lparr>pl_seen_turns := u # pl_seen_turns p, pl_previous_started_at := at, pl_unsettled_turn := None,
          pl_running_turns := pl_running_turns p @ [u]\<rparr>"
  | (finished) u at st items q where "require_str turn ''id'' = Some u" "u \<notin> set (pl_seen_turns p)" "require_str turn ''status'' = Some st"
      "jget ''items'' turn = Some (JArr items)" "st \<in> {RESUME_TURN_COMPLETED, RESUME_TURN_INTERRUPTED, RESUME_TURN_FAILED}"
      "plan_items (ad_session a) t u st items (p\<lparr>pl_seen_turns := u # pl_seen_turns p, pl_previous_started_at := at,
          pl_unsettled_turn := None, pl_terminal_turns := pl_terminal_turns p + 1\<rparr>) = Some q"
      "p' = q\<lparr>pl_discarded_usage := pl_discarded_usage q @ (if hget (ad_latest_usage a) (t, u) \<noteq> None then [(t, u)] else []),
          pl_events := pl_events q @ turn_terminal_events (ad_session a) t u turn st None\<rparr>"
proof -
  from assms obtain u st where u: "require_str turn ''id'' = Some u" "require_str turn ''status'' = Some st"
    by (auto simp: plan_turn_def split: option.splits)
  from assms u have new: "u \<notin> set (pl_seen_turns p)" by (auto simp: plan_turn_def split: if_splits)
  from assms u new obtain at where at: "Option.bind (jget ''startedAt'' turn) as_i64 = Some at"
    by (auto simp: plan_turn_def split: if_splits option.splits)
  from assms u new at obtain items where items: "Option.bind (jget ''items'' turn) as_array = Some items"
    by (auto simp: plan_turn_def split: if_splits option.splits)
  then have arr: "jget ''items'' turn = Some (JArr items)"
    by (auto simp: bind_eq_Some_conv as_array_Some_iff)
  note facts = assms [unfolded plan_turn_def u at items option.case prod.case Let_def]
  show ?thesis
  proof (cases "st = RESUME_TURN_IN_PROGRESS")
    case True
    with facts new have "p' = p\<lparr>pl_seen_turns := u # pl_seen_turns p, pl_previous_started_at := at, pl_unsettled_turn := None,
          pl_running_turns := pl_running_turns p @ [u]\<rparr>"
      by (simp split: if_splits)
    with runs u new True show ?thesis by blast
  next
    case False
    with facts new have st: "st \<in> {RESUME_TURN_COMPLETED, RESUME_TURN_INTERRUPTED, RESUME_TURN_FAILED}"
      by (simp split: if_splits)
    from facts new False st obtain q where q: "plan_items (ad_session a) t u st items (p\<lparr>pl_seen_turns := u # pl_seen_turns p,
        pl_previous_started_at := at, pl_unsettled_turn := None, pl_terminal_turns := pl_terminal_turns p + 1\<rparr>) = Some q"
      "p' = q\<lparr>pl_discarded_usage := pl_discarded_usage q @ (if hget (ad_latest_usage a) (t, u) \<noteq> None then [(t, u)] else []),
          pl_events := pl_events q @ turn_terminal_events (ad_session a) t u turn st None\<rparr>"
      by (simp split: if_splits option.splits)
    from u new arr st q show ?thesis by (intro finished [of u st items at q])
  qed
qed

lemma plan_turn_ok:
  assumes "plan_turn a t turn p = Some p'" "plan_ok t p"
  shows "plan_ok t p'"
  using assms(1)
proof (cases rule: plan_turn_cases)
  case (runs u at)
  have "keys_ok t (insert u (set (pl_seen_turns p))) (pl_seen_items p) (pl_events p)"
    using assms(2) own_keys_Cons(2) [of t "set (pl_seen_turns p)" "pl_seen_items p" u] unfolding plan_ok_def keys_ok_def by blast
  moreover have "whose_ok (insert u (set (pl_seen_turns p)) - insert u (set (pl_running_turns p))) (pl_events p)"
    using assms(2) runs(2) unfolding plan_ok_def by (auto intro: whose_ok_mono)
  ultimately show ?thesis
    using assms(2) by (auto simp: runs(4) plan_ok_def)
next
  case (finished u at st items q)
  let ?V = "insert u (set (pl_seen_turns p)) - set (pl_running_turns p)"
  have new: "u \<notin> set (pl_running_turns p)" using assms(2) finished(2) by (auto simp: plan_ok_def)
  have "whose_ok ?V (pl_events p)"
    using assms(2) unfolding plan_ok_def by (auto intro: whose_ok_mono)
  then have q: "keys_ok t (set (pl_seen_turns p)) (pl_seen_items q) (pl_events q) \<and> whose_ok ?V (pl_events q)"
    using assms(2) new by (intro plan_items_keys [OF finished(6)]) (simp_all add: plan_ok_def)
  have "whose_ok ?V (turn_terminal_events (ad_session a) t u turn st None)"
    using terminal_events_whose new by (auto simp: whose_ok_def)
  moreover note keys_ok_turn [OF conjunct1 [OF q] finished(2), of "ad_session a" turn st] plan_items_other [OF finished(6)]
  ultimately show ?thesis
    using q assms(2) by (auto simp: finished(7) plan_ok_def)
qed

lemma plan_turns_ok:
  "plan_turns a t turns p = Some p' \<Longrightarrow> plan_ok t p \<Longrightarrow> plan_ok t p'"
proof (induction turns arbitrary: p)
  case (Cons turn turns)
  from Cons.prems(1) obtain q where "plan_turn a t turn p = Some q" "plan_turns a t turns q = Some p'"
    by (auto simp: bind_eq_Some_conv)
  with Cons.IH Cons.prems(2) plan_turn_ok show ?case by blast
qed simp

lemma plan_resume_seed_iff:
  assumes "plan_resume_seed result t a = Some s"
  obtains thread turns identity p where "jget ''thread'' result = Some thread" "require_str thread ''id'' = Some t"
    "jget ''turns'' thread = Some (JArr turns)" "turns \<noteq> []" "thread_identity_event (ad_session a) thread = Some identity"
    "plan_turns a t turns \<lparr>pl_events = [identity], pl_running_turns = [], pl_unsettled_turn = None, pl_discarded_usage = [],
       pl_terminal_turns = 0, pl_seen_turns = [], pl_seen_items = [], pl_previous_started_at = - (2 ^ 63)\<rparr> = Some p"
    "se_events s = pl_events p" "se_running_turns s = pl_running_turns p" "se_unsettled_turn s = pl_unsettled_turn p"
    "se_thread_id s = t"
proof -
  from assms obtain thread where t: "jget ''thread'' result = Some thread" "require_str thread ''id'' = Some t"
    by (auto simp: plan_resume_seed_def split: option.splits if_splits)
  from assms t obtain turns where turns: "Option.bind (jget ''turns'' thread) as_array = Some turns" "turns \<noteq> []"
    by (auto simp: plan_resume_seed_def split: option.splits if_splits)
  from assms t turns obtain identity where i: "thread_identity_event (ad_session a) thread = Some identity"
    by (auto simp: plan_resume_seed_def split: option.splits if_splits)
  define p0 where "p0 = \<lparr>pl_events = [identity], pl_running_turns = [], pl_unsettled_turn = None, pl_discarded_usage = [],
       pl_terminal_turns = 0, pl_seen_turns = [], pl_seen_items = [], pl_previous_started_at = - (2 ^ 63)\<rparr>"
  have "\<exists>p. plan_turns a t turns p0 = Some p \<and> se_events s = pl_events p \<and> se_running_turns s = pl_running_turns p
      \<and> se_unsettled_turn s = pl_unsettled_turn p \<and> se_thread_id s = t"
    using assms by (auto simp: plan_resume_seed_def t turns i p0_def split: if_splits)
  moreover have "jget ''turns'' thread = Some (JArr turns)"
    using turns(1) by (auto simp: bind_eq_Some_conv as_array_Some_iff)
  ultimately show ?thesis
    using that t turns(2) i unfolding p0_def by blast
qed

lemma plan_resume_seed_ok:
  assumes "plan_resume_seed result t a = Some s"
  shows "distinct (map key_of (se_events s))" "whose_ok (- set (se_running_turns s)) (se_events s)"
proof -
  obtain thread turns identity p where
      p: "plan_turns a t turns \<lparr>pl_events = [identity], pl_running_turns = [],
       pl_unsettled_turn = None, pl_discarded_usage = [], pl_terminal_turns = 0, pl_seen_turns = [], pl_seen_items = [],
       pl_previous_started_at = - (2 ^ 63)\<rparr> = Some p"
      and id: "require_str thread ''id'' = Some t" "thread_identity_event (ad_session a) thread = Some identity"
      and s: "se_events s = pl_events p" "se_running_turns s = pl_running_turns p"
    by (rule plan_resume_seed_iff [OF assms]) blast
  have "key_of identity = sid t ''thread_started'' \<and> pe_turn_id identity = None \<and> pe_item_id identity = None"
    using id by (auto simp: thread_identity_event_def key_of_def split: option.splits)
  then have "plan_ok t p"
    by (intro plan_turns_ok [OF p]) (simp add: plan_ok_def keys_ok_def own_keys_def whose_ok_def)
  then show "distinct (map key_of (se_events s))" "whose_ok (- set (se_running_turns s)) (se_events s)"
    by (auto simp: plan_ok_def keys_ok_def s intro: whose_ok_mono)
qed

section \<open>Recovered and live\<close>

text \<open>The frames the app-server sends live for what an answer describes and this build reads.\<close>

definition thread_frame :: "json \<Rightarrow> json" where
  "thread_frame thread = JObj [(''method'', JStr ''thread/started''), (''params'', JObj [(''thread'', thread)])]"

definition item_frame :: "string \<Rightarrow> string \<Rightarrow> json \<Rightarrow> json" where
  "item_frame t u item = JObj [(''method'', JStr ''item/completed''),
     (''params'', JObj [(''threadId'', JStr t), (''turnId'', JStr u), (''item'', item)])]"

definition turn_frame :: "string \<Rightarrow> json \<Rightarrow> json" where
  "turn_frame t turn = JObj [(''method'', JStr ''turn/completed''), (''params'', JObj [(''threadId'', JStr t), (''turn'', turn)])]"

definition read_item :: "json \<Rightarrow> bool" where
  "read_item item = (case (require_str item ''id'', require_str item ''type'') of
     (Some i, Some ty) \<Rightarrow> \<not> unread item i ty | _ \<Rightarrow> False)"

definition turn_frames :: "string \<Rightarrow> json \<Rightarrow> json list" where
  "turn_frames t turn =
     (if require_str turn ''status'' = Some RESUME_TURN_IN_PROGRESS then []
      else (case (require_str turn ''id'', Option.bind (jget ''items'' turn) as_array) of
          (Some u, Some items) \<Rightarrow> map (item_frame t u) (filter read_item items) @ [turn_frame t turn]
        | _ \<Rightarrow> []))"

definition live_frames :: "json \<Rightarrow> string \<Rightarrow> json list" where
  "live_frames result t = (case jget ''thread'' result of
     None \<Rightarrow> []
   | Some thread \<Rightarrow> (case Option.bind (jget ''turns'' thread) as_array of
       None \<Rightarrow> [] | Some turns \<Rightarrow> thread_frame thread # concat (map (turn_frames t) turns)))"

fun ingest_all :: "json list \<Rightarrow> codex_adapter \<Rightarrow> pending_event list \<times> codex_adapter" where
  "ingest_all [] a = ([], a)"
| "ingest_all (frame # frames) a = (case ingest frame a of (es, a') \<Rightarrow>
     (case ingest_all frames a' of (es', a'') \<Rightarrow> (es @ es', a'')))"

lemma ingest_all_append:
  "ingest_all (fs @ gs) a = (case ingest_all fs a of (es, a') \<Rightarrow> case ingest_all gs a' of (es', a'') \<Rightarrow> (es @ es', a''))"
  by (induction fs arbitrary: a) (simp_all split: prod.split)

lemma require_str_nonempty: "require_str v k = Some s \<Longrightarrow> s \<noteq> []"
  by (auto simp: require_str_def nonempty_str_def split: option.splits if_splits)

lemma require_str_JStr: "s \<noteq> [] \<Longrightarrow> jget k v = Some (JStr s) \<Longrightarrow> require_str v k = Some s"
  by (simp add: require_str_def nonempty_str_def)

lemma tool_states_its_outcome:
  assumes "\<not> unread item i ty" "ty \<in> {''commandExecution'', ''fileChange''}"
  shows "require_str item ''status'' \<noteq> None"
proof -
  have "is_some_and (Option.bind (jget ''status'' item) as_str) is_terminal_tool_status"
    using assms by (auto simp: unread_def seeded_item_shape_is_measured_def Let_def split: if_splits)
  then obtain st where "Option.bind (jget ''status'' item) as_str = Some st" "is_terminal_tool_status st"
    by (auto simp: is_some_and_def split: option.splits)
  then show ?thesis
    by (auto simp: require_str_def nonempty_str_def is_terminal_tool_status_def)
qed

lemma ingest_item_frame:
  assumes "require_str item ''id'' = Some i" "require_str item ''type'' = Some ty" "\<not> unread item i ty" "t \<noteq> []" "u \<noteq> []"
  shows "ingest (item_frame t u item) (adapter_new s) = ([terminal_item_event s t (Some u) i ty item False], adapter_new s)"
proof -
  define params where "params = JObj [(''threadId'', JStr t), (''turnId'', JStr u), (''item'', item)]"
  have ids: "item_identities params = Some (item, t, u, i, ty)"
    using assms by (simp add: item_identities_def params_def jget_def require_str_JStr)
  have "ingest (item_frame t u item) (adapter_new s) = on_item_completed params (adapter_new s)"
    by (simp add: ingest_def item_frame_def params_def [symmetric] jget_def or_null_def)
  also have "\<dots> = ([terminal_item_event s t (Some u) i ty item False], close_open t u i (adapter_new s))"
    using tool_states_its_outcome [OF assms(3)] by (auto simp: on_item_completed_def ids adapter_new_def)
  finally show ?thesis by (simp add: close_open_def adapter_new_def)
qed

lemma ingest_turn_frame:
  assumes "require_str turn ''id'' = Some u" "require_str turn ''status'' = Some st" "t \<noteq> []"
  shows "ingest (turn_frame t turn) (adapter_new s) = (turn_terminal_events s t u turn st None, adapter_new s)"
proof -
  define params where "params = JObj [(''threadId'', JStr t), (''turn'', turn)]"
  have p: "require_str params ''threadId'' = Some t" "jget ''turn'' params = Some turn"
    using assms(3) by (simp_all add: params_def jget_def require_str_JStr)
  have "ingest (turn_frame t turn) (adapter_new s) = on_turn_completed params (adapter_new s)"
    by (simp add: ingest_def turn_frame_def params_def [symmetric] jget_def or_null_def)
  also have "\<dots> = (turn_terminal_events s t u turn st None, adapter_new s)"
    by (simp add: on_turn_completed_def p assms drain_turn_items_def adapter_new_def)
  finally show ?thesis .
qed

lemma ingest_thread_frame:
  assumes "thread_identity_event s thread = Some e"
  shows "ingest (thread_frame thread) (adapter_new s) = ([e], adapter_new s)"
  using assms by (simp add: ingest_def thread_frame_def jget_def or_null_def on_thread_started_def adapter_new_def)

lemma plan_items_live:
  assumes "plan_items s t u st items p = Some p'" "t \<noteq> []" "u \<noteq> []"
  shows "pl_events p' = pl_events p @ fst (ingest_all (map (item_frame t u) (filter read_item items)) (adapter_new s))
    \<and> snd (ingest_all (map (item_frame t u) (filter read_item items)) (adapter_new s)) = adapter_new s"
  using assms(1)
proof (induction items arbitrary: p)
  case (Cons item items)
  from Cons.prems show ?case
  proof (cases rule: plan_items_Cons)
    case (skipped i ty)
    then have "\<not> read_item item" by (simp add: read_item_def)
    with Cons.IH [OF skipped(4)] show ?thesis by (simp split: if_splits)
  next
    case (read i ty)
    then have "read_item item" by (simp add: read_item_def)
    with Cons.IH [OF read(5)] ingest_item_frame [OF read(1-3) assms(2,3)] show ?thesis
      by (simp add: case_prod_unfold)
  qed
qed simp

lemma plan_turn_live:
  assumes "plan_turn a t turn p = Some p'" "t \<noteq> []"
  shows "pl_events p' = pl_events p @ fst (ingest_all (turn_frames t turn) (adapter_new (ad_session a)))
    \<and> snd (ingest_all (turn_frames t turn) (adapter_new (ad_session a))) = adapter_new (ad_session a)"
  using assms(1)
proof (cases rule: plan_turn_cases)
  case (runs u at)
  then show ?thesis by (simp add: turn_frames_def)
next
  case (finished u at st items q)
  have u: "u \<noteq> []" by (rule require_str_nonempty [OF finished(1)])
  have "st \<noteq> RESUME_TURN_IN_PROGRESS"
    using finished(5) by (auto simp: RESUME_TURN_COMPLETED_def RESUME_TURN_INTERRUPTED_def RESUME_TURN_FAILED_def RESUME_TURN_IN_PROGRESS_def)
  then have fr: "turn_frames t turn = map (item_frame t u) (filter read_item items) @ [turn_frame t turn]"
    by (simp add: turn_frames_def finished(1,3,4) as_array_def)
  show ?thesis
    using plan_items_live [OF finished(6) assms(2) u] ingest_turn_frame [OF finished(1,3) assms(2), of "ad_session a"]
    by (simp add: finished(7) fr ingest_all_append case_prod_unfold)
qed

lemma plan_turns_live:
  assumes "plan_turns a t turns p = Some p'" "t \<noteq> []"
  shows "pl_events p' = pl_events p @ fst (ingest_all (concat (map (turn_frames t) turns)) (adapter_new (ad_session a)))
    \<and> snd (ingest_all (concat (map (turn_frames t) turns)) (adapter_new (ad_session a))) = adapter_new (ad_session a)"
  using assms(1)
proof (induction turns arbitrary: p)
  case (Cons turn turns)
  from Cons.prems obtain q where "plan_turn a t turn p = Some q" "plan_turns a t turns q = Some p'"
    by (auto simp: bind_eq_Some_conv)
  with Cons.IH plan_turn_live [OF _ assms(2)] show ?case
    by (simp add: ingest_all_append case_prod_unfold)
qed simp

text \<open>C26. What is recovered is what would have been seen. The facts read out of the answer to a resume, in their
  order, are exactly the facts a fresh adapter of the session makes of the live frames of the same thread, of the
  finished turns the answer describes and of the items of theirs that this build reads: the same keys, turns,
  items and payloads, so a fact that was seen live and the same fact recovered later are one.\<close>
theorem recovered_facts_are_the_live_ones:
  "case plan_resume_seed result t a of None \<Rightarrow> True
   | Some s \<Rightarrow> se_events s = fst (ingest_all (live_frames result t) (adapter_new (ad_session a)))"
proof (cases "plan_resume_seed result t a")
  case (Some s)
  obtain thread turns identity p where p: "jget ''thread'' result = Some thread" "require_str thread ''id'' = Some t"
      "jget ''turns'' thread = Some (JArr turns)" "thread_identity_event (ad_session a) thread = Some identity"
      "plan_turns a t turns \<lparr>pl_events = [identity], pl_running_turns = [],
       pl_unsettled_turn = None, pl_discarded_usage = [], pl_terminal_turns = 0, pl_seen_turns = [], pl_seen_items = [],
       pl_previous_started_at = - (2 ^ 63)\<rparr> = Some p" "se_events s = pl_events p"
    by (rule plan_resume_seed_iff [OF Some]) blast
  have "live_frames result t = thread_frame thread # concat (map (turn_frames t) turns)"
    by (simp add: live_frames_def p(1,3) as_array_def)
  with plan_turns_live [OF p(5) require_str_nonempty [OF p(2)]] ingest_thread_frame [OF p(4)] Some p(6) show ?thesis
    by (simp add: case_prod_unfold)
qed simp

text \<open>An answer's facts do not shadow each other, and none is made up. Every fact read out of an answer has a key
  of its own, so the log keeps all of them; none is of a turn the answer reports running; and none is of an item
  under a placeholder id.\<close>
theorem recovered_facts_stand_apart:
  "case plan_resume_seed result t a of None \<Rightarrow> True
   | Some s \<Rightarrow> distinct (map pe_source_event_id (se_events s))
       \<and> list_all (\<lambda>e. pe_turn_id e \<notin> Some ` set (se_running_turns s) \<and> pe_item_id e \<notin> Some ` Collect is_placeholder_item_id)
           (se_events s)"
proof (cases "plan_resume_seed result t a")
  case (Some s)
  note ok = plan_resume_seed_ok [OF Some]
  have "distinct (map pe_source_event_id (se_events s))"
  proof -
    have "map key_of (se_events s) = map (\<lambda>k. case k of None \<Rightarrow> [] | Some v \<Rightarrow> v) (map pe_source_event_id (se_events s))"
      by (simp add: key_of_def)
    with ok(1) show ?thesis by (simp only: distinct_map)
  qed
  with ok(2) Some show ?thesis
    by (auto simp: whose_ok_def list_all_iff)
qed simp

section \<open>Threads and items apart\<close>

text \<open>The thread a frame is of, and the text it adds to an item.\<close>

definition frame_params :: "json \<Rightarrow> json" where
  "frame_params frame = or_null (jget ''params'' frame)"

definition is_method :: "string \<Rightarrow> json \<Rightarrow> bool" where
  "is_method m frame \<longleftrightarrow> Option.bind (jget ''method'' frame) as_str = Some m"

lemma ingest_cases:
  obtains "\<not> is_method ''item/agentMessage/delta'' frame" "ingest frame a = (fst (ingest frame a), a)"
  | "is_method ''item/started'' frame" "ingest frame a = on_item_started (frame_params frame) a"
  | "is_method ''item/completed'' frame" "ingest frame a = on_item_completed (frame_params frame) a"
  | "is_method ''item/agentMessage/delta'' frame" "ingest frame a = ([], on_agent_delta (frame_params frame) a)"
  | "is_method ''thread/tokenUsage/updated'' frame" "ingest frame a = ([], on_token_usage (frame_params frame) a)"
  | "is_method ''turn/completed'' frame" "ingest frame a = on_turn_completed (frame_params frame) a"
proof (cases "Option.bind (jget ''method'' frame) as_str")
  case None
  then show ?thesis by (intro that(1)) (simp_all add: ingest_def is_method_def)
next
  case (Some m)
  then have eq: "ingest frame a = (let params = frame_params frame in
       if m = ''thread/started'' then (on_thread_started params a, a)
       else if m = ''item/started'' then on_item_started params a
       else if m = ''item/completed'' then on_item_completed params a
       else if m = ''item/agentMessage/delta'' then ([], on_agent_delta params a)
       else if m = ''thread/tokenUsage/updated'' then ([], on_token_usage params a)
       else if m = ''turn/completed'' then on_turn_completed params a
       else ([], a))"
    by (simp add: ingest_def frame_params_def Let_def)
  have six: "thesis" if "x = x1 \<Longrightarrow> thesis" "x = x2 \<Longrightarrow> thesis" "x = x3 \<Longrightarrow> thesis" "x = x4 \<Longrightarrow> thesis" "x = x5 \<Longrightarrow> thesis"
      "x \<notin> {x1, x2, x3, x4, x5} \<Longrightarrow> thesis" for x x1 x2 x3 x4 x5 :: string and thesis
    using that by blast
  consider "m = ''item/started''" | "m = ''item/completed''" | "m = ''item/agentMessage/delta''" | "m = ''thread/tokenUsage/updated''"
    | "m = ''turn/completed''"
    | "m \<notin> {''item/started'', ''item/completed'', ''item/agentMessage/delta'', ''thread/tokenUsage/updated'', ''turn/completed''}"
    by (rule six)
  then show ?thesis
  proof cases
    case 6
    then have "ingest frame a = (fst (ingest frame a), a)"
      by (cases "m = ''thread/started''") (simp_all add: eq Let_def)
    with 6 Some show ?thesis by (intro that(1)) (simp_all add: is_method_def)
  qed (use that Some in \<open>simp_all add: eq is_method_def\<close>)
qed

lemma filter_remove_first: "(\<And>x. P x \<Longrightarrow> \<not> Q x) \<Longrightarrow> filter Q (remove_first P xs) = filter Q xs"
  by (induction xs) auto

lemma filter_update_first: "(\<And>x. P x \<Longrightarrow> \<not> Q x \<and> \<not> Q (f x)) \<Longrightarrow> filter Q (update_first P f xs) = filter Q xs"
  by (induction xs) auto

text \<open>A frame touches no other thread. Whatever a frame of one thread says, what the adapter holds for another
  thread, its open items with what streamed into them and its running totals, is as it was.\<close>
theorem frames_touch_only_their_thread:
  assumes "require_str (or_null (jget ''params'' frame)) ''threadId'' \<noteq> Some t"
  shows "filter (\<lambda>o'. oi_thread_id o' = t) (ad_open (snd (ingest frame a))) = filter (\<lambda>o'. oi_thread_id o' = t) (ad_open a)
    \<and> hget (ad_latest_usage (snd (ingest frame a))) (t, u) = hget (ad_latest_usage a) (t, u)"
proof (cases rule: ingest_cases [of frame a])
  case 1
  then show ?thesis by (metis snd_conv)
next
  case 2
  with assms show ?thesis
    by (auto simp: on_item_started_def item_identities_def frame_params_def split: option.splits)
next
  case 3
  with assms show ?thesis
    by (auto simp: on_item_completed_def item_identities_def frame_params_def close_open_def names_item_def
        intro!: filter_remove_first split: option.splits)
next
  case 4
  with assms show ?thesis
    by (auto simp: on_agent_delta_def frame_params_def names_item_def intro!: filter_update_first split: option.splits)
next
  case 5
  with assms show ?thesis
    by (auto simp: on_token_usage_def frame_params_def hget_hput split: option.splits)
next
  case 6
  with assms show ?thesis
    by (auto simp: on_turn_completed_def frame_params_def drain_turn_items_def of_turn_def hget_hdel filter_filter
        intro!: filter_cong split: option.splits)
qed

lemma frames_touch_witness:
  "ad_open (snd (ingest (item_frame ''t2'' ''u'' (JObj [(''id'', JStr ''i''), (''type'', JStr ''agentMessage'')]))
     (adapter_new \<lparr>sk_uid = ''s'', sk_name = ''s''\<rparr>))) = []
   \<and> filter (\<lambda>o'. oi_thread_id o' = ''t1'') (ad_open (snd (ingest (item_frame ''t2'' ''u''
       (JObj [(''id'', JStr ''i''), (''type'', JStr ''agentMessage'')])) (adapter_new \<lparr>sk_uid = ''s'', sk_name = ''s''\<rparr>)))) = []"
  using frames_touch_only_their_thread [of "item_frame ''t2'' ''u'' (JObj [(''id'', JStr ''i''), (''type'', JStr ''agentMessage'')])"
      "''t1''" "adapter_new \<lparr>sk_uid = ''s'', sk_name = ''s''\<rparr>" "''u''"]
  by (simp add: item_frame_def ingest_def on_item_completed_def item_identities_def close_open_def adapter_new_def
      jget_def or_null_def require_str_def nonempty_str_def)

section \<open>An aborted message\<close>

definition delta_for :: "string \<Rightarrow> string \<Rightarrow> string \<Rightarrow> json \<Rightarrow> string" where
  "delta_for t u i frame =
     (let params = frame_params frame in
      if is_method ''item/agentMessage/delta'' frame \<and> require_str params ''threadId'' = Some t
        \<and> require_str params ''turnId'' = Some u \<and> require_str params ''itemId'' = Some i
      then (case Option.bind (jget ''delta'' params) as_str of None \<Rightarrow> [] | Some d \<Rightarrow> d) else [])"

text \<open>The frames that end an item or open it again: its start, its terminal, its turn's terminal.\<close>

definition settles :: "string \<Rightarrow> string \<Rightarrow> string \<Rightarrow> json \<Rightarrow> bool" where
  "settles t u i frame \<longleftrightarrow>
     (let params = frame_params frame;
          names = (case item_identities params of None \<Rightarrow> False
            | Some (item, t', u', i', ty) \<Rightarrow> t' = t \<and> u' = u \<and> i' = i)
      in is_method ''item/started'' frame \<and> names \<or> is_method ''item/completed'' frame \<and> names
         \<or> is_method ''turn/completed'' frame \<and> require_str params ''threadId'' = Some t
           \<and> (case jget ''turn'' params of None \<Rightarrow> False | Some turn \<Rightarrow> require_str turn ''id'' = Some u))"

lemma filter_update_one: "filter P xs = [x] \<Longrightarrow> P (f x) \<Longrightarrow> filter P (update_first P f xs) = [f x]"
  by (induction xs) (auto split: if_splits)

lemma names_apart: "(t', u', i') \<noteq> (t, u, i) \<Longrightarrow> names_item t' u' i' x \<Longrightarrow> \<not> names_item t u i x"
  by (auto simp: names_item_def)

lemma update_apart:
  "t' \<noteq> t \<or> u' \<noteq> u \<or> i' \<noteq> i \<Longrightarrow> filter (names_item t u i)
     (update_first (names_item t' u' i') (\<lambda>o'. o'\<lparr>oi_delta_text := oi_delta_text o' @ d\<rparr>) xs) = filter (names_item t u i) xs"
  by (rule filter_update_first) (auto simp: names_item_def)

lemma streaming_step:
  assumes "filter (names_item t u i) (ad_open a) = [x]" "\<not> settles t u i frame"
  shows "filter (names_item t u i) (ad_open (snd (ingest frame a))) = [x\<lparr>oi_delta_text := oi_delta_text x @ delta_for t u i frame\<rparr>]"
    "ad_session (snd (ingest frame a)) = ad_session a"
proof -
  have named: "names_item t u i x"
    using assms(1) filter_eq_Cons_iff [of "names_item t u i" "ad_open a" x "[]"] by blast
  have none: "delta_for t u i frame = []" if "\<not> is_method ''item/agentMessage/delta'' frame"
    using that by (simp add: delta_for_def Let_def)
  have other: "delta_for t u i frame = []" if "is_method m frame" "m \<noteq> ''item/agentMessage/delta''" for m
    using that by (simp add: delta_for_def is_method_def Let_def)
  have "filter (names_item t u i) (ad_open (snd (ingest frame a))) = [x\<lparr>oi_delta_text := oi_delta_text x @ delta_for t u i frame\<rparr>]
      \<and> ad_session (snd (ingest frame a)) = ad_session a"
  proof (cases rule: ingest_cases [of frame a])
    case 1
    with assms(1) none show ?thesis by (metis append_Nil2 open_item.surjective open_item.update_convs(6) snd_conv)
  next
    case 2
    show ?thesis
    proof (cases "item_identities (frame_params frame)")
      case None
      with 2 assms(1) other [OF 2(1)] show ?thesis by (simp add: on_item_started_def)
    next
      case (Some ids)
      obtain item t' u' i' ty where ids: "ids = (item, t', u', i', ty)" by (cases ids)
      have "(t', u', i') \<noteq> (t, u, i)"
        using assms(2) 2(1) Some by (auto simp: settles_def ids)
      with 2 Some assms(1) other [OF 2(1)] show ?thesis
        by (auto simp: on_item_started_def ids names_item_def)
    qed
  next
    case 3
    show ?thesis
    proof (cases "item_identities (frame_params frame)")
      case None
      with 3 assms(1) other [OF 3(1)] show ?thesis by (simp add: on_item_completed_def)
    next
      case (Some ids)
      obtain item t' u' i' ty where ids: "ids = (item, t', u', i', ty)" by (cases ids)
      have apart: "(t', u', i') \<noteq> (t, u, i)"
        using assms(2) 3(1) Some by (auto simp: settles_def ids)
      have "filter (names_item t u i) (remove_first (names_item t' u' i') (ad_open a)) = [x]"
        using filter_remove_first [of "names_item t' u' i'" "names_item t u i" "ad_open a"] names_apart [OF apart] assms(1) by simp
      with 3 Some assms(1) other [OF 3(1)] show ?thesis
        by (simp add: on_item_completed_def ids close_open_def)
    qed
  next
    case 4
    show ?thesis
    proof (cases "require_str (frame_params frame) ''threadId'' = Some t \<and> require_str (frame_params frame) ''turnId'' = Some u
        \<and> require_str (frame_params frame) ''itemId'' = Some i")
      case True
      with 4 assms(1) named show ?thesis
        by (cases "Option.bind (jget ''delta'' (frame_params frame)) as_str")
          (simp_all add: on_agent_delta_def delta_for_def Let_def filter_update_one names_item_def)
    next
      case False
      then have "delta_for t u i frame = []" by (auto simp: delta_for_def Let_def)
      with 4 False assms(1) show ?thesis
        by (auto simp: on_agent_delta_def update_apart split: option.split)
    qed
  next
    case 5
    with assms(1) other [OF 5(1)] show ?thesis
      by (simp add: on_token_usage_def split: option.split)
  next
    case 6
    have "names_item t u i o' \<Longrightarrow> \<not> of_turn t' u' o'" if "t' \<noteq> t \<or> u' \<noteq> u" for t' u' o'
      using that by (auto simp: names_item_def of_turn_def)
    then have kept: "filter (names_item t u i) (filter (\<lambda>o'. \<not> of_turn t' u' o') (ad_open a)) = [x]" if "t' \<noteq> t \<or> u' \<noteq> u" for t' u'
      using that assms(1) by (auto simp: filter_filter intro!: trans [OF filter_cong [OF refl] assms(1)])
    show ?thesis
      using 6 assms other [OF 6(1)] kept
      by (auto simp: settles_def on_turn_completed_def drain_turn_items_def Let_def split: option.splits)
  qed
  then show "filter (names_item t u i) (ad_open (snd (ingest frame a))) = [x\<lparr>oi_delta_text := oi_delta_text x @ delta_for t u i frame\<rparr>]"
    "ad_session (snd (ingest frame a)) = ad_session a" by simp_all
qed

text \<open>What an adapter takes in: live frames, and answers whose facts were filed.\<close>

datatype fed = FedFrame json | FedAnswer seed

fun feed :: "fed \<Rightarrow> codex_adapter \<Rightarrow> codex_adapter" where
  "feed (FedFrame frame) a = snd (ingest frame a)"
| "feed (FedAnswer s) a = apply_resume_seed s a"

fun settled_by :: "string \<Rightarrow> string \<Rightarrow> string \<Rightarrow> fed \<Rightarrow> bool" where
  "settled_by t u i (FedFrame frame) = settles t u i frame"
| "settled_by t u i (FedAnswer s) = (se_thread_id s = t \<and> u \<notin> set (se_running_turns s))"

fun text_added :: "string \<Rightarrow> string \<Rightarrow> string \<Rightarrow> fed \<Rightarrow> string" where
  "text_added t u i (FedFrame frame) = delta_for t u i frame"
| "text_added t u i (FedAnswer s) = []"

lemma streaming_feed:
  assumes "filter (names_item t u i) (ad_open a) = [x]" "\<not> settled_by t u i f"
  shows "filter (names_item t u i) (ad_open (feed f a)) = [x\<lparr>oi_delta_text := oi_delta_text x @ text_added t u i f\<rparr>]"
    "ad_session (feed f a) = ad_session a"
proof -
  have kept: "filter (names_item t u i) (ad_open (apply_resume_seed s a)) = [x]" if "\<not> settled_by t u i (FedAnswer s)" for s
  proof -
    have "filter (names_item t u i) (ad_open (apply_resume_seed s a)) = filter (names_item t u i) (ad_open a)"
      using that by (auto simp: apply_resume_seed_def filter_filter names_item_def intro!: filter_cong)
    with assms(1) show ?thesis by simp
  qed
  show "filter (names_item t u i) (ad_open (feed f a)) = [x\<lparr>oi_delta_text := oi_delta_text x @ text_added t u i f\<rparr>]"
    using assms streaming_step(1) [OF assms(1)] kept by (cases f) simp_all
  show "ad_session (feed f a) = ad_session a"
    using assms streaming_step(2) [OF assms(1)] by (cases f) (simp_all add: apply_resume_seed_def)
qed

lemma streaming_run:
  assumes "filter (names_item t u i) (ad_open a) = [x]" "list_all (\<lambda>f. \<not> settled_by t u i f) steps"
  shows "filter (names_item t u i) (ad_open (fold feed steps a))
      = [x\<lparr>oi_delta_text := oi_delta_text x @ concat (map (text_added t u i) steps)\<rparr>]
    \<and> ad_session (fold feed steps a) = ad_session a"
  using assms
proof (induction steps arbitrary: a x)
  case (Cons f steps)
  from Cons.prems(2) have f: "\<not> settled_by t u i f" "list_all (\<lambda>f. \<not> settled_by t u i f) steps" by simp_all
  note step = streaming_feed [OF Cons.prems(1) f(1)]
  from Cons.IH [OF step(1) f(2)] step(2) show ?case by simp
qed simp

lemma aborted_item:
  assumes "require_str turn ''id'' = Some u" "require_str turn ''status'' = Some st" "st \<in> {''interrupted'', ''failed''}" "t \<noteq> []"
    "filter (names_item t u i) (ad_open a) = [x]"
  shows "filter (\<lambda>e. pe_item_id e = Some i) (fst (ingest (turn_frame t turn) a))
    = [terminal_item_event (ad_session a) t (Some u) i (oi_item_type x) (synthesized_terminal x) True]"
proof -
  define params where "params = JObj [(''threadId'', JStr t), (''turn'', turn)]"
  have p: "require_str params ''threadId'' = Some t" "jget ''turn'' params = Some turn"
    using assms(4) by (simp_all add: params_def jget_def require_str_JStr)
  let ?ev = "\<lambda>o'. terminal_item_event (ad_session a) t (Some (oi_turn_id o')) (oi_item_id o') (oi_item_type o') (synthesized_terminal o') True"
  have "ingest (turn_frame t turn) a = on_turn_completed params a"
    by (simp add: ingest_def turn_frame_def params_def [symmetric] jget_def or_null_def)
  then have ev: "fst (ingest (turn_frame t turn) a) = map ?ev (filter (of_turn t u) (ad_open a))
      @ turn_terminal_events (ad_session a) t u turn st (hget (ad_latest_usage a) (t, u))"
    using assms(3) by (simp add: on_turn_completed_def p assms(1,2) drain_turn_items_def)
  have none: "filter (\<lambda>e. pe_item_id e = Some i) (turn_terminal_events s t u turn st usage) = []" for s usage
    using terminal_events_whose [of _ s t u turn st usage] by (auto simp: filter_empty_conv)
  have "filter (\<lambda>o'. oi_item_id o' = i) (filter (of_turn t u) (ad_open a)) = filter (names_item t u i) (ad_open a)"
    by (auto simp: filter_filter of_turn_def names_item_def intro!: filter_cong)
  moreover have "names_item t u i x"
    using assms(5) filter_eq_Cons_iff [of "names_item t u i" "ad_open a" x "[]"] by blast
  ultimately show ?thesis
    by (simp add: ev none filter_map o_def assms(5) names_item_def)
qed

text \<open>What streamed survives an abort, and a connection that broke. A message that was started and whose turn is
  then interrupted or fails becomes, at the turn's end, exactly one fact: marked interrupted, of that turn, under the
  message's key, and with the text it was started with and every piece that streamed into it, in order; whatever else
  was read in between, the answers to resumes included, as long as they report the turn running.\<close>
theorem streamed_text_survives_the_abort:
  assumes "is_method ''item/started'' start" "item_identities (frame_params start) = Some (item, t, u, i, ''agentMessage'')"
    "filter (names_item t u i) (ad_open a) = []" "list_all (\<lambda>f. \<not> settled_by t u i f) steps"
    "require_str turn ''id'' = Some u" "require_str turn ''status'' = Some st" "st \<in> {''interrupted'', ''failed''}"
  shows "filter (\<lambda>e. pe_item_id e = Some i) (fst (ingest (turn_frame t turn) (fold feed steps (snd (ingest start a)))))
    = [\<lparr>pe_session_uid = sk_uid (ad_session a), pe_session_id = sk_name (ad_session a), pe_kind = AgentMessage,
        pe_payload = json_obj [(''text'', JStr ((case Option.bind (jget ''text'' item) as_str of None \<Rightarrow> [] | Some w \<Rightarrow> w)
            @ concat (map (text_added t u i) steps))), (''interrupted'', JBool True)],
        pe_source = CodexSource, pe_source_event_id = Some (sid t (''item:'' @ i)), pe_turn_id = Some u, pe_item_id = Some i\<rparr>]"
proof -
  define x where "x = \<lparr>oi_thread_id = t, oi_item_id = i, oi_turn_id = u, oi_item_type = ''agentMessage'', oi_started = item,
    oi_delta_text = (case Option.bind (jget ''text'' item) as_str of None \<Rightarrow> [] | Some w \<Rightarrow> w)\<rparr>"
  have "ingest start a = on_item_started (frame_params start) a"
    using assms(1) by (simp add: ingest_def is_method_def frame_params_def)
  then have b: "ad_open (snd (ingest start a)) = ad_open a @ [x]" "ad_session (snd (ingest start a)) = ad_session a"
    by (simp_all add: on_item_started_def assms(2) x_def)
  then have one: "filter (names_item t u i) (ad_open (snd (ingest start a))) = [x]"
    using assms(3) by (simp add: x_def names_item_def)
  from assms(2) have ids: "require_str item ''id'' = Some i" "t \<noteq> []"
    by (auto simp: item_identities_def dest: require_str_nonempty split: option.splits)
  then obtain ms where ms: "item = JObj ms"
    by (cases item) (simp_all add: require_str_def jget_def nonempty_str_def)
  from streaming_run [OF one assms(4)] aborted_item [OF assms(5-7) ids(2)] show ?thesis
    by (simp add: b x_def synthesized_terminal_def ms terminal_item_event_def message_payload_def jget_def hget_hput
        with_item_id_def with_turn_id_def with_source_event_id_def fact_def pending_event_new_def)
qed

definition sample_start :: json where
  "sample_start = JObj [(''method'', JStr ''item/started''), (''params'', JObj [(''threadId'', JStr ''t''), (''turnId'', JStr ''u''),
     (''item'', JObj [(''id'', JStr ''m''), (''type'', JStr ''agentMessage''), (''text'', JStr [])])])]"

definition sample_delta :: "string \<Rightarrow> json" where
  "sample_delta d = JObj [(''method'', JStr ''item/agentMessage/delta''), (''params'', JObj [(''threadId'', JStr ''t''),
     (''turnId'', JStr ''u''), (''itemId'', JStr ''m''), (''delta'', JStr d)])]"

lemmas sample_frames = sample_start_def sample_delta_def is_method_def jget_def item_identities_def frame_params_def or_null_def
  require_str_def nonempty_str_def settles_def delta_for_def

definition sample_seed :: seed where
  "sample_seed = \<lparr>se_thread_id = ''t'', se_events = [], se_running_turns = [''u''], se_unsettled_turn = None,
     se_discarded_usage = [], se_described_turns = 1, se_terminal_turns = 0\<rparr>"

lemma streamed_text_survives_witness:
  "filter (\<lambda>e. pe_item_id e = Some ''m'') (fst (ingest (turn_frame ''t'' (JObj [(''id'', JStr ''u''), (''status'', JStr ''interrupted'')]))
     (fold feed [FedFrame (sample_delta ''Hel''), FedAnswer sample_seed, FedFrame (sample_delta ''lo'')]
       (snd (ingest sample_start (adapter_new \<lparr>sk_uid = ''s'', sk_name = ''n''\<rparr>))))))
   = [\<lparr>pe_session_uid = ''s'', pe_session_id = ''n'', pe_kind = AgentMessage,
       pe_payload = json_obj [(''text'', JStr ''Hello''), (''interrupted'', JBool True)],
       pe_source = CodexSource, pe_source_event_id = Some ''t:item:m'', pe_turn_id = Some ''u'', pe_item_id = Some ''m''\<rparr>]"
proof -
  have "is_method ''item/started'' sample_start"
    "item_identities (frame_params sample_start)
      = Some (JObj [(''id'', JStr ''m''), (''type'', JStr ''agentMessage''), (''text'', JStr [])], ''t'', ''u'', ''m'', ''agentMessage'')"
    "filter (names_item ''t'' ''u'' ''m'') (ad_open (adapter_new \<lparr>sk_uid = ''s'', sk_name = ''n''\<rparr>)) = []"
    "list_all (\<lambda>f. \<not> settled_by ''t'' ''u'' ''m'' f) [FedFrame (sample_delta ''Hel''), FedAnswer sample_seed, FedFrame (sample_delta ''lo'')]"
    "require_str (JObj [(''id'', JStr ''u''), (''status'', JStr ''interrupted'')]) ''id'' = Some ''u''"
    "require_str (JObj [(''id'', JStr ''u''), (''status'', JStr ''interrupted'')]) ''status'' = Some ''interrupted''"
    "''interrupted'' \<in> {''interrupted'', ''failed''}"
    by (simp_all add: sample_frames adapter_new_def sample_seed_def)
  note streamed_text_survives_the_abort [OF this]
  moreover have "concat (map (text_added ''t'' ''u'' ''m'') [FedFrame (sample_delta ''Hel''), FedAnswer sample_seed, FedFrame (sample_delta ''lo'')])
      = ''Hello''"
    by (simp add: sample_frames)
  ultimately show ?thesis by (simp add: adapter_new_def jget_def sid_def)
qed

end
