(* ===== verification/Ccd_Link_Facts.thy ===== *)
theory Ccd_Link_Facts
  imports Ccd_Attach_Owed Ccd_Adapter_Props
begin

text \<open>
  The link and its adapter together: what the adapter makes of frames and answers is what the attach is told.
\<close>

section \<open>What the attach reads of the adapter's facts\<close>

text \<open>What \<open>note_terminal\<close> and \<open>note_later_turn\<close> read of a fact; \<open>filed\<close> is whether the log took it.\<close>

definition minted_of :: "bool \<Rightarrow> pending_event \<Rightarrow> minted" where
  "minted_of filed e = (if pe_kind e \<noteq> TurnComplete then MintedOther
     else MintedEnd (pe_turn_id e) (str_at [''status''] (pe_payload e)) filed)"

definition resume_seed_of :: "seed \<Rightarrow> bool \<Rightarrow> bool \<Rightarrow> (string \<Rightarrow> bool option) \<Rightarrow> resume_seed" where
  "resume_seed_of s placed filed terminal_filed =
     \<lparr>sd_running_turn_ids = se_running_turns s, sd_unsettled_turn_id = se_unsettled_turn s, sd_placed = placed,
      sd_filed = filed, sd_terminal_filed = terminal_filed\<rparr>"

section \<open>A turn that was joined while it ran\<close>

lemma plan_items_unsettled:
  assumes "plan_items s t u st items p = Some p'"
  shows "pl_unsettled_turn p' \<in> {pl_unsettled_turn p, Some u}"
  using assms
proof (induction items arbitrary: p)
  case (Cons item items)
  from Cons.prems show ?case
    by (cases rule: plan_items_Cons) (auto dest!: Cons.IH split: if_splits)
qed simp

definition unsettled_ok :: "planning \<Rightarrow> bool" where
  "unsettled_ok p \<longleftrightarrow> set (pl_running_turns p) \<subseteq> set (pl_seen_turns p)
     \<and> (case pl_unsettled_turn p of None \<Rightarrow> True | Some v \<Rightarrow> v \<notin> set (pl_running_turns p))"

lemma plan_turn_unsettled: "plan_turn a t turn p = Some p' \<Longrightarrow> unsettled_ok p \<Longrightarrow> unsettled_ok p'"
proof (erule plan_turn_cases, goal_cases)
  case (2 u at st items q)
  have "pl_unsettled_turn q \<in> {None, Some u}" using plan_items_unsettled [OF 2(7)] by simp
  with 2 plan_items_other(1,2) [OF 2(7)] show ?case by (auto simp: unsettled_ok_def)
qed (auto simp: unsettled_ok_def)

lemma plan_turns_unsettled: "plan_turns a t turns p = Some p' \<Longrightarrow> unsettled_ok p \<Longrightarrow> unsettled_ok p'"
proof (induction turns arbitrary: p)
  case (Cons turn turns)
  from Cons.prems(1) obtain q where "plan_turn a t turn p = Some q" "plan_turns a t turns q = Some p'"
    by (auto simp: bind_eq_Some_conv)
  with Cons.IH Cons.prems(2) plan_turn_unsettled show ?case by blast
qed simp

lemma seed_unsettled:
  assumes "plan_resume_seed result t a = Some s" "u \<in> set (se_running_turns s)"
  shows "se_unsettled_turn s \<noteq> Some u"
proof -
  obtain thread turns identity p where
      p: "plan_turns a t turns \<lparr>pl_events = [identity], pl_running_turns = [],
       pl_unsettled_turn = None, pl_discarded_usage = [], pl_terminal_turns = 0, pl_seen_turns = [], pl_seen_items = [],
       pl_previous_started_at = - (2 ^ 63)\<rparr> = Some p"
      and s: "se_running_turns s = pl_running_turns p" "se_unsettled_turn s = pl_unsettled_turn p"
    by (rule plan_resume_seed_iff [OF assms(1)]) blast
  have "unsettled_ok p"
    by (rule plan_turns_unsettled [OF p]) (simp add: unsettled_ok_def)
  with assms(2) show ?thesis by (auto simp: unsettled_ok_def s)
qed

lemma debts_debt_entry:
  "hget (cn_debts (debt_entry k d c)) k' = (case hget (cn_debts c) k' of Some v \<Rightarrow> Some v | None \<Rightarrow> if k' = k then Some d else None)"
  by (auto simp: debt_entry_def hget_hput split: option.split)

lemma debts_fold_entry:
  "hget (cn_debts (fold (\<lambda>turn. debt_entry (t, turn) d) turns c)) (t, u)
   = (case hget (cn_debts c) (t, u) of Some v \<Rightarrow> Some v | None \<Rightarrow> if u \<in> set turns then Some d else None)"
  by (induction turns arbitrary: c) (auto simp: debts_debt_entry split: option.splits)

lemma hget_on_debts: "hget (cn_debts (on_debts f c)) (t, u) = map_option (f t u) (hget (cn_debts c) (t, u))"
proof -
  have "map_of (map (\<lambda>((t, turn), debt). ((t, turn), f t turn debt)) xs) (t, u) = map_option (f t u) (map_of xs (t, u))" for xs
    by (induction xs) auto
  then show ?thesis by (simp add: on_debts_def)
qed

lemma debts_seed_running [simp]: "cn_debts (seed_running_turn seed t c) = cn_debts c"
  by (simp add: seed_running_turn_def split: list.split)

lemma debts_observe_approval [simp]: "cn_debts (observe_approval frame c) = cn_debts c"
  by (auto simp: observe_approval_def Let_def split: option.split)

lemma debts_note_turn_start [simp]: "cn_debts (note_turn_start frame c) = cn_debts c"
  by (simp add: note_turn_start_def split: option.split)

lemma minted_other: "note_later_turn MintedOther (note_terminal now MintedOther c) = c"
  by (simp add: note_later_turn_def note_terminal_def)

lemma record_minted_append: "record_minted now (ms @ ns) c = record_minted now ns (record_minted now ms c)"
  by (simp add: record_minted_def)

lemma record_minted_others:
  "list_all (\<lambda>e. pe_kind e \<noteq> TurnComplete) es \<Longrightarrow> record_minted now (map (\<lambda>e. minted_of (filed e) e) es) c = c"
  by (induction es) (simp_all add: record_minted_def minted_of_def minted_other)

lemma completed_pays:
  assumes "conn_bound c = Some t" "hget (cn_debts c) (t, u) = Some AwaitingTerminal"
  shows "hget (cn_debts (record_minted now [MintedEnd (Some u) (Some ''completed'') f] c)) (t, u) = Some Owed"
  using assms by (cases f) (auto simp: record_minted_def note_terminal_def note_later_turn_def Let_def hget_on_debts hget_hput)

lemma turn_facts:
  assumes "require_str turn ''id'' = Some u" "require_str turn ''status'' = Some ''completed''" "t \<noteq> []"
  shows "\<exists>before after f. map (\<lambda>e. minted_of (filed e) e) (fst (ingest (turn_frame t turn) a))
      = map (\<lambda>e. minted_of (filed e) e) before @ [MintedEnd (Some u) (Some ''completed'') f] @ map (\<lambda>e. minted_of (filed e) e) after
    \<and> list_all (\<lambda>e. pe_kind e \<noteq> TurnComplete) before \<and> list_all (\<lambda>e. pe_kind e \<noteq> TurnComplete) after"
proof -
  define params where "params = JObj [(''threadId'', JStr t), (''turn'', turn)]"
  have p: "require_str params ''threadId'' = Some t" "jget ''turn'' params = Some turn"
    using assms(3) by (simp_all add: params_def jget_def require_str_JStr)
  have "ingest (turn_frame t turn) a = on_turn_completed params a"
    by (simp add: ingest_def turn_frame_def params_def [symmetric] jget_def or_null_def)
  then have ev: "fst (ingest (turn_frame t turn) a)
      = turn_terminal_events (ad_session a) t u turn ''completed'' (hget (ad_latest_usage a) (t, u))"
    by (simp add: on_turn_completed_def p assms(1,2) drain_turn_items_def)
  define usage where "usage = hget (ad_latest_usage a) (t, u)"
  let ?before = "case usage of None \<Rightarrow> [] | Some v \<Rightarrow> [with_turn_id (Some u) (with_source_event_id (sid t (''usage:'' @ u)) (fact (ad_session a) Usage v))]"
  let ?after = "case jget ''error'' turn of Some err \<Rightarrow> if err = JNull then []
    else [with_turn_id (Some u) (with_source_event_id (sid t (''turn_error:'' @ u)) (fact (ad_session a) ErrorFact err))] | None \<Rightarrow> []"
  let ?terminal = "with_turn_id (Some u) (with_source_event_id (turn_terminal_source_event_id t u)
    (fact (ad_session a) TurnComplete (json_obj [(''status'', JStr ''completed''), (''error'', or_null (jget ''error'' turn)),
      (''started_at'', or_null (jget ''startedAt'' turn)), (''completed_at'', or_null (jget ''completedAt'' turn)),
      (''duration_ms'', or_null (jget ''durationMs'' turn))])))"
  have "fst (ingest (turn_frame t turn) a) = ?before @ [?terminal] @ ?after"
    unfolding ev turn_terminal_events_def usage_def [symmetric] by simp
  moreover have "minted_of (filed ?terminal) ?terminal = MintedEnd (Some u) (Some ''completed'') (filed ?terminal)"
    by (simp add: minted_of_def str_at_def json_obj_def jget_def)
  moreover have "list_all (\<lambda>e. pe_kind e \<noteq> TurnComplete) ?before" "list_all (\<lambda>e. pe_kind e \<noteq> TurnComplete) ?after"
    by (simp_all split: option.split)
  ultimately show ?thesis
    by (intro exI [of _ ?before] exI [of _ ?after] exI [of _ "filed ?terminal"]) (simp only: map_append list.map simp_thms)
qed

lemma turn_frame_reads [simp]:
  "frame_kind_of (turn_frame t turn) = NotificationFrame" "announces_a_session_thread (turn_frame t turn) = False"
  "str_at [''method''] (turn_frame t turn) = Some ''turn/completed''"
  by (simp_all add: turn_frame_def frame_kind_of_def announces_a_session_thread_def str_at_def jget_def HEAD_NOTICE_def)

lemma turn_frame_thread: "t \<noteq> [] \<Longrightarrow> frame_thread_id (turn_frame t turn) = Named t"
  by (simp add: turn_frame_def frame_thread_id_def jget_def nonempty_str_def)

lemma turn_frame_start [simp]: "note_turn_start (turn_frame t turn) c = c"
  by (simp add: note_turn_start_def)

lemma bound_record_minted [simp]: "conn_bound (record_minted now ms c) = conn_bound c"
  by (simp add: conn_bound_def)

text \<open>A connection that is subscribed, with a turn of its thread that it joined while it ran, reads the turn's end.\<close>

lemma completed_turn_is_owed:
  assumes "conn_bound c = Some t" "hget (cn_debts c) (t, u) = Some AwaitingTerminal" "t \<noteq> []"
    "require_str turn ''id'' = Some u" "require_str turn ''status'' = Some ''completed''"
  shows "hget (cn_debts (observe_notification now (turn_frame t turn)
      (map (\<lambda>e. minted_of (filed e) e) (fst (ingest (turn_frame t turn) a))) c)) (t, u) = Some Owed"
proof -
  obtain before after f where ms: "map (\<lambda>e. minted_of (filed e) e) (fst (ingest (turn_frame t turn) a))
      = map (\<lambda>e. minted_of (filed e) e) before @ [MintedEnd (Some u) (Some ''completed'') f] @ map (\<lambda>e. minted_of (filed e) e) after"
    "list_all (\<lambda>e. pe_kind e \<noteq> TurnComplete) before" "list_all (\<lambda>e. pe_kind e \<noteq> TurnComplete) after"
    using turn_facts [OF assms(4,5,3), of filed a] by blast
  let ?ms = "map (\<lambda>e. minted_of (filed e) e) (fst (ingest (turn_frame t turn) a))"
  have "note_switch_candidate (turn_frame t turn) c = (SwitchPassed, c)"
    by (simp add: note_switch_candidate_def)
  moreover have "admits (cn_visit c) \<lparr>in_generation = vi_generation (cn_visit c), in_upstream_epoch = vi_upstream_epoch (cn_visit c)\<rparr>
      (frame_thread_id (turn_frame t turn))"
    using assms(1) by (simp add: admits_def turn_frame_thread [OF assms(3)] conn_bound_def)
  ultimately have "observe_notification now (turn_frame t turn) ?ms c = observe_approval (turn_frame t turn) (record_minted now ?ms c)"
    by (simp add: observe_notification_def)
  moreover have "hget (cn_debts (record_minted now ?ms c)) (t, u) = Some Owed"
    unfolding ms(1) record_minted_append record_minted_others [OF ms(2)] record_minted_others [OF ms(3)]
    by (rule completed_pays [OF assms(1,2)])
  ultimately show ?thesis by simp
qed

lemma debts_follow_binding [simp]: "cn_debts (follow_binding now c) = cn_debts c"
  by (simp add: follow_binding_eq split: option.split)

lemma keeps_observe_switch: "announces_a_session_thread frame = False \<Longrightarrow>
  rest_of (observe_notification now frame ms c) = rest_of c"
  by (auto simp: observe_notification_def note_switch_candidate_def)

lemma follow_up_is_due:
  assumes "cn_attach c = AtAttached" "conn_bound c = Some t" "hget (cn_debts c) (t, u) = Some AwaitingTerminal" "t \<noteq> []"
    "cn_switch_candidate c = None" "cn_resume_target c = Some t"
    "require_str turn ''id'' = Some u" "require_str turn ''status'' = Some ''completed''"
  shows "\<exists>d. on_frame now (turn_frame t turn) (map (\<lambda>e. minted_of (filed e) e) (fst (ingest (turn_frame t turn) a))) None c
      = (True, d\<lparr>cn_attach := due_now now\<rparr>) \<and> rest_of d = rest_of c"
proof -
  let ?ms = "map (\<lambda>e. minted_of (filed e) e) (fst (ingest (turn_frame t turn) a))"
  define d where "d = observe_notification now (turn_frame t turn) ?ms c"
  have rest: "rest_of d = rest_of c"
    by (simp add: d_def keeps_observe_switch)
  have owed: "hget (cn_debts d) (t, u) = Some Owed"
    unfolding d_def by (rule completed_turn_is_owed [OF assms(2-4,7,8)])
  note same = rest_of_fields [OF rest]
  have f: "follow_binding now d = d"
    using assms(1,2,6) same by (cases d) (simp add: follow_binding_eq redirect_def conn_bound_def)
  have o: "follow_up_owed d"
    using map_of_SomeD [OF owed] assms(2) same by (force simp: follow_up_owed_def list_ex_iff)
  have "apply_held_candidate now d = d"
    using assms(5) same by (simp add: apply_held_candidate_def)
  then have "after_frame now d = (True, d\<lparr>cn_attach := due_now now\<rparr>)"
    using assms(1) same o by (simp add: after_frame_eq Let_def)
  moreover have "on_frame now (turn_frame t turn) ?ms None c = after_frame now d"
    using assms(1) same by (simp add: on_frame_def is_our_response_def d_def [symmetric] f)
  ultimately show ?thesis using rest by auto
qed

section \<open>What a step leaves of a turn that is awaited\<close>

abbreviation debt_of :: "string \<Rightarrow> string \<Rightarrow> conn \<Rightarrow> turn_debt option" where
  "debt_of t u c \<equiv> hget (cn_debts c) (t, u)"

definition ends_turn :: "string \<Rightarrow> minted \<Rightarrow> bool" where
  "ends_turn u m = (case m of MintedEnd turn status filed \<Rightarrow> turn = Some u | MintedOther \<Rightarrow> False)"

lemma awaited_terminal:
  "\<not> ends_turn u m \<Longrightarrow> debt_of t u c = Some AwaitingTerminal \<Longrightarrow>
     debt_of t u (note_later_turn m (note_terminal now m c)) = Some AwaitingTerminal"
  by (auto simp: note_terminal_def note_later_turn_def Let_def hget_on_debts hget_hput ends_turn_def
      split: minted.split option.split bool.split)

lemma awaited_minted:
  "list_all (\<lambda>m. \<not> ends_turn u m) ms \<Longrightarrow> debt_of t u c = Some AwaitingTerminal \<Longrightarrow>
     debt_of t u (record_minted now ms c) = Some AwaitingTerminal"
  unfolding record_minted_def by (induction ms arbitrary: c) (simp_all add: awaited_terminal)

lemma debts_note_switch [simp]: "cn_debts (snd (note_switch_candidate frame c)) = cn_debts c"
  by (auto simp: note_switch_candidate_def bind_or_follow_def Let_def split: frame_thread.split option.split)

lemma awaited_observe:
  assumes "list_all (\<lambda>m. \<not> ends_turn u m) ms" "debt_of t u c = Some AwaitingTerminal"
  shows "debt_of t u (observe_notification now frame ms c) = Some AwaitingTerminal"
proof -
  obtain sw d where d: "note_switch_candidate frame c = (sw, d)" by (cases "note_switch_candidate frame c")
  have "cn_debts d = cn_debts c" using debts_note_switch [of frame c] d by simp
  with assms show ?thesis unfolding observe_notification_def d by (simp add: awaited_minted)
qed

lemma awaited_facts:
  "list_all (\<lambda>m. \<not> ends_turn u m) ms \<Longrightarrow> debt_of t u c = Some AwaitingTerminal \<Longrightarrow>
     debt_of t u (behind_facts now frame ms c) = Some AwaitingTerminal"
  by (simp add: behind_facts_def awaited_observe)

lemma debts_apply_held [simp]: "cn_debts (apply_held_candidate now c) = cn_debts c"
  by (rule apply_held_cases [of now c]) simp_all

lemma debts_leaving [simp]: "cn_debts (leaving_recovery now c) = cn_debts c"
  by (simp add: leaving_recovery_def)

lemma debts_after_frame [simp]: "cn_debts (snd (after_frame now c)) = cn_debts c"
  by (simp add: after_frame_eq Let_def)

lemma awaited_recover:
  assumes "recover_from frame t' seed c = (k, c')" "t' \<noteq> t" "debt_of t u c = Some AwaitingTerminal"
  shows "debt_of t u c' = Some AwaitingTerminal"
  using assms
  by (auto simp: recover_from_def Let_def settle_debts_on_def hget_on_debts debts_debt_entry
      split: option.splits if_splits)

lemma awaited_seed:
  assumes "attach_from_seed sd t' c = (k, c')" "sd_unsettled_turn_id sd \<noteq> Some u"
    "debt_of t u c = Some AwaitingTerminal"
  shows "debt_of t u c' = Some AwaitingTerminal"
proof -
  have fold: "hget (cn_debts (fold (\<lambda>turn. debt_entry (t', turn) d) turns c0)) (t, u) = Some AwaitingTerminal"
    if "debt_of t u c0 = Some AwaitingTerminal" for turns d c0
    using that by (induction turns arbitrary: c0) (simp_all add: debts_debt_entry)
  from assms show ?thesis
    by (auto simp: attach_from_seed_def Let_def fold debts_debt_entry hget_hput split: if_splits option.splits)
qed

definition quiet_seed :: "string \<Rightarrow> resume_seed option \<Rightarrow> bool" where
  "quiet_seed u seed = (case seed of None \<Rightarrow> True | Some sd \<Rightarrow> sd_unsettled_turn_id sd \<noteq> Some u)"

lemma awaited_settle:
  assumes "settle_resume now frame t' n fb seed c = (a, c')" "quiet_seed u seed"
    "debt_of t u c = Some AwaitingTerminal"
  shows "debt_of t u c' = Some AwaitingTerminal"
proof -
  have "attach_from_seed sd t' c = (k, d) \<Longrightarrow> seed = Some sd \<Longrightarrow> debt_of t u d = Some AwaitingTerminal" for sd k d
    using awaited_seed assms(2,3) by (simp add: quiet_seed_def)
  with assms(1,3) show ?thesis
    by (auto simp: settle_resume_def Let_def split: if_splits option.splits prod.splits bool.splits)
qed

lemma awaited_answer:
  assumes "answer_awaited now frame seed n t' superseded c = (k, c')" "quiet_seed u seed"
    "debt_of t u c = Some AwaitingTerminal"
  shows "debt_of t u c' = Some AwaitingTerminal"
proof -
  obtain a d where d: "settle_resume now frame t' n (ca_fallback (cn_carried c) \<noteq> None) seed c = (a, d)"
    by (cases "settle_resume now frame t' n (ca_fallback (cn_carried c) \<noteq> None) seed c")
  from awaited_settle [OF d assms(2,3)] d assms(1,3) show ?thesis
    by (auto simp: answer_awaited_def Let_def unsettle_debts_def hget_on_debts split: if_splits option.splits)
qed

lemma awaited_asking:
  assumes "debt_of t u c = Some AwaitingTerminal"
  shows "debt_of t u (ask_again now (hurry_resume now (ask_owed now c))) = Some AwaitingTerminal"
proof -
  define b where "b = hurry_resume now (ask_owed now c)"
  have b: "cn_debts b = cn_debts c"
    using ask_owed_cases [of now c] hurry_resume_cases [of now "ask_owed now c"] by (auto simp: b_def)
  have f: "cn_debts (take_fallback b) = cn_debts b"
    by (simp add: take_fallback_def revert_visit_to_def Let_def split: option.split)
  show ?thesis
    unfolding b_def [symmetric]
  proof (cases rule: ask_again_cases [where now = now and c = b])
    case kept
    with b assms show "debt_of t u (ask_again now b) = Some AwaitingTerminal" by simp
  next
    case (unbound w n)
    with b f assms show "debt_of t u (ask_again now b) = Some AwaitingTerminal" by simp
  next
    case (asks w n d t')
    with b f assms show "debt_of t u (ask_again now b) = Some AwaitingTerminal"
      by (simp add: launch_follow_up_def hget_on_debts)
  qed
qed

lemma debts_expire [simp]: "cn_debts (expire_start_in_flight now c) = cn_debts c"
  by (simp add: expire_start_in_flight_def split: option.split prod.split)

lemma awaited_loop_head:
  assumes "debt_of t u c = Some AwaitingTerminal"
  shows "debt_of t u (snd (loop_head now c)) = Some AwaitingTerminal"
  using awaited_asking [OF assms, of now]
  by (cases rule: loop_head_cases [where now = now and c = c]) auto

text \<open>A step that is silent on a turn of a thread: no end of it is read, and no answer that settles what the
  thread owes: one to a recovery of the thread, or one that says the turn ended and cannot be read.\<close>

definition silent_on :: "string \<Rightarrow> string \<Rightarrow> link_event \<Rightarrow> conn \<Rightarrow> bool" where
  "silent_on t u ev c = (case ev of
     Reads now frame minted seed \<Rightarrow> list_all (\<lambda>m. \<not> ends_turn u m) minted \<and>
       (if is_our_response frame c
        then quiet_seed u seed \<and> (case cn_attach c of AtRecovering i deadline t' \<Rightarrow> t' \<noteq> t | _ \<Rightarrow> True)
        else True)
   | _ \<Rightarrow> True)"

fun silent_run :: "string \<Rightarrow> string \<Rightarrow> link_event list \<Rightarrow> conn \<Rightarrow> bool" where
  "silent_run t u [] c = True"
| "silent_run t u (ev # evs) c =
     (silent_on t u ev c \<and> fst (link_step ev c) \<and> silent_run t u evs (snd (link_step ev c)))"

lemma behind_facts_ours: "is_our_response frame c \<Longrightarrow> behind_facts now frame ms c = follow_binding now c"
  by (simp add: behind_facts_def)

lemma follow_recovering:
  "cn_attach (follow_binding now c) = AtRecovering i w t \<Longrightarrow> cn_attach c = AtRecovering i w t"
  by (auto simp: follow_binding_eq redirect_def due_now_def split: option.splits attach.splits)

lemma awaited_step:
  assumes "silent_on t u ev c" "debt_of t u c = Some AwaitingTerminal"
  shows "debt_of t u (snd (link_step ev c)) = Some AwaitingTerminal"
proof (cases ev)
  case (Reads now frame ms seed)
  have ms: "list_all (\<lambda>m. \<not> ends_turn u m) ms" using assms(1) Reads by (simp add: silent_on_def)
  have "debt_of t u (snd (on_frame now frame ms seed c)) = Some AwaitingTerminal"
  proof (cases rule: on_frame_cases [of now frame ms seed c])
    case expired
    with assms(2) show ?thesis by simp
  next
    case (recovery d i w t' k e)
    then have "cn_attach c = AtRecovering i w t'" using behind_facts_ours follow_recovering by metis
    with assms(1) Reads recovery(2) have "t' \<noteq> t" by (simp add: silent_on_def)
    from awaited_recover [OF recovery(4) this] awaited_facts [OF ms assms(2)] recovery(1,5)
    show ?thesis by simp
  next
    case (answer d i w n t' v k e)
    from assms(1) Reads answer(2) have "quiet_seed u seed" by (simp add: silent_on_def)
    from awaited_answer [OF answer(4) this] awaited_facts [OF ms assms(2)] answer(1,5)
    show ?thesis by simp
  next
    case (other d)
    with awaited_facts [OF ms assms(2)] show ?thesis by simp
  qed
  with Reads show ?thesis by simp
next
  case (PassesTheTop now)
  with awaited_loop_head [OF assms(2)] show ?thesis by simp
qed (use assms(2) in \<open>simp_all add: spend_proof_def give_proof_back_def start_accepted_def\<close>)

lemma link_run_Cons: "fst (link_step ev c) \<Longrightarrow> link_run (ev # evs) c = link_run evs (snd (link_step ev c))"
  by (cases "link_step ev c") simp

lemma awaited_run:
  "silent_run t u evs c \<Longrightarrow> debt_of t u c = Some AwaitingTerminal \<Longrightarrow>
     debt_of t u (link_run evs c) = Some AwaitingTerminal"
proof (induction evs arbitrary: c)
  case (Cons ev evs)
  with awaited_step [of t u ev c] show ?case by (simp add: link_run_Cons del: link_run.simps)
qed simp

section \<open>A fallback waits for the next question\<close>

definition fallback_waits :: "conn \<Rightarrow> bool" where
  "fallback_waits c \<longleftrightarrow> \<not> cn_fallback_due c \<or> (\<exists>u n. cn_attach c = AtBackoff u n)"

lemma waits_not_backoff: "fallback_waits c \<Longrightarrow> (\<And>u n. cn_attach c \<noteq> AtBackoff u n) \<Longrightarrow> \<not> cn_fallback_due c"
  by (auto simp: fallback_waits_def)

lemma waits_no_fallback: "\<not> cn_fallback_due c \<Longrightarrow> fallback_waits c"
  by (simp add: fallback_waits_def)

lemma waits_due_now [simp]: "fallback_waits (c\<lparr>cn_attach := due_now now\<rparr>)"
  by (simp add: fallback_waits_def due_now_def)

lemma waits_apply_held: "fallback_waits c \<Longrightarrow> fallback_waits (apply_held_candidate now c)"
  by (rule apply_held_cases [of now c]) (simp_all add: fallback_waits_def)

lemma waits_after_frame: "fallback_waits c \<Longrightarrow> fallback_waits (snd (after_frame now c))"
  using waits_apply_held [of c now] by (simp add: after_frame_eq Let_def)

lemma waits_leaving: "\<not> cn_fallback_due c \<Longrightarrow> fallback_waits (leaving_recovery now c)"
  unfolding leaving_recovery_def by (rule waits_apply_held) (simp add: fallback_waits_def)

lemma waits_facts:
  assumes "fallback_waits c"
  shows "fallback_waits (behind_facts now frame ms c)"
proof -
  define d where "d = (if \<not> is_our_response frame c \<and> frame_kind_of frame = NotificationFrame
     then observe_notification now frame ms c else c)"
  have "same_dues c d" "keeps c d" by (simp_all add: d_def same_dues_observe keeps_observe)
  then have "cn_fallback_due d = cn_fallback_due c" "cn_attach d = cn_attach c"
    by (simp_all add: same_dues_def keeps_def)
  with assms show ?thesis
    by (auto simp: behind_facts_def d_def [symmetric] fallback_waits_def follow_binding_eq redirect_def split: option.split)
qed

lemma waits_answer:
  assumes "answer_awaited now frame seed n t v c = (k, c')" "cn_attach c = AtAwaiting i w n t v" "fallback_waits c"
  shows "fallback_waits c'"
proof -
  have no: "\<not> cn_fallback_due c" using waits_not_backoff [OF assms(3)] assms(2) by simp
  obtain a d where d: "settle_resume now frame t n (ca_fallback (cn_carried c) \<noteq> None) seed c = (a, d)"
    by (cases "settle_resume now frame t n (ca_fallback (cn_carried c) \<noteq> None) seed c")
  have "\<not> cn_fallback_due d \<or> (\<exists>u n. a = Some (AtBackoff u n))"
  proof -
    have "attach_from_seed sd t c = (k, e) \<Longrightarrow> \<not> cn_fallback_due e" for sd k e
      using no by (auto simp: attach_from_seed_def Let_def split: if_splits option.splits)
    with d no show ?thesis
      by (auto simp: settle_resume_def Let_def split: if_splits option.splits prod.splits bool.splits)
  qed
  with assms(1) d no show ?thesis
    by (auto simp: answer_awaited_def Let_def fallback_waits_def split: if_splits option.splits)
qed

lemma waits_step:
  assumes "fallback_waits c"
  shows "fallback_waits (snd (link_step ev c))"
proof (cases ev)
  case (Reads now frame ms seed)
  have "fallback_waits (snd (on_frame now frame ms seed c))"
  proof (cases rule: on_frame_cases [of now frame ms seed c])
    case expired
    with assms show ?thesis by simp
  next
    case (recovery d i w t' k e)
    from waits_facts [OF assms, of now frame ms, folded recovery(1)] recovery(3)
    have "\<not> cn_fallback_due d" by (intro waits_not_backoff) simp_all
    with recovery(5) rest_of_fields(5) [OF recover_from_rest(1) [OF recovery(4)]] show ?thesis
      by (simp add: waits_leaving)
  next
    case (answer d i w n t' v k e)
    from waits_answer [OF answer(4,3)] waits_facts [OF assms, of now frame ms, folded answer(1)] answer(5)
    show ?thesis by (simp add: waits_after_frame)
  next
    case (other d)
    with waits_facts [OF assms, of now frame ms] show ?thesis by (simp add: waits_after_frame)
  qed
  with Reads show ?thesis by simp
next
  case (PassesTheTop now)
  define b where "b = hurry_resume now (ask_owed now c)"
  have b: "fallback_waits b"
    using assms ask_owed_cases [of now c] hurry_resume_cases [of now "ask_owed now c"]
    by (auto simp: b_def fallback_waits_def due_now_def)
  have g: "fallback_waits (ask_again now b)"
  proof (cases rule: ask_again_cases [where now = now and c = b])
    case kept
    with b show ?thesis by simp
  next
    case (unbound w n)
    then show ?thesis
      by (auto simp: fallback_waits_def take_fallback_def revert_visit_to_def move_visit_to_def Let_def split: option.split)
  next
    case (asks w n d t')
    then show ?thesis
      by (auto simp: fallback_waits_def take_fallback_def revert_visit_to_def move_visit_to_def Let_def split: option.split)
  qed
  show ?thesis
  proof (cases rule: loop_head_cases [where now = now and c = c])
    case (plain d)
    with g PassesTheTop show ?thesis by (auto simp: b_def [symmetric] fallback_waits_def)
  next
    case (gives_up i w t' d)
    with g have "\<not> cn_fallback_due d" by (intro waits_not_backoff) (simp_all add: b_def)
    then have "fallback_waits (leaving_recovery now (on_carried (discharge_recovery t') d))" by (simp add: waits_leaving)
    with gives_up(4) PassesTheTop show ?thesis by (simp add: fallback_waits_def)
  qed
qed (use assms in \<open>simp_all add: spend_proof_def give_proof_back_def start_accepted_def fallback_waits_def\<close>)

lemma waits_run: "fallback_waits c \<Longrightarrow> fallback_waits (link_run evs c)"
proof (induction evs arbitrary: c)
  case (Cons ev evs)
  with waits_step [OF Cons.prems, of ev] show ?case
    by (cases "link_step ev c"; cases "fst (link_step ev c)") simp_all
qed simp

lemma waits_connection: "fallback_waits (connection generation epoch k script)"
proof -
  have "\<not> cn_fallback_due (handshaken now frames (new_conn generation epoch k))" for now frames
  proof -
    have "same_dues d (fold (\<lambda>(at, frame, minted) c. if frame_kind_of frame = NotificationFrame
        then observe_notification at frame minted c else c) frames d)" for d
      by (rule same_dues_handshake)
    from this [of "(new_conn generation epoch k)\<lparr>cn_next_id := cn_next_id (new_conn generation epoch k) + 1\<rparr>"]
    show ?thesis
      by (simp add: handshaken_def Let_def same_dues_def new_conn_def split: option.split)
  qed
  then show ?thesis
    unfolding connection_def by (cases script) (simp add: waits_run [OF waits_no_fallback])
qed

section \<open>The answer that attaches\<close>

lemma attached_owes:
  assumes "plan_resume_seed result t a = Some s" "u \<in> set (se_running_turns s)"
    "attach_from_seed (resume_seed_of s True True tf) t c0 = (k, c)"
    "hget (cn_debts c0) (t, u) \<in> {None, Some AwaitingTerminal}"
  shows "k" "debt_of t u c = Some AwaitingTerminal"
proof -
  have uns: "se_unsettled_turn s \<noteq> Some u" by (rule seed_unsettled [OF assms(1,2)])
  show "k" "debt_of t u c = Some AwaitingTerminal"
    using assms(3) uns assms(2,4)
    by (auto simp: attach_from_seed_def resume_seed_of_def Let_def debts_fold_entry debts_debt_entry hget_hput
        split: option.splits if_splits)
qed

lemma joined_turn_is_awaited:
  assumes "cn_attach c0 = AtAwaiting i w n t False" "attach_inv c0"
    "is_our_response frame c0" "jget ''error'' frame = None" "jget ''result'' frame = Some result"
    "plan_resume_seed result t a = Some s" "u \<in> set (se_running_turns s)"
    "debt_of t u c0 \<in> {None, Some AwaitingTerminal}"
    "on_frame now frame ms (Some (resume_seed_of s True True tf)) c0 = (True, c)"
  shows "debt_of t u c = Some AwaitingTerminal"
proof -
  let ?sd = "resume_seed_of s True True tf" and ?d = "follow_binding now c0"
  have nr: "\<not> is_measured_not_ready frame t" "\<not> is_broker_policy_refusal frame"
    using assms(5) by (simp_all add: is_measured_not_ready_def is_broker_policy_refusal_def)
  have target: "conn_bound c0 = None \<or> conn_bound c0 = Some t"
    using assms(1,2) by (auto simp: attach_inv_def)
  then have at: "cn_attach ?d = AtAwaiting i w n t False"
    using assms(1) by (auto simp: follow_binding_eq redirect_def)
  obtain k e where e: "attach_from_seed ?sd t ?d = (k, e)" by fastforce
  note owes = attached_owes [OF assms(6,7) e]
  have st: "settle_resume now frame t n fb (Some ?sd) ?d = (Some AtAttached, e)" for fb
    using nr assms(4,5) e owes assms(8) by (simp add: settle_resume_def Let_def)
  define g where "g = (if cn_adopted_thread e = Some t
     then e\<lparr>cn_attach := AtAttached, cn_owed_recovery := ca_owed_recovery (cn_carried e)\<rparr> else e\<lparr>cn_attach := AtAttached\<rparr>)"
  have g: "answer_awaited now frame (Some ?sd) n t False ?d = (True, g)" "cn_debts g = cn_debts e"
    by (simp_all add: answer_awaited_def st Let_def g_def)
  have "on_frame now frame ms (Some ?sd) c0 = (if w \<le> now then (False, c0) else after_frame now g)"
    using assms(1,3) at g(1) by (simp add: on_frame_def)
  with assms(9) have "c = snd (after_frame now g)" by (simp split: if_splits)
  with g(2) owes(2) assms(8) show ?thesis by simp
qed

lemma due_resume_is_sent:
  assumes "cn_attach c = due_now now" "cn_fallback_due c = False" "cn_resume_target c = Some t"
  shows "cn_resumes (snd (loop_head now c)) = cn_resumes c @ [(cn_next_id c, t)]"
proof -
  have owed: "ask_owed now c = c"
    using ask_owed_cases [of now c] assms(1) by (auto simp: due_now_def)
  define b where "b = hurry_resume now c"
  have b: "cn_attach b = due_now now" "cn_fallback_due b = False" "cn_resume_target b = Some t" "cn_resumes b = cn_resumes c"
      "cn_next_id b = cn_next_id c"
    using hurry_resume_cases [of now c] assms by (auto simp: b_def)
  have "take_fallback b = b" using b(2) by (simp add: take_fallback_def)
  then have again: "ask_again now b = (launch_follow_up t (b\<lparr>cn_next_id := cn_next_id b + 1, cn_resumes := cn_resumes b @ [(cn_next_id b, t)]\<rparr>))
      \<lparr>cn_attach := AtAwaiting (cn_next_id b) (now + RESUME_BUDGET) ATTACH_BACKOFF_MIN t False\<rparr>"
    using b(1,3) by (simp add: ask_again_def due_now_def Let_def send_resume_def)
  have "\<not> now + RESUME_BUDGET \<le> now" by (simp add: RESUME_BUDGET_def)
  then show ?thesis
    by (simp add: loop_head_eq owed b_def [symmetric] again b Let_def)
qed

text \<open>C27. A turn that was joined while it ran is asked about again. An answer to a resume of \<open>t\<close> reports
  turn \<open>u\<close> running, and a connection of any life so far attaches by it. Then whatever the link does and
  reads, for however long, as long as it goes on, no end of \<open>u\<close> is read, no recovery of \<open>t\<close> is
  answered and no answer says that \<open>u\<close> ended unreadably: when at last, with the connection on \<open>t\<close>, the
  completed end of \<open>u\<close> is read live, the thread owes a resume for it; and if the link was attached then with
  no switch held, the next pass of the loop sends that resume, so what the turn did before the link came is
  recovered.\<close>
theorem joined_turn_is_asked_about_again:
  assumes "c0 = connection generation epoch k script" "cn_attach c0 = AtAwaiting i w n t False"
    "is_our_response frame c0" "jget ''error'' frame = None" "jget ''result'' frame = Some result"
    "plan_resume_seed result t a = Some s" "u \<in> set (se_running_turns s)"
    "debt_of t u c0 \<in> {None, Some AwaitingTerminal}"
    "link_step (Reads now frame ms (Some (resume_seed_of s True True tf))) c0 = (True, c)"
    "silent_run t u evs c" "c1 = link_run evs c" "conn_bound c1 = Some t"
    "require_str turn ''id'' = Some u" "require_str turn ''status'' = Some ''completed''"
    "on_frame now1 (turn_frame t turn) (map (\<lambda>e. minted_of (filed e) e) (fst (ingest (turn_frame t turn) a1))) None c1
       = (True, d)"
  shows "debt_of t u d = Some Owed \<and>
     (cn_attach c1 = AtAttached \<and> cn_switch_candidate c1 = None \<longrightarrow>
        cn_resumes (snd (loop_head now1 d)) = cn_resumes c1 @ [(cn_next_id c1, t)])"
proof -
  let ?ms = "map (\<lambda>e. minted_of (filed e) e) (fst (ingest (turn_frame t turn) a1))"
  have inv0: "attach_inv c0" "fallback_waits c0" unfolding assms(1) by (rule connection_inv, rule waits_connection)
  have step: "c = snd (link_step (Reads now frame ms (Some (resume_seed_of s True True tf))) c0)"
    using assms(9) by simp
  have "attach_inv c" "fallback_waits c"
    unfolding step by (rule link_step_ok(1) [OF inv0(1) refl], rule waits_step [OF inv0(2)])
  then have inv1: "attach_inv c1" "fallback_waits c1"
    by (simp_all add: assms(11) link_run_inv waits_run)
  have t: "t \<noteq> []"
    by (rule plan_resume_seed_iff [OF assms(6)]) (auto dest: require_str_nonempty)
  have "debt_of t u c = Some AwaitingTerminal"
    using joined_turn_is_awaited [OF assms(2) inv0(1) assms(3-8)] assms(9) by simp
  then have awaited: "debt_of t u c1 = Some AwaitingTerminal" unfolding assms(11) by (rule awaited_run [OF assms(10)])
  note owed = completed_turn_is_owed [OF assms(12) awaited t assms(13,14), where filed = filed and a = a1 and now = now1]
  have not_ours: "is_our_response (turn_frame t turn) c1 = False" by (simp add: is_our_response_def)
  have "debt_of t u d = Some Owed"
  proof (cases rule: on_frame_cases [of now1 "turn_frame t turn" ?ms None c1])
    case expired
    with assms(15) show ?thesis by simp
  next
    case (other e)
    then have "d = snd (after_frame now1 e)" by (metis assms(15) snd_conv)
    with other(1) owed not_ours show ?thesis by (simp add: behind_facts_def)
  qed (use not_ours in simp_all)
  moreover have "cn_resumes (snd (loop_head now1 d)) = cn_resumes c1 @ [(cn_next_id c1, t)]"
    if at: "cn_attach c1 = AtAttached" "cn_switch_candidate c1 = None"
  proof -
    have target: "cn_resume_target c1 = Some t" using inv1(1) assms(12) by (auto simp: attach_inv_def)
    from follow_up_is_due [OF at(1) assms(12) awaited t at(2) target assms(13,14), where filed = filed and a = a1 and now = now1]
    obtain e where e: "d = e\<lparr>cn_attach := due_now now1\<rparr>" "rest_of e = rest_of c1" using assms(15) by auto
    note same = rest_of_fields [OF e(2)]
    have "\<not> cn_fallback_due c1" using waits_not_backoff [OF inv1(2)] at(1) by simp
    with same target show ?thesis
      using due_resume_is_sent [of d now1 t] by (simp add: e(1))
  qed
  ultimately show ?thesis by blast
qed

definition sample_answer :: json where
  "sample_answer = JObj [(''thread'', JObj [(''id'', JStr ''t''), (''cwd'', JStr ''/w''), (''path'', JStr ''/r''), (''cliVersion'', JStr ''1''),
     (''turns'', JArr [JObj [(''id'', JStr ''u''), (''status'', JStr ''inProgress''), (''itemsView'', JStr ''full''), (''startedAt'', JInt 1),
       (''items'', JArr [])]])])]"

definition sample_seed :: seed where
  "sample_seed = the (plan_resume_seed sample_answer ''t'' (adapter_new \<lparr>sk_uid = ''s'', sk_name = ''n''\<rparr>))"

definition sample_frame :: json where
  "sample_frame = JObj [(''id'', JInt 2), (''result'', sample_answer)]"

definition sample_script :: script where
  "sample_script = (0, [], [PassesTheTop 0])"

text \<open>The connection asks, attaches by the answer, and is busy with other things before the turn's end is read.\<close>

definition sample_asked :: conn where
  "sample_asked = connection 1 1 (first_carried (Some ''t'')) sample_script"

definition sample_between :: "link_event list" where
  "sample_between = [PassesTheTop 5, Requests, Reads 6 (JObj [(''method'', JStr ''thread/tokenUsage/updated''),
     (''params'', JObj [(''threadId'', JStr ''t'')])]) [MintedOther] None]"

lemma sample_seed_is:
  "plan_resume_seed sample_answer ''t'' (adapter_new \<lparr>sk_uid = ''s'', sk_name = ''n''\<rparr>) = Some sample_seed"
  "se_running_turns sample_seed = [''u'']" "se_unsettled_turn sample_seed = None"
  by (simp_all add: sample_seed_def sample_answer_def plan_resume_seed_def jget_def require_str_def nonempty_str_def
      absent_or_equal_def as_array_def is_none_or_def absent_or_nonempty_str_def thread_identity_event_def plan_turn_def
      as_i64_def RESUME_ITEMS_VIEW_FULL_def RESUME_TURN_IN_PROGRESS_def)

lemma sample_asked_is:
  "sample_asked = (new_conn 1 1 (first_carried (Some ''t'')))\<lparr>cn_next_id := 3, cn_resumes := [(2, ''t'')],
     cn_attach := AtAwaiting 2 60000 500 ''t'' False\<rparr>"
  by (simp add: sample_asked_def sample_script_def connection_def handshaken_def new_conn_def first_carried_def first_target_def
      conn_bound_def loop_head_def ask_owed_def hurry_resume_def ask_again_def take_fallback_def send_resume_def
      launch_follow_up_def on_debts_def expire_start_in_flight_def due_now_def RESUME_BUDGET_def ATTACH_BACKOFF_MIN_def
      or_else_def Let_def)

definition sample_attached :: conn where
  "sample_attached = snd (link_step (Reads 4 sample_frame [] (Some (resume_seed_of sample_seed True True (\<lambda>_. None)))) sample_asked)"

lemma sample_attached_is:
  "link_step (Reads 4 sample_frame [] (Some (resume_seed_of sample_seed True True (\<lambda>_. None)))) sample_asked = (True, sample_attached)"
  "sample_attached = sample_asked\<lparr>cn_visit := \<lparr>vi_generation = 1, vi_upstream_epoch = 1, vi_thread_id = Some ''t''\<rparr>,
     cn_adopted_thread := Some ''t'', cn_debts := [((''t'', ''u''), AwaitingTerminal)], cn_attach := AtAttached,
     cn_carried := (first_carried (Some ''t''))\<lparr>ca_adopted := Some ''t''\<rparr>\<rparr>"
proof -
  have "fst (link_step (Reads 4 sample_frame [] (Some (resume_seed_of sample_seed True True (\<lambda>_. None)))) sample_asked)"
    "sample_attached = sample_asked\<lparr>cn_visit := \<lparr>vi_generation = 1, vi_upstream_epoch = 1, vi_thread_id = Some ''t''\<rparr>,
     cn_adopted_thread := Some ''t'', cn_debts := [((''t'', ''u''), AwaitingTerminal)], cn_attach := AtAttached,
     cn_carried := (first_carried (Some ''t''))\<lparr>ca_adopted := Some ''t''\<rparr>\<rparr>"
    unfolding sample_attached_def
    by (simp_all add: sample_asked_is sample_frame_def new_conn_def first_carried_def first_target_def on_frame_def
        is_our_response_def frame_kind_of_def jget_def as_i64_def follow_binding_def conn_bound_def or_else_def
        answer_awaited_def settle_resume_def is_measured_not_ready_def is_broker_policy_refusal_def attach_from_seed_def
        resume_seed_of_def sample_seed_is debt_entry_def on_carried_def seed_running_turn_def after_frame_def
        apply_held_candidate_def follow_up_owed_def Let_def)
  then show "link_step (Reads 4 sample_frame [] (Some (resume_seed_of sample_seed True True (\<lambda>_. None)))) sample_asked = (True, sample_attached)"
    "sample_attached = sample_asked\<lparr>cn_visit := \<lparr>vi_generation = 1, vi_upstream_epoch = 1, vi_thread_id = Some ''t''\<rparr>,
     cn_adopted_thread := Some ''t'', cn_debts := [((''t'', ''u''), AwaitingTerminal)], cn_attach := AtAttached,
     cn_carried := (first_carried (Some ''t''))\<lparr>ca_adopted := Some ''t''\<rparr>\<rparr>"
    by (simp_all add: sample_attached_def prod_eq_iff)
qed

lemma sample_silent:
  "silent_run ''t'' ''u'' sample_between sample_attached"
  "link_run sample_between sample_attached = sample_attached\<lparr>cn_next_id := 4\<rparr>"
  by (simp_all add: sample_between_def sample_attached_is(2) sample_asked_is new_conn_def first_carried_def first_target_def
      silent_on_def ends_turn_def is_our_response_def frame_kind_of_def loop_head_def ask_owed_def hurry_resume_def ask_again_def
      expire_start_in_flight_def on_frame_def observe_notification_def note_switch_candidate_def announces_a_session_thread_def
      HEAD_NOTICE_def jget_def admits_def frame_thread_id_def nonempty_str_def str_at_def observe_approval_def note_turn_start_def
      record_minted_def note_terminal_def note_later_turn_def follow_binding_def after_frame_def apply_held_candidate_def
      follow_up_owed_def conn_bound_def or_else_def Let_def)

abbreviation "sample_end \<equiv> JObj [(''id'', JStr ''u''), (''status'', JStr ''completed'')]"

lemma joined_turn_witness:
  "\<exists>d. on_frame 9 (turn_frame ''t'' sample_end) (map (\<lambda>e. minted_of True e) (fst (ingest (turn_frame ''t'' sample_end)
        (adapter_new \<lparr>sk_uid = ''s'', sk_name = ''n''\<rparr>)))) None (link_run sample_between sample_attached) = (True, d)
     \<and> debt_of ''t'' ''u'' d = Some Owed \<and> cn_resumes (snd (loop_head 9 d)) = [(2, ''t''), (4, ''t'')]"
proof -
  let ?a = "adapter_new \<lparr>sk_uid = ''s'', sk_name = ''n''\<rparr>" and ?c1 = "link_run sample_between sample_attached"
  let ?ms = "map (\<lambda>e. minted_of True e) (fst (ingest (turn_frame ''t'' sample_end) ?a))"
  have c1: "cn_attach ?c1 = AtAttached" "conn_bound ?c1 = Some ''t''" "debt_of ''t'' ''u'' ?c1 = Some AwaitingTerminal"
    "cn_switch_candidate ?c1 = None" "cn_resume_target ?c1 = Some ''t''" "cn_resumes ?c1 = [(2, ''t'')]" "cn_next_id ?c1 = 4"
    by (simp_all only: sample_silent(2))
      (simp_all add: sample_attached_is(2) sample_asked_is new_conn_def first_carried_def first_target_def
        conn_bound_def or_else_def)
  have turn: "require_str sample_end ''id'' = Some ''u''" "require_str sample_end ''status'' = Some ''completed''"
    by (simp_all add: require_str_def nonempty_str_def jget_def)
  from follow_up_is_due [OF c1(1,2,3) _ c1(4,5) turn, of 9 "\<lambda>e. True" ?a]
  obtain e where e: "on_frame 9 (turn_frame ''t'' sample_end) ?ms None ?c1 = (True, e\<lparr>cn_attach := due_now 9\<rparr>)" by auto
  have asked: "cn_attach sample_asked = AtAwaiting 2 60000 500 ''t'' False" "is_our_response sample_frame sample_asked"
    "jget ''error'' sample_frame = None" "jget ''result'' sample_frame = Some sample_answer"
    "debt_of ''t'' ''u'' sample_asked \<in> {None, Some AwaitingTerminal}"
    by (simp_all add: sample_asked_is sample_frame_def is_our_response_def frame_kind_of_def jget_def as_i64_def new_conn_def)
  have "''u'' \<in> set (se_running_turns sample_seed)" by (simp add: sample_seed_is)
  from joined_turn_is_asked_about_again [OF sample_asked_def asked(1-4) sample_seed_is(1) this asked(5) sample_attached_is(1)
      sample_silent(1) refl c1(2) turn e] c1 e
  show ?thesis by simp
qed

end
