(* ===== verification/Ccd_Store.thy ===== *)
theory Ccd_Store
  imports Ccd_Ledger Ccd_Link Protocol_Uid Protocol_Event
begin

text \<open>
  The runs and the event log of the daemon (\<open>ccd/src/store.rs\<close>): the two tables of runs behind the view
  \<open>all_sessions\<close>, the numbered facts of each run, the tail cursors, and what a deletion takes with it.

  As in \<open>Ccd_Ledger\<close>, a table is the list of its rows and a call is one step: it holds the writer, or one immediate
  transaction, throughout. A call SQLite refuses (a key, the shadow trigger) answers \<open>Inl\<close> and leaves the store as it
  was, as does one whose transaction is rolled back.

  The columns of an event are what is stored: the spelling of its kind and source and the text of its payload. The
  times of deletion and of cursor writes, and the content of the tables that only a deletion reaches here, are left
  out; of such a row \<open>st_other_scoped\<close> holds the table and the run.
\<close>

section \<open>Rows\<close>

record session_row =
  sr_session_uid :: string
  sr_session_id :: string
  sr_tmux_session :: string
  sr_tmux_socket :: string
  sr_cwd :: string
  sr_claude_session_id :: "string option"
  sr_transcript_path :: "string option"
  sr_lifecycle :: lifecycle
  sr_created_at :: string
  sr_updated_at :: string
  sr_agent :: agent_kind
  sr_codex_thread_id :: "string option"
  sr_codex_socket :: "string option"

record filed_session = session_row +
  sr_codex_generation :: "int option"

record event_row =
  er_session_uid :: string
  er_session_id :: string
  er_seq :: nat
  er_kind :: string
  er_payload :: string
  er_source :: string
  er_source_event_id :: "string option"
  er_turn_id :: "string option"
  er_item_id :: "string option"

record tail_cursor =
  tc_path :: string
  tc_dev :: int
  tc_ino :: int
  tc_offset :: nat
  tc_last_line_start :: nat
  tc_last_line_sha :: string

record store =
  st_sessions :: "filed_session list"
  st_codex_sessions :: "filed_session list"
  st_deleted_sessions :: "string list"
  st_deleted_names :: "string list"
  st_events :: "event_row list"
  st_tail_cursors :: "(string, tail_cursor) hash"
  st_mutation_ledger :: "ledger_row list"
  st_text_mutations :: "text_row list"
  st_projects :: "(string, string \<times> agent_kind) hash"
  st_other_scoped :: "(string \<times> string) list"

definition all_sessions :: "store \<Rightarrow> filed_session list" where
  "all_sessions st = st_sessions st @ st_codex_sessions st"

definition names_run :: "string \<Rightarrow> filed_session \<Rightarrow> bool" where
  "names_run uid r \<longleftrightarrow> sr_session_uid r = uid"

definition run_exists :: "string \<Rightarrow> store \<Rightarrow> bool" where
  "run_exists uid st \<longleftrightarrow> list_ex (names_run uid) (all_sessions st)"

definition run_events :: "string \<Rightarrow> store \<Rightarrow> event_row list" where
  "run_events uid st = filter (\<lambda>r. er_session_uid r = uid) (st_events st)"

datatype store_error = NoSessionUid | SeqTooLarge | SqlConstraint | ShadowRefused | GenerationTooLarge | PruneMatched nat

section \<open>The log\<close>

definition max_seq :: "string \<Rightarrow> store \<Rightarrow> nat" where
  "max_seq uid st = fold max (map er_seq (run_events uid st)) 0"

definition count_events :: "string \<Rightarrow> store \<Rightarrow> nat" where
  "count_events uid st = length (run_events uid st)"

definition has_key :: "string \<Rightarrow> string \<Rightarrow> string \<Rightarrow> event_row \<Rightarrow> bool" where
  "has_key uid source i r \<longleftrightarrow> er_session_uid r = uid \<and> er_source r = source \<and> er_source_event_id r = Some i"

text \<open>The next number is read back as an \<open>i64\<close>.\<close>

definition append_in_tx :: "ext \<Rightarrow> pending_event \<Rightarrow> store \<Rightarrow> store_error + event option \<times> store" where
  "append_in_tx E p st =
     (if pe_session_uid p = [] then Inl NoSessionUid
      else if \<not> run_exists (pe_session_uid p) st then Inr (None, st)
      else if (case pe_source_event_id p of None \<Rightarrow> False
           | Some i \<Rightarrow> list_ex (has_key (pe_session_uid p) (source_str (pe_source p)) i) (st_events st))
      then Inr (None, st)
      else
        let nxt = max_seq (pe_session_uid p) st + 1 in
        if nxt \<ge> 2 ^ 63 then Inl SeqTooLarge
        else Inr (Some \<lparr>ev_seq = nxt, ev_session_uid = pe_session_uid p, ev_session_id = pe_session_id p, ev_kind = pe_kind p,
               ev_payload = pe_payload p, ev_source = pe_source p, ev_source_event_id = pe_source_event_id p,
               ev_turn_id = pe_turn_id p, ev_item_id = pe_item_id p\<rparr>,
          st\<lparr>st_events := st_events st @ [\<lparr>er_session_uid = pe_session_uid p, er_session_id = pe_session_id p,
               er_seq = nxt, er_kind = kind_str (pe_kind p), er_payload = json_write E (pe_payload p),
               er_source = source_str (pe_source p), er_source_event_id = pe_source_event_id p,
               er_turn_id = pe_turn_id p, er_item_id = pe_item_id p\<rparr>]\<rparr>))"

definition append_event :: "ext \<Rightarrow> pending_event \<Rightarrow> store \<Rightarrow> (store_error + event option) \<times> store" where
  "append_event E p st = (case append_in_tx E p st of Inl e \<Rightarrow> (Inl e, st) | Inr (ev, st') \<Rightarrow> (Inr ev, st'))"

text \<open>The loop over a batch; the first error ends it.\<close>

fun append_all :: "ext \<Rightarrow> pending_event list \<Rightarrow> store \<Rightarrow> store_error + event list \<times> store" where
  "append_all E [] st = Inr ([], st)"
| "append_all E (p # ps) st = (case append_in_tx E p st of
     Inl e \<Rightarrow> Inl e
   | Inr (ev, st') \<Rightarrow> (case append_all E ps st' of
       Inl e \<Rightarrow> Inl e
     | Inr (out, st'') \<Rightarrow> Inr ((case ev of None \<Rightarrow> [] | Some e \<Rightarrow> [e]) @ out, st'')))"

definition append_batch :: "ext \<Rightarrow> pending_event list \<Rightarrow> store \<Rightarrow> (store_error + event list) \<times> store" where
  "append_batch E ps st = (if ps = [] then (Inr [], st) else
     (case append_all E ps st of Inl e \<Rightarrow> (Inl e, st) | Inr (out, st') \<Rightarrow> (Inr out, st')))"

definition save_cursor_in_tx :: "string \<Rightarrow> tail_cursor \<Rightarrow> store \<Rightarrow> store" where
  "save_cursor_in_tx uid c st = st\<lparr>st_tail_cursors := hput uid c (st_tail_cursors st)\<rparr>"

definition append_batch_with_cursor ::
  "ext \<Rightarrow> string \<Rightarrow> pending_event list \<Rightarrow> tail_cursor \<Rightarrow> store \<Rightarrow> (store_error + event list) \<times> store" where
  "append_batch_with_cursor E uid ps c st =
     (if \<not> run_exists uid st then (Inr [], st)
      else (case append_all E ps st of
          Inl e \<Rightarrow> (Inl e, st)
        | Inr (out, st') \<Rightarrow> (Inr out, save_cursor_in_tx uid c st')))"

definition load_cursor :: "string \<Rightarrow> store \<Rightarrow> tail_cursor option" where
  "load_cursor uid st = hget (st_tail_cursors st) uid"

text \<open>A \<open>u64\<close> bound as an \<open>i64\<close>.\<close>

definition as_i64_of :: "nat \<Rightarrow> int" where
  "as_i64_of n = (if n < 2 ^ 63 then int n else int n - 2 ^ 64)"

definition parse_source :: "string \<Rightarrow> event_source" where
  "parse_source s = (if s = ''hook'' then HookSource else if s = ''transcript'' then TranscriptSource
     else if s = ''daemon'' then DaemonSource else if s = ''codex'' then CodexSource else if s = ''pty'' then PtySource
     else UnknownSource)"

definition event_from_row :: "ext \<Rightarrow> string \<Rightarrow> event_row \<Rightarrow> event" where
  "event_from_row E uid r =
     \<lparr>ev_seq = er_seq r, ev_session_uid = uid, ev_session_id = er_session_id r, ev_kind = kind_of_str (er_kind r),
      ev_payload = (case from_str E (er_payload r) of None \<Rightarrow> JNull | Some v \<Rightarrow> v), ev_source = parse_source (er_source r),
      ev_source_event_id = er_source_event_id r, ev_turn_id = er_turn_id r, ev_item_id = er_item_id r\<rparr>"

definition events_after :: "ext \<Rightarrow> string \<Rightarrow> nat \<Rightarrow> nat \<Rightarrow> store \<Rightarrow> event list" where
  "events_after E uid after_seq limit st =
     map (event_from_row E uid)
       (take limit (sort_key er_seq (filter (\<lambda>r. as_i64_of after_seq < int (er_seq r)) (run_events uid st))))"

definition events_before :: "ext \<Rightarrow> string \<Rightarrow> nat \<Rightarrow> nat \<Rightarrow> store \<Rightarrow> event list" where
  "events_before E uid before_seq limit st =
     (let before = (if before_seq < 2 ^ 63 then before_seq else 2 ^ 63 - 1) in
      rev (map (event_from_row E uid)
        (take limit (rev (sort_key er_seq (filter (\<lambda>r. er_seq r < before) (run_events uid st)))))))"

definition turn_terminal_filed :: "string \<Rightarrow> string \<Rightarrow> store \<Rightarrow> bool" where
  "turn_terminal_filed uid i st \<longleftrightarrow>
     list_ex (\<lambda>r. has_key uid (source_str CodexSource) i r \<and> er_kind r = kind_str TurnComplete) (st_events st)"

definition codex_source_event_ids :: "string \<Rightarrow> store \<Rightarrow> string list" where
  "codex_source_event_ids uid st =
     List.map_filter er_source_event_id (filter (\<lambda>r. er_source r = source_str CodexSource) (run_events uid st))"

definition filed_event :: "string \<Rightarrow> event_source \<Rightarrow> string \<Rightarrow> store \<Rightarrow> (nat \<times> string option) option" where
  "filed_event uid source i st =
     map_option (\<lambda>r. (er_seq r, er_turn_id r)) (find (has_key uid (source_str source) i) (st_events st))"

section \<open>Runs\<close>

datatype session_table = SessionsTable | CodexSessionsTable

definition session_tables_for :: "agent_kind \<Rightarrow> session_table \<times> session_table" where
  "session_tables_for agent =
     (if agent = Claude then (SessionsTable, CodexSessionsTable) else (CodexSessionsTable, SessionsTable))"

definition rows_in :: "session_table \<Rightarrow> store \<Rightarrow> filed_session list" where
  "rows_in t st = (case t of SessionsTable \<Rightarrow> st_sessions st | CodexSessionsTable \<Rightarrow> st_codex_sessions st)"

definition put_rows :: "session_table \<Rightarrow> filed_session list \<Rightarrow> store \<Rightarrow> store" where
  "put_rows t rs st = (case t of SessionsTable \<Rightarrow> st\<lparr>st_sessions := rs\<rparr> | CodexSessionsTable \<Rightarrow> st\<lparr>st_codex_sessions := rs\<rparr>)"

text \<open>The trigger \<open>sessions_refuse_codex_shadow\<close>.\<close>

definition shadow_refused :: "session_table \<Rightarrow> string \<Rightarrow> agent_kind \<Rightarrow> store \<Rightarrow> bool" where
  "shadow_refused t uid agent st \<longleftrightarrow>
     t = SessionsTable \<and> agent = Claude \<and> list_ex (names_run uid) (st_codex_sessions st)"

definition carry_row :: "session_table \<Rightarrow> session_table \<Rightarrow> string \<Rightarrow> store \<Rightarrow> store_error + store" where
  "carry_row table other uid st =
     (if uid \<in> set (st_deleted_sessions st) then Inr st
      else (case filter (names_run uid) (rows_in other st) of
          [] \<Rightarrow> Inr st
        | r # more_rows \<Rightarrow>
            if more_rows \<noteq> [] \<or> list_ex (names_run uid) (rows_in table st) then Inl SqlConstraint
            else if shadow_refused table uid (sr_agent r) st then Inl ShadowRefused
            else Inr (put_rows other (filter (\<lambda>q. \<not> names_run uid q) (rows_in other st))
                       (put_rows table (rows_in table st @ [r]) st))))"

definition coalesce :: "'a option \<Rightarrow> 'a option \<Rightarrow> 'a option" where
  "coalesce new old = (case new of Some v \<Rightarrow> Some v | None \<Rightarrow> old)"

definition updated_row :: "session_row \<Rightarrow> int option \<Rightarrow> filed_session \<Rightarrow> filed_session" where
  "updated_row row generation old = old\<lparr>
     sr_session_id := sr_session_id row, sr_tmux_session := sr_tmux_session row, sr_tmux_socket := sr_tmux_socket row,
     sr_cwd := sr_cwd row,
     sr_claude_session_id := coalesce (sr_claude_session_id row) (sr_claude_session_id old),
     sr_transcript_path := coalesce (sr_transcript_path row) (sr_transcript_path old),
     sr_lifecycle := sr_lifecycle row, sr_updated_at := sr_updated_at row, sr_agent := sr_agent row,
     sr_codex_thread_id :=
       (if (case generation of None \<Rightarrow> False
            | Some g \<Rightarrow> g > (case sr_codex_generation old of None \<Rightarrow> -1 | Some h \<Rightarrow> h))
        then sr_codex_thread_id row else coalesce (sr_codex_thread_id row) (sr_codex_thread_id old)),
     sr_codex_socket := coalesce (sr_codex_socket row) (sr_codex_socket old),
     sr_codex_generation := coalesce generation (sr_codex_generation old)\<rparr>"

definition record_project :: "string \<Rightarrow> string \<Rightarrow> agent_kind \<Rightarrow> store \<Rightarrow> store" where
  "record_project path last_used agent st =
     (case hget (st_projects st) path of
        Some (used, held) \<Rightarrow> if last_used > used then st\<lparr>st_projects := hput path (last_used, agent) (st_projects st)\<rparr> else st
      | None \<Rightarrow> st\<lparr>st_projects := hput path (last_used, agent) (st_projects st)\<rparr>)"

datatype session_upsert = Present | Tombstoned

definition upsert_session_at_generation ::
  "session_row \<Rightarrow> nat option \<Rightarrow> store \<Rightarrow> (store_error + session_upsert) \<times> store" where
  "upsert_session_at_generation row generation st =
     (if (case generation of None \<Rightarrow> False | Some g \<Rightarrow> g \<ge> 2 ^ 63) then (Inl GenerationTooLarge, st)
      else
        let uid = sr_session_uid row; generation = map_option int generation in
        case session_tables_for (sr_agent row) of (table, other) \<Rightarrow>
          (case carry_row table other uid st of
             Inl e \<Rightarrow> (Inl e, st)
           | Inr carried \<Rightarrow>
               if uid \<in> set (st_deleted_sessions carried) then (Inr Tombstoned, carried)
               else if shadow_refused table uid (sr_agent row) carried then (Inl ShadowRefused, st)
               else
                 let rows = rows_in table carried;
                     rows = (if list_ex (names_run uid) rows
                       then map (\<lambda>r. if names_run uid r then updated_row row generation r else r) rows
                       else rows @ [session_row.extend (session_row.truncate row) (filed_session.fields generation)])
                 in (Inr Present, record_project (sr_cwd row) (sr_created_at row) (sr_agent row) (put_rows table rows carried))))"

definition upsert_session :: "session_row \<Rightarrow> store \<Rightarrow> (store_error + session_upsert) \<times> store" where
  "upsert_session row st = upsert_session_at_generation row None st"

definition codex_generation :: "string \<Rightarrow> store \<Rightarrow> nat option" where
  "codex_generation uid st =
     (case List.map_filter sr_codex_generation (filter (names_run uid) (all_sessions st)) of
        [] \<Rightarrow> None
      | g # gs \<Rightarrow> let m = fold max gs g in if m < 0 then None else Some (nat m))"

definition get_session :: "string \<Rightarrow> store \<Rightarrow> session_row option" where
  "get_session uid st = map_option session_row.truncate (find (names_run uid) (all_sessions st))"

definition list_sessions :: "store \<Rightarrow> session_row list" where
  "list_sessions st = map session_row.truncate (sort_key (\<lambda>r. [sr_created_at r, sr_session_uid r]) (all_sessions st))"

definition find_session :: "string \<Rightarrow> store \<Rightarrow> session_row option" where
  "find_session reference st =
     (if reference = [] then None
      else (case (if uid_well_formed reference then get_session reference st else None) of
          Some r \<Rightarrow> Some r
        | None \<Rightarrow> (case rev (filter (\<lambda>r. sr_session_id r = reference) (list_sessions st)) of [] \<Rightarrow> None | r # rest \<Rightarrow> Some r)))"

definition set_lifecycle :: "string \<Rightarrow> lifecycle \<Rightarrow> string \<Rightarrow> store \<Rightarrow> store" where
  "set_lifecycle uid l now st =
     (let f = (\<lambda>r. if names_run uid r then r\<lparr>sr_lifecycle := l, sr_updated_at := now\<rparr> else r)
      in st\<lparr>st_sessions := map f (st_sessions st), st_codex_sessions := map f (st_codex_sessions st)\<rparr>)"

definition bind_codex_thread :: "string \<Rightarrow> nat \<Rightarrow> string \<Rightarrow> store \<Rightarrow> bool \<times> store" where
  "bind_codex_thread uid generation thread_id st =
     (let g = (if generation < 2 ^ 63 then int generation else 2 ^ 63 - 1);
          p = (\<lambda>r. names_run uid r \<and> sr_codex_generation r = Some g \<and> sr_codex_thread_id r \<noteq> Some thread_id);
          f = (\<lambda>r. r\<lparr>sr_codex_thread_id := Some thread_id\<rparr>)
      in case (sql_update p f (st_sessions st), sql_update p f (st_codex_sessions st)) of
        ((n, a), (m, b)) \<Rightarrow> (n + m > 0, st\<lparr>st_sessions := a, st_codex_sessions := b\<rparr>))"

definition name_is_tombstoned :: "string \<Rightarrow> store \<Rightarrow> bool" where
  "name_is_tombstoned name st \<longleftrightarrow> name \<in> set (st_deleted_names st)"

definition clear_name_tombstone :: "string \<Rightarrow> store \<Rightarrow> store" where
  "clear_name_tombstone name st = st\<lparr>st_deleted_names := filter (\<lambda>n. n \<noteq> name) (st_deleted_names st)\<rparr>"

definition orphan_event_count :: "store \<Rightarrow> nat" where
  "orphan_event_count st = length (filter (\<lambda>r. \<not> run_exists (er_session_uid r) st) (st_events st))"

section \<open>Deletion\<close>

text \<open>The statements over \<open>SESSION_SCOPED_TABLES\<close>.\<close>

definition sweep_scoped :: "string \<Rightarrow> store \<Rightarrow> store" where
  "sweep_scoped uid st = st\<lparr>
     st_events := filter (\<lambda>r. er_session_uid r \<noteq> uid) (st_events st),
     st_tail_cursors := hdel uid (st_tail_cursors st),
     st_mutation_ledger := filter (\<lambda>r. lr_session_uid r \<noteq> uid) (st_mutation_ledger st),
     st_text_mutations := filter (\<lambda>r. tr_session_uid r \<noteq> uid) (st_text_mutations st),
     st_other_scoped := filter (\<lambda>(table, u). u \<noteq> uid) (st_other_scoped st)\<rparr>"

definition delete_runs :: "(filed_session \<Rightarrow> bool) \<Rightarrow> store \<Rightarrow> nat \<times> store" where
  "delete_runs p st = (case (sql_delete p (st_sessions st), sql_delete p (st_codex_sessions st)) of
     ((n, a), (m, b)) \<Rightarrow> (n + m, st\<lparr>st_sessions := a, st_codex_sessions := b\<rparr>))"

definition bury :: "string \<Rightarrow> store \<Rightarrow> store" where
  "bury uid st = (if uid \<in> set (st_deleted_sessions st) then st else st\<lparr>st_deleted_sessions := st_deleted_sessions st @ [uid]\<rparr>)"

definition bury_name :: "string \<Rightarrow> store \<Rightarrow> store" where
  "bury_name name st = (if name \<in> set (st_deleted_names st) then st else st\<lparr>st_deleted_names := st_deleted_names st @ [name]\<rparr>)"

definition deletable :: "filed_session \<Rightarrow> bool" where
  "deletable r \<longleftrightarrow> sr_lifecycle r = Exited \<or> sr_tmux_socket r = []"

datatype delete_outcome = Deleted nat | NotExited lifecycle | NotFound

definition delete_exited_session :: "string \<Rightarrow> store \<Rightarrow> delete_outcome \<times> store" where
  "delete_exited_session uid st =
     (let copies = filter (names_run uid) (all_sessions st) in
      case filter (\<lambda>r. \<not> deletable r) copies @ filter deletable copies of
        [] \<Rightarrow> (NotFound, st)
      | r # rest \<Rightarrow>
          let unhosted = (sr_tmux_socket r = []) in
          if \<not> unhosted \<and> sr_lifecycle r \<noteq> Exited then (NotExited (sr_lifecycle r), st)
          else
            (case delete_runs (\<lambda>q. names_run uid q \<and> deletable q) (sweep_scoped uid st) of
               (gone, st') \<Rightarrow>
                 if gone \<noteq> 1 then (NotExited UnknownLifecycle, st)
                 else
                   let st' = bury uid st' in
                   (Deleted (count_events uid st), if unhosted then bury_name (sr_session_id r) st' else st')))"

record pruned_session =
  pr_session_uid :: string
  pr_session_id :: string
  pr_cwd :: string
  pr_created_at :: string
  pr_updated_at :: string
  pr_events :: nat

definition prune_candidates :: "store \<Rightarrow> filed_session list" where
  "prune_candidates st = sort_key (\<lambda>r. [sr_created_at r, sr_session_uid r])
     (filter (\<lambda>a. sr_lifecycle a = Exited
        \<and> \<not> list_ex (\<lambda>b. sr_session_uid b = sr_session_uid a \<and> sr_lifecycle b \<noteq> Exited) (all_sessions st)) (all_sessions st))"

fun prune_loop :: "string list \<Rightarrow> bool \<Rightarrow> filed_session list \<Rightarrow> store \<Rightarrow> store_error + pruned_session list \<times> store" where
  "prune_loop protect dry_run [] st = Inr ([], st)"
| "prune_loop protect dry_run (c # cs) st =
     (if sr_session_uid c \<in> set protect then prune_loop protect dry_run cs st
      else
        let uid = sr_session_uid c;
            removed = \<lparr>pr_session_uid = uid, pr_session_id = sr_session_id c, pr_cwd = sr_cwd c,
              pr_created_at = sr_created_at c, pr_updated_at = sr_updated_at c, pr_events = count_events uid st\<rparr>
        in
        (case (if dry_run then Inr st
               else (case delete_runs (\<lambda>q. names_run uid q \<and> sr_lifecycle q = Exited) (sweep_scoped uid st) of
                  (gone, st') \<Rightarrow> if gone = 1 then Inr (bury uid st') else Inl (PruneMatched gone))) of
           Inl e \<Rightarrow> Inl e
         | Inr st' \<Rightarrow> (case prune_loop protect dry_run cs st' of
               Inl e \<Rightarrow> Inl e
             | Inr (out, st'') \<Rightarrow> Inr (removed # out, st''))))"

definition prune_exited_sessions :: "string list \<Rightarrow> bool \<Rightarrow> store \<Rightarrow> (store_error + pruned_session list) \<times> store" where
  "prune_exited_sessions protect dry_run st =
     (case prune_loop protect dry_run (prune_candidates st) st of
        Inl e \<Rightarrow> (Inl e, st)
      | Inr (out, st') \<Rightarrow> (Inr out, if dry_run then st else st'))"

section \<open>The store as a whole\<close>

definition empty_store :: store where
  "empty_store = \<lparr>st_sessions = [], st_codex_sessions = [], st_deleted_sessions = [], st_deleted_names = [], st_events = [],
     st_tail_cursors = [], st_mutation_ledger = [], st_text_mutations = [], st_projects = [], st_other_scoped = []\<rparr>"

text \<open>One call from any task of the daemon.\<close>

datatype store_op =
    OpAppend pending_event
  | OpAppendBatch "pending_event list"
  | OpAppendScan string "pending_event list" tail_cursor
  | OpUpsert session_row "nat option"
  | OpSetLifecycle string lifecycle string
  | OpBindThread string nat string
  | OpDelete string
  | OpPrune "string list" bool
  | OpClearName string

fun store_step :: "ext \<Rightarrow> store_op \<Rightarrow> store \<Rightarrow> store" where
  "store_step E (OpAppend p) st = snd (append_event E p st)"
| "store_step E (OpAppendBatch ps) st = snd (append_batch E ps st)"
| "store_step E (OpAppendScan uid ps c) st = snd (append_batch_with_cursor E uid ps c st)"
| "store_step E (OpUpsert row generation) st = snd (upsert_session_at_generation row generation st)"
| "store_step E (OpSetLifecycle uid l now) st = set_lifecycle uid l now st"
| "store_step E (OpBindThread uid generation thread_id) st = snd (bind_codex_thread uid generation thread_id st)"
| "store_step E (OpDelete uid) st = snd (delete_exited_session uid st)"
| "store_step E (OpPrune protect dry_run) st = snd (prune_exited_sessions protect dry_run st)"
| "store_step E (OpClearName name) st = clear_name_tombstone name st"

definition store_run :: "ext \<Rightarrow> store_op list \<Rightarrow> store \<Rightarrow> store" where
  "store_run E ops st = fold (store_step E) ops st"

end
