(* ===== verification/Ccd_Store_Props.thy ===== *)
theory Ccd_Store_Props
  imports Ccd_Store
begin

text \<open>
  What holds of the store whatever is called: each run has one row and its facts are numbered without a gap, a fact is
  filed once, history only grows until its run is deleted, and a deleted run does not come back.
\<close>

section \<open>One row per run\<close>

definition copies :: "string \<Rightarrow> store \<Rightarrow> filed_session list" where
  "copies uid st = filter (names_run uid) (all_sessions st)"

lemma copies_in: "copies uid st = filter (names_run uid) (rows_in SessionsTable st) @ filter (names_run uid) (rows_in CodexSessionsTable st)"
  by (simp add: copies_def all_sessions_def rows_in_def)

lemma run_exists_iff: "run_exists uid st \<longleftrightarrow> copies uid st \<noteq> []"
  by (auto simp: run_exists_def copies_def list_ex_iff filter_empty_conv)

lemma get_session_copies: "get_session uid st = (case copies uid st of [] \<Rightarrow> None | r # rs \<Rightarrow> Some (session_row.truncate r))"
proof -
  have "find P xs = (case filter P xs of [] \<Rightarrow> None | x # ys \<Rightarrow> Some x)" for P and xs :: "filed_session list"
    by (induction xs) auto
  then show ?thesis by (simp add: get_session_def copies_def split: list.split)
qed

definition rows_ok :: "store \<Rightarrow> bool" where
  "rows_ok st \<longleftrightarrow> (\<forall>uid. length (copies uid st) \<le> 1 \<and> (copies uid st \<noteq> [] \<longrightarrow> uid \<notin> set (st_deleted_sessions st)))
     \<and> list_all (\<lambda>r. sr_agent r = Claude) (st_sessions st) \<and> list_all (\<lambda>r. sr_agent r \<noteq> Claude) (st_codex_sessions st)"

lemma run_exists_other [simp]:
  "run_exists u (st\<lparr>st_events := es\<rparr>) = run_exists u st" "run_exists u (st\<lparr>st_tail_cursors := cs\<rparr>) = run_exists u st"
  "run_exists u (st\<lparr>st_deleted_names := ns\<rparr>) = run_exists u st" "run_exists u (st\<lparr>st_deleted_sessions := ns\<rparr>) = run_exists u st"
  "run_exists u (st\<lparr>st_projects := ps\<rparr>) = run_exists u st"
  by (simp_all add: run_exists_def all_sessions_def)

lemma run_events_other [simp]:
  "run_events u (st\<lparr>st_tail_cursors := cs\<rparr>) = run_events u st" "run_events u (st\<lparr>st_deleted_names := ns\<rparr>) = run_events u st"
  "run_events u (st\<lparr>st_deleted_sessions := ns\<rparr>) = run_events u st" "run_events u (st\<lparr>st_projects := ps\<rparr>) = run_events u st"
  "run_events u (st\<lparr>st_sessions := rs\<rparr>) = run_events u st" "run_events u (st\<lparr>st_codex_sessions := rs\<rparr>) = run_events u st"
  by (simp_all add: run_events_def)

text \<open>What a call leaves of the runs and their order, when it only changes rows in place.\<close>

definition same_runs :: "store \<Rightarrow> store \<Rightarrow> bool" where
  "same_runs st st' \<longleftrightarrow> all_sessions st' = all_sessions st \<and> st_sessions st' = st_sessions st
     \<and> st_codex_sessions st' = st_codex_sessions st \<and> st_deleted_sessions st' = st_deleted_sessions st"

lemma same_runs_copies: "same_runs st st' \<Longrightarrow> copies uid st' = copies uid st"
  by (simp add: same_runs_def copies_def)

section \<open>Numbers and keys\<close>

definition numbered :: "store \<Rightarrow> bool" where
  "numbered st \<longleftrightarrow> (\<forall>uid. map er_seq (run_events uid st) = [1..<Suc (count_events uid st)] \<and> count_events uid st < 2 ^ 63)"

definition row_key :: "event_row \<Rightarrow> (string \<times> string \<times> string) option" where
  "row_key r = map_option (\<lambda>i. (er_session_uid r, er_source r, i)) (er_source_event_id r)"

definition filed_once :: "event_row list \<Rightarrow> bool" where
  "filed_once rs \<longleftrightarrow> distinct (List.map_filter row_key rs)"

text \<open>The source of a row reads back as it is written.\<close>

lemma parse_source_str [simp]: "parse_source (source_str s) = s"
  by (cases s) (simp_all add: parse_source_def source_str_def)

definition source_reads_back :: "event_row \<Rightarrow> bool" where
  "source_reads_back r \<longleftrightarrow> source_str (parse_source (er_source r)) = er_source r"

definition log_ok :: "store \<Rightarrow> bool" where
  "log_ok st \<longleftrightarrow> numbered st \<and> filed_once (st_events st) \<and> list_all source_reads_back (st_events st)
     \<and> list_all (\<lambda>r. run_exists (er_session_uid r) st) (st_events st)
     \<and> (\<forall>uid. load_cursor uid st \<noteq> None \<longrightarrow> run_exists uid st)"

definition store_ok :: "store \<Rightarrow> bool" where
  "store_ok st \<longleftrightarrow> rows_ok st \<and> log_ok st"

lemma fold_max_upt: "fold max [1..<Suc n] (0::nat) = n"
  by (induction n) simp_all

lemma max_seq_numbered: "numbered st \<Longrightarrow> max_seq uid st = count_events uid st"
  unfolding numbered_def max_seq_def using fold_max_upt by metis

lemma map_filter_append [simp]: "List.map_filter f (xs @ ys) = List.map_filter f xs @ List.map_filter f ys"
  by (induction xs) (simp_all add: List.map_filter_simps split: option.split)

lemma set_map_filter: "set (List.map_filter f xs) = {y. \<exists>x \<in> set xs. f x = Some y}"
  by (induction xs) (auto simp: List.map_filter_simps split: option.split)

lemma filed_once_filter: "filed_once rs \<Longrightarrow> filed_once (filter P rs)"
proof -
  have "distinct (List.map_filter f xs) \<Longrightarrow> distinct (List.map_filter f (filter P xs))"
    for f :: "event_row \<Rightarrow> (string \<times> string \<times> string) option" and xs
    by (induction xs) (auto simp: List.map_filter_simps set_map_filter split: option.splits)
  then show "filed_once rs \<Longrightarrow> filed_once (filter P rs)" by (simp add: filed_once_def)
qed

lemma run_events_append: "run_events uid (st\<lparr>st_events := st_events st @ rs\<rparr>)
    = run_events uid st @ filter (\<lambda>r. er_session_uid r = uid) rs"
  by (simp add: run_events_def)

section \<open>Filing\<close>

text \<open>What \<open>append_in_tx\<close> does when it answers: nothing, or one row more, under the next number and a free key.\<close>

lemma append_cases:
  assumes "append_in_tx E p st = Inr (ev, st')"
  obtains (dropped) "ev = None" "st' = st" "\<not> run_exists (pe_session_uid p) st
        \<or> (\<exists>i. pe_source_event_id p = Some i \<and> list_ex (has_key (pe_session_uid p) (source_str (pe_source p)) i) (st_events st))"
  | (filed) r e where "st' = st\<lparr>st_events := st_events st @ [r]\<rparr>" "ev = Some e" "run_exists (pe_session_uid p) st"
      "r = \<lparr>er_session_uid = pe_session_uid p, er_session_id = pe_session_id p, er_seq = max_seq (pe_session_uid p) st + 1,
         er_kind = kind_str (pe_kind p), er_payload = json_write E (pe_payload p), er_source = source_str (pe_source p),
         er_source_event_id = pe_source_event_id p, er_turn_id = pe_turn_id p, er_item_id = pe_item_id p\<rparr>"
      "e = \<lparr>ev_seq = max_seq (pe_session_uid p) st + 1, ev_session_uid = pe_session_uid p, ev_session_id = pe_session_id p,
         ev_kind = pe_kind p, ev_payload = pe_payload p, ev_source = pe_source p,
         ev_source_event_id = pe_source_event_id p, ev_turn_id = pe_turn_id p, ev_item_id = pe_item_id p\<rparr>"
      "case pe_source_event_id p of None \<Rightarrow> True
         | Some i \<Rightarrow> \<not> list_ex (has_key (pe_session_uid p) (source_str (pe_source p)) i) (st_events st)"
      "max_seq (pe_session_uid p) st + 1 < 2 ^ 63"
  using assms unfolding append_in_tx_def Let_def
  by (auto split: if_splits option.splits)

definition only_events :: "store \<Rightarrow> store \<Rightarrow> bool" where
  "only_events st st' \<longleftrightarrow> (\<exists>es. st' = st\<lparr>st_events := es\<rparr>)"

lemma log_ok_append:
  assumes "append_in_tx E p st = Inr (ev, st')" "log_ok st"
  shows "log_ok st' \<and> same_runs st st' \<and> (\<exists>rs. \<forall>uid. run_events uid st' = run_events uid st @ filter (\<lambda>r. er_session_uid r = uid) rs)
    \<and> st_tail_cursors st' = st_tail_cursors st"
  using assms(1)
proof (cases rule: append_cases)
  case dropped
  then show ?thesis using assms(2) by (auto simp: same_runs_def intro: exI [of _ "[]"])
next
  case (filed r e)
  have runs: "same_runs st st'" by (simp add: filed(1) same_runs_def all_sessions_def)
  have ex: "run_exists uid st' = run_exists uid st" for uid
    using same_runs_copies [OF runs] by (simp add: run_exists_iff)
  have evs: "run_events uid st' = run_events uid st @ filter (\<lambda>r. er_session_uid r = uid) [r]" for uid
    unfolding filed(1) by (rule run_events_append)
  have "numbered st'"
    using assms(2) evs max_seq_numbered [of st] filed(7) unfolding log_ok_def numbered_def
    by (auto simp: count_events_def filed(4))
  moreover have "filed_once (st_events st')"
  proof (cases "pe_source_event_id p")
    case None
    with assms(2) show ?thesis by (simp add: log_ok_def filed_once_def filed(1,4) row_key_def List.map_filter_simps)
  next
    case (Some i)
    then have "\<not> list_ex (has_key (pe_session_uid p) (source_str (pe_source p)) i) (st_events st)" using filed(6) by simp
    with Some assms(2) show ?thesis
      by (auto simp: log_ok_def filed_once_def filed(1,4) row_key_def List.map_filter_simps set_map_filter list_ex_iff has_key_def)
  qed
  moreover have "list_all (\<lambda>r. run_exists (er_session_uid r) st') (st_events st')"
    using assms(2) filed(3) by (simp add: log_ok_def filed(1,4))
  moreover have "list_all source_reads_back (st_events st')"
    using assms(2) by (simp add: log_ok_def filed(1,4) source_reads_back_def)
  moreover have "load_cursor uid st' = load_cursor uid st" for uid by (simp add: filed(1) load_cursor_def)
  ultimately have "log_ok st'"
    using assms(2) by (simp add: log_ok_def ex)
  moreover have "\<exists>rs. \<forall>uid. run_events uid st' = run_events uid st @ filter (\<lambda>r. er_session_uid r = uid) rs"
    using evs by blast
  ultimately show ?thesis using runs by (simp add: filed(1))
qed

text \<open>A call that files: what was in the log stays in front.\<close>

definition extends_log :: "store \<Rightarrow> store \<Rightarrow> bool" where
  "extends_log st st' \<longleftrightarrow> same_runs st st' \<and> (\<forall>uid. \<exists>rs. run_events uid st' = run_events uid st @ rs)"

lemma extends_refl: "extends_log st st"
  by (simp add: extends_log_def same_runs_def)

lemma extends_trans: "extends_log a b \<Longrightarrow> extends_log b c \<Longrightarrow> extends_log a c"
  unfolding extends_log_def same_runs_def by (metis append_assoc)

lemma append_extends: "append_in_tx E p st = Inr (ev, st') \<Longrightarrow> log_ok st \<Longrightarrow> log_ok st' \<and> extends_log st st'"
  using log_ok_append [of E p st ev st'] unfolding extends_log_def by blast

lemma append_all_extends: "append_all E ps st = Inr (out, st') \<Longrightarrow> log_ok st \<Longrightarrow> log_ok st' \<and> extends_log st st'"
proof (induction ps arbitrary: st out)
  case (Cons p ps)
  from Cons.prems(1) obtain ev q out' where q: "append_in_tx E p st = Inr (ev, q)" "append_all E ps q = Inr (out', st')"
    by (auto split: sum.splits)
  note step = append_extends [OF q(1) Cons.prems(2)]
  show ?case
    using Cons.IH [OF q(2) conjunct1 [OF step]] extends_trans [OF conjunct2 [OF step]] by blast
qed (simp add: extends_refl)

lemma files_extend:
  assumes "log_ok st"
  shows "log_ok (snd (append_event E p st)) \<and> extends_log st (snd (append_event E p st))"
    "log_ok (snd (append_batch E ps st)) \<and> extends_log st (snd (append_batch E ps st))"
    "log_ok (snd (append_batch_with_cursor E uid ps c st)) \<and> extends_log st (snd (append_batch_with_cursor E uid ps c st))"
proof -
  show "log_ok (snd (append_event E p st)) \<and> extends_log st (snd (append_event E p st))"
    using append_extends [OF _ assms] assms extends_refl by (auto simp: append_event_def split: sum.split)
  show "log_ok (snd (append_batch E ps st)) \<and> extends_log st (snd (append_batch E ps st))"
    using append_all_extends [OF _ assms] assms extends_refl by (auto simp: append_batch_def split: sum.split)
  have cursor: "log_ok (save_cursor_in_tx uid c q) \<and> extends_log q (save_cursor_in_tx uid c q)" if "log_ok q" "run_exists uid q" for q
  proof -
    have "numbered (save_cursor_in_tx uid c q)"
      using that(1) by (simp add: log_ok_def numbered_def count_events_def save_cursor_in_tx_def del: upt_Suc)
    with that show ?thesis
      by (auto simp: log_ok_def extends_log_def same_runs_def all_sessions_def save_cursor_in_tx_def load_cursor_def hget_hput)
  qed
  show "log_ok (snd (append_batch_with_cursor E uid ps c st)) \<and> extends_log st (snd (append_batch_with_cursor E uid ps c st))"
  proof (cases "run_exists uid st")
    case False
    with assms show ?thesis by (simp add: append_batch_with_cursor_def extends_refl)
  next
    case True
    show ?thesis
    proof (cases "append_all E ps st")
      case (Inl e)
      with assms True show ?thesis by (simp add: append_batch_with_cursor_def extends_refl)
    next
      case (Inr r)
      obtain out q where r: "r = (out, q)" by (cases r)
      note step = append_all_extends [OF Inr [unfolded r] assms]
      have "run_exists uid q"
        using True same_runs_copies step unfolding extends_log_def run_exists_iff by metis
      with cursor step extends_trans show ?thesis
        by (simp add: append_batch_with_cursor_def True Inr r) blast
    qed
  qed
qed

section \<open>Rows\<close>

definition changes_rows :: "(filed_session \<Rightarrow> filed_session) \<Rightarrow> store \<Rightarrow> store" where
  "changes_rows f st = st\<lparr>st_sessions := map f (st_sessions st), st_codex_sessions := map f (st_codex_sessions st)\<rparr>"

lemma copies_changes: "(\<And>r. sr_session_uid (f r) = sr_session_uid r) \<Longrightarrow> copies uid (changes_rows f st) = map f (copies uid st)"
  by (simp add: copies_def all_sessions_def changes_rows_def filter_map o_def names_run_def [abs_def])

lemma changes_fields [simp]:
  "st_sessions (changes_rows f st) = map f (st_sessions st)" "st_codex_sessions (changes_rows f st) = map f (st_codex_sessions st)"
  "st_deleted_sessions (changes_rows f st) = st_deleted_sessions st" "st_events (changes_rows f st) = st_events st"
  "st_tail_cursors (changes_rows f st) = st_tail_cursors st"
  by (simp_all add: changes_rows_def)

lemma changes_ok:
  assumes "\<And>r. sr_session_uid (f r) = sr_session_uid r" "\<And>r. sr_agent (f r) = sr_agent r"
  shows "rows_ok st \<Longrightarrow> rows_ok (changes_rows f st)" "log_ok st \<Longrightarrow> log_ok (changes_rows f st)"
    "run_events uid (changes_rows f st) = run_events uid st" "run_exists uid (changes_rows f st) = run_exists uid st"
proof -
  show ev: "run_events uid (changes_rows f st) = run_events uid st" for uid by (simp add: changes_rows_def)
  show ex: "run_exists uid (changes_rows f st) = run_exists uid st" for uid
    by (simp add: run_exists_iff copies_changes assms(1))
  show "rows_ok st \<Longrightarrow> rows_ok (changes_rows f st)"
    using assms by (simp add: rows_ok_def copies_changes list_all_iff)
  show "log_ok st \<Longrightarrow> log_ok (changes_rows f st)"
    by (simp add: log_ok_def numbered_def ev ex count_events_def load_cursor_def del: upt_Suc)
qed

lemma set_lifecycle_changes: "set_lifecycle uid l now st
    = changes_rows (\<lambda>r. if names_run uid r then r\<lparr>sr_lifecycle := l, sr_updated_at := now\<rparr> else r) st"
  by (simp add: set_lifecycle_def changes_rows_def Let_def)

lemma bind_changes: "\<exists>p. snd (bind_codex_thread uid g t st)
    = changes_rows (\<lambda>r. if p r then r\<lparr>sr_codex_thread_id := Some t\<rparr> else r) st"
  by (auto simp: bind_codex_thread_def Let_def sql_update_def changes_rows_def)

text \<open>What a registration does when it is not refused.\<close>

lemma rows_put [simp]:
  "rows_in t (put_rows t rs st) = rs" "t' \<noteq> t \<Longrightarrow> rows_in t' (put_rows t rs st) = rows_in t' st"
  "st_deleted_sessions (put_rows t rs st) = st_deleted_sessions st" "st_events (put_rows t rs st) = st_events st"
  "st_tail_cursors (put_rows t rs st) = st_tail_cursors st"
  by (cases t; cases t'; simp add: rows_in_def put_rows_def)+

lemma rows_record [simp]:
  "rows_in t (record_project a b c st) = rows_in t st" "st_deleted_sessions (record_project a b c st) = st_deleted_sessions st"
  "st_events (record_project a b c st) = st_events st" "st_tail_cursors (record_project a b c st) = st_tail_cursors st"
  by (cases t; simp add: record_project_def rows_in_def split: option.split)+

lemma upsert_refused: "fst (upsert_session_at_generation row g st) = Inl e \<Longrightarrow> snd (upsert_session_at_generation row g st) = st"
  by (auto simp: upsert_session_at_generation_def Let_def split: if_splits prod.splits sum.splits)

lemma carry_ok:
  assumes "carry_row table other uid st = Inr c" "table \<noteq> other" "uid \<notin> set (st_deleted_sessions st)" "length (copies uid st) \<le> 1"
  shows "filter (names_run uid) (rows_in other c) = []" "length (filter (names_run uid) (rows_in table c)) \<le> 1"
    "filter (\<lambda>r. \<not> names_run uid r) (rows_in t c) = filter (\<lambda>r. \<not> names_run uid r) (rows_in t st)"
    "st_deleted_sessions c = st_deleted_sessions st" "st_events c = st_events st" "st_tail_cursors c = st_tail_cursors st"
proof -
  have two: "length (filter (names_run uid) (rows_in table st)) + length (filter (names_run uid) (rows_in other st)) \<le> 1"
    using assms(2,4) by (cases table; cases other) (simp_all add: copies_in)
  have "filter (names_run uid) (rows_in other c) = [] \<and> length (filter (names_run uid) (rows_in table c)) \<le> 1
    \<and> (\<forall>t. filter (\<lambda>r. \<not> names_run uid r) (rows_in t c) = filter (\<lambda>r. \<not> names_run uid r) (rows_in t st))
    \<and> st_deleted_sessions c = st_deleted_sessions st \<and> st_events c = st_events st \<and> st_tail_cursors c = st_tail_cursors st"
  proof (cases "filter (names_run uid) (rows_in other st)")
    case Nil
    with assms two show ?thesis by (simp add: carry_row_def)
  next
    case (Cons r rs)
    with assms(1,3) have c: "rs = []" "\<not> list_ex (names_run uid) (rows_in table st)"
      "c = put_rows other (filter (\<lambda>q. \<not> names_run uid q) (rows_in other st)) (put_rows table (rows_in table st @ [r]) st)"
      by (simp_all add: carry_row_def split: if_splits)
    have r: "names_run uid r" using Cons filter_eq_Cons_iff [of "names_run uid" "rows_in other st" r rs] by blast
    from c(2) have none: "filter (names_run uid) (rows_in table st) = []"
      by (simp add: list_ex_iff filter_empty_conv)
    have others: "filter (\<lambda>r. \<not> names_run uid r) (rows_in t c) = filter (\<lambda>r. \<not> names_run uid r) (rows_in t st)" for t
    proof -
      have "t = table \<or> t = other" using assms(2) by (cases t; cases table; cases other) simp_all
      then show ?thesis using assms(2) r by (auto simp: c(3))
    qed
    moreover have "filter (names_run uid) (rows_in other c) = []" using assms(2) by (simp add: c(3) filter_empty_conv)
    moreover have "length (filter (names_run uid) (rows_in table c)) \<le> 1"
      using assms(2) r none by (simp add: c(3))
    ultimately show ?thesis by (simp add: c(3))
  qed
  then show "filter (names_run uid) (rows_in other c) = []" "length (filter (names_run uid) (rows_in table c)) \<le> 1"
    "filter (\<lambda>r. \<not> names_run uid r) (rows_in t c) = filter (\<lambda>r. \<not> names_run uid r) (rows_in t st)"
    "st_deleted_sessions c = st_deleted_sessions st" "st_events c = st_events st" "st_tail_cursors c = st_tail_cursors st"
    by simp_all
qed

lemma tables_apart: "session_tables_for agent = (table, other) \<Longrightarrow> table \<noteq> other \<and> (table = SessionsTable \<longleftrightarrow> agent = Claude)"
  by (auto simp: session_tables_for_def split: if_splits)

lemma names_updated [simp]: "names_run uid (updated_row row g r) = names_run uid r" "sr_agent (updated_row row g r) = sr_agent row"
  by (simp_all add: updated_row_def names_run_def)

lemma filter_map_some:
  "filter P (map (\<lambda>r. if P r then f r else r) xs) = map f (filter P xs)" if "\<And>r. P r \<Longrightarrow> P (f r)"
  using that by (induction xs) auto

lemma filter_map_none:
  "filter (\<lambda>r. \<not> P r) (map (\<lambda>r. if P r then f r else r) xs) = filter (\<lambda>r. \<not> P r) xs" if "\<And>r. P r \<Longrightarrow> P (f r)"
  using that by (induction xs) auto

lemma filed_row [simp]:
  "names_run uid (session_row.extend (session_row.truncate row) more_cols) = (sr_session_uid row = uid)"
  "sr_agent (session_row.extend (session_row.truncate row) more_cols) = sr_agent row"
  by (simp_all add: names_run_def session_row.defs)

lemma upsert_cases:
  assumes "length (copies (sr_session_uid row) st) \<le> 1"
  obtains (unchanged) "snd (upsert_session_at_generation row g st) = st"
  | (written) r table other where "sr_session_uid row \<notin> set (st_deleted_sessions st)" "table \<noteq> other" "table = SessionsTable \<longleftrightarrow> sr_agent r = Claude"
      "filter (names_run (sr_session_uid row)) (rows_in table (snd (upsert_session_at_generation row g st))) = [r]"
      "filter (names_run (sr_session_uid row)) (rows_in other (snd (upsert_session_at_generation row g st))) = []"
      "\<And>t. filter (\<lambda>r. \<not> names_run (sr_session_uid row) r) (rows_in t (snd (upsert_session_at_generation row g st)))
         = filter (\<lambda>r. \<not> names_run (sr_session_uid row) r) (rows_in t st)"
      "st_deleted_sessions (snd (upsert_session_at_generation row g st)) = st_deleted_sessions st"
      "st_events (snd (upsert_session_at_generation row g st)) = st_events st"
      "st_tail_cursors (snd (upsert_session_at_generation row g st)) = st_tail_cursors st"
proof -
  let ?uid = "sr_session_uid row"
  obtain table other where t: "session_tables_for (sr_agent row) = (table, other)" by (cases "session_tables_for (sr_agent row)")
  note apart = tables_apart [OF t]
  consider (stays) "snd (upsert_session_at_generation row g st) = st"
    | (goes) c where "carry_row table other ?uid st = Inr c" "?uid \<notin> set (st_deleted_sessions st)"
      "snd (upsert_session_at_generation row g st) = record_project (sr_cwd row) (sr_created_at row) (sr_agent row)
         (put_rows table (if list_ex (names_run ?uid) (rows_in table c)
           then map (\<lambda>r. if names_run ?uid r then updated_row row (map_option int g) r else r) (rows_in table c)
           else rows_in table c @ [session_row.extend (session_row.truncate row) (filed_session.fields (map_option int g))]) c)"
  proof (cases "fst (upsert_session_at_generation row g st)")
    case (Inl e)
    with upsert_refused that(1) show ?thesis by blast
  next
    case (Inr u)
    show ?thesis
    proof (cases "?uid \<in> set (st_deleted_sessions st)")
      case True
      with Inr t have "snd (upsert_session_at_generation row g st) = st"
        by (auto simp: upsert_session_at_generation_def Let_def carry_row_def split: if_splits)
      with that(1) show ?thesis .
    next
      case False
      with Inr t obtain c where c: "carry_row table other ?uid st = Inr c"
        by (auto simp: upsert_session_at_generation_def Let_def split: if_splits sum.splits)
      have "?uid \<notin> set (st_deleted_sessions c)"
        using carry_ok(4) [OF c _ False assms] apart False by simp
      with Inr t c False that(2) [OF c False] show ?thesis
        by (auto simp: upsert_session_at_generation_def Let_def split: if_splits)
    qed
  qed
  then show ?thesis
  proof cases
    case stays
    with unchanged show ?thesis .
  next
    case (goes c)
    note ok = carry_ok [OF goes(1) conjunct1 [OF apart] goes(2) assms]
    let ?st' = "snd (upsert_session_at_generation row g st)"
    have "\<exists>r. filter (names_run ?uid) (rows_in table ?st') = [r] \<and> sr_agent r = sr_agent row"
    proof (cases "filter (names_run ?uid) (rows_in table c)")
      case Nil
      then have "\<not> list_ex (names_run ?uid) (rows_in table c)" by (simp add: list_ex_iff filter_empty_conv)
      with Nil show ?thesis by (simp add: goes(3))
    next
      case (Cons r rs)
      then have "list_ex (names_run ?uid) (rows_in table c)"
        by (metis filter_empty_conv list.distinct(1) list_ex_iff)
      with Cons ok(2) show ?thesis by (simp add: goes(3) filter_map_some)
    qed
    then obtain r where r: "filter (names_run ?uid) (rows_in table ?st') = [r]" "sr_agent r = sr_agent row" by blast
    have others: "filter (\<lambda>r. \<not> names_run ?uid r) (rows_in t ?st') = filter (\<lambda>r. \<not> names_run ?uid r) (rows_in t st)" for t
    proof -
      have "t = table \<or> t = other" using apart by (cases t; cases table; cases other) simp_all
      then show ?thesis using apart ok(3) [of t] by (auto simp: goes(3) filter_map_none)
    qed
    have "other \<noteq> table" using apart by blast
    with ok(1) have "filter (names_run ?uid) (rows_in other ?st') = []" by (simp add: goes(3))
    with r others goes(2) apart ok(4-6) show ?thesis
      by (intro written [of table other r]) (simp_all add: goes(3))
  qed
qed

lemma names_other: "u \<noteq> uid \<Longrightarrow> filter (names_run u) rs = filter (names_run u) (filter (\<lambda>r. \<not> names_run uid r) rs)"
  by (induction rs) (auto simp: names_run_def)

lemma upsert_ok:
  fixes row :: session_row and g :: "nat option"
  assumes "rows_ok st" "log_ok st"
  defines "st' \<equiv> snd (upsert_session_at_generation row g st)"
  shows "rows_ok st' \<and> log_ok st' \<and> st_deleted_sessions st' = st_deleted_sessions st
    \<and> (\<forall>uid. run_events uid st' = run_events uid st \<and> (copies uid st \<noteq> [] \<longrightarrow> copies uid st' \<noteq> []))"
proof -
  let ?uid = "sr_session_uid row"
  have one: "length (copies ?uid st) \<le> 1" using assms(1) by (simp add: rows_ok_def)
  show ?thesis
  proof (cases rule: upsert_cases [OF one, of g])
    case 1
    with assms show ?thesis by simp
  next
    case (2 r table other)
    note w = 2 [folded st'_def]
    have same: "copies u st' = copies u st" if "u \<noteq> ?uid" for u
    proof -
      have "filter (names_run u) (rows_in t st') = filter (names_run u) (rows_in t st)" for t
        by (rule box_equals [OF arg_cong [OF w(6) [of t], of "filter (names_run u)"] names_other [OF that, symmetric]
            names_other [OF that, symmetric]])
      then show ?thesis by (simp add: copies_in)
    qed
    have mine: "copies ?uid st' = [r]"
      using w(2,4,5) by (cases table; cases other) (simp_all add: copies_in)
    have ev: "run_events u st' = run_events u st" for u by (simp add: run_events_def w(8))
    have ex: "copies u st \<noteq> [] \<Longrightarrow> copies u st' \<noteq> []" for u using same [of u] mine by (cases "u = ?uid") simp_all
    have in_t: "q \<in> set (rows_in t st') \<Longrightarrow> q = r \<and> t = table \<or> q \<in> set (rows_in t st)" for q t
    proof -
      assume q: "q \<in> set (rows_in t st')"
      show ?thesis
      proof (cases "names_run ?uid q")
        case True
        with q have "q \<in> set (filter (names_run ?uid) (rows_in t st'))" by simp
        with w(2,4,5) show ?thesis by (cases t; cases table; cases other) auto
      next
        case False
        with q have "q \<in> set (filter (\<lambda>r. \<not> names_run ?uid r) (rows_in t st'))" by simp
        then show ?thesis unfolding w(6) by simp
      qed
    qed
    have "rows_ok st'"
    proof -
      have "length (copies u st') \<le> 1 \<and> (copies u st' \<noteq> [] \<longrightarrow> u \<notin> set (st_deleted_sessions st'))" for u
        using same [of u] mine assms(1) w(1) by (cases "u = ?uid") (simp_all add: rows_ok_def w(7))
      moreover have "list_all (\<lambda>r. sr_agent r = Claude) (st_sessions st')"
        using in_t [of _ SessionsTable] assms(1) w(3) by (auto simp: rows_ok_def list_all_iff rows_in_def)
      moreover have "list_all (\<lambda>r. sr_agent r \<noteq> Claude) (st_codex_sessions st')"
        using in_t [of _ CodexSessionsTable] assms(1) w(3) by (auto simp: rows_ok_def list_all_iff rows_in_def)
      ultimately show ?thesis by (simp add: rows_ok_def)
    qed
    moreover have "log_ok st'"
      using assms(2) ex ev w(8,9)
      by (auto simp: log_ok_def numbered_def count_events_def run_exists_iff load_cursor_def list_all_iff simp del: upt_Suc)
    ultimately show ?thesis using ex ev w(7) by simp
  qed
qed

section \<open>Deletion\<close>

definition without_run :: "string \<Rightarrow> store \<Rightarrow> store" where
  "without_run uid st = (sweep_scoped uid st)\<lparr>st_sessions := filter (\<lambda>r. \<not> names_run uid r) (st_sessions st),
     st_codex_sessions := filter (\<lambda>r. \<not> names_run uid r) (st_codex_sessions st)\<rparr>"

lemma delete_runs_one:
  assumes "delete_runs (\<lambda>q. names_run uid q \<and> P q) (sweep_scoped uid st) = (1, st')" "length (copies uid st) \<le> 1"
  shows "\<exists>r. copies uid st = [r] \<and> P r \<and> st' = without_run uid st"
proof -
  let ?p = "\<lambda>q. names_run uid q \<and> P q"
  have st': "st' = (sweep_scoped uid st)\<lparr>st_sessions := filter (\<lambda>r. \<not> ?p r) (st_sessions st),
      st_codex_sessions := filter (\<lambda>r. \<not> ?p r) (st_codex_sessions st)\<rparr>"
    and n: "length (filter ?p (all_sessions st)) = 1"
    using assms(1) by (auto simp: delete_runs_def sql_delete_def sweep_scoped_def all_sessions_def)
  have "filter ?p (all_sessions st) = filter P (copies uid st)"
    by (auto simp: copies_def conj_commute intro: filter_cong)
  with n assms(2) obtain r where r: "copies uid st = [r]" "P r"
    by (cases "copies uid st") (auto split: if_splits)
  have "filter (\<lambda>r. \<not> ?p r) rs = filter (\<lambda>r. \<not> names_run uid r) rs" if "set rs \<subseteq> set (all_sessions st)" for rs
  proof (rule filter_cong [OF refl])
    fix q assume "q \<in> set rs"
    with that have "names_run uid q \<Longrightarrow> q \<in> set (copies uid st)" by (auto simp: copies_def)
    with r show "(\<not> ?p q) = (\<not> names_run uid q)" by auto
  qed
  then have "st' = without_run uid st"
    by (simp add: st' without_run_def all_sessions_def)
  with r show ?thesis by blast
qed

lemma copies_without [simp]: "copies u (without_run uid st) = (if u = uid then [] else copies u st)"
proof -
  have "filter (names_run u) (filter (\<lambda>r. \<not> names_run uid r) rs) = (if u = uid then [] else filter (names_run u) rs)" for rs
    by (induction rs) (auto simp: names_run_def [abs_def])
  then show ?thesis by (simp add: copies_def all_sessions_def without_run_def del: filter_filter)
qed

lemma events_without [simp]: "run_events u (without_run uid st) = (if u = uid then [] else run_events u st)"
  by (auto simp: run_events_def without_run_def sweep_scoped_def filter_empty_conv intro!: filter_cong)

lemma cursor_without [simp]: "load_cursor u (without_run uid st) = (if u = uid then None else load_cursor u st)"
  by (simp add: load_cursor_def without_run_def sweep_scoped_def hget_hdel)

lemma bury_same [simp]:
  "copies u (bury uid q) = copies u q" "run_events u (bury uid q) = run_events u q" "load_cursor u (bury uid q) = load_cursor u q"
  "st_events (bury uid q) = st_events q" "st_sessions (bury uid q) = st_sessions q"
  "st_codex_sessions (bury uid q) = st_codex_sessions q" "set (st_deleted_sessions (bury uid q)) = insert uid (set (st_deleted_sessions q))"
  by (auto simp: bury_def copies_def all_sessions_def load_cursor_def)

text \<open>A call that deletes: every run is as it was, or it could be deleted and is gone with its facts and stays buried.\<close>

definition erases :: "(filed_session \<Rightarrow> bool) \<Rightarrow> store \<Rightarrow> store \<Rightarrow> bool" where
  "erases P st st' \<longleftrightarrow> set (st_deleted_sessions st) \<subseteq> set (st_deleted_sessions st') \<and>
     (\<forall>uid. copies uid st' = copies uid st \<and> run_events uid st' = run_events uid st
        \<or> (\<exists>r. copies uid st = [r] \<and> P r \<and> copies uid st' = [] \<and> run_events uid st' = [] \<and> uid \<in> set (st_deleted_sessions st')))"

lemma erases_refl [simp]: "erases P st st"
  by (simp add: erases_def)

lemma erases_trans: "erases P a b \<Longrightarrow> erases P b c \<Longrightarrow> erases P a c"
  unfolding erases_def by (smt (verit) list.distinct(1) subset_iff)

lemma without_run_ok:
  assumes "rows_ok st" "log_ok st" "copies uid st = [r]" "P r"
  shows "rows_ok (bury uid (without_run uid st)) \<and> log_ok (bury uid (without_run uid st)) \<and> erases P st (bury uid (without_run uid st))"
proof -
  let ?st' = "bury uid (without_run uid st)"
  have d: "set (st_deleted_sessions ?st') = insert uid (set (st_deleted_sessions st))"
    by (simp add: without_run_def sweep_scoped_def)
  have c: "copies u ?st' = (if u = uid then [] else copies u st)" for u by simp
  have e: "run_events u ?st' = (if u = uid then [] else run_events u st)" for u by simp
  have l: "load_cursor u ?st' = (if u = uid then None else load_cursor u st)" for u by simp
  have ev: "st_events ?st' = filter (\<lambda>r. er_session_uid r \<noteq> uid) (st_events st)"
    by (simp add: without_run_def sweep_scoped_def)
  have "rows_ok ?st'"
    using assms(1) c d by (auto simp: rows_ok_def without_run_def list_all_iff)
  moreover have "log_ok ?st'"
  proof -
    have "numbered ?st'" using assms(2) e by (simp add: log_ok_def numbered_def count_events_def del: upt_Suc)
    moreover have "filed_once (st_events ?st')"
      unfolding ev using assms(2) filed_once_filter by (simp add: log_ok_def)
    moreover have "list_all (\<lambda>r. run_exists (er_session_uid r) ?st') (st_events ?st')"
      unfolding ev using assms(2) c by (auto simp: log_ok_def list_all_iff run_exists_iff)
    moreover have "list_all source_reads_back (st_events ?st')"
      unfolding ev using assms(2) by (simp add: log_ok_def list_all_iff)
    ultimately show ?thesis using assms(2) c l by (auto simp: log_ok_def run_exists_iff split: if_splits)
  qed
  moreover have "erases P st ?st'"
    using c e d assms(3,4) by (auto simp: erases_def)
  ultimately show ?thesis by blast
qed

definition keeps_store :: "(filed_session \<Rightarrow> bool) \<Rightarrow> store \<Rightarrow> store \<Rightarrow> bool" where
  "keeps_store P st st' \<longleftrightarrow> rows_ok st' \<and> log_ok st' \<and> erases P st st'"

lemma store_keeps_refl: "rows_ok st \<Longrightarrow> log_ok st \<Longrightarrow> keeps_store P st st"
  by (simp add: keeps_store_def)

lemma bury_name_same [simp]:
  "copies u (bury_name n q) = copies u q" "run_events u (bury_name n q) = run_events u q" "load_cursor u (bury_name n q) = load_cursor u q"
  "st_events (bury_name n q) = st_events q" "st_deleted_sessions (bury_name n q) = st_deleted_sessions q"
  "st_sessions (bury_name n q) = st_sessions q" "st_codex_sessions (bury_name n q) = st_codex_sessions q"
  by (auto simp: bury_name_def copies_def all_sessions_def load_cursor_def)

lemma keeps_bury_name: "keeps_store P st q \<Longrightarrow> keeps_store P st (bury_name n q)"
  by (simp add: keeps_store_def rows_ok_def log_ok_def erases_def numbered_def count_events_def run_exists_iff del: upt_Suc)

text \<open>A deletion, when it is not refused.\<close>

lemma delete_cases:
  assumes "length (copies uid st) \<le> 1"
  obtains (refused) "snd (delete_exited_session uid st) = st" "\<nexists>n. fst (delete_exited_session uid st) = Deleted n"
  | (deleted) r where "copies uid st = [r]" "deletable r" "fst (delete_exited_session uid st) = Deleted (count_events uid st)"
      "snd (delete_exited_session uid st) = (if sr_tmux_socket r = [] then bury_name (sr_session_id r) (bury uid (without_run uid st))
         else bury uid (without_run uid st))"
proof (cases "copies uid st")
  case Nil
  then have "delete_exited_session uid st = (NotFound, st)"
    by (simp add: delete_exited_session_def copies_def)
  then show ?thesis by (intro refused) simp_all
next
  case (Cons r rs)
  with assms have one: "filter (names_run uid) (all_sessions st) = [r]" by (simp add: copies_def)
  obtain gone st' where d: "delete_runs (\<lambda>q. names_run uid q \<and> deletable q) (sweep_scoped uid st) = (gone, st')"
    by (cases "delete_runs (\<lambda>q. names_run uid q \<and> deletable q) (sweep_scoped uid st)")
  have un: "delete_exited_session uid st =
     (if sr_tmux_socket r \<noteq> [] \<and> sr_lifecycle r \<noteq> Exited then (NotExited (sr_lifecycle r), st)
      else if gone \<noteq> 1 then (NotExited UnknownLifecycle, st)
      else (Deleted (count_events uid st), if sr_tmux_socket r = [] then bury_name (sr_session_id r) (bury uid st') else bury uid st'))"
    by (simp add: delete_exited_session_def one d Let_def)
  show ?thesis
  proof (cases "(sr_tmux_socket r = [] \<or> sr_lifecycle r = Exited) \<and> gone = 1")
    case False
    with un show ?thesis by (intro refused) auto
  next
    case True
    with d have "delete_runs (\<lambda>q. names_run uid q \<and> deletable q) (sweep_scoped uid st) = (1, st')" by simp
    from delete_runs_one [OF this assms] Cons have "deletable r" "st' = without_run uid st" "copies uid st = [r]" by auto
    with True un show ?thesis by (intro deleted [of r]) auto
  qed
qed

lemma prune_loop_ok:
  "prune_loop protect False cs st = Inr (out, st') \<Longrightarrow> rows_ok st \<Longrightarrow> log_ok st \<Longrightarrow>
   keeps_store (\<lambda>r. sr_lifecycle r = Exited \<and> sr_session_uid r \<notin> set protect) st st'"
proof (induction cs arbitrary: st out)
  case Nil
  then show ?case by (simp add: store_keeps_refl)
next
  case (Cons c cs)
  let ?uid = "sr_session_uid c"
  let ?P = "\<lambda>r. sr_lifecycle r = Exited \<and> sr_session_uid r \<notin> set protect"
  show ?case
  proof (cases "?uid \<in> set protect")
    case True
    with Cons show ?thesis by simp
  next
    case False
    obtain gone q where d: "delete_runs (\<lambda>q. names_run ?uid q \<and> sr_lifecycle q = Exited) (sweep_scoped ?uid st) = (gone, q)"
      by (cases "delete_runs (\<lambda>q. names_run ?uid q \<and> sr_lifecycle q = Exited) (sweep_scoped ?uid st)")
    with Cons.prems(1) False have one: "gone = 1" by (auto simp: Let_def split: if_splits)
    with Cons.prems(1) False d obtain out' where rest: "prune_loop protect False cs (bury ?uid q) = Inr (out', st')"
      by (auto simp: Let_def split: sum.splits)
    have "length (copies ?uid st) \<le> 1" using Cons.prems(2) by (simp add: rows_ok_def)
    with delete_runs_one [OF d [unfolded one]] obtain r where r: "copies ?uid st = [r]" "sr_lifecycle r = Exited" "q = without_run ?uid st"
      by blast
    have "sr_session_uid r = ?uid"
      using r(1) filter_eq_Cons_iff [of "names_run ?uid" "all_sessions st" r "[]"] by (auto simp: copies_def names_run_def)
    then have "?P r" using r(2) False by simp
    from without_run_ok [OF Cons.prems(2,3) r(1), of ?P] this
    have step: "rows_ok (bury ?uid q)" "log_ok (bury ?uid q)" "erases ?P st (bury ?uid q)" by (simp_all add: r(3))
    from Cons.IH [OF rest step(1,2)] erases_trans [OF step(3)] show ?thesis by (simp add: keeps_store_def)
  qed
qed

section \<open>Any call\<close>

definition grows :: "store \<Rightarrow> store \<Rightarrow> bool" where
  "grows st st' \<longleftrightarrow> st_deleted_sessions st' = st_deleted_sessions st \<and>
     (\<forall>uid. (\<exists>rs. run_events uid st' = run_events uid st @ rs) \<and> (copies uid st \<noteq> [] \<longrightarrow> copies uid st' \<noteq> []))"

lemma extends_grows:
  assumes "extends_log st st'" "rows_ok st"
  shows "rows_ok st' \<and> grows st st'"
proof -
  have runs: "same_runs st st'" using assms(1) by (simp add: extends_log_def)
  then have "rows_ok st'" using assms(2) same_runs_copies [OF runs] by (simp add: rows_ok_def same_runs_def)
  with assms(1) runs same_runs_copies [OF runs] show ?thesis by (simp add: extends_log_def grows_def same_runs_def)
qed

lemma changes_grows:
  assumes "\<And>r. sr_session_uid (f r) = sr_session_uid r" "\<And>r. sr_agent (f r) = sr_agent r" "store_ok st"
  shows "store_ok (changes_rows f st) \<and> grows st (changes_rows f st)"
  using assms changes_ok [of f] by (auto simp: store_ok_def grows_def copies_changes)

text \<open>Whose facts a call may erase.\<close>

fun may_erase :: "store_op \<Rightarrow> filed_session \<Rightarrow> bool" where
  "may_erase (OpDelete uid) r = (sr_session_uid r = uid \<and> deletable r)"
| "may_erase (OpPrune protect dry_run) r = (\<not> dry_run \<and> sr_lifecycle r = Exited \<and> sr_session_uid r \<notin> set protect)"
| "may_erase op r = False"

lemma copies_named: "copies uid st = r # rs \<Longrightarrow> sr_session_uid r = uid"
  using filter_eq_Cons_iff [of "names_run uid" "all_sessions st" r rs] by (auto simp: copies_def names_run_def)

lemma delete_keeps:
  assumes "rows_ok st" "log_ok st"
  shows "keeps_store (may_erase (OpDelete uid)) st (snd (delete_exited_session uid st))"
proof -
  have "length (copies uid st) \<le> 1" using assms(1) by (simp add: rows_ok_def)
  then show ?thesis
  proof (cases rule: delete_cases)
    case refused
    with assms show ?thesis by (simp add: store_keeps_refl)
  next
    case (deleted r)
    with copies_named [OF deleted(1)] have "may_erase (OpDelete uid) r" by simp
    with without_run_ok [OF assms deleted(1), of "may_erase (OpDelete uid)"]
    have "keeps_store (may_erase (OpDelete uid)) st (bury uid (without_run uid st))" by (simp add: keeps_store_def)
    with keeps_bury_name deleted(4) show ?thesis by simp
  qed
qed

lemma prune_keeps:
  assumes "rows_ok st" "log_ok st"
  shows "keeps_store (may_erase (OpPrune protect dry_run)) st (snd (prune_exited_sessions protect dry_run st))"
proof (cases dry_run)
  case True
  with assms show ?thesis by (auto simp: prune_exited_sessions_def store_keeps_refl split: sum.split prod.split)
next
  case False
  have "may_erase (OpPrune protect False) = (\<lambda>r. sr_lifecycle r = Exited \<and> sr_session_uid r \<notin> set protect)"
    by (rule ext) simp
  with False assms prune_loop_ok [OF _ assms, of protect] show ?thesis
    by (auto simp: prune_exited_sessions_def store_keeps_refl split: sum.split prod.split)
qed

lemma step_ok:
  assumes "store_ok st"
  shows "store_ok (store_step E op st) \<and> (grows st (store_step E op st) \<or> erases (may_erase op) st (store_step E op st))"
proof -
  have ok: "rows_ok st" "log_ok st" using assms by (simp_all add: store_ok_def)
  show ?thesis
  proof (cases op)
    case (OpUpsert row g)
    with upsert_ok [OF ok, of row g] show ?thesis
      by (simp add: store_ok_def grows_def)
  next
    case (OpSetLifecycle uid l now)
    then show ?thesis using changes_grows [OF _ _ assms] by (simp add: set_lifecycle_changes)
  next
    case (OpBindThread uid g t)
    obtain p where "snd (bind_codex_thread uid g t st) = changes_rows (\<lambda>r. if p r then r\<lparr>sr_codex_thread_id := Some t\<rparr> else r) st"
      using bind_changes by blast
    then show ?thesis using changes_grows [OF _ _ assms] by (simp add: OpBindThread)
  next
    case (OpDelete uid)
    with delete_keeps [OF ok, of uid] show ?thesis by (simp add: keeps_store_def store_ok_def)
  next
    case (OpPrune protect dry_run)
    with prune_keeps [OF ok, of protect dry_run] show ?thesis by (simp add: keeps_store_def store_ok_def)
  next
    case (OpClearName name)
    let ?st' = "clear_name_tombstone name st"
    have same: "copies u ?st' = copies u st" "run_events u ?st' = run_events u st" "load_cursor u ?st' = load_cursor u st"
      "st_events ?st' = st_events st" "st_deleted_sessions ?st' = st_deleted_sessions st" "st_sessions ?st' = st_sessions st"
      "st_codex_sessions ?st' = st_codex_sessions st" for u
      by (simp_all add: clear_name_tombstone_def copies_def all_sessions_def load_cursor_def)
    with assms show ?thesis
      by (simp add: OpClearName store_ok_def rows_ok_def log_ok_def grows_def numbered_def count_events_def run_exists_iff
          del: upt_Suc)
  next
    case (OpAppend p)
    with files_extend(1) [OF ok(2)] extends_grows [OF _ ok(1)] show ?thesis by (simp add: store_ok_def)
  next
    case (OpAppendBatch ps)
    with files_extend(2) [OF ok(2)] extends_grows [OF _ ok(1)] show ?thesis by (simp add: store_ok_def)
  next
    case (OpAppendScan uid ps c)
    with files_extend(3) [OF ok(2)] extends_grows [OF _ ok(1)] show ?thesis by (simp add: store_ok_def)
  qed
qed

lemma run_ok: "store_ok st \<Longrightarrow> store_ok (store_run E ops st)"
  unfolding store_run_def by (induction ops arbitrary: st) (simp_all add: step_ok)

lemma empty_ok: "store_ok empty_store"
  by (simp add: store_ok_def rows_ok_def log_ok_def copies_def all_sessions_def empty_store_def numbered_def run_events_def
      count_events_def filed_once_def load_cursor_def List.map_filter_simps)

lemmas reached_ok = run_ok [OF empty_ok]

lemma store_ok_gone:
  assumes "store_ok st" "copies uid st = []"
  shows "run_events uid st = []" "load_cursor uid st = None"
proof -
  show "run_events uid st = []"
    using assms by (auto simp: store_ok_def log_ok_def list_all_iff run_events_def run_exists_iff filter_empty_conv)
  show "load_cursor uid st = None"
    using assms by (auto simp: store_ok_def log_ok_def run_exists_iff)
qed

lemma buried_copies: "store_ok st \<Longrightarrow> uid \<in> set (st_deleted_sessions st) \<Longrightarrow> copies uid st = []"
  by (auto simp: store_ok_def rows_ok_def)

lemma buried_stays: "store_ok st \<Longrightarrow> uid \<in> set (st_deleted_sessions st) \<Longrightarrow> uid \<in> set (st_deleted_sessions (store_run E ops st))"
proof (induction ops arbitrary: st)
  case (Cons op ops)
  note step = step_ok [OF Cons.prems(1), of E op]
  have "uid \<in> set (st_deleted_sessions (store_step E op st))"
    using step Cons.prems(2) by (auto simp: grows_def erases_def)
  with Cons.IH [OF conjunct1 [OF step]] show ?case by (simp add: store_run_def)
qed (simp add: store_run_def)

section \<open>Properties\<close>

text \<open>C28. The log has no gap and no fact twice. After any calls on the store, in any order, the facts of a run are
  numbered from one without a gap, so the highest number is their count, and stays below 2^63, where a number is still
  read back as it was written; no two facts of a run from one source have the same key; every fact is of a run that
  exists; and a run has one row in the two tables together.\<close>
theorem the_log_is_gap_free:
  "let st = store_run E ops empty_store in
     map er_seq (run_events uid st) = [1..<Suc (count_events uid st)] \<and> max_seq uid st = count_events uid st
     \<and> count_events uid st < 2 ^ 63
     \<and> filed_once (st_events st) \<and> orphan_event_count st = 0 \<and> length (filter (names_run uid) (all_sessions st)) \<le> 1"
proof -
  let ?st = "store_run E ops empty_store"
  have "store_ok ?st" by (rule reached_ok)
  then have ok: "numbered ?st" "filed_once (st_events ?st)" "list_all (\<lambda>r. run_exists (er_session_uid r) ?st) (st_events ?st)"
    "length (copies uid ?st) \<le> 1"
    by (simp_all add: store_ok_def log_ok_def rows_ok_def)
  then have "count_events uid ?st < 2 ^ 63" by (simp add: numbered_def)
  with ok show ?thesis
    using max_seq_numbered [of ?st uid]
    by (auto simp: numbered_def Let_def orphan_event_count_def list_all_iff copies_def filter_empty_conv simp del: upt_Suc)
qed

lemma one_call_on_a_run:
  assumes ok: "store_ok st"
  shows "let st' = store_step E op st in
   (case get_session uid st of
      None \<Rightarrow> run_events uid st = []
    | Some r \<Rightarrow> (\<exists>new. run_events uid st' = run_events uid st @ new \<and> run_exists uid st')
        \<or> (op = OpDelete uid \<and> (sr_lifecycle r = Exited \<or> sr_tmux_socket r = [])
            \<or> (\<exists>protect. op = OpPrune protect False \<and> uid \<notin> set protect \<and> sr_lifecycle r = Exited))
          \<and> get_session uid st' = None \<and> run_events uid st' = [] \<and> uid \<in> set (st_deleted_sessions st'))"
proof -
  define st' where "st' = store_step E op st"
  have "case get_session uid st of
      None \<Rightarrow> run_events uid st = []
    | Some r \<Rightarrow> (\<exists>new. run_events uid st' = run_events uid st @ new \<and> run_exists uid st')
        \<or> (op = OpDelete uid \<and> (sr_lifecycle r = Exited \<or> sr_tmux_socket r = [])
            \<or> (\<exists>protect. op = OpPrune protect False \<and> uid \<notin> set protect \<and> sr_lifecycle r = Exited))
          \<and> get_session uid st' = None \<and> run_events uid st' = [] \<and> uid \<in> set (st_deleted_sessions st')"
  proof (cases "copies uid st")
    case Nil
    with store_ok_gone [OF ok] show ?thesis by (simp add: get_session_copies)
  next
    case (Cons r rs)
    note r = copies_named [OF Cons]
    from step_ok [OF ok, of E op] consider "grows st st'" | "erases (may_erase op) st st'" unfolding st'_def by blast
    then show ?thesis
    proof cases
      case 1
      with Cons have "\<exists>new. run_events uid st' = run_events uid st @ new \<and> run_exists uid st'"
        by (simp add: grows_def run_exists_iff)
      with Cons show ?thesis by (simp add: get_session_copies)
    next
      case 2
      then consider (kept) "copies uid st' = copies uid st" "run_events uid st' = run_events uid st"
        | (gone) "may_erase op r" "copies uid st' = []" "run_events uid st' = []" "uid \<in> set (st_deleted_sessions st')"
        using Cons unfolding erases_def by (metis list.inject)
      then show ?thesis
      proof cases
        case kept
        with Cons show ?thesis by (simp add: get_session_copies run_exists_iff)
      next
        case gone
        from gone(1) r have "op = OpDelete uid \<and> (sr_lifecycle r = Exited \<or> sr_tmux_socket r = [])
            \<or> (\<exists>protect. op = OpPrune protect False \<and> uid \<notin> set protect \<and> sr_lifecycle r = Exited)"
          by (cases op) (auto simp: deletable_def)
        with gone Cons show ?thesis
          by (simp add: get_session_copies session_row.defs)
      qed
    qed
  qed
  then show ?thesis by (simp only: Let_def st'_def)
qed

text \<open>No table that is scoped to runs has a row of the run.\<close>

definition unscoped :: "string \<Rightarrow> store \<Rightarrow> bool" where
  "unscoped uid st \<longleftrightarrow> load_cursor uid st = None \<and> list_all (\<lambda>r. lr_session_uid r \<noteq> uid) (st_mutation_ledger st)
     \<and> list_all (\<lambda>r. tr_session_uid r \<noteq> uid) (st_text_mutations st) \<and> list_all (\<lambda>(table, u). u \<noteq> uid) (st_other_scoped st)"

definition leaves_no_trace :: "store \<Rightarrow> store \<Rightarrow> bool" where
  "leaves_no_trace st st' \<longleftrightarrow> (\<forall>u. (unscoped u st \<longrightarrow> unscoped u st')
     \<and> (copies u st \<noteq> [] \<and> copies u st' = [] \<longrightarrow> unscoped u st'))"

lemma no_trace_refl [simp]: "leaves_no_trace st st"
  by (simp add: leaves_no_trace_def)

lemma no_trace_trans: "leaves_no_trace a b \<Longrightarrow> leaves_no_trace b c \<Longrightarrow> leaves_no_trace a c"
  unfolding leaves_no_trace_def by metis

lemma unscoped_bury [simp]: "unscoped u (bury uid q) = unscoped u q" "unscoped u (bury_name n q) = unscoped u q"
  by (simp_all add: unscoped_def) (simp_all add: bury_def bury_name_def)

lemma no_trace_without: "leaves_no_trace st (bury uid (without_run uid st))"
proof -
  have "unscoped u (without_run uid st) \<longleftrightarrow> u = uid \<or> unscoped u st" for u
    by (auto simp: unscoped_def) (auto simp: without_run_def sweep_scoped_def list_all_iff)
  then show ?thesis by (simp add: leaves_no_trace_def)
qed

lemma no_trace_prune:
  "prune_loop protect False cs st = Inr (out, st') \<Longrightarrow> rows_ok st \<Longrightarrow> log_ok st \<Longrightarrow> leaves_no_trace st st'"
proof (induction cs arbitrary: st out)
  case (Cons c cs)
  let ?uid = "sr_session_uid c"
  show ?case
  proof (cases "?uid \<in> set protect")
    case True
    with Cons show ?thesis by simp
  next
    case False
    obtain gone q where d: "delete_runs (\<lambda>q. names_run ?uid q \<and> sr_lifecycle q = Exited) (sweep_scoped ?uid st) = (gone, q)"
      by (cases "delete_runs (\<lambda>q. names_run ?uid q \<and> sr_lifecycle q = Exited) (sweep_scoped ?uid st)")
    with Cons.prems(1) False have one: "gone = 1" by (auto simp: Let_def split: if_splits)
    with Cons.prems(1) False d obtain out' where rest: "prune_loop protect False cs (bury ?uid q) = Inr (out', st')"
      by (auto simp: Let_def split: sum.splits)
    have "length (copies ?uid st) \<le> 1" using Cons.prems(2) by (simp add: rows_ok_def)
    with delete_runs_one [OF d [unfolded one]] obtain r where r: "copies ?uid st = [r]" "q = without_run ?uid st"
      by blast
    from without_run_ok [OF Cons.prems(2,3) r(1), of "\<lambda>_. True"]
    have ok: "rows_ok (bury ?uid q)" "log_ok (bury ?uid q)" by (simp_all add: r(2))
    from no_trace_trans [OF no_trace_without Cons.IH [OF rest ok, unfolded r(2)]] show ?thesis .
  qed
qed simp

lemma gone_is_swept:
  assumes "store_ok st" "copies uid st \<noteq> []" "copies uid (store_step E op st) = []"
  shows "unscoped uid (store_step E op st)"
proof -
  have ok: "rows_ok st" "log_ok st" using assms(1) by (simp_all add: store_ok_def)
  have "leaves_no_trace st (store_step E op st) \<or> copies uid (store_step E op st) \<noteq> []"
  proof (cases op)
    case (OpDelete u)
    have "length (copies u st) \<le> 1" using ok(1) by (simp add: rows_ok_def)
    then show ?thesis
    proof (cases rule: delete_cases)
      case (deleted r)
      have "leaves_no_trace st (bury_name n (bury u (without_run u st)))" for n
        using no_trace_without [of st u] by (simp add: leaves_no_trace_def)
      with no_trace_without deleted(4) show ?thesis by (simp add: OpDelete)
    qed (simp add: OpDelete)
  next
    case (OpPrune protect dry_run)
    then show ?thesis
      using no_trace_prune [OF _ ok, of protect] by (cases dry_run)
        (auto simp: prune_exited_sessions_def split: sum.split prod.split)
  qed (use step_ok [OF assms(1), of E op] assms(2) in \<open>auto simp: grows_def erases_def\<close>)
  with assms(2,3) show ?thesis by (auto simp: leaves_no_trace_def)
qed

text \<open>C29. History only grows. Whatever call is made on a store any calls led to, whatever its other session-scoped
  tables hold, the facts of a run stay in front of what is filed behind them; or the call is a deletion of just that
  run, which had ended or was never hosted here, or a prune that was not a dry one, of a run that had ended and was not
  protected: then the row, every fact, the tail cursor and every row of the run in the ledgers and the other
  session-scoped tables are gone, and the identity stays buried.\<close>
theorem history_only_grows:
  "let st = (store_run E ops empty_store)\<lparr>st_mutation_ledger := ml, st_text_mutations := tm, st_other_scoped := scoped\<rparr>;
       st' = store_step E op st in
   (case get_session uid st of
      None \<Rightarrow> run_events uid st = []
    | Some r \<Rightarrow> (\<exists>new. run_events uid st' = run_events uid st @ new \<and> run_exists uid st')
        \<or> (op = OpDelete uid \<and> (sr_lifecycle r = Exited \<or> sr_tmux_socket r = [])
            \<or> (\<exists>protect. op = OpPrune protect False \<and> uid \<notin> set protect \<and> sr_lifecycle r = Exited))
          \<and> get_session uid st' = None \<and> run_events uid st' = [] \<and> load_cursor uid st' = None
          \<and> list_all (\<lambda>q. lr_session_uid q \<noteq> uid) (st_mutation_ledger st')
          \<and> list_all (\<lambda>q. tr_session_uid q \<noteq> uid) (st_text_mutations st')
          \<and> list_all (\<lambda>(table, u). u \<noteq> uid) (st_other_scoped st')
          \<and> uid \<in> set (st_deleted_sessions st'))"
proof -
  define st where "st = (store_run E ops empty_store)\<lparr>st_mutation_ledger := ml, st_text_mutations := tm, st_other_scoped := scoped\<rparr>"
  define st' where "st' = store_step E op st"
  have "store_ok (q\<lparr>st_mutation_ledger := ml, st_text_mutations := tm, st_other_scoped := scoped\<rparr>) = store_ok q" for q
    by (simp add: store_ok_def rows_ok_def log_ok_def copies_def all_sessions_def numbered_def run_events_def count_events_def
        run_exists_def load_cursor_def)
  then have ok: "store_ok st" using reached_ok by (simp add: st_def)
  have "unscoped uid st'" if "get_session uid st \<noteq> None" "get_session uid st' = None"
    using gone_is_swept [OF ok, where uid = uid and E = E and op = op] that by (simp add: st'_def get_session_copies split: list.splits)
  moreover note one_call_on_a_run [OF ok, where uid = uid and E = E and op = op, unfolded Let_def, folded st'_def]
  ultimately have "case get_session uid st of
      None \<Rightarrow> run_events uid st = []
    | Some r \<Rightarrow> (\<exists>new. run_events uid st' = run_events uid st @ new \<and> run_exists uid st')
        \<or> (op = OpDelete uid \<and> (sr_lifecycle r = Exited \<or> sr_tmux_socket r = [])
            \<or> (\<exists>protect. op = OpPrune protect False \<and> uid \<notin> set protect \<and> sr_lifecycle r = Exited))
          \<and> get_session uid st' = None \<and> run_events uid st' = [] \<and> unscoped uid st'
          \<and> uid \<in> set (st_deleted_sessions st')"
    by (cases "get_session uid st") auto
  then show ?thesis
    unfolding st_def [symmetric] Let_def unscoped_def st'_def [symmetric] conj_assoc .
qed

text \<open>C30. A deleted run does not come back. Once a deletion has answered that it removed a run, whatever is called
  afterwards, registrations and facts of it included, there is no row of it, no fact, and no cursor, and a write of its
  row is answered as buried.\<close>
theorem a_deleted_run_never_comes_back:
  "case delete_exited_session uid (store_run E ops empty_store) of
     (Deleted n, st) \<Rightarrow>
       let st' = store_run E later st in
       get_session uid st' = None \<and> run_events uid st' = [] \<and> load_cursor uid st' = None
       \<and> fst (upsert_session (row\<lparr>sr_session_uid := uid\<rparr>) st') = Inr Tombstoned
   | _ \<Rightarrow> True"
proof -
  define st where "st = store_run E ops empty_store"
  have ok: "store_ok st" unfolding st_def by (rule reached_ok)
  obtain out d where d: "delete_exited_session uid st = (out, d)" by (cases "delete_exited_session uid st")
  show ?thesis
  proof (cases "\<exists>n. out = Deleted n")
    case False
    with d show ?thesis by (cases out) (simp_all add: st_def)
  next
    case True
    have one: "length (copies uid st) \<le> 1" using ok by (simp add: store_ok_def rows_ok_def)
    obtain n where n: "out = Deleted n" using True by blast
    have ok': "store_ok d"
      using step_ok [OF ok, of E "OpDelete uid"] by (simp add: d)
    have "uid \<in> set (st_deleted_sessions d)"
      by (rule delete_cases [OF one]) (auto simp: d n split: if_splits)
    then have gone: "uid \<in> set (st_deleted_sessions (store_run E later d))" by (rule buried_stays [OF ok'])
    note none = buried_copies [OF run_ok [OF ok'] gone]
    obtain table other where t: "session_tables_for (sr_agent row) = (table, other)" by (cases "session_tables_for (sr_agent row)")
    have "fst (upsert_session (row\<lparr>sr_session_uid := uid\<rparr>) (store_run E later d)) = Inr Tombstoned"
      using gone t by (simp add: upsert_session_def upsert_session_at_generation_def carry_row_def)
    with store_ok_gone [OF run_ok [OF ok'] none] none d n show ?thesis
      by (simp add: st_def Let_def get_session_copies)
  qed
qed

end
