(* ===== verification/Ccd_Delivery.thy ===== *)
theory Ccd_Delivery
  imports Ccd_Store
begin

text \<open>
  What a phone's connection is sent of the logs it follows (\<open>ccd/src/ws_server.rs\<close>): live facts from the broadcast, the
  backlog paged out of the store, and earlier pages it asks for.

  A run is any interleaving of the connection's own passes, the messages it handles, the calls of other tasks on the
  store and the publication of what they filed. Filing and publishing happen under the run's publish gate
  (\<open>Daemon::ingest\<close>, \<open>Daemon::ingest_scan\<close>, \<open>ccd/src/state.rs\<close>), so the next fact of a run is filed only when the one
  before is published; between the two anything else may happen, and a task that is aborted there leaves its facts
  filed and never published (\<open>Abandon\<close>).

  The socket takes what it is sent: a failed send ends the connection. Reads of the store do not fail. What names a run
  (\<open>Daemon::resolve\<close>) and whether a deletion went through are arguments, and the facts that are filed are those
  \<open>truncate_payload\<close> leaves. What filing tells the push gate and the daemon's own view of a session, authentication,
  revocation, terminals and the other messages are left out: none of them touches what is modelled, except by
  ending the connection.
\<close>

section \<open>The daemon's side\<close>

definition REPLAY_PAGE :: nat where "REPLAY_PAGE = 500"

definition MAX_HISTORY_PAGE :: nat where "MAX_HISTORY_PAGE = 500"

record hub =
  hb_store :: store
  hb_publishing :: "(string, event list) hash"

text \<open>The run's gate is free when nothing filed under it waits to be published.\<close>

definition gate_free :: "string \<Rightarrow> hub \<Rightarrow> bool" where
  "gate_free uid h \<longleftrightarrow> (case hget (hb_publishing h) uid of None \<Rightarrow> True | Some es \<Rightarrow> es = [])"

definition ingest_fact :: "ext \<Rightarrow> pending_event \<Rightarrow> hub \<Rightarrow> hub" where
  "ingest_fact E p h =
     (if \<not> gate_free (pe_session_uid p) h then h
      else (case append_event E p (hb_store h) of
          (Inr (Some e), st) \<Rightarrow> h\<lparr>hb_store := st, hb_publishing := hput (pe_session_uid p) [e] (hb_publishing h)\<rparr>
        | (other, st) \<Rightarrow> h\<lparr>hb_store := st\<rparr>))"

text \<open>A scan's facts are of the run whose transcript is scanned.\<close>

definition ingest_scan :: "ext \<Rightarrow> string \<Rightarrow> pending_event list \<Rightarrow> tail_cursor \<Rightarrow> hub \<Rightarrow> hub" where
  "ingest_scan E uid ps c h =
     (if \<not> gate_free uid h \<or> \<not> list_all (\<lambda>p. pe_session_uid p = uid) ps then h
      else (case append_batch_with_cursor E uid ps c (hb_store h) of
          (Inr es, st) \<Rightarrow> h\<lparr>hb_store := st, hb_publishing := hput uid es (hb_publishing h)\<rparr>
        | (Inl e, st) \<Rightarrow> h\<lparr>hb_store := st\<rparr>))"

section \<open>The connection\<close>

record history_request =
  hq_session_id :: string
  hq_session_uid :: string
  hq_before_seq :: nat
  hq_limit :: nat
  hq_request_id :: string
  hq_page :: "event list option"
  hq_first_seq :: nat
  hq_error :: "string option"

definition history_request_new :: "string \<Rightarrow> string + string \<Rightarrow> nat \<Rightarrow> nat \<Rightarrow> string \<Rightarrow> history_request" where
  "history_request_new session_id session_uid before_seq limit request_id =
     (case (case session_uid of Inr uid \<Rightarrow> (uid, None) | Inl e \<Rightarrow> ([], Some e)) of (uid, e) \<Rightarrow>
       \<lparr>hq_session_id = session_id, hq_session_uid = uid, hq_before_seq = before_seq, hq_limit = limit,
        hq_request_id = request_id, hq_page = None, hq_first_seq = before_seq, hq_error = e\<rparr>)"

datatype sent =
    SentEvent event
  | SentMarker event
  | SentPageEvent string event
  | SentHistoryEnd string string nat nat "string option"
  | SentError string

record ws_conn =
  wc_events :: "event list"
  wc_watermarks :: "(string, nat) hash"
  wc_sessions :: "string list"
  wc_page :: "event list"
  wc_history :: "history_request list"
  wc_sent :: "sent list"

definition fresh_conn :: ws_conn where
  "fresh_conn = \<lparr>wc_events = [], wc_watermarks = [], wc_sessions = [], wc_page = [], wc_history = [], wc_sent = []\<rparr>"

definition send_out :: "sent \<Rightarrow> ws_conn \<Rightarrow> ws_conn" where
  "send_out m c = c\<lparr>wc_sent := wc_sent c @ [m]\<rparr>"

datatype live = LiveDeliver | LiveAlreadySent | LiveGap

text \<open>\<open>u64\<close> addition, as a build without overflow checks does it.\<close>

definition after_mark :: "nat \<Rightarrow> nat" where
  "after_mark watermark = (watermark + 1) mod 2 ^ 64"

definition live_delivery :: "nat \<Rightarrow> nat \<Rightarrow> live" where
  "live_delivery seq watermark =
     (if seq = after_mark watermark then LiveDeliver else if seq < after_mark watermark then LiveAlreadySent else LiveGap)"

definition marker :: "string \<Rightarrow> string \<Rightarrow> json \<Rightarrow> event" where
  "marker session_uid session_id payload =
     \<lparr>ev_seq = 0, ev_session_uid = session_uid, ev_session_id = session_id, ev_kind = Resync, ev_payload = payload,
      ev_source = DaemonSource, ev_source_event_id = None, ev_turn_id = None, ev_item_id = None\<rparr>"

definition resync_marker :: "string \<Rightarrow> string \<Rightarrow> nat \<Rightarrow> event" where
  "resync_marker session_uid session_id skipped = marker session_uid session_id
     (json_obj [(''skipped'', JInt (int skipped)),
       (''reason'', JStr ''client fell behind the live stream; the log is being replayed'')])"

definition gap_marker :: "event \<Rightarrow> nat \<Rightarrow> event" where
  "gap_marker e watermark = marker (ev_session_uid e) (ev_session_id e)
     (json_obj [(''skipped'', JInt (int (ev_seq e - after_mark watermark))),
       (''expected_seq'', JInt (int (after_mark watermark))), (''received_seq'', JInt (int (ev_seq e))),
       (''reason'', JStr (''an event arrived out of order; the log is being replayed from the last ''
          @ ''sequence this connection actually received''))])"

section \<open>The backlog\<close>

definition replaying :: "string \<Rightarrow> ws_conn \<Rightarrow> bool" where
  "replaying uid c \<longleftrightarrow> uid \<in> set (wc_sessions c)"

definition front_is :: "string \<Rightarrow> ws_conn \<Rightarrow> bool" where
  "front_is uid c = (case wc_sessions c of [] \<Rightarrow> False | s # rest \<Rightarrow> s = uid)"

definition backlog_begin :: "string \<Rightarrow> ws_conn \<Rightarrow> ws_conn" where
  "backlog_begin uid c = (if front_is uid c then c\<lparr>wc_page := []\<rparr>
     else if \<not> replaying uid c then c\<lparr>wc_sessions := wc_sessions c @ [uid]\<rparr> else c)"

definition backlog_drop_session :: "string \<Rightarrow> ws_conn \<Rightarrow> ws_conn" where
  "backlog_drop_session uid c =
     (let c = (if front_is uid c then c\<lparr>wc_page := []\<rparr> else c)
      in c\<lparr>wc_sessions := filter (\<lambda>s. s \<noteq> uid) (wc_sessions c)\<rparr>)"

definition backlog_step :: "ext \<Rightarrow> store \<Rightarrow> ws_conn \<Rightarrow> ws_conn" where
  "backlog_step E st c = (case wc_sessions c of
     [] \<Rightarrow> c
   | uid # rest \<Rightarrow> (case hget (wc_watermarks c) uid of
       None \<Rightarrow> c\<lparr>wc_page := [], wc_sessions := rest\<rparr>
     | Some watermark \<Rightarrow> (case wc_page c of
         e # es \<Rightarrow>
           let c = c\<lparr>wc_page := es\<rparr> in
           if ev_seq e > watermark
           then (send_out (SentEvent e) c)\<lparr>wc_watermarks := hput uid (ev_seq e) (wc_watermarks c)\<rparr> else c
       | [] \<Rightarrow>
           let page = events_after E uid watermark REPLAY_PAGE st in
           if page = [] then c\<lparr>wc_sessions := rest\<rparr> else c\<lparr>wc_page := page\<rparr>)))"

section \<open>Earlier pages\<close>

definition SESSION_REMOVED :: string where
  "SESSION_REMOVED = ''the session was removed while this page was being sent''"

definition history_drop_session :: "string \<Rightarrow> ws_conn \<Rightarrow> ws_conn" where
  "history_drop_session uid c = c\<lparr>wc_history := map (\<lambda>r. if hq_session_uid r = uid \<and> hq_error r = None
     then r\<lparr>hq_page := None, hq_error := Some SESSION_REMOVED\<rparr> else r) (wc_history c)\<rparr>"

definition history_end :: "history_request \<Rightarrow> sent" where
  "history_end r = SentHistoryEnd (hq_session_id r) (hq_request_id r) (hq_before_seq r) (hq_first_seq r) (hq_error r)"

definition history_step :: "ext \<Rightarrow> store \<Rightarrow> ws_conn \<Rightarrow> ws_conn" where
  "history_step E st c = (case wc_history c of
     [] \<Rightarrow> c
   | r # rest \<Rightarrow>
       if hq_error r = None \<and> (case hq_page r of Some (e # es) \<Rightarrow> True | _ \<Rightarrow> False) then
         (case hq_page r of
            Some (e # es) \<Rightarrow> send_out (SentPageEvent (hq_request_id r) e)
              (c\<lparr>wc_history := r\<lparr>hq_page := Some es, hq_first_seq := min (hq_first_seq r) (ev_seq e)\<rparr> # rest\<rparr>)
          | _ \<Rightarrow> c)
       else
         let r = (if hq_error r = None \<and> get_session (hq_session_uid r) st = None then r\<lparr>hq_error := Some SESSION_REMOVED\<rparr> else r)
         in if hq_error r = None \<and> hq_page r = None
            then c\<lparr>wc_history := r\<lparr>hq_page := Some (events_before E (hq_session_uid r) (hq_before_seq r) (hq_limit r) st)\<rparr> # rest\<rparr>
            else send_out (history_end r) (c\<lparr>wc_history := rest\<rparr>))"

section \<open>Messages and broadcasts\<close>

definition on_subscribe :: "string + string \<Rightarrow> nat \<Rightarrow> ws_conn \<Rightarrow> ws_conn" where
  "on_subscribe resolved after_seq c = (case resolved of
     Inr uid \<Rightarrow> backlog_begin uid (c\<lparr>wc_watermarks := hput uid after_seq (wc_watermarks c)\<rparr>)
   | Inl e \<Rightarrow> send_out (SentError e) c)"

definition on_unsubscribe :: "string \<Rightarrow> string + string \<Rightarrow> ws_conn \<Rightarrow> ws_conn" where
  "on_unsubscribe session_id resolved c =
     (let c = (case resolved of Inr uid \<Rightarrow> c\<lparr>wc_watermarks := hdel uid (wc_watermarks c)\<rparr> | Inl e \<Rightarrow> c)
      in c\<lparr>wc_watermarks := hdel session_id (wc_watermarks c)\<rparr>)"

definition on_history :: "string \<Rightarrow> string + string \<Rightarrow> nat \<Rightarrow> nat \<Rightarrow> string \<Rightarrow> ws_conn \<Rightarrow> ws_conn" where
  "on_history session_id resolved before_seq limit request_id c = c\<lparr>wc_history := wc_history c
     @ [history_request_new session_id resolved before_seq (min limit MAX_HISTORY_PAGE) request_id]\<rparr>"

text \<open>The answer to a deletion; \<open>gone\<close> when the run was removed or is not there.\<close>

definition on_delete_answered :: "string \<Rightarrow> bool \<Rightarrow> ws_conn \<Rightarrow> ws_conn" where
  "on_delete_answered uid gone c =
     (if gone then history_drop_session uid (backlog_drop_session uid (c\<lparr>wc_watermarks := hdel uid (wc_watermarks c)\<rparr>))
      else c)"

definition on_live_event :: "event \<Rightarrow> ws_conn \<Rightarrow> ws_conn" where
  "on_live_event e c = (case hget (wc_watermarks c) (ev_session_uid e) of
     None \<Rightarrow> c
   | Some watermark \<Rightarrow> (case live_delivery (ev_seq e) watermark of
       LiveDeliver \<Rightarrow> (send_out (SentEvent e) c)\<lparr>wc_watermarks := hput (ev_session_uid e) (ev_seq e) (wc_watermarks c)\<rparr>
     | LiveAlreadySent \<Rightarrow> c
     | LiveGap \<Rightarrow> if replaying (ev_session_uid e) c then c
         else backlog_begin (ev_session_uid e) (send_out (SentMarker (gap_marker e watermark)) c)))"

definition resync_one :: "store \<Rightarrow> nat \<Rightarrow> string \<Rightarrow> ws_conn \<Rightarrow> ws_conn" where
  "resync_one st skipped uid c = backlog_begin uid (send_out (SentMarker (resync_marker uid
     (case get_session uid st of None \<Rightarrow> [] | Some r \<Rightarrow> sr_session_id r) skipped)) c)"

text \<open>
  \<open>events.recv()\<close>: a receiver more than the ring's capacity behind is told how many it lost, and goes on with the
  oldest the ring still holds.
\<close>

definition receive :: "nat \<Rightarrow> store \<Rightarrow> ws_conn \<Rightarrow> ws_conn" where
  "receive capacity st c =
     (if length (wc_events c) > capacity then
        let skipped = length (wc_events c) - capacity in
        fold (resync_one st skipped) (map fst (wc_watermarks c)) (c\<lparr>wc_events := drop skipped (wc_events c)\<rparr>)
      else (case wc_events c of [] \<Rightarrow> c | e # es \<Rightarrow> on_live_event e (c\<lparr>wc_events := es\<rparr>)))"

section \<open>The whole\<close>

datatype ws_action =
    Ingest pending_event
  | Scan string "pending_event list" tail_cursor
  | Publish string
  | Abandon string
  | StoreCall store_op
  | Subscribe "string + string" nat
  | Unsubscribe string "string + string"
  | AskHistory string "string + string" nat nat string
  | DeleteAnswered string bool
  | ReplayPass
  | HistoryPass
  | Receive

text \<open>What files goes through the gate. An \<open>after_seq\<close> is a \<open>u64\<close>.\<close>

fun files_facts :: "store_op \<Rightarrow> bool" where
  "files_facts (OpAppend p) = True"
| "files_facts (OpAppendBatch ps) = True"
| "files_facts (OpAppendScan uid ps c) = True"
| "files_facts op = False"

fun ws_step :: "ext \<Rightarrow> nat \<Rightarrow> ws_action \<Rightarrow> hub \<times> ws_conn \<Rightarrow> hub \<times> ws_conn" where
  "ws_step E capacity (Ingest p) (h, c) = (ingest_fact E p h, c)"
| "ws_step E capacity (Scan uid ps cur) (h, c) = (ingest_scan E uid ps cur h, c)"
| "ws_step E capacity (Publish uid) (h, c) = (case hget (hb_publishing h) uid of
     Some (e # es) \<Rightarrow> (h\<lparr>hb_publishing := hput uid es (hb_publishing h)\<rparr>, c\<lparr>wc_events := wc_events c @ [e]\<rparr>)
   | _ \<Rightarrow> (h, c))"
| "ws_step E capacity (Abandon uid) (h, c) = (h\<lparr>hb_publishing := hput uid [] (hb_publishing h)\<rparr>, c)"
| "ws_step E capacity (StoreCall op) (h, c) = (if files_facts op then (h, c) else (h\<lparr>hb_store := store_step E op (hb_store h)\<rparr>, c))"
| "ws_step E capacity (Subscribe resolved after_seq) (h, c) = (h, on_subscribe resolved (after_seq mod 2 ^ 64) c)"
| "ws_step E capacity (Unsubscribe session_id resolved) (h, c) = (h, on_unsubscribe session_id resolved c)"
| "ws_step E capacity (AskHistory session_id resolved before_seq limit request_id) (h, c)
     = (h, on_history session_id resolved before_seq limit request_id c)"
| "ws_step E capacity (DeleteAnswered uid gone) (h, c) = (h, on_delete_answered uid gone c)"
| "ws_step E capacity ReplayPass (h, c) = (h, backlog_step E (hb_store h) c)"
| "ws_step E capacity HistoryPass (h, c) = (h, history_step E (hb_store h) c)"
| "ws_step E capacity Receive (h, c) = (h, receive capacity (hb_store h) c)"

text \<open>A connection of a daemon whose store was reached by \<open>ops\<close>, nothing being published as it subscribes.\<close>

definition ws_start :: "ext \<Rightarrow> store_op list \<Rightarrow> hub \<times> ws_conn" where
  "ws_start E ops = (\<lparr>hb_store = store_run E ops empty_store, hb_publishing = []\<rparr>, fresh_conn)"

definition ws_run :: "ext \<Rightarrow> nat \<Rightarrow> ws_action list \<Rightarrow> hub \<times> ws_conn \<Rightarrow> hub \<times> ws_conn" where
  "ws_run E capacity steps s = fold (ws_step E capacity) steps s"

end
