(* ===== verification/Ccd_Delivery_Props.thy ===== *)
theory Ccd_Delivery_Props
  imports Ccd_Delivery Ccd_Store_Props
begin

text \<open>
  A phone is sent the log: every fact once and in order, from the mark it subscribed at. What is kept by every step of a
  connection: its store's own invariant, the page it holds is of the run it replays and has no gap, no mark passes a
  \<open>u64\<close>, and whatever waits anywhere to be sent is filed.
\<close>

section \<open>Pages\<close>

definition low_mark :: "nat \<Rightarrow> nat" where
  "low_mark w = (if w < 2 ^ 63 then w else w - 2 ^ 64)"

lemma sorted_run: "store_ok st \<Longrightarrow> sorted (map er_seq (run_events uid st))"
  by (simp add: store_ok_def log_ok_def numbered_def del: upt_Suc)

lemma seq_nth: "store_ok st \<Longrightarrow> i < count_events uid st \<Longrightarrow> er_seq (run_events uid st ! i) = i + 1"
proof -
  assume "store_ok st" "i < count_events uid st"
  then have "map er_seq (run_events uid st) ! i = [1..<Suc (count_events uid st)] ! i"
    by (simp add: store_ok_def log_ok_def numbered_def del: upt_Suc)
  with \<open>i < count_events uid st\<close> show ?thesis by (simp add: count_events_def del: upt_Suc)
qed

lemma seqs_drop: "store_ok st \<Longrightarrow> map er_seq (drop k (run_events uid st)) = [Suc k..<Suc (count_events uid st)]"
proof -
  assume "store_ok st"
  then have "map er_seq (run_events uid st) = [1..<Suc (count_events uid st)]"
    by (simp add: store_ok_def log_ok_def numbered_def del: upt_Suc)
  then have "drop k (map er_seq (run_events uid st)) = drop k [1..<Suc (count_events uid st)]" by simp
  then show ?thesis by (simp add: drop_map del: upt_Suc)
qed

lemma rows_after: "store_ok st \<Longrightarrow> filter (\<lambda>r. int k < int (er_seq r)) (run_events uid st) = drop k (run_events uid st)"
proof -
  assume ok: "store_ok st"
  let ?rs = "run_events uid st"
  have "filter (\<lambda>r. k < er_seq r) ?rs = filter (\<lambda>r. k < er_seq r) (take k ?rs) @ filter (\<lambda>r. k < er_seq r) (drop k ?rs)"
    by (metis append_take_drop_id filter_append)
  moreover have "filter (\<lambda>r. k < er_seq r) (take k ?rs) = []"
    using seq_nth [OF ok] by (auto simp: filter_empty_conv in_set_conv_nth count_events_def)
  moreover have "filter (\<lambda>r. k < er_seq r) (drop k ?rs) = drop k ?rs"
    using seq_nth [OF ok] by (auto simp: filter_id_conv in_set_conv_nth count_events_def)
  ultimately show ?thesis by simp
qed

lemma events_after_eq:
  assumes "store_ok st" "w < 2 ^ 64"
  shows "events_after E uid w n st = map (event_from_row E uid) (take n (drop (low_mark w) (run_events uid st)))"
proof -
  have "filter (\<lambda>r. as_i64_of w < int (er_seq r)) (run_events uid st) = drop (low_mark w) (run_events uid st)"
  proof (cases "w < 2 ^ 63")
    case True
    then show ?thesis using rows_after [OF assms(1), of w uid] by (simp add: as_i64_of_def low_mark_def)
  next
    case False
    with assms(2) have "as_i64_of w < 0" "low_mark w = 0" by (simp_all add: as_i64_of_def low_mark_def)
    then show ?thesis by (auto simp: filter_id_conv)
  qed
  moreover have "sort_key er_seq (drop k rs) = drop k rs" if "sorted (map er_seq rs)" for k and rs :: "event_row list"
    using that by (intro sort_key_id_if_sorted) (simp add: drop_map [symmetric] sorted_wrt_drop)
  ultimately show ?thesis
    using sorted_run [OF assms(1), of uid] by (simp add: events_after_def)
qed

lemma take_upt_len: "take n [a..<b] = [a..<a + length (take n [a..<b])]"
proof (cases "a + n \<le> b")
  case False
  then show ?thesis by (cases "a \<le> b") simp_all
qed simp

lemma page_seqs:
  assumes "store_ok st" "w < 2 ^ 64"
  shows "map ev_seq (events_after E uid w n st) = take n [Suc (low_mark w)..<Suc (count_events uid st)]"
  using seqs_drop [OF assms(1), of "low_mark w" uid]
  by (simp add: events_after_eq [OF assms] event_from_row_def o_def take_map [symmetric] del: upt_Suc)

section \<open>What is sent is filed\<close>

text \<open>A fact is the one filed in a row: column for column, its kind and its source as they are spelled in storage; its
  payload is the one that was written there, or what reads back of it (null when nothing does).\<close>

definition same_fact :: "ext \<Rightarrow> event \<Rightarrow> event_row \<Rightarrow> bool" where
  "same_fact E e r \<longleftrightarrow> ev_seq e = er_seq r \<and> ev_session_uid e = er_session_uid r \<and> ev_session_id e = er_session_id r
     \<and> kind_str (ev_kind e) = er_kind r \<and> source_str (ev_source e) = er_source r
     \<and> (json_write E (ev_payload e) = er_payload r
        \<or> ev_payload e = (case from_str E (er_payload r) of None \<Rightarrow> JNull | Some v \<Rightarrow> v))
     \<and> ev_source_event_id e = er_source_event_id r \<and> ev_turn_id e = er_turn_id r \<and> ev_item_id e = er_item_id r"

lemma kind_text_kept: "kind_str (kind_of_str s) = s"
  by (auto simp: kind_of_str_def kind_str_def split: if_splits)

definition is_filed :: "ext \<Rightarrow> store \<Rightarrow> event \<Rightarrow> bool" where
  "is_filed E st e \<longleftrightarrow> 0 < ev_seq e \<and> ev_seq e < 2 ^ 63 \<and>
     (ev_session_uid e \<in> set (st_deleted_sessions st)
      \<or> (let rs = run_events (ev_session_uid e) st in ev_seq e \<le> length rs \<and> same_fact E e (rs ! (ev_seq e - 1))))"

lemma is_filed_step:
  assumes "store_ok st" "is_filed E st e" "grows st st' \<or> erases P st st'"
  shows "is_filed E st' e"
proof (cases "ev_session_uid e \<in> set (st_deleted_sessions st)")
  case True
  with assms(2,3) show ?thesis by (auto simp: is_filed_def grows_def erases_def)
next
  case False
  let ?u = "ev_session_uid e"
  from False assms(2) have rs: "0 < ev_seq e" "ev_seq e < 2 ^ 63" "ev_seq e \<le> length (run_events ?u st)" "same_fact E e (run_events ?u st ! (ev_seq e - 1))"
    by (simp_all add: is_filed_def Let_def)
  from assms(3) show ?thesis
  proof
    assume "grows st st'"
    then obtain new where "run_events ?u st' = run_events ?u st @ new" by (auto simp: grows_def)
    moreover have "ev_seq e - 1 < length (run_events ?u st)" using rs(1,3) by linarith
    ultimately show ?thesis using rs by (simp add: is_filed_def Let_def nth_append)
  next
    assume "erases P st st'"
    then have "run_events ?u st' = run_events ?u st \<or> ?u \<in> set (st_deleted_sessions st')"
      by (auto simp: erases_def)
    with rs show ?thesis by (auto simp: is_filed_def Let_def)
  qed
qed

lemma page_filed:
  assumes "store_ok st" "w < 2 ^ 64" "e \<in> set (events_after E uid w n st)"
  shows "is_filed E st e \<and> ev_session_uid e = uid"
proof -
  from assms(3) obtain r where r: "r \<in> set (run_events uid st)" "e = event_from_row E uid r"
    by (auto simp: events_after_eq [OF assms(1,2)] dest: in_set_takeD in_set_dropD)
  then obtain i where i: "i < length (run_events uid st)" "r = run_events uid st ! i" by (auto simp: in_set_conv_nth)
  have "er_session_uid r = uid" using r(1) by (simp add: run_events_def)
  moreover have "count_events uid st < 2 ^ 63" using assms(1) by (simp add: store_ok_def log_ok_def numbered_def)
  moreover have "source_str (parse_source (er_source r)) = er_source r"
    using assms(1) r(1) by (simp add: store_ok_def log_ok_def list_all_iff run_events_def source_reads_back_def)
  ultimately show ?thesis
    using i r kind_text_kept [of "er_kind r"] seq_nth [OF assms(1), of i uid]
    by (simp add: is_filed_def same_fact_def event_from_row_def count_events_def)
qed

text \<open>What is filed and about to be published is the log's last rows.\<close>

lemma append_filed:
  assumes "store_ok st" "append_in_tx E p st = Inr (Some e, st')"
  shows "is_filed E st' e" "ev_session_uid e = pe_session_uid p" "ev_seq e = Suc (count_events (pe_session_uid p) st)"
    "run_events (pe_session_uid p) st' \<noteq> []" "count_events (pe_session_uid p) st' = Suc (count_events (pe_session_uid p) st)"
    "u \<noteq> pe_session_uid p \<Longrightarrow> run_events u st' = run_events u st"
proof -
  have "numbered st" using assms(1) by (simp add: store_ok_def log_ok_def)
  note m = max_seq_numbered [OF this]
  have "is_filed E st' e \<and> ev_session_uid e = pe_session_uid p \<and> ev_seq e = Suc (count_events (pe_session_uid p) st)
    \<and> count_events (pe_session_uid p) st' = Suc (count_events (pe_session_uid p) st)
    \<and> (u \<noteq> pe_session_uid p \<longrightarrow> run_events u st' = run_events u st)"
    using assms(2)
  proof (cases rule: append_cases)
    case (filed r e')
    have ev: "run_events u st' = run_events u st @ filter (\<lambda>r. er_session_uid r = u) [r]" for u
      unfolding filed(1) by (rule run_events_append)
    with filed m show ?thesis
      by (simp add: is_filed_def Let_def same_fact_def nth_append count_events_def)
  qed simp
  then show "is_filed E st' e" "ev_session_uid e = pe_session_uid p" "ev_seq e = Suc (count_events (pe_session_uid p) st)"
    "run_events (pe_session_uid p) st' \<noteq> []" "count_events (pe_session_uid p) st' = Suc (count_events (pe_session_uid p) st)"
    "u \<noteq> pe_session_uid p \<Longrightarrow> run_events u st' = run_events u st"
    by (auto simp: count_events_def)
qed

lemma append_all_filed:
  "append_all E ps st = Inr (out, st') \<Longrightarrow> store_ok st \<Longrightarrow> list_all (\<lambda>p. pe_session_uid p = uid) ps \<Longrightarrow>
   list_all (\<lambda>e. is_filed E st' e \<and> ev_session_uid e = uid) out
   \<and> map ev_seq out = [Suc (count_events uid st)..<Suc (count_events uid st')]
   \<and> count_events uid st \<le> count_events uid st' \<and> (\<forall>u. u \<noteq> uid \<longrightarrow> run_events u st' = run_events u st)
   \<and> store_ok st' \<and> grows st st'"
proof (induction ps arbitrary: st out)
  case Nil
  then show ?case by (simp add: grows_def)
next
  case (Cons p ps)
  from Cons.prems(1) obtain ev q out' where q: "append_in_tx E p st = Inr (ev, q)" "append_all E ps q = Inr (out', st')"
      "out = (case ev of None \<Rightarrow> [] | Some e \<Rightarrow> [e]) @ out'"
    by (auto split: sum.splits)
  have ok: "rows_ok st" "log_ok st" using Cons.prems(2) by (simp_all add: store_ok_def)
  from append_extends [OF q(1) ok(2)] extends_grows [OF _ ok(1)] have okq: "store_ok q" "grows st q"
    by (auto simp: store_ok_def)
  note rest = Cons.IH [OF q(2) okq(1)]
  have p: "pe_session_uid p = uid" "list_all (\<lambda>p. pe_session_uid p = uid) ps" using Cons.prems(3) by simp_all
  note rest = rest [OF p(2)]
  have grows: "grows st st'" using okq(2) rest by (auto simp: grows_def) (metis append_assoc)
  show ?case
  proof (cases ev)
    case None
    with q(1) have "q = st" by (auto elim: append_cases)
    with rest q(3) None show ?thesis by simp
  next
    case (Some e)
    note f = append_filed [OF Cons.prems(2) q(1) [unfolded Some], unfolded p]
    have "is_filed E st' e" by (rule is_filed_step [OF okq(1) f(1)]) (use rest in blast)
    with rest f(2,3,5,6) grows show ?thesis
      by (auto simp: q(3) Some upt_rec [of "Suc (count_events uid st)"] simp del: upt_Suc)
  qed
qed

section \<open>A connection's invariant\<close>

definition publishing_of :: "string \<Rightarrow> hub \<Rightarrow> event list" where
  "publishing_of uid h = (case hget (hb_publishing h) uid of None \<Rightarrow> [] | Some es \<Rightarrow> es)"

text \<open>The page is of the front run, without a gap, and begins at most one past what the front was sent.\<close>

fun page_fits :: "string list \<Rightarrow> (string, nat) hash \<Rightarrow> event list \<Rightarrow> bool" where
  "page_fits [] ws es = (es = [])"
| "page_fits (uid # rest) ws es = (list_all (\<lambda>e. ev_session_uid e = uid) es
     \<and> (\<exists>a. map ev_seq es = [a..<a + length es]
        \<and> (case hget ws uid of None \<Rightarrow> True | Some w \<Rightarrow> es = [] \<or> a \<le> w + 1)))"

definition page_ok :: "ws_conn \<Rightarrow> bool" where
  "page_ok c = page_fits (wc_sessions c) (wc_watermarks c) (wc_page c)"

lemma page_fits_Nil [simp]: "page_fits ss ws []"
  by (cases ss) (simp_all split: option.split)

definition sent_events :: "ws_conn \<Rightarrow> event list" where
  "sent_events c = List.map_filter (\<lambda>m. case m of SentEvent e \<Rightarrow> Some e | _ \<Rightarrow> None) (wc_sent c)"

definition marks_ok :: "ws_conn \<Rightarrow> bool" where
  "marks_ok c \<longleftrightarrow> (\<forall>uid. case hget (wc_watermarks c) uid of None \<Rightarrow> True | Some w \<Rightarrow> w < 2 ^ 64)"

definition facts_filed :: "ext \<Rightarrow> hub \<times> ws_conn \<Rightarrow> bool" where
  "facts_filed E s \<longleftrightarrow> (case s of (h, c) \<Rightarrow>
     list_all (is_filed E (hb_store h)) (wc_events c @ wc_page c @ sent_events c)
     \<and> (\<forall>uid. list_all (\<lambda>e. is_filed E (hb_store h) e \<and> ev_session_uid e = uid) (publishing_of uid h)))"

definition delivery_ok :: "ext \<Rightarrow> hub \<times> ws_conn \<Rightarrow> bool" where
  "delivery_ok E s \<longleftrightarrow> store_ok (hb_store (fst s)) \<and> page_ok (snd s) \<and> marks_ok (snd s) \<and> facts_filed E s"

text \<open>What queueing a replay leaves alone.\<close>

lemma begin_same [simp]:
  "wc_watermarks (backlog_begin uid c) = wc_watermarks c" "wc_events (backlog_begin uid c) = wc_events c"
  "wc_sent (backlog_begin uid c) = wc_sent c" "wc_history (backlog_begin uid c) = wc_history c"
  "sent_events (backlog_begin uid c) = sent_events c"
  by (simp_all add: backlog_begin_def sent_events_def)

lemma begin_page: "wc_page (backlog_begin uid c) = wc_page c \<or> wc_page (backlog_begin uid c) = []"
  by (simp add: backlog_begin_def)

lemma begin_replays: "replaying u (backlog_begin uid c) \<longleftrightarrow> u = uid \<or> replaying u c"
  by (auto simp: backlog_begin_def replaying_def front_is_def split: list.splits)

lemma begin_page_ok: "page_ok c \<Longrightarrow> page_ok (backlog_begin uid c)"
  by (cases "wc_sessions c") (auto simp: page_ok_def backlog_begin_def front_is_def replaying_def)

lemma send_same [simp]:
  "wc_watermarks (send_out m c) = wc_watermarks c" "wc_events (send_out m c) = wc_events c" "wc_page (send_out m c) = wc_page c"
  "wc_sessions (send_out m c) = wc_sessions c" "wc_history (send_out m c) = wc_history c"
  "replaying u (send_out m c) = replaying u c" "page_ok (send_out m c) = page_ok c" "marks_ok (send_out m c) = marks_ok c"
  "sent_events (send_out m c) = sent_events c @ (case m of SentEvent e \<Rightarrow> [e] | _ \<Rightarrow> [])"
  by (simp_all add: send_out_def replaying_def page_ok_def marks_ok_def sent_events_def List.map_filter_simps split: sent.split)

lemma sent_events_other [simp]:
  "sent_events (c\<lparr>wc_page := p\<rparr>) = sent_events c" "sent_events (c\<lparr>wc_sessions := ss\<rparr>) = sent_events c"
  "sent_events (c\<lparr>wc_watermarks := ws\<rparr>) = sent_events c" "sent_events (c\<lparr>wc_history := hs\<rparr>) = sent_events c"
  "sent_events (c\<lparr>wc_events := es\<rparr>) = sent_events c"
  by (simp_all add: sent_events_def)

lemma page_ok_other [simp]:
  "page_ok (c\<lparr>wc_events := es\<rparr>) = page_ok c" "page_ok (c\<lparr>wc_history := hs\<rparr>) = page_ok c"
  "marks_ok (c\<lparr>wc_events := es\<rparr>) = marks_ok c" "marks_ok (c\<lparr>wc_history := hs\<rparr>) = marks_ok c"
  "marks_ok (c\<lparr>wc_page := p\<rparr>) = marks_ok c" "marks_ok (c\<lparr>wc_sessions := ss\<rparr>) = marks_ok c"
  by (simp_all add: page_ok_def marks_ok_def)

text \<open>What a pass does for one run: nothing, or the one fact behind the mark is sent and the mark is moved to it.\<close>

definition moves :: "string \<Rightarrow> ws_conn \<Rightarrow> ws_conn \<Rightarrow> bool" where
  "moves uid c c' \<longleftrightarrow>
     (hget (wc_watermarks c') uid = hget (wc_watermarks c) uid
      \<and> filter (\<lambda>e. ev_session_uid e = uid) (sent_events c') = filter (\<lambda>e. ev_session_uid e = uid) (sent_events c))
     \<or> (\<exists>w e. hget (wc_watermarks c) uid = Some w \<and> ev_session_uid e = uid \<and> ev_seq e = w + 1
         \<and> hget (wc_watermarks c') uid = Some (w + 1)
         \<and> filter (\<lambda>e. ev_session_uid e = uid) (sent_events c') = filter (\<lambda>e. ev_session_uid e = uid) (sent_events c) @ [e])"

lemma moves_refl: "wc_watermarks c' = wc_watermarks c \<Longrightarrow> sent_events c' = sent_events c \<Longrightarrow> moves uid c c'"
  by (simp add: moves_def)

lemma moves_send:
  assumes "hget (wc_watermarks c) (ev_session_uid e) = Some w" "ev_seq e = w + 1"
    "wc_watermarks c' = hput (ev_session_uid e) (ev_seq e) (wc_watermarks c)" "sent_events c' = sent_events c @ [e]"
  shows "moves uid c c'"
  using assms by (auto simp: moves_def hget_hput)

lemma replay_reads_ok:
  assumes "delivery_ok E (h, c)" and Cons: "wc_sessions c = front # rest" and Some: "hget (wc_watermarks c) front = Some w"
    and Nil: "wc_page c = []"
  shows "delivery_ok E (h, backlog_step E (hb_store h) c) \<and> moves uid c (backlog_step E (hb_store h) c)"
proof -
  have ok: "store_ok (hb_store h)" "page_fits (front # rest) (wc_watermarks c) (wc_page c)" "marks_ok c" "facts_filed E (h, c)"
    using assms(1) by (simp_all add: delivery_ok_def page_ok_def Cons)
  have w: "w < 2 ^ 64" using ok(3) Some by (auto simp: marks_ok_def split: option.splits)
  note page = events_after_eq [OF ok(1) w, of E front REPLAY_PAGE]
  let ?page = "events_after E front w REPLAY_PAGE (hb_store h)"
  have c': "backlog_step E (hb_store h) c = (if ?page = [] then c\<lparr>wc_sessions := rest\<rparr> else c\<lparr>wc_page := ?page\<rparr>)"
    by (simp add: backlog_step_def Cons Some Nil Let_def)
  have seqs: "map ev_seq ?page = [Suc (low_mark w)..<Suc (low_mark w) + length ?page]"
    using take_upt_len [of REPLAY_PAGE "Suc (low_mark w)" "Suc (count_events front (hb_store h))"]
      page_seqs [OF ok(1) w, of E front REPLAY_PAGE] by (metis length_map)
  have "page_fits (front # rest) (wc_watermarks c) ?page"
    using seqs page_filed [OF ok(1) w, of _ E front REPLAY_PAGE] Some
    by (auto simp: list_all_iff low_mark_def intro!: exI [of _ "Suc (low_mark w)"])
  moreover have "list_all (is_filed E (hb_store h)) ?page"
    using page_filed [OF ok(1) w, of _ E front REPLAY_PAGE] by (simp add: list_all_iff)
  ultimately show ?thesis
    using ok Nil Cons unfolding c' by (auto simp: delivery_ok_def page_ok_def facts_filed_def moves_refl)
qed

lemma replay_sends_ok:
  assumes "delivery_ok E (h, c)" and Cons: "wc_sessions c = front # rest" and Some: "hget (wc_watermarks c) front = Some w"
    and page: "wc_page c = e # es"
  shows "delivery_ok E (h, backlog_step E (hb_store h) c) \<and> moves uid c (backlog_step E (hb_store h) c)"
proof -
  have ok: "store_ok (hb_store h)" "page_fits (front # rest) (wc_watermarks c) (wc_page c)" "marks_ok c" "facts_filed E (h, c)"
    using assms(1) by (simp_all add: delivery_ok_def page_ok_def Cons)
  from ok(2) page Some obtain a where a: "ev_session_uid e = front" "list_all (\<lambda>e. ev_session_uid e = front) es"
      "ev_seq e # map ev_seq es = [a..<a + Suc (length es)]" "a \<le> w + 1"
    by auto
  then have seq: "ev_seq e = a" "map ev_seq es = [Suc a..<Suc a + length es]"
    by (simp_all add: upt_rec del: upt_Suc)
  have filed: "is_filed E (hb_store h) e" using ok(4) by (simp add: facts_filed_def page)
  show ?thesis
  proof (cases "ev_seq e > w")
    case True
    have c': "backlog_step E (hb_store h) c
        = (send_out (SentEvent e) (c\<lparr>wc_page := es\<rparr>))\<lparr>wc_watermarks := hput front (ev_seq e) (wc_watermarks c)\<rparr>"
      using True by (simp add: backlog_step_def Cons Some page Let_def)
    from True a(4) seq(1) have "ev_seq e = w + 1" by simp
    moreover have "page_fits (front # rest) (hput front (ev_seq e) (wc_watermarks c)) es"
      using a(2) seq by (auto simp: hget_hput intro!: exI [of _ "Suc a"])
    moreover have "ev_seq e < 2 ^ 64" using filed by (simp add: is_filed_def)
    ultimately show ?thesis
      using ok page Some a(1) Cons filed unfolding c'
      by (auto simp: delivery_ok_def page_ok_def facts_filed_def marks_ok_def hget_hput intro!: moves_send [of c e w] split: if_splits)
  next
    case False
    have c': "backlog_step E (hb_store h) c = c\<lparr>wc_page := es\<rparr>"
      using False by (simp add: backlog_step_def Cons Some page Let_def)
    have "page_fits (front # rest) (wc_watermarks c) es"
      using a(2) seq False Some by (auto intro!: exI [of _ "Suc a"])
    then show ?thesis
      using ok page Cons unfolding c'
      by (auto simp: delivery_ok_def page_ok_def facts_filed_def moves_refl)
  qed
qed

lemma replay_ok:
  assumes "delivery_ok E (h, c)"
  shows "delivery_ok E (h, backlog_step E (hb_store h) c) \<and> moves uid c (backlog_step E (hb_store h) c)"
proof (cases "wc_sessions c")
  case Nil
  with assms show ?thesis by (simp add: backlog_step_def moves_refl)
next
  case (Cons front rest)
  show ?thesis
  proof (cases "hget (wc_watermarks c) front")
    case None
    with assms Cons show ?thesis
      by (simp add: backlog_step_def delivery_ok_def page_ok_def facts_filed_def moves_refl)
  next
    case (Some w)
    with replay_reads_ok [OF assms Cons] replay_sends_ok [OF assms Cons] show ?thesis by (cases "wc_page c") blast+
  qed
qed

lemma page_fits_moved: "page_fits ss ws es \<Longrightarrow> hget ws uid = Some w \<Longrightarrow> w \<le> w' \<Longrightarrow> page_fits ss (hput uid w' ws) es"
  by (cases ss) (auto simp: hget_hput split: option.splits)

lemma resync_one_same [simp]:
  "wc_watermarks (resync_one st n u c) = wc_watermarks c" "wc_events (resync_one st n u c) = wc_events c"
  "sent_events (resync_one st n u c) = sent_events c" "marks_ok (resync_one st n u c) = marks_ok c"
  by (simp_all add: resync_one_def marks_ok_def)

lemma resync_all_same [simp]:
  "wc_watermarks (fold (resync_one st n) us c) = wc_watermarks c" "wc_events (fold (resync_one st n) us c) = wc_events c"
  "sent_events (fold (resync_one st n) us c) = sent_events c" "marks_ok (fold (resync_one st n) us c) = marks_ok c"
  by (induction us arbitrary: c) simp_all

lemma resync_all_page:
  "page_ok c \<Longrightarrow> page_ok (fold (resync_one st n) us c) \<and> set (wc_page (fold (resync_one st n) us c)) \<subseteq> set (wc_page c)"
proof (induction us arbitrary: c)
  case (Cons u us)
  have one: "page_ok (resync_one st n u c)" "set (wc_page (resync_one st n u c)) \<subseteq> set (wc_page c)"
    using Cons.prems begin_page [of u] by (auto simp: resync_one_def intro!: begin_page_ok) (metis empty_iff empty_set send_same(3))
  from Cons.IH [OF one(1)] one(2) show ?case by auto
qed simp

lemma facts_filed_sub:
  assumes "facts_filed E (h, c)" "set (wc_events c') \<subseteq> set (wc_events c)" "set (wc_page c') \<subseteq> set (wc_page c)"
    "set (sent_events c') \<subseteq> set (sent_events c) \<union> set (wc_events c)"
  shows "facts_filed E (h, c')"
  using assms by (auto simp: facts_filed_def list_all_iff)

lemma live_next:
  assumes "is_filed E st e" "w < 2 ^ 64" "live_delivery (ev_seq e) w = LiveDeliver"
  shows "ev_seq e = w + 1"
proof -
  have "ev_seq e = (w + 1) mod 2 ^ 64" using assms(3) by (auto simp: live_delivery_def after_mark_def split: if_splits)
  moreover have "0 < ev_seq e" using assms(1) by (simp add: is_filed_def)
  ultimately show ?thesis using assms(2) by (cases "w + 1 = 2 ^ 64") simp_all
qed

lemma live_ok:
  assumes "delivery_ok E (h, c)" "wc_events c = e # es"
  defines "c' \<equiv> on_live_event e (c\<lparr>wc_events := es\<rparr>)"
  shows "delivery_ok E (h, c') \<and> moves uid c c'"
proof -
  have ok: "store_ok (hb_store h)" "page_ok c" "marks_ok c" "facts_filed E (h, c)" and e: "is_filed E (hb_store h) e"
    using assms(1,2) by (simp_all add: delivery_ok_def facts_filed_def)
  have rest: "facts_filed E (h, c\<lparr>wc_events := es\<rparr>)"
    by (rule facts_filed_sub [OF ok(4)]) (auto simp: assms(2))
  show ?thesis
  proof (cases "hget (wc_watermarks c) (ev_session_uid e)")
    case None
    with ok rest show ?thesis by (simp add: c'_def on_live_event_def delivery_ok_def moves_refl)
  next
    case (Some w)
    have w: "w < 2 ^ 64" using ok(3) Some by (auto simp: marks_ok_def split: option.splits)
    show ?thesis
    proof (cases "live_delivery (ev_seq e) w")
      case LiveDeliver
      then have seq: "ev_seq e = w + 1" by (rule live_next [OF e w])
      have c: "c' = (send_out (SentEvent e) (c\<lparr>wc_events := es\<rparr>))\<lparr>wc_watermarks := hput (ev_session_uid e) (ev_seq e) (wc_watermarks c)\<rparr>"
        by (simp add: c'_def on_live_event_def Some LiveDeliver)
      have "page_ok c'"
        using page_fits_moved [OF ok(2) [unfolded page_ok_def] Some, of "w + 1"] by (simp add: c page_ok_def seq)
      moreover have "marks_ok c'"
        using ok(3) e by (auto simp: c marks_ok_def hget_hput is_filed_def)
      moreover have "facts_filed E (h, c')"
        by (rule facts_filed_sub [OF ok(4)]) (auto simp: c assms(2))
      moreover have "moves uid c c'"
        by (rule moves_send [OF Some seq]) (simp_all add: c)
      ultimately show ?thesis using ok(1) by (simp add: delivery_ok_def)
    next
      case LiveAlreadySent
      with ok rest Some show ?thesis by (simp add: c'_def on_live_event_def delivery_ok_def moves_refl)
    next
      case LiveGap
      show ?thesis
      proof (cases "replaying (ev_session_uid e) c")
        case True
        then have "replaying (ev_session_uid e) (c\<lparr>wc_events := es\<rparr>)" by (simp add: replaying_def)
        with ok rest Some LiveGap show ?thesis by (simp add: c'_def on_live_event_def delivery_ok_def moves_refl)
      next
        case False
        let ?m = "send_out (SentMarker (gap_marker e w)) (c\<lparr>wc_events := es\<rparr>)"
        have c: "c' = backlog_begin (ev_session_uid e) ?m"
          using False by (simp add: c'_def on_live_event_def Some LiveGap replaying_def)
        have "page_ok c'" unfolding c by (rule begin_page_ok) (simp add: ok(2))
        moreover have "facts_filed E (h, c')"
          using begin_page [of "ev_session_uid e" ?m] by (intro facts_filed_sub [OF ok(4)]) (auto simp: c assms(2))
        ultimately show ?thesis using ok(1,3) by (simp add: delivery_ok_def c marks_ok_def moves_refl)
      qed
    qed
  qed
qed

lemma receive_ok:
  assumes "delivery_ok E (h, c)"
  shows "delivery_ok E (h, receive capacity (hb_store h) c) \<and> moves uid c (receive capacity (hb_store h) c)"
proof (cases "length (wc_events c) > capacity")
  case True
  let ?b = "c\<lparr>wc_events := drop (length (wc_events c) - capacity) (wc_events c)\<rparr>"
  have c': "receive capacity (hb_store h) c
      = fold (resync_one (hb_store h) (length (wc_events c) - capacity)) (map fst (wc_watermarks c)) ?b"
    using True by (simp add: receive_def Let_def)
  have ok: "store_ok (hb_store h)" "page_ok ?b" "marks_ok c" "facts_filed E (h, c)"
    using assms by (simp_all add: delivery_ok_def)
  have "facts_filed E (h, receive capacity (hb_store h) c)"
    using resync_all_page [OF ok(2)] by (intro facts_filed_sub [OF ok(4)]) (auto simp: c' dest: in_set_dropD)
  with ok resync_all_page [OF ok(2)] show ?thesis
    by (simp add: delivery_ok_def c' moves_refl)
next
  case False
  show ?thesis
  proof (cases "wc_events c")
    case Nil
    with False assms show ?thesis by (simp add: receive_def moves_refl)
  next
    case (Cons e es)
    from live_ok [OF assms Cons, of uid] False Cons show ?thesis by (simp add: receive_def)
  qed
qed

section \<open>Any step\<close>

text \<open>The messages that change what a connection follows of a run.\<close>

fun resubscribes :: "string \<Rightarrow> ws_action \<Rightarrow> bool" where
  "resubscribes uid (Subscribe resolved after_seq) = (resolved = Inr uid)"
| "resubscribes uid (Unsubscribe session_id resolved) = (session_id = uid \<or> resolved = Inr uid)"
| "resubscribes uid (DeleteAnswered u gone) = (u = uid \<and> gone)"
| "resubscribes uid a = False"

lemma publishing_same [simp]: "publishing_of u (h\<lparr>hb_store := st\<rparr>) = publishing_of u h"
  by (simp add: publishing_of_def)

lemma publishing_put [simp]:
  "publishing_of u (h\<lparr>hb_store := st, hb_publishing := hput uid es (hb_publishing h)\<rparr>) = (if u = uid then es else publishing_of u h)"
  "publishing_of u (h\<lparr>hb_publishing := hput uid es (hb_publishing h)\<rparr>) = (if u = uid then es else publishing_of u h)"
  by (simp_all add: publishing_of_def hget_hput)

lemma facts_filed_store:
  assumes "facts_filed E (h, c)" "store_ok (hb_store h)" "grows (hb_store h) st' \<or> erases P (hb_store h) st'"
  shows "facts_filed E (h\<lparr>hb_store := st'\<rparr>, c)"
proof -
  have step: "is_filed E (hb_store h) e \<Longrightarrow> is_filed E st' e" for e by (rule is_filed_step [OF assms(2) _ assms(3)])
  show ?thesis using assms(1) by (auto simp: facts_filed_def list_all_iff intro: step)
qed

lemma ingest_hub:
  assumes "store_ok (hb_store h)" "\<forall>u. list_all (\<lambda>e. is_filed E (hb_store h) e \<and> ev_session_uid e = u) (publishing_of u h)"
  shows "store_ok (hb_store (ingest_fact E p h)) \<and> grows (hb_store h) (hb_store (ingest_fact E p h))
    \<and> (\<forall>u. list_all (\<lambda>e. is_filed E (hb_store (ingest_fact E p h)) e \<and> ev_session_uid e = u) (publishing_of u (ingest_fact E p h)))"
proof -
  have ok: "rows_ok (hb_store h)" "log_ok (hb_store h)" using assms(1) by (simp_all add: store_ok_def)
  have refl: "grows (hb_store h) (hb_store h)" by (simp add: grows_def)
  note keep = is_filed_step [OF assms(1) _ disjI1]
  show ?thesis
  proof (cases "gate_free (pe_session_uid p) h")
    case False
    with assms refl show ?thesis by (simp add: ingest_fact_def)
  next
    case True
    show ?thesis
    proof (cases "append_in_tx E p (hb_store h)")
      case (Inl e)
      with assms refl True show ?thesis by (simp add: ingest_fact_def append_event_def)
    next
      case (Inr r)
      obtain ev st' where r: "r = (ev, st')" by (cases r)
      from append_extends [OF Inr [unfolded r] ok(2)] extends_grows [OF _ ok(1)]
      have st': "store_ok st'" "grows (hb_store h) st'" by (auto simp: store_ok_def)
      show ?thesis
      proof (cases ev)
        case None
        with assms(2) True None st' keep [OF _ st'(2)] show ?thesis
          by (auto simp: ingest_fact_def append_event_def Inr r list_all_iff)
      next
        case (Some e)
        note f = append_filed [OF assms(1) Inr [unfolded r Some]]
        from assms(2) True Some st' keep [OF _ st'(2)] f(1,2) show ?thesis
          by (auto simp: ingest_fact_def append_event_def Inr r list_all_iff)
      qed
    qed
  qed
qed

lemma scan_hub:
  assumes "store_ok (hb_store h)" "\<forall>u. list_all (\<lambda>e. is_filed E (hb_store h) e \<and> ev_session_uid e = u) (publishing_of u h)"
  shows "store_ok (hb_store (ingest_scan E uid ps cur h)) \<and> grows (hb_store h) (hb_store (ingest_scan E uid ps cur h))
    \<and> (\<forall>u. list_all (\<lambda>e. is_filed E (hb_store (ingest_scan E uid ps cur h)) e \<and> ev_session_uid e = u) (publishing_of u (ingest_scan E uid ps cur h)))"
proof -
  have ok: "rows_ok (hb_store h)" "log_ok (hb_store h)" using assms(1) by (simp_all add: store_ok_def)
  have refl: "grows (hb_store h) (hb_store h)" by (simp add: grows_def)
  show ?thesis
  proof (cases "gate_free uid h \<and> list_all (\<lambda>p. pe_session_uid p = uid) ps \<and> run_exists uid (hb_store h)
      \<and> (\<exists>r. append_all E ps (hb_store h) = Inr r)")
    case False
    then consider "\<not> gate_free uid h \<or> \<not> list_all (\<lambda>p. pe_session_uid p = uid) ps"
      | "gate_free uid h" "list_all (\<lambda>p. pe_session_uid p = uid) ps" "\<not> run_exists uid (hb_store h)"
      | e where "gate_free uid h" "list_all (\<lambda>p. pe_session_uid p = uid) ps" "run_exists uid (hb_store h)"
        "append_all E ps (hb_store h) = Inl e"
      by (cases "append_all E ps (hb_store h)") auto
    then show ?thesis
    proof cases
      case 1
      with assms refl show ?thesis by (simp add: ingest_scan_def)
    next
      case 2
      then have h': "ingest_scan E uid ps cur h = h\<lparr>hb_store := hb_store h, hb_publishing := hput uid [] (hb_publishing h)\<rparr>"
        by (simp add: ingest_scan_def append_batch_with_cursor_def)
      have "publishing_of u (ingest_scan E uid ps cur h) = publishing_of u h" for u
        using 2(1) unfolding h' by (auto simp: publishing_of_def gate_free_def hget_hput split: option.splits)
      with assms refl show ?thesis by (simp add: h')
    next
      case 3
      with assms refl show ?thesis by (simp add: ingest_scan_def append_batch_with_cursor_def)
    qed
  next
    case True
    then obtain out st' where a: "append_all E ps (hb_store h) = Inr (out, st')" by auto
    define st'' where "st'' = save_cursor_in_tx uid cur st'"
    have h': "ingest_scan E uid ps cur h = h\<lparr>hb_store := st'', hb_publishing := hput uid out (hb_publishing h)\<rparr>"
      using True a by (simp add: ingest_scan_def append_batch_with_cursor_def st''_def)
    note f = append_all_filed [OF a assms(1), of uid]
    have same: "is_filed E st'' e = is_filed E st' e" for e
      by (simp add: is_filed_def st''_def save_cursor_in_tx_def)
    have "st'' = snd (append_batch_with_cursor E uid ps cur (hb_store h))"
      using True a by (simp add: append_batch_with_cursor_def st''_def)
    then have st'': "store_ok st''" "grows (hb_store h) st''"
      using files_extend(3) [OF ok(2), of E uid ps cur] extends_grows [OF _ ok(1)] by (auto simp: store_ok_def)
    have "list_all (\<lambda>e. is_filed E st'' e \<and> ev_session_uid e = uid) out" using f True same by (simp add: list_all_iff)
    with st'' assms(2) is_filed_step [OF assms(1) _ disjI1, OF _ st''(2)] show ?thesis
      unfolding h' by (auto simp: list_all_iff)
  qed
qed

lemma delivery_hub:
  assumes "delivery_ok E (h, c)" "store_ok (hb_store h')" "\<And>e. is_filed E (hb_store h) e \<Longrightarrow> is_filed E (hb_store h') e"
    "\<forall>u. list_all (\<lambda>e. is_filed E (hb_store h') e \<and> ev_session_uid e = u) (publishing_of u h')"
  shows "delivery_ok E (h', c)"
  using assms by (auto simp: delivery_ok_def facts_filed_def list_all_iff)

lemma drop_front_page: "page_ok c \<Longrightarrow> page_ok (backlog_drop_session uid c) \<and> set (wc_page (backlog_drop_session uid c)) \<subseteq> set (wc_page c)"
  by (cases "wc_sessions c") (auto simp: backlog_drop_session_def front_is_def page_ok_def Let_def)

lemma drop_same [simp]:
  "wc_watermarks (backlog_drop_session uid c) = wc_watermarks c" "wc_events (backlog_drop_session uid c) = wc_events c"
  "sent_events (backlog_drop_session uid c) = sent_events c" "wc_sent (backlog_drop_session uid c) = wc_sent c"
  "wc_sessions (backlog_drop_session uid c) = filter (\<lambda>s. s \<noteq> uid) (wc_sessions c)"
  by (simp_all add: backlog_drop_session_def Let_def sent_events_def)

lemma history_drop_same [simp]:
  "wc_watermarks (history_drop_session uid c) = wc_watermarks c" "wc_events (history_drop_session uid c) = wc_events c"
  "wc_page (history_drop_session uid c) = wc_page c" "wc_sessions (history_drop_session uid c) = wc_sessions c"
  "sent_events (history_drop_session uid c) = sent_events c" "page_ok (history_drop_session uid c) = page_ok c"
  "marks_ok (history_drop_session uid c) = marks_ok c"
  by (simp_all add: history_drop_session_def)

lemma history_step_same [simp]:
  "wc_watermarks (history_step E st c) = wc_watermarks c" "wc_events (history_step E st c) = wc_events c"
  "wc_page (history_step E st c) = wc_page c" "wc_sessions (history_step E st c) = wc_sessions c"
  "sent_events (history_step E st c) = sent_events c"
  by (auto simp: history_step_def history_end_def Let_def split: list.split option.split)

lemma page_fits_unmarked: "page_fits ss ws es \<Longrightarrow> page_fits ss (hdel uid ws) es"
  by (cases ss) (auto simp: hget_hdel split: option.splits)

lemma marks_unmarked: "marks_ok c \<Longrightarrow> marks_ok (c\<lparr>wc_watermarks := hdel uid (wc_watermarks c)\<rparr>)"
  by (simp add: marks_ok_def hget_hdel)

lemma subscribe_page:
  assumes "page_ok c"
  shows "page_ok (backlog_begin uid (c\<lparr>wc_watermarks := hput uid w (wc_watermarks c)\<rparr>))"
proof (cases "front_is uid c")
  case True
  then have "front_is uid (c\<lparr>wc_watermarks := hput uid w (wc_watermarks c)\<rparr>)" by (simp add: front_is_def)
  then show ?thesis by (simp add: backlog_begin_def page_ok_def)
next
  case False
  have "page_ok (c\<lparr>wc_watermarks := hput uid w (wc_watermarks c)\<rparr>)"
    using assms False by (cases "wc_sessions c") (auto simp: page_ok_def front_is_def hget_hput)
  then show ?thesis by (rule begin_page_ok)
qed

text \<open>A step keeps what is known of the connection, and only a subscription or its end moves a run's mark back.\<close>

definition advances :: "ext \<Rightarrow> string \<Rightarrow> ws_action \<Rightarrow> ws_conn \<Rightarrow> hub \<times> ws_conn \<Rightarrow> bool" where
  "advances E uid a c s \<longleftrightarrow> delivery_ok E s \<and> (resubscribes uid a \<or> moves uid c (snd s))"

lemma delivery_parts:
  assumes "delivery_ok E (h, c)"
  shows "store_ok (hb_store h)" "page_ok c" "marks_ok c" "facts_filed E (h, c)"
    "\<forall>u. list_all (\<lambda>e. is_filed E (hb_store h) e \<and> ev_session_uid e = u) (publishing_of u h)"
  using assms by (simp_all add: delivery_ok_def facts_filed_def)

lemma filing_advances:
  assumes "delivery_ok E (h, c)"
  shows "advances E uid a c (ingest_fact E p h, c)" "advances E uid a c (ingest_scan E u ps cur h, c)"
    "advances E uid a c (h\<lparr>hb_publishing := hput u [] (hb_publishing h)\<rparr>, c)"
    "advances E uid a c (h\<lparr>hb_store := store_step E op (hb_store h)\<rparr>, c)"
proof -
  note ok = delivery_parts [OF assms]
  have "delivery_ok E (ingest_fact E p h, c)"
    by (rule delivery_hub [OF assms]) (use ingest_hub [OF ok(1,5)] is_filed_step [OF ok(1) _ disjI1] in blast)+
  moreover have "delivery_ok E (ingest_scan E u ps cur h, c)"
    by (rule delivery_hub [OF assms]) (use scan_hub [OF ok(1,5)] is_filed_step [OF ok(1) _ disjI1] in blast)+
  moreover have "delivery_ok E (h\<lparr>hb_publishing := hput u [] (hb_publishing h)\<rparr>, c)"
    by (rule delivery_hub [OF assms]) (use ok(1,5) in auto)
  moreover have "store_ok (store_step E op (hb_store h))" "facts_filed E (h\<lparr>hb_store := store_step E op (hb_store h)\<rparr>, c)"
    using step_ok [OF ok(1), of E op] facts_filed_store [OF ok(4,1)] by blast+
  ultimately show "advances E uid a c (ingest_fact E p h, c)" "advances E uid a c (ingest_scan E u ps cur h, c)"
      "advances E uid a c (h\<lparr>hb_publishing := hput u [] (hb_publishing h)\<rparr>, c)"
      "advances E uid a c (h\<lparr>hb_store := store_step E op (hb_store h)\<rparr>, c)"
    using ok by (simp_all add: advances_def moves_refl delivery_ok_def)
qed

lemma publish_advances:
  assumes "delivery_ok E (h, c)"
  shows "advances E uid a c (ws_step E capacity (Publish u) (h, c))"
proof (cases "publishing_of u h")
  case Nil
  then have "ws_step E capacity (Publish u) (h, c) = (h, c)"
    by (auto simp: publishing_of_def split: option.split list.split)
  with assms show ?thesis by (simp add: advances_def moves_refl)
next
  case (Cons e es)
  note ok = delivery_parts [OF assms]
  from Cons have s': "ws_step E capacity (Publish u) (h, c)
      = (h\<lparr>hb_publishing := hput u es (hb_publishing h)\<rparr>, c\<lparr>wc_events := wc_events c @ [e]\<rparr>)"
    by (auto simp: publishing_of_def split: option.splits)
  have "list_all (\<lambda>e. is_filed E (hb_store h) e \<and> ev_session_uid e = u) (e # es)" using ok(5) Cons by metis
  then have "facts_filed E (ws_step E capacity (Publish u) (h, c))"
    unfolding s' using ok(4,5) by (auto simp: facts_filed_def list_all_iff)
  then show ?thesis using ok unfolding s' by (simp add: advances_def delivery_ok_def moves_refl)
qed

lemma subscribe_advances:
  assumes "delivery_ok E (h, c)"
  shows "advances E uid (Subscribe resolved n) c (ws_step E capacity (Subscribe resolved n) (h, c))"
proof (cases resolved)
  case (Inl e)
  with delivery_parts [OF assms] show ?thesis
    by (simp add: on_subscribe_def advances_def delivery_ok_def facts_filed_def moves_refl)
next
  case (Inr u)
  note ok = delivery_parts [OF assms]
  let ?c = "c\<lparr>wc_watermarks := hput u (n mod 2 ^ 64) (wc_watermarks c)\<rparr>"
  have "page_ok (backlog_begin u ?c)" by (rule subscribe_page [OF ok(2)])
  moreover have "marks_ok (backlog_begin u ?c)" using ok(3) by (simp add: marks_ok_def hget_hput)
  moreover have "facts_filed E (h, backlog_begin u ?c)"
    using begin_page [of u ?c] by (intro facts_filed_sub [OF ok(4)]) auto
  moreover have "u \<noteq> uid \<Longrightarrow> moves uid c (backlog_begin u ?c)" by (simp add: moves_def hget_hput)
  ultimately show ?thesis using ok(1) by (auto simp: on_subscribe_def Inr advances_def delivery_ok_def)
qed

lemma unsubscribe_advances:
  assumes "delivery_ok E (h, c)"
  shows "advances E uid (Unsubscribe session_id resolved) c (ws_step E capacity (Unsubscribe session_id resolved) (h, c))"
proof -
  have "page_ok (on_unsubscribe session_id resolved c) \<and> marks_ok (on_unsubscribe session_id resolved c)
      \<and> facts_filed E (h, on_unsubscribe session_id resolved c)
      \<and> (session_id = uid \<or> resolved = Inr uid \<or> moves uid c (on_unsubscribe session_id resolved c))"
    using delivery_parts [OF assms]
    by (cases resolved) (auto simp: on_unsubscribe_def Let_def page_ok_def marks_ok_def facts_filed_def
        hget_hdel moves_def intro!: page_fits_unmarked)
  with delivery_parts [OF assms] show ?thesis by (simp add: advances_def delivery_ok_def)
qed

lemma delete_advances:
  assumes "delivery_ok E (h, c)"
  shows "advances E uid (DeleteAnswered u gone) c (ws_step E capacity (DeleteAnswered u gone) (h, c))"
proof (cases gone)
  case False
  with assms show ?thesis by (simp add: advances_def on_delete_answered_def moves_refl)
next
  case True
  note ok = delivery_parts [OF assms]
  let ?c = "c\<lparr>wc_watermarks := hdel u (wc_watermarks c)\<rparr>"
  have c: "page_ok ?c" using ok(2) page_fits_unmarked by (simp add: page_ok_def)
  have "facts_filed E (h, history_drop_session u (backlog_drop_session u ?c))"
    using drop_front_page [OF c, of u] by (intro facts_filed_sub [OF ok(4)]) auto
  moreover have "u \<noteq> uid \<Longrightarrow> moves uid c (history_drop_session u (backlog_drop_session u ?c))"
    by (simp add: moves_def hget_hdel)
  moreover have "marks_ok (backlog_drop_session u ?c)" using marks_unmarked [OF ok(3)] by (simp add: marks_ok_def)
  ultimately show ?thesis
    using ok(1) drop_front_page [OF c, of u] by (auto simp: on_delete_answered_def True advances_def delivery_ok_def)
qed

lemma step_advances:
  assumes "delivery_ok E (h, c)"
  shows "advances E uid a c (ws_step E capacity a (h, c))"
proof (cases a)
  case (AskHistory session_id resolved before_seq limit request_id)
  with delivery_parts [OF assms] show ?thesis
    by (simp add: on_history_def advances_def delivery_ok_def facts_filed_def moves_refl)
next
  case HistoryPass
  have "page_ok (history_step E (hb_store h) c)" "marks_ok (history_step E (hb_store h) c)"
    using delivery_parts [OF assms] by (simp_all add: page_ok_def marks_ok_def)
  with delivery_parts [OF assms] show ?thesis
    by (simp add: HistoryPass advances_def delivery_ok_def facts_filed_def moves_refl)
next
  case ReplayPass
  with replay_ok [OF assms] show ?thesis by (simp add: advances_def)
next
  case Receive
  with receive_ok [OF assms] show ?thesis by (simp add: advances_def)
next
  case (StoreCall op)
  with filing_advances [OF assms] assms show ?thesis by (simp add: advances_def moves_refl)
qed (use filing_advances [OF assms] publish_advances [OF assms] subscribe_advances [OF assms]
    unsubscribe_advances [OF assms] delete_advances [OF assms] in simp_all)

lemma step_delivers:
  assumes "delivery_ok E (h, c)"
  shows "delivery_ok E (ws_step E capacity a (h, c))" "resubscribes uid a \<or> moves uid c (snd (ws_step E capacity a (h, c)))"
  using step_advances [OF assms] by (simp_all add: advances_def)

lemma start_delivers: "delivery_ok E (ws_start E ops)"
  using reached_ok [of E ops]
  by (simp add: ws_start_def delivery_ok_def page_ok_def marks_ok_def facts_filed_def fresh_conn_def sent_events_def
      publishing_of_def List.map_filter_simps)

lemma run_delivers: "delivery_ok E s \<Longrightarrow> delivery_ok E (ws_run E capacity steps s)"
proof (induction steps arbitrary: s)
  case (Cons a steps)
  obtain h c where s: "s = (h, c)" by (cases s)
  from Cons.IH step_delivers(1) [of E h c] Cons.prems show ?case by (simp add: ws_run_def s)
qed (simp add: ws_run_def)

section \<open>In order\<close>

definition sent_of :: "string \<Rightarrow> ws_conn \<Rightarrow> event list" where
  "sent_of uid c = filter (\<lambda>e. ev_session_uid e = uid) (sent_events c)"

lemma run_moves:
  assumes "delivery_ok E s" "list_all (\<lambda>a. \<not> resubscribes uid a) steps" "hget (wc_watermarks (snd s)) uid = Some w"
  shows "\<exists>w' new. hget (wc_watermarks (snd (ws_run E capacity steps s))) uid = Some w' \<and> w \<le> w'
    \<and> sent_of uid (snd (ws_run E capacity steps s)) = sent_of uid (snd s) @ new \<and> map ev_seq new = [w + 1..<w' + 1]"
  using assms
proof (induction steps arbitrary: s w)
  case Nil
  then show ?case by (simp add: ws_run_def)
next
  case (Cons a steps)
  obtain h c where s: "s = (h, c)" by (cases s)
  let ?s = "ws_step E capacity a s"
  from Cons.prems have "moves uid c (snd ?s)" "delivery_ok E ?s" "list_all (\<lambda>a. \<not> resubscribes uid a) steps"
    using step_delivers(1) [where h = h and c = c and E = E] step_delivers(2) [where h = h and c = c and uid = uid and a = a and E = E and capacity = capacity] by (auto simp: s)
  moreover from this(1) obtain v new where v: "hget (wc_watermarks (snd ?s)) uid = Some v" "w \<le> v"
      "sent_of uid (snd ?s) = sent_of uid (snd s) @ new" "map ev_seq new = [w + 1..<v + 1]"
    using Cons.prems(3) by (fastforce simp: moves_def sent_of_def s)
  ultimately obtain w' new' where w': "hget (wc_watermarks (snd (ws_run E capacity steps ?s))) uid = Some w'" "v \<le> w'"
      "sent_of uid (snd (ws_run E capacity steps ?s)) = sent_of uid (snd ?s) @ new'" "map ev_seq new' = [v + 1..<w' + 1]"
    using Cons.IH [of ?s v] by blast
  have "map ev_seq (new @ new') = [w + 1..<w' + 1]"
    using v(2,4) w'(2,4) upt_add_eq_append [of "w + 1" "v + 1" "w' - v"] by simp
  with v w' show ?case by (intro exI [of _ w'] exI [of _ "new @ new'"]) (simp add: ws_run_def)
qed

text \<open>C31. A phone is sent the log, in order. From a moment at which a connection follows a run from the mark \<open>w\<close>,
  until it subscribes anew, unsubscribes or is told of the run's deletion, and whatever is filed, published, lost off
  the ring, deleted or asked for in between: the facts of the run it is sent are numbered \<open>w + 1\<close>, \<open>w + 2\<close> and so on
  to the mark it has then, each once; and each is, unless the run was deleted by then (so that the log no longer has it),
  the fact the log has under that number, as filed: every column of its row, kind, source and ids, and the payload
  written there or what reads back of it.\<close>
theorem a_phone_is_sent_the_log_in_order:
  assumes "hget (wc_watermarks (snd (ws_run E capacity before (ws_start E ops)))) uid = Some w"
    "list_all (\<lambda>a. \<not> resubscribes uid a) steps"
  shows "case (ws_run E capacity before (ws_start E ops), ws_run E capacity steps (ws_run E capacity before (ws_start E ops))) of
    ((h, c), (h', c')) \<Rightarrow>
      let new = drop (length (sent_of uid c)) (sent_of uid c') in
      (case hget (wc_watermarks c') uid of None \<Rightarrow> False | Some w' \<Rightarrow> map ev_seq new = [w + 1..<w' + 1])
      \<and> (uid \<in> set (st_deleted_sessions (hb_store h'))
         \<or> list_all2 (same_fact E) new (take (length new) (drop w (run_events uid (hb_store h')))))"
proof -
  define s where "s = ws_run E capacity before (ws_start E ops)"
  define s' where "s' = ws_run E capacity steps s"
  have ok: "delivery_ok E s" "delivery_ok E s'" unfolding s_def s'_def by (intro run_delivers start_delivers)+
  obtain w' new where new: "hget (wc_watermarks (snd s')) uid = Some w'" "w \<le> w'"
      "sent_of uid (snd s') = sent_of uid (snd s) @ new" "map ev_seq new = [w + 1..<w' + 1]"
    using run_moves [OF ok(1) assms(2), of w capacity] assms(1) unfolding s_def s'_def by blast
  let ?st = "hb_store (fst s')" let ?rs = "run_events uid ?st"
  have "uid \<in> set (st_deleted_sessions ?st) \<or> list_all2 (same_fact E) new (take (length new) (drop w ?rs))"
  proof (cases "uid \<in> set (st_deleted_sessions ?st)")
    case False
    have each: "ev_seq (new ! i) = w + 1 + i \<and> ev_seq (new ! i) \<le> length ?rs \<and> same_fact E (new ! i) (?rs ! (w + i))" if "i < length new" for i
    proof -
      have "map ev_seq new ! i = [w + 1..<w' + 1] ! i" by (simp only: new(4))
      moreover have "length new = w' - w" using arg_cong [OF new(4), of length] by (simp del: upt_Suc)
      ultimately have seq: "ev_seq (new ! i) = w + 1 + i" using that by (simp del: upt_Suc)
      have "new ! i \<in> set (sent_of uid (snd s'))" using that by (simp add: new(3))
      then have f: "is_filed E ?st (new ! i)" "ev_session_uid (new ! i) = uid"
        using ok(2) by (cases s', auto simp: delivery_ok_def facts_filed_def list_all_iff sent_of_def)+
      from f(1) [unfolded is_filed_def Let_def f(2)] False seq show ?thesis by simp
    qed
    have len: "new = [] \<or> w + length new \<le> length ?rs"
      using each [of "length new - 1"] by (cases new) simp_all
    have "list_all2 (same_fact E) new (take (length new) (drop w ?rs))"
      using each len by (auto simp: list_all2_conv_all_nth)
    then show ?thesis by blast
  qed blast
  with new show ?thesis
    unfolding s_def [symmetric] s'_def [symmetric] by (simp add: case_prod_unfold Let_def del: upt_Suc)
qed

definition sample_ext :: ext where
  "sample_ext = \<lparr>json_read = (\<lambda>s. (JNull, True)), json_write = (\<lambda>v. []), uni_verbatim = (\<lambda>n. True)\<rparr>"

definition sample_run :: session_row where
  "sample_run = \<lparr>sr_session_uid = ''s'', sr_session_id = ''cc-1'', sr_tmux_session = ''cc-1'', sr_tmux_socket = ''cc'',
     sr_cwd = ''/w'', sr_claude_session_id = None, sr_transcript_path = None, sr_lifecycle = Exited, sr_created_at = ''1'',
     sr_updated_at = ''1'', sr_agent = Codex, sr_codex_thread_id = None, sr_codex_socket = None\<rparr>"

definition sample_ops :: "store_op list" where
  "sample_ops = [OpUpsert sample_run (Some 1),
     OpAppend (pending_event_new \<lparr>sk_uid = ''s'', sk_name = ''cc-1''\<rparr> TurnComplete JNull CodexSource)]"

lemma sent_in_order_witness:
  "case (ws_run sample_ext 1024 [Subscribe (Inr ''s'') 0] (ws_start sample_ext sample_ops),
      ws_run sample_ext 1024 [ReplayPass, ReplayPass]
        (ws_run sample_ext 1024 [Subscribe (Inr ''s'') 0] (ws_start sample_ext sample_ops))) of
    ((h, c), (h', c')) \<Rightarrow>
      let new = drop (length (sent_of ''s'' c)) (sent_of ''s'' c') in
      (case hget (wc_watermarks c') ''s'' of None \<Rightarrow> False | Some w' \<Rightarrow> map ev_seq new = [0 + 1..<w' + 1])
      \<and> (''s'' \<in> set (st_deleted_sessions (hb_store h'))
         \<or> list_all2 (same_fact sample_ext) new (take (length new) (drop 0 (run_events ''s'' (hb_store h')))))"
  by (rule a_phone_is_sent_the_log_in_order)
    (simp_all add: ws_run_def ws_start_def on_subscribe_def hget_hput)

end
