(* ===== verification/Ccd_Delivery_Quiet.thy ===== *)
theory Ccd_Delivery_Quiet
  imports Ccd_Delivery_Props
begin

text \<open>
  A connection that has nothing left to do has sent everything: what is filed past a run's mark is on its way, or a
  replay of the run is owed, after every step.
\<close>

section \<open>Quiet\<close>

text \<open>The numbers of a run's facts that are on their way to the connection.\<close>

definition under_way :: "string \<Rightarrow> hub \<Rightarrow> ws_conn \<Rightarrow> nat set" where
  "under_way uid h c = ev_seq ` {e \<in> set (wc_events c) \<union> set (publishing_of uid h). ev_session_uid e = uid}"

definition covered :: "string \<Rightarrow> hub \<Rightarrow> ws_conn \<Rightarrow> bool" where
  "covered uid h c = (case hget (wc_watermarks c) uid of
     None \<Rightarrow> True
   | Some w \<Rightarrow> replaying uid c \<or> uid \<in> set (st_deleted_sessions (hb_store h))
       \<or> {w + 1..count_events uid (hb_store h)} \<subseteq> under_way uid h c)"

lemma covered_hub:
  assumes "covered uid h c" "set (st_deleted_sessions (hb_store h)) \<subseteq> set (st_deleted_sessions (hb_store h'))"
    "uid \<in> set (st_deleted_sessions (hb_store h'))
     \<or> under_way uid h c \<union> {count_events uid (hb_store h) + 1..count_events uid (hb_store h')} \<subseteq> under_way uid h' c"
  shows "covered uid h' c"
proof (cases "hget (wc_watermarks c) uid")
  case (Some w)
  have "{w + 1..count_events uid (hb_store h')} \<subseteq> {w + 1..count_events uid (hb_store h)}
      \<union> {count_events uid (hb_store h) + 1..count_events uid (hb_store h')}" by auto
  moreover have "replaying uid c \<or> uid \<in> set (st_deleted_sessions (hb_store h'))
      \<or> {w + 1..count_events uid (hb_store h)} \<subseteq> under_way uid h c"
    using assms(1,2) Some by (auto simp: covered_def simp del: Suc_eq_plus1)
  ultimately show ?thesis using assms(3) unfolding covered_def Some option.case by blast
qed (simp add: covered_def)

lemma other_calls:
  assumes "store_ok st" "\<not> files_facts op"
  shows "run_events uid (store_step E op st) = run_events uid st \<or> uid \<in> set (st_deleted_sessions (store_step E op st))"
proof -
  have ok: "rows_ok st" "log_ok st" using assms(1) by (simp_all add: store_ok_def)
  show ?thesis
  proof (cases op)
    case (OpUpsert row g)
    with upsert_ok [OF ok, of row g] show ?thesis by simp
  next
    case (OpSetLifecycle u l now)
    then show ?thesis using changes_ok(3) [of "\<lambda>r. if names_run u r then r\<lparr>sr_lifecycle := l, sr_updated_at := now\<rparr> else r" uid st]
      by (simp add: set_lifecycle_changes)
  next
    case (OpBindThread u g t)
    obtain p where "snd (bind_codex_thread u g t st) = changes_rows (\<lambda>r. if p r then r\<lparr>sr_codex_thread_id := Some t\<rparr> else r) st"
      using bind_changes by blast
    then show ?thesis using changes_ok(3) [of "\<lambda>r. if p r then r\<lparr>sr_codex_thread_id := Some t\<rparr> else r" uid st]
      by (simp add: OpBindThread)
  next
    case (OpDelete u)
    with delete_keeps [OF ok, of u] show ?thesis by (auto simp: keeps_store_def erases_def)
  next
    case (OpPrune protect dry_run)
    with prune_keeps [OF ok, of protect dry_run] show ?thesis by (auto simp: keeps_store_def erases_def)
  next
    case (OpClearName name)
    then show ?thesis by (simp add: clear_name_tombstone_def)
  qed (use assms(2) in simp_all)
qed

lemma ingest_counts:
  assumes "store_ok (hb_store h)"
  shows "under_way uid h c \<union> {count_events uid (hb_store h) + 1..count_events uid (hb_store (ingest_fact E p h))}
    \<subseteq> under_way uid (ingest_fact E p h) c"
proof (cases "gate_free (pe_session_uid p) h")
  case False
  then show ?thesis by (simp add: ingest_fact_def)
next
  case True
  then have free: "publishing_of (pe_session_uid p) h = []"
    by (auto simp: gate_free_def publishing_of_def split: option.splits)
  show ?thesis
  proof (cases "append_in_tx E p (hb_store h)")
    case (Inl e)
    with True show ?thesis by (simp add: ingest_fact_def append_event_def under_way_def)
  next
    case (Inr r)
    obtain ev st' where r: "r = (ev, st')" by (cases r)
    show ?thesis
    proof (cases ev)
      case None
      with Inr r have "st' = hb_store h" by (auto elim: append_cases)
      with True None show ?thesis by (simp add: ingest_fact_def append_event_def Inr r under_way_def)
    next
      case (Some e)
      note f = append_filed [OF assms Inr [unfolded r Some]]
      show ?thesis
      proof (cases "uid = pe_session_uid p")
        case True
        have "Suc (count_events (pe_session_uid p) (hb_store h)) \<in> ev_seq ` {e' \<in> insert e (set (wc_events c)). ev_session_uid e' = pe_session_uid p}"
          using f(2,3) by (intro image_eqI [of _ _ e]) simp_all
        with True \<open>gate_free (pe_session_uid p) h\<close> free f(2,3,5) Some show ?thesis
          by (auto simp: ingest_fact_def append_event_def Inr r under_way_def publishing_of_def hget_hput)
      next
        case False
        with \<open>gate_free (pe_session_uid p) h\<close> f(6) [of uid] Some show ?thesis
          by (auto simp: ingest_fact_def append_event_def Inr r under_way_def count_events_def)
      qed
    qed
  qed
qed

lemma scan_counts:
  assumes "store_ok (hb_store h)"
  shows "under_way uid h c \<union> {count_events uid (hb_store h) + 1..count_events uid (hb_store (ingest_scan E u ps cur h))}
    \<subseteq> under_way uid (ingest_scan E u ps cur h) c"
proof (cases "gate_free u h \<and> list_all (\<lambda>p. pe_session_uid p = u) ps")
  case False
  then show ?thesis by (auto simp: ingest_scan_def)
next
  case True
  then have free: "publishing_of u h = []"
    by (auto simp: gate_free_def publishing_of_def split: option.splits)
  show ?thesis
  proof (cases "run_exists u (hb_store h)")
    case False
    with True free show ?thesis by (auto simp: ingest_scan_def append_batch_with_cursor_def under_way_def)
  next
    case exists: True
    show ?thesis
    proof (cases "append_all E ps (hb_store h)")
      case (Inl e)
      with True exists show ?thesis by (simp add: ingest_scan_def append_batch_with_cursor_def under_way_def)
    next
      case (Inr r)
      obtain out st' where r: "r = (out, st')" by (cases r)
      note f = append_all_filed [OF Inr [unfolded r] assms conjunct2 [OF True]]
      have same: "count_events v (save_cursor_in_tx u cur st') = count_events v st'" for v
        by (simp add: count_events_def save_cursor_in_tx_def)
      have "{count_events u (hb_store h) + 1..count_events u st'} \<subseteq> ev_seq ` {e \<in> set out. ev_session_uid e = u}"
      proof -
        have "ev_seq ` set out = {Suc (count_events u (hb_store h))..<Suc (count_events u st')}"
          using f by (metis atLeastLessThan_upt set_map)
        moreover have "{e \<in> set out. ev_session_uid e = u} = set out" using f by (auto simp: list_all_iff)
        ultimately show ?thesis by auto
      qed
      with True exists free f show ?thesis
        by (cases "uid = u")
          (auto simp: ingest_scan_def append_batch_with_cursor_def Inr r under_way_def same, auto simp: count_events_def)
    qed
  qed
qed

text \<open>What a connection keeps while it is only the store's side that moves, and while nothing of the run moves.\<close>

lemma covered_same:
  assumes "covered uid h c" "hget (wc_watermarks c') uid = hget (wc_watermarks c) uid" "set (wc_events c') = set (wc_events c)"
    "replaying uid c \<Longrightarrow> replaying uid c'"
  shows "covered uid h c'"
  using assms by (auto simp: covered_def under_way_def split: option.splits)

lemma covered_unmarked: "hget (wc_watermarks c) uid = None \<Longrightarrow> covered uid h c"
  by (simp add: covered_def)

lemma covered_replaying: "replaying uid c \<Longrightarrow> covered uid h c"
  by (simp add: covered_def split: option.split)

lemma replay_covers:
  assumes "delivery_ok E (h, c)" "covered uid h c"
  shows "covered uid h (backlog_step E (hb_store h) c)"
proof (cases "wc_sessions c")
  case Nil
  with assms(2) show ?thesis by (simp add: backlog_step_def)
next
  case (Cons front rest)
  show ?thesis
  proof (cases "hget (wc_watermarks c) front")
    case None
    with Cons show ?thesis
      by (cases "uid = front")
        (auto simp: backlog_step_def replaying_def intro: covered_unmarked covered_same [OF assms(2)])
  next
    case (Some w)
    show ?thesis
    proof (cases "wc_page c")
      case (Cons e es)
      with \<open>wc_sessions c = front # rest\<close> Some show ?thesis
        by (cases "uid = front")
          (auto simp: backlog_step_def Let_def replaying_def hget_hput intro: covered_replaying covered_same [OF assms(2)])
    next
      case Nil
      have w: "w < 2 ^ 64" "store_ok (hb_store h)"
        using assms(1) Some by (auto simp: delivery_ok_def marks_ok_def split: option.splits)
      let ?page = "events_after E front w REPLAY_PAGE (hb_store h)"
      have c': "backlog_step E (hb_store h) c = (if ?page = [] then c\<lparr>wc_sessions := rest\<rparr> else c\<lparr>wc_page := ?page\<rparr>)"
        by (simp add: backlog_step_def Cons Some Nil Let_def)
      consider "?page \<noteq> []" | "?page = []" "uid \<noteq> front" | "?page = []" "uid = front" by blast
      then show ?thesis
      proof cases
        case 1
        then show ?thesis by (auto simp: c' replaying_def intro: covered_same [OF assms(2)])
      next
        case 2
        with Cons show ?thesis by (auto simp: c' replaying_def intro: covered_same [OF assms(2)])
      next
        case 3
        then have "count_events front (hb_store h) \<le> low_mark w"
          using events_after_eq [OF w(2,1), of E front REPLAY_PAGE] by (simp add: count_events_def REPLAY_PAGE_def)
        then have "count_events front (hb_store h) \<le> w" using w(1) by (simp add: low_mark_def split: if_splits)
        with 3 Some show ?thesis by (simp add: c' covered_def)
      qed
    qed
  qed
qed

lemma resync_all_replays:
  "replaying uid (fold (resync_one st n) us c) \<longleftrightarrow> uid \<in> set us \<or> replaying uid c"
  by (induction us arbitrary: c) (auto simp: resync_one_def begin_replays)

lemma hget_key: "hget m k = Some v \<Longrightarrow> k \<in> fst ` set m"
  by (force dest: map_of_SomeD)

lemma live_covers:
  assumes "delivery_ok E (h, c)" "covered uid h c" "wc_events c = e # es"
  shows "covered uid h (on_live_event e (c\<lparr>wc_events := es\<rparr>))" (is "covered uid h ?c")
proof -
  have still: "replaying uid c \<Longrightarrow> replaying uid ?c"
    by (auto simp: on_live_event_def replaying_def begin_replays [unfolded replaying_def] split: option.split live.split)
  have evs: "wc_events ?c = es" by (simp add: on_live_event_def split: option.split live.split)
  have way: "under_way uid h c \<subseteq> insert (ev_seq e) (under_way uid h ?c)"
    "ev_session_uid e \<noteq> uid \<Longrightarrow> under_way uid h c = under_way uid h ?c"
    using assms(3) by (auto simp: under_way_def evs)
  show ?thesis
  proof (cases "ev_session_uid e = uid \<and> (\<exists>w. hget (wc_watermarks c) uid = Some w) \<and> \<not> replaying uid c \<and> uid \<notin> set (st_deleted_sessions (hb_store h))")
    case False
    have "ev_session_uid e \<noteq> uid \<or> hget (wc_watermarks c) uid = None \<Longrightarrow> hget (wc_watermarks ?c) uid = hget (wc_watermarks c) uid"
      by (auto simp: on_live_event_def hget_hput split: option.split live.split)
    with False assms(2) still way(2) show ?thesis by (auto simp: covered_def split: option.splits)
  next
    case True
    then obtain w where e: "ev_session_uid e = uid" and w: "hget (wc_watermarks c) uid = Some w" by blast
    have lim: "w < 2 ^ 64" "is_filed E (hb_store h) e"
      using assms(1,3) w by (auto simp: delivery_ok_def marks_ok_def facts_filed_def split: option.splits)
    have all: "{w + 1..count_events uid (hb_store h)} \<subseteq> under_way uid h c"
      using assms(2) w True by (simp add: covered_def)
    show ?thesis
    proof (cases "live_delivery (ev_seq e) w")
      case LiveDeliver
      from live_next [OF lim(2,1) LiveDeliver] have "ev_seq e = w + 1" .
      moreover from this have "hget (wc_watermarks ?c) uid = Some (w + 1)"
        using LiveDeliver by (simp add: on_live_event_def e w hget_hput)
      moreover have "{w + 1 + 1..count_events uid (hb_store h)} \<subseteq> under_way uid h ?c"
      proof
        fix t
        assume t: "t \<in> {w + 1 + 1..count_events uid (hb_store h)}"
        then have "t \<in> under_way uid h c" by (intro subsetD [OF all]) simp
        with way(1) have "t \<in> insert (ev_seq e) (under_way uid h ?c)" by (rule subsetD)
        with t \<open>ev_seq e = w + 1\<close> show "t \<in> under_way uid h ?c" by simp
      qed
      ultimately show ?thesis by (simp add: covered_def)
    next
      case LiveAlreadySent
      then have "ev_seq e \<le> w" using lim(1)
        by (cases "w + 1 = 2 ^ 64") (auto simp: live_delivery_def after_mark_def split: if_splits)
      then have "{w + 1..count_events uid (hb_store h)} \<subseteq> under_way uid h ?c"
        using all way(1) by (auto simp: subset_iff)
      then show ?thesis by (simp add: covered_def on_live_event_def e w LiveAlreadySent)
    next
      case LiveGap
      with True w show ?thesis
        by (auto simp: on_live_event_def begin_replays intro!: covered_replaying)
    qed
  qed
qed

lemma receive_covers:
  assumes "delivery_ok E (h, c)" "covered uid h c"
  shows "covered uid h (receive capacity (hb_store h) c)"
proof (cases "length (wc_events c) > capacity")
  case True
  show ?thesis
  proof (cases "hget (wc_watermarks c) uid")
    case None
    then show ?thesis by (intro covered_unmarked) (simp add: receive_def Let_def True)
  next
    case (Some w)
    from hget_key [OF this] show ?thesis
      by (intro covered_replaying) (simp add: receive_def Let_def True resync_all_replays)
  qed
next
  case False
  with live_covers [OF assms] assms(2) show ?thesis by (simp add: receive_def split: list.split)
qed

lemma ingest_covers:
  assumes "delivery_ok E (h, c)" "covered uid h c"
  shows "covered uid (ingest_fact E p h) c" "covered uid (ingest_scan E u ps cur h) c"
proof -
  have ok: "store_ok (hb_store h)" and pub: "\<forall>u. list_all (\<lambda>e. is_filed E (hb_store h) e \<and> ev_session_uid e = u) (publishing_of u h)"
    using assms(1) by (simp_all add: delivery_ok_def facts_filed_def)
  show "covered uid (ingest_fact E p h) c"
    using ingest_hub [OF ok pub, of p] ingest_counts [OF ok, of uid c E p]
    by (intro covered_hub [OF assms(2)]) (auto simp: grows_def)
  show "covered uid (ingest_scan E u ps cur h) c"
    using scan_hub [OF ok pub, of u ps cur] scan_counts [OF ok, of uid c E u ps cur]
    by (intro covered_hub [OF assms(2)]) (auto simp: grows_def)
qed

lemma publish_covers:
  assumes "covered uid h c"
  shows "case ws_step E capacity (Publish u) (h, c) of (h', c') \<Rightarrow> covered uid h' c'"
proof (cases "publishing_of u h")
  case Nil
  then have "ws_step E capacity (Publish u) (h, c) = (h, c)"
    by (auto simp: publishing_of_def split: option.split list.split)
  with assms show ?thesis by simp
next
  case (Cons e es)
  then have s': "ws_step E capacity (Publish u) (h, c)
      = (h\<lparr>hb_publishing := hput u es (hb_publishing h)\<rparr>, c\<lparr>wc_events := wc_events c @ [e]\<rparr>)"
    by (auto simp: publishing_of_def split: option.splits)
  have "under_way uid h c \<subseteq> under_way uid (h\<lparr>hb_publishing := hput u es (hb_publishing h)\<rparr>) (c\<lparr>wc_events := wc_events c @ [e]\<rparr>)"
    using Cons by (auto simp: under_way_def)
  with assms show ?thesis unfolding s' by (auto simp: covered_def replaying_def split: option.splits)
qed

lemma store_call_covers:
  assumes "store_ok (hb_store h)" "covered uid h c" "\<not> files_facts op"
  shows "covered uid (h\<lparr>hb_store := store_step E op (hb_store h)\<rparr>) c"
  using other_calls [OF assms(1,3), of uid E] step_ok [OF assms(1), of E op]
  by (intro covered_hub [OF assms(2)]) (auto simp: grows_def erases_def under_way_def count_events_def)

lemma subscribe_covers:
  assumes "covered uid h c"
  shows "covered uid h (on_subscribe resolved n c)"
proof (cases resolved)
  case (Inl e)
  then show ?thesis by (auto simp: on_subscribe_def intro!: covered_same [OF assms])
next
  case (Inr u)
  show ?thesis
  proof (cases "u = uid")
    case True
    then show ?thesis by (auto simp: on_subscribe_def Inr begin_replays intro!: covered_replaying)
  next
    case False
    then show ?thesis
      by (auto simp: on_subscribe_def Inr begin_replays replaying_def [of uid "c\<lparr>wc_watermarks := w\<rparr>" for w]
          replaying_def [of uid c] hget_hput intro!: covered_same [OF assms])
  qed
qed

lemma unsubscribe_covers:
  assumes "covered uid h c"
  shows "covered uid h (on_unsubscribe session_id resolved c)"
proof (cases "session_id = uid \<or> resolved = Inr uid")
  case True
  then show ?thesis by (intro covered_unmarked) (auto simp: on_unsubscribe_def Let_def hget_hdel split: sum.split)
next
  case False
  then show ?thesis
    by (intro covered_same [OF assms]) (auto simp: on_unsubscribe_def Let_def hget_hdel replaying_def split: sum.split)
qed

lemma delete_covers:
  assumes "covered uid h c"
  shows "covered uid h (on_delete_answered u gone c)"
proof (cases "gone \<and> u = uid")
  case True
  then show ?thesis by (auto simp: on_delete_answered_def hget_hdel intro!: covered_unmarked)
next
  case False
  then show ?thesis by (auto simp: on_delete_answered_def hget_hdel replaying_def intro!: covered_same [OF assms])
qed

lemma step_covers:
  assumes "delivery_ok E (h, c)" "covered uid h c" "a \<noteq> Abandon uid"
  shows "case ws_step E capacity a (h, c) of (h', c') \<Rightarrow> covered uid h' c'"
proof (cases a)
  case (Publish u)
  show ?thesis unfolding Publish by (rule publish_covers [OF assms(2)])
next
  case (Abandon u)
  with assms show ?thesis by (auto simp: covered_def under_way_def split: option.splits)
next
  case (StoreCall op)
  with assms(2) store_call_covers [OF delivery_parts(1) [OF assms(1)] assms(2)] show ?thesis by simp
next
  case (AskHistory session_id resolved before_seq limit request_id)
  then show ?thesis by (auto simp: on_history_def replaying_def intro!: covered_same [OF assms(2)])
next
  case HistoryPass
  then show ?thesis by (auto simp: replaying_def intro!: covered_same [OF assms(2)])
qed (use assms ingest_covers subscribe_covers unsubscribe_covers delete_covers replay_covers receive_covers in simp_all)

lemma run_covers:
  assumes "delivery_ok E s" "case s of (h, c) \<Rightarrow> covered uid h c" "list_all (\<lambda>a. a \<noteq> Abandon uid) steps"
  shows "case ws_run E capacity steps s of (h, c) \<Rightarrow> covered uid h c"
  using assms
proof (induction steps arbitrary: s)
  case (Cons a steps)
  obtain h c where s: "s = (h, c)" by (cases s)
  have "delivery_ok E (ws_step E capacity a s)" using step_delivers(1) Cons.prems(1) by (simp add: s)
  moreover have "case ws_step E capacity a s of (h, c) \<Rightarrow> covered uid h c"
    using step_covers [where h = h and c = c and uid = uid and a = a] Cons.prems by (simp add: s)
  moreover have "list_all (\<lambda>a. a \<noteq> Abandon uid) steps" using Cons.prems(3) by simp
  ultimately show ?case using Cons.IH by (simp add: ws_run_def)
qed (simp add: ws_run_def)

text \<open>C32. A connection that has nothing left to do has sent everything. In any run in which no task that files the run's
  facts is aborted before it publishes them: when a connection that follows the run has no replay of it under way, every
  fact past its mark is in its receiver or about to be published; so once those are taken its mark is the log's last
  number. Facts pushed off the ring, facts that arrive out of order, and a page read before a fact was filed make no
  difference.\<close>
theorem a_quiet_connection_has_the_whole_log:
  assumes "list_all (\<lambda>a. a \<noteq> Abandon uid) steps"
  shows "case ws_run E capacity steps (ws_start E ops) of (h, c) \<Rightarrow>
    (case hget (wc_watermarks c) uid of
       None \<Rightarrow> True
     | Some w \<Rightarrow> replaying uid c \<or> uid \<in> set (st_deleted_sessions (hb_store h))
         \<or> {w + 1..count_events uid (hb_store h)}
            \<subseteq> ev_seq ` {e \<in> set (wc_events c) \<union> set (publishing_of uid h). ev_session_uid e = uid})"
proof -
  have "case ws_start E ops of (h, c) \<Rightarrow> covered uid h c"
    by (simp add: ws_start_def fresh_conn_def covered_def)
  from run_covers [OF start_delivers this assms, of capacity] show ?thesis
    unfolding covered_def under_way_def .
qed

lemma a_quiet_connection_has_the_whole_log_witness:
  "case ws_run sample_ext 1 [Subscribe (Inr ''s'') 0, ReplayPass, ReplayPass, ReplayPass, Receive] (ws_start sample_ext sample_ops) of (h, c) \<Rightarrow>
    (case hget (wc_watermarks c) ''s'' of
       None \<Rightarrow> True
     | Some w \<Rightarrow> replaying ''s'' c \<or> ''s'' \<in> set (st_deleted_sessions (hb_store h))
         \<or> {w + 1..count_events ''s'' (hb_store h)}
            \<subseteq> ev_seq ` {e \<in> set (wc_events c) \<union> set (publishing_of ''s'' h). ev_session_uid e = ''s''})"
  by (rule a_quiet_connection_has_the_whole_log) simp

end
