(* ===== verification/Ccd_Delivery_Replay.thy ===== *)
theory Ccd_Delivery_Replay
  imports Ccd_Delivery_Props
begin

text \<open>
  A replay ends, with a bound on its passes; where it does not, a subscription from a number past \<open>i64\<close>; and what a
  page of earlier facts holds.
\<close>

section \<open>A replay ends\<close>

text \<open>The passes a replay still needs: one for each fact of the page, and for each fact past the page at most the read
  that brings it and the pass that sends it, and one last read for each run.\<close>

definition mark_of :: "ws_conn \<Rightarrow> string \<Rightarrow> nat" where
  "mark_of c uid = (case hget (wc_watermarks c) uid of None \<Rightarrow> 0 | Some w \<Rightarrow> w)"

definition behind :: "store \<Rightarrow> ws_conn \<Rightarrow> string \<Rightarrow> nat" where
  "behind st c uid = count_events uid st - mark_of c uid"

definition page_top :: "nat \<Rightarrow> event list \<Rightarrow> nat" where
  "page_top w es = fold max (map ev_seq es) w"

fun passes_left :: "store \<Rightarrow> ws_conn \<Rightarrow> string list \<Rightarrow> nat" where
  "passes_left st c [] = 0"
| "passes_left st c (uid # rest) = length (wc_page c) + 2 * (count_events uid st - page_top (mark_of c uid) (wc_page c)) + 1
     + (\<Sum>u\<leftarrow>rest. 2 * behind st c u + 1)"

lemma fold_max_ge: "w \<le> fold max ns (w::nat)"
  by (induction ns arbitrary: w) (simp, metis fold_simps(2) max.cobounded1 max.commute order_trans)

lemma fold_max_in: "n \<in> set ns \<Longrightarrow> n \<le> fold max ns (w::nat)"
  by (induction ns arbitrary: w) (auto intro: order_trans [OF _ fold_max_ge])

lemma sum_list_le: "(\<And>x. x \<in> set xs \<Longrightarrow> f x \<le> g x) \<Longrightarrow> (\<Sum>x\<leftarrow>xs. f x) \<le> (\<Sum>x\<leftarrow>xs. g x :: nat)"
  by (rule sum_list_mono)

text \<open>No mark beyond the numbers a log can reach.\<close>

definition near_marks :: "ws_conn \<Rightarrow> bool" where
  "near_marks c \<longleftrightarrow> (\<forall>uid. mark_of c uid < 2 ^ 63)"

text \<open>What passes do: no mark goes back, no subscription comes or goes, and a run leaves the backlog only with nothing left.\<close>

definition replayed :: "store \<Rightarrow> ws_conn \<Rightarrow> ws_conn \<Rightarrow> bool" where
  "replayed st c c' \<longleftrightarrow>
     (\<forall>u. mark_of c u \<le> mark_of c' u \<and> (hget (wc_watermarks c') u = None \<longleftrightarrow> hget (wc_watermarks c) u = None))
     \<and> (\<forall>u \<in> set (wc_sessions c). u \<in> set (wc_sessions c') \<or> hget (wc_watermarks c') u = None \<or> behind st c' u = 0)"

lemma replayed_refl: "replayed st c c"
  by (simp add: replayed_def)

lemma replayed_trans: "replayed st c d \<Longrightarrow> replayed st d e \<Longrightarrow> replayed st c e"
proof -
  assume one: "replayed st c d" and two: "replayed st d e"
  have "behind st e u \<le> behind st d u" for u using two by (simp add: replayed_def behind_def diff_le_mono2)
  then have "behind st d u = 0 \<Longrightarrow> behind st e u = 0" for u by (metis le_zero_eq)
  with one two show ?thesis unfolding replayed_def by (metis order_trans)
qed

text \<open>A pass leaves fewer passes, or the same replay with its mark further on.\<close>

definition advanced :: "store \<Rightarrow> ws_conn \<Rightarrow> ws_conn \<Rightarrow> bool" where
  "advanced st c c' \<longleftrightarrow> passes_left st c' (wc_sessions c') < passes_left st c (wc_sessions c) \<and> near_marks c' \<and> replayed st c c'"

lemma front_mark:
  assumes "near_marks c" "hget (wc_watermarks c) front = Some w"
  shows "mark_of c front = w" "w < 2 ^ 63"
  using assms by (auto simp: near_marks_def mark_of_def split: option.splits)

lemma pass_unfollowed:
  fixes E :: ext and h :: hub and c :: ws_conn
  assumes "near_marks c" "wc_sessions c = front # rest" "hget (wc_watermarks c) front = None"
  defines "c' \<equiv> backlog_step E (hb_store h) c"
  shows "advanced (hb_store h) c c'"
proof -
  have c': "c' = c\<lparr>wc_page := [], wc_sessions := rest\<rparr>" by (simp add: c'_def backlog_step_def assms(2,3))
  have "passes_left (hb_store h) c' rest \<le> (\<Sum>u\<leftarrow>rest. 2 * behind (hb_store h) c u + 1)"
    by (cases rest) (simp_all add: c' behind_def mark_of_def page_top_def)
  with assms(1,3) show ?thesis by (auto simp: c' assms(2) advanced_def replayed_def near_marks_def mark_of_def)
qed

lemma pass_of_page:
  fixes E :: ext and h :: hub and c :: ws_conn
  assumes "delivery_ok E (h, c)" "near_marks c" and ss: "wc_sessions c = front # rest" and Some: "hget (wc_watermarks c) front = Some w"
    and Cons: "wc_page c = e # es"
  defines "c' \<equiv> backlog_step E (hb_store h) c"
  shows "advanced (hb_store h) c c'"
proof (cases "ev_seq e > w")
  case False
  note w = front_mark [OF assms(2) Some]
  from False have c': "c' = c\<lparr>wc_page := es\<rparr>" by (simp add: c'_def backlog_step_def ss Some Cons Let_def)
  have "page_top w (e # es) = page_top w es" using False by (simp add: page_top_def max_absorb2)
  moreover have "mark_of c' = mark_of c" by (simp add: c' mark_of_def [abs_def])
  ultimately show ?thesis using assms(2) w(1) by (simp add: c' ss replayed_def near_marks_def behind_def Cons advanced_def)
next
  case True
  note w = front_mark [OF assms(2) Some]
  from True have c': "c' = (send_out (SentEvent e) (c\<lparr>wc_page := es\<rparr>))\<lparr>wc_watermarks := hput front (ev_seq e) (wc_watermarks c)\<rparr>"
    by (simp add: c'_def backlog_step_def ss Some Cons Let_def)
  have "is_filed E (hb_store h) e" using assms(1) by (simp add: delivery_ok_def facts_filed_def Cons)
  then have seq: "ev_seq e < 2 ^ 63" by (simp add: is_filed_def)
  have m: "mark_of c' u = (if u = front then ev_seq e else mark_of c u)" for u
    by (simp add: c' mark_of_def hget_hput)
  have top: "page_top w (e # es) = page_top (ev_seq e) es" using True by (simp add: page_top_def max_absorb1)
  have sum: "(\<Sum>u\<leftarrow>rest. 2 * behind (hb_store h) c' u + 1) \<le> (\<Sum>u\<leftarrow>rest. 2 * behind (hb_store h) c u + 1)"
    using True w(1) by (intro sum_list_le) (auto simp: behind_def m)
  have "wc_sessions c' = front # rest" "wc_page c' = es" by (simp_all add: c' ss)
  with sum top w(1) have "passes_left (hb_store h) c' (wc_sessions c') < passes_left (hb_store h) c (wc_sessions c)"
    by (simp add: ss Cons m)
  moreover have "near_marks c'" using assms(2) seq by (simp add: near_marks_def m)
  moreover have "hget (wc_watermarks c') u = (if u = front then Some (ev_seq e) else hget (wc_watermarks c) u)" for u
    by (simp add: c' hget_hput)
  then have "replayed (hb_store h) c c'"
    using True w(1) Some \<open>wc_sessions c' = front # rest\<close> by (simp add: replayed_def ss m)
  ultimately show ?thesis by (simp add: advanced_def)
qed

lemma pass_without_page:
  fixes E :: ext and h :: hub and c :: ws_conn
  assumes "delivery_ok E (h, c)" "near_marks c" and ss: "wc_sessions c = front # rest" and Some: "hget (wc_watermarks c) front = Some w"
    and Nil: "wc_page c = []"
  defines "c' \<equiv> backlog_step E (hb_store h) c"
  shows "advanced (hb_store h) c c'"
proof -
  note w = front_mark [OF assms(2) Some]
  have ok: "store_ok (hb_store h)" using assms(1) by (simp add: delivery_ok_def)
  have w64: "w < 2 ^ 64" and low: "low_mark w = w" using w(2) by (simp_all add: low_mark_def)
  let ?page = "events_after E front w REPLAY_PAGE (hb_store h)" let ?n = "count_events front (hb_store h)"
  have seqs: "map ev_seq ?page = take REPLAY_PAGE [Suc w..<Suc ?n]" using page_seqs [OF ok w64, of E front REPLAY_PAGE] low by simp
  have len: "length ?page = min (?n - w) REPLAY_PAGE" using arg_cong [OF seqs, of length] by (simp del: upt_Suc)
  show ?thesis
  proof (cases "?page = []")
    case True
    then have c': "c' = c\<lparr>wc_sessions := rest\<rparr>" by (simp add: c'_def backlog_step_def ss Some Nil)
    have "?n \<le> w" using True len by (simp add: REPLAY_PAGE_def)
    moreover have "passes_left (hb_store h) c' rest \<le> (\<Sum>u\<leftarrow>rest. 2 * behind (hb_store h) c u + 1)"
      using Nil by (cases rest) (simp_all add: c' behind_def mark_of_def page_top_def)
    ultimately show ?thesis using assms(2) w(1) Nil
      by (auto simp: c' ss advanced_def replayed_def near_marks_def mark_of_def [abs_def] behind_def page_top_def)
  next
    case False
    then have c': "c' = c\<lparr>wc_page := ?page\<rparr>" by (simp add: c'_def backlog_step_def ss Some Nil)
    have pos: "0 < length ?page" using False by simp
    then have "w + length ?page \<in> set (map ev_seq ?page)"
    proof -
      have "map ev_seq ?page ! (length ?page - 1) = w + length ?page"
        using pos len by (simp only: seqs) (simp add: min_def del: upt_Suc split: if_splits)
      then show ?thesis using pos by (metis diff_less length_map nth_mem zero_less_one)
    qed
    then have "w + length ?page \<le> page_top w ?page" by (simp add: page_top_def fold_max_in)
    then have "length ?page + 2 * (?n - page_top w ?page) < 2 * (?n - w)" using pos len by linarith
    with assms(2) w(1) Nil show ?thesis
      by (auto simp: c' ss advanced_def replayed_def near_marks_def mark_of_def [abs_def] behind_def page_top_def [of _ "[]"])
  qed
qed

lemma pass_counts:
  fixes E :: ext and h :: hub and c :: ws_conn
  assumes "delivery_ok E (h, c)" "near_marks c" "wc_sessions c \<noteq> []"
  defines "c' \<equiv> backlog_step E (hb_store h) c"
  shows "passes_left (hb_store h) c' (wc_sessions c') < passes_left (hb_store h) c (wc_sessions c)"
    and "near_marks c'"
    and "replayed (hb_store h) c c'"
proof -
  obtain front rest where ss: "wc_sessions c = front # rest" using assms(3) by (cases "wc_sessions c") auto
  have "advanced (hb_store h) c c'"
  proof (cases "hget (wc_watermarks c) front")
    case None
    with pass_unfollowed [OF assms(2) ss] show ?thesis by (simp add: c'_def)
  next
    case (Some w)
    with pass_of_page [OF assms(1,2) ss] pass_without_page [OF assms(1,2) ss] show ?thesis
      by (cases "wc_page c") (simp_all add: c'_def)
  qed
  then show "passes_left (hb_store h) c' (wc_sessions c') < passes_left (hb_store h) c (wc_sessions c)" "near_marks c'" "replayed (hb_store h) c c'"
    by (simp_all add: advanced_def)
qed

lemma passes_end:
  assumes "delivery_ok E (h, c)" "near_marks c" "passes_left (hb_store h) c (wc_sessions c) \<le> n"
  shows "wc_sessions ((backlog_step E (hb_store h) ^^ n) c) = [] \<and> replayed (hb_store h) c ((backlog_step E (hb_store h) ^^ n) c)"
  using assms
proof (induction n arbitrary: c)
  case 0
  then have "wc_sessions c = []" by (cases "wc_sessions c") simp_all
  then show ?case by (simp add: replayed_refl)
next
  case (Suc n)
  let ?d = "backlog_step E (hb_store h) c"
  show ?case
  proof (cases "wc_sessions c = []")
    case True
    then have "(backlog_step E (hb_store h) ^^ k) c = c" for k by (induction k) (simp_all add: backlog_step_def)
    from this [of "Suc n"] True show ?thesis by (simp add: replayed_refl del: funpow.simps)
  next
    case False
    note one = pass_counts [OF Suc.prems(1,2) False]
    have "delivery_ok E (h, ?d)" using replay_ok [OF Suc.prems(1)] by blast
    moreover have "passes_left (hb_store h) ?d (wc_sessions ?d) \<le> n" using one(1) Suc.prems(3) by linarith
    ultimately have "wc_sessions ((backlog_step E (hb_store h) ^^ n) ?d) = [] \<and> replayed (hb_store h) ?d ((backlog_step E (hb_store h) ^^ n) ?d)"
      using Suc.IH [of ?d] one(2) by blast
    moreover have "(backlog_step E (hb_store h) ^^ Suc n) c = (backlog_step E (hb_store h) ^^ n) ?d"
      by (simp add: funpow_swap1)
    ultimately show ?thesis using replayed_trans [OF one(3)] by metis
  qed
qed

lemma passes_bound: "passes_left st c ss \<le> length (wc_page c) + (\<Sum>u\<leftarrow>ss. 2 * behind st c u + 1)"
proof (cases ss)
  case (Cons u rest)
  have "mark_of c u \<le> page_top (mark_of c u) (wc_page c)" by (simp add: page_top_def fold_max_ge)
  then show ?thesis by (simp add: Cons behind_def diff_le_mono2)
qed simp

text \<open>A subscription from a number an \<open>i64\<close> can hold.\<close>

fun near_subscription :: "ws_action \<Rightarrow> bool" where
  "near_subscription (Subscribe resolved after_seq) = (after_seq < 2 ^ 63)"
| "near_subscription a = True"

lemma step_near:
  assumes "delivery_ok E (h, c)" "near_marks c" "near_subscription a"
  shows "near_marks (snd (ws_step E capacity a (h, c)))"
  unfolding near_marks_def
proof
  fix uid
  let ?c = "snd (ws_step E capacity a (h, c))"
  have old: "mark_of c uid < 2 ^ 63" using assms(2) by (simp add: near_marks_def)
  have "resubscribes uid a \<or> moves uid c ?c" by (rule step_delivers(2) [OF assms(1)])
  then show "mark_of ?c uid < 2 ^ 63"
  proof
    assume "moves uid c ?c"
    then show ?thesis
      unfolding moves_def
    proof (elim disjE exE conjE)
      assume "hget (wc_watermarks ?c) uid = hget (wc_watermarks c) uid"
      with old show ?thesis by (simp add: mark_of_def)
    next
      fix w e
      assume e: "ev_seq e = w + 1" "hget (wc_watermarks ?c) uid = Some (w + 1)"
        "filter (\<lambda>e. ev_session_uid e = uid) (sent_events ?c) = filter (\<lambda>e. ev_session_uid e = uid) (sent_events c) @ [e]"
      from arg_cong [OF e(3), of set] have "e \<in> set (sent_events ?c)" by auto
      then have "is_filed E (hb_store (fst (ws_step E capacity a (h, c)))) e"
        using step_delivers(1) [OF assms(1), of capacity a]
        by (cases "ws_step E capacity a (h, c)") (simp add: delivery_ok_def facts_filed_def list_all_iff)
      with e show ?thesis by (simp add: mark_of_def is_filed_def)
    qed
  next
    assume "resubscribes uid a"
    with assms(3) old show ?thesis
      by (cases a) (auto simp: mark_of_def on_subscribe_def on_unsubscribe_def on_delete_answered_def Let_def hget_hput hget_hdel
          split: sum.split)
  qed
qed

lemma run_near:
  assumes "delivery_ok E s" "near_marks (snd s)" "list_all near_subscription steps"
  shows "near_marks (snd (ws_run E capacity steps s))"
  using assms
proof (induction steps arbitrary: s)
  case (Cons a steps)
  obtain h c where s: "s = (h, c)" by (cases s)
  have "delivery_ok E (ws_step E capacity a s)" using step_delivers(1) Cons.prems(1) by (simp add: s)
  moreover have "near_marks (snd (ws_step E capacity a s))" using step_near [where h = h and c = c and a = a] Cons.prems by (simp add: s)
  ultimately show ?case using Cons.IH Cons.prems(3) by (simp add: ws_run_def)
qed (simp add: ws_run_def)

text \<open>C33. A replay ends. From every state reached with each subscription asking from a number below \<open>2 ^ 63\<close>, and
  whatever the connection was doing there, its replays are finished after at most as many passes as the
  page it holds has facts, and one more than twice the facts each queued run is behind; and then every run that was
  queued and is still followed has been sent to its last fact. (A subscription from \<open>2 ^ 63\<close> on does not end: see below.)\<close>
theorem a_replay_ends:
  assumes "list_all near_subscription steps"
  shows "case ws_run E capacity steps (ws_start E ops) of (h, c) \<Rightarrow>
    let n = length (wc_page c) + (\<Sum>u\<leftarrow>wc_sessions c. 2 * (count_events u (hb_store h) - mark_of c u) + 1);
        c' = (backlog_step E (hb_store h) ^^ n) c
    in wc_sessions c' = []
       \<and> list_all (\<lambda>u. case hget (wc_watermarks c') u of None \<Rightarrow> True | Some w \<Rightarrow> count_events u (hb_store h) \<le> w) (wc_sessions c)"
proof -
  obtain h c where s: "ws_run E capacity steps (ws_start E ops) = (h, c)" by (cases "ws_run E capacity steps (ws_start E ops)")
  have "delivery_ok E (h, c)" using run_delivers [OF start_delivers [of E ops], of capacity steps] by (simp add: s)
  moreover have "near_marks c"
    using run_near [OF start_delivers _ assms, of E ops capacity]
    by (simp add: s) (simp add: ws_start_def fresh_conn_def near_marks_def mark_of_def)
  moreover define n where "n = length (wc_page c) + (\<Sum>u\<leftarrow>wc_sessions c. 2 * (count_events u (hb_store h) - mark_of c u) + 1)"
  moreover have "passes_left (hb_store h) c (wc_sessions c) \<le> n"
    unfolding n_def using passes_bound [of "hb_store h" c "wc_sessions c"] by (simp only: behind_def)
  ultimately have c': "wc_sessions ((backlog_step E (hb_store h) ^^ n) c) = []" "replayed (hb_store h) c ((backlog_step E (hb_store h) ^^ n) c)"
    using passes_end by blast+
  have "case hget (wc_watermarks ((backlog_step E (hb_store h) ^^ n) c)) u of None \<Rightarrow> True | Some w \<Rightarrow> count_events u (hb_store h) \<le> w"
    if "u \<in> set (wc_sessions c)" for u
    using c' that by (auto simp: replayed_def behind_def mark_of_def split: option.split)
  with c'(1) show ?thesis
    unfolding s prod.case n_def [symmetric] Let_def list_all_iff by blast
qed

lemma a_replay_ends_witness:
  "case ws_run sample_ext 1024 [Subscribe (Inr ''s'') 0] (ws_start sample_ext sample_ops) of (h, c) \<Rightarrow>
    let n = length (wc_page c) + (\<Sum>u\<leftarrow>wc_sessions c. 2 * (count_events u (hb_store h) - mark_of c u) + 1);
        c' = (backlog_step sample_ext (hb_store h) ^^ n) c
    in wc_sessions c' = []
       \<and> list_all (\<lambda>u. case hget (wc_watermarks c') u of None \<Rightarrow> True | Some w \<Rightarrow> count_events u (hb_store h) \<le> w) (wc_sessions c)"
  by (rule a_replay_ends) simp

section \<open>Where a replay does not end\<close>

lemma starved_pass:
  assumes "delivery_ok E (h, c)" "front_is uid c" "hget (wc_watermarks c) uid = Some n" "2 ^ 63 \<le> n" "run_events uid (hb_store h) \<noteq> []"
  shows "front_is uid (backlog_step E (hb_store h) c) \<and> hget (wc_watermarks (backlog_step E (hb_store h) c)) uid = Some n
    \<and> wc_sent (backlog_step E (hb_store h) c) = wc_sent c"
proof -
  obtain rest where ss: "wc_sessions c = uid # rest" using assms(2) by (auto simp: front_is_def split: list.splits)
  have n: "n < 2 ^ 64" "store_ok (hb_store h)"
    using assms(1,3) by (auto simp: delivery_ok_def marks_ok_def split: option.splits)
  show ?thesis
  proof (cases "wc_page c")
    case Nil
    have "events_after E uid n REPLAY_PAGE (hb_store h) \<noteq> []"
      using assms(4,5) n(1) by (simp add: events_after_eq [OF n(2,1)] low_mark_def REPLAY_PAGE_def)
    with assms(2,3) Nil show ?thesis by (simp add: backlog_step_def ss front_is_def)
  next
    case (Cons e es)
    have "is_filed E (hb_store h) e" using assms(1) by (simp add: delivery_ok_def facts_filed_def Cons)
    then have "\<not> ev_seq e > n" using assms(4) by (simp add: is_filed_def)
    with assms(2,3) Cons show ?thesis by (simp add: backlog_step_def ss front_is_def)
  qed
qed

text \<open>What the starved connection goes on doing: asking for other runs, and passes.\<close>

fun asks_for_others :: "string \<Rightarrow> ws_action \<Rightarrow> bool" where
  "asks_for_others uid ReplayPass = True"
| "asks_for_others uid (Subscribe (Inr u) m) = (u \<noteq> uid)"
| "asks_for_others uid a = False"

lemma starved_run:
  assumes "delivery_ok E (h, c)" "front_is uid c" "hget (wc_watermarks c) uid = Some n" "2 ^ 63 \<le> n" "run_events uid (hb_store h) \<noteq> []"
    "list_all (asks_for_others uid) steps"
  shows "case ws_run E capacity steps (h, c) of (h', c') \<Rightarrow> front_is uid c' \<and> wc_sent c' = wc_sent c"
  using assms
proof (induction steps arbitrary: c)
  case (Cons a steps)
  have ok: "delivery_ok E (ws_step E capacity a (h, c))" by (rule step_delivers(1) [OF Cons.prems(1)])
  from Cons.prems(6) consider "a = ReplayPass" | u m where "a = Subscribe (Inr u) m" "u \<noteq> uid"
    by (cases a) (auto elim: asks_for_others.elims)
  then show ?case
  proof cases
    case 1
    with ok starved_pass [OF Cons.prems(1-5)] Cons.prems(4-6) Cons.IH [of "backlog_step E (hb_store h) c"] show ?thesis
      by (simp add: ws_run_def)
  next
    case 2
    let ?c = "on_subscribe (Inr u) (m mod 2 ^ 64) c"
    have "front_is uid ?c" "hget (wc_watermarks ?c) uid = Some n" "wc_sent ?c = wc_sent c"
      using 2(2) Cons.prems(2,3) by (auto simp: on_subscribe_def backlog_begin_def front_is_def replaying_def hget_hput split: list.splits)
    with 2 ok Cons.prems(4-6) Cons.IH [of ?c] show ?thesis by (simp add: ws_run_def)
  qed
qed (simp add: ws_run_def)

text \<open>C34. A subscription from a number no \<open>i64\<close> holds starves its connection. The log is read from the same bits taken as
  a negative number, so every page is the log's head, none of its facts is past the mark, and no page is the last: the
  replay never ends, nothing of the run is sent, and the replays of the runs asked for afterwards, queued behind it,
  never begin.\<close>
theorem a_far_subscription_starves_the_rest:
  assumes "2 ^ 63 \<le> n" "n < 2 ^ 64" "run_events uid (store_run E ops empty_store) \<noteq> []" "list_all (asks_for_others uid) steps"
  shows "case ws_run E capacity (Subscribe (Inr uid) n # steps) (ws_start E ops) of (h, c) \<Rightarrow> replaying uid c \<and> wc_sent c = []"
proof -
  let ?s = "ws_step E capacity (Subscribe (Inr uid) n) (ws_start E ops)"
  obtain h c where s: "?s = (h, c)" by (cases ?s)
  have ok: "delivery_ok E (h, c)" using step_delivers(1) start_delivers s by (metis ws_start_def)
  have "front_is uid c" "hget (wc_watermarks c) uid = Some n" "run_events uid (hb_store h) \<noteq> []" "wc_sent c = []"
    using s assms(2,3)
    by (auto simp: ws_start_def on_subscribe_def fresh_conn_def backlog_begin_def front_is_def replaying_def hget_hput)
  with starved_run [OF ok _ _ assms(1) _ assms(4), of capacity]
  have "case ws_run E capacity steps (h, c) of (h', c') \<Rightarrow> front_is uid c' \<and> wc_sent c' = []" by simp
  moreover have "front_is uid c' \<Longrightarrow> replaying uid c'" for c'
    by (cases "wc_sessions c'") (simp_all add: front_is_def replaying_def)
  ultimately show ?thesis by (auto simp: ws_run_def s)
qed

lemma sample_stands: "get_session ''s'' (store_run sample_ext sample_ops empty_store) \<noteq> None"
  by (simp add: get_session_def sample_ops_def store_run_def append_event_def append_in_tx_def run_exists_def all_sessions_def
      upsert_session_at_generation_def sample_run_def session_tables_for_def carry_row_def empty_store_def rows_in_def put_rows_def
      shadow_refused_def record_project_def names_run_def pending_event_new_def max_seq_def run_events_def session_row.defs filed_session.defs Let_def)

lemma sample_filed: "run_events ''s'' (store_run sample_ext sample_ops empty_store) \<noteq> []"
  by (simp add: run_events_def sample_ops_def store_run_def append_event_def append_in_tx_def run_exists_def all_sessions_def
      upsert_session_at_generation_def sample_run_def session_tables_for_def carry_row_def empty_store_def rows_in_def put_rows_def
      shadow_refused_def record_project_def names_run_def pending_event_new_def max_seq_def session_row.defs filed_session.defs Let_def)

lemma far_subscription_witness:
  "case ws_run sample_ext 1024 (Subscribe (Inr ''s'') (2 ^ 63) # [Subscribe (Inr ''t'') 0, ReplayPass, ReplayPass, ReplayPass])
     (ws_start sample_ext sample_ops) of (h, c) \<Rightarrow> replaying ''s'' c \<and> wc_sent c = []"
  by (rule a_far_subscription_starves_the_rest) (simp_all add: sample_filed)

section \<open>Earlier pages\<close>

lemma rows_below:
  assumes "store_ok st"
  shows "filter (\<lambda>r. er_seq r < b) (run_events uid st) = take (b - 1) (run_events uid st)"
proof -
  let ?rs = "run_events uid st"
  have "filter (\<lambda>r. er_seq r < b) ?rs = filter (\<lambda>r. er_seq r < b) (take (b - 1) ?rs) @ filter (\<lambda>r. er_seq r < b) (drop (b - 1) ?rs)"
    by (metis append_take_drop_id filter_append)
  moreover have "filter (\<lambda>r. er_seq r < b) (take (b - 1) ?rs) = take (b - 1) ?rs"
    using seq_nth [OF assms] by (auto simp: filter_id_conv in_set_conv_nth count_events_def)
  moreover have "filter (\<lambda>r. er_seq r < b) (drop (b - 1) ?rs) = []"
    using seq_nth [OF assms] by (cases b) (auto simp: filter_empty_conv in_set_conv_nth count_events_def)
  ultimately show ?thesis by simp
qed

lemma events_before_eq:
  assumes "store_ok st"
  shows "events_before E uid b n st = (let k = min (count_events uid st) ((if b < 2 ^ 63 then b else 2 ^ 63 - 1) - 1) in
    map (event_from_row E uid) (drop (k - n) (take k (run_events uid st))))"
proof -
  have "sort_key er_seq (take k rs) = take k rs" if "sorted (map er_seq rs)" for k and rs :: "event_row list"
    using that by (intro sort_key_id_if_sorted) (simp add: take_map [symmetric] sorted_wrt_take)
  moreover have "rev (map f (take n (rev xs))) = map f (drop (length xs - n) xs)" for f :: "event_row \<Rightarrow> event" and xs
    by (simp add: rev_map rev_take)
  ultimately show ?thesis
    using sorted_run [OF assms, of uid] by (simp add: events_before_def rows_below [OF assms] count_events_def Let_def min_def)
qed

lemma page_sent:
  assumes "wc_history c = r # rest" "hq_error r = None" "hq_page r = Some es"
  shows "(history_step E st ^^ length es) c = c\<lparr>wc_history := r\<lparr>hq_page := Some [], hq_first_seq := fold (\<lambda>e m. min m (ev_seq e)) es (hq_first_seq r)\<rparr> # rest,
    wc_sent := wc_sent c @ map (SentPageEvent (hq_request_id r)) es\<rparr>"
  using assms
proof (induction es arbitrary: c r)
  case Nil
  then show ?case by simp
next
  case (Cons e es)
  let ?r = "r\<lparr>hq_page := Some es, hq_first_seq := min (hq_first_seq r) (ev_seq e)\<rparr>"
  have "history_step E st c = send_out (SentPageEvent (hq_request_id r) e) (c\<lparr>wc_history := ?r # rest\<rparr>)"
    using Cons.prems by (simp add: history_step_def)
  with Cons.IH [of "history_step E st c" ?r] Cons.prems show ?case
    by (simp add: funpow_swap1 send_out_def)
qed

lemma first_of_page: "sorted (map ev_seq (e # es)) \<Longrightarrow> ev_seq e \<le> b \<Longrightarrow> fold (\<lambda>e m. min m (ev_seq e)) (e # es) b = ev_seq e"
proof -
  assume "sorted (map ev_seq (e # es))" "ev_seq e \<le> b"
  moreover have low: "list_all (\<lambda>x. m \<le> ev_seq x) xs \<Longrightarrow> fold (\<lambda>e m. min m (ev_seq e)) xs m = m" for xs and m :: nat
    by (induction xs) (simp_all add: min_absorb1)
  ultimately show ?thesis using low [of "ev_seq e" es] by (simp add: min_absorb2 list_all_iff)
qed

lemma page_first:
  fixes E :: ext and uid :: string and i k :: nat
  assumes ok: "store_ok st" and k: "k \<le> before_seq - 1"
  defines "page \<equiv> map (event_from_row E uid) (drop i (take k (run_events uid st)))"
  shows "fold (\<lambda>e m. min m (ev_seq e)) page before_seq = (case page of [] \<Rightarrow> before_seq | e # es \<Rightarrow> ev_seq e)"
proof (cases page)
  case (Cons e es)
  have "map ev_seq page = map er_seq (drop i (take k (run_events uid st)))"
    by (simp add: page_def event_from_row_def o_def)
  moreover have "sorted (map er_seq (drop i (take j (run_events uid st))))" for i j
    using sorted_run [OF ok, of uid] by (simp add: drop_map [symmetric] take_map [symmetric] sorted_wrt_drop sorted_wrt_take)
  ultimately have "sorted (map ev_seq page)" by simp
  moreover have "ev_seq e \<le> before_seq"
  proof -
    have "e \<in> set page" by (simp add: Cons)
    then obtain r where "r \<in> set (take k (run_events uid st))" "ev_seq e = er_seq r"
      by (auto simp: page_def event_from_row_def dest: in_set_dropD)
    then obtain n where "n < k" "n < count_events uid st" "ev_seq e = er_seq (run_events uid st ! n)"
      by (auto simp: in_set_conv_nth count_events_def)
    with seq_nth [OF ok, of n uid] k show ?thesis by simp
  qed
  ultimately show ?thesis using first_of_page [of e es before_seq] by (simp add: Cons)
qed simp

text \<open>C35. A page of earlier facts is the newest below the number asked for. To a connection that owes no page, a request
  for a run that is there is answered in as many passes as the page has facts, and two: the newest \<open>limit\<close> facts, five
  hundred at most, numbered below \<open>before_seq\<close>, oldest first and each once, then one end that names the first of them,
  or \<open>before_seq\<close> itself where there is none.\<close>
theorem an_earlier_page_is_the_newest_below:
  assumes "get_session uid (store_run E ops empty_store) \<noteq> None" "wc_history c = []"
  shows "let st = store_run E ops empty_store;
      k = min (count_events uid st) ((if before_seq < 2 ^ 63 then before_seq else 2 ^ 63 - 1) - 1);
      page = map (event_from_row E uid) (drop (k - min limit 500) (take k (run_events uid st)))
    in case ws_run E capacity (AskHistory session_id (Inr uid) before_seq limit request_id # replicate (length page + 2) HistoryPass)
         (\<lparr>hb_store = st, hb_publishing = waiting\<rparr>, c) of
       (h', c') \<Rightarrow> wc_history c' = []
         \<and> wc_sent c' = wc_sent c @ map (SentPageEvent request_id) page
              @ [SentHistoryEnd session_id request_id before_seq (case page of [] \<Rightarrow> before_seq | e # es \<Rightarrow> ev_seq e) None]"
proof -
  define st where "st = store_run E ops empty_store"
  define k where "k = min (count_events uid st) ((if before_seq < 2 ^ 63 then before_seq else 2 ^ 63 - 1) - 1)"
  define page where "page = map (event_from_row E uid) (drop (k - min limit 500) (take k (run_events uid st)))"
  let ?h = "\<lparr>hb_store = st, hb_publishing = waiting\<rparr>"
  have ok: "store_ok st" unfolding st_def by (rule reached_ok)
  have read: "events_before E uid before_seq (min limit MAX_HISTORY_PAGE) st = page"
    by (simp add: events_before_eq [OF ok] page_def k_def MAX_HISTORY_PAGE_def Let_def)
  let ?r = "\<lparr>hq_session_id = session_id, hq_session_uid = uid, hq_before_seq = before_seq, hq_limit = min limit MAX_HISTORY_PAGE,
     hq_request_id = request_id, hq_page = None, hq_first_seq = before_seq, hq_error = None\<rparr>"
  let ?c = "c\<lparr>wc_history := [?r]\<rparr>" let ?d = "c\<lparr>wc_history := [?r\<lparr>hq_page := Some page\<rparr>]\<rparr>"
  have passes: "ws_run E capacity (replicate n HistoryPass) (?h, d) = (?h, (history_step E st ^^ n) d)" for n d
    by (induction n arbitrary: d) (simp_all add: ws_run_def funpow_swap1)
  obtain row where row: "get_session uid st = Some row" using assms(1) by (auto simp: st_def)
  have "history_step E st ?c = ?d"
    by (simp add: history_step_def read Let_def row)
  then have "(history_step E st ^^ (length page + 2)) ?c = history_step E st ((history_step E st ^^ length page) ?d)"
    by (simp add: funpow_swap1)
  also have "\<dots> = c\<lparr>wc_history := [], wc_sent := wc_sent c @ map (SentPageEvent request_id) page
      @ [SentHistoryEnd session_id request_id before_seq (fold (\<lambda>e m. min m (ev_seq e)) page before_seq) None]\<rparr>"
    using page_sent [of ?d "?r\<lparr>hq_page := Some page\<rparr>" "[]" page E st]
    by (simp add: history_step_def history_end_def send_out_def Let_def row)
  finally have run: "(history_step E st ^^ (length page + 2)) ?c = \<dots>" .
  have first: "fold (\<lambda>e m. min m (ev_seq e)) page before_seq = (case page of [] \<Rightarrow> before_seq | e # es \<Rightarrow> ev_seq e)"
    unfolding page_def by (rule page_first [OF ok]) (auto simp: k_def min_def)
  show ?thesis
    unfolding st_def [symmetric] Let_def k_def [symmetric] page_def [symmetric]
    using assms(2) passes [of "length page + 2" ?c] run first
    by (simp add: ws_run_def on_history_def history_request_new_def)
qed

lemma earlier_page_witness:
  "let st = store_run sample_ext sample_ops empty_store;
      k = min (count_events ''s'' st) ((if 9 < (2::nat) ^ 63 then 9 else 2 ^ 63 - 1) - 1);
      page = map (event_from_row sample_ext ''s'') (drop (k - min 2 500) (take k (run_events ''s'' st)))
    in case ws_run sample_ext 1024 (AskHistory ''cc-1'' (Inr ''s'') 9 2 ''r'' # replicate (length page + 2) HistoryPass)
         (\<lparr>hb_store = st, hb_publishing = []\<rparr>, fresh_conn) of
       (h', c') \<Rightarrow> wc_history c' = []
         \<and> wc_sent c' = wc_sent fresh_conn @ map (SentPageEvent ''r'') page
              @ [SentHistoryEnd ''cc-1'' ''r'' 9 (case page of [] \<Rightarrow> 9 | e # es \<Rightarrow> ev_seq e) None]"
proof (rule an_earlier_page_is_the_newest_below)
  show "get_session ''s'' (store_run sample_ext sample_ops empty_store) \<noteq> None" by (rule sample_stands)
qed (simp add: fresh_conn_def)

end
