(* ===== verification/Binary64.thy ===== *)
theory Binary64
  imports "HOL-Library.Log_Nat"
begin

text \<open>
  The rounding of \<open>f64\<close> arithmetic: a number that is not negative is taken to the nearest number with 53 binary digits
  and an exponent of at least \<open>-1074\<close>, and to the even one of two that are equally near. A value is the rational number
  it stands for; overflow to infinity is above every number the source computes and is left out.

  \<open>rounding\<close> is what programs rely on of it: order is kept, whole numbers up to \<open>2\<^sup>5\<^sup>3\<close> are exact, and rounding adds at
  most one in the last of 53 places.
\<close>

definition nearest_even :: "rat \<Rightarrow> int" where
  "nearest_even q = (let n = \<lfloor>q\<rfloor>; d = q - of_int n in
     if d < 1 / 2 then n else if d > 1 / 2 then n + 1 else if even n then n else n + 1)"

text \<open>The exponent of a positive number's leading binary digit.\<close>

definition exponent2 :: "rat \<Rightarrow> int" where
  "exponent2 x = (case quotient_of x of (a, b) \<Rightarrow>
     let k = int (floorlog 2 (nat a)) - int (floorlog 2 (nat b)) in if 2 powi k \<le> x then k else k - 1)"

definition unit_exponent :: "rat \<Rightarrow> int" where
  "unit_exponent x = max (exponent2 x) (-1022) - 52"

definition round64 :: "rat \<Rightarrow> rat" where
  "round64 x = (if x \<le> 0 then 0
     else of_int (nearest_even (x / 2 powi unit_exponent x)) * 2 powi unit_exponent x)"

locale rounding =
  fixes rnd :: "rat \<Rightarrow> rat"
  assumes mono: "0 \<le> x \<Longrightarrow> x \<le> y \<Longrightarrow> rnd x \<le> rnd y"
    and whole: "n \<le> 2 ^ 53 \<Longrightarrow> rnd (of_nat n) = of_nat n"
    and close: "0 \<le> x \<Longrightarrow> x \<le> 2 ^ k \<Longrightarrow> rnd x \<le> x + 2 ^ k / 2 ^ 52"
begin

lemma nonneg: "0 \<le> x \<Longrightarrow> 0 \<le> rnd x"
  using mono [of 0 x] whole [of 0] by simp

lemma at_least: "of_nat n \<le> x \<Longrightarrow> n \<le> 2 ^ 53 \<Longrightarrow> of_nat n \<le> rnd x"
  using mono [of "of_nat n" x] whole [of n] by simp

lemma at_most: "0 \<le> x \<Longrightarrow> x \<le> of_nat n \<Longrightarrow> n \<le> 2 ^ 53 \<Longrightarrow> rnd x \<le> of_nat n"
  using mono [of x "of_nat n"] whole [of n] by simp

end

lemma nearest_even_mono: "q \<le> r \<Longrightarrow> nearest_even q \<le> nearest_even r"
proof -
  assume le: "q \<le> r"
  show ?thesis
  proof (cases "\<lfloor>q\<rfloor> = \<lfloor>r\<rfloor>")
    case True
    with le show ?thesis by (auto simp: nearest_even_def Let_def)
  next
    case False
    with le have "\<lfloor>q\<rfloor> + 1 \<le> \<lfloor>r\<rfloor>" using floor_mono [OF le] by linarith
    moreover have "nearest_even q \<le> \<lfloor>q\<rfloor> + 1" "\<lfloor>r\<rfloor> \<le> nearest_even r" by (simp_all add: nearest_even_def Let_def)
    ultimately show ?thesis by linarith
  qed
qed

lemma nearest_even_whole [simp]: "nearest_even (of_int n) = n"
  by (simp add: nearest_even_def)

lemma exponent_bounds:
  assumes "0 < x"
  shows "2 powi exponent2 x \<le> x" "x < 2 powi (exponent2 x + 1)"
proof -
  obtain a b where q: "quotient_of x = (a, b)" by (cases "quotient_of x")
  then have b: "0 < b" and x: "x = of_int a / of_int b" using quotient_of_denom_pos quotient_of_div by blast+
  with assms have a: "0 < a" by (simp add: zero_less_divide_iff)
  let ?i = "floorlog 2 (nat a)" let ?j = "floorlog 2 (nat b)" let ?k = "int ?i - int ?j"
  have fa: "2 ^ (?i - 1) \<le> nat a" "nat a < 2 ^ ?i" and fb: "2 ^ (?j - 1) \<le> nat b" "nat b < 2 ^ ?j"
    using floorlog_bounds [of "nat a" 2] floorlog_bounds [of "nat b" 2] a b by simp_all
  have pos: "0 < ?i" "0 < ?j" using fa(2) fb(2) a b by (metis gr0I less_one nat_0_iff not_le power_0 zero_less_nat_eq)+
  have ra: "(2::rat) powi (int ?i - 1) \<le> of_int a" "of_int a < (2::rat) powi int ?i"
  proof -
    have "(2::rat) ^ (?i - 1) \<le> of_nat (nat a)" "of_nat (nat a) < (2::rat) ^ ?i"
      using fa by (metis of_nat_le_iff of_nat_numeral of_nat_power, metis of_nat_less_iff of_nat_numeral of_nat_power)
    then show "(2::rat) powi (int ?i - 1) \<le> of_int a" "of_int a < (2::rat) powi int ?i"
      using a pos(1) by (simp_all add: power_int_nonneg_exp nat_diff_distrib)
  qed
  have rb: "(2::rat) powi (int ?j - 1) \<le> of_int b" "of_int b < (2::rat) powi int ?j"
  proof -
    have "(2::rat) ^ (?j - 1) \<le> of_nat (nat b)" "of_nat (nat b) < (2::rat) ^ ?j"
      using fb by (metis of_nat_le_iff of_nat_numeral of_nat_power, metis of_nat_less_iff of_nat_numeral of_nat_power)
    then show "(2::rat) powi (int ?j - 1) \<le> of_int b" "of_int b < (2::rat) powi int ?j"
      using b pos(2) by (simp_all add: power_int_nonneg_exp nat_diff_distrib)
  qed
  have upper: "x < 2 powi (?k + 1)"
  proof -
    have "(2::rat) powi (?k + 1) * 2 powi (int ?j - 1) = 2 powi (?k + 1 + (int ?j - 1))" by (rule power_int_add [symmetric]) simp
    also have "?k + 1 + (int ?j - 1) = int ?i" by simp
    finally have "of_int a < (2::rat) powi (?k + 1) * 2 powi (int ?j - 1)" using ra(2) by (simp only:)
    also have "\<dots> \<le> 2 powi (?k + 1) * of_int b" using rb(1) by (intro mult_left_mono) simp_all
    finally show ?thesis using b by (simp add: x divide_less_eq)
  qed
  have lower: "2 powi (?k - 1) \<le> x"
  proof -
    have "(2::rat) powi (?k - 1) * of_int b \<le> 2 powi (?k - 1) * 2 powi int ?j"
      using rb(2) by (intro mult_left_mono) simp_all
    also have "\<dots> = 2 powi (int ?i - 1)" using power_int_add [of "2::rat" "?k - 1" "int ?j"] by simp
    also have "\<dots> \<le> of_int a" by (rule ra(1))
    finally show ?thesis using b by (simp add: x le_divide_eq)
  qed
  have e: "exponent2 x = (if 2 powi ?k \<le> x then ?k else ?k - 1)" by (simp add: exponent2_def q Let_def)
  have "2 powi exponent2 x \<le> x \<and> x < 2 powi (exponent2 x + 1)"
  proof (cases "2 powi ?k \<le> x")
    case True
    then have "exponent2 x = ?k" by (simp only: e if_True)
    with True upper show ?thesis by (simp only: simp_thms)
  next
    case False
    then have "exponent2 x = ?k - 1" by (simp only: e if_False)
    moreover have "x < 2 powi (?k - 1 + 1)" using False by (simp only: diff_add_cancel not_le)
    ultimately show ?thesis using lower by (simp only: simp_thms)
  qed
  then show "2 powi exponent2 x \<le> x" "x < 2 powi (exponent2 x + 1)" by blast+
qed

lemma exponent_mono: "0 < x \<Longrightarrow> x \<le> y \<Longrightarrow> exponent2 x \<le> exponent2 y"
proof (rule ccontr)
  assume a: "0 < x" "x \<le> y" "\<not> exponent2 x \<le> exponent2 y"
  have "y < 2 powi (exponent2 y + 1)" using exponent_bounds(2) a(1,2) by (meson less_le_trans)
  also have "\<dots> \<le> 2 powi exponent2 x" using a(3) by (intro power_int_increasing) simp_all
  also have "\<dots> \<le> x" using exponent_bounds(1) a(1) .
  finally show False using a(2) by simp
qed

lemma round64_mono:
  assumes "0 \<le> x" "x \<le> y"
  shows "round64 x \<le> round64 y"
proof (cases "0 < x")
  case False
  have "0 \<le> nearest_even q" if "0 \<le> q" for q using nearest_even_mono [of 0 q] nearest_even_whole [of 0] that by simp
  with False assms show ?thesis by (simp add: round64_def)
next
  case True
  let ?e = "unit_exponent x" let ?f = "unit_exponent y"
  have y: "0 < y" using True assms(2) by simp
  have "?e \<le> ?f" using exponent_mono [OF True assms(2)] by (simp add: unit_exponent_def)
  then consider "?e = ?f" | "?e < ?f" by linarith
  then have "of_int (nearest_even (x / 2 powi ?e)) * 2 powi ?e \<le> of_int (nearest_even (y / 2 powi ?f)) * (2::rat) powi ?f"
  proof cases
    case 1
    have "nearest_even (x / 2 powi ?e) \<le> nearest_even (y / 2 powi ?e)"
      using assms(2) by (intro nearest_even_mono divide_right_mono) simp_all
    with 1 show ?thesis by (simp add: mult_right_mono)
  next
    case 2
    have ex: "exponent2 x \<le> ?e + 52" and ey: "exponent2 y = ?f + 52" using 2 by (auto simp: unit_exponent_def max_def split: if_splits)
    have "x < 2 powi (?e + 53)"
    proof -
      have "x < 2 powi (exponent2 x + 1)" by (rule exponent_bounds(2) [OF True])
      also have "\<dots> \<le> 2 powi (?e + 53)" using ex by (intro power_int_increasing) simp_all
      finally show ?thesis .
    qed
    then have "x / 2 powi ?e \<le> of_int (2 ^ 53)" by (simp add: divide_le_eq power_int_add)
    from nearest_even_mono [OF this] have "nearest_even (x / 2 powi ?e) \<le> 2 ^ 53" by (simp only: nearest_even_whole)
    then have "of_int (nearest_even (x / 2 powi ?e)) * 2 powi ?e \<le> (of_int (2 ^ 53) :: rat) * 2 powi ?e"
      by (intro mult_right_mono) (simp_all only: of_int_le_iff, simp_all)
    also have "\<dots> \<le> of_int (2 ^ 52) * 2 powi ?f"
    proof -
      have "(2::rat) powi (?e + 1) \<le> 2 powi ?f" using 2 by (intro power_int_increasing) simp_all
      then show ?thesis by (simp add: power_int_add)
    qed
    also have "\<dots> \<le> of_int (nearest_even (y / 2 powi ?f)) * 2 powi ?f"
    proof -
      have "2 powi (?f + 52) \<le> y" using exponent_bounds(1) [OF y] by (simp add: ey)
      then have "of_int (2 ^ 52) \<le> y / 2 powi ?f" by (simp add: le_divide_eq power_int_add mult.commute)
      from nearest_even_mono [OF this] have "2 ^ 52 \<le> nearest_even (y / 2 powi ?f)" by (simp only: nearest_even_whole)
      then show ?thesis by (intro mult_right_mono) (simp_all only: of_int_le_iff, simp_all)
    qed
    finally show ?thesis .
  qed
  with True y show ?thesis by (simp add: round64_def)
qed

lemma round64_whole: "n \<le> 2 ^ 53 \<Longrightarrow> round64 (of_nat n) = of_nat n"
proof (cases "n = 0")
  case False
  assume n: "n \<le> 2 ^ 53"
  let ?x = "of_nat n :: rat" let ?e = "unit_exponent ?x"
  have pos: "0 < ?x" using False by simp
  have "1 \<le> ?x" using False by (simp add: Suc_leI)
  then have "(2::rat) powi 0 < 2 powi (exponent2 ?x + 1)" using exponent_bounds(2) [OF pos] by simp
  then have "0 < exponent2 ?x + 1" using power_int_increasing [of "exponent2 ?x + 1" 0 "2::rat"] by linarith
  then have e: "?e = exponent2 ?x - 52" by (simp add: unit_exponent_def)
  have "\<exists>m::int. ?x / 2 powi ?e = of_int m"
  proof (cases "exponent2 ?x \<le> 52")
    case True
    then have "?x / 2 powi ?e = of_int (int n * 2 ^ nat (52 - exponent2 ?x))"
      by (simp add: e power_int_diff power_int_minus field_simps power_int_nonneg_exp) (simp flip: power_int_nonneg_exp power_int_add)
    then show ?thesis by blast
  next
    case False
    have "(2::rat) powi 53 \<le> 2 powi exponent2 ?x" using False by (intro power_int_increasing) simp_all
    with exponent_bounds(1) [OF pos] have "(2::rat) powi 53 \<le> ?x" by (rule order_trans [rotated])
    then have "of_nat (2 ^ 53) \<le> ?x" by (simp only: power_int_numeral of_nat_power of_nat_numeral)
    then have "2 ^ 53 \<le> n" by (simp only: of_nat_le_iff)
    with n have n: "n = 2 ^ 53" by (rule le_antisym)
    have "exponent2 ?x < 54"
    proof (rule ccontr)
      assume "\<not> exponent2 ?x < 54"
      then have "(2::rat) powi 54 \<le> 2 powi exponent2 ?x" by (intro power_int_increasing) simp_all
      with exponent_bounds(1) [OF pos] n show False by simp
    qed
    with False have "?e = 1" by (simp add: e)
    then have "?x / 2 powi ?e = of_int (2 ^ 52)" by (simp add: n)
    then show ?thesis by blast
  qed
  then obtain m where "?x / 2 powi ?e = of_int m" ..
  then have q: "?x / 2 powi ?e = of_int m" .
  have "round64 ?x = of_int (nearest_even (?x / 2 powi ?e)) * 2 powi ?e"
    using pos by (simp only: round64_def not_le [symmetric] if_False)
  also have "\<dots> = ?x / 2 powi ?e * 2 powi ?e" by (simp only: q nearest_even_whole)
  also have "\<dots> = ?x" by (rule nonzero_eq_divide_eq [THEN iffD1, OF _ refl]) simp
  finally show ?thesis .
qed (simp add: round64_def)

lemma nearest_even_close: "of_int (nearest_even q) \<le> q + 1"
proof -
  have "of_int \<lfloor>q\<rfloor> \<le> q" by (rule of_int_floor_le)
  moreover have "nearest_even q \<le> \<lfloor>q\<rfloor> + 1" by (simp add: nearest_even_def Let_def)
  then have "of_int (nearest_even q) \<le> (of_int \<lfloor>q\<rfloor> + 1 :: rat)" by (metis of_int_1 of_int_add of_int_le_iff)
  ultimately show ?thesis by linarith
qed

lemma round64_close:
  assumes "0 \<le> x" "x \<le> 2 ^ k"
  shows "round64 x \<le> x + 2 ^ k / 2 ^ 52"
proof (cases "0 < x")
  case False
  with assms(1) show ?thesis by (simp add: round64_def)
next
  case True
  let ?u = "unit_exponent x"
  have "exponent2 x \<le> int k"
  proof (rule ccontr)
    assume "\<not> exponent2 x \<le> int k"
    then have "(2::rat) powi (int k + 1) \<le> 2 powi exponent2 x" by (intro power_int_increasing) simp_all
    also have "\<dots> \<le> x" by (rule exponent_bounds(1) [OF True])
    finally have "(2::rat) ^ k * 2 \<le> x" by (simp add: power_int_add)
    moreover have "(0::rat) < 2 ^ k" by simp
    ultimately show False using assms(2) by linarith
  qed
  then have "(2::rat) powi ?u \<le> 2 powi (int k - 52)" by (intro power_int_increasing) (simp_all add: unit_exponent_def)
  also have "\<dots> = 2 ^ k / 2 ^ 52" by (simp add: power_int_diff)
  finally have unit: "(2::rat) powi ?u \<le> 2 ^ k / 2 ^ 52" .
  have "round64 x = of_int (nearest_even (x / 2 powi ?u)) * 2 powi ?u"
    using True by (simp only: round64_def not_le [symmetric] if_False)
  also have "\<dots> \<le> (x / 2 powi ?u + 1) * 2 powi ?u" by (intro mult_right_mono nearest_even_close) simp
  also have "\<dots> = x + 2 powi ?u" by (simp add: distrib_right)
  finally show ?thesis using unit by linarith
qed

interpretation binary64: rounding round64
  by unfold_locales (rule round64_mono round64_whole round64_close; assumption)+

end
