(* ===== verification/Relay_Limit.thy ===== *)
theory Relay_Limit
  imports Broker_Prelude Binary64
begin

text \<open>
  The abuse limits of the push relay (\<open>push-relay/src/ratelimit.rs\<close>): a token bucket per key in memory, a count per key
  and day in the table \<open>rate_buckets\<close>, and the sweeps of both.

  A table is the list of its rows. A call holds the lock of the map, and then the connection, while it works, so each of
  \<open>take\<close> and \<open>daily\<close> is one step; a caller's transaction that is dropped takes back what \<open>daily\<close> wrote and nothing else. Tokens are binary64 numbers; \<open>round64\<close> stands at every operation that rounds.
  HMAC is an argument. Instants are milliseconds and the subtractions saturate where the source's do.
\<close>

definition DAY_MS :: int where "DAY_MS = 24 * 60 * 60 * 1000"
definition MINUTE_MS :: rat where "MINUTE_MS = 60000"
definition PRUNE_INTERVAL_MS :: int where "PRUNE_INTERVAL_MS = 60000"
definition IDLE_WINDOW_MS :: int where "IDLE_WINDOW_MS = 5 * 60000"

record rate_limit =
  rl_burst :: nat
  rl_per_minute :: nat
  rl_per_day :: nat

definition BINDING :: rate_limit where "BINDING = \<lparr>rl_burst = 10, rl_per_minute = 10, rl_per_day = 500\<rparr>"
definition UNVERIFIED_TOKEN :: rate_limit where "UNVERIFIED_TOKEN = \<lparr>rl_burst = 5, rl_per_minute = 5, rl_per_day = 50\<rparr>"
definition CHALLENGE_IP :: rate_limit where "CHALLENGE_IP = \<lparr>rl_burst = 10, rl_per_minute = 10, rl_per_day = 200\<rparr>"
definition ENROLL_IP :: rate_limit where "ENROLL_IP = \<lparr>rl_burst = 5, rl_per_minute = 5, rl_per_day = 50\<rparr>"
definition INVALID_AUTH_IP :: rate_limit where "INVALID_AUTH_IP = \<lparr>rl_burst = 5, rl_per_minute = 5, rl_per_day = 25\<rparr>"
definition CHALLENGE_GLOBAL :: rate_limit where "CHALLENGE_GLOBAL = \<lparr>rl_burst = 200, rl_per_minute = 200, rl_per_day = 0\<rparr>"
definition ENROLL_GLOBAL :: rate_limit where "ENROLL_GLOBAL = \<lparr>rl_burst = 100, rl_per_minute = 100, rl_per_day = 0\<rparr>"

definition CHALLENGE_GLOBAL_KEY :: string where "CHALLENGE_GLOBAL_KEY = ''global:challenge''"
definition ENROLL_GLOBAL_KEY :: string where "ENROLL_GLOBAL_KEY = ''global:enroll''"

datatype limit_decision = Allowed | Limited nat

definition is_allowed :: "limit_decision \<Rightarrow> bool" where
  "is_allowed d = (case d of Allowed \<Rightarrow> True | Limited s \<Rightarrow> False)"

section \<open>Keys\<close>

definition binding_key :: "string \<Rightarrow> string" where
  "binding_key token_hash = ''binding:'' @ token_hash"

definition unverified_key :: "string \<Rightarrow> string" where
  "unverified_key token_hash = ''unverified:'' @ token_hash"

text \<open>\<open>hmac\<close> is the tag under the process's pepper.\<close>

definition ip_key :: "(string \<Rightarrow> string) \<Rightarrow> string \<Rightarrow> string option \<Rightarrow> int \<Rightarrow> string" where
  "ip_key hmac purpose ip now =
     (let day = now div DAY_MS;
          address = (case ip of None \<Rightarrow> ''unknown'' | Some a \<Rightarrow> a);
          tag = hmac (dec_int day @ CHR 0x00 # address)
      in purpose @ '':'' @ concat (map (\<lambda>b. [hex_digit (of_char b div 16), hex_digit (of_char b mod 16)]) (take 16 tag)))"

section \<open>The limiter\<close>

record window =
  wn_tokens :: rat
  wn_updated_ms :: int

record bucket_row =
  bu_key :: string
  bu_day_start_ms :: int
  bu_day_count :: nat

record limiter =
  lm_windows :: "(string, window) hash"
  lm_windows_swept_ms :: int
  lm_buckets_swept_ms :: int
  lm_rate_buckets :: "bucket_row list"

definition i64_sub :: "int \<Rightarrow> int \<Rightarrow> int" where
  "i64_sub a b = max (- (2 ^ 63)) (min (2 ^ 63 - 1) (a - b))"

text \<open>A process that starts: the table is what the one before left.\<close>

definition limiter_new :: "bucket_row list \<Rightarrow> limiter" where
  "limiter_new table = \<lparr>lm_windows = [], lm_windows_swept_ms = - (2 ^ 63), lm_buckets_swept_ms = - (2 ^ 63),
     lm_rate_buckets = table\<rparr>"

definition due :: "int \<Rightarrow> int \<Rightarrow> bool \<times> int" where
  "due last_ms now = (if i64_sub now last_ms < PRUNE_INTERVAL_MS then (False, last_ms) else (True, now))"

definition keep_window :: "int \<Rightarrow> window \<Rightarrow> bool" where
  "keep_window now w \<longleftrightarrow> i64_sub now (wn_updated_ms w) \<le> IDLE_WINDOW_MS"

definition sweep_windows :: "int \<Rightarrow> limiter \<Rightarrow> limiter" where
  "sweep_windows now l = l\<lparr>lm_windows := hretain (\<lambda>k w. keep_window now w) (lm_windows l)\<rparr>"

text \<open>The tokens of a window at an instant, each operation rounded.\<close>

definition refilled :: "rate_limit \<Rightarrow> int \<Rightarrow> window \<Rightarrow> rat" where
  "refilled limit now w =
     (let elapsed = round64 (of_int (max 0 (i64_sub now (wn_updated_ms w))));
          gained = round64 (round64 (elapsed * of_nat (rl_per_minute limit)) / MINUTE_MS)
      in min (round64 (wn_tokens w + gained)) (of_nat (rl_burst limit)))"

definition available :: "string \<Rightarrow> rate_limit \<Rightarrow> int \<Rightarrow> limiter \<Rightarrow> rat" where
  "available key limit now l = (case hget (lm_windows l) key of
     None \<Rightarrow> of_nat (rl_burst limit) | Some w \<Rightarrow> refilled limit now w)"

text \<open>\<open>ceil().max(1.0) as u64\<close>; a rate of none divides by zero, and infinity becomes the largest \<open>u64\<close>.\<close>

definition retry_after :: "rate_limit \<Rightarrow> rat \<Rightarrow> nat" where
  "retry_after limit tokens =
     (if rl_per_minute limit = 0 then 2 ^ 64 - 1
      else let wait_ms = round64 (round64 (round64 (1 - tokens) * MINUTE_MS) / of_nat (rl_per_minute limit))
           in min (2 ^ 64 - 1) (nat (max 1 \<lceil>round64 (wait_ms / 1000)\<rceil>)))"

definition take_token :: "string \<Rightarrow> rate_limit \<Rightarrow> int \<Rightarrow> limiter \<Rightarrow> limit_decision \<times> limiter" where
  "take_token key limit now l =
     (let (is_due, swept) = due (lm_windows_swept_ms l) now;
          l = l\<lparr>lm_windows_swept_ms := swept\<rparr>;
          l = (if is_due then sweep_windows now l else l);
          w = (case hget (lm_windows l) key of None \<Rightarrow> \<lparr>wn_tokens = of_nat (rl_burst limit), wn_updated_ms = now\<rparr> | Some w \<Rightarrow> w);
          tokens = refilled limit now w
      in if tokens \<ge> 1
         then (Allowed, l\<lparr>lm_windows := hput key \<lparr>wn_tokens = round64 (tokens - 1), wn_updated_ms = now\<rparr> (lm_windows l)\<rparr>)
         else (Limited (retry_after limit tokens),
               l\<lparr>lm_windows := hput key \<lparr>wn_tokens = tokens, wn_updated_ms = now\<rparr> (lm_windows l)\<rparr>))"

definition day_start :: "int \<Rightarrow> int" where
  "day_start now = now - now mod DAY_MS"

definition limiter_sweep :: "int \<Rightarrow> limiter \<Rightarrow> nat \<times> limiter" where
  "limiter_sweep now l =
     (let stale = (\<lambda>r. bu_day_start_ms r < day_start now) in
      (length (filter stale (lm_rate_buckets l)),
       sweep_windows now (l\<lparr>lm_rate_buckets := filter (\<lambda>r. \<not> stale r) (lm_rate_buckets l)\<rparr>)))"

definition sweep_if_due :: "int \<Rightarrow> limiter \<Rightarrow> limiter" where
  "sweep_if_due now l = (case due (lm_buckets_swept_ms l) now of (is_due, swept) \<Rightarrow>
     let l = l\<lparr>lm_buckets_swept_ms := swept\<rparr> in if is_due then snd (limiter_sweep now l) else l)"

text \<open>The upsert on \<open>bucket_key\<close>, with the count it returns.\<close>

definition count_request :: "string \<Rightarrow> int \<Rightarrow> bucket_row list \<Rightarrow> nat \<times> bucket_row list" where
  "count_request key day table = (case find (\<lambda>r. bu_key r = key) table of
     None \<Rightarrow> (1, table @ [\<lparr>bu_key = key, bu_day_start_ms = day, bu_day_count = 1\<rparr>])
   | Some r \<Rightarrow>
       let n = (if bu_day_start_ms r = day then bu_day_count r + 1 else 1) in
       (n, map (\<lambda>q. if bu_key q = key then q\<lparr>bu_day_start_ms := day, bu_day_count := n\<rparr> else q) table))"

definition daily :: "string \<Rightarrow> rate_limit \<Rightarrow> int \<Rightarrow> limiter \<Rightarrow> limit_decision \<times> limiter" where
  "daily key limit now l =
     (let day = day_start now; l = sweep_if_due now l in
      case count_request key day (lm_rate_buckets l) of (n, table) \<Rightarrow>
        let l = l\<lparr>lm_rate_buckets := table\<rparr> in
        if n > rl_per_day limit then (Limited (nat (max 1000 (day + DAY_MS - now) div 1000)), l) else (Allowed, l))"

definition check :: "string \<Rightarrow> rate_limit \<Rightarrow> int \<Rightarrow> limiter \<Rightarrow> limit_decision \<times> limiter" where
  "check key limit now l = (case take_token key limit now l of
     (Limited s, l') \<Rightarrow> (Limited s, l')
   | (Allowed, l') \<Rightarrow> if rl_per_day limit = 0 then (Allowed, l') else daily key limit now l')"

definition spent :: "string \<Rightarrow> rate_limit \<Rightarrow> int \<Rightarrow> limiter \<Rightarrow> bool" where
  "spent key limit now l \<longleftrightarrow>
     (if available key limit now l < 1 then True
      else if rl_per_day limit = 0 then False
      else (case find (\<lambda>r. bu_key r = key \<and> bu_day_start_ms r = day_start now) (lm_rate_buckets l) of
          None \<Rightarrow> 0 | Some r \<Rightarrow> bu_day_count r) \<ge> rl_per_day limit)"

section \<open>The limiter in use\<close>

text \<open>A call, the timer's sweep, or the end of the process and the next one's start. Which rule a key has is fixed by
  its prefix. An enrollment and an assertion check the binding's budget inside the transaction that consumes the
  challenge, and what they meet afterwards (\<open>TokenUnregistered\<close>, a distribution rule, a fault) returns without the
  commit, as a refused check does (\<open>enroll.rs\<close>): the transaction's rows go back, the sweep's and the count's with
  them, while what the limiter keeps in memory stays. That is the call \<open>CheckUndone\<close>.\<close>

datatype limiter_call = Check string int | CheckUndone string int | Sweep int | Restart

fun limiter_step :: "(string \<Rightarrow> rate_limit) \<Rightarrow> limiter_call \<Rightarrow> limiter \<Rightarrow> limiter" where
  "limiter_step rule (Check key now) l = snd (check key (rule key) now l)"
| "limiter_step rule (CheckUndone key now) l = (snd (check key (rule key) now l))\<lparr>lm_rate_buckets := lm_rate_buckets l\<rparr>"
| "limiter_step rule (Sweep now) l = snd (limiter_sweep now l)"
| "limiter_step rule Restart l = limiter_new (lm_rate_buckets l)"

definition limiter_run :: "(string \<Rightarrow> rate_limit) \<Rightarrow> limiter_call list \<Rightarrow> limiter \<Rightarrow> limiter" where
  "limiter_run rule calls l = fold (limiter_step rule) calls l"

end
