(* ===== verification/Relay_Limit_Props.thy ===== *)
theory Relay_Limit_Props
  imports Relay_Limit
begin

text \<open>
  What the limits come to: a window never holds more than its burst, a day's budget is spent once whatever restarts, to
  ask whether a budget is spent is to know whether the next request is refused, and a refusal says when to come back.
\<close>

section \<open>Windows\<close>

definition window_ok :: "rate_limit \<Rightarrow> window \<Rightarrow> bool" where
  "window_ok limit w \<longleftrightarrow> 0 \<le> wn_tokens w \<and> wn_tokens w \<le> of_nat (rl_burst limit)"

definition limiter_ok :: "(string \<Rightarrow> rate_limit) \<Rightarrow> limiter \<Rightarrow> bool" where
  "limiter_ok rule l \<longleftrightarrow> hwf (lm_windows l) \<and> list_all (\<lambda>(k, w). window_ok (rule k) w) (lm_windows l)
     \<and> distinct (map bu_key (lm_rate_buckets l))"

text \<open>A rule the code has: some burst, some rate that refills it in five minutes, all within a \<open>u32\<close>.\<close>

definition rule_ok :: "rate_limit \<Rightarrow> bool" where
  "rule_ok limit \<longleftrightarrow> 1 \<le> rl_burst limit \<and> 1 \<le> rl_per_minute limit \<and> rl_burst limit \<le> 5 * rl_per_minute limit
     \<and> rl_burst limit < 2 ^ 32 \<and> rl_per_minute limit < 2 ^ 32"

lemma rules_ok: "list_all rule_ok [BINDING, UNVERIFIED_TOKEN, CHALLENGE_IP, ENROLL_IP, INVALID_AUTH_IP, CHALLENGE_GLOBAL, ENROLL_GLOBAL]"
  by (simp add: rule_ok_def BINDING_def UNVERIFIED_TOKEN_def CHALLENGE_IP_def ENROLL_IP_def INVALID_AUTH_IP_def
      CHALLENGE_GLOBAL_def ENROLL_GLOBAL_def)

definition gained :: "rate_limit \<Rightarrow> int \<Rightarrow> window \<Rightarrow> rat" where
  "gained limit now w =
     round64 (round64 (round64 (of_int (max 0 (i64_sub now (wn_updated_ms w)))) * of_nat (rl_per_minute limit)) / MINUTE_MS)"

lemma refilled_eq: "refilled limit now w = min (round64 (wn_tokens w + gained limit now w)) (of_nat (rl_burst limit))"
  by (simp add: refilled_def gained_def Let_def)

lemma gained_nonneg: "0 \<le> gained limit now w"
  unfolding gained_def MINUTE_MS_def
  by (intro binary64.nonneg divide_nonneg_nonneg mult_nonneg_nonneg) simp_all

lemma refilled_bounds: "window_ok limit w \<Longrightarrow> 0 \<le> refilled limit now w \<and> refilled limit now w \<le> of_nat (rl_burst limit)"
  using binary64.nonneg [of "wn_tokens w + gained limit now w"] gained_nonneg [of limit now w]
  by (simp add: refilled_eq window_ok_def)

lemma refilled_full:
  assumes "rl_burst limit < 2 ^ 32" "wn_tokens w = of_nat (rl_burst limit)"
  shows "refilled limit now w = of_nat (rl_burst limit)"
proof -
  have "of_nat (rl_burst limit) \<le> round64 (wn_tokens w + gained limit now w)"
    using assms gained_nonneg [of limit now w] by (intro binary64.at_least) simp_all
  then show ?thesis by (simp add: refilled_eq)
qed

text \<open>A window that has been left alone for longer than a sweep waits is full again.\<close>

lemma refilled_idle:
  assumes "rule_ok limit" "window_ok limit w" "\<not> keep_window now w"
  shows "refilled limit now w = of_nat (rl_burst limit)"
proof -
  let ?e = "i64_sub now (wn_updated_ms w)" let ?n = "rl_per_minute limit"
  have rates: "?n < 2 ^ 32" "rl_burst limit \<le> 5 * ?n" "rl_burst limit < 2 ^ 32" using assms(1) by (simp_all add: rule_ok_def)
  have "of_nat 300000 \<le> (of_int (max 0 ?e) :: rat)" using assms(3) by (simp add: keep_window_def IDLE_WINDOW_MS_def)
  then have "of_nat 300000 \<le> round64 (of_int (max 0 ?e))" by (rule binary64.at_least) simp
  then have "of_nat (300000 * ?n) \<le> round64 (of_int (max 0 ?e)) * of_nat ?n" by (simp add: mult_right_mono)
  then have "of_nat (300000 * ?n) \<le> round64 (round64 (of_int (max 0 ?e)) * of_nat ?n)"
    by (rule binary64.at_least) (use rates in simp)
  then have "of_nat (5 * ?n) \<le> round64 (round64 (of_int (max 0 ?e)) * of_nat ?n) / MINUTE_MS"
    by (simp add: MINUTE_MS_def)
  then have "of_nat (5 * ?n) \<le> gained limit now w"
    unfolding gained_def by (rule binary64.at_least) (use rates in simp)
  with rates(2) assms(2) have "of_nat (rl_burst limit) \<le> wn_tokens w + gained limit now w"
    by (simp add: window_ok_def)
  then have "of_nat (rl_burst limit) \<le> round64 (wn_tokens w + gained limit now w)"
    by (rule binary64.at_least) (use rates in simp)
  then show ?thesis by (simp add: refilled_eq)
qed

lemma sweep_windows_ok: "limiter_ok rule l \<Longrightarrow> limiter_ok rule (sweep_windows now l)"
  by (auto simp: limiter_ok_def sweep_windows_def list_all_iff set_hretain)

text \<open>What \<open>take\<close> comes to: the tokens it looks at are the ones a peek computes.\<close>

lemma take_available:
  assumes "limiter_ok rule l" "rule_ok (rule key)"
  shows "is_allowed (fst (take_token key (rule key) now l)) \<longleftrightarrow> 1 \<le> available key (rule key) now l"
    and "limiter_ok rule (snd (take_token key (rule key) now l))"
    and "lm_rate_buckets (snd (take_token key (rule key) now l)) = lm_rate_buckets l"
proof -
  obtain is_due swept where d: "due (lm_windows_swept_ms l) now = (is_due, swept)" by (cases "due (lm_windows_swept_ms l) now")
  define m where "m = (if is_due then sweep_windows now (l\<lparr>lm_windows_swept_ms := swept\<rparr>) else l\<lparr>lm_windows_swept_ms := swept\<rparr>)"
  define w where "w = (case hget (lm_windows m) key of
     None \<Rightarrow> \<lparr>wn_tokens = of_nat (rl_burst (rule key)), wn_updated_ms = now\<rparr> | Some w \<Rightarrow> w)"
  define tokens where "tokens = refilled (rule key) now w"
  have burst: "rl_burst (rule key) < 2 ^ 32" using assms(2) by (simp add: rule_ok_def)
  have "limiter_ok rule (l\<lparr>lm_windows_swept_ms := swept\<rparr>)" using assms(1) by (simp add: limiter_ok_def)
  with sweep_windows_ok have m: "limiter_ok rule m" by (simp add: m_def)
  have wn: "window_ok (rule key) v" if "hget (lm_windows l) key = Some v" for v
    using assms(1) hget_in_set [OF that] by (auto simp: limiter_ok_def list_all_iff)
  have w: "window_ok (rule key) w"
    using m hget_in_set [of "lm_windows m" key] by (auto simp: w_def limiter_ok_def list_all_iff window_ok_def split: option.split)
  have same: "tokens = available key (rule key) now l"
  proof (cases "hget (lm_windows l) key")
    case None
    have "hwf (lm_windows l)" using assms(1) by (simp add: limiter_ok_def)
    with None have "hget (lm_windows m) key = None" by (simp add: m_def sweep_windows_def hget_hretain)
    then show ?thesis using refilled_full [OF burst] by (simp add: tokens_def w_def available_def None)
  next
    case (Some v)
    have "hwf (lm_windows l)" using assms(1) by (simp add: limiter_ok_def)
    then consider "hget (lm_windows m) key = Some v" | "hget (lm_windows m) key = None" "\<not> keep_window now v"
      using Some by (cases is_due; cases "keep_window now v") (auto simp: m_def sweep_windows_def hget_hretain)
    then show ?thesis
    proof cases
      case 1
      then show ?thesis by (simp add: tokens_def w_def available_def Some)
    next
      case 2
      then show ?thesis using refilled_full [OF burst] refilled_idle [OF assms(2) wn [OF Some]]
        by (simp add: tokens_def w_def available_def Some)
    qed
  qed
  have t: "0 \<le> tokens" "tokens \<le> of_nat (rl_burst (rule key))" using refilled_bounds [OF w] by (simp_all add: tokens_def)
  have take: "take_token key (rule key) now l = (if tokens \<ge> 1
      then (Allowed, m\<lparr>lm_windows := hput key \<lparr>wn_tokens = round64 (tokens - 1), wn_updated_ms = now\<rparr> (lm_windows m)\<rparr>)
      else (Limited (retry_after (rule key) tokens), m\<lparr>lm_windows := hput key \<lparr>wn_tokens = tokens, wn_updated_ms = now\<rparr> (lm_windows m)\<rparr>))"
    by (simp add: take_token_def d Let_def m_def [symmetric] w_def [symmetric] tokens_def [symmetric])
  show "is_allowed (fst (take_token key (rule key) now l)) \<longleftrightarrow> 1 \<le> available key (rule key) now l"
    by (simp add: take is_allowed_def same [symmetric])
  have "round64 (tokens - 1) \<le> of_nat (rl_burst (rule key))" if "1 \<le> tokens"
    using that t burst by (intro binary64.at_most) simp_all
  moreover have "0 \<le> round64 (tokens - 1)" if "1 \<le> tokens" using that by (intro binary64.nonneg) simp
  ultimately show "limiter_ok rule (snd (take_token key (rule key) now l))"
    using m t by (auto simp: take limiter_ok_def list_all_iff window_ok_def dest: set_hput_cases)
  show "lm_rate_buckets (snd (take_token key (rule key) now l)) = lm_rate_buckets l"
    by (simp add: take m_def sweep_windows_def)
qed

section \<open>Days\<close>

definition day_count :: "string \<Rightarrow> int \<Rightarrow> bucket_row list \<Rightarrow> nat" where
  "day_count key day t = (case find (\<lambda>r. bu_key r = key \<and> bu_day_start_ms r = day) t of None \<Rightarrow> 0 | Some r \<Rightarrow> bu_day_count r)"

lemma find_unique:
  assumes "distinct (map f t)" "r \<in> set t" "P r" "\<And>q. P q \<Longrightarrow> f q = f r"
  shows "find P t = Some r"
  using assms(1,2)
proof (induction t)
  case (Cons a t)
  show ?case
  proof (cases "a = r")
    case True
    with assms(3) show ?thesis by simp
  next
    case False
    with Cons.prems have "r \<in> set t" "f a \<noteq> f r" by (auto simp: image_iff)
    with assms(4) [of a] Cons show ?thesis by auto
  qed
qed simp

lemma day_count_row: "distinct (map bu_key t) \<Longrightarrow> r \<in> set t \<Longrightarrow> day_count (bu_key r) (bu_day_start_ms r) t = bu_day_count r"
  unfolding day_count_def by (subst find_unique [of bu_key t r]) auto

lemma day_count_none: "(\<And>r. r \<in> set t \<Longrightarrow> bu_key r = key \<Longrightarrow> bu_day_start_ms r \<noteq> day) \<Longrightarrow> day_count key day t = 0"
proof -
  assume "\<And>r. r \<in> set t \<Longrightarrow> bu_key r = key \<Longrightarrow> bu_day_start_ms r \<noteq> day"
  then have "find (\<lambda>r. bu_key r = key \<and> bu_day_start_ms r = day) t = None" by (auto simp: find_None_iff)
  then show ?thesis by (simp add: day_count_def)
qed

lemma day_count_filter:
  "distinct (map bu_key t) \<Longrightarrow> day_start now \<le> day \<Longrightarrow> day_count key day (filter (\<lambda>r. \<not> bu_day_start_ms r < day_start now) t) = day_count key day t"
  by (induction t) (auto simp: day_count_def)

lemma count_request_table:
  assumes "distinct (map bu_key t)"
  shows "fst (count_request key day t) = day_count key day t + 1"
    and "distinct (map bu_key (snd (count_request key day t)))"
    and "day_count key day (snd (count_request key day t)) = day_count key day t + 1"
    and "key' \<noteq> key \<Longrightarrow> day_count key' d (snd (count_request key day t)) = day_count key' d t"
    and "bu_day_start_ms ` set (snd (count_request key day t)) \<subseteq> insert day (bu_day_start_ms ` set t)"
proof -
  have "fst (count_request key day t) = day_count key day t + 1 \<and> distinct (map bu_key (snd (count_request key day t)))
    \<and> day_count key day (snd (count_request key day t)) = day_count key day t + 1
    \<and> (key' \<noteq> key \<longrightarrow> day_count key' d (snd (count_request key day t)) = day_count key' d t)
    \<and> bu_day_start_ms ` set (snd (count_request key day t)) \<subseteq> insert day (bu_day_start_ms ` set t)"
  proof (cases "find (\<lambda>r. bu_key r = key) t")
    case None
    then have none: "\<And>r. r \<in> set t \<Longrightarrow> bu_key r \<noteq> key" by (auto simp: find_None_iff)
    have zero: "find (\<lambda>r. bu_key r = key \<and> bu_day_start_ms r = day) t = None" using none by (auto simp: find_None_iff)
    have app: "find P (t @ [x]) = (case find P t of None \<Rightarrow> if P x then Some x else None | Some r \<Rightarrow> Some r)" for P x
      by (induction t) auto
    show ?thesis
      using assms none zero by (auto simp: count_request_def None day_count_def app split: option.split)
  next
    case (Some r)
    then have r: "r \<in> set t" "bu_key r = key" by (auto simp: find_Some_iff)
    define n where "n = (if bu_day_start_ms r = day then bu_day_count r + 1 else 1)"
    let ?f = "\<lambda>q. if bu_key q = key then q\<lparr>bu_day_start_ms := day, bu_day_count := n\<rparr> else q"
    have only: "q \<in> set t \<Longrightarrow> bu_key q = key \<Longrightarrow> q = r" for q using assms r by (auto simp: distinct_map inj_on_def)
    have count: "n = day_count key day t + 1"
    proof (cases "bu_day_start_ms r = day")
      case True
      with day_count_row [OF assms r(1)] r(2) show ?thesis by (simp add: n_def)
    next
      case False
      then have "day_count key day t = 0" using only by (intro day_count_none) blast
      with False show ?thesis by (simp add: n_def)
    qed
    have keys: "map bu_key (map ?f t) = map bu_key t" by simp
    have dis: "distinct (map bu_key (map ?f t))" unfolding keys by (rule assms)
    have "?f r \<in> set (map ?f t)" using r(1) by simp
    from day_count_row [OF dis this] r(2) have after: "day_count key day (map ?f t) = n" by simp
    have other: "day_count key' d (map ?f t) = day_count key' d t" if "key' \<noteq> key"
      using that by (induction t) (auto simp: day_count_def)
    have "count_request key day t = (n, map ?f t)" by (simp add: count_request_def Some Let_def n_def)
    moreover have "bu_day_start_ms ` set (map ?f t) \<subseteq> insert day (bu_day_start_ms ` set t)" by auto
    ultimately show ?thesis using dis after other count by (simp del: map_map)
  qed
  then show "fst (count_request key day t) = day_count key day t + 1" "distinct (map bu_key (snd (count_request key day t)))"
    "day_count key day (snd (count_request key day t)) = day_count key day t + 1"
    "key' \<noteq> key \<Longrightarrow> day_count key' d (snd (count_request key day t)) = day_count key' d t"
    "bu_day_start_ms ` set (snd (count_request key day t)) \<subseteq> insert day (bu_day_start_ms ` set t)"
    by blast+
qed

lemma distinct_filter_map: "distinct (map f t) \<Longrightarrow> distinct (map f (filter P t))"
  by (auto simp: distinct_map inj_on_def)

lemma sweep_ok: "limiter_ok rule l \<Longrightarrow> limiter_ok rule (snd (limiter_sweep now l))"
proof -
  assume ok: "limiter_ok rule l"
  let ?m = "l\<lparr>lm_rate_buckets := filter (\<lambda>r. \<not> bu_day_start_ms r < day_start now) (lm_rate_buckets l)\<rparr>"
  have "limiter_ok rule ?m" using ok by (simp add: limiter_ok_def distinct_filter_map)
  from sweep_windows_ok [OF this] show ?thesis by (simp add: limiter_sweep_def Let_def)
qed

lemma sweep_table:
  "lm_rate_buckets (snd (limiter_sweep now l)) = filter (\<lambda>r. \<not> bu_day_start_ms r < day_start now) (lm_rate_buckets l)"
  by (simp add: limiter_sweep_def sweep_windows_def Let_def)

lemma sweep_if_due_table:
  "lm_rate_buckets (sweep_if_due now l) = lm_rate_buckets l
   \<or> lm_rate_buckets (sweep_if_due now l) = filter (\<lambda>r. \<not> bu_day_start_ms r < day_start now) (lm_rate_buckets l)"
  by (simp add: sweep_if_due_def Let_def sweep_table case_prod_unfold)

lemma sweep_if_due_ok: "limiter_ok rule l \<Longrightarrow> limiter_ok rule (sweep_if_due now l)"
proof -
  assume "limiter_ok rule l"
  then have "limiter_ok rule (l\<lparr>lm_buckets_swept_ms := swept\<rparr>)" for swept by (simp add: limiter_ok_def)
  then show ?thesis by (simp add: sweep_if_due_def Let_def sweep_ok case_prod_unfold)
qed

text \<open>A day's count is what \<open>daily\<close> decides by, and goes up by one whatever it decides.\<close>

lemma daily_counts:
  fixes key :: string and limit :: rate_limit and now :: int and l :: limiter
  assumes "limiter_ok rule l"
  defines "t \<equiv> lm_rate_buckets l" and "t' \<equiv> lm_rate_buckets (snd (daily key limit now l))"
  shows "is_allowed (fst (daily key limit now l)) \<longleftrightarrow> day_count key (day_start now) t < rl_per_day limit"
    and "limiter_ok rule (snd (daily key limit now l))"
    and "day_count key (day_start now) t' = day_count key (day_start now) t + 1"
    and "day_start now \<le> d \<Longrightarrow> key' \<noteq> key \<Longrightarrow> day_count key' d t' = day_count key' d t"
    and "bu_day_start_ms ` set t' \<subseteq> insert (day_start now) (bu_day_start_ms ` set t)"
proof -
  let ?m = "sweep_if_due now l" let ?s = "lm_rate_buckets ?m"
  have m: "limiter_ok rule ?m" by (rule sweep_if_due_ok [OF assms(1)])
  have dis: "distinct (map bu_key t)" "distinct (map bu_key ?s)" using assms(1) m by (simp_all add: limiter_ok_def t_def)
  have same: "day_start now \<le> d \<Longrightarrow> day_count k d ?s = day_count k d t" for k d
    using sweep_if_due_table [of now l] day_count_filter [OF dis(1), of now d k] by (auto simp: t_def)
  have sub: "bu_day_start_ms ` set ?s \<subseteq> bu_day_start_ms ` set t" using sweep_if_due_table [of now l] by (auto simp: t_def)
  note c = count_request_table [OF dis(2), where key = key and day = "day_start now"]
  have t': "t' = snd (count_request key (day_start now) ?s)"
    by (simp add: t'_def daily_def Let_def case_prod_unfold)
  show "is_allowed (fst (daily key limit now l)) \<longleftrightarrow> day_count key (day_start now) t < rl_per_day limit"
    using c(1) same by (auto simp: daily_def Let_def case_prod_unfold is_allowed_def)
  show "limiter_ok rule (snd (daily key limit now l))"
    using m c(2) by (auto simp: daily_def Let_def case_prod_unfold limiter_ok_def)
  show "day_count key (day_start now) t' = day_count key (day_start now) t + 1" using c(3) same by (simp add: t')
  show "day_start now \<le> d \<Longrightarrow> key' \<noteq> key \<Longrightarrow> day_count key' d t' = day_count key' d t"
    using c(4) [of key' d] same by (simp add: t')
  show "bu_day_start_ms ` set t' \<subseteq> insert (day_start now) (bu_day_start_ms ` set t)" using c(5) sub by (auto simp: t')
qed

section \<open>A check\<close>

lemma check_facts:
  fixes key :: string and now :: int and l :: limiter
  assumes "limiter_ok rule l" "rule_ok (rule key)"
  defines "t \<equiv> lm_rate_buckets l" and "out \<equiv> check key (rule key) now l"
  defines "t' \<equiv> lm_rate_buckets (snd out)"
  shows "is_allowed (fst out) \<longleftrightarrow> 1 \<le> available key (rule key) now l
      \<and> (rl_per_day (rule key) = 0 \<or> day_count key (day_start now) t < rl_per_day (rule key))"
    and "limiter_ok rule (snd out)"
    and "is_allowed (fst out) \<Longrightarrow> 0 < rl_per_day (rule key) \<Longrightarrow> day_count key (day_start now) t' = day_count key (day_start now) t + 1"
    and "day_count key' (day_start now) t \<le> day_count key' (day_start now) t'"
    and "bu_day_start_ms ` set t' \<subseteq> insert (day_start now) (bu_day_start_ms ` set t)"
proof -
  note take = take_available [OF assms(1,2), of now]
  obtain d m where m: "take_token key (rule key) now l = (d, m)" by (cases "take_token key (rule key) now l")
  have m_ok: "limiter_ok rule m" "lm_rate_buckets m = t" using take(2,3) by (simp_all add: m t_def)
  note daily = daily_counts [OF m_ok(1), where key = key and now = now and limit = "rule key", unfolded m_ok(2)]
  have all: "(is_allowed (fst out) \<longleftrightarrow> 1 \<le> available key (rule key) now l
      \<and> (rl_per_day (rule key) = 0 \<or> day_count key (day_start now) t < rl_per_day (rule key)))
    \<and> limiter_ok rule (snd out)
    \<and> (is_allowed (fst out) \<and> 0 < rl_per_day (rule key) \<longrightarrow> day_count key (day_start now) t' = day_count key (day_start now) t + 1)
    \<and> day_count key' (day_start now) t \<le> day_count key' (day_start now) t'
    \<and> bu_day_start_ms ` set t' \<subseteq> insert (day_start now) (bu_day_start_ms ` set t)"
  proof (cases "is_allowed d \<and> 0 < rl_per_day (rule key)")
    case False
    then have "out = (d, m)" by (auto simp: out_def check_def m is_allowed_def split: limit_decision.splits)
    with take(1) m_ok False show ?thesis by (auto simp: m t'_def)
  next
    case True
    then have out: "out = daily key (rule key) now m" by (auto simp: out_def check_def m is_allowed_def split: limit_decision.splits)
    have "day_count key' (day_start now) t \<le> day_count key' (day_start now) t'"
      using daily(3) daily(4) [where d = "day_start now" and key' = key'] by (cases "key' = key") (simp_all add: t'_def out)
    with True take(1) daily(1,2,3,5) show ?thesis by (simp add: m t'_def out)
  qed
  then show "is_allowed (fst out) \<longleftrightarrow> 1 \<le> available key (rule key) now l
      \<and> (rl_per_day (rule key) = 0 \<or> day_count key (day_start now) t < rl_per_day (rule key))"
    "limiter_ok rule (snd out)"
    "is_allowed (fst out) \<Longrightarrow> 0 < rl_per_day (rule key) \<Longrightarrow> day_count key (day_start now) t' = day_count key (day_start now) t + 1"
    "day_count key' (day_start now) t \<le> day_count key' (day_start now) t'"
    "bu_day_start_ms ` set t' \<subseteq> insert (day_start now) (bu_day_start_ms ` set t)"
    by blast+
qed

text \<open>The rules of the code.\<close>

definition RULES :: "rate_limit set" where
  "RULES = {BINDING, UNVERIFIED_TOKEN, CHALLENGE_IP, ENROLL_IP, INVALID_AUTH_IP, CHALLENGE_GLOBAL, ENROLL_GLOBAL}"

lemma in_rules: "range rule \<subseteq> RULES \<Longrightarrow> rule_ok (rule key) \<and> rl_burst (rule key) \<le> 200"
proof -
  assume "range rule \<subseteq> RULES"
  then have "rule key \<in> RULES" by blast
  then show ?thesis
    by (auto simp: RULES_def rule_ok_def BINDING_def UNVERIFIED_TOKEN_def CHALLENGE_IP_def ENROLL_IP_def INVALID_AUTH_IP_def
        CHALLENGE_GLOBAL_def ENROLL_GLOBAL_def)
qed

lemma new_table [simp]: "lm_rate_buckets (limiter_new table) = table"
  by (simp add: limiter_new_def)

lemma new_ok: "distinct (map bu_key table) \<Longrightarrow> limiter_ok rule (limiter_new table)"
  by (simp add: limiter_ok_def limiter_new_def)

lemma limiter_step_ok: "range rule \<subseteq> RULES \<Longrightarrow> limiter_ok rule l \<Longrightarrow> limiter_ok rule (limiter_step rule c l)"
proof (cases c)
  case (Check key now)
  assume "range rule \<subseteq> RULES" "limiter_ok rule l"
  with check_facts(2) [where rule = rule and l = l and key = key and now = now] in_rules [of rule key] show ?thesis by (simp add: Check)
next
  case (CheckUndone key now)
  assume ok: "range rule \<subseteq> RULES" "limiter_ok rule l"
  with check_facts(2) [where rule = rule and l = l and key = key and now = now] in_rules [of rule key]
  have "limiter_ok rule (snd (check key (rule key) now l))" by blast
  with ok(2) show ?thesis by (simp add: CheckUndone limiter_ok_def)
next
  case (Sweep now)
  assume "limiter_ok rule l"
  then show ?thesis by (simp add: Sweep sweep_ok)
next
  case Restart
  assume "limiter_ok rule l"
  then show ?thesis using new_ok by (simp add: Restart limiter_ok_def)
qed

lemma limiter_run_ok: "range rule \<subseteq> RULES \<Longrightarrow> limiter_ok rule l \<Longrightarrow> limiter_ok rule (limiter_run rule calls l)"
  by (induction calls arbitrary: l) (auto simp: limiter_run_def limiter_step_ok)

lemma reached: "range rule \<subseteq> RULES \<Longrightarrow> limiter_ok rule (limiter_run rule calls (limiter_new []))"
  by (rule limiter_run_ok) (auto intro: new_ok)

section \<open>Properties\<close>

text \<open>C38. To ask is to know. After any calls, asking whether a key's budget is spent answers yes exactly when a request
  for that key at that instant would be refused; the sweep the request would make first, and the window it would drop,
  make no difference.\<close>
theorem a_peek_is_exact:
  assumes "range rule \<subseteq> RULES"
  shows "let l = limiter_run rule calls (limiter_new []) in
    spent key (rule key) now l = (\<not> is_allowed (fst (check key (rule key) now l)))"
proof -
  define l where "l = limiter_run rule calls (limiter_new [])"
  have "limiter_ok rule l" unfolding l_def by (rule reached [OF assms])
  with check_facts(1) [where rule = rule and l = l and key = key and now = now] in_rules [OF assms, of key]
  have "is_allowed (fst (check key (rule key) now l)) \<longleftrightarrow> 1 \<le> available key (rule key) now l
      \<and> (rl_per_day (rule key) = 0 \<or> day_count key (day_start now) (lm_rate_buckets l) < rl_per_day (rule key))" by blast
  then show ?thesis
    unfolding l_def [symmetric] Let_def by (auto simp: spent_def day_count_def not_less split: option.splits)
qed

definition one_rule :: "string \<Rightarrow> rate_limit" where
  "one_rule key = BINDING"

lemma one_rule_in: "range one_rule \<subseteq> RULES"
  by (auto simp: one_rule_def RULES_def)

lemma peek_witness:
  "let l = limiter_run one_rule [Check ''binding:a'' 5, CheckUndone ''binding:a'' 6, Restart, Sweep 9] (limiter_new []) in
    spent ''binding:a'' (one_rule ''binding:a'') 10 l = (\<not> is_allowed (fst (check ''binding:a'' (one_rule ''binding:a'') 10 l)))"
  by (rule a_peek_is_exact [OF one_rule_in])

text \<open>The requests for a key that were let through on a day, and those of them whose transaction was dropped.\<close>

fun allowed_on :: "(string \<Rightarrow> rate_limit) \<Rightarrow> string \<Rightarrow> int \<Rightarrow> limiter_call list \<Rightarrow> limiter \<Rightarrow> nat" where
  "allowed_on rule key day [] l = 0"
| "allowed_on rule key day (Check k now # calls) l =
     (if k = key \<and> day_start now = day \<and> is_allowed (fst (check k (rule k) now l)) then 1 else 0)
     + allowed_on rule key day calls (limiter_step rule (Check k now) l)"
| "allowed_on rule key day (CheckUndone k now # calls) l =
     (if k = key \<and> day_start now = day \<and> is_allowed (fst (check k (rule k) now l)) then 1 else 0)
     + allowed_on rule key day calls (limiter_step rule (CheckUndone k now) l)"
| "allowed_on rule key day (c # calls) l = allowed_on rule key day calls (limiter_step rule c l)"

fun undone_on :: "(string \<Rightarrow> rate_limit) \<Rightarrow> string \<Rightarrow> int \<Rightarrow> limiter_call list \<Rightarrow> limiter \<Rightarrow> nat" where
  "undone_on rule key day [] l = 0"
| "undone_on rule key day (CheckUndone k now # calls) l =
     (if k = key \<and> day_start now = day \<and> is_allowed (fst (check k (rule k) now l)) then 1 else 0)
     + undone_on rule key day calls (limiter_step rule (CheckUndone k now) l)"
| "undone_on rule key day (c # calls) l = undone_on rule key day calls (limiter_step rule c l)"

fun call_instant :: "limiter_call \<Rightarrow> int option" where
  "call_instant (Check key now) = Some now"
| "call_instant (CheckUndone key now) = Some now"
| "call_instant (Sweep now) = Some now"
| "call_instant Restart = None"

lemma day_start_mono: "a \<le> b \<Longrightarrow> day_start a \<le> day_start b"
proof -
  have "day_start n = DAY_MS * (n div DAY_MS)" for n
    by (simp add: day_start_def minus_mod_eq_mult_div)
  then show "a \<le> b \<Longrightarrow> day_start a \<le> day_start b" by (simp add: DAY_MS_def zdiv_mono1)
qed

lemma day_bound:
  assumes "range rule \<subseteq> RULES" "0 < rl_per_day (rule key)" "limiter_ok rule l"
    "list_all (\<lambda>r. bu_day_start_ms r \<le> day_start t0) (lm_rate_buckets l)" "sorted (t0 # List.map_filter call_instant calls)"
  shows "allowed_on rule key day calls l
    \<le> (if day < day_start t0 then 0 else rl_per_day (rule key) - day_count key day (lm_rate_buckets l)) + undone_on rule key day calls l"
  using assms(3-5)
proof (induction calls arbitrary: l t0)
  case (Cons c calls)
  show ?case
  proof (cases c)
    case (Check k now)
    let ?l = "snd (check k (rule k) now l)" let ?t = "lm_rate_buckets l" and ?t' = "lm_rate_buckets ?l"
    note f = check_facts [OF Cons.prems(1) conjunct1 [OF in_rules [OF assms(1), of k]], where now = now]
    have le: "t0 \<le> now" "sorted (now # List.map_filter call_instant calls)"
      using Cons.prems(3) by (simp_all add: Check List.map_filter_simps)
    have days: "day_start t0 \<le> day_start now" by (rule day_start_mono [OF le(1)])
    have "list_all (\<lambda>r. bu_day_start_ms r \<le> day_start now) ?t'"
      unfolding list_all_iff
    proof
      fix r
      assume "r \<in> set ?t'"
      then have "bu_day_start_ms r \<in> insert (day_start now) (bu_day_start_ms ` set ?t)" by (intro subsetD [OF f(5)]) simp
      with Cons.prems(2) days show "bu_day_start_ms r \<le> day_start now" by (auto simp: list_all_iff)
    qed
    from Cons.IH [OF f(2) this le(2)]
    have rest: "allowed_on rule key day calls ?l
        \<le> (if day < day_start now then 0 else rl_per_day (rule key) - day_count key day ?t') + undone_on rule key day calls ?l" .
    show ?thesis
    proof (cases "day = day_start now")
      case True
      have "day_count key day ?t \<le> day_count key day ?t'" using f(4) True by simp
      moreover have "k = key \<Longrightarrow> is_allowed (fst (check k (rule k) now l)) \<Longrightarrow>
          day_count key day ?t' = day_count key day ?t + 1 \<and> day_count key day ?t < rl_per_day (rule key)"
        using f(1,3) True assms(2) by auto
      ultimately show ?thesis using rest True days by (auto simp: Check)
    next
      case False
      have none: "day_start t0 < day \<Longrightarrow> day_count key day ?t = 0"
        using Cons.prems(2) by (intro day_count_none) (auto simp: list_all_iff)
      show ?thesis
      proof (cases "day < day_start now")
        case True
        with rest False show ?thesis by (simp add: Check)
      next
        case f: False
        with False days have "day_start t0 < day" by simp
        with none rest False f show ?thesis by (simp add: Check)
      qed
    qed
  next
    case (CheckUndone k now)
    let ?l = "limiter_step rule c l"
    have le: "t0 \<le> now" "sorted (now # List.map_filter call_instant calls)"
      using Cons.prems(3) by (simp_all add: CheckUndone List.map_filter_simps)
    have days: "day_start t0 \<le> day_start now" by (rule day_start_mono [OF le(1)])
    have same: "lm_rate_buckets ?l = lm_rate_buckets l" by (simp add: CheckUndone)
    have "list_all (\<lambda>r. bu_day_start_ms r \<le> day_start now) (lm_rate_buckets ?l)"
      using Cons.prems(2) days by (auto simp: list_all_iff same)
    from Cons.IH [OF limiter_step_ok [OF assms(1) Cons.prems(1)] this le(2)]
    have "allowed_on rule key day calls ?l
        \<le> (if day < day_start now then 0 else rl_per_day (rule key) - day_count key day (lm_rate_buckets l)) + undone_on rule key day calls ?l"
      by (simp only: same)
    with days show ?thesis by (auto simp: CheckUndone split: if_splits)
  next
    case (Sweep now)
    let ?l = "snd (limiter_sweep now l)"
    have le: "t0 \<le> now" "sorted (now # List.map_filter call_instant calls)"
      using Cons.prems(3) by (simp_all add: Sweep List.map_filter_simps)
    have days: "day_start t0 \<le> day_start now" by (rule day_start_mono [OF le(1)])
    have "list_all (\<lambda>r. bu_day_start_ms r \<le> day_start now) (lm_rate_buckets ?l)"
      using Cons.prems(2) days by (auto simp: list_all_iff sweep_table)
    from Cons.IH [OF sweep_ok [OF Cons.prems(1)] this le(2)]
    have rest: "allowed_on rule key day calls ?l
        \<le> (if day < day_start now then 0 else rl_per_day (rule key) - day_count key day (lm_rate_buckets ?l)) + undone_on rule key day calls ?l" .
    have "distinct (map bu_key (lm_rate_buckets l))" using Cons.prems(1) by (simp add: limiter_ok_def)
    with day_count_filter [OF this, of now day key] rest days show ?thesis by (auto simp: Sweep sweep_table split: if_splits)
  next
    case Restart
    have "limiter_ok rule (limiter_new (lm_rate_buckets l))" using Cons.prems(1) new_ok by (simp add: limiter_ok_def)
    from Cons.IH [OF this, of t0] Cons.prems show ?thesis by (simp add: Restart List.map_filter_simps split: if_splits)
  qed
qed simp

text \<open>C36. A day's budget is spent once. As long as the clock does not step back, the requests for a key let through on a
  day are at most as many as its rule allows for a day, and besides only those whose own transaction was dropped after
  the check had let them through, each of which is one request more; whatever else is counted, swept or dropped in
  between, and however often the process ends and another takes over its table.\<close>
theorem a_days_budget_is_spent_once:
  assumes "range rule \<subseteq> RULES" "0 < rl_per_day (rule key)" "sorted (List.map_filter call_instant calls)"
  shows "allowed_on rule key day calls (limiter_new [])
    \<le> rl_per_day (rule key) + undone_on rule key day calls (limiter_new [])"
proof -
  obtain t0 where t0: "sorted (t0 # List.map_filter call_instant calls)"
  proof (cases "List.map_filter call_instant calls")
    case (Cons t ts)
    with assms(3) show ?thesis by (intro that [of t]) simp
  qed (auto intro: that [of 0])
  have "allowed_on rule key day calls (limiter_new [])
      \<le> (if day < day_start t0 then 0 else rl_per_day (rule key) - day_count key day (lm_rate_buckets (limiter_new [])))
        + undone_on rule key day calls (limiter_new [])"
    by (rule day_bound [OF assms(1,2) new_ok _ t0]) (simp_all add: limiter_new_def)
  then show ?thesis by (simp split: if_splits)
qed

lemma days_budget_witness:
  "allowed_on one_rule ''binding:a'' 0 [Check ''binding:a'' 5, CheckUndone ''binding:a'' 5, Restart, Sweep 86400000] (limiter_new [])
    \<le> rl_per_day (one_rule ''binding:a'')
      + undone_on one_rule ''binding:a'' 0 [Check ''binding:a'' 5, CheckUndone ''binding:a'' 5, Restart, Sweep 86400000] (limiter_new [])"
  by (rule a_days_budget_is_spent_once [OF one_rule_in]) (simp_all add: one_rule_def BINDING_def List.map_filter_simps)

section \<open>When to come back\<close>

lemma retry_bounds:
  assumes "1 \<le> rl_per_minute limit" "0 \<le> tokens" "tokens < 1"
  shows "1 \<le> retry_after limit tokens \<and> retry_after limit tokens \<le> 60"
proof -
  let ?a = "round64 (1 - tokens)" let ?b = "round64 (?a * MINUTE_MS)"
  let ?wait = "round64 (?b / of_nat (rl_per_minute limit))"
  have a: "0 \<le> ?a" "?a \<le> of_nat 1"
    using assms by (intro binary64.nonneg binary64.at_most; simp)+
  then have b: "0 \<le> ?b" "?b \<le> of_nat 60000"
    by (intro binary64.nonneg binary64.at_most; simp add: MINUTE_MS_def)+
  have "?b / of_nat (rl_per_minute limit) \<le> ?b / 1" using b(1) assms(1) by (intro divide_left_mono) simp_all
  with b have "0 \<le> ?b / of_nat (rl_per_minute limit)" "?b / of_nat (rl_per_minute limit) \<le> of_nat 60000" by simp_all
  then have "0 \<le> ?wait" "?wait \<le> of_nat 60000" by (intro binary64.nonneg binary64.at_most; simp)+
  then have "round64 (?wait / 1000) \<le> of_nat 60" by (intro binary64.at_most; simp)
  then have "\<lceil>round64 (?wait / 1000)\<rceil> \<le> 60" by (simp add: ceiling_le_iff)
  moreover have "c \<le> 60 \<Longrightarrow> 1 \<le> min (2 ^ 64 - 1) (nat (max 1 c)) \<and> min (2 ^ 64 - 1) (nat (max 1 c)) \<le> 60" for c :: int
    by (auto simp: max_def)
  moreover have "retry_after limit tokens = min (2 ^ 64 - 1) (nat (max 1 \<lceil>round64 (?wait / 1000)\<rceil>))"
    using assms(1) by (simp add: retry_after_def Let_def)
  ultimately show ?thesis by (simp only:)
qed

lemma take_refused:
  assumes "limiter_ok rule l" "rule_ok (rule key)" "take_token key (rule key) now l = (Limited s, m)"
  shows "1 \<le> s \<and> s \<le> 60"
proof -
  obtain w n where w: "window_ok (rule key) w" "s = retry_after (rule key) (refilled (rule key) now w)" "refilled (rule key) now w < 1"
  proof -
    obtain is_due swept where d: "due (lm_windows_swept_ms l) now = (is_due, swept)" by (cases "due (lm_windows_swept_ms l) now")
    define m' where "m' = (if is_due then sweep_windows now (l\<lparr>lm_windows_swept_ms := swept\<rparr>) else l\<lparr>lm_windows_swept_ms := swept\<rparr>)"
    define w where "w = (case hget (lm_windows m') key of
       None \<Rightarrow> \<lparr>wn_tokens = of_nat (rl_burst (rule key)), wn_updated_ms = now\<rparr> | Some w \<Rightarrow> w)"
    have "limiter_ok rule (l\<lparr>lm_windows_swept_ms := swept\<rparr>)" using assms(1) by (simp add: limiter_ok_def)
    with sweep_windows_ok have "limiter_ok rule m'" by (simp add: m'_def)
    then have "window_ok (rule key) w"
      using hget_in_set [of "lm_windows m'" key] by (auto simp: w_def limiter_ok_def list_all_iff window_ok_def split: option.split)
    moreover have "s = retry_after (rule key) (refilled (rule key) now w)" "refilled (rule key) now w < 1"
      using assms(3) by (auto simp: take_token_def d Let_def m'_def [symmetric] w_def [symmetric] split: if_splits)
    ultimately show ?thesis by (rule that)
  qed
  have "1 \<le> rl_per_minute (rule key)" using assms(2) by (simp add: rule_ok_def)
  with w refilled_bounds [OF w(1), of now] retry_bounds show ?thesis by blast
qed

text \<open>A refusal says when. After any calls, a request that is refused is told to come back in a whole number of
  seconds, one at least and a day at most.\<close>
theorem a_refusal_says_when:
  assumes "range rule \<subseteq> RULES"
  shows "case fst (check key (rule key) now (limiter_run rule calls (limiter_new []))) of
     Allowed \<Rightarrow> True | Limited s \<Rightarrow> 1 \<le> s \<and> s \<le> 24 * 60 * 60"
proof -
  let ?l = "limiter_run rule calls (limiter_new [])"
  have ok: "limiter_ok rule ?l" by (rule reached [OF assms])
  have "1 \<le> s \<and> s \<le> 86400" if "fst (daily key limit now m) = Limited s" for s limit m
  proof -
    have "s = nat (max 1000 (day_start now + DAY_MS - now) div 1000)"
      using that by (auto simp: daily_def Let_def case_prod_unfold split: if_splits)
    moreover have "day_start now \<le> now" by (simp add: day_start_def DAY_MS_def)
    ultimately show ?thesis by (auto simp: DAY_MS_def max_def split: if_splits)
  qed
  moreover obtain d m where m: "take_token key (rule key) now ?l = (d, m)" by (cases "take_token key (rule key) now ?l")
  moreover have "d = Limited s \<Longrightarrow> 1 \<le> s \<and> s \<le> 60" for s
    using take_refused [OF ok conjunct1 [OF in_rules [OF assms, of key]]] m by blast
  ultimately show ?thesis by (fastforce simp: check_def split: limit_decision.split)
qed

lemma refusal_witness:
  "case fst (check ''binding:a'' (one_rule ''binding:a'') 3 (limiter_run one_rule [Check ''binding:a'' 2] (limiter_new []))) of
     Allowed \<Rightarrow> True | Limited s \<Rightarrow> 1 \<le> s \<and> s \<le> 24 * 60 * 60"
  by (rule a_refusal_says_when [OF one_rule_in])

text \<open>The wait of a refusal for the day is rounded down, where that of a refusal for the minute is rounded up: unless the
  rest of the day is whole seconds, the instant it names is still of the same day.\<close>

lemma a_days_wait_falls_short:
  assumes "fst (daily key limit now l) = Limited s" "day_start now + DAY_MS - now \<ge> 1000"
    "(day_start now + DAY_MS - now) mod 1000 \<noteq> 0"
  shows "day_start (now + 1000 * int s) = day_start now"
proof -
  define rest where "rest = DAY_MS - now mod DAY_MS"
  have rest: "day_start now + DAY_MS - now = rest" by (simp add: rest_def day_start_def)
  have "s = nat (max 1000 (day_start now + DAY_MS - now) div 1000)"
    using assms(1) by (auto simp: daily_def Let_def case_prod_unfold split: if_splits)
  with assms(2) have "int s = rest div 1000" by (simp add: rest)
  moreover have "rest = 1000 * (rest div 1000) + rest mod 1000" by simp
  moreover have "0 < rest mod 1000" using assms(3) pos_mod_sign [of 1000 rest] unfolding rest by linarith
  ultimately have "1000 * int s < rest" by linarith
  then have "now mod DAY_MS + 1000 * int s < DAY_MS" by (simp add: rest_def)
  moreover have "0 \<le> now mod DAY_MS + 1000 * int s" by (simp add: DAY_MS_def)
  ultimately have "(now mod DAY_MS + 1000 * int s) mod DAY_MS = now mod DAY_MS + 1000 * int s"
    by (intro mod_pos_pos_trivial)
  then have "(now + 1000 * int s) mod DAY_MS = now mod DAY_MS + 1000 * int s" by (simp only: mod_add_left_eq)
  then show ?thesis by (simp add: day_start_def)
qed

end
