(* ===== verification/Relay_Limit_Rate.thy ===== *)
theory Relay_Limit_Rate
  imports Relay_Limit_Props
begin

text \<open>
  The rate a limit keeps. A key's credit is what its window would hold in exact arithmetic; time adds to it at the rule's
  rate and no faster, a request let through takes one, a sweep takes nothing, and rounding adds at most a few units in
  the last place. So what is let through in a time is the burst, the rate over that time, and less than rounding's share.
\<close>

definition credit :: "rate_limit \<Rightarrow> int \<Rightarrow> window \<Rightarrow> rat" where
  "credit limit now w =
     min (wn_tokens w + of_int (max 0 (now - wn_updated_ms w)) * of_nat (rl_per_minute limit) / MINUTE_MS) (of_nat (rl_burst limit))"

definition key_credit :: "(string \<Rightarrow> rate_limit) \<Rightarrow> string \<Rightarrow> int \<Rightarrow> limiter \<Rightarrow> rat" where
  "key_credit rule key now l = (case hget (lm_windows l) key of
     None \<Rightarrow> of_nat (rl_burst (rule key)) | Some w \<Rightarrow> credit (rule key) now w)"

lemma credit_later:
  assumes "now \<le> now'"
  shows "credit limit now' w \<le> credit limit now w + of_int (now' - now) * of_nat (rl_per_minute limit) / MINUTE_MS"
proof -
  let ?r = "of_nat (rl_per_minute limit) :: rat"
  have "max 0 (now' - wn_updated_ms w) \<le> max 0 (now - wn_updated_ms w) + (now' - now)" using assms by auto
  then have "(of_int (max 0 (now' - wn_updated_ms w)) :: rat) \<le> of_int (max 0 (now - wn_updated_ms w)) + of_int (now' - now)"
    by (metis of_int_add of_int_le_iff)
  then have "of_int (max 0 (now' - wn_updated_ms w)) * ?r \<le> (of_int (max 0 (now - wn_updated_ms w)) + of_int (now' - now)) * ?r"
    by (rule mult_right_mono) simp
  then have "of_int (max 0 (now' - wn_updated_ms w)) * ?r / MINUTE_MS
      \<le> of_int (max 0 (now - wn_updated_ms w)) * ?r / MINUTE_MS + of_int (now' - now) * ?r / MINUTE_MS"
    by (simp add: MINUTE_MS_def distrib_right add_divide_distrib [symmetric] divide_right_mono)
  moreover have "0 \<le> of_int (now' - now) * ?r / MINUTE_MS" using assms by (simp add: MINUTE_MS_def)
  ultimately show ?thesis by (auto simp: credit_def min_def)
qed

lemma key_credit_later:
  "now \<le> now' \<Longrightarrow> key_credit rule key now' l
     \<le> key_credit rule key now l + of_int (now' - now) * of_nat (rl_per_minute (rule key)) / MINUTE_MS"
  using credit_later [of now now' "rule key"] by (auto simp: key_credit_def MINUTE_MS_def split: option.split)

lemma credit_idle:
  assumes "rule_ok limit" "window_ok limit w" "\<not> keep_window now w"
  shows "credit limit now w = of_nat (rl_burst limit)"
proof -
  have "300000 \<le> now - wn_updated_ms w" using assms(3) by (auto simp: keep_window_def IDLE_WINDOW_MS_def i64_sub_def)
  then have "(300000 :: rat) \<le> of_int (max 0 (now - wn_updated_ms w))" by (metis max.coboundedI2 of_int_le_iff of_int_numeral)
  then have "300000 * of_nat (rl_per_minute limit) \<le> of_int (max 0 (now - wn_updated_ms w)) * (of_nat (rl_per_minute limit) :: rat)"
    by (rule mult_right_mono) simp
  then have "5 * of_nat (rl_per_minute limit) \<le> of_int (max 0 (now - wn_updated_ms w)) * (of_nat (rl_per_minute limit) :: rat) / MINUTE_MS"
    by (simp add: MINUTE_MS_def)
  moreover have "(of_nat (rl_burst limit) :: rat) \<le> 5 * of_nat (rl_per_minute limit)"
    using assms(1) by (simp add: rule_ok_def)
  moreover have "0 \<le> wn_tokens w" using assms(2) by (simp add: window_ok_def)
  ultimately show ?thesis by (simp add: credit_def)
qed

lemma sweep_credit:
  assumes "limiter_ok rule l" "rule_ok (rule key)"
  shows "key_credit rule key now (sweep_windows now l) = key_credit rule key now l"
proof -
  have wf: "hwf (lm_windows l)" using assms(1) by (simp add: limiter_ok_def)
  have "window_ok (rule key) w" if "hget (lm_windows l) key = Some w" for w
    using assms(1) hget_in_set [OF that] by (auto simp: limiter_ok_def list_all_iff)
  then show ?thesis
    using credit_idle [OF assms(2)] by (auto simp: key_credit_def sweep_windows_def hget_hretain [OF wf] split: option.split)
qed

lemma other_fields_credit [simp]:
  "key_credit rule key now (l\<lparr>lm_windows_swept_ms := a\<rparr>) = key_credit rule key now l"
  "key_credit rule key now (l\<lparr>lm_buckets_swept_ms := a\<rparr>) = key_credit rule key now l"
  "key_credit rule key now (l\<lparr>lm_rate_buckets := t\<rparr>) = key_credit rule key now l"
  by (simp_all add: key_credit_def)

text \<open>What a window is taken to hold is its credit and two roundings.\<close>

lemma refilled_close:
  assumes "1 \<le> rl_per_minute limit" "rl_burst limit \<le> 200" "window_ok limit w"
  shows "refilled limit now w \<le> credit limit now w + 2 / 2 ^ 44"
proof -
  let ?n = "rl_per_minute limit"
  define e where "e = max 0 (i64_sub now (wn_updated_ms w))"
  define exact where "exact = of_int (max 0 (now - wn_updated_ms w)) * of_nat ?n / MINUTE_MS"
  have tok: "0 \<le> wn_tokens w" using assms(3) by (simp add: window_ok_def)
  show ?thesis
  proof (cases "of_nat (rl_burst limit) \<le> wn_tokens w + exact")
    case True
    then have "credit limit now w = of_nat (rl_burst limit)" by (simp add: credit_def exact_def)
    then show ?thesis by (simp add: refilled_eq)
  next
    case False
    then have c: "credit limit now w = wn_tokens w + exact" by (simp add: credit_def exact_def)
    have le: "e \<le> max 0 (now - wn_updated_ms w)" by (auto simp: e_def i64_sub_def)
    have burst: "(of_nat (rl_burst limit) :: rat) \<le> 200" using assms(2) by (metis of_nat_le_iff of_nat_numeral)
    with False tok have small: "wn_tokens w + exact < 200" "exact < 200" by linarith+
    have rate: "(1 :: rat) \<le> of_nat ?n" using assms(1) by (metis of_nat_1 of_nat_le_iff)
    define m where "m = nat e * ?n"
    have e0: "0 \<le> e" by (simp add: e_def)
    have "of_nat m = (of_int e * of_nat ?n :: rat)" using e0 by (simp add: m_def)
    also have "\<dots> \<le> of_int (max 0 (now - wn_updated_ms w)) * of_nat ?n" 
      by (intro mult_right_mono) (use le in \<open>simp_all only: of_int_le_iff of_nat_0_le_iff\<close>)
    finally have m: "of_nat m / MINUTE_MS \<le> exact" by (simp add: exact_def MINUTE_MS_def divide_right_mono)
    with small have "(of_nat m :: rat) < of_nat 12000000" by (simp add: MINUTE_MS_def)
    then have bounds: "m < 12000000" "nat e \<le> m" using assms(1) by (simp_all only: of_nat_less_iff m_def) simp
    have "round64 (of_int e) = of_nat (nat e)" using binary64.whole [of "nat e"] bounds e0 by simp
    then have "gained limit now w = round64 (round64 (of_nat m) / MINUTE_MS)"
      by (simp add: gained_def e_def [symmetric] m_def)
    also have "round64 (of_nat m) = of_nat m" using bounds by (intro binary64.whole) simp
    also have "round64 (of_nat m / MINUTE_MS) \<le> of_nat m / MINUTE_MS + 2 ^ 8 / 2 ^ 52"
      using m small by (intro binary64.close) (simp_all add: MINUTE_MS_def)
    finally have g: "gained limit now w \<le> exact + 1 / 2 ^ 44" using m by simp
    then have "wn_tokens w + gained limit now w \<le> 2 ^ 8" using small by simp
    then have "round64 (wn_tokens w + gained limit now w) \<le> wn_tokens w + gained limit now w + 2 ^ 8 / 2 ^ 52"
      using tok gained_nonneg [of limit now w] by (intro binary64.close) simp_all
    with g show ?thesis by (simp add: refilled_eq c)
  qed
qed

lemma take_credit:
  assumes "limiter_ok rule l" "rule_ok (rule k)" "rule_ok (rule key)" "rl_burst (rule k) \<le> 200"
  shows "key_credit rule key now (snd (take_token k (rule k) now l))
      + (if k = key \<and> is_allowed (fst (take_token k (rule k) now l)) then 1 else 0)
    \<le> key_credit rule key now l + (if k = key then 3 / 2 ^ 44 else 0)"
proof -
  obtain is_due swept where d: "due (lm_windows_swept_ms l) now = (is_due, swept)" by (cases "due (lm_windows_swept_ms l) now")
  define m where "m = (if is_due then sweep_windows now (l\<lparr>lm_windows_swept_ms := swept\<rparr>) else l\<lparr>lm_windows_swept_ms := swept\<rparr>)"
  define w where "w = (case hget (lm_windows m) k of
     None \<Rightarrow> \<lparr>wn_tokens = of_nat (rl_burst (rule k)), wn_updated_ms = now\<rparr> | Some w \<Rightarrow> w)"
  define tokens where "tokens = refilled (rule k) now w"
  have ok: "limiter_ok rule (l\<lparr>lm_windows_swept_ms := swept\<rparr>)" using assms(1) by (simp add: limiter_ok_def)
  with sweep_windows_ok have m: "limiter_ok rule m" by (simp add: m_def)
  have same: "key_credit rule key now m = key_credit rule key now l" using sweep_credit [OF ok assms(3)] by (simp add: m_def)
  have take: "take_token k (rule k) now l = (if tokens \<ge> 1
      then (Allowed, m\<lparr>lm_windows := hput k \<lparr>wn_tokens = round64 (tokens - 1), wn_updated_ms = now\<rparr> (lm_windows m)\<rparr>)
      else (Limited (retry_after (rule k) tokens), m\<lparr>lm_windows := hput k \<lparr>wn_tokens = tokens, wn_updated_ms = now\<rparr> (lm_windows m)\<rparr>))"
    by (simp add: take_token_def d Let_def m_def [symmetric] w_def [symmetric] tokens_def [symmetric])
  show ?thesis
  proof (cases "k = key")
    case False
    then show ?thesis using same by (auto simp: take key_credit_def hget_hput)
  next
    case True
    have w: "window_ok (rule k) w"
      using m hget_in_set [of "lm_windows m" k] by (auto simp: w_def limiter_ok_def list_all_iff window_ok_def split: option.split)
    have "credit (rule k) now w = key_credit rule key now m"
      by (auto simp: w_def key_credit_def True credit_def split: option.split)
    with refilled_close [OF _ assms(4) w, of now] assms(2) same
    have t: "tokens \<le> key_credit rule key now l + 2 / 2 ^ 44" by (simp add: tokens_def rule_ok_def)
    have most: "tokens \<le> 200"
      using refilled_bounds [OF w, of now] assms(4) by (simp add: tokens_def)
    have "key_credit rule key now (m\<lparr>lm_windows := hput k \<lparr>wn_tokens = x, wn_updated_ms = now\<rparr> (lm_windows m)\<rparr>) \<le> x" for x
      by (simp add: key_credit_def hget_hput True credit_def)
    note after = this
    show ?thesis
    proof (cases "1 \<le> tokens")
      case allowed: True
      have "round64 (tokens - 1) \<le> tokens - 1 + 2 ^ 8 / 2 ^ 52" using allowed most by (intro binary64.close) simp_all
      with t after [of "round64 (tokens - 1)"] allowed True show ?thesis by (simp add: take [unfolded True] is_allowed_def)
    next
      case refused: False
      with t after [of tokens] True show ?thesis by (simp add: take [unfolded True] is_allowed_def)
    qed
  qed
qed

lemma check_credit:
  assumes "limiter_ok rule l" "rule_ok (rule k)" "rule_ok (rule key)" "rl_burst (rule k) \<le> 200"
  shows "key_credit rule key now (snd (check k (rule k) now l)) + (if k = key \<and> is_allowed (fst (check k (rule k) now l)) then 1 else 0)
    \<le> key_credit rule key now l + 3 / 2 ^ 44"
proof -
  obtain d m where m: "take_token k (rule k) now l = (d, m)" by (cases "take_token k (rule k) now l")
  have ok: "limiter_ok rule m" using take_available(2) [OF assms(1,2), of now] by (simp add: m)
  have "key_credit rule key now (snd (limiter_sweep now n)) = key_credit rule key now n" if "limiter_ok rule n" for n
  proof -
    have "limiter_ok rule (n\<lparr>lm_rate_buckets := filter (\<lambda>r. \<not> bu_day_start_ms r < day_start now) (lm_rate_buckets n)\<rparr>)"
      using that by (simp add: limiter_ok_def distinct_filter_map)
    from sweep_credit [OF this assms(3)] show ?thesis by (simp add: limiter_sweep_def Let_def)
  qed
  moreover have "limiter_ok rule (m\<lparr>lm_buckets_swept_ms := a\<rparr>)" for a using ok by (simp add: limiter_ok_def)
  ultimately have "key_credit rule key now (sweep_if_due now m) = key_credit rule key now m"
    by (simp add: sweep_if_due_def Let_def case_prod_unfold)
  then have "key_credit rule key now (snd (daily k (rule k) now m)) = key_credit rule key now m"
    by (simp add: daily_def Let_def case_prod_unfold)
  moreover have "is_allowed (fst (check k (rule k) now l)) \<Longrightarrow> is_allowed d"
    by (auto simp: check_def m is_allowed_def split: limit_decision.splits if_splits)
  ultimately show ?thesis
    using take_credit [OF assms, of now]
    by (auto simp: check_def m is_allowed_def split: limit_decision.splits if_splits)
qed

fun allowed_for :: "(string \<Rightarrow> rate_limit) \<Rightarrow> string \<Rightarrow> limiter_call list \<Rightarrow> limiter \<Rightarrow> nat" where
  "allowed_for rule key [] l = 0"
| "allowed_for rule key (Check k now # calls) l =
     (if k = key \<and> is_allowed (fst (check k (rule k) now l)) then 1 else 0) + allowed_for rule key calls (limiter_step rule (Check k now) l)"
| "allowed_for rule key (CheckUndone k now # calls) l =
     (if k = key \<and> is_allowed (fst (check k (rule k) now l)) then 1 else 0)
     + allowed_for rule key calls (limiter_step rule (CheckUndone k now) l)"
| "allowed_for rule key (c # calls) l = allowed_for rule key calls (limiter_step rule c l)"

lemma rate_bound:
  assumes "range rule \<subseteq> RULES" "limiter_ok rule l" "list_all (\<lambda>c. c \<noteq> Restart) calls"
    "sorted (since # List.map_filter call_instant calls @ [until])"
  shows "of_nat (allowed_for rule key calls l) \<le> key_credit rule key since l
    + of_int (until - since) * of_nat (rl_per_minute (rule key)) / MINUTE_MS + of_nat (length calls) * (3 / 2 ^ 44)"
  using assms(2-4)
proof (induction calls arbitrary: l since)
  case Nil
  have "0 \<le> wn_tokens w" if "hget (lm_windows l) key = Some w" for w
    using Nil(1) hget_in_set [OF that] by (auto simp: limiter_ok_def list_all_iff window_ok_def)
  then have "0 \<le> key_credit rule key since l" by (auto simp: key_credit_def credit_def MINUTE_MS_def split: option.split)
  moreover have "since \<le> until" using Nil(3) by (simp add: List.map_filter_simps)
  ultimately show ?case by (simp add: MINUTE_MS_def)
next
  case (Cons c calls)
  note rules = in_rules [OF assms(1)]
  obtain now where now: "call_instant c = Some now" using Cons.prems(2) by (cases c) auto
  have le: "since \<le> now" "sorted (now # List.map_filter call_instant calls @ [until])"
    using Cons.prems(3) now by (simp_all add: List.map_filter_simps)
  let ?l = "limiter_step rule c l" let ?r = "of_nat (rl_per_minute (rule key)) :: rat"
  have "of_nat (allowed_for rule key calls ?l) \<le> key_credit rule key now ?l + of_int (until - now) * ?r / MINUTE_MS + of_nat (length calls) * (3 / 2 ^ 44)"
    using Cons.IH [OF limiter_step_ok [OF assms(1) Cons.prems(1)] _ le(2)] Cons.prems(2) by simp
  moreover have "of_nat (allowed_for rule key (c # calls) l) - of_nat (allowed_for rule key calls ?l) + key_credit rule key now ?l
      \<le> key_credit rule key now l + (3 / 2 ^ 44 :: rat)"
  proof (cases c)
    case (Check k at_now)
    with now have "at_now = now" by simp
    with check_credit [OF Cons.prems(1) conjunct1 [OF rules] conjunct1 [OF rules] conjunct2 [OF rules], where k = k and key = key and now = now] Check
    show ?thesis by (auto simp: add.commute split: if_splits)
  next
    case (CheckUndone k at_now)
    with now have "at_now = now" by simp
    with check_credit [OF Cons.prems(1) conjunct1 [OF rules] conjunct1 [OF rules] conjunct2 [OF rules], where k = k and key = key and now = now] CheckUndone
    show ?thesis by (auto simp: add.commute split: if_splits)
  next
    case (Sweep at_now)
    have "limiter_ok rule (l\<lparr>lm_rate_buckets := filter (\<lambda>r. \<not> bu_day_start_ms r < day_start now) (lm_rate_buckets l)\<rparr>)"
      using Cons.prems(1) by (simp add: limiter_ok_def distinct_filter_map)
    from sweep_credit [OF this conjunct1 [OF rules, of key]] Sweep now show ?thesis by (simp add: limiter_sweep_def Let_def)
  next
    case Restart
    with now show ?thesis by simp
  qed
  moreover have "key_credit rule key now l \<le> key_credit rule key since l + of_int (now - since) * ?r / MINUTE_MS"
    by (rule key_credit_later [OF le(1)])
  moreover have "of_int (until - now) * ?r / MINUTE_MS + of_int (now - since) * ?r / MINUTE_MS = of_int (until - since) * ?r / MINUTE_MS"
    by (simp add: MINUTE_MS_def field_simps)
  moreover have "of_nat (length (c # calls)) * (3 / 2 ^ 44) = of_nat (length calls) * (3 / 2 ^ 44) + (3 / 2 ^ 44 :: rat)"
    by (simp add: distrib_right)
  ultimately show ?case by linarith
qed

text \<open>C37. The rate is kept. In one life of the process, whatever went before and as long as the clock does not step back:
  the requests for a key let through between two instants, those whose transaction is dropped afterwards with them, are at
  most the burst and the rate's share of the time between them; the rounding of the bucket's arithmetic and its sweeps add less than one request in \<open>2 ^ 42\<close> for each call.\<close>
theorem the_rate_is_kept:
  assumes "range rule \<subseteq> RULES" "list_all (\<lambda>c. c \<noteq> Restart) calls"
    "sorted (since # List.map_filter call_instant calls @ [until])"
  shows "(of_nat (allowed_for rule key calls (limiter_run rule before (limiter_new []))) :: rat)
    \<le> of_nat (rl_burst (rule key)) + of_int (until - since) * of_nat (rl_per_minute (rule key)) / 60000 + of_nat (length calls) / 2 ^ 42"
proof -
  let ?l = "limiter_run rule before (limiter_new [])"
  have "key_credit rule key since ?l \<le> of_nat (rl_burst (rule key))" by (simp add: key_credit_def credit_def split: option.split)
  moreover have "of_nat (length calls) * (3 / 2 ^ 44) \<le> (of_nat (length calls) / 2 ^ 42 :: rat)" by simp
  ultimately show ?thesis
    using rate_bound [OF assms(1) reached [OF assms(1), of before] assms(2,3), of key] by (simp add: MINUTE_MS_def)
qed

lemma rate_witness:
  "(of_nat (allowed_for one_rule ''binding:a'' [Check ''binding:a'' 5, CheckUndone ''binding:a'' 9] (limiter_run one_rule [Restart] (limiter_new []))) :: rat)
    \<le> of_nat (rl_burst (one_rule ''binding:a'')) + of_int (60 - 0) * of_nat (rl_per_minute (one_rule ''binding:a'')) / 60000
      + of_nat (length [Check ''binding:a'' 5, CheckUndone ''binding:a'' 9]) / 2 ^ 42"
  by (rule the_rate_is_kept [OF one_rule_in]) (simp_all add: List.map_filter_simps)

end
