(* ===== verification/Relay_Challenge.thy ===== *)
theory Relay_Challenge
  imports Protocol_Hash Protocol_Composite
begin

text \<open>
  The challenges an enrollment spends (\<open>push-relay/src/challenge.rs\<close>), as the enrollment and the sweeps use them
  (\<open>push-relay/src/enroll.rs\<close>, \<open>push-relay/src/db.rs\<close>).

  The table is the list of its rows; every statement of these functions runs under the relay's one connection, so a call
  is one step, and one that a transaction encloses is undone with it. SHA-256 and the base64 engine are arguments, the
  system's random bytes too (\<open>None\<close> when it refuses). Statements do not fail but for the key of the table.
\<close>

definition LIFETIME_MS :: int where "LIFETIME_MS = 10 * 60 * 1000"
definition MAX_CHALLENGE_CHARS :: nat where "MAX_CHALLENGE_CHARS = 128"

record challenge_row =
  ch_hash :: string
  ch_issued_ms :: int
  ch_expires_ms :: int
  ch_consumed_ms :: "int option"

datatype challenge_error = ChallengeMalformed | ChallengeUnknown | ChallengeExpired | ChallengeConsumed

datatype issue_error = NoEntropy | HashTaken

definition store_challenge :: "'h sha \<Rightarrow> string \<Rightarrow> int \<Rightarrow> challenge_row list \<Rightarrow> issue_error + challenge_row list" where
  "store_challenge S challenge now t =
     (let hash = sha256_hex S challenge in
      if list_ex (\<lambda>r. ch_hash r = hash) t then Inl HashTaken
      else Inr (t @ [\<lparr>ch_hash = hash, ch_issued_ms = now, ch_expires_ms = now + LIFETIME_MS, ch_consumed_ms = None\<rparr>]))"

definition prune_challenges :: "int \<Rightarrow> challenge_row list \<Rightarrow> nat \<times> challenge_row list" where
  "prune_challenges now t =
     (length (filter (\<lambda>r. ch_expires_ms r \<le> now) t), filter (\<lambda>r. \<not> ch_expires_ms r \<le> now) t)"

definition issue :: "'h sha \<Rightarrow> b64 \<Rightarrow> string option \<Rightarrow> int \<Rightarrow> challenge_row list \<Rightarrow>
    (issue_error + string \<times> nat) \<times> challenge_row list" where
  "issue S B entropy now t = (case entropy of
     None \<Rightarrow> (Inl NoEntropy, t)
   | Some bytes \<Rightarrow>
       let challenge = b64_encode B bytes; t = snd (prune_challenges now t) in
       (case store_challenge S challenge now t of
          Inl e \<Rightarrow> (Inl e, t)
        | Inr t' \<Rightarrow> (Inr (challenge, nat (LIFETIME_MS div 1000)), t')))"

definition consume_challenge :: "'h sha \<Rightarrow> b64 \<Rightarrow> string \<Rightarrow> int \<Rightarrow> challenge_row list \<Rightarrow>
    (challenge_error + string) \<times> challenge_row list" where
  "consume_challenge S B challenge now t =
     (if challenge = [] \<or> length challenge > MAX_CHALLENGE_CHARS then (Inl ChallengeMalformed, t)
      else (case b64_decode B challenge of
          None \<Rightarrow> (Inl ChallengeMalformed, t)
        | Some decoded \<Rightarrow>
            let hash = sha256_hex S challenge in
            (case find (\<lambda>r. ch_hash r = hash) t of
               None \<Rightarrow> (Inl ChallengeUnknown, t)
             | Some row \<Rightarrow>
                 if ch_consumed_ms row \<noteq> None then (Inl ChallengeConsumed, t)
                 else if ch_expires_ms row \<le> now then (Inl ChallengeExpired, t)
                 else
                   let p = (\<lambda>r. ch_hash r = hash \<and> ch_consumed_ms r = None \<and> ch_expires_ms r > now);
                       spent = length (filter p t);
                       t' = map (\<lambda>r. if p r then r\<lparr>ch_consumed_ms := Some now\<rparr> else r) t
                   in if spent \<noteq> 1 then (Inl ChallengeConsumed, t') else (Inr decoded, t'))))"

text \<open>
  What the relay does with the table. An enrollment spends its challenge inside its transaction, and what follows
  (the attestation's verification, the rows of the credential) either commits with it or undoes it.
\<close>

datatype challenge_call =
    Issue "string option" int
  | Enroll string int bool
  | SweepChallenges int

fun challenge_step :: "'h sha \<Rightarrow> b64 \<Rightarrow> challenge_call \<Rightarrow> challenge_row list \<Rightarrow> challenge_row list" where
  "challenge_step S B (Issue entropy now) t = snd (issue S B entropy now t)"
| "challenge_step S B (Enroll challenge now commits) t = (case consume_challenge S B challenge now t of
     (Inr decoded, t') \<Rightarrow> if commits then t' else t
   | (Inl e, t') \<Rightarrow> t)"
| "challenge_step S B (SweepChallenges now) t = snd (prune_challenges now t)"

end
