(* ===== verification/Relay_Challenge_Props.thy ===== *)
theory Relay_Challenge_Props
  imports Relay_Challenge
begin

text \<open>
  A challenge is spent at most once for each time it was issued, within its ten minutes, and what a caller is told of
  one it cannot spend is true.
\<close>

section \<open>What a run did\<close>

fun issued_by :: "'h sha \<Rightarrow> b64 \<Rightarrow> challenge_call \<Rightarrow> challenge_row list \<Rightarrow> (string \<times> int) list" where
  "issued_by S B (Issue entropy now) t =
     (case fst (issue S B entropy now t) of Inr (challenge, seconds) \<Rightarrow> [(sha256_hex S challenge, now)] | Inl e \<Rightarrow> [])"
| "issued_by S B c t = []"

fun spent_by :: "'h sha \<Rightarrow> b64 \<Rightarrow> challenge_call \<Rightarrow> challenge_row list \<Rightarrow> (string \<times> int) list" where
  "spent_by S B (Enroll challenge now True) t =
     (case fst (consume_challenge S B challenge now t) of Inr bytes \<Rightarrow> [(sha256_hex S challenge, now)] | Inl e \<Rightarrow> [])"
| "spent_by S B c t = []"

fun call_ms :: "challenge_call \<Rightarrow> int" where
  "call_ms (Issue entropy now) = now"
| "call_ms (Enroll challenge now commits) = now"
| "call_ms (SweepChallenges now) = now"

record history =
  hi_table :: "challenge_row list"
  hi_issued :: "(string \<times> int) list"
  hi_spent :: "(string \<times> int) list"
  hi_instants :: "int list"

definition history_after :: "'h sha \<Rightarrow> b64 \<Rightarrow> challenge_call \<Rightarrow> history \<Rightarrow> history" where
  "history_after S B c h =
     \<lparr>hi_table = challenge_step S B c (hi_table h), hi_issued = hi_issued h @ issued_by S B c (hi_table h),
      hi_spent = hi_spent h @ spent_by S B c (hi_table h), hi_instants = hi_instants h @ [call_ms c]\<rparr>"

definition history_of :: "'h sha \<Rightarrow> b64 \<Rightarrow> challenge_call list \<Rightarrow> history" where
  "history_of S B calls = fold (history_after S B) calls \<lparr>hi_table = [], hi_issued = [], hi_spent = [], hi_instants = []\<rparr>"

section \<open>The invariant\<close>

definition times_in :: "string \<Rightarrow> (string \<times> int) list \<Rightarrow> nat" where
  "times_in hash log = length (filter (\<lambda>(h, t). h = hash) log)"

definition unspent :: "string \<Rightarrow> challenge_row list \<Rightarrow> bool" where
  "unspent hash t \<longleftrightarrow> list_ex (\<lambda>r. ch_hash r = hash \<and> ch_consumed_ms r = None) t"

text \<open>A row stands for an issue, and one that is consumed for a spend; an issue with no row was swept.\<close>

definition row_true :: "history \<Rightarrow> challenge_row \<Rightarrow> bool" where
  "row_true h r \<longleftrightarrow> (ch_hash r, ch_issued_ms r) \<in> set (hi_issued h) \<and> ch_expires_ms r = ch_issued_ms r + LIFETIME_MS
     \<and> (ch_consumed_ms r \<noteq> None \<longrightarrow> ch_hash r \<in> fst ` set (hi_spent h))"

definition rows_of :: "challenge_row list \<Rightarrow> (string \<times> int) list" where
  "rows_of t = map (\<lambda>r. (ch_hash r, ch_issued_ms r)) t"

definition issue_kept :: "history \<Rightarrow> string \<times> int \<Rightarrow> bool" where
  "issue_kept h i \<longleftrightarrow> i \<in> set (rows_of (hi_table h))
     \<or> (\<exists>t \<in> set (hi_instants h). snd i + LIFETIME_MS \<le> t)"

definition spend_true :: "history \<Rightarrow> string \<times> int \<Rightarrow> bool" where
  "spend_true h s \<longleftrightarrow> list_ex (\<lambda>(hash, t). hash = fst s \<and> snd s < t + LIFETIME_MS) (hi_issued h)"

definition history_ok :: "history \<Rightarrow> bool" where
  "history_ok h \<longleftrightarrow> distinct (map ch_hash (hi_table h)) \<and> list_all (row_true h) (hi_table h)
     \<and> list_all (issue_kept h) (hi_issued h) \<and> list_all (spend_true h) (hi_spent h)
     \<and> (\<forall>hash. times_in hash (hi_spent h) + (if unspent hash (hi_table h) then 1 else 0) \<le> times_in hash (hi_issued h))"

lemma times_in_append [simp]: "times_in hash (xs @ ys) = times_in hash xs + times_in hash ys"
  by (simp add: times_in_def)

lemma times_in_simps [simp]: "times_in hash [] = 0" "times_in hash [(h, t)] = (if h = hash then 1 else 0)"
  by (simp_all add: times_in_def)

lemma unspent_append [simp]: "unspent hash (t @ t') \<longleftrightarrow> unspent hash t \<or> unspent hash t'"
  by (simp add: unspent_def)

lemma unspent_filter: "unspent hash (filter p t) \<Longrightarrow> unspent hash t"
  by (auto simp: unspent_def list_ex_iff)

text \<open>A sweep keeps the invariant: what it takes out is past its time at that instant.\<close>

lemma sweep_keeps:
  assumes "history_ok h" "now \<in> set ts" "set (hi_instants h) \<subseteq> set ts"
  shows "history_ok (h\<lparr>hi_table := snd (prune_challenges now (hi_table h)), hi_instants := ts\<rparr>)"
proof -
  let ?t = "filter (\<lambda>r. \<not> ch_expires_ms r \<le> now) (hi_table h)"
  have "distinct (map ch_hash ?t)" using assms(1) by (auto simp: history_ok_def distinct_map inj_on_def)
  moreover have "list_all (row_true (h\<lparr>hi_table := ?t, hi_instants := ts\<rparr>)) ?t"
    using assms(1) by (auto simp: history_ok_def list_all_iff row_true_def)
  moreover have "issue_kept (h\<lparr>hi_table := ?t, hi_instants := ts\<rparr>) i" if "i \<in> set (hi_issued h)" for i
  proof -
    from assms(1) that have "issue_kept h i" by (simp add: history_ok_def list_all_iff)
    then show ?thesis
      unfolding issue_kept_def
    proof
      assume "i \<in> set (rows_of (hi_table h))"
      then obtain r where r: "r \<in> set (hi_table h)" "ch_hash r = fst i" "ch_issued_ms r = snd i" by (auto simp: rows_of_def)
      with assms(1) have "ch_expires_ms r = snd i + LIFETIME_MS" by (simp add: history_ok_def list_all_iff row_true_def)
      with r assms(2) show "i \<in> set (rows_of (hi_table (h\<lparr>hi_table := ?t, hi_instants := ts\<rparr>)))
          \<or> (\<exists>t \<in> set (hi_instants (h\<lparr>hi_table := ?t, hi_instants := ts\<rparr>)). snd i + LIFETIME_MS \<le> t)"
        by (cases "ch_expires_ms r \<le> now") (auto simp: rows_of_def image_iff prod_eq_iff)
    qed (use assms(3) in auto)
  qed
  moreover have "times_in hash (hi_spent h) + (if unspent hash ?t then 1 else 0) \<le> times_in hash (hi_issued h)" for hash
  proof -
    have "times_in hash (hi_spent h) + (if unspent hash (hi_table h) then 1 else 0) \<le> times_in hash (hi_issued h)"
      using assms(1) by (simp add: history_ok_def)
    then show ?thesis using unspent_filter [of hash _ "hi_table h"] by (auto split: if_splits)
  qed
  ultimately show ?thesis
    using assms(1) by (simp add: history_ok_def prune_challenges_def list_all_iff spend_true_def)
qed

lemma instants_keep:
  assumes "history_ok h" "set (hi_instants h) \<subseteq> set ts"
  shows "history_ok (h\<lparr>hi_instants := ts\<rparr>)"
proof -
  have "issue_kept h i \<Longrightarrow> issue_kept (h\<lparr>hi_instants := ts\<rparr>) i" for i using assms(2) by (auto simp: issue_kept_def)
  with assms(1) show ?thesis by (simp add: history_ok_def list_all_iff row_true_def spend_true_def)
qed

lemma store_keeps:
  assumes "history_ok h" "store_challenge S challenge now (hi_table h) = Inr t'"
  shows "history_ok (h\<lparr>hi_table := t', hi_issued := hi_issued h @ [(sha256_hex S challenge, now)]\<rparr>)"
proof -
  let ?hash = "sha256_hex S challenge"
  from assms(2) have new: "\<not> list_ex (\<lambda>r. ch_hash r = ?hash) (hi_table h)"
    and t': "t' = hi_table h @ [\<lparr>ch_hash = ?hash, ch_issued_ms = now, ch_expires_ms = now + LIFETIME_MS, ch_consumed_ms = None\<rparr>]"
    by (auto simp: store_challenge_def Let_def split: if_splits)
  from new have "\<not> unspent ?hash (hi_table h)" by (auto simp: unspent_def list_ex_iff)
  let ?h = "h\<lparr>hi_table := t', hi_issued := hi_issued h @ [(?hash, now)]\<rparr>"
  have counts: "times_in hash (hi_spent h) + (if unspent hash (hi_table h) then 1 else 0) \<le> times_in hash (hi_issued h)" for hash
    using assms(1) by (simp add: history_ok_def)
  have "times_in hash (hi_spent h) + (if unspent hash t' then 1 else 0) \<le> times_in hash (hi_issued ?h)" for hash
    using counts [of hash] \<open>\<not> unspent ?hash (hi_table h)\<close> by (auto simp: t' unspent_def split: if_splits)
  moreover have "issue_kept h i \<Longrightarrow> issue_kept ?h i" "issue_kept ?h (?hash, now)" for i
    by (auto simp: issue_kept_def t' rows_of_def)
  moreover have "spend_true h i \<Longrightarrow> spend_true ?h i" for i by (auto simp: spend_true_def)
  moreover have "row_true h r \<Longrightarrow> row_true ?h r" for r by (simp add: row_true_def)
  moreover have "row_true ?h \<lparr>ch_hash = ?hash, ch_issued_ms = now, ch_expires_ms = now + LIFETIME_MS, ch_consumed_ms = None\<rparr>"
    by (simp add: row_true_def)
  moreover have "distinct (map ch_hash t')" using assms(1) new by (auto simp: t' history_ok_def list_ex_iff)
  ultimately show ?thesis using assms(1) by (simp add: history_ok_def list_all_iff t')
qed

text \<open>What a consumption that is answered with the bytes does.\<close>

lemma consume_spends:
  assumes "consume_challenge S B challenge now t = (Inr bytes, t')" "distinct (map ch_hash t)"
  obtains r where "r \<in> set t" "ch_hash r = sha256_hex S challenge" "ch_consumed_ms r = None" "now < ch_expires_ms r"
    "t' = map (\<lambda>q. if q = r then q\<lparr>ch_consumed_ms := Some now\<rparr> else q) t"
proof -
  let ?hash = "sha256_hex S challenge"
  let ?p = "\<lambda>r. ch_hash r = ?hash \<and> ch_consumed_ms r = None \<and> ch_expires_ms r > now"
  from assms(1) obtain r where r: "find (\<lambda>r. ch_hash r = ?hash) t = Some r" "ch_consumed_ms r = None" "now < ch_expires_ms r"
      "t' = map (\<lambda>r. if ?p r then r\<lparr>ch_consumed_ms := Some now\<rparr> else r) t"
    by (auto simp: consume_challenge_def Let_def split: if_splits option.splits)
  then have m: "r \<in> set t" "ch_hash r = ?hash" by (auto simp: find_Some_iff)
  have "?p q \<longleftrightarrow> q = r" if "q \<in> set t" for q
    using that m r(2,3) assms(2) by (auto simp: distinct_map inj_on_def)
  then have "t' = map (\<lambda>q. if q = r then q\<lparr>ch_consumed_ms := Some now\<rparr> else q) t"
    unfolding r(4) by (intro map_cong refl) simp
  with m r show ?thesis by (intro that [of r])
qed

lemma spend_keeps:
  assumes "history_ok h" "consume_challenge S B challenge now (hi_table h) = (Inr bytes, t')"
  shows "history_ok (h\<lparr>hi_table := t', hi_spent := hi_spent h @ [(sha256_hex S challenge, now)]\<rparr>)"
proof -
  let ?hash = "sha256_hex S challenge" and ?t = "hi_table h"
  have dis: "distinct (map ch_hash ?t)" using assms(1) by (simp add: history_ok_def)
  from consume_spends [OF assms(2) this] obtain r where r: "r \<in> set ?t" "ch_hash r = ?hash" "ch_consumed_ms r = None"
    "now < ch_expires_ms r" and t': "t' = map (\<lambda>q. if q = r then q\<lparr>ch_consumed_ms := Some now\<rparr> else q) ?t" .
  have hashes: "map ch_hash t' = map ch_hash ?t" by (simp add: t')
  have only: "\<not> unspent ?hash t'" using r dis by (auto simp: unspent_def list_ex_iff t' distinct_map inj_on_def)
  have others: "hash \<noteq> ?hash \<Longrightarrow> unspent hash t' \<longleftrightarrow> unspent hash ?t" for hash
    using r(2) by (auto simp: unspent_def list_ex_iff t')
  have was: "unspent ?hash ?t" using r by (auto simp: unspent_def list_ex_iff)
  have counts: "times_in hash (hi_spent h) + (if unspent hash ?t then 1 else 0) \<le> times_in hash (hi_issued h)" for hash
    using assms(1) by (simp add: history_ok_def)
  have "row_true h r" using assms(1) r(1) by (simp add: history_ok_def list_all_iff)
  with r have "spend_true h (?hash, now)" by (auto simp: row_true_def spend_true_def list_ex_iff)
  have "rows_of t' = rows_of ?t" by (simp add: t' rows_of_def)
  let ?h = "h\<lparr>hi_table := t', hi_spent := hi_spent h @ [(?hash, now)]\<rparr>"
  have "times_in hash (hi_spent ?h) + (if unspent hash t' then 1 else 0) \<le> times_in hash (hi_issued h)" for hash
    using counts [of hash] only others [of hash] was by (cases "hash = ?hash") (auto split: if_splits)
  moreover have "issue_kept ?h i = issue_kept h i" for i
    using \<open>rows_of t' = rows_of ?t\<close> by (simp add: issue_kept_def)
  moreover have "spend_true ?h i = spend_true h i" for i by (simp add: spend_true_def)
  moreover have "list_all (row_true ?h) t'"
    using assms(1) r(2) by (auto simp: history_ok_def list_all_iff row_true_def t')
  moreover have "distinct (map ch_hash t')" using dis hashes by simp
  ultimately show ?thesis
    using assms(1) \<open>spend_true h (?hash, now)\<close> by (simp add: history_ok_def list_all_iff)
qed

lemma step_history: "history_ok h \<Longrightarrow> history_ok (history_after S B c h)"
proof (cases c)
  case (Issue entropy now)
  assume ok: "history_ok h"
  let ?g = "h\<lparr>hi_table := snd (prune_challenges now (hi_table h)), hi_instants := hi_instants h @ [now]\<rparr>"
  have swept: "history_ok ?g" by (rule sweep_keeps [OF ok]) auto
  show ?thesis
  proof (cases entropy)
    case None
    have "history_after S B c h = h\<lparr>hi_instants := hi_instants h @ [now]\<rparr>"
      by (rule history.equality) (simp_all add: Issue history_after_def issue_def None)
    then show ?thesis using instants_keep [OF ok, of "hi_instants h @ [now]"] by auto
  next
    case (Some bytes)
    show ?thesis
    proof (cases "store_challenge S (b64_encode B bytes) now (hi_table ?g)")
      case (Inl e)
      have "history_after S B c h = ?g"
        using Inl by (intro history.equality) (simp_all add: Issue history_after_def issue_def Some Let_def)
      with swept show ?thesis by simp
    next
      case (Inr t')
      have "history_after S B c h = ?g\<lparr>hi_table := t', hi_issued := hi_issued ?g @ [(sha256_hex S (b64_encode B bytes), now)]\<rparr>"
        using Inr by (intro history.equality) (simp_all add: Issue history_after_def issue_def Some Let_def)
      with store_keeps [OF swept Inr] show ?thesis by simp
    qed
  qed
next
  case (Enroll challenge now commits)
  assume ok: "history_ok h"
  let ?g = "h\<lparr>hi_instants := hi_instants h @ [now]\<rparr>"
  have g: "history_ok ?g" by (rule instants_keep [OF ok]) auto
  obtain res t' where c': "consume_challenge S B challenge now (hi_table ?g) = (res, t')" by (cases "consume_challenge S B challenge now (hi_table ?g)")
  show ?thesis
  proof (cases "commits \<and> (\<exists>bytes. res = Inr bytes)")
    case True
    then obtain bytes where "res = Inr bytes" by blast
    have "history_after S B c h = ?g\<lparr>hi_table := t', hi_spent := hi_spent ?g @ [(sha256_hex S challenge, now)]\<rparr>"
      using c' True \<open>res = Inr bytes\<close> by (intro history.equality) (simp_all add: Enroll history_after_def)
    with spend_keeps [OF g c' [unfolded \<open>res = Inr bytes\<close>]] show ?thesis by simp
  next
    case False
    have "history_after S B c h = ?g"
      using c' False by (intro history.equality; cases commits; cases res) (simp_all add: Enroll history_after_def)
    with g show ?thesis by simp
  qed
next
  case (SweepChallenges now)
  assume ok: "history_ok h"
  have "history_after S B c h = h\<lparr>hi_table := snd (prune_challenges now (hi_table h)), hi_instants := hi_instants h @ [now]\<rparr>"
    by (intro history.equality) (simp_all add: SweepChallenges history_after_def)
  with sweep_keeps [OF ok, of now "hi_instants h @ [now]"] show ?thesis by auto
qed

lemma history_reached: "history_ok (history_of S B calls)"
proof -
  have "history_ok h \<Longrightarrow> history_ok (fold (history_after S B) calls h)" for h
    by (induction calls arbitrary: h) (auto intro: step_history)
  then show ?thesis by (simp add: history_of_def history_ok_def unspent_def)
qed

section \<open>Properties\<close>

text \<open>C39. A challenge pays once. In any run of issues, enrollments that commit or are undone, and sweeps, at any instants:
  a challenge is spent at most as often as it was issued, and each spend is of a challenge issued less than ten minutes
  before it.\<close>
theorem a_challenge_pays_once:
  "let h = history_of S B calls in
     length (filter (\<lambda>(hash, t). hash = x) (hi_spent h)) \<le> length (filter (\<lambda>(hash, t). hash = x) (hi_issued h))
     \<and> list_all (\<lambda>(hash, now). list_ex (\<lambda>(hash', t). hash' = hash \<and> now < t + 600000) (hi_issued h)) (hi_spent h)"
proof -
  have "history_ok (history_of S B calls)" by (rule history_reached)
  then have "times_in x (hi_spent (history_of S B calls)) + (if unspent x (hi_table (history_of S B calls)) then 1 else 0)
      \<le> times_in x (hi_issued (history_of S B calls))" "list_all (spend_true (history_of S B calls)) (hi_spent (history_of S B calls))"
    by (simp_all add: history_ok_def)
  then show ?thesis by (simp add: times_in_def Let_def LIFETIME_MS_def spend_true_def list_all_iff case_prod_unfold split: if_splits)
qed

lemma filter_one: "distinct t \<Longrightarrow> r \<in> set t \<Longrightarrow> filter (\<lambda>q. q = r) t = [r]"
  by (induction t) (auto simp: filter_empty_conv)

lemma consume_found:
  assumes "challenge \<noteq> []" "length challenge \<le> MAX_CHALLENGE_CHARS" "b64_decode B challenge = Some bytes"
    "r \<in> set t" "ch_hash r = sha256_hex S challenge" "distinct (map ch_hash t)"
  shows "fst (consume_challenge S B challenge now t) = (if ch_consumed_ms r \<noteq> None then Inl ChallengeConsumed
    else if ch_expires_ms r \<le> now then Inl ChallengeExpired else Inr bytes)"
proof -
  let ?hash = "sha256_hex S challenge"
  have same: "ch_hash q = ?hash \<longleftrightarrow> q = r" if "q \<in> set t" for q
    using that assms(4-6) by (auto simp: distinct_map inj_on_def)
  have "find (\<lambda>r. ch_hash r = ?hash) t = Some r"
  proof (cases "find (\<lambda>r. ch_hash r = ?hash) t")
    case None
    with assms(4,5) show ?thesis by (auto simp: find_None_iff)
  next
    case (Some q)
    with same [of q] show ?thesis by (auto simp: find_Some_iff)
  qed
  moreover have "filter (\<lambda>q. ch_hash q = ?hash \<and> ch_consumed_ms q = None \<and> now < ch_expires_ms q) t = [r]"
    if "ch_consumed_ms r = None" "now < ch_expires_ms r"
  proof -
    have "filter (\<lambda>q. ch_hash q = ?hash \<and> ch_consumed_ms q = None \<and> now < ch_expires_ms q) t = filter (\<lambda>q. q = r) t"
      using that same by (intro filter_cong refl) auto
    also have "\<dots> = [r]" using assms(4,6) by (intro filter_one) (simp_all add: distinct_map)
    finally show ?thesis .
  qed
  ultimately show ?thesis using assms(1-3) by (auto simp: consume_challenge_def Let_def)
qed

lemma list_ex_pair: "(a, b) \<in> set xs \<Longrightarrow> P a b \<Longrightarrow> list_ex (\<lambda>(x, t). P x t) xs"
  by (force simp: list_ex_iff)

lemma consume_missing:
  assumes "challenge \<noteq> []" "length challenge \<le> MAX_CHALLENGE_CHARS" "b64_decode B challenge = Some bytes"
    "sha256_hex S challenge \<notin> ch_hash ` set t"
  shows "fst (consume_challenge S B challenge now t) = Inl ChallengeUnknown"
proof -
  have "find (\<lambda>r. ch_hash r = sha256_hex S challenge) t = None" using assms(4) by (auto simp: find_None_iff image_iff)
  with assms(1-3) show ?thesis by (simp add: consume_challenge_def Let_def)
qed

lemma answer_true:
  assumes "history_ok h"
  shows "case fst (consume_challenge S B challenge now (hi_table h)) of
     Inl ChallengeMalformed \<Rightarrow> challenge = [] \<or> MAX_CHALLENGE_CHARS < length challenge \<or> b64_decode B challenge = None
   | Inl ChallengeConsumed \<Rightarrow> list_ex (\<lambda>(x, t). x = sha256_hex S challenge) (hi_spent h)
   | Inl ChallengeExpired \<Rightarrow> list_ex (\<lambda>(x, t). x = sha256_hex S challenge \<and> t + LIFETIME_MS \<le> now) (hi_issued h)
   | Inl ChallengeUnknown \<Rightarrow>
       list_all (\<lambda>(x, t). list_ex (\<lambda>at. t + LIFETIME_MS \<le> at) (hi_instants h))
         (filter (\<lambda>(x, t). x = sha256_hex S challenge) (hi_issued h))
   | Inr bytes \<Rightarrow> b64_decode B challenge = Some bytes \<and> list_ex (\<lambda>(x, t). x = sha256_hex S challenge \<and> now < t + LIFETIME_MS) (hi_issued h)
       \<and> length (filter (\<lambda>(x, t). x = sha256_hex S challenge) (hi_spent h)) < length (filter (\<lambda>(x, t). x = sha256_hex S challenge) (hi_issued h))"
proof (cases "challenge = [] \<or> MAX_CHALLENGE_CHARS < length challenge \<or> b64_decode B challenge = None")
  case True
  then show ?thesis by (auto simp: consume_challenge_def split: option.split)
next
  case False
  then obtain bytes where shape: "challenge \<noteq> []" "length challenge \<le> MAX_CHALLENGE_CHARS" "b64_decode B challenge = Some bytes"
    by auto
  have dis: "distinct (map ch_hash (hi_table h))" using assms by (simp add: history_ok_def)
  show ?thesis
  proof (cases "sha256_hex S challenge \<in> ch_hash ` set (hi_table h)")
    case False
    have "list_ex (\<lambda>at. t + LIFETIME_MS \<le> at) (hi_instants h)" if "(sha256_hex S challenge, t) \<in> set (hi_issued h)" for t
    proof -
      have "issue_kept h (sha256_hex S challenge, t)" using assms that by (simp add: history_ok_def list_all_iff)
      with False show ?thesis by (auto simp: issue_kept_def rows_of_def list_ex_iff)
    qed
    then show ?thesis by (auto simp: consume_missing [OF shape False] list_all_iff)
  next
    case True
    then obtain r where r: "r \<in> set (hi_table h)" "ch_hash r = sha256_hex S challenge" by auto
    have row: "row_true h r" using assms r(1) by (simp add: history_ok_def list_all_iff)
    have "ch_consumed_ms r = None \<Longrightarrow> unspent (sha256_hex S challenge) (hi_table h)"
      using r by (auto simp: unspent_def list_ex_iff)
    moreover have "times_in (sha256_hex S challenge) (hi_spent h) + (if unspent (sha256_hex S challenge) (hi_table h) then 1 else 0)
        \<le> times_in (sha256_hex S challenge) (hi_issued h)"
      using assms by (simp add: history_ok_def)
    ultimately have "ch_consumed_ms r = None \<Longrightarrow> times_in (sha256_hex S challenge) (hi_spent h) < times_in (sha256_hex S challenge) (hi_issued h)"
      by simp
    moreover have "(sha256_hex S challenge, ch_issued_ms r) \<in> set (hi_issued h)" "ch_expires_ms r = ch_issued_ms r + LIFETIME_MS"
      using row r(2) by (simp_all add: row_true_def)
    moreover have "ch_consumed_ms r \<noteq> None \<Longrightarrow> \<exists>t. (sha256_hex S challenge, t) \<in> set (hi_spent h)"
      using row r(2) by (force simp: row_true_def)
    ultimately show ?thesis
      using shape(3) by (auto simp: consume_found [OF shape r dis] times_in_def intro: list_ex_pair)
  qed
qed

lemma lifetime: "LIFETIME_MS = 600000"
  by (simp add: LIFETIME_MS_def)

text \<open>C40. What is said of a challenge is true. Whatever happened before: a challenge called spent was spent, one called
  expired was issued ten minutes ago or earlier, one called unknown was never issued or every issue of it was past its
  ten minutes at some call already made; and one that is honoured was issued less than ten minutes ago and more often
  than it was spent.\<close>
theorem a_refused_challenge_is_told_the_truth:
  "let h = history_of S B calls; hash = sha256_hex S challenge in
   case fst (consume_challenge S B challenge now (hi_table h)) of
     Inl ChallengeMalformed \<Rightarrow> challenge = [] \<or> MAX_CHALLENGE_CHARS < length challenge \<or> b64_decode B challenge = None
   | Inl ChallengeConsumed \<Rightarrow> list_ex (\<lambda>(x, t). x = hash) (hi_spent h)
   | Inl ChallengeExpired \<Rightarrow> list_ex (\<lambda>(x, t). x = hash \<and> t + 600000 \<le> now) (hi_issued h)
   | Inl ChallengeUnknown \<Rightarrow>
       list_all (\<lambda>(x, t). list_ex (\<lambda>at. t + 600000 \<le> at) (hi_instants h))
         (filter (\<lambda>(x, t). x = hash) (hi_issued h))
   | Inr bytes \<Rightarrow> b64_decode B challenge = Some bytes \<and> list_ex (\<lambda>(x, t). x = hash \<and> now < t + 600000) (hi_issued h)
       \<and> length (filter (\<lambda>(x, t). x = hash) (hi_spent h)) < length (filter (\<lambda>(x, t). x = hash) (hi_issued h))"
  unfolding Let_def by (rule answer_true [OF history_reached, unfolded lifetime])

end
