(* ===== verification/Spec2Isabelle.thy ===== *)
theory Spec2Isabelle
  imports
    Broker_Prelude Broker_Json Broker_Message Broker_Allowlist Broker_Redact
    Broker_Session Broker_Session_Inv Broker_Session_Props Broker_Session_Turns
    Broker_Capability Broker_Arbiter Broker_Leg Broker_Fanout Broker_Fanout_Bounds
    Broker_Refusal Broker_Policy Broker_Policy_Props Broker_Phone Broker_Notes
    Broker_Relay Broker_Relay_Run Broker_Relay_Props Broker_Relay_Head Broker_Relay_Report Broker_Relay_Example
    Protocol_Risk Protocol_Risk_Props Protocol_Uid Protocol_Uid_Props Protocol_Time Protocol_Time_Props Protocol_Time_Text
    Protocol_Bytes Protocol_Composite Protocol_Composite_Props Protocol_Hash Protocol_Hash_Props
    Ccd_Push_Gate Ccd_Push_Gate_Props Simulation Ccd_Push_Queue Ccd_Push_Queue_Props Ccd_Push_Mailbox
    Ccd_Approval Ccd_Approval_Props
    Claim_Ledger Ccd_Ledger Ccd_Ledger_Props Ccd_Refusals Ccd_Link Ccd_Link_Broker Ccd_Asks Ccd_Asks_Props Ccd_Asks_Record
    Ccd_Attach Ccd_Attach_Frame Ccd_Attach_Props Ccd_Attach_Owed
    Protocol_Event Ccd_Adapter Ccd_Adapter_Props Ccd_Link_Facts Ccd_Store Ccd_Store_Props
    Ccd_Delivery Ccd_Delivery_Props Ccd_Delivery_Quiet Ccd_Delivery_Replay
    Binary64 Relay_Limit Relay_Limit_Props Relay_Limit_Rate Relay_Challenge Relay_Challenge_Props
begin

text \<open>
  A verification library for CodeConnect, the program that lets a phone watch and steer the coding agents of a
  Mac. All paths are under \<open>src/mac/\<close>.

  \<^bold>\<open>The program.\<close> An agent runs on the Mac in a session. For a Codex session a \<^emph>\<open>broker\<close>
  (\<open>codex-broker\<close>) stands between the app-server and its clients: the keyboard on one leg, the daemon on a
  restricted leg. The daemon (\<open>ccd\<close>) keeps the event log and the claim ledgers, holds a \<^emph>\<open>link\<close> to each
  session's broker, turns approval requests into cards, takes answers, messages and stops from the phone, and
  pushes to it. Types and identities both sides rely on are in \<open>protocol\<close>. A phone can do harm in four
  ways, and they order the library: a frame that the broker should have stopped, an answer the app-server never
  offered, bytes that are written twice, and a word to the phone that is not true.

  \<^bold>\<open>Theories and sources.\<close>
  \<^item> \<open>Broker_Prelude\<close>: hash tables as association lists with distinct keys, strings as bytes, the collections of
    facts. \<open>Broker_Json\<close>: JSON values, and \<open>ext\<close>, the record of what is not in the repository.
  \<^item> \<open>Broker_Message\<close> (\<open>message.rs\<close>): the strict parse, the shape of a message, request ids, the header scan.
    \<open>Broker_Allowlist\<close>, \<open>Broker_Redact\<close>: the method table and what may stand in a log note.
  \<^item> \<open>Broker_Session\<close> (\<open>session.rs\<close>): the record \<open>session_threads\<close> and one definition per method; \<open>_Inv\<close>, \<open>_Props\<close>,
    \<open>_Turns\<close>: the invariant of every run, the memory bounds, and what one request and one ended turn keep.
  \<^item> \<open>Broker_Capability\<close> (\<open>response_capability.rs\<close>): the arbiter all legs share and a leg's own view. \<open>Broker_Arbiter\<close> states
    the contract as the locale \<open>slot_arbiter\<close> and interprets it; \<open>Broker_Leg\<close>, \<open>Broker_Fanout\<close>, \<open>Broker_Fanout_Bounds\<close>
    take it to one leg, to all legs interleaved, and to what they store and log.
  \<^item> \<open>Broker_Refusal\<close> (\<open>refusal.rs\<close>): the fate of a phone's message, \<open>classify\<close> and \<open>decide\<close>. \<open>Broker_Policy\<close> states the policy
    without the code's order and sentences, \<open>Broker_Policy_Props\<close> proves the two equal, over the locale \<open>phone_env\<close>
    and its interpretations on the session and the capabilities; \<open>Broker_Phone\<close> and \<open>Broker_Notes\<close>: what follows for what
    the app-server is sent and for what the phone and the log are told.
  \<^item> \<open>Broker_Relay\<close> (\<open>relay.rs\<close>): what a connection does with each message. \<open>_Run\<close> interleaves any number of
    connections; \<open>_Props\<close>: an approval is written once, but for the keyboard's answers on a leg that can name none; \<open>_Head\<close>: the
    head is put on every phone leg's socket; \<open>_Report\<close>: a disposition says what became of the answer; \<open>_Example\<close>: one
    session step by step.
  \<^item> \<open>Protocol_Risk\<close> (\<open>risk.rs\<close>), \<open>Protocol_Uid\<close> (\<open>uid.rs\<close>), \<open>Protocol_Time\<close> (\<open>time.rs\<close>), \<open>Protocol_Bytes\<close> and
    \<open>Protocol_Composite\<close> (\<open>composite_id.rs\<close>), \<open>Protocol_Hash\<close> (\<open>hash.rs\<close>), each with its \<open>_Props\<close>: the risk class of a card, session
    ids, instants, the wire id of an approval, and the identities mutations are recorded under.
  \<^item> \<open>Ccd_Approval\<close> (\<open>codex_approval.rs\<close>): from a request to its card and from a choice to the decision on the wire.
  \<^item> \<open>Ccd_Push_Gate\<close> (\<open>push_gate.rs\<close>), \<open>Ccd_Push_Queue\<close> (\<open>push_queue.rs\<close>, \<open>apns.rs\<close>): what may ring a phone and how pushes
    leave. \<open>Ccd_Push_Mailbox\<close> is the abstract mailbox, and an interpretation of the locale \<open>simulation\<close> (\<open>Simulation\<close>).
  \<^item> \<open>Claim_Ledger\<close>: the locale \<open>claim_ledger\<close>, the law the writers rely on. \<open>Ccd_Ledger\<close> (\<open>store.rs\<close>): the tables
    \<open>mutation_ledger\<close> and \<open>text_mutations\<close> as lists of rows, one definition per statement; \<open>Ccd_Ledger_Props\<close> interprets
    the locale on both.
  \<^item> \<open>Ccd_Link\<close> (\<open>codex_link.rs\<close>): registration, what a frame is about, which visit it must belong to, where an ask is
    refused and the frames that are written. \<open>Ccd_Refusals\<close> (\<open>codex_refusals.rs\<close>): the sentences.
    \<open>Ccd_Link_Broker\<close> puts the daemon's frames through the broker's checks.
  \<^item> \<open>Ccd_Asks\<close> (\<open>codex_link.rs\<close>): a message and a stop from the ask to what each caller is told, over the ledger,
    with every step other tasks may take in between; \<open>_Props\<close>, \<open>_Record\<close>: written once, told once, told what is recorded.
  \<^item> \<open>Ccd_Attach\<close> (\<open>codex_link.rs\<close>, \<open>serve_connection\<close>): the connection's attach as a state machine, one definition per
    method and one per stretch of the loop; \<open>_Frame\<close>: what the operations leave alone; \<open>_Props\<close>, \<open>_Owed\<close>: whose thread
    a generation is, no resume beside another, no spinning, what is owed and for how long.
  \<^item> \<open>Ccd_Adapter\<close> (\<open>codex_adapter.rs\<close>): the facts made of live frames and of the answer to a resume, with the items
    and totals held between frames; \<open>_Props\<close>: recovered facts are the live ones, under keys of their own, threads apart,
    what an aborted turn closes. \<open>Ccd_Link_Facts\<close> joins it to the attach: a turn joined while it ran is asked about again.
  \<^item> \<open>Protocol_Event\<close> (\<open>event.rs\<close>): a fact, its kinds, sources and spellings. \<open>Ccd_Store\<close> (\<open>store.rs\<close>): the tables of runs, facts,
    cursors and deletions as lists of rows, one definition per statement, and \<open>store_step\<close>, any call on them; \<open>_Props\<close>:
    numbers without a gap, history that only grows, deletions that stay.
  \<^item> \<open>Ccd_Delivery\<close> (\<open>ws_server.rs\<close>; \<open>ingest\<close>, \<open>ingest_scan\<close> of \<open>state.rs\<close>): filing and publishing, and one phone connection's live
    facts, replays and pages; \<open>_Props\<close>, \<open>_Quiet\<close>, \<open>_Replay\<close>: in order and once, nothing missed, and when a replay ends.
  \<^item> \<open>Binary64\<close>: rounding to binary64, as the locale \<open>rounding\<close> and its interpretation. \<open>Relay_Limit\<close>
    (\<open>push-relay/src/ratelimit.rs\<close>): the token bucket and the daily count; \<open>_Props\<close>, \<open>_Rate\<close>: what a day and a rate let through,
    what a peek says, with the checks of \<open>enroll.rs\<close> whose transaction is dropped. \<open>Relay_Challenge\<close> (\<open>push-relay/src/challenge.rs\<close>), \<open>_Props\<close>: challenges, spent once and told truly.

  \<^bold>\<open>How state and effects are written.\<close> A struct is a record, an enum a datatype, a method a function from the state to
  its result and the state behind it; a fallible one answers a sum, \<open>Inl\<close> the error. Where several tasks or
  connections share state, a step function takes one event of one of them, and a run is any list of events: every
  interleaving is a list. What a lock covers is one step; what happens across an \<open>await\<close> is several. Integers that
  are compared or wrap at their width are words (generations, epochs, connection ids, uid bits, the counters of the
  hash loop); the others are \<open>nat\<close> or \<open>int\<close>, with the source's checks on their range written out. Strings are lists of
  bytes. Instants are arguments.

  \<^bold>\<open>Parameters.\<close> What is not in the repository is an argument: \<open>serde_json\<close>'s reader and writer and Unicode's
  verbatim test (\<open>ext\<close>), the base64 engine (\<open>b64\<close>, with \<open>base64_laws\<close> where a round trip needs it), SHA-256, the
  registries of live connections, the operating system's entropy and clocks. What another task, the database
  or a transport answers is part of an event; so are, in \<open>Ccd_Attach\<close>, the adapter's facts, which \<open>Ccd_Link_Facts\<close> takes
  from the adapter.

  \<^bold>\<open>Lemma groups.\<close> Each component has an invariant and a preservation lemma per operation, collected under
  \<open>broker_inv\<close>, \<open>broker_frame\<close> and, for the link, \<open>rest_of\<close> and \<open>same_dues\<close> (what an operation leaves alone); case
  rules that say what an operation comes to (\<open>apply_held_cases\<close>, \<open>on_frame_cases\<close>); exact characterisations of each
  parser and check; and the properties, each a few steps over those.

  \<^bold>\<open>Bounds and recursion.\<close> All recursion is structural or has a measure; no fuel is used. The size limits
  of the code (request ids, members, remembered turns and approvals, queue places, owed recoveries, scan length) are
  constants of the model with the code's values, and the bounds theorems are stated with them.

  \<^bold>\<open>Not modelled.\<close> Sockets, TLS, files, processes and the terminal; the daemon's hub (\<open>state.rs\<close>) but for the two
  functions that file facts, whose arguments are the facts as \<open>truncate_payload\<close> leaves them; of the store the tables of
  approvals (\<open>pending_approvals\<close>, \<open>codex_pending_approvals\<close>), of answers (\<open>answers\<close>, \<open>answer_claims\<close>), of mail
  (\<open>mail\<close>, \<open>mail_sent\<close>, \<open>mail_wake\<close>, \<open>mail_runs\<close>), of pairing codes and of devices, of which only what a deletion sweeps is
  here (\<open>st_other_scoped\<close>); the link's approval cards; the transports behind the push queue; the relay's HTTP
  handlers; supervision, installation and updates; the load test and the demonstration server. Log lines are
  left out where they carry no state.
\<close>

section \<open>Properties across components\<close>

lemma id_bytes_inj:
  assumes "id_short i" "composite_valid i" "id_short j" "composite_valid j" "id_bytes i = id_bytes j"
  shows "i = j"
  using assms read_material_iff [of "id_bytes i" i] read_material_iff [of "id_bytes i" j] by simp

lemma encode_inj:
  assumes "base64_laws B" "composite_valid i" "composite_valid j"
    "composite_encode B i = Inr w" "composite_encode B j = Inr w"
  shows "i = j"
proof -
  have "id_bytes i = id_bytes j"
    using assms(1,4,5) by (metis base64_laws_def encode_iff option.inject)
  with assms show ?thesis by (intro id_bytes_inj) (simp_all add: encode_iff)
qed

text \<open>A card's id names one question of one visit. Two approvals that the derivation gives the same
  request id are of the same session, thread, item and visit, and are then the same entry of the phone;
  in particular a question that is asked again on a later visit has another id, so an answer to the
  earlier card cannot be taken for it.\<close>
theorem a_request_id_names_one_question:
  assumes "base64_laws B"
    and "list_all utf8_valid [uid, ap_thread_id a, ap_item_id a, uid', ap_thread_id b, ap_item_id b]"
    and "approval_request_id B a uid visit = Inr w" "approval_request_id B b uid' visit' = Inr w"
  shows "uid = uid' \<and> ap_thread_id a = ap_thread_id b \<and> ap_item_id a = ap_item_id b \<and> visit = visit'"
  using encode_inj [OF assms(1) _ _ assms(3) [unfolded approval_request_id_def] assms(4) [unfolded approval_request_id_def]]
    assms(2) by (simp add: composite_valid_def)

lemma a_request_id_names_one_question_witness:
  "''u'' = ''u'' \<and> ap_thread_id one_choice = ap_thread_id one_choice \<and> ap_item_id one_choice = ap_item_id one_choice \<and>
    (7 :: 64 word) = 7"
proof -
  have "base64_laws plain_b64" by (simp add: base64_laws_def plain_b64_def)
  moreover have "list_all utf8_valid [''u'', ap_thread_id one_choice, ap_item_id one_choice, ''u'', ap_thread_id one_choice, ap_item_id one_choice]"
    by (simp add: one_choice_def byte_def)
  moreover have "\<exists>w. approval_request_id plain_b64 one_choice ''u'' 7 = Inr w"
    by (simp add: approval_request_id_def encode_iff id_short_def request_id_short_def caps one_choice_def)
  ultimately show ?thesis using a_request_id_names_one_question by blast
qed

text \<open>The class on a card is of the whole command. However much of a command the card shows, and
  whatever surrounds it in the request, the card is high exactly when the command is too long to be
  scanned or some destructive pattern is found in all of it: nothing behind the cut is judged harmless.\<close>
theorem a_card_is_classed_by_the_whole_command:
  assumes "approval_read CommandFamily params item = Inr a" "jget ''command'' params = Some (JStr command)"
  shows "map_option ra_class (ac_risk (approval_card_of L S a request_id visit)) = Some High \<longleftrightarrow>
    MAX_SCAN_BYTES < length command \<or> destructive_pattern command \<noteq> None"
proof -
  from approval_read_Inr [OF assms(1)] assms(2)
  have "\<exists>cwd reason amendment. ap_context a = CommandContext command cwd reason amendment"
    by (auto simp: read_context_def optional_iff eq_commute [of _ "ap_context a"] split: if_splits option.splits)
  then obtain cwd reason amendment where "ap_context a = CommandContext command cwd reason amendment" by blast
  then have "command_of (classified a) = Some command"
    by (simp add: classified_def command_of_def jget_def as_str_def)
  from risk_of_command [OF this] show ?thesis by (simp add: approval_card_of_def Let_def)
qed

lemma a_card_is_classed_witness:
  "map_option ra_class (ac_risk (approval_card_of no_writer short_sha one_choice ''r'' 1)) = Some High \<longleftrightarrow>
    MAX_SCAN_BYTES < length ''ls'' \<or> destructive_pattern ''ls'' \<noteq> None"
  by (rule a_card_is_classed_by_the_whole_command [OF one_offer_read]) (simp add: one_offer_def jget_def)

end
